(* ===== verification/Prelude.thy ===== *)
theory Prelude
  imports Main "HOL-Library.Word" "HOL-Library.AList" "HOL-Library.List_Lexorder"
    "HOL-Library.Char_ord"
begin

text \<open>
  Shared vocabulary of the development: the Go base types the modelled packages use,
  Go maps as association lists, instants and durations of package time, the sorting
  functions of package sort, and the collections of lemmas the component proofs run on.

  \<^item> A Go string is a byte sequence: \<open>string\<close>, a list of \<open>char\<close>, each of which is one byte.
  \<^item> \<open>uint64\<close> is \<open>64 word\<close>: its additions wrap.
  \<^item> \<open>int\<close> and \<open>int64\<close> are \<open>int\<close>; where the code guards against overflow the
    guard is written out with \<open>maxInt\<close>.
  \<^item> \<open>map[K]V\<close> is an association list with distinct keys: \<open>map_of m k\<close> reads, \<open>AList.update\<close>
    stores, \<open>AList.delete\<close> deletes, \<open>length\<close> is Go's \<open>len\<close>. A range loop over a map visits
    the list in order; Go leaves the order open, so it is used only where the order
    cannot be observed.
  \<^item> \<open>time.Time\<close> is the number of nanoseconds since Go's zero instant, so \<open>IsZero\<close> is
    \<open>t = 0\<close>; \<open>time.Duration\<close> is a number of nanoseconds.
\<close>

section \<open>Base types\<close>

type_synonym u64 = "64 word"
type_synonym ('k, 'v) gomap = "('k \<times> 'v) list"
type_synonym gotime = int
type_synonym duration = int

definition maxInt :: int where
  "maxInt = 2 ^ 63 - 1"

definition maxDuration :: duration where
  "maxDuration = 2 ^ 63 - 1"

definition minDuration :: duration where
  "minDuration = - (2 ^ 63)"

text \<open>\<open>time.Time.Sub\<close> saturates at the extreme durations.\<close>

definition time_sub :: "gotime \<Rightarrow> gotime \<Rightarrow> duration" where
  "time_sub t u = max minDuration (min maxDuration (t - u))"

definition timePointer :: "gotime \<Rightarrow> gotime option" where
  "timePointer t = (if t = 0 then None else Some t)"

section \<open>Collections of facts\<close>

named_theorems gomap_simps \<open>reading and writing Go maps\<close>
named_theorems inv_intros \<open>operations keep the invariant\<close>
named_theorems frame_simps \<open>fields an operation leaves alone\<close>

section \<open>Go maps\<close>

abbreviation gkeys :: "('k, 'v) gomap \<Rightarrow> 'k list" where
  "gkeys m \<equiv> map fst m"

abbreviation gdistinct :: "('k, 'v) gomap \<Rightarrow> bool" where
  "gdistinct m \<equiv> distinct (map fst m)"

text \<open>The loop \<open>for k, v := range m { if !keep { delete(m, k) } }\<close>.\<close>

definition gfilter :: "('k \<Rightarrow> 'v \<Rightarrow> bool) \<Rightarrow> ('k, 'v) gomap \<Rightarrow> ('k, 'v) gomap" where
  "gfilter keep m = filter (\<lambda>(k, v). keep k v) m"

text \<open>The loop \<open>for k, v := range m { m[k] = f(k, v) }\<close>.\<close>

definition gmapvals :: "('k \<Rightarrow> 'v \<Rightarrow> 'v) \<Rightarrow> ('k, 'v) gomap \<Rightarrow> ('k, 'v) gomap" where
  "gmapvals f m = map (\<lambda>(k, v). (k, f k v)) m"

text \<open>How many entries of a map have a value that satisfies \<open>P\<close>.\<close>

definition gcount :: "('v \<Rightarrow> bool) \<Rightarrow> ('k, 'v) gomap \<Rightarrow> nat" where
  "gcount P m = length (filter (\<lambda>(k, v). P v) m)"

declare map_of_eq_Some_iff [simp del] Some_eq_map_of_iff [simp del]

lemma gmap_update [gomap_simps]: "map_of (AList.update k v m) = (map_of m)(k \<mapsto> v)"
  by (rule update_conv')

lemma gmap_delete [gomap_simps]: "map_of (AList.delete k m) = (map_of m)(k := None)"
  by (rule delete_conv')

lemma gdistinct_update [simp, intro]: "gdistinct m \<Longrightarrow> gdistinct (AList.update k v m)"
  by (rule distinct_update)

lemma gdistinct_delete [simp, intro]: "gdistinct m \<Longrightarrow> gdistinct (AList.delete k m)"
  by (rule distinct_delete)

lemma gdistinct_gfilter [simp, intro]: "gdistinct m \<Longrightarrow> gdistinct (gfilter P m)"
  by (auto simp: gfilter_def distinct_map intro: inj_on_subset)

lemma gkeys_gmapvals [simp]: "gkeys (gmapvals f m) = gkeys m"
  by (induction m) (auto simp: gmapvals_def)

lemma map_of_gmapvals [gomap_simps]:
  "map_of (gmapvals f m) k = map_option (f k) (map_of m k)"
  by (induction m) (auto simp: gmapvals_def)

lemma map_of_gfilter [gomap_simps]:
  "gdistinct m \<Longrightarrow> map_of (gfilter P m) k =
     (case map_of m k of None \<Rightarrow> None | Some v \<Rightarrow> if P k v then Some v else None)"
proof (induction m)
  case (Cons x m)
  obtain a b where [simp]: "x = (a, b)" by force
  from Cons.prems have "map_of m a = None" by (auto simp: map_of_eq_None_iff)
  with Cons show ?case by (auto simp: gfilter_def split: option.splits)
qed (simp add: gfilter_def)

lemma gfilter_True [simp]: "gfilter (\<lambda>_ _. True) m = m"
  by (simp add: gfilter_def case_prod_unfold)

lemma length_gfilter_le: "length (gfilter P m) \<le> length m"
  by (simp add: gfilter_def)

lemma gcount_update_fresh:
  "map_of m k = None \<Longrightarrow> gcount P (AList.update k v m) = gcount P m + (if P v then 1 else 0)"
  by (induction m) (auto simp: gcount_def split: if_splits)

lemma gcount_delete:
  "gdistinct m \<Longrightarrow> map_of m k = Some v \<Longrightarrow>
     gcount P m = gcount P (AList.delete k m) + (if P v then 1 else 0)"
proof (induction m)
  case (Cons x m)
  obtain a b where [simp]: "x = (a, b)" by force
  show ?case
  proof (cases "a = k")
    case True
    with Cons.prems have "AList.delete k m = m" and "b = v" by auto
    with True show ?thesis by (auto simp: gcount_def)
  next
    case False
    with Cons have "gcount P m = gcount P (AList.delete k m) + (if P v then 1 else 0)" by auto
    with False show ?thesis by (auto simp: gcount_def)
  qed
qed simp

lemma gcount_pos: "map_of m k = Some v \<Longrightarrow> P v \<Longrightarrow> 0 < gcount P m"
  by (auto simp: gcount_def filter_empty_conv dest!: map_of_SomeD)

lemma gcount_zeroD: "gcount P m = 0 \<Longrightarrow> map_of m k = Some v \<Longrightarrow> \<not> P v"
  using gcount_pos by fastforce

lemma gcount_posE:
  assumes "0 < gcount P m" and "gdistinct m"
  obtains k v where "map_of m k = Some v" and "P v"
proof -
  from assms(1) have "filter (\<lambda>(k, v). P v) m \<noteq> []" by (auto simp: gcount_def)
  then obtain k v where "(k, v) \<in> set m" "P v" by (auto simp: filter_empty_conv)
  with assms(2) that show thesis by (metis map_of_eq_Some_iff)
qed

lemma gcount_cong:
  "(\<And>k v. map_of m k = Some v \<Longrightarrow> P v = Q v) \<Longrightarrow> gdistinct m \<Longrightarrow> gcount P m = gcount Q m"
  unfolding gcount_def by (rule arg_cong [where f = length], rule filter_cong) (auto simp: map_of_eq_Some_iff)

lemma length_update_fresh: "map_of m k = None \<Longrightarrow> length (AList.update k v m) = Suc (length m)"
  by (induction m) (auto split: if_splits)

lemma length_update_present: "map_of m k = Some w \<Longrightarrow> length (AList.update k v m) = length m"
  by (induction m) (auto split: if_splits)

lemma length_delete_present:
  "gdistinct m \<Longrightarrow> map_of m k = Some v \<Longrightarrow> length m = Suc (length (AList.delete k m))"
proof (induction m)
  case (Cons x m)
  obtain a b where [simp]: "x = (a, b)" by force
  show ?case
  proof (cases "a = k")
    case True
    with Cons.prems have "AList.delete k m = m" by auto
    with True show ?thesis by simp
  next
    case False
    with Cons have "length m = Suc (length (AList.delete k m))" by auto
    with False show ?thesis by simp
  qed
qed simp

section \<open>Early returns\<close>

text \<open>
  A validation function is a sequence of checks, each of which may return an error:
  \<open>checks\<close> is the first error of the sequence, \<open>check c e\<close> the statement
  \<open>if c { return e }\<close>.
\<close>

definition check :: "bool \<Rightarrow> 'e \<Rightarrow> 'e option" where
  "check c e = (if c then Some e else None)"

fun checks :: "'e option list \<Rightarrow> 'e option" where
  "checks [] = None"
| "checks (x # xs) = (case x of Some e \<Rightarrow> Some e | None \<Rightarrow> checks xs)"

declare checks.simps [simp del]

lemma check_None [simp]: "check c e = None \<longleftrightarrow> \<not> c"
  by (simp add: check_def)

lemma checks_Cons_None: "checks (x # xs) = None \<longleftrightarrow> x = None \<and> checks xs = None"
  by (simp add: checks.simps split: option.split)

lemma checks_None [simp]: "checks xs = None \<longleftrightarrow> (\<forall>x \<in> set xs. x = None)"
  by (induction xs) (auto simp: checks.simps split: option.split)

section \<open>Instants\<close>

lemma time_sub_neg_iff: "time_sub t u < 0 \<longleftrightarrow> t < u"
  by (auto simp: time_sub_def minDuration_def maxDuration_def max_def min_def)

lemma time_sub_gt_iff:
  "0 \<le> w \<Longrightarrow> w < maxDuration \<Longrightarrow> time_sub t u > w \<longleftrightarrow> t - u > w"
  by (auto simp: time_sub_def minDuration_def maxDuration_def max_def min_def)

lemma timePointer_Some [simp]: "timePointer t = Some u \<longleftrightarrow> t = u \<and> t \<noteq> 0"
  by (auto simp: timePointer_def)

lemma timePointer_None [simp]: "timePointer t = None \<longleftrightarrow> t = 0"
  by (simp add: timePointer_def)

section \<open>Sorting\<close>

text \<open>
  \<open>sort.SliceStable\<close> with the order ``key descending'' is Isabelle's stable insertion sort
  on the negated key.
\<close>

definition stable_sort_desc :: "('a \<Rightarrow> int) \<Rightarrow> 'a list \<Rightarrow> 'a list" where
  "stable_sort_desc f xs = sort_key (\<lambda>x. - f x) xs"

lemma set_stable_sort_desc [simp]: "set (stable_sort_desc f xs) = set xs"
  by (simp add: stable_sort_desc_def)

lemma mset_stable_sort_desc [simp]: "length (stable_sort_desc f xs) = length xs"
  by (simp add: stable_sort_desc_def)

lemma stable_sort_desc_sorted: "sorted_wrt (\<lambda>x y. f x \<ge> f y) (stable_sort_desc f xs)"
proof -
  have "sorted (map (\<lambda>x. - f x) (stable_sort_desc f xs))"
    by (simp add: stable_sort_desc_def)
  then show ?thesis by (simp add: sorted_wrt_map)
qed

lemma stable_sort_desc_stable:
  "filter (\<lambda>x. f x = p) (stable_sort_desc f xs) = filter (\<lambda>x. f x = p) xs"
  using sort_key_stable [of "\<lambda>x. - f x" "- p" xs] by (simp add: stable_sort_desc_def)

end
