(* ===== verification/Text_Limit.thy ===== *)
theory Text_Limit
  imports Prelude
begin

text \<open>
  Package textlimit (\<open>internal/textlimit/text.go\<close>) and the parts of Go's \<open>unicode/utf8\<close> it
  uses. \<open>Prefix\<close> bounds a diagnostic text without splitting a UTF-8 character. The
  specification is an encoding predicate \<open>is_rune\<close>: a valid text is a concatenation of
  runes, and \<open>Prefix\<close> of a valid text is the longest concatenation of its leading runes
  that fits the limit.
\<close>

section \<open>The standard library: utf8\<close>

definition byte :: "char \<Rightarrow> nat" where
  "byte c = of_char c"

definition RuneStart :: "char \<Rightarrow> bool" where
  "RuneStart c = (byte c div 64 \<noteq> 2)"

definition UTFMax :: nat where
  "UTFMax = 4"

text \<open>
  The table \<open>first\<close> of package utf8: the size of the sequence a lead byte announces
  (0 for ASCII, 1 for an invalid lead byte) and the accepted range of the second byte.
\<close>

definition first_size :: "nat \<Rightarrow> nat" where
  "first_size b =
     (if b < 128 then 0 else if b < 194 then 1 else if b < 224 then 2
      else if b < 240 then 3 else if b < 245 then 4 else 1)"

definition accept_lo :: "nat \<Rightarrow> nat" where
  "accept_lo b = (if b = 224 then 160 else if b = 240 then 144 else 128)"

definition accept_hi :: "nat \<Rightarrow> nat" where
  "accept_hi b = (if b = 237 then 159 else if b = 244 then 143 else 191)"

definition FullRuneInString :: "string \<Rightarrow> bool" where
  "FullRuneInString s =
     (if s = [] then False
      else let x = byte (s ! 0) in
        if length s \<ge> first_size x then True
        else if length s > 1 \<and> (byte (s ! 1) < accept_lo x \<or> accept_hi x < byte (s ! 1)) then True
        else if length s > 2 \<and> (byte (s ! 2) < 128 \<or> 191 < byte (s ! 2)) then True
        else False)"

section \<open>The bounded prefix\<close>

definition DiagnosticBytes :: nat where
  "DiagnosticBytes = 8 * 1024"

text \<open>
  The loop of \<open>Prefix\<close>: \<open>j\<close> counts the bytes looked at from the end, so the index \<open>i\<close> of
  the source is \<open>stop - j\<close> and the guard \<open>i >= 0 && i >= end - UTFMax\<close> is
  \<open>j \<le> stop \<and> j \<le> UTFMax\<close>.
\<close>

function prefix_cut :: "string \<Rightarrow> nat \<Rightarrow> nat \<Rightarrow> nat" where
  "prefix_cut str stop j =
     (if j \<le> stop \<and> j \<le> UTFMax
      then let i = stop - j in
        if RuneStart (str ! i)
        then (if \<not> FullRuneInString (take j (drop i str)) then i else stop)
        else prefix_cut str stop (Suc j)
      else stop)"
  by pat_completeness auto
termination
  by (relation "measure (\<lambda>(str, stop, j). Suc UTFMax - j)") (auto simp: UTFMax_def)

declare prefix_cut.simps [simp del]

definition Prefix :: "string \<Rightarrow> nat \<Rightarrow> string \<times> bool" where
  "Prefix str limit =
     (if length str < limit then (str, False)
      else let stop = prefix_cut str limit 1 in (take stop str, length str > stop))"

section \<open>UTF-8 texts\<close>

definition cont_byte :: "char \<Rightarrow> bool" where
  "cont_byte c = (128 \<le> byte c \<and> byte c \<le> 191)"

text \<open>One encoded character: a lead byte and the continuation bytes it announces.\<close>

definition is_rune :: "string \<Rightarrow> bool" where
  "is_rune r =
     (case r of [] \<Rightarrow> False
      | a # cs \<Rightarrow>
         (if byte a < 128 then cs = []
          else 1 < first_size (byte a) \<and> length r = first_size (byte a) \<and> list_all cont_byte cs \<and>
               accept_lo (byte a) \<le> byte (cs ! 0) \<and> byte (cs ! 0) \<le> accept_hi (byte a)))"

definition valid_utf8 :: "string \<Rightarrow> bool" where
  "valid_utf8 s = (\<exists>rs. list_all is_rune rs \<and> s = concat rs)"

lemma byte_less: "byte c < 256"
  by (simp add: byte_def)

lemma cont_not_start: "cont_byte c \<Longrightarrow> \<not> RuneStart c"
  using div_nat_eqI [of 64 2 "byte c"] by (simp add: cont_byte_def RuneStart_def)

lemma rune_shape:
  assumes "is_rune r"
  shows "r \<noteq> []" and "length r \<le> UTFMax" and "RuneStart (r ! 0)"
    and "\<And>k. 0 < k \<Longrightarrow> k < length r \<Longrightarrow> \<not> RuneStart (r ! k)"
    and "FullRuneInString r"
proof -
  from assms obtain a cs where r: "r = a # cs" by (cases r) (auto simp: is_rune_def)
  show "r \<noteq> []" by (simp add: r)
  show "length r \<le> UTFMax"
    using assms by (auto simp: is_rune_def r first_size_def UTFMax_def split: if_splits)
  show "RuneStart (r ! 0)"
    using assms byte_less [of a]
    by (auto simp: is_rune_def r first_size_def RuneStart_def split: if_splits)
  show "\<not> RuneStart (r ! k)" if "0 < k" "k < length r" for k
  proof -
    from that have "r ! k \<in> set cs" by (cases k) (auto simp: r)
    moreover have "list_all cont_byte cs"
      using assms that by (auto simp: is_rune_def r split: if_splits)
    ultimately show ?thesis by (auto simp: list_all_iff dest: cont_not_start)
  qed
  show "FullRuneInString r"
    using assms
    by (auto simp: is_rune_def r FullRuneInString_def first_size_def Let_def split: if_splits)
qed

lemma partial_rune_not_full:
  assumes "is_rune r" and "0 < j" and "j < length r"
  shows "\<not> FullRuneInString (take j r)"
proof -
  from assms(1) obtain a cs where r: "r = a # cs" by (cases r) (auto simp: is_rune_def)
  from assms(2,3) obtain k where k: "j = Suc k" and "k < length cs" by (cases j) (auto simp: r)
  have size: "length r = first_size (byte a)" and cont: "list_all cont_byte cs"
    and lo: "accept_lo (byte a) \<le> byte (cs ! 0)" and hi: "byte (cs ! 0) \<le> accept_hi (byte a)"
    using assms by (auto simp: is_rune_def r split: if_splits)
  have "cont_byte (cs ! 1)" if "1 < k"
    using cont \<open>k < length cs\<close> that by (auto simp: list_all_length)
  with size lo hi \<open>k < length cs\<close> show ?thesis
    by (auto simp: FullRuneInString_def r k Let_def cont_byte_def)
qed

text \<open>Continuation bytes are walked over; the walk stops at the lead byte of the last rune.\<close>

lemma prefix_cut_walk:
  assumes "j \<le> m" and "m \<le> stop" and "m \<le> UTFMax" and "0 < j"
    and "RuneStart (str ! (stop - m))"
    and "\<And>k. j \<le> k \<Longrightarrow> k < m \<Longrightarrow> \<not> RuneStart (str ! (stop - k))"
  shows "prefix_cut str stop j =
           (if FullRuneInString (take m (drop (stop - m) str)) then stop else stop - m)"
  using assms
proof (induction str stop j rule: prefix_cut.induct)
  case (1 str stop j)
  show ?case
  proof (cases "j = m")
    case True
    with "1.prems" show ?thesis by (subst prefix_cut.simps) (simp add: Let_def)
  next
    case False
    with "1.prems"(1,6) have nostart: "\<not> RuneStart (str ! (stop - j))" by simp
    have guard: "j \<le> stop \<and> j \<le> UTFMax" using "1.prems"(1-3) by simp
    have "prefix_cut str stop (Suc j) =
        (if FullRuneInString (take m (drop (stop - m) str)) then stop else stop - m)"
      using "1.prems" False by (intro "1.IH" [OF guard refl nostart]) auto
    with guard nostart show ?thesis by (subst prefix_cut.simps) (simp add: Let_def)
  qed
qed

lemma not_full_short: "\<not> FullRuneInString r \<Longrightarrow> length r < UTFMax"
  by (auto simp: FullRuneInString_def first_size_def UTFMax_def Let_def split: if_splits)

lemma prefix_cut_bounds:
  assumes "0 < j" and "stop \<le> length str"
  shows "prefix_cut str stop j \<le> stop \<and> stop < prefix_cut str stop j + UTFMax"
  using assms
proof (induction str stop j rule: prefix_cut.induct)
  case (1 str stop j)
  have "j < UTFMax" if "j \<le> stop" "\<not> FullRuneInString (take j (drop (stop - j) str))"
    using not_full_short [OF that(2)] that(1) "1.prems"(2) by simp
  with "1" show ?case by (subst (1 2) prefix_cut.simps) (auto simp: Let_def UTFMax_def)
qed

text \<open>Where a cut at byte \<open>n\<close> falls in a concatenation of runes.\<close>

lemma cut_in_concat:
  "n \<le> length (concat rs) \<Longrightarrow>
     (\<exists>k j. k \<le> length rs \<and> n = length (concat (take k rs)) + j \<and>
        (if k < length rs then j < length (rs ! k) \<or> j = 0 else j = 0))"
proof (induction rs arbitrary: n)
  case Nil
  then show ?case by auto
next
  case (Cons r rs)
  show ?case
  proof (cases "n < length r")
    case True
    then show ?thesis by (intro exI [of _ 0] exI [of _ n]) auto
  next
    case False
    then have "n - length r \<le> length (concat rs)" using Cons.prems by auto
    from Cons.IH [OF this] obtain k j where
      "k \<le> length rs" "n - length r = length (concat (take k rs)) + j"
      "if k < length rs then j < length (rs ! k) \<or> j = 0 else j = 0" by blast
    with False show ?thesis by (intro exI [of _ "Suc k"] exI [of _ j]) auto
  qed
qed

lemma concat_take_Suc: "k < length rs \<Longrightarrow> concat (take (Suc k) rs) = concat (take k rs) @ rs ! k"
  by (simp add: take_Suc_conv_app_nth)

lemma nth_concat_rune:
  assumes "k < length rs" and "j < length (rs ! k)"
  shows "concat rs ! (length (concat (take k rs)) + j) = rs ! k ! j"
    and "drop (length (concat (take k rs))) (concat rs) = rs ! k @ concat (drop (Suc k) rs)"
proof -
  have "rs = take k rs @ rs ! k # drop (Suc k) rs" using assms(1) by (simp add: id_take_nth_drop)
  then have c: "concat rs = concat (take k rs) @ rs ! k @ concat (drop (Suc k) rs)"
    by (metis concat.simps(2) concat_append)
  show "concat rs ! (length (concat (take k rs)) + j) = rs ! k ! j"
    by (subst c) (simp add: nth_append assms(2))
  show "drop (length (concat (take k rs))) (concat rs) = rs ! k @ concat (drop (Suc k) rs)"
    by (subst c) simp
qed

lemma prefix_cut_at_boundary:
  assumes "list_all is_rune rs" and "k \<le> length rs"
  shows "prefix_cut (concat rs) (length (concat (take k rs))) 1 = length (concat (take k rs))"
proof (cases k)
  case 0
  then show ?thesis by (subst prefix_cut.simps) simp
next
  case (Suc q)
  define r where "r = rs ! q"
  define a where "a = length (concat (take q rs))"
  have r: "is_rune r" and q: "q < length rs" using assms Suc by (auto simp: list_all_length r_def)
  have n: "length (concat (take k rs)) = a + length r"
    using q Suc by (simp add: concat_take_Suc r_def a_def)
  have start: "concat rs ! (a + i) = r ! i" if "i < length r" for i
    using nth_concat_rune(1) [OF q] that by (simp add: r_def a_def)
  have rest: "drop a (concat rs) = r @ concat (drop (Suc q) rs)"
    using nth_concat_rune(2) [OF q, of 0] rune_shape(1) [OF r] by (simp add: r_def a_def)
  have "prefix_cut (concat rs) (a + length r) 1 =
      (if FullRuneInString (take (length r) (drop (a + length r - length r) (concat rs)))
       then a + length r else a + length r - length r)"
  proof (rule prefix_cut_walk)
    show "RuneStart (concat rs ! (a + length r - length r))"
      using start [of 0] rune_shape [OF r] by simp
    show "\<not> RuneStart (concat rs ! (a + length r - i))" if "1 \<le> i" "i < length r" for i
      using start [of "length r - i"] rune_shape(4) [OF r, of "length r - i"] that by simp
  qed (use rune_shape [OF r] in \<open>auto simp: Suc_le_eq\<close>)
  then show ?thesis using rune_shape(5) [OF r] by (simp add: n rest)
qed

lemma prefix_cut_inside:
  assumes "list_all is_rune rs" and "k < length rs" and "0 < j" and "j < length (rs ! k)"
  shows "prefix_cut (concat rs) (length (concat (take k rs)) + j) 1 = length (concat (take k rs))"
proof -
  define r where "r = rs ! k"
  define a where "a = length (concat (take k rs))"
  have r: "is_rune r" using assms by (auto simp: list_all_length r_def)
  have j: "0 < j" "j < length r" using assms by (auto simp: r_def)
  have start: "concat rs ! (a + i) = r ! i" if "i < length r" for i
    using nth_concat_rune(1) [OF assms(2)] that by (simp add: r_def a_def)
  have rest: "drop a (concat rs) = r @ concat (drop (Suc k) rs)"
    using nth_concat_rune(2) [OF assms(2), of 0] rune_shape(1) [OF r] by (simp add: r_def a_def)
  have "prefix_cut (concat rs) (a + j) 1 =
      (if FullRuneInString (take j (drop (a + j - j) (concat rs))) then a + j else a + j - j)"
  proof (rule prefix_cut_walk)
    show "RuneStart (concat rs ! (a + j - j))"
      using start [of 0] rune_shape [OF r] by simp
    show "\<not> RuneStart (concat rs ! (a + j - i))" if "1 \<le> i" "i < j" for i
      using start [of "j - i"] rune_shape(4) [OF r, of "j - i"] that j by simp
  qed (use rune_shape [OF r] j in auto)
  then show ?thesis using partial_rune_not_full [OF r j] j by (simp add: rest flip: a_def)
qed

text \<open>The cut of a valid text is the last rune boundary at or below the limit.\<close>

lemma prefix_cut_longest:
  assumes "list_all is_rune rs" and "limit \<le> length (concat rs)"
  obtains k where "k \<le> length rs"
    and "prefix_cut (concat rs) limit 1 = length (concat (take k rs))"
    and "length (concat (take k rs)) \<le> limit"
    and "k < length rs \<Longrightarrow> limit < length (concat (take (Suc k) rs))"
proof -
  from cut_in_concat [OF assms(2)] obtain k j where kj: "k \<le> length rs"
    "limit = length (concat (take k rs)) + j"
    "if k < length rs then j < length (rs ! k) \<or> j = 0 else j = 0" by blast
  have cut: "prefix_cut (concat rs) limit 1 = length (concat (take k rs))"
  proof (cases "j = 0")
    case True
    with kj prefix_cut_at_boundary [OF assms(1) kj(1)] show ?thesis by simp
  next
    case False
    with kj prefix_cut_inside [OF assms(1), of k j] show ?thesis by (simp split: if_splits)
  qed
  have "limit < length (concat (take (Suc k) rs))" if k: "k < length rs"
  proof -
    have "rs ! k \<noteq> []" using assms(1) k by (simp add: list_all_length rune_shape(1))
    with k kj have "j < length (rs ! k)" by (auto split: if_splits)
    with kj k show ?thesis by (simp add: concat_take_Suc)
  qed
  with that [OF kj(1) cut] kj show thesis by auto
qed

section \<open>Properties\<close>

text \<open>
  Every truncated diagnostic is a prefix of the text, loses less than a full
  character's worth of the allowance, and is flagged as truncated exactly when bytes
  were dropped, for arbitrary bytes.
\<close>

theorem Prefix_bounds:
  "Prefix str limit = (p, dropped) \<Longrightarrow>
     p = take (length p) str \<and> length p \<le> limit \<and> (dropped \<longleftrightarrow> p \<noteq> str) \<and>
     (limit \<le> length str \<longrightarrow> limit < length p + UTFMax)"
  using prefix_cut_bounds [of 1 limit str]
  by (auto simp: Prefix_def Let_def split: if_splits)

theorem Prefix_bounds_witness:
  "Prefix ''abcdef'' 4 = (''abcd'', True) \<and> length ''abcd'' \<le> (4::nat) \<and> (True \<longleftrightarrow> ''abcd'' \<noteq> ''abcdef'')"
proof -
  have h: "Prefix ''abcdef'' 4 = (''abcd'', True)"
    by (simp add: Prefix_def prefix_cut.simps RuneStart_def FullRuneInString_def byte_def
        first_size_def UTFMax_def Let_def)
  show ?thesis using h Prefix_bounds [OF h] by simp
qed

text \<open>
  On a valid UTF-8 text \<open>Prefix\<close> never splits a character: its result is valid
  UTF-8, and it is the longest run of leading characters that fits the limit.
\<close>

theorem Prefix_utf8_longest:
  assumes "list_all is_rune rs" and "str = concat rs"
  shows "\<exists>k. fst (Prefix str limit) = concat (take k rs) \<and> valid_utf8 (fst (Prefix str limit)) \<and>
     length (concat (take k rs)) \<le> limit \<and>
     (k < length rs \<longrightarrow> limit < length (concat (take (Suc k) rs)))"
proof (cases "length str < limit")
  case True
  then show ?thesis
    using assms by (intro exI [of _ "length rs"]) (auto simp: Prefix_def valid_utf8_def)
next
  case False
  with assms obtain k where k: "k \<le> length rs"
    "prefix_cut str limit 1 = length (concat (take k rs))" "length (concat (take k rs)) \<le> limit"
    "k < length rs \<Longrightarrow> limit < length (concat (take (Suc k) rs))"
    using prefix_cut_longest [OF assms(1), of limit] by (metis linorder_not_less)
  have "concat rs = concat (take k rs) @ concat (drop k rs)"
    by (metis append_take_drop_id concat_append)
  then have "fst (Prefix str limit) = concat (take k rs)"
    using False k(2) assms(2) by (simp add: Prefix_def Let_def)
  moreover have "list_all is_rune (take k rs)" using assms(1) by (auto simp: list_all_length)
  ultimately show ?thesis using k by (auto simp: valid_utf8_def)
qed

theorem Prefix_utf8_longest_witness:
  "\<exists>k. fst (Prefix (CHR ''a'' # CHR 0xC3 # CHR 0xA9 # []) 2) = concat (take k [[CHR ''a''], [CHR 0xC3, CHR 0xA9]])
     \<and> valid_utf8 (fst (Prefix (CHR ''a'' # CHR 0xC3 # CHR 0xA9 # []) 2))"
proof -
  have h: "list_all is_rune [[CHR ''a''], [CHR 0xC3, CHR 0xA9]]"
    by (simp add: is_rune_def byte_def first_size_def cont_byte_def accept_lo_def accept_hi_def)
  show ?thesis
    using Prefix_utf8_longest [OF h, of "CHR ''a'' # CHR 0xC3 # CHR 0xA9 # []" 2] by auto
qed

end
