(* ===== verification/Provider_Model.thy ===== *)
theory Provider_Model
  imports Prelude
begin

text \<open>
  Compiled providers (\<open>internal/provider/compile.go\<close>), the static catalog with its model
  index (\<open>internal/provider/catalog.go\<close>) and the request types of \<open>internal/traffic/type.go\<close>.
  A compiled provider is immutable after publication, so a Go pointer to one is its value;
  a nil pointer is \<open>None\<close>. The \<open>tls.Config\<close> and the patch plan a target carries are not
  read by the scheduler and are left to the components that use them.
\<close>

section \<open>Request types\<close>

type_synonym RequestType = string

definition RequestTypeNormal :: RequestType where
  "RequestTypeNormal = ''normal''"

definition RequestTypeClassifier :: RequestType where
  "RequestTypeClassifier = ''classifier''"

lemma request_types_differ [simp]:
  "RequestTypeNormal \<noteq> RequestTypeClassifier" "RequestTypeClassifier \<noteq> RequestTypeNormal"
  "RequestTypeNormal \<noteq> []" "RequestTypeClassifier \<noteq> []"
  by (simp_all add: RequestTypeNormal_def RequestTypeClassifier_def)

text \<open>
  \<open>strings.TrimSpace\<close> removes leading and trailing white space as \<open>unicode.IsSpace\<close> defines
  it: \<open>space_runes\<close> lists the UTF-8 encodings of the white space characters.
\<close>

definition space_runes :: "string list" where
  "space_runes =
     [[CHR 0x09], [CHR 0x0A], [CHR 0x0B], [CHR 0x0C], [CHR 0x0D], [CHR 0x20],
      [CHR 0xC2, CHR 0x85], [CHR 0xC2, CHR 0xA0], [CHR 0xE1, CHR 0x9A, CHR 0x80],
      [CHR 0xE2, CHR 0x80, CHR 0x80], [CHR 0xE2, CHR 0x80, CHR 0x81], [CHR 0xE2, CHR 0x80, CHR 0x82],
      [CHR 0xE2, CHR 0x80, CHR 0x83], [CHR 0xE2, CHR 0x80, CHR 0x84], [CHR 0xE2, CHR 0x80, CHR 0x85],
      [CHR 0xE2, CHR 0x80, CHR 0x86], [CHR 0xE2, CHR 0x80, CHR 0x87], [CHR 0xE2, CHR 0x80, CHR 0x88],
      [CHR 0xE2, CHR 0x80, CHR 0x89], [CHR 0xE2, CHR 0x80, CHR 0x8A], [CHR 0xE2, CHR 0x80, CHR 0xA8],
      [CHR 0xE2, CHR 0x80, CHR 0xA9], [CHR 0xE2, CHR 0x80, CHR 0xAF], [CHR 0xE2, CHR 0x81, CHR 0x9F],
      [CHR 0xE3, CHR 0x80, CHR 0x80]]"

definition leading :: "string list \<Rightarrow> string \<Rightarrow> string option" where
  "leading runes s = find (\<lambda>r. r \<noteq> [] \<and> take (length r) s = r) runes"

lemma leading_shrinks:
  "leading runes s = Some r \<Longrightarrow> length (drop (length r) s) < length s"
  by (cases s) (auto simp: leading_def find_Some_iff)

function trim_leading :: "string list \<Rightarrow> string \<Rightarrow> string" where
  "trim_leading runes s =
     (case leading runes s of None \<Rightarrow> s | Some r \<Rightarrow> trim_leading runes (drop (length r) s))"
  by pat_completeness auto
termination
  by (relation "measure (\<lambda>(runes, s). length s)") (auto dest: leading_shrinks)

declare trim_leading.simps [simp del]

definition TrimSpace :: "string \<Rightarrow> string" where
  "TrimSpace s =
     rev (trim_leading (map rev space_runes) (rev (trim_leading space_runes s)))"

lemma trim_leading_fixed: "leading runes (trim_leading runes s) = None"
  by (induction runes s rule: trim_leading.induct) (subst trim_leading.simps, auto split: option.split)

lemma trim_leading_idem: "trim_leading runes (trim_leading runes s) = trim_leading runes s"
  using trim_leading_fixed [of runes s] by (subst trim_leading.simps) simp

definition RequestType_Valid :: "RequestType \<Rightarrow> bool" where
  "RequestType_Valid t =
     (t \<noteq> [] \<and> TrimSpace t = t \<and> \<not> list_ex (\<lambda>c. c \<in> {CHR '' '', CHR 0x09, CHR 0x0D, CHR 0x0A}) t)"

datatype traffic_error = ErrInvalidRequestType | ErrNormalDetector

definition validateRequestType :: "RequestType \<Rightarrow> bool \<Rightarrow> traffic_error option" where
  "validateRequestType t allowNormal =
     (if \<not> RequestType_Valid t then Some ErrInvalidRequestType
      else if t = ''*'' then Some ErrInvalidRequestType
      else if \<not> allowNormal \<and> t = RequestTypeNormal then Some ErrNormalDetector
      else None)"

section \<open>Compiled providers\<close>

type_synonym ProviderGeneration = string

record CompiledProvider =
  cp_ID :: string
  cp_BaseURL :: string
  cp_APIKey :: string
  cp_UseXAPIKey :: bool
  cp_Protocol :: string
  cp_Generation :: ProviderGeneration
  cp_Name :: string
  cp_Models :: "string list"
  cp_Priority :: int
  cp_Enabled :: bool
  cp_Patches :: "string list"
  cp_DisableHealth :: bool
  cp_HealthEpoch :: u64
  cp_modelSet :: "string set"

definition SupportsModel :: "CompiledProvider \<Rightarrow> string \<Rightarrow> bool" where
  "SupportsModel p model = (if \<not> cp_Enabled p then False else model \<in> cp_modelSet p)"

section \<open>The catalog\<close>

text \<open>
  The insertion sort of \<open>stablePrioritySort\<close>: the inner loop moves \<open>current\<close> left past
  every element of smaller priority. On a list the sorted part before position \<open>i\<close> is
  kept reversed, so the inner loop walks it from its head.
\<close>

fun shift_left :: "CompiledProvider \<Rightarrow> CompiledProvider list \<Rightarrow> CompiledProvider list" where
  "shift_left current [] = [current]"
| "shift_left current (p # ps) =
     (if cp_Priority p < cp_Priority current then p # shift_left current ps else current # p # ps)"

fun priority_sort_from :: "CompiledProvider list \<Rightarrow> CompiledProvider list \<Rightarrow> CompiledProvider list" where
  "priority_sort_from done_rev [] = rev done_rev"
| "priority_sort_from done_rev (x # xs) = priority_sort_from (shift_left x done_rev) xs"

definition stablePrioritySort :: "CompiledProvider list \<Rightarrow> CompiledProvider list" where
  "stablePrioritySort items = priority_sort_from [] items"

record Catalog =
  cat_providers :: "CompiledProvider list"
  cat_index :: "(string, CompiledProvider list) gomap"

text \<open>The index loop of \<open>compileCatalogWithRegistry\<close>, after each provider was compiled.\<close>

definition append_index ::
  "CompiledProvider \<Rightarrow> (string, CompiledProvider list) gomap \<Rightarrow> string \<Rightarrow> (string, CompiledProvider list) gomap" where
  "append_index compiled index model =
     AList.update model ((case map_of index model of None \<Rightarrow> [] | Some ps \<Rightarrow> ps) @ [compiled]) index"

definition index_provider ::
  "(string, CompiledProvider list) gomap \<Rightarrow> CompiledProvider \<Rightarrow> (string, CompiledProvider list) gomap" where
  "index_provider index compiled =
     (if \<not> cp_Enabled compiled \<or> cp_Models compiled = [] then index
      else foldl (append_index compiled) index (cp_Models compiled))"

definition buildCatalog :: "CompiledProvider list \<Rightarrow> Catalog" where
  "buildCatalog compiled =
     \<lparr> cat_providers = compiled,
       cat_index = gmapvals (\<lambda>_. stablePrioritySort) (foldl index_provider [] compiled) \<rparr>"

definition Match :: "Catalog \<Rightarrow> string \<Rightarrow> CompiledProvider list" where
  "Match c model = (case map_of (cat_index c) model of None \<Rightarrow> [] | Some items \<Rightarrow> items)"

definition HasModel :: "Catalog \<Rightarrow> string \<Rightarrow> bool" where
  "HasModel c model = (length (Match c model) > 0)"

text \<open>
  \<open>ModelNames\<close> sorts the index keys by a hand-written insertion sort on Go's byte-wise
  string order, which is the lexicographic order of \<open>string\<close>.
\<close>

fun insert_name :: "string \<Rightarrow> string list \<Rightarrow> string list" where
  "insert_name v [] = [v]"
| "insert_name v (x # xs) = (if x > v then x # insert_name v xs else v # x # xs)"

fun sort_names_from :: "string list \<Rightarrow> string list \<Rightarrow> string list" where
  "sort_names_from done_rev [] = rev done_rev"
| "sort_names_from done_rev (x # xs) = sort_names_from (insert_name x done_rev) xs"

definition ModelNames :: "Catalog \<Rightarrow> string list" where
  "ModelNames c = sort_names_from [] (gkeys (cat_index c))"

text \<open>
  \<open>Clone\<close> rebuilds the index over the cloned providers, found by ID. The epoch loop of
  \<open>WithHealthEpochs\<close> then writes through those shared pointers, so the index sees the new
  epochs too.
\<close>

definition by_id :: "CompiledProvider list \<Rightarrow> (string, CompiledProvider) gomap" where
  "by_id ps = foldl (\<lambda>m p. AList.update (cp_ID p) p m) [] ps"

definition with_epoch :: "(string, CompiledProvider) gomap \<Rightarrow> u64 \<Rightarrow> CompiledProvider \<Rightarrow> CompiledProvider" where
  "with_epoch before revision item =
     (case map_of before (cp_ID item) of
        Some old \<Rightarrow>
          (if cp_Enabled old = cp_Enabled item then item\<lparr>cp_HealthEpoch := cp_HealthEpoch old\<rparr>
           else item\<lparr>cp_HealthEpoch := revision\<rparr>)
      | None \<Rightarrow> item\<lparr>cp_HealthEpoch := revision\<rparr>)"

definition WithHealthEpochs :: "Catalog \<Rightarrow> Catalog option \<Rightarrow> u64 \<Rightarrow> Catalog" where
  "WithHealthEpochs c previous revision =
     (let before = (case previous of None \<Rightarrow> [] | Some prev \<Rightarrow> by_id (cat_providers prev));
          items = map (with_epoch before revision) (cat_providers c);
          byID = by_id items
      in \<lparr> cat_providers = items,
           cat_index = gmapvals (\<lambda>_ ps. map (\<lambda>p. the (map_of byID (cp_ID p))) ps) (cat_index c) \<rparr>)"

section \<open>Lemmas on the catalog\<close>

lemma shift_left_set [simp]: "set (shift_left x ps) = insert x (set ps)"
  by (induction ps) auto

lemma shift_left_sorted:
  "sorted_wrt (\<lambda>a b. cp_Priority a \<le> cp_Priority b) ps \<Longrightarrow>
   sorted_wrt (\<lambda>a b. cp_Priority a \<le> cp_Priority b) (shift_left x ps)"
  by (induction ps) (auto intro: order_trans)

lemma shift_left_filter:
  "sorted_wrt (\<lambda>a b. cp_Priority a \<le> cp_Priority b) ps \<Longrightarrow>
   filter (\<lambda>p. cp_Priority p = pr) (shift_left x ps) =
     (if cp_Priority x = pr then x # filter (\<lambda>p. cp_Priority p = pr) ps
      else filter (\<lambda>p. cp_Priority p = pr) ps)"
  by (induction ps) auto

lemma priority_sort_from_spec:
  assumes "sorted_wrt (\<lambda>a b. cp_Priority a \<le> cp_Priority b) ds"
  shows "sorted_wrt (\<lambda>a b. cp_Priority a \<ge> cp_Priority b) (priority_sort_from ds xs)"
    and "set (priority_sort_from ds xs) = set ds \<union> set xs"
    and "filter (\<lambda>p. cp_Priority p = pr) (priority_sort_from ds xs) =
         rev (filter (\<lambda>p. cp_Priority p = pr) ds) @ filter (\<lambda>p. cp_Priority p = pr) xs"
  using assms
  by (induction xs arbitrary: ds)
     (auto simp: sorted_wrt_rev shift_left_sorted shift_left_filter simp flip: rev_filter)

lemma map_of_append_index:
  "map_of (append_index p m k) x =
     (if x = k then Some ((case map_of m k of None \<Rightarrow> [] | Some ps \<Rightarrow> ps) @ [p]) else map_of m x)"
  by (simp add: append_index_def gomap_simps)

lemma foldl_append_index:
  "distinct ks \<Longrightarrow>
   (case map_of (foldl (append_index p) m ks) x of None \<Rightarrow> [] | Some ps \<Rightarrow> ps) =
     (case map_of m x of None \<Rightarrow> [] | Some ps \<Rightarrow> ps) @ (if x \<in> set ks then [p] else [])"
  by (induction ks arbitrary: m) (auto simp: map_of_append_index)

definition index_entry :: "(string, CompiledProvider list) gomap \<Rightarrow> string \<Rightarrow> CompiledProvider list" where
  "index_entry m x = (case map_of m x of None \<Rightarrow> [] | Some ps \<Rightarrow> ps)"

lemma foldl_index_provider:
  "\<forall>p\<in>set ps. distinct (cp_Models p) \<Longrightarrow>
   index_entry (foldl index_provider m ps) x =
     index_entry m x @ filter (\<lambda>p. cp_Enabled p \<and> x \<in> set (cp_Models p)) ps"
proof (induction ps arbitrary: m)
  case (Cons p ps)
  then have "index_entry (index_provider m p) x =
      index_entry m x @ (if cp_Enabled p \<and> x \<in> set (cp_Models p) then [p] else [])"
    using foldl_append_index [of "cp_Models p" p m x] by (auto simp: index_provider_def index_entry_def)
  with Cons show ?case by auto
qed simp

lemma Match_buildCatalog:
  assumes "\<forall>p\<in>set ps. distinct (cp_Models p)"
  shows "Match (buildCatalog ps) x =
    stablePrioritySort (filter (\<lambda>p. cp_Enabled p \<and> x \<in> set (cp_Models p)) ps)"
proof -
  have "Match (buildCatalog ps) x = stablePrioritySort (index_entry (foldl index_provider [] ps) x)"
    by (auto simp: Match_def buildCatalog_def gomap_simps index_entry_def stablePrioritySort_def
        split: option.splits)
  then show ?thesis using foldl_index_provider [OF assms, of "[]" x] by (simp add: index_entry_def)
qed

lemma insert_name_set [simp]: "set (insert_name v xs) = insert v (set xs)"
  by (induction xs) auto

lemma insert_name_length [simp]: "length (insert_name v xs) = Suc (length xs)"
  by (induction xs) auto

lemma insert_name_sorted: "sorted_wrt (\<ge>) xs \<Longrightarrow> sorted_wrt (\<ge>) (insert_name v xs)"
  by (induction xs) auto

lemma sort_names_from_spec:
  "sorted_wrt (\<ge>) ds \<Longrightarrow> sorted (sort_names_from ds xs) \<and>
     set (sort_names_from ds xs) = set ds \<union> set xs \<and>
     length (sort_names_from ds xs) = length ds + length xs"
  by (induction xs arbitrary: ds) (auto simp: sorted_wrt_rev insert_name_sorted)

lemma map_of_by_id:
  "distinct (map cp_ID ps) \<Longrightarrow> p \<in> set ps \<Longrightarrow> map_of (by_id ps) (cp_ID p) = Some p"
proof -
  have gen: "map_of (foldl (\<lambda>m p. AList.update (cp_ID p) p m) m ps) i =
      (case find (\<lambda>p. cp_ID p = i) ps of Some p \<Rightarrow> Some p | None \<Rightarrow> map_of m i)"
    if "distinct (map cp_ID ps)" for m ps i
    using that
  proof (induction ps arbitrary: m)
    case (Cons q qs)
    have "find (\<lambda>p. cp_ID p = i) qs = None" if "cp_ID q = i"
      using Cons.prems that by (auto simp: find_None_iff image_iff)
    with Cons show ?case by (auto simp: gomap_simps split: option.splits)
  qed simp
  show "map_of (by_id ps) (cp_ID p) = Some p" if d: "distinct (map cp_ID ps)" and "p \<in> set ps"
  proof -
    from that obtain q where q: "find (\<lambda>x. cp_ID x = cp_ID p) ps = Some q"
      by (cases "find (\<lambda>x. cp_ID x = cp_ID p) ps") (auto simp: find_None_iff)
    then have "q \<in> set ps" "cp_ID q = cp_ID p" by (auto simp: find_Some_iff)
    with that have "q = p" by (metis distinct_map inj_onD)
    with q show ?thesis by (simp add: by_id_def gen [OF d])
  qed
qed

lemma with_epoch_frame [frame_simps]:
  "cp_ID (with_epoch b r p) = cp_ID p" "cp_Enabled (with_epoch b r p) = cp_Enabled p"
  "cp_Priority (with_epoch b r p) = cp_Priority p" "cp_Models (with_epoch b r p) = cp_Models p"
  "cp_Generation (with_epoch b r p) = cp_Generation p"
  by (auto simp: with_epoch_def split: option.splits)

section \<open>Properties\<close>

text \<open>
  The candidates of a model are exactly the enabled providers that declare it, in
  descending priority and, within one priority, in configuration order.
\<close>

theorem Match_candidates:
  assumes "\<forall>p\<in>set ps. distinct (cp_Models p)"
  shows "set (Match (buildCatalog ps) m) = {p \<in> set ps. cp_Enabled p \<and> m \<in> set (cp_Models p)} \<and>
    sorted_wrt (\<lambda>a b. cp_Priority a \<ge> cp_Priority b) (Match (buildCatalog ps) m) \<and>
    filter (\<lambda>p. cp_Priority p = pr) (Match (buildCatalog ps) m) =
      filter (\<lambda>p. cp_Enabled p \<and> m \<in> set (cp_Models p) \<and> cp_Priority p = pr) ps"
proof (intro conjI)
  show "filter (\<lambda>p. cp_Priority p = pr) (Match (buildCatalog ps) m) =
      filter (\<lambda>p. cp_Enabled p \<and> m \<in> set (cp_Models p) \<and> cp_Priority p = pr) ps"
    unfolding Match_buildCatalog [OF assms] stablePrioritySort_def
    by (simp add: priority_sort_from_spec)
qed (auto simp: Match_buildCatalog [OF assms] stablePrioritySort_def priority_sort_from_spec)

definition example_provider :: "string \<Rightarrow> int \<Rightarrow> CompiledProvider" where
  "example_provider i pr =
     \<lparr> cp_ID = i, cp_BaseURL = ''https://up.example'', cp_APIKey = ''k'', cp_UseXAPIKey = False,
       cp_Protocol = ''anthropic-messages'', cp_Generation = ''g1'', cp_Name = i, cp_Models = [''m''],
       cp_Priority = pr, cp_Enabled = True, cp_Patches = [], cp_DisableHealth = False,
       cp_HealthEpoch = 1, cp_modelSet = {''m''} \<rparr>"

lemma example_provider_fields [simp]:
  "cp_ID (example_provider i pr) = i" "cp_Models (example_provider i pr) = [''m'']"
  "cp_Priority (example_provider i pr) = pr" "cp_Enabled (example_provider i pr)"
  "cp_HealthEpoch (example_provider i pr) = 1" "cp_Generation (example_provider i pr) = ''g1''"
  "\<not> cp_DisableHealth (example_provider i pr)" "cp_modelSet (example_provider i pr) = {''m''}"
  "cp_APIKey (example_provider i pr) = ''k''"
  by (simp_all add: example_provider_def)

theorem Match_candidates_witness:
  "example_provider ''b'' 2 \<in> set (Match (buildCatalog [example_provider ''a'' 1, example_provider ''b'' 2]) ''m'')"
proof -
  have h: "\<forall>p\<in>set [example_provider ''a'' 1, example_provider ''b'' 2]. distinct (cp_Models p)"
    by simp
  show ?thesis by (simp add: conjunct1 [OF Match_candidates [OF h, of "''m''" 0]])
qed

text \<open>
  Publishing a new revision keeps a provider's health epoch exactly when the previous
  catalog had it with the same enabled flag, and starts the epoch of that revision
  otherwise; nothing else of the provider changes, and the model index carries the same
  epochs as the provider list.
\<close>

theorem WithHealthEpochs_epochs:
  assumes "distinct (map cp_ID (cat_providers c))" and "distinct (map cp_ID (cat_providers prev))"
    and "map_of (cat_index c) m = Some ps" and "set ps \<subseteq> set (cat_providers c)"
  shows "Match (WithHealthEpochs c (Some prev) r) m = map (with_epoch (by_id (cat_providers prev)) r) ps \<and>
    cat_providers (WithHealthEpochs c (Some prev) r) = map (with_epoch (by_id (cat_providers prev)) r) (cat_providers c) \<and>
    (\<forall>old\<in>set (cat_providers prev). \<forall>p\<in>set (cat_providers c). cp_ID old = cp_ID p \<longrightarrow>
       with_epoch (by_id (cat_providers prev)) r p =
         p\<lparr>cp_HealthEpoch := if cp_Enabled old = cp_Enabled p then cp_HealthEpoch old else r\<rparr>)"
proof -
  let ?w = "with_epoch (by_id (cat_providers prev)) r"
  have d: "distinct (map cp_ID (map ?w (cat_providers c)))"
    using assms(1) by (simp add: frame_simps comp_def)
  have "map_of (by_id (map ?w (cat_providers c))) (cp_ID p) = Some (?w p)" if "p \<in> set ps" for p
    using map_of_by_id [OF d, of "?w p"] that assms(4) by (auto simp: frame_simps)
  then have "Match (WithHealthEpochs c (Some prev) r) m = map ?w ps"
    using assms(3) by (simp add: Match_def WithHealthEpochs_def Let_def gomap_simps)
  moreover have "?w p = p\<lparr>cp_HealthEpoch := if cp_Enabled old = cp_Enabled p then cp_HealthEpoch old else r\<rparr>"
    if "old \<in> set (cat_providers prev)" "cp_ID old = cp_ID p" for old p
    using map_of_by_id [OF assms(2) that(1)] that(2) by (simp add: with_epoch_def)
  ultimately show ?thesis by (auto simp: WithHealthEpochs_def Let_def)
qed

theorem WithHealthEpochs_epochs_witness:
  "Match (WithHealthEpochs (buildCatalog [example_provider ''a'' 1]) (Some (buildCatalog [example_provider ''a'' 1])) 9) ''m''
     = [(example_provider ''a'' 1)\<lparr>cp_HealthEpoch := 1\<rparr>]"
proof -
  let ?c = "buildCatalog [example_provider ''a'' 1]"
  have d: "distinct (map cp_ID (cat_providers ?c))" by (simp add: buildCatalog_def)
  have i: "map_of (cat_index ?c) ''m'' = Some [example_provider ''a'' 1]"
    by (simp add: buildCatalog_def index_provider_def append_index_def gmapvals_def
        stablePrioritySort_def)
  have s: "set [example_provider ''a'' 1] \<subseteq> set (cat_providers ?c)" by (simp add: buildCatalog_def)
  show ?thesis
    using WithHealthEpochs_epochs [OF d d i s, of 9]
    by (simp add: with_epoch_def by_id_def buildCatalog_def)
qed

end
