(* ===== verification/Go_Text.thy ===== *)
theory Go_Text
  imports Text_Limit Provider_Model
begin

text \<open>
  What the configuration code uses of Go's text packages: the range loop over a string and
  \<open>utf8.ValidString\<close>, the character classes of package unicode, decimal integers of package
  strconv and \<open>net.SplitHostPort\<close>.
\<close>

section \<open>Decoding UTF-8\<close>

text \<open>
  One iteration of the range loop over a non-empty string: the code point and the number of
  bytes it takes. An invalid sequence yields U+FFFD and one byte.
\<close>

fun rune_value :: "string \<Rightarrow> nat" where
  "rune_value [a] = byte a"
| "rune_value [a, b] = (byte a mod 32) * 64 + byte b mod 64"
| "rune_value [a, b, c] = ((byte a mod 16) * 64 + byte b mod 64) * 64 + byte c mod 64"
| "rune_value [a, b, c, d] = (((byte a mod 8) * 64 + byte b mod 64) * 64 + byte c mod 64) * 64 + byte d mod 64"
| "rune_value _ = 0xFFFD"

definition rune_width :: "string \<Rightarrow> nat" where
  "rune_width s =
     (case s of [] \<Rightarrow> 0
      | a # _ \<Rightarrow> (let n = max 1 (first_size (byte a)) in if is_rune (take n s) then n else 1))"

definition decode_rune :: "string \<Rightarrow> nat" where
  "decode_rune s = (let r = take (rune_width s) s in if is_rune r then rune_value r else 0xFFFD)"

lemma rune_width_pos: "s \<noteq> [] \<Longrightarrow> 0 < rune_width s"
  by (cases s) (auto simp: rune_width_def Let_def)

function runes :: "string \<Rightarrow> nat list" where
  "runes s = (if s = [] then [] else decode_rune s # runes (drop (rune_width s) s))"
  by pat_completeness auto
termination
  by (relation "measure length") (auto simp: rune_width_pos)

function ValidString :: "string \<Rightarrow> bool" where
  "ValidString s =
     (if s = [] then True
      else is_rune (take (rune_width s) s) \<and> ValidString (drop (rune_width s) s))"
  by pat_completeness auto
termination
  by (relation "measure length") (auto simp: rune_width_pos)

declare runes.simps [simp del] ValidString.simps [simp del]

lemma runes_Nil [simp]: "runes [] = []"
  by (simp add: runes.simps)

lemma ValidString_Nil [simp]: "ValidString []"
  by (simp add: ValidString.simps)

lemma rune_width_rune:
  assumes "is_rune r"
  shows "rune_width (r @ s) = length r"
proof -
  from assms obtain a cs where r: "r = a # cs" by (cases r) (auto simp: is_rune_def)
  have len: "length r = max 1 (first_size (byte a))"
    using assms by (auto simp: is_rune_def r first_size_def split: if_splits)
  have "rune_width (r @ s) =
      (let n = max 1 (first_size (byte a)) in if is_rune (take n (r @ s)) then n else 1)"
    by (simp add: rune_width_def r)
  also have "\<dots> = (if is_rune (take (length r) (r @ s)) then length r else 1)"
    unfolding len [symmetric] Let_def ..
  also have "\<dots> = length r" using assms by simp
  finally show ?thesis .
qed

lemma runes_ascii: "list_all (\<lambda>c. byte c < 128) s \<Longrightarrow> runes s = map byte s"
proof (induction s)
  case (Cons c s)
  then have "is_rune [c]" by (simp add: is_rune_def)
  from rune_width_rune [OF this, of s] have "rune_width (c # s) = 1" by simp
  then have "decode_rune (c # s) = byte c" using \<open>is_rune [c]\<close> by (simp add: decode_rune_def)
  then show ?case using Cons \<open>rune_width (c # s) = 1\<close> by (subst runes.simps) simp
qed simp

text \<open>The executable check decides whether a text is a sequence of encoded characters.\<close>

lemma ValidString_valid_utf8: "ValidString s \<longleftrightarrow> valid_utf8 s"
proof
  assume "ValidString s"
  then show "valid_utf8 s"
  proof (induction s rule: ValidString.induct)
    case (1 s)
    show ?case
    proof (cases "s = []")
      case True
      then show ?thesis by (auto simp: valid_utf8_def intro: exI [of _ "[]"])
    next
      case False
      with 1(2) have r: "is_rune (take (rune_width s) s)" and "ValidString (drop (rune_width s) s)"
        by (auto simp: ValidString.simps [of s])
      with 1(1) [OF False] obtain rs where "list_all is_rune rs" "drop (rune_width s) s = concat rs"
        by (auto simp: valid_utf8_def)
      with r show ?thesis unfolding valid_utf8_def
        by (intro exI [of _ "take (rune_width s) s # rs"]) (simp, metis append_take_drop_id)
    qed
  qed
next
  assume "valid_utf8 s"
  then obtain rs where "list_all is_rune rs" "s = concat rs" by (auto simp: valid_utf8_def)
  then show "ValidString s"
  proof (induction rs arbitrary: s)
    case (Cons r rs)
    then have "r \<noteq> []" using rune_shape(1) by auto
    with Cons show ?case by (subst ValidString.simps) (simp add: rune_width_rune)
  qed simp
qed

section \<open>Character classes\<close>

definition IsControl :: "nat \<Rightarrow> bool" where
  "IsControl r = (r < 0x20 \<or> (0x7F \<le> r \<and> r < 0xA0))"

definition IsSpace :: "nat \<Rightarrow> bool" where
  "IsSpace r =
     (r \<in> {0x09, 0x0A, 0x0B, 0x0C, 0x0D, 0x20, 0x85, 0xA0, 0x1680, 0x2028, 0x2029, 0x202F, 0x205F, 0x3000} \<or>
      (0x2000 \<le> r \<and> r \<le> 0x200A))"

definition IndexFunc_nonneg :: "string \<Rightarrow> (nat \<Rightarrow> bool) \<Rightarrow> bool" where
  "IndexFunc_nonneg s f = list_ex f (runes s)"

section \<open>Decimal integers\<close>

definition digit_char :: "nat \<Rightarrow> char" where
  "digit_char d = char_of (48 + d)"

definition is_digit :: "char \<Rightarrow> bool" where
  "is_digit c = (48 \<le> byte c \<and> byte c \<le> 57)"

definition digit_value :: "char \<Rightarrow> nat" where
  "digit_value c = byte c - 48"

fun nat_text :: "nat \<Rightarrow> string" where
  "nat_text n = (if n < 10 then [digit_char n] else nat_text (n div 10) @ [digit_char (n mod 10)])"

declare nat_text.simps [simp del]

definition Itoa :: "int \<Rightarrow> string" where
  "Itoa n = (if n < 0 then CHR ''-'' # nat_text (nat (- n)) else nat_text (nat n))"

definition digits_value :: "string \<Rightarrow> nat" where
  "digits_value s = foldl (\<lambda>acc c. acc * 10 + digit_value c) 0 s"

text \<open>
  \<open>strconv.Atoi\<close>: an optional sign and at least one digit, in the range of \<open>int\<close>; every
  error is \<open>None\<close>.
\<close>

definition Atoi :: "string \<Rightarrow> int option" where
  "Atoi s =
     (let neg = (take 1 s = ''-'');
          digits = (if take 1 s = ''-'' \<or> take 1 s = ''+'' then drop 1 s else s)
      in if digits = [] \<or> \<not> list_all is_digit digits then None
         else let n = (if neg then - int (digits_value digits) else int (digits_value digits)) in
           if n < - maxInt - 1 \<or> n > maxInt then None else Some n)"

lemma byte_digit_char: "d < 10 \<Longrightarrow> byte (digit_char d) = 48 + d"
  by (simp add: byte_def digit_char_def)

lemma digit_char_digit [simp]: "d < 10 \<Longrightarrow> is_digit (digit_char d)" "d < 10 \<Longrightarrow> digit_value (digit_char d) = d"
  by (simp_all add: is_digit_def digit_value_def byte_digit_char)

lemma nat_text_digits: "nat_text n \<noteq> [] \<and> list_all is_digit (nat_text n)"
  by (induction n rule: nat_text.induct) (subst (1 2) nat_text.simps, auto)

lemma digits_value_snoc: "digits_value (s @ [c]) = digits_value s * 10 + digit_value c"
  by (simp add: digits_value_def)

lemma digits_value_nat_text [simp]: "digits_value (nat_text n) = n"
proof (induction n rule: nat_text.induct)
  case (1 n)
  show ?case
  proof (cases "n < 10")
    case True
    then show ?thesis by (subst nat_text.simps) (simp add: digits_value_def)
  next
    case False
    with 1 show ?thesis by (subst nat_text.simps) (simp add: digits_value_snoc)
  qed
qed

lemma digit_not_sign: "is_digit c \<Longrightarrow> c \<noteq> CHR ''-'' \<and> c \<noteq> CHR ''+''"
  by (auto simp: is_digit_def byte_def)

lemma Atoi_nat_text: "int n \<le> maxInt \<Longrightarrow> Atoi (nat_text n) = Some (int n)"
proof -
  assume n: "int n \<le> maxInt"
  obtain c cs where t: "nat_text n = c # cs" using nat_text_digits [of n] by (cases "nat_text n") auto
  have "is_digit c" using nat_text_digits [of n] t by simp
  then have "take 1 (nat_text n) \<noteq> ''-''" "take 1 (nat_text n) \<noteq> ''+''" using digit_not_sign by (auto simp: t)
  then show ?thesis using n nat_text_digits [of n] by (auto simp: Atoi_def Let_def maxInt_def)
qed

lemma Atoi_Itoa: "- maxInt - 1 \<le> n \<Longrightarrow> n \<le> maxInt \<Longrightarrow> Atoi (Itoa n) = Some n"
proof (cases "n < 0")
  case True
  assume "- maxInt - 1 \<le> n" "n \<le> maxInt"
  with True show ?thesis using nat_text_digits [of "nat (- n)"] by (auto simp: Itoa_def Atoi_def Let_def)
qed (simp add: Itoa_def Atoi_nat_text)

section \<open>Host and port\<close>

fun index_byte :: "string \<Rightarrow> char \<Rightarrow> nat option" where
  "index_byte [] c = None"
| "index_byte (x # xs) c = (if x = c then Some 0 else map_option Suc (index_byte xs c))"

definition last_byte :: "string \<Rightarrow> char \<Rightarrow> nat option" where
  "last_byte s c = map_option (\<lambda>k. length s - 1 - k) (index_byte (rev s) c)"

definition addrErr :: "string \<Rightarrow> string \<Rightarrow> string + string \<times> string" where
  "addrErr addr why = Inl (''address '' @ addr @ '': '' @ why)"

definition split_finish :: "string \<Rightarrow> string \<Rightarrow> nat \<Rightarrow> nat \<Rightarrow> nat \<Rightarrow> string + string \<times> string" where
  "split_finish hostport host i j k =
     (if index_byte (drop j hostport) CHR ''['' \<noteq> None then addrErr hostport ''unexpected '[' in address''
      else if index_byte (drop k hostport) CHR '']'' \<noteq> None then addrErr hostport ''unexpected ']' in address''
      else Inr (host, drop (i + 1) hostport))"

definition SplitHostPort :: "string \<Rightarrow> string + string \<times> string" where
  "SplitHostPort hostport =
     (case last_byte hostport CHR '':'' of
        None \<Rightarrow> addrErr hostport ''missing port in address''
      | Some i \<Rightarrow>
          if take 1 hostport = ''['' then
            (case index_byte hostport CHR '']'' of
               None \<Rightarrow> addrErr hostport ''missing ']' in address''
             | Some stop \<Rightarrow>
                 if stop + 1 = length hostport then addrErr hostport ''missing port in address''
                 else if stop + 1 = i then split_finish hostport (drop 1 (take stop hostport)) i 1 (stop + 1)
                 else if hostport ! (stop + 1) = CHR '':'' then addrErr hostport ''too many colons in address''
                 else addrErr hostport ''missing port in address'')
          else
            let host = take i hostport in
            if index_byte host CHR '':'' \<noteq> None then addrErr hostport ''too many colons in address''
            else split_finish hostport host i 0 0)"

lemma index_byte_None: "index_byte s c = None \<longleftrightarrow> c \<notin> set s"
  by (induction s) auto

lemma index_byte_Some:
  "index_byte s c = Some i \<Longrightarrow> i < length s \<and> s ! i = c \<and> c \<notin> set (take i s)"
  by (induction s arbitrary: i) (auto split: if_splits)

lemma last_byte_Some:
  assumes "last_byte s c = Some i"
  shows "s = take i s @ c # drop (Suc i) s" and "c \<notin> set (drop (Suc i) s)"
proof -
  from assms obtain k where k: "index_byte (rev s) c = Some k" "i = length s - 1 - k"
    by (auto simp: last_byte_def)
  from index_byte_Some [OF k(1)] have k': "k < length s" "rev s ! k = c" "c \<notin> set (take k (rev s))" by simp_all
  have i: "i < length s" "s ! i = c" using k' k(2) by (simp_all add: rev_nth)
  from i show "s = take i s @ c # drop (Suc i) s" using id_take_nth_drop by blast
  have "take k (rev s) = rev (drop (Suc i) s)" using k' k(2) by (simp add: take_rev Suc_diff_Suc)
  with k'(3) show "c \<notin> set (drop (Suc i) s)" by simp
qed

lemma last_byte_append: "c \<notin> set t \<Longrightarrow> last_byte (s @ c # t) c = Some (length s)"
proof -
  have app: "index_byte (u @ c # v) c = Some (length u)" if "c \<notin> set u" for u v
    using that by (induction u) auto
  assume "c \<notin> set t"
  then show ?thesis using app [of "rev t" "rev s"] by (simp add: last_byte_def)
qed

text \<open>What \<open>SplitHostPort\<close> accepts, and that it takes apart what is put together.\<close>

lemma SplitHostPort_Inr:
  assumes "SplitHostPort addr = Inr (host, port)"
  shows "addr = host @ '':'' @ port \<or> addr = ''['' @ host @ '']:'' @ port"
proof -
  from assms obtain i where i: "last_byte addr CHR '':'' = Some i"
    by (auto simp: SplitHostPort_def addrErr_def split: option.splits)
  note parts = last_byte_Some(1) [OF i]
  show ?thesis
  proof (cases "take 1 addr = ''[''")
    case True
    with assms i obtain stop where stop: "index_byte addr CHR '']'' = Some stop" "stop + 1 = i"
      and fin: "split_finish addr (drop 1 (take stop addr)) i 1 (stop + 1) = Inr (host, port)"
      by (auto simp: SplitHostPort_def addrErr_def split: option.splits if_splits)
    from fin have hp: "host = drop 1 (take stop addr)" "port = drop (Suc i) addr"
      by (auto simp: split_finish_def addrErr_def split: if_splits)
    from index_byte_Some [OF stop(1)] have s: "stop < length addr" "addr ! stop = CHR '']''" by auto
    have "stop \<noteq> 0" using True s by (cases addr; cases stop) auto
    then have "take stop addr = ''['' @ host" using True hp(1) by (cases addr; cases stop) auto
    moreover have "take i addr = take stop addr @ '']''" using s stop(2) by (simp add: take_Suc_conv_app_nth flip: stop(2))
    ultimately have "addr = ''['' @ host @ '']:'' @ port" using parts hp(2) by simp
    then show ?thesis ..
  next
    case False
    with assms i have "host = take i addr" "port = drop (Suc i) addr"
      by (auto simp: SplitHostPort_def split_finish_def addrErr_def Let_def split: if_splits)
    with parts show ?thesis by simp
  qed
qed

lemma SplitHostPort_plain:
  assumes "set host \<inter> {CHR '':'', CHR ''['', CHR '']''} = {}" and "set port \<inter> {CHR '':'', CHR ''['', CHR '']''} = {}"
    and "host \<noteq> []"
  shows "SplitHostPort (host @ '':'' @ port) = Inr (host, port)"
proof -
  have l: "last_byte (host @ CHR '':'' # port) CHR '':'' = Some (length host)"
    using assms(2) by (intro last_byte_append) auto
  have "take 1 (host @ CHR '':'' # port) \<noteq> ''[''" using assms(1,3) by (cases host) auto
  moreover have none: "index_byte (host @ CHR '':'' # port) CHR ''['' = None" "index_byte (host @ CHR '':'' # port) CHR '']'' = None"
    "index_byte host CHR '':'' = None"
    unfolding index_byte_None using assms by auto
  ultimately show ?thesis using l by (simp add: SplitHostPort_def split_finish_def Let_def)
qed

lemma index_byte_append: "c \<notin> set u \<Longrightarrow> index_byte (u @ c # v) c = Some (length u)"
  by (induction u) auto

lemma SplitHostPort_bracket:
  assumes "set host \<inter> {CHR '':'', CHR ''['', CHR '']''} = {}" and "set port \<inter> {CHR '':'', CHR ''['', CHR '']''} = {}"
  shows "SplitHostPort (''['' @ host @ '']:'' @ port) = Inr (host, port)"
proof -
  let ?a = "''['' @ host @ '']:'' @ port"
  have l: "last_byte ?a CHR '':'' = Some (length host + 2)"
    using last_byte_append [of "CHR '':''" port "''['' @ host @ '']''"] assms(2) by auto
  have e: "index_byte ?a CHR '']'' = Some (length host + 1)"
    using index_byte_append [of "CHR '']''" "''['' @ host" "CHR '':'' # port"] assms(1) by auto
  have none: "index_byte (drop 1 ?a) CHR ''['' = None" "index_byte (drop (length host + 2) ?a) CHR '']'' = None"
    unfolding index_byte_None using assms by auto
  show ?thesis using l e none by (simp add: SplitHostPort_def split_finish_def)
qed

lemma digit_plain: "list_all is_digit s \<Longrightarrow> set s \<inter> {CHR '':'', CHR ''['', CHR '']''} = {}"
  by (induction s) (auto simp: is_digit_def byte_def)

text \<open>\<open>strings.Split\<close> with a separator of one byte.\<close>

fun split_on :: "char \<Rightarrow> string \<Rightarrow> string list" where
  "split_on c [] = [[]]"
| "split_on c (x # xs) =
     (if x = c then [] # split_on c xs
      else case split_on c xs of [] \<Rightarrow> [[x]] | w # ws \<Rightarrow> (x # w) # ws)"

end
