(* ===== verification/Body_Text.thy ===== *)
theory Body_Text
  imports Go_Text
begin

text \<open>
  Texts of package bodyfile: the encoding of runes, what \<open>json.Unmarshal\<close> makes of a string
  literal, the byte classes of JSON, the number lexer, and JSON pointers
  (\<open>internal/bodyfile/stream.go\<close>, \<open>index.go\<close>).
\<close>

section \<open>Runes\<close>

definition RuneError :: nat where
  "RuneError = 0xFFFD"

definition surrogate :: "nat \<Rightarrow> bool" where
  "surrogate r \<longleftrightarrow> 0xD800 \<le> r \<and> r \<le> 0xDFFF"

text \<open>\<open>utf8.EncodeRune\<close>\<close>

definition encode_valid :: "nat \<Rightarrow> string" where
  "encode_valid r =
     (if r < 0x80 then [char_of r]
      else if r < 0x800 then [char_of (0xC0 + r div 64), char_of (0x80 + r mod 64)]
      else if r < 0x10000 then [char_of (0xE0 + r div 4096), char_of (0x80 + r div 64 mod 64), char_of (0x80 + r mod 64)]
      else [char_of (0xF0 + r div 262144), char_of (0x80 + r div 4096 mod 64), char_of (0x80 + r div 64 mod 64), char_of (0x80 + r mod 64)])"

definition EncodeRune :: "nat \<Rightarrow> string" where
  "EncodeRune r = encode_valid (if surrogate r \<or> 0x10FFFF < r then RuneError else r)"

text \<open>\<open>utf8.RuneLen\<close> of a code point that is no surrogate.\<close>

definition RuneLen :: "nat \<Rightarrow> nat" where
  "RuneLen r = (if r < 0x80 then 1 else if r < 0x800 then 2 else if r < 0x10000 then 3 else 4)"

text \<open>\<open>utf16.DecodeRune\<close>\<close>

definition utf16_DecodeRune :: "nat \<Rightarrow> nat \<Rightarrow> nat" where
  "utf16_DecodeRune high low =
     (if 0xD800 \<le> high \<and> high < 0xDC00 \<and> 0xDC00 \<le> low \<and> low < 0xE000
      then (high - 0xD800) * 1024 + (low - 0xDC00) + 0x10000 else RuneError)"

section \<open>Byte classes\<close>

definition quote :: char where
  "quote = CHR 0x22"

definition backslash :: char where
  "backslash = CHR 0x5C"

definition isJSONWhitespace :: "char \<Rightarrow> bool" where
  "isJSONWhitespace c \<longleftrightarrow> c = CHR '' '' \<or> c = CHR 0x09 \<or> c = CHR 0x0D \<or> c = CHR 0x0A"

definition isJSONDelimiter :: "char \<Rightarrow> bool" where
  "isJSONDelimiter c \<longleftrightarrow> isJSONWhitespace c \<or> c = CHR '','' \<or> c = CHR '']'' \<or> c = CHR ''}''"

definition isHexDigit :: "char \<Rightarrow> bool" where
  "isHexDigit c \<longleftrightarrow> (48 \<le> byte c \<and> byte c \<le> 57) \<or> (97 \<le> byte c \<and> byte c \<le> 102) \<or> (65 \<le> byte c \<and> byte c \<le> 70)"

definition hexDigitValue :: "char \<Rightarrow> nat" where
  "hexDigitValue c =
     (if 48 \<le> byte c \<and> byte c \<le> 57 then byte c - 48
      else if 97 \<le> byte c \<and> byte c \<le> 102 then byte c - 97 + 10
      else byte c - 65 + 10)"

section \<open>String literals\<close>

text \<open>The escapes of one character, and the character they stand for.\<close>

definition simple_escape :: "char \<Rightarrow> char option" where
  "simple_escape e =
     (if e = quote \<or> e = backslash \<or> e = CHR ''/'' then Some e
      else if e = CHR ''b'' then Some (CHR 0x08)
      else if e = CHR ''f'' then Some (CHR 0x0C)
      else if e = CHR ''n'' then Some (CHR 0x0A)
      else if e = CHR ''r'' then Some (CHR 0x0D)
      else if e = CHR ''t'' then Some (CHR 0x09)
      else None)"

definition hex_value :: "string \<Rightarrow> nat" where
  "hex_value s = foldl (\<lambda>acc c. acc * 16 + hexDigitValue c) 0 s"

text \<open>A unicode escape at the start of the text.\<close>

definition getu4 :: "string \<Rightarrow> nat option" where
  "getu4 s =
     (if 6 \<le> length s \<and> s ! 0 = backslash \<and> s ! 1 = CHR ''u'' \<and> list_all isHexDigit (take 4 (drop 2 s))
      then Some (hex_value (take 4 (drop 2 s))) else None)"

text \<open>The bytes between the quotes of a string literal.\<close>

fun string_body :: "string \<Rightarrow> bool" where
  "string_body [] = True"
| "string_body (c # s) =
     (if c = backslash then
        (case s of [] \<Rightarrow> False
         | e # rest \<Rightarrow>
             if simple_escape e \<noteq> None then string_body rest
             else e = CHR ''u'' \<and> (case rest of a # b # c # d # rest \<Rightarrow> list_all isHexDigit [a, b, c, d] \<and> string_body rest | _ \<Rightarrow> False))
      else c \<noteq> quote \<and> 0x20 \<le> byte c \<and> string_body s)"

text \<open>
  \<open>json.Unmarshal\<close> of the bytes between the quotes: escapes are replaced, surrogate halves that
  do not pair and invalid UTF-8 become U+FFFD.
\<close>

function unquote_body :: "string \<Rightarrow> string option" where
  "unquote_body s =
     (if s = [] then Some []
      else if hd s = backslash then
        (if tl s = [] then None
         else case simple_escape (s ! 1) of
           Some x \<Rightarrow> map_option (Cons x) (unquote_body (drop 2 s))
         | None \<Rightarrow>
           case getu4 s of
             None \<Rightarrow> None
           | Some r \<Rightarrow>
               let low = getu4 (drop 6 s) in
               if low \<noteq> None \<and> utf16_DecodeRune r (the low) \<noteq> RuneError
               then map_option (append (EncodeRune (utf16_DecodeRune r (the low)))) (unquote_body (drop 12 s))
               else map_option (append (EncodeRune r)) (unquote_body (drop 6 s)))
      else if hd s = quote \<or> byte (hd s) < 0x20 then None
      else map_option (append (EncodeRune (decode_rune s))) (unquote_body (drop (rune_width s) s)))"
  by pat_completeness auto
termination
  by (relation "measure length") (auto simp: rune_width_pos Let_def)

declare unquote_body.simps [simp del]

definition json_string :: "string \<Rightarrow> string option" where
  "json_string raw =
     (if 2 \<le> length raw \<and> hd raw = quote \<and> last raw = quote \<and> string_body (butlast (tl raw))
      then unquote_body (butlast (tl raw)) else None)"

section \<open>Numbers\<close>

datatype numberState = numberSign | numberZero | numberInteger | numberDot | numberFraction
  | numberExponent | numberExponentSign | numberExponentDigits

definition nonzero_digit :: "char \<Rightarrow> bool" where
  "nonzero_digit c \<longleftrightarrow> 49 \<le> byte c \<and> byte c \<le> 57"

definition initialNumberState :: "char \<Rightarrow> numberState option" where
  "initialNumberState c =
     (if c = CHR ''-'' then Some numberSign
      else if c = CHR ''0'' then Some numberZero
      else if nonzero_digit c then Some numberInteger
      else None)"

definition numberTerminal :: "numberState \<Rightarrow> bool" where
  "numberTerminal n \<longleftrightarrow> n = numberZero \<or> n = numberInteger \<or> n = numberFraction \<or> n = numberExponentDigits"

text \<open>The three results: the state, whether the byte was accepted, and whether it ends the number.\<close>

definition advanceNumber :: "numberState \<Rightarrow> char \<Rightarrow> numberState \<times> bool \<times> bool" where
  "advanceNumber n c =
     (let exponent = (c = CHR ''e'' \<or> c = CHR ''E'') in
      case n of
        numberSign \<Rightarrow>
          if c = CHR ''0'' then (numberZero, True, False)
          else if nonzero_digit c then (numberInteger, True, False) else (n, False, False)
      | numberZero \<Rightarrow>
          if c = CHR ''.'' then (numberDot, True, False)
          else if exponent then (numberExponent, True, False)
          else if isJSONDelimiter c then (n, True, True) else (n, False, False)
      | numberInteger \<Rightarrow>
          if is_digit c then (n, True, False)
          else if c = CHR ''.'' then (numberDot, True, False)
          else if exponent then (numberExponent, True, False)
          else if isJSONDelimiter c then (n, True, True) else (n, False, False)
      | numberDot \<Rightarrow> if is_digit c then (numberFraction, True, False) else (n, False, False)
      | numberFraction \<Rightarrow>
          if is_digit c then (n, True, False)
          else if exponent then (numberExponent, True, False)
          else if isJSONDelimiter c then (n, True, True) else (n, False, False)
      | numberExponent \<Rightarrow>
          if c = CHR ''+'' \<or> c = CHR ''-'' then (numberExponentSign, True, False)
          else if is_digit c then (numberExponentDigits, True, False) else (n, False, False)
      | numberExponentSign \<Rightarrow> if is_digit c then (numberExponentDigits, True, False) else (n, False, False)
      | numberExponentDigits \<Rightarrow>
          if is_digit c then (n, True, False)
          else if isJSONDelimiter c then (n, True, True) else (n, False, False))"

section \<open>JSON pointers\<close>

text \<open>\<open>splitPointer\<close>: the segments with their escapes decoded.\<close>

fun unescape_segment :: "string \<Rightarrow> string option" where
  "unescape_segment [] = Some []"
| "unescape_segment (c # s) =
     (if c \<noteq> CHR ''~'' then map_option (Cons c) (unescape_segment s)
      else case s of
        [] \<Rightarrow> None
      | d # s \<Rightarrow>
          if d = CHR ''0'' then map_option (Cons (CHR ''~'')) (unescape_segment s)
          else if d = CHR ''1'' then map_option (Cons (CHR ''/'')) (unescape_segment s)
          else None)"

fun unescape_segments :: "string list \<Rightarrow> string list option" where
  "unescape_segments [] = Some []"
| "unescape_segments (part # parts) =
     (case unescape_segment part of
        None \<Rightarrow> None
      | Some segment \<Rightarrow> map_option (Cons segment) (unescape_segments parts))"

definition splitPointer :: "string \<Rightarrow> string list option" where
  "splitPointer path =
     (if path = [] \<or> hd path \<noteq> CHR ''/'' then None
      else unescape_segments (split_on CHR ''/'' (tl path)))"

text \<open>\<open>escapePointer\<close>: two replacements, tilde first.\<close>

definition replace_byte :: "char \<Rightarrow> string \<Rightarrow> string \<Rightarrow> string" where
  "replace_byte old new s = concat (map (\<lambda>c. if c = old then new else [c]) s)"

definition escapePointer :: "string \<Rightarrow> string" where
  "escapePointer s = replace_byte CHR ''/'' ''~1'' (replace_byte CHR ''~'' ''~0'' s)"

definition pathString :: "string list \<Rightarrow> string" where
  "pathString segments = concat (map (\<lambda>segment. CHR ''/'' # escapePointer segment) segments)"

definition parentJSONPointer :: "string \<Rightarrow> string" where
  "parentJSONPointer path =
     (case last_byte path CHR ''/'' of
        None \<Rightarrow> []
      | Some i \<Rightarrow> if 0 < i then take i path else [])"

end
