(* ===== verification/Body_Markers.thy ===== *)
theory Body_Markers
  imports Go_Text "HOL-Library.Sublist"
begin

text \<open>
  The raw markers of package bodyfile (\<open>internal/bodyfile/stream.go\<close>): literal byte sequences are
  found while the body streams through, with one Knuth-Morris-Pratt automaton per marker that
  keeps only a prefix length. Proved to find exactly the markers that occur in the stream.
\<close>

section \<open>The code\<close>

record rawMarkerMatcher =
  mm_pattern :: string
  mm_failure :: "nat list"
  mm_matched :: nat
  mm_found :: bool

text \<open>The inner loop, falling back to shorter prefixes until one can be extended by the byte.\<close>

partial_function (option) marker_fall :: "string \<Rightarrow> nat list \<Rightarrow> char \<Rightarrow> nat \<Rightarrow> nat option" where
  "marker_fall pattern failure c k =
     (if 0 < k \<and> c \<noteq> pattern ! k then marker_fall pattern failure c (failure ! (k - 1))
      else Some k)"

definition marker_advance :: "string \<Rightarrow> nat list \<Rightarrow> char \<Rightarrow> nat \<Rightarrow> nat option" where
  "marker_advance pattern failure c k =
     map_option (\<lambda>j. if c = pattern ! j then j + 1 else j) (marker_fall pattern failure c k)"

fun failure_loop :: "string \<Rightarrow> nat list \<Rightarrow> nat \<Rightarrow> string \<Rightarrow> nat list option" where
  "failure_loop pattern failure k [] = Some failure"
| "failure_loop pattern failure k (c # rest) =
     (case marker_advance pattern failure c k of
        None \<Rightarrow> None
      | Some j \<Rightarrow> failure_loop pattern (failure @ [j]) j rest)"

definition newRawMarkerMatcher :: "string \<Rightarrow> rawMarkerMatcher option" where
  "newRawMarkerMatcher pattern =
     map_option (\<lambda>failure. \<lparr> mm_pattern = pattern, mm_failure = failure, mm_matched = 0, mm_found = False \<rparr>)
       (if pattern = [] then Some [] else failure_loop pattern [0] 0 (tl pattern))"

definition marker_feed :: "rawMarkerMatcher \<Rightarrow> char \<Rightarrow> rawMarkerMatcher option" where
  "marker_feed m c =
     (if mm_found m \<or> mm_pattern m = [] then Some m
      else case marker_advance (mm_pattern m) (mm_failure m) c (mm_matched m) of
        None \<Rightarrow> None
      | Some matched \<Rightarrow>
          Some (if matched = length (mm_pattern m)
                then m\<lparr>mm_found := True, mm_matched := mm_failure m ! (matched - 1)\<rparr>
                else m\<lparr>mm_matched := matched\<rparr>))"

fun marker_feed_all :: "string \<Rightarrow> rawMarkerMatcher \<Rightarrow> rawMarkerMatcher option" where
  "marker_feed_all [] m = Some m"
| "marker_feed_all (c # rest) m = (case marker_feed m c of None \<Rightarrow> None | Some m \<Rightarrow> marker_feed_all rest m)"

section \<open>The longest matching prefix\<close>

text \<open>The prefix of length \<open>k\<close> of the pattern ends the str.\<close>

definition ends :: "string \<Rightarrow> string \<Rightarrow> nat \<Rightarrow> bool" where
  "ends pattern str k \<longleftrightarrow> k \<le> length pattern \<and> suffix (take k pattern) str"

definition longest :: "string \<Rightarrow> string \<Rightarrow> nat \<Rightarrow> bool" where
  "longest pattern str m \<longleftrightarrow> ends pattern str m \<and> (\<forall>k. ends pattern str k \<longrightarrow> k \<le> m)"

text \<open>The table holds the longest proper borders of the prefixes of the pattern.\<close>

definition table_ok :: "string \<Rightarrow> nat list \<Rightarrow> bool" where
  "table_ok pattern failure \<longleftrightarrow> length failure \<le> length pattern \<and>
     (\<forall>i < length failure. longest pattern (tl (take (i + 1) pattern)) (failure ! i))"

lemma ends_0 [simp]: "ends pattern str 0"
  by (simp add: ends_def)

lemma ends_length: "ends pattern str k \<Longrightarrow> k \<le> length str"
  by (auto simp: ends_def dest: suffix_length_le)

lemma ends_snoc: "k < length pattern \<Longrightarrow> ends pattern (str @ [c]) (k + 1) \<longleftrightarrow> ends pattern str k \<and> pattern ! k = c"
  by (auto simp: ends_def take_Suc_conv_app_nth)

text \<open>Below a matching prefix the matching prefixes are its borders.\<close>

lemma ends_border:
  assumes "ends pattern str m" "k \<le> m"
  shows "ends pattern str k \<longleftrightarrow> ends pattern (take m pattern) k"
proof
  assume "ends pattern str k"
  then have "suffix (take k pattern) str" "suffix (take m pattern) str" "k \<le> length pattern"
    using assms by (auto simp: ends_def)
  then show "ends pattern (take m pattern) k"
    using assms by (auto simp: ends_def intro: suffix_length_suffix)
next
  assume "ends pattern (take m pattern) k"
  with assms show "ends pattern str k" by (auto simp: ends_def intro: suffix_order.trans)
qed

lemma ends_tl:
  assumes "k < m" "m \<le> length pattern"
  shows "ends pattern (take m pattern) k \<longleftrightarrow> ends pattern (tl (take m pattern)) k"
proof -
  obtain c rest where eq: "take m pattern = c # rest" using assms by (cases "take m pattern") auto
  have "length rest = m - 1" using assms arg_cong [OF eq, of length] by simp
  then have "suffix (take k pattern) (c # rest) \<longleftrightarrow> suffix (take k pattern) rest"
    using assms by (auto simp: suffix_Cons dest: arg_cong [of _ _ length])
  with eq show ?thesis by (simp add: ends_def)
qed

text \<open>The fallback loop returns and stops at the longest border that the byte extends.\<close>

lemma marker_fall_spec:
  assumes "table_ok pattern failure" "m \<le> length failure" "m < length pattern"
  shows "\<exists>k. marker_fall pattern failure c m = Some k \<and> k \<le> m \<and> ends pattern (take m pattern) k \<and>
    (k = 0 \<or> pattern ! k = c) \<and> (\<forall>j \<le> m. ends pattern (take m pattern) j \<and> pattern ! j = c \<longrightarrow> j \<le> k)"
  using assms(2,3)
proof (induction m rule: less_induct)
  case (less m)
  show ?case
  proof (cases "0 < m \<and> c \<noteq> pattern ! m")
    case False
    then have "marker_fall pattern failure c m = Some m" by (subst marker_fall.simps) (use False in auto)
    with False less.prems show ?thesis by (auto simp: ends_def)
  next
    case True
    define n where "n = failure ! (m - 1)"
    have long: "longest pattern (tl (take m pattern)) n"
      using assms(1) less.prems True by (auto simp: table_ok_def n_def dest: spec [of _ "m - 1"])
    then have below: "n < m" using ends_length [of pattern "tl (take m pattern)" n] True less.prems by (auto simp: longest_def)
    then have ends: "ends pattern (take m pattern) n"
      using long ends_tl [OF below] less.prems by (simp add: longest_def)
    from less.IH [OF below] below less.prems obtain k where
      k: "marker_fall pattern failure c n = Some k" "k \<le> n" "ends pattern (take n pattern) k" "k = 0 \<or> pattern ! k = c"
        "\<And>j. j \<le> n \<Longrightarrow> ends pattern (take n pattern) j \<Longrightarrow> pattern ! j = c \<Longrightarrow> j \<le> k"
      by auto
    have "marker_fall pattern failure c m = Some k" using True k(1) by (subst marker_fall.simps) (simp add: n_def)
    moreover have "ends pattern (take m pattern) k" using ends_border [OF ends k(2)] k(3) by simp
    moreover have "j \<le> k" if j: "j \<le> m" "ends pattern (take m pattern) j" "pattern ! j = c" for j
    proof -
      have "j < m" using j True by (cases "j = m") auto
      then have "j \<le> n" using long j ends_tl [of j m pattern] less.prems by (auto simp: longest_def)
      with j k(5) [of j] ends_border [OF ends] show ?thesis by auto
    qed
    ultimately show ?thesis using k below by (intro exI [of _ k]) auto
  qed
qed

lemma marker_advance_spec:
  assumes table: "table_ok pattern failure" and m: "m \<le> length failure" "m < length pattern"
    and long: "longest pattern str m"
  shows "\<exists>n. marker_advance pattern failure c m = Some n \<and> n \<le> m + 1 \<and> longest pattern (str @ [c]) n"
proof -
  from marker_fall_spec [OF table m, of c] obtain k where
    k: "marker_fall pattern failure c m = Some k" "k \<le> m" "ends pattern (take m pattern) k" "k = 0 \<or> pattern ! k = c"
      "\<And>j. j \<le> m \<Longrightarrow> ends pattern (take m pattern) j \<Longrightarrow> pattern ! j = c \<Longrightarrow> j \<le> k" by auto
  have ends: "ends pattern str m" using long by (simp add: longest_def)
  define n where "n = (if c = pattern ! k then k + 1 else k)"
  have "ends pattern (str @ [c]) n"
    using k(2-4) ends_snoc [of k pattern str c] ends_border [OF ends, of k] m by (auto simp: n_def)
  moreover have "i \<le> n" if i: "ends pattern (str @ [c]) i" for i
  proof (cases i)
    case (Suc j)
    then have "j < length pattern" using i by (simp add: ends_def)
    then have j: "ends pattern str j" "pattern ! j = c" using i Suc ends_snoc [of j pattern str c] by simp_all
    then have "j \<le> m" using long by (simp add: longest_def)
    then have "j \<le> k" using k(5) [of j] j ends_border [OF ends, of j] by auto
    show ?thesis
    proof (cases "c = pattern ! k")
      case True
      with \<open>j \<le> k\<close> Suc show ?thesis by (simp add: n_def)
    next
      case False
      then have "k = 0" using k(4) by auto
      with \<open>j \<le> k\<close> j False show ?thesis by simp
    qed
  qed simp
  ultimately show ?thesis using k by (auto simp: marker_advance_def longest_def n_def)
qed

section \<open>The table\<close>

lemma table_ok_snoc:
  assumes "table_ok pattern failure" "length failure < length pattern"
    and "longest pattern (tl (take (length failure + 1) pattern)) n"
  shows "table_ok pattern (failure @ [n])"
  using assms by (auto simp: table_ok_def nth_append less_Suc_eq)

lemma failure_loop_spec:
  assumes "table_ok pattern failure" "failure \<noteq> []" "len = last failure" "rest = drop (length failure) pattern"
  shows "\<exists>table. failure_loop pattern failure len rest = Some table \<and> table_ok pattern table \<and> length table = length pattern"
  using assms
proof (induction rest arbitrary: failure len)
  case Nil
  then show ?case by (auto simp: table_ok_def)
next
  case (Cons c rest)
  have short: "length failure < length pattern" using Cons.prems(4) by (metis drop_all leI list.distinct(1))
  have c: "c = pattern ! length failure" "rest = drop (length (failure @ [x])) pattern" for x
    using Cons.prems(4) short by (simp_all add: Cons_nth_drop_Suc [symmetric])
  have long: "longest pattern (tl (take (length failure) pattern)) len"
    using Cons.prems(1-3) by (auto simp: table_ok_def last_conv_nth dest: spec [of _ "length failure - 1"])
  then have "len \<le> length (tl (take (length failure) pattern))" by (intro ends_length [of pattern]) (simp add: longest_def)
  then have len: "len \<le> length failure" "len < length pattern" using short by simp_all
  from marker_advance_spec [OF Cons.prems(1) len long, of c] obtain n where
    n: "marker_advance pattern failure c len = Some n" "longest pattern (tl (take (length failure) pattern) @ [c]) n" by auto
  have "tl (take (length failure) pattern) @ [c] = tl (take (length failure + 1) pattern)"
    using c(1) short Cons.prems(2) by (cases failure; cases pattern) (auto simp: take_Suc_conv_app_nth)
  with n(2) have "table_ok pattern (failure @ [n])" using table_ok_snoc Cons.prems(1) short by simp
  from Cons.IH [OF this, of n] c(2) n(1) show ?case by simp
qed

definition matcher_ok :: "string \<Rightarrow> string \<Rightarrow> rawMarkerMatcher \<Rightarrow> bool" where
  "matcher_ok pattern str m \<longleftrightarrow> mm_pattern m = pattern \<and> table_ok pattern (mm_failure m) \<and>
     length (mm_failure m) = length pattern \<and> (mm_found m \<longleftrightarrow> sublist pattern str) \<and>
     (\<not> mm_found m \<longrightarrow> longest pattern str (mm_matched m) \<and> mm_matched m < length pattern)"

lemma newRawMarkerMatcher_ok:
  assumes "pattern \<noteq> []"
  shows "\<exists>m. newRawMarkerMatcher pattern = Some m \<and> matcher_ok pattern [] m"
proof -
  have "tl (take 1 pattern) = []" by (cases pattern) auto
  then have start: "table_ok pattern [0]"
    using assms by (auto simp: table_ok_def longest_def Suc_le_eq dest: ends_length)
  from failure_loop_spec [OF start, of 0 "tl pattern"] obtain table where
    "failure_loop pattern [0] 0 (tl pattern) = Some table" "table_ok pattern table" "length table = length pattern"
    by (auto simp: drop_Suc)
  with assms show ?thesis
    by (auto simp: newRawMarkerMatcher_def matcher_ok_def longest_def dest: ends_length)
qed

lemma sublist_snoc_iff: "sublist pattern (str @ [c]) \<longleftrightarrow> sublist pattern str \<or> suffix pattern (str @ [c])"
proof -
  have "sublist (rev pattern) (c # rev str) \<longleftrightarrow> prefix (rev pattern) (c # rev str) \<or> sublist (rev pattern) (rev str)"
    by (rule sublist_Cons_right)
  then show ?thesis by (auto simp: suffix_to_prefix sublist_rev [of pattern str, symmetric] sublist_rev [of pattern "str @ [c]", symmetric] simp del: sublist_rev)
qed

lemma marker_feed_ok:
  assumes "matcher_ok pattern str m" "pattern \<noteq> []"
  shows "\<exists>n. marker_feed m c = Some n \<and> matcher_ok pattern (str @ [c]) n"
proof (cases "mm_found m")
  case True
  with assms show ?thesis by (auto simp: marker_feed_def matcher_ok_def sublist_snoc_iff)
next
  case False
  note ok = assms(1) [unfolded matcher_ok_def]
  have table: "table_ok pattern (mm_failure m)" and long: "longest pattern str (mm_matched m)"
    and m: "mm_matched m \<le> length (mm_failure m)" "mm_matched m < length pattern" using ok False by auto
  from marker_advance_spec [OF table m long, of c] obtain n where
    n: "marker_advance pattern (mm_failure m) c (mm_matched m) = Some n" "longest pattern (str @ [c]) n" by auto
  have le: "n \<le> length pattern" using n(2) by (simp add: longest_def ends_def)
  have full: "n = length pattern \<longleftrightarrow> suffix pattern (str @ [c])"
  proof
    assume "suffix pattern (str @ [c])"
    then have "ends pattern (str @ [c]) (length pattern)" by (simp add: ends_def)
    with n(2) le show "n = length pattern" by (auto simp: longest_def)
  qed (use n(2) in \<open>auto simp: longest_def ends_def\<close>)
  show ?thesis
    using ok False assms(2) n le full by (auto simp: marker_feed_def matcher_ok_def sublist_snoc_iff)
qed

lemma marker_feed_all_ok:
  assumes "matcher_ok pattern str m" "pattern \<noteq> []"
  shows "\<exists>n. marker_feed_all more_text m = Some n \<and> matcher_ok pattern (str @ more_text) n"
  using assms(1)
proof (induction more_text arbitrary: m str)
  case (Cons c rest)
  from marker_feed_ok [OF Cons.prems assms(2), of c] obtain n where
    "marker_feed m c = Some n" "matcher_ok pattern (str @ [c]) n" by auto
  with Cons.IH show ?case by fastforce
qed simp

end
