(* ===== verification/Scheduler_Contracts.thy ===== *)
theory Scheduler_Contracts
  imports Provider_Model
begin

text \<open>
  Package scheduler, the contracts between scheduler and health controller
  (\<open>internal/scheduler/contracts.go\<close>) and the policy values (\<open>internal/scheduler/policy.go\<close>).
  Go's string-typed enumerations are datatypes; a constructor \<open>...Empty\<close> is the zero value
  \<open>""\<close> that a zero struct carries, and \<open>FailureOther\<close> is any other text.
\<close>

section \<open>Data\<close>

record StickyKey =
  sk_SessionID :: string
  sk_Model :: string
  sk_RequestType :: RequestType

datatype StaticAvailability = StaticActive | StaticDisabledProvider | StaticNoModels

datatype GlobalHealthState =
  GlobalEmpty | GlobalUnknown | GlobalHealthy | GlobalDegraded | GlobalCooldown | GlobalHalfOpen | GlobalDisabled

datatype ChannelHealthState =
  ChannelEmpty | ChannelUnknown | ChannelHealthy | ChannelDegraded | ChannelCooldown | ChannelHalfOpen | ChannelDisabled

datatype FailureClass =
  FailureNone | FailureNeutral | FailureGlobalImmediate | FailureGlobalTransient
| FailureChannelImmediate | FailureChannelTransient | FailureChannelStream
| FailureClientCanceled | FailureDownstream | FailureOther string

record Outcome =
  o_Class :: FailureClass
  o_HTTPStatus :: int
  o_RetryAfter :: duration
  o_HasRetryAfter :: bool
  o_UpstreamURL :: string
  o_RawError :: string
  o_ErrorPending :: bool
  o_SessionID :: string
  o_ResponseStarted :: bool
  o_ClientCanceled :: bool

definition zeroOutcome :: Outcome where
  "zeroOutcome =
     \<lparr> o_Class = FailureOther '''', o_HTTPStatus = 0, o_RetryAfter = 0, o_HasRetryAfter = False,
       o_UpstreamURL = '''', o_RawError = '''', o_ErrorPending = False, o_SessionID = '''',
       o_ResponseStarted = False, o_ClientCanceled = False \<rparr>"

record HealthKey =
  hk_ProviderID :: string
  hk_Generation :: ProviderGeneration
  hk_Epoch :: u64
  hk_Model :: string
  hk_RequestType :: RequestType

definition zeroHealthKey :: HealthKey where
  "zeroHealthKey =
     \<lparr> hk_ProviderID = '''', hk_Generation = '''', hk_Epoch = 0, hk_Model = '''', hk_RequestType = '''' \<rparr>"

record HealthLease =
  hl_Key :: HealthKey
  hl_GlobalProbe :: bool
  hl_ChannelProbe :: bool
  hl_Disabled :: bool
  hl_Token :: u64

definition zeroHealthLease :: HealthLease where
  "zeroHealthLease =
     \<lparr> hl_Key = zeroHealthKey, hl_GlobalProbe = False, hl_ChannelProbe = False, hl_Disabled = False,
       hl_Token = 0 \<rparr>"

record HealthDecision =
  hd_Available :: bool
  hd_Lease :: HealthLease
  hd_GlobalState :: GlobalHealthState
  hd_ChannelState :: ChannelHealthState
  hd_RetryAt :: "gotime option"

record HealthUpdate =
  hu_GlobalState :: GlobalHealthState
  hu_ChannelState :: ChannelHealthState
  hu_GlobalEnteredCooldown :: bool
  hu_ChannelEnteredCooldown :: bool
  hu_CooldownUntil :: "gotime option"

definition zeroHealthUpdate :: HealthUpdate where
  "zeroHealthUpdate =
     \<lparr> hu_GlobalState = GlobalEmpty, hu_ChannelState = ChannelEmpty, hu_GlobalEnteredCooldown = False,
       hu_ChannelEnteredCooldown = False, hu_CooldownUntil = None \<rparr>"

section \<open>Outcomes\<close>

definition ClassifyHTTPStatus :: "int \<Rightarrow> FailureClass" where
  "ClassifyHTTPStatus status =
     (if status \<ge> 200 \<and> status < 300 then FailureNone
      else if status = 401 \<or> status = 403 \<or> status = 405 \<or> (status \<ge> 300 \<and> status < 400)
        then FailureGlobalImmediate
      else if status = 402 \<or> status = 404 then FailureChannelImmediate
      else if status = 408 \<or> status = 425 \<or> status = 429 \<or> status \<ge> 500 then FailureChannelTransient
      else FailureNeutral)"

definition ShouldFailover :: "Outcome \<Rightarrow> bool" where
  "ShouldFailover out =
     (if o_ResponseStarted out \<or> o_ClientCanceled out then False
      else case o_Class out of
          FailureGlobalImmediate \<Rightarrow> True
        | FailureGlobalTransient \<Rightarrow> True
        | FailureChannelImmediate \<Rightarrow> True
        | FailureChannelTransient \<Rightarrow> True
        | _ \<Rightarrow> False)"

definition IsHealthFailure :: "Outcome \<Rightarrow> bool" where
  "IsHealthFailure out =
     (case o_Class out of
          FailureGlobalImmediate \<Rightarrow> True
        | FailureGlobalTransient \<Rightarrow> True
        | FailureChannelImmediate \<Rightarrow> True
        | FailureChannelTransient \<Rightarrow> True
        | FailureChannelStream \<Rightarrow> True
        | _ \<Rightarrow> False)"

section \<open>Attempt policy and health policy\<close>

record AttemptPolicy =
  ap_MaxAttempts :: int
  ap_StickyNoCooldownAttempts :: int

definition AttemptPolicy_Validate :: "AttemptPolicy \<Rightarrow> string option" where
  "AttemptPolicy_Validate p =
     (if ap_MaxAttempts p \<le> 0 then Some ''maximum attempts must be positive''
      else if ap_StickyNoCooldownAttempts p \<le> 0 then Some ''sticky no-cooldown attempts must be positive''
      else None)"

text \<open>Durations in nanoseconds.\<close>

definition Second :: duration where "Second = 1000000000"
definition Minute :: duration where "Minute = 60 * Second"
definition Hour :: duration where "Hour = 60 * Minute"

record Policy =
  po_FailureWindow :: duration
  po_FailureThreshold :: int
  po_Cooldowns :: "duration list" \<comment> \<open>the array [5]time.Duration\<close>
  po_HalfOpenConcurrency :: int
  po_StickyTTL :: duration
  po_StickyCapacity :: int
  po_RetryAfterMin :: duration
  po_RetryAfterMax :: duration

definition zeroPolicy :: Policy where
  "zeroPolicy =
     \<lparr> po_FailureWindow = 0, po_FailureThreshold = 0, po_Cooldowns = [0, 0, 0, 0, 0],
       po_HalfOpenConcurrency = 0, po_StickyTTL = 0, po_StickyCapacity = 0, po_RetryAfterMin = 0,
       po_RetryAfterMax = 0 \<rparr>"

definition DefaultPolicy :: Policy where
  "DefaultPolicy =
     \<lparr> po_FailureWindow = Hour, po_FailureThreshold = 3,
       po_Cooldowns = [Minute, 2 * Minute, 4 * Minute, 8 * Minute, 15 * Minute],
       po_HalfOpenConcurrency = 1, po_StickyTTL = Hour, po_StickyCapacity = 8192,
       po_RetryAfterMin = Second, po_RetryAfterMax = 15 * Minute \<rparr>"

text \<open>\<open>config.DefaultNormalMaxAttempts\<close> and \<open>config.DefaultStickyNoCooldownAttempts\<close>.\<close>

definition DefaultNormalMaxAttempts :: int where "DefaultNormalMaxAttempts = 3"
definition DefaultStickyNoCooldownAttempts :: int where "DefaultStickyNoCooldownAttempts = 1"

definition DefaultAttemptPolicy :: AttemptPolicy where
  "DefaultAttemptPolicy =
     \<lparr> ap_MaxAttempts = DefaultNormalMaxAttempts,
       ap_StickyNoCooldownAttempts = DefaultStickyNoCooldownAttempts \<rparr>"

definition DefaultClassifierAttemptPolicy :: AttemptPolicy where
  "DefaultClassifierAttemptPolicy = \<lparr> ap_MaxAttempts = 1, ap_StickyNoCooldownAttempts = 1 \<rparr>"

text \<open>The loop over the cooldown schedule, with \<open>previous\<close> as its state.\<close>

fun cooldowns_ok :: "duration \<Rightarrow> duration list \<Rightarrow> bool" where
  "cooldowns_ok previous [] = True"
| "cooldowns_ok previous (v # vs) = (if v \<le> 0 \<or> v < previous then False else cooldowns_ok v vs)"

definition Policy_Validate :: "Policy \<Rightarrow> string option" where
  "Policy_Validate p =
     (if po_FailureWindow p \<le> 0 \<or> po_FailureThreshold p \<le> 0
        then Some ''failure window and threshold must be positive''
      else if po_HalfOpenConcurrency p \<noteq> 1 then Some ''half-open concurrency must be exactly one''
      else if po_StickyTTL p \<le> 0 \<or> po_StickyCapacity p \<le> 0 then Some ''sticky limits must be positive''
      else if po_RetryAfterMin p \<le> 0 \<or> po_RetryAfterMax p < po_RetryAfterMin p
        then Some ''retry-after bounds are invalid''
      else if \<not> cooldowns_ok 0 (po_Cooldowns p)
        then Some ''cooldown schedule must be positive and nondecreasing''
      else None)"

definition Cooldown :: "Policy \<Rightarrow> int \<Rightarrow> duration" where
  "Cooldown p level =
     (let l = (if level < 0 then 0 else level);
          l = (if l \<ge> int (length (po_Cooldowns p)) then int (length (po_Cooldowns p)) - 1 else l)
      in po_Cooldowns p ! nat l)"

definition EffectiveCooldown :: "Policy \<Rightarrow> int \<Rightarrow> duration \<Rightarrow> bool \<Rightarrow> duration" where
  "EffectiveCooldown p level retryAfter hasRetryAfter =
     (let base = Cooldown p level in
      if \<not> hasRetryAfter then base
      else
        let r = (if retryAfter < po_RetryAfterMin p then po_RetryAfterMin p else retryAfter);
            r = (if r > po_RetryAfterMax p then po_RetryAfterMax p else r)
        in if r > base then r else base)"

text \<open>A policy the constructors accept: validated, with the five cooldowns of its array type.\<close>

definition policy_ok :: "Policy \<Rightarrow> bool" where
  "policy_ok p = (Policy_Validate p = None \<and> length (po_Cooldowns p) = 5)"

section \<open>Lemmas\<close>

lemma cooldowns_ok_pos: "cooldowns_ok prev vs \<Longrightarrow> v \<in> set vs \<Longrightarrow> 0 < v \<and> prev \<le> v"
  by (induction prev vs rule: cooldowns_ok.induct) (fastforce split: if_splits)+

lemma cooldowns_ok_mono:
  "cooldowns_ok prev vs \<Longrightarrow> i \<le> j \<Longrightarrow> j < length vs \<Longrightarrow> vs ! i \<le> vs ! j"
proof (induction prev vs arbitrary: i j rule: cooldowns_ok.induct)
  case (2 previous v vs)
  then show ?case
    by (cases i; cases j) (auto split: if_splits dest: cooldowns_ok_pos [OF _ nth_mem])
qed simp

lemma policy_okD:
  assumes "policy_ok p"
  shows "0 < po_FailureWindow p" "0 < po_FailureThreshold p" "0 < po_StickyTTL p" "0 < po_StickyCapacity p"
    "0 < po_RetryAfterMin p" "po_RetryAfterMin p \<le> po_RetryAfterMax p" "cooldowns_ok 0 (po_Cooldowns p)"
    "length (po_Cooldowns p) = 5"
  using assms by (auto simp: policy_ok_def Policy_Validate_def split: if_splits)

lemma Cooldown_nth:
  assumes "policy_ok p"
  shows "Cooldown p level = po_Cooldowns p ! nat (max 0 (min level 4))"
  using policy_okD(8) [OF assms] by (auto simp: Cooldown_def Let_def max_def min_def)

lemma Cooldown_pos: "policy_ok p \<Longrightarrow> 0 < Cooldown p level"
  using cooldowns_ok_pos [OF policy_okD(7), of p "Cooldown p level"] policy_okD(8) [of p]
  by (auto simp: Cooldown_nth intro!: nth_mem)

lemma EffectiveCooldown_pos: "policy_ok p \<Longrightarrow> 0 < EffectiveCooldown p level r h"
  using Cooldown_pos [of p level] by (auto simp: EffectiveCooldown_def Let_def)

lemma DefaultPolicy_ok: "policy_ok DefaultPolicy"
  by (simp add: policy_ok_def Policy_Validate_def DefaultPolicy_def Hour_def Minute_def Second_def)

section \<open>Properties\<close>

text \<open>
  A cooldown is never shorter than the backoff schedule's entry and never longer than
  that entry or the Retry-After ceiling; it grows with the backoff level, and without a
  Retry-After header it is the schedule's entry.
\<close>

theorem EffectiveCooldown_bounds:
  assumes "policy_ok p"
  shows "Cooldown p level \<le> EffectiveCooldown p level r h \<and>
    EffectiveCooldown p level r h \<le> max (Cooldown p level) (po_RetryAfterMax p) \<and>
    (\<not> h \<longrightarrow> EffectiveCooldown p level r h = po_Cooldowns p ! nat (max 0 (min level 4))) \<and>
    (level \<le> level' \<longrightarrow> EffectiveCooldown p level r h \<le> EffectiveCooldown p level' r h)"
proof -
  have mono: "Cooldown p level \<le> Cooldown p level'" if "level \<le> level'"
    using that policy_okD(7,8) [OF assms]
    by (auto simp: Cooldown_nth [OF assms] intro!: cooldowns_ok_mono)
  show ?thesis
    using mono policy_okD(6) [OF assms]
    by (auto simp: EffectiveCooldown_def Let_def simp flip: Cooldown_nth [OF assms])
qed

theorem EffectiveCooldown_bounds_witness:
  "policy_ok DefaultPolicy \<and> EffectiveCooldown DefaultPolicy 0 0 False \<le> EffectiveCooldown DefaultPolicy 1 0 False"
  using DefaultPolicy_ok EffectiveCooldown_bounds [OF DefaultPolicy_ok, of 0 0 False 1] by simp

text \<open>
  The classification of an upstream status: exactly the success statuses are no
  failure, every server error and every redirect or authentication failure moves the
  request on to another provider, and a failover outcome is always a health failure.
\<close>

theorem ClassifyHTTPStatus_failover:
  "(ClassifyHTTPStatus st = FailureNone \<longleftrightarrow> st \<in> {200..<300}) \<and>
   (let out = zeroOutcome\<lparr>o_Class := ClassifyHTTPStatus st, o_HTTPStatus := st\<rparr> in
     ShouldFailover out = (st \<in> {300..<400} \<union> {401, 402, 403, 404, 405, 408, 425, 429} \<union> {500..}) \<and>
     IsHealthFailure out = ShouldFailover out)"
  by (auto simp: ClassifyHTTPStatus_def ShouldFailover_def IsHealthFailure_def zeroOutcome_def Let_def)

end
