(* ===== verification/Config_Model.thy ===== *)
theory Config_Model
  imports Go_Text Scheduler_Contracts
begin

text \<open>
  Package config, the persisted configuration and its validation
  (\<open>internal/config/model.go\<close>, \<open>internal/config/tls.go\<close> and the attempt limits of
  \<open>internal/config/codec.go\<close>). The Go values are copied, so \<open>Clone\<close> is the identity on them;
  a nil slice and an empty one differ in JSON only and are both \<open>[]\<close>. The environment
  \<open>go_env\<close> stands for the functions whose result depends on the platform or on Go's URL and
  quoting tables: the error text of \<open>url.Parse\<close>, \<open>filepath.IsAbs\<close> and \<open>strconv.Quote\<close>
  (the verb \<open>%q\<close>).
\<close>

section \<open>Data\<close>

record go_env =
  url_Parse :: "string \<Rightarrow> string option"
  filepath_IsAbs :: "string \<Rightarrow> bool"
  strconv_Quote :: "string \<Rightarrow> string"

definition SchemaVersion :: int where "SchemaVersion = 1"
definition DefaultListenAddr :: string where "DefaultListenAddr = ''127.0.0.1:8765''"
definition DefaultLogMaxBytes :: int where "DefaultLogMaxBytes = 100 * 1024 * 1024"
definition MaxSafeAttempts :: int where "MaxSafeAttempts = 9007199254740991"
definition MaxBytes :: nat where "MaxBytes = 256"

definition AutoModeDisabled :: string where "AutoModeDisabled = ''disabled''"
definition AutoModeProviderPool :: string where "AutoModeProviderPool = ''provider_pool''"
definition AutoModeFixedProvider :: string where "AutoModeFixedProvider = ''fixed_provider''"
definition PathModeDefault :: string where "PathModeDefault = ''default''"
definition PathModeCustom :: string where "PathModeCustom = ''custom''"
definition ProtocolAnthropicMessages :: string where "ProtocolAnthropicMessages = ''anthropic_messages''"
definition ProtocolOpenAIResponses :: string where "ProtocolOpenAIResponses = ''openai_responses''"
definition ProtocolOpenAICompatible :: string where "ProtocolOpenAICompatible = ''openai_compatible''"
definition TLSSystem :: string where "TLSSystem = ''system''"
definition TLSCustom :: string where "TLSCustom = ''custom''"
definition TLSSkip :: string where "TLSSkip = ''skip''"

lemmas mode_defs =
  AutoModeDisabled_def AutoModeProviderPool_def AutoModeFixedProvider_def PathModeDefault_def PathModeCustom_def
  ProtocolAnthropicMessages_def ProtocolOpenAIResponses_def ProtocolOpenAICompatible_def
  TLSSystem_def TLSCustom_def TLSSkip_def

record TLSConfig =
  tls_Mode :: string
  tls_CAFile :: string

record EffectiveTLS =
  et_CAFile :: string
  et_InsecureSkipVerify :: bool

record Profile =
  pr_ID :: string
  pr_Name :: string
  pr_HaikuModel :: string
  pr_SonnetModel :: string
  pr_OpusModel :: string
  pr_FableModel :: string
  pr_SubagentModel :: string
  pr_TeammateDefaultModel :: string
  pr_MaxAttempts :: int
  pr_StickyNoCooldownAttempts :: int

record ClaudeCodeConfig =
  cc_PathMode :: string
  cc_SettingsPath :: string
  cc_DisableTelemetry :: bool
  cc_ActiveProfileID :: string
  cc_Profiles :: "Profile list"

record HarnessesConfig =
  ha_ClaudeCode :: ClaudeCodeConfig

record FixedProviderConfig =
  fp_BaseURL :: string
  fp_APIKey :: string
  fp_UseXAPIKey :: bool
  fp_Protocol :: string
  fp_TLS :: TLSConfig
  fp_Patches :: "string list"

record AutoModeConfig =
  am_Mode :: string
  am_Model :: string
  am_FixedProvider :: "FixedProviderConfig option"

record ProviderConfig =
  pc_ID :: string
  pc_Name :: string
  pc_BaseURL :: string
  pc_APIKey :: string
  pc_Models :: "string list"
  pc_Priority :: int
  pc_Enabled :: bool
  pc_UseXAPIKey :: bool
  pc_TLS :: TLSConfig
  pc_Patches :: "string list"
  pc_DisableHealth :: bool

record ServiceConfig =
  sv_ListenAddr :: string
  sv_LogMaxBytes :: int

record AuthConfig =
  au_GatewayKey :: string
  au_ManagementKey :: string

record Config =
  cfg_SchemaVersion :: int
  cfg_Service :: ServiceConfig
  cfg_Auth :: AuthConfig
  cfg_AutoMode :: AutoModeConfig
  cfg_Harnesses :: HarnessesConfig
  cfg_Providers :: "ProviderConfig list"

record ClientClaudeCodeConfig =
  cl_PathMode :: string
  cl_SettingsPath :: string
  cl_DisableTelemetry :: bool
  cl_Profiles :: "Profile list"

record ClientHarnesses =
  ch_ClaudeCode :: ClientClaudeCodeConfig

record ClientConfigUpdate =
  cu_SchemaVersion :: int
  cu_Service :: ServiceConfig
  cu_Auth :: AuthConfig
  cu_AutoMode :: AutoModeConfig
  cu_Harnesses :: ClientHarnesses
  cu_Providers :: "ProviderConfig list"

datatype config_error =
  ValidationError (error_field: string) (error_message: string)
| ConflictError (error_field: string) (error_message: string)
| ErrActiveProfileReadOnly

fun Error_text :: "config_error \<Rightarrow> string" where
  "Error_text (ValidationError field message) = (if field = [] then message else field @ '': '' @ message)"
| "Error_text (ConflictError field message) = (if field = [] then message else field @ '': '' @ message)"
| "Error_text ErrActiveProfileReadOnly = ''active_profile_id is server-managed and read-only''"

abbreviation validation :: "string \<Rightarrow> string \<Rightarrow> config_error" where
  "validation \<equiv> ValidationError"

abbreviation conflict :: "string \<Rightarrow> string \<Rightarrow> config_error" where
  "conflict \<equiv> ConflictError"

section \<open>Defaults\<close>

definition DefaultClaudeCodeConfig :: ClaudeCodeConfig where
  "DefaultClaudeCodeConfig =
     \<lparr> cc_PathMode = PathModeDefault, cc_SettingsPath = '''', cc_DisableTelemetry = True,
       cc_ActiveProfileID = '''', cc_Profiles = [] \<rparr>"

definition DefaultHarnesses :: HarnessesConfig where
  "DefaultHarnesses = \<lparr> ha_ClaudeCode = DefaultClaudeCodeConfig \<rparr>"

definition Config_Default :: Config where
  "Config_Default =
     \<lparr> cfg_SchemaVersion = SchemaVersion,
       cfg_Service = \<lparr> sv_ListenAddr = DefaultListenAddr, sv_LogMaxBytes = DefaultLogMaxBytes \<rparr>,
       cfg_Auth = \<lparr> au_GatewayKey = '''', au_ManagementKey = '''' \<rparr>,
       cfg_AutoMode = \<lparr> am_Mode = AutoModeDisabled, am_Model = '''', am_FixedProvider = None \<rparr>,
       cfg_Harnesses = DefaultHarnesses, cfg_Providers = [] \<rparr>"

section \<open>Normalization\<close>

definition TLS_Normalize :: "TLSConfig \<Rightarrow> TLSConfig" where
  "TLS_Normalize t = (if tls_Mode t = '''' then t\<lparr>tls_Mode := TLSSystem\<rparr> else t)"

definition TLS_Effective :: "TLSConfig \<Rightarrow> EffectiveTLS" where
  "TLS_Effective t =
     (let t = TLS_Normalize t in
      if tls_Mode t = TLSCustom then \<lparr> et_CAFile = tls_CAFile t, et_InsecureSkipVerify = False \<rparr>
      else \<lparr> et_CAFile = '''', et_InsecureSkipVerify = (tls_Mode t = TLSSkip) \<rparr>)"

definition Profile_Normalize :: "Profile \<Rightarrow> Profile" where
  "Profile_Normalize p =
     (let p = (if pr_MaxAttempts p = 0 then p\<lparr>pr_MaxAttempts := DefaultNormalMaxAttempts\<rparr> else p)
      in if pr_StickyNoCooldownAttempts p = 0
         then p\<lparr>pr_StickyNoCooldownAttempts := DefaultStickyNoCooldownAttempts\<rparr> else p)"

definition ClaudeCode_Normalize :: "ClaudeCodeConfig \<Rightarrow> ClaudeCodeConfig" where
  "ClaudeCode_Normalize c =
     (let out = (if cc_PathMode c = '''' then c\<lparr>cc_PathMode := PathModeDefault\<rparr> else c)
      in out\<lparr>cc_Profiles := map Profile_Normalize (cc_Profiles out)\<rparr>)"

definition Harnesses_Normalize :: "HarnessesConfig \<Rightarrow> HarnessesConfig" where
  "Harnesses_Normalize h = h\<lparr>ha_ClaudeCode := ClaudeCode_Normalize (ha_ClaudeCode h)\<rparr>"

definition FixedProvider_Normalize :: "FixedProviderConfig \<Rightarrow> FixedProviderConfig" where
  "FixedProvider_Normalize f = f\<lparr>fp_TLS := TLS_Normalize (fp_TLS f)\<rparr>"

definition AutoMode_Normalize :: "AutoModeConfig \<Rightarrow> AutoModeConfig" where
  "AutoMode_Normalize a =
     (let out = (if am_Mode a = '''' then a\<lparr>am_Mode := AutoModeDisabled\<rparr> else a)
      in out\<lparr>am_FixedProvider := map_option FixedProvider_Normalize (am_FixedProvider out)\<rparr>)"

definition Config_Normalize :: "Config \<Rightarrow> Config" where
  "Config_Normalize c =
     c\<lparr>cfg_AutoMode := AutoMode_Normalize (cfg_AutoMode c),
       cfg_Harnesses := Harnesses_Normalize (cfg_Harnesses c),
       cfg_Providers := map (\<lambda>p. p\<lparr>pc_TLS := TLS_Normalize (pc_TLS p)\<rparr>) (cfg_Providers c)\<rparr>"

end
