(* ===== verification/Body_Scanner.thy ===== *)
theory Body_Scanner
  imports Body_Text Body_Markers Config_Model
begin

text \<open>
  The incremental JSON scanner of package bodyfile (\<open>internal/bodyfile/stream.go\<close>): it validates
  one top-level object, byte by byte with an explicit stack, records the fields selected by a
  trie of JSON pointers with their byte ranges, and decodes the routing model.

  The stack has its top first. A node of the selector trie is identified by its position, the
  steps from the root, so equal positions are equal pointers; a path is the list of its segments,
  empty for the nil path. \<open>deletePending\<close> is an option, absent for -1. The digest of the bytes is
  left out.
\<close>

section \<open>Data\<close>

record ByteRange =
  br_Start :: nat
  br_End :: nat

definition zeroRange :: ByteRange where
  "zeroRange = \<lparr> br_Start = 0, br_End = 0 \<rparr>"

datatype JSONValueType = JSONNull | JSONBool | JSONNumber | JSONString | JSONObject | JSONArray

record Field =
  fd_Path :: string
  fd_Key :: string
  fd_KeyRange :: ByteRange
  fd_MemberRange :: ByteRange
  fd_DeleteRange :: ByteRange
  fd_ValueRange :: ByteRange
  fd_StringRange :: ByteRange
  fd_Type :: JSONValueType
  fd_ArrayIndex :: int
  fd_Depth :: int

record ContainerInfo =
  ci_Path :: string
  ci_Type :: JSONValueType
  ci_ValueRange :: ByteRange
  ci_ChildCount :: nat
  ci_FirstChildStart :: nat
  ci_LastChildEnd :: nat
  ci_CloseOffset :: nat

record ScanSpec =
  sp_Paths :: "string list"
  sp_RawMarkers :: "string list"
  sp_RequireModel :: bool
  sp_RequireObject :: bool
  sp_SelectAll :: bool

text \<open>\<open>ScanSyntax\<close> is an error that \<open>normalizeScanError\<close> turns into invalid JSON at a position.\<close>

datatype scan_error = InvalidJSON string | InvalidJSONAt nat string | ErrTrailingJSON
  | ErrModelMissing | ErrModelRepeated | ErrModelNotString | ErrModelEmpty | ErrModelTooLong
  | ScanSyntax string | ScannerFinished

type_synonym selectorNode = "string option list"

record selectorTrie =
  tr_nodes :: "selectorNode list"
  tr_terminal :: "selectorNode list"
  tr_selectAll :: bool

datatype frameState = objectKeyOrEnd | objectColon | objectValue | objectCommaOrEnd
  | arrayValueOrEnd | arrayValueRequired | arrayCommaOrEnd

record valueContext =
  vc_start :: nat
  vc_memberStart :: nat
  vc_path :: "string list"
  vc_states :: "selectorNode list"
  vc_selected :: bool
  vc_record :: bool
  vc_key :: string
  vc_keyRange :: ByteRange
  vc_arrayIndex :: int
  vc_depth :: int
  vc_isModel :: bool

definition zeroContext :: valueContext where
  "zeroContext = \<lparr> vc_start = 0, vc_memberStart = 0, vc_path = [], vc_states = [], vc_selected = False, vc_record = False,
     vc_key = [], vc_keyRange = zeroRange, vc_arrayIndex = 0, vc_depth = 0, vc_isModel = False \<rparr>"

record scanFrame =
  sf_kind :: char
  sf_state :: frameState
  sf_afterComma :: bool
  sf_start :: nat
  sf_ctx :: valueContext
  sf_path :: "string list"
  sf_states :: "selectorNode list"
  sf_depth :: int
  sf_selected :: bool
  sf_record :: bool
  sf_childCount :: nat
  sf_firstChildStart :: nat
  sf_lastChildEnd :: nat
  sf_nextIndex :: nat
  sf_pending :: valueContext
  sf_deletePending :: "nat option"

datatype scanTokenKind = tokenKey | tokenString | tokenLiteral | tokenNumber

record scanToken =
  tk_kind :: scanTokenKind
  tk_start :: nat
  tk_ctx :: valueContext
  tk_escaped :: bool
  tk_unicodeDigits :: nat
  tk_unicodeValue :: nat
  tk_raw :: string
  tk_rawLimit :: nat
  tk_rawOverflow :: bool
  tk_modelDecodedBytes :: nat
  tk_modelHighSurrogate :: nat
  tk_modelUTF8Pending :: string
  tk_literal :: string
  tk_literalPos :: nat
  tk_literalComplete :: bool
  tk_numberState :: numberState

definition zeroToken :: scanToken where
  "zeroToken = \<lparr> tk_kind = tokenKey, tk_start = 0, tk_ctx = zeroContext, tk_escaped = False, tk_unicodeDigits = 0,
     tk_unicodeValue = 0, tk_raw = [], tk_rawLimit = 0, tk_rawOverflow = False, tk_modelDecodedBytes = 0,
     tk_modelHighSurrogate = 0, tk_modelUTF8Pending = [], tk_literal = [], tk_literalPos = 0, tk_literalComplete = False,
     tk_numberState = numberSign \<rparr>"

record JSONScanner =
  js_spec :: ScanSpec
  js_trie :: selectorTrie
  js_keyRawLimit :: nat
  js_rawMatchers :: "rawMarkerMatcher list"
  js_offset :: nat
  js_stack :: "scanFrame list"
  js_token :: "scanToken option"
  js_started :: bool
  js_rootDone :: bool
  js_finished :: bool
  js_err :: "scan_error option"
  js_modelSeen :: bool
  js_model :: string
  js_modelRange :: ByteRange
  js_fields :: "Field list"
  js_containers :: "ContainerInfo list"

record ScanResult =
  sr_Spec :: ScanSpec
  sr_Model :: string
  sr_ModelRange :: ByteRange
  sr_Fields :: "Field list"
  sr_Containers :: "ContainerInfo list"
  sr_ModelSeen :: bool
  sr_size :: nat
  sr_rawMarkers :: "(string, bool) gomap"

section \<open>Scan contracts\<close>

fun paths_loop :: "string list \<Rightarrow> string set \<Rightarrow> string option" where
  "paths_loop [] seen = None"
| "paths_loop (path # paths) seen =
     (if path = [] \<or> hd path \<noteq> CHR ''/'' then Some ''scan path is not an absolute JSON pointer''
      else if path \<in> seen then Some ''duplicate scan path''
      else if splitPointer path = None then Some ''invalid JSON pointer escape''
      else paths_loop paths (insert path seen))"

fun markers_loop :: "string list \<Rightarrow> string set \<Rightarrow> string option" where
  "markers_loop [] seen = None"
| "markers_loop (marker # markers) seen =
     (if marker = [] then Some ''raw marker must not be empty''
      else if marker \<in> seen then Some ''duplicate raw marker''
      else markers_loop markers (insert marker seen))"

definition ScanSpec_Validate :: "ScanSpec \<Rightarrow> string option" where
  "ScanSpec_Validate spec =
     (case paths_loop (sp_Paths spec) {} of
        Some e \<Rightarrow> Some e
      | None \<Rightarrow> markers_loop (sp_RawMarkers spec) {})"

definition NewScanSpec :: "string list \<Rightarrow> string + ScanSpec" where
  "NewScanSpec paths =
     (let spec = \<lparr> sp_Paths = paths, sp_RawMarkers = [], sp_RequireModel = False, sp_RequireObject = True, sp_SelectAll = False \<rparr> in
      case ScanSpec_Validate spec of Some e \<Rightarrow> Inl e | None \<Rightarrow> Inr spec)"

definition RequestScanSpec :: "string list \<Rightarrow> string + ScanSpec" where
  "RequestScanSpec paths =
     (case NewScanSpec paths of Inl e \<Rightarrow> Inl e | Inr spec \<Rightarrow> Inr (spec\<lparr>sp_RequireModel := True\<rparr>))"

definition WithRawMarkers :: "string list \<Rightarrow> ScanSpec \<Rightarrow> string + ScanSpec" where
  "WithRawMarkers markers spec =
     (let result = spec\<lparr>sp_RawMarkers := markers\<rparr> in
      case ScanSpec_Validate result of Some e \<Rightarrow> Inl e | None \<Rightarrow> Inr result)"

definition RequestScanSpecWithRawMarkers :: "string list \<Rightarrow> string list \<Rightarrow> string + ScanSpec" where
  "RequestScanSpecWithRawMarkers paths markers =
     (case RequestScanSpec paths of Inl e \<Rightarrow> Inl e | Inr spec \<Rightarrow> WithRawMarkers markers spec)"

text \<open>The selector trie.\<close>

definition selector_step :: "string \<Rightarrow> string option" where
  "selector_step segment = (if segment = ''*'' then None else Some segment)"

fun trie_walk :: "string list \<Rightarrow> selectorNode \<Rightarrow> selectorTrie \<Rightarrow> selectorTrie" where
  "trie_walk [] node trie = trie\<lparr>tr_terminal := node # tr_terminal trie\<rparr>"
| "trie_walk (segment # segments) node trie =
     (let child = node @ [selector_step segment] in
      trie_walk segments child
        (if child \<in> set (tr_nodes trie) then trie else trie\<lparr>tr_nodes := child # tr_nodes trie\<rparr>))"

definition newSelectorTrie :: "string list \<Rightarrow> bool \<Rightarrow> selectorTrie" where
  "newSelectorTrie paths selectAll =
     foldl (\<lambda>trie path. trie_walk (case splitPointer path of None \<Rightarrow> [] | Some segments \<Rightarrow> segments) [] trie)
       \<lparr> tr_nodes = [[]], tr_terminal = [], tr_selectAll = selectAll \<rparr> paths"

definition max_segment :: "string list \<Rightarrow> nat" where
  "max_segment paths =
     foldl (\<lambda>longest path. case splitPointer path of None \<Rightarrow> longest
        | Some segments \<Rightarrow> foldl (\<lambda>longest segment. if length segment > longest then length segment else longest) longest segments)
       (length ''model'') paths"

definition selectorKeyRawLimit :: "ScanSpec \<Rightarrow> nat" where
  "selectorKeyRawLimit spec =
     (let maxDecoded = max_segment (sp_Paths spec); maxInt = 2 ^ 63 - 1 in
      if maxDecoded > (maxInt - 2) div 8 then maxInt
      else let limit = maxDecoded * 8 + 2 in if limit < 64 then 64 else limit)"

definition add_state :: "selectorTrie \<Rightarrow> selectorNode \<Rightarrow> selectorNode list \<Rightarrow> selectorNode list" where
  "add_state trie child states =
     (if child \<in> set (tr_nodes trie) \<and> child \<notin> set states then states @ [child] else states)"

definition transitionStates :: "selectorTrie \<Rightarrow> selectorNode list \<Rightarrow> string \<Rightarrow> selectorNode list" where
  "transitionStates trie states segment =
     foldl (\<lambda>result state. add_state trie (state @ [None]) (add_state trie (state @ [Some segment]) result)) [] states"

definition hasTerminal :: "selectorTrie \<Rightarrow> selectorNode list \<Rightarrow> bool" where
  "hasTerminal trie states = list_ex (\<lambda>state. state \<in> set (tr_terminal trie)) states"

section \<open>Errors\<close>

definition normalizeScanError :: "scan_error \<Rightarrow> nat \<Rightarrow> scan_error" where
  "normalizeScanError err offset = (case err of ScanSyntax m \<Rightarrow> InvalidJSONAt offset m | _ \<Rightarrow> err)"

section \<open>Tokens\<close>

definition appendRaw :: "char \<Rightarrow> scanToken \<Rightarrow> scanToken" where
  "appendRaw c t =
     (if tk_rawLimit t = 0 \<or> length (tk_raw t) < tk_rawLimit t then t\<lparr>tk_raw := tk_raw t @ [c]\<rparr>
      else t\<lparr>tk_rawOverflow := True\<rparr>)"

definition newKeyToken :: "nat \<Rightarrow> nat \<Rightarrow> scanToken" where
  "newKeyToken start rawLimit = appendRaw quote (zeroToken\<lparr>tk_kind := tokenKey, tk_start := start, tk_rawLimit := rawLimit\<rparr>)"

definition addModelDecodedBytes :: "nat \<Rightarrow> scanToken \<Rightarrow> scan_error + scanToken" where
  "addModelDecodedBytes count t =
     (if \<not> vc_isModel (tk_ctx t) then Inr t
      else if int (tk_modelDecodedBytes t) > int MaxBytes - int count then Inl ErrModelTooLong
      else Inr (t\<lparr>tk_modelDecodedBytes := tk_modelDecodedBytes t + count\<rparr>))"

definition flushModelHighSurrogate :: "scanToken \<Rightarrow> scan_error + scanToken" where
  "flushModelHighSurrogate t =
     (if \<not> vc_isModel (tk_ctx t) \<or> tk_modelHighSurrogate t = 0 then Inr t
      else addModelDecodedBytes (RuneLen RuneError) (t\<lparr>tk_modelHighSurrogate := 0\<rparr>))"

definition consumeModelRawUTF8Byte :: "char \<Rightarrow> scanToken \<Rightarrow> scan_error + scanToken" where
  "consumeModelRawUTF8Byte c t =
     (if \<not> vc_isModel (tk_ctx t) then Inr t
      else case (if tk_modelHighSurrogate t \<noteq> 0 then flushModelHighSurrogate t else Inr t) of
        Inl e \<Rightarrow> Inl e
      | Inr t \<Rightarrow>
          if length (tk_modelUTF8Pending t) \<ge> UTFMax then Inl (ScanSyntax ''invalid UTF-8 in model'')
          else
            let pending = tk_modelUTF8Pending t @ [c]; t = t\<lparr>tk_modelUTF8Pending := pending\<rparr> in
            if \<not> FullRuneInString pending then Inr t
            else if (\<not> is_rune (take (rune_width pending) pending) \<and> rune_width pending = 1) \<or> rune_width pending \<noteq> length pending
            then Inl (ScanSyntax ''invalid UTF-8 in model'')
            else addModelDecodedBytes (rune_width pending) (t\<lparr>tk_modelUTF8Pending := []\<rparr>))"

definition finishModelRawRune :: "scanToken \<Rightarrow> scan_error + scanToken" where
  "finishModelRawRune t =
     (if vc_isModel (tk_ctx t) \<and> tk_modelUTF8Pending t \<noteq> [] then Inl (ScanSyntax ''invalid UTF-8 in model'') else Inr t)"

definition consumeModelUnicodeUnit :: "nat \<Rightarrow> scanToken \<Rightarrow> scan_error + scanToken" where
  "consumeModelUnicodeUnit unit t =
     (if \<not> vc_isModel (tk_ctx t) then Inr t
      else if tk_modelHighSurrogate t \<noteq> 0 \<and> 0xDC00 \<le> unit \<and> unit \<le> 0xDFFF
      then addModelDecodedBytes (RuneLen (utf16_DecodeRune (tk_modelHighSurrogate t) unit)) (t\<lparr>tk_modelHighSurrogate := 0\<rparr>)
      else case (if tk_modelHighSurrogate t \<noteq> 0 then flushModelHighSurrogate t else Inr t) of
        Inl e \<Rightarrow> Inl e
      | Inr t \<Rightarrow>
          if 0xD800 \<le> unit \<and> unit \<le> 0xDBFF then Inr (t\<lparr>tk_modelHighSurrogate := unit\<rparr>)
          else if 0xDC00 \<le> unit \<and> unit \<le> 0xDFFF then addModelDecodedBytes (RuneLen RuneError) t
          else addModelDecodedBytes (RuneLen unit) t)"

definition finishModelDecodedString :: "scanToken \<Rightarrow> scan_error + scanToken" where
  "finishModelDecodedString t =
     (case finishModelRawRune t of Inl e \<Rightarrow> Inl e | Inr t \<Rightarrow> flushModelHighSurrogate t)"

text \<open>The raw spelling is kept for keys and for the model.\<close>

definition keepRaw :: "char \<Rightarrow> scanToken \<Rightarrow> scanToken" where
  "keepRaw c t = (if tk_kind t = tokenKey \<or> vc_isModel (tk_ctx t) then appendRaw c t else t)"

section \<open>Contexts and containers\<close>

definition makeObjectContext :: "JSONScanner \<Rightarrow> scanFrame \<Rightarrow> string \<Rightarrow> ByteRange \<Rightarrow> nat \<Rightarrow> bool \<Rightarrow> valueContext" where
  "makeObjectContext s frame key keyRange memberStart keyOverflow =
     (let trie = js_trie s;
          states = transitionStates trie (sf_states frame) key;
          isModel = (sp_RequireModel (js_spec s) \<and> length (js_stack s) = 1 \<and> key = ''model'');
          retain = (\<not> keyOverflow \<and> (tr_selectAll trie \<or> states \<noteq> [] \<or> isModel));
          selected = (\<not> keyOverflow \<and> (tr_selectAll trie \<or> hasTerminal trie states \<or> isModel))
      in zeroContext\<lparr> vc_memberStart := memberStart, vc_path := if retain then sf_path frame @ [key] else [],
           vc_states := if keyOverflow then [] else states, vc_selected := selected, vc_record := retain,
           vc_key := if retain then key else [], vc_keyRange := if retain then keyRange else zeroRange,
           vc_arrayIndex := -1, vc_depth := sf_depth frame + 1, vc_isModel := isModel \<rparr>)"

definition makeArrayContext :: "JSONScanner \<Rightarrow> scanFrame \<Rightarrow> nat \<Rightarrow> nat \<Rightarrow> valueContext" where
  "makeArrayContext s frame index start =
     (let trie = js_trie s;
          segment = nat_text index;
          states = transitionStates trie (sf_states frame) segment;
          retain = (tr_selectAll trie \<or> states \<noteq> []);
          selected = (tr_selectAll trie \<or> hasTerminal trie states)
      in zeroContext\<lparr> vc_start := start, vc_memberStart := start, vc_path := if retain then sf_path frame @ [segment] else [],
           vc_states := states, vc_selected := selected, vc_record := retain,
           vc_arrayIndex := int index, vc_depth := sf_depth frame + 1 \<rparr>)"

definition keyRawLimitFor :: "JSONScanner \<Rightarrow> scanFrame \<Rightarrow> nat" where
  "keyRawLimitFor s frame =
     (if tr_selectAll (js_trie s) then 0
      else if list_ex (\<lambda>state. state @ [None] \<in> set (tr_nodes (js_trie s))) (sf_states frame) then 0
      else js_keyRawLimit s)"

definition newFrame :: "char \<Rightarrow> valueContext \<Rightarrow> scanFrame" where
  "newFrame kind ctx =
     \<lparr> sf_kind = kind, sf_state = if kind = CHR ''{'' then objectKeyOrEnd else arrayValueOrEnd, sf_afterComma = False,
       sf_start = vc_start ctx, sf_ctx = ctx, sf_path = vc_path ctx, sf_states = vc_states ctx, sf_depth = vc_depth ctx,
       sf_selected = vc_selected ctx, sf_record = vc_record ctx, sf_childCount = 0, sf_firstChildStart = 0, sf_lastChildEnd = 0,
       sf_nextIndex = 0, sf_pending = zeroContext, sf_deletePending = None \<rparr>"

definition pushContainer :: "char \<Rightarrow> valueContext \<Rightarrow> JSONScanner \<Rightarrow> JSONScanner" where
  "pushContainer kind ctx s = s\<lparr>js_stack := newFrame kind ctx # js_stack s\<rparr>"

text \<open>The start of the next sibling ends the range that deletes the child before it.\<close>

definition noteNextSibling :: "nat \<Rightarrow> JSONScanner \<Rightarrow> JSONScanner" where
  "noteNextSibling nextStart s =
     (case js_stack s of [] \<Rightarrow> s
      | parent # stack \<Rightarrow>
        case sf_deletePending parent of None \<Rightarrow> s
        | Some i \<Rightarrow>
          if i \<ge> length (js_fields s) then s
          else
            let field = js_fields s ! i;
                start = (if fd_ArrayIndex field \<ge> 0 then br_Start (fd_ValueRange field) else br_Start (fd_MemberRange field))
            in s\<lparr> js_fields := (js_fields s)[i := field\<lparr>fd_DeleteRange := \<lparr> br_Start = start, br_End = nextStart \<rparr>\<rparr>],
                  js_stack := parent\<lparr>sf_deletePending := None\<rparr> # stack \<rparr>)"

definition count_child :: "valueContext \<Rightarrow> nat \<Rightarrow> scanFrame \<Rightarrow> scanFrame" where
  "count_child ctx end parent =
     (let start = (if sf_kind parent = CHR ''['' then vc_start ctx else vc_memberStart ctx) in
      parent\<lparr> sf_childCount := sf_childCount parent + 1,
              sf_nextIndex := if sf_kind parent = CHR ''['' then sf_nextIndex parent + 1 else sf_nextIndex parent,
              sf_firstChildStart := if sf_childCount parent = 0 then start else sf_firstChildStart parent,
              sf_lastChildEnd := end \<rparr>)"

definition model_result :: "valueContext \<Rightarrow> JSONValueType \<Rightarrow> ByteRange \<Rightarrow> string \<Rightarrow> JSONScanner \<Rightarrow> bool \<times> JSONScanner" where
  "model_result ctx typ stringRange stringValue s =
     (if \<not> vc_isModel ctx then (True, s)
      else if js_modelSeen s then (False, s\<lparr>js_err := Some ErrModelRepeated\<rparr>)
      else
        let s = s\<lparr>js_modelSeen := True\<rparr> in
        if typ \<noteq> JSONString then (False, s\<lparr>js_err := Some ErrModelNotString\<rparr>)
        else if stringValue = [] then (False, s\<lparr>js_err := Some ErrModelEmpty\<rparr>)
        else (True, s\<lparr>js_model := stringValue, js_modelRange := stringRange\<rparr>))"

definition new_field :: "valueContext \<Rightarrow> JSONValueType \<Rightarrow> ByteRange \<Rightarrow> nat \<Rightarrow> nat \<Rightarrow> Field" where
  "new_field ctx typ stringRange end deleteStart =
     \<lparr> fd_Path = pathString (vc_path ctx), fd_Key = vc_key ctx, fd_KeyRange = vc_keyRange ctx,
       fd_MemberRange = \<lparr> br_Start = vc_memberStart ctx, br_End = end \<rparr>,
       fd_DeleteRange = \<lparr> br_Start = deleteStart, br_End = end \<rparr>,
       fd_ValueRange = \<lparr> br_Start = vc_start ctx, br_End = end \<rparr>,
       fd_StringRange = stringRange, fd_Type = typ, fd_ArrayIndex = vc_arrayIndex ctx, fd_Depth = vc_depth ctx \<rparr>"

definition add_field :: "valueContext \<Rightarrow> JSONValueType \<Rightarrow> ByteRange \<Rightarrow> nat \<Rightarrow> JSONScanner \<Rightarrow> JSONScanner" where
  "add_field ctx typ stringRange end s =
     (let own = (if vc_arrayIndex ctx \<ge> 0 then vc_start ctx else vc_memberStart ctx) in
      case js_stack s of
        [] \<Rightarrow>
          if \<not> vc_selected ctx \<and> \<not> (vc_record ctx \<and> (typ = JSONObject \<or> typ = JSONArray)) \<and> \<not> tr_selectAll (js_trie s) then s
          else s\<lparr>js_fields := js_fields s @ [new_field ctx typ stringRange end own]\<rparr>
      | parent # stack \<Rightarrow>
          let previousEnd = sf_lastChildEnd parent;
              hadPrevious = (sf_childCount parent > 0);
              parent = count_child ctx end parent
          in if \<not> vc_selected ctx \<and> \<not> (vc_record ctx \<and> (typ = JSONObject \<or> typ = JSONArray)) \<and> \<not> tr_selectAll (js_trie s)
             then s\<lparr>js_stack := parent # stack\<rparr>
             else s\<lparr> js_fields := js_fields s @ [new_field ctx typ stringRange end (if hadPrevious then previousEnd else own)],
                     js_stack := parent\<lparr>sf_deletePending := Some (length (js_fields s))\<rparr> # stack \<rparr>)"

definition completeValue :: "valueContext \<Rightarrow> JSONValueType \<Rightarrow> ByteRange \<Rightarrow> string \<Rightarrow> nat \<Rightarrow> JSONScanner \<Rightarrow> JSONScanner" where
  "completeValue ctx typ stringRange stringValue end s =
     (case model_result ctx typ stringRange stringValue s of
        (False, s) \<Rightarrow> s
      | (True, s) \<Rightarrow> add_field ctx typ stringRange end s)"

definition container_info :: "scanFrame \<Rightarrow> nat \<Rightarrow> ContainerInfo" where
  "container_info frame end =
     \<lparr> ci_Path = pathString (sf_path frame), ci_Type = if sf_kind frame = CHR ''['' then JSONArray else JSONObject,
       ci_ValueRange = \<lparr> br_Start = sf_start frame, br_End = end \<rparr>, ci_ChildCount = sf_childCount frame,
       ci_FirstChildStart = sf_firstChildStart frame, ci_LastChildEnd = sf_lastChildEnd frame, ci_CloseOffset = end - 1 \<rparr>"

definition closeContainer :: "JSONScanner \<Rightarrow> scan_error option \<times> JSONScanner" where
  "closeContainer s =
     (case js_stack s of [] \<Rightarrow> (Some (InvalidJSON []), s)
      | frame # stack \<Rightarrow>
          let end = js_offset s;
              typ = (if sf_kind frame = CHR ''['' then JSONArray else JSONObject);
              s = (if stack = [] \<or> sf_record frame then s\<lparr>js_containers := js_containers s @ [container_info frame end]\<rparr> else s);
              s = s\<lparr>js_stack := stack\<rparr>
          in if stack = [] then (None, s\<lparr>js_rootDone := True\<rparr>)
             else let s = completeValue (sf_ctx frame) typ zeroRange [] end s in (js_err s, s))"

definition finishKey :: "scanToken \<Rightarrow> JSONScanner \<Rightarrow> JSONScanner" where
  "finishKey t s =
     (case js_stack s of [] \<Rightarrow> s
      | frame # stack \<Rightarrow>
          if tk_rawOverflow t
          then s\<lparr>js_stack := frame\<lparr>sf_pending := makeObjectContext s frame [] zeroRange (tk_start t) True, sf_afterComma := False\<rparr> # stack\<rparr>
          else case json_string (tk_raw t) of
            None \<Rightarrow> s\<lparr>js_err := Some (ScanSyntax ''invalid key'')\<rparr>
          | Some key \<Rightarrow>
              s\<lparr>js_stack := frame\<lparr>sf_pending := makeObjectContext s frame key \<lparr> br_Start = tk_start t, br_End = js_offset s \<rparr> (tk_start t) False,
                  sf_afterComma := False\<rparr> # stack\<rparr>)"

definition finishToken :: "scanToken \<Rightarrow> JSONScanner \<Rightarrow> JSONScanner" where
  "finishToken t s =
     (let s = s\<lparr>js_token := None\<rparr> in
      case tk_kind t of
        tokenKey \<Rightarrow> finishKey t s
      | tokenString \<Rightarrow>
          let range = \<lparr> br_Start = tk_start t, br_End = js_offset s \<rparr> in
          if vc_isModel (tk_ctx t) then
            (case json_string (tk_raw t) of
               None \<Rightarrow> s\<lparr>js_err := Some (ScanSyntax ''invalid model'')\<rparr>
             | Some v \<Rightarrow>
                 if length v > MaxBytes then s\<lparr>js_err := Some ErrModelTooLong\<rparr>
                 else completeValue (tk_ctx t) JSONString range v (js_offset s) s)
          else completeValue (tk_ctx t) JSONString range [] (js_offset s) s
      | tokenLiteral \<Rightarrow>
          completeValue (tk_ctx t) (if tk_literal t = ''null'' then JSONNull else JSONBool) zeroRange [] (js_offset s) s
      | tokenNumber \<Rightarrow> completeValue (tk_ctx t) JSONNumber zeroRange [] (js_offset s) s)"

section \<open>Consuming bytes\<close>

text \<open>
  A step returns whether the byte was consumed, an error, and the scanner. A byte that ends a
  number or a literal is not consumed and goes to the enclosing frame.
\<close>

type_synonym step_result = "bool \<times> scan_error option \<times> JSONScanner"

definition advance :: "JSONScanner \<Rightarrow> JSONScanner" where
  "advance s = s\<lparr>js_offset := js_offset s + 1\<rparr>"

definition skip_byte :: "JSONScanner \<Rightarrow> step_result" where
  "skip_byte s = (True, None, advance s)"

definition refuse :: "string \<Rightarrow> JSONScanner \<Rightarrow> step_result" where
  "refuse m s = (True, Some (ScanSyntax m), s)"

text \<open>The token goes on, with the byte kept if its spelling is needed.\<close>

definition token_goes_on :: "char \<Rightarrow> scan_error + scanToken \<Rightarrow> JSONScanner \<Rightarrow> step_result" where
  "token_goes_on c r s =
     (case r of
        Inl e \<Rightarrow> (True, Some e, s)
      | Inr t \<Rightarrow> (True, None, advance (s\<lparr>js_token := Some (keepRaw c t)\<rparr>)))"

definition consume_unicode_digit :: "char \<Rightarrow> scanToken \<Rightarrow> scan_error + scanToken" where
  "consume_unicode_digit c t =
     (let t = t\<lparr> tk_unicodeValue := (tk_unicodeValue t * 16) mod 65536 + hexDigitValue c, tk_unicodeDigits := tk_unicodeDigits t - 1 \<rparr> in
      if tk_unicodeDigits t = 0 then consumeModelUnicodeUnit (tk_unicodeValue t) t else Inr t)"

definition consume_escape :: "char \<Rightarrow> scanToken \<Rightarrow> scan_error + scanToken" where
  "consume_escape c t =
     (let t = t\<lparr>tk_escaped := False\<rparr> in
      if simple_escape c \<noteq> None then
        (case flushModelHighSurrogate t of Inl e \<Rightarrow> Inl e | Inr t \<Rightarrow> addModelDecodedBytes 1 t)
      else if c = CHR ''u'' then Inr (t\<lparr>tk_unicodeDigits := 4, tk_unicodeValue := 0\<rparr>)
      else Inl (ScanSyntax ''invalid string escape''))"

definition consumeStringToken :: "char \<Rightarrow> scanToken \<Rightarrow> JSONScanner \<Rightarrow> step_result" where
  "consumeStringToken c t s =
     (if tk_unicodeDigits t > 0 then
        (if \<not> isHexDigit c then refuse ''invalid unicode escape digit'' s
         else token_goes_on c (consume_unicode_digit c t) s)
      else if tk_escaped t then token_goes_on c (consume_escape c t) s
      else if c = quote then
        (case finishModelDecodedString t of
           Inl e \<Rightarrow> (True, Some e, s)
         | Inr t \<Rightarrow>
             let s = finishToken (keepRaw c t) (advance s) in
             (True, map_option (\<lambda>e. normalizeScanError e (js_offset s)) (js_err s), s))
      else if c = backslash then
        token_goes_on c (case finishModelRawRune t of Inl e \<Rightarrow> Inl e | Inr t \<Rightarrow> Inr (t\<lparr>tk_escaped := True\<rparr>)) s
      else if byte c < 0x20 then refuse ''unescaped control character in string'' s
      else token_goes_on c (consumeModelRawUTF8Byte c t) s)"

definition consumeLiteralToken :: "char \<Rightarrow> scanToken \<Rightarrow> JSONScanner \<Rightarrow> step_result" where
  "consumeLiteralToken c t s =
     (if tk_literalComplete t then
        (if isJSONDelimiter c then (False, None, finishToken t s) else refuse ''invalid literal boundary'' s)
      else if tk_literalPos t \<ge> length (tk_literal t) \<or> c \<noteq> tk_literal t ! tk_literalPos t then refuse ''invalid literal'' s
      else
        let pos = tk_literalPos t + 1 in
        (True, None, advance (s\<lparr>js_token := Some (t\<lparr>tk_literalPos := pos, tk_literalComplete := (pos = length (tk_literal t))\<rparr>)\<rparr>)))"

definition consumeNumberToken :: "char \<Rightarrow> scanToken \<Rightarrow> JSONScanner \<Rightarrow> step_result" where
  "consumeNumberToken c t s =
     (case advanceNumber (tk_numberState t) c of
        (n, ok, terminal) \<Rightarrow>
          if terminal then
            (if numberTerminal (tk_numberState t) \<and> isJSONDelimiter c then (False, None, finishToken t s)
             else refuse ''invalid number'' s)
          else if \<not> ok then refuse ''invalid number'' s
          else (True, None, advance (s\<lparr>js_token := Some (t\<lparr>tk_numberState := n\<rparr>)\<rparr>)))"

definition consumeToken :: "char \<Rightarrow> scanToken \<Rightarrow> JSONScanner \<Rightarrow> step_result" where
  "consumeToken c t s =
     (case tk_kind t of
        tokenKey \<Rightarrow> consumeStringToken c t s
      | tokenString \<Rightarrow> consumeStringToken c t s
      | tokenLiteral \<Rightarrow> consumeLiteralToken c t s
      | tokenNumber \<Rightarrow> consumeNumberToken c t s)"

definition literal_of :: "char \<Rightarrow> string" where
  "literal_of c = (if c = CHR ''t'' then ''true'' else if c = CHR ''f'' then ''false'' else ''null'')"

definition put_token :: "scanToken \<Rightarrow> JSONScanner \<Rightarrow> JSONScanner" where
  "put_token t s = s\<lparr>js_token := Some t\<rparr>"

definition set_top_state :: "frameState \<Rightarrow> JSONScanner \<Rightarrow> JSONScanner" where
  "set_top_state st s = (case js_stack s of [] \<Rightarrow> s | f # fs \<Rightarrow> s\<lparr>js_stack := f\<lparr>sf_state := st\<rparr> # fs\<rparr>)"

definition startValue :: "char \<Rightarrow> valueContext \<Rightarrow> JSONScanner \<Rightarrow> step_result" where
  "startValue c ctx s =
     (let s = (case js_stack s of [] \<Rightarrow> s
               | f # _ \<Rightarrow> set_top_state (if sf_kind f = CHR ''{'' then objectCommaOrEnd else arrayCommaOrEnd) s) in
      if c = quote then
        (True, None, put_token (zeroToken\<lparr> tk_kind := tokenString, tk_start := vc_start ctx, tk_ctx := ctx,
           tk_raw := if vc_isModel ctx then [quote] else [], tk_rawLimit := if vc_isModel ctx then MaxBytes * 6 + 2 else 0 \<rparr>) (advance s))
      else if c = CHR ''{'' \<or> c = CHR ''['' then (True, None, pushContainer c ctx (advance s))
      else if c = CHR ''t'' \<or> c = CHR ''f'' \<or> c = CHR ''n'' then
        (True, None, put_token (zeroToken\<lparr> tk_kind := tokenLiteral, tk_start := vc_start ctx, tk_ctx := ctx,
           tk_literal := literal_of c, tk_literalPos := 1, tk_literalComplete := (length (literal_of c) = 1) \<rparr>) (advance s))
      else case initialNumberState c of
        Some n \<Rightarrow> (True, None, put_token (zeroToken\<lparr> tk_kind := tokenNumber, tk_start := vc_start ctx, tk_ctx := ctx, tk_numberState := n \<rparr>) (advance s))
      | None \<Rightarrow> refuse ''unexpected JSON value byte'' s)"

definition startKey :: "JSONScanner \<Rightarrow> step_result" where
  "startKey s =
     (let start = js_offset s; s = advance (noteNextSibling start s) in
      case js_stack s of
        [] \<Rightarrow> (True, None, s)
      | f # fs \<Rightarrow>
          (True, None, s\<lparr> js_token := Some (newKeyToken start (keyRawLimitFor s f)),
             js_stack := f\<lparr> sf_state := objectColon,
               sf_pending := zeroContext\<lparr>vc_memberStart := start, vc_arrayIndex := -1, vc_depth := sf_depth f + 1\<rparr> \<rparr> # fs \<rparr>))"

definition startElement :: "char \<Rightarrow> JSONScanner \<Rightarrow> step_result" where
  "startElement c s =
     (let s = noteNextSibling (js_offset s) s in
      case js_stack s of
        [] \<Rightarrow> (True, None, s)
      | f # _ \<Rightarrow> startValue c (makeArrayContext s f (sf_nextIndex f) (js_offset s)) s)"

definition close_step :: "JSONScanner \<Rightarrow> step_result" where
  "close_step s = (case closeContainer (advance s) of (e, s) \<Rightarrow> (True, e, s))"

definition frame_step :: "char \<Rightarrow> scanFrame \<Rightarrow> scanFrame list \<Rightarrow> JSONScanner \<Rightarrow> step_result" where
  "frame_step c f fs s =
     (if isJSONWhitespace c then skip_byte s
      else case sf_state f of
        objectKeyOrEnd \<Rightarrow>
          if c = CHR ''}'' then (if sf_afterComma f then refuse ''trailing object comma'' s else close_step s)
          else if c \<noteq> quote then refuse ''object key must be a string'' s
          else startKey s
      | objectColon \<Rightarrow>
          if c \<noteq> CHR '':'' then refuse ''object member must contain colon'' s
          else (True, None, set_top_state objectValue (advance s))
      | objectValue \<Rightarrow> startValue c ((sf_pending f)\<lparr>vc_start := js_offset s\<rparr>) s
      | objectCommaOrEnd \<Rightarrow>
          if c = CHR '','' then (True, None, advance (s\<lparr>js_stack := f\<lparr>sf_state := objectKeyOrEnd, sf_afterComma := True\<rparr> # fs\<rparr>))
          else if c = CHR ''}'' then close_step s
          else refuse ''expected comma or end of object'' s
      | arrayValueOrEnd \<Rightarrow> if c = CHR '']'' then close_step s else startElement c s
      | arrayValueRequired \<Rightarrow> if c = CHR '']'' then refuse ''trailing array comma'' s else startElement c s
      | arrayCommaOrEnd \<Rightarrow>
          if c = CHR '','' then (True, None, set_top_state arrayValueRequired (advance s))
          else if c = CHR '']'' then close_step s
          else refuse ''expected comma or end of array'' s)"

definition rootContext :: "nat \<Rightarrow> valueContext" where
  "rootContext start =
     zeroContext\<lparr> vc_start := start, vc_memberStart := start, vc_arrayIndex := -1, vc_depth := -1, vc_states := [[]] \<rparr>"

definition step :: "char \<Rightarrow> JSONScanner \<Rightarrow> step_result" where
  "step c s =
     (case js_token s of
        Some t \<Rightarrow> consumeToken c t s
      | None \<Rightarrow>
          if js_rootDone s then (if isJSONWhitespace c then skip_byte s else (True, Some ErrTrailingJSON, s))
          else if \<not> js_started s then
            (if isJSONWhitespace c then skip_byte s
             else if c \<noteq> CHR ''{'' then (True, Some (InvalidJSON ''top-level JSON value must be an object''), s)
             else (True, None, pushContainer c (rootContext (js_offset s)) (advance (s\<lparr>js_started := True\<rparr>))))
          else case js_stack s of
            [] \<Rightarrow> (True, Some (InvalidJSON []), s)
          | f # fs \<Rightarrow> frame_step c f fs s)"

text \<open>A byte that is not consumed leaves no token, so the next step consumes it.\<close>

lemma add_field_token [simp]: "js_token (add_field ctx typ r end s) = js_token s"
  by (simp add: add_field_def Let_def split: list.split)

lemma completeValue_token [simp]: "js_token (completeValue ctx typ r str end s) = js_token s"
  by (auto simp: completeValue_def model_result_def Let_def split: prod.splits bool.splits)

lemma finishToken_token [simp]: "js_token (finishToken t s) = None"
  by (simp add: finishToken_def finishKey_def Let_def split: scanTokenKind.split list.split option.split)

lemma consumeToken_unconsumed: "consumeToken c t s = (False, e, s') \<Longrightarrow> e = None \<and> js_token s' = None"
  by (auto simp: consumeToken_def consumeStringToken_def consumeLiteralToken_def consumeNumberToken_def refuse_def token_goes_on_def Let_def
      split: scanTokenKind.splits if_splits sum.splits prod.splits)

lemma frame_step_consumes: "frame_step c f fs s = (b, e, s') \<Longrightarrow> b"
  by (auto simp: frame_step_def skip_byte_def refuse_def close_step_def startKey_def startElement_def startValue_def Let_def
      split: if_splits frameState.splits prod.splits list.splits option.splits)

lemma step_unconsumed: "step c s = (False, e, s') \<Longrightarrow> e = None \<and> js_token s \<noteq> None \<and> js_token s' = None"
  by (auto simp: step_def skip_byte_def dest: consumeToken_unconsumed frame_step_consumes
      split: option.splits if_splits list.splits)

function write_loop :: "string \<Rightarrow> nat \<Rightarrow> JSONScanner \<Rightarrow> nat \<times> scan_error option \<times> JSONScanner" where
  "write_loop [] n s = (n, None, s)"
| "write_loop (c # p) n s =
     (case step c s of
        (consumed, Some e, s) \<Rightarrow> let err = normalizeScanError e (js_offset s) in (n, Some err, s\<lparr>js_err := Some err\<rparr>)
      | (consumed, None, s) \<Rightarrow> if consumed then write_loop p (n + 1) s else write_loop (c # p) n s)"
  by pat_completeness auto
termination
  by (relation "measure (\<lambda>(p, n, s). 2 * length p + (if js_token s = None then 0 else 1))")
    (auto dest!: step_unconsumed [OF sym])

text \<open>\<open>Write\<close>; no result if a marker automaton does not return.\<close>

definition JSONScanner_Write :: "string \<Rightarrow> JSONScanner \<Rightarrow> (nat \<times> scan_error option \<times> JSONScanner) option" where
  "JSONScanner_Write p s =
     (if js_finished s then Some (0, Some (case js_err s of Some e \<Rightarrow> e | None \<Rightarrow> ScannerFinished), s)
      else if js_err s \<noteq> None then Some (0, js_err s, s)
      else case those (map (marker_feed_all p) (js_rawMatchers s)) of
        None \<Rightarrow> None
      | Some matchers \<Rightarrow> Some (write_loop p 0 (s\<lparr>js_rawMatchers := matchers\<rparr>)))"

definition scan_result :: "JSONScanner \<Rightarrow> ScanResult" where
  "scan_result s =
     \<lparr> sr_Spec = js_spec s, sr_Model = js_model s, sr_ModelRange = js_modelRange s, sr_Fields = js_fields s,
       sr_Containers = js_containers s, sr_ModelSeen = js_modelSeen s, sr_size = js_offset s,
       sr_rawMarkers = zip (sp_RawMarkers (js_spec s)) (map mm_found (js_rawMatchers s)) \<rparr>"

definition scan_fail :: "scan_error \<Rightarrow> JSONScanner \<Rightarrow> (scan_error + ScanResult) \<times> JSONScanner" where
  "scan_fail e s = (let e = normalizeScanError e (js_offset s) in (Inl e, s\<lparr>js_err := Some e\<rparr>))"

definition finish_token_at_end :: "JSONScanner \<Rightarrow> scan_error option \<times> JSONScanner" where
  "finish_token_at_end s =
     (case js_token s of
        None \<Rightarrow> (None, s)
      | Some t \<Rightarrow>
          case tk_kind t of
            tokenLiteral \<Rightarrow> if tk_literalComplete t then (let s = finishToken t s in (js_err s, s)) else (Some (InvalidJSON []), s)
          | tokenNumber \<Rightarrow>
              if numberTerminal (tk_numberState t) then (let s = finishToken t s in (js_err s, s))
              else (Some (InvalidJSON ''incomplete number''), s)
          | _ \<Rightarrow> (Some (InvalidJSON ''unterminated string''), s))"

definition JSONScanner_Finish :: "JSONScanner \<Rightarrow> (scan_error + ScanResult) \<times> JSONScanner" where
  "JSONScanner_Finish s =
     (if js_finished s then (case js_err s of Some e \<Rightarrow> scan_fail e s | None \<Rightarrow> (Inr (scan_result s), s))
      else
        let s = s\<lparr>js_finished := True\<rparr> in
        case js_err s of Some e \<Rightarrow> (Inl e, s)
        | None \<Rightarrow>
          case finish_token_at_end s of
            (Some e, s) \<Rightarrow> scan_fail e s
          | (None, s) \<Rightarrow>
              if \<not> js_started s \<or> \<not> js_rootDone s \<or> js_stack s \<noteq> [] then scan_fail (InvalidJSON []) s
              else if sp_RequireModel (js_spec s) \<and> \<not> js_modelSeen s then scan_fail ErrModelMissing s
              else (Inr (scan_result s), s))"

section \<open>Scanners\<close>

record CompiledScanSpec =
  cs_spec :: ScanSpec
  cs_trie :: selectorTrie
  cs_keyRawLimit :: nat
  cs_rawMatchers :: "rawMarkerMatcher list"

text \<open>No result if a marker table is not completed.\<close>

definition CompileScanSpec :: "ScanSpec \<Rightarrow> (string + CompiledScanSpec) option" where
  "CompileScanSpec spec =
     (let spec = spec\<lparr>sp_RequireObject := True\<rparr> in
      case ScanSpec_Validate spec of
        Some e \<Rightarrow> Some (Inl e)
      | None \<Rightarrow>
          map_option (\<lambda>matchers. Inr \<lparr> cs_spec = spec, cs_trie = newSelectorTrie (sp_Paths spec) (sp_SelectAll spec),
              cs_keyRawLimit = selectorKeyRawLimit spec, cs_rawMatchers = matchers \<rparr>)
            (those (map newRawMarkerMatcher (sp_RawMarkers spec))))"

definition newScanner :: "CompiledScanSpec \<Rightarrow> JSONScanner" where
  "newScanner c =
     \<lparr> js_spec = cs_spec c, js_trie = cs_trie c, js_keyRawLimit = cs_keyRawLimit c, js_rawMatchers = cs_rawMatchers c,
       js_offset = 0, js_stack = [], js_token = None, js_started = False, js_rootDone = False, js_finished = False, js_err = None,
       js_modelSeen = False, js_model = [], js_modelRange = zeroRange, js_fields = [], js_containers = [] \<rparr>"

end
