(* ===== verification/Body_Grammar.thy ===== *)
theory Body_Grammar
  imports Body_Scanner
begin

text \<open>
  What the scanner of package bodyfile is to accept and to record, stated on syntax trees: the
  grammar of JSON with its white space, the routing model of a request, and the index of the
  selected fields of a tree, with the byte ranges read off the tree.
\<close>

section \<open>Grammar\<close>

definition white :: "string \<Rightarrow> bool" where
  "white s \<longleftrightarrow> list_all isJSONWhitespace s"

text \<open>RFC 8259: \<open>[ minus ] int [ frac ] [ exp ]\<close>.\<close>

definition int_text :: "string \<Rightarrow> bool" where
  "int_text s \<longleftrightarrow> s = ''0'' \<or> (s \<noteq> [] \<and> nonzero_digit (hd s) \<and> list_all is_digit (tl s))"

definition digits_text :: "string \<Rightarrow> bool" where
  "digits_text s \<longleftrightarrow> s \<noteq> [] \<and> list_all is_digit s"

definition frac_text :: "string \<Rightarrow> bool" where
  "frac_text s \<longleftrightarrow> s = [] \<or> (\<exists>d. digits_text d \<and> s = CHR ''.'' # d)"

definition exp_text :: "string \<Rightarrow> bool" where
  "exp_text s \<longleftrightarrow> s = [] \<or>
     (\<exists>e sign d. (e = CHR ''e'' \<or> e = CHR ''E'') \<and> (sign = [] \<or> sign = ''+'' \<or> sign = ''-'') \<and> digits_text d \<and> s = e # sign @ d)"

definition number_text :: "string \<Rightarrow> bool" where
  "number_text s \<longleftrightarrow>
     (\<exists>minus i f e. (minus = [] \<or> minus = ''-'') \<and> int_text i \<and> frac_text f \<and> exp_text e \<and> s = minus @ i @ f @ e)"

definition literal_text :: "string \<Rightarrow> bool" where
  "literal_text s \<longleftrightarrow> s = ''true'' \<or> s = ''false'' \<or> s = ''null''"

definition quoted :: "string \<Rightarrow> string" where
  "quoted body = quote # body @ [quote]"

text \<open>
  A value is a string (by its body), another scalar (by its text), or a container with its opening
  bracket, the white space of an empty one, and its children. A child has the white space around
  it and, in an object, its key with the white space around the colon.
\<close>

record member_key =
  mk_body :: string
  mk_before :: string
  mk_after :: string

datatype json = Text string | Scalar string | Container char string "child list"
  and child = Child (ch_before: string) (ch_key: "member_key option") (ch_value: json) (ch_after: string)

definition closer :: "char \<Rightarrow> char" where
  "closer k = (if k = CHR ''{'' then CHR ''}'' else CHR '']'')"

definition key_text :: "member_key option \<Rightarrow> string" where
  "key_text key = (case key of None \<Rightarrow> [] | Some m \<Rightarrow> quoted (mk_body m) @ mk_before m @ CHR '':'' # mk_after m)"

fun commas :: "string list \<Rightarrow> string" where
  "commas [] = []"
| "commas [s] = s"
| "commas (s # ss) = s @ CHR '','' # commas ss"

primrec json_text :: "json \<Rightarrow> string" and child_text :: "child \<Rightarrow> string" where
  "json_text (Text body) = quoted body"
| "json_text (Scalar s) = s"
| "json_text (Container k space children) =
     k # (if children = [] then space else commas (map child_text children)) @ [closer k]"
| "child_text (Child bef key v aft) = bef @ key_text key @ json_text v @ aft"

definition key_ok :: "char \<Rightarrow> member_key option \<Rightarrow> bool" where
  "key_ok k key \<longleftrightarrow>
     (case key of None \<Rightarrow> k = CHR ''[''
      | Some m \<Rightarrow> k = CHR ''{'' \<and> string_body (mk_body m) \<and> white (mk_before m) \<and> white (mk_after m))"

primrec json_ok :: "json \<Rightarrow> bool" and child_ok :: "child \<Rightarrow> char \<Rightarrow> bool" where
  "json_ok (Text body) = string_body body"
| "json_ok (Scalar s) = (literal_text s \<or> number_text s)"
| "json_ok (Container k space children) =
     ((k = CHR ''{'' \<or> k = CHR ''['') \<and> white space \<and> list_all (\<lambda>ok. ok k) (map child_ok children))"
| "child_ok (Child bef key v aft) = (\<lambda>k. white bef \<and> key_ok k key \<and> json_ok v \<and> white aft)"

text \<open>One object with white space around it.\<close>

definition document :: "string \<Rightarrow> child list \<Rightarrow> string \<Rightarrow> string \<Rightarrow> string \<Rightarrow> bool" where
  "document lead children space trail s \<longleftrightarrow>
     white lead \<and> white trail \<and> json_ok (Container CHR ''{'' space children) \<and>
     s = lead @ json_text (Container CHR ''{'' space children) @ trail"

section \<open>The model\<close>

definition model_key :: "member_key option \<Rightarrow> bool" where
  "model_key key \<longleftrightarrow> (\<exists>m. key = Some m \<and> unquote_body (mk_body m) = Some ''model'')"

definition model_members :: "child list \<Rightarrow> child list" where
  "model_members children = filter (\<lambda>c. model_key (ch_key c)) children"

definition model_text :: "json \<Rightarrow> string option" where
  "model_text v = (case v of Text body \<Rightarrow> if ValidString body then unquote_body body else None | _ \<Rightarrow> None)"

definition good_model :: "json \<Rightarrow> bool" where
  "good_model v \<longleftrightarrow> (\<exists>m. model_text v = Some m \<and> m \<noteq> [] \<and> length m \<le> MaxBytes)"

text \<open>A request names its model exactly once, by a text of 1 to \<open>MaxBytes\<close> bytes in valid UTF-8.\<close>

definition model_ok :: "bool \<Rightarrow> child list \<Rightarrow> bool" where
  "model_ok required children \<longleftrightarrow>
     (required \<longrightarrow> (\<exists>c. model_members children = [c] \<and> good_model (ch_value c)))"

section \<open>The index\<close>

definition json_type :: "json \<Rightarrow> JSONValueType" where
  "json_type v =
     (case v of Text _ \<Rightarrow> JSONString
      | Scalar s \<Rightarrow> if s = ''null'' then JSONNull else if literal_text s then JSONBool else JSONNumber
      | Container k _ _ \<Rightarrow> if k = CHR ''['' then JSONArray else JSONObject)"

definition container_type :: "JSONValueType \<Rightarrow> bool" where
  "container_type typ \<longleftrightarrow> typ = JSONObject \<or> typ = JSONArray"

text \<open>The context of a child: its own position, path, and selector states below its container.\<close>

definition child_context :: "selectorTrie \<Rightarrow> bool \<Rightarrow> valueContext \<Rightarrow> nat \<Rightarrow> nat \<Rightarrow> child \<Rightarrow> valueContext" where
  "child_context trie model ctx index start c =
     (let memberStart = start + length (ch_before c);
          key = (case ch_key c of None \<Rightarrow> nat_text index | Some m \<Rightarrow> the (unquote_body (mk_body m)));
          states = transitionStates trie (vc_states ctx) key;
          isModel = (model \<and> model_key (ch_key c));
          retain = (tr_selectAll trie \<or> states \<noteq> [] \<or> isModel)
      in \<lparr> vc_start = memberStart + length (key_text (ch_key c)), vc_memberStart = memberStart,
           vc_path = if retain then vc_path ctx @ [key] else [], vc_states = states,
           vc_selected = (tr_selectAll trie \<or> hasTerminal trie states \<or> isModel), vc_record = retain,
           vc_key = if retain \<and> ch_key c \<noteq> None then key else [],
           vc_keyRange = (case ch_key c of Some m \<Rightarrow>
               if retain then \<lparr> br_Start = memberStart, br_End = memberStart + length (quoted (mk_body m)) \<rparr> else zeroRange
             | None \<Rightarrow> zeroRange),
           vc_arrayIndex = (if ch_key c = None then int index else -1), vc_depth = vc_depth ctx + 1, vc_isModel = isModel \<rparr>)"

definition string_range :: "valueContext \<Rightarrow> json \<Rightarrow> ByteRange" where
  "string_range ctx v =
     (if json_type v = JSONString then \<lparr> br_Start = vc_start ctx, br_End = vc_start ctx + length (json_text v) \<rparr> else zeroRange)"

text \<open>
  The field of a child: its delete range reaches to the next sibling, or else from the end of the
  previous one, so that removing it leaves a container with one child less.
\<close>

definition own_start :: "valueContext \<Rightarrow> nat" where
  "own_start ctx = (if vc_arrayIndex ctx \<ge> 0 then vc_start ctx else vc_memberStart ctx)"

definition delete_range :: "valueContext \<Rightarrow> nat \<Rightarrow> nat option \<Rightarrow> nat option \<Rightarrow> ByteRange" where
  "delete_range ctx end previousEnd nextStart =
     (case nextStart of
        Some n \<Rightarrow> \<lparr> br_Start = own_start ctx, br_End = n \<rparr>
      | None \<Rightarrow> \<lparr> br_Start = (case previousEnd of Some p \<Rightarrow> p | None \<Rightarrow> own_start ctx), br_End = end \<rparr>)"

definition recorded :: "selectorTrie \<Rightarrow> valueContext \<Rightarrow> json \<Rightarrow> bool" where
  "recorded trie ctx v \<longleftrightarrow> vc_selected ctx \<or> (vc_record ctx \<and> container_type (json_type v)) \<or> tr_selectAll trie"

definition own_field :: "selectorTrie \<Rightarrow> valueContext \<Rightarrow> json \<Rightarrow> nat option \<Rightarrow> nat option \<Rightarrow> Field list" where
  "own_field trie ctx v previousEnd nextStart =
     (if recorded trie ctx v
      then [(new_field ctx (json_type v) (string_range ctx v) (vc_start ctx + length (json_text v)) 0)
              \<lparr>fd_DeleteRange := delete_range ctx (vc_start ctx + length (json_text v)) previousEnd nextStart\<rparr>]
      else [])"

definition next_start :: "child \<Rightarrow> nat \<Rightarrow> child list \<Rightarrow> nat option" where
  "next_start c end rest =
     (case rest of [] \<Rightarrow> None | d # _ \<Rightarrow> Some (end + length (ch_after c) + 1 + length (ch_before d)))"

definition value_end :: "valueContext \<Rightarrow> json \<Rightarrow> nat" where
  "value_end ctx v = vc_start ctx + length (json_text v)"

text \<open>
  The fields inside a value, in the order in which they are complete; \<open>start\<close> is the position
  after the bracket or comma before a child. The model counts on the top level only.
\<close>

fun value_fields :: "selectorTrie \<Rightarrow> bool \<Rightarrow> valueContext \<Rightarrow> json \<Rightarrow> Field list"
  and children_fields :: "selectorTrie \<Rightarrow> bool \<Rightarrow> valueContext \<Rightarrow> nat \<Rightarrow> nat \<Rightarrow> nat option \<Rightarrow> child list \<Rightarrow> Field list" where
  "value_fields trie model ctx (Text body) = []"
| "value_fields trie model ctx (Scalar s) = []"
| "value_fields trie model ctx (Container k space children) = children_fields trie model ctx 0 (vc_start ctx + 1) None children"
| "children_fields trie model ctx index start previousEnd [] = []"
| "children_fields trie model ctx index start previousEnd (Child bef key v aft # rest) =
     (let c = Child bef key v aft;
          child = child_context trie model ctx index start c;
          end = value_end child v
      in value_fields trie False child v @ own_field trie child v previousEnd (next_start c end rest) @
         children_fields trie model ctx (index + 1) (end + length aft + 1) (Some end) rest)"

text \<open>Containers are complete after their children; the root is always listed.\<close>

fun last_end :: "selectorTrie \<Rightarrow> valueContext \<Rightarrow> nat \<Rightarrow> nat \<Rightarrow> nat \<Rightarrow> child list \<Rightarrow> nat" where
  "last_end trie ctx index start end [] = end"
| "last_end trie ctx index start end (c # rest) =
     (let end = value_end (child_context trie False ctx index start c) (ch_value c) in
      last_end trie ctx (index + 1) (end + length (ch_after c) + 1) end rest)"

definition own_container :: "selectorTrie \<Rightarrow> bool \<Rightarrow> valueContext \<Rightarrow> char \<Rightarrow> string \<Rightarrow> child list \<Rightarrow> ContainerInfo list" where
  "own_container trie root ctx k space children =
     (if root \<or> vc_record ctx then
        [\<lparr> ci_Path = pathString (vc_path ctx), ci_Type = json_type (Container k space children),
           ci_ValueRange = \<lparr> br_Start = vc_start ctx, br_End = value_end ctx (Container k space children) \<rparr>,
           ci_ChildCount = length children,
           ci_FirstChildStart = (case children of [] \<Rightarrow> 0 | c # _ \<Rightarrow> own_start (child_context trie False ctx 0 (vc_start ctx + 1) c)),
           ci_LastChildEnd = last_end trie ctx 0 (vc_start ctx + 1) 0 children,
           ci_CloseOffset = value_end ctx (Container k space children) - 1 \<rparr>]
      else [])"

fun value_containers :: "selectorTrie \<Rightarrow> bool \<Rightarrow> bool \<Rightarrow> valueContext \<Rightarrow> json \<Rightarrow> ContainerInfo list"
  and children_containers :: "selectorTrie \<Rightarrow> bool \<Rightarrow> valueContext \<Rightarrow> nat \<Rightarrow> nat \<Rightarrow> child list \<Rightarrow> ContainerInfo list" where
  "value_containers trie model root ctx (Text body) = []"
| "value_containers trie model root ctx (Scalar s) = []"
| "value_containers trie model root ctx (Container k space children) =
     children_containers trie model ctx 0 (vc_start ctx + 1) children @ own_container trie root ctx k space children"
| "children_containers trie model ctx index start [] = []"
| "children_containers trie model ctx index start (Child bef key v aft # rest) =
     (let child = child_context trie model ctx index start (Child bef key v aft) in
      value_containers trie False False child v @
      children_containers trie model ctx (index + 1) (value_end child v + length aft + 1) rest)"

text \<open>The model of a request with its range.\<close>

fun model_entry :: "selectorTrie \<Rightarrow> valueContext \<Rightarrow> nat \<Rightarrow> nat \<Rightarrow> child list \<Rightarrow> (string \<times> ByteRange) option" where
  "model_entry trie ctx index start [] = None"
| "model_entry trie ctx index start (c # rest) =
     (let child = child_context trie True ctx index start c in
      if model_key (ch_key c) then Some (the (model_text (ch_value c)), string_range child (ch_value c))
      else model_entry trie ctx (index + 1) (value_end child (ch_value c) + length (ch_after c) + 1) rest)"

end
