(* ===== verification/Body_Strings.thy ===== *)
theory Body_Strings
  imports Body_Grammar
begin

text \<open>
  The string automaton of the scanner of package bodyfile: it accepts exactly the string bodies,
  and on the routing model it counts the bytes of the decoded text and rejects invalid UTF-8.
\<close>

section \<open>Decoding\<close>

lemma backslash_quote: "backslash \<noteq> quote" "byte backslash = 92" "byte quote = 34" "simple_escape CHR ''u'' = None"
  by (auto simp: backslash_def quote_def byte_def simple_escape_def)

lemma byte_inject: "byte c = byte d \<longleftrightarrow> c = d"
  by (simp add: byte_def)

lemma hex_not_special: "isHexDigit c \<Longrightarrow> c \<noteq> quote \<and> c \<noteq> backslash \<and> 0x20 \<le> byte c"
  using backslash_quote by (auto simp: isHexDigit_def)

lemma string_body_append: "string_body a \<Longrightarrow> string_body (a @ b) = string_body b"
proof (induction a rule: string_body.induct)
  case (2 c s)
  show ?case
  proof (cases "c = backslash")
    case True
    with 2(4) obtain e rest where s: "s = e # rest" by (cases s) simp_all
    show ?thesis
    proof (cases "simple_escape e = None")
      case False
      with 2(1) [OF True s] 2(4) True s show ?thesis by simp
    next
      case none: True
      with 2(4) True s obtain h1 h2 h3 h4 r where r: "e = CHR ''u''" "rest = h1 # h2 # h3 # h4 # r"
          "list_all isHexDigit [h1, h2, h3, h4]" "string_body r"
        by (simp split: list.splits)
      moreover have "string_body (r @ b) = string_body b" using 2(2) [OF True s] none r by simp
      ultimately show ?thesis using True s none by simp
    qed
  next
    case False
    with 2 show ?thesis by simp
  qed
qed simp

lemma string_body_high: "list_all (\<lambda>c. 128 \<le> byte c) r \<Longrightarrow> string_body (r @ s) = string_body s"
  using backslash_quote by (induction r) auto

lemma rune_high:
  assumes "is_rune r" "length r \<noteq> 1"
  shows "list_all (\<lambda>c. 128 \<le> byte c) r"
  using assms by (cases r) (auto simp: is_rune_def cont_byte_def list_all_iff split: if_splits)

lemma string_body_rune:
  assumes "string_body s" "s \<noteq> []" "hd s \<noteq> backslash"
  shows "string_body (drop (rune_width s) s)"
proof (cases "rune_width s = 1")
  case True
  with assms show ?thesis by (cases s) auto
next
  case False
  with assms(2) have r: "is_rune (take (rune_width s) s)" by (cases s) (auto simp: rune_width_def Let_def split: if_splits)
  then have "length (take (rune_width s) s) \<noteq> 1"
    using False rune_width_rune [OF r, of "drop (rune_width s) s"] by simp
  from string_body_high [OF rune_high [OF r this], of "drop (rune_width s) s"] assms(1) show ?thesis by simp
qed

lemma encode_valid_length: "length (encode_valid r) = RuneLen r"
  by (simp add: encode_valid_def RuneLen_def)

lemma EncodeRune_length: "r \<le> 0x10FFFF \<Longrightarrow> length (EncodeRune r) = (if surrogate r then 3 else RuneLen r)"
  by (simp add: EncodeRune_def encode_valid_length) (simp add: RuneLen_def RuneError_def)

lemma EncodeRune_pos: "1 \<le> length (EncodeRune r)"
  by (simp add: EncodeRune_def encode_valid_length RuneLen_def)

lemma hex_value_less: "list_all isHexDigit h \<Longrightarrow> hex_value h < 16 ^ length h"
proof (induction h rule: rev_induct)
  case (snoc c h)
  then have "hexDigitValue c < 16" by (auto simp: isHexDigit_def hexDigitValue_def)
  with snoc show ?case by (simp add: hex_value_def)
qed (simp add: hex_value_def)

lemma hex_value_snoc: "hex_value (h @ [c]) = hex_value h * 16 + hexDigitValue c"
  by (simp add: hex_value_def)

lemma getu4_Some:
  assumes "getu4 s = Some r"
  shows "\<exists>h. s = backslash # CHR ''u'' # h @ drop 6 s \<and> length h = 4 \<and> list_all isHexDigit h \<and> r = hex_value h \<and> r < 65536"
proof -
  have len: "6 \<le> length s" and s: "s ! 0 = backslash" "s ! 1 = CHR ''u''" and h: "list_all isHexDigit (take 4 (drop 2 s))"
    and r: "r = hex_value (take 4 (drop 2 s))"
    using assms by (auto simp: getu4_def split: if_splits)
  have "s = s ! 0 # s ! 1 # drop 2 s" using len by (cases s; cases "tl s") auto
  moreover have "drop 2 s = take 4 (drop 2 s) @ drop 6 s" using append_take_drop_id [of 4 "drop 2 s"] by simp
  moreover have "length (take 4 (drop 2 s)) = 4" using len by simp
  ultimately show ?thesis using s h r hex_value_less [OF h] by (intro exI [of _ "take 4 (drop 2 s)"]) auto
qed

lemma getu4_escape: "length h = 4 \<Longrightarrow> list_all isHexDigit h \<Longrightarrow> getu4 (backslash # CHR ''u'' # h @ s) = Some (hex_value h)"
  by (simp add: getu4_def)

lemma string_body_unicode:
  assumes "length h = 4" "list_all isHexDigit h"
  shows "string_body (backslash # CHR ''u'' # h @ s) = string_body s"
proof -
  obtain a b c d where "h = [a, b, c, d]" using assms(1) by (auto simp: eval_nat_numeral length_Suc_conv)
  with assms(2) show ?thesis by (simp add: backslash_quote)
qed

lemma string_body_escapeE:
  assumes "string_body s" "s \<noteq> []" "hd s = backslash"
  obtains e rest where "s = backslash # e # rest" "simple_escape e \<noteq> None" "string_body rest"
  | h rest where "s = backslash # CHR ''u'' # h @ rest" "length h = 4" "list_all isHexDigit h" "string_body rest"
proof -
  from assms obtain e rest where s: "s = backslash # e # rest" by (cases s; cases "tl s") auto
  show ?thesis
  proof (cases "simple_escape e = None")
    case False
    with assms s that(1) show ?thesis by auto
  next
    case True
    with assms(1) s obtain a b c d r where "e = CHR ''u''" "rest = [a, b, c, d] @ r" "list_all isHexDigit [a, b, c, d]" "string_body r"
      by (auto split: list.splits)
    with s that(2) [of "[a, b, c, d]" r] show ?thesis by simp
  qed
qed

lemma unquote_simple: "simple_escape e = Some x \<Longrightarrow> unquote_body (backslash # e # s) = map_option (Cons x) (unquote_body s)"
  by (subst unquote_body.simps) simp

lemma unquote_unicode:
  assumes "length h = 4" "list_all isHexDigit h"
  shows "unquote_body (backslash # CHR ''u'' # h @ s) =
    (let low = getu4 s in
     if low \<noteq> None \<and> utf16_DecodeRune (hex_value h) (the low) \<noteq> RuneError
     then map_option (append (EncodeRune (utf16_DecodeRune (hex_value h) (the low)))) (unquote_body (drop 6 s))
     else map_option (append (EncodeRune (hex_value h))) (unquote_body s))"
proof -
  have "drop 6 (backslash # CHR ''u'' # h @ s) = s" "drop 12 (backslash # CHR ''u'' # h @ s) = drop 6 s"
    using assms by simp_all
  then show ?thesis
    by (subst unquote_body.simps) (simp only: getu4_escape [OF assms] backslash_quote(4) Let_def list.sel nth_Cons_Suc nth_Cons_0
      One_nat_def option.case list.distinct if_True if_False simp_thms)
qed

lemma unquote_rune:
  assumes "s \<noteq> []" "hd s \<noteq> backslash" "hd s \<noteq> quote" "0x20 \<le> byte (hd s)"
  shows "unquote_body s = map_option (append (EncodeRune (decode_rune s))) (unquote_body (drop (rune_width s) s))"
  using assms by (subst unquote_body.simps) simp

lemma pair_length:
  assumes "utf16_DecodeRune r low \<noteq> RuneError"
  shows "length (EncodeRune (utf16_DecodeRune r low)) = 4" "RuneLen (utf16_DecodeRune r low) = 4"
proof -
  define p where "p = utf16_DecodeRune r low"
  have "0x10000 \<le> p" "p \<le> 0x10FFFF" using assms by (auto simp: p_def utf16_DecodeRune_def split: if_splits)
  then show "length (EncodeRune (utf16_DecodeRune r low)) = 4" "RuneLen (utf16_DecodeRune r low) = 4"
    by (simp_all add: EncodeRune_length surrogate_def RuneLen_def flip: p_def)
qed

text \<open>Decoding a string body succeeds, and a byte of the result stands for at most six.\<close>

lemma unquote_total: "string_body s \<Longrightarrow> \<exists>t. unquote_body s = Some t \<and> length s \<le> 6 * length t"
proof (induction "length s" arbitrary: s rule: less_induct)
  case less
  show ?case
  proof (cases "s = []")
    case True
    then show ?thesis by (simp add: unquote_body.simps)
  next
    case False
    show ?thesis
    proof (cases "hd s = backslash")
      case True
      from less.prems False True show ?thesis
      proof (cases rule: string_body_escapeE)
        case (1 e rest)
        with less.hyps [of rest] obtain t where "unquote_body rest = Some t" "length rest \<le> 6 * length t" by auto
        moreover obtain x where "simple_escape e = Some x" using 1 by auto
        ultimately show ?thesis using 1 by (simp add: unquote_simple)
      next
        case (2 h rest)
        with less.hyps [of rest] obtain t where t: "unquote_body rest = Some t" "length rest \<le> 6 * length t" by auto
        show ?thesis
        proof (cases "getu4 rest \<noteq> None \<and> utf16_DecodeRune (hex_value h) (the (getu4 rest)) \<noteq> RuneError")
          case True
          then obtain low where low: "getu4 rest = Some low" by auto
          from getu4_Some [OF low] obtain h' where h': "rest = backslash # CHR ''u'' # h' @ drop 6 rest" "length h' = 4" "list_all isHexDigit h'" by auto
          then have "string_body (drop 6 rest)" using 2(4) string_body_unicode [OF h'(2,3), of "drop 6 rest"] by simp
          moreover have "length (drop 6 rest) < length s" using 2(1) by simp
          ultimately obtain t' where "unquote_body (drop 6 rest) = Some t'" "length (drop 6 rest) \<le> 6 * length t'"
            using less.hyps [of "drop 6 rest"] by blast
          then show ?thesis
            using True low pair_length(1) [of "hex_value h" low] 2(1-3) by (simp add: unquote_unicode Let_def)
        next
          case False
          then show ?thesis using t 2(1-3) EncodeRune_pos [of "hex_value h"] by (auto simp: unquote_unicode Let_def)
        qed
      qed
    next
      case no: False
      have hd: "hd s \<noteq> quote" "0x20 \<le> byte (hd s)" using less.prems False no by (cases s; auto)+
      have w: "0 < rune_width s" "rune_width s \<le> 4" using False rune_width_pos [of s]
        by (auto simp: rune_width_def first_size_def Let_def split: list.splits)
      from less.hyps [of "drop (rune_width s) s"] string_body_rune [OF less.prems False no] w False obtain t where
        "unquote_body (drop (rune_width s) s) = Some t" "length (drop (rune_width s) s) \<le> 6 * length t" by auto
      then show ?thesis using unquote_rune [OF False no hd] w EncodeRune_pos [of "decode_rune s"] by auto
    qed
  qed
qed

lemma json_string_quoted:
  assumes "string_body body"
  shows "json_string (quoted body) = unquote_body body"
  using assms by (simp add: json_string_def quoted_def butlast_append)

section \<open>The automaton\<close>

definition closing :: "char \<Rightarrow> scanToken \<Rightarrow> bool" where
  "closing c t \<longleftrightarrow> tk_unicodeDigits t = 0 \<and> \<not> tk_escaped t \<and> c = quote"

definition string_next :: "char \<Rightarrow> scanToken \<Rightarrow> scan_error + scanToken" where
  "string_next c t =
     (case (if tk_unicodeDigits t > 0 then
              (if isHexDigit c then consume_unicode_digit c t else Inl (ScanSyntax ''invalid unicode escape digit''))
            else if tk_escaped t then consume_escape c t
            else if c = backslash then (case finishModelRawRune t of Inl e \<Rightarrow> Inl e | Inr t \<Rightarrow> Inr (t\<lparr>tk_escaped := True\<rparr>))
            else if byte c < 0x20 then Inl (ScanSyntax ''unescaped control character in string'')
            else consumeModelRawUTF8Byte c t) of
        Inl e \<Rightarrow> Inl e | Inr t \<Rightarrow> Inr (keepRaw c t))"

lemma consumeStringToken_next:
  assumes "\<not> closing c t"
  shows "consumeStringToken c t s =
    (case string_next c t of
       Inl e \<Rightarrow> (True, Some e, s)
     | Inr t' \<Rightarrow> (True, None, advance (s\<lparr>js_token := Some t'\<rparr>)))"
proof (cases "tk_unicodeDigits t > 0")
  case True
  then show ?thesis by (simp add: consumeStringToken_def string_next_def token_goes_on_def refuse_def split: sum.split)
next
  case False
  show ?thesis
  proof (cases "tk_escaped t")
    case True
    with False show ?thesis by (simp add: consumeStringToken_def string_next_def token_goes_on_def split: sum.split)
  next
    case no: False
    with False assms have "c \<noteq> quote" by (simp add: closing_def)
    with False no show ?thesis
      by (simp add: consumeStringToken_def string_next_def token_goes_on_def refuse_def split: sum.split)
  qed
qed

lemma consumeStringToken_close:
  assumes "closing c t"
  shows "consumeStringToken c t s =
    (case finishModelDecodedString t of
       Inl e \<Rightarrow> (True, Some e, s)
     | Inr t \<Rightarrow>
         let s = finishToken (keepRaw c t) (advance s) in
         (True, map_option (\<lambda>e. normalizeScanError e (js_offset s)) (js_err s), s))"
proof -
  from assms have c: "c = quote" "tk_unicodeDigits t = 0" "\<not> tk_escaped t" by (simp_all add: closing_def)
  show ?thesis unfolding consumeStringToken_def c(1) using c(2,3) by simp
qed

fun string_run :: "string \<Rightarrow> scanToken \<Rightarrow> scanToken option" where
  "string_run [] t = Some t"
| "string_run (c # s) t =
     (if closing c t then None else case string_next c t of Inl _ \<Rightarrow> None | Inr t \<Rightarrow> string_run s t)"

lemma string_run_append: "string_run (a @ b) t = (case string_run a t of None \<Rightarrow> None | Some t \<Rightarrow> string_run b t)"
  by (induction a arbitrary: t) (auto split: sum.split)

text \<open>The bookkeeping of the model leaves the rest of a token alone.\<close>

definition erase :: "scanToken \<Rightarrow> scanToken" where
  "erase t = t\<lparr>tk_modelDecodedBytes := 0, tk_modelHighSurrogate := 0, tk_modelUTF8Pending := []\<rparr>"

lemma erase_update [simp]:
  "erase (t\<lparr>tk_modelDecodedBytes := n\<rparr>) = erase t" "erase (t\<lparr>tk_modelHighSurrogate := n\<rparr>) = erase t"
  "erase (t\<lparr>tk_modelUTF8Pending := s\<rparr>) = erase t"
  by (simp_all add: erase_def)

lemma erase_fields [simp]:
  "tk_kind (erase t) = tk_kind t" "tk_start (erase t) = tk_start t" "tk_ctx (erase t) = tk_ctx t" "tk_escaped (erase t) = tk_escaped t"
  "tk_unicodeDigits (erase t) = tk_unicodeDigits t" "tk_unicodeValue (erase t) = tk_unicodeValue t" "tk_raw (erase t) = tk_raw t"
  "tk_rawLimit (erase t) = tk_rawLimit t" "tk_rawOverflow (erase t) = tk_rawOverflow t"
  by (simp_all add: erase_def)

lemma eraseD:
  assumes "erase t = erase u"
  shows "tk_kind t = tk_kind u" "tk_start t = tk_start u" "tk_ctx t = tk_ctx u" "tk_escaped t = tk_escaped u"
    "tk_unicodeDigits t = tk_unicodeDigits u" "tk_unicodeValue t = tk_unicodeValue u" "tk_raw t = tk_raw u"
    "tk_rawLimit t = tk_rawLimit u" "tk_rawOverflow t = tk_rawOverflow u"
  using arg_cong [OF assms, of tk_kind] arg_cong [OF assms, of tk_start] arg_cong [OF assms, of tk_ctx]
    arg_cong [OF assms, of tk_escaped] arg_cong [OF assms, of tk_unicodeDigits] arg_cong [OF assms, of tk_unicodeValue]
    arg_cong [OF assms, of tk_raw] arg_cong [OF assms, of tk_rawLimit] arg_cong [OF assms, of tk_rawOverflow]
  by simp_all

lemma erase_add: "addModelDecodedBytes n t = Inr t' \<Longrightarrow> erase t' = erase t"
  by (auto simp: addModelDecodedBytes_def split: if_splits)

lemma erase_flush: "flushModelHighSurrogate t = Inr t' \<Longrightarrow> erase t' = erase t"
  by (auto simp: flushModelHighSurrogate_def split: if_splits dest: erase_add)

lemma erase_raw: "consumeModelRawUTF8Byte c t = Inr t' \<Longrightarrow> erase t' = erase t"
  by (auto simp: consumeModelRawUTF8Byte_def Let_def split: if_splits sum.splits dest!: erase_add erase_flush)

lemma erase_finish: "finishModelRawRune t = Inr t' \<Longrightarrow> t' = t"
  by (auto simp: finishModelRawRune_def split: if_splits)

lemma erase_unit: "consumeModelUnicodeUnit u t = Inr t' \<Longrightarrow> erase t' = erase t"
  by (auto simp: consumeModelUnicodeUnit_def split: if_splits sum.splits dest!: erase_add erase_flush)

text \<open>Without a model nothing is counted.\<close>

lemma no_model:
  assumes "\<not> vc_isModel (tk_ctx t)"
  shows "addModelDecodedBytes n t = Inr t" "flushModelHighSurrogate t = Inr t" "consumeModelRawUTF8Byte c t = Inr t"
    "finishModelRawRune t = Inr t" "consumeModelUnicodeUnit u t = Inr t" "finishModelDecodedString t = Inr t"
  using assms by (simp_all add: addModelDecodedBytes_def flushModelHighSurrogate_def consumeModelRawUTF8Byte_def
      finishModelRawRune_def consumeModelUnicodeUnit_def finishModelDecodedString_def)

section \<open>What the automaton has read\<close>

definition keeps_raw :: "scanToken \<Rightarrow> bool" where
  "keeps_raw t \<longleftrightarrow> tk_kind t = tokenKey \<or> vc_isModel (tk_ctx t)"

definition raw_at :: "string \<Rightarrow> scanToken \<Rightarrow> bool" where
  "raw_at s t \<longleftrightarrow> (keeps_raw t \<longrightarrow>
     (if tk_rawLimit t = 0 \<or> length s + 1 \<le> tk_rawLimit t then tk_raw t = quote # s \<and> \<not> tk_rawOverflow t
      else tk_rawOverflow t \<and> length (tk_raw t) = tk_rawLimit t))"

definition syntax_at :: "string \<Rightarrow> scanToken \<Rightarrow> bool" where
  "syntax_at s t \<longleftrightarrow>
     (if tk_unicodeDigits t > 0 then \<not> tk_escaped t \<and>
        (\<exists>b h. string_body b \<and> s = b @ backslash # CHR ''u'' # h \<and> length h + tk_unicodeDigits t = 4 \<and>
           list_all isHexDigit h \<and> tk_unicodeValue t = hex_value h)
      else if tk_escaped t then \<exists>b. string_body b \<and> s = b @ [backslash]
      else string_body s)"

definition same_token :: "scanToken \<Rightarrow> scanToken \<Rightarrow> bool" where
  "same_token t u \<longleftrightarrow> tk_kind t = tk_kind u \<and> tk_start t = tk_start u \<and> tk_ctx t = tk_ctx u \<and> tk_rawLimit t = tk_rawLimit u"

definition string_inv :: "scanToken \<Rightarrow> string \<Rightarrow> scanToken \<Rightarrow> bool" where
  "string_inv t0 s t \<longleftrightarrow> same_token t t0 \<and> raw_at s t \<and> syntax_at s t"

lemma raw_at_erase: "erase t = erase u \<Longrightarrow> raw_at s t = raw_at s u"
  by (simp add: raw_at_def keeps_raw_def eraseD [of t u])

lemma syntax_at_erase: "erase t = erase u \<Longrightarrow> syntax_at s t = syntax_at s u"
  by (simp add: syntax_at_def eraseD [of t u])

lemma keepRaw_fields [simp]:
  "tk_kind (keepRaw c t) = tk_kind t" "tk_start (keepRaw c t) = tk_start t" "tk_ctx (keepRaw c t) = tk_ctx t"
  "tk_escaped (keepRaw c t) = tk_escaped t" "tk_unicodeDigits (keepRaw c t) = tk_unicodeDigits t"
  "tk_unicodeValue (keepRaw c t) = tk_unicodeValue t" "tk_rawLimit (keepRaw c t) = tk_rawLimit t"
  "tk_modelDecodedBytes (keepRaw c t) = tk_modelDecodedBytes t" "tk_modelHighSurrogate (keepRaw c t) = tk_modelHighSurrogate t"
  "tk_modelUTF8Pending (keepRaw c t) = tk_modelUTF8Pending t"
  by (simp_all add: keepRaw_def appendRaw_def)

lemma syntax_at_keepRaw [simp]: "syntax_at s (keepRaw c t) = syntax_at s t"
  by (simp add: syntax_at_def)

lemma raw_at_keepRaw: "raw_at s t \<Longrightarrow> raw_at (s @ [c]) (keepRaw c t)"
  by (auto simp: raw_at_def keepRaw_def keeps_raw_def appendRaw_def split: if_splits)

lemma syntax_escape: "syntax_at s t \<Longrightarrow> tk_unicodeDigits t = 0 \<Longrightarrow> \<not> tk_escaped t \<Longrightarrow> syntax_at (s @ [backslash]) (t\<lparr>tk_escaped := True\<rparr>)"
  by (auto simp: syntax_at_def)

lemma syntax_raw:
  "syntax_at s t \<Longrightarrow> tk_unicodeDigits t = 0 \<Longrightarrow> \<not> tk_escaped t \<Longrightarrow> c \<noteq> quote \<Longrightarrow> c \<noteq> backslash \<Longrightarrow> 0x20 \<le> byte c \<Longrightarrow>
   syntax_at (s @ [c]) t"
  by (simp add: syntax_at_def string_body_append)

lemma syntax_simple:
  assumes "syntax_at s t" "tk_unicodeDigits t = 0" "tk_escaped t" "simple_escape c \<noteq> None"
  shows "syntax_at (s @ [c]) (t\<lparr>tk_escaped := False\<rparr>)"
proof -
  from assms obtain b where "string_body b" "s = b @ [backslash]" by (auto simp: syntax_at_def)
  with assms show ?thesis using string_body_append [of b "[backslash, c]"] by (simp add: syntax_at_def)
qed

lemma syntax_unicode:
  assumes "syntax_at s t" "tk_unicodeDigits t = 0" "tk_escaped t"
  shows "syntax_at (s @ [CHR ''u'']) (t\<lparr>tk_escaped := False, tk_unicodeDigits := 4, tk_unicodeValue := 0\<rparr>)"
proof -
  from assms obtain b where "string_body b" "s = b @ [backslash]" by (auto simp: syntax_at_def)
  then show ?thesis by (auto simp: syntax_at_def hex_value_def intro!: exI [of _ b])
qed

lemma hex_step: "list_all isHexDigit h \<Longrightarrow> length h < 4 \<Longrightarrow> hex_value h * 16 mod 65536 + hexDigitValue c = hex_value (h @ [c])"
proof -
  assume h: "list_all isHexDigit h" "length h < 4"
  have "hex_value h < 16 ^ length h" by (rule hex_value_less [OF h(1)])
  also have "\<dots> \<le> 16 ^ 3" using h(2) by (intro power_increasing) simp_all
  finally show ?thesis by (simp add: hex_value_snoc)
qed

lemma syntax_digit:
  assumes "syntax_at s t" "tk_unicodeDigits t > 0" "isHexDigit c"
  shows "syntax_at (s @ [c]) (t\<lparr>tk_unicodeValue := (tk_unicodeValue t * 16) mod 65536 + hexDigitValue c, tk_unicodeDigits := tk_unicodeDigits t - 1\<rparr>)"
proof -
  from assms obtain b h where b: "string_body b" "s = b @ backslash # CHR ''u'' # h" "length h + tk_unicodeDigits t = 4"
      "list_all isHexDigit h" "tk_unicodeValue t = hex_value h" "\<not> tk_escaped t" by (auto simp: syntax_at_def)
  have v: "hex_value h * 16 mod 65536 + hexDigitValue c = hex_value (h @ [c])" using b assms(2) by (intro hex_step) auto
  show ?thesis
  proof (cases "tk_unicodeDigits t = 1")
    case True
    with b assms(3) have "string_body (s @ [c])"
      using string_body_append [of b "backslash # CHR ''u'' # (h @ [c]) @ []"] string_body_unicode [of "h @ [c]" "[]"] by simp
    with True b show ?thesis by (simp add: syntax_at_def)
  next
    case False
    with assms(2) have "tk_unicodeDigits t - 1 > 0" by simp
    moreover have "\<exists>b' h'. string_body b' \<and> s @ [c] = b' @ backslash # CHR ''u'' # h' \<and> length h' + (tk_unicodeDigits t - 1) = 4 \<and>
        list_all isHexDigit h' \<and> tk_unicodeValue t * 16 mod 65536 + hexDigitValue c = hex_value h'"
      by (rule exI [of _ b], rule exI [of _ "h @ [c]"]) (use b assms(2,3) v in simp)
    ultimately show ?thesis using b(6) by (simp add: syntax_at_def)
  qed
qed

lemma same_token_erase: "erase t = erase u \<Longrightarrow> same_token u t0 \<Longrightarrow> same_token t t0"
  by (simp add: same_token_def eraseD [of t u])

lemma string_next_inv:
  assumes inv: "string_inv t0 s t" and nx: "string_next c t = Inr t'" and c: "\<not> closing c t"
  shows "string_inv t0 (s @ [c]) t'"
proof -
  have parts: "same_token t t0" "raw_at s t" "syntax_at s t" using inv by (simp_all add: string_inv_def)
  have goal: "string_inv t0 (s @ [c]) (keepRaw c u)"
    if "syntax_at (s @ [c]) v" "erase u = erase v" "same_token v t0" "raw_at s v" for u v
    using that raw_at_keepRaw [of s u c] raw_at_erase [of u v] syntax_at_erase [of u v] same_token_erase [of u v t0]
    by (simp add: string_inv_def same_token_def)
  consider "tk_unicodeDigits t > 0" | "tk_unicodeDigits t = 0" "tk_escaped t" | "tk_unicodeDigits t = 0" "\<not> tk_escaped t" by auto
  then show ?thesis
  proof cases
    case 1
    define v where "v = t\<lparr>tk_unicodeValue := (tk_unicodeValue t * 16) mod 65536 + hexDigitValue c, tk_unicodeDigits := tk_unicodeDigits t - 1\<rparr>"
    from 1 nx obtain u where hex: "isHexDigit c" and u: "consume_unicode_digit c t = Inr u" and t': "t' = keepRaw c u"
      by (auto simp: string_next_def split: if_splits sum.splits)
    from u have "erase u = erase v" by (auto simp: consume_unicode_digit_def v_def Let_def split: if_splits dest: erase_unit)
    moreover have "same_token v t0" "raw_at s v" using parts by (simp_all add: v_def same_token_def raw_at_def keeps_raw_def)
    ultimately show ?thesis using goal [of v u] syntax_digit [OF parts(3) 1 hex] t' by (simp add: v_def)
  next
    case 2
    with nx obtain u where u: "consume_escape c t = Inr u" and t': "t' = keepRaw c u"
      by (auto simp: string_next_def split: sum.splits)
    show ?thesis
    proof (cases "simple_escape c = None")
      case False
      with u have "erase u = erase (t\<lparr>tk_escaped := False\<rparr>)"
        by (auto simp: consume_escape_def Let_def split: sum.splits dest!: erase_add erase_flush)
      moreover have "same_token (t\<lparr>tk_escaped := False\<rparr>) t0" "raw_at s (t\<lparr>tk_escaped := False\<rparr>)"
        using parts by (simp_all add: same_token_def raw_at_def keeps_raw_def)
      ultimately show ?thesis using goal [of "t\<lparr>tk_escaped := False\<rparr>" u] syntax_simple [OF parts(3) 2 False] t' by simp
    next
      case True
      define v where "v = t\<lparr>tk_escaped := False, tk_unicodeDigits := 4, tk_unicodeValue := 0\<rparr>"
      from u True have uv: "c = CHR ''u''" "u = v" by (auto simp: consume_escape_def v_def Let_def split: if_splits)
      have "same_token v t0" "raw_at s v" using parts by (simp_all add: v_def same_token_def raw_at_def keeps_raw_def)
      then show ?thesis using goal [of v u] syntax_unicode [OF parts(3) 2] t' uv by (simp add: v_def)
    qed
  next
    case 3
    with c have nq: "c \<noteq> quote" by (simp add: closing_def)
    show ?thesis
    proof (cases "c = backslash")
      case True
      with 3 nx have t': "t' = keepRaw c (t\<lparr>tk_escaped := True\<rparr>)"
        by (auto simp: string_next_def split: sum.splits dest!: erase_finish)
      have "same_token (t\<lparr>tk_escaped := True\<rparr>) t0" "raw_at s (t\<lparr>tk_escaped := True\<rparr>)"
        using parts by (simp_all add: same_token_def raw_at_def keeps_raw_def)
      then show ?thesis using goal [of "t\<lparr>tk_escaped := True\<rparr>"] syntax_escape [OF parts(3) 3] t' True by simp
    next
      case False
      with 3 nx obtain u where u: "consumeModelRawUTF8Byte c t = Inr u" "0x20 \<le> byte c" and t': "t' = keepRaw c u"
        by (auto simp: string_next_def split: if_splits sum.splits)
      show ?thesis using goal [of t u] syntax_raw [OF parts(3) 3 nq False u(2)] erase_raw [OF u(1)] parts t' by simp
    qed
  qed
qed

lemma string_run_inv: "string_inv t0 s t \<Longrightarrow> string_run more_text t = Some t' \<Longrightarrow> string_inv t0 (s @ more_text) t'"
proof (induction more_text arbitrary: s t)
  case (Cons c rest)
  then obtain u where "\<not> closing c t" "string_next c t = Inr u" "string_run rest u = Some t'"
    by (auto split: if_splits sum.splits)
  with Cons.IH [of "s @ [c]" u] string_next_inv [OF Cons.prems(1), of c u] show ?case by simp
qed simp

text \<open>The quote closes a string just when its body is complete.\<close>

lemma string_body_no_backslash_end: "string_body b \<Longrightarrow> \<not> string_body (b @ [backslash])"
  by (simp add: string_body_append)

lemma string_body_no_part: "string_body b \<Longrightarrow> length h < 4 \<Longrightarrow> \<not> string_body (b @ backslash # CHR ''u'' # h)"
  by (auto simp: string_body_append backslash_quote split: list.splits)

lemma string_inv_body:
  assumes "string_inv t0 s t"
  shows "string_body s \<longleftrightarrow> tk_unicodeDigits t = 0 \<and> \<not> tk_escaped t"
  using assms string_body_no_backslash_end string_body_no_part
  by (auto simp: string_inv_def syntax_at_def split: if_splits)

end
