(* ===== verification/Body_Model.thy ===== *)
theory Body_Model
  imports Body_Strings
begin

text \<open>
  The routing model in the scanner of package bodyfile: while its string streams by, the automaton
  counts the bytes of the decoded text and checks its UTF-8. Proved: it lets a string body pass
  exactly when the body is valid UTF-8 and decodes to at most \<open>MaxBytes\<close> bytes.
\<close>

section \<open>Strings without a model\<close>

lemma string_body_unicodeD:
  assumes "string_body (backslash # CHR ''u'' # s)"
  shows "4 \<le> length s \<and> list_all isHexDigit (take 4 s)"
  using assms by (auto simp: backslash_quote split: list.splits)

lemma string_body_digit:
  assumes "string_body b" "string_body (b @ backslash # CHR ''u'' # h @ c # rest)" "length h < 4"
  shows "isHexDigit c"
proof -
  have "list_all isHexDigit (take 4 (h @ c # rest))"
    using assms string_body_append [of b] string_body_unicodeD [of "h @ c # rest"] by simp
  moreover have "c = take 4 (h @ c # rest) ! length h" using assms(3) by (simp add: nth_append)
  moreover have "length h < length (take 4 (h @ c # rest))" using assms(3) by simp
  ultimately show ?thesis by (metis list_all_length)
qed

lemma string_next_plain:
  assumes "\<not> vc_isModel (tk_ctx t)" "string_inv t0 s t" "string_body (s @ c # rest)"
  shows "\<not> closing c t \<and> (\<exists>t'. string_next c t = Inr t')"
proof -
  have syn: "syntax_at s t" using assms(2) by (simp add: string_inv_def)
  consider "tk_unicodeDigits t > 0" | "tk_unicodeDigits t = 0" "tk_escaped t" | "tk_unicodeDigits t = 0" "\<not> tk_escaped t" by auto
  then show ?thesis
  proof cases
    case 1
    with syn obtain b h where "string_body b" "s = b @ backslash # CHR ''u'' # h" "length h + tk_unicodeDigits t = 4"
      by (auto simp: syntax_at_def)
    with 1 string_body_digit [of b h c rest] assms(3) have "isHexDigit c" by simp
    with 1 assms(1) show ?thesis by (simp add: closing_def string_next_def consume_unicode_digit_def no_model Let_def)
  next
    case 2
    with syn obtain b where "string_body b" "s = b @ [backslash]" by (auto simp: syntax_at_def)
    with assms(3) have "string_body (backslash # c # rest)" using string_body_append [of b "backslash # c # rest"] by simp
    then have "simple_escape c \<noteq> None \<or> c = CHR ''u''" by (auto split: if_splits)
    with 2 assms(1) show ?thesis by (auto simp: closing_def string_next_def consume_escape_def no_model Let_def)
  next
    case 3
    with syn have "string_body s" by (simp add: syntax_at_def)
    with assms(3) have "string_body (c # rest)" by (simp add: string_body_append)
    then have "c = backslash \<or> c \<noteq> quote \<and> 0x20 \<le> byte c" by (auto split: if_splits)
    with 3 assms(1) backslash_quote(1) show ?thesis by (auto simp: closing_def string_next_def no_model)
  qed
qed

lemma string_run_plain:
  assumes "\<not> vc_isModel (tk_ctx t)" "string_inv t0 s t" "string_body (s @ rest)"
  shows "\<exists>t'. string_run rest t = Some t'"
  using assms
proof (induction rest arbitrary: s t)
  case (Cons c rest)
  from string_next_plain [OF Cons.prems] obtain u where u: "\<not> closing c t" "string_next c t = Inr u" by auto
  from string_next_inv [OF Cons.prems(2) u(2,1)] have inv: "string_inv t0 (s @ [c]) u" .
  then have "\<not> vc_isModel (tk_ctx u)" using Cons.prems(1,2) by (simp add: string_inv_def same_token_def)
  from Cons.IH [OF this inv] Cons.prems(3) u show ?case by simp
qed simp

section \<open>Units of a string\<close>

datatype sunit = Raw string | Esc char | Uni string

fun unit_text :: "sunit \<Rightarrow> string" where
  "unit_text (Raw r) = r"
| "unit_text (Esc e) = [backslash, e]"
| "unit_text (Uni h) = backslash # CHR ''u'' # h"

fun unit_ok :: "sunit \<Rightarrow> bool" where
  "unit_ok (Raw r) = (is_rune r \<and> hd r \<noteq> quote \<and> hd r \<noteq> backslash \<and> 0x20 \<le> byte (hd r))"
| "unit_ok (Esc e) = (simple_escape e \<noteq> None)"
| "unit_ok (Uni h) = (length h = 4 \<and> list_all isHexDigit h)"

definition high_half :: "nat \<Rightarrow> bool" where
  "high_half u \<longleftrightarrow> 0xD800 \<le> u \<and> u \<le> 0xDBFF"

definition low_half :: "nat \<Rightarrow> bool" where
  "low_half u \<longleftrightarrow> 0xDC00 \<le> u \<and> u \<le> 0xDFFF"

definition pending_len :: "nat \<Rightarrow> nat" where
  "pending_len hi = (if hi = 0 then 0 else 3)"

text \<open>The decoded length of units that follow a pending high surrogate, 0 for none.\<close>

fun units_len :: "nat \<Rightarrow> sunit list \<Rightarrow> nat" where
  "units_len hi [] = pending_len hi"
| "units_len hi (Raw r # us) = pending_len hi + length r + units_len 0 us"
| "units_len hi (Esc e # us) = pending_len hi + 1 + units_len 0 us"
| "units_len hi (Uni h # us) =
     (let u = hex_value h in
      if hi \<noteq> 0 \<and> low_half u then 4 + units_len 0 us
      else pending_len hi + (if high_half u then units_len u us else (if low_half u then 3 else RuneLen u) + units_len 0 us))"

abbreviation units_text :: "sunit list \<Rightarrow> string" where
  "units_text us \<equiv> concat (map unit_text us)"

lemma rune_hd: "is_rune r \<Longrightarrow> r \<noteq> []"
  by (auto simp: is_rune_def)

lemma ValidString_rune: "is_rune r \<Longrightarrow> ValidString (r @ s) = ValidString s"
  using rune_width_rune [of r s] by (subst ValidString.simps) (auto simp: is_rune_def)

lemma ascii_rune: "byte c < 128 \<Longrightarrow> is_rune [c]"
  by (simp add: is_rune_def)

lemma ValidString_ascii: "byte c < 128 \<Longrightarrow> ValidString (c # s) = ValidString s"
  using ValidString_rune [OF ascii_rune, of c s] by simp

lemma hex_ascii: "isHexDigit c \<Longrightarrow> byte c < 128"
  by (auto simp: isHexDigit_def)

lemma ValidString_hex: "list_all isHexDigit h \<Longrightarrow> ValidString (h @ s) = ValidString s"
  by (induction h) (simp_all add: ValidString_ascii hex_ascii)

lemma simple_escape_ascii: "simple_escape e \<noteq> None \<Longrightarrow> byte e < 128"
  by (auto simp: simple_escape_def quote_def backslash_def byte_def split: if_splits)

lemma byte_u: "byte CHR ''u'' < 128" "byte backslash < 128"
  by (simp_all add: byte_def backslash_def)

lemma ValidString_unit: "unit_ok u \<Longrightarrow> ValidString (unit_text u @ s) = ValidString s"
  by (cases u) (simp_all add: ValidString_rune ValidString_ascii ValidString_hex simple_escape_ascii byte_u)

lemma string_body_unit: "unit_ok u \<Longrightarrow> string_body (unit_text u @ s) = string_body s"
proof (cases u)
  case (Raw r)
  assume ok: "unit_ok u"
  show ?thesis
  proof (cases "length r = 1")
    case True
    then obtain c where "r = [c]" by (auto simp: length_Suc_conv)
    with ok Raw show ?thesis by simp
  next
    case False
    with ok Raw string_body_high [OF rune_high [of r]] show ?thesis by simp
  qed
next
  case (Esc e)
  assume "unit_ok u"
  with Esc show ?thesis by auto
next
  case (Uni h)
  assume "unit_ok u"
  with Uni string_body_unicode [of h s] show ?thesis by (simp only: unit_text.simps unit_ok.simps append_Cons)
qed

lemma units_valid: "list_all unit_ok us \<Longrightarrow> ValidString (units_text us) \<and> string_body (units_text us)"
  by (induction us) (simp_all add: ValidString_unit string_body_unit)

text \<open>A string body in valid UTF-8 is a sequence of units.\<close>

lemma string_units:
  assumes "string_body s" "ValidString s"
  shows "\<exists>us. list_all unit_ok us \<and> s = units_text us"
  using assms
proof (induction "length s" arbitrary: s rule: less_induct)
  case less
  have split: ?case if "s = unit_text u @ t" "unit_ok u" for u t
  proof -
    have "length t < length s" using that by (cases u) (auto simp: is_rune_def)
    moreover have "string_body t" "ValidString t" using less.prems that ValidString_unit [of u t] string_body_unit [of u t] by simp_all
    ultimately obtain us where "list_all unit_ok us" "t = units_text us" using less.hyps by blast
    with that show ?thesis by (intro exI [of _ "u # us"]) simp
  qed
  show ?case
  proof (cases "s = []")
    case True
    then show ?thesis by (intro exI [of _ "[]"]) simp
  next
    case False
    show ?thesis
    proof (cases "hd s = backslash")
      case True
      from less.prems(1) False True show ?thesis
      proof (cases rule: string_body_escapeE)
        case (1 e rest)
        with split [of "Esc e" rest] show ?thesis by simp
      next
        case (2 h rest)
        with split [of "Uni h" rest] show ?thesis by simp
      qed
    next
      case no: False
      have hd: "hd s \<noteq> quote" "0x20 \<le> byte (hd s)" using less.prems False no by (cases s; auto)+
      have "is_rune (take (rune_width s) s)" using less.prems(2) False by (subst (asm) ValidString.simps) simp
      moreover have "hd (take (rune_width s) s) = hd s" using False rune_width_pos [of s] by (cases s; cases "rune_width s") auto
      ultimately have "unit_ok (Raw (take (rune_width s) s))" using no hd by simp
      with split [of "Raw (take (rune_width s) s)" "drop (rune_width s) s"] show ?thesis by simp
    qed
  qed
qed

section \<open>The decoded length\<close>

lemma lead_value:
  fixes b :: nat
  assumes "k * m \<le> b" "b < k * m + m"
  shows "b mod m = b - k * m"
proof -
  from assms obtain j where "b = k * m + j" "j < m" by (metis add_less_cancel_left le_Suc_ex)
  then show ?thesis by simp
qed

lemma cont_value: "cont_byte c \<Longrightarrow> byte c mod 64 = byte c - 128"
  using lead_value [of 2 64 "byte c"] by (simp add: cont_byte_def)

text \<open>A character is encoded with as many bytes as it was decoded from.\<close>

lemma rune_value_valid:
  assumes "is_rune r"
  shows "length (EncodeRune (rune_value r)) = length r \<and> \<not> surrogate (rune_value r) \<and> rune_value r \<le> 0x10FFFF"
proof -
  obtain a cs where r: "r = a # cs" using assms by (cases r) (auto simp: is_rune_def)
  consider "byte a < 128" | "194 \<le> byte a" "byte a < 224" | "224 \<le> byte a" "byte a < 240" | "240 \<le> byte a" "byte a < 245"
    using assms r by (fastforce simp: is_rune_def first_size_def split: if_splits)
  then show ?thesis
  proof cases
    case 1
    with assms r show ?thesis by (simp add: is_rune_def EncodeRune_def surrogate_def encode_valid_def)
  next
    case 2
    then have "length cs = 1" "list_all cont_byte cs" using assms r by (auto simp: is_rune_def first_size_def)
    then obtain b where b: "cs = [b]" "cont_byte b" by (auto simp: length_Suc_conv)
    have "byte a mod 32 = byte a - 192" using lead_value [of 6 32 "byte a"] 2 by simp
    then have "rune_value r = (byte a - 192) * 64 + (byte b - 128)" using r b cont_value by simp
    then have "0x80 \<le> rune_value r" "rune_value r < 0x800" using 2 b by (auto simp: cont_byte_def)
    with r b show ?thesis by (simp add: EncodeRune_length surrogate_def RuneLen_def)
  next
    case 3
    then have "length cs = 2" "list_all cont_byte cs" and lo: "accept_lo (byte a) \<le> byte (cs ! 0)" "byte (cs ! 0) \<le> accept_hi (byte a)"
      using assms r by (auto simp: is_rune_def first_size_def)
    then obtain b c where b: "cs = [b, c]" "cont_byte b" "cont_byte c" by (auto simp: length_Suc_conv numeral_2_eq_2)
    have "byte a mod 16 = byte a - 224" using lead_value [of 14 16 "byte a"] 3 by simp
    then have v: "rune_value r = ((byte a - 224) * 64 + (byte b - 128)) * 64 + (byte c - 128)" using r b cont_value by simp
    have "0x800 \<le> rune_value r" "rune_value r < 0x10000" "\<not> surrogate (rune_value r)"
      using 3 b lo by (auto simp: v cont_byte_def accept_lo_def accept_hi_def surrogate_def split: if_splits)
    with r b show ?thesis by (simp add: EncodeRune_length RuneLen_def)
  next
    case 4
    then have "length cs = 3" "list_all cont_byte cs" and lo: "accept_lo (byte a) \<le> byte (cs ! 0)" "byte (cs ! 0) \<le> accept_hi (byte a)"
      using assms r by (auto simp: is_rune_def first_size_def)
    then obtain b c d where b: "cs = [b, c, d]" "cont_byte b" "cont_byte c" "cont_byte d" by (auto simp: length_Suc_conv numeral_3_eq_3)
    have "byte a mod 8 = byte a - 240" using lead_value [of 30 8 "byte a"] 4 by simp
    then have v: "rune_value r = (((byte a - 240) * 64 + (byte b - 128)) * 64 + (byte c - 128)) * 64 + (byte d - 128)" using r b cont_value by simp
    have "0x10000 \<le> rune_value r" "rune_value r \<le> 0x10FFFF"
      using 4 b lo by (auto simp: v cont_byte_def accept_lo_def accept_hi_def split: if_splits)
    with r b show ?thesis by (simp add: EncodeRune_length surrogate_def RuneLen_def)
  qed
qed

lemma rune_value_length: "is_rune r \<Longrightarrow> length (EncodeRune (rune_value r)) = length r"
  using rune_value_valid by blast

lemma unquote_raw:
  assumes "unit_ok (Raw r)"
  shows "unquote_body (r @ s) = map_option (append (EncodeRune (rune_value r))) (unquote_body s)"
proof -
  have r: "is_rune r" "r \<noteq> []" using assms rune_hd by auto
  then have "hd (r @ s) = hd r" by simp
  moreover have "decode_rune (r @ s) = rune_value r" using r rune_width_rune [OF r(1), of s] by (simp add: decode_rune_def)
  ultimately show ?thesis using assms r rune_width_rune [OF r(1), of s] by (subst unquote_rune) simp_all
qed

text \<open>Decoding units from the left, with the surrogate pairs found by looking ahead.\<close>

lemma units_unquote: "list_all unit_ok us \<Longrightarrow> \<exists>t. unquote_body (units_text us) = Some t \<and> length t = units_len 0 us"
proof (induction "length us" arbitrary: us rule: less_induct)
  case less
  show ?case
  proof (cases us)
    case Nil
    then show ?thesis by (simp add: unquote_body.simps pending_len_def)
  next
    case (Cons u rest)
    with less obtain t where t: "unquote_body (units_text rest) = Some t" "length t = units_len 0 rest" by auto
    show ?thesis
    proof (cases u)
      case (Raw r)
      with Cons less.prems t unquote_raw [of r "units_text rest"] show ?thesis by (simp add: pending_len_def rune_value_length)
    next
      case (Esc e)
      then obtain x where "simple_escape e = Some x" using less.prems Cons by auto
      with Esc Cons t unquote_simple [of e x "units_text rest"] show ?thesis by (simp add: pending_len_def)
    next
      case (Uni h)
      then have h: "length h = 4" "list_all isHexDigit h" using less.prems Cons by simp_all
      have small: "hex_value h < 65536" using hex_value_less [OF h(2)] h(1) by simp
      note un = unquote_unicode [OF h, of "units_text rest"]
      have len: "length (EncodeRune (hex_value h)) = (if high_half (hex_value h) \<or> low_half (hex_value h) then 3 else RuneLen (hex_value h))"
        using small by (auto simp: EncodeRune_length surrogate_def high_half_def low_half_def)
      show ?thesis
      proof (cases "high_half (hex_value h) \<and> (\<exists>h' rest'. rest = Uni h' # rest' \<and> low_half (hex_value h'))")
        case True
        then obtain h' rest' where rest: "rest = Uni h' # rest'" "low_half (hex_value h')" by auto
        have h': "length h' = 4" "list_all isHexDigit h'" using less.prems Cons rest by simp_all
        have low: "getu4 (units_text rest) = Some (hex_value h')" using getu4_escape [OF h'] rest by simp
        have pair: "utf16_DecodeRune (hex_value h) (hex_value h') \<noteq> RuneError"
          using True rest(2) by (auto simp: utf16_DecodeRune_def RuneError_def high_half_def low_half_def)
        obtain t' where t': "unquote_body (units_text rest') = Some t'" "length t' = units_len 0 rest'"
          using less.hyps [of rest'] less.prems Cons rest by auto
        have "drop 6 (units_text rest) = units_text rest'" using rest h' by simp
        then have "unquote_body (units_text us) = Some (EncodeRune (utf16_DecodeRune (hex_value h) (hex_value h')) @ t')"
          using un low pair t' Cons Uni by simp
        moreover have "hex_value h \<noteq> 0" using True by (auto simp: high_half_def)
        ultimately show ?thesis using t' pair_length(1) [OF pair] Cons Uni rest True by (simp add: pending_len_def Let_def)
      next
        case False
        have nopair: "\<not> (getu4 (units_text rest) \<noteq> None \<and> utf16_DecodeRune (hex_value h) (the (getu4 (units_text rest))) \<noteq> RuneError)"
        proof
          assume a: "getu4 (units_text rest) \<noteq> None \<and> utf16_DecodeRune (hex_value h) (the (getu4 (units_text rest))) \<noteq> RuneError"
          then obtain low where low: "getu4 (units_text rest) = Some low" by auto
          from a low have halves: "high_half (hex_value h)" "low_half low"
            by (auto simp: utf16_DecodeRune_def high_half_def low_half_def split: if_splits)
          from getu4_Some [OF low] obtain h' where h': "units_text rest = backslash # CHR ''u'' # h' @ drop 6 (units_text rest)"
              "length h' = 4" "low = hex_value h'" by auto
          obtain v rest' where rest: "rest = v # rest'" using h' by (cases rest) auto
          have v: "unit_ok v" using less.prems Cons rest by simp
          show False
          proof (cases v)
            case (Raw r)
            with v h' rest rune_hd [of r] show ?thesis by (cases r) auto
          next
            case (Esc e)
            with v h' rest backslash_quote(4) show ?thesis by auto
          next
            case (Uni k)
            with v h' rest have "k = h'" by simp
            with False halves h'(3) Uni rest show ?thesis by auto
          qed
        qed
        have "unquote_body (units_text us) = Some (EncodeRune (hex_value h) @ t)"
          using un unfolding Let_def if_not_P [OF nopair] using t Cons Uni by simp
        moreover have "units_len 0 us = (if high_half (hex_value h) then units_len (hex_value h) rest
            else (if low_half (hex_value h) then 3 else RuneLen (hex_value h)) + units_len 0 rest)"
          using Cons Uni by (simp add: pending_len_def Let_def)
        moreover have "units_len (hex_value h) rest = 3 + units_len 0 rest" if "high_half (hex_value h)"
        proof -
          have "hex_value h \<noteq> 0" using that by (auto simp: high_half_def)
          with that False show ?thesis by (cases rest; cases "hd rest") (auto simp: pending_len_def Let_def)
        qed
        ultimately show ?thesis using len t by auto
      qed
    qed
  qed
qed

section \<open>Counting\<close>

text \<open>
  What a model token has read: whole units, whose decoded bytes it has counted but for a pending
  high surrogate, and the part of a unit that its state describes.
\<close>

definition plain_char :: "char \<Rightarrow> bool" where
  "plain_char c \<longleftrightarrow> c \<noteq> quote \<and> c \<noteq> backslash \<and> 0x20 \<le> byte c"

definition counted :: "sunit list \<Rightarrow> nat \<Rightarrow> nat \<Rightarrow> string \<Rightarrow> bool" where
  "counted us n hi pending \<longleftrightarrow> (hi = 0 \<or> high_half hi) \<and>
     (\<forall>rest. (pending \<noteq> [] \<longrightarrow> (\<exists>r rs. rest = Raw r # rs)) \<longrightarrow> units_len 0 (us @ rest) = n + units_len hi rest)"

definition part_at :: "string \<Rightarrow> scanToken \<Rightarrow> bool" where
  "part_at part t \<longleftrightarrow>
     (if tk_unicodeDigits t > 0 then tk_modelUTF8Pending t = [] \<and> \<not> tk_escaped t \<and>
        (\<exists>h. part = backslash # CHR ''u'' # h \<and> length h + tk_unicodeDigits t = 4 \<and> list_all isHexDigit h \<and> tk_unicodeValue t = hex_value h)
      else if tk_escaped t then tk_modelUTF8Pending t = [] \<and> part = [backslash]
      else part = tk_modelUTF8Pending t \<and>
        (part \<noteq> [] \<longrightarrow> tk_modelHighSurrogate t = 0 \<and> \<not> FullRuneInString part \<and> list_all plain_char part))"

definition model_at :: "string \<Rightarrow> scanToken \<Rightarrow> bool" where
  "model_at s t \<longleftrightarrow>
     (\<exists>us part. s = units_text us @ part \<and> list_all unit_ok us \<and> part_at part t \<and>
        counted us (tk_modelDecodedBytes t) (tk_modelHighSurrogate t) (tk_modelUTF8Pending t) \<and> tk_modelDecodedBytes t \<le> MaxBytes)"

lemma model_atI:
  assumes "s = units_text us @ part" "list_all unit_ok us" "part_at part t"
    "counted us (tk_modelDecodedBytes t) (tk_modelHighSurrogate t) (tk_modelUTF8Pending t)" "tk_modelDecodedBytes t \<le> MaxBytes"
  shows "model_at s t"
  unfolding model_at_def using assms by blast

text \<open>The pieces of the code on a model token.\<close>

lemma add_model:
  assumes "vc_isModel (tk_ctx t)"
  shows "addModelDecodedBytes n t =
    (if tk_modelDecodedBytes t + n \<le> MaxBytes then Inr (t\<lparr>tk_modelDecodedBytes := tk_modelDecodedBytes t + n\<rparr>) else Inl ErrModelTooLong)"
  using assms by (auto simp: addModelDecodedBytes_def)

definition flushed :: "scanToken \<Rightarrow> scanToken" where
  "flushed t = t\<lparr>tk_modelDecodedBytes := tk_modelDecodedBytes t + pending_len (tk_modelHighSurrogate t), tk_modelHighSurrogate := 0\<rparr>"

lemma flush_model:
  assumes "vc_isModel (tk_ctx t)" "tk_modelDecodedBytes t \<le> MaxBytes"
  shows "flushModelHighSurrogate t =
    (if tk_modelDecodedBytes t + pending_len (tk_modelHighSurrogate t) \<le> MaxBytes then Inr (flushed t) else Inl ErrModelTooLong)"
  using assms by (simp add: flushModelHighSurrogate_def add_model flushed_def pending_len_def RuneLen_def RuneError_def)

lemma flushed_fields [simp]:
  "tk_ctx (flushed t) = tk_ctx t" "tk_modelHighSurrogate (flushed t) = 0" "tk_modelUTF8Pending (flushed t) = tk_modelUTF8Pending t"
  "tk_modelDecodedBytes (flushed t) = tk_modelDecodedBytes t + pending_len (tk_modelHighSurrogate t)"
  "tk_escaped (flushed t) = tk_escaped t" "tk_unicodeDigits (flushed t) = tk_unicodeDigits t" "tk_unicodeValue (flushed t) = tk_unicodeValue t"
  by (simp_all add: flushed_def)

lemma flushed_none: "tk_modelHighSurrogate t = 0 \<Longrightarrow> flushed t = t"
  by (simp add: flushed_def pending_len_def)

text \<open>A completed raw character.\<close>

lemma raw_byte_model:
  assumes "vc_isModel (tk_ctx t)" "tk_modelDecodedBytes t \<le> MaxBytes"
  shows "consumeModelRawUTF8Byte c t =
    (if tk_modelDecodedBytes t + pending_len (tk_modelHighSurrogate t) > MaxBytes then Inl ErrModelTooLong
     else if length (tk_modelUTF8Pending t) \<ge> UTFMax then Inl (ScanSyntax ''invalid UTF-8 in model'')
     else let p = tk_modelUTF8Pending t @ [c]; u = (flushed t)\<lparr>tk_modelUTF8Pending := p\<rparr> in
       if \<not> FullRuneInString p then Inr u
       else if (\<not> is_rune (take (rune_width p) p) \<and> rune_width p = 1) \<or> rune_width p \<noteq> length p
       then Inl (ScanSyntax ''invalid UTF-8 in model'')
       else addModelDecodedBytes (rune_width p) (u\<lparr>tk_modelUTF8Pending := []\<rparr>))"
proof (cases "tk_modelHighSurrogate t = 0")
  case True
  then show ?thesis using assms by (simp add: consumeModelRawUTF8Byte_def flushed_none pending_len_def Let_def)
next
  case False
  then show ?thesis using assms by (simp add: consumeModelRawUTF8Byte_def flush_model Let_def)
qed

lemma full_rune: "p \<noteq> [] \<Longrightarrow> \<not> ((\<not> is_rune (take (rune_width p) p) \<and> rune_width p = 1) \<or> rune_width p \<noteq> length p) \<longleftrightarrow> is_rune p"
proof
  assume "p \<noteq> []" and a: "\<not> ((\<not> is_rune (take (rune_width p) p) \<and> rune_width p = 1) \<or> rune_width p \<noteq> length p)"
  then have w: "rune_width p = length p" by simp
  show "is_rune p"
  proof (cases "rune_width p = 1")
    case True
    with a w show ?thesis by simp
  next
    case False
    with \<open>p \<noteq> []\<close> w show ?thesis by (cases p) (auto simp: rune_width_def Let_def split: if_splits)
  qed
next
  assume "is_rune p"
  then show "\<not> ((\<not> is_rune (take (rune_width p) p) \<and> rune_width p = 1) \<or> rune_width p \<noteq> length p)"
    using rune_width_rune [of p "[]"] by simp
qed

lemma counted_snoc:
  assumes "counted us n hi []" "\<And>rest. n + units_len hi (u # rest) = n' + units_len hi' rest" "hi' = 0 \<or> high_half hi'"
  shows "counted (us @ [u]) n' hi' pending"
  using assms by (simp add: counted_def)

lemma model_raw:
  assumes model: "vc_isModel (tk_ctx t)" and at: "model_at s t" and clean: "tk_unicodeDigits t = 0" "\<not> tk_escaped t"
    and c: "plain_char c" and u: "consumeModelRawUTF8Byte c t = Inr t'"
  shows "model_at (s @ [c]) t'"
proof -
  from at clean obtain us part where s: "s = units_text us @ part" "list_all unit_ok us" and part: "part = tk_modelUTF8Pending t"
      "part \<noteq> [] \<longrightarrow> tk_modelHighSurrogate t = 0 \<and> \<not> FullRuneInString part \<and> list_all plain_char part"
    and cnt: "counted us (tk_modelDecodedBytes t) (tk_modelHighSurrogate t) part" and le: "tk_modelDecodedBytes t \<le> MaxBytes"
    by (auto simp: model_at_def part_at_def)
  define n where "n = tk_modelDecodedBytes t + pending_len (tk_modelHighSurrogate t)"
  have n: "n \<le> MaxBytes" using u raw_byte_model [OF model le, of c] by (auto simp: n_def split: if_splits)
  have len: "units_len 0 (us @ Raw r # rest) = n + length r + units_len 0 rest" for r rest
    using cnt by (auto simp: counted_def n_def)
  show ?thesis
  proof (cases "FullRuneInString (part @ [c])")
    case False
    with u raw_byte_model [OF model le, of c] n part(1) have t': "t' = (flushed t)\<lparr>tk_modelUTF8Pending := part @ [c]\<rparr>"
      by (auto simp: Let_def split: if_splits)
    have "counted us n 0 (part @ [c])" using len by (auto simp: counted_def pending_len_def)
    then show ?thesis
      using s part False c clean n by (intro model_atI [of _ us "part @ [c]"]) (auto simp: t' part_at_def n_def)
  next
    case True
    have rune: "is_rune (part @ [c])"
      using u raw_byte_model [OF model le, of c] n part(1) True full_rune [of "part @ [c]"] by (auto simp: Let_def n_def split: if_splits)
    define w where "w = rune_width (part @ [c])"
    have w: "w = length part + 1" using rune_width_rune [OF rune, of "[]"] by (simp add: w_def)
    have "consumeModelRawUTF8Byte c t = addModelDecodedBytes w ((flushed t)\<lparr>tk_modelUTF8Pending := []\<rparr>)"
      using u raw_byte_model [OF model le, of c] n part(1) True full_rune [of "part @ [c]"] rune by (auto simp: Let_def n_def w_def split: if_splits)
    then have t': "n + w \<le> MaxBytes" "t' = (flushed t)\<lparr>tk_modelUTF8Pending := [], tk_modelDecodedBytes := n + w\<rparr>"
      using u add_model [of "(flushed t)\<lparr>tk_modelUTF8Pending := []\<rparr>" w] model by (auto simp: n_def split: if_splits)
    have "hd (part @ [c]) = c \<or> hd (part @ [c]) \<in> set part" by (cases part) auto
    then have "unit_ok (Raw (part @ [c]))" using rune c part(2) by (auto simp: plain_char_def list_all_iff)
    moreover have "counted (us @ [Raw (part @ [c])]) (n + w) 0 []" using len w by (simp add: counted_def)
    ultimately show ?thesis
      using s part clean t' by (intro model_atI [of _ "us @ [Raw (part @ [c])]" "[]"]) (auto simp: t'(2) part_at_def)
  qed
qed

lemma unit_model:
  assumes model: "vc_isModel (tk_ctx t)" "tk_modelDecodedBytes t \<le> MaxBytes"
    and hi: "tk_modelHighSurrogate t = 0 \<or> high_half (tk_modelHighSurrogate t)"
    and r: "consumeModelUnicodeUnit (hex_value h) t = Inr t'"
  shows "erase t' = erase t \<and> tk_modelUTF8Pending t' = tk_modelUTF8Pending t \<and> tk_modelDecodedBytes t' \<le> MaxBytes \<and>
    (tk_modelHighSurrogate t' = 0 \<or> high_half (tk_modelHighSurrogate t')) \<and>
    (\<forall>rest. tk_modelDecodedBytes t + units_len (tk_modelHighSurrogate t) (Uni h # rest) =
       tk_modelDecodedBytes t' + units_len (tk_modelHighSurrogate t') rest)"
proof (cases "tk_modelHighSurrogate t \<noteq> 0 \<and> low_half (hex_value h)")
  case True
  then have "utf16_DecodeRune (tk_modelHighSurrogate t) (hex_value h) \<noteq> RuneError"
    using hi by (auto simp: utf16_DecodeRune_def RuneError_def high_half_def low_half_def)
  then have len: "RuneLen (utf16_DecodeRune (tk_modelHighSurrogate t) (hex_value h)) = 4" by (rule pair_length)
  from True r model have "tk_modelDecodedBytes t + 4 \<le> MaxBytes" "t' = t\<lparr>tk_modelHighSurrogate := 0, tk_modelDecodedBytes := tk_modelDecodedBytes t + 4\<rparr>"
    by (auto simp: consumeModelUnicodeUnit_def low_half_def add_model len split: if_splits)
  with True show ?thesis by (simp add: Let_def)
next
  case False
  define n where "n = tk_modelDecodedBytes t + pending_len (tk_modelHighSurrogate t)"
  have no_pair: "\<not> (tk_modelHighSurrogate t \<noteq> 0 \<and> 0xDC00 \<le> hex_value h \<and> hex_value h \<le> 0xDFFF)"
    using False by (auto simp: low_half_def)
  have flush: "(if tk_modelHighSurrogate t \<noteq> 0 then flushModelHighSurrogate t else Inr t) = (if n \<le> MaxBytes then Inr (flushed t) else Inl ErrModelTooLong)"
    using model by (simp add: flush_model n_def flushed_none pending_len_def)
  have n: "n \<le> MaxBytes" using r flush no_pair model by (auto simp: consumeModelUnicodeUnit_def split: if_splits)
  have unit: "consumeModelUnicodeUnit (hex_value h) t =
      (if high_half (hex_value h) then Inr ((flushed t)\<lparr>tk_modelHighSurrogate := hex_value h\<rparr>)
       else addModelDecodedBytes (if low_half (hex_value h) then 3 else RuneLen (hex_value h)) (flushed t))"
    unfolding consumeModelUnicodeUnit_def if_not_P [OF no_pair] flush
    using n model by (auto simp: high_half_def low_half_def RuneLen_def RuneError_def)
  have spec: "tk_modelDecodedBytes t + units_len (tk_modelHighSurrogate t) (Uni h # rest) =
      n + (if high_half (hex_value h) then units_len (hex_value h) rest
           else (if low_half (hex_value h) then 3 else RuneLen (hex_value h)) + units_len 0 rest)" for rest
    using False by (auto simp: n_def Let_def)
  have erased: "erase (flushed t) = erase t" by (simp add: flushed_def)
  show ?thesis
  proof (cases "high_half (hex_value h)")
    case True
    with unit r n erased spec show ?thesis by (auto simp: n_def)
  next
    case no: False
    with unit r model n spec erased show ?thesis by (auto simp: add_model n_def split: if_splits)
  qed
qed

lemma model_at_cong:
  assumes "model_at s t" "tk_modelDecodedBytes u = tk_modelDecodedBytes t" "tk_modelHighSurrogate u = tk_modelHighSurrogate t"
    "tk_modelUTF8Pending u = tk_modelUTF8Pending t" "tk_unicodeDigits u = tk_unicodeDigits t" "tk_escaped u = tk_escaped t"
    "tk_unicodeValue u = tk_unicodeValue t"
  shows "model_at s u"
  using assms(1) unfolding model_at_def part_at_def assms(2-7) .

lemma model_at_keepRaw [simp]: "model_at s t \<Longrightarrow> model_at s (keepRaw c t)"
  by (erule model_at_cong) simp_all

lemma model_digit:
  assumes model: "vc_isModel (tk_ctx t)" and at: "model_at s t" and digits: "tk_unicodeDigits t > 0"
    and hex: "isHexDigit c" and r: "consume_unicode_digit c t = Inr t'"
  shows "model_at (s @ [c]) t'"
proof -
  from at digits obtain us h where s: "s = units_text us @ backslash # CHR ''u'' # h" "list_all unit_ok us"
    and h: "length h + tk_unicodeDigits t = 4" "list_all isHexDigit h" "tk_unicodeValue t = hex_value h"
    and clean: "tk_modelUTF8Pending t = []" "\<not> tk_escaped t"
    and cnt: "counted us (tk_modelDecodedBytes t) (tk_modelHighSurrogate t) []" "tk_modelDecodedBytes t \<le> MaxBytes"
    by (auto simp: model_at_def part_at_def)
  have v: "hex_value h * 16 mod 65536 + hexDigitValue c = hex_value (h @ [c])" using h digits by (intro hex_step) auto
  define u where "u = t\<lparr>tk_unicodeValue := hex_value (h @ [c]), tk_unicodeDigits := tk_unicodeDigits t - 1\<rparr>"
  have step: "consume_unicode_digit c t = (if tk_unicodeDigits t = 1 then consumeModelUnicodeUnit (hex_value (h @ [c])) u else Inr u)"
    using digits h(3) v by (auto simp: consume_unicode_digit_def u_def Let_def)
  show ?thesis
  proof (cases "tk_unicodeDigits t = 1")
    case True
    with step r have r': "consumeModelUnicodeUnit (hex_value (h @ [c])) u = Inr t'" by simp
    have hi: "tk_modelHighSurrogate u = 0 \<or> high_half (tk_modelHighSurrogate u)" using cnt by (simp add: u_def counted_def)
    from unit_model [OF _ _ hi r'] model cnt(2) have t': "erase t' = erase u" "tk_modelUTF8Pending t' = []" "tk_modelDecodedBytes t' \<le> MaxBytes"
        "tk_modelHighSurrogate t' = 0 \<or> high_half (tk_modelHighSurrogate t')"
        "\<And>rest. tk_modelDecodedBytes t + units_len (tk_modelHighSurrogate t) (Uni (h @ [c]) # rest) =
           tk_modelDecodedBytes t' + units_len (tk_modelHighSurrogate t') rest"
      using clean by (auto simp: u_def)
    have "tk_unicodeDigits t' = 0" "\<not> tk_escaped t'" using eraseD [OF t'(1)] True clean by (simp_all add: u_def)
    moreover have "counted (us @ [Uni (h @ [c])]) (tk_modelDecodedBytes t') (tk_modelHighSurrogate t') []"
      using counted_snoc [OF cnt(1) t'(5) t'(4)] .
    ultimately show ?thesis using s h hex True t'
      by (intro model_atI [of _ "us @ [Uni (h @ [c])]" "[]"]) (auto simp: part_at_def)
  next
    case False
    with step r have t': "t' = u" by simp
    have "part_at (backslash # CHR ''u'' # h @ [c]) u" using False digits h hex clean by (auto simp: part_at_def u_def)
    then show ?thesis using s cnt clean by (intro model_atI [of _ us "backslash # CHR ''u'' # h @ [c]"]) (auto simp: t' u_def)
  qed
qed

lemma model_escape:
  assumes model: "vc_isModel (tk_ctx t)" and at: "model_at s t" and digits: "tk_unicodeDigits t = 0" "tk_escaped t"
    and r: "consume_escape c t = Inr t'"
  shows "model_at (s @ [c]) t'"
proof -
  from at digits obtain us where s: "s = units_text us @ [backslash]" "list_all unit_ok us" and clean: "tk_modelUTF8Pending t = []"
    and cnt: "counted us (tk_modelDecodedBytes t) (tk_modelHighSurrogate t) []" "tk_modelDecodedBytes t \<le> MaxBytes"
    by (auto simp: model_at_def part_at_def)
  show ?thesis
  proof (cases "simple_escape c = None")
    case True
    with r have "c = CHR ''u''" "t' = t\<lparr>tk_escaped := False, tk_unicodeDigits := 4, tk_unicodeValue := 0\<rparr>"
      by (auto simp: consume_escape_def Let_def split: if_splits)
    then show ?thesis using s cnt clean
      by (intro model_atI [of _ us "backslash # CHR ''u'' # []"]) (auto simp: part_at_def hex_value_def)
  next
    case False
    define n where "n = tk_modelDecodedBytes t + pending_len (tk_modelHighSurrogate t)"
    from False r model cnt(2) flush_model [of "t\<lparr>tk_escaped := False\<rparr>"] add_model [of "flushed (t\<lparr>tk_escaped := False\<rparr>)" 1]
    have t': "n + 1 \<le> MaxBytes" "t' = (flushed (t\<lparr>tk_escaped := False\<rparr>))\<lparr>tk_modelDecodedBytes := n + 1\<rparr>"
      by (auto simp: consume_escape_def n_def Let_def split: if_splits)
    have "counted (us @ [Esc c]) (n + 1) 0 []" by (rule counted_snoc [OF cnt(1)]) (simp_all add: n_def)
    then show ?thesis using s False t' clean digits
      by (intro model_atI [of _ "us @ [Esc c]" "[]"]) (auto simp: part_at_def)
  qed
qed

lemma model_backslash:
  assumes "model_at s t" "tk_unicodeDigits t = 0" "\<not> tk_escaped t" "tk_modelUTF8Pending t = []"
  shows "model_at (s @ [backslash]) (t\<lparr>tk_escaped := True\<rparr>)"
proof -
  from assms obtain us where "s = units_text us" "list_all unit_ok us"
    and "counted us (tk_modelDecodedBytes t) (tk_modelHighSurrogate t) []" "tk_modelDecodedBytes t \<le> MaxBytes"
    by (auto simp: model_at_def part_at_def)
  with assms show ?thesis by (intro model_atI [of _ us "[backslash]"]) (auto simp: part_at_def)
qed

lemma model_next:
  assumes model: "vc_isModel (tk_ctx t)" and at: "model_at s t" and c: "\<not> closing c t" and r: "string_next c t = Inr t'"
  shows "model_at (s @ [c]) t'"
proof -
  consider "tk_unicodeDigits t > 0" | "tk_unicodeDigits t = 0" "tk_escaped t" | "tk_unicodeDigits t = 0" "\<not> tk_escaped t" by auto
  then show ?thesis
  proof cases
    case 1
    with r obtain u where "isHexDigit c" "consume_unicode_digit c t = Inr u" "t' = keepRaw c u"
      by (auto simp: string_next_def split: if_splits sum.splits)
    with model_digit [OF model at 1] show ?thesis by simp
  next
    case 2
    with r obtain u where "consume_escape c t = Inr u" "t' = keepRaw c u" by (auto simp: string_next_def split: sum.splits)
    with model_escape [OF model at 2] show ?thesis by simp
  next
    case 3
    show ?thesis
    proof (cases "c = backslash")
      case True
      with 3 r model have "tk_modelUTF8Pending t = []" "t' = keepRaw c (t\<lparr>tk_escaped := True\<rparr>)"
        by (auto simp: string_next_def finishModelRawRune_def split: if_splits)
      with model_backslash [OF at 3] True show ?thesis by simp
    next
      case False
      with 3 r obtain u where u: "consumeModelRawUTF8Byte c t = Inr u" "0x20 \<le> byte c" "t' = keepRaw c u"
        by (auto simp: string_next_def split: if_splits sum.splits)
      have "plain_char c" using u False c 3 by (auto simp: plain_char_def closing_def)
      from model_raw [OF model at 3 this u(1)] u(3) show ?thesis by simp
    qed
  qed
qed

lemma model_run:
  assumes "string_inv t0 s t" "vc_isModel (tk_ctx t)" "model_at s t" "string_run rest t = Some t'"
  shows "model_at (s @ rest) t'"
  using assms
proof (induction rest arbitrary: s t)
  case (Cons c rest)
  then obtain u where u: "\<not> closing c t" "string_next c t = Inr u" "string_run rest u = Some t'" by (auto split: if_splits sum.splits)
  from string_next_inv [OF Cons.prems(1) u(2,1)] have inv: "string_inv t0 (s @ [c]) u" .
  then have "vc_isModel (tk_ctx u)" using Cons.prems(1,2) by (simp add: string_inv_def same_token_def)
  from Cons.IH [OF inv this model_next [OF Cons.prems(2,3) u(1,2)] u(3)] show ?case by simp
qed simp

section \<open>Complete models\<close>

definition good_body :: "string \<Rightarrow> bool" where
  "good_body body \<longleftrightarrow> string_body body \<and> ValidString body \<and> (\<exists>m. unquote_body body = Some m \<and> length m \<le> MaxBytes)"

definition model_start :: "scanToken \<Rightarrow> bool" where
  "model_start t \<longleftrightarrow> vc_isModel (tk_ctx t) \<and> string_inv t [] t \<and> tk_modelUTF8Pending t = [] \<and> tk_modelHighSurrogate t = 0 \<and>
     tk_modelDecodedBytes t = 0 \<and> tk_unicodeDigits t = 0 \<and> \<not> tk_escaped t"

lemma model_start_at: "model_start t \<Longrightarrow> model_at [] t"
  by (intro model_atI [of _ "[]" "[]"]) (auto simp: model_start_def part_at_def counted_def)

lemma finish_clean:
  assumes "vc_isModel (tk_ctx t)" "tk_modelDecodedBytes t \<le> MaxBytes"
  shows "finishModelDecodedString t =
    (if tk_modelUTF8Pending t \<noteq> [] then Inl (ScanSyntax ''invalid UTF-8 in model'')
     else if tk_modelDecodedBytes t + pending_len (tk_modelHighSurrogate t) \<le> MaxBytes then Inr (flushed t) else Inl ErrModelTooLong)"
  using assms by (simp add: finishModelDecodedString_def finishModelRawRune_def flush_model)

lemma model_passes_good:
  assumes start: "model_start t0" and run: "string_run body t0 = Some t" and body: "string_body body"
    and fin: "finishModelDecodedString t = Inr t'"
  shows "good_body body"
proof -
  have inv: "string_inv t0 body t" using string_run_inv [of t0 "[]" t0 body t] start run by (simp add: model_start_def)
  have at: "model_at body t" using model_run [of t0 "[]" t0 body t] start run model_start_at [OF start] by (simp add: model_start_def)
  have model: "vc_isModel (tk_ctx t)" using inv start by (simp add: string_inv_def same_token_def model_start_def)
  have clean: "tk_unicodeDigits t = 0" "\<not> tk_escaped t" using string_inv_body [OF inv] body by simp_all
  from at clean obtain us where us: "body = units_text us @ tk_modelUTF8Pending t" "list_all unit_ok us"
    and cnt: "counted us (tk_modelDecodedBytes t) (tk_modelHighSurrogate t) (tk_modelUTF8Pending t)" "tk_modelDecodedBytes t \<le> MaxBytes"
    by (auto simp: model_at_def part_at_def)
  from fin finish_clean [OF model cnt(2)] have p: "tk_modelUTF8Pending t = []"
    and len: "tk_modelDecodedBytes t + pending_len (tk_modelHighSurrogate t) \<le> MaxBytes" by (auto split: if_splits)
  have "units_len 0 us = tk_modelDecodedBytes t + pending_len (tk_modelHighSurrogate t)"
    using cnt(1) p spec [of "\<lambda>rest. units_len 0 (us @ rest) = tk_modelDecodedBytes t + units_len (tk_modelHighSurrogate t) rest" "[]"]
    by (simp add: counted_def)
  with units_valid [OF us(2)] units_unquote [OF us(2)] len us(1) p show ?thesis by (auto simp: good_body_def)
qed

text \<open>A good body passes: the count never exceeds the length of the decoded text.\<close>

definition clean_model :: "scanToken \<Rightarrow> bool" where
  "clean_model t \<longleftrightarrow> vc_isModel (tk_ctx t) \<and> tk_unicodeDigits t = 0 \<and> \<not> tk_escaped t \<and> tk_modelUTF8Pending t = [] \<and>
     tk_modelDecodedBytes t \<le> MaxBytes \<and> (tk_modelHighSurrogate t = 0 \<or> high_half (tk_modelHighSurrogate t))"

definition moves_to :: "scanToken \<Rightarrow> sunit \<Rightarrow> scanToken \<Rightarrow> bool" where
  "moves_to t u t' \<longleftrightarrow> clean_model t' \<and>
     (\<forall>rest. tk_modelDecodedBytes t + units_len (tk_modelHighSurrogate t) (u # rest) = tk_modelDecodedBytes t' + units_len (tk_modelHighSurrogate t') rest)"

lemma clean_model_keepRaw [simp]: "clean_model (keepRaw c t) = clean_model t"
  by (simp add: clean_model_def)

lemma moves_to_keepRaw [simp]: "moves_to t u (keepRaw c t') = moves_to t u t'" "moves_to (keepRaw c t) u t' = moves_to t u t'"
  by (simp_all add: moves_to_def)

lemma run_raw:
  assumes "is_rune (p @ r)" "r \<noteq> []" "list_all plain_char r" "vc_isModel (tk_ctx t)" "tk_unicodeDigits t = 0" "\<not> tk_escaped t"
    "tk_modelUTF8Pending t = p" "n = tk_modelDecodedBytes t + pending_len (tk_modelHighSurrogate t)" "n + length (p @ r) \<le> MaxBytes"
  shows "\<exists>t'. string_run r t = Some t' \<and> clean_model t' \<and> tk_modelDecodedBytes t' = n + length (p @ r) \<and> tk_modelHighSurrogate t' = 0"
  using assms
proof (induction r arbitrary: p t)
  case (Cons c r)
  have le: "tk_modelDecodedBytes t \<le> MaxBytes" "n \<le> MaxBytes" using Cons.prems(8,9) by simp_all
  have c: "plain_char c" using Cons.prems(3) by simp
  have short: "length p < UTFMax" using rune_shape(2) [OF Cons.prems(1)] by simp
  have nx: "string_next c t = (case consumeModelRawUTF8Byte c t of Inl e \<Rightarrow> Inl e | Inr t \<Rightarrow> Inr (keepRaw c t))" "\<not> closing c t"
    using Cons.prems(5,6) c by (auto simp: string_next_def closing_def plain_char_def)
  note raw = raw_byte_model [OF Cons.prems(4) le(1), of c]
  show ?case
  proof (cases "r = []")
    case True
    then have rune: "is_rune (p @ [c])" using Cons.prems(1) by simp
    define w where "w = rune_width (p @ [c])"
    have w: "w = length p + 1" using rune_width_rune [OF rune, of "[]"] by (simp add: w_def)
    have "consumeModelRawUTF8Byte c t = addModelDecodedBytes w ((flushed t)\<lparr>tk_modelUTF8Pending := []\<rparr>)"
      using raw Cons.prems(7,8) le short rune_shape(5) [OF rune] full_rune [of "p @ [c]"] rune by (auto simp: Let_def w_def)
    moreover have "n + w \<le> MaxBytes" using Cons.prems(9) True w by simp
    ultimately have "consumeModelRawUTF8Byte c t = Inr ((flushed t)\<lparr>tk_modelUTF8Pending := [], tk_modelDecodedBytes := n + w\<rparr>)"
      using add_model [of "(flushed t)\<lparr>tk_modelUTF8Pending := []\<rparr>" w] Cons.prems(4,8) by simp
    with nx True w Cons.prems(4-6,9) show ?thesis by (auto simp: clean_model_def)
  next
    case False
    have "\<not> FullRuneInString (p @ [c])"
      using partial_rune_not_full [OF Cons.prems(1), of "length p + 1"] False by (cases r) auto
    then have "consumeModelRawUTF8Byte c t = Inr ((flushed t)\<lparr>tk_modelUTF8Pending := p @ [c]\<rparr>)"
      using raw Cons.prems(7,8) le short by (auto simp: Let_def)
    moreover define u where "u = keepRaw c ((flushed t)\<lparr>tk_modelUTF8Pending := p @ [c]\<rparr>)"
    ultimately have run: "string_run (c # r) t = string_run r u" using nx by simp
    have "\<exists>t'. string_run r u = Some t' \<and> clean_model t' \<and> tk_modelDecodedBytes t' = n + length ((p @ [c]) @ r) \<and> tk_modelHighSurrogate t' = 0"
      by (rule Cons.IH) (use Cons.prems False in \<open>auto simp: u_def pending_len_def\<close>)
    with run show ?thesis by simp
  qed
qed simp

lemma raw_plain: "unit_ok (Raw r) \<Longrightarrow> list_all plain_char r"
proof -
  assume ok: "unit_ok (Raw r)"
  show ?thesis
  proof (cases "length r = 1")
    case True
    with ok show ?thesis by (auto simp: length_Suc_conv plain_char_def)
  next
    case False
    with ok have "list_all (\<lambda>c. 128 \<le> byte c) r" by (intro rune_high) simp_all
    then show ?thesis using backslash_quote by (auto simp: list_all_iff plain_char_def)
  qed
qed

lemma unit_moves:
  assumes "clean_model t0" and t: "tk_modelDecodedBytes t = tk_modelDecodedBytes t0" "tk_modelHighSurrogate t = tk_modelHighSurrogate t0"
    "tk_modelUTF8Pending t = []" "vc_isModel (tk_ctx t)" "tk_unicodeDigits t = 0" "\<not> tk_escaped t"
    and room: "tk_modelDecodedBytes t + units_len (tk_modelHighSurrogate t) (Uni h # us) \<le> MaxBytes"
  shows "\<exists>t'. consumeModelUnicodeUnit (hex_value h) t = Inr t' \<and> moves_to t0 (Uni h) t'"
proof -
  have le: "tk_modelDecodedBytes t \<le> MaxBytes" and hi: "tk_modelHighSurrogate t = 0 \<or> high_half (tk_modelHighSurrogate t)"
    using assms(1) t by (auto simp: clean_model_def)
  have "\<exists>t'. consumeModelUnicodeUnit (hex_value h) t = Inr t'"
  proof (cases "tk_modelHighSurrogate t \<noteq> 0 \<and> low_half (hex_value h)")
    case True
    then have "utf16_DecodeRune (tk_modelHighSurrogate t) (hex_value h) \<noteq> RuneError"
      using hi by (auto simp: utf16_DecodeRune_def RuneError_def high_half_def low_half_def)
    then have "RuneLen (utf16_DecodeRune (tk_modelHighSurrogate t) (hex_value h)) = 4" by (rule pair_length)
    with True t room show ?thesis by (auto simp: consumeModelUnicodeUnit_def low_half_def add_model Let_def)
  next
    case False
    then have no_pair: "\<not> (tk_modelHighSurrogate t \<noteq> 0 \<and> 0xDC00 \<le> hex_value h \<and> hex_value h \<le> 0xDFFF)" by (auto simp: low_half_def)
    have "units_len (tk_modelHighSurrogate t) (Uni h # us) = pending_len (tk_modelHighSurrogate t) +
        (if high_half (hex_value h) then units_len (hex_value h) us else (if low_half (hex_value h) then 3 else RuneLen (hex_value h)) + units_len 0 us)"
      using False by (auto simp: Let_def)
    with room have sum: "tk_modelDecodedBytes t + pending_len (tk_modelHighSurrogate t) + (if high_half (hex_value h) then 0
        else if low_half (hex_value h) then 3 else RuneLen (hex_value h)) \<le> MaxBytes" by (auto split: if_splits)
    then have "(if tk_modelHighSurrogate t \<noteq> 0 then flushModelHighSurrogate t else Inr t) = Inr (flushed t)"
      using t(4) le by (cases "tk_modelHighSurrogate t = 0") (auto simp: flush_model flushed_none pending_len_def split: if_splits)
    with sum t(4) show ?thesis unfolding consumeModelUnicodeUnit_def if_not_P [OF no_pair]
      by (auto simp: add_model high_half_def low_half_def RuneLen_def RuneError_def split: if_splits)
  qed
  then obtain t' where t': "consumeModelUnicodeUnit (hex_value h) t = Inr t'" ..
  from unit_model [OF t(4) le hi t'] have m: "erase t' = erase t" "tk_modelUTF8Pending t' = []" "tk_modelDecodedBytes t' \<le> MaxBytes"
      "tk_modelHighSurrogate t' = 0 \<or> high_half (tk_modelHighSurrogate t')"
      "\<forall>rest. tk_modelDecodedBytes t + units_len (tk_modelHighSurrogate t) (Uni h # rest) =
        tk_modelDecodedBytes t' + units_len (tk_modelHighSurrogate t') rest" using t(3) by auto
  with t' t eraseD [OF m(1)] show ?thesis by (auto simp: moves_to_def clean_model_def)
qed

lemma run_digits:
  assumes "list_all isHexDigit r" "length r = tk_unicodeDigits t" "r \<noteq> []" "length h + length r = 4" "list_all isHexDigit h"
    "tk_unicodeValue t = hex_value h" "clean_model t0" "tk_modelDecodedBytes t = tk_modelDecodedBytes t0"
    "tk_modelHighSurrogate t = tk_modelHighSurrogate t0" "tk_modelUTF8Pending t = []" "vc_isModel (tk_ctx t)" "\<not> tk_escaped t"
    "tk_modelDecodedBytes t + units_len (tk_modelHighSurrogate t) (Uni (h @ r) # us) \<le> MaxBytes"
  shows "\<exists>t'. string_run r t = Some t' \<and> moves_to t0 (Uni (h @ r)) t'"
  using assms
proof (induction r arbitrary: h t)
  case (Cons c r)
  have v: "hex_value h * 16 mod 65536 + hexDigitValue c = hex_value (h @ [c])" using Cons.prems(4,5) by (intro hex_step) auto
  define u where "u = t\<lparr>tk_unicodeValue := hex_value (h @ [c]), tk_unicodeDigits := tk_unicodeDigits t - 1\<rparr>"
  have pos: "tk_unicodeDigits t > 0" using Cons.prems(2) by simp
  have nx: "string_next c t = (case (if tk_unicodeDigits t = 1 then consumeModelUnicodeUnit (hex_value (h @ [c])) u else Inr u) of
      Inl e \<Rightarrow> Inl e | Inr t \<Rightarrow> Inr (keepRaw c t))" "\<not> closing c t"
    using pos Cons.prems(1,6) v by (auto simp: string_next_def closing_def consume_unicode_digit_def u_def Let_def)
  show ?case
  proof (cases "r = []")
    case True
    then have one: "tk_unicodeDigits t = 1" using Cons.prems(2) by simp
    have "\<exists>t'. consumeModelUnicodeUnit (hex_value (h @ [c])) u = Inr t' \<and> moves_to t0 (Uni (h @ [c])) t'"
      by (rule unit_moves [where us = us]) (use Cons.prems True one in \<open>simp_all add: u_def\<close>)
    with nx True one show ?thesis by auto
  next
    case False
    then have "tk_unicodeDigits t \<noteq> 1" using Cons.prems(2) by (cases r) auto
    with nx have run: "string_run (c # r) t = string_run r (keepRaw c u)" by simp
    have "\<exists>t'. string_run r (keepRaw c u) = Some t' \<and> moves_to t0 (Uni ((h @ [c]) @ r)) t'"
      by (rule Cons.IH) (use Cons.prems False in \<open>simp_all add: u_def\<close>)
    with run show ?thesis by simp
  qed
qed simp

lemma run_unit:
  assumes t: "clean_model t" and u: "unit_ok u" and room: "tk_modelDecodedBytes t + units_len (tk_modelHighSurrogate t) (u # us) \<le> MaxBytes"
  shows "\<exists>t'. string_run (unit_text u) t = Some t' \<and> moves_to t u t'"
proof -
  note c = t [unfolded clean_model_def]
  have open_escape: "string_next backslash t = Inr (keepRaw backslash (t\<lparr>tk_escaped := True\<rparr>))" "\<not> closing backslash t"
    using c backslash_quote(1) by (auto simp: string_next_def closing_def finishModelRawRune_def)
  show ?thesis
  proof (cases u)
    case (Raw r)
    then have r: "is_rune ([] @ r)" "r \<noteq> []" "list_all plain_char r" using u rune_hd raw_plain by auto
    have "tk_modelDecodedBytes t + pending_len (tk_modelHighSurrogate t) + length ([] @ r) \<le> MaxBytes" using room Raw by simp
    from run_raw [OF r _ _ _ _ refl this] c obtain t' where
      "string_run r t = Some t'" "clean_model t'" "tk_modelHighSurrogate t' = 0"
      "tk_modelDecodedBytes t' = tk_modelDecodedBytes t + pending_len (tk_modelHighSurrogate t) + length r" by fastforce
    with Raw show ?thesis by (auto simp: moves_to_def)
  next
    case (Esc e)
    define v where "v = keepRaw backslash (t\<lparr>tk_escaped := True\<rparr>)"
    have e: "simple_escape e \<noteq> None" using u Esc by simp
    have room': "tk_modelDecodedBytes t + pending_len (tk_modelHighSurrogate t) + 1 \<le> MaxBytes" using room Esc by simp
    have "flushModelHighSurrogate (v\<lparr>tk_escaped := False\<rparr>) = Inr (flushed (v\<lparr>tk_escaped := False\<rparr>))"
      using c room' by (simp add: flush_model v_def)
    then have "consume_escape e v = Inr ((flushed (v\<lparr>tk_escaped := False\<rparr>))
        \<lparr>tk_modelDecodedBytes := tk_modelDecodedBytes t + pending_len (tk_modelHighSurrogate t) + 1\<rparr>)"
      using e c room' by (simp add: consume_escape_def add_model v_def Let_def)
    moreover have "tk_unicodeDigits v = 0" "tk_escaped v" using c by (simp_all add: v_def)
    ultimately have "string_next e v = Inr (keepRaw e ((flushed (v\<lparr>tk_escaped := False\<rparr>))
        \<lparr>tk_modelDecodedBytes := tk_modelDecodedBytes t + pending_len (tk_modelHighSurrogate t) + 1\<rparr>))" "\<not> closing e v"
      by (simp_all add: string_next_def closing_def)
    then have "\<exists>t'. string_run [e] v = Some t' \<and> moves_to t u t'"
      using c room' Esc by (auto simp: moves_to_def clean_model_def v_def)
    with open_escape Esc show ?thesis by (simp add: v_def)
  next
    case (Uni h)
    define v where "v = keepRaw backslash (t\<lparr>tk_escaped := True\<rparr>)"
    define w where "w = keepRaw CHR ''u'' (v\<lparr>tk_escaped := False, tk_unicodeDigits := 4, tk_unicodeValue := 0\<rparr>)"
    have "tk_unicodeDigits v = 0" "tk_escaped v" using c by (simp_all add: v_def)
    then have "string_next CHR ''u'' v = Inr w" "\<not> closing CHR ''u'' v"
      using backslash_quote(4) by (simp_all add: string_next_def closing_def consume_escape_def w_def Let_def)
    with open_escape have run: "string_run (unit_text u) t = string_run h w" using Uni by (simp add: v_def)
    have "\<exists>t'. string_run h w = Some t' \<and> moves_to t (Uni ([] @ h)) t'"
      by (rule run_digits [where us = us]) (use u Uni c t room in \<open>auto simp: w_def v_def hex_value_def\<close>)
    with run Uni show ?thesis by simp
  qed
qed

lemma run_units:
  assumes "clean_model t" "list_all unit_ok us" "tk_modelDecodedBytes t + units_len (tk_modelHighSurrogate t) us \<le> MaxBytes"
  shows "\<exists>t'. string_run (units_text us) t = Some t' \<and> clean_model t' \<and>
    tk_modelDecodedBytes t' + pending_len (tk_modelHighSurrogate t') \<le> MaxBytes"
  using assms
proof (induction us arbitrary: t)
  case (Cons u us)
  from run_unit [OF Cons.prems(1), of u us] Cons.prems obtain v where v: "string_run (unit_text u) t = Some v" "moves_to t u v" by auto
  have "\<exists>t'. string_run (units_text us) v = Some t' \<and> clean_model t' \<and>
    tk_modelDecodedBytes t' + pending_len (tk_modelHighSurrogate t') \<le> MaxBytes"
    by (rule Cons.IH) (use Cons.prems v in \<open>auto simp: moves_to_def\<close>)
  with v(1) show ?case by (simp add: string_run_append)
qed simp

lemma good_passes_model:
  assumes "model_start t0" "good_body body"
  shows "\<exists>t t'. string_run body t0 = Some t \<and> finishModelDecodedString t = Inr t'"
proof -
  from assms(2) string_units obtain us where us: "list_all unit_ok us" "body = units_text us" by (auto simp: good_body_def)
  have "units_len 0 us \<le> MaxBytes" using units_unquote [OF us(1)] assms(2) us(2) by (auto simp: good_body_def)
  with run_units [of t0 us] us assms(1) obtain t where
    t: "string_run body t0 = Some t" "clean_model t" "tk_modelDecodedBytes t + pending_len (tk_modelHighSurrogate t) \<le> MaxBytes"
    by (auto simp: model_start_def clean_model_def)
  then have "finishModelDecodedString t = Inr (flushed t)" by (simp add: finish_clean clean_model_def)
  with t(1) show ?thesis by blast
qed

end
