(* ===== verification/Body_Prefix.thy ===== *)
theory Body_Prefix
  imports Body_Model
begin

text \<open>
  Reading the start of a JSON string of a body (\<open>internal/bodyfile/prefix.go\<close>): the string is decoded
  character by character to its end, of which at most \<open>max\<close> decoded bytes are kept. The body is the
  list of its bytes and the files are taken to work. Unlike \<open>json.Unmarshal\<close> this reader refuses
  what is not UTF-8 and surrogates without a partner; on all other strings it is proved to return
  the longest start of the decoded string that fits and ends with a whole character.
\<close>

section \<open>The code\<close>

datatype prefix_error = ErrNegativePrefixLimit | ErrInvalidJSONStringPrefix | PrefixInvalid string | PrefixEOF

fun readHexUnit_loop :: "nat \<Rightarrow> nat \<Rightarrow> string \<Rightarrow> prefix_error + nat \<times> string" where
  "readHexUnit_loop 0 v reader = Inr (v, reader)"
| "readHexUnit_loop (Suc n) v [] = Inl PrefixEOF"
| "readHexUnit_loop (Suc n) v (c # reader) =
     (if \<not> isHexDigit c then Inl (PrefixInvalid ''invalid unicode escape digit'')
      else readHexUnit_loop n (v * 16 mod 65536 + hexDigitValue c) reader)"

definition readHexUnit :: "string \<Rightarrow> prefix_error + nat \<times> string" where
  "readHexUnit reader = readHexUnit_loop 4 0 reader"

definition utf16Rune :: "nat \<Rightarrow> nat \<Rightarrow> nat" where
  "utf16Rune high low = (high - 0xD800) * 1024 + (low - 0xDC00) + 0x10000"

definition lead_width :: "char \<Rightarrow> nat" where
  "lead_width c = (if byte c div 32 = 6 then 2 else if byte c div 16 = 14 then 3 else if byte c div 8 = 30 then 4 else 0)"

definition readUTF8Rune :: "char \<Rightarrow> string \<Rightarrow> prefix_error + nat \<times> string" where
  "readUTF8Rune c reader =
     (let width = lead_width c in
      if width = 0 then Inl (PrefixInvalid ''invalid UTF-8 in JSON string'')
      else if length reader < width - 1 then Inl PrefixEOF
      else
        let encoded = c # take (width - 1) reader in
        if (\<not> is_rune (take (rune_width encoded) encoded) \<and> rune_width encoded = 1) \<or> rune_width encoded \<noteq> width
        then Inl (PrefixInvalid ''invalid UTF-8 in JSON string'')
        else Inr (decode_rune encoded, drop (width - 1) reader))"

definition readSurrogate :: "nat \<Rightarrow> string \<Rightarrow> prefix_error + nat \<times> string" where
  "readSurrogate unit reader =
     (case reader of
        b # u # reader \<Rightarrow>
          if b \<noteq> backslash \<or> u \<noteq> CHR ''u'' then Inl (PrefixInvalid ''unpaired high surrogate'')
          else (case readHexUnit reader of
             Inl e \<Rightarrow> Inl (PrefixInvalid ''invalid JSON surrogate pair'')
           | Inr (low, reader) \<Rightarrow>
               if low < 0xDC00 \<or> low > 0xDFFF then Inl (PrefixInvalid ''invalid JSON surrogate pair'')
               else Inr (utf16Rune unit low, reader))
      | _ \<Rightarrow> Inl (PrefixInvalid ''unpaired high surrogate''))"

definition readUnicode :: "string \<Rightarrow> prefix_error + nat \<times> string" where
  "readUnicode reader =
     (case readHexUnit reader of
        Inl e \<Rightarrow> Inl e
      | Inr (unit, reader) \<Rightarrow>
          if 0xD800 \<le> unit \<and> unit \<le> 0xDBFF then readSurrogate unit reader
          else if 0xDC00 \<le> unit \<and> unit \<le> 0xDFFF then Inl (PrefixInvalid ''unpaired low surrogate'')
          else Inr (unit, reader))"

definition readEscape :: "string \<Rightarrow> prefix_error + nat \<times> string" where
  "readEscape reader =
     (case reader of
        [] \<Rightarrow> Inl PrefixEOF
      | escape # reader \<Rightarrow>
          (case simple_escape escape of
             Some x \<Rightarrow> Inr (byte x, reader)
           | None \<Rightarrow> if escape = CHR ''u'' then readUnicode reader else Inl (PrefixInvalid ''invalid JSON string escape'')))"

text \<open>One round of the loop: the next character.\<close>

definition readRune :: "char \<Rightarrow> string \<Rightarrow> prefix_error + nat \<times> string" where
  "readRune c reader =
     (if c = backslash then readEscape reader
      else if byte c < 0x20 then Inl ErrInvalidJSONStringPrefix
      else if byte c < 128 then Inr (byte c, reader)
      else readUTF8Rune c reader)"

lemma readHexUnit_loop_shrinks: "readHexUnit_loop n v reader = Inr (u, rest) \<Longrightarrow> length rest \<le> length reader"
  by (induction n v reader rule: readHexUnit_loop.induct) (auto split: if_splits)

lemma readRune_shrinks:
  assumes "readRune c reader = Inr (r, rest)"
  shows "length rest \<le> length reader"
proof -
  have hex: "readHexUnit a = Inr (u, b) \<Longrightarrow> length b \<le> length a" for a u b
    unfolding readHexUnit_def by (rule readHexUnit_loop_shrinks)
  have sur: "readSurrogate u a = Inr (v, b) \<Longrightarrow> length b \<le> length a" for u a v b
    by (auto simp: readSurrogate_def split: list.splits if_splits sum.splits dest: hex)
  have uni: "readUnicode a = Inr (v, b) \<Longrightarrow> length b \<le> length a" for a v b
    by (fastforce simp: readUnicode_def split: if_splits sum.splits dest: hex sur)
  have esc: "readEscape a = Inr (v, b) \<Longrightarrow> length b \<le> length a" for a v b
    by (auto simp: readEscape_def split: list.splits option.splits if_splits dest: uni)
  show ?thesis using assms
    by (auto simp: readRune_def readUTF8Rune_def Let_def split: if_splits dest: esc)
qed

function prefix_loop :: "int \<Rightarrow> int \<Rightarrow> string \<Rightarrow> string \<Rightarrow> prefix_error + string \<times> int" where
  "prefix_loop limit decodedBytes kept [] = Inr (kept, decodedBytes)"
| "prefix_loop limit decodedBytes kept (c # reader) =
     (case readRune c reader of
        Inl e \<Rightarrow> Inl e
      | Inr (r, reader) \<Rightarrow>
          if surrogate r \<or> r > 0x10FFFF then Inl (PrefixInvalid ''invalid decoded JSON rune'')
          else if decodedBytes > maxInt - int (RuneLen r) then Inl (PrefixInvalid ''decoded JSON string is too large'')
          else
            let decodedBytes = decodedBytes + int (RuneLen r) in
            prefix_loop limit decodedBytes (if decodedBytes \<le> limit then kept @ EncodeRune r else kept) reader)"
  by pat_completeness auto
termination
  by (relation "measure (\<lambda>(limit, d, kept, reader). length reader)") (auto simp: less_Suc_eq_le dest: readRune_shrinks)

definition ReadJSONStringPrefix :: "string \<Rightarrow> Field \<Rightarrow> int \<Rightarrow> prefix_error + string \<times> bool" where
  "ReadJSONStringPrefix body field limit =
     (let start = br_Start (fd_StringRange field); finish = br_End (fd_StringRange field) in
      if limit < 0 then Inl ErrNegativePrefixLimit
      else if fd_Type field \<noteq> JSONString \<or> finish < start + 2 \<or> finish > length body then Inl ErrInvalidJSONStringPrefix
      else if body ! start \<noteq> quote then Inl ErrInvalidJSONStringPrefix
      else case prefix_loop limit 0 [] (take (finish - start - 2) (drop (start + 1) body)) of
        Inl e \<Rightarrow> Inl e
      | Inr (kept, decodedBytes) \<Rightarrow>
          if body ! (finish - 1) \<noteq> quote then Inl ErrInvalidJSONStringPrefix
          else Inr (kept, decodedBytes \<le> limit))"

section \<open>The characters of a string\<close>

text \<open>The characters that the units of a string stand for, if every surrogate has its partner.\<close>

fun strict_runes :: "sunit list \<Rightarrow> nat list option" where
  "strict_runes [] = Some []"
| "strict_runes (Raw r # us) = map_option (Cons (rune_value r)) (strict_runes us)"
| "strict_runes (Esc e # us) =
     (case simple_escape e of None \<Rightarrow> None | Some x \<Rightarrow> map_option (Cons (byte x)) (strict_runes us))"
| "strict_runes (Uni h # us) =
     (if high_half (hex_value h) then
        (case us of
           Uni h' # us \<Rightarrow> if low_half (hex_value h') then map_option (Cons (utf16Rune (hex_value h) (hex_value h'))) (strict_runes us) else None
         | _ \<Rightarrow> None)
      else if low_half (hex_value h) then None
      else map_option (Cons (hex_value h)) (strict_runes us))"

definition utf8_text :: "nat list \<Rightarrow> string" where
  "utf8_text rs = concat (map EncodeRune rs)"

text \<open>The first characters that fit.\<close>

fun fitting :: "int \<Rightarrow> nat list \<Rightarrow> string" where
  "fitting room [] = []"
| "fitting room (r # rs) =
     (if int (length (EncodeRune r)) \<le> room then EncodeRune r @ fitting (room - int (length (EncodeRune r))) rs else [])"

section \<open>Hexadecimal units\<close>

lemma readHex_loop_ok:
  assumes "list_all isHexDigit h"
  shows "readHexUnit_loop (length h) (hex_value g mod 65536) (h @ rest) = Inr (hex_value (g @ h) mod 65536, rest)"
  using assms
proof (induction h arbitrary: g)
  case (Cons c h)
  then have c: "hexDigitValue c < 16" by (auto simp: isHexDigit_def hexDigitValue_def)
  have "hex_value g mod 65536 * 16 mod 65536 + hexDigitValue c = (hex_value g * 16 + hexDigitValue c) mod 65536"
  proof -
    have "hex_value g mod 65536 * 16 mod 65536 = hex_value g * 16 mod 65536" by (simp add: mod_mult_left_eq)
    also have "\<dots> = (hex_value g mod 4096) * 16" using mult_mod_left [of "hex_value g" 4096 16] by simp
    moreover have "(hex_value g * 16 + hexDigitValue c) mod 65536 = (hex_value g mod 4096) * 16 + hexDigitValue c"
      using mod_mult2_eq [of "hex_value g * 16 + hexDigitValue c" 16 4096] c by simp
    ultimately show ?thesis by simp
  qed
  with Cons.IH [of "g @ [c]"] Cons.prems show ?case by (simp add: hex_value_snoc)
qed simp

lemma readHexUnit_ok:
  assumes "length h = 4" "list_all isHexDigit h"
  shows "readHexUnit (h @ rest) = Inr (hex_value h, rest)"
proof -
  have "hex_value h < 65536" using hex_value_less [OF assms(2)] assms(1) by simp
  then show ?thesis using readHex_loop_ok [OF assms(2), of "[]" rest] assms(1) by (simp add: readHexUnit_def hex_value_def)
qed

lemma readHex_loopD: "readHexUnit_loop n v reader = Inr (u, rest) \<Longrightarrow> \<exists>h. reader = h @ rest \<and> length h = n \<and> list_all isHexDigit h"
proof (induction n v reader rule: readHexUnit_loop.induct)
  case (3 n v c reader)
  then obtain h where "isHexDigit c" "reader = h @ rest" "length h = n" "list_all isHexDigit h" by (auto split: if_splits)
  then show ?case by (intro exI [of _ "c # h"]) simp
qed simp_all

lemma readHexUnitD:
  assumes "readHexUnit reader = Inr (u, rest)"
  shows "\<exists>h. reader = h @ rest \<and> length h = 4 \<and> list_all isHexDigit h \<and> u = hex_value h"
proof -
  from readHex_loopD [OF assms [unfolded readHexUnit_def]] obtain h where
    h: "reader = h @ rest" "length h = 4" "list_all isHexDigit h" by blast
  with readHexUnit_ok [OF h(2,3), of rest] assms show ?thesis by auto
qed

section \<open>One character\<close>

lemma first_size_mask:
  assumes "128 \<le> byte c"
  shows "1 < first_size (byte c) \<Longrightarrow> lead_width c = first_size (byte c)"
  using assms byte_less [of c] by (auto simp: first_size_def lead_width_def split: if_splits)

lemma readUTF8Rune_ok:
  assumes "is_rune (c # cs)" "128 \<le> byte c"
  shows "readUTF8Rune c (cs @ rest) = Inr (rune_value (c # cs), rest)"
proof -
  from assms have fs: "1 < first_size (byte c)" "length (c # cs) = first_size (byte c)" by (auto simp: is_rune_def)
  have w: "rune_width (c # cs) = length (c # cs)" using rune_width_rune [OF assms(1), of "[]"] by simp
  then have "decode_rune (c # cs) = rune_value (c # cs)" using assms(1) by (simp add: decode_rune_def)
  moreover have "lead_width c = Suc (length cs)" using first_size_mask [OF assms(2) fs(1)] fs(2) by simp
  ultimately show ?thesis using w assms(1) by (simp add: readUTF8Rune_def Let_def)
qed

lemma readUTF8RuneD:
  assumes "readUTF8Rune c reader = Inr (r, rest)"
  shows "\<exists>cs. reader = cs @ rest \<and> is_rune (c # cs) \<and> r = rune_value (c # cs)"
proof -
  define width where "width = lead_width c"
  define cs where "cs = take (width - 1) reader"
  from assms have w: "width \<noteq> 0" "\<not> length reader < width - 1" and rest: "rest = drop (width - 1) reader" "r = decode_rune (c # cs)"
    and ok: "\<not> ((\<not> is_rune (take (rune_width (c # cs)) (c # cs)) \<and> rune_width (c # cs) = 1) \<or> rune_width (c # cs) \<noteq> width)"
    unfolding readUTF8Rune_def Let_def width_def [symmetric] cs_def by (auto split: if_splits)
  have len: "length (c # cs) = width" using w by (simp add: cs_def)
  from ok full_rune [of "c # cs"] len have "is_rune (c # cs)" by auto
  moreover from this have "r = rune_value (c # cs)" using rest(2) rune_width_rune [of "c # cs" "[]"] by (simp add: decode_rune_def)
  ultimately show ?thesis using rest(1) by (intro exI [of _ cs]) (simp add: cs_def)
qed

text \<open>The units that make up one character.\<close>

definition character :: "sunit list \<Rightarrow> nat \<Rightarrow> bool" where
  "character us r \<longleftrightarrow> list_all unit_ok us \<and> strict_runes us = Some [r] \<and> us \<noteq> []"

lemma readRuneD:
  assumes "readRune c reader = Inr (r, rest)" "c \<noteq> quote"
  shows "\<exists>us. c # reader = units_text us @ rest \<and> character us r \<and> (\<forall>vs. strict_runes (us @ vs) = map_option (Cons r) (strict_runes vs))"
proof (cases "c = backslash")
  case True
  with assms(1) obtain e tail where e: "reader = e # tail" "readEscape (e # tail) = Inr (r, rest)"
    by (cases reader) (auto simp: readRune_def readEscape_def)
  show ?thesis
  proof (cases "simple_escape e")
    case (Some x)
    with e True show ?thesis by (intro exI [of _ "[Esc e]"]) (auto simp: character_def readEscape_def)
  next
    case None
    with e have u: "e = CHR ''u''" "readUnicode tail = Inr (r, rest)" by (auto simp: readEscape_def split: if_splits)
    then obtain n rest1 where n: "readHexUnit tail = Inr (n, rest1)" by (cases "readHexUnit tail") (auto simp: readUnicode_def)
    with readHexUnitD [OF n] obtain h where h: "tail = h @ rest1" "length h = 4" "list_all isHexDigit h" "readHexUnit tail = Inr (hex_value h, rest1)"
      by blast
    show ?thesis
    proof (cases "high_half (hex_value h)")
      case high: True
      with u h have "readSurrogate (hex_value h) rest1 = Inr (r, rest)" by (simp add: readUnicode_def high_half_def)
      then obtain rest2 h' where h': "rest1 = backslash # CHR ''u'' # h' @ rest" "length h' = 4" "list_all isHexDigit h'"
        "low_half (hex_value h')" "r = utf16Rune (hex_value h) (hex_value h')"
        by (auto simp: readSurrogate_def low_half_def split: list.splits if_splits sum.splits dest!: readHexUnitD)
      with high h e u True show ?thesis by (intro exI [of _ "[Uni h, Uni h']"]) (auto simp: character_def)
    next
      case False
      with u h have "rest = rest1" "r = hex_value h" "\<not> low_half (hex_value h)"
        by (auto simp: readUnicode_def high_half_def low_half_def split: if_splits)
      with False h e u True show ?thesis by (intro exI [of _ "[Uni h]"]) (auto simp: character_def)
    qed
  qed
next
  case plain: False
  show ?thesis
  proof (cases "byte c < 128")
    case True
    with assms plain have "unit_ok (Raw [c])" "r = byte c" "rest = reader" by (auto simp: readRune_def ascii_rune split: if_splits)
    then show ?thesis by (intro exI [of _ "[Raw [c]]"]) (auto simp: character_def)
  next
    case False
    with assms(1) plain have "readUTF8Rune c reader = Inr (r, rest)" by (simp add: readRune_def split: if_splits)
    from readUTF8RuneD [OF this] obtain cs where "reader = cs @ rest" "is_rune (c # cs)" "r = rune_value (c # cs)" by blast
    with False assms(2) plain show ?thesis by (intro exI [of _ "[Raw (c # cs)]"]) (auto simp: character_def)
  qed
qed

lemma strict_first:
  assumes "list_all unit_ok us" "strict_runes us = Some (r # rs)"
  shows "\<exists>c reader vs. units_text us = c # reader \<and> readRune c reader = Inr (r, units_text vs) \<and> list_all unit_ok vs \<and>
    strict_runes vs = Some rs \<and> c \<noteq> quote"
proof -
  obtain u ws where us: "us = u # ws" using assms(2) by (cases us) auto
  show ?thesis
  proof (cases u)
    case (Raw q)
    then have q: "is_rune q" "hd q \<noteq> quote" "hd q \<noteq> backslash" "0x20 \<le> byte (hd q)" using assms(1) us by auto
    then obtain c cs where c: "q = c # cs" using rune_hd by (cases q) auto
    have "readRune c (cs @ units_text ws) = Inr (rune_value q, units_text ws)"
    proof (cases "byte c < 128")
      case True
      then have "cs = []" using q(1) c by (simp add: is_rune_def)
      with True q c show ?thesis by (simp add: readRune_def)
    next
      case False
      with q c readUTF8Rune_ok [of c cs "units_text ws"] show ?thesis by (simp add: readRune_def)
    qed
    with assms us Raw c q show ?thesis by (intro exI [of _ c] exI [of _ "cs @ units_text ws"] exI [of _ ws]) auto
  next
    case (Esc e)
    with assms us obtain x where "simple_escape e = Some x" "r = byte x" "strict_runes ws = Some rs" by (auto split: option.splits)
    with assms us Esc backslash_quote show ?thesis
      by (intro exI [of _ backslash] exI [of _ "e # units_text ws"] exI [of _ ws]) (auto simp: readRune_def readEscape_def)
  next
    case (Uni h)
    then have h: "length h = 4" "list_all isHexDigit h" using assms(1) us by auto
    have start: "readRune backslash (CHR ''u'' # h @ t) = readUnicode (h @ t)" for t by (simp add: readRune_def readEscape_def backslash_quote)
    show ?thesis
    proof (cases "high_half (hex_value h)")
      case True
      with assms us Uni obtain h' vs where vs: "ws = Uni h' # vs" "low_half (hex_value h')" "r = utf16Rune (hex_value h) (hex_value h')" "strict_runes vs = Some rs"
        by (auto split: list.splits sunit.splits if_splits)
      then have h': "length h' = 4" "list_all isHexDigit h'" using assms(1) us by auto
      have "readSurrogate (hex_value h) (units_text ws) = Inr (r, units_text vs)"
        using vs readHexUnit_ok [OF h', of "units_text vs"] by (simp add: readSurrogate_def low_half_def)
      then have "readUnicode (h @ units_text ws) = Inr (r, units_text vs)"
        using True readHexUnit_ok [OF h, of "units_text ws"] by (simp add: readUnicode_def high_half_def)
      with start [of "units_text ws"] assms us Uni vs backslash_quote show ?thesis
        by (intro exI [of _ backslash] exI [of _ "CHR ''u'' # h @ units_text ws"] exI [of _ vs]) auto
    next
      case False
      with assms us Uni have r: "\<not> low_half (hex_value h)" "r = hex_value h" "strict_runes ws = Some rs" by (auto split: if_splits)
      then have "readUnicode (h @ units_text ws) = Inr (r, units_text ws)"
        using False readHexUnit_ok [OF h, of "units_text ws"] by (auto simp: readUnicode_def high_half_def low_half_def)
      with start [of "units_text ws"] assms us Uni r backslash_quote show ?thesis
        by (intro exI [of _ backslash] exI [of _ "CHR ''u'' # h @ units_text ws"] exI [of _ ws]) auto
    qed
  qed
qed

section \<open>The loop\<close>

lemma simple_escape_result: "simple_escape e = Some x \<Longrightarrow> byte x < 128"
  by (auto simp: simple_escape_def quote_def backslash_def byte_def split: if_splits)

lemma unquote_strict: "list_all unit_ok us \<Longrightarrow> strict_runes us = Some rs \<Longrightarrow> unquote_body (units_text us) = Some (utf8_text rs)"
proof (induction us arbitrary: rs rule: strict_runes.induct)
  case 1
  then show ?case by (simp add: utf8_text_def unquote_body.simps)
next
  case (2 r us)
  then show ?case using unquote_raw [of r "units_text us"] by (auto simp: utf8_text_def)
next
  case (3 e us)
  then obtain x rs' where x: "simple_escape e = Some x" "strict_runes us = Some rs'" "rs = byte x # rs'" by (auto split: option.splits)
  then have "byte x < 128" by (intro simple_escape_result) auto
  then have "EncodeRune (byte x) = [x]" by (simp add: EncodeRune_def surrogate_def encode_valid_def byte_def)
  with 3 x unquote_simple [OF x(1), of "units_text us"] show ?case by (simp add: utf8_text_def)
next
  case (4 h us)
  then have h: "length h = 4" "list_all isHexDigit h" by simp_all
  show ?case
  proof (cases "high_half (hex_value h)")
    case True
    with 4 obtain h' vs rs' where vs: "us = Uni h' # vs" "low_half (hex_value h')" "strict_runes vs = Some rs'"
      "rs = utf16Rune (hex_value h) (hex_value h') # rs'" by (auto split: list.splits sunit.splits if_splits)
    then have h': "length h' = 4" "list_all isHexDigit h'" using 4 by simp_all
    have low: "getu4 (units_text us) = Some (hex_value h')" using getu4_escape [OF h'] vs by simp
    have pair: "utf16_DecodeRune (hex_value h) (hex_value h') = utf16Rune (hex_value h) (hex_value h')" "utf16Rune (hex_value h) (hex_value h') \<noteq> RuneError"
      using True vs(2) by (auto simp: utf16_DecodeRune_def utf16Rune_def RuneError_def high_half_def low_half_def)
    have "drop 6 (units_text us) = units_text vs" using vs h' by simp
    with unquote_unicode [OF h, of "units_text us"] low pair 4 True vs show ?thesis by (simp add: utf8_text_def)
  next
    case False
    with 4 obtain rs' where rs: "strict_runes us = Some rs'" "rs = hex_value h # rs'" by (auto split: if_splits)
    have "utf16_DecodeRune (hex_value h) l = RuneError" for l using False by (auto simp: utf16_DecodeRune_def high_half_def)
    with unquote_unicode [OF h, of "units_text us"] 4 False rs show ?thesis by (simp add: utf8_text_def split: if_splits)
  qed
qed

lemma strict_valid: "list_all unit_ok us \<Longrightarrow> strict_runes us = Some rs \<Longrightarrow> \<forall>r \<in> set rs. \<not> surrogate r \<and> r \<le> 0x10FFFF"
proof (induction us arbitrary: rs rule: strict_runes.induct)
  case (2 r us)
  then show ?case using rune_value_valid [of r] by auto
next
  case (3 e us)
  then obtain x rs' where x: "simple_escape e = Some x" "strict_runes us = Some rs'" "rs = byte x # rs'" by (auto split: option.splits)
  then have "byte x < 128" by (intro simple_escape_result) auto
  with 3 x show ?case by (auto simp: surrogate_def)
next
  case (4 h us)
  then have small: "hex_value h < 65536" using hex_value_less [of h] by simp
  show ?case
  proof (cases "high_half (hex_value h)")
    case True
    with 4 obtain h' vs rs' where vs: "us = Uni h' # vs" "low_half (hex_value h')" "strict_runes vs = Some rs'"
      "rs = utf16Rune (hex_value h) (hex_value h') # rs'" by (auto split: list.splits sunit.splits if_splits)
    have "0x10000 \<le> utf16Rune (hex_value h) (hex_value h')" "utf16Rune (hex_value h) (hex_value h') \<le> 0x10FFFF"
      using True vs(2) by (auto simp: utf16Rune_def high_half_def low_half_def)
    moreover have "\<forall>r \<in> set rs'. \<not> surrogate r \<and> r \<le> 0x10FFFF"
      using "4.prems" vs by (intro "4.IH"(1) [OF True vs(1)]) auto
    ultimately show ?thesis using vs(4) by (auto simp: surrogate_def)
  next
    case False
    with "4.prems" obtain rs' where rs: "\<not> low_half (hex_value h)" "strict_runes us = Some rs'" "rs = hex_value h # rs'" by (auto split: if_splits)
    have "\<forall>r \<in> set rs'. \<not> surrogate r \<and> r \<le> 0x10FFFF" using "4.prems" rs by (intro "4.IH"(2) [OF False rs(1)]) auto
    moreover have "\<not> surrogate (hex_value h)" using False rs(1) by (auto simp: surrogate_def high_half_def low_half_def)
    ultimately show ?thesis using rs(3) small by simp
  qed
qed simp

lemma strict_length: "list_all unit_ok us \<Longrightarrow> strict_runes us = Some rs \<Longrightarrow> length (utf8_text rs) \<le> length (units_text us)"
proof (induction us arbitrary: rs rule: strict_runes.induct)
  case (2 r us)
  then show ?case using rune_value_length [of r] by (auto simp: utf8_text_def)
next
  case (3 e us)
  then obtain x rs' where x: "simple_escape e = Some x" "strict_runes us = Some rs'" "rs = byte x # rs'" by (auto split: option.splits)
  then have "byte x < 128" by (intro simple_escape_result) auto
  then have "length (EncodeRune (byte x)) = 1" by (simp add: EncodeRune_def surrogate_def encode_valid_def)
  moreover have "length (utf8_text rs') \<le> length (units_text us)" using 3 x by simp
  ultimately show ?case using x(3) by (simp add: utf8_text_def)
next
  case (4 h us)
  have four: "length (EncodeRune r) \<le> 4" for r by (simp add: EncodeRune_def encode_valid_length RuneLen_def)
  show ?case
  proof (cases "high_half (hex_value h)")
    case True
    with "4.prems" obtain h' vs rs' where vs: "us = Uni h' # vs" "low_half (hex_value h')" "strict_runes vs = Some rs'"
      "rs = utf16Rune (hex_value h) (hex_value h') # rs'" by (auto split: list.splits sunit.splits if_splits)
    have "length (utf8_text rs') \<le> length (units_text vs)"
      using "4.prems" vs by (intro "4.IH"(1) [OF True vs(1)]) auto
    then show ?thesis using vs(1,4) four [of "utf16Rune (hex_value h) (hex_value h')"] by (simp add: utf8_text_def)
  next
    case False
    with "4.prems" obtain rs' where rs: "\<not> low_half (hex_value h)" "strict_runes us = Some rs'" "rs = hex_value h # rs'" by (auto split: if_splits)
    have "length (utf8_text rs') \<le> length (units_text us)" using "4.prems" rs by (intro "4.IH"(2) [OF False rs(1)]) auto
    then show ?thesis using rs(3) four [of "hex_value h"] "4.prems" by (simp add: utf8_text_def)
  qed
qed (simp add: utf8_text_def)

lemma fitting_negative: "room < 0 \<Longrightarrow> fitting room rs = []"
  by (cases rs) auto

lemma prefix_loop_strict:
  assumes "list_all unit_ok us" "strict_runes us = Some rs" "d + int (length (utf8_text rs)) \<le> maxInt"
  shows "prefix_loop limit d kept (units_text us) = Inr (kept @ fitting (limit - d) rs, d + int (length (utf8_text rs)))"
  using assms
proof (induction rs arbitrary: us d kept)
  case Nil
  have "us = []"
  proof (rule ccontr)
    assume "us \<noteq> []"
    with Nil.prems(1,2) show False by (cases us rule: strict_runes.cases) (auto split: option.splits if_splits list.splits sunit.splits)
  qed
  then show ?case by (simp add: utf8_text_def)
next
  case (Cons r rs)
  from strict_first [OF Cons.prems(1,2)] obtain c reader vs where
    c: "units_text us = c # reader" "readRune c reader = Inr (r, units_text vs)" "list_all unit_ok vs" "strict_runes vs = Some rs" by blast
  have r: "\<not> surrogate r" "r \<le> 0x10FFFF" using strict_valid [OF Cons.prems(1,2)] by auto
  then have len: "length (EncodeRune r) = RuneLen r" by (simp add: EncodeRune_length)
  have d: "d + int (RuneLen r) + int (length (utf8_text rs)) \<le> maxInt" using Cons.prems(3) len by (simp add: utf8_text_def)
  have fit: "fitting (limit - d) (r # rs) = (if d + int (RuneLen r) \<le> limit then EncodeRune r @ fitting (limit - (d + int (RuneLen r))) rs else [])"
    using len by (simp add: algebra_simps)
  have sum: "int (length (utf8_text (r # rs))) = int (RuneLen r) + int (length (utf8_text rs))" using len by (simp add: utf8_text_def)
  show ?case
  proof (cases "d + int (RuneLen r) \<le> limit")
    case True
    with Cons.IH [OF c(3,4) d, of "kept @ EncodeRune r"] c r d show ?thesis by (simp add: fit sum del: fitting.simps(2))
  next
    case False
    with Cons.IH [OF c(3,4) d, of kept] c r d show ?thesis by (simp add: fit sum fitting_negative del: fitting.simps(2))
  qed
qed

lemma prefix_loopD:
  assumes "prefix_loop limit d kept reader = Inr x" "string_body reader"
  shows "\<exists>us rs. list_all unit_ok us \<and> reader = units_text us \<and> strict_runes us = Some rs"
  using assms
proof (induction limit d kept reader rule: prefix_loop.induct)
  case 1
  then show ?case by (intro exI [of _ "[]"]) simp
next
  case (2 limit d kept c reader)
  then obtain r rest where r: "readRune c reader = Inr (r, rest)" by (cases "readRune c reader") auto
  have "c \<noteq> quote" using 2(3) backslash_quote by auto
  from readRuneD [OF r this] obtain us where us: "c # reader = units_text us @ rest" "character us r"
    "\<And>vs. strict_runes (us @ vs) = map_option (Cons r) (strict_runes vs)" by blast
  then have ok: "list_all unit_ok us" by (simp add: character_def)
  then have rest: "string_body rest" using 2(3) us(1) string_body_append [of "units_text us" rest] units_valid [OF ok] by metis
  have "\<exists>vs rs. list_all unit_ok vs \<and> rest = units_text vs \<and> strict_runes vs = Some rs"
    using 2(1) [OF r refl] 2(2) r rest by (auto simp: Let_def split: if_splits)
  then obtain vs rs where "list_all unit_ok vs" "rest = units_text vs" "strict_runes vs = Some rs" by blast
  with ok us show ?case by (intro exI [of _ "us @ vs"]) auto
qed

lemma fitting_iff:
  assumes "0 \<le> room"
  shows "kept = fitting room rs \<longleftrightarrow>
    (\<exists>k \<le> length rs. kept = utf8_text (take k rs) \<and> int (length kept) \<le> room \<and>
       (k < length rs \<longrightarrow> room < int (length (utf8_text (take (Suc k) rs)))))"
  using assms
proof (induction rs arbitrary: room kept)
  case Nil
  then show ?case by (auto simp: utf8_text_def)
next
  case (Cons r rs)
  let ?e = "EncodeRune r"
  have first: "utf8_text (take (Suc k) (r # rs)) = ?e @ utf8_text (take k rs)" for k by (simp add: utf8_text_def)
  show ?case
  proof (cases "int (length ?e) \<le> room")
    case True
    have "(\<exists>k \<le> length (r # rs). kept = utf8_text (take k (r # rs)) \<and> int (length kept) \<le> room \<and>
         (k < length (r # rs) \<longrightarrow> room < int (length (utf8_text (take (Suc k) (r # rs)))))) \<longleftrightarrow>
       (\<exists>k \<le> length rs. kept = ?e @ utf8_text (take k rs) \<and> int (length kept) \<le> room \<and>
         (k < length rs \<longrightarrow> room < int (length (?e @ utf8_text (take (Suc k) rs)))))" (is "?l \<longleftrightarrow> ?r")
    proof
      assume ?l
      then obtain k where k: "k \<le> Suc (length rs)" "kept = utf8_text (take k (r # rs))" "int (length kept) \<le> room"
        "k < Suc (length rs) \<longrightarrow> room < int (length (utf8_text (take (Suc k) (r # rs))))" by auto
      then obtain j where "k = Suc j" using True first [of 0] by (cases k) (auto simp: utf8_text_def)
      with k first show ?r by (intro exI [of _ j]) auto
    next
      assume ?r
      then obtain k where "k \<le> length rs" "kept = ?e @ utf8_text (take k rs)" "int (length kept) \<le> room"
        "k < length rs \<longrightarrow> room < int (length (?e @ utf8_text (take (Suc k) rs)))" by blast
      with first show ?l by (intro exI [of _ "Suc k"]) auto
    qed
    also have "\<dots> \<longleftrightarrow> kept = fitting room (r # rs)"
    proof (cases "\<exists>rest. kept = ?e @ rest")
      case True
      then obtain rest where rest: "kept = ?e @ rest" by blast
      have room: "0 \<le> room - int (length ?e)" using \<open>int (length ?e) \<le> room\<close> by simp
      have "(\<exists>k \<le> length rs. kept = ?e @ utf8_text (take k rs) \<and> int (length kept) \<le> room \<and>
           (k < length rs \<longrightarrow> room < int (length (?e @ utf8_text (take (Suc k) rs))))) \<longleftrightarrow> rest = fitting (room - int (length ?e)) rs"
        unfolding Cons.IH [OF room, of rest] rest by (simp add: algebra_simps)
      then show ?thesis using rest \<open>int (length ?e) \<le> room\<close> by simp
    next
      case False
      with \<open>int (length ?e) \<le> room\<close> show ?thesis by auto
    qed
    finally show ?thesis by blast
  next
    case False
    then have "fitting room (r # rs) = []" by simp
    moreover have "kept = [] \<longleftrightarrow> (\<exists>k \<le> length (r # rs). kept = utf8_text (take k (r # rs)) \<and> int (length kept) \<le> room \<and>
        (k < length (r # rs) \<longrightarrow> room < int (length (utf8_text (take (Suc k) (r # rs))))))" (is "_ \<longleftrightarrow> (\<exists>k \<le> _. ?P k)")
    proof
      assume "kept = []"
      moreover have "room < int (length (utf8_text (take (Suc 0) (r # rs))))" using False by (simp add: utf8_text_def)
      ultimately have "?P 0" using Cons.prems by (simp add: utf8_text_def)
      then show "\<exists>k \<le> length (r # rs). ?P k" by blast
    next
      assume "\<exists>k \<le> length (r # rs). ?P k"
      then obtain k where k: "kept = utf8_text (take k (r # rs))" "int (length kept) \<le> room" by blast
      show "kept = []"
      proof (cases k)
        case 0
        with k show ?thesis by (simp add: utf8_text_def)
      next
        case (Suc j)
        with k False first [of j] show ?thesis by simp
      qed
    qed
    ultimately show ?thesis by simp
  qed
qed

section \<open>Properties\<close>

text \<open>
  C33. Reading the start of a string of a body succeeds exactly when the string is UTF-8 and every
  escaped surrogate has its partner. What is kept are the first characters of the decoded string, as
  many as fit into \<open>max\<close> bytes; the flag tells whether these are all; and the decoded string is the
  one that \<open>json.Unmarshal\<close> yields.
\<close>

theorem prefix_exact:
  assumes "body = before @ quote # content @ quote # after" "int (length body) \<le> maxInt" "0 \<le> limit" "string_body content"
    and "fd_Type field = JSONString" "fd_StringRange field = \<lparr> br_Start = length before, br_End = length before + length content + 2 \<rparr>"
  shows "ReadJSONStringPrefix body field limit = Inr (kept, complete) \<longleftrightarrow>
    (\<exists>us rs k. list_all unit_ok us \<and> content = units_text us \<and> strict_runes us = Some rs \<and>
       unquote_body content = Some (utf8_text rs) \<and> complete = (int (length (utf8_text rs)) \<le> limit) \<and>
       k \<le> length rs \<and> kept = utf8_text (take k rs) \<and> int (length kept) \<le> limit \<and>
       (k < length rs \<longrightarrow> limit < int (length (utf8_text (take (Suc k) rs)))))"
proof -
  have pieces: "body ! length before = quote" "body ! (length before + length content + 2 - 1) = quote"
    "take (length before + length content + 2 - length before - 2) (drop (length before + 1) body) = content"
    "length before + length content + 2 \<le> length body" unfolding assms(1) by (simp_all add: nth_append)
  have run: "ReadJSONStringPrefix body field limit =
      (case prefix_loop limit 0 [] content of Inl e \<Rightarrow> Inl e | Inr (kept, d) \<Rightarrow> Inr (kept, d \<le> limit))"
    using assms(3,5) pieces(2,4) unfolding ReadJSONStringPrefix_def Let_def assms(6) ByteRange.select_convs pieces(1,3)
    by (cases "prefix_loop limit 0 [] content") (auto split: prod.split)
  have strict: "ReadJSONStringPrefix body field limit = Inr (fitting limit rs, int (length (utf8_text rs)) \<le> limit) \<and>
      unquote_body content = Some (utf8_text rs)"
    if us: "list_all unit_ok us" "content = units_text us" "strict_runes us = Some rs" for us rs
  proof -
    have un: "unquote_body content = Some (utf8_text rs)" using unquote_strict [OF us(1,3)] us(2) by simp
    have "length (utf8_text rs) \<le> length content" using strict_length [OF us(1,3)] us(2) by simp
    then have "0 + int (length (utf8_text rs)) \<le> maxInt" using assms(1,2) by simp
    from prefix_loop_strict [OF us(1,3) this, of limit "[]"] us(2) un run show ?thesis by simp
  qed
  show ?thesis
  proof
    assume ok: "ReadJSONStringPrefix body field limit = Inr (kept, complete)"
    then obtain x where "prefix_loop limit 0 [] content = Inr x" using run by (cases "prefix_loop limit 0 [] content") auto
    from prefix_loopD [OF this assms(4)] obtain us rs where us: "list_all unit_ok us" "content = units_text us" "strict_runes us = Some rs" by blast
    with strict [OF us] ok fitting_iff [OF assms(3), of kept rs] show "\<exists>us rs k. list_all unit_ok us \<and> content = units_text us \<and> strict_runes us = Some rs \<and>
       unquote_body content = Some (utf8_text rs) \<and> complete = (int (length (utf8_text rs)) \<le> limit) \<and>
       k \<le> length rs \<and> kept = utf8_text (take k rs) \<and> int (length kept) \<le> limit \<and>
       (k < length rs \<longrightarrow> limit < int (length (utf8_text (take (Suc k) rs))))" by auto
  next
    assume "\<exists>us rs k. list_all unit_ok us \<and> content = units_text us \<and> strict_runes us = Some rs \<and>
       unquote_body content = Some (utf8_text rs) \<and> complete = (int (length (utf8_text rs)) \<le> limit) \<and>
       k \<le> length rs \<and> kept = utf8_text (take k rs) \<and> int (length kept) \<le> limit \<and>
       (k < length rs \<longrightarrow> limit < int (length (utf8_text (take (Suc k) rs))))"
    then obtain us rs where us: "list_all unit_ok us" "content = units_text us" "strict_runes us = Some rs"
      and k: "complete = (int (length (utf8_text rs)) \<le> limit)" "kept = fitting limit rs"
      using fitting_iff [OF assms(3), of kept] by blast
    with strict [OF us] show "ReadJSONStringPrefix body field limit = Inr (kept, complete)" by simp
  qed
qed

section \<open>Witnesses\<close>

definition sample_field :: Field where
  "sample_field = \<lparr> fd_Path = ''/a'', fd_Key = ''a'', fd_KeyRange = zeroRange, fd_MemberRange = zeroRange, fd_DeleteRange = zeroRange,
     fd_ValueRange = zeroRange, fd_StringRange = \<lparr> br_Start = 0, br_End = 5 \<rparr>, fd_Type = JSONString, fd_ArrayIndex = -1, fd_Depth = 0 \<rparr>"

theorem prefix_exact_witness: "ReadJSONStringPrefix ''\"abc\"'' sample_field 2 = Inr (''ab'', False)"
proof -
  have body: "''\"abc\"'' = [] @ quote # ''abc'' @ quote # []" "string_body ''abc''" by code_simp+
  have ok: "list_all unit_ok [Raw ''a'', Raw ''b'', Raw ''c'']" by code_simp
  define rs where "rs = [byte CHR ''a'', byte CHR ''b'', byte CHR ''c'']"
  have enc: "byte c < 128 \<Longrightarrow> EncodeRune (byte c) = [c]" for c by (simp add: EncodeRune_def surrogate_def encode_valid_def byte_def)
  have "byte CHR ''a'' < 128" "byte CHR ''b'' < 128" "byte CHR ''c'' < 128" by (simp_all add: byte_def)
  then have rs: "strict_runes [Raw ''a'', Raw ''b'', Raw ''c''] = Some rs" "utf8_text rs = ''abc''" "utf8_text (take 2 rs) = ''ab''"
    "utf8_text (take (Suc 2) rs) = ''abc''" "length rs = 3"
    using enc by (simp_all add: utf8_text_def rs_def)
  have un: "unquote_body ''abc'' = Some ''abc''" using unquote_strict [OF ok rs(1)] rs(2) by simp
  have h: "int (length ''\"abc\"'') \<le> maxInt" "(0 :: int) \<le> 2" "fd_Type sample_field = JSONString"
    "fd_StringRange sample_field = \<lparr> br_Start = length ([] :: string), br_End = length ([] :: string) + length ''abc'' + 2 \<rparr>"
    by (simp_all add: maxInt_def sample_field_def)
  show ?thesis unfolding prefix_exact [OF body(1) h(1,2) body(2) h(3,4)]
    by (rule exI [of _ "[Raw ''a'', Raw ''b'', Raw ''c'']"], rule exI [of _ rs], rule exI [of _ 2])
      (use ok rs un in \<open>simp\<close>)
qed

end
