(* ===== verification/Body_Accept.thy ===== *)
theory Body_Accept
  imports Body_Tokens Body_Model
begin

text \<open>
  Soundness of the scanner of package bodyfile: what it has read without an error is always the
  beginning of a document of the grammar, so what it accepts is a document, and the document names
  its model as a request must.
\<close>

section \<open>What has been read\<close>

definition comma_state :: "char \<Rightarrow> frameState" where
  "comma_state k = (if k = CHR ''{'' then objectCommaOrEnd else arrayCommaOrEnd)"

definition bracket :: "char \<Rightarrow> bool" where
  "bracket k \<longleftrightarrow> k = CHR ''{'' \<or> k = CHR ''[''"

text \<open>A container up to the comma after its last complete child.\<close>

definition upto_comma :: "char \<Rightarrow> child list \<Rightarrow> string" where
  "upto_comma k children = k # concat (map (\<lambda>c. child_text c @ '','') children)"

definition children_ok :: "char \<Rightarrow> child list \<Rightarrow> bool" where
  "children_ok k children \<longleftrightarrow> list_all (\<lambda>c. child_ok c k) children"

text \<open>A key token keeps its spelling up to a limit that no short key reaches.\<close>

definition key_start :: "scanToken \<Rightarrow> bool" where
  "key_start t \<longleftrightarrow> tk_kind t = tokenKey \<and> string_inv t [] t \<and> \<not> vc_isModel (tk_ctx t) \<and> (tk_rawLimit t = 0 \<or> 64 \<le> tk_rawLimit t)"

definition text_start :: "scanToken \<Rightarrow> bool" where
  "text_start t \<longleftrightarrow> tk_kind t = tokenString \<and> string_inv t [] t \<and>
     (vc_isModel (tk_ctx t) \<longrightarrow> model_start t \<and> tk_rawLimit t = MaxBytes * 6 + 2)"

text \<open>
  The innermost open container: its frame, the open token, the complete children and the text read
  since its bracket. \<open>lk\<close> says for which key a child is the model.
\<close>

inductive top_at :: "(member_key option \<Rightarrow> bool) \<Rightarrow> scanFrame \<Rightarrow> scanToken option \<Rightarrow> child list \<Rightarrow> string \<Rightarrow> bool"
  for lk :: "member_key option \<Rightarrow> bool" and f :: scanFrame where
  key_or_end: "top_at lk f None cs (upto_comma CHR ''{'' cs @ w)"
    if "sf_kind f = CHR ''{''" "sf_state f = objectKeyOrEnd" "sf_afterComma f \<longleftrightarrow> cs \<noteq> []" "children_ok CHR ''{'' cs" "white w"
| key: "top_at lk f (Some t) cs (upto_comma CHR ''{'' cs @ bef @ quote # body)"
    if "sf_kind f = CHR ''{''" "sf_state f = objectColon" "children_ok CHR ''{'' cs" "white bef" "key_start t0" "string_run body t0 = Some t"
| colon: "top_at lk f None cs (upto_comma CHR ''{'' cs @ bef @ quoted body @ w)"
    if "sf_kind f = CHR ''{''" "sf_state f = objectColon" "children_ok CHR ''{'' cs" "white bef" "string_body body" "white w"
      "\<And>a. vc_isModel (sf_pending f) \<longleftrightarrow> lk (Some \<lparr> mk_body = body, mk_before = w, mk_after = a \<rparr>)"
| member_value: "top_at lk f None cs (upto_comma CHR ''{'' cs @ bef @ key_text (Some m))"
    if "sf_kind f = CHR ''{''" "sf_state f = objectValue" "children_ok CHR ''{'' cs" "white bef" "key_ok CHR ''{'' (Some m)"
      "vc_isModel (sf_pending f) \<longleftrightarrow> lk (Some m)"
| first_element: "top_at lk f None [] (CHR ''['' # w)"
    if "sf_kind f = CHR ''[''" "sf_state f = arrayValueOrEnd" "white w"
| element: "top_at lk f None cs (upto_comma CHR ''['' cs @ w)"
    if "sf_kind f = CHR ''[''" "sf_state f = arrayValueRequired" "children_ok CHR ''['' cs" "cs \<noteq> []" "white w"
| string: "top_at lk f (Some t) cs (upto_comma k cs @ bef @ key_text key @ quote # body)"
    if "sf_kind f = k" "bracket k" "sf_state f = comma_state k" "children_ok k cs" "white bef" "key_ok k key" "text_start t0"
      "string_run body t0 = Some t" "vc_isModel (tk_ctx t0) \<longleftrightarrow> lk key"
| literal: "top_at lk f (Some t) cs (upto_comma k cs @ bef @ key_text key @ take (tk_literalPos t) (tk_literal t))"
    if "sf_kind f = k" "bracket k" "sf_state f = comma_state k" "children_ok k cs" "white bef" "key_ok k key" "tk_kind t = tokenLiteral"
      "literal_text (tk_literal t)" "tk_literalPos t \<le> length (tk_literal t)"
      "tk_literalComplete t \<longleftrightarrow> tk_literalPos t = length (tk_literal t)" "vc_isModel (tk_ctx t) \<longleftrightarrow> lk key"
| number: "top_at lk f (Some t) cs (upto_comma k cs @ bef @ key_text key @ s)"
    if "sf_kind f = k" "bracket k" "sf_state f = comma_state k" "children_ok k cs" "white bef" "key_ok k key" "tk_kind t = tokenNumber"
      "number_prefix (tk_numberState t) s" "vc_isModel (tk_ctx t) \<longleftrightarrow> lk key"
| comma_or_end: "top_at lk f None (cs @ [c]) (upto_comma k cs @ child_text c)"
    if "sf_kind f = k" "bracket k" "sf_state f = comma_state k" "children_ok k cs" "child_ok c k"

text \<open>An enclosing container, in which a child is open.\<close>

record open_child =
  oc_done :: "child list"
  oc_before :: string
  oc_key :: "member_key option"

definition opened :: "scanFrame \<Rightarrow> open_child \<Rightarrow> bool" where
  "opened f g \<longleftrightarrow> bracket (sf_kind f) \<and> sf_state f = comma_state (sf_kind f) \<and> children_ok (sf_kind f) (oc_done g) \<and>
     white (oc_before g) \<and> key_ok (sf_kind f) (oc_key g)"

definition opened_text :: "scanFrame \<Rightarrow> open_child \<Rightarrow> string" where
  "opened_text f g = upto_comma (sf_kind f) (oc_done g) @ oc_before g @ key_text (oc_key g)"

text \<open>Only a member of the root can be the model.\<close>

definition link :: "bool \<Rightarrow> open_child list \<Rightarrow> member_key option \<Rightarrow> bool" where
  "link req gs key \<longleftrightarrow> req \<and> gs = [] \<and> model_key key"

definition context_link :: "bool \<Rightarrow> open_child list \<Rightarrow> valueContext \<Rightarrow> bool" where
  "context_link req gs ctx \<longleftrightarrow> (vc_isModel ctx \<longleftrightarrow> (case gs of [] \<Rightarrow> False | g # gs \<Rightarrow> link req gs (oc_key g)))"

fun stack_at :: "bool \<Rightarrow> scanFrame list \<Rightarrow> open_child list \<Rightarrow> string \<Rightarrow> bool" where
  "stack_at req [] [] s = (s = [])"
| "stack_at req (f # fs) (g # gs) s =
     (opened f g \<and> context_link req gs (sf_ctx f) \<and> (gs = [] \<longrightarrow> sf_kind f = CHR ''{'') \<and>
      (\<exists>s'. stack_at req fs gs s' \<and> s = s' @ opened_text f g))"
| "stack_at req _ _ s = False"

text \<open>The model among the complete members of the root.\<close>

definition models_at :: "JSONScanner \<Rightarrow> child list \<Rightarrow> bool" where
  "models_at s children \<longleftrightarrow>
     (if sp_RequireModel (js_spec s)
      then (js_modelSeen s \<longleftrightarrow> model_members children \<noteq> []) \<and> length (model_members children) \<le> 1 \<and>
        (\<forall>c \<in> set (model_members children). good_model (ch_value c))
      else \<not> js_modelSeen s)"

definition root_children :: "child list \<Rightarrow> open_child list \<Rightarrow> child list" where
  "root_children cs gs = (if gs = [] then cs else oc_done (last gs))"

inductive scan_at :: "JSONScanner \<Rightarrow> string \<Rightarrow> bool" for s :: JSONScanner where
  before: "scan_at s text"
    if "\<not> js_started s" "\<not> js_rootDone s" "js_stack s = []" "js_token s = None" "white text" "models_at s []"
| inside: "scan_at s (lead @ enclosing @ text)"
    if "js_started s" "\<not> js_rootDone s" "js_stack s = f # fs" "white lead" "stack_at (sp_RequireModel (js_spec s)) fs gs enclosing"
      "context_link (sp_RequireModel (js_spec s)) gs (sf_ctx f)" "gs = [] \<longrightarrow> sf_kind f = CHR ''{''"
      "top_at (link (sp_RequireModel (js_spec s)) gs) f (js_token s) cs text" "models_at s (root_children cs gs)"
| after: "scan_at s text"
    if "js_started s" "js_rootDone s" "js_stack s = []" "js_token s = None" "document lead cs space trail text" "models_at s cs"

section \<open>Texts\<close>

lemma white_simps [simp]: "white []" "white (c # s) \<longleftrightarrow> isJSONWhitespace c \<and> white s" "white (s @ t) \<longleftrightarrow> white s \<and> white t"
  by (simp_all add: white_def)

lemma children_ok_simps [simp]: "children_ok k []" "children_ok k (cs @ [c]) \<longleftrightarrow> children_ok k cs \<and> child_ok c k"
    "children_ok k (c # cs) \<longleftrightarrow> child_ok c k \<and> children_ok k cs"
  by (auto simp: children_ok_def)

lemma upto_comma_Nil [simp]: "upto_comma k [] = [k]"
  by (simp add: upto_comma_def)

lemma upto_comma_snoc: "upto_comma k (cs @ [c]) = upto_comma k cs @ child_text c @ '',''"
  by (simp add: upto_comma_def)

lemma commas_snoc: "commas (ss @ [s]) = concat (map (\<lambda>s. s @ '','') ss) @ s"
proof (induction ss rule: commas.induct)
  case (3 s t ss)
  then show ?case by simp
qed simp_all

lemma container_close:
  assumes "bracket k" "children_ok k cs" "child_ok c k"
  shows "json_ok (Container k [] (cs @ [c])) \<and>
    json_text (Container k [] (cs @ [c])) = upto_comma k cs @ child_text c @ [closer k]"
  using assms commas_snoc [of "map child_text cs" "child_text c"]
  by (auto simp: bracket_def children_ok_def list_all_iff upto_comma_def comp_def)

lemma container_empty:
  assumes "bracket k" "white w"
  shows "json_ok (Container k w []) \<and> json_text (Container k w []) = k # w @ [closer k]"
  using assms by (auto simp: bracket_def)

lemma child_after:
  assumes "child_ok c k" "isJSONWhitespace x"
  shows "child_ok (Child (ch_before c) (ch_key c) (ch_value c) (ch_after c @ [x])) k \<and>
    child_text (Child (ch_before c) (ch_key c) (ch_value c) (ch_after c @ [x])) = child_text c @ [x]"
  using assms by (cases c) simp

lemma child_new:
  assumes "white bef" "key_ok k key" "json_ok v"
  shows "child_ok (Child bef key v []) k \<and> child_text (Child bef key v []) = bef @ key_text key @ json_text v"
  using assms by simp

lemma model_members_simps [simp]: "model_members [] = []"
    "model_members (cs @ [c]) = model_members cs @ (if model_key (ch_key c) then [c] else [])"
  by (simp_all add: model_members_def)

lemma root_children_simps [simp]: "root_children cs [] = cs" "gs \<noteq> [] \<Longrightarrow> root_children cs gs = oc_done (last gs)"
  by (simp_all add: root_children_def)

section \<open>Completing a value\<close>

text \<open>The part of a frame that matters here.\<close>

definition same_frame :: "scanFrame \<Rightarrow> scanFrame \<Rightarrow> bool" where
  "same_frame f g \<longleftrightarrow> sf_kind f = sf_kind g \<and> sf_state f = sf_state g \<and> sf_afterComma f = sf_afterComma g \<and>
     sf_ctx f = sf_ctx g \<and> sf_pending f = sf_pending g"

definition same_control :: "JSONScanner \<Rightarrow> JSONScanner \<Rightarrow> bool" where
  "same_control s t \<longleftrightarrow> js_spec s = js_spec t \<and> js_started s = js_started t \<and> js_rootDone s = js_rootDone t \<and> js_token s = js_token t"

lemma same_control_refl [simp]: "same_control s s"
  by (simp add: same_control_def)

lemma noteNextSibling_effect:
  assumes "js_stack s = f # fs"
  shows "\<exists>f'. js_stack (noteNextSibling n s) = f' # fs \<and> same_frame f' f \<and> same_control (noteNextSibling n s) s \<and>
    js_modelSeen (noteNextSibling n s) = js_modelSeen s \<and> js_err (noteNextSibling n s) = js_err s \<and>
    js_trie (noteNextSibling n s) = js_trie s \<and> js_keyRawLimit (noteNextSibling n s) = js_keyRawLimit s"
  using assms by (auto simp: noteNextSibling_def same_frame_def same_control_def Let_def split: option.split)

lemma add_field_effect:
  assumes "js_stack s = f # fs"
  shows "\<exists>f'. js_stack (add_field ctx typ r pos s) = f' # fs \<and> same_frame f' f \<and> same_control (add_field ctx typ r pos s) s \<and>
    js_modelSeen (add_field ctx typ r pos s) = js_modelSeen s \<and> js_err (add_field ctx typ r pos s) = js_err s"
  using assms by (auto simp: add_field_def count_child_def same_frame_def same_control_def Let_def)

lemma completeValue_effect:
  assumes stack: "js_stack s = f # fs" and err: "js_err (completeValue ctx typ r str pos s) = None"
  shows "\<exists>f'. js_stack (completeValue ctx typ r str pos s) = f' # fs \<and> same_frame f' f \<and> same_control (completeValue ctx typ r str pos s) s \<and>
    (if vc_isModel ctx
     then \<not> js_modelSeen s \<and> js_modelSeen (completeValue ctx typ r str pos s) \<and> typ = JSONString \<and> str \<noteq> []
     else js_modelSeen (completeValue ctx typ r str pos s) = js_modelSeen s)"
proof (cases "model_result ctx typ r str s")
  case (Pair b t)
  show ?thesis
  proof (cases b)
    case True
    have t: "js_stack t = f # fs" "same_control t s"
        "if vc_isModel ctx then \<not> js_modelSeen s \<and> js_modelSeen t \<and> typ = JSONString \<and> str \<noteq> [] else js_modelSeen t = js_modelSeen s"
      using Pair True stack by (auto simp: model_result_def same_control_def Let_def split: if_splits)
    have eq: "completeValue ctx typ r str pos s = add_field ctx typ r pos t" by (simp add: completeValue_def Pair True)
    from add_field_effect [OF t(1), of ctx "typ" r pos] obtain f' where "js_stack (add_field ctx typ r pos t) = f' # fs" "same_frame f' f"
      "same_control (add_field ctx typ r pos t) t" "js_modelSeen (add_field ctx typ r pos t) = js_modelSeen t" by auto
    moreover define u where "u = add_field ctx typ r pos t"
    ultimately show ?thesis using t(2,3) unfolding eq u_def [symmetric] by (simp add: same_control_def)
  next
    case False
    with Pair err show ?thesis by (auto simp: completeValue_def model_result_def Let_def split: if_splits)
  qed
qed

lemma complete_at:
  assumes s: "js_started s" "\<not> js_rootDone s" "js_token s = None" "js_stack s = f # fs" "white lead"
      "stack_at (sp_RequireModel (js_spec s)) fs gs enclosing" "context_link (sp_RequireModel (js_spec s)) gs (sf_ctx f)"
      "gs = [] \<longrightarrow> sf_kind f = CHR ''{''" "models_at s (root_children cs gs)"
    and f: "sf_kind f = k" "bracket k" "sf_state f = comma_state k" "children_ok k cs" "white bef" "key_ok k key" "json_ok v"
    and ctx: "vc_isModel ctx \<longleftrightarrow> link (sp_RequireModel (js_spec s)) gs key"
    and good: "vc_isModel ctx \<Longrightarrow> typ = JSONString \<Longrightarrow> str \<noteq> [] \<Longrightarrow> good_model v"
    and err: "js_err (completeValue ctx typ r str pos s) = None"
  shows "scan_at (completeValue ctx typ r str pos s) (lead @ enclosing @ upto_comma k cs @ bef @ key_text key @ json_text v)"
proof -
  define s' where "s' = completeValue ctx typ r str pos s"
  from completeValue_effect [OF s(4) err] obtain f' where f': "js_stack s' = f' # fs" "same_frame f' f" "same_control s' s"
    and seen: "if vc_isModel ctx then \<not> js_modelSeen s \<and> js_modelSeen s' \<and> typ = JSONString \<and> str \<noteq> [] else js_modelSeen s' = js_modelSeen s"
    unfolding s'_def by auto
  note spec = f'(3) [unfolded same_control_def]
  have top: "top_at (link (sp_RequireModel (js_spec s')) gs) f' (js_token s') (cs @ [Child bef key v []])
      (upto_comma k cs @ bef @ key_text key @ json_text v)"
    using top_at.comma_or_end [of f' k cs "Child bef key v []"] f f'(2) child_new [of bef k key v] spec s(3)
    by (simp add: same_frame_def)
  have models: "models_at s' (root_children (cs @ [Child bef key v []]) gs)"
  proof (cases "gs = []")
    case True
    show ?thesis
    proof (cases "sp_RequireModel (js_spec s)")
      case req: True
      with True ctx have "vc_isModel ctx \<longleftrightarrow> model_key key" by (simp add: link_def)
      with True req s(9) seen good spec show ?thesis by (auto simp: models_at_def split: if_splits)
    next
      case False
      with True s(9) seen ctx spec show ?thesis by (auto simp: models_at_def link_def)
    qed
  next
    case False
    with s(9) seen ctx spec show ?thesis by (auto simp: models_at_def link_def split: if_splits)
  qed
  have "scan_at s' (lead @ enclosing @ (upto_comma k cs @ bef @ key_text key @ json_text v))"
    by (rule scan_at.inside [where f = f' and fs = fs and gs = gs and cs = "cs @ [Child bef key v []]"])
      (use s f'(1,2) spec top models in \<open>simp_all add: same_frame_def\<close>)
  then show ?thesis by (simp add: s'_def)
qed

section \<open>Inside a container\<close>

definition within :: "JSONScanner \<Rightarrow> scanFrame \<Rightarrow> scanFrame list \<Rightarrow> open_child list \<Rightarrow> string \<Rightarrow> string \<Rightarrow> bool" where
  "within s f fs gs lead enclosing \<longleftrightarrow> js_started s \<and> \<not> js_rootDone s \<and> js_stack s = f # fs \<and> white lead \<and>
     stack_at (sp_RequireModel (js_spec s)) fs gs enclosing \<and> context_link (sp_RequireModel (js_spec s)) gs (sf_ctx f) \<and>
     (gs = [] \<longrightarrow> sf_kind f = CHR ''{'')"

abbreviation top_link :: "JSONScanner \<Rightarrow> open_child list \<Rightarrow> member_key option \<Rightarrow> bool" where
  "top_link s \<equiv> link (sp_RequireModel (js_spec s))"

lemma scan_at_within:
  assumes "within s f fs gs lead enclosing" "top_at (top_link s gs) f (js_token s) cs tx" "models_at s (root_children cs gs)"
  shows "scan_at s (lead @ enclosing @ tx)"
  by (rule scan_at.inside [where f = f and fs = fs and gs = gs and cs = cs]) (use assms in \<open>simp_all add: within_def\<close>)

lemma stack_at_length: "stack_at req fs gs s \<Longrightarrow> length fs = length gs"
  by (induction req fs gs s rule: stack_at.induct) auto

lemma models_at_cong:
  "js_spec s = js_spec t \<Longrightarrow> js_modelSeen s = js_modelSeen t \<Longrightarrow> models_at s cs = models_at t cs"
  by (simp add: models_at_def)

lemma within_token: "within s f fs gs lead enclosing \<Longrightarrow>
    within (s\<lparr>js_token := t, js_offset := n\<rparr>) f fs gs lead enclosing \<and> within (s\<lparr>js_offset := n\<rparr>) f fs gs lead enclosing"
  by (simp add: within_def)

text \<open>A step that changes the innermost frame and the token only.\<close>

lemma within_top:
  assumes "within s f fs gs lead enclosing" "js_stack s' = f' # fs" "js_spec s' = js_spec s" "js_started s' = js_started s"
    "js_rootDone s' = js_rootDone s" "sf_kind f' = sf_kind f" "sf_ctx f' = sf_ctx f"
  shows "within s' f' fs gs lead enclosing"
  using assms by (simp add: within_def)

lemma step_top:
  assumes "within s f fs gs lead enclosing" "models_at s (root_children cs gs)"
    and "js_stack s' = f' # fs" "js_spec s' = js_spec s" "js_started s' = js_started s" "js_rootDone s' = js_rootDone s"
      "js_modelSeen s' = js_modelSeen s" "sf_kind f' = sf_kind f" "sf_ctx f' = sf_ctx f"
    and "root_children cs' gs = root_children cs gs" "top_at (top_link s gs) f' (js_token s') cs' tx"
  shows "scan_at s' (lead @ enclosing @ tx)"
  using scan_at_within [of s' f' fs gs lead enclosing cs' tx] within_top [of s f fs gs lead enclosing s' f'] models_at_cong [of s' s] assms
  by simp

section \<open>Starting a value\<close>

definition string_token :: "valueContext \<Rightarrow> scanToken" where
  "string_token ctx = zeroToken\<lparr>tk_kind := tokenString, tk_start := vc_start ctx, tk_ctx := ctx,
     tk_raw := if vc_isModel ctx then [quote] else [], tk_rawLimit := if vc_isModel ctx then MaxBytes * 6 + 2 else 0\<rparr>"

lemma string_token_start: "text_start (string_token ctx) \<and> tk_ctx (string_token ctx) = ctx"
  by (simp add: string_token_def text_start_def model_start_def string_inv_def same_token_def raw_at_def keeps_raw_def syntax_at_def zeroToken_def)

lemma startValue_at:
  assumes w: "within s f fs gs lead enclosing" and tok: "js_token s = None" and models: "models_at s (root_children cs gs)"
    and f: "bracket (sf_kind f)" "children_ok (sf_kind f) cs" "white bef" "key_ok (sf_kind f) key"
    and ctx: "vc_isModel ctx \<longleftrightarrow> top_link s gs key"
    and st: "startValue c ctx s = (b, None, s')"
  shows "b \<and> scan_at s' (lead @ enclosing @ upto_comma (sf_kind f) cs @ bef @ key_text key @ [c])"
proof -
  define k where "k = sf_kind f"
  define f' where "f' = f\<lparr>sf_state := comma_state k\<rparr>"
  define s1 where "s1 = s\<lparr>js_stack := f' # fs\<rparr>"
  have stack: "js_stack s = f # fs" using w by (simp add: within_def)
  have s1: "(case js_stack s of [] \<Rightarrow> s | f # _ \<Rightarrow> set_top_state (if sf_kind f = CHR ''{'' then objectCommaOrEnd else arrayCommaOrEnd) s) = s1"
    by (simp add: stack set_top_state_def s1_def f'_def comma_state_def k_def)
  have top: "b \<and> scan_at s' (lead @ enclosing @ upto_comma k cs @ bef @ key_text key @ [c])"
    if "b" "s' = put_token t (advance s1)" "top_at (top_link s gs) f' (Some t) cs (upto_comma k cs @ bef @ key_text key @ [c])" for t
    using that step_top [OF w models, of s' f' cs] by (simp add: put_token_def advance_def s1_def f'_def)
  from f have k: "bracket k" "children_ok k cs" "key_ok k key" by (simp_all add: k_def)
  have f': "sf_kind f' = k" "sf_state f' = comma_state k" by (simp_all add: f'_def k_def)
  from st [unfolded startValue_def Let_def s1] consider
      (str) "c = quote"
    | (container) "c = CHR ''{'' \<or> c = CHR ''[''" "c \<noteq> quote"
    | (literal) "c = CHR ''t'' \<or> c = CHR ''f'' \<or> c = CHR ''n''"
    | (number) n where "initialNumberState c = Some n" "c \<noteq> quote" "\<not> (c = CHR ''{'' \<or> c = CHR ''['')" "\<not> (c = CHR ''t'' \<or> c = CHR ''f'' \<or> c = CHR ''n'')"
    by (auto simp: refuse_def split: if_splits option.splits)
  then have "b \<and> scan_at s' (lead @ enclosing @ upto_comma k cs @ bef @ key_text key @ [c])"
  proof cases
    case str
    let ?t = "string_token ctx"
    have "top_at (top_link s gs) f' (Some ?t) cs (upto_comma k cs @ bef @ key_text key @ quote # [])"
      by (rule top_at.string [where ?t0.0 = "string_token ctx"]) (use f' k f(3) ctx string_token_start in simp_all)
    moreover have "b" "s' = put_token ?t (advance s1)" using st [unfolded startValue_def Let_def s1] str by (simp_all add: string_token_def)
    ultimately show ?thesis using top [of ?t] str by simp
  next
    case literal
    let ?t = "zeroToken\<lparr>tk_kind := tokenLiteral, tk_start := vc_start ctx, tk_ctx := ctx,
           tk_literal := literal_of c, tk_literalPos := 1, tk_literalComplete := (length (literal_of c) = 1)\<rparr>"
    have "take (tk_literalPos ?t) (tk_literal ?t) = [c]" using literal by (auto simp: literal_of_def)
    moreover have "top_at (top_link s gs) f' (Some ?t) cs (upto_comma k cs @ bef @ key_text key @ take (tk_literalPos ?t) (tk_literal ?t))"
      by (intro top_at.literal) (use f' k f(3) ctx in \<open>simp_all add: literal_text_def literal_of_def\<close>)
    moreover have "b" "s' = put_token ?t (advance s1)" using st [unfolded startValue_def Let_def s1] literal by (auto simp: quote_def)
    ultimately show ?thesis using top [of ?t] by simp
  next
    case (number n)
    let ?t = "zeroToken\<lparr>tk_kind := tokenNumber, tk_start := vc_start ctx, tk_ctx := ctx, tk_numberState := n\<rparr>"
    have "top_at (top_link s gs) f' (Some ?t) cs (upto_comma k cs @ bef @ key_text key @ [c])"
      by (intro top_at.number) (use f' k f(3) ctx number_prefix_initial [OF number(1)] in simp_all)
    moreover have "b" "s' = put_token ?t (advance s1)" using st [unfolded startValue_def Let_def s1] number by simp_all
    ultimately show ?thesis using top [of ?t] by simp
  next
    case container
    define g where "g = \<lparr>oc_done = cs, oc_before = bef, oc_key = key\<rparr>"
    have s': "b" "s' = pushContainer c ctx (advance s1)" using st [unfolded startValue_def Let_def s1] container by auto
    have "within s' (newFrame c ctx) (f' # fs) (g # gs) lead (enclosing @ opened_text f' g)"
      using w s'(2) k f f' ctx by (auto simp: within_def pushContainer_def advance_def s1_def newFrame_def context_link_def g_def opened_def f'_def k_def)
    moreover have "top_at (top_link s' (g # gs)) (newFrame c ctx) (js_token s') [] [c]"
      using container(1) top_at.key_or_end [of "newFrame c ctx" "[]" "[]"] top_at.first_element [of "newFrame c ctx" "[]"] tok s'(2)
      by (auto simp: newFrame_def pushContainer_def advance_def s1_def)
    moreover have "models_at s' (root_children [] (g # gs))"
      using models models_at_cong [of s' s] s'(2) by (cases "gs = []") (simp_all add: pushContainer_def advance_def s1_def g_def)
    ultimately have "scan_at s' (lead @ (enclosing @ opened_text f' g) @ [c])" by (rule scan_at_within)
    then show ?thesis using s'(1) by (simp add: opened_text_def g_def f')
  qed
  then show ?thesis by (simp add: k_def)
qed

end
