(* ===== verification/Body_Sound.thy ===== *)
theory Body_Sound
  imports Body_Accept
begin

text \<open>
  Soundness of the scanner of package bodyfile, step by step: every byte that is consumed without an
  error extends what has been read, so an accepted body is a document that names its model as a
  request must.
\<close>

section \<open>Finishing tokens\<close>

definition complete_within :: "JSONScanner \<Rightarrow> scanFrame \<Rightarrow> scanFrame list \<Rightarrow> open_child list \<Rightarrow> string \<Rightarrow> string \<Rightarrow> child list \<Rightarrow> bool" where
  "complete_within s f fs gs lead enclosing cs \<longleftrightarrow> within s f fs gs lead enclosing \<and> js_token s = None \<and> models_at s (root_children cs gs) \<and>
     bracket (sf_kind f) \<and> sf_state f = comma_state (sf_kind f) \<and> children_ok (sf_kind f) cs"

lemma complete_within_at:
  assumes "complete_within s f fs gs lead enclosing cs" "white bef" "key_ok (sf_kind f) key" "json_ok v"
    and "vc_isModel ctx \<longleftrightarrow> top_link s gs key" "vc_isModel ctx \<Longrightarrow> typ = JSONString \<Longrightarrow> str \<noteq> [] \<Longrightarrow> good_model v"
    and "js_err (completeValue ctx typ r str pos s) = None"
  shows "scan_at (completeValue ctx typ r str pos s) (lead @ enclosing @ upto_comma (sf_kind f) cs @ bef @ key_text key @ json_text v)"
  by (rule complete_at [where f = f and fs = fs and gs = gs and cs = cs]) (use assms in \<open>simp_all add: complete_within_def within_def\<close>)

lemma text_body_raw:
  assumes t0: "string_inv t0 [] t0" and run: "string_run body t0 = Some t" and keeps: "keeps_raw t0"
    and body: "string_body body" and t': "erase t' = erase t"
  shows "if tk_rawLimit t0 = 0 \<or> length body + 2 \<le> tk_rawLimit t0
    then tk_raw (keepRaw quote t') = quoted body \<and> \<not> tk_rawOverflow (keepRaw quote t')
    else tk_rawOverflow (keepRaw quote t')"
proof -
  from string_run_inv [OF t0 run] have inv: "same_token t t0" "raw_at body t" by (simp_all add: string_inv_def)
  then have "raw_at body t'" using raw_at_erase [OF t'] by simp
  from raw_at_keepRaw [OF this, of quote] have raw: "raw_at (body @ [quote]) (keepRaw quote t')" .
  have same: "tk_rawLimit t' = tk_rawLimit t0" "keeps_raw t' = keeps_raw t0"
    using inv(1) eraseD [OF t'] by (simp_all add: same_token_def keeps_raw_def)
  with raw keeps show ?thesis by (auto simp: raw_at_def keeps_raw_def quoted_def split: if_splits)
qed

lemma finish_string:
  assumes t0: "text_start t0" "string_run body t0 = Some t" and body: "string_body body"
    and fin: "finishModelDecodedString t = Inr t'" and good: "vc_isModel (tk_ctx t0) \<Longrightarrow> good_body body"
  shows "finishToken (keepRaw quote t') s =
    completeValue (tk_ctx t0) JSONString \<lparr>br_Start = tk_start t0, br_End = js_offset s\<rparr>
      (if vc_isModel (tk_ctx t0) then the (unquote_body body) else []) (js_offset s) (s\<lparr>js_token := None\<rparr>)"
proof -
  have inv: "string_inv t0 body t" using string_run_inv [of t0 "[]" t0 body t] t0 by (simp add: text_start_def)
  have e: "erase t' = erase t" using fin erase_flush erase_finish by (auto simp: finishModelDecodedString_def split: sum.splits)
  have kind: "tk_kind t' = tokenString" "tk_ctx t' = tk_ctx t0" "tk_start t' = tk_start t0"
    using eraseD [OF e] inv t0(1) by (simp_all add: string_inv_def same_token_def text_start_def)
  show ?thesis
  proof (cases "vc_isModel (tk_ctx t0)")
    case True
    with t0(1) have start: "string_inv t0 [] t0" "tk_rawLimit t0 = MaxBytes * 6 + 2" "keeps_raw t0" by (simp_all add: text_start_def keeps_raw_def)
    from good [OF True] obtain m where m: "unquote_body body = Some m" "length m \<le> MaxBytes" by (auto simp: good_body_def)
    from unquote_total [OF body] m have "length body \<le> 6 * MaxBytes" by auto
    with text_body_raw [OF start(1) t0(2) start(3) body e] start(2) have "tk_raw (keepRaw quote t') = quoted body" by simp
    with m True kind json_string_quoted [OF body] show ?thesis by (simp add: finishToken_def Let_def)
  next
    case False
    with kind show ?thesis by (simp add: finishToken_def Let_def)
  qed
qed

lemma string_token_at:
  assumes c: "complete_within s f fs gs lead enclosing cs" "white bef" "key_ok (sf_kind f) key"
    and t0: "text_start t0" "vc_isModel (tk_ctx t0) \<longleftrightarrow> top_link s gs key" "string_run body t0 = Some t" "closing quote t"
    and fin: "finishModelDecodedString t = Inr t'" and err: "js_err (finishToken (keepRaw quote t') s) = None"
  shows "scan_at (finishToken (keepRaw quote t') s) (lead @ enclosing @ upto_comma (sf_kind f) cs @ bef @ key_text key @ quoted body)"
proof -
  have inv: "string_inv t0 body t" using string_run_inv [of t0 "[]" t0 body t] t0(1,3) by (simp add: text_start_def)
  have body: "string_body body" using string_inv_body [OF inv] t0(4) by (simp add: closing_def)
  have good: "good_body body" if "vc_isModel (tk_ctx t0)"
    using model_passes_good [OF _ t0(3) body fin] that t0(1) by (simp add: text_start_def)
  have "s\<lparr>js_token := None\<rparr> = s" using c(1) by (simp add: complete_within_def)
  with finish_string [OF t0(1,3) body fin good, of s] have eq: "finishToken (keepRaw quote t') s =
      completeValue (tk_ctx t0) JSONString \<lparr>br_Start = tk_start t0, br_End = js_offset s\<rparr>
        (if vc_isModel (tk_ctx t0) then the (unquote_body body) else []) (js_offset s) s" by simp
  have "scan_at (finishToken (keepRaw quote t') s) (lead @ enclosing @ upto_comma (sf_kind f) cs @ bef @ key_text key @ json_text (Text body))"
    unfolding eq by (rule complete_within_at [OF c])
      (use good body t0(2) err eq in \<open>auto simp: good_model_def model_text_def good_body_def\<close>)
  then show ?thesis by simp
qed

lemma scalar_token_at:
  assumes c: "complete_within s f fs gs lead enclosing cs" "white bef" "key_ok (sf_kind f) key"
    and t: "tk_kind t = tokenLiteral \<and> text = tk_literal t \<and> literal_text text \<or> tk_kind t = tokenNumber \<and> number_text text"
      "vc_isModel (tk_ctx t) \<longleftrightarrow> top_link s gs key"
    and err: "js_err (finishToken t s) = None"
  shows "scan_at (finishToken t s) (lead @ enclosing @ upto_comma (sf_kind f) cs @ bef @ key_text key @ text)"
proof -
  have tok: "s\<lparr>js_token := None\<rparr> = s" using c(1) by (simp add: complete_within_def)
  obtain ty where ty: "finishToken t s = completeValue (tk_ctx t) ty zeroRange [] (js_offset s) s"
    using t(1) tok by (auto simp: finishToken_def Let_def)
  show ?thesis unfolding ty using complete_within_at [OF c, of "Scalar text" "tk_ctx t" ty "[]"] t err ty by auto
qed

section \<open>Keys\<close>

lemma newKeyToken_start:
  assumes "limit = 0 \<or> 64 \<le> limit"
  shows "key_start (newKeyToken n limit)"
  using assms
  by (auto simp: key_start_def newKeyToken_def appendRaw_def string_inv_def same_token_def raw_at_def keeps_raw_def syntax_at_def
      zeroToken_def zeroContext_def)

lemma finishKey_at:
  assumes w: "within s f fs gs lead enclosing" and tok: "js_token s = None" and models: "models_at s (root_children cs gs)"
    and f: "sf_kind f = CHR ''{''" "sf_state f = objectColon" "children_ok CHR ''{'' cs" "white bef"
    and t0: "key_start t0" "string_run body t0 = Some t" "closing quote t"
    and err: "js_err (finishToken (keepRaw quote t) s) = None"
  shows "scan_at (finishToken (keepRaw quote t) s) (lead @ enclosing @ upto_comma CHR ''{'' cs @ bef @ quoted body)"
proof -
  define u where "u = keepRaw quote t"
  have start: "string_inv t0 [] t0" "keeps_raw t0" "tk_rawLimit t0 = 0 \<or> 64 \<le> tk_rawLimit t0" "tk_kind t0 = tokenKey"
    using t0(1) by (simp_all add: key_start_def keeps_raw_def)
  have inv: "string_inv t0 body t" using string_run_inv [OF start(1) t0(2)] by simp
  have body: "string_body body" using string_inv_body [OF inv] t0(3) by (simp add: closing_def)
  from unquote_total [OF body] obtain key where key: "unquote_body body = Some key" "length body \<le> 6 * length key" by auto
  have kind: "tk_kind u = tokenKey" using inv start(4) by (simp add: u_def string_inv_def same_token_def)
  have stack: "js_stack s = f # fs" and one: "length (js_stack s) = 1 \<longleftrightarrow> gs = []"
    using w stack_at_length [of "sp_RequireModel (js_spec s)" fs gs enclosing] by (auto simp: within_def)
  have tok': "s\<lparr>js_token := None\<rparr> = s" using tok by simp
  have "\<exists>k r over. finishToken u s = s\<lparr>js_stack := f\<lparr>sf_pending := makeObjectContext s f k r (tk_start u) over, sf_afterComma := False\<rparr> # fs\<rparr> \<and>
      (k = ''model'' \<longleftrightarrow> key = ''model'')"
  proof (cases "tk_rawLimit t0 = 0 \<or> length body + 2 \<le> tk_rawLimit t0")
    case True
    with text_body_raw [OF start(1) t0(2) start(2) body refl] have "tk_raw u = quoted body" "\<not> tk_rawOverflow u" by (simp_all add: u_def)
    then show ?thesis using kind tok' stack key(1) json_string_quoted [OF body] by (auto simp: finishToken_def finishKey_def)
  next
    case False
    with text_body_raw [OF start(1) t0(2) start(2) body refl] have "tk_rawOverflow u" by (simp add: u_def)
    moreover have "key \<noteq> ''model''" using False start(3) key(2) by auto
    ultimately show ?thesis using kind tok' stack by (auto simp: finishToken_def finishKey_def)
  qed
  then obtain k r over where
    s': "finishToken u s = s\<lparr>js_stack := f\<lparr>sf_pending := makeObjectContext s f k r (tk_start u) over, sf_afterComma := False\<rparr> # fs\<rparr>"
    and k: "k = ''model'' \<longleftrightarrow> key = ''model''" by blast
  define f' where "f' = f\<lparr>sf_pending := makeObjectContext s f k r (tk_start u) over, sf_afterComma := False\<rparr>"
  have "vc_isModel (sf_pending f') \<longleftrightarrow> top_link s gs (Some \<lparr>mk_body = body, mk_before = [], mk_after = a\<rparr>)" for a
    using one key(1) k by (auto simp: f'_def makeObjectContext_def Let_def link_def model_key_def)
  then have "top_at (top_link s gs) f' None cs (upto_comma CHR ''{'' cs @ bef @ quoted body @ [])"
    by (intro top_at.colon) (use f body in \<open>simp_all add: f'_def\<close>)
  then show ?thesis unfolding u_def [symmetric] s'
    by (intro step_top [OF w models, of _ f' cs]) (simp_all add: f'_def tok)
qed

section \<open>Closing a container\<close>

lemma closeContainer_at:
  assumes w: "within s f fs gs lead enclosing" and tok: "js_token s = None" and models: "models_at s (root_children cs gs)"
    and v: "json_ok (Container (sf_kind f) w cs)"
    and cl: "closeContainer s = (None, s')"
  shows "scan_at s' (lead @ enclosing @ json_text (Container (sf_kind f) w cs))"
proof -
  have stack: "js_stack s = f # fs" using w by (simp add: within_def)
  show ?thesis
  proof (cases fs)
    case Nil
    with w have gs: "gs = []" "enclosing = []" "sf_kind f = CHR ''{''" "white lead" by (cases gs; auto simp: within_def)+
    have s': "s' = s\<lparr>js_containers := js_containers s @ [container_info f (js_offset s)], js_stack := [], js_rootDone := True\<rparr>"
      using cl stack Nil by (simp add: closeContainer_def Let_def)
    have "document lead cs w [] (lead @ enclosing @ json_text (Container (sf_kind f) w cs))"
      using gs v by (simp add: document_def)
    then show ?thesis
      by (rule scan_at.after [rotated 4]) (use w models gs(1) s' tok models_at_cong [of s' s] in \<open>simp_all add: within_def\<close>)
  next
    case (Cons f2 fs2)
    with w stack_at_length [of _ fs gs enclosing] obtain g gs2 where gs: "gs = g # gs2" by (cases gs) (auto simp: within_def)
    from w Cons gs obtain outer where o: "opened f2 g" "context_link (sp_RequireModel (js_spec s)) gs2 (sf_ctx f2)"
      "gs2 = [] \<longrightarrow> sf_kind f2 = CHR ''{''" "stack_at (sp_RequireModel (js_spec s)) fs2 gs2 outer" "enclosing = outer @ opened_text f2 g"
      "vc_isModel (sf_ctx f) \<longleftrightarrow> top_link s gs2 (oc_key g)"
      by (auto simp: within_def context_link_def)
    define ty where "ty = (if sf_kind f = CHR ''['' then JSONArray else JSONObject)"
    define s1 where "s1 = (if sf_record f then s\<lparr>js_containers := js_containers s @ [container_info f (js_offset s)]\<rparr> else s)\<lparr>js_stack := fs\<rparr>"
    have s': "s' = completeValue (sf_ctx f) ty zeroRange [] (js_offset s) s1" "js_err s' = None"
      using cl stack Cons by (auto simp: closeContainer_def Let_def ty_def s1_def split: if_splits)
    have s1: "js_spec s1 = js_spec s" "js_modelSeen s1 = js_modelSeen s" by (simp_all add: s1_def)
    have "root_children (oc_done g) gs2 = root_children cs gs" by (simp add: gs root_children_def)
    with models have "models_at s1 (root_children (oc_done g) gs2)" using models_at_cong [of s1 s] s1 by simp
    then have c: "complete_within s1 f2 fs2 gs2 lead outer (oc_done g)"
      using w o Cons tok s1(1) by (auto simp: complete_within_def within_def opened_def s1_def)
    have "scan_at (completeValue (sf_ctx f) ty zeroRange [] (js_offset s) s1)
        (lead @ outer @ upto_comma (sf_kind f2) (oc_done g) @ oc_before g @ key_text (oc_key g) @ json_text (Container (sf_kind f) w cs))"
      by (rule complete_within_at [OF c]) (use o v s' s1(1) in \<open>auto simp: opened_def ty_def split: if_splits\<close>)
    then show ?thesis by (simp add: s'(1) o(5) opened_text_def)
  qed
qed

lemma close_step_at:
  assumes "within s f fs gs lead enclosing" "js_token s = None" "models_at s (root_children cs gs)"
    "json_ok (Container (sf_kind f) w cs)" "close_step s = (b, None, s')"
  shows "b \<and> scan_at s' (lead @ enclosing @ json_text (Container (sf_kind f) w cs))"
  using closeContainer_at [of "advance s" f fs gs lead enclosing cs w s'] assms models_at_cong [of "advance s" s]
  by (auto simp: close_step_def advance_def within_def split: prod.splits)

section \<open>One byte\<close>

definition limits_ok :: "JSONScanner \<Rightarrow> bool" where
  "limits_ok s \<longleftrightarrow> 64 \<le> js_keyRawLimit s"

lemma startKey_at:
  assumes w: "within s f fs gs lead enclosing" and tok: "js_token s = None" and models: "models_at s (root_children cs gs)"
    and f: "sf_kind f = CHR ''{''" "sf_state f = objectKeyOrEnd" "children_ok CHR ''{'' cs" "white bef"
    and limits: "limits_ok s" and st: "startKey s = (b, None, s')"
  shows "b \<and> scan_at s' (lead @ enclosing @ upto_comma CHR ''{'' cs @ bef @ [quote])"
proof -
  have stack: "js_stack s = f # fs" using w by (simp add: within_def)
  define s1 where "s1 = advance (noteNextSibling (js_offset s) s)"
  from noteNextSibling_effect [OF stack, of "js_offset s"] obtain f1 where
    f1: "js_stack s1 = f1 # fs" "same_frame f1 f" "same_control s1 s" "js_modelSeen s1 = js_modelSeen s" "js_keyRawLimit s1 = js_keyRawLimit s"
    by (auto simp: s1_def advance_def same_control_def)
  define t where "t = newKeyToken (js_offset s) (keyRawLimitFor s1 f1)"
  define f' where "f' = f1\<lparr>sf_state := objectColon,
      sf_pending := zeroContext\<lparr>vc_memberStart := js_offset s, vc_arrayIndex := -1, vc_depth := sf_depth f1 + 1\<rparr>\<rparr>"
  have s': "b" "s' = s1\<lparr>js_token := Some t, js_stack := f' # fs\<rparr>"
    using st f1(1) by (auto simp: startKey_def Let_def s1_def t_def f'_def)
  have "key_start t" using limits f1(5) by (auto simp: t_def keyRawLimitFor_def limits_ok_def intro: newKeyToken_start)
  then have "top_at (top_link s gs) f' (Some t) cs (upto_comma CHR ''{'' cs @ bef @ quote # [])"
    by (rule top_at.key [rotated 4]) (use f f1(2) in \<open>simp_all add: f'_def same_frame_def\<close>)
  then show ?thesis using s'
    by (auto intro!: step_top [OF w models, of _ f' cs]) (use f1(2-4) in \<open>auto simp: f'_def same_control_def same_frame_def\<close>)
qed

lemma startElement_at:
  assumes w: "within s f fs gs lead enclosing" and tok: "js_token s = None" and models: "models_at s (root_children cs gs)"
    and f: "sf_kind f = CHR ''[''" "children_ok CHR ''['' cs" "white bef"
    and st: "startElement c s = (b, None, s')"
  shows "b \<and> scan_at s' (lead @ enclosing @ upto_comma CHR ''['' cs @ bef @ [c])"
proof -
  have stack: "js_stack s = f # fs" using w by (simp add: within_def)
  define s1 where "s1 = noteNextSibling (js_offset s) s"
  from noteNextSibling_effect [OF stack, of "js_offset s"] obtain f1 where
    f1: "js_stack s1 = f1 # fs" "same_frame f1 f" "same_control s1 s" "js_modelSeen s1 = js_modelSeen s"
    by (auto simp: s1_def)
  have st': "startValue c (makeArrayContext s1 f1 (sf_nextIndex f1) (js_offset s1)) s1 = (b, None, s')"
    using st f1(1) by (simp add: startElement_def Let_def s1_def)
  have "within s1 f1 fs gs lead enclosing"
    by (rule within_top [OF w f1(1)]) (use f1 in \<open>simp_all add: same_control_def same_frame_def\<close>)
  from startValue_at [OF this _ _ _ _ f(3) _ _ st', of cs None] show ?thesis
    using f1 f tok models models_at_cong [of s1 s]
    by (simp add: same_control_def same_frame_def bracket_def key_ok_def key_text_def makeArrayContext_def Let_def zeroContext_def link_def model_key_def)
qed

lemma top_at_white:
  assumes "top_at (link req gs) f None cs tx" "isJSONWhitespace c" "models_at s (root_children cs gs)"
  shows "\<exists>cs'. models_at s (root_children cs' gs) \<and> top_at (link req gs) f None cs' (tx @ [c])"
  using assms(1)
proof cases
  case (key_or_end w)
  with top_at.key_or_end [of f cs "w @ [c]" "link req gs"] assms show ?thesis by auto
next
  case (colon bef body w)
  have "top_at (link req gs) f None cs (upto_comma CHR ''{'' cs @ bef @ quoted body @ (w @ [c]))"
    by (rule top_at.colon) (use colon assms(2) in \<open>simp_all add: link_def model_key_def\<close>)
  with colon assms(3) show ?thesis by auto
next
  case (member_value bef m)
  have "top_at (link req gs) f None cs (upto_comma CHR ''{'' cs @ bef @ key_text (Some (m\<lparr>mk_after := mk_after m @ [c]\<rparr>)))"
    by (rule top_at.member_value) (use member_value assms(2) in \<open>simp_all add: link_def model_key_def key_ok_def\<close>)
  with member_value assms(3) show ?thesis by (auto simp: key_text_def)
next
  case (first_element w)
  with top_at.first_element [of f "w @ [c]" "link req gs"] assms show ?thesis by auto
next
  case (element w)
  with top_at.element [of f cs "w @ [c]" "link req gs"] assms show ?thesis by auto
next
  case (comma_or_end k cs1 d)
  define d' where "d' = Child (ch_before d) (ch_key d) (ch_value d) (ch_after d @ [c])"
  from child_after [OF comma_or_end(7) assms(2)] have d': "child_ok d' k" "child_text d' = child_text d @ [c]" by (simp_all add: d'_def)
  with top_at.comma_or_end [of f k cs1 d' "link req gs"] comma_or_end
  have "top_at (link req gs) f None (cs1 @ [d']) (tx @ [c])" by simp
  moreover have "models_at s (root_children (cs1 @ [d']) gs)"
    using assms(3) comma_or_end(1) by (auto simp: d'_def models_at_def root_children_def split: if_splits)
  ultimately show ?thesis by blast
qed

lemma frame_step_at:
  assumes w: "within s f fs gs lead enclosing" and tok: "js_token s = None" and models: "models_at s (root_children cs gs)"
    and top: "top_at (top_link s gs) f None cs tx" and limits: "limits_ok s" and st: "frame_step c f fs s = (b, None, s')"
  shows "b \<and> scan_at s' (lead @ enclosing @ tx @ [c])"
proof (cases "isJSONWhitespace c")
  case True
  with st have s': "b" "s' = advance s" by (simp_all add: frame_step_def skip_byte_def)
  from top_at_white [OF top True models] obtain cs' where cs': "models_at s (root_children cs' gs)" "top_at (top_link s gs) f None cs' (tx @ [c])" by auto
  then show ?thesis using scan_at_within [of s' f fs gs lead enclosing cs' "tx @ [c]"] w tok s' models_at_cong [of s' s]
    by (simp add: advance_def within_def)
next
  case no: False
  have stack: "js_stack s = f # fs" using w by (simp add: within_def)
  note st = st [unfolded frame_step_def, simplified no, simplified]
  from top show ?thesis
  proof cases
    case (key_or_end w')
    then consider "c = CHR ''}''" "cs = []" "close_step s = (b, None, s')" | "c = quote" "startKey s = (b, None, s')"
      using st by (auto simp: refuse_def quote_def split: if_splits)
    then show ?thesis
    proof cases
      case 1
      with close_step_at [OF w tok models, of w'] container_empty [of "CHR ''{''" w'] key_or_end show ?thesis by (simp add: bracket_def closer_def)
    next
      case 2
      from startKey_at [OF w tok models _ _ _ _ limits 2(2), of w'] 2(1) key_or_end show ?thesis by simp
    qed
  next
    case (colon bef body w')
    then have c: "c = CHR '':''" "b" "s' = set_top_state objectValue (advance s)" using st by (auto simp: refuse_def split: if_splits)
    define f' where "f' = f\<lparr>sf_state := objectValue\<rparr>"
    have "top_at (top_link s gs) f' None cs (upto_comma CHR ''{'' cs @ bef @ key_text (Some \<lparr>mk_body = body, mk_before = w', mk_after = []\<rparr>))"
      by (rule top_at.member_value) (use colon in \<open>simp_all add: f'_def key_ok_def\<close>)
    then have "top_at (top_link s gs) f' None cs (tx @ [c])" using colon c by (simp add: key_text_def)
    then show ?thesis using c(2,3)
      by (auto intro!: step_top [OF w models, of _ f' cs] simp: f'_def set_top_state_def advance_def stack tok)
  next
    case (member_value bef m)
    then have "startValue c ((sf_pending f)\<lparr>vc_start := js_offset s\<rparr>) s = (b, None, s')" using st by simp
    from startValue_at [OF w tok models _ _ _ _ _ this, of bef "Some m"] member_value show ?thesis by (simp add: bracket_def)
  next
    case (first_element w')
    then consider "c = CHR '']''" "close_step s = (b, None, s')" | "startElement c s = (b, None, s')"
      using st by (auto split: if_splits)
    then show ?thesis
    proof cases
      case 1
      with close_step_at [OF w tok models, of w'] container_empty [of "CHR ''[''" w'] first_element show ?thesis by (simp add: bracket_def closer_def)
    next
      case 2
      from startElement_at [OF w tok models _ _ _ this, of w'] first_element show ?thesis by simp
    qed
  next
    case (element w')
    then have "startElement c s = (b, None, s')" using st by (auto simp: refuse_def split: if_splits)
    from startElement_at [OF w tok models _ _ _ this, of w'] element show ?thesis by simp
  next
    case (comma_or_end k cs1 d)
    then consider (comma) "c = CHR '',''" | (close) "c = closer k" "close_step s = (b, None, s')"
      using st by (auto simp: comma_state_def bracket_def closer_def refuse_def split: if_splits)
    then show ?thesis
    proof cases
      case close
      have v: "json_ok (Container (sf_kind f) [] cs)" "json_text (Container (sf_kind f) [] cs) = tx @ [c]"
        using container_close [of k cs1 d] comma_or_end close(1) by auto
      from close_step_at [OF w tok models v(1) close(2)] show ?thesis by (simp only: v(2))
    next
      case comma
      define f' where "f' = (if k = CHR ''{'' then f\<lparr>sf_state := objectKeyOrEnd, sf_afterComma := True\<rparr> else f\<lparr>sf_state := arrayValueRequired\<rparr>)"
      have s': "b" "s' = advance (s\<lparr>js_stack := f' # fs\<rparr>)"
        using st comma comma_or_end stack by (auto simp: f'_def comma_state_def bracket_def set_top_state_def advance_def)
      have "top_at (top_link s gs) f' None cs (upto_comma k cs @ [])"
      proof (cases "k = CHR ''{''")
        case True
        then show ?thesis using top_at.key_or_end [of f' cs "[]" "top_link s gs"] comma_or_end by (simp add: f'_def)
      next
        case False
        then have "k = CHR ''[''" using comma_or_end by (simp add: bracket_def)
        then show ?thesis using top_at.element [of f' cs "[]" "top_link s gs"] comma_or_end by (simp add: f'_def)
      qed
      then have "top_at (top_link s gs) f' None cs (tx @ [c])" using comma_or_end comma by (simp add: upto_comma_snoc)
      then show ?thesis using s'
        by (auto intro!: step_top [OF w models, of _ f' cs] simp: f'_def advance_def tok)
    qed
  qed
qed

text \<open>A byte of an open token.\<close>

lemma consumeToken_at:
  assumes w: "within s f fs gs lead enclosing" and tok: "js_token s = Some t" and models: "models_at s (root_children cs gs)"
    and top: "top_at (top_link s gs) f (Some t) cs tx" and st: "consumeToken c t s = (b, None, s')" and err: "js_err s' = None"
  shows "scan_at s' (lead @ enclosing @ tx @ (if b then [c] else []))"
proof -
  have stack: "js_stack s = f # fs" using w by (simp add: within_def)
  have goes_on: ?thesis if "b" "s' = advance (s\<lparr>js_token := Some t'\<rparr>)" "top_at (top_link s gs) f (Some t') cs (tx @ [c])" for t'
    using that step_top [OF w models, of s' f cs] stack by (simp add: advance_def)
  have comp: "complete_within (s1\<lparr>js_token := None\<rparr>) f fs gs lead enclosing cs"
    if "s1 = s \<or> s1 = advance s" "bracket (sf_kind f)" "sf_state f = comma_state (sf_kind f)" "children_ok (sf_kind f) cs" for s1
    using that w models models_at_cong [of "s1\<lparr>js_token := None\<rparr>" s] by (auto simp: complete_within_def within_def advance_def)
  have fin_idem: "finishToken u (s1\<lparr>js_token := None\<rparr>) = finishToken u s1" for u s1 by (simp add: finishToken_def Let_def)
  from top show ?thesis
  proof cases
    case (key bef t0 body)
    then have kind: "tk_kind t = tokenKey" "\<not> vc_isModel (tk_ctx t)" using string_run_inv [of t0 "[]" t0 body t]
      by (simp_all add: key_start_def string_inv_def same_token_def)
    show ?thesis
    proof (cases "closing c t")
      case True
      then have c: "c = quote" by (simp add: closing_def)
      from st kind(1) True have s': "b" "s' = finishToken (keepRaw quote t) (advance s)"
        by (simp_all add: consumeToken_def consumeStringToken_close no_model [OF kind(2)] Let_def c)
      define s1 where "s1 = (advance s)\<lparr>js_token := None\<rparr>"
      have "scan_at (finishToken (keepRaw quote t) s1) (lead @ enclosing @ upto_comma CHR ''{'' cs @ bef @ quoted body)"
        by (rule finishKey_at [of s1 f fs gs lead enclosing]) (use w models models_at_cong [of s1 s] key True c err s'(2) fin_idem [of "keepRaw quote t" "advance s"]
            in \<open>simp_all add: s1_def within_def advance_def\<close>)
      then show ?thesis using s' c key fin_idem [of "keepRaw quote t" "advance s"] by (simp add: s1_def quoted_def)
    next
      case False
      from st kind(1) obtain t' where t': "string_next c t = Inr t'" "b" "s' = advance (s\<lparr>js_token := Some t'\<rparr>)"
        by (auto simp: consumeToken_def consumeStringToken_next [OF False] split: sum.splits)
      have "string_run (body @ [c]) t0 = Some t'" using key False t'(1) by (simp add: string_run_append)
      with top_at.key [where f = f and cs = cs and bef = bef and ?t0.0 = t0 and body = "body @ [c]" and t = t' and lk = "top_link s gs"] key
      have "top_at (top_link s gs) f (Some t') cs (tx @ [c])" by simp
      with goes_on t' show ?thesis by simp
    qed
  next
    case (string k bef key t0 body)
    then have kind: "tk_kind t = tokenString" using string_run_inv [of t0 "[]" t0 body t]
      by (simp add: text_start_def string_inv_def same_token_def)
    show ?thesis
    proof (cases "closing c t")
      case True
      then have c: "c = quote" by (simp add: closing_def)
      from st kind True obtain t' where t': "finishModelDecodedString t = Inr t'" "b" "s' = finishToken (keepRaw quote t') (advance s)"
        by (auto simp: consumeToken_def consumeStringToken_close Let_def c split: sum.splits)
      have "scan_at (finishToken (keepRaw quote t') ((advance s)\<lparr>js_token := None\<rparr>))
          (lead @ enclosing @ upto_comma (sf_kind f) cs @ bef @ key_text key @ quoted body)"
        by (rule string_token_at [OF comp _ _ _ _ _ _ t'(1)])
          (use string True c err t'(3) fin_idem [of "keepRaw quote t'" "advance s"] in \<open>simp_all add: advance_def\<close>)
      then show ?thesis using t' c string fin_idem [of "keepRaw quote t'" "advance s"] by (simp add: quoted_def)
    next
      case False
      from st kind obtain t' where t': "string_next c t = Inr t'" "b" "s' = advance (s\<lparr>js_token := Some t'\<rparr>)"
        by (auto simp: consumeToken_def consumeStringToken_next [OF False] split: sum.splits)
      have "string_run (body @ [c]) t0 = Some t'" using string False t'(1) by (simp add: string_run_append)
      with top_at.string [where f = f and k = k and cs = cs and bef = bef and key = key and ?t0.0 = t0 and body = "body @ [c]" and t = t'
          and lk = "top_link s gs"] string
      have "top_at (top_link s gs) f (Some t') cs (tx @ [c])" by simp
      with goes_on t' show ?thesis by simp
    qed
  next
    case (literal k bef key)
    show ?thesis
    proof (cases "tk_literalComplete t")
      case True
      with st literal have s': "\<not> b" "s' = finishToken t s" by (auto simp: consumeToken_def consumeLiteralToken_def refuse_def split: if_splits)
      have "scan_at (finishToken t (s\<lparr>js_token := None\<rparr>)) (lead @ enclosing @ upto_comma (sf_kind f) cs @ bef @ key_text key @ tk_literal t)"
        by (rule scalar_token_at [OF comp]) (use literal err s'(2) fin_idem [of t s] in simp_all)
      then show ?thesis using s' literal True fin_idem [of t s] by simp
    next
      case False
      define u where "u = t\<lparr>tk_literalPos := tk_literalPos t + 1, tk_literalComplete := (tk_literalPos t + 1 = length (tk_literal t))\<rparr>"
      from False st literal have s': "b" "s' = advance (s\<lparr>js_token := Some u\<rparr>)" "tk_literalPos t < length (tk_literal t)" "c = tk_literal t ! tk_literalPos t"
        by (auto simp: consumeToken_def consumeLiteralToken_def refuse_def Let_def u_def split: if_splits)
      have "top_at (top_link s gs) f (Some u) cs (upto_comma k cs @ bef @ key_text key @ take (tk_literalPos u) (tk_literal u))"
        by (rule top_at.literal) (use literal s'(3) in \<open>simp_all add: u_def\<close>)
      then have "top_at (top_link s gs) f (Some u) cs (tx @ [c])" using literal s'(3,4) by (simp add: u_def take_Suc_conv_app_nth)
      with goes_on s'(1,2) show ?thesis by simp
    qed
  next
    case (number k bef key r)
    obtain n ok fin where adv: "advanceNumber (tk_numberState t) c = (n, ok, fin)" by (cases "advanceNumber (tk_numberState t) c")
    show ?thesis
    proof (cases fin)
      case True
      with st number adv have s': "\<not> b" "s' = finishToken t s" "numberTerminal (tk_numberState t)"
        by (auto simp: consumeToken_def consumeNumberToken_def refuse_def split: if_splits)
      have "scan_at (finishToken t (s\<lparr>js_token := None\<rparr>)) (lead @ enclosing @ upto_comma (sf_kind f) cs @ bef @ key_text key @ r)"
        by (rule scalar_token_at [OF comp])
          (use number err s'(2,3) fin_idem [of t s] number_prefix_terminal [of "tk_numberState t" r] in simp_all)
      then show ?thesis using s' number fin_idem [of t s] by simp
    next
      case False
      with st number adv have s': "ok" "b" "s' = advance (s\<lparr>js_token := Some (t\<lparr>tk_numberState := n\<rparr>)\<rparr>)"
        by (auto simp: consumeToken_def consumeNumberToken_def refuse_def split: if_splits)
      have "number_prefix n (r @ [c])" using number_prefix_step [of "tk_numberState t" r c n] number adv s'(1) False by simp
      then have "top_at (top_link s gs) f (Some (t\<lparr>tk_numberState := n\<rparr>)) cs (upto_comma k cs @ bef @ key_text key @ (r @ [c]))"
        by (intro top_at.number) (use number in simp_all)
      with goes_on s' number show ?thesis by simp
    qed
  qed
qed

lemma step_at:
  assumes "scan_at s tx" "limits_ok s" "step c s = (b, None, s')" "js_err s' = None"
  shows "scan_at s' (tx @ (if b then [c] else []))"
  using assms(1)
proof cases
  case before
  show ?thesis
  proof (cases "isJSONWhitespace c")
    case True
    with before assms(3) have s': "b" "s' = advance s" by (simp_all add: step_def skip_byte_def)
    have "scan_at (advance s) (tx @ [c])"
      by (rule scan_at.before) (use before True models_at_cong [of "advance s" s] in \<open>simp_all add: advance_def\<close>)
    then show ?thesis using s' by simp
  next
    case False
    then have s': "c = CHR ''{''" "b" "s' = pushContainer c (rootContext (js_offset s)) (advance (s\<lparr>js_started := True\<rparr>))"
      using before assms(3) by (auto simp: step_def split: if_splits)
    have "within s' (newFrame c (rootContext (js_offset s))) [] [] tx []"
      using before s' by (simp add: within_def pushContainer_def advance_def context_link_def newFrame_def rootContext_def zeroContext_def)
    moreover have "top_at (top_link s' []) (newFrame c (rootContext (js_offset s))) (js_token s') [] (upto_comma CHR ''{'' [] @ [])"
      using before s' top_at.key_or_end [of "newFrame c (rootContext (js_offset s))" "[]" "[]"]
      by (simp add: newFrame_def pushContainer_def advance_def)
    moreover have "models_at s' (root_children [] [])" using before models_at_cong [of s' s] s' by (simp add: pushContainer_def advance_def)
    ultimately have "scan_at s' (tx @ [] @ upto_comma CHR ''{'' [] @ [])" by (rule scan_at_within)
    then show ?thesis using s' by simp
  qed
next
  case (inside f fs lead gs enclosing cs top_tx)
  then have w: "within s f fs gs lead enclosing" by (simp add: within_def)
  show ?thesis
  proof (cases "js_token s")
    case None
    then have "frame_step c f fs s = (b, None, s')" using inside assms(3) by (simp add: step_def)
    from frame_step_at [OF w None inside(10) _ assms(2) this] inside None show ?thesis by simp
  next
    case (Some t)
    then have "consumeToken c t s = (b, None, s')" using assms(3) by (simp add: step_def)
    from consumeToken_at [OF w Some inside(10) _ this assms(4)] inside Some show ?thesis by simp
  qed
next
  case (after lead cs space trail)
  then have s': "isJSONWhitespace c" "b" "s' = advance s" using assms(3) by (auto simp: step_def skip_byte_def split: if_splits)
  with after have "document lead cs space (trail @ [c]) (tx @ [c])" by (simp add: document_def)
  then show ?thesis using after s' scan_at.after [of s' lead cs space "trail @ [c]" "tx @ [c]"] models_at_cong [of s' s] by (simp add: advance_def)
qed

section \<open>What a step leaves alone\<close>

definition same_static :: "JSONScanner \<Rightarrow> JSONScanner \<Rightarrow> bool" where
  "same_static s t \<longleftrightarrow> js_spec s = js_spec t \<and> js_trie s = js_trie t \<and> js_keyRawLimit s = js_keyRawLimit t \<and>
     js_rawMatchers s = js_rawMatchers t \<and> js_finished s = js_finished t \<and> (js_err t \<noteq> None \<longrightarrow> js_err s \<noteq> None)"

lemma same_static_refl [simp]: "same_static s s"
  by (simp add: same_static_def)

lemma same_static_trans: "same_static s t \<Longrightarrow> same_static t u \<Longrightarrow> same_static s u"
  by (simp add: same_static_def)

lemma same_static_updates [simp]:
  "same_static (s\<lparr>js_offset := n\<rparr>) t = same_static s t" "same_static (s\<lparr>js_token := tk\<rparr>) t = same_static s t"
  "same_static (s\<lparr>js_stack := st\<rparr>) t = same_static s t" "same_static (s\<lparr>js_started := b\<rparr>) t = same_static s t"
  "same_static (s\<lparr>js_rootDone := b\<rparr>) t = same_static s t" "same_static (s\<lparr>js_fields := fs\<rparr>) t = same_static s t"
  "same_static (s\<lparr>js_containers := cs\<rparr>) t = same_static s t" "same_static (s\<lparr>js_modelSeen := b\<rparr>) t = same_static s t"
  "same_static (s\<lparr>js_model := m\<rparr>) t = same_static s t" "same_static (s\<lparr>js_modelRange := r\<rparr>) t = same_static s t"
  "same_static s t \<Longrightarrow> same_static (s\<lparr>js_err := Some e\<rparr>) t"
  by (simp_all add: same_static_def)

lemma static_advance [simp]: "same_static (advance s) t = same_static s t"
  by (simp add: advance_def)

lemma static_push [simp]: "same_static (pushContainer k ctx s) t = same_static s t" "same_static (put_token tk s) t = same_static s t"
  by (simp_all add: pushContainer_def put_token_def)

lemma static_set_top [simp]: "same_static (set_top_state st s) t = same_static s t"
  by (simp add: set_top_state_def split: list.split)

lemma static_note [simp]: "same_static s t \<Longrightarrow> same_static (noteNextSibling n s) t"
  by (simp add: noteNextSibling_def Let_def split: list.split option.split)

lemma static_completeValue [simp]: "same_static s t \<Longrightarrow> same_static (completeValue ctx ty r str pos s) t"
  by (auto simp: completeValue_def add_field_def model_result_def Let_def split: prod.splits bool.splits list.splits if_splits)

lemma static_finishToken [simp]: "same_static s t \<Longrightarrow> same_static (finishToken tk s) t"
  by (auto simp: finishToken_def finishKey_def Let_def split: scanTokenKind.splits list.splits option.splits)

lemma static_close: "close_step s = (b, e, s') \<Longrightarrow> same_static s' s"
  by (auto simp: close_step_def closeContainer_def Let_def split: list.splits if_splits)

lemma static_startValue: "startValue c ctx s = (b, e, s') \<Longrightarrow> same_static s t \<Longrightarrow> same_static s' t"
  by (auto simp: startValue_def Let_def refuse_def split: list.splits if_splits option.splits)

lemma static_consumeToken: "consumeToken c tk s = (b, e, s') \<Longrightarrow> same_static s' s"
  by (auto simp: consumeToken_def consumeStringToken_def consumeLiteralToken_def consumeNumberToken_def refuse_def token_goes_on_def Let_def
      split: scanTokenKind.splits if_splits sum.splits prod.splits)

lemma static_frame_step: "frame_step c f fs s = (b, e, s') \<Longrightarrow> same_static s' s"
  by (auto simp: frame_step_def skip_byte_def refuse_def startKey_def startElement_def Let_def
      dest: static_close static_startValue [of _ _ _ _ _ _ s]
      split: if_splits frameState.splits list.splits)

lemma step_static: "step c s = (b, e, s') \<Longrightarrow> same_static s' s"
  by (auto simp: step_def skip_byte_def dest: static_consumeToken static_frame_step split: option.splits if_splits list.splits)

section \<open>Writing\<close>

definition read_at :: "JSONScanner \<Rightarrow> string \<Rightarrow> bool" where
  "read_at s tx \<longleftrightarrow> limits_ok s \<and> (js_err s = None \<longrightarrow> scan_at s tx)"

lemma write_loop_static: "same_static (snd (snd (write_loop p n s))) s"
proof (induction p n s rule: write_loop.induct)
  case (2 c p n s)
  show ?case
  proof (cases "step c s")
    case (fields b e s')
    then show ?thesis using 2 [OF fields [symmetric]] step_static [OF fields]
      by (auto simp: Let_def intro: same_static_trans split: option.split)
  qed
qed simp

lemma limits_static: "same_static s t \<Longrightarrow> limits_ok t \<Longrightarrow> limits_ok s"
  by (simp add: limits_ok_def same_static_def)

lemma write_loop_at:
  assumes "read_at s tx"
  shows "read_at (snd (snd (write_loop p n s))) (tx @ p)"
  using assms
proof (induction p n s arbitrary: tx rule: write_loop.induct)
  case (2 c p n s)
  show ?case
  proof (cases "step c s")
    case (fields b e s')
    note static = step_static [OF fields]
    show ?thesis
    proof (cases e)
      case (Some x)
      then show ?thesis using fields 2(3) limits_static [OF static] by (simp add: read_at_def Let_def limits_ok_def)
    next
      case None
      have at: "read_at s' (tx @ (if b then [c] else []))"
        using step_at [of s tx c b s'] 2(3) fields None static limits_static [OF static] by (auto simp: read_at_def same_static_def)
      show ?thesis
      proof (cases b)
        case True
        then show ?thesis using 2(1) [OF fields [symmetric] refl None True, of "tx @ [c]"] at fields None by simp
      next
        case False
        then show ?thesis using 2(2) [OF fields [symmetric] refl None False, of tx] at fields None by simp
      qed
    qed
  qed
qed simp

lemma scan_at_matchers: "scan_at s tx \<Longrightarrow> scan_at (s\<lparr>js_rawMatchers := ms, js_finished := b\<rparr>) tx"
proof (erule scan_at.cases)
  fix tt
  assume "tx = tt" "\<not> js_started s" "\<not> js_rootDone s" "js_stack s = []" "js_token s = None" "white tt" "models_at s []"
  then show ?thesis using models_at_cong [of "s\<lparr>js_rawMatchers := ms, js_finished := b\<rparr>" s "[]"] scan_at.before [of "s\<lparr>js_rawMatchers := ms, js_finished := b\<rparr>" tt] by simp
next
  fix f fs lead gs enclosing cs tt
  assume a: "tx = lead @ enclosing @ tt" "js_started s" "\<not> js_rootDone s" "js_stack s = f # fs" "white lead"
    "stack_at (sp_RequireModel (js_spec s)) fs gs enclosing" "context_link (sp_RequireModel (js_spec s)) gs (sf_ctx f)"
    "gs = [] \<longrightarrow> sf_kind f = CHR ''{''" "top_at (top_link s gs) f (js_token s) cs tt" "models_at s (root_children cs gs)"
  then have "within s f fs gs lead enclosing" by (simp add: within_def)
  from step_top [OF this a(10), of "s\<lparr>js_rawMatchers := ms, js_finished := b\<rparr>" f cs tt] a show ?thesis by simp
next
  fix lead cs space trail tt
  assume "tx = tt" "js_started s" "js_rootDone s" "js_stack s = []" "js_token s = None" "document lead cs space trail tt" "models_at s cs"
  then show ?thesis using models_at_cong [of "s\<lparr>js_rawMatchers := ms, js_finished := b\<rparr>" s cs] scan_at.after [of "s\<lparr>js_rawMatchers := ms, js_finished := b\<rparr>" lead cs space trail tt] by simp
qed

lemma Write_at:
  assumes "read_at s tx" "JSONScanner_Write p s = Some (n, e, s')" "\<not> js_finished s"
  shows "read_at s' (tx @ p) \<and> \<not> js_finished s' \<and> js_spec s' = js_spec s"
proof (cases "js_err s = None")
  case True
  with assms obtain ms where ms: "write_loop p 0 (s\<lparr>js_rawMatchers := ms\<rparr>) = (n, e, s')" by (auto simp: JSONScanner_Write_def split: option.splits)
  have "read_at (s\<lparr>js_rawMatchers := ms\<rparr>) tx" using assms(1) True scan_at_matchers [where ms = ms and s = s and tx = tx and b = "js_finished s"] by (simp add: read_at_def limits_ok_def)
  from write_loop_at [OF this, of p 0] write_loop_static [of p 0 "s\<lparr>js_rawMatchers := ms\<rparr>"] ms assms(3) show ?thesis
    by (simp add: same_static_def)
qed (use assms in \<open>auto simp: JSONScanner_Write_def read_at_def\<close>)

section \<open>A complete scan\<close>

text \<open>
  The loop of \<open>captureAndScanWithCompiledBuilder\<close> and \<open>ScanBody\<close> over the bytes that each read
  returns; the first error ends it.
\<close>

fun write_all :: "string list \<Rightarrow> JSONScanner \<Rightarrow> (scan_error option \<times> JSONScanner) option" where
  "write_all [] s = Some (None, s)"
| "write_all (p # ps) s =
     (case JSONScanner_Write p s of
        None \<Rightarrow> None
      | Some (n, Some e, s) \<Rightarrow> Some (Some e, s)
      | Some (n, None, s) \<Rightarrow> write_all ps s)"

definition scan_chunks :: "CompiledScanSpec \<Rightarrow> string list \<Rightarrow> (scan_error + ScanResult) option" where
  "scan_chunks spec chunks =
     (case write_all chunks (newScanner spec) of
        None \<Rightarrow> None
      | Some (Some e, s) \<Rightarrow> Some (Inl e)
      | Some (None, s) \<Rightarrow> Some (fst (JSONScanner_Finish s)))"

lemma write_all_at:
  assumes "write_all ps s = Some (None, s')" "read_at s tx" "\<not> js_finished s"
  shows "read_at s' (tx @ concat ps) \<and> \<not> js_finished s' \<and> js_spec s' = js_spec s"
  using assms
proof (induction ps arbitrary: s tx)
  case (Cons p ps)
  then obtain n s1 where "JSONScanner_Write p s = Some (n, None, s1)" "write_all ps s1 = Some (None, s')"
    by (auto split: option.splits prod.splits)
  with Write_at [OF Cons.prems(2) this(1) Cons.prems(3)] Cons.IH [OF this(2), of "tx @ p"] show ?case by simp
qed simp

lemma finish_token_at_end_at:
  assumes "scan_at s tx" "finish_token_at_end s = (None, s')"
  shows "js_spec s' = js_spec s \<and> scan_at s' tx"
proof (cases "js_token s")
  case None
  with assms show ?thesis by (simp add: finish_token_at_end_def)
next
  case (Some t)
  have s': "s' = finishToken t s" "js_err s' = None" and kind: "tk_kind t = tokenLiteral \<and> tk_literalComplete t \<or> tk_kind t = tokenNumber \<and> numberTerminal (tk_numberState t)"
    using assms(2) Some by (auto simp: finish_token_at_end_def Let_def split: scanTokenKind.splits if_splits)
  have static: "js_spec s' = js_spec s" using static_finishToken [of s s t] s' by (simp add: same_static_def)
  from assms(1) show ?thesis
  proof cases
    case (inside f fs lead gs enclosing cs tt)
    define s1 where "s1 = s\<lparr>js_token := None\<rparr>"
    have s1: "s' = finishToken t s1" by (simp add: s1_def s' finishToken_def Let_def)
    have models: "models_at s1 cs' \<longleftrightarrow> models_at s cs'" for cs' using models_at_cong [of s1 s] by (simp add: s1_def)
    have "top_at (top_link s gs) f (Some t) cs tt" using inside Some by simp
    then show ?thesis
    proof cases
      case (literal k bef key)
      with kind have "take (tk_literalPos t) (tk_literal t) = tk_literal t" by auto
      moreover have "scan_at (finishToken t s1) (lead @ enclosing @ upto_comma (sf_kind f) cs @ bef @ key_text key @ tk_literal t)"
        by (rule scalar_token_at [of s1 f fs gs]) (use literal inside models s'(2) s1 in \<open>simp_all add: complete_within_def within_def s1_def\<close>)
      ultimately show ?thesis using inside literal s1 static by simp
    next
      case (number k bef key r)
      then have "number_text r" using kind number_prefix_terminal [of "tk_numberState t" r] by simp
      then have "scan_at (finishToken t s1) (lead @ enclosing @ upto_comma (sf_kind f) cs @ bef @ key_text key @ r)"
        by (intro scalar_token_at [of s1 f fs gs]) (use number inside models s'(2) s1 in \<open>simp_all add: complete_within_def within_def s1_def\<close>)
      then show ?thesis using inside number s1 static by simp
    next
      case (key bef t0 body)
      then show ?thesis using kind string_run_inv [of t0 "[]" t0 body t] by (auto simp: key_start_def string_inv_def same_token_def)
    next
      case (string k bef key t0 body)
      then show ?thesis using kind string_run_inv [of t0 "[]" t0 body t] by (auto simp: text_start_def string_inv_def same_token_def)
    qed
  qed (use Some in simp_all)
qed

lemma Finish_at:
  assumes at: "read_at s tx" and open_: "\<not> js_finished s" and fin: "fst (JSONScanner_Finish s) = Inr r"
  shows "\<exists>lead cs space trail. document lead cs space trail tx \<and> model_ok (sp_RequireModel (js_spec s)) cs"
proof -
  define s0 where "s0 = s\<lparr>js_finished := True\<rparr>"
  from fin open_ obtain s1 where err: "js_err s = None" and t: "finish_token_at_end s0 = (None, s1)"
    and s1: "js_started s1" "js_rootDone s1" "js_stack s1 = []" "sp_RequireModel (js_spec s1) \<longrightarrow> js_modelSeen s1"
    by (auto simp: JSONScanner_Finish_def scan_fail_def Let_def s0_def split: option.splits prod.splits if_splits)
  have "scan_at s0 tx" using at err scan_at_matchers [where ms = "js_rawMatchers s" and s = s and tx = tx and b = True] by (simp add: read_at_def s0_def)
  from finish_token_at_end_at [OF this t] have "scan_at s1 tx" and spec: "js_spec s1 = js_spec s" by (simp_all add: s0_def)
  from this(1) s1(1-3) obtain lead cs space trail where d: "document lead cs space trail tx" and m: "models_at s1 cs" by cases auto
  have "model_ok (sp_RequireModel (js_spec s)) cs"
  proof -
    have "\<exists>c. model_members cs = [c] \<and> good_model (ch_value c)" if "sp_RequireModel (js_spec s)"
      using that m s1(4) spec by (cases "model_members cs") (auto simp: models_at_def)
    then show ?thesis by (simp add: model_ok_def)
  qed
  with d show ?thesis by blast
qed

lemma newScanner_read: "64 \<le> cs_keyRawLimit spec \<Longrightarrow> read_at (newScanner spec) [] \<and> \<not> js_finished (newScanner spec)"
  using scan_at.before [of "newScanner spec" "[]"] by (simp add: read_at_def newScanner_def limits_ok_def models_at_def)

lemma scan_chunks_sound:
  assumes "scan_chunks spec chunks = Some (Inr r)" "64 \<le> cs_keyRawLimit spec"
  shows "\<exists>lead cs space trail. document lead cs space trail (concat chunks) \<and> model_ok (sp_RequireModel (cs_spec spec)) cs"
proof -
  from assms(1) obtain s where s: "write_all chunks (newScanner spec) = Some (None, s)" "fst (JSONScanner_Finish s) = Inr r"
    by (auto simp: scan_chunks_def split: option.splits)
  from write_all_at [OF s(1), of "[]"] newScanner_read [OF assms(2)] have at: "read_at s (concat chunks)" "\<not> js_finished s"
    and "js_spec s = cs_spec spec" by (simp_all add: newScanner_def)
  with Finish_at [OF at s(2)] show ?thesis by simp
qed

lemma compiled_limit: "CompileScanSpec spec = Some (Inr c) \<Longrightarrow> 64 \<le> cs_keyRawLimit c"
  by (auto simp: CompileScanSpec_def selectorKeyRawLimit_def Let_def split: option.splits if_splits)

end
