(* ===== verification/Body_Complete.thy ===== *)
theory Body_Complete
  imports Body_Sound
begin

text \<open>
  Completeness of the scanner of package bodyfile: a document that names its model as a request must
  is accepted however it is cut into chunks, and the fields and containers that are recorded are
  those of the reference index of its syntax tree.
\<close>

section \<open>Scanning without an error\<close>

definition consume :: "char \<Rightarrow> JSONScanner \<Rightarrow> JSONScanner option" where
  "consume c s =
     (case step c s of
        (_, Some e, _) \<Rightarrow> None
      | (True, None, s) \<Rightarrow> Some s
      | (False, None, s) \<Rightarrow> (case step c s of (True, None, s) \<Rightarrow> Some s | _ \<Rightarrow> None))"

fun scans :: "string \<Rightarrow> JSONScanner \<Rightarrow> JSONScanner option" where
  "scans [] s = Some s"
| "scans (c # p) s = (case consume c s of None \<Rightarrow> None | Some s \<Rightarrow> scans p s)"

lemma scans_append: "scans (p @ q) s = (case scans p s of None \<Rightarrow> None | Some s \<Rightarrow> scans q s)"
  by (induction p arbitrary: s) (simp_all split: option.split)

lemma scans_write: "scans p s = Some s' \<Longrightarrow> write_loop p n s = (n + length p, None, s')"
proof (induction p arbitrary: s n)
  case (Cons c p)
  then obtain s1 where s1: "consume c s = Some s1" "scans p s1 = Some s'" by (auto split: option.splits)
  then consider "step c s = (True, None, s1)" | s0 where "step c s = (False, None, s0)" "step c s0 = (True, None, s1)"
    by (auto simp: consume_def split: prod.splits option.splits bool.splits)
  then have "write_loop (c # p) n s = write_loop p (n + 1) s1"
  proof cases
    case 1
    then show ?thesis by (simp only: write_loop.simps(2) [of c p n s] prod.case option.case if_True)
  next
    case 2
    then show ?thesis by (simp only: write_loop.simps(2) [of c p n s] write_loop.simps(2) [of c p n s0] prod.case option.case if_True if_False)
  qed
  with Cons.IH [OF s1(2), of "n + 1"] show ?case by (simp del: write_loop.simps)
qed simp

lemma consume_step: "step c s = (True, None, s') \<Longrightarrow> consume c s = Some s'"
  by (simp add: consume_def)

text \<open>A scalar is complete at the delimiter after it.\<close>

definition delimited :: "string \<Rightarrow> bool" where
  "delimited p \<longleftrightarrow> p \<noteq> [] \<and> isJSONDelimiter (hd p)"

lemma scans_settle:
  assumes "delimited p" "\<And>c. isJSONDelimiter c \<Longrightarrow> step c s = (False, None, s')"
  shows "scans p s = scans p s'"
proof -
  from assms(1) obtain c r where p: "p = c # r" "isJSONDelimiter c" by (cases p) (auto simp: delimited_def)
  with assms(2) have st: "step c s = (False, None, s')" by simp
  then have "js_token s' = None" using step_unconsumed [OF st] by simp
  then have "\<exists>e s''. step c s' = (True, e, s'')" using step_unconsumed [of c s'] by (cases "step c s'") (metis (full_types))
  with st have "consume c s = consume c s'" by (auto simp: consume_def split: option.split)
  with p show ?thesis by simp
qed

text \<open>White space between tokens.\<close>

lemma consume_white:
  assumes "js_token s = None" "isJSONWhitespace c" "js_started s \<longrightarrow> js_rootDone s \<or> js_stack s \<noteq> []" "\<not> js_started s \<longrightarrow> \<not> js_rootDone s"
  shows "consume c s = Some (advance s)"
  using assms by (intro consume_step) (auto simp: step_def frame_step_def skip_byte_def split: list.split)

lemma scans_white:
  assumes "js_token s = None" "white w" "js_started s \<longrightarrow> js_rootDone s \<or> js_stack s \<noteq> []" "\<not> js_started s \<longrightarrow> \<not> js_rootDone s"
  shows "scans (w @ p) s = scans p (s\<lparr>js_offset := js_offset s + length w\<rparr>)"
  using assms
proof (induction w arbitrary: s)
  case (Cons c w)
  then have "consume c s = Some (advance s)" by (intro consume_white) simp_all
  with Cons.IH [of "advance s"] Cons.prems show ?case by (simp add: advance_def)
qed simp

lemma scans_white_in:
  assumes "js_token s = None" "white w" "js_started s" "js_stack s \<noteq> []"
  shows "scans (w @ p) s = scans p (s\<lparr>js_offset := js_offset s + length w\<rparr>)"
  by (rule scans_white) (use assms in simp_all)

text \<open>The body of a string or key.\<close>

lemma scans_string:
  assumes "js_token s = Some t" "tk_kind t = tokenKey \<or> tk_kind t = tokenString" "string_run body t = Some t'"
    "string_inv t0 b t"
  shows "scans (body @ p) s = scans p (s\<lparr>js_token := Some t', js_offset := js_offset s + length body\<rparr>)"
  using assms
proof (induction body arbitrary: s t b)
  case Nil
  then have "s\<lparr>js_token := Some t'\<rparr> = s" by simp
  then show ?case by simp
next
  case (Cons c body)
  then obtain u where u: "\<not> closing c t" "string_next c t = Inr u" "string_run body u = Some t'" by (auto split: if_splits sum.splits)
  have inv: "string_inv t0 (b @ [c]) u" by (rule string_next_inv [OF Cons.prems(4) u(2,1)])
  have kind: "tk_kind u = tokenKey \<or> tk_kind u = tokenString"
    using inv Cons.prems(2,4) by (simp add: string_inv_def same_token_def)
  define s1 where "s1 = advance (s\<lparr>js_token := Some u\<rparr>)"
  have "consume c s = Some s1"
    by (intro consume_step) (use Cons.prems u in \<open>auto simp: step_def consumeToken_def consumeStringToken_next s1_def split: scanTokenKind.split\<close>)
  with Cons.IH [of s1 u "b @ [c]"] inv kind u(3) show ?case by (simp add: s1_def advance_def)
qed

section \<open>Values\<close>

definition live :: "JSONScanner \<Rightarrow> bool" where
  "live s \<longleftrightarrow> js_token s = None \<and> js_started s \<and> \<not> js_rootDone s \<and> js_stack s \<noteq> [] \<and> js_err s = None"

definition top_comma :: "JSONScanner \<Rightarrow> JSONScanner" where
  "top_comma s = (case js_stack s of [] \<Rightarrow> s
     | f # fs \<Rightarrow> s\<lparr>js_stack := f\<lparr>sf_state := if sf_kind f = CHR ''{'' then objectCommaOrEnd else arrayCommaOrEnd\<rparr> # fs\<rparr>)"

text \<open>The scanner after a value: what is inside has been recorded, and then the value itself.\<close>

definition after_value :: "valueContext \<Rightarrow> json \<Rightarrow> JSONScanner \<Rightarrow> JSONScanner" where
  "after_value ctx v s =
     completeValue ctx (json_type v) (string_range ctx v) (if vc_isModel ctx then the (model_text v) else []) (value_end ctx v)
       ((top_comma s)\<lparr>js_offset := value_end ctx v, js_fields := js_fields s @ value_fields (js_trie s) False ctx v,
          js_containers := js_containers s @ value_containers (js_trie s) False False ctx v\<rparr>)"

definition start_byte :: "char \<Rightarrow> bool" where
  "start_byte c \<longleftrightarrow> \<not> isJSONWhitespace c \<and> c \<noteq> CHR '']'' \<and> c \<noteq> CHR ''}''"

text \<open>Every selector step fits into the keys that are kept.\<close>

definition trie_fits :: "JSONScanner \<Rightarrow> bool" where
  "trie_fits s \<longleftrightarrow> 64 \<le> js_keyRawLimit s \<and>
     (\<forall>node \<in> set (tr_nodes (js_trie s)). \<forall>segment. Some segment \<in> set node \<longrightarrow> 8 * length segment + 2 \<le> js_keyRawLimit s)"

definition value_runs :: "json \<Rightarrow> bool" where
  "value_runs v \<longleftrightarrow>
     (\<forall>ctx s rest. live s \<and> trie_fits s \<and> vc_start ctx = js_offset s \<and> (vc_isModel ctx \<longrightarrow> good_model v \<and> \<not> js_modelSeen s) \<and> delimited rest \<longrightarrow>
       (\<exists>c r s2. json_text v = c # r \<and> start_byte c \<and> startValue c ctx s = (True, None, s2) \<and> scans (r @ rest) s2 = scans rest (after_value ctx v s)))"

lemma startValue_eq:
  assumes "live s"
  shows "startValue c ctx s =
     (if c = quote then (True, None, put_token (string_token ctx) (advance (top_comma s)))
      else if c = CHR ''{'' \<or> c = CHR ''['' then (True, None, pushContainer c ctx (advance (top_comma s)))
      else if c = CHR ''t'' \<or> c = CHR ''f'' \<or> c = CHR ''n'' then
        (True, None, put_token (zeroToken\<lparr> tk_kind := tokenLiteral, tk_start := vc_start ctx, tk_ctx := ctx,
           tk_literal := literal_of c, tk_literalPos := 1, tk_literalComplete := False \<rparr>) (advance (top_comma s)))
      else case initialNumberState c of
        Some n \<Rightarrow> (True, None, put_token (zeroToken\<lparr> tk_kind := tokenNumber, tk_start := vc_start ctx, tk_ctx := ctx, tk_numberState := n \<rparr>) (advance (top_comma s)))
      | None \<Rightarrow> refuse ''unexpected JSON value byte'' (top_comma s))"
proof -
  from assms obtain f fs where "js_stack s = f # fs" by (auto simp: live_def neq_Nil_conv)
  then have "(case js_stack s of [] \<Rightarrow> s | f # _ \<Rightarrow> set_top_state (if sf_kind f = CHR ''{'' then objectCommaOrEnd else arrayCommaOrEnd) s) = top_comma s"
    by (simp add: top_comma_def set_top_state_def)
  then show ?thesis by (simp add: startValue_def Let_def string_token_def literal_of_def)
qed

lemma top_comma_fields [simp]:
  "js_offset (top_comma s) = js_offset s" "js_token (top_comma s) = js_token s" "js_err (top_comma s) = js_err s"
  "js_trie (top_comma s) = js_trie s" "js_fields (top_comma s) = js_fields s" "js_containers (top_comma s) = js_containers s"
  "js_started (top_comma s) = js_started s" "js_rootDone (top_comma s) = js_rootDone s" "js_modelSeen (top_comma s) = js_modelSeen s"
  "js_spec (top_comma s) = js_spec s" "js_keyRawLimit (top_comma s) = js_keyRawLimit s" "js_model (top_comma s) = js_model s"
  "js_modelRange (top_comma s) = js_modelRange s"
  by (simp_all add: top_comma_def split: list.split)

lemma after_scalar:
  assumes "js_token s = None" "value_fields (js_trie s) False ctx v = []" "value_containers (js_trie s) False False ctx v = []"
  shows "after_value ctx v s =
    completeValue ctx (json_type v) (string_range ctx v) (if vc_isModel ctx then the (model_text v) else []) (value_end ctx v)
      ((top_comma s)\<lparr>js_offset := value_end ctx v, js_token := None\<rparr>)"
proof -
  have "(top_comma s)\<lparr>js_offset := value_end ctx v, js_fields := js_fields s, js_containers := js_containers s\<rparr> =
      (top_comma s)\<lparr>js_offset := value_end ctx v, js_token := None\<rparr>"
    by (rule JSONScanner.equality) (simp_all add: assms(1))
  then show ?thesis using assms(2,3) by (simp add: after_value_def)
qed

lemma completeValue_err:
  assumes "js_err s = None" "vc_isModel ctx \<longrightarrow> \<not> js_modelSeen s \<and> ty = JSONString \<and> str \<noteq> []"
  shows "js_err (completeValue ctx ty r str pos s) = None"
  using assms by (auto simp: completeValue_def model_result_def add_field_def Let_def split: list.split)

lemma Text_runs:
  assumes "string_body body"
  shows "value_runs (Text body)"
  unfolding value_runs_def
proof (intro allI impI, elim conjE)
  fix ctx :: valueContext and s :: JSONScanner and rest
  assume s: "live s" "vc_start ctx = js_offset s" "vc_isModel ctx \<longrightarrow> good_model (Text body) \<and> \<not> js_modelSeen s"
  define t0 where "t0 = string_token ctx"
  from string_token_start have t0: "text_start t0" "tk_ctx t0 = ctx" "tk_start t0 = vc_start ctx"
    by (simp_all add: t0_def) (simp add: string_token_def)
  then have inv0: "string_inv t0 [] t0" "tk_kind t0 = tokenString" by (simp_all add: text_start_def)
  have good: "good_body body" "the (model_text (Text body)) = the (unquote_body body)" "the (unquote_body body) \<noteq> []" if "vc_isModel ctx"
    using s(3) that assms by (auto simp: good_model_def model_text_def good_body_def split: if_splits)
  have "\<exists>t t'. string_run body t0 = Some t \<and> finishModelDecodedString t = Inr t'"
  proof (cases "vc_isModel ctx")
    case True
    then show ?thesis using good_passes_model [of t0 body] t0 good(1) by (simp add: text_start_def)
  next
    case False
    with string_run_plain [of t0 t0 "[]" body] t0(2) inv0 assms obtain t where t: "string_run body t0 = Some t" by auto
    with string_run_inv [OF inv0(1) t] False t0(2) have "\<not> vc_isModel (tk_ctx t)" by (simp add: string_inv_def same_token_def)
    with t no_model show ?thesis by auto
  qed
  then obtain t t' where t: "string_run body t0 = Some t" "finishModelDecodedString t = Inr t'" by auto
  have inv: "string_inv t0 body t" using string_run_inv [OF inv0(1) t(1)] by simp
  then have close: "closing quote t" and kind: "tk_kind t = tokenString"
    using string_inv_body [OF inv] assms inv0(2) by (simp_all add: closing_def string_inv_def same_token_def)
  define s2 where "s2 = put_token t0 (advance (top_comma s))"
  define s3 where "s3 = s2\<lparr>js_token := Some t, js_offset := js_offset s2 + length body\<rparr>"
  have fin: "finishToken (keepRaw quote t') (advance s3) = after_value ctx (Text body) s"
    using finish_string [OF t0(1) t(1) assms t(2), of "advance s3"] good t0(2,3) s(1,2)
    by (auto simp: after_scalar s3_def s2_def put_token_def advance_def json_type_def string_range_def value_end_def quoted_def live_def)
  have "js_err (after_value ctx (Text body) s) = None" unfolding after_value_def
    by (rule completeValue_err) (use s good in \<open>auto simp: live_def json_type_def\<close>)
  then have "consume quote s3 = Some (after_value ctx (Text body) s)"
    using fin kind t(2) by (intro consume_step) (simp add: step_def s3_def consumeToken_def consumeStringToken_close [OF close] Let_def)
  moreover have "scans ((body @ [quote]) @ rest) s2 = scans (quote # rest) s3"
    using scans_string [of s2 t0 body t t0 "[]" "quote # rest"] t(1) inv0 by (simp add: s3_def s2_def put_token_def)
  ultimately have "scans ((body @ [quote]) @ rest) s2 = scans rest (after_value ctx (Text body) s)" by simp
  moreover have "startValue quote ctx s = (True, None, s2)" by (simp add: startValue_eq [OF s(1)] s2_def t0_def)
  moreover have "start_byte quote" by (simp add: start_byte_def quote_def isJSONWhitespace_def)
  ultimately show "\<exists>c r s2. json_text (Text body) = c # r \<and> start_byte c \<and> startValue c ctx s = (True, None, s2) \<and>
      scans (r @ rest) s2 = scans rest (after_value ctx (Text body) s)"
    by (intro exI [of _ quote] exI [of _ "body @ [quote]"] exI [of _ s2]) (simp add: quoted_def)
qed

lemma scans_literal:
  assumes "js_token s = Some t" "tk_kind t = tokenLiteral" "\<not> tk_literalComplete t" "tk_literalPos t < length (tk_literal t)"
  shows "scans (drop (tk_literalPos t) (tk_literal t) @ p) s =
    scans p (s\<lparr>js_token := Some (t\<lparr>tk_literalPos := length (tk_literal t), tk_literalComplete := True\<rparr>),
      js_offset := js_offset s + (length (tk_literal t) - tk_literalPos t)\<rparr>)"
  using assms
proof (induction "length (tk_literal t) - tk_literalPos t" arbitrary: s t)
  case (Suc n)
  define u where "u = t\<lparr>tk_literalPos := tk_literalPos t + 1, tk_literalComplete := (tk_literalPos t + 1 = length (tk_literal t))\<rparr>"
  define s1 where "s1 = advance (s\<lparr>js_token := Some u\<rparr>)"
  have c: "drop (tk_literalPos t) (tk_literal t) = tk_literal t ! tk_literalPos t # drop (tk_literalPos u) (tk_literal u)"
    using Suc.prems(4) by (simp add: u_def Cons_nth_drop_Suc)
  have "consume (tk_literal t ! tk_literalPos t) s = Some s1"
    by (intro consume_step) (use Suc.prems in \<open>simp add: step_def consumeToken_def consumeLiteralToken_def Let_def s1_def u_def\<close>)
  then have st: "scans (drop (tk_literalPos t) (tk_literal t) @ p) s = scans (drop (tk_literalPos u) (tk_literal u) @ p) s1" by (simp add: c)
  show ?case
  proof (cases "tk_literalPos u = length (tk_literal u)")
    case True
    then have "u = t\<lparr>tk_literalPos := length (tk_literal t), tk_literalComplete := True\<rparr>" by (simp add: u_def)
    moreover have "js_offset s + (length (tk_literal t) - tk_literalPos t) = js_offset s + 1" using True by (simp add: u_def)
    ultimately show ?thesis using True st by (simp only: s1_def advance_def u_def) simp
  next
    case False
    moreover have "js_offset s + (length (tk_literal t) - tk_literalPos t) = js_offset s + 1 + (length (tk_literal t) - (tk_literalPos t + 1))"
      using Suc.prems(4) by simp
    ultimately show ?thesis using Suc.hyps(1) [of u s1] Suc.hyps(2) Suc.prems st
      by (simp only: s1_def advance_def u_def) simp
  qed
qed simp

lemma scans_number:
  assumes "js_token s = Some t" "tk_kind t = tokenNumber" "number_run (tk_numberState t) r = Some n"
  shows "scans (r @ p) s = scans p (s\<lparr>js_token := Some (t\<lparr>tk_numberState := n\<rparr>), js_offset := js_offset s + length r\<rparr>)"
  using assms
proof (induction r arbitrary: s t)
  case Nil
  then have "s\<lparr>js_token := Some (t\<lparr>tk_numberState := n\<rparr>)\<rparr> = s" by simp
  then show ?case by simp
next
  case (Cons c r)
  then obtain n' where n': "advanceNumber (tk_numberState t) c = (n', True, False)" "number_run n' r = Some n"
    by (auto split: prod.splits if_splits)
  define s1 where "s1 = advance (s\<lparr>js_token := Some (t\<lparr>tk_numberState := n'\<rparr>)\<rparr>)"
  have "consume c s = Some s1"
    by (intro consume_step) (use Cons.prems n' in \<open>simp add: step_def consumeToken_def consumeNumberToken_def s1_def\<close>)
  with Cons.IH [of s1 "t\<lparr>tk_numberState := n'\<rparr>"] Cons.prems(2) n'(2) show ?case by (simp add: s1_def advance_def)
qed

lemma delimiter_plain: "isJSONDelimiter c \<Longrightarrow> \<not> is_digit c \<and> c \<noteq> CHR ''.'' \<and> c \<noteq> CHR ''e'' \<and> c \<noteq> CHR ''E''"
  by (auto simp: isJSONDelimiter_def isJSONWhitespace_def is_digit_def byte_def)

lemma delimiter_terminal:
  assumes "numberTerminal n" "isJSONDelimiter c"
  shows "\<exists>n' ok. advanceNumber n c = (n', ok, True)"
  using assms delimiter_plain [OF assms(2)] by (cases n) (simp_all add: numberTerminal_def advanceNumber_def, blast+)

text \<open>A scalar that is complete becomes a value at the delimiter.\<close>

definition complete_token :: "scanToken \<Rightarrow> bool" where
  "complete_token t \<longleftrightarrow> tk_kind t = tokenLiteral \<and> tk_literalComplete t \<or> tk_kind t = tokenNumber \<and> numberTerminal (tk_numberState t)"

lemma settle_token:
  assumes "js_token s = Some t" "complete_token t" "delimited p"
  shows "scans p s = scans p (finishToken t s)"
proof (rule scans_settle [OF assms(3)])
  fix c
  assume c: "isJSONDelimiter c"
  show "step c s = (False, None, finishToken t s)"
  proof (cases "tk_kind t = tokenLiteral")
    case True
    with assms c show ?thesis by (simp add: step_def consumeToken_def consumeLiteralToken_def complete_token_def)
  next
    case False
    with assms c delimiter_terminal [of "tk_numberState t" c] show ?thesis
      by (auto simp: step_def consumeToken_def consumeNumberToken_def complete_token_def)
  qed
qed

lemma literal_start:
  assumes "literal_text s"
  shows "s = hd s # tl s \<and> tl s \<noteq> [] \<and> (hd s = CHR ''t'' \<or> hd s = CHR ''f'' \<or> hd s = CHR ''n'') \<and> literal_of (hd s) = s"
  using assms unfolding literal_text_def by (elim disjE) (simp_all add: literal_of_def)

lemma number_start: "initialNumberState c = Some n \<Longrightarrow>
    start_byte c \<and> c \<noteq> quote \<and> c \<noteq> CHR ''{'' \<and> c \<noteq> CHR ''['' \<and> c \<noteq> CHR ''t'' \<and> c \<noteq> CHR ''f'' \<and> c \<noteq> CHR ''n''"
  by (auto simp: initialNumberState_def start_byte_def isJSONWhitespace_def quote_def nonzero_digit_def byte_def split: if_splits)

lemma number_not_literal:
  assumes "number_text s"
  shows "\<not> literal_text s"
proof -
  from number_text_run [OF assms] obtain c r n where "s = c # r" "initialNumberState c = Some n" by auto
  with number_start [of c n] show ?thesis by (auto simp: literal_text_def)
qed

lemma Scalar_runs:
  assumes "literal_text s \<or> number_text s"
  shows "value_runs (Scalar s)"
  unfolding value_runs_def
proof (intro allI impI, elim conjE)
  fix ctx :: valueContext and j :: JSONScanner and rest
  assume j: "live j" "vc_start ctx = js_offset j" "vc_isModel ctx \<longrightarrow> good_model (Scalar s) \<and> \<not> js_modelSeen j" and rest: "delimited rest"
  have plain: "\<not> vc_isModel ctx" using j(3) by (auto simp: good_model_def model_text_def)
  have fin: "finishToken t ((top_comma j)\<lparr>js_token := Some t, js_offset := js_offset j + length s\<rparr>) = after_value ctx (Scalar s) j"
    if "tk_kind t = tokenLiteral \<and> tk_literal t = s \<and> literal_text s \<or> tk_kind t = tokenNumber \<and> number_text s" "tk_ctx t = ctx" for t
    using that plain j(1,2) number_not_literal [of s]
    by (auto simp: after_scalar live_def finishToken_def Let_def json_type_def string_range_def value_end_def literal_text_def)
  show "\<exists>c r j2. json_text (Scalar s) = c # r \<and> start_byte c \<and> startValue c ctx j = (True, None, j2) \<and>
      scans (r @ rest) j2 = scans rest (after_value ctx (Scalar s) j)"
  proof (cases "literal_text s")
    case True
    note ls = literal_start [OF True]
    define t where "t = zeroToken\<lparr> tk_kind := tokenLiteral, tk_start := vc_start ctx, tk_ctx := ctx,
           tk_literal := s, tk_literalPos := 1, tk_literalComplete := False \<rparr>"
    define t2 where "t2 = t\<lparr>tk_literalPos := length s, tk_literalComplete := True\<rparr>"
    define j2 where "j2 = put_token t (advance (top_comma j))"
    have "hd s \<noteq> quote" "hd s \<noteq> CHR ''{'' \<and> hd s \<noteq> CHR ''[''" using ls by (auto simp: quote_def)
    then have st: "startValue (hd s) ctx j = (True, None, j2)"
      using ls by (simp add: startValue_eq [OF j(1)] j2_def t_def)
    have len: "1 < length s" "drop 1 s = tl s" using ls by (cases s; cases "tl s"; simp)+
    have "scans (drop (tk_literalPos t) (tk_literal t) @ rest) j2 =
        scans rest (j2\<lparr>js_token := Some t2, js_offset := js_offset j2 + (length s - 1)\<rparr>)"
      using scans_literal [of j2 t rest] len(1) by (simp add: j2_def put_token_def t_def t2_def)
    moreover have "j2\<lparr>js_token := Some t2, js_offset := js_offset j2 + (length s - 1)\<rparr> =
        (top_comma j)\<lparr>js_token := Some t2, js_offset := js_offset j + length s\<rparr>"
      using len(1) by (simp add: j2_def put_token_def advance_def)
    ultimately have "scans (tl s @ rest) j2 = scans rest ((top_comma j)\<lparr>js_token := Some t2, js_offset := js_offset j + length s\<rparr>)"
      using len(2) by (simp add: t_def)
    also have "\<dots> = scans rest (finishToken t2 ((top_comma j)\<lparr>js_token := Some t2, js_offset := js_offset j + length s\<rparr>))"
      by (rule settle_token [OF _ _ rest]) (simp_all add: complete_token_def t2_def t_def)
    also have "\<dots> = scans rest (after_value ctx (Scalar s) j)"
      by (subst fin) (use True in \<open>simp_all add: t2_def t_def\<close>)
    finally show ?thesis using st ls
      by (intro exI [of _ "hd s"] exI [of _ "tl s"] exI [of _ j2]) (auto simp: start_byte_def isJSONWhitespace_def)
  next
    case False
    with assms have num: "number_text s" by simp
    from number_text_run [OF num] obtain c r n n' where n: "s = c # r" "initialNumberState c = Some n" "number_run n r = Some n'" "numberTerminal n'"
      by auto
    define t where "t = zeroToken\<lparr> tk_kind := tokenNumber, tk_start := vc_start ctx, tk_ctx := ctx, tk_numberState := n \<rparr>"
    define t2 where "t2 = t\<lparr>tk_numberState := n'\<rparr>"
    define j2 where "j2 = put_token t (advance (top_comma j))"
    have st: "startValue c ctx j = (True, None, j2)" using number_start [OF n(2)] n(2) by (simp add: startValue_eq [OF j(1)] j2_def t_def)
    have "scans (r @ rest) j2 = scans rest (j2\<lparr>js_token := Some t2, js_offset := js_offset j2 + length r\<rparr>)"
      using scans_number [of j2 t r n' rest] n(3) by (simp add: j2_def put_token_def t_def t2_def)
    also have "j2\<lparr>js_token := Some t2, js_offset := js_offset j2 + length r\<rparr> =
        (top_comma j)\<lparr>js_token := Some t2, js_offset := js_offset j + length s\<rparr>"
      by (simp add: j2_def put_token_def advance_def n(1))
    also have "scans rest \<dots> = scans rest (finishToken t2 ((top_comma j)\<lparr>js_token := Some t2, js_offset := js_offset j + length s\<rparr>))"
      by (rule settle_token [OF _ _ rest]) (simp_all add: complete_token_def t2_def t_def n(4))
    also have "\<dots> = scans rest (after_value ctx (Scalar s) j)"
      by (subst fin) (use num in \<open>simp_all add: t2_def t_def\<close>)
    finally show ?thesis using st n(1) number_start [OF n(2)] by simp
  qed
qed

section \<open>Keys\<close>

definition frame_of :: "scanFrame \<Rightarrow> valueContext \<Rightarrow> char \<Rightarrow> bool" where
  "frame_of f ctx k \<longleftrightarrow> sf_kind f = k \<and> sf_ctx f = ctx \<and> sf_path f = vc_path ctx \<and> sf_states f = vc_states ctx \<and>
     sf_depth f = vc_depth ctx \<and> sf_start f = vc_start ctx \<and> sf_record f = vc_record ctx"

lemma note_shape:
  assumes "js_stack s = f # fs"
  shows "\<exists>flds d. noteNextSibling n s = s\<lparr>js_fields := flds, js_stack := f\<lparr>sf_deletePending := d\<rparr> # fs\<rparr>"
proof (cases "\<exists>i. sf_deletePending f = Some i \<and> i < length (js_fields s)")
  case True
  then obtain i where "sf_deletePending f = Some i" "i < length (js_fields s)" by auto
  with assms show ?thesis by (simp add: noteNextSibling_def Let_def) (intro conjI impI exI; rule refl)
next
  case False
  then have "noteNextSibling n s = s" using assms by (auto simp: noteNextSibling_def split: option.split)
  also have "s = s\<lparr>js_fields := js_fields s, js_stack := f\<lparr>sf_deletePending := sf_deletePending f\<rparr> # fs\<rparr>" using assms by simp
  finally show ?thesis by blast
qed

lemma transition_none:
  assumes "\<And>state. state \<in> set states \<Longrightarrow> state @ [None] \<notin> set (tr_nodes trie) \<and> state @ [Some key] \<notin> set (tr_nodes trie)"
  shows "transitionStates trie states key = []"
proof -
  have "foldl (\<lambda>result state. add_state trie (state @ [None]) (add_state trie (state @ [Some key]) result)) [] states = []"
    using assms by (induction states) (simp_all add: add_state_def)
  then show ?thesis by (simp add: transitionStates_def)
qed

lemma key_context:
  assumes "frame_of f ctx CHR ''{''" "js_stack s = f' # fs" "ch_key c = Some m" "unquote_body (mk_body m) = Some key"
  shows "makeObjectContext s f key \<lparr>br_Start = start + length (ch_before c), br_End = start + length (ch_before c) + length (quoted (mk_body m))\<rparr>
      (start + length (ch_before c)) False =
    (child_context (js_trie s) (sp_RequireModel (js_spec s) \<and> fs = []) ctx index start c)\<lparr>vc_start := 0\<rparr>"
  using assms by (auto simp: makeObjectContext_def child_context_def Let_def frame_of_def zeroContext_def model_key_def)

lemma overflow_context:
  assumes f: "frame_of f ctx CHR ''{''" "js_stack s = f' # fs" and c: "ch_key c = Some m" "string_body (mk_body m)"
    and fits: "trie_fits s" and over: "keyRawLimitFor s f \<noteq> 0" "keyRawLimitFor s f < length (mk_body m) + 2"
  shows "makeObjectContext s f [] zeroRange (start + length (ch_before c)) True =
    (child_context (js_trie s) (sp_RequireModel (js_spec s) \<and> fs = []) ctx index start c)\<lparr>vc_start := 0\<rparr>"
proof -
  from unquote_total [OF c(2)] obtain key where key: "unquote_body (mk_body m) = Some key" "length (mk_body m) \<le> 6 * length key" by auto
  from over(1) have limit: "keyRawLimitFor s f = js_keyRawLimit s" "\<not> tr_selectAll (js_trie s)"
      "\<And>state. state \<in> set (sf_states f) \<Longrightarrow> state @ [None] \<notin> set (tr_nodes (js_trie s))"
    by (auto simp: keyRawLimitFor_def list_ex_iff split: if_splits)
  have "state @ [Some key] \<notin> set (tr_nodes (js_trie s))" for state
  proof
    assume "state @ [Some key] \<in> set (tr_nodes (js_trie s))"
    then have "8 * length key + 2 \<le> js_keyRawLimit s" using fits by (auto simp: trie_fits_def)
    with over(2) limit(1) key(2) show False by simp
  qed
  with limit(3) have none: "transitionStates (js_trie s) (sf_states f) key = []" by (intro transition_none) simp
  have "key \<noteq> ''model''" using over(2) limit(1) key(2) fits by (auto simp: trie_fits_def)
  then show ?thesis using none limit(2) f c(1) key(1)
    by (simp add: makeObjectContext_def child_context_def Let_def frame_of_def zeroContext_def model_key_def hasTerminal_def)
qed

lemma finish_key:
  assumes f: "frame_of f ctx CHR ''{''" and s: "js_stack s = f # fs" "trie_fits s" "js_offset s = start + length (ch_before c) + length (quoted (mk_body m))"
    and c: "ch_key c = Some m" "string_body (mk_body m)"
    and t0: "t0 = newKeyToken (start + length (ch_before c)) (keyRawLimitFor s f)" "string_run (mk_body m) t0 = Some t"
  shows "finishToken (keepRaw quote t) s = s\<lparr>js_token := None, js_stack :=
    f\<lparr>sf_pending := (child_context (js_trie s) (sp_RequireModel (js_spec s) \<and> fs = []) ctx index start c)\<lparr>vc_start := 0\<rparr>, sf_afterComma := False\<rparr> # fs\<rparr>"
proof -
  have start: "key_start t0" unfolding t0(1) using s(2) by (intro newKeyToken_start) (auto simp: keyRawLimitFor_def trie_fits_def)
  then have st: "string_inv t0 [] t0" "keeps_raw t0" "tk_kind t0 = tokenKey" by (simp_all add: key_start_def keeps_raw_def)
  have lim: "tk_rawLimit t0 = keyRawLimitFor s f" "tk_start t0 = start + length (ch_before c)"
    by (simp_all add: t0(1) newKeyToken_def appendRaw_def zeroToken_def)
  have inv: "string_inv t0 (mk_body m) t" using string_run_inv [OF st(1) t0(2)] by simp
  then have kind: "tk_kind t = tokenKey" "tk_start t = start + length (ch_before c)"
    using st(3) lim(2) by (simp_all add: string_inv_def same_token_def)
  from unquote_total [OF c(2)] obtain key where key: "unquote_body (mk_body m) = Some key" by auto
  let ?s = "s\<lparr>js_token := None\<rparr>"
  have same: "makeObjectContext ?s f k r n over = makeObjectContext s f k r n over" for k r n over by (simp add: makeObjectContext_def Let_def)
  show ?thesis
  proof (cases "tk_rawLimit t0 = 0 \<or> length (mk_body m) + 2 \<le> tk_rawLimit t0")
    case True
    with text_body_raw [OF st(1) t0(2) st(2) c(2) refl] have "tk_raw (keepRaw quote t) = quoted (mk_body m)" "\<not> tk_rawOverflow (keepRaw quote t)" by simp_all
    then show ?thesis using kind s key json_string_quoted [OF c(2)] key_context [OF f s(1) c(1) key, of start index] same
      by (simp add: finishToken_def finishKey_def)
  next
    case False
    with text_body_raw [OF st(1) t0(2) st(2) c(2) refl] have "tk_rawOverflow (keepRaw quote t)" by simp
    then show ?thesis using kind s overflow_context [OF f s(1) c s(2), of start index] False lim(1) same
      by (simp add: finishToken_def finishKey_def)
  qed
qed

lemma key_runs:
  assumes live: "live s" "js_stack s = f # fs" "trie_fits s" and f: "frame_of f ctx CHR ''{''" "sf_state f = objectKeyOrEnd"
    and c: "ch_key c = Some m" "key_ok CHR ''{'' (Some m)" "js_offset s = start + length (ch_before c)"
  shows "\<exists>flds d. noteNextSibling (js_offset s) s = s\<lparr>js_fields := flds, js_stack := f\<lparr>sf_deletePending := d\<rparr> # fs\<rparr> \<and>
    (\<forall>p. scans (key_text (Some m) @ p) s = scans p (s\<lparr>js_fields := flds, js_offset := js_offset s + length (key_text (Some m)),
      js_stack := f\<lparr>sf_deletePending := d, sf_state := objectValue, sf_afterComma := False,
        sf_pending := (child_context (js_trie s) (sp_RequireModel (js_spec s) \<and> fs = []) ctx index start c)\<lparr>vc_start := 0\<rparr>\<rparr> # fs\<rparr>))"
proof -
  from note_shape [OF live(2), of "js_offset s"] obtain flds d where
    note_: "noteNextSibling (js_offset s) s = s\<lparr>js_fields := flds, js_stack := f\<lparr>sf_deletePending := d\<rparr> # fs\<rparr>" by auto
  define f1 where "f1 = f\<lparr>sf_deletePending := d, sf_state := objectColon,
      sf_pending := zeroContext\<lparr>vc_memberStart := js_offset s, vc_arrayIndex := -1, vc_depth := sf_depth f + 1\<rparr>\<rparr>"
  define t0 where "t0 = newKeyToken (js_offset s) (keyRawLimitFor s f)"
  define s1 where "s1 = s\<lparr>js_fields := flds, js_offset := js_offset s + 1, js_token := Some t0, js_stack := f1 # fs\<rparr>"
  have body: "string_body (mk_body m)" "white (mk_before m)" "white (mk_after m)" using c(2) by (simp_all add: key_ok_def)
  have "consume quote s = Some s1"
    by (intro consume_step) (use live f note_ in \<open>simp add: keyRawLimitFor_def step_def live_def frame_step_def isJSONWhitespace_def quote_def startKey_def Let_def advance_def s1_def f1_def t0_def\<close>)
  then have 1: "scans (quote # q) s = scans q s1" for q by simp
  have start: "key_start t0" unfolding t0_def using live(3) by (intro newKeyToken_start) (auto simp: keyRawLimitFor_def trie_fits_def)
  then have st: "string_inv t0 [] t0" "tk_kind t0 = tokenKey" "\<not> vc_isModel (tk_ctx t0)" by (simp_all add: key_start_def)
  from string_run_plain [OF st(3,1), of "mk_body m"] body(1) obtain t where t: "string_run (mk_body m) t0 = Some t" by auto
  define s2 where "s2 = s1\<lparr>js_token := Some t, js_offset := js_offset s1 + length (mk_body m)\<rparr>"
  have 2: "scans (mk_body m @ q) s1 = scans q s2" for q
    using scans_string [of s1 t0 "mk_body m" t t0 "[]" q] st t by (simp add: s1_def s2_def)
  have inv: "string_inv t0 (mk_body m) t" using string_run_inv [OF st(1) t] by simp
  then have close: "closing quote t" and kind: "tk_kind t = tokenKey" "\<not> vc_isModel (tk_ctx t)"
    using string_inv_body [OF inv] body(1) st(2,3) by (simp_all add: closing_def string_inv_def same_token_def)
  define pend where "pend = (child_context (js_trie s) (sp_RequireModel (js_spec s) \<and> fs = []) ctx index start c)\<lparr>vc_start := 0\<rparr>"
  define s3 where "s3 = (advance s2)\<lparr>js_token := None, js_stack := f1\<lparr>sf_pending := pend, sf_afterComma := False\<rparr> # fs\<rparr>"
  have fin: "finishToken (keepRaw quote t) (advance s2) = s3" unfolding s3_def pend_def
    by (subst finish_key [where f = f1 and ctx = ctx and fs = fs and start = start and c = c and m = m and ?t0.0 = t0 and index = index])
      (use f live c body t in \<open>simp_all add: keyRawLimitFor_def f1_def s2_def s1_def advance_def frame_of_def trie_fits_def t0_def quoted_def\<close>)
  have "js_err s3 = None" using live(1) by (simp add: s3_def s2_def s1_def advance_def live_def)
  moreover have "js_token s2 = Some t" by (simp add: s2_def)
  ultimately have "consume quote s2 = Some s3"
    by (intro consume_step) (use kind in \<open>simp add: step_def consumeToken_def consumeStringToken_close [OF close] no_model fin Let_def\<close>)
  then have 3: "scans (quote # q) s2 = scans q s3" for q by simp
  have 4: "scans (mk_before m @ q) s3 = scans q (s3\<lparr>js_offset := js_offset s3 + length (mk_before m)\<rparr>)" for q
    by (rule scans_white_in) (use live body in \<open>simp_all add: s3_def s2_def s1_def advance_def live_def\<close>)
  define s4 where "s4 = s3\<lparr>js_offset := js_offset s3 + length (mk_before m) + 1,
      js_stack := f1\<lparr>sf_pending := pend, sf_afterComma := False, sf_state := objectValue\<rparr> # fs\<rparr>"
  have "consume CHR '':'' (s3\<lparr>js_offset := js_offset s3 + length (mk_before m)\<rparr>) = Some s4"
    by (intro consume_step) (use live in \<open>simp add: step_def s3_def s2_def s1_def advance_def live_def frame_step_def isJSONWhitespace_def f1_def s4_def set_top_state_def\<close>)
  then have 5: "scans (CHR '':'' # q) (s3\<lparr>js_offset := js_offset s3 + length (mk_before m)\<rparr>) = scans q s4" for q by simp
  have 6: "scans (mk_after m @ q) s4 = scans q (s4\<lparr>js_offset := js_offset s4 + length (mk_after m)\<rparr>)" for q
    by (rule scans_white_in) (use live body in \<open>simp_all add: s4_def s3_def s2_def s1_def advance_def live_def\<close>)
  have "s4\<lparr>js_offset := js_offset s4 + length (mk_after m)\<rparr> =
      s\<lparr>js_fields := flds, js_offset := js_offset s + length (key_text (Some m)),
        js_stack := f\<lparr>sf_deletePending := d, sf_state := objectValue, sf_afterComma := False, sf_pending := pend\<rparr> # fs\<rparr>"
    by (rule JSONScanner.equality) (use live(1) in \<open>simp_all add: s4_def s3_def s2_def s1_def advance_def f1_def key_text_def quoted_def live_def\<close>)
  then have "scans (key_text (Some m) @ p) s = scans p (s\<lparr>js_fields := flds, js_offset := js_offset s + length (key_text (Some m)),
        js_stack := f\<lparr>sf_deletePending := d, sf_state := objectValue, sf_afterComma := False, sf_pending := pend\<rparr> # fs\<rparr>)" for p
    by (simp add: key_text_def quoted_def 1 2 3 4 5 6 del: scans.simps)
  with note_ show ?thesis unfolding pend_def by blast
qed

end
