(* ===== verification/Body_Index.thy ===== *)
theory Body_Index
  imports Body_Complete
begin

text \<open>
  The children of a container and the containers themselves: from the bracket that opens a value
  to the one that closes it, the scanner of package bodyfile records the reference index.
\<close>

section \<open>One value\<close>

definition model_fits :: "valueContext \<Rightarrow> json \<Rightarrow> JSONScanner \<Rightarrow> bool" where
  "model_fits ctx v s \<longleftrightarrow> (vc_isModel ctx \<longrightarrow> good_model v \<and> \<not> js_modelSeen s)"

lemma recorded_add:
  "(\<not> vc_selected ctx \<and> \<not> (vc_record ctx \<and> (json_type v = JSONObject \<or> json_type v = JSONArray)) \<and> \<not> tr_selectAll trie) = (\<not> recorded trie ctx v)"
  by (auto simp: recorded_def container_type_def)

definition counted_frame :: "selectorTrie \<Rightarrow> valueContext \<Rightarrow> json \<Rightarrow> nat \<Rightarrow> scanFrame \<Rightarrow> scanFrame" where
  "counted_frame trie ctx v n f =
     (count_child ctx (value_end ctx v) (f\<lparr>sf_state := comma_state (sf_kind f)\<rparr>))
       \<lparr>sf_deletePending := if recorded trie ctx v then Some n else sf_deletePending f\<rparr>"

lemma after_value_shape:
  assumes stack: "js_stack s = f # fs" and model: "model_fits ctx v s"
  shows "after_value ctx v s = s\<lparr>js_offset := value_end ctx v,
     js_fields := js_fields s @ value_fields (js_trie s) False ctx v @
       own_field (js_trie s) ctx v (if sf_childCount f > 0 then Some (sf_lastChildEnd f) else None) None,
     js_containers := js_containers s @ value_containers (js_trie s) False False ctx v,
     js_stack := counted_frame (js_trie s) ctx v (length (js_fields s @ value_fields (js_trie s) False ctx v)) f # fs,
     js_modelSeen := js_modelSeen s \<or> vc_isModel ctx,
     js_model := if vc_isModel ctx then the (model_text v) else js_model s,
     js_modelRange := if vc_isModel ctx then string_range ctx v else js_modelRange s\<rparr>"
proof -
  define s1 where "s1 = (top_comma s)\<lparr>js_offset := value_end ctx v, js_fields := js_fields s @ value_fields (js_trie s) False ctx v,
          js_containers := js_containers s @ value_containers (js_trie s) False False ctx v\<rparr>"
  define s2 where "s2 = s1\<lparr>js_modelSeen := js_modelSeen s \<or> vc_isModel ctx, js_model := if vc_isModel ctx then the (model_text v) else js_model s,
     js_modelRange := if vc_isModel ctx then string_range ctx v else js_modelRange s\<rparr>"
  define L where "L = js_fields s @ value_fields (js_trie s) False ctx v"
  define prev where "prev = (if sf_childCount f > 0 then Some (sf_lastChildEnd f) else None)"
  have s2_eq: "s2 = s\<lparr>js_offset := value_end ctx v, js_fields := L,
     js_containers := js_containers s @ value_containers (js_trie s) False False ctx v,
     js_stack := f\<lparr>sf_state := comma_state (sf_kind f)\<rparr> # fs,
     js_modelSeen := js_modelSeen s \<or> vc_isModel ctx,
     js_model := if vc_isModel ctx then the (model_text v) else js_model s,
     js_modelRange := if vc_isModel ctx then string_range ctx v else js_modelRange s\<rparr>"
    by (simp add: s2_def s1_def top_comma_def stack comma_state_def L_def)
  have s2_stack: "js_stack s2 = f\<lparr>sf_state := comma_state (sf_kind f)\<rparr> # fs" and s2_trie: "js_trie s2 = js_trie s" and s2_fields: "js_fields s2 = L"
    by (simp_all add: s2_eq)
  have "model_result ctx (json_type v) (string_range ctx v) (if vc_isModel ctx then the (model_text v) else []) s1 = (True, s2)"
  proof (cases "vc_isModel ctx")
    case True
    with model have "the (model_text v) \<noteq> []" "json_type v = JSONString" "\<not> js_modelSeen s"
      by (auto simp: model_fits_def good_model_def model_text_def json_type_def split: json.splits)
    with True show ?thesis by (simp add: model_result_def Let_def s1_def s2_def)
  next
    case False
    have "s2 = s1" by (rule JSONScanner.equality) (simp_all add: s2_def s1_def False)
    with False show ?thesis by (simp add: model_result_def)
  qed
  then have "after_value ctx v s = add_field ctx (json_type v) (string_range ctx v) (value_end ctx v) s2"
    by (simp add: after_value_def completeValue_def s1_def)
  also have "add_field ctx (json_type v) (string_range ctx v) (value_end ctx v) s2 =
      s2\<lparr>js_fields := L @ own_field (js_trie s) ctx v prev None, js_stack := counted_frame (js_trie s) ctx v (length L) f # fs\<rparr>"
  proof (cases "recorded (js_trie s) ctx v")
    case True
    then have own: "own_field (js_trie s) ctx v prev None =
        [new_field ctx (json_type v) (string_range ctx v) (value_end ctx v) (case prev of Some p \<Rightarrow> p | None \<Rightarrow> own_start ctx)]"
      by (simp add: own_field_def new_field_def delete_range_def value_end_def)
    show ?thesis unfolding own counted_frame_def add_field_def s2_stack list.case Let_def s2_trie recorded_add s2_fields
      by (simp add: True prev_def own_start_def)
  next
    case False
    then have own: "own_field (js_trie s) ctx v prev None = []" by (simp add: own_field_def)
    have L: "s2\<lparr>js_fields := L, js_stack := st\<rparr> = s2\<lparr>js_stack := st\<rparr>" for st
      by (rule JSONScanner.equality) (simp_all add: s2_fields)
    have d: "count_child ctx n f1\<lparr>sf_deletePending := sf_deletePending f\<rparr> = count_child ctx n f1" if "sf_deletePending f1 = sf_deletePending f" for n and f1 :: scanFrame
      by (rule scanFrame.equality) (simp_all add: count_child_def Let_def that)
    show ?thesis unfolding own counted_frame_def add_field_def s2_stack list.case Let_def s2_trie recorded_add s2_fields
      by (simp add: False L d)
  qed
  also have "\<dots> = s\<lparr>js_offset := value_end ctx v,
     js_fields := js_fields s @ value_fields (js_trie s) False ctx v @
       own_field (js_trie s) ctx v (if sf_childCount f > 0 then Some (sf_lastChildEnd f) else None) None,
     js_containers := js_containers s @ value_containers (js_trie s) False False ctx v,
     js_stack := counted_frame (js_trie s) ctx v (length (js_fields s @ value_fields (js_trie s) False ctx v)) f # fs,
     js_modelSeen := js_modelSeen s \<or> vc_isModel ctx,
     js_model := if vc_isModel ctx then the (model_text v) else js_model s,
     js_modelRange := if vc_isModel ctx then string_range ctx v else js_modelRange s\<rparr>"
    by (simp add: s2_eq L_def prev_def)
  finally show ?thesis .
qed

section \<open>One child\<close>

lemma note_offset: "noteNextSibling n (s\<lparr>js_offset := m\<rparr>) = (noteNextSibling n s)\<lparr>js_offset := m\<rparr>"
  by (simp add: noteNextSibling_def Let_def split: list.split option.split)

lemma array_context:
  assumes "frame_of f ctx CHR ''[''" "ch_key c = None"
  shows "makeArrayContext s f index (start + length (ch_before c)) = child_context (js_trie s) model ctx index start c"
  using assms by (simp add: makeArrayContext_def child_context_def Let_def frame_of_def zeroContext_def model_key_def key_text_def)

definition ready :: "JSONScanner \<Rightarrow> scanFrame \<Rightarrow> scanFrame list \<Rightarrow> valueContext \<Rightarrow> char \<Rightarrow> nat \<Rightarrow> nat \<Rightarrow> bool" where
  "ready s f fs ctx k index start \<longleftrightarrow> live s \<and> trie_fits s \<and> js_stack s = f # fs \<and> frame_of f ctx k \<and> bracket k \<and> js_offset s = start \<and>
     (if k = CHR ''{'' then sf_state f = objectKeyOrEnd
      else (sf_state f = arrayValueOrEnd \<or> sf_state f = arrayValueRequired) \<and> sf_nextIndex f = index)"

abbreviation is_root :: "JSONScanner \<Rightarrow> scanFrame list \<Rightarrow> bool" where
  "is_root s fs \<equiv> sp_RequireModel (js_spec s) \<and> fs = []"

text \<open>The scanner just before the value of a child.\<close>

lemma child_enter:
  assumes r: "ready s f fs ctx k index start" and c: "white (ch_before c)" "key_ok k (ch_key c)" and b: "start_byte b"
  shows "\<exists>flds d st ac pd. noteNextSibling (start + length (ch_before c)) s = s\<lparr>js_fields := flds, js_stack := f\<lparr>sf_deletePending := d\<rparr> # fs\<rparr> \<and>
    (let ctx' = child_context (js_trie s) (is_root s fs) ctx index start c;
         s1 = s\<lparr>js_fields := flds, js_offset := vc_start ctx',
           js_stack := f\<lparr>sf_deletePending := d, sf_state := st, sf_afterComma := ac, sf_pending := pd\<rparr> # fs\<rparr>
     in \<forall>p s2. startValue b ctx' s1 = (True, None, s2) \<longrightarrow> scans (ch_before c @ key_text (ch_key c) @ b # p) s = scans p s2)"
proof -
  define s0 where "s0 = s\<lparr>js_offset := start + length (ch_before c)\<rparr>"
  define ctx' where "ctx' = child_context (js_trie s) (is_root s fs) ctx index start c"
  have live: "live s" "trie_fits s" "js_stack s = f # fs" "frame_of f ctx k" "js_offset s = start" using r by (simp_all add: ready_def)
  have bef: "scans (ch_before c @ q) s = scans q s0" for q
    using scans_white_in [of s "ch_before c" q] live c(1) by (simp add: live_def s0_def)
  show ?thesis
  proof (cases "ch_key c")
    case (Some m)
    with c(2) have k: "k = CHR ''{''" by (simp add: key_ok_def)
    have pre: "live s0" "js_stack s0 = f # fs" "trie_fits s0" "frame_of f ctx CHR ''{''" "sf_state f = objectKeyOrEnd" "js_offset s0 = start + length (ch_before c)"
      using r k by (simp_all add: ready_def s0_def live_def trie_fits_def)
    define pend where "pend = ctx'\<lparr>vc_start := 0\<rparr>"
    from note_shape [OF live(3), of "start + length (ch_before c)"] obtain flds d where
      note_: "noteNextSibling (start + length (ch_before c)) s = s\<lparr>js_fields := flds, js_stack := f\<lparr>sf_deletePending := d\<rparr> # fs\<rparr>" by auto
    then have note0: "noteNextSibling (js_offset s0) s0 = s0\<lparr>js_fields := flds, js_stack := f\<lparr>sf_deletePending := d\<rparr> # fs\<rparr>"
      by (simp add: s0_def note_offset)
    from key_runs [OF pre(1-5) Some _ pre(6), of index] c(2) Some k obtain flds' d' where
      note': "noteNextSibling (js_offset s0) s0 = s0\<lparr>js_fields := flds', js_stack := f\<lparr>sf_deletePending := d'\<rparr> # fs\<rparr>"
      and sc': "\<And>p. scans (key_text (Some m) @ p) s0 = scans p (s0\<lparr>js_fields := flds', js_offset := js_offset s0 + length (key_text (Some m)),
          js_stack := f\<lparr>sf_deletePending := d', sf_state := objectValue, sf_afterComma := False, sf_pending := pend\<rparr> # fs\<rparr>)"
      by (auto simp: pend_def ctx'_def s0_def)
    have "js_fields (noteNextSibling (js_offset s0) s0) = flds'" "sf_deletePending (hd (js_stack (noteNextSibling (js_offset s0) s0))) = d'"
      by (simp_all add: note')
    then have eq: "flds' = flds" "d' = d" by (simp_all add: note0)
    note sc = sc' [unfolded eq]
    have start: "vc_start ctx' = start + length (ch_before c) + length (key_text (Some m))"
      by (simp add: ctx'_def child_context_def Let_def Some)
    define s1 where "s1 = s\<lparr>js_fields := flds, js_offset := vc_start ctx',
           js_stack := f\<lparr>sf_deletePending := d, sf_state := objectValue, sf_afterComma := False, sf_pending := pend\<rparr> # fs\<rparr>"
    have "scans (ch_before c @ key_text (ch_key c) @ b # p) s = scans p s2" if "startValue b ctx' s1 = (True, None, s2)" for p s2
    proof -
      have pc: "ctx'\<lparr>vc_start := start + length (ch_before c) + length (key_text (Some m))\<rparr> = ctx'" by (simp add: start [symmetric])
      have "consume b s1 = Some s2"
        by (intro consume_step) (use that live b start in \<open>simp add: pc step_def s1_def live_def frame_step_def start_byte_def pend_def\<close>)
      moreover have "scans (ch_before c @ key_text (ch_key c) @ b # p) s = scans (b # p) s1"
        using sc [of "b # p"] by (simp add: bef Some s1_def s0_def start del: scans.simps)
      ultimately show ?thesis by simp
    qed
    with note_ show ?thesis unfolding ctx'_def [symmetric] Let_def s1_def by blast
  next
    case None
    with c(2) have k: "k = CHR ''[''" by (simp add: key_ok_def)
    from note_shape [OF live(3), of "start + length (ch_before c)"] obtain flds d where
      note_: "noteNextSibling (start + length (ch_before c)) s = s\<lparr>js_fields := flds, js_stack := f\<lparr>sf_deletePending := d\<rparr> # fs\<rparr>" by auto
    have start: "vc_start ctx' = start + length (ch_before c)" by (simp add: ctx'_def child_context_def Let_def None key_text_def)
    define s1 where "s1 = s\<lparr>js_fields := flds, js_offset := vc_start ctx',
           js_stack := f\<lparr>sf_deletePending := d, sf_state := sf_state f, sf_afterComma := sf_afterComma f, sf_pending := sf_pending f\<rparr> # fs\<rparr>"
    have "scans (ch_before c @ key_text (ch_key c) @ b # p) s = scans p s2" if "startValue b ctx' s1 = (True, None, s2)" for p s2
    proof -
      have n0: "noteNextSibling (js_offset s0) s0 = s1" by (simp add: s0_def note_offset note_ s1_def start)
      have st: "sf_state f = arrayValueOrEnd \<or> sf_state f = arrayValueRequired" "sf_nextIndex f = index" using r k by (auto simp: ready_def)
      have "makeArrayContext s1 (f\<lparr>sf_deletePending := d\<rparr>) index (start + length (ch_before c)) = ctx'"
        using array_context [of "f\<lparr>sf_deletePending := d\<rparr>" ctx c s1 index start "is_root s fs"] live(4) k None
        by (simp add: frame_of_def s1_def ctx'_def)
      then have "startElement b s0 = (True, None, s2)"
        using that st by (simp add: startElement_def n0 s1_def start)
      then have "consume b s0 = Some s2"
        by (intro consume_step) (use live b st in \<open>auto simp: step_def s0_def live_def frame_step_def start_byte_def\<close>)
      then show ?thesis by (simp add: bef None key_text_def)
    qed
    with note_ show ?thesis unfolding ctx'_def [symmetric] Let_def s1_def by blast
  qed
qed

definition set_model :: "bool \<Rightarrow> string \<times> ByteRange \<Rightarrow> JSONScanner \<Rightarrow> JSONScanner" where
  "set_model is entry s =
     (if is then s\<lparr>js_modelSeen := True, js_model := fst entry, js_modelRange := snd entry\<rparr> else s)"

lemma set_model_fields [simp]:
  "js_stack (set_model b e s) = js_stack s" "js_fields (set_model b e s) = js_fields s" "js_offset (set_model b e s) = js_offset s"
  "js_token (set_model b e s) = js_token s" "js_trie (set_model b e s) = js_trie s" "js_spec (set_model b e s) = js_spec s"
  "js_started (set_model b e s) = js_started s" "js_rootDone (set_model b e s) = js_rootDone s" "js_err (set_model b e s) = js_err s"
  "js_containers (set_model b e s) = js_containers s" "js_keyRawLimit (set_model b e s) = js_keyRawLimit s"
  "js_modelSeen (set_model b e s) = (js_modelSeen s \<or> b)"
  by (simp_all add: set_model_def)

text \<open>What a child does to the frame of its container.\<close>

definition frame_step_ok :: "scanFrame \<Rightarrow> scanFrame \<Rightarrow> valueContext \<Rightarrow> char \<Rightarrow> nat \<Rightarrow> valueContext \<Rightarrow> json \<Rightarrow> bool" where
  "frame_step_ok f' f ctx k index ctx' v \<longleftrightarrow> frame_of f' ctx k \<and> sf_state f' = comma_state k \<and> sf_childCount f' = sf_childCount f + 1 \<and>
     (k = CHR ''['' \<longrightarrow> sf_nextIndex f' = index + 1) \<and>
     sf_firstChildStart f' = (if sf_childCount f = 0 then own_start ctx' else sf_firstChildStart f) \<and> sf_lastChildEnd f' = value_end ctx' v"

lemma child_run:
  assumes r: "ready s f fs ctx k index start" and c: "white (ch_before c)" "key_ok k (ch_key c)" and v: "value_runs (ch_value c)"
    and ctx': "ctx' = child_context (js_trie s) (is_root s fs) ctx index start c" and m: "model_fits ctx' (ch_value c) s"
    and rest: "delimited rest" and pend: "\<And>i. sf_deletePending f = Some i \<Longrightarrow> i < length (js_fields s)"
    and L: "L = js_fields (noteNextSibling (start + length (ch_before c)) s) @ value_fields (js_trie s) False ctx' (ch_value c)"
  shows "\<exists>f'. scans (ch_before c @ key_text (ch_key c) @ json_text (ch_value c) @ rest) s =
      scans rest (set_model (vc_isModel ctx') (the (model_text (ch_value c)), string_range ctx' (ch_value c))
        (s\<lparr>js_offset := value_end ctx' (ch_value c), js_stack := f' # fs,
           js_fields := L @ own_field (js_trie s) ctx' (ch_value c) (if sf_childCount f > 0 then Some (sf_lastChildEnd f) else None) None,
           js_containers := js_containers s @ value_containers (js_trie s) False False ctx' (ch_value c)\<rparr>)) \<and>
    frame_step_ok f' f ctx k index ctx' (ch_value c) \<and>
    sf_deletePending f' = (if recorded (js_trie s) ctx' (ch_value c) then Some (length L) else None)"
proof -
  have stack: "js_stack s = f # fs" using r by (simp add: ready_def)
  obtain b t where b: "json_text (ch_value c) = b # t" "start_byte b" and run: "\<And>s. live s \<and> trie_fits s \<and> vc_start ctx' = js_offset s \<and>
      model_fits ctx' (ch_value c) s \<Longrightarrow> \<exists>s2. startValue b ctx' s = (True, None, s2) \<and> scans (t @ rest) s2 = scans rest (after_value ctx' (ch_value c) s)"
  proof -
    define s1 where "s1 = s\<lparr>js_offset := vc_start ctx'\<rparr>"
    have "live s1 \<and> trie_fits s1 \<and> vc_start ctx' = js_offset s1 \<and> model_fits ctx' (ch_value c) s1"
      using r m by (simp add: ready_def s1_def live_def trie_fits_def model_fits_def)
    then obtain b t where b: "json_text (ch_value c) = b # t" "start_byte b" using v rest unfolding value_runs_def model_fits_def by blast
    have "\<exists>s2. startValue b ctx' s = (True, None, s2) \<and> scans (t @ rest) s2 = scans rest (after_value ctx' (ch_value c) s)"
      if "live s \<and> trie_fits s \<and> vc_start ctx' = js_offset s \<and> model_fits ctx' (ch_value c) s" for s
    proof -
      from that rest v [unfolded value_runs_def] obtain b' t' s2 where "json_text (ch_value c) = b' # t'" "startValue b' ctx' s = (True, None, s2)"
        "scans (t' @ rest) s2 = scans rest (after_value ctx' (ch_value c) s)" unfolding model_fits_def by blast
      with b(1) show ?thesis by auto
    qed
    with b that show ?thesis by blast
  qed
  from child_enter [OF r c b(2)] obtain flds d st ac pd where
    note_: "noteNextSibling (start + length (ch_before c)) s = s\<lparr>js_fields := flds, js_stack := f\<lparr>sf_deletePending := d\<rparr> # fs\<rparr>"
    and enter: "\<And>p s2. startValue b ctx' (s\<lparr>js_fields := flds, js_offset := vc_start ctx',
           js_stack := f\<lparr>sf_deletePending := d, sf_state := st, sf_afterComma := ac, sf_pending := pd\<rparr> # fs\<rparr>) = (True, None, s2) \<Longrightarrow>
        scans (ch_before c @ key_text (ch_key c) @ b # p) s = scans p s2"
    unfolding ctx'[symmetric] Let_def by blast
  have "sf_deletePending (hd (js_stack (noteNextSibling (start + length (ch_before c)) s))) = None"
    using pend stack by (cases "sf_deletePending f") (auto simp: noteNextSibling_def Let_def)
  then have d: "d = None" by (simp add: note_)
  define f1 where "f1 = f\<lparr>sf_deletePending := d, sf_state := st, sf_afterComma := ac, sf_pending := pd\<rparr>"
  define s1 where "s1 = s\<lparr>js_fields := flds, js_offset := vc_start ctx', js_stack := f1 # fs\<rparr>"
  have L: "L = js_fields s1 @ value_fields (js_trie s1) False ctx' (ch_value c)" by (simp add: L note_ s1_def)
  have m1: "model_fits ctx' (ch_value c) s1" using m by (simp add: model_fits_def s1_def)
  from run [of s1] m1 r obtain s2 where s2: "startValue b ctx' s1 = (True, None, s2)" "scans (t @ rest) s2 = scans rest (after_value ctx' (ch_value c) s1)"
    by (auto simp: ready_def live_def trie_fits_def s1_def)
  define f' where "f' = counted_frame (js_trie s) ctx' (ch_value c) (length L) f1"
  have "scans (ch_before c @ key_text (ch_key c) @ json_text (ch_value c) @ rest) s = scans rest (after_value ctx' (ch_value c) s1)"
    using enter [of s2 "t @ rest"] s2 by (simp add: s1_def f1_def b(1))
  also have "after_value ctx' (ch_value c) s1 = set_model (vc_isModel ctx') (the (model_text (ch_value c)), string_range ctx' (ch_value c))
        (s\<lparr>js_offset := value_end ctx' (ch_value c), js_stack := f' # fs,
           js_fields := L @ own_field (js_trie s) ctx' (ch_value c) (if sf_childCount f > 0 then Some (sf_lastChildEnd f) else None) None,
           js_containers := js_containers s @ value_containers (js_trie s) False False ctx' (ch_value c)\<rparr>)"
    by (subst after_value_shape [OF _ m1, of f1 fs])
      (auto simp: s1_def L f'_def f1_def set_model_def intro!: JSONScanner.equality)
  finally have sc: "scans (ch_before c @ key_text (ch_key c) @ json_text (ch_value c) @ rest) s = scans rest \<dots>" .
  have k: "bracket k" "frame_of f ctx k" "k = CHR ''['' \<longrightarrow> sf_nextIndex f = index" using r by (auto simp: ready_def)
  have own: "(if k = CHR ''['' then vc_start ctx' else vc_memberStart ctx') = own_start ctx'"
    using c(2) k(1) by (auto simp: ctx' child_context_def Let_def own_start_def key_ok_def bracket_def split: option.splits)
  have "frame_step_ok f' f ctx k index ctx' (ch_value c)"
    using k own by (auto simp: frame_step_ok_def f'_def counted_frame_def f1_def frame_of_def count_child_def Let_def)
  moreover have "sf_deletePending f' = (if recorded (js_trie s) ctx' (ch_value c) then Some (length L) else None)"
    by (simp add: f'_def counted_frame_def f1_def d)
  ultimately show ?thesis using sc by blast
qed

section \<open>All children\<close>

lemma child_simps:
  "child_text c = ch_before c @ key_text (ch_key c) @ json_text (ch_value c) @ ch_after c"
  "child_ok c k \<longleftrightarrow> white (ch_before c) \<and> key_ok k (ch_key c) \<and> json_ok (ch_value c) \<and> white (ch_after c)"
  by (cases c; simp)+

lemma child_end: "value_end (child_context trie model ctx index start c) (ch_value c) + length (ch_after c) = start + length (child_text c)"
  by (cases c) (simp add: value_end_def child_context_def Let_def)

lemma value_end_any: "value_end (child_context trie model ctx index start c) v = value_end (child_context trie' model' ctx index start c) v"
  by (simp add: value_end_def child_context_def Let_def)

lemma children_fields_Cons:
  "children_fields trie model ctx index start prev (c # rest) =
     (let child = child_context trie model ctx index start c
      in value_fields trie False child (ch_value c) @
         own_field trie child (ch_value c) prev (next_start c (value_end child (ch_value c)) rest) @
         children_fields trie model ctx (index + 1) (start + length (child_text c) + 1) (Some (value_end child (ch_value c))) rest)"
  using child_end [of trie model ctx index start c] by (cases c) (simp add: Let_def add.assoc)

lemma children_containers_Cons:
  "children_containers trie model ctx index start (c # rest) =
     value_containers trie False False (child_context trie model ctx index start c) (ch_value c) @
     children_containers trie model ctx (index + 1) (start + length (child_text c) + 1) rest"
  using child_end [of trie model ctx index start c] by (cases c) (simp add: Let_def add.assoc)

lemma last_end_Cons:
  "last_end trie ctx index start n (c # rest) =
     last_end trie ctx (index + 1) (start + length (child_text c) + 1) (value_end (child_context trie model ctx index start c) (ch_value c)) rest"
  using child_end [of trie False ctx index start c] value_end_any [of trie model ctx index start c "ch_value c" trie False] by (simp add: Let_def)

lemma model_entry_Cons:
  "model_entry trie ctx index start (c # rest) =
     (if model_key (ch_key c)
      then Some (the (model_text (ch_value c)), string_range (child_context trie True ctx index start c) (ch_value c))
      else model_entry trie ctx (index + 1) (start + length (child_text c) + 1) rest)"
  using child_end [of trie True ctx index start c] by (simp add: Let_def)

lemma model_entry_None: "model_members cs = [] \<Longrightarrow> model_entry trie ctx index start cs = None"
  by (induction cs arbitrary: index start) (simp_all add: model_members_def Let_def split: if_splits)

lemma note_fix:
  assumes "js_stack s = f # fs" "sf_deletePending f = (if recorded trie ctx v then Some (length L) else None)"
    "js_fields s = L @ own_field trie ctx v prev None"
  shows "js_fields (noteNextSibling n s) = L @ own_field trie ctx v prev (Some n)"
  using assms by (auto simp: noteNextSibling_def own_field_def Let_def delete_range_def new_field_def own_start_def list_update_append)

definition models_fit :: "JSONScanner \<Rightarrow> child list \<Rightarrow> bool" where
  "models_fit s cs \<longleftrightarrow> length (model_members cs) \<le> 1 \<and> (\<forall>c \<in> set (model_members cs). good_model (ch_value c)) \<and>
     (model_members cs \<noteq> [] \<longrightarrow> \<not> js_modelSeen s)"

lemma commas_Cons: "commas (s # ss) = s @ (if ss = [] then [] else CHR '','' # commas ss)"
  by (cases ss) simp_all

lemma closer_delimiter: "isJSONDelimiter (closer k)" "isJSONDelimiter CHR '',''"
  by (simp_all add: closer_def isJSONDelimiter_def)

lemma white_delimited: "white w \<Longrightarrow> isJSONDelimiter c \<Longrightarrow> delimited (w @ c # p)"
  by (cases w) (simp_all add: delimited_def isJSONDelimiter_def)

lemma children_run:
  assumes "ready s f fs ctx k index start" "cs \<noteq> []" "list_all (\<lambda>c. child_ok c k) cs" "list_all (\<lambda>c. value_runs (ch_value c)) cs"
    "sf_childCount f = index" "\<And>i. sf_deletePending f = Some i \<Longrightarrow> i < length (js_fields s)" "is_root s fs \<longrightarrow> models_fit s cs"
  shows "\<exists>f'. scans (commas (map child_text cs) @ closer k # rest) s =
      scans (closer k # rest)
        (let entry = (if is_root s fs then model_entry (js_trie s) ctx index start cs else None)
         in set_model (entry \<noteq> None) (the entry) (s\<lparr>js_offset := start + length (commas (map child_text cs)), js_stack := f' # fs,
           js_fields := js_fields (noteNextSibling (start + length (ch_before (hd cs))) s) @
             children_fields (js_trie s) (is_root s fs) ctx index start (if sf_childCount f > 0 then Some (sf_lastChildEnd f) else None) cs,
           js_containers := js_containers s @ children_containers (js_trie s) (is_root s fs) ctx index start cs\<rparr>)) \<and>
    frame_of f' ctx k \<and> sf_state f' = comma_state k \<and> sf_childCount f' = index + length cs \<and>
    sf_firstChildStart f' = (if index = 0 then own_start (child_context (js_trie s) False ctx 0 start (hd cs)) else sf_firstChildStart f) \<and>
    sf_lastChildEnd f' = last_end (js_trie s) ctx index start 0 cs"
  using assms
proof (induction cs arbitrary: s f index start)
  case (Cons c cs)
  define M where "M = is_root s fs"
  define ctx' where "ctx' = child_context (js_trie s) M ctx index start c"
  define v where "v = ch_value c"
  define e where "e = value_end ctx' v"
  define L where "L = js_fields (noteNextSibling (start + length (ch_before c)) s) @ value_fields (js_trie s) False ctx' v"
  define prev where "prev = (if sf_childCount f > 0 then Some (sf_lastChildEnd f) else None)"
  define one where "one = (the (model_text v), string_range ctx' v)"
  have ok: "white (ch_before c)" "key_ok k (ch_key c)" "white (ch_after c)" "value_runs v"
    using Cons.prems(3,4) by (simp_all add: child_simps v_def)
  have isM: "vc_isModel ctx' \<longleftrightarrow> M \<and> model_key (ch_key c)" by (simp add: ctx'_def child_context_def Let_def)
  have fits: "model_fits ctx' v s" using Cons.prems(7) isM by (auto simp: model_fits_def models_fit_def M_def v_def model_members_def)
  have live: "live s" "trie_fits s" "frame_of f ctx k" "bracket k" using Cons.prems(1) by (simp_all add: ready_def)
  define tl_text where "tl_text = (if cs = [] then closer k # rest else CHR '','' # commas (map child_text cs) @ closer k # rest)"
  have texts: "commas (map child_text (c # cs)) @ closer k # rest = ch_before c @ key_text (ch_key c) @ json_text v @ ch_after c @ tl_text"
    by (simp add: commas_Cons child_simps(1) v_def tl_text_def)
  have "delimited (ch_after c @ tl_text)" using white_delimited [OF ok(3)] closer_delimiter by (simp add: tl_text_def)
  from child_run [OF Cons.prems(1) ok(1,2) ok(4) [unfolded v_def] _ _ this Cons.prems(6) refl, folded v_def, of ctx'] fits obtain f1 where
    sc: "scans (ch_before c @ key_text (ch_key c) @ json_text v @ ch_after c @ tl_text) s =
      scans (ch_after c @ tl_text) (set_model (vc_isModel ctx') one (s\<lparr>js_offset := e, js_stack := f1 # fs, js_fields := L @ own_field (js_trie s) ctx' v prev None,
           js_containers := js_containers s @ value_containers (js_trie s) False False ctx' v\<rparr>))"
    and f1: "frame_step_ok f1 f ctx k index ctx' v" "sf_deletePending f1 = (if recorded (js_trie s) ctx' v then Some (length L) else None)"
    unfolding ctx'_def M_def v_def one_def e_def L_def prev_def by blast
  define s1 where "s1 = set_model (vc_isModel ctx') one (s\<lparr>js_offset := start + length (child_text c), js_stack := f1 # fs,
      js_fields := L @ own_field (js_trie s) ctx' v prev None,
      js_containers := js_containers s @ value_containers (js_trie s) False False ctx' v\<rparr>)"
  have e: "e + length (ch_after c) = start + length (child_text c)" using child_end by (simp add: e_def ctx'_def v_def)
  define s0 where "s0 = set_model (vc_isModel ctx') one (s\<lparr>js_offset := e, js_stack := f1 # fs, js_fields := L @ own_field (js_trie s) ctx' v prev None,
           js_containers := js_containers s @ value_containers (js_trie s) False False ctx' v\<rparr>)"
  have "s0\<lparr>js_offset := js_offset s0 + length (ch_after c)\<rparr> = s1"
    by (rule JSONScanner.equality) (simp_all add: s0_def s1_def set_model_def e)
  then have "scans (ch_after c @ tl_text) s0 = scans tl_text s1"
    using scans_white_in [of s0 "ch_after c" tl_text] ok(3) live(1) by (simp add: live_def s0_def)
  with sc [folded s0_def] texts have run1: "scans (commas (map child_text (c # cs)) @ closer k # rest) s = scans tl_text s1" by simp
  define entry where "entry = (if M then model_entry (js_trie s) ctx index start (c # cs) else None)"
  define fin where "fin f' = (set_model (entry \<noteq> None) (the entry) (s\<lparr>js_offset := start + length (commas (map child_text (c # cs))), js_stack := f' # fs,
           js_fields := js_fields (noteNextSibling (start + length (ch_before c)) s) @
             children_fields (js_trie s) M ctx index start prev (c # cs),
           js_containers := js_containers s @ children_containers (js_trie s) M ctx index start (c # cs)\<rparr>))" for f'
  have own: "own_start (child_context (js_trie s) False ctx 0 start c) = own_start ctx'" if "index = 0"
    using that by (simp add: ctx'_def child_context_def Let_def own_start_def)
  have first: "sf_firstChildStart f1 = (if index = 0 then own_start (child_context (js_trie s) False ctx 0 start c) else sf_firstChildStart f)"
    using f1(1) Cons.prems(5) own by (simp add: frame_step_ok_def)
  have "\<exists>f'. scans tl_text s1 = scans (closer k # rest) (fin f') \<and>
      frame_of f' ctx k \<and> sf_state f' = comma_state k \<and> sf_childCount f' = index + length (c # cs) \<and>
      sf_firstChildStart f' = sf_firstChildStart f1 \<and> sf_lastChildEnd f' = last_end (js_trie s) ctx index start 0 (c # cs)"
  proof (cases "cs = []")
    case True
    have en: "entry \<noteq> None \<longleftrightarrow> vc_isModel ctx'" "entry \<noteq> None \<Longrightarrow> the entry = one"
      using True isM by (auto simp: entry_def model_entry_Cons one_def v_def ctx'_def)
    have "fin f1 = set_model (vc_isModel ctx') one (s\<lparr>js_offset := start + length (child_text c), js_stack := f1 # fs,
        js_fields := L @ own_field (js_trie s) ctx' v prev None,
        js_containers := js_containers s @ value_containers (js_trie s) False False ctx' v\<rparr>)"
      using True en by (cases "entry = None") (simp_all add: fin_def set_model_def children_fields_Cons children_containers_Cons next_start_def
          ctx'_def v_def e_def L_def Let_def)
    then have "s1 = fin f1" by (simp add: s1_def)
    moreover have "sf_lastChildEnd f1 = last_end (js_trie s) ctx index start 0 (c # cs)"
      using f1(1) True by (simp add: frame_step_ok_def last_end_Cons [where model = M] ctx'_def v_def del: last_end.simps(2))
    ultimately show ?thesis using True f1(1) Cons.prems(5) by (intro exI [of _ f1]) (simp add: tl_text_def frame_step_ok_def)
  next
    case False
    then obtain d ds where cs: "cs = d # ds" by (cases cs) auto
    define f2 where "f2 = (if k = CHR ''{'' then f1\<lparr>sf_state := objectKeyOrEnd, sf_afterComma := True\<rparr> else f1\<lparr>sf_state := arrayValueRequired\<rparr>)"
    define s2 where "s2 = (advance s1)\<lparr>js_stack := f2 # fs\<rparr>"
    define start2 where "start2 = start + length (child_text c) + 1"
    have k: "k = CHR ''{'' \<or> k = CHR ''[''" using live(4) by (simp add: bracket_def)
    have s1: "js_stack s1 = f1 # fs" "live s1" "js_trie s1 = js_trie s" "js_spec s1 = js_spec s" "js_offset s1 = start + length (child_text c)"
      using live(1) by (simp_all add: s1_def live_def)
    have "consume CHR '','' s1 = Some s2"
      by (intro consume_step) (use s1 f1(1) k in \<open>auto simp: step_def live_def frame_step_def isJSONWhitespace_def frame_step_ok_def comma_state_def
          f2_def s2_def set_top_state_def advance_def\<close>)
    then have run2: "scans tl_text s1 = scans (commas (map child_text cs) @ closer k # rest) s2" using False by (simp add: tl_text_def)
    have s2: "js_stack s2 = f2 # fs" "js_trie s2 = js_trie s" "js_spec s2 = js_spec s" "js_offset s2 = start2"
      "js_fields s2 = L @ own_field (js_trie s) ctx' v prev None" "js_modelSeen s2 \<longleftrightarrow> js_modelSeen s \<or> vc_isModel ctx'"
      by (simp_all add: s2_def s1_def advance_def start2_def)
    have f2: "frame_of f2 ctx k" "sf_childCount f2 = index + 1" "sf_deletePending f2 = (if recorded (js_trie s) ctx' v then Some (length L) else None)"
      "sf_firstChildStart f2 = sf_firstChildStart f1" "sf_lastChildEnd f2 = e"
      using f1 Cons.prems(5) by (auto simp: f2_def frame_step_ok_def frame_of_def e_def)
    have "ready s2 f2 fs ctx k (index + 1) start2"
      using s1(2) live(2) s2 f2(1) f1(1) k live(4) by (auto simp: ready_def live_def trie_fits_def s2_def s1_def advance_def f2_def frame_step_ok_def set_model_def)
    moreover have "i < length (js_fields s2)" if "sf_deletePending f2 = Some i" for i
      using that f2(3) by (auto simp: s2(5) own_field_def split: if_splits)
    moreover have "is_root s2 fs \<longrightarrow> models_fit s2 cs"
      using Cons.prems(7) s2(3,6) isM by (cases "model_key (ch_key c)") (auto simp: models_fit_def model_members_def M_def)
    ultimately obtain f' where f': "scans (commas (map child_text cs) @ closer k # rest) s2 =
      scans (closer k # rest)
        (let entry = (if is_root s2 fs then model_entry (js_trie s2) ctx (index + 1) start2 cs else None)
         in set_model (entry \<noteq> None) (the entry) (s2\<lparr>js_offset := start2 + length (commas (map child_text cs)), js_stack := f' # fs,
           js_fields := js_fields (noteNextSibling (start2 + length (ch_before (hd cs))) s2) @
             children_fields (js_trie s2) (is_root s2 fs) ctx (index + 1) start2 (if sf_childCount f2 > 0 then Some (sf_lastChildEnd f2) else None) cs,
           js_containers := js_containers s2 @ children_containers (js_trie s2) (is_root s2 fs) ctx (index + 1) start2 cs\<rparr>))"
      "frame_of f' ctx k" "sf_state f' = comma_state k" "sf_childCount f' = index + 1 + length cs"
      "sf_firstChildStart f' = sf_firstChildStart f2" "sf_lastChildEnd f' = last_end (js_trie s2) ctx (index + 1) start2 0 cs"
      using Cons.IH [of s2 f2 "index + 1" start2] False Cons.prems(3,4) f2(2) by auto
    define entry2 where "entry2 = (if M then model_entry (js_trie s) ctx (index + 1) start2 cs else None)"
    have fld: "js_fields (noteNextSibling (start2 + length (ch_before d)) s2) = L @ own_field (js_trie s) ctx' v prev (next_start c e cs)"
      using note_fix [OF s2(1) f2(3) s2(5)] e by (simp add: next_start_def cs start2_def)
    have entry_eq: "if vc_isModel ctx' then entry = Some one \<and> entry2 = None else entry = entry2"
      using isM Cons.prems(7) model_entry_None [of cs] by (auto simp: entry_def entry2_def model_entry_Cons one_def ctx'_def v_def start2_def
          M_def models_fit_def model_members_def simp del: model_entry.simps(2))
    have "fin f' = set_model (entry2 \<noteq> None) (the entry2) (s2\<lparr>js_offset := start2 + length (commas (map child_text cs)), js_stack := f' # fs,
           js_fields := js_fields (noteNextSibling (start2 + length (ch_before d)) s2) @
             children_fields (js_trie s) M ctx (index + 1) start2 (Some e) cs,
           js_containers := js_containers s2 @ children_containers (js_trie s) M ctx (index + 1) start2 cs\<rparr>)"
      unfolding fld
    proof -
      note simps = fin_def children_fields_Cons children_containers_Cons Let_def s2_def s1_def advance_def
        ctx'_def [symmetric] v_def [symmetric] e_def [symmetric] start2_def commas_Cons L_def
      show "fin f' = set_model (entry2 \<noteq> None) (the entry2) (s2\<lparr>js_offset := start2 + length (commas (map child_text cs)), js_stack := f' # fs,
           js_fields := (L @ own_field (js_trie s) ctx' v prev (next_start c e cs)) @
             children_fields (js_trie s) M ctx (index + 1) start2 (Some e) cs,
           js_containers := js_containers s2 @ children_containers (js_trie s) M ctx (index + 1) start2 cs\<rparr>)"
      proof (cases "vc_isModel ctx'")
        case True
        with entry_eq have en: "entry = Some one" "entry2 = None" by simp_all
        show ?thesis by (rule JSONScanner.equality) (use False True en in \<open>simp_all add: simps set_model_def\<close>)
      next
        case plain: False
        with entry_eq have en: "entry = entry2" by simp
        show ?thesis by (rule JSONScanner.equality; cases entry2) (use False plain en in \<open>simp_all add: simps set_model_def\<close>)
      qed
    qed
    then have "scans tl_text s1 = scans (closer k # rest) (fin f')"
      using run2 f'(1) f2(2,5) s2(2,3) by (simp add: Let_def entry2_def cs M_def)
    moreover have "sf_lastChildEnd f' = last_end (js_trie s) ctx index start 0 (c # cs)"
      using f'(6) s2(2) by (simp add: last_end_Cons [where model = M] cs start2_def Let_def del: last_end.simps(2))
    ultimately show ?thesis using f'(2-5) f2(4) by (intro exI [of _ f']) simp
  qed
  then obtain f' where f': "scans tl_text s1 = scans (closer k # rest) (fin f')" "frame_of f' ctx k" "sf_state f' = comma_state k"
    "sf_childCount f' = index + length (c # cs)" "sf_firstChildStart f' = sf_firstChildStart f1"
    "sf_lastChildEnd f' = last_end (js_trie s) ctx index start 0 (c # cs)" by blast
  note run = run1 [unfolded f'(1) fin_def entry_def M_def prev_def]
  show ?case unfolding Let_def list.sel(1) by (intro exI [of _ f'] conjI) (rule run f'(2,3,4,6) f'(5) [unfolded first])+
qed simp

section \<open>Containers\<close>

definition may_close :: "scanFrame \<Rightarrow> char \<Rightarrow> bool" where
  "may_close f k \<longleftrightarrow> sf_state f = comma_state k \<or>
     \<not> sf_afterComma f \<and> sf_state f = (if k = CHR ''{'' then objectKeyOrEnd else arrayValueOrEnd)"

lemma close_frame_step:
  assumes "live s" "js_stack s = f # fs" "bracket k" "sf_kind f = k" "may_close f k"
  shows "step (closer k) s = close_step s"
  using assms by (auto simp: step_def live_def frame_step_def bracket_def closer_def may_close_def comma_state_def isJSONWhitespace_def)

definition filled :: "scanFrame \<Rightarrow> selectorTrie \<Rightarrow> valueContext \<Rightarrow> char \<Rightarrow> child list \<Rightarrow> bool" where
  "filled f trie ctx k cs \<longleftrightarrow> frame_of f ctx k \<and> may_close f k \<and> sf_childCount f = length cs \<and>
     sf_firstChildStart f = (case cs of [] \<Rightarrow> 0 | c # _ \<Rightarrow> own_start (child_context trie False ctx 0 (vc_start ctx + 1) c)) \<and>
     sf_lastChildEnd f = last_end trie ctx 0 (vc_start ctx + 1) 0 cs"

lemma container_info_own:
  assumes "filled f trie ctx k cs" "root \<or> vc_record ctx" "bracket k"
  shows "[container_info f (value_end ctx (Container k space cs))] = own_container trie root ctx k space cs"
  using assms by (auto simp: filled_def frame_of_def container_info_def own_container_def json_type_def)

text \<open>From the bracket that opens a container to the one that closes it.\<close>

lemma inside_run:
  assumes s: "live s" "trie_fits s" "js_stack s = newFrame k ctx # fs" "js_offset s = vc_start ctx + 1"
    and v: "bracket k" "white space" "list_all (\<lambda>c. child_ok c k) cs" "list_all (\<lambda>c. value_runs (ch_value c)) cs"
    and m: "is_root s fs \<longrightarrow> models_fit s cs"
  shows "\<exists>f'. scans (tl (json_text (Container k space cs)) @ rest) s =
      scans (closer k # rest)
        (let entry = (if is_root s fs then model_entry (js_trie s) ctx 0 (vc_start ctx + 1) cs else None)
         in set_model (entry \<noteq> None) (the entry) (s\<lparr>js_offset := value_end ctx (Container k space cs) - 1, js_stack := f' # fs,
           js_fields := js_fields s @ children_fields (js_trie s) (is_root s fs) ctx 0 (vc_start ctx + 1) None cs,
           js_containers := js_containers s @ children_containers (js_trie s) (is_root s fs) ctx 0 (vc_start ctx + 1) cs\<rparr>)) \<and>
      filled f' (js_trie s) ctx k cs"
proof (cases "cs = []")
  case True
  have "scans (space @ closer k # rest) s = scans (closer k # rest) (s\<lparr>js_offset := js_offset s + length space\<rparr>)"
    by (rule scans_white_in) (use s v in \<open>simp_all add: live_def\<close>)
  moreover have "s\<lparr>js_offset := js_offset s + length space\<rparr> = s\<lparr>js_offset := value_end ctx (Container k space cs) - 1,
      js_stack := newFrame k ctx # fs, js_fields := js_fields s, js_containers := js_containers s\<rparr>"
    by (rule JSONScanner.equality) (use s True in \<open>simp_all add: value_end_def\<close>)
  moreover have "filled (newFrame k ctx) (js_trie s) ctx k cs"
    using True v(1) by (simp add: filled_def may_close_def newFrame_def frame_of_def)
  ultimately show ?thesis using True by (intro exI [of _ "newFrame k ctx"]) (simp add: set_model_def)
next
  case False
  have r: "ready s (newFrame k ctx) fs ctx k 0 (vc_start ctx + 1)"
    using s v(1) by (auto simp: ready_def newFrame_def frame_of_def bracket_def)
  have nt: "noteNextSibling n s = s" for n using s(3) by (simp add: noteNextSibling_def newFrame_def)
  have off: "value_end ctx (Container k space cs) - 1 = vc_start ctx + 1 + length (commas (map child_text cs))"
    using False by (simp add: value_end_def)
  have tx: "tl (json_text (Container k space cs)) @ rest = commas (map child_text cs) @ closer k # rest" using False by simp
  from children_run [OF r False v(3,4) _ _ m, of rest] obtain f' where f':
    "scans (commas (map child_text cs) @ closer k # rest) s =
      scans (closer k # rest)
        (let entry = (if is_root s fs then model_entry (js_trie s) ctx 0 (vc_start ctx + 1) cs else None)
         in set_model (entry \<noteq> None) (the entry) (s\<lparr>js_offset := vc_start ctx + 1 + length (commas (map child_text cs)), js_stack := f' # fs,
           js_fields := js_fields s @ children_fields (js_trie s) (is_root s fs) ctx 0 (vc_start ctx + 1) None cs,
           js_containers := js_containers s @ children_containers (js_trie s) (is_root s fs) ctx 0 (vc_start ctx + 1) cs\<rparr>))"
    "frame_of f' ctx k" "sf_state f' = comma_state k" "sf_childCount f' = length cs"
    "sf_firstChildStart f' = own_start (child_context (js_trie s) False ctx 0 (vc_start ctx + 1) (hd cs))"
    "sf_lastChildEnd f' = last_end (js_trie s) ctx 0 (vc_start ctx + 1) 0 cs"
    by (auto simp: nt newFrame_def)
  have "filled f' (js_trie s) ctx k cs" using f'(2-6) False by (cases cs) (simp_all add: filled_def may_close_def)
  with f'(1) show ?thesis unfolding off tx by blast
qed

lemma Container_runs:
  assumes v: "bracket k" "white space" "list_all (\<lambda>c. child_ok c k) cs" "list_all (\<lambda>c. value_runs (ch_value c)) cs"
  shows "value_runs (Container k space cs)"
  unfolding value_runs_def
proof (intro allI impI, elim conjE)
  fix ctx :: valueContext and s :: JSONScanner and rest
  assume s: "live s" "trie_fits s" "vc_start ctx = js_offset s" "vc_isModel ctx \<longrightarrow> good_model (Container k space cs) \<and> \<not> js_modelSeen s"
  have plain: "\<not> vc_isModel ctx" using s(4) by (auto simp: good_model_def model_text_def)
  have kq: "k \<noteq> quote" "k = CHR ''{'' \<or> k = CHR ''[''" using v(1) by (auto simp: bracket_def quote_def)
  obtain g gs where stack: "js_stack (top_comma s) = g # gs" using s(1) by (cases "js_stack s") (auto simp: top_comma_def live_def)
  define s2 where "s2 = pushContainer k ctx (advance (top_comma s))"
  have st: "startValue k ctx s = (True, None, s2)" using kq by (simp add: startValue_eq [OF s(1)] s2_def)
  have s2: "live s2" "trie_fits s2" "js_stack s2 = newFrame k ctx # g # gs" "js_offset s2 = vc_start ctx + 1"
    using s stack by (simp_all add: s2_def pushContainer_def advance_def live_def trie_fits_def)
  from inside_run [OF s2 v, of rest] obtain f' where
    run: "scans (tl (json_text (Container k space cs)) @ rest) s2 =
      scans (closer k # rest) (s2\<lparr>js_offset := value_end ctx (Container k space cs) - 1, js_stack := f' # g # gs,
           js_fields := js_fields s @ children_fields (js_trie s) False ctx 0 (vc_start ctx + 1) None cs,
           js_containers := js_containers s @ children_containers (js_trie s) False ctx 0 (vc_start ctx + 1) cs\<rparr>)"
    and f': "filled f' (js_trie s) ctx k cs"
    by (auto simp: set_model_def s2_def pushContainer_def advance_def)
  define s3 where "s3 = s2\<lparr>js_offset := value_end ctx (Container k space cs) - 1, js_stack := f' # g # gs,
           js_fields := js_fields s @ children_fields (js_trie s) False ctx 0 (vc_start ctx + 1) None cs,
           js_containers := js_containers s @ children_containers (js_trie s) False ctx 0 (vc_start ctx + 1) cs\<rparr>"
  have end_: "js_offset (advance s3) = value_end ctx (Container k space cs)" by (simp add: s3_def advance_def value_end_def)
  have kind: "sf_kind f' = k" "sf_ctx f' = ctx" "sf_record f' = vc_record ctx" "may_close f' k" using f' by (simp_all add: filled_def frame_of_def)
  have live3: "live s3" "js_stack s3 = f' # g # gs" using s2(1) by (simp_all add: s3_def live_def)
  define s4 where "s4 = (advance s3)\<lparr>js_containers := js_containers s @ value_containers (js_trie s) False False ctx (Container k space cs), js_stack := g # gs\<rparr>"
  have "(if g # gs = [] \<or> sf_record f' then (advance s3)\<lparr>js_containers := js_containers (advance s3) @ [container_info f' (js_offset (advance s3))]\<rparr> else advance s3)
      \<lparr>js_stack := g # gs\<rparr> = s4"
    using container_info_own [OF f' _ v(1), of False space] kind(3)
    by (intro JSONScanner.equality) (auto simp: end_ s4_def, simp_all add: s3_def advance_def own_container_def)
  note popped = this
  have stk: "js_stack (advance s3) = f' # g # gs" using live3(2) by (simp add: advance_def)
  have "s4 = (top_comma s)\<lparr>js_offset := value_end ctx (Container k space cs), js_fields := js_fields s @ value_fields (js_trie s) False ctx (Container k space cs),
      js_containers := js_containers s @ value_containers (js_trie s) False False ctx (Container k space cs)\<rparr>"
    by (rule JSONScanner.equality) (use stack end_ in \<open>simp_all add: s4_def s3_def s2_def pushContainer_def advance_def\<close>)
  then have after: "completeValue ctx (if k = CHR ''['' then JSONArray else JSONObject) zeroRange [] (value_end ctx (Container k space cs)) s4 =
      after_value ctx (Container k space cs) s"
    using plain by (simp add: after_value_def json_type_def string_range_def)
  have "js_err (after_value ctx (Container k space cs) s) = None" unfolding after_value_def
    by (rule completeValue_err) (use s plain in \<open>auto simp: live_def\<close>)
  moreover have "closeContainer (advance s3) = (js_err (after_value ctx (Container k space cs) s), after_value ctx (Container k space cs) s)"
    by (simp only: closeContainer_def stk list.case Let_def popped) (simp add: kind(1,2) end_ after)
  ultimately have "step (closer k) s3 = (True, None, after_value ctx (Container k space cs) s)"
    using close_frame_step [OF live3 v(1) kind(1,4)] by (simp add: close_step_def)
  then have "scans (closer k # rest) s3 = scans rest (after_value ctx (Container k space cs) s)" by (simp add: consume_step)
  with run have "scans (tl (json_text (Container k space cs)) @ rest) s2 = scans rest (after_value ctx (Container k space cs) s)" by (simp add: s3_def)
  moreover have "start_byte k" using kq by (auto simp: start_byte_def isJSONWhitespace_def)
  ultimately show "\<exists>c r s2. json_text (Container k space cs) = c # r \<and> start_byte c \<and> startValue c ctx s = (True, None, s2) \<and>
      scans (r @ rest) s2 = scans rest (after_value ctx (Container k space cs) s)"
    using st by (intro exI [of _ k] exI [of _ "tl (json_text (Container k space cs))"] exI [of _ s2]) simp
qed

end
