(* ===== verification/Body_Documents.thy ===== *)
theory Body_Documents
  imports Body_Index
begin

text \<open>
  The scanner of package bodyfile on whole bodies: however a body is cut into chunks, it is accepted
  if and only if it is a document that names its model as a request must, and the result is the
  reference index of the syntax tree together with the markers that occur.
\<close>

section \<open>Documents\<close>

lemma runs_ok:
  fixes v :: json and c :: child
  shows "json_ok v \<Longrightarrow> value_runs v" and "child_ok c k \<Longrightarrow> value_runs (ch_value c)"
proof (induction v and c arbitrary: and k rule: json.induct child.induct)
  case (Container k space children)
  then show ?case by (intro Container_runs) (auto simp: bracket_def list_all_iff)
qed (simp_all add: Text_runs Scalar_runs)

lemma children_runs: "list_all (\<lambda>c. child_ok c k) cs \<Longrightarrow> list_all (\<lambda>c. value_runs (ch_value c)) cs"
  using runs_ok(2) by (auto simp: list_all_iff)

text \<open>What a document leaves in the scanner.\<close>

definition indexed :: "JSONScanner \<Rightarrow> JSONScanner \<Rightarrow> string \<Rightarrow> child list \<Rightarrow> string \<Rightarrow> nat \<Rightarrow> bool" where
  "indexed s s' lead cs space size_of_body \<longleftrightarrow>
     (let root = Container CHR ''{'' space cs; ctx = rootContext (length lead); required = sp_RequireModel (js_spec s);
          entry = (if required then model_entry (js_trie s) ctx 0 (length lead + 1) cs else None)
      in js_token s' = None \<and> js_started s' \<and> js_rootDone s' \<and> js_stack s' = [] \<and> js_err s' = None \<and> js_spec s' = js_spec s \<and>
         js_finished s' = js_finished s \<and> js_offset s' = size_of_body \<and>
         js_fields s' = value_fields (js_trie s) required ctx root \<and> js_containers s' = value_containers (js_trie s) required True ctx root \<and>
         js_modelSeen s' = (entry \<noteq> None) \<and>
         (case entry of None \<Rightarrow> js_model s' = [] \<and> js_modelRange s' = zeroRange | Some (m, r) \<Rightarrow> js_model s' = m \<and> js_modelRange s' = r))"

lemma document_run:
  assumes d: "document lead cs space trail p" and m: "model_ok (sp_RequireModel (cs_spec spec)) cs"
    and fits: "trie_fits (newScanner spec)"
  shows "\<exists>s'. scans p (newScanner spec) = Some s' \<and> indexed (newScanner spec) s' lead cs space (length p)"
proof -
  define s where "s = newScanner spec"
  define n where "n = length lead"
  define ctx where "ctx = rootContext n"
  define k where "k = CHR ''{''"
  have ok: "white lead" "white trail" "white space" "list_all (\<lambda>c. child_ok c k) cs" "bracket k"
    and p: "p = lead @ json_text (Container k space cs) @ trail"
    using d by (auto simp: document_def k_def bracket_def list_all_iff)
  define s1 where "s1 = s\<lparr>js_offset := n\<rparr>"
  have 1: "scans (lead @ q) s = scans q s1" for q
    by (subst scans_white) (use ok(1) in \<open>simp_all add: s1_def s_def newScanner_def n_def\<close>)
  define s2 where "s2 = pushContainer k ctx (advance (s1\<lparr>js_started := True\<rparr>))"
  have "consume k s1 = Some s2"
    by (intro consume_step) (simp add: step_def s1_def s_def newScanner_def k_def isJSONWhitespace_def s2_def ctx_def)
  then have 2: "scans (k # q) s1 = scans q s2" for q by simp
  have s2: "live s2" "trie_fits s2" "js_stack s2 = [newFrame k ctx]" "js_offset s2 = vc_start ctx + 1" "js_trie s2 = js_trie s" "js_spec s2 = js_spec s"
    "js_fields s2 = []" "js_containers s2 = []" "js_modelSeen s2 = False" "js_model s2 = []" "js_modelRange s2 = zeroRange" "js_finished s2 = js_finished s"
    using fits by (simp_all add: s2_def pushContainer_def advance_def live_def trie_fits_def s1_def s_def newScanner_def ctx_def rootContext_def)
  have "models_fit s2 cs" if "sp_RequireModel (js_spec s)"
    using m that s2(9) by (auto simp: model_ok_def models_fit_def s_def newScanner_def)
  then have "is_root s2 [] \<longrightarrow> models_fit s2 cs" by (simp add: s2(6))
  from inside_run [OF s2(1-4) ok(5,3,4) children_runs [OF ok(4)] this, of trail] obtain f' where
    run: "scans (tl (json_text (Container k space cs)) @ trail) s2 =
      scans (closer k # trail)
        (let entry = (if is_root s2 [] then model_entry (js_trie s2) ctx 0 (vc_start ctx + 1) cs else None)
         in set_model (entry \<noteq> None) (the entry) (s2\<lparr>js_offset := value_end ctx (Container k space cs) - 1, js_stack := [f'],
           js_fields := js_fields s2 @ children_fields (js_trie s2) (is_root s2 []) ctx 0 (vc_start ctx + 1) None cs,
           js_containers := js_containers s2 @ children_containers (js_trie s2) (is_root s2 []) ctx 0 (vc_start ctx + 1) cs\<rparr>))"
    and f': "filled f' (js_trie s2) ctx k cs" by blast
  define entry where "entry = (if is_root s2 [] then model_entry (js_trie s2) ctx 0 (vc_start ctx + 1) cs else None)"
  define s3 where s3_eq: "s3 = set_model (entry \<noteq> None) (the entry) (s2\<lparr>js_offset := value_end ctx (Container k space cs) - 1, js_stack := [f'],
           js_fields := js_fields s2 @ children_fields (js_trie s2) (is_root s2 []) ctx 0 (vc_start ctx + 1) None cs,
           js_containers := js_containers s2 @ children_containers (js_trie s2) (is_root s2 []) ctx 0 (vc_start ctx + 1) cs\<rparr>)"
  note s3_def = s3_eq
  have run': "scans (tl (json_text (Container k space cs)) @ trail) s2 = scans (closer k # trail) s3"
    unfolding s3_def entry_def using run by (simp only: Let_def)
  have s3: "live s3" "js_stack s3 = [f']" using s2(1) by (simp_all add: s3_def live_def)
  have end_: "js_offset (advance s3) = value_end ctx (Container k space cs)" by (simp add: s3_def advance_def value_end_def)
  define s4 where "s4 = (advance s3)\<lparr>js_containers := js_containers s3 @ own_container (js_trie s2) True ctx k space cs, js_stack := [], js_rootDone := True\<rparr>"
  have kind: "sf_kind f' = k" "may_close f' k" using f' by (simp_all add: filled_def frame_of_def)
  have "closeContainer (advance s3) = (None, s4)"
    using s3(2) container_info_own [OF f' _ ok(5), of True space] by (simp add: closeContainer_def Let_def advance_def s4_def) (simp add: end_ [unfolded advance_def, simplified])
  then have "consume (closer k) s3 = Some s4"
    using close_frame_step [OF s3 ok(5) kind] by (intro consume_step) (simp add: close_step_def)
  then have 3: "scans (closer k # trail) s3 = scans trail s4" by simp
  define s5 where "s5 = s4\<lparr>js_offset := js_offset s4 + length trail\<rparr>"
  have 4: "scans (trail @ []) s4 = scans [] s5" unfolding s5_def
    by (rule scans_white) (use ok(2) s3(1) in \<open>simp_all add: s4_def advance_def live_def\<close>)
  have "p = lead @ k # tl (json_text (Container k space cs)) @ trail" by (simp add: p)
  then have "scans p s = Some s5" using 1 2 run' 3 4 by (simp only: append_Cons append_Nil2 scans.simps(1))
  moreover have "indexed s s5 lead cs space (length p)"
  proof -
    have ctx: "vc_start ctx = n" by (simp add: ctx_def rootContext_def)
    have total: "js_offset s5 = length p" using end_ by (simp add: s5_def s4_def p value_end_def ctx n_def)
    have "js_fields s5 = value_fields (js_trie s) (sp_RequireModel (js_spec s)) ctx (Container k space cs)"
      by (simp add: s5_def s4_def s3_def advance_def s2(5-8))
    moreover have "js_containers s5 = value_containers (js_trie s) (sp_RequireModel (js_spec s)) True ctx (Container k space cs)"
      by (simp add: s5_def s4_def s3_def advance_def s2(5-8))
    moreover have "js_modelSeen s5 = (entry \<noteq> None) \<and> (case entry of None \<Rightarrow> js_model s5 = [] \<and> js_modelRange s5 = zeroRange
        | Some (m, r) \<Rightarrow> js_model s5 = m \<and> js_modelRange s5 = r)"
      by (cases entry) (auto simp: s5_def s4_def s3_def advance_def set_model_def s2(9-11))
    moreover have "entry = (if sp_RequireModel (js_spec s) then model_entry (js_trie s) ctx 0 (length lead + 1) cs else None)"
      by (simp add: entry_def s2(5,6) ctx n_def)
    moreover have "js_token s5 = None" "js_started s5" "js_rootDone s5" "js_stack s5 = []" "js_err s5 = None" "js_spec s5 = js_spec s" "js_finished s5 = js_finished s"
      using s3(1) s2(6,12) by (simp_all add: s5_def s4_def s3_def advance_def live_def set_model_def)
    ultimately show ?thesis using total unfolding indexed_def Let_def ctx_def [symmetric] n_def [symmetric] k_def [symmetric] by simp
  qed
  ultimately show ?thesis unfolding s_def by blast
qed

section \<open>Chunks\<close>

text \<open>The markers are looked for beside the scan.\<close>

definition with_matchers :: "rawMarkerMatcher list \<Rightarrow> JSONScanner \<Rightarrow> JSONScanner" where
  "with_matchers ms s = s\<lparr>js_rawMatchers := ms\<rparr>"

lemma with_matchers_fields [simp]:
  "js_spec (with_matchers ms s) = js_spec s" "js_trie (with_matchers ms s) = js_trie s" "js_keyRawLimit (with_matchers ms s) = js_keyRawLimit s"
  "js_rawMatchers (with_matchers ms s) = ms" "js_offset (with_matchers ms s) = js_offset s" "js_stack (with_matchers ms s) = js_stack s"
  "js_token (with_matchers ms s) = js_token s" "js_started (with_matchers ms s) = js_started s" "js_rootDone (with_matchers ms s) = js_rootDone s"
  "js_finished (with_matchers ms s) = js_finished s" "js_err (with_matchers ms s) = js_err s" "js_modelSeen (with_matchers ms s) = js_modelSeen s"
  "js_model (with_matchers ms s) = js_model s" "js_modelRange (with_matchers ms s) = js_modelRange s" "js_fields (with_matchers ms s) = js_fields s"
  "js_containers (with_matchers ms s) = js_containers s"
  by (simp_all add: with_matchers_def)

lemma with_matchers_updates [simp]:
  "(with_matchers ms s)\<lparr>js_offset := n\<rparr> = with_matchers ms (s\<lparr>js_offset := n\<rparr>)" "(with_matchers ms s)\<lparr>js_stack := st\<rparr> = with_matchers ms (s\<lparr>js_stack := st\<rparr>)"
  "(with_matchers ms s)\<lparr>js_token := t\<rparr> = with_matchers ms (s\<lparr>js_token := t\<rparr>)" "(with_matchers ms s)\<lparr>js_started := b\<rparr> = with_matchers ms (s\<lparr>js_started := b\<rparr>)"
  "(with_matchers ms s)\<lparr>js_rootDone := b\<rparr> = with_matchers ms (s\<lparr>js_rootDone := b\<rparr>)" "(with_matchers ms s)\<lparr>js_err := e\<rparr> = with_matchers ms (s\<lparr>js_err := e\<rparr>)"
  "(with_matchers ms s)\<lparr>js_modelSeen := b\<rparr> = with_matchers ms (s\<lparr>js_modelSeen := b\<rparr>)" "(with_matchers ms s)\<lparr>js_model := m\<rparr> = with_matchers ms (s\<lparr>js_model := m\<rparr>)"
  "(with_matchers ms s)\<lparr>js_modelRange := r\<rparr> = with_matchers ms (s\<lparr>js_modelRange := r\<rparr>)" "(with_matchers ms s)\<lparr>js_fields := flds\<rparr> = with_matchers ms (s\<lparr>js_fields := flds\<rparr>)"
  "(with_matchers ms s)\<lparr>js_containers := cs\<rparr> = with_matchers ms (s\<lparr>js_containers := cs\<rparr>)" "(with_matchers ms s)\<lparr>js_rawMatchers := ms'\<rparr> = with_matchers ms' s"
  by (simp_all add: with_matchers_def)

lemma with_matchers_twice [simp]: "with_matchers ms (with_matchers ms' s) = with_matchers ms s"
  by (simp add: with_matchers_def)

lemma with_matchers_id [simp]: "with_matchers (js_rawMatchers s) s = s"
  by (simp add: with_matchers_def)

lemma matchers_small [simp]:
  "advance (with_matchers ms s) = with_matchers ms (advance s)" "set_top_state st (with_matchers ms s) = with_matchers ms (set_top_state st s)"
  "put_token t (with_matchers ms s) = with_matchers ms (put_token t s)" "pushContainer k ctx (with_matchers ms s) = with_matchers ms (pushContainer k ctx s)"
  by (simp_all add: advance_def set_top_state_def put_token_def pushContainer_def split: list.split)

lemma matchers_contexts [simp]:
  "makeObjectContext (with_matchers ms s) f key r m over = makeObjectContext s f key r m over"
  "makeArrayContext (with_matchers ms s) f i m = makeArrayContext s f i m" "keyRawLimitFor (with_matchers ms s) f = keyRawLimitFor s f"
  by (simp_all add: makeObjectContext_def makeArrayContext_def keyRawLimitFor_def)

lemma matchers_note [simp]: "noteNextSibling n (with_matchers ms s) = with_matchers ms (noteNextSibling n s)"
  by (simp add: noteNextSibling_def Let_def split: list.split option.split)

lemma matchers_add_field [simp]: "add_field ctx ty r n (with_matchers ms s) = with_matchers ms (add_field ctx ty r n s)"
  by (cases "js_stack s") (simp_all add: add_field_def Let_def)

lemma matchers_completeValue [simp]: "completeValue ctx ty r str n (with_matchers ms s) = with_matchers ms (completeValue ctx ty r str n s)"
  by (simp add: completeValue_def model_result_def Let_def)

lemma matchers_finishToken [simp]: "finishToken t (with_matchers ms s) = with_matchers ms (finishToken t s)"
  by (simp add: finishToken_def finishKey_def Let_def split: scanTokenKind.split list.split option.split)

definition lift_matchers :: "rawMarkerMatcher list \<Rightarrow> step_result \<Rightarrow> step_result" where
  "lift_matchers ms r = (fst r, fst (snd r), with_matchers ms (snd (snd r)))"

lemma lift_triple [simp]: "lift_matchers ms (b, e, s) = (b, e, with_matchers ms s)"
  by (simp add: lift_matchers_def)

lemmas lift_cases = if_distrib [of "lift_matchers ms" for ms] list.case_distrib [of "lift_matchers ms" for ms] option.case_distrib [of "lift_matchers ms" for ms]
  sum.case_distrib [of "lift_matchers ms" for ms] frameState.case_distrib [of "lift_matchers ms" for ms]
  scanTokenKind.case_distrib [of "lift_matchers ms" for ms]

lemma matchers_refuse [simp]: "refuse m (with_matchers ms s) = lift_matchers ms (refuse m s)" "skip_byte (with_matchers ms s) = lift_matchers ms (skip_byte s)"
    "token_goes_on c r (with_matchers ms s) = lift_matchers ms (token_goes_on c r s)"
  by (simp_all add: refuse_def skip_byte_def token_goes_on_def split: sum.split)

lemma matchers_close [simp]: "close_step (with_matchers ms s) = lift_matchers ms (close_step s)"
  by (simp add: close_step_def closeContainer_def Let_def split: list.split)

lemma matchers_startValue [simp]: "startValue c ctx (with_matchers ms s) = lift_matchers ms (startValue c ctx s)"
  by (cases "js_stack s") (simp_all add: startValue_def Let_def lift_cases cong: if_cong option.case_cong)

lemma matchers_startKey [simp]: "startKey (with_matchers ms s) = lift_matchers ms (startKey s)"
  by (simp add: startKey_def Let_def lift_cases cong: list.case_cong)

lemma matchers_startElement [simp]: "startElement c (with_matchers ms s) = lift_matchers ms (startElement c s)"
  by (simp add: startElement_def Let_def lift_cases cong: list.case_cong)

lemma matchers_string: "consumeStringToken c t (with_matchers ms s) = lift_matchers ms (consumeStringToken c t s)"
  by (simp add: consumeStringToken_def Let_def lift_cases cong: if_cong sum.case_cong)

lemma matchers_literal: "consumeLiteralToken c t (with_matchers ms s) = lift_matchers ms (consumeLiteralToken c t s)"
  by (simp add: consumeLiteralToken_def Let_def lift_cases cong: if_cong)

lemma matchers_number: "consumeNumberToken c t (with_matchers ms s) = lift_matchers ms (consumeNumberToken c t s)"
  by (cases "advanceNumber (tk_numberState t) c") (simp add: consumeNumberToken_def lift_cases cong: if_cong)

lemma matchers_frame_step: "frame_step c f fs (with_matchers ms s) = lift_matchers ms (frame_step c f fs s)"
  by (cases "sf_state f") (simp_all add: frame_step_def lift_cases cong: if_cong)

lemma matchers_step: "step c (with_matchers ms s) = lift_matchers ms (step c s)"
  by (cases "js_token s"; cases "js_stack s")
    (simp_all add: step_def matchers_frame_step consumeToken_def matchers_string matchers_literal matchers_number lift_cases cong: if_cong
      scanTokenKind.case_cong)

lemma matchers_consume: "consume c (with_matchers ms s) = map_option (with_matchers ms) (consume c s)"
  by (auto simp: consume_def matchers_step split: prod.split option.split bool.split)

lemma matchers_scans: "scans p (with_matchers ms s) = map_option (with_matchers ms) (scans p s)"
  by (induction p arbitrary: s) (auto simp: matchers_consume split: option.split)

lemma consume_static: "consume c s = Some s' \<Longrightarrow> same_static s' s"
  by (auto simp: consume_def split: prod.splits option.splits bool.splits dest!: step_static intro: same_static_trans)

lemma scans_static: "scans p s = Some s' \<Longrightarrow> same_static s' s"
  by (induction p arbitrary: s) (auto split: option.splits dest: consume_static intro: same_static_trans)

lemma feed_markers:
  assumes "list_all2 (\<lambda>pat m. matcher_ok pat str m) pats ms" "list_all (\<lambda>pat. pat \<noteq> []) pats"
  shows "\<exists>ms'. those (map (marker_feed_all p) ms) = Some ms' \<and> list_all2 (\<lambda>pat m. matcher_ok pat (str @ p) m) pats ms'"
  using assms
proof (induction rule: list_all2_induct)
  case (Cons pat pats m ms)
  from marker_feed_all_ok [OF Cons.hyps(1), of p] Cons.prems obtain n where "marker_feed_all p m = Some n" "matcher_ok pat (str @ p) n" by auto
  with Cons.IH Cons.prems show ?case by auto
qed simp

lemma write_all_run:
  assumes "scans (concat ps) s = Some s'" "js_err s' = None" "\<not> js_finished s"
    and "list_all2 (\<lambda>pat m. matcher_ok pat str m) pats (js_rawMatchers s)" "list_all (\<lambda>pat. pat \<noteq> []) pats"
  shows "\<exists>ms. write_all ps s = Some (None, with_matchers ms s') \<and> list_all2 (\<lambda>pat m. matcher_ok pat (str @ concat ps) m) pats ms"
  using assms
proof (induction ps arbitrary: s s' str)
  case Nil
  then show ?case by (intro exI [of _ "js_rawMatchers s"]) auto
next
  case (Cons p ps)
  from Cons.prems(1) obtain s1 where s1: "scans p s = Some s1" "scans (concat ps) s1 = Some s'"
    by (auto simp: scans_append split: option.splits)
  from feed_markers [OF Cons.prems(4,5)] obtain ms where
    ms: "those (map (marker_feed_all p) (js_rawMatchers s)) = Some ms" "list_all2 (\<lambda>pat m. matcher_ok pat (str @ p) m) pats ms" by blast
  from scans_static [OF s1(1)] scans_static [OF s1(2)] Cons.prems(2,3) have e: "js_err s = None" "\<not> js_finished s1"
    by (auto simp: same_static_def)
  have "scans p (with_matchers ms s) = Some (with_matchers ms s1)" using s1(1) by (simp add: matchers_scans)
  then have "JSONScanner_Write p s = Some (length p, None, with_matchers ms s1)"
    using scans_write [of p "with_matchers ms s" _ 0] e(1) ms(1) Cons.prems(3) by (simp add: JSONScanner_Write_def with_matchers_def)
  moreover have "scans (concat ps) (with_matchers ms s1) = Some (with_matchers ms s')" using s1(2) by (simp add: matchers_scans)
  with Cons.IH [of "with_matchers ms s1" "with_matchers ms s'" "str @ p"] Cons.prems(2,5) ms(2) e(2)
  obtain ms' where "write_all ps (with_matchers ms s1) = Some (None, with_matchers ms' s')" "list_all2 (\<lambda>pat m. matcher_ok pat (str @ p @ concat ps) m) pats ms'"
    by auto
  ultimately show ?case by auto
qed

section \<open>The selector trie\<close>

definition trie_below :: "nat \<Rightarrow> selectorTrie \<Rightarrow> bool" where
  "trie_below n trie \<longleftrightarrow> (\<forall>node \<in> set (tr_nodes trie). \<forall>segment. Some segment \<in> set node \<longrightarrow> length segment \<le> n)"

lemma trie_below_terminal [simp]: "trie_below n (trie\<lparr>tr_terminal := t\<rparr>) = trie_below n trie"
  by (simp add: trie_below_def)

lemma trie_walk_below:
  assumes "trie_below n trie" "\<And>segment. segment \<in> set segments \<Longrightarrow> length segment \<le> n" "\<And>segment. Some segment \<in> set node \<Longrightarrow> length segment \<le> n"
  shows "trie_below n (trie_walk segments node trie)"
  using assms
proof (induction segments node trie rule: trie_walk.induct)
  case (2 segment segments node trie)
  define child where "child = node @ [selector_step segment]"
  have child: "length s \<le> n" if "Some s \<in> set child" for s
    using that 2(3,4) by (auto simp: child_def selector_step_def split: if_splits)
  have "trie_below n (if child \<in> set (tr_nodes trie) then trie else trie\<lparr>tr_nodes := child # tr_nodes trie\<rparr>)"
    using 2(2) child by (auto simp: trie_below_def)
  with 2(1) [OF child_def] 2(3) child have "trie_below n (trie_walk segments child
      (if child \<in> set (tr_nodes trie) then trie else trie\<lparr>tr_nodes := child # tr_nodes trie\<rparr>))" by simp
  then show ?case by (simp only: trie_walk.simps Let_def child_def)
qed simp

lemma fold_longest:
  "n \<le> foldl (\<lambda>longest segment. if length segment > longest then length segment else longest) n segments \<and>
   (\<forall>segment \<in> set segments. length segment \<le> foldl (\<lambda>longest segment. if length segment > longest then length segment else longest) n segments)"
proof (induction segments arbitrary: n)
  case (Cons s segments)
  from Cons.IH [of "if length s > n then length s else n"] show ?case by (auto split: if_splits)
qed simp

lemma max_segment_below:
  assumes "path \<in> set paths" "splitPointer path = Some segments" "segment \<in> set segments"
  shows "length segment \<le> max_segment paths"
proof -
  let ?f = "\<lambda>longest path. case splitPointer path of None \<Rightarrow> longest
        | Some segments \<Rightarrow> foldl (\<lambda>longest segment. if length segment > longest then length segment else longest) longest segments"
  have mono: "n \<le> foldl ?f n ps" for n :: nat and ps
  proof (induction ps arbitrary: n)
    case (Cons p ps)
    have "n \<le> ?f n p" using fold_longest by (auto split: option.split)
    with Cons.IH [of "?f n p"] show ?case by simp
  qed simp
  have "\<forall>path \<in> set ps. splitPointer path = Some segments \<longrightarrow> length segment \<le> foldl ?f n ps" for n :: nat and ps
  proof (induction ps arbitrary: n)
    case (Cons p ps)
    have "length segment \<le> ?f n p" if "splitPointer p = Some segments"
      using that bspec [OF conjunct2 [OF fold_longest [of n segments]] assms(3)] by simp
    then show ?case using Cons.IH [of "?f n p"] mono [of "?f n p" ps] by fastforce
  qed simp
  with assms(1,2) show ?thesis by (auto simp: max_segment_def)
qed

lemma newSelectorTrie_below: "trie_below (max_segment paths) (newSelectorTrie paths selectAll)"
proof -
  have "trie_below (max_segment paths) (foldl (\<lambda>trie path. trie_walk (case splitPointer path of None \<Rightarrow> [] | Some segments \<Rightarrow> segments) [] trie) trie ps)"
    if "set ps \<subseteq> set paths" "trie_below (max_segment paths) trie" for ps trie
    using that
  proof (induction ps arbitrary: trie)
    case (Cons p ps)
    then show ?case using max_segment_below [of p paths]
      by (auto intro!: Cons.IH trie_walk_below split: option.splits)
  qed simp
  from this [of paths "\<lparr>tr_nodes = [[]], tr_terminal = [], tr_selectAll = selectAll\<rparr>"] show ?thesis
    by (simp add: newSelectorTrie_def trie_below_def [of _ "\<lparr>tr_nodes = [[]], tr_terminal = [], tr_selectAll = selectAll\<rparr>"])
qed

lemma compiled_fits:
  assumes "CompileScanSpec spec = Some (Inr c)" "max_segment (sp_Paths spec) * 8 + 2 < 2 ^ 63"
  shows "trie_fits (newScanner c)"
proof -
  from assms(1) have c: "cs_trie c = newSelectorTrie (sp_Paths spec) (sp_SelectAll spec)"
    "cs_keyRawLimit c = selectorKeyRawLimit (spec\<lparr>sp_RequireObject := True\<rparr>)"
    by (auto simp: CompileScanSpec_def Let_def split: option.splits)
  have "\<not> max_segment (sp_Paths spec) > (2 ^ 63 - 1 - 2) div 8" using assms(2) by simp
  then have "cs_keyRawLimit c = (if max_segment (sp_Paths spec) * 8 + 2 < 64 then 64 else max_segment (sp_Paths spec) * 8 + 2)"
    by (simp add: c(2) selectorKeyRawLimit_def Let_def)
  then have "64 \<le> cs_keyRawLimit c" "max_segment (sp_Paths spec) * 8 + 2 \<le> cs_keyRawLimit c" by simp_all
  with newSelectorTrie_below [of "sp_Paths spec" "sp_SelectAll spec"] show ?thesis
    by (fastforce simp: trie_fits_def newScanner_def c(1) trie_below_def)
qed

section \<open>Complete scans\<close>

text \<open>The result that a document calls for.\<close>

definition reference_result :: "CompiledScanSpec \<Rightarrow> string \<Rightarrow> child list \<Rightarrow> string \<Rightarrow> string \<Rightarrow> ScanResult" where
  "reference_result spec lead cs space body =
     (let root = Container CHR ''{'' space cs; ctx = rootContext (length lead); required = sp_RequireModel (cs_spec spec);
          entry = (if required then model_entry (cs_trie spec) ctx 0 (length lead + 1) cs else None)
      in \<lparr> sr_Spec = cs_spec spec, sr_Model = (case entry of None \<Rightarrow> [] | Some (m, r) \<Rightarrow> m),
           sr_ModelRange = (case entry of None \<Rightarrow> zeroRange | Some (m, r) \<Rightarrow> r),
           sr_Fields = value_fields (cs_trie spec) required ctx root, sr_Containers = value_containers (cs_trie spec) required True ctx root,
           sr_ModelSeen = (entry \<noteq> None), sr_size = length body,
           sr_rawMarkers = map (\<lambda>marker. (marker, sublist marker body)) (sp_RawMarkers (cs_spec spec)) \<rparr>)"

lemma model_entry_found: "model_members cs \<noteq> [] \<Longrightarrow> model_entry trie ctx index start cs \<noteq> None"
  by (induction cs arbitrary: index start) (auto simp: model_members_def Let_def)

lemma those_matchers:
  assumes "those (map newRawMarkerMatcher pats) = Some ms" "list_all (\<lambda>pat. pat \<noteq> []) pats"
  shows "list_all2 (\<lambda>pat m. matcher_ok pat [] m) pats ms"
  using assms
proof (induction pats arbitrary: ms)
  case (Cons p pats)
  then obtain m ms' where "newRawMarkerMatcher p = Some m" "those (map newRawMarkerMatcher pats) = Some ms'" "ms = m # ms'"
    by (auto split: option.splits)
  with Cons newRawMarkerMatcher_ok [of p] show ?case by auto
qed simp

lemma markers_loop_nonempty: "markers_loop markers seen = None \<Longrightarrow> list_all (\<lambda>pat. pat \<noteq> []) markers"
  by (induction markers seen rule: markers_loop.induct) (auto split: if_splits)

lemma compiled_markers:
  assumes "CompileScanSpec spec = Some (Inr c)"
  shows "list_all2 (\<lambda>pat m. matcher_ok pat [] m) (sp_RawMarkers (cs_spec c)) (cs_rawMatchers c) \<and>
    list_all (\<lambda>pat. pat \<noteq> []) (sp_RawMarkers (cs_spec c))"
proof -
  from assms have c: "cs_spec c = spec\<lparr>sp_RequireObject := True\<rparr>" "those (map newRawMarkerMatcher (sp_RawMarkers spec)) = Some (cs_rawMatchers c)"
    "ScanSpec_Validate (spec\<lparr>sp_RequireObject := True\<rparr>) = None"
    by (auto simp: CompileScanSpec_def Let_def split: option.splits)
  then have "list_all (\<lambda>pat. pat \<noteq> []) (sp_RawMarkers spec)" by (auto simp: ScanSpec_Validate_def markers_loop_nonempty split: option.splits)
  with those_matchers [OF c(2)] c(1) show ?thesis by simp
qed

lemma found_markers:
  assumes "list_all2 (\<lambda>pat m. matcher_ok pat str m) pats ms"
  shows "zip pats (map mm_found ms) = map (\<lambda>marker. (marker, sublist marker str)) pats"
  using assms by (induction rule: list_all2_induct) (simp_all add: matcher_ok_def)

lemma scan_chunks_complete:
  assumes c: "CompileScanSpec spec = Some (Inr c)" "max_segment (sp_Paths spec) * 8 + 2 < 2 ^ 63"
    and d: "document lead cs space trail (concat chunks)" and m: "model_ok (sp_RequireModel (cs_spec c)) cs"
  shows "scan_chunks c chunks = Some (Inr (reference_result c lead cs space (concat chunks)))"
proof -
  from document_run [OF d m compiled_fits [OF c]] obtain s where
    s: "scans (concat chunks) (newScanner c) = Some s" "indexed (newScanner c) s lead cs space (length (concat chunks))" by auto
  have new: "js_trie (newScanner c) = cs_trie c" "js_spec (newScanner c) = cs_spec c" "js_finished (newScanner c) = False"
    by (simp_all add: newScanner_def)
  note ix = s(2) [unfolded indexed_def Let_def new]
  define entry where "entry = (if sp_RequireModel (cs_spec c) then model_entry (cs_trie c) (rootContext (length lead)) 0 (length lead + 1) cs else None)"
  have entry: "js_modelSeen s = (entry \<noteq> None)" "js_model s = (case entry of None \<Rightarrow> [] | Some (m, r) \<Rightarrow> m)"
    "js_modelRange s = (case entry of None \<Rightarrow> zeroRange | Some (m, r) \<Rightarrow> r)"
    using ix unfolding entry_def [symmetric] by (auto split: option.splits)
  from write_all_run [OF s(1), of "[]" "sp_RawMarkers (cs_spec c)"] compiled_markers [OF c(1)] ix obtain ms where
    ms: "write_all chunks (newScanner c) = Some (None, with_matchers ms s)"
    "list_all2 (\<lambda>pat m. matcher_ok pat (concat chunks) m) (sp_RawMarkers (cs_spec c)) ms" by (auto simp: newScanner_def)
  have model: "js_modelSeen s" if "sp_RequireModel (cs_spec c)"
  proof -
    from m that have "model_members cs \<noteq> []" by (auto simp: model_ok_def)
    with entry(1) that model_entry_found show ?thesis by (simp add: entry_def)
  qed
  have "fst (JSONScanner_Finish (with_matchers ms s)) = Inr (scan_result ((with_matchers ms s)\<lparr>js_finished := True\<rparr>))"
    using ix model by (auto simp: JSONScanner_Finish_def finish_token_at_end_def newScanner_def Let_def)
  also have "scan_result ((with_matchers ms s)\<lparr>js_finished := True\<rparr>) = reference_result c lead cs space (concat chunks)"
    using ix found_markers [OF ms(2)] entry unfolding reference_result_def Let_def entry_def [symmetric]
    by (simp add: scan_result_def)
  finally show ?thesis using ms(1) by (simp add: scan_chunks_def)
qed

end
