(* ===== verification/Body_Edit.thy ===== *)
theory Body_Edit
  imports Body_Sound
begin

text \<open>
  Edits of a body (\<open>internal/bodyfile/edit.go\<close>): ordered, non-overlapping byte ranges are replaced
  while the body is copied in blocks of 32 KiB, and the copy can be scanned as it is written.

  A body is the list of its bytes, a reader the bytes still to be read. The files are taken to work:
  reading yields the bytes that are left and a block is written as a whole. The cancellation of the
  context is left out.
\<close>

section \<open>Edits\<close>

record Edit =
  ed_Start :: int
  ed_End :: int
  ed_Replacement :: string

datatype edit_error = ErrNegativeSize | ErrInvalidEditAt nat | ErrEditOverlapAt nat | ErrInvalidEdit | LocalIORead
  | ErrIndexRequired | InvalidScanSpec string | EditScan scan_error

fun validate_loop :: "int \<Rightarrow> nat \<Rightarrow> Edit \<Rightarrow> Edit list \<Rightarrow> edit_error option" where
  "validate_loop size_of i previous [] = None"
| "validate_loop size_of i previous (e # es) =
     (if ed_Start e < 0 \<or> ed_End e < ed_Start e \<or> ed_End e > size_of then Some (ErrInvalidEditAt i)
      else if i > 0 \<and> (ed_Start e < ed_End previous \<or> (ed_Start e = ed_Start previous \<and> ed_End e = ed_End previous)) then Some (ErrEditOverlapAt i)
      else if i > 0 \<and> ed_Start e = ed_Start previous \<and> ed_End e = ed_Start e then Some (ErrEditOverlapAt i)
      else validate_loop size_of (i + 1) e es)"

definition validateEdits :: "int \<Rightarrow> Edit list \<Rightarrow> edit_error option" where
  "validateEdits size_of edits =
     (if size_of < 0 then Some ErrNegativeSize
      else validate_loop size_of 0 \<lparr> ed_Start = 0, ed_End = 0, ed_Replacement = [] \<rparr> edits)"

definition SortedEdits :: "Edit list \<Rightarrow> Edit list" where
  "SortedEdits edits = sort_key ed_Start (sort_key ed_End edits)"

section \<open>Copying\<close>

definition block_size :: nat where
  "block_size = 32 * 1024"

lemma block_size_pos [simp]: "0 < block_size" "block_size \<noteq> 0"
  by (simp_all add: block_size_def)

text \<open>The blocks that \<open>writeAllContext\<close> writes.\<close>

function blocks :: "string \<Rightarrow> string list" where
  "blocks data = (if data = [] then [] else take block_size data # blocks (drop block_size data))"
  by pat_completeness auto
termination
  by (relation "measure length") auto

declare blocks.simps [simp del]

text \<open>\<open>copyBodyRange\<close>: the blocks written, an error, and what is left to read.\<close>

function copy_body_loop :: "nat \<Rightarrow> string \<Rightarrow> string list \<times> edit_error option \<times> string" where
  "copy_body_loop remaining reader =
     (if remaining = 0 then ([], None, reader)
      else
        let want = min block_size remaining; buffer = take want reader in
        if length buffer < want then (blocks buffer, Some LocalIORead, [])
        else case copy_body_loop (remaining - want) (drop want reader) of (ws, e, reader) \<Rightarrow> (blocks buffer @ ws, e, reader))"
  by pat_completeness auto
termination
  by (relation "measure fst") auto

declare copy_body_loop.simps [simp del]

definition copyBodyRange :: "int \<Rightarrow> string \<Rightarrow> string list \<times> edit_error option \<times> string" where
  "copyBodyRange count reader =
     (if count < 0 then ([], Some ErrInvalidEdit, reader) else copy_body_loop (nat count) reader)"

definition discardBodyRange :: "int \<Rightarrow> string \<Rightarrow> edit_error option \<times> string" where
  "discardBodyRange count reader =
     (if count < 0 then (Some ErrInvalidEdit, reader)
      else if length reader < nat count then (Some LocalIORead, [])
      else (None, drop (nat count) reader))"

text \<open>The loop over the edits, and the copy of the rest.\<close>

fun edit_loop :: "int \<Rightarrow> Edit list \<Rightarrow> int \<Rightarrow> string \<Rightarrow> string list \<times> edit_error option" where
  "edit_loop size_of [] cursor reader = (case copyBodyRange (size_of - cursor) reader of (ws, e, _) \<Rightarrow> (ws, e))"
| "edit_loop size_of (e # es) cursor reader =
     (case copyBodyRange (ed_Start e - cursor) reader of
        (ws, Some x, _) \<Rightarrow> (ws, Some x)
      | (ws, None, reader) \<Rightarrow>
          let cursor = ed_Start e; ws = ws @ blocks (ed_Replacement e) in
          if ed_End e > cursor then
            (case discardBodyRange (ed_End e - cursor) reader of
               (Some x, _) \<Rightarrow> (ws, Some x)
             | (None, reader) \<Rightarrow> (case edit_loop size_of es (ed_End e) reader of (ws', x) \<Rightarrow> (ws @ ws', x)))
          else (case edit_loop size_of es cursor reader of (ws', x) \<Rightarrow> (ws @ ws', x)))"

definition ApplyEditsIn :: "string \<Rightarrow> Edit list \<Rightarrow> edit_error + string" where
  "ApplyEditsIn body edits =
     (case validateEdits (int (length body)) edits of
        Some e \<Rightarrow> Inl e
      | None \<Rightarrow>
          if edits = [] then Inr body
          else case edit_loop (int (length body)) edits 0 body of
            (ws, Some e) \<Rightarrow> Inl e
          | (ws, None) \<Rightarrow> Inr (concat ws))"

text \<open>
  \<open>ApplyEditsAndScan\<close>: every block is scanned before it is written. No result if a marker automaton
  does not return.
\<close>

definition ApplyEditsAndScan :: "string \<Rightarrow> Edit list \<Rightarrow> ScanSpec \<Rightarrow> (edit_error + string \<times> ScanResult) option" where
  "ApplyEditsAndScan body edits spec =
     (case validateEdits (int (length body)) edits of
        Some e \<Rightarrow> Some (Inl e)
      | None \<Rightarrow>
          if edits = [] then Some (Inl ErrIndexRequired)
          else case CompileScanSpec spec of
            None \<Rightarrow> None
          | Some (Inl m) \<Rightarrow> Some (Inl (InvalidScanSpec m))
          | Some (Inr c) \<Rightarrow>
              case edit_loop (int (length body)) edits 0 body of (ws, x) \<Rightarrow>
              case write_all ws (newScanner c) of
                None \<Rightarrow> None
              | Some (Some e, _) \<Rightarrow> Some (Inl (EditScan e))
              | Some (None, s) \<Rightarrow>
                  case x of Some e \<Rightarrow> Some (Inl e)
                  | None \<Rightarrow>
                      case fst (JSONScanner_Finish s) of
                        Inl e \<Rightarrow> Some (Inl (EditScan e))
                      | Inr r \<Rightarrow> Some (Inr (concat ws, r)))"

section \<open>What the copy contains\<close>

lemma concat_blocks: "concat (blocks data) = data"
proof (induction data rule: blocks.induct)
  case (1 data)
  then show ?case by (subst blocks.simps) simp
qed

lemma copy_loop_ok:
  assumes "remaining \<le> length reader"
  shows "\<exists>ws. copy_body_loop remaining reader = (ws, None, drop remaining reader) \<and> concat ws = take remaining reader"
  using assms
proof (induction remaining reader rule: copy_body_loop.induct)
  case (1 remaining reader)
  show ?case
  proof (cases "remaining = 0")
    case True
    then show ?thesis by (simp add: copy_body_loop.simps)
  next
    case False
    define want where "want = min block_size remaining"
    have want: "want \<le> length reader" "want \<le> remaining" using 1(2) by (simp_all add: want_def)
    have le: "remaining - want \<le> length (drop want reader)" using 1(2) by (simp add: diff_le_mono)
    with 1(1) [OF False want_def refl] want obtain ws where
      ws: "copy_body_loop (remaining - want) (drop want reader) = (ws, None, drop (remaining - want) (drop want reader))"
      "concat ws = take (remaining - want) (drop want reader)" by auto
    have "take remaining reader = take want reader @ take (remaining - want) (drop want reader)"
      using want(2) by (metis le_add_diff_inverse take_add)
    then show ?thesis using False want ws
      by (subst copy_body_loop.simps) (simp add: want_def [symmetric] Let_def concat_blocks)
  qed
qed

lemma copyBodyRange_ok:
  assumes "0 \<le> count" "nat count \<le> length reader"
  shows "\<exists>ws. copyBodyRange count reader = (ws, None, drop (nat count) reader) \<and> concat ws = take (nat count) reader"
  using copy_loop_ok [OF assms(2)] assms(1) by (simp add: copyBodyRange_def)

section \<open>Replacing from the back\<close>

text \<open>One edit on its own; all edits, the last one first, so that the positions of the others stay.\<close>

definition splice :: "Edit \<Rightarrow> string \<Rightarrow> string" where
  "splice e body = take (nat (ed_Start e)) body @ ed_Replacement e @ drop (nat (ed_End e)) body"

definition splice_all :: "Edit list \<Rightarrow> string \<Rightarrow> string" where
  "splice_all edits body = foldr splice edits body"

fun in_order :: "int \<Rightarrow> int \<Rightarrow> Edit list \<Rightarrow> bool" where
  "in_order size_of cursor [] = (cursor \<le> size_of)"
| "in_order size_of cursor (e # es) = (cursor \<le> ed_Start e \<and> ed_Start e \<le> ed_End e \<and> ed_End e \<le> size_of \<and> in_order size_of (ed_End e) es)"

lemma validate_loop_order:
  assumes "validate_loop size_of i previous es = None" "0 \<le> size_of" "i > 0 \<longrightarrow> ed_End previous \<le> size_of" "i > 0 \<longrightarrow> 0 \<le> ed_End previous"
  shows "in_order size_of (if i > 0 then ed_End previous else 0) es"
  using assms by (induction size_of i previous es rule: validate_loop.induct) (auto split: if_splits)

lemma in_order_bounds: "in_order size_of cursor es \<Longrightarrow> cursor \<le> size_of"
  by (induction es arbitrary: cursor) fastforce+

text \<open>Edits behind a position leave what is before it.\<close>

lemma splice_all_prefix:
  assumes "in_order (int (length body)) (int n) es"
  shows "take n (splice_all es body) = take n body \<and> n \<le> length (splice_all es body)"
  using assms
proof (induction es arbitrary: n)
  case (Cons e es)
  have "take (nat (ed_End e)) (splice_all es body) = take (nat (ed_End e)) body \<and> nat (ed_End e) \<le> length (splice_all es body)"
    using Cons.prems by (intro Cons.IH) (auto simp: )
  moreover have "n \<le> nat (ed_Start e)" "nat (ed_Start e) \<le> nat (ed_End e)" using Cons.prems by auto
  ultimately show ?case using Cons.prems unfolding splice_all_def
    by (auto simp: splice_def min_def) (metis min.absorb1 take_take)
qed (simp add: splice_all_def)

lemma edit_loop_ok:
  assumes "in_order (int (length body)) (int n) es"
  shows "\<exists>ws. edit_loop (int (length body)) es (int n) (drop n body) = (ws, None) \<and> concat ws = drop n (splice_all es body)"
  using assms
proof (induction es arbitrary: n)
  case Nil
  then have "n \<le> length body" by simp
  then have "0 \<le> int (length body) - int n" "nat (int (length body) - int n) \<le> length (drop n body)" by auto
  from copyBodyRange_ok [OF this] \<open>n \<le> length body\<close> obtain ws where
    "copyBodyRange (int (length body) - int n) (drop n body) = (ws, None, drop (length body - n) (drop n body))" "concat ws = drop n body"
    by (auto simp: nat_diff_distrib)
  then show ?case by (simp add: splice_all_def)
next
  case (Cons e es)
  define a where "a = nat (ed_Start e)"
  define b where "b = nat (ed_End e)"
  have ab: "ed_Start e = int a" "ed_End e = int b" "n \<le> a" "a \<le> b" "b \<le> length body" and ord: "in_order (int (length body)) (int b) es"
    using Cons.prems by (auto simp: a_def b_def)
  from Cons.IH [OF ord] obtain ws2 where ws2: "edit_loop (int (length body)) es (int b) (drop b body) = (ws2, None)" "concat ws2 = drop b (splice_all es body)" by auto
  have le: "nat (int a - int n) \<le> length (drop n body)" using ab by (simp add: nat_diff_distrib diff_le_mono)
  from copyBodyRange_ok [OF _ le] ab obtain ws1 where
    ws1: "copyBodyRange (int a - int n) (drop n body) = (ws1, None, drop a body)" "concat ws1 = take (a - n) (drop n body)"
    by (auto simp: nat_diff_distrib)
  have run: "edit_loop (int (length body)) (e # es) (int n) (drop n body) = (ws1 @ blocks (ed_Replacement e) @ ws2, None)"
  proof (cases "a < b")
    case True
    then show ?thesis using ab ws1(1) ws2(1) by (simp add: discardBodyRange_def nat_diff_distrib)
  next
    case False
    then show ?thesis using ab ws1(1) ws2(1) by simp
  qed
  from splice_all_prefix [OF ord] have pre: "take b (splice_all es body) = take b body" "b \<le> length (splice_all es body)" by auto
  have "take a (splice_all es body) = take a body" using pre(1) ab(4) by (metis min.absorb1 take_take)
  then have "splice_all (e # es) body = take a body @ ed_Replacement e @ drop b (splice_all es body)"
    by (simp add: splice_all_def splice_def a_def b_def)
  moreover have "drop n (take a body @ r) = take (a - n) (drop n body) @ r" for r using ab by (simp add: drop_take)
  ultimately have "drop n (splice_all (e # es) body) = take (a - n) (drop n body) @ ed_Replacement e @ drop b (splice_all es body)" by (simp only:)
  then show ?case using run ws1(2) ws2(2) by (simp add: concat_blocks del: edit_loop.simps)
qed

lemma validate_order:
  assumes "validateEdits (int (length body)) edits = None"
  shows "in_order (int (length body)) 0 edits"
  using assms validate_loop_order [of "int (length body)" 0 "\<lparr>ed_Start = 0, ed_End = 0, ed_Replacement = []\<rparr>" edits]
  by (simp add: validateEdits_def)

lemma edits_run:
  assumes "validateEdits (int (length body)) edits = None"
  shows "\<exists>ws. edit_loop (int (length body)) edits 0 body = (ws, None) \<and> concat ws = splice_all edits body"
  using edit_loop_ok [of body 0 edits] validate_order [OF assms] by simp

lemma ApplyEditsIn_splices:
  assumes "validateEdits (int (length body)) edits = None"
  shows "ApplyEditsIn body edits = Inr (splice_all edits body)"
  using edits_run [OF assms] assms by (auto simp: ApplyEditsIn_def splice_all_def)

text \<open>Validation accepts the edits that are in range, in order, and not twice at one place.\<close>

abbreviation edit_range :: "Edit \<Rightarrow> int \<times> int" where
  "edit_range e \<equiv> (ed_Start e, ed_End e)"

definition valid_range :: "int \<Rightarrow> Edit \<Rightarrow> bool" where
  "valid_range size_of e \<longleftrightarrow> 0 \<le> ed_Start e \<and> ed_Start e \<le> ed_End e \<and> ed_End e \<le> size_of"

definition ordered :: "Edit list \<Rightarrow> bool" where
  "ordered es \<longleftrightarrow> sorted_wrt (\<lambda>e f. ed_End e \<le> ed_Start f) es \<and> distinct (map edit_range es)"

lemma ordered_Cons:
  assumes "valid_range size_of p" "list_all (valid_range size_of) (e # es)"
  shows "ordered (p # e # es) \<longleftrightarrow> ed_End p \<le> ed_Start e \<and> edit_range p \<noteq> edit_range e \<and> ordered (e # es)"
proof
  assume o: "ed_End p \<le> ed_Start e \<and> edit_range p \<noteq> edit_range e \<and> ordered (e # es)"
  have "ed_End p \<le> ed_Start f \<and> edit_range p \<noteq> edit_range f" if "f \<in> set es" for f
  proof -
    from that assms have "valid_range size_of f" "valid_range size_of e" by (auto simp: list_all_iff)
    moreover have "ed_End e \<le> ed_Start f" using o that by (auto simp: ordered_def)
    ultimately show ?thesis using o assms(1) by (auto simp: valid_range_def)
  qed
  with o show "ordered (p # e # es)" by (auto simp: ordered_def)
qed (auto simp: ordered_def)

lemma validate_loop_exact:
  assumes "0 < i" "valid_range size_of p"
  shows "validate_loop size_of i p es = None \<longleftrightarrow> list_all (valid_range size_of) es \<and> ordered (p # es)"
  using assms
proof (induction es arbitrary: i p)
  case Nil
  then show ?case by (simp add: ordered_def)
next
  case (Cons e es)
  show ?case
  proof (cases "list_all (valid_range size_of) (e # es)")
    case True
    then have e: "valid_range size_of e" by simp
    have "validate_loop size_of i p (e # es) = None \<longleftrightarrow>
        ed_End p \<le> ed_Start e \<and> edit_range p \<noteq> edit_range e \<and> validate_loop size_of (i + 1) e es = None"
      using Cons.prems e by (auto simp: valid_range_def)
    with Cons.IH [of "i + 1" e] e True ordered_Cons [OF Cons.prems(2) True] show ?thesis by simp
  next
    case False
    then consider "\<not> valid_range size_of e" | "valid_range size_of e" "\<not> list_all (valid_range size_of) es" by auto
    then show ?thesis
    proof cases
      case 1
      then show ?thesis by (auto simp: valid_range_def)
    next
      case 2
      with Cons.IH [of "i + 1" e] False show ?thesis by auto
    qed
  qed
qed

lemma validateEdits_iff:
  "validateEdits (int n) es = None \<longleftrightarrow> list_all (valid_range (int n)) es \<and> ordered es"
proof (cases es)
  case (Cons e rest)
  have "validate_loop (int n) 0 p (e # rest) = None \<longleftrightarrow> valid_range (int n) e \<and> validate_loop (int n) 1 e rest = None" for p
    by (auto simp: valid_range_def)
  with validate_loop_exact [of 1 "int n" e rest] Cons show ?thesis by (auto simp: validateEdits_def)
qed (simp add: validateEdits_def ordered_def)

lemma ApplyEditsAndScan_result:
  assumes "CompileScanSpec spec = Some (Inr c)" "edits \<noteq> []" "validateEdits (int (length body)) edits = None"
  shows "\<exists>ws. concat ws = splice_all edits body \<and>
    ApplyEditsAndScan body edits spec =
      (case scan_chunks c ws of None \<Rightarrow> None | Some (Inl e) \<Rightarrow> Some (Inl (EditScan e)) | Some (Inr r) \<Rightarrow> Some (Inr (splice_all edits body, r)))"
proof -
  from edits_run [OF assms(3)] obtain ws where ws: "edit_loop (int (length body)) edits 0 body = (ws, None)" "concat ws = splice_all edits body" by auto
  then show ?thesis using assms
    by (intro exI [of _ ws]) (auto simp: ApplyEditsAndScan_def scan_chunks_def split: option.split sum.split)
qed

end
