(* ===== verification/Body_Lookup.thy ===== *)
theory Body_Lookup
  imports Body_Scanner
begin

text \<open>
  The index of package bodyfile (\<open>internal/bodyfile/index.go\<close> and \<open>makeJSONIndex\<close> of
  \<open>stream.go\<close>): the maps that are built once, and the lookups that read them. The body to which an
  index is bound is left out; only its size is kept.
\<close>

section \<open>Ranges and fields\<close>

definition ByteRange_Len :: "ByteRange \<Rightarrow> nat" where
  "ByteRange_Len r = (if br_End r < br_Start r then 0 else br_End r - br_Start r)"

definition ByteRange_Contains :: "ByteRange \<Rightarrow> nat \<Rightarrow> bool" where
  "ByteRange_Contains r offset \<longleftrightarrow> br_Start r \<le> offset \<and> offset < br_End r"

definition Field_BoolValue :: "Field \<Rightarrow> bool \<times> bool" where
  "Field_BoolValue f =
     (if fd_Type f \<noteq> JSONBool then (False, False)
      else if ByteRange_Len (fd_ValueRange f) = 4 then (True, True)
      else if ByteRange_Len (fd_ValueRange f) = 5 then (False, True)
      else (False, False))"

section \<open>The index\<close>

record JSONIndex =
  ix_Model :: string
  ix_ModelRange :: ByteRange
  ix_bodySize :: nat
  ix_fields :: "Field list"
  ix_byPath :: "(string, nat list) gomap"
  ix_containers :: "(string, ContainerInfo list) gomap"
  ix_children :: "(string, nat list) gomap"
  ix_spec :: ScanSpec
  ix_valid :: bool
  ix_modelSeen :: bool
  ix_rawMarkers :: "(string, bool) gomap"

definition values_at :: "('k, 'v list) gomap \<Rightarrow> 'k \<Rightarrow> 'v list" where
  "values_at m k = (case map_of m k of None \<Rightarrow> [] | Some vs \<Rightarrow> vs)"

text \<open>\<open>m[key] = append(m[key], value)\<close>\<close>

definition append_at :: "'k \<Rightarrow> 'v \<Rightarrow> ('k, 'v list) gomap \<Rightarrow> ('k, 'v list) gomap" where
  "append_at k v m = AList.update k (values_at m k @ [v]) m"

fun group_by :: "('a \<Rightarrow> 'k) \<Rightarrow> ('a \<Rightarrow> nat \<Rightarrow> 'v) \<Rightarrow> 'a list \<Rightarrow> nat \<Rightarrow> ('k, 'v list) gomap \<Rightarrow> ('k, 'v list) gomap" where
  "group_by key value [] i m = m"
| "group_by key value (x # xs) i m = group_by key value xs (i + 1) (append_at (key x) (value x i) m)"

definition makeJSONIndex ::
  "nat \<Rightarrow> ScanSpec \<Rightarrow> string \<Rightarrow> ByteRange \<Rightarrow> bool \<Rightarrow> Field list \<Rightarrow> ContainerInfo list \<Rightarrow> (string, bool) gomap \<Rightarrow> JSONIndex" where
  "makeJSONIndex bodySize spec model modelRange modelSeen flds containers rawMarkers =
     \<lparr> ix_Model = model, ix_ModelRange = modelRange, ix_bodySize = bodySize, ix_fields = flds,
       ix_byPath = group_by fd_Path (\<lambda>_ i. i) flds 0 [],
       ix_containers = group_by ci_Path (\<lambda>c _. c) containers 0 [],
       ix_children = group_by (\<lambda>f. parentJSONPointer (fd_Path f)) (\<lambda>_ i. i) flds 0 [],
       ix_spec = spec, ix_valid = True, ix_modelSeen = modelSeen, ix_rawMarkers = rawMarkers \<rparr>"

text \<open>\<open>bindScanned\<close>; absent for \<open>ErrIndexBodyMismatch\<close>.\<close>

definition bindScanned :: "nat \<Rightarrow> ScanResult \<Rightarrow> JSONIndex option" where
  "bindScanned bodySize r =
     (if bodySize \<noteq> sr_size r then None
      else Some (makeJSONIndex bodySize (sr_Spec r) (sr_Model r) (sr_ModelRange r) (sr_ModelSeen r) (sr_Fields r) (sr_Containers r) (sr_rawMarkers r)))"

section \<open>Lookups\<close>

definition JSONIndex_Lookup :: "string \<Rightarrow> JSONIndex \<Rightarrow> Field option" where
  "JSONIndex_Lookup path ix =
     (case values_at (ix_byPath ix) path of
        [] \<Rightarrow> None
      | i # _ \<Rightarrow> if i \<ge> length (ix_fields ix) then None else Some (ix_fields ix ! i))"

definition fields_of :: "nat list \<Rightarrow> JSONIndex \<Rightarrow> Field list" where
  "fields_of indices ix = map (\<lambda>i. ix_fields ix ! i) (filter (\<lambda>i. i < length (ix_fields ix)) indices)"

definition JSONIndex_Find :: "string \<Rightarrow> JSONIndex \<Rightarrow> Field list" where
  "JSONIndex_Find path ix = fields_of (values_at (ix_byPath ix) path) ix"

definition JSONIndex_Range :: "string \<Rightarrow> JSONIndex \<Rightarrow> ByteRange option" where
  "JSONIndex_Range path ix = map_option fd_ValueRange (JSONIndex_Lookup path ix)"

definition JSONIndex_Containers :: "string \<Rightarrow> JSONIndex \<Rightarrow> ContainerInfo list" where
  "JSONIndex_Containers path ix = values_at (ix_containers ix) path"

definition JSONIndex_ContainerAt :: "string \<Rightarrow> JSONIndex \<Rightarrow> ContainerInfo option" where
  "JSONIndex_ContainerAt path ix = (case values_at (ix_containers ix) path of [] \<Rightarrow> None | c # _ \<Rightarrow> Some c)"

definition JSONIndex_DirectChildren :: "string \<Rightarrow> JSONIndex \<Rightarrow> Field list" where
  "JSONIndex_DirectChildren path ix = fields_of (values_at (ix_children ix) path) ix"

text \<open>Found, and tracked at all. A nil map is an empty one without a contract.\<close>

definition JSONIndex_RawMarkerStatus :: "string \<Rightarrow> JSONIndex \<Rightarrow> bool \<times> bool" where
  "JSONIndex_RawMarkerStatus marker ix =
     (case map_of (ix_rawMarkers ix) marker of
        Some found \<Rightarrow> (found, True)
      | None \<Rightarrow> if marker \<in> set (sp_RawMarkers (ix_spec ix)) then (False, True) else (False, False))"

definition JSONIndex_RawMarkerFound :: "string \<Rightarrow> JSONIndex \<Rightarrow> bool" where
  "JSONIndex_RawMarkerFound marker ix = fst (JSONIndex_RawMarkerStatus marker ix)"

section \<open>The maps hold what a search would find\<close>

lemma values_append_at [simp]: "values_at (append_at k v m) k' = (if k' = k then values_at m k @ [v] else values_at m k')"
  by (simp add: values_at_def append_at_def gomap_simps)

lemma values_group_by:
  "values_at (group_by key value xs i m) k =
     values_at m k @ map (\<lambda>(x, j). value x j) (filter (\<lambda>(x, j). key x = k) (zip xs [i..<i + length xs]))"
proof (induction xs arbitrary: i m)
  case (Cons x xs)
  have "zip (x # xs) [i..<i + length (x # xs)] = (x, i) # zip xs [i + 1..<i + 1 + length xs]"
    by (simp add: upt_conv_Cons del: upt_Suc)
  with Cons.IH [of "i + 1" "append_at (key x) (value x i) m"] show ?case by simp
qed simp

lemma values_empty [simp]: "values_at [] k = []"
  by (simp add: values_at_def)

lemma indices_at:
  "map (\<lambda>i. xs ! i) (map snd (filter (\<lambda>(x, j). P x) (zip xs [0..<length xs]))) = filter P xs"
proof (induction xs rule: rev_induct)
  case (snoc x xs)
  have "map (\<lambda>i. (xs @ [x]) ! i) (map snd (filter (\<lambda>(x, j). P x) (zip xs [0..<length xs]))) =
      map (\<lambda>i. xs ! i) (map snd (filter (\<lambda>(x, j). P x) (zip xs [0..<length xs])))"
    by (rule map_cong) (auto simp: nth_append dest: set_zip_rightD)
  with snoc show ?case by auto
qed simp

lemma index_fields:
  assumes "values_at m k = map (\<lambda>(x, j). j) (filter (\<lambda>(x, j). P x) (zip (ix_fields ix) [0..<length (ix_fields ix)]))"
  shows "fields_of (values_at m k) ix = filter P (ix_fields ix)"
proof -
  have snd: "(\<lambda>(x, j). j) = snd" by (simp add: fun_eq_iff split_beta)
  have "filter (\<lambda>i. i < length (ix_fields ix)) (values_at m k) = values_at m k"
    unfolding assms snd by (rule filter_True) (auto dest: set_zip_rightD)
  then show ?thesis using indices_at [of "ix_fields ix" P] by (simp add: fields_of_def assms snd)
qed

lemma Find_exact: "JSONIndex_Find path (makeJSONIndex n spec m r seen flds cs ms) = filter (\<lambda>f. fd_Path f = path) flds"
  unfolding JSONIndex_Find_def by (subst index_fields) (simp_all add: makeJSONIndex_def values_group_by)

lemma DirectChildren_exact:
  "JSONIndex_DirectChildren path (makeJSONIndex n spec m r seen flds cs ms) = filter (\<lambda>f. parentJSONPointer (fd_Path f) = path) flds"
  unfolding JSONIndex_DirectChildren_def by (subst index_fields) (simp_all add: makeJSONIndex_def values_group_by)

lemma Lookup_Find: "JSONIndex_Lookup path (makeJSONIndex n spec m r seen flds cs ms) =
    (case JSONIndex_Find path (makeJSONIndex n spec m r seen flds cs ms) of [] \<Rightarrow> None | f # _ \<Rightarrow> Some f)"
proof -
  let ?ix = "makeJSONIndex n spec m r seen flds cs ms"
  have "i < length (ix_fields ?ix)" if "i \<in> set (values_at (ix_byPath ?ix) path)" for i
    using that by (auto simp: makeJSONIndex_def values_group_by dest: set_zip_rightD)
  then have "\<forall>i \<in> set (values_at (ix_byPath ?ix) path). i < length (ix_fields ?ix)" by blast
  then show ?thesis by (cases "values_at (ix_byPath ?ix) path") (simp_all add: JSONIndex_Lookup_def JSONIndex_Find_def fields_of_def)
qed

lemma Containers_exact: "JSONIndex_Containers path (makeJSONIndex n spec m r seen flds cs ms) = filter (\<lambda>c. ci_Path c = path) cs"
proof -
  have "map (\<lambda>(c, j). c) (filter (\<lambda>(c, j). P c) (zip cs [0..<0 + length cs])) = filter P cs" for P
  proof (induction cs rule: rev_induct)
    case (snoc c cs)
    then show ?case by auto
  qed simp
  then show ?thesis by (simp add: JSONIndex_Containers_def makeJSONIndex_def values_group_by)
qed

section \<open>Pointers\<close>

lemma replace_byte_simps [simp]: "replace_byte old new [] = []"
    "replace_byte old new (c # s) = (if c = old then new else [c]) @ replace_byte old new s"
    "replace_byte old new (s @ t) = replace_byte old new s @ replace_byte old new t"
  by (simp_all add: replace_byte_def)

lemma escapePointer_Nil [simp]: "escapePointer [] = []"
  by (simp add: escapePointer_def)

lemma escapePointer_Cons: "escapePointer (c # s) =
    (if c = CHR ''~'' then ''~0'' else if c = CHR ''/'' then ''~1'' else [c]) @ escapePointer s"
  by (simp add: escapePointer_def)

lemma unescape_escape: "unescape_segment (escapePointer s) = Some s"
  by (induction s) (simp_all add: escapePointer_Cons)

lemma escape_no_slash: "CHR ''/'' \<notin> set (escapePointer s)"
  by (induction s) (auto simp: escapePointer_Cons)

lemma split_on_app: "c \<notin> set s \<Longrightarrow> split_on c (s @ c # t) = s # split_on c t"
  by (induction s) auto

lemma split_on_last: "c \<notin> set s \<Longrightarrow> split_on c s = [s]"
  by (induction s) auto

lemma split_pathString: "split_on CHR ''/'' (escapePointer segment @ pathString segments) = map escapePointer (segment # segments)"
proof (induction segments arbitrary: segment)
  case Nil
  then show ?case by (simp add: pathString_def split_on_last escape_no_slash)
next
  case (Cons s segments)
  then show ?case by (simp add: pathString_def split_on_app escape_no_slash)
qed

lemma unescape_map: "unescape_segments (map escapePointer segments) = Some segments"
  by (induction segments) (simp_all add: unescape_escape)

lemma splitPointer_pathString:
  assumes "segments \<noteq> []"
  shows "splitPointer (pathString segments) = Some segments"
proof -
  from assms obtain s rest where segments: "segments = s # rest" by (cases segments) auto
  then have "pathString segments = CHR ''/'' # escapePointer s @ pathString rest" by (simp add: pathString_def)
  then show ?thesis using split_pathString [of s rest] unescape_map [of segments] segments by (simp add: splitPointer_def)
qed

lemma parent_pathString: "parentJSONPointer (pathString (segments @ [segment])) = pathString segments"
proof -
  have "pathString (segments @ [segment]) = pathString segments @ CHR ''/'' # escapePointer segment" by (simp add: pathString_def)
  moreover have "pathString segments = [] \<longleftrightarrow> segments = []" "pathString [] = []" by (simp_all add: pathString_def)
  ultimately show ?thesis using last_byte_append [OF escape_no_slash, of "pathString segments" segment] by (simp add: parentJSONPointer_def)
qed

end
