(* ===== verification/Body_Properties.thy ===== *)
theory Body_Properties
  imports Body_Documents Body_Edit Body_Lookup
begin

text \<open>
  Properties of package bodyfile (\<open>internal/bodyfile\<close>): the scanner, the lookups of the index and the
  edits of a body, with their witnesses.
\<close>

section \<open>Every scan returns\<close>

lemma Write_returns:
  assumes "list_all2 (\<lambda>pat m. matcher_ok pat str m) pats (js_rawMatchers s)" "list_all (\<lambda>pat. pat \<noteq> []) pats" "js_finished s = False"
  shows "\<exists>n e s'. JSONScanner_Write p s = Some (n, e, s') \<and> js_finished s' = False \<and>
    (e = None \<longrightarrow> list_all2 (\<lambda>pat m. matcher_ok pat (str @ p) m) pats (js_rawMatchers s'))"
proof (cases "js_err s = None")
  case True
  from feed_markers [OF assms(1,2), of p] obtain ms where
    ms: "those (map (marker_feed_all p) (js_rawMatchers s)) = Some ms" "list_all2 (\<lambda>pat m. matcher_ok pat (str @ p) m) pats ms" by blast
  obtain n e s' where w: "write_loop p 0 (s\<lparr>js_rawMatchers := ms\<rparr>) = (n, e, s')" by (cases "write_loop p 0 (s\<lparr>js_rawMatchers := ms\<rparr>)")
  with write_loop_static [of p 0 "s\<lparr>js_rawMatchers := ms\<rparr>"] have "js_rawMatchers s' = ms" "js_finished s' = js_finished s" by (simp_all add: same_static_def)
  with w ms True assms(3) show ?thesis by (simp add: JSONScanner_Write_def)
qed (use assms(3) in \<open>auto simp: JSONScanner_Write_def\<close>)

lemma write_all_returns:
  assumes "list_all2 (\<lambda>pat m. matcher_ok pat str m) pats (js_rawMatchers s)" "list_all (\<lambda>pat. pat \<noteq> []) pats" "js_finished s = False"
  shows "write_all ps s \<noteq> None"
  using assms(1,3)
proof (induction ps arbitrary: s str)
  case (Cons p ps)
  from Write_returns [OF Cons.prems(1) assms(2) Cons.prems(2), of p] obtain n e s' where
    w: "JSONScanner_Write p s = Some (n, e, s')" "js_finished s' = False" "e = None \<longrightarrow> list_all2 (\<lambda>pat m. matcher_ok pat (str @ p) m) pats (js_rawMatchers s')"
    by blast
  with Cons.IH [of "str @ p" s'] show ?case by (cases e) auto
qed simp

section \<open>What a scan returned\<close>

lemma scanned_result:
  assumes "CompileScanSpec spec = Some (Inr c)" "max_segment (sp_Paths spec) * 8 + 2 < 2 ^ 63"
    and "scan_chunks c chunks = Some (Inr r)"
  shows "\<exists>lead cs space trail. document lead cs space trail (concat chunks) \<and> model_ok (sp_RequireModel (cs_spec c)) cs \<and>
    r = reference_result c lead cs space (concat chunks)"
  using scan_chunks_sound [OF assms(3) compiled_limit [OF assms(1)]] scan_chunks_complete [OF assms(1,2), of _ _ _ _ chunks] assms(3)
  by (metis option.inject sum.inject(2))

lemma Lookup_find: "JSONIndex_Lookup path (makeJSONIndex n spec m r seen flds cs ms) = find (\<lambda>f. fd_Path f = path) flds"
proof -
  have "find P xs = (case filter P xs of [] \<Rightarrow> None | x # _ \<Rightarrow> Some x)" for P and xs :: "Field list" by (induction xs) auto
  then show ?thesis by (simp add: Lookup_Find Find_exact)
qed

text \<open>An edited body is scanned in the blocks in which it is written.\<close>

lemma edited_scan:
  assumes "CompileScanSpec spec = Some (Inr c)" "max_segment (sp_Paths spec) * 8 + 2 < 2 ^ 63" "edits \<noteq> []"
  shows "ApplyEditsAndScan body edits spec = Some (Inr (result, r)) \<longleftrightarrow>
    list_all (valid_range (int (length body))) edits \<and> ordered edits \<and> result = splice_all edits body \<and>
    (\<exists>lead cs space trail. document lead cs space trail result \<and> model_ok (sp_RequireModel (cs_spec c)) cs \<and>
       r = reference_result c lead cs space result)"
proof (cases "validateEdits (int (length body)) edits = None")
  case True
  from ApplyEditsAndScan_result [OF assms(1,3) True] obtain ws where
    ws: "concat ws = splice_all edits body" "ApplyEditsAndScan body edits spec =
      (case scan_chunks c ws of None \<Rightarrow> None | Some (Inl e) \<Rightarrow> Some (Inl (EditScan e)) | Some (Inr r) \<Rightarrow> Some (Inr (splice_all edits body, r)))"
    by auto
  then have "ApplyEditsAndScan body edits spec = Some (Inr (result, r)) \<longleftrightarrow> result = splice_all edits body \<and> scan_chunks c ws = Some (Inr r)"
    by (auto split: option.split sum.split)
  moreover have "scan_chunks c ws = Some (Inr r) \<longleftrightarrow> (\<exists>lead cs space trail. document lead cs space trail (concat ws) \<and>
      model_ok (sp_RequireModel (cs_spec c)) cs \<and> r = reference_result c lead cs space (concat ws))"
    using scanned_result [OF assms(1,2)] scan_chunks_complete [OF assms(1,2)] by blast
  ultimately show ?thesis using True validateEdits_iff [of "length body" edits] ws(1) by auto
next
  case False
  then show ?thesis using validateEdits_iff [of "length body" edits] by (auto simp: ApplyEditsAndScan_def)
qed

section \<open>Properties\<close>

text \<open>
  C30. Every body is scanned to the end: with a compiled contract, the loop over the bytes, in which a
  byte that ends a number or literal is tried again, and the marker automata, whose fall backs are
  loops of their own, return a result for any chunks.
\<close>

theorem scan_returns:
  assumes "CompileScanSpec spec = Some (Inr c)"
  shows "\<exists>r. scan_chunks c chunks = Some r"
proof -
  from compiled_markers [OF assms] write_all_returns [of "[]" "sp_RawMarkers (cs_spec c)" "newScanner c" chunks]
  have "write_all chunks (newScanner c) \<noteq> None" by (simp add: newScanner_def)
  then show ?thesis by (auto simp: scan_chunks_def split: option.split)
qed

text \<open>
  C12. The scanner accepts exactly the documents: whatever the chunks of a body are, the scan ends
  with a result if and only if the body is one JSON object by the grammar of RFC 8259, between white
  space, which names its model once, by a string of 1 to \<open>MaxBytes\<close> bytes of UTF-8, if the contract
  requires one.
\<close>

theorem scan_accepts_documents:
  assumes "CompileScanSpec spec = Some (Inr c)" "max_segment (sp_Paths spec) * 8 + 2 < 2 ^ 63"
  shows "(\<exists>r. scan_chunks c chunks = Some (Inr r)) \<longleftrightarrow>
    (\<exists>lead cs space trail. document lead cs space trail (concat chunks) \<and> model_ok (sp_RequireModel (cs_spec c)) cs)"
  using scan_chunks_sound [OF _ compiled_limit [OF assms(1)]] scan_chunks_complete [OF assms] by blast

text \<open>
  C13. The result of a scan is the index of the syntax tree: of each selected value its pointer, its
  key, the byte ranges of key, member and value and the range that deletes it together with a comma,
  of each container its extent and children, the decoded model with its range, and which markers
  occur in the body, independently of the chunks in which the body arrives.
\<close>

theorem scan_index_exact:
  assumes "CompileScanSpec spec = Some (Inr c)" "max_segment (sp_Paths spec) * 8 + 2 < 2 ^ 63"
    and "document lead cs space trail (concat chunks)" "model_ok (sp_RequireModel (cs_spec c)) cs"
  shows "scan_chunks c chunks = Some (Inr (reference_result c lead cs space (concat chunks)))"
  by (rule scan_chunks_complete [OF assms])

text \<open>
  C29. The index of a scan answers what a search of the result would: for each pointer all recorded
  values in document order, the first of them, its containers and the values directly below it, and
  for each marker whether the contract tracks it and whether it occurs in the body.
\<close>

theorem index_answers:
  assumes "CompileScanSpec spec = Some (Inr c)" "max_segment (sp_Paths spec) * 8 + 2 < 2 ^ 63"
    and "scan_chunks c chunks = Some (Inr r)"
  shows "\<exists>ix. bindScanned (length (concat chunks)) r = Some ix \<and>
    (\<forall>path. JSONIndex_Find path ix = filter (\<lambda>f. fd_Path f = path) (sr_Fields r) \<and>
       JSONIndex_Lookup path ix = find (\<lambda>f. fd_Path f = path) (sr_Fields r) \<and>
       JSONIndex_DirectChildren path ix = filter (\<lambda>f. parentJSONPointer (fd_Path f) = path) (sr_Fields r) \<and>
       JSONIndex_Containers path ix = filter (\<lambda>b. ci_Path b = path) (sr_Containers r)) \<and>
    (\<forall>marker. JSONIndex_RawMarkerStatus marker ix =
       (let tracked = marker \<in> set (sp_RawMarkers (cs_spec c)) in (tracked \<and> sublist marker (concat chunks), tracked)))"
proof -
  let ?ms = "map (\<lambda>m. (m, sublist m (concat chunks))) (sp_RawMarkers (cs_spec c))"
  from scanned_result [OF assms] have r: "sr_size r = length (concat chunks)" "sr_rawMarkers r = ?ms" "sr_Spec r = cs_spec c"
    by (auto simp: reference_result_def Let_def)
  have "map_of ?ms marker = (if marker \<in> set (sp_RawMarkers (cs_spec c)) then Some (sublist marker (concat chunks)) else None)" for marker
    by (auto simp: map_of_map_restrict restrict_map_def)
  with r show ?thesis
    by (simp add: bindScanned_def Find_exact Lookup_find DirectChildren_exact Containers_exact)
      (simp add: JSONIndex_RawMarkerStatus_def makeJSONIndex_def Let_def)
qed

text \<open>
  A pointer made of keys splits back into these keys, whatever slashes and tildes they contain,
  and its parent is the pointer without the last key.
\<close>

theorem pointer_roundtrip:
  "splitPointer (pathString (segment # segments)) = Some (segment # segments) \<and>
   parentJSONPointer (pathString (segments @ [segment])) = pathString segments"
  by (simp add: splitPointer_pathString parent_pathString)

text \<open>
  C28. Edits succeed exactly when every range lies in the body, each starts at or behind the end of
  the one before, and no range occurs twice; the result is then that of replacing the ranges one by
  one from the back, although the body is copied forward in blocks.
\<close>

theorem edits_exact:
  "ApplyEditsIn body edits = Inr result \<longleftrightarrow>
     list_all (valid_range (int (length body))) edits \<and> ordered edits \<and> result = splice_all edits body"
  using ApplyEditsIn_splices [of body edits] validateEdits_iff [of "length body" edits]
  by (cases "validateEdits (int (length body)) edits") (auto simp: ApplyEditsIn_def)

text \<open>
  C14. Editing and scanning in one pass gives what editing and then scanning the new body gives: it
  succeeds exactly when there is an edit, the edits are valid and the edited body is a document that
  the contract accepts, and returns that body with its index. Without an edit there is no new index,
  and the call is refused for that reason alone.
\<close>

theorem edited_index_exact:
  assumes "CompileScanSpec spec = Some (Inr c)" "max_segment (sp_Paths spec) * 8 + 2 < 2 ^ 63"
  shows "(ApplyEditsAndScan body edits spec = Some (Inr (result, r)) \<longleftrightarrow>
      edits \<noteq> [] \<and> list_all (valid_range (int (length body))) edits \<and> ordered edits \<and> result = splice_all edits body \<and>
      (\<exists>lead cs space trail. document lead cs space trail result \<and> model_ok (sp_RequireModel (cs_spec c)) cs \<and>
         r = reference_result c lead cs space result)) \<and>
    ApplyEditsAndScan body [] spec = Some (Inl ErrIndexRequired)"
proof -
  have "ApplyEditsAndScan body [] spec = Some (Inl ErrIndexRequired)"
    using validateEdits_iff [of "length body" "[]"] by (simp add: ApplyEditsAndScan_def ordered_def)
  then show ?thesis using edited_scan [OF assms] by (cases "edits = []") simp_all
qed

section \<open>Witnesses\<close>

definition sample_spec :: ScanSpec where
  "sample_spec = \<lparr> sp_Paths = [''/a''], sp_RawMarkers = [''x''], sp_RequireModel = True, sp_RequireObject = True, sp_SelectAll = False \<rparr>"

definition sample_compiled :: CompiledScanSpec where
  "sample_compiled = \<lparr> cs_spec = sample_spec, cs_trie = newSelectorTrie [''/a''] False, cs_keyRawLimit = 64,
     cs_rawMatchers = [the (newRawMarkerMatcher ''x'')] \<rparr>"

definition sample_children :: "child list" where
  "sample_children = [Child [] (Some \<lparr> mk_body = ''model'', mk_before = [], mk_after = [] \<rparr>) (Text ''x'') [],
     Child [] (Some \<lparr> mk_body = ''a'', mk_before = [], mk_after = [] \<rparr>) (Scalar ''true'') []]"

text \<open>Plain characters decode to themselves.\<close>

lemma unquote_plain:
  assumes "byte c < 128" "32 \<le> byte c" "c \<noteq> quote" "c \<noteq> backslash"
  shows "unquote_body (c # s) = map_option (Cons c) (unquote_body s)"
proof -
  have ok: "unit_ok (Raw [c])" using assms ascii_rune [OF assms(1)] by simp
  have "EncodeRune (rune_value [c]) = [c]" using assms(1) by (simp add: EncodeRune_def surrogate_def encode_valid_def byte_def)
  with unquote_raw [OF ok, of s] show ?thesis by (simp add: fun_eq_iff append_Cons [abs_def])
qed

definition sample_chunks :: "string list" where
  "sample_chunks = [''{\"mo'', ''del\":\"x\",\"a\":tr'', ''ue}'']"

lemma sample_limits: "max_segment (sp_Paths sample_spec) = 5 \<and> ScanSpec_Validate sample_spec = None \<and>
    newRawMarkerMatcher ''x'' = Some \<lparr> mm_pattern = ''x'', mm_failure = [0], mm_matched = 0, mm_found = False \<rparr>"
  by code_simp

lemma sample_compiles: "CompileScanSpec sample_spec = Some (Inr sample_compiled)"
proof -
  have same: "sample_spec\<lparr>sp_RequireObject := True\<rparr> = sample_spec" by (simp add: sample_spec_def)
  have "selectorKeyRawLimit sample_spec = 64" using sample_limits by (simp add: selectorKeyRawLimit_def Let_def)
  then show ?thesis using sample_limits
    by (simp add: CompileScanSpec_def same Let_def sample_compiled_def) (simp add: sample_spec_def)
qed

lemma sample_document:
  "document [] sample_children [] [] (concat sample_chunks) \<and> model_ok True sample_children \<and> max_segment (sp_Paths sample_spec) * 8 + 2 < 2 ^ 63 \<and>
   sp_RequireModel (cs_spec sample_compiled)"
proof -
  have body: "string_body ''model''" "string_body ''x''" "string_body ''a''" "ValidString ''x''" by code_simp+
  have key: "unquote_body ''model'' = Some ''model''" "unquote_body ''a'' = Some ''a''" "unquote_body ''x'' = Some ''x''"
    by (simp_all add: unquote_plain byte_def quote_def backslash_def unquote_body.simps [of "[]"])
  have tx: "json_text (Container CHR ''{'' [] sample_children) = concat sample_chunks" by code_simp
  have ok: "json_ok (Container CHR ''{'' [] sample_children)"
    by (simp add: sample_children_def key_ok_def literal_text_def body del: string_body.simps)
  have m: "model_members sample_children = [Child [] (Some \<lparr> mk_body = ''model'', mk_before = [], mk_after = [] \<rparr>) (Text ''x'') []]"
    by (simp add: sample_children_def model_members_def model_key_def key)
  have "document [] sample_children [] [] (concat sample_chunks)" using tx ok by (simp only: document_def) simp
  moreover have "model_ok True sample_children" unfolding model_ok_def m by (simp add: good_model_def model_text_def body key MaxBytes_def del: string_body.simps)
  ultimately show ?thesis using sample_limits by (simp add: sample_compiled_def sample_spec_def)
qed

theorem scan_returns_witness: "\<exists>r. scan_chunks sample_compiled sample_chunks = Some r"
  using scan_returns [OF sample_compiles] by blast

theorem scan_accepts_documents_witness: "\<exists>r. scan_chunks sample_compiled sample_chunks = Some (Inr r)"
  using scan_accepts_documents [OF sample_compiles, of sample_chunks] sample_document by auto

theorem scan_index_exact_witness:
  "scan_chunks sample_compiled sample_chunks = Some (Inr (reference_result sample_compiled [] sample_children [] (concat sample_chunks)))"
  using scan_index_exact [OF sample_compiles, of "[]" sample_children "[]" "[]" sample_chunks] sample_document by simp

theorem index_answers_witness:
  "\<exists>r ix. scan_chunks sample_compiled sample_chunks = Some (Inr r) \<and> bindScanned (length (concat sample_chunks)) r = Some ix \<and>
    JSONIndex_Find ''/a'' ix = filter (\<lambda>f. fd_Path f = ''/a'') (sr_Fields r) \<and>
    JSONIndex_RawMarkerStatus ''x'' ix = (True, True)"
proof -
  obtain r where r: "scan_chunks sample_compiled sample_chunks = Some (Inr r)"
    using scan_chunks_complete [OF sample_compiles, of "[]" sample_children "[]" "[]" sample_chunks] sample_document by auto
  have "sublist ''x'' (concat sample_chunks)" by code_simp
  with r index_answers [OF sample_compiles _ r] sample_document show ?thesis
    by (auto simp: sample_compiled_def sample_spec_def)
qed

definition sample_edits :: "Edit list" where
  "sample_edits = [\<lparr> ed_Start = 0, ed_End = 1, ed_Replacement = concat sample_chunks \<rparr>]"

theorem edited_index_exact_witness:
  "ApplyEditsAndScan ''?'' sample_edits sample_spec =
     Some (Inr (concat sample_chunks, reference_result sample_compiled [] sample_children [] (concat sample_chunks)))"
proof -
  have "splice_all sample_edits ''?'' = concat sample_chunks" "sample_edits \<noteq> []" "ordered sample_edits"
    "list_all (valid_range (int (length ''?''))) sample_edits"
    by (simp_all add: sample_edits_def splice_all_def splice_def ordered_def valid_range_def)
  then show ?thesis
    using edited_index_exact [OF sample_compiles, of "''?''" sample_edits] sample_document by auto
qed

end
