(* ===== verification/Config_Validate.thy ===== *)
theory Config_Validate
  imports Config_Model
begin

text \<open>
  The validation of a configuration (\<open>internal/config/model.go\<close>, \<open>Validate\<close> and the checks it
  runs) and what a configuration that passes it guarantees to the rest of the program.
  Every function returns the first error in the order of the source, with its field path.
\<close>

section \<open>Values\<close>

definition containsControl :: "string \<Rightarrow> bool" where
  "containsControl v = IndexFunc_nonneg v IsControl"

definition uuid_byte :: "char \<Rightarrow> bool" where
  "uuid_byte c =
     ((48 \<le> byte c \<and> byte c \<le> 57) \<or> (97 \<le> byte c \<and> byte c \<le> 102) \<or> (65 \<le> byte c \<and> byte c \<le> 70))"

text \<open>
  The loop of \<open>isUUID\<close> ranges over characters; it stops at the first one that is not ASCII,
  so that it sees exactly the bytes.
\<close>

definition isUUID :: "string \<Rightarrow> bool" where
  "isUUID v =
     (if length v \<noteq> 36 \<or> v ! 8 \<noteq> CHR ''-'' \<or> v ! 13 \<noteq> CHR ''-'' \<or> v ! 18 \<noteq> CHR ''-'' \<or> v ! 23 \<noteq> CHR ''-'' then False
      else list_all (\<lambda>(i, c). i = 8 \<or> i = 13 \<or> i = 18 \<or> i = 23 \<or> uuid_byte c) (enumerate 0 v))"

definition validateCredential :: "string \<Rightarrow> string \<Rightarrow> bool \<Rightarrow> config_error option" where
  "validateCredential field v required =
     checks [check (required \<and> TrimSpace v = '''') (validation field ''must not be empty''),
             check (v \<noteq> '''' \<and> IndexFunc_nonneg v IsSpace) (validation field ''must not contain whitespace''),
             check (v \<noteq> '''' \<and> containsControl v) (validation field ''contains invalid control characters'')]"

definition validateListenAddr :: "go_env \<Rightarrow> string \<Rightarrow> string option" where
  "validateListenAddr env addr =
     (case SplitHostPort addr of
        Inl err \<Rightarrow> Some (''must be 127.0.0.1:<port>: '' @ err)
      | Inr (host, port) \<Rightarrow>
          if host \<noteq> ''127.0.0.1'' then Some (''host must be 127.0.0.1, got '' @ strconv_Quote env host)
          else
            (case Atoi port of
               None \<Rightarrow> Some ''port must be a canonical decimal integer''
             | Some n \<Rightarrow>
                 if Itoa n \<noteq> port then Some ''port must be a canonical decimal integer''
                 else if n < 1 \<or> n > 65535 then Some ''port must be between 1 and 65535''
                 else None))"

definition validateBaseURL :: "go_env \<Rightarrow> string \<Rightarrow> string option" where
  "validateBaseURL env raw =
     (if raw = '''' then Some ''must not be empty''
      else map_option (\<lambda>err. ''invalid URL: '' @ err) (url_Parse env raw))"

definition ValidateAttemptLimit :: "string \<Rightarrow> int \<Rightarrow> string option" where
  "ValidateAttemptLimit field v =
     (if v < 1 \<or> v > MaxSafeAttempts then Some (field @ '' must be an integer from 1 to 9007199254740991'')
      else None)"

definition too_long :: string where
  "too_long = ''must not exceed '' @ Itoa (int MaxBytes) @ '' UTF-8 bytes''"

section \<open>TLS and the fixed provider\<close>

definition TLS_Validate :: "TLSConfig \<Rightarrow> string \<Rightarrow> config_error option" where
  "TLS_Validate t prefix =
     (let mode = tls_Mode (TLS_Normalize t) in
      checks [if mode = TLSSystem \<or> mode = TLSSkip then None
              else if mode = TLSCustom
                then check (tls_CAFile t = '''') (validation (prefix @ ''.ca_file'') ''is required in custom mode'')
              else Some (validation (prefix @ ''.mode'') ''must be system, custom, or skip''),
              check (containsControl (tls_CAFile t))
                (validation (prefix @ ''.ca_file'') ''must not contain control characters'')])"

text \<open>The loop over patch ids, shared by a provider and the fixed provider; \<open>j\<close> is the index.\<close>

fun patches_loop :: "string \<Rightarrow> nat \<Rightarrow> string set \<Rightarrow> string list \<Rightarrow> config_error option" where
  "patches_loop prefix j seen [] = None"
| "patches_loop prefix j seen (patch # patches) =
     (let field = prefix @ ''.patches['' @ Itoa (int j) @ '']'' in
      checks [check (patch = '''' \<or> TrimSpace patch = '''') (validation field ''must not be empty''),
              check (containsControl patch) (validation field ''must not contain control characters''),
              check (patch \<in> seen) (validation field ''duplicates an earlier patch id''),
              patches_loop prefix (Suc j) (insert patch seen) patches])"

definition validateFixedProvider :: "go_env \<Rightarrow> string \<Rightarrow> FixedProviderConfig \<Rightarrow> config_error option" where
  "validateFixedProvider env prefix fixed =
     checks [map_option (validation (prefix @ ''.base_url'')) (validateBaseURL env (fp_BaseURL fixed)),
             validateCredential (prefix @ ''.api_key'') (fp_APIKey fixed) True,
             check (fp_Protocol fixed \<noteq> ProtocolAnthropicMessages \<and> fp_Protocol fixed \<noteq> ProtocolOpenAIResponses \<and>
                    fp_Protocol fixed \<noteq> ProtocolOpenAICompatible)
               (validation (prefix @ ''.protocol'') (''unsupported protocol '' @ strconv_Quote env (fp_Protocol fixed))),
             TLS_Validate (fp_TLS fixed) (prefix @ ''.tls''),
             patches_loop prefix 0 {} (fp_Patches fixed)]"

definition FixedProvider_Validate :: "go_env \<Rightarrow> FixedProviderConfig \<Rightarrow> config_error option" where
  "FixedProvider_Validate env f = validateFixedProvider env ''fixed_provider'' (FixedProvider_Normalize f)"

section \<open>Auto mode\<close>

definition validateClassifierModel :: "string \<Rightarrow> string \<Rightarrow> config_error option" where
  "validateClassifierModel field model =
     checks [check (model = '''') (validation field ''must not be empty''),
             check (\<not> ValidString model) (validation field ''must be valid UTF-8''),
             check (length model > MaxBytes) (validation field too_long),
             check (containsControl model) (validation field ''must not contain control characters'')]"

definition validateAutoMode :: "go_env \<Rightarrow> AutoModeConfig \<Rightarrow> config_error option" where
  "validateAutoMode env a =
     (let a = AutoMode_Normalize a in
      checks [check (am_Mode a \<noteq> AutoModeDisabled \<and> am_Mode a \<noteq> AutoModeProviderPool \<and> am_Mode a \<noteq> AutoModeFixedProvider)
                (validation ''auto_mode.mode'' (''unsupported mode '' @ strconv_Quote env (am_Mode a))),
              if am_Mode a \<noteq> AutoModeDisabled \<or> am_Model a \<noteq> ''''
                then validateClassifierModel ''auto_mode.model'' (am_Model a) else None,
              check (am_Mode a = AutoModeFixedProvider \<and> am_FixedProvider a = None)
                (validation ''auto_mode.fixed_provider'' ''is required in fixed_provider mode''),
              (case am_FixedProvider a of
                 Some fixed \<Rightarrow> validateFixedProvider env ''auto_mode.fixed_provider'' fixed
               | None \<Rightarrow> None)])"

definition AutoMode_Validate :: "go_env \<Rightarrow> AutoModeConfig \<Rightarrow> config_error option" where
  "AutoMode_Validate env a = validateAutoMode env (AutoMode_Normalize a)"

section \<open>Harness profiles\<close>

definition validateProfileModel :: "string \<Rightarrow> string \<Rightarrow> bool \<Rightarrow> config_error option" where
  "validateProfileModel field model required =
     (if model = '''' then check required (validation field ''must not be empty'')
      else
        checks [check (\<not> ValidString model) (validation field ''must be valid UTF-8''),
                check (length model > MaxBytes) (validation field too_long),
                check (containsControl model) (validation field ''must not contain control characters'')])"

definition validateProfile :: "string \<Rightarrow> Profile \<Rightarrow> config_error option" where
  "validateProfile prefix p =
     checks [map_option (validation (prefix @ ''.max_attempts'')) (ValidateAttemptLimit ''max_attempts'' (pr_MaxAttempts p)),
             map_option (validation (prefix @ ''.sticky_no_cooldown_attempts''))
               (ValidateAttemptLimit ''sticky_no_cooldown_attempts'' (pr_StickyNoCooldownAttempts p)),
             check (\<not> isUUID (pr_ID p)) (validation (prefix @ ''.id'') ''must be a canonical UUID''),
             check (pr_Name p = '''') (validation (prefix @ ''.name'') ''must not be empty''),
             check (TrimSpace (pr_Name p) \<noteq> pr_Name p)
               (validation (prefix @ ''.name'') ''must not have leading or trailing whitespace''),
             check (\<not> ValidString (pr_Name p)) (validation (prefix @ ''.name'') ''must be valid UTF-8''),
             check (containsControl (pr_Name p)) (validation (prefix @ ''.name'') ''must not contain control characters''),
             validateProfileModel (prefix @ ''.haiku_model'') (pr_HaikuModel p) True,
             validateProfileModel (prefix @ ''.sonnet_model'') (pr_SonnetModel p) True,
             validateProfileModel (prefix @ ''.opus_model'') (pr_OpusModel p) True,
             validateProfileModel (prefix @ ''.fable_model'') (pr_FableModel p) True,
             validateProfileModel (prefix @ ''.subagent_model'') (pr_SubagentModel p) False,
             validateProfileModel (prefix @ ''.teammate_default_model'') (pr_TeammateDefaultModel p) False]"

definition Profile_Validate :: "Profile \<Rightarrow> config_error option" where
  "Profile_Validate p = validateProfile ''profile'' (Profile_Normalize p)"

text \<open>
  The loop over the profiles; \<open>ids\<close> and \<open>names\<close> are the maps from what was seen to its index.
\<close>

fun profiles_loop ::
  "string \<Rightarrow> nat \<Rightarrow> (string, nat) gomap \<Rightarrow> (string, nat) gomap \<Rightarrow> Profile list \<Rightarrow> config_error option" where
  "profiles_loop prefix i ids names [] = None"
| "profiles_loop prefix i ids names (p # ps) =
     (let at = prefix @ ''.profiles['' @ Itoa (int i) @ '']'' in
      checks [validateProfile at p,
              map_option (\<lambda>previous. conflict (at @ ''.id'')
                  (''duplicates '' @ prefix @ ''.profiles['' @ Itoa (int previous) @ ''].id'')) (map_of ids (pr_ID p)),
              map_option (\<lambda>previous. conflict (at @ ''.name'')
                  (''duplicates '' @ prefix @ ''.profiles['' @ Itoa (int previous) @ ''].name'')) (map_of names (pr_Name p)),
              profiles_loop prefix (Suc i) (AList.update (pr_ID p) i ids) (AList.update (pr_Name p) i names) ps])"

definition validateClaudeCode :: "go_env \<Rightarrow> string \<Rightarrow> ClaudeCodeConfig \<Rightarrow> config_error option" where
  "validateClaudeCode env prefix v =
     checks [check (cc_PathMode v \<noteq> PathModeDefault \<and> cc_PathMode v \<noteq> PathModeCustom)
               (validation (prefix @ ''.path_mode'') (''unsupported path mode '' @ strconv_Quote env (cc_PathMode v))),
             check (cc_PathMode v = PathModeCustom \<and> cc_SettingsPath v = '''')
               (validation (prefix @ ''.settings_path'') ''must be a non-empty absolute path in custom mode''),
             if cc_SettingsPath v \<noteq> '''' then
               checks [check (\<not> filepath_IsAbs env (cc_SettingsPath v))
                         (validation (prefix @ ''.settings_path'') ''must be an absolute path''),
                       check (\<not> ValidString (cc_SettingsPath v))
                         (validation (prefix @ ''.settings_path'') ''must be valid UTF-8''),
                       check (containsControl (cc_SettingsPath v))
                         (validation (prefix @ ''.settings_path'') ''must not contain control characters'')]
             else None,
             profiles_loop prefix 0 [] [] (cc_Profiles v),
             if cc_ActiveProfileID v \<noteq> '''' then
               checks [check (\<not> isUUID (cc_ActiveProfileID v))
                         (validation (prefix @ ''.active_profile_id'') ''must be a canonical UUID''),
                       check (cc_ActiveProfileID v \<notin> pr_ID ` set (cc_Profiles v))
                         (validation (prefix @ ''.active_profile_id'') ''must reference an existing profile'')]
             else None]"

definition ClaudeCode_Validate :: "go_env \<Rightarrow> ClaudeCodeConfig \<Rightarrow> config_error option" where
  "ClaudeCode_Validate env c = validateClaudeCode env ''harnesses.claude_code'' (ClaudeCode_Normalize c)"

definition Harnesses_Validate :: "go_env \<Rightarrow> HarnessesConfig \<Rightarrow> config_error option" where
  "Harnesses_Validate env h = ClaudeCode_Validate env (ha_ClaudeCode h)"

section \<open>Providers\<close>

fun models_loop :: "string \<Rightarrow> nat \<Rightarrow> string set \<Rightarrow> string list \<Rightarrow> config_error option" where
  "models_loop prefix j seen [] = None"
| "models_loop prefix j seen (model # models) =
     (let field = prefix @ ''.models['' @ Itoa (int j) @ '']'' in
      checks [check (model = '''') (validation field ''must not be empty''),
              check (length model > MaxBytes) (validation field too_long),
              check (containsControl model) (validation field ''must not contain control characters''),
              check (model \<in> seen)
                (validation field ''duplicates an earlier model using exact case-sensitive matching''),
              models_loop prefix (Suc j) (insert model seen) models])"

fun providers_loop ::
  "go_env \<Rightarrow> nat \<Rightarrow> (string, nat) gomap \<Rightarrow> (string, nat) gomap \<Rightarrow> ProviderConfig list \<Rightarrow> config_error option" where
  "providers_loop env i ids names [] = None"
| "providers_loop env i ids names (p # ps) =
     (let prefix = ''providers['' @ Itoa (int i) @ '']'' in
      checks [check (\<not> isUUID (pc_ID p)) (validation (prefix @ ''.id'') ''must be a canonical UUID''),
              check (pc_Name p = '''' \<or> TrimSpace (pc_Name p) = '''')
                (validation (prefix @ ''.name'') ''must not be empty''),
              check (containsControl (pc_Name p)) (validation (prefix @ ''.name'') ''must not contain control characters''),
              map_option (\<lambda>previous. conflict (prefix @ ''.id'')
                  (''duplicates providers['' @ Itoa (int previous) @ ''].id'')) (map_of ids (pc_ID p)),
              map_option (\<lambda>previous. conflict (prefix @ ''.name'')
                  (''duplicates providers['' @ Itoa (int previous) @ ''].name'')) (map_of names (pc_Name p)),
              map_option (validation (prefix @ ''.base_url'')) (validateBaseURL env (pc_BaseURL p)),
              validateCredential (prefix @ ''.api_key'') (pc_APIKey p) (pc_Enabled p \<and> length (pc_Models p) > 0),
              models_loop prefix 0 {} (pc_Models p),
              TLS_Validate (pc_TLS p) (prefix @ ''.tls''),
              patches_loop prefix 0 {} (pc_Patches p),
              providers_loop env (Suc i) (AList.update (pc_ID p) i ids) (AList.update (pc_Name p) i names) ps])"

section \<open>The configuration\<close>

definition Config_Validate :: "go_env \<Rightarrow> Config \<Rightarrow> config_error option" where
  "Config_Validate env c =
     (let c = Config_Normalize c in
      checks [if cfg_SchemaVersion c \<noteq> SchemaVersion then
                Some (if cfg_SchemaVersion c = 0 then validation ''schema_version'' ''is required and must be 1''
                      else validation ''schema_version'' (''unsupported version '' @ Itoa (cfg_SchemaVersion c)))
              else None,
              map_option (validation ''service.listen_addr'') (validateListenAddr env (sv_ListenAddr (cfg_Service c))),
              check (sv_LogMaxBytes (cfg_Service c) \<le> 0)
                (validation ''service.log_max_bytes'' ''must be a positive integer''),
              validateCredential ''auth.management_key'' (au_ManagementKey (cfg_Auth c)) True,
              if au_GatewayKey (cfg_Auth c) \<noteq> '''' then
                checks [validateCredential ''auth.gateway_key'' (au_GatewayKey (cfg_Auth c)) False,
                        check (au_GatewayKey (cfg_Auth c) = au_ManagementKey (cfg_Auth c))
                          (validation ''auth'' ''gateway_key and management_key must be different'')]
              else None,
              validateAutoMode env (cfg_AutoMode c),
              Harnesses_Validate env (cfg_Harnesses c),
              providers_loop env 0 [] [] (cfg_Providers c)])"

definition ValidateProviderForRequest :: "go_env \<Rightarrow> ProviderConfig \<Rightarrow> config_error option" where
  "ValidateProviderForRequest env p =
     Config_Validate env (Config_Default
       \<lparr>cfg_Auth := (cfg_Auth Config_Default)\<lparr>au_ManagementKey := ''provider-request-validation-key''\<rparr>,
         cfg_Providers := [p]\<rparr>)"

section \<open>What each check accepts\<close>

definition credential_ok :: "bool \<Rightarrow> string \<Rightarrow> bool" where
  "credential_ok required v \<longleftrightarrow>
     (required \<longrightarrow> TrimSpace v \<noteq> '''') \<and> list_all (\<lambda>r. \<not> IsSpace r \<and> \<not> IsControl r) (runes v)"

lemma list_all_not: "list_all (\<lambda>x. \<not> P x) xs \<longleftrightarrow> \<not> list_ex P xs"
  by (induction xs) auto

lemma validateCredential_None: "validateCredential field v required = None \<longleftrightarrow> credential_ok required v"
  by (cases "v = ''''")
    (auto simp: validateCredential_def credential_ok_def containsControl_def IndexFunc_nonneg_def list_all_iff list_ex_iff)

definition name_ok :: "string \<Rightarrow> bool" where
  "name_ok model \<longleftrightarrow> model \<noteq> '''' \<and> length model \<le> MaxBytes \<and> \<not> containsControl model"

definition patch_id_ok :: "string \<Rightarrow> bool" where
  "patch_id_ok patch \<longleftrightarrow> TrimSpace patch \<noteq> '''' \<and> \<not> containsControl patch"

lemma TrimSpace_Nil [simp]: "TrimSpace '''' = ''''"
proof -
  have "trim_leading rs '''' = ''''" for rs
    by (subst trim_leading.simps) (auto simp: leading_def find_Some_iff split: option.split)
  then show ?thesis by (simp add: TrimSpace_def)
qed

lemma models_loop_None:
  "models_loop prefix j seen models = None \<longleftrightarrow>
     list_all name_ok models \<and> distinct models \<and> set models \<inter> seen = {}"
  by (induction models arbitrary: j seen) (auto simp: name_ok_def Let_def)

lemma patches_loop_None:
  "patches_loop prefix j seen patches = None \<longleftrightarrow>
     list_all patch_id_ok patches \<and> distinct patches \<and> set patches \<inter> seen = {}"
  by (induction patches arbitrary: j seen) (auto simp: patch_id_ok_def Let_def)

definition base_url_ok :: "go_env \<Rightarrow> string \<Rightarrow> bool" where
  "base_url_ok env raw \<longleftrightarrow> raw \<noteq> '''' \<and> url_Parse env raw = None"

lemma validateBaseURL_None: "validateBaseURL env raw = None \<longleftrightarrow> base_url_ok env raw"
  by (simp add: validateBaseURL_def base_url_ok_def)

definition tls_ok :: "TLSConfig \<Rightarrow> bool" where
  "tls_ok t \<longleftrightarrow>
     (tls_Mode t \<in> {'''', TLSSystem, TLSSkip} \<or> tls_Mode t = TLSCustom \<and> tls_CAFile t \<noteq> '''') \<and>
     \<not> containsControl (tls_CAFile t)"

lemma TLS_Validate_None: "TLS_Validate t prefix = None \<longleftrightarrow> tls_ok t"
  by (auto simp: TLS_Validate_def tls_ok_def TLS_Normalize_def Let_def mode_defs)

definition fixed_ok :: "go_env \<Rightarrow> FixedProviderConfig \<Rightarrow> bool" where
  "fixed_ok env f \<longleftrightarrow>
     base_url_ok env (fp_BaseURL f) \<and> credential_ok True (fp_APIKey f) \<and>
     fp_Protocol f \<in> {ProtocolAnthropicMessages, ProtocolOpenAIResponses, ProtocolOpenAICompatible} \<and>
     tls_ok (fp_TLS f) \<and> list_all patch_id_ok (fp_Patches f) \<and> distinct (fp_Patches f)"

lemma validateFixedProvider_None: "validateFixedProvider env prefix f = None \<longleftrightarrow> fixed_ok env f"
  by (auto simp: validateFixedProvider_def fixed_ok_def validateBaseURL_None validateCredential_None TLS_Validate_None
      patches_loop_None)

definition classifier_ok :: "string \<Rightarrow> bool" where
  "classifier_ok model \<longleftrightarrow> name_ok model \<and> valid_utf8 model"

lemma validateClassifierModel_None: "validateClassifierModel field model = None \<longleftrightarrow> classifier_ok model"
  by (auto simp: validateClassifierModel_def classifier_ok_def name_ok_def ValidString_valid_utf8)

lemma validateProfileModel_None:
  "validateProfileModel field model required = None \<longleftrightarrow> (if model = '''' then \<not> required else classifier_ok model)"
  by (auto simp: validateProfileModel_def classifier_ok_def name_ok_def ValidString_valid_utf8)

definition auto_mode_ok :: "go_env \<Rightarrow> AutoModeConfig \<Rightarrow> bool" where
  "auto_mode_ok env a \<longleftrightarrow>
     am_Mode a \<in> {AutoModeDisabled, AutoModeProviderPool, AutoModeFixedProvider} \<and>
     (am_Mode a \<noteq> AutoModeDisabled \<or> am_Model a \<noteq> '''' \<longrightarrow> classifier_ok (am_Model a)) \<and>
     (am_Mode a = AutoModeFixedProvider \<longrightarrow> am_FixedProvider a \<noteq> None) \<and>
     (\<forall>f. am_FixedProvider a = Some f \<longrightarrow> fixed_ok env f)"

lemma TLS_Normalize_idem [simp]: "TLS_Normalize (TLS_Normalize t) = TLS_Normalize t"
  by (simp add: TLS_Normalize_def mode_defs)

lemma FixedProvider_Normalize_idem [simp]: "FixedProvider_Normalize (FixedProvider_Normalize f) = FixedProvider_Normalize f"
  by (simp add: FixedProvider_Normalize_def)

lemma AutoMode_Normalize_idem [simp]: "AutoMode_Normalize (AutoMode_Normalize a) = AutoMode_Normalize a"
  by (simp add: AutoMode_Normalize_def Let_def option.map_comp comp_def AutoModeDisabled_def)

lemma validateAutoMode_None: "validateAutoMode env a = None \<longleftrightarrow> auto_mode_ok env (AutoMode_Normalize a)"
  by (auto simp: validateAutoMode_def auto_mode_ok_def Let_def validateClassifierModel_None validateFixedProvider_None
      split: option.split)

section \<open>What the profiles and the providers must satisfy\<close>

definition attempts_ok :: "int \<Rightarrow> bool" where
  "attempts_ok n \<longleftrightarrow> 1 \<le> n \<and> n \<le> MaxSafeAttempts"

lemma ValidateAttemptLimit_None: "ValidateAttemptLimit field n = None \<longleftrightarrow> attempts_ok n"
  by (auto simp: ValidateAttemptLimit_def attempts_ok_def)

definition profile_ok :: "Profile \<Rightarrow> bool" where
  "profile_ok p \<longleftrightarrow>
     attempts_ok (pr_MaxAttempts p) \<and> attempts_ok (pr_StickyNoCooldownAttempts p) \<and> isUUID (pr_ID p) \<and>
     pr_Name p \<noteq> '''' \<and> TrimSpace (pr_Name p) = pr_Name p \<and> valid_utf8 (pr_Name p) \<and> \<not> containsControl (pr_Name p) \<and>
     list_all classifier_ok [pr_HaikuModel p, pr_SonnetModel p, pr_OpusModel p, pr_FableModel p] \<and>
     (pr_SubagentModel p = '''' \<or> classifier_ok (pr_SubagentModel p)) \<and>
     (pr_TeammateDefaultModel p = '''' \<or> classifier_ok (pr_TeammateDefaultModel p))"

lemma classifier_ok_Nil [simp]: "\<not> classifier_ok ''''"
  by (simp add: classifier_ok_def name_ok_def)

lemma validateProfile_None: "validateProfile prefix p = None \<longleftrightarrow> profile_ok p"
  by (simp add: validateProfile_def profile_ok_def ValidateAttemptLimit_None validateProfileModel_None
      ValidString_valid_utf8)

lemma profiles_loop_None:
  "profiles_loop prefix i ids names ps = None \<longleftrightarrow>
     list_all profile_ok ps \<and> distinct (map pr_ID ps) \<and> distinct (map pr_Name ps) \<and>
     (\<forall>p \<in> set ps. map_of ids (pr_ID p) = None \<and> map_of names (pr_Name p) = None)"
proof (induction ps arbitrary: i ids names)
  case (Cons p ps)
  then show ?case
    by (simp add: Let_def validateProfile_None gomap_simps) (force simp: image_iff)
qed simp

definition claude_ok :: "go_env \<Rightarrow> ClaudeCodeConfig \<Rightarrow> bool" where
  "claude_ok env c \<longleftrightarrow>
     (cc_PathMode c = PathModeDefault \<or> cc_PathMode c = PathModeCustom \<and> cc_SettingsPath c \<noteq> '''') \<and>
     (cc_SettingsPath c \<noteq> '''' \<longrightarrow>
        filepath_IsAbs env (cc_SettingsPath c) \<and> valid_utf8 (cc_SettingsPath c) \<and> \<not> containsControl (cc_SettingsPath c)) \<and>
     list_all profile_ok (cc_Profiles c) \<and> distinct (map pr_ID (cc_Profiles c)) \<and> distinct (map pr_Name (cc_Profiles c)) \<and>
     (cc_ActiveProfileID c \<noteq> '''' \<longrightarrow> cc_ActiveProfileID c \<in> pr_ID ` set (cc_Profiles c))"

lemma profile_ok_uuid: "list_all profile_ok ps \<Longrightarrow> i \<in> pr_ID ` set ps \<Longrightarrow> isUUID i"
  by (auto simp: list_all_iff profile_ok_def)

lemma validateClaudeCode_None: "validateClaudeCode env prefix c = None \<longleftrightarrow> claude_ok env c"
  using profile_ok_uuid [of "cc_Profiles c"]
  by (auto simp: validateClaudeCode_def claude_ok_def profiles_loop_None ValidString_valid_utf8 mode_defs
     )

definition provider_ok :: "go_env \<Rightarrow> ProviderConfig \<Rightarrow> bool" where
  "provider_ok env p \<longleftrightarrow>
     isUUID (pc_ID p) \<and> TrimSpace (pc_Name p) \<noteq> '''' \<and> \<not> containsControl (pc_Name p) \<and> base_url_ok env (pc_BaseURL p) \<and>
     credential_ok (pc_Enabled p \<and> pc_Models p \<noteq> []) (pc_APIKey p) \<and> list_all name_ok (pc_Models p) \<and>
     distinct (pc_Models p) \<and> tls_ok (pc_TLS p) \<and> list_all patch_id_ok (pc_Patches p) \<and> distinct (pc_Patches p)"

lemma providers_loop_None:
  "providers_loop env i ids names ps = None \<longleftrightarrow>
     list_all (provider_ok env) ps \<and> distinct (map pc_ID ps) \<and> distinct (map pc_Name ps) \<and>
     (\<forall>p \<in> set ps. map_of ids (pc_ID p) = None \<and> map_of names (pc_Name p) = None)"
proof (induction ps arbitrary: i ids names)
  case (Cons p ps)
  have head: "checks [check (\<not> isUUID (pc_ID p)) e1, check (pc_Name p = '''' \<or> TrimSpace (pc_Name p) = '''') e2,
      check (containsControl (pc_Name p)) e3, map_option f4 (map_of ids (pc_ID p)), map_option f5 (map_of names (pc_Name p)),
      map_option f6 (validateBaseURL env (pc_BaseURL p)),
      validateCredential g7 (pc_APIKey p) (pc_Enabled p \<and> length (pc_Models p) > 0), models_loop g8 0 {} (pc_Models p),
      TLS_Validate (pc_TLS p) g9, patches_loop g10 0 {} (pc_Patches p), rest] = None \<longleftrightarrow>
    provider_ok env p \<and> map_of ids (pc_ID p) = None \<and> map_of names (pc_Name p) = None \<and> rest = None"
    for e1 e2 e3 f4 f5 f6 g7 g8 g9 g10 rest
    by (auto simp: provider_ok_def validateBaseURL_None validateCredential_None models_loop_None TLS_Validate_None
        patches_loop_None)
  show ?case
    unfolding providers_loop.simps Let_def head Cons.IH by (simp add: gomap_simps) (force simp: image_iff)
qed simp

section \<open>The listen address\<close>

definition listen_ok :: "string \<Rightarrow> bool" where
  "listen_ok addr \<longleftrightarrow>
     (\<exists>n. 1 \<le> n \<and> n \<le> 65535 \<and> (addr = ''127.0.0.1:'' @ Itoa n \<or> addr = ''[127.0.0.1]:'' @ Itoa n))"

lemma validateListenAddr_None: "validateListenAddr env addr = None \<longleftrightarrow> listen_ok addr"
  unfolding listen_ok_def
proof
  assume ok: "validateListenAddr env addr = None"
  then obtain port n where sp: "SplitHostPort addr = Inr (''127.0.0.1'', port)" and n: "Itoa n = port" "1 \<le> n" "n \<le> 65535"
    by (auto simp: validateListenAddr_def split: sum.splits prod.splits option.splits if_splits)
  from SplitHostPort_Inr [OF sp] n
  show "\<exists>n. 1 \<le> n \<and> n \<le> 65535 \<and> (addr = ''127.0.0.1:'' @ Itoa n \<or> addr = ''[127.0.0.1]:'' @ Itoa n)"
    by (intro exI [of _ n]) auto
next
  assume "\<exists>n. 1 \<le> n \<and> n \<le> 65535 \<and> (addr = ''127.0.0.1:'' @ Itoa n \<or> addr = ''[127.0.0.1]:'' @ Itoa n)"
  then obtain n where n: "1 \<le> n" "n \<le> 65535" and addr: "addr = ''127.0.0.1:'' @ Itoa n \<or> addr = ''[127.0.0.1]:'' @ Itoa n"
    by blast
  have t: "set (Itoa n) \<inter> {CHR '':'', CHR ''['', CHR '']''} = {}"
    using n nat_text_digits [of "nat n"] by (intro digit_plain) (simp add: Itoa_def)
  have "SplitHostPort addr = Inr (''127.0.0.1'', Itoa n)"
    using addr SplitHostPort_plain [OF _ t, of "''127.0.0.1''"] SplitHostPort_bracket [OF _ t, of "''127.0.0.1''"] by auto
  moreover have "Atoi (Itoa n) = Some n" using n by (intro Atoi_Itoa) (simp_all add: maxInt_def)
  ultimately show "validateListenAddr env addr = None" using n by (simp add: validateListenAddr_def)
qed

text \<open>
  C39. The listen address is accepted exactly when it is the loopback address, plain or in
  brackets, followed by a colon and a canonical decimal port from 1 to 65535: no other host,
  no sign, no leading zero.
\<close>

theorem validateListenAddr_iff:
  "validateListenAddr env addr = None \<longleftrightarrow>
     (\<exists>n. 1 \<le> n \<and> n \<le> 65535 \<and> (addr = ''127.0.0.1:'' @ Itoa n \<or> addr = ''[127.0.0.1]:'' @ Itoa n))"
  unfolding validateListenAddr_None listen_ok_def ..

section \<open>The whole configuration\<close>

definition config_ok :: "go_env \<Rightarrow> Config \<Rightarrow> bool" where
  "config_ok env c \<longleftrightarrow>
     cfg_SchemaVersion c = 1 \<and> listen_ok (sv_ListenAddr (cfg_Service c)) \<and>
     0 < sv_LogMaxBytes (cfg_Service c) \<and> credential_ok True (au_ManagementKey (cfg_Auth c)) \<and>
     credential_ok False (au_GatewayKey (cfg_Auth c)) \<and> au_GatewayKey (cfg_Auth c) \<noteq> au_ManagementKey (cfg_Auth c) \<and>
     auto_mode_ok env (cfg_AutoMode c) \<and> claude_ok env (ha_ClaudeCode (cfg_Harnesses c)) \<and>
     list_all (provider_ok env) (cfg_Providers c) \<and>
     distinct (map pc_ID (cfg_Providers c)) \<and> distinct (map pc_Name (cfg_Providers c))"

lemma Profile_Normalize_idem [simp]: "Profile_Normalize (Profile_Normalize p) = Profile_Normalize p"
  by (simp add: Profile_Normalize_def Let_def DefaultNormalMaxAttempts_def DefaultStickyNoCooldownAttempts_def)

lemma ClaudeCode_Normalize_idem [simp]: "ClaudeCode_Normalize (ClaudeCode_Normalize c) = ClaudeCode_Normalize c"
  by (simp add: ClaudeCode_Normalize_def Let_def comp_def PathModeDefault_def)

lemma Harnesses_Normalize_idem [simp]: "Harnesses_Normalize (Harnesses_Normalize h) = Harnesses_Normalize h"
  by (simp add: Harnesses_Normalize_def)

lemma Config_Normalize_idem [simp]: "Config_Normalize (Config_Normalize c) = Config_Normalize c"
  by (simp add: Config_Normalize_def comp_def)

lemma credential_empty: "credential_ok False []" "\<not> credential_ok True []"
  by (simp_all add: credential_ok_def)

lemma Config_Validate_None: "Config_Validate env c = None \<longleftrightarrow> config_ok env (Config_Normalize c)"
proof -
  have auto: "validateAutoMode env (cfg_AutoMode (Config_Normalize c)) = None \<longleftrightarrow>
      auto_mode_ok env (cfg_AutoMode (Config_Normalize c))"
    by (simp add: validateAutoMode_None Config_Normalize_def)
  have harness: "Harnesses_Validate env (cfg_Harnesses (Config_Normalize c)) = None \<longleftrightarrow>
      claude_ok env (ha_ClaudeCode (cfg_Harnesses (Config_Normalize c)))"
    by (simp add: Harnesses_Validate_def ClaudeCode_Validate_def validateClaudeCode_None Config_Normalize_def
        Harnesses_Normalize_def)
  show ?thesis
    using credential_empty
    by (auto simp: Config_Validate_def config_ok_def Let_def validateCredential_None auto harness providers_loop_None
        SchemaVersion_def validateListenAddr_None)
qed

lemma Config_Validate_Normalize [simp]: "Config_Validate env (Config_Normalize c) = Config_Validate env c"
  by (simp add: Config_Validate_def)

text \<open>
  C34. A configuration is accepted exactly when, with the documented defaults filled in, it
  satisfies the declarative contract \<open>config_ok\<close>: version 1, a loopback listen address, distinct
  and well-formed credentials, a complete auto mode, unique profiles that contain the active
  one, and providers with unique IDs and names, a key where one is needed and no model or
  patch listed twice. In particular filling in the defaults never changes the verdict.
\<close>

theorem Validate_iff_config_ok:
  "(Config_Validate env c = None \<longleftrightarrow> config_ok env (Config_Normalize c)) \<and>
   Config_Validate env (Config_Normalize c) = Config_Validate env c"
  by (simp add: Config_Validate_None)

text \<open>The initial configuration is valid once it has a management key.\<close>

lemma nat_text_8765: "Itoa 8765 = ''8765''"
proof -
  have "char_of (56::nat) = CHR ''8''" "char_of (55::nat) = CHR ''7''" "char_of (54::nat) = CHR ''6''"
    "char_of (53::nat) = CHR ''5''" by code_simp+
  then show ?thesis by (simp add: Itoa_def nat_text.simps digit_char_def)
qed

lemma Default_ok:
  assumes "credential_ok True key"
  shows "config_ok env (Config_Default\<lparr>cfg_Auth := (cfg_Auth Config_Default)\<lparr>au_ManagementKey := key\<rparr>\<rparr>)"
proof -
  have "listen_ok DefaultListenAddr"
    unfolding listen_ok_def DefaultListenAddr_def by (intro exI [of _ 8765]) (simp add: nat_text_8765)
  moreover have "key \<noteq> []" using assms credential_empty by auto
  ultimately show ?thesis using assms credential_empty
    by (simp add: config_ok_def Config_Default_def SchemaVersion_def DefaultLogMaxBytes_def auto_mode_ok_def claude_ok_def
        DefaultHarnesses_def DefaultClaudeCodeConfig_def mode_defs)
qed

end
