(* ===== verification/Config_Update.thy ===== *)
theory Config_Update
  imports Config_Validate "HOL-Library.Multiset"
begin

text \<open>
  Updates of the configuration (\<open>internal/config/model.go\<close>: client and server updates and
  the active profile; \<open>internal/config/provider_order.go\<close>: reordering a priority group). The
  active profile is state the server owns: an update may keep it or drop it, never choose it.
\<close>

section \<open>The active profile\<close>

definition active_id :: "Config \<Rightarrow> string" where
  "active_id c = cc_ActiveProfileID (ha_ClaudeCode (cfg_Harnesses c))"

definition set_active_id :: "string \<Rightarrow> Config \<Rightarrow> Config" where
  "set_active_id i c =
     c\<lparr>cfg_Harnesses := (cfg_Harnesses c)\<lparr>ha_ClaudeCode := (ha_ClaudeCode (cfg_Harnesses c))\<lparr>cc_ActiveProfileID := i\<rparr>\<rparr>\<rparr>"

fun findProfile :: "Profile list \<Rightarrow> string \<Rightarrow> Profile option" where
  "findProfile [] i = None"
| "findProfile (p # ps) i = (if pr_ID p = i then Some p else findProfile ps i)"

datatype ActiveInputChange = ActiveInputsChanged | ActiveInputsUnchanged | ActiveTelemetryChanged

definition same_models :: "Profile \<Rightarrow> Profile \<Rightarrow> bool" where
  "same_models l r \<longleftrightarrow>
     pr_HaikuModel l = pr_HaikuModel r \<and> pr_SonnetModel l = pr_SonnetModel r \<and>
     pr_OpusModel l = pr_OpusModel r \<and> pr_FableModel l = pr_FableModel r \<and>
     pr_SubagentModel l = pr_SubagentModel r \<and> pr_TeammateDefaultModel l = pr_TeammateDefaultModel r"

definition ActiveProfileChange :: "Config \<Rightarrow> Config \<Rightarrow> ActiveInputChange" where
  "ActiveProfileChange current next =
     (let current = Config_Normalize current;
          next = Config_Normalize next;
          activeID = active_id current;
          left = ha_ClaudeCode (cfg_Harnesses current);
          right = ha_ClaudeCode (cfg_Harnesses next)
      in if activeID = '''' \<or> (active_id next \<noteq> '''' \<and> active_id next \<noteq> activeID) then ActiveInputsChanged
         else if sv_ListenAddr (cfg_Service current) \<noteq> sv_ListenAddr (cfg_Service next) \<or>
                 au_GatewayKey (cfg_Auth current) \<noteq> au_GatewayKey (cfg_Auth next) then ActiveInputsChanged
         else if cc_PathMode left \<noteq> cc_PathMode right \<or>
                 (cc_PathMode left = PathModeCustom \<and> cc_SettingsPath left \<noteq> cc_SettingsPath right)
           then ActiveInputsChanged
         else
           (case (findProfile (cc_Profiles left) activeID, findProfile (cc_Profiles right) activeID) of
              (Some leftProfile, Some rightProfile) \<Rightarrow>
                if \<not> same_models leftProfile rightProfile then ActiveInputsChanged
                else if cc_DisableTelemetry left \<noteq> cc_DisableTelemetry right then ActiveTelemetryChanged
                else ActiveInputsUnchanged
            | _ \<Rightarrow> ActiveInputsChanged))"

definition prepareServerUpdate :: "Config \<Rightarrow> Config \<Rightarrow> Config" where
  "prepareServerUpdate current next =
     (let current = Config_Normalize current;
          next = Config_Normalize next;
          activeID = active_id current
      in if activeID = '''' \<or> ActiveProfileChange current next = ActiveInputsChanged
         then set_active_id '''' next else set_active_id activeID next)"

section \<open>Updates\<close>

definition ApplyClientUpdate :: "go_env \<Rightarrow> Config \<Rightarrow> Config \<Rightarrow> config_error + Config" where
  "ApplyClientUpdate env current next =
     (let current = Config_Normalize current;
          next = Config_Normalize next
      in if active_id next \<noteq> '''' then Inl ErrActiveProfileReadOnly
         else
           let next = prepareServerUpdate current next in
           case Config_Validate env next of Some err \<Rightarrow> Inl err | None \<Rightarrow> Inr next)"

definition ApplyServerUpdate :: "go_env \<Rightarrow> Config \<Rightarrow> Config \<Rightarrow> config_error + Config" where
  "ApplyServerUpdate env current next =
     (let current = Config_Normalize current;
          next = Config_Normalize next;
          currentID = active_id current;
          nextID = active_id next
      in if nextID \<noteq> '''' \<and> nextID \<noteq> currentID then Inl ErrActiveProfileReadOnly
         else
           let next = prepareServerUpdate current next in
           case Config_Validate env next of Some err \<Rightarrow> Inl err | None \<Rightarrow> Inr next)"

definition WithActiveProfileID :: "go_env \<Rightarrow> Config \<Rightarrow> string \<Rightarrow> config_error + Config" where
  "WithActiveProfileID env c i =
     (let out = Config_Normalize c in
      case (if i \<noteq> '''' then
              checks [check (\<not> isUUID i)
                        (validation ''harnesses.claude_code.active_profile_id'' ''must be a canonical UUID''),
                      check (findProfile (cc_Profiles (ha_ClaudeCode (cfg_Harnesses out))) i = None)
                        (validation ''harnesses.claude_code.active_profile_id'' ''must reference an existing profile'')]
            else None) of
        Some err \<Rightarrow> Inl err
      | None \<Rightarrow>
          let out = set_active_id i out in
          case Config_Validate env out of Some err \<Rightarrow> Inl err | None \<Rightarrow> Inr out)"

definition clientUpdateFromConfig :: "Config \<Rightarrow> ClientConfigUpdate" where
  "clientUpdateFromConfig v =
     (let v = Config_Normalize v; claude = ha_ClaudeCode (cfg_Harnesses v) in
      \<lparr> cu_SchemaVersion = cfg_SchemaVersion v, cu_Service = cfg_Service v, cu_Auth = cfg_Auth v,
        cu_AutoMode = cfg_AutoMode v,
        cu_Harnesses = \<lparr> ch_ClaudeCode =
          \<lparr> cl_PathMode = cc_PathMode claude, cl_SettingsPath = cc_SettingsPath claude,
            cl_DisableTelemetry = cc_DisableTelemetry claude, cl_Profiles = cc_Profiles claude \<rparr> \<rparr>,
        cu_Providers = cfg_Providers v \<rparr>)"

definition configFromClientUpdate :: "ClientConfigUpdate \<Rightarrow> Config" where
  "configFromClientUpdate update =
     (let claude = ch_ClaudeCode (cu_Harnesses update) in
      \<lparr> cfg_SchemaVersion = cu_SchemaVersion update, cfg_Service = cu_Service update, cfg_Auth = cu_Auth update,
        cfg_AutoMode = cu_AutoMode update,
        cfg_Harnesses = \<lparr> ha_ClaudeCode =
          \<lparr> cc_PathMode = cl_PathMode claude, cc_SettingsPath = cl_SettingsPath claude,
            cc_DisableTelemetry = cl_DisableTelemetry claude, cc_ActiveProfileID = '''',
            cc_Profiles = cl_Profiles claude \<rparr> \<rparr>,
        cfg_Providers = cu_Providers update \<rparr>)"

definition ApplyClientRequest :: "go_env \<Rightarrow> Config \<Rightarrow> ClientConfigUpdate \<Rightarrow> config_error + Config" where
  "ApplyClientRequest env current update = ApplyClientUpdate env current (configFromClientUpdate update)"

section \<open>Reordering a priority group\<close>

text \<open>
  The selection loop of \<open>ReorderProviders\<close>: \<open>i\<close> is the index, \<open>selected\<close> what was chosen so
  far, so \<open>seen\<close> is the set of its IDs.
\<close>

fun select_loop ::
  "(string, ProviderConfig) gomap \<Rightarrow> nat \<Rightarrow> string set \<Rightarrow> ProviderConfig list \<Rightarrow> string list \<Rightarrow>
     config_error + ProviderConfig list" where
  "select_loop byID i seen selected [] = Inr selected"
| "select_loop byID i seen selected (pid # ids) =
     (let field = ''provider_ids['' @ Itoa (int i) @ '']'' in
      if \<not> isUUID pid then Inl (validation field ''must be a canonical UUID'')
      else if pid \<in> seen then Inl (validation field ''duplicates an earlier provider'')
      else
        (case map_of byID pid of
           None \<Rightarrow> Inl (validation field ''provider does not exist'')
         | Some p \<Rightarrow>
             if i > 0 \<and> pc_Priority p \<noteq> pc_Priority (selected ! 0)
             then Inl (validation field ''all providers must share the same priority'')
             else select_loop byID (Suc i) (insert pid seen) (selected @ [p]) ids))"

text \<open>The loop that replaces the slots of the group, in order.\<close>

fun fill_slots :: "int \<Rightarrow> ProviderConfig list \<Rightarrow> ProviderConfig list \<Rightarrow> ProviderConfig list" where
  "fill_slots priority selected [] = []"
| "fill_slots priority selected (p # ps) =
     (if pc_Priority p = priority then selected ! 0 # fill_slots priority (drop 1 selected) ps
      else p # fill_slots priority selected ps)"

definition ReorderProviders :: "ProviderConfig list \<Rightarrow> string list \<Rightarrow> config_error + ProviderConfig list" where
  "ReorderProviders providers ids =
     (if length ids = 0 then Inl (validation ''provider_ids'' ''must contain a complete priority group'')
      else
        let byID = foldl (\<lambda>m p. AList.update (pc_ID p) p m) [] providers in
        case select_loop byID 0 {} [] ids of
          Inl err \<Rightarrow> Inl err
        | Inr selected \<Rightarrow>
            let priority = pc_Priority (selected ! 0);
                count = length (filter (\<lambda>p. pc_Priority p = priority) providers)
            in if count \<noteq> length ids
               then Inl (validation ''provider_ids'' ''must include every provider in the priority group'')
               else Inr (fill_slots priority selected providers))"

section \<open>Lemmas on updates\<close>

lemma active_id_Normalize [simp]: "active_id (Config_Normalize c) = active_id c"
  by (simp add: active_id_def Config_Normalize_def Harnesses_Normalize_def ClaudeCode_Normalize_def Let_def)

lemma active_id_set [simp]: "active_id (set_active_id i c) = i"
  by (simp add: active_id_def set_active_id_def)

lemma set_active_id_same [simp]: "set_active_id (active_id c) c = c"
  by (simp add: active_id_def set_active_id_def)

lemma set_active_id_Normalize [simp]: "set_active_id (active_id c) (Config_Normalize c) = Config_Normalize c"
  using set_active_id_same [of "Config_Normalize c"] by simp

lemma set_active_id_twice [simp]: "set_active_id i (set_active_id j c) = set_active_id i c"
  by (simp add: set_active_id_def)

lemma Normalize_set_active_id: "Config_Normalize (set_active_id i c) = set_active_id i (Config_Normalize c)"
  by (simp add: set_active_id_def Config_Normalize_def Harnesses_Normalize_def ClaudeCode_Normalize_def Let_def)

lemma findProfile_Some: "findProfile ps i = Some p \<Longrightarrow> p \<in> set ps \<and> pr_ID p = i"
  by (induction ps) (auto split: if_splits)

lemma findProfile_None: "findProfile ps i = None \<longleftrightarrow> i \<notin> pr_ID ` set ps"
  by (induction ps) auto

lemma config_ok_clear: "config_ok env c \<Longrightarrow> config_ok env (set_active_id [] c)"
  by (simp add: config_ok_def claude_ok_def set_active_id_def)

text \<open>
  The inputs of an activation, read off two normalized configurations: the address and key
  the harness talks to, the file it is written to, and the models of the active profile.
  Display names, attempt limits and telemetry are not among them.
\<close>

definition activation_kept :: "Config \<Rightarrow> Config \<Rightarrow> bool" where
  "activation_kept current next \<longleftrightarrow>
     active_id current \<noteq> '''' \<and> active_id next \<in> {'''', active_id current} \<and>
     sv_ListenAddr (cfg_Service current) = sv_ListenAddr (cfg_Service next) \<and>
     au_GatewayKey (cfg_Auth current) = au_GatewayKey (cfg_Auth next) \<and>
     (let left = ha_ClaudeCode (cfg_Harnesses current); right = ha_ClaudeCode (cfg_Harnesses next) in
        cc_PathMode left = cc_PathMode right \<and>
        (cc_PathMode left = PathModeCustom \<longrightarrow> cc_SettingsPath left = cc_SettingsPath right) \<and>
        (\<exists>l r. findProfile (cc_Profiles left) (active_id current) = Some l \<and>
               findProfile (cc_Profiles right) (active_id current) = Some r \<and> same_models l r))"

lemma ActiveProfileChange_kept:
  "ActiveProfileChange current next \<noteq> ActiveInputsChanged \<longleftrightarrow>
     activation_kept (Config_Normalize current) (Config_Normalize next)"
proof -
  define C where "C = Config_Normalize current"
  define N where "N = Config_Normalize next"
  have a: "active_id (Config_Normalize current) = active_id C" "active_id (Config_Normalize next) = active_id N"
    by (simp_all add: C_def N_def)
  show ?thesis
    unfolding ActiveProfileChange_def activation_kept_def Let_def a C_def [symmetric] N_def [symmetric]
    by (auto split: option.splits if_splits)
qed

lemma ActiveProfileChange_Normalize:
  "ActiveProfileChange (Config_Normalize current) (Config_Normalize next) = ActiveProfileChange current next"
  by (simp add: ActiveProfileChange_def)

lemma prepareServerUpdate_eq:
  "prepareServerUpdate current next =
     set_active_id (if activation_kept (Config_Normalize current) (Config_Normalize next) then active_id current else '''')
       (Config_Normalize next)"
proof -
  have "activation_kept (Config_Normalize current) (Config_Normalize next) \<Longrightarrow> active_id current \<noteq> ''''"
    by (auto simp: activation_kept_def)
  then show ?thesis
    using ActiveProfileChange_kept [of current "next"]
    by (auto simp: prepareServerUpdate_def Let_def ActiveProfileChange_Normalize)
qed

lemma prepareServerUpdate_Normalize [simp]:
  "prepareServerUpdate (Config_Normalize current) (Config_Normalize next) = prepareServerUpdate current next"
  by (simp add: prepareServerUpdate_def)

lemma prepareServerUpdate_normal [simp]:
  "Config_Normalize (prepareServerUpdate current next) = prepareServerUpdate current next"
  by (simp add: prepareServerUpdate_eq Normalize_set_active_id)

lemma ApplyClientUpdate_eq:
  "ApplyClientUpdate env current next =
     (if active_id next \<noteq> '''' then Inl ErrActiveProfileReadOnly
      else case Config_Validate env (prepareServerUpdate current next) of
             Some err \<Rightarrow> Inl err | None \<Rightarrow> Inr (prepareServerUpdate current next))"
  by (simp add: ApplyClientUpdate_def Let_def)

text \<open>
  C36. A client update never chooses the active profile. If it carries one it is refused;
  otherwise the accepted configuration is valid, equals the normalized request but for the
  active profile, and keeps the current one exactly when the inputs of the activation are
  unchanged, dropping it otherwise.
\<close>

theorem ApplyClientUpdate_active:
  assumes "ApplyClientUpdate env current next = Inr result"
  shows "active_id next = '''' \<and> config_ok env result \<and>
    result = set_active_id (active_id result) (Config_Normalize next) \<and>
    active_id result =
      (if activation_kept (Config_Normalize current) (Config_Normalize next) then active_id current else '''')"
proof -
  have n: "active_id next = ''''" and v: "Config_Validate env (prepareServerUpdate current next) = None"
    and r: "result = prepareServerUpdate current next"
    using assms by (auto simp: ApplyClientUpdate_eq split: if_splits option.splits)
  have "config_ok env result" using v unfolding Config_Validate_None r by simp
  with n show ?thesis by (simp add: r prepareServerUpdate_eq)
qed

lemma ApplyClientRequest_round_trip:
  assumes "Config_Validate env c = None"
  shows "ApplyClientRequest env c (clientUpdateFromConfig c) = Inr (Config_Normalize c)"
proof -
  have ok: "config_ok env (Config_Normalize c)" using assms by (simp add: Config_Validate_None)
  have req: "configFromClientUpdate (clientUpdateFromConfig c) = set_active_id [] (Config_Normalize c)"
    by (simp add: configFromClientUpdate_def clientUpdateFromConfig_def set_active_id_def Let_def)
  have norm: "Config_Normalize (set_active_id [] (Config_Normalize c)) = set_active_id [] (Config_Normalize c)"
    by (simp add: Normalize_set_active_id)
  have kept: "activation_kept (Config_Normalize c) (set_active_id [] (Config_Normalize c))" if "active_id c \<noteq> []"
  proof -
    have "active_id c \<in> pr_ID ` set (cc_Profiles (ha_ClaudeCode (cfg_Harnesses (Config_Normalize c))))"
      using ok that active_id_Normalize [of c] by (auto simp: config_ok_def claude_ok_def active_id_def)
    then obtain p where "findProfile (cc_Profiles (ha_ClaudeCode (cfg_Harnesses (Config_Normalize c)))) (active_id c) = Some p"
      by (metis findProfile_None option.exhaust)
    with that show ?thesis by (simp add: activation_kept_def Let_def set_active_id_def same_models_def)
        (simp add: active_id_def)
  qed
  have drop: "\<not> activation_kept (Config_Normalize c) N" if "active_id c = []" for N
    using that by (simp add: activation_kept_def)
  have "prepareServerUpdate c (set_active_id [] (Config_Normalize c)) = Config_Normalize c"
    using kept drop set_active_id_Normalize [of c] by (cases "active_id c = []") (simp_all add: prepareServerUpdate_eq norm)
  then show ?thesis using assms by (simp add: ApplyClientRequest_def ApplyClientUpdate_eq req)
qed

text \<open>
  C37. Reading the configuration and writing it back unchanged is accepted and changes
  nothing, although the request object cannot carry the active profile.
\<close>

theorem client_update_round_trip:
  assumes "Config_Validate env c = None"
  shows "ApplyClientRequest env c (clientUpdateFromConfig c) = Inr (Config_Normalize c)"
  using assms by (rule ApplyClientRequest_round_trip)

text \<open>
  Activation: setting the active profile succeeds exactly on a valid configuration that
  has the profile (or on clearing it), and changes nothing else.
\<close>

theorem WithActiveProfileID_spec:
  assumes "Config_Validate env c = None"
  shows "WithActiveProfileID env c i = Inr r \<longleftrightarrow>
    (i = [] \<or> i \<in> pr_ID ` set (cc_Profiles (ha_ClaudeCode (cfg_Harnesses c)))) \<and>
    r = set_active_id i (Config_Normalize c) \<and> config_ok env r"
proof -
  let ?ps = "cc_Profiles (ha_ClaudeCode (cfg_Harnesses (Config_Normalize c)))"
  have ids: "pr_ID ` set ?ps = pr_ID ` set (cc_Profiles (ha_ClaudeCode (cfg_Harnesses c)))"
  proof -
    have "pr_ID (Profile_Normalize p) = pr_ID p" for p by (simp add: Profile_Normalize_def Let_def)
    then show ?thesis
      by (simp add: Config_Normalize_def Harnesses_Normalize_def ClaudeCode_Normalize_def Let_def image_image)
  qed
  have ok: "config_ok env (Config_Normalize c)" using assms by (simp add: Config_Validate_None)
  then have "list_all profile_ok ?ps" by (simp add: config_ok_def claude_ok_def)
  then have uuid: "isUUID i" if "i \<in> pr_ID ` set ?ps" using that by (rule profile_ok_uuid)
  have found: "findProfile ?ps i = None \<longleftrightarrow> i \<notin> pr_ID ` set ?ps" by (rule findProfile_None)
  have valid: "Config_Validate env (set_active_id i (Config_Normalize c)) = None \<longleftrightarrow>
      config_ok env (set_active_id i (Config_Normalize c))"
    by (simp add: Config_Validate_None Normalize_set_active_id)
  have same: "config_ok env (set_active_id i (Config_Normalize c))" if "i = [] \<or> i \<in> pr_ID ` set ?ps"
    using ok that by (auto simp: config_ok_def claude_ok_def set_active_id_def)
  let ?guard = "if i \<noteq> [] then
      checks [check (\<not> isUUID i) (validation ''harnesses.claude_code.active_profile_id'' ''must be a canonical UUID''),
              check (findProfile ?ps i = None)
                (validation ''harnesses.claude_code.active_profile_id'' ''must reference an existing profile'')]
      else None"
  have guard: "?guard = None \<longleftrightarrow> i = [] \<or> i \<in> pr_ID ` set ?ps" using uuid found by auto
  show ?thesis
    using guard valid same unfolding ids [symmetric] WithActiveProfileID_def Let_def
    by (cases ?guard) auto
qed

section \<open>Lemmas on reordering\<close>

lemma map_of_config_by_id:
  assumes "distinct (map pc_ID ps)"
  shows "map_of (foldl (\<lambda>m p. AList.update (pc_ID p) p m) [] ps) i = Some p \<longleftrightarrow> p \<in> set ps \<and> pc_ID p = i"
proof -
  have "map_of (foldl (\<lambda>m p. AList.update (pc_ID p) p m) acc ps) i = Some p \<longleftrightarrow>
      (p \<in> set ps \<and> pc_ID p = i) \<or> (i \<notin> pc_ID ` set ps \<and> map_of acc i = Some p)" for acc
    using assms by (induction ps arbitrary: acc) (auto simp: gomap_simps)
  then show ?thesis by simp
qed

text \<open>What the selection loop accepts and returns.\<close>

lemma select_loop_Inr:
  assumes "i = length selected"
  shows "select_loop byID i seen selected ids = Inr r \<longleftrightarrow>
    list_all isUUID ids \<and> distinct ids \<and> set ids \<inter> seen = {} \<and>
    (\<exists>new. r = selected @ new \<and> list_all2 (\<lambda>i p. map_of byID i = Some p) ids new \<and>
      (\<forall>p \<in> set new. pc_Priority p = pc_Priority (r ! 0)))"
  using assms
proof (induction ids arbitrary: i seen selected)
  case (Cons pid ids)
  show ?case
  proof (cases "isUUID pid \<and> pid \<notin> seen \<and> (\<exists>p. map_of byID pid = Some p)")
    case False
    then show ?thesis by (auto simp: Let_def list_all2_Cons1 split: option.splits)
  next
    case True
    then obtain p where p: "isUUID pid" "pid \<notin> seen" "map_of byID pid = Some p" by blast
    let ?bad = "i > 0 \<and> pc_Priority p \<noteq> pc_Priority (selected ! 0)"
    have step: "select_loop byID i seen selected (pid # ids) =
        (if ?bad then Inl (validation (''provider_ids['' @ Itoa (int i) @ '']'') ''all providers must share the same priority'')
         else select_loop byID (Suc i) (insert pid seen) (selected @ [p]) ids)"
      using p by (simp add: Let_def)
    have lead: "(selected @ p # new) ! 0 = (if selected = [] then p else selected ! 0)" for new
      by (simp add: nth_append)
    have new: "(\<exists>new. r = selected @ new \<and> list_all2 (\<lambda>i p. map_of byID i = Some p) (pid # ids) new \<and>
          (\<forall>q \<in> set new. pc_Priority q = pc_Priority (r ! 0))) \<longleftrightarrow>
        (\<exists>new. r = selected @ p # new \<and> list_all2 (\<lambda>i p. map_of byID i = Some p) ids new \<and> \<not> ?bad \<and>
          (\<forall>q \<in> set new. pc_Priority q = pc_Priority (r ! 0)))"
    proof (rule iffI; elim exE conjE)
      fix new assume n: "r = selected @ new" "list_all2 (\<lambda>i p. map_of byID i = Some p) (pid # ids) new"
        and q: "\<forall>q \<in> set new. pc_Priority q = pc_Priority (r ! 0)"
      from n(2) p(3) obtain new' where n': "new = p # new'" "list_all2 (\<lambda>i p. map_of byID i = Some p) ids new'"
        by (auto simp: list_all2_Cons1)
      have pp: "pc_Priority p = pc_Priority (r ! 0)" by (rule bspec [OF q]) (simp add: n'(1))
      have "\<not> ?bad"
      proof
        assume b: ?bad
        then have "r ! 0 = selected ! 0" using n(1) n'(1) lead [of new'] Cons.prems by simp
        with pp b show False by simp
      qed
      moreover have "\<forall>q \<in> set new'. pc_Priority q = pc_Priority (r ! 0)" using q n'(1) by (metis list.set_intros(2))
      ultimately show "\<exists>new. r = selected @ p # new \<and> list_all2 (\<lambda>i p. map_of byID i = Some p) ids new \<and> \<not> ?bad \<and>
          (\<forall>q \<in> set new. pc_Priority q = pc_Priority (r ! 0))" using n n' by blast
    next
      fix new assume n: "r = selected @ p # new" "list_all2 (\<lambda>i p. map_of byID i = Some p) ids new" "\<not> ?bad"
        and q: "\<forall>q \<in> set new. pc_Priority q = pc_Priority (r ! 0)"
      have "pc_Priority p = pc_Priority (r ! 0)" using n(1,3) lead [of new] Cons.prems by auto
      with q have "\<forall>q \<in> set (p # new). pc_Priority q = pc_Priority (r ! 0)" by (metis set_ConsD)
      moreover have "list_all2 (\<lambda>i p. map_of byID i = Some p) (pid # ids) (p # new)" using n(2) p(3) by simp
      ultimately show "\<exists>new. r = selected @ new \<and> list_all2 (\<lambda>i p. map_of byID i = Some p) (pid # ids) new \<and>
          (\<forall>q \<in> set new. pc_Priority q = pc_Priority (r ! 0))" using n(1) by blast
    qed
    show ?thesis
      unfolding step new using Cons.IH [of "Suc i" "selected @ [p]" "insert pid seen"] Cons.prems p by auto
  qed
qed auto

abbreviation tier :: "int \<Rightarrow> ProviderConfig list \<Rightarrow> ProviderConfig list" where
  "tier q \<equiv> filter (\<lambda>p. pc_Priority p = q)"

lemma fill_slots_spec:
  assumes "length selected = length (tier q ps)" and "list_all (\<lambda>p. pc_Priority p = q) selected"
  shows "length (fill_slots q selected ps) = length ps \<and> tier q (fill_slots q selected ps) = selected \<and>
    filter (\<lambda>p. pc_Priority p \<noteq> q) (fill_slots q selected ps) = filter (\<lambda>p. pc_Priority p \<noteq> q) ps \<and>
    (\<forall>k < length ps. pc_Priority (ps ! k) \<noteq> q \<longrightarrow> fill_slots q selected ps ! k = ps ! k)"
  using assms
proof (induction ps arbitrary: selected)
  case (Cons p ps)
  show ?case
  proof (cases "pc_Priority p = q")
    case True
    with Cons.prems(1) obtain s rest where sel: "selected = s # rest" by (cases selected) auto
    with Cons.prems True have "length rest = length (tier q ps)" "list_all (\<lambda>p. pc_Priority p = q) rest"
      "pc_Priority s = q" by auto
    with Cons.IH [of rest] True sel show ?thesis by (auto simp: nth_Cons split: nat.split)
  next
    case False
    with Cons.IH [of selected] Cons.prems show ?thesis by (auto simp: nth_Cons split: nat.split)
  qed
qed simp

lemma selected_group:
  assumes "distinct (map pc_ID ps)"
  shows "list_all2 (\<lambda>i p. map_of (foldl (\<lambda>m p. AList.update (pc_ID p) p m) [] ps) i = Some p) ids selected \<longleftrightarrow>
    map pc_ID selected = ids \<and> set selected \<subseteq> set ps"
  unfolding map_of_config_by_id [OF assms] by (induction selected arbitrary: ids) (auto simp: list_all2_Cons2)

lemma group_mset:
  assumes "distinct (map pc_ID ps)" and "set selected \<subseteq> set ps" and "distinct (map pc_ID selected)"
    and "list_all (\<lambda>p. pc_Priority p = q) selected" and "length selected = length (tier q ps)"
  shows "mset selected = mset (tier q ps)"
proof -
  have d: "distinct selected" "distinct (tier q ps)" using assms(1,3) by (simp_all add: distinct_map)
  have "set selected \<subseteq> set (tier q ps)" using assms(2,4) by (auto simp: list_all_iff)
  moreover have "card (set selected) = card (set (tier q ps))" using d assms(5) by (metis distinct_card)
  ultimately have "set selected = set (tier q ps)" by (intro card_subset_eq) simp_all
  with d show ?thesis using set_eq_iff_mset_eq_distinct by blast
qed

lemma ReorderProviders_Inr:
  assumes "distinct (map pc_ID ps)"
  shows "ReorderProviders ps ids = Inr r \<longleftrightarrow>
    ids \<noteq> [] \<and> list_all isUUID ids \<and> distinct ids \<and>
    (\<exists>q selected. map pc_ID selected = ids \<and> set selected \<subseteq> set ps \<and> list_all (\<lambda>p. pc_Priority p = q) selected \<and>
       length selected = length (tier q ps) \<and> r = fill_slots q selected ps)"
proof (cases "ids = []")
  case True
  then show ?thesis by (simp add: ReorderProviders_def)
next
  case False
  let ?by = "foldl (\<lambda>m p. AList.update (pc_ID p) p m) [] ps"
  have sel: "select_loop ?by 0 {} [] ids = Inr selected \<longleftrightarrow>
      list_all isUUID ids \<and> distinct ids \<and> map pc_ID selected = ids \<and> set selected \<subseteq> set ps \<and>
      list_all (\<lambda>p. pc_Priority p = pc_Priority (selected ! 0)) selected" for selected
    using select_loop_Inr [of 0 "[]" ?by "{}" ids selected] selected_group [OF assms, of ids selected]
    by (auto simp: list_all_iff)
  have "ReorderProviders ps ids = Inr r \<longleftrightarrow>
      (\<exists>selected. select_loop ?by 0 {} [] ids = Inr selected \<and>
         length (tier (pc_Priority (selected ! 0)) ps) = length ids \<and>
         r = fill_slots (pc_Priority (selected ! 0)) selected ps)"
    using False by (auto simp: ReorderProviders_def Let_def split: sum.split)
  also have "\<dots> \<longleftrightarrow> list_all isUUID ids \<and> distinct ids \<and>
    (\<exists>q selected. map pc_ID selected = ids \<and> set selected \<subseteq> set ps \<and> list_all (\<lambda>p. pc_Priority p = q) selected \<and>
       length selected = length (tier q ps) \<and> r = fill_slots q selected ps)" (is "?L \<longleftrightarrow> ?R")
  proof
    assume ?L
    then show ?R unfolding sel using length_map by metis
  next
    assume ?R
    then obtain q selected where r: "list_all isUUID ids" "distinct ids" "map pc_ID selected = ids"
      "set selected \<subseteq> set ps" "list_all (\<lambda>p. pc_Priority p = q) selected" "length selected = length (tier q ps)"
      "r = fill_slots q selected ps" by blast
    have "selected \<noteq> []" using r(3) False by auto
    then have "pc_Priority (selected ! 0) = q" using r(5) by (cases selected) auto
    with r show ?L unfolding sel by (intro exI [of _ selected]) auto
  qed
  finally show ?thesis using False by simp
qed

text \<open>
  C38. Reordering a priority group. On providers with distinct IDs a request succeeds exactly
  when it lists a whole priority group once, each ID being a UUID. The result is a permutation
  of the providers in which the slots of every other priority are untouched and the group
  appears in the requested order.
\<close>

theorem ReorderProviders_correct:
  assumes "distinct (map pc_ID ps)" and "list_all isUUID (map pc_ID ps)"
  shows "((\<exists>r. ReorderProviders ps ids = Inr r) \<longleftrightarrow>
       ids \<noteq> [] \<and> (\<exists>q. mset ids = mset (map pc_ID (tier q ps)))) \<and>
    (\<forall>r. ReorderProviders ps ids = Inr r \<longrightarrow>
       mset r = mset ps \<and>
       (\<exists>q. map pc_ID (tier q r) = ids \<and> (\<forall>k < length ps. pc_Priority (ps ! k) \<noteq> q \<longrightarrow> r ! k = ps ! k)))"
proof (intro conjI allI impI)
  show "(\<exists>r. ReorderProviders ps ids = Inr r) \<longleftrightarrow> ids \<noteq> [] \<and> (\<exists>q. mset ids = mset (map pc_ID (tier q ps)))"
  proof
    assume "\<exists>r. ReorderProviders ps ids = Inr r"
    then obtain q selected where "ids \<noteq> []" and g: "map pc_ID selected = ids" "set selected \<subseteq> set ps" "distinct ids"
      "list_all (\<lambda>p. pc_Priority p = q) selected" "length selected = length (tier q ps)"
      unfolding ReorderProviders_Inr [OF assms(1)] by blast
    moreover have "mset ids = mset (map pc_ID (tier q ps))"
      using group_mset [OF assms(1) g(2) _ g(4,5)] g(1,3) by (metis mset_map)
    ultimately show "ids \<noteq> [] \<and> (\<exists>q. mset ids = mset (map pc_ID (tier q ps)))" by blast
  next
    assume "ids \<noteq> [] \<and> (\<exists>q. mset ids = mset (map pc_ID (tier q ps)))"
    then obtain q where "ids \<noteq> []" and m: "mset ids = mset (map pc_ID (tier q ps))" by blast
    let ?g = "\<lambda>i. the (map_of (foldl (\<lambda>m p. AList.update (pc_ID p) p m) [] ps) i)"
    have g: "?g i \<in> set (tier q ps) \<and> pc_ID (?g i) = i" if "i \<in> set ids" for i
    proof -
      from that m have "i \<in> pc_ID ` set (tier q ps)" by (metis set_map set_mset_mset)
      then obtain p where p: "p \<in> set (tier q ps)" "pc_ID p = i" by blast
      with map_of_config_by_id [OF assms(1), of i p] have "?g i = p" by simp
      with p show ?thesis by simp
    qed
    have "distinct (map pc_ID (tier q ps))" using assms(1) by (rule distinct_map_filter)
    then have "distinct ids" using m by (metis mset_eq_imp_distinct_iff)
    moreover have "list_all isUUID ids" using g assms(2) by (fastforce simp: list_all_iff)
    moreover have "length (map ?g ids) = length (tier q ps)" using m by (metis length_map mset_eq_length)
    moreover have "map pc_ID (map ?g ids) = ids" "set (map ?g ids) \<subseteq> set ps"
      "list_all (\<lambda>p. pc_Priority p = q) (map ?g ids)"
      using g by (auto simp: list_all_iff comp_def intro!: map_idI)
    ultimately show "\<exists>r. ReorderProviders ps ids = Inr r"
      using \<open>ids \<noteq> []\<close> unfolding ReorderProviders_Inr [OF assms(1)] by blast
  qed
next
  fix r assume "ReorderProviders ps ids = Inr r"
  then obtain q selected where g: "map pc_ID selected = ids" "set selected \<subseteq> set ps" "distinct ids"
      "list_all (\<lambda>p. pc_Priority p = q) selected" "length selected = length (tier q ps)" and r: "r = fill_slots q selected ps"
    unfolding ReorderProviders_Inr [OF assms(1)] by blast
  note spec = fill_slots_spec [OF g(5,4), folded r]
  have "mset selected = mset (tier q ps)" using group_mset [OF assms(1) g(2) _ g(4,5)] g(1,3) by simp
  then have "mset (tier q r) = mset (tier q ps)" using spec by simp
  moreover have "mset (filter (\<lambda>p. pc_Priority p \<noteq> q) r) = mset (filter (\<lambda>p. pc_Priority p \<noteq> q) ps)" using spec by simp
  ultimately show "mset r = mset ps" by (metis mset_filter multiset_partition)
  show "\<exists>q. map pc_ID (tier q r) = ids \<and> (\<forall>k < length ps. pc_Priority (ps ! k) \<noteq> q \<longrightarrow> r ! k = ps ! k)"
    using spec g(1) by blast
qed

section \<open>A concrete configuration\<close>

definition example_env :: go_env where
  "example_env = \<lparr> url_Parse = (\<lambda>_. None), filepath_IsAbs = (\<lambda>p. take 1 p = ''/''), strconv_Quote = (\<lambda>s. s) \<rparr>"

definition example_uuid :: "char \<Rightarrow> string" where
  "example_uuid c = ''0000000'' @ [c] @ ''-0000-0000-0000-000000000000''"

definition example_profile :: Profile where
  "example_profile =
     \<lparr> pr_ID = example_uuid CHR ''a'', pr_Name = ''main'', pr_HaikuModel = ''h'', pr_SonnetModel = ''s'',
       pr_OpusModel = ''o'', pr_FableModel = ''f'', pr_SubagentModel = '''', pr_TeammateDefaultModel = '''',
       pr_MaxAttempts = 3, pr_StickyNoCooldownAttempts = 1 \<rparr>"

definition example_config :: Config where
  "example_config =
     Config_Default
       \<lparr>cfg_Auth := \<lparr> au_GatewayKey = '''', au_ManagementKey = ''key'' \<rparr>,
         cfg_Harnesses := \<lparr> ha_ClaudeCode = DefaultClaudeCodeConfig
           \<lparr>cc_ActiveProfileID := example_uuid CHR ''a'', cc_Profiles := [example_profile]\<rparr> \<rparr>\<rparr>"

definition example_members :: "ProviderConfig list" where
  "example_members =
     map (\<lambda>(c, q). \<lparr> pc_ID = example_uuid c, pc_Name = [c], pc_BaseURL = ''u'', pc_APIKey = ''k'', pc_Models = [],
            pc_Priority = q, pc_Enabled = True, pc_UseXAPIKey = False,
            pc_TLS = \<lparr> tls_Mode = ''system'', tls_CAFile = '''' \<rparr>, pc_Patches = [], pc_DisableHealth = False \<rparr>)
       [(CHR ''a'', 5), (CHR ''b'', 1), (CHR ''c'', 5)]"

lemma example_uuid_ok: "isUUID (example_uuid CHR ''a'')" "isUUID (example_uuid CHR ''b'')" "isUUID (example_uuid CHR ''c'')"
  by code_simp+

lemma example_profile_ok: "profile_ok example_profile"
proof -
  have "ValidString ''main''" "ValidString ''h''" "ValidString ''s''" "ValidString ''o''" "ValidString ''f''" by code_simp+
  moreover have "TrimSpace ''main'' = ''main''" by code_simp
  moreover have "\<not> containsControl ''main''" "\<not> containsControl ''h''" "\<not> containsControl ''s''"
    "\<not> containsControl ''o''" "\<not> containsControl ''f''" by code_simp+
  ultimately show ?thesis using example_uuid_ok
    by (simp add: profile_ok_def example_profile_def attempts_ok_def MaxSafeAttempts_def classifier_ok_def name_ok_def
        MaxBytes_def flip: ValidString_valid_utf8)
qed

lemma example_config_valid: "Config_Validate example_env example_config = None"
proof -
  have "runes ''key'' = [107, 101, 121]" by (subst runes_ascii) (simp_all add: byte_def)
  moreover have "TrimSpace ''key'' \<noteq> []" by code_simp
  ultimately have key: "credential_ok True ''key''" by (simp add: credential_ok_def IsSpace_def IsControl_def)
  have "Config_Normalize example_config = example_config"
    by (simp add: example_config_def Config_Default_def Config_Normalize_def AutoMode_Normalize_def Harnesses_Normalize_def
        ClaudeCode_Normalize_def Profile_Normalize_def DefaultClaudeCodeConfig_def example_profile_def mode_defs Let_def)
  moreover have "config_ok example_env example_config"
    using Default_ok [OF key, of example_env] example_profile_ok key credential_empty
    by (simp add: config_ok_def Config_Default_def example_config_def claude_ok_def DefaultClaudeCodeConfig_def mode_defs
        example_profile_def)
  ultimately show ?thesis by (simp add: Config_Validate_None)
qed

theorem client_update_round_trip_witness:
  "Config_Validate example_env example_config = None \<and> active_id example_config \<noteq> [] \<and>
   ApplyClientRequest example_env example_config (clientUpdateFromConfig example_config)
     = Inr (Config_Normalize example_config)"
  using client_update_round_trip [OF example_config_valid] example_config_valid
  by (simp add: active_id_def example_config_def DefaultClaudeCodeConfig_def example_uuid_def)

theorem WithActiveProfileID_spec_witness:
  "WithActiveProfileID example_env example_config [] = Inr (set_active_id [] (Config_Normalize example_config))"
  unfolding WithActiveProfileID_spec [OF example_config_valid]
proof (intro conjI)
  have "config_ok example_env (Config_Normalize example_config)"
    using example_config_valid by (simp add: Config_Validate_None)
  then show "config_ok example_env (set_active_id [] (Config_Normalize example_config))" by (rule config_ok_clear)
qed simp_all

theorem ApplyClientUpdate_active_witness:
  "\<exists>result. ApplyClientUpdate example_env example_config (set_active_id [] example_config) = Inr result \<and>
     config_ok example_env result"
proof -
  define n where "n = set_active_id [] example_config"
  have ok: "config_ok example_env (Config_Normalize example_config)"
    using example_config_valid by (simp add: Config_Validate_None)
  have "\<exists>i. prepareServerUpdate example_config n = set_active_id i (Config_Normalize example_config) \<and>
      i \<in> {[], active_id example_config}"
    by (intro exI [of _ "active_id (prepareServerUpdate example_config n)"])
      (simp add: prepareServerUpdate_eq n_def Normalize_set_active_id)
  moreover have "config_ok example_env (set_active_id i (Config_Normalize example_config))"
    if "i \<in> {[], active_id example_config}" for i
    using that config_ok_clear [OF ok] ok by auto
  ultimately have "Config_Validate example_env (prepareServerUpdate example_config n) = None"
    using ok by (auto simp: Config_Validate_None)
  then have "ApplyClientUpdate example_env example_config n = Inr (prepareServerUpdate example_config n)"
    by (simp add: ApplyClientUpdate_eq n_def)
  with ApplyClientUpdate_active [OF this] show ?thesis unfolding n_def by blast
qed

theorem ReorderProviders_correct_witness:
  "\<exists>r. ReorderProviders example_members [example_uuid CHR ''c'', example_uuid CHR ''a''] = Inr r \<and> mset r = mset example_members"
proof -
  have d: "distinct (map pc_ID example_members)" "list_all isUUID (map pc_ID example_members)"
    using example_uuid_ok by (simp_all add: example_members_def, simp add: example_uuid_def)
  have "\<exists>q. mset [example_uuid CHR ''c'', example_uuid CHR ''a''] = mset (map pc_ID (tier q example_members))"
    by (intro exI [of _ 5]) (simp add: example_members_def)
  with ReorderProviders_correct [OF d, of "[example_uuid CHR ''c'', example_uuid CHR ''a'']"] show ?thesis by blast
qed

end
