(* ===== verification/Provider_Compile.thy ===== *)
theory Provider_Compile
  imports Config_Update
begin

text \<open>
  Compilation of the configured providers into the catalog (\<open>internal/provider/compile.go\<close>,
  \<open>internal/provider/generation.go\<close>). What the compiler needs of other parts is a parameter
  of the environment: loading a CA file, the patch registry (the metadata a list of patch ids
  compiles to, its validation for classifier requests and the check that the registry has the
  services it needs, \<open>RuntimeContext.Validate\<close>) and the SHA-256 fingerprint of the
  JSON encoding of an identity.
\<close>

section \<open>Generations\<close>

record generation_identity =
  gi_BaseURL :: string
  gi_APIKey :: string
  gi_UseXAPIKey :: bool
  gi_TLS :: EffectiveTLS
  gi_Patches :: "string list"

record fixed_identity =
  fi_BaseURL :: string
  fi_APIKey :: string
  fi_UseXAPIKey :: bool
  fi_TLS :: EffectiveTLS
  fi_Patches :: "string list"
  fi_ClassifierModel :: string
  fi_Protocol :: string

text \<open>An error \<open>WrapError prefix e\<close> is \<open>fmt.Errorf("prefix: %w", e)\<close>.\<close>

datatype compile_error =
  SchemaError config_error
| CompileError string
| WrapError string compile_error

fun compile_error_text :: "compile_error \<Rightarrow> string" where
  "compile_error_text (SchemaError e) = Error_text e"
| "compile_error_text (CompileError t) = t"
| "compile_error_text (WrapError prefix e) = prefix @ '': '' @ compile_error_text e"

record compile_env =
  ce_go :: go_env
  ce_contextError :: "string option"
  ce_loadCA :: "string \<Rightarrow> string option"
  ce_registryCompile :: "string list \<Rightarrow> RequestType option \<Rightarrow> string + string list"
  ce_registryValidate :: "string list \<Rightarrow> RequestType \<Rightarrow> string option"
  ce_hash :: "generation_identity \<Rightarrow> ProviderGeneration"
  ce_hashFixed :: "fixed_identity \<Rightarrow> ProviderGeneration"

definition generation_of :: "ProviderConfig \<Rightarrow> generation_identity" where
  "generation_of input =
     \<lparr> gi_BaseURL = pc_BaseURL input, gi_APIKey = pc_APIKey input, gi_UseXAPIKey = pc_UseXAPIKey input,
       gi_TLS = TLS_Effective (pc_TLS input), gi_Patches = pc_Patches input \<rparr>"

definition generationFor :: "compile_env \<Rightarrow> ProviderConfig \<Rightarrow> ProviderGeneration" where
  "generationFor env input = ce_hash env (generation_of input)"

definition fixedGenerationFor :: "compile_env \<Rightarrow> FixedProviderConfig \<Rightarrow> string \<Rightarrow> ProviderGeneration" where
  "fixedGenerationFor env input classifierModel =
     ce_hashFixed env
       \<lparr> fi_BaseURL = fp_BaseURL input, fi_APIKey = fp_APIKey input, fi_UseXAPIKey = fp_UseXAPIKey input,
         fi_TLS = TLS_Effective (fp_TLS input), fi_Patches = fp_Patches input,
         fi_ClassifierModel = classifierModel, fi_Protocol = fp_Protocol input \<rparr>"

section \<open>Compiling one target\<close>

definition compileTLS :: "compile_env \<Rightarrow> TLSConfig \<Rightarrow> compile_error option" where
  "compileTLS env input =
     (case TLS_Validate input ''tls'' of
        Some err \<Rightarrow> Some (SchemaError err)
      | None \<Rightarrow>
          let effective = TLS_Effective input in
          if et_CAFile effective = '''' then None
          else map_option CompileError (ce_loadCA env (et_CAFile effective)))"

text \<open>The schema check that wraps the inputs in an otherwise valid configuration.\<close>

definition wrapped :: "string \<Rightarrow> ProviderConfig list \<Rightarrow> Config" where
  "wrapped key inputs =
     Config_Default\<lparr>cfg_Auth := (cfg_Auth Config_Default)\<lparr>au_ManagementKey := key\<rparr>, cfg_Providers := inputs\<rparr>"

definition compileWithRegistry :: "compile_env \<Rightarrow> ProviderConfig \<Rightarrow> compile_error + CompiledProvider" where
  "compileWithRegistry env input =
     (let input = input\<lparr>pc_TLS := TLS_Normalize (pc_TLS input)\<rparr> in
      case Config_Validate (ce_go env) (wrapped ''provider-compiler-validation-key'' [input]) of
        Some err \<Rightarrow> Inl (SchemaError err)
      | None \<Rightarrow>
        case url_Parse (ce_go env) (pc_BaseURL input) of
          Some err \<Rightarrow> Inl (WrapError ''base_url'' (CompileError err))
        | None \<Rightarrow>
          case compileTLS env (pc_TLS input) of
            Some err \<Rightarrow> Inl (WrapError ''tls'' err)
          | None \<Rightarrow>
            case ce_registryCompile env (pc_Patches input) None of
              Inl err \<Rightarrow> Inl (CompileError err)
            | Inr patches \<Rightarrow>
                Inr \<lparr> cp_ID = pc_ID input, cp_BaseURL = pc_BaseURL input, cp_APIKey = pc_APIKey input,
                      cp_UseXAPIKey = pc_UseXAPIKey input, cp_Protocol = ProtocolAnthropicMessages,
                      cp_Generation = generationFor env input, cp_Name = pc_Name input, cp_Models = pc_Models input,
                      cp_Priority = pc_Priority input, cp_Enabled = pc_Enabled input, cp_Patches = patches,
                      cp_DisableHealth = pc_DisableHealth input, cp_HealthEpoch = 0,
                      cp_modelSet = set (pc_Models input) \<rparr>)"

record CompiledFixedTarget =
  ft_ID :: string
  ft_BaseURL :: string
  ft_APIKey :: string
  ft_UseXAPIKey :: bool
  ft_Protocol :: string
  ft_TLSSettings :: TLSConfig
  ft_Patches :: "string list"
  ft_Generation :: ProviderGeneration

definition FixedTargetID :: string where "FixedTargetID = ''auto-mode-fixed-provider''"

definition validateFixedTargetInput :: "compile_env \<Rightarrow> FixedProviderConfig \<Rightarrow> string \<Rightarrow> config_error option" where
  "validateFixedTargetInput env input classifierModel =
     checks [FixedProvider_Validate (ce_go env) input,
             AutoMode_Validate (ce_go env)
               \<lparr> am_Mode = AutoModeProviderPool, am_Model = classifierModel, am_FixedProvider = None \<rparr>]"

definition CompileFixedTarget ::
  "compile_env \<Rightarrow> FixedProviderConfig \<Rightarrow> string \<Rightarrow> compile_error + CompiledFixedTarget" where
  "CompileFixedTarget env input classifierModel =
     (let input = FixedProvider_Normalize input in
      case ce_contextError env of
        Some err \<Rightarrow> Inl (CompileError err)
      | None \<Rightarrow>
      case validateFixedTargetInput env input classifierModel of
        Some err \<Rightarrow> Inl (SchemaError err)
      | None \<Rightarrow>
        case url_Parse (ce_go env) (fp_BaseURL input) of
          Some err \<Rightarrow> Inl (WrapError ''base_url'' (CompileError err))
        | None \<Rightarrow>
          case compileTLS env (fp_TLS input) of
            Some err \<Rightarrow> Inl (WrapError ''tls'' err)
          | None \<Rightarrow>
            case ce_registryCompile env (fp_Patches input) (Some RequestTypeClassifier) of
              Inl err \<Rightarrow> Inl (CompileError err)
            | Inr patches \<Rightarrow>
                Inr \<lparr> ft_ID = FixedTargetID, ft_BaseURL = fp_BaseURL input, ft_APIKey = fp_APIKey input,
                      ft_UseXAPIKey = fp_UseXAPIKey input, ft_Protocol = fp_Protocol input,
                      ft_TLSSettings = fp_TLS input, ft_Patches = patches,
                      ft_Generation = fixedGenerationFor env input classifierModel \<rparr>)"

definition CompileAutoModeTarget ::
  "compile_env \<Rightarrow> AutoModeConfig \<Rightarrow> compile_error + CompiledFixedTarget option" where
  "CompileAutoModeTarget env auto =
     (let auto = AutoMode_Normalize auto in
      case AutoMode_Validate (ce_go env) auto of
        Some err \<Rightarrow> Inl (SchemaError err)
      | None \<Rightarrow>
          if am_Mode auto \<noteq> AutoModeFixedProvider then
            (case am_FixedProvider auto of
               None \<Rightarrow> Inr None
             | Some fixed \<Rightarrow>
                 (case ce_registryValidate env (fp_Patches fixed) RequestTypeClassifier of
                    Some err \<Rightarrow> Inl (CompileError err)
                  | None \<Rightarrow> Inr None))
          else
            (case am_FixedProvider auto of
               None \<Rightarrow> Inl (CompileError ''auto_mode.fixed_provider is required'')
             | Some fixed \<Rightarrow> map_sum (\<lambda>e. e) Some (CompileFixedTarget env fixed (am_Model auto))))"

section \<open>The catalog\<close>

fun compile_loop :: "compile_env \<Rightarrow> CompiledProvider list \<Rightarrow> ProviderConfig list \<Rightarrow> compile_error + CompiledProvider list" where
  "compile_loop env acc [] = Inr acc"
| "compile_loop env acc (input # inputs) =
     (case compileWithRegistry env input of
        Inl err \<Rightarrow> Inl (WrapError (''provider '' @ strconv_Quote (ce_go env) (pc_ID input)) err)
      | Inr compiled \<Rightarrow> compile_loop env (acc @ [compiled]) inputs)"

definition CompileCatalog :: "compile_env \<Rightarrow> ProviderConfig list \<Rightarrow> compile_error + Catalog" where
  "CompileCatalog env inputs =
     (case ce_contextError env of
        Some err \<Rightarrow> Inl (CompileError err)
      | None \<Rightarrow>
      case Config_Validate (ce_go env) (wrapped ''provider-catalog-validation-key'' inputs) of
        Some err \<Rightarrow> Inl (SchemaError err)
      | None \<Rightarrow> map_sum (\<lambda>e. e) buildCatalog (compile_loop env [] inputs))"

section \<open>Lemmas\<close>

text \<open>What compiling a provider makes of its configuration.\<close>

definition compiled_from :: "compile_env \<Rightarrow> ProviderConfig \<Rightarrow> CompiledProvider \<Rightarrow> bool" where
  "compiled_from env input p \<longleftrightarrow>
     cp_ID p = pc_ID input \<and> cp_Name p = pc_Name input \<and> cp_BaseURL p = pc_BaseURL input \<and>
     cp_APIKey p = pc_APIKey input \<and> cp_UseXAPIKey p = pc_UseXAPIKey input \<and> cp_Protocol p = ProtocolAnthropicMessages \<and>
     cp_Models p = pc_Models input \<and> cp_modelSet p = set (pc_Models input) \<and> cp_Priority p = pc_Priority input \<and>
     cp_Enabled p = pc_Enabled input \<and> cp_DisableHealth p = pc_DisableHealth input \<and> cp_HealthEpoch p = 0 \<and>
     cp_Generation p = generationFor env input \<and> ce_registryCompile env (pc_Patches input) None = Inr (cp_Patches p)"

lemma TLS_Effective_Normalize [simp]: "TLS_Effective (TLS_Normalize t) = TLS_Effective t"
  by (simp add: TLS_Effective_def)

lemma generation_of_Normalize [simp]:
  "generation_of (p\<lparr>pc_TLS := TLS_Normalize (pc_TLS p)\<rparr>) = generation_of p"
  by (simp add: generation_of_def)

lemma compileWithRegistry_from: "compileWithRegistry env input = Inr p \<Longrightarrow> compiled_from env input p"
  by (auto simp: compileWithRegistry_def Let_def compiled_from_def generationFor_def split: option.splits sum.splits)

lemma compile_loop_Inr:
  "compile_loop env acc inputs = Inr r \<Longrightarrow> \<exists>new. r = acc @ new \<and> list_all2 (compiled_from env) inputs new"
proof (induction inputs arbitrary: acc)
  case (Cons input inputs)
  then obtain p where p: "compileWithRegistry env input = Inr p" "compile_loop env (acc @ [p]) inputs = Inr r"
    by (auto split: sum.splits)
  from Cons.IH [OF p(2)] obtain new where "r = (acc @ [p]) @ new" "list_all2 (compiled_from env) inputs new" by blast
  with compileWithRegistry_from [OF p(1)] show ?case by (intro exI [of _ "p # new"]) simp
qed simp

lemma compiled_IDs: "list_all2 (compiled_from env) inputs ps \<Longrightarrow> map cp_ID ps = map pc_ID inputs"
  by (induction rule: list_all2_induct) (auto simp: compiled_from_def)

lemma wrapped_ok:
  assumes "Config_Validate (ce_go env) (wrapped key inputs) = None"
  shows "distinct (map pc_ID inputs)" and "distinct (map pc_Name inputs)"
    and "\<forall>p \<in> set inputs. distinct (pc_Models p) \<and> (pc_Enabled p \<and> pc_Models p \<noteq> [] \<longrightarrow> TrimSpace (pc_APIKey p) \<noteq> [])"
proof -
  let ?ps = "map (\<lambda>p. p\<lparr>pc_TLS := TLS_Normalize (pc_TLS p)\<rparr>) inputs"
  have ok: "config_ok (ce_go env) (Config_Normalize (wrapped key inputs))" using assms by (simp add: Config_Validate_None)
  have ps: "cfg_Providers (Config_Normalize (wrapped key inputs)) = ?ps" by (simp add: wrapped_def Config_Normalize_def)
  from ok ps have "distinct (map pc_ID ?ps)" "distinct (map pc_Name ?ps)" "list_all (provider_ok (ce_go env)) ?ps"
    by (simp_all add: config_ok_def del: map_map list.map_comp)
  then show "distinct (map pc_ID inputs)" "distinct (map pc_Name inputs)"
    "\<forall>p \<in> set inputs. distinct (pc_Models p) \<and> (pc_Enabled p \<and> pc_Models p \<noteq> [] \<longrightarrow> TrimSpace (pc_APIKey p) \<noteq> [])"
    by (simp_all add: comp_def list_all_iff provider_ok_def credential_ok_def)
qed

lemma CompileCatalog_Inr:
  assumes "CompileCatalog env inputs = Inr cat"
  shows "\<exists>ps. cat = buildCatalog ps \<and> list_all2 (compiled_from env) inputs ps"
    and "Config_Validate (ce_go env) (wrapped ''provider-catalog-validation-key'' inputs) = None"
proof -
  from assms show v: "Config_Validate (ce_go env) (wrapped ''provider-catalog-validation-key'' inputs) = None"
    by (auto simp: CompileCatalog_def split: option.splits)
  then obtain ps where "compile_loop env [] inputs = Inr ps" "cat = buildCatalog ps"
    using assms by (cases "compile_loop env [] inputs") (auto simp: CompileCatalog_def split: option.splits)
  with compile_loop_Inr [of env "[]" inputs ps] show "\<exists>ps. cat = buildCatalog ps \<and> list_all2 (compiled_from env) inputs ps"
    by auto
qed

section \<open>Routing candidates\<close>

lemma insort_key_map: "insort_key f (g x) (map g xs) = map g (insort_key (\<lambda>x. f (g x)) x xs)"
  by (induction xs) auto

lemma sort_key_map: "sort_key f (map g xs) = map g (sort_key (\<lambda>x. f (g x)) xs)"
  by (induction xs) (auto simp: insort_key_map)

lemma stable_sort_desc_map: "stable_sort_desc f (map g xs) = map g (stable_sort_desc (\<lambda>x. f (g x)) xs)"
  by (simp add: stable_sort_desc_def sort_key_map)

lemma insort_key_cong: "\<forall>y \<in> insert x (set xs). f y = g y \<Longrightarrow> insort_key f x xs = insort_key g x xs"
  by (induction xs) auto

lemma stable_sort_desc_cong:
  assumes "\<forall>x \<in> set xs. f x = g x"
  shows "stable_sort_desc f xs = stable_sort_desc g xs"
  unfolding stable_sort_desc_def using assms by (induction xs) (auto intro!: insort_key_cong)

text \<open>The hand-written insertion sort is the stable sort of the library.\<close>

lemma shift_left_mset [simp]: "mset (shift_left x xs) = add_mset x (mset xs)"
  by (induction xs) auto

lemma priority_sort_from_mset: "mset (priority_sort_from acc xs) = mset acc + mset xs"
  by (induction xs arbitrary: acc) auto

lemma stablePrioritySort_eq: "stablePrioritySort xs = stable_sort_desc cp_Priority xs"
proof -
  have "sort_key (\<lambda>p. - cp_Priority p) xs = stablePrioritySort xs"
  proof (rule properties_for_sort_key)
    show "mset (stablePrioritySort xs) = mset xs" by (simp add: stablePrioritySort_def priority_sort_from_mset)
    show "filter (\<lambda>p. - cp_Priority k = - cp_Priority p) (stablePrioritySort xs) = filter (\<lambda>p. - cp_Priority k = - cp_Priority p) xs" for k
      using priority_sort_from_spec(3) [of "[]" "cp_Priority k" xs] unfolding stablePrioritySort_def
      by (simp add: eq_commute [of "cp_Priority k"])
    show "sorted (map (\<lambda>p. - cp_Priority p) (stablePrioritySort xs))"
      using priority_sort_from_spec(1) [of "[]" xs] unfolding stablePrioritySort_def by (simp add: sorted_wrt_map)
  qed
  then show ?thesis by (simp add: stable_sort_desc_def)
qed

text \<open>
  C40. From the configuration to the routing candidates: when the configured providers compile,
  the candidates of a model correspond one to one, in order, to the enabled providers that list
  it, in descending priority and in configuration order within a priority; each candidate has
  the identity, address, credentials, protocol, models, priority, patches and health setting of
  its own configuration and the generation computed from it, no two share an ID, and each has an
  API key.
\<close>

theorem CompileCatalog_candidates:
  assumes "CompileCatalog env inputs = Inr cat"
  shows "list_all2 (compiled_from env)
      (stable_sort_desc pc_Priority (filter (\<lambda>p. pc_Enabled p \<and> m \<in> set (pc_Models p)) inputs)) (Match cat m) \<and>
    distinct (map cp_ID (Match cat m)) \<and> (\<forall>p \<in> set (Match cat m). TrimSpace (cp_APIKey p) \<noteq> [])"
proof -
  from CompileCatalog_Inr [OF assms] obtain ps where cat: "cat = buildCatalog ps"
    and from_: "list_all2 (compiled_from env) inputs ps"
    and v: "Config_Validate (ce_go env) (wrapped ''provider-catalog-validation-key'' inputs) = None" by blast
  note ok = wrapped_ok [OF v]
  define zs where "zs = zip inputs ps"
  have z: "map fst zs = inputs" "map snd zs = ps" "\<forall>z \<in> set zs. compiled_from env (fst z) (snd z)"
    using from_ by (auto simp: zs_def list_all2_iff)
  let ?on = "\<lambda>p. cp_Enabled p \<and> m \<in> set (cp_Models p)"
  let ?ion = "\<lambda>p. pc_Enabled p \<and> m \<in> set (pc_Models p)"
  have d: "\<forall>p \<in> set ps. distinct (cp_Models p)"
    using ok(3) z by (fastforce simp: compiled_from_def simp flip: z(1,2))
  have match: "Match cat m = stable_sort_desc cp_Priority (filter ?on ps)"
    unfolding cat Match_buildCatalog [OF d] stablePrioritySort_eq ..
  define fz where "fz = filter (\<lambda>z. ?ion (fst z)) zs"
  have fz: "\<forall>z \<in> set fz. compiled_from env (fst z) (snd z)" using z(3) by (simp add: fz_def)
  have same: "filter (\<lambda>z. ?on (snd z)) zs = fz"
    unfolding fz_def by (rule filter_cong) (use z(3) in \<open>auto simp: compiled_from_def\<close>)
  have on: "filter ?on ps = map snd fz" "filter ?ion inputs = map fst fz"
    using same by (simp_all add: fz_def filter_map comp_def flip: z(1,2))
  define sz where "sz = stable_sort_desc (\<lambda>z. pc_Priority (fst z)) fz"
  have sz: "set sz = set fz" by (simp add: sz_def)
  have "Match cat m = map snd sz"
    unfolding match on stable_sort_desc_map sz_def
    by (rule arg_cong [where f = "map snd"], rule stable_sort_desc_cong) (use fz in \<open>auto simp: compiled_from_def\<close>)
  moreover have srt: "stable_sort_desc pc_Priority (filter ?ion inputs) = map fst sz"
    unfolding on stable_sort_desc_map sz_def ..
  moreover have "list_all2 (compiled_from env) (map fst sz) (map snd sz)"
    using fz sz by (auto simp: list_all2_iff zip_map_fst_snd)
  moreover have "map cp_ID (map snd sz) = map pc_ID (map fst sz)" using fz sz by (simp add: compiled_from_def)
  moreover have "distinct (map pc_ID (map fst sz))"
  proof -
    have "distinct (map pc_ID (filter ?ion inputs))" using ok(1) by (rule distinct_map_filter)
    then have "distinct (map pc_ID (stable_sort_desc pc_Priority (filter ?ion inputs)))"
      by (simp add: stable_sort_desc_def distinct_map)
    then show ?thesis unfolding srt .
  qed
  moreover have "TrimSpace (cp_APIKey p) \<noteq> []" if "p \<in> set (map snd sz)" for p
  proof -
    from that obtain z where zz: "z \<in> set fz" "p = snd z" using sz by auto
    then have "fst z \<in> set inputs" "?ion (fst z)" by (auto simp: fz_def simp flip: z(1))
    with ok(3) have "TrimSpace (pc_APIKey (fst z)) \<noteq> []" by fastforce
    with fz zz show ?thesis by (simp add: compiled_from_def)
  qed
  ultimately show ?thesis by metis
qed

section \<open>A concrete catalog\<close>

definition plain :: "string \<Rightarrow> bool" where
  "plain v \<longleftrightarrow> v \<noteq> [] \<and> list_all (\<lambda>c. 33 \<le> byte c \<and> byte c < 127) v"

lemma leading_plain:
  assumes "\<forall>r \<in> set rs. r = [] \<or> \<not> (33 \<le> byte (hd r) \<and> byte (hd r) < 127)" and "list_all (\<lambda>c. 33 \<le> byte c \<and> byte c < 127) v"
  shows "leading rs v = None"
proof -
  have "take (length r) v \<noteq> r" if r: "r \<in> set rs" "r \<noteq> []" for r
  proof
    assume t: "take (length r) v = r"
    with r(2) have "v \<noteq> []" by auto
    then have "hd r = hd v" using t r(2) by (metis hd_take length_greater_0_conv)
    moreover have "33 \<le> byte (hd v) \<and> byte (hd v) < 127" using assms(2) \<open>v \<noteq> []\<close> by (cases v) auto
    ultimately show False using assms(1) r by metis
  qed
  then show ?thesis by (auto simp: leading_def find_None_iff)
qed

lemma TrimSpace_plain:
  assumes "plain v"
  shows "TrimSpace v = v"
proof -
  have a: "\<forall>r \<in> set space_runes. r = [] \<or> \<not> (33 \<le> byte (hd r) \<and> byte (hd r) < 127)"
    "\<forall>r \<in> set (map rev space_runes). r = [] \<or> \<not> (33 \<le> byte (hd r) \<and> byte (hd r) < 127)"
    by (simp_all add: space_runes_def byte_def)
  have p: "list_all (\<lambda>c. 33 \<le> byte c \<and> byte c < 127) v" "list_all (\<lambda>c. 33 \<le> byte c \<and> byte c < 127) (rev v)"
    using assms by (simp_all add: plain_def)
  show ?thesis
    unfolding TrimSpace_def
    by (subst (2) trim_leading.simps, subst trim_leading.simps)
      (simp add: leading_plain [OF a(1) p(1)] leading_plain [OF a(2) p(2)])
qed

lemma credential_plain: "plain v \<Longrightarrow> credential_ok required v"
proof -
  assume p: "plain v"
  then have r: "runes v = map byte v" by (intro runes_ascii) (auto simp: plain_def list_all_iff)
  have "\<not> IsSpace (byte c) \<and> \<not> IsControl (byte c)" if "33 \<le> byte c" "byte c < 127" for c
    using that by (auto simp: IsSpace_def IsControl_def)
  then have "list_all (\<lambda>r. \<not> IsSpace r \<and> \<not> IsControl r) (runes v)"
    using p by (auto simp: r plain_def list_all_iff)
  with TrimSpace_plain [OF p] p show ?thesis by (simp add: credential_ok_def plain_def)
qed

lemma plain_no_control: "plain v \<Longrightarrow> \<not> containsControl v"
  using credential_plain [of v False] by (auto simp: credential_ok_def containsControl_def IndexFunc_nonneg_def list_all_iff list_ex_iff)

definition example_inputs :: "ProviderConfig list" where
  "example_inputs = map (\<lambda>p. p\<lparr>pc_Models := [''m'']\<rparr>) example_members"

definition example_compile_env :: compile_env where
  "example_compile_env =
     \<lparr> ce_go = example_env, ce_contextError = None, ce_loadCA = (\<lambda>_. None), ce_registryCompile = (\<lambda>ids _. Inr ids),
       ce_registryValidate = (\<lambda>_ _. None), ce_hash = gi_BaseURL, ce_hashFixed = fi_BaseURL \<rparr>"

lemma example_inputs_ok: "\<forall>p \<in> set example_inputs. provider_ok example_env p \<and> pc_TLS p = \<lparr> tls_Mode = ''system'', tls_CAFile = [] \<rparr>"
proof -
  have p: "plain ''a''" "plain ''b''" "plain ''c''" "plain ''m''" "plain ''k''" by (simp_all add: plain_def byte_def)
  have e: "\<not> containsControl []" by (simp add: containsControl_def IndexFunc_nonneg_def)
  show ?thesis
    using example_uuid_ok p [THEN plain_no_control] p [THEN TrimSpace_plain] credential_plain [OF p(5)] e
    by (simp add: example_inputs_def example_members_def provider_ok_def base_url_ok_def example_env_def name_ok_def
        MaxBytes_def tls_ok_def TLSSystem_def)
qed

lemma wrapped_example:
  assumes "plain key" and "set ps \<subseteq> set example_inputs" and "distinct (map pc_ID ps)" and "distinct (map pc_Name ps)"
  shows "Config_Validate example_env (wrapped key ps) = None"
proof -
  note inputs = bspec [OF example_inputs_ok subsetD [OF assms(2)]]
  have "TLS_Normalize (pc_TLS p) = pc_TLS p" if "p \<in> set ps" for p
    using conjunct2 [OF inputs [OF that]] by (simp add: TLS_Normalize_def)
  then have ps: "map (\<lambda>p. p\<lparr>pc_TLS := TLS_Normalize (pc_TLS p)\<rparr>) ps = ps" by (simp add: map_idI)
  have "Config_Normalize (wrapped key ps) = wrapped key ps"
    using ps by (simp add: wrapped_def Config_Normalize_def Config_Default_def AutoMode_Normalize_def Harnesses_Normalize_def
        ClaudeCode_Normalize_def DefaultHarnesses_def DefaultClaudeCodeConfig_def mode_defs Let_def)
  moreover have "config_ok example_env (wrapped key ps)"
    using Default_ok [OF credential_plain [OF assms(1)], of example_env] inputs assms(3,4)
    by (simp add: config_ok_def wrapped_def list_all_iff)
  ultimately show ?thesis by (simp add: Config_Validate_None)
qed

lemma example_catalog: "\<exists>cat. CompileCatalog example_compile_env example_inputs = Inr cat"
proof -
  have go: "ce_go example_compile_env = example_env" by (simp add: example_compile_env_def)
  have keys: "plain ''provider-catalog-validation-key''" "plain ''provider-compiler-validation-key''"
    by (simp_all add: plain_def byte_def)
  have one: "\<exists>c. compileWithRegistry example_compile_env p = Inr c" if "p \<in> set example_inputs" for p
  proof -
    have t: "pc_TLS p = \<lparr> tls_Mode = ''system'', tls_CAFile = [] \<rparr>" "tls_ok (pc_TLS p)"
      using example_inputs_ok that by (auto simp: provider_ok_def)
    then have n: "p\<lparr>pc_TLS := TLS_Normalize (pc_TLS p)\<rparr> = p" "TLS_Normalize (pc_TLS p) = pc_TLS p" by (simp_all add: TLS_Normalize_def)
    have v: "Config_Validate example_env (wrapped ''provider-compiler-validation-key'' [p]) = None"
      by (rule wrapped_example) (use that keys in auto)
    have "compileTLS example_compile_env (pc_TLS p) = None"
    proof -
      have "TLS_Validate (pc_TLS p) ''tls'' = None" using t(2) by (simp add: TLS_Validate_None)
      moreover have "et_CAFile (TLS_Effective (pc_TLS p)) = []" by (simp add: t(1) TLS_Effective_def TLS_Normalize_def mode_defs Let_def)
      ultimately show ?thesis by (simp add: compileTLS_def)
    qed
    with v show ?thesis
      by (simp add: compileWithRegistry_def go n) (simp add: example_compile_env_def example_env_def)
  qed
  have loop: "\<exists>r. compile_loop example_compile_env acc ps = Inr r" if "set ps \<subseteq> set example_inputs" for acc ps
    using that
  proof (induction ps arbitrary: acc)
    case (Cons p ps)
    then obtain c where "compileWithRegistry example_compile_env p = Inr c" using one [of p] by auto
    with Cons show ?case by simp
  qed simp
  have "distinct (map pc_ID example_inputs)" "distinct (map pc_Name example_inputs)"
    by (simp_all add: example_inputs_def example_members_def example_uuid_def)
  from wrapped_example [OF keys(1) subset_refl this]
  have "Config_Validate example_env (wrapped ''provider-catalog-validation-key'' example_inputs) = None" .
  moreover obtain r where "compile_loop example_compile_env [] example_inputs = Inr r" using loop by blast
  ultimately show ?thesis by (simp add: CompileCatalog_def go) (simp add: example_compile_env_def)
qed

theorem CompileCatalog_candidates_witness:
  "\<exists>cat. CompileCatalog example_compile_env example_inputs = Inr cat \<and>
     map cp_ID (Match cat ''m'') = [example_uuid CHR ''a'', example_uuid CHR ''c'', example_uuid CHR ''b'']"
proof -
  obtain cat where c: "CompileCatalog example_compile_env example_inputs = Inr cat" using example_catalog by blast
  have "stable_sort_desc pc_Priority (filter (\<lambda>p. pc_Enabled p \<and> ''m'' \<in> set (pc_Models p)) example_inputs) =
      [example_inputs ! 0, example_inputs ! 2, example_inputs ! 1]"
    by (simp add: example_inputs_def example_members_def stable_sort_desc_def)
  moreover have "map pc_ID [example_inputs ! 0, example_inputs ! 2, example_inputs ! 1] =
      [example_uuid CHR ''a'', example_uuid CHR ''c'', example_uuid CHR ''b'']"
    by (simp add: example_inputs_def example_members_def)
  ultimately show ?thesis using c CompileCatalog_candidates [OF c, of "''m''"] compiled_IDs by metis
qed

end
