(* ===== verification/Gateway_Clients.thy ===== *)
theory Gateway_Clients
  imports Provider_Compile
begin

text \<open>
  Package gateway, the pool of transports (\<open>internal/gateway/client_pool.go\<close>): one HTTP client per
  provider generation, shared by the requests of that generation. A change of configuration
  retires generations; the idle connections of a retired transport are closed when its last
  request has released it.

  The entries are shared by pointer between the pool and the leases: addresses in a heap. Of a
  target the pool reads its ID and generation; of a transport it is recorded how often its idle
  connections were closed.
\<close>

section \<open>State\<close>

record pooledClient =
  pc_refs :: int
  pc_retired :: bool
  pc_idleClosed :: bool
  pc_closes :: nat \<comment> \<open>calls of \<open>transport.CloseIdleConnections\<close>\<close>

record clientKey =
  ck_providerID :: string
  ck_generation :: ProviderGeneration

record ClientPool =
  cl_clients :: "(clientKey, nat) gomap"
  cl_active :: "clientKey set"
  cl_reconciled :: bool
  cl_closed :: bool
  cl_heap :: "nat \<Rightarrow> pooledClient"
  cl_next :: nat \<comment> \<open>the next free address\<close>

definition provider_key :: "CompiledProvider \<Rightarrow> clientKey" where
  "provider_key item = \<lparr> ck_providerID = cp_ID item, ck_generation = cp_Generation item \<rparr>"

definition newPooledClient :: pooledClient where
  "newPooledClient = \<lparr> pc_refs = 0, pc_retired = False, pc_idleClosed = False, pc_closes = 0 \<rparr>"

definition NewClientPool :: ClientPool where
  "NewClientPool = \<lparr> cl_clients = [], cl_active = {}, cl_reconciled = False, cl_closed = False,
     cl_heap = (\<lambda>_. newPooledClient), cl_next = 0 \<rparr>"

definition put_client :: "nat \<Rightarrow> pooledClient \<Rightarrow> ClientPool \<Rightarrow> ClientPool" where
  "put_client a e p = p\<lparr>cl_heap := (cl_heap p)(a := e)\<rparr>"

definition alloc_client :: "pooledClient \<Rightarrow> ClientPool \<Rightarrow> nat \<times> ClientPool" where
  "alloc_client e p = (cl_next p, (put_client (cl_next p) e p)\<lparr>cl_next := Suc (cl_next p)\<rparr>)"

section \<open>Operations\<close>

text \<open>\<open>ClientForTarget\<close> returns a client without a lease; \<open>None\<close> is a nil target.\<close>

definition ClientForTarget :: "clientKey option \<Rightarrow> ClientPool \<Rightarrow> (string + nat) \<times> ClientPool" where
  "ClientForTarget item p =
     (case item of
        None \<Rightarrow> (Inl ''target is nil'', p)
      | Some key \<Rightarrow>
          if cl_closed p then (Inl ''provider client pool is closed'', p)
          else case map_of (cl_clients p) key of
            Some existing \<Rightarrow> (Inr existing, p)
          | None \<Rightarrow>
              if cl_reconciled p \<and> key \<notin> cl_active p then (Inl ''target generation is not active'', p)
              else let (a, p) = alloc_client newPooledClient p
                   in (Inr a, p\<lparr>cl_clients := AList.update key a (cl_clients p)\<rparr>))"

definition ClientPool_Client :: "CompiledProvider option \<Rightarrow> ClientPool \<Rightarrow> (string + nat) \<times> ClientPool" where
  "ClientPool_Client item p =
     (case item of None \<Rightarrow> (Inl ''provider is nil'', p) | Some i \<Rightarrow> ClientForTarget (Some (provider_key i)) p)"

definition AcquireTarget :: "clientKey option \<Rightarrow> ClientPool \<Rightarrow> (string + nat) \<times> ClientPool" where
  "AcquireTarget item p =
     (case item of
        None \<Rightarrow> (Inl ''target is nil'', p)
      | Some key \<Rightarrow>
          if cl_closed p then (Inl ''provider client pool is closed'', p)
          else case map_of (cl_clients p) key of
            Some existing \<Rightarrow>
              let e = cl_heap p existing in (Inr existing, put_client existing (e\<lparr>pc_refs := pc_refs e + 1\<rparr>) p)
          | None \<Rightarrow>
              let entry = newPooledClient\<lparr>pc_refs := 1\<rparr> in
              if cl_reconciled p \<and> key \<notin> cl_active p
              then let (a, p) = alloc_client (entry\<lparr>pc_retired := True\<rparr>) p in (Inr a, p)
              else let (a, p) = alloc_client entry p
                   in (Inr a, p\<lparr>cl_clients := AList.update key a (cl_clients p)\<rparr>))"

definition ClientPool_Acquire :: "CompiledProvider option \<Rightarrow> ClientPool \<Rightarrow> (string + nat) \<times> ClientPool" where
  "ClientPool_Acquire item p =
     (case item of None \<Rightarrow> (Inl ''provider is nil'', p) | Some i \<Rightarrow> AcquireTarget (Some (provider_key i)) p)"

definition closeIdleLocked :: "pooledClient \<Rightarrow> pooledClient" where
  "closeIdleLocked e = (if pc_idleClosed e then e else e\<lparr>pc_idleClosed := True, pc_closes := pc_closes e + 1\<rparr>)"

definition retireClientLocked :: "pooledClient \<Rightarrow> pooledClient" where
  "retireClientLocked e =
     (let e = e\<lparr>pc_retired := True\<rparr> in if pc_refs e = 0 then closeIdleLocked e else e)"

definition release_entry :: "nat \<Rightarrow> ClientPool \<Rightarrow> ClientPool" where
  "release_entry a p =
     (let e = cl_heap p a;
          e = (if pc_refs e > 0 then e\<lparr>pc_refs := pc_refs e - 1\<rparr> else e)
      in put_client a (if pc_retired e \<and> pc_refs e = 0 then closeIdleLocked e else e) p)"

text \<open>The loop over the map that deletes and retires the entries outside \<open>active\<close>.\<close>

fun retire_loop :: "clientKey set \<Rightarrow> (clientKey, nat) gomap \<Rightarrow> ClientPool \<Rightarrow> ClientPool" where
  "retire_loop active [] p = p"
| "retire_loop active ((key, a) # rest) p =
     retire_loop active rest
       (if key \<in> active then p
        else put_client a (retireClientLocked (cl_heap p a)) (p\<lparr>cl_clients := AList.delete key (cl_clients p)\<rparr>))"

definition target_keys :: "CompiledProvider option list \<Rightarrow> CompiledFixedTarget option \<Rightarrow> clientKey set" where
  "target_keys providers fixed =
     set (map provider_key (List.map_filter (\<lambda>i. i) providers)) \<union>
     (case fixed of None \<Rightarrow> {} | Some f \<Rightarrow> {\<lparr> ck_providerID = ft_ID f, ck_generation = ft_Generation f \<rparr>})"

definition ReconcileTargets :: "CompiledProvider option list \<Rightarrow> CompiledFixedTarget option \<Rightarrow> ClientPool \<Rightarrow> ClientPool" where
  "ReconcileTargets providers fixed p =
     (if cl_closed p then p
      else retire_loop (target_keys providers fixed) (cl_clients p)
             (p\<lparr>cl_active := target_keys providers fixed, cl_reconciled := True\<rparr>))"

definition ClientPool_Close :: "ClientPool \<Rightarrow> ClientPool" where
  "ClientPool_Close p =
     (if cl_closed p then p else retire_loop {} (cl_clients p) (p\<lparr>cl_closed := True, cl_active := {}\<rparr>))"

section \<open>The invariant\<close>

text \<open>
  The pool together with the leases handed out: the entry of each and whether it has been
  released. \<open>Release\<close> runs once per lease.
\<close>

type_synonym pool_system = "ClientPool \<times> (nat \<times> bool) list"

definition Lease_Release :: "nat \<Rightarrow> pool_system \<Rightarrow> pool_system" where
  "Lease_Release i s =
     (let (p, leases) = s in
      if i < length leases \<and> \<not> snd (leases ! i)
      then (release_entry (fst (leases ! i)) p, leases[i := (fst (leases ! i), True)]) else (p, leases))"

definition held :: "nat \<Rightarrow> (nat \<times> bool) list \<Rightarrow> nat" where
  "held a leases = length (filter (\<lambda>l. l = (a, False)) leases)"

definition current_entries :: "ClientPool \<Rightarrow> nat set" where
  "current_entries p = snd ` set (cl_clients p)"

definition entry_ok :: "bool \<Rightarrow> nat \<Rightarrow> pooledClient \<Rightarrow> bool" where
  "entry_ok current n e \<longleftrightarrow>
     pc_refs e = int n \<and> pc_retired e = (\<not> current) \<and> pc_idleClosed e = (\<not> current \<and> n = 0) \<and>
     pc_closes e = (if pc_idleClosed e then 1 else 0)"

definition pool_inv :: "pool_system \<Rightarrow> bool" where
  "pool_inv s \<longleftrightarrow>
     (let (p, leases) = s in
      gdistinct (cl_clients p) \<and> distinct (map snd (cl_clients p)) \<and>
      (\<forall>a \<in> current_entries p. a < cl_next p) \<and> (\<forall>l \<in> set leases. fst l < cl_next p) \<and>
      (\<forall>a < cl_next p. entry_ok (a \<in> current_entries p) (held a leases) (cl_heap p a)) \<and>
      (cl_closed p \<longrightarrow> cl_clients p = []) \<and>
      (cl_reconciled p \<and> \<not> cl_closed p \<longrightarrow> set (gkeys (cl_clients p)) \<subseteq> cl_active p))"

inductive pool_step :: "pool_system \<Rightarrow> pool_system \<Rightarrow> bool" where
  client: "ClientForTarget item p = (r, p') \<Longrightarrow> pool_step (p, leases) (p', leases)"
| acquire: "AcquireTarget item p = (Inr a, p') \<Longrightarrow> pool_step (p, leases) (p', leases @ [(a, False)])"
| acquire_failed: "AcquireTarget item p = (Inl e, p') \<Longrightarrow> pool_step (p, leases) (p', leases)"
| release: "pool_step s (Lease_Release i s)"
| reconcile: "pool_step (p, leases) (ReconcileTargets providers fixed p, leases)"
| close: "pool_step (p, leases) (ClientPool_Close p, leases)"

inductive pool_reachable :: "pool_system \<Rightarrow> bool" where
  start: "pool_reachable (NewClientPool, [])"
| step: "pool_reachable s \<Longrightarrow> pool_step s s' \<Longrightarrow> pool_reachable s'"

lemma held_simps [simp]:
  "held a [] = 0" "held a (ls @ [(b, False)]) = held a ls + (if a = b then 1 else 0)"
  by (auto simp: held_def)

lemma held_fresh: "\<forall>l \<in> set ls. fst l < n \<Longrightarrow> held n ls = 0"
  by (auto simp: held_def filter_empty_conv)

lemma held_update:
  assumes "i < length ls" and "ls ! i = (b, False)"
  shows "held a (ls[i := (b, True)]) + (if a = b then 1 else 0) = held a ls"
  using assms
proof (induction ls arbitrary: i)
  case (Cons l ls)
  then show ?case by (cases i) (auto simp: held_def)
qed simp

lemma retire_loop_spec:
  assumes "distinct (map snd kvs)"
  shows "retire_loop active kvs p =
    p\<lparr>cl_clients := filter (\<lambda>(k, a). k \<notin> fst ` set kvs \<or> k \<in> active) (cl_clients p),
      cl_heap := (\<lambda>a. if \<exists>k. (k, a) \<in> set kvs \<and> k \<notin> active then retireClientLocked (cl_heap p a) else cl_heap p a)\<rparr>"
  using assms
proof (induction kvs arbitrary: p)
  case Nil
  then show ?case by simp
next
  case (Cons kv kvs)
  obtain key b where kv: "kv = (key, b)" by (cases kv)
  have b: "(k, b) \<notin> set kvs" for k using Cons.prems kv by (force simp: image_iff)
  have IH: "retire_loop active kvs q = q\<lparr>cl_clients := filter (\<lambda>(k, a). k \<notin> fst ` set kvs \<or> k \<in> active) (cl_clients q),
      cl_heap := (\<lambda>a. if \<exists>k. (k, a) \<in> set kvs \<and> k \<notin> active then retireClientLocked (cl_heap q a) else cl_heap q a)\<rparr>" for q
    by (rule Cons.IH) (use Cons.prems in simp)
  show ?case
  proof (cases "key \<in> active")
    case True
    have "filter (\<lambda>(k, a). k \<notin> fst ` set kvs \<or> k \<in> active) (cl_clients p) =
        filter (\<lambda>(k, a). k \<notin> fst ` set (kv # kvs) \<or> k \<in> active) (cl_clients p)"
      by (rule filter_cong) (use True kv in auto)
    moreover have "(\<exists>k. (k, a) \<in> set kvs \<and> k \<notin> active) = (\<exists>k. (k, a) \<in> set (kv # kvs) \<and> k \<notin> active)" for a
      using True kv by auto
    ultimately show ?thesis using True by (simp only: kv retire_loop.simps IH if_True)
  next
    case False
    let ?q = "put_client b (retireClientLocked (cl_heap p b)) (p\<lparr>cl_clients := AList.delete key (cl_clients p)\<rparr>)"
    have c: "filter (\<lambda>(k, a). k \<notin> fst ` set kvs \<or> k \<in> active) (cl_clients ?q) =
        filter (\<lambda>(k, a). k \<notin> fst ` set (kv # kvs) \<or> k \<in> active) (cl_clients p)"
      using False kv by (auto simp: put_client_def AList.delete_eq intro!: filter_cong)
    have h: "(\<lambda>a. if \<exists>k. (k, a) \<in> set kvs \<and> k \<notin> active then retireClientLocked (cl_heap ?q a) else cl_heap ?q a) =
        (\<lambda>a. if \<exists>k. (k, a) \<in> set (kv # kvs) \<and> k \<notin> active then retireClientLocked (cl_heap p a) else cl_heap p a)"
    proof (rule ext)
      fix a
      have "(\<exists>k. (k, a) \<in> set (kv # kvs) \<and> k \<notin> active) = (a = b \<or> (\<exists>k. (k, a) \<in> set kvs \<and> k \<notin> active))"
        unfolding kv list.set insert_iff prod.inject using False by blast
      then show "(if \<exists>k. (k, a) \<in> set kvs \<and> k \<notin> active then retireClientLocked (cl_heap ?q a) else cl_heap ?q a) =
          (if \<exists>k. (k, a) \<in> set (kv # kvs) \<and> k \<notin> active then retireClientLocked (cl_heap p a) else cl_heap p a)"
        using b by (cases "a = b") (auto simp: put_client_def)
    qed
    show ?thesis using False by (simp only: kv retire_loop.simps IH if_False) (use c h kv in \<open>simp add: put_client_def\<close>)
  qed
qed

text \<open>Every operation keeps the invariant.\<close>

lemma entry_ok_acquired: "entry_ok c n e \<Longrightarrow> c \<Longrightarrow> entry_ok c (Suc n) (e\<lparr>pc_refs := pc_refs e + 1\<rparr>)"
  by (auto simp: entry_ok_def)

lemma entry_ok_retired: "entry_ok c n e \<Longrightarrow> entry_ok False n (retireClientLocked e)"
  by (auto simp: entry_ok_def retireClientLocked_def closeIdleLocked_def Let_def)

lemma entry_ok_released:
  assumes "entry_ok c (Suc n) e"
  shows "entry_ok c n (let e = (if pc_refs e > 0 then e\<lparr>pc_refs := pc_refs e - 1\<rparr> else e)
     in if pc_retired e \<and> pc_refs e = 0 then closeIdleLocked e else e)"
  using assms by (auto simp: entry_ok_def closeIdleLocked_def Let_def)

lemma pool_invD:
  assumes "pool_inv (p, leases)"
  shows "gdistinct (cl_clients p)" "distinct (map snd (cl_clients p))" "\<And>a. a \<in> current_entries p \<Longrightarrow> a < cl_next p"
    "\<And>l. l \<in> set leases \<Longrightarrow> fst l < cl_next p" "\<And>a. a < cl_next p \<Longrightarrow> entry_ok (a \<in> current_entries p) (held a leases) (cl_heap p a)"
    "cl_closed p \<Longrightarrow> cl_clients p = []" "cl_reconciled p \<Longrightarrow> \<not> cl_closed p \<Longrightarrow> set (gkeys (cl_clients p)) \<subseteq> cl_active p"
  using assms by (auto simp: pool_inv_def)

lemma update_new: "map_of m k = None \<Longrightarrow> AList.update k v m = m @ [(k, v)]"
  by (induction m) auto

lemma alloc_current:
  assumes inv: "pool_inv (p, leases)" and "map_of (cl_clients p) key = None" and "\<not> cl_closed p"
    and "cl_reconciled p \<Longrightarrow> key \<in> cl_active p" and "alloc_client e p = (a, q)" and "entry_ok True (held a leases') e"
    and "\<And>b. b \<noteq> a \<Longrightarrow> held b leases' = held b leases" and "\<And>l. l \<in> set leases' \<Longrightarrow> fst l \<le> a"
  shows "pool_inv (q\<lparr>cl_clients := AList.update key a (cl_clients q)\<rparr>, leases')"
proof -
  let ?q = "q\<lparr>cl_clients := AList.update key a (cl_clients q)\<rparr>"
  have a: "a = cl_next p" and q: "cl_clients q = cl_clients p" "cl_next q = Suc a" "cl_heap q = (cl_heap p)(a := e)"
    "cl_closed q = cl_closed p" "cl_reconciled q = cl_reconciled p" "cl_active q = cl_active p"
    using assms(5) by (auto simp: alloc_client_def put_client_def)
  note up = update_new [OF assms(2), of a]
  have fresh: "a \<notin> current_entries p" using pool_invD(3) [OF inv, of a] a by auto
  have cur: "current_entries ?q = insert a (current_entries p)" by (simp add: current_entries_def q up)
  have "entry_ok (b \<in> current_entries ?q) (held b leases') (cl_heap ?q b)" if "b < cl_next ?q" for b
    using pool_invD(5) [OF inv, of b] assms(6,7) that cur by (cases "b = a") (auto simp: q a)
  moreover have "set (gkeys (cl_clients ?q)) \<subseteq> cl_active ?q" if "cl_reconciled ?q" "\<not> cl_closed ?q"
    using pool_invD(7) [OF inv] assms(4) that by (auto simp: q up)
  moreover have "gdistinct (cl_clients ?q)" using pool_invD(1) [OF inv] by (simp add: q distinct_update)
  moreover have "distinct (map snd (cl_clients ?q))"
    using pool_invD(2) [OF inv] fresh by (auto simp: q up current_entries_def)
  moreover have "\<forall>b \<in> current_entries ?q. b < cl_next ?q" using pool_invD(3) [OF inv] cur by (auto simp: q a less_Suc_eq)
  ultimately show ?thesis
    using assms(3,8) by (auto simp: pool_inv_def q less_Suc_eq_le)
qed

lemma ClientForTarget_inv:
  assumes inv: "pool_inv (p, leases)" and "ClientForTarget item p = (r, p')"
  shows "pool_inv (p', leases)"
proof (cases "p' = p")
  case False
  then obtain key a q where "item = Some key" "\<not> cl_closed p" "map_of (cl_clients p) key = None" "cl_reconciled p \<Longrightarrow> key \<in> cl_active p"
    and al: "alloc_client newPooledClient p = (a, q)" and p': "p' = q\<lparr>cl_clients := AList.update key a (cl_clients q)\<rparr>"
    using assms(2) by (auto simp: ClientForTarget_def split: option.splits if_splits prod.splits)
  moreover have a: "a = cl_next p" using al by (simp add: alloc_client_def)
  moreover have "entry_ok True (held a leases) newPooledClient"
    using held_fresh [of leases a] pool_invD(4) [OF inv] a by (simp add: entry_ok_def newPooledClient_def)
  ultimately show ?thesis
    using alloc_current [OF inv _ _ _ al, of key leases] pool_invD(4) [OF inv] by (simp add: less_imp_le)
qed (use inv in simp)

lemma ephemeral_inv:
  assumes inv: "pool_inv (p, leases)" and "alloc_client (newPooledClient\<lparr>pc_refs := 1, pc_retired := True\<rparr>) p = (a, q)"
  shows "pool_inv (q, leases @ [(a, False)])"
proof -
  have a: "a = cl_next p" and q: "cl_clients q = cl_clients p" "cl_next q = Suc a" "cl_closed q = cl_closed p"
    "cl_heap q = (cl_heap p)(a := newPooledClient\<lparr>pc_refs := 1, pc_retired := True\<rparr>)" "cl_reconciled q = cl_reconciled p" "cl_active q = cl_active p"
    using assms(2) by (auto simp: alloc_client_def put_client_def)
  have fresh: "a \<notin> current_entries p" "held a leases = 0"
    using pool_invD(3) [OF inv, of a] held_fresh [of leases a] pool_invD(4) [OF inv] a by auto
  have cur: "current_entries q = current_entries p" by (simp add: current_entries_def q)
  have "entry_ok (b \<in> current_entries q) (held b (leases @ [(a, False)])) (cl_heap q b)" if "b < cl_next q" for b
    using pool_invD(5) [OF inv, of b] that cur fresh
    by (cases "b = a") (auto simp: q a entry_ok_def newPooledClient_def)
  then have "\<forall>b < cl_next q. entry_ok (b \<in> current_entries q) (held b (leases @ [(a, False)])) (cl_heap q b)" by blast
  moreover have "\<forall>b \<in> current_entries q. b < cl_next q" "\<forall>l \<in> set (leases @ [(a, False)]). fst l < cl_next q"
    using pool_invD(3,4) [OF inv] cur by (auto simp: q a less_Suc_eq)
  ultimately show ?thesis using pool_invD(1,2,6,7) [OF inv] by (simp add: pool_inv_def q(1,3,5,6))
qed

lemma shared_inv:
  assumes inv: "pool_inv (p, leases)" and key: "map_of (cl_clients p) key = Some a"
  shows "pool_inv (put_client a ((cl_heap p a)\<lparr>pc_refs := pc_refs (cl_heap p a) + 1\<rparr>) p, leases @ [(a, False)])"
proof -
  have a: "a \<in> current_entries p" using map_of_SomeD [OF key] by (force simp: current_entries_def)
  with pool_invD(3) [OF inv] have n: "a < cl_next p" by blast
  show ?thesis
    using pool_invD [OF inv] a n entry_ok_acquired [OF pool_invD(5) [OF inv n] a]
    by (auto simp: pool_inv_def put_client_def current_entries_def)
qed

lemma AcquireTarget_inv:
  assumes inv: "pool_inv (p, leases)" and "AcquireTarget item p = (Inr a, p')"
  shows "pool_inv (p', leases @ [(a, False)])"
proof -
  from assms(2) obtain key where key: "item = Some key" "\<not> cl_closed p"
    by (auto simp: AcquireTarget_def split: option.splits if_splits)
  show ?thesis
  proof (cases "map_of (cl_clients p) key")
    case (Some b)
    with assms(2) key have "b = a" "p' = put_client a ((cl_heap p a)\<lparr>pc_refs := pc_refs (cl_heap p a) + 1\<rparr>) p"
      by (auto simp: AcquireTarget_def Let_def)
    with shared_inv [OF inv Some] show ?thesis by simp
  next
    case None
    show ?thesis
    proof (cases "cl_reconciled p \<and> key \<notin> cl_active p")
      case True
      with None assms(2) key have "alloc_client (newPooledClient\<lparr>pc_refs := 1, pc_retired := True\<rparr>) p = (a, p')"
        by (auto simp: AcquireTarget_def Let_def split: prod.splits)
      then show ?thesis by (rule ephemeral_inv [OF inv])
    next
      case False
      then obtain q where al: "alloc_client (newPooledClient\<lparr>pc_refs := 1\<rparr>) p = (a, q)"
        and p': "p' = q\<lparr>cl_clients := AList.update key a (cl_clients q)\<rparr>"
        using None assms(2) key by (auto simp: AcquireTarget_def Let_def split: prod.splits)
      have a: "a = cl_next p" using al by (simp add: alloc_client_def)
      have h: "held a leases = 0" using held_fresh [of leases a] pool_invD(4) [OF inv] a by simp
      show ?thesis
        unfolding p'
      proof (rule alloc_current [OF inv None key(2) _ al])
        show "entry_ok True (held a (leases @ [(a, False)])) (newPooledClient\<lparr>pc_refs := 1\<rparr>)"
          using h by (simp add: entry_ok_def newPooledClient_def)
      qed (use False a pool_invD(4) [OF inv] in \<open>auto simp: less_imp_le\<close>)
    qed
  qed
qed

lemma AcquireTarget_failed: "AcquireTarget item p = (Inl e, p') \<Longrightarrow> p' = p"
  by (auto simp: AcquireTarget_def Let_def split: option.splits if_splits prod.splits)

lemma Lease_Release_inv:
  assumes inv: "pool_inv (p, leases)"
  shows "pool_inv (Lease_Release i (p, leases))"
proof (cases "i < length leases \<and> \<not> snd (leases ! i)")
  case True
  let ?a = "fst (leases ! i)"
  let ?ls = "leases[i := (?a, True)]"
  have li: "leases ! i = (?a, False)" using True by (cases "leases ! i") auto
  have up: "held b ?ls + (if b = ?a then 1 else 0) = held b leases" for b using held_update [OF _ li] True by simp
  have n: "?a < cl_next p" using pool_invD(4) [OF inv] True by simp
  have "entry_ok (?a \<in> current_entries p) (held ?a ?ls) (cl_heap (release_entry ?a p) ?a)"
    using entry_ok_released [of "?a \<in> current_entries p" "held ?a ?ls" "cl_heap p ?a"] pool_invD(5) [OF inv n] up [of ?a]
    by (simp add: release_entry_def put_client_def Let_def)
  then have "entry_ok (b \<in> current_entries p) (held b ?ls) (cl_heap (release_entry ?a p) b)" if "b < cl_next p" for b
    using pool_invD(5) [OF inv that] up [of b] by (cases "b = ?a") (auto simp: release_entry_def put_client_def Let_def)
  moreover have "fst l < cl_next p" if "l \<in> set ?ls" for l
    using subsetD [OF set_update_subset_insert that] n pool_invD(4) [OF inv] by fastforce
  ultimately show ?thesis
    using True pool_invD [OF inv]
    by (auto simp: Lease_Release_def pool_inv_def release_entry_def put_client_def current_entries_def Let_def)
qed (use inv in \<open>auto simp: Lease_Release_def Let_def\<close>)

lemma retire_inv:
  assumes inv: "pool_inv (p, leases)" and "cl_clients q = cl_clients p" "cl_heap q = cl_heap p" "cl_next q = cl_next p"
    and "cl_closed q \<Longrightarrow> active = {}" and "cl_active q = active"
  shows "pool_inv (retire_loop active (cl_clients q) q, leases)"
proof -
  let ?r = "retire_loop active (cl_clients q) q"
  note r = retire_loop_spec [OF pool_invD(2) [OF inv], of active q, folded assms(2)]
  have c: "cl_clients ?r = filter (\<lambda>(k, a). k \<in> active) (cl_clients p)"
    unfolding r by (auto simp: assms(2) intro!: filter_cong) (force simp: image_iff)
  have h: "cl_heap ?r a = (if \<exists>k. (k, a) \<in> set (cl_clients p) \<and> k \<notin> active then retireClientLocked (cl_heap p a) else cl_heap p a)" for a
    unfolding r by (auto simp: assms(2,3))
  have "gdistinct (cl_clients ?r)" "distinct (map snd (cl_clients ?r))"
    using pool_invD(1,2) [OF inv] by (simp_all add: c distinct_map_filter)
  moreover have sub: "current_entries ?r \<subseteq> current_entries p" by (auto simp: current_entries_def c)
  moreover have "entry_ok (a \<in> current_entries ?r) (held a leases) (cl_heap ?r a)" if "a < cl_next p" for a
  proof (cases "\<exists>k. (k, a) \<in> set (cl_clients p) \<and> k \<notin> active")
    case True
    then obtain k where k: "(k, a) \<in> set (cl_clients p)" "k \<notin> active" by blast
    have "a \<notin> current_entries ?r"
      using k pool_invD(2) [OF inv] unfolding current_entries_def c by (force simp: distinct_map inj_on_def)
    with entry_ok_retired [OF pool_invD(5) [OF inv that]] True show ?thesis by (simp add: h)
  next
    case False
    then have "(a \<in> current_entries ?r) = (a \<in> current_entries p)" by (force simp: current_entries_def c)
    with pool_invD(5) [OF inv that] False show ?thesis by (auto simp: h)
  qed
  ultimately show ?thesis
    using pool_invD(3,4) [OF inv] assms(4-6) c by (auto simp: pool_inv_def r)
qed

lemma pool_step_inv: "pool_step s s' \<Longrightarrow> pool_inv s \<Longrightarrow> pool_inv s'"
proof (induction rule: pool_step.induct)
  case (release s i)
  then show ?case using Lease_Release_inv by (cases s) auto
next
  case (reconcile p leases providers fixed)
  let ?q = "p\<lparr>cl_active := target_keys providers fixed, cl_reconciled := True\<rparr>"
  show ?case
    using retire_inv [OF reconcile, of ?q "target_keys providers fixed"] reconcile
    by (cases "cl_closed p") (simp_all add: ReconcileTargets_def)
next
  case (close p leases)
  show ?case
    using retire_inv [OF close, of "p\<lparr>cl_closed := True, cl_active := {}\<rparr>" "{}"] close by (simp add: ClientPool_Close_def)
qed (auto dest: ClientForTarget_inv AcquireTarget_inv AcquireTarget_failed)

lemma pool_reachable_inv: "pool_reachable s \<Longrightarrow> pool_inv s"
proof (induction rule: pool_reachable.induct)
  case start
  then show ?case by (simp add: pool_inv_def NewClientPool_def current_entries_def)
qed (auto intro: pool_step_inv)

section \<open>Properties\<close>

text \<open>
  C11. In every state the pool reaches, by any interleaving of acquisitions, releases (repeated
  ones included), changes of configuration and closing, the idle connections of a transport have
  been closed just when its generation is no longer current and no lease holds it, and never
  twice; the reference count of an entry is the number of its unreleased leases. So a request in
  flight keeps its transport across a change of configuration, and no retired transport outlives
  its last request.
\<close>

theorem pool_closes_retired:
  assumes "pool_reachable (p, leases)" and "a < cl_next p"
  shows "pc_refs (cl_heap p a) = int (held a leases) \<and>
    pc_closes (cl_heap p a) = (if a \<notin> current_entries p \<and> held a leases = 0 then 1 else 0)"
  using pool_invD(5) [OF pool_reachable_inv [OF assms(1)] assms(2)] by (auto simp: entry_ok_def)

text \<open>
  Acquiring a transport gives every request of a current generation the same one; a request
  that still runs on a retired generation gets one of its own, which the pool does not keep.
  No transport given out has been closed, and exactly a closed pool gives out nothing.
\<close>

theorem AcquireTarget_result:
  assumes "pool_reachable (p, leases)"
  shows "case AcquireTarget (Some key) p of
      (Inl _, p') \<Rightarrow> cl_closed p \<and> p' = p
    | (Inr a, p') \<Rightarrow> \<not> cl_closed p \<and> \<not> pc_idleClosed (cl_heap p' a) \<and>
        (if cl_reconciled p \<and> key \<notin> cl_active p then a = cl_next p \<and> cl_clients p' = cl_clients p
         else map_of (cl_clients p') key = Some a \<and> (\<forall>b. map_of (cl_clients p) key = Some b \<longrightarrow> a = b))"
proof (cases "cl_closed p")
  case True
  then show ?thesis by (simp add: AcquireTarget_def)
next
  case False
  note inv = pool_reachable_inv [OF assms]
  show ?thesis
  proof (cases "map_of (cl_clients p) key")
    case (Some b)
    then have mem: "(key, b) \<in> set (cl_clients p)" by (rule map_of_SomeD)
    then have b: "b \<in> current_entries p" by (force simp: current_entries_def)
    have "\<not> (cl_reconciled p \<and> key \<notin> cl_active p)" using pool_invD(7) [OF inv] False mem by force
    moreover have "\<not> pc_idleClosed (cl_heap p b)"
      using pool_invD(5) [OF inv pool_invD(3) [OF inv b]] b by (simp add: entry_ok_def)
    ultimately show ?thesis using Some False by (auto simp: AcquireTarget_def put_client_def Let_def)
  next
    case None
    with False show ?thesis
      by (auto simp: AcquireTarget_def alloc_client_def put_client_def newPooledClient_def Let_def AList.update_conv')
  qed
qed

text \<open>The example: two requests share a transport, the generation is retired under the first.\<close>

definition example_key :: clientKey where
  "example_key = \<lparr> ck_providerID = ''a'', ck_generation = ''g1'' \<rparr>"

definition example_pool :: pool_system where
  "example_pool = (ReconcileTargets [] None (snd (AcquireTarget (Some example_key) NewClientPool)), [(0, False)])"

lemma example_pool_reachable: "pool_reachable example_pool"
proof -
  have a: "AcquireTarget (Some example_key) NewClientPool = (Inr 0, snd (AcquireTarget (Some example_key) NewClientPool))"
    by (simp add: AcquireTarget_def NewClientPool_def alloc_client_def put_client_def Let_def)
  have "pool_reachable (snd (AcquireTarget (Some example_key) NewClientPool), [] @ [(0, False)])"
    by (rule pool_reachable.step [OF pool_reachable.start pool_step.acquire [OF a]])
  then show ?thesis unfolding example_pool_def by (auto intro: pool_reachable.step pool_step.reconcile)
qed

lemma example_pool_next: "0 < cl_next (fst example_pool)"
  by (simp add: example_pool_def AcquireTarget_def NewClientPool_def alloc_client_def put_client_def Let_def ReconcileTargets_def target_keys_def)

theorem pool_closes_retired_witness:
  "pc_refs (cl_heap (fst example_pool) 0) = int (held 0 (snd example_pool)) \<and>
   pc_closes (cl_heap (fst example_pool) 0) =
     (if 0 \<notin> current_entries (fst example_pool) \<and> held 0 (snd example_pool) = 0 then 1 else 0)"
  using pool_closes_retired [of "fst example_pool" "snd example_pool" 0] example_pool_reachable example_pool_next by simp

theorem AcquireTarget_result_witness:
  "case AcquireTarget (Some example_key) (fst example_pool) of
      (Inl _, p') \<Rightarrow> cl_closed (fst example_pool)
    | (Inr a, p') \<Rightarrow> \<not> pc_idleClosed (cl_heap p' a)"
  using AcquireTarget_result [of "fst example_pool" "snd example_pool" example_key] example_pool_reachable
  by (auto split: prod.splits sum.splits)

end
