(* ===== verification/Gateway_SSE.thy ===== *)
theory Gateway_SSE
  imports Scheduler_Contracts Text_Limit
begin

text \<open>
  Package gateway, the observer of server-sent events (\<open>internal/gateway/sse_observer.go\<close>),
  the bounded error text it collects (\<open>internal/gateway/error_text.go\<close>) and the names of the
  ways an attempt ends (\<open>internal/gateway/reasons.go\<close>). The observer sees the response one
  read at a time and keeps a bounded amount of it; the specification reads the whole stream
  line by line.
\<close>

section \<open>Reasons\<close>

type_synonym endReason = string
type_synonym stopReason = string
type_synonym incompleteMark = string

definition endTransportError :: endReason where "endTransportError = ''transport_error''"
definition endResponseHeaderTimeout :: endReason where "endResponseHeaderTimeout = ''response_header_timeout''"
definition endHTTPError :: endReason where "endHTTPError = ''http_error''"
definition endResponseIdleTimeout :: endReason where "endResponseIdleTimeout = ''response_idle_timeout''"
definition endStreamInterrupted :: endReason where "endStreamInterrupted = ''stream_interrupted''"
definition endStreamErrorEvent :: endReason where "endStreamErrorEvent = ''stream_error_event''"
definition endStreamTruncated :: endReason where "endStreamTruncated = ''stream_truncated''"
definition endCompleted :: endReason where "endCompleted = ''completed''"
definition endClientCanceled :: endReason where "endClientCanceled = ''client_canceled''"
definition endLocalError :: endReason where "endLocalError = ''local_error''"

lemmas end_defs = endTransportError_def endResponseHeaderTimeout_def endHTTPError_def endResponseIdleTimeout_def
  endStreamInterrupted_def endStreamErrorEvent_def endStreamTruncated_def endCompleted_def endClientCanceled_def
  endLocalError_def

definition stopClientCanceled :: stopReason where "stopClientCanceled = ''client_canceled''"
definition stopShutdown :: stopReason where "stopShutdown = ''shutdown''"
definition stopErrorBodyTimeout :: stopReason where "stopErrorBodyTimeout = ''error_body_timeout''"
definition stopResponseHeaderTimeout :: stopReason where "stopResponseHeaderTimeout = ''response_header_timeout''"
definition stopResponseIdleTimeout :: stopReason where "stopResponseIdleTimeout = ''response_idle_timeout''"

lemmas stop_defs = stopClientCanceled_def stopShutdown_def stopErrorBodyTimeout_def stopResponseHeaderTimeout_def
  stopResponseIdleTimeout_def

definition incompleteTruncated :: incompleteMark where "incompleteTruncated = ''truncated''"

record responseVerdict =
  rv_reason :: endReason
  rv_class :: FailureClass
  rv_raw :: string
  rv_incomplete :: incompleteMark

section \<open>Bounded text\<close>

definition DefaultErrorTextLimit :: int where "DefaultErrorTextLimit = 64 * 1024"

record boundedText =
  bt_data :: string
  bt_limit :: int
  bt_truncated :: bool

definition boundedText_add :: "string \<Rightarrow> boundedText \<Rightarrow> boundedText" where
  "boundedText_add p b =
     (let b = (if bt_limit b \<le> 0 then b\<lparr>bt_limit := DefaultErrorTextLimit\<rparr> else b);
          remaining = bt_limit b - int (length (bt_data b))
      in if int (length p) > remaining
         then b\<lparr>bt_data := bt_data b @ take (nat remaining) p, bt_truncated := True\<rparr>
         else b\<lparr>bt_data := bt_data b @ p\<rparr>)"

definition boundedText_text :: "boundedText \<Rightarrow> string" where
  "boundedText_text b =
     (if \<not> bt_truncated b then bt_data b else fst (Prefix (bt_data b) (nat (bt_limit b))))"

definition boundedText_reset :: "boundedText \<Rightarrow> boundedText" where
  "boundedText_reset b = b\<lparr>bt_data := [], bt_truncated := False\<rparr>"

section \<open>The observer\<close>

text \<open>The modes of the source are the bytes 0, \<open>'e'\<close>, \<open>'d'\<close> and \<open>'x'\<close>.\<close>

datatype sseMode = ModeName | ModeEvent | ModeData | ModeOther

record sseObserver =
  so_event :: string
  so_prefix :: string
  so_value :: string
  so_mode :: sseMode
  so_skipSpace :: bool
  so_cr :: bool
  so_lineBytes :: nat
  so_data :: boundedText
  so_dataLines :: nat
  so_result :: "responseVerdict option"

definition newObserver :: "int \<Rightarrow> sseObserver" where
  "newObserver limit =
     \<lparr> so_event = [], so_prefix = [], so_value = [], so_mode = ModeName, so_skipSpace = False, so_cr = False,
       so_lineBytes = 0, so_data = \<lparr> bt_data = [], bt_limit = limit, bt_truncated = False \<rparr>, so_dataLines = 0,
       so_result = None \<rparr>"

text \<open>
  \<open>sseErrorClass\<close>; \<open>errorType\<close> decodes the JSON text and yields its \<open>error.type\<close>, or \<open>None\<close>
  when the text does not decode.
\<close>

definition sseErrorClass :: "(string \<Rightarrow> string option) \<Rightarrow> string \<Rightarrow> FailureClass" where
  "sseErrorClass errorType raw =
     (case errorType raw of
        None \<Rightarrow> FailureChannelTransient
      | Some t \<Rightarrow>
          if t \<in> {''authentication_error'', ''permission_error''} then FailureGlobalImmediate
          else if t \<in> {''not_found_error'', ''billing_error''} then FailureChannelImmediate
          else if t \<in> {''invalid_request_error'', ''request_too_large'', ''conflict_error''} then FailureNeutral
          else FailureChannelTransient)"

definition newline :: char where "newline = CHR 0x0A"
definition carriage :: char where "carriage = CHR 0x0D"

lemma terminators [simp]: "newline \<noteq> carriage" "carriage \<noteq> newline"
  by (simp_all add: newline_def carriage_def)

definition add_line :: "sseObserver \<Rightarrow> sseObserver" where
  "add_line s =
     s\<lparr>so_data := (if so_dataLines s > 0 then boundedText_add [newline] (so_data s) else so_data s),
       so_dataLines := so_dataLines s + 1\<rparr>"

definition endLine :: "(string \<Rightarrow> string option) \<Rightarrow> sseObserver \<Rightarrow> sseObserver" where
  "endLine errorType s =
     (let s =
        (if so_lineBytes s = 0 then
           let s = (if so_event s = ''message_stop'' then
                      s\<lparr>so_result := Some \<lparr> rv_reason = endCompleted, rv_class = FailureNone, rv_raw = [], rv_incomplete = [] \<rparr>\<rparr>
                    else if so_event s = ''error'' then
                      let raw = boundedText_text (so_data s);
                          class = (if bt_truncated (so_data s) then FailureChannelTransient else sseErrorClass errorType raw)
                      in s\<lparr>so_result := Some \<lparr> rv_reason = endStreamErrorEvent, rv_class = class, rv_raw = raw,
                             rv_incomplete = (if bt_truncated (so_data s) then incompleteTruncated else []) \<rparr>\<rparr>
                    else s)
           in s\<lparr>so_event := [], so_data := boundedText_reset (so_data s), so_dataLines := 0\<rparr>
         else if so_mode s = ModeEvent then s\<lparr>so_event := so_value s\<rparr>
         else if so_mode s = ModeName \<and> so_prefix s = ''event'' then s\<lparr>so_event := []\<rparr>
         else if so_mode s = ModeName \<and> so_prefix s = ''data'' \<and> so_event s = ''error'' then add_line s
         else s)
      in s\<lparr>so_prefix := [], so_value := [], so_mode := ModeName, so_lineBytes := 0, so_skipSpace := False\<rparr>)"

text \<open>The body of the loop of \<open>feed\<close> after the line ends have been handled.\<close>

definition feed_char :: "char \<Rightarrow> sseObserver \<Rightarrow> sseObserver" where
  "feed_char b s =
     (let s = s\<lparr>so_lineBytes := so_lineBytes s + 1\<rparr> in
      if so_mode s = ModeName then
        if b = CHR '':'' then
          let s = s\<lparr>so_mode := (if so_prefix s = ''event'' then ModeEvent else if so_prefix s = ''data'' then ModeData else ModeOther),
                    so_skipSpace := True\<rparr>
          in if so_mode s = ModeData \<and> so_event s = ''error'' then add_line s else s
        else if length (so_prefix s) < 6 then s\<lparr>so_prefix := so_prefix s @ [b]\<rparr>
        else s\<lparr>so_mode := ModeOther\<rparr>
      else
        let skip = so_skipSpace s; s = s\<lparr>so_skipSpace := False\<rparr> in
        if skip \<and> b = CHR '' '' then s
        else case so_mode s of
          ModeEvent \<Rightarrow> if length (so_value s) < 32 then s\<lparr>so_value := so_value s @ [b]\<rparr> else s
        | ModeData \<Rightarrow> if so_event s = ''error'' then s\<lparr>so_data := boundedText_add [b] (so_data s)\<rparr> else s
        | _ \<Rightarrow> s)"

fun feed :: "(string \<Rightarrow> string option) \<Rightarrow> string \<Rightarrow> sseObserver \<Rightarrow> sseObserver" where
  "feed errorType [] s = s"
| "feed errorType (b # p) s =
     (if so_result s \<noteq> None then s
      else if b = newline \<and> so_cr s then feed errorType p (s\<lparr>so_cr := False\<rparr>)
      else
        let s = s\<lparr>so_cr := False\<rparr> in
        if b = carriage \<or> b = newline then feed errorType p ((endLine errorType s)\<lparr>so_cr := (b = carriage)\<rparr>)
        else feed errorType p (feed_char b s))"

section \<open>Specification: reading the stream line by line\<close>

text \<open>
  The complete lines of a stream: CR, LF and CRLF end a line. \<open>l\<close> is the line so far and \<open>cr\<close>
  tells whether the last byte was a CR.
\<close>

fun sse_lines :: "string \<Rightarrow> bool \<Rightarrow> string \<Rightarrow> string list" where
  "sse_lines l cr [] = []"
| "sse_lines l cr (b # p) =
     (if b = newline \<and> cr then sse_lines l False p
      else if b = carriage \<or> b = newline then l # sse_lines [] (b = carriage) p
      else sse_lines (l @ [b]) False p)"

definition field_name :: "string \<Rightarrow> string" where
  "field_name l = takeWhile (\<lambda>c. c \<noteq> CHR '':'') l"

definition field_rest :: "string \<Rightarrow> string" where
  "field_rest l = tl (dropWhile (\<lambda>c. c \<noteq> CHR '':'') l)"

definition field_value :: "string \<Rightarrow> string" where
  "field_value l = (if field_rest l \<noteq> [] \<and> hd (field_rest l) = CHR '' '' then tl (field_rest l) else field_rest l)"

fun join_lines :: "string list \<Rightarrow> string" where
  "join_lines [] = []"
| "join_lines [l] = l"
| "join_lines (l # ls) = l @ newline # join_lines ls"

text \<open>The verdict of an \<open>error\<close> event with the given data lines.\<close>

definition error_verdict :: "(string \<Rightarrow> string option) \<Rightarrow> nat \<Rightarrow> string list \<Rightarrow> responseVerdict" where
  "error_verdict errorType limit datas =
     (let raw = join_lines datas in
      if length raw \<le> limit
      then \<lparr> rv_reason = endStreamErrorEvent, rv_class = sseErrorClass errorType raw, rv_raw = raw, rv_incomplete = [] \<rparr>
      else \<lparr> rv_reason = endStreamErrorEvent, rv_class = FailureChannelTransient, rv_raw = fst (Prefix raw limit),
             rv_incomplete = incompleteTruncated \<rparr>)"

text \<open>
  The first \<open>message_stop\<close> or \<open>error\<close> event decides. \<open>ev\<close> is the name of the event being read,
  \<open>datas\<close> the data lines seen since it was named \<open>error\<close>.
\<close>

fun sse_verdict :: "(string \<Rightarrow> string option) \<Rightarrow> nat \<Rightarrow> string \<Rightarrow> string list \<Rightarrow> string list \<Rightarrow> responseVerdict option" where
  "sse_verdict errorType limit ev datas [] = None"
| "sse_verdict errorType limit ev datas (l # ls) =
     (if l = [] then
        if ev = ''message_stop'' then Some \<lparr> rv_reason = endCompleted, rv_class = FailureNone, rv_raw = [], rv_incomplete = [] \<rparr>
        else if ev = ''error'' then Some (error_verdict errorType limit datas)
        else sse_verdict errorType limit [] [] ls
      else if field_name l = ''event'' then sse_verdict errorType limit (field_value l) datas ls
      else if field_name l = ''data'' \<and> ev = ''error'' then sse_verdict errorType limit ev (datas @ [field_value l]) ls
      else sse_verdict errorType limit ev datas ls)"

section \<open>Lemmas\<close>

lemma prefix_cut_take: "0 < j \<Longrightarrow> prefix_cut (take stop s) stop j = prefix_cut s stop j"
proof (induction s stop j rule: prefix_cut.induct)
  case (1 s stop j)
  have "take j (drop (stop - j) (take stop s)) = take j (drop (stop - j) s)" if "j \<le> stop"
    using that by (simp add: drop_take)
  moreover have "take stop s ! (stop - j) = s ! (stop - j)" if "j \<le> stop" using that 1(2) by (intro nth_take) simp
  ultimately show ?case using 1 by (subst (1 2) prefix_cut.simps) (simp add: Let_def)
qed

lemma prefix_cut_le: "prefix_cut s stop j \<le> stop"
  by (induction s stop j rule: prefix_cut.induct) (subst prefix_cut.simps, simp add: Let_def)

lemma Prefix_take: "limit \<le> length s \<Longrightarrow> fst (Prefix (take limit s) limit) = fst (Prefix s limit)"
  using prefix_cut_le [of s limit 1] by (simp add: Prefix_def prefix_cut_take Let_def)

text \<open>A bounded text after the bytes \<open>raw\<close> have been added to an empty one.\<close>

definition bounded :: "nat \<Rightarrow> string \<Rightarrow> boundedText" where
  "bounded limit raw = \<lparr> bt_data = take limit raw, bt_limit = int limit, bt_truncated = (limit < length raw) \<rparr>"

lemma bounded_add [simp]: "0 < limit \<Longrightarrow> boundedText_add p (bounded limit raw) = bounded limit (raw @ p)"
  by (auto simp: boundedText_add_def bounded_def Let_def min_def nat_diff_distrib)

lemma bounded_reset [simp]: "boundedText_reset (bounded limit raw) = bounded limit []"
  by (simp add: boundedText_reset_def bounded_def)

lemma bounded_text: "boundedText_text (bounded limit raw) = (if length raw \<le> limit then raw else fst (Prefix raw limit))"
  by (simp add: boundedText_text_def bounded_def Prefix_take)

lemma bounded_truncated [simp]: "bt_truncated (bounded limit raw) \<longleftrightarrow> limit < length raw"
  by (simp add: bounded_def)

lemma join_snoc: "join_lines (ds @ [v]) = (if ds = [] then v else join_lines ds @ newline # v)"
  by (induction ds rule: join_lines.induct) auto

lemma field_name_snoc:
  "field_name (l @ [b]) = (if CHR '':'' \<in> set l \<or> b = CHR '':'' then field_name l else field_name l @ [b])"
  by (induction l) (auto simp: field_name_def)

lemma field_name_absent: "CHR '':'' \<notin> set l \<Longrightarrow> field_name l = l"
  by (induction l) (auto simp: field_name_def)

lemma field_rest_snoc: "field_rest (l @ [b]) = (if CHR '':'' \<in> set l then field_rest l @ [b] else [])"
  by (induction l) (auto simp: field_rest_def tl_append split: list.split)

lemma field_rest_absent: "CHR '':'' \<notin> set l \<Longrightarrow> field_rest l = []"
  by (induction l) (auto simp: field_rest_def)

lemma field_value_snoc:
  "field_value (l @ [b]) =
     (if CHR '':'' \<notin> set l then [] else if field_rest l = [] \<and> b = CHR '' '' then [] else field_value l @ [b])"
  by (auto simp: field_value_def field_rest_snoc hd_append tl_append split: list.splits)

lemma field_value_absent: "CHR '':'' \<notin> set l \<Longrightarrow> field_value l = []"
  by (simp add: field_value_def field_rest_absent)

lemma field_Nil [simp]: "field_name [] = []" "field_rest [] = []" "field_value [] = []"
  by (simp_all add: field_name_def field_rest_def field_value_def)

lemma field_value_empty: "field_rest l = [] \<Longrightarrow> field_value l = []"
  by (simp add: field_value_def)

lemma take_eq_short: "length t < n \<Longrightarrow> take n s = t \<longleftrightarrow> s = t"
  by (auto simp: take_all_iff)

section \<open>The observer implements the specification\<close>

text \<open>
  The state of the observer when the line so far is \<open>l\<close>, the event is \<open>ev\<close> and the complete
  data lines of an error event are \<open>datas\<close>.
\<close>

definition line_mode :: "string \<Rightarrow> sseMode" where
  "line_mode l =
     (if CHR '':'' \<in> set l then
        if field_name l = ''event'' then ModeEvent else if field_name l = ''data'' then ModeData else ModeOther
      else if 6 < length l then ModeOther else ModeName)"

definition lines_of :: "string \<Rightarrow> string list \<Rightarrow> string \<Rightarrow> string list" where
  "lines_of ev datas l = (if line_mode l = ModeData \<and> ev = ''error'' then datas @ [field_value l] else datas)"

definition observing :: "nat \<Rightarrow> string \<Rightarrow> string list \<Rightarrow> string \<Rightarrow> bool \<Rightarrow> sseObserver" where
  "observing limit ev datas l cr =
     \<lparr> so_event = take 32 ev, so_prefix = take 6 (field_name l),
       so_value = (if line_mode l = ModeEvent then take 32 (field_value l) else []), so_mode = line_mode l,
       so_skipSpace = (CHR '':'' \<in> set l \<and> length (field_name l) \<le> 6 \<and> field_rest l = []), so_cr = cr,
       so_lineBytes = length l, so_data = bounded limit (join_lines (lines_of ev datas l)),
       so_dataLines = length (lines_of ev datas l), so_result = None \<rparr>"

lemma observing_start: "0 < limit \<Longrightarrow> newObserver (int limit) = observing limit [] [] [] False"
  by (simp add: newObserver_def observing_def line_mode_def lines_of_def field_name_def field_value_def field_rest_def bounded_def)

lemma observing_cr [simp]: "(observing limit ev datas l cr)\<lparr>so_cr := c\<rparr> = observing limit ev datas l c"
  by (simp add: observing_def)

lemma observing_fields [simp]: "so_cr (observing limit ev datas l cr) = cr" "so_result (observing limit ev datas l cr) = None"
  by (simp_all add: observing_def)

lemma field_name_le: "length (field_name l) \<le> length l"
  by (simp add: field_name_def length_takeWhile_le)

lemma feed_char_name:
  assumes "0 < limit" and "CHR '':'' \<notin> set l"
  shows "feed_char b (observing limit ev datas l cr) = observing limit ev datas (l @ [b]) cr"
proof (cases "b = CHR '':''")
  case True
  have n: "field_name (l @ [b]) = l" "field_value (l @ [b]) = []" "field_rest (l @ [b]) = []"
    using assms True by (simp_all add: field_name_snoc field_name_absent field_value_snoc field_rest_snoc)
  show ?thesis
  proof (cases "6 < length l")
    case True
    then have "l \<noteq> ''event''" "l \<noteq> ''data''" by auto
    then show ?thesis using assms True \<open>b = _\<close> n
      by (simp add: feed_char_def observing_def line_mode_def lines_of_def field_name_absent Let_def)
  next
    case False
    then show ?thesis using assms \<open>b = _\<close> n
      by (auto simp: feed_char_def observing_def line_mode_def lines_of_def field_name_absent Let_def add_line_def
          take_eq_short join_snoc)
  qed
next
  case False
  then show ?thesis using assms
    by (auto simp: feed_char_def observing_def line_mode_def lines_of_def field_name_snoc field_name_absent
        field_value_snoc field_rest_snoc Let_def)
qed

lemma feed_char_value:
  assumes "0 < limit" and "CHR '':'' \<in> set l"
  shows "feed_char b (observing limit ev datas l cr) = observing limit ev datas (l @ [b]) cr"
  using assms
  by (auto simp: feed_char_def observing_def line_mode_def lines_of_def field_name_snoc field_value_snoc field_rest_snoc
      field_value_empty Let_def take_eq_short join_snoc split: sseMode.splits)

lemma feed_char_observing:
  "0 < limit \<Longrightarrow> feed_char b (observing limit ev datas l cr) = observing limit ev datas (l @ [b]) cr"
  using feed_char_name feed_char_value by blast

lemma line_mode_Nil [simp]: "line_mode [] = ModeName"
  by (simp add: line_mode_def)

lemma lines_of_Nil [simp]: "lines_of ev datas [] = datas"
  by (simp add: lines_of_def)

lemma endLine_blank_other:
  "ev \<noteq> ''message_stop'' \<Longrightarrow> ev \<noteq> ''error'' \<Longrightarrow>
   endLine et (observing limit ev datas [] cr) = observing limit [] [] [] cr"
  by (simp add: endLine_def observing_def Let_def take_eq_short field_name_def field_rest_def)

lemma endLine_blank_result:
  "so_result (endLine et (observing limit ev datas [] cr)) =
     (if ev = ''message_stop'' then Some \<lparr> rv_reason = endCompleted, rv_class = FailureNone, rv_raw = [], rv_incomplete = [] \<rparr>
      else if ev = ''error'' then Some (error_verdict et limit datas) else None)"
  by (simp add: endLine_def observing_def Let_def take_eq_short error_verdict_def bounded_text)

lemma endLine_line:
  assumes "0 < limit" and "l \<noteq> []"
  shows "endLine et (observing limit ev datas l cr) =
    (if field_name l = ''event'' then observing limit (field_value l) datas [] cr
     else if field_name l = ''data'' \<and> ev = ''error'' then observing limit ev (datas @ [field_value l]) [] cr
     else observing limit ev datas [] cr)"
proof (cases "CHR '':'' \<in> set l")
  case True
  then show ?thesis using assms
    by (auto simp: endLine_def observing_def Let_def line_mode_def lines_of_def take_eq_short)
next
  case False
  then have n: "field_name l = l" "field_value l = []" by (simp_all add: field_name_absent field_value_absent)
  show ?thesis
  proof (cases "6 < length l")
    case True
    then have "l \<noteq> ''event''" "l \<noteq> ''data''" by auto
    moreover have "line_mode l = ModeOther" using False True by (simp add: line_mode_def)
    ultimately show ?thesis unfolding n using assms
      by (simp add: endLine_def observing_def Let_def lines_of_def)
  next
    case short: False
    have mode: "line_mode l = ModeName" using False short by (simp add: line_mode_def)
    have obs: "observing limit ev datas l cr = (observing limit ev datas [] cr)\<lparr>so_prefix := l, so_lineBytes := length l\<rparr>"
      using short False by (simp add: observing_def mode lines_of_def n(1))
    show ?thesis unfolding obs n using assms
      by (cases "l = ''event''"; cases "l = ''data''")
        (simp_all add: endLine_def observing_def Let_def take_eq_short add_line_def join_snoc)
  qed
qed

lemma feed_done: "so_result s \<noteq> None \<Longrightarrow> feed et p s = s"
  by (cases p) auto

lemma feed_observing:
  assumes "0 < limit"
  shows "so_result (feed et p (observing limit ev datas l cr)) = sse_verdict et limit ev datas (sse_lines l cr p)"
proof (induction p arbitrary: ev datas l cr)
  case (Cons b p)
  consider (skip) "b = newline \<and> cr" | (line) "b = carriage \<or> b = newline" "\<not> (b = newline \<and> cr)"
    | (char) "b \<noteq> carriage" "b \<noteq> newline" by blast
  then show ?case
  proof cases
    case skip
    then show ?thesis by (simp add: Cons)
  next
    case line
    let ?e = "endLine et (observing limit ev datas l False)"
    have f: "feed et (b # p) (observing limit ev datas l cr) = feed et p (?e\<lparr>so_cr := (b = carriage)\<rparr>)"
      using line by auto
    have ln: "sse_lines l cr (b # p) = l # sse_lines [] (b = carriage) p" using line by auto
    show ?thesis
    proof (cases "l = []")
      case True
      show ?thesis
      proof (cases "ev = ''message_stop'' \<or> ev = ''error''")
        case True
        then have "so_result ?e \<noteq> None" using \<open>l = []\<close> by (auto simp: endLine_blank_result)
        then have "feed et p (?e\<lparr>so_cr := (b = carriage)\<rparr>) = ?e\<lparr>so_cr := (b = carriage)\<rparr>" by (intro feed_done) simp
        then show ?thesis unfolding f ln using True \<open>l = []\<close> by (auto simp: endLine_blank_result)
      next
        case False
        then show ?thesis unfolding f ln using \<open>l = []\<close> by (simp add: endLine_blank_other Cons)
      qed
    next
      case False
      then show ?thesis unfolding f ln using assms by (simp add: endLine_line Cons)
    qed
  next
    case char
    then show ?thesis using assms by (simp add: feed_char_observing Cons)
  qed
qed simp

lemma feed_append: "feed et (p @ q) s = feed et q (feed et p s)"
  by (induction p arbitrary: s) (auto simp: feed_done Let_def)

lemma feed_chunks: "fold (feed et) chunks s = feed et (concat chunks) s"
  by (induction chunks arbitrary: s) (simp_all add: feed_append)

text \<open>
  C21. Whatever the reads of the response body are split into, the observer, which keeps at most
  six bytes of a field name, 32 of an event name and the error text up to its limit, reaches
  exactly the verdict of reading the whole stream line by line: the first \<open>message_stop\<close> or
  \<open>error\<close> event decides, CR, LF and CRLF all end a line, and an error text beyond the limit is
  cut at a character and marked.
\<close>

theorem observer_verdict:
  assumes "0 < limit"
  shows "so_result (fold (feed errorType) chunks (newObserver (int limit))) =
    sse_verdict errorType limit [] [] (sse_lines [] False (concat chunks))"
  using assms by (simp add: feed_chunks observing_start feed_observing)

theorem observer_verdict_witness:
  "so_result (fold (feed (\<lambda>_. Some ''billing_error'')) [''event: er'', ''ror'' @ [carriage], newline # ''data:{}'' @ [newline, newline]]
     (newObserver (int 8))) =
   Some \<lparr> rv_reason = endStreamErrorEvent, rv_class = FailureChannelImmediate, rv_raw = ''{}'', rv_incomplete = [] \<rparr>"
  using observer_verdict [of 8 "\<lambda>_. Some ''billing_error''" "[''event: er'', ''ror'' @ [carriage], newline # ''data:{}'' @ [newline, newline]]"]
  by (simp add: newline_def carriage_def error_verdict_def field_name_def field_value_def field_rest_def sseErrorClass_def)

end
