(* ===== verification/Gateway_Attempt.thy ===== *)
theory Gateway_Attempt
  imports Gateway_SSE
begin

text \<open>
  Package gateway, the control of one upstream attempt (\<open>internal/gateway/upstream_attempt.go\<close>):
  one mutex-protected record that the request goroutine, the body reader, the client and
  shutdown callbacks and the timer callback race on. Every critical section is one function
  on the record; code that runs between two critical sections (the epoch a timer callback
  loads before it takes the lock, the network read between the two halves of \<open>Read\<close>) is an
  argument of the later section, so a sequence of sections is an arbitrary interleaving.
\<close>

section \<open>Data\<close>

record UpstreamLimits =
  ul_ResponseHeader :: duration
  ul_ResponseIdle :: duration
  ul_ErrorBody :: duration
  ul_ErrorTextBytes :: int

definition DefaultResponseHeaderTimeout :: duration where "DefaultResponseHeaderTimeout = 200 * Second"
definition DefaultResponseIdleTimeout :: duration where "DefaultResponseIdleTimeout = 240 * Second"
definition DefaultErrorBodyTimeout :: duration where "DefaultErrorBodyTimeout = 120 * Second"

definition UpstreamLimits_defaults :: "UpstreamLimits \<Rightarrow> UpstreamLimits" where
  "UpstreamLimits_defaults v =
     \<lparr> ul_ResponseHeader = (if ul_ResponseHeader v \<le> 0 then DefaultResponseHeaderTimeout else ul_ResponseHeader v),
       ul_ResponseIdle = (if ul_ResponseIdle v \<le> 0 then DefaultResponseIdleTimeout else ul_ResponseIdle v),
       ul_ErrorBody = (if ul_ErrorBody v \<le> 0 then DefaultErrorBodyTimeout else ul_ErrorBody v),
       ul_ErrorTextBytes = (if ul_ErrorTextBytes v \<le> 0 then DefaultErrorTextLimit else ul_ErrorTextBytes v) \<rparr>"

record attemptStop =
  as_reason :: stopReason
  as_message :: string

text \<open>
  \<open>ua_cause\<close> is the state of the context: \<open>None\<close> while it is live, \<open>Some cause\<close> once it is
  cancelled, with the cause the first call of \<open>cancel\<close> gave.
\<close>

record upstreamAttempt =
  ua_fixed :: bool
  ua_background :: bool
  ua_result :: "responseVerdict option"
  ua_observer :: "sseObserver option"
  ua_streaming :: bool
  ua_status :: int
  ua_cause :: "attemptStop option option"
  ua_hooks :: bool \<comment> \<open>the client and shutdown callbacks are registered\<close>
  ua_timer :: bool \<comment> \<open>the timer has been created\<close>
  ua_epoch :: u64
  ua_callbackEpoch :: u64
  ua_timerArmed :: bool
  ua_timerDeadline :: gotime
  ua_timerWait :: duration
  ua_timerReason :: stopReason
  ua_headersAt :: gotime
  ua_bytes :: int
  ua_stopped :: "attemptStop option"
  ua_finished :: bool
  ua_detached :: bool
  ua_limits :: UpstreamLimits

section \<open>Critical sections\<close>

definition cancel :: "attemptStop option \<Rightarrow> upstreamAttempt \<Rightarrow> upstreamAttempt" where
  "cancel cause a = (if ua_cause a = None then a\<lparr>ua_cause := Some cause\<rparr> else a)"

definition claimLocked :: "responseVerdict \<Rightarrow> upstreamAttempt \<Rightarrow> upstreamAttempt" where
  "claimLocked v a = (if ua_result a = None then a\<lparr>ua_result := Some v\<rparr> else a)"

definition stopTimerLocked :: "upstreamAttempt \<Rightarrow> upstreamAttempt" where
  "stopTimerLocked a =
     (let a = a\<lparr>ua_epoch := ua_epoch a + 1\<rparr> in a\<lparr>ua_callbackEpoch := ua_epoch a, ua_timerArmed := False\<rparr>)"

definition armLocked :: "duration \<Rightarrow> stopReason \<Rightarrow> gotime \<Rightarrow> upstreamAttempt \<Rightarrow> upstreamAttempt" where
  "armLocked wait reason now a =
     (stopTimerLocked a)\<lparr>ua_timerArmed := True, ua_timerDeadline := now + wait, ua_timerWait := wait,
        ua_timerReason := reason, ua_timer := True\<rparr>"

definition stopLocked :: "stopReason \<Rightarrow> string \<Rightarrow> upstreamAttempt \<Rightarrow> upstreamAttempt" where
  "stopLocked reason message a =
     (if ua_stopped a \<noteq> None \<or> ua_finished a then a
      else
        let class = (if reason = stopShutdown then FailureNeutral
                     else if reason = stopClientCanceled then FailureClientCanceled else FailureChannelImmediate);
            verdictReason = (if reason = stopShutdown then endLocalError else reason);
            a = claimLocked \<lparr> rv_reason = verdictReason, rv_class = class, rv_raw = message, rv_incomplete = [] \<rparr> a;
            stopped = \<lparr> as_reason = reason, as_message = message \<rparr>
        in cancel (Some stopped) (stopTimerLocked (a\<lparr>ua_stopped := Some stopped\<rparr>)))"

text \<open>\<open>render\<close> formats the message of a timeout from its reason, its wait and the bytes received.\<close>

type_synonym render = "stopReason \<Rightarrow> duration \<Rightarrow> int \<Rightarrow> string"

definition timerFired :: "render \<Rightarrow> u64 \<Rightarrow> gotime \<Rightarrow> upstreamAttempt \<Rightarrow> upstreamAttempt" where
  "timerFired render epoch now a =
     (if ua_epoch a \<noteq> epoch \<or> \<not> ua_timerArmed a \<or> ua_finished a \<or> ua_stopped a \<noteq> None \<or> now < ua_timerDeadline a then a
      else stopLocked (ua_timerReason a) (render (ua_timerReason a) (ua_timerWait a) (ua_bytes a)) a)"

definition stop :: "stopReason \<Rightarrow> string \<Rightarrow> bool \<Rightarrow> upstreamAttempt \<Rightarrow> upstreamAttempt" where
  "stop reason message client a = (if client \<and> ua_detached a then a else stopLocked reason message a)"

definition newUpstreamAttempt :: "UpstreamLimits \<Rightarrow> bool \<Rightarrow> gotime \<Rightarrow> upstreamAttempt" where
  "newUpstreamAttempt limits stream now =
     (let a = \<lparr> ua_fixed = False, ua_background = False, ua_result = None, ua_observer = None, ua_streaming = False, ua_status = 0,
                ua_cause = None, ua_hooks = True, ua_timer = False, ua_epoch = 0, ua_callbackEpoch = 0, ua_timerArmed = False,
                ua_timerDeadline = 0, ua_timerWait = 0, ua_timerReason = [], ua_headersAt = 0, ua_bytes = 0, ua_stopped = None,
                ua_finished = False, ua_detached = False, ua_limits = limits \<rparr>
      in if stream then armLocked (ul_ResponseHeader limits) stopResponseHeaderTimeout now a else a)"

text \<open>
  What \<open>receiveHeaders\<close> returns: the stop that came first, the transport error, or the
  response, whose body is wrapped. \<open>response\<close> is \<open>None\<close> for a nil response.
\<close>

datatype header_result = Stopped attemptStop | TransportError string | Response "int option"

definition headers_arrived :: "int \<Rightarrow> gotime \<Rightarrow> upstreamAttempt \<Rightarrow> upstreamAttempt" where
  "headers_arrived status now a =
     (let a = a\<lparr>ua_headersAt := now\<rparr>;
          class = ClassifyHTTPStatus status
      in if status < 200 \<or> status \<ge> 300 then
           (claimLocked \<lparr> rv_reason = endHTTPError, rv_class = class, rv_raw = [], rv_incomplete = [] \<rparr> a)
             \<lparr>ua_detached := (ua_fixed a \<or> ShouldFailover (zeroOutcome\<lparr>o_Class := class\<rparr>))\<rparr>
         else a)"

definition receiveHeaders :: "int option \<Rightarrow> string option \<Rightarrow> gotime \<Rightarrow> upstreamAttempt \<Rightarrow> header_result \<times> upstreamAttempt" where
  "receiveHeaders response err now a =
     (let a = stopTimerLocked a in
      case ua_stopped a of
        Some s \<Rightarrow> (Stopped s, a)
      | None \<Rightarrow>
        case err of
          Some e \<Rightarrow>
            (TransportError e,
             claimLocked \<lparr> rv_reason = endTransportError, rv_class = FailureGlobalTransient, rv_raw = e, rv_incomplete = [] \<rparr> a)
        | None \<Rightarrow> (Response response, (case response of None \<Rightarrow> a | Some status \<Rightarrow> headers_arrived status now a)))"

definition upstreamAttempt_reason :: "upstreamAttempt \<Rightarrow> stopReason" where
  "upstreamAttempt_reason a = (case ua_stopped a of Some s \<Rightarrow> as_reason s | None \<Rightarrow> [])"

definition upstreamAttempt_close :: "upstreamAttempt \<Rightarrow> upstreamAttempt" where
  "upstreamAttempt_close a =
     (let a = stopTimerLocked (a\<lparr>ua_finished := True\<rparr>) in cancel None (a\<lparr>ua_hooks := False\<rparr>))"

definition timeoutResponse :: "attemptStop option \<Rightarrow> (string \<times> string) option" where
  "timeoutResponse err =
     (case err of
        None \<Rightarrow> None
      | Some s \<Rightarrow>
          if as_reason s = stopResponseHeaderTimeout then Some (''upstream_response_timeout'', as_message s)
          else if as_reason s = stopResponseIdleTimeout then Some (''upstream_idle_timeout'', as_message s)
          else None)"

section \<open>Reading the body\<close>

datatype read_error = EOF | ReadError string

text \<open>The two halves of \<open>Read\<close>, before and after the network read that returned \<open>p\<close> and \<open>err\<close>.\<close>

definition read_begin :: "gotime \<Rightarrow> upstreamAttempt \<Rightarrow> attemptStop option \<times> upstreamAttempt" where
  "read_begin now a =
     (if ua_stopped a = None \<and> \<not> ua_background a
      then (ua_stopped a, armLocked (ul_ResponseIdle (ua_limits a)) stopResponseIdleTimeout now a)
      else (ua_stopped a, a))"

text \<open>The verdict a read error claims in a streamed response.\<close>

definition stream_end :: "read_error \<Rightarrow> upstreamAttempt \<Rightarrow> responseVerdict" where
  "stream_end err a =
     (case err of
        ReadError e \<Rightarrow> \<lparr> rv_reason = endStreamInterrupted, rv_class = FailureChannelStream, rv_raw = e, rv_incomplete = [] \<rparr>
      | EOF \<Rightarrow>
          if ua_observer a \<noteq> None then
            \<lparr> rv_reason = endStreamTruncated, rv_class = FailureChannelStream, rv_raw = ''stream ended before message_stop'', rv_incomplete = [] \<rparr>
          else if ua_status a < 200 \<or> ua_status a \<ge> 300 then
            \<lparr> rv_reason = endHTTPError, rv_class = ClassifyHTTPStatus (ua_status a), rv_raw = [], rv_incomplete = [] \<rparr>
          else \<lparr> rv_reason = endCompleted, rv_class = FailureNone, rv_raw = [], rv_incomplete = [] \<rparr>)"

definition observe_bytes :: "(string \<Rightarrow> string option) \<Rightarrow> string \<Rightarrow> upstreamAttempt \<Rightarrow> upstreamAttempt" where
  "observe_bytes errorType p a =
     (case ua_observer a of
        None \<Rightarrow> a
      | Some ob \<Rightarrow>
          let ob = feed errorType p ob; a = a\<lparr>ua_observer := Some ob\<rparr>
          in (case so_result ob of None \<Rightarrow> a | Some v \<Rightarrow> claimLocked v a))"

definition received :: "(string \<Rightarrow> string option) \<Rightarrow> string \<Rightarrow> upstreamAttempt \<Rightarrow> upstreamAttempt" where
  "received errorType p a =
     (if p \<noteq> [] then let a = observe_bytes errorType p a in a\<lparr>ua_bytes := ua_bytes a + int (length p)\<rparr> else a)"

definition read_failed :: "read_error \<Rightarrow> upstreamAttempt \<Rightarrow> upstreamAttempt" where
  "read_failed e a =
     (let a = stopTimerLocked a;
          a = (case e of
                 EOF \<Rightarrow> a
               | ReadError t \<Rightarrow>
                   if \<not> ua_streaming a
                   then claimLocked \<lparr> rv_reason = endStreamInterrupted, rv_class = FailureChannelStream, rv_raw = t, rv_incomplete = [] \<rparr> a
                   else a)
      in if ua_streaming a then claimLocked (stream_end e a) a else a)"

definition read_end ::
  "(string \<Rightarrow> string option) \<Rightarrow> string \<Rightarrow> read_error option \<Rightarrow> upstreamAttempt \<Rightarrow>
     (string \<times> (attemptStop + read_error) option) \<times> upstreamAttempt" where
  "read_end errorType p err a =
     (let a = (if \<not> ua_background a then stopTimerLocked a else a) in
      case ua_stopped a of
        Some s \<Rightarrow> (([], Some (Inl s)), a)
      | None \<Rightarrow>
        let a = received errorType p a in
        case err of
          None \<Rightarrow> ((p, None), a)
        | Some e \<Rightarrow> ((p, Some (Inr e)), read_failed e a))"

definition body_close :: "upstreamAttempt \<Rightarrow> upstreamAttempt" where
  "body_close a = stopTimerLocked a"

definition claim :: "responseVerdict \<Rightarrow> upstreamAttempt \<Rightarrow> responseVerdict \<times> upstreamAttempt" where
  "claim v a = (let a = claimLocked v a in (the (ua_result a), a))"

definition zeroVerdict :: responseVerdict where
  "zeroVerdict = \<lparr> rv_reason = [], rv_class = FailureOther [], rv_raw = [], rv_incomplete = [] \<rparr>"

definition verdict :: "upstreamAttempt \<Rightarrow> responseVerdict" where
  "verdict a = (case ua_result a of None \<Rightarrow> zeroVerdict | Some v \<Rightarrow> v)"

text \<open>
  \<open>observeSSE\<close> on the status, the media type \<open>mime.ParseMediaType\<close> found and the value of
  \<open>Content-Encoding\<close>. \<open>EqualFold\<close> with \<open>identity\<close> compares ASCII letters without case.
\<close>

definition lower :: "char \<Rightarrow> char" where
  "lower c = (if 65 \<le> byte c \<and> byte c \<le> 90 then char_of (byte c + 32) else c)"

definition observeSSE :: "int \<Rightarrow> string option \<Rightarrow> string \<Rightarrow> bool" where
  "observeSSE status media encoding \<longleftrightarrow>
     status \<ge> 200 \<and> status < 300 \<and> media = Some ''text/event-stream'' \<and>
     (let encoding = TrimSpace encoding in encoding = [] \<or> map lower encoding = ''identity'')"

definition observe :: "int \<Rightarrow> bool \<Rightarrow> string option \<Rightarrow> string \<Rightarrow> upstreamAttempt \<Rightarrow> upstreamAttempt" where
  "observe status sse media encoding a =
     (let a = a\<lparr>ua_streaming := True, ua_status := status\<rparr> in
      if sse \<and> observeSSE status media encoding then a\<lparr>ua_observer := Some (newObserver (ul_ErrorTextBytes (ua_limits a)))\<rparr> else a)"

definition readBackground :: "gotime \<Rightarrow> upstreamAttempt \<Rightarrow> upstreamAttempt" where
  "readBackground now a =
     (let a = a\<lparr>ua_detached := True, ua_background := True\<rparr>;
          remaining = time_sub (ua_headersAt a + ul_ErrorBody (ua_limits a)) now
      in armLocked remaining stopErrorBodyTimeout now a)"

definition readFinal :: "bool \<Rightarrow> upstreamAttempt \<Rightarrow> upstreamAttempt" where
  "readFinal clientErr a =
     (let a = a\<lparr>ua_detached := False, ua_background := False\<rparr> in
      if clientErr then stop stopClientCanceled [] True a else a)"

section \<open>Interleavings\<close>

text \<open>
  One critical section. A timer callback carries the epoch it loaded before it took the lock;
  nothing is assumed about when a callback runs.
\<close>

datatype attempt_op =
  OpTimer u64 gotime
| OpStop stopReason string bool
| OpHeaders "int option" "string option" gotime
| OpReadBegin gotime
| OpReadEnd string "read_error option"
| OpBodyClose
| OpClaim responseVerdict
| OpObserve int bool "string option" string
| OpReadBackground gotime
| OpReadFinal bool
| OpClose

fun exec :: "(string \<Rightarrow> string option) \<Rightarrow> render \<Rightarrow> attempt_op \<Rightarrow> upstreamAttempt \<Rightarrow> upstreamAttempt" where
  "exec et render (OpTimer epoch now) a = timerFired render epoch now a"
| "exec et render (OpStop reason message client) a = stop reason message client a"
| "exec et render (OpHeaders response err now) a = snd (receiveHeaders response err now a)"
| "exec et render (OpReadBegin now) a = snd (read_begin now a)"
| "exec et render (OpReadEnd p err) a = snd (read_end et p err a)"
| "exec et render OpBodyClose a = body_close a"
| "exec et render (OpClaim v) a = snd (claim v a)"
| "exec et render (OpObserve status sse media encoding) a = observe status sse media encoding a"
| "exec et render (OpReadBackground now) a = readBackground now a"
| "exec et render (OpReadFinal clientErr) a = readFinal clientErr a"
| "exec et render OpClose a = upstreamAttempt_close a"

definition run :: "(string \<Rightarrow> string option) \<Rightarrow> render \<Rightarrow> attempt_op list \<Rightarrow> upstreamAttempt \<Rightarrow> upstreamAttempt" where
  "run et render ops a = fold (exec et render) ops a"

section \<open>What a critical section can change\<close>

lemma run_simps [simp]:
  "run et render [] a = a"
  "run et render (op # ops) a = run et render ops (exec et render op a)"
  by (simp_all add: run_def)

lemma run_append: "run et render (ops @ ops') a = run et render ops' (run et render ops a)"
  by (simp add: run_def)

text \<open>Verdict, stop and cancellation are written once.\<close>

definition settles :: "upstreamAttempt \<Rightarrow> upstreamAttempt \<Rightarrow> bool" where
  "settles a b \<longleftrightarrow>
     (ua_result a \<noteq> None \<longrightarrow> ua_result b = ua_result a) \<and> (ua_stopped a \<noteq> None \<longrightarrow> ua_stopped b = ua_stopped a) \<and>
     (ua_cause a \<noteq> None \<longrightarrow> ua_cause b = ua_cause a) \<and> (ua_finished a \<longrightarrow> ua_finished b) \<and>
     (ua_finished a \<longrightarrow> ua_stopped b = ua_stopped a)"

lemma settles_refl [simp]: "settles a a"
  by (simp add: settles_def)

lemma settles_trans: "settles a b \<Longrightarrow> settles b c \<Longrightarrow> settles a c"
  by (auto simp: settles_def)

lemma settles_claim [simp]: "settles a (claimLocked v a)"
  by (simp add: settles_def claimLocked_def)

lemma settles_stopTimer [simp]: "settles a (stopTimerLocked a)"
  by (simp add: settles_def stopTimerLocked_def)

lemma settles_arm [simp]: "settles a (armLocked wait reason now a)"
  by (simp add: settles_def armLocked_def stopTimerLocked_def)

lemma settles_stopLocked [simp]: "settles a (stopLocked reason message a)"
  by (simp add: settles_def stopLocked_def claimLocked_def stopTimerLocked_def cancel_def Let_def)

lemma settles_observe_bytes [simp]: "settles a (observe_bytes et p a)"
  by (simp add: settles_def observe_bytes_def claimLocked_def Let_def split: option.split)

lemma settles_received [simp]: "settles a (received et p a)"
  using settles_observe_bytes [of a et p] by (simp add: received_def settles_def Let_def)

lemma settles_read_failed [simp]: "settles a (read_failed e a)"
  by (cases e) (simp_all add: read_failed_def settles_def stopTimerLocked_def claimLocked_def Let_def)

lemma settles_headers_arrived [simp]: "settles a (headers_arrived status now a)"
  by (simp add: headers_arrived_def settles_def claimLocked_def Let_def)

lemma settles_receiveHeaders [simp]: "settles a (snd (receiveHeaders response err now a))"
  unfolding receiveHeaders_def Let_def
  by (auto intro: settles_trans [OF settles_stopTimer] split: option.split)

lemma settles_read_end [simp]: "settles a (snd (read_end et p err a))"
proof -
  define b where "b = (if \<not> ua_background a then stopTimerLocked a else a)"
  have "settles a b" by (simp add: b_def)
  moreover have "settles b (snd (read_end et p err a))"
    unfolding read_end_def b_def [symmetric] Let_def
    using settles_trans [OF settles_received settles_read_failed] by (auto split: option.split)
  ultimately show ?thesis by (rule settles_trans)
qed

lemma settles_exec: "settles a (exec et render op a)"
proof (cases op)
  case OpClose
  then show ?thesis by (simp add: upstreamAttempt_close_def settles_def stopTimerLocked_def cancel_def Let_def)
next
  case (OpReadFinal c)
  then show ?thesis
    using settles_stopLocked [of "a\<lparr>ua_detached := False, ua_background := False\<rparr>" stopClientCanceled "[]"]
    by (auto simp: readFinal_def stop_def settles_def Let_def)
next
  case (OpReadBackground now)
  then show ?thesis by (simp add: readBackground_def settles_def armLocked_def stopTimerLocked_def Let_def)
next
  case (OpObserve status sse media encoding)
  then show ?thesis by (simp add: observe_def settles_def Let_def)
qed (simp_all add: timerFired_def stop_def read_begin_def body_close_def claim_def Let_def)

lemma settles_run: "settles a (run et render ops a)"
  by (induction ops arbitrary: a) (auto intro: settles_trans [OF settles_exec])

section \<open>A stop decides the verdict and cancels the context\<close>

definition attempt_inv :: "upstreamAttempt \<Rightarrow> bool" where
  "attempt_inv a \<longleftrightarrow>
     ua_callbackEpoch a = ua_epoch a \<and> (ua_cause a \<noteq> None \<longrightarrow> ua_stopped a \<noteq> None \<or> ua_finished a) \<and>
     (\<forall>s. ua_stopped a = Some s \<longrightarrow> ua_result a \<noteq> None \<and> ua_cause a = Some (Some s))"

lemma attempt_inv_stopLocked: "attempt_inv a \<Longrightarrow> attempt_inv (stopLocked reason message a)"
  by (auto simp: attempt_inv_def stopLocked_def claimLocked_def stopTimerLocked_def cancel_def Let_def)

lemma attempt_inv_stopTimer: "attempt_inv a \<Longrightarrow> attempt_inv (stopTimerLocked a)"
  by (simp add: attempt_inv_def stopTimerLocked_def)

lemma attempt_inv_arm: "attempt_inv a \<Longrightarrow> attempt_inv (armLocked wait reason now a)"
  by (simp add: attempt_inv_def armLocked_def stopTimerLocked_def)

lemma attempt_inv_claim: "attempt_inv a \<Longrightarrow> attempt_inv (claimLocked v a)"
  by (simp add: attempt_inv_def claimLocked_def)

lemma attempt_inv_update:
  "attempt_inv (a\<lparr>ua_detached := d\<rparr>) = attempt_inv a" "attempt_inv (a\<lparr>ua_background := d\<rparr>) = attempt_inv a"
  "attempt_inv (a\<lparr>ua_headersAt := t\<rparr>) = attempt_inv a" "attempt_inv (a\<lparr>ua_bytes := n\<rparr>) = attempt_inv a"
  "attempt_inv (a\<lparr>ua_observer := ob\<rparr>) = attempt_inv a" "attempt_inv (a\<lparr>ua_streaming := d\<rparr>) = attempt_inv a"
  "attempt_inv (a\<lparr>ua_status := n\<rparr>) = attempt_inv a"
  by (simp_all add: attempt_inv_def)

lemmas attempt_inv_parts = attempt_inv_stopLocked attempt_inv_stopTimer attempt_inv_arm attempt_inv_claim attempt_inv_update

lemma attempt_inv_received: "attempt_inv a \<Longrightarrow> attempt_inv (received et p a)"
  by (simp add: received_def observe_bytes_def Let_def attempt_inv_parts split: option.split)

lemma attempt_inv_read_failed: "attempt_inv a \<Longrightarrow> attempt_inv (read_failed e a)"
  by (cases e) (simp_all add: read_failed_def Let_def attempt_inv_parts)

lemma attempt_inv_read_end: "attempt_inv a \<Longrightarrow> attempt_inv (snd (read_end et p err a))"
  unfolding read_end_def Let_def
  by (auto simp: attempt_inv_parts attempt_inv_received attempt_inv_read_failed split: option.split)

lemma attempt_inv_headers: "attempt_inv a \<Longrightarrow> attempt_inv (snd (receiveHeaders response err now a))"
  unfolding receiveHeaders_def headers_arrived_def Let_def
  by (auto simp: attempt_inv_parts split: option.split)

lemma attempt_inv_exec: "attempt_inv a \<Longrightarrow> attempt_inv (exec et render op a)"
proof (cases op)
  case OpClose
  assume "attempt_inv a"
  with OpClose show ?thesis by (auto simp: upstreamAttempt_close_def attempt_inv_def stopTimerLocked_def cancel_def Let_def)
qed (simp_all add: timerFired_def stop_def read_begin_def body_close_def claim_def observe_def readBackground_def readFinal_def
      Let_def attempt_inv_parts attempt_inv_read_end attempt_inv_headers)

lemma attempt_inv_new: "attempt_inv (newUpstreamAttempt limits stream now)"
  by (simp add: newUpstreamAttempt_def attempt_inv_def armLocked_def stopTimerLocked_def Let_def)

lemma attempt_inv_run: "attempt_inv a \<Longrightarrow> attempt_inv (run et render ops a)"
  by (induction ops arbitrary: a) (auto intro: attempt_inv_exec)

text \<open>
  C20. However client cancellation, shutdown, timer callbacks, headers and reads interleave, the
  attempt settles once: the first verdict, the first stop and the first cancellation cause
  stay, a stop has claimed a verdict and cancelled the request with itself as the cause, the
  context is cancelled only by a stop or after the attempt was closed, and after closing no
  stop happens.
\<close>

theorem attempt_settles_once:
  assumes "a = run et render ops (newUpstreamAttempt limits stream now)"
  shows "settles a (run et render later a) \<and>
    (\<forall>s. ua_stopped a = Some s \<longrightarrow> ua_result a \<noteq> None \<and> ua_cause a = Some (Some s)) \<and>
    (ua_cause a \<noteq> None \<longrightarrow> ua_stopped a \<noteq> None \<or> ua_finished a)"
  using settles_run attempt_inv_run [OF attempt_inv_new] assms by (simp add: attempt_inv_def)

theorem attempt_settles_once_witness:
  "\<exists>a. a = run (\<lambda>_. None) (\<lambda>_ _ _. ''late'') [OpTimer 1 300]
       (newUpstreamAttempt \<lparr> ul_ResponseHeader = 200, ul_ResponseIdle = 1, ul_ErrorBody = 1, ul_ErrorTextBytes = 1 \<rparr> True 0) \<and>
     ua_stopped a = Some \<lparr> as_reason = stopResponseHeaderTimeout, as_message = ''late'' \<rparr> \<and>
     settles a (run (\<lambda>_. None) (\<lambda>_ _ _. ''late'') [OpStop stopClientCanceled [] True, OpClose] a)"
  apply (intro exI conjI, rule refl)
   apply (simp add: newUpstreamAttempt_def timerFired_def stopLocked_def armLocked_def stopTimerLocked_def claimLocked_def
      cancel_def Let_def)
  apply (rule conjunct1 [OF attempt_settles_once [OF refl]])
  done

section \<open>Late timer callbacks\<close>

text \<open>
  A section either leaves the timer alone or moves the epoch on, by at most three.
\<close>

definition timer_moves :: "upstreamAttempt \<Rightarrow> upstreamAttempt \<Rightarrow> nat \<Rightarrow> bool" where
  "timer_moves a b k \<longleftrightarrow>
     ua_epoch b = ua_epoch a + of_nat k \<and>
     (k = 0 \<longrightarrow> ua_timerArmed b = ua_timerArmed a \<and> ua_timerDeadline b = ua_timerDeadline a \<and>
        ua_timerReason b = ua_timerReason a \<and> ua_timerWait b = ua_timerWait a)"

lemma timer_moves_trans: "timer_moves a b j \<Longrightarrow> timer_moves b c k \<Longrightarrow> timer_moves a c (j + k)"
  by (auto simp: timer_moves_def)

lemma timer_moves_0 [simp]: "timer_moves a a 0"
  by (simp add: timer_moves_def)

lemma timer_moves_stopTimer: "timer_moves a (stopTimerLocked a) 1"
  by (simp add: timer_moves_def stopTimerLocked_def Let_def)

lemma timer_moves_claim: "timer_moves a (claimLocked v a) 0"
  by (simp add: timer_moves_def claimLocked_def)

lemma timer_moves_stopLocked: "\<exists>k \<le> 1. timer_moves a (stopLocked reason message a) k"
proof (cases "ua_stopped a \<noteq> None \<or> ua_finished a")
  case True
  then have "stopLocked reason message a = a" by (simp add: stopLocked_def)
  then show ?thesis using timer_moves_0 by fastforce
next
  case False
  then have "timer_moves a (stopLocked reason message a) 1"
    by (simp add: stopLocked_def timer_moves_def claimLocked_def stopTimerLocked_def cancel_def Let_def)
  then show ?thesis by blast
qed

lemma timer_moves_received: "timer_moves a (received et p a) 0"
  by (simp add: received_def observe_bytes_def timer_moves_def claimLocked_def Let_def split: option.split)

lemma timer_moves_read_failed: "timer_moves a (read_failed e a) 1"
  by (cases e) (simp_all add: read_failed_def timer_moves_def claimLocked_def stopTimerLocked_def Let_def)

lemma timer_moves_read_end: "\<exists>k \<le> 2. timer_moves a (snd (read_end et p err a)) k"
proof -
  define b where "b = (if \<not> ua_background a then stopTimerLocked a else a)"
  obtain i where i: "i \<le> 1" "timer_moves a b i" using timer_moves_stopTimer timer_moves_0 by (cases "ua_background a") (force simp: b_def)+
  have "\<exists>k \<le> 1. timer_moves b (snd (read_end et p err a)) k"
  proof (cases "ua_stopped b = None \<and> err \<noteq> None")
    case True
    then obtain e where "snd (read_end et p err a) = read_failed e (received et p b)"
      by (auto simp: read_end_def b_def Let_def)
    then show ?thesis using timer_moves_trans [OF timer_moves_received timer_moves_read_failed] by fastforce
  next
    case False
    then have "snd (read_end et p err a) \<in> {b, received et p b}"
      by (auto simp: read_end_def b_def Let_def split: option.split)
    then show ?thesis using timer_moves_received timer_moves_0 by fastforce
  qed
  then obtain k where "k \<le> 1" "timer_moves b (snd (read_end et p err a)) k" by blast
  then show ?thesis using i timer_moves_trans [OF i(2)] by (intro exI [of _ "i + k"]) auto
qed

lemma timer_moves_headers: "timer_moves a (snd (receiveHeaders response err now a)) 1"
proof -
  have "timer_moves b (snd (receiveHeaders response err now a)) 0" if "b = stopTimerLocked a" for b
    unfolding receiveHeaders_def headers_arrived_def that [symmetric]
    by (simp add: timer_moves_def claimLocked_def Let_def split: option.split)
  from timer_moves_trans [OF timer_moves_stopTimer this [OF refl]] show ?thesis by simp
qed

lemma timer_moves_arm: "timer_moves a (armLocked wait reason now a) 1"
  by (simp add: timer_moves_def armLocked_def stopTimerLocked_def Let_def)

lemma timer_moves_frame:
  "ua_epoch b = ua_epoch a \<Longrightarrow> ua_timerArmed b = ua_timerArmed a \<Longrightarrow> ua_timerDeadline b = ua_timerDeadline a \<Longrightarrow>
   ua_timerReason b = ua_timerReason a \<Longrightarrow> ua_timerWait b = ua_timerWait a \<Longrightarrow> timer_moves a c k = timer_moves b c k"
  by (simp add: timer_moves_def)

lemma moves_le:
  "timer_moves a b 0 \<Longrightarrow> \<exists>k \<le> 2. timer_moves a b k"
  "timer_moves a b (Suc 0) \<Longrightarrow> \<exists>k \<le> 2. timer_moves a b k"
  "\<exists>k \<le> 1. timer_moves a b k \<Longrightarrow> \<exists>k \<le> 2. timer_moves a b k"
proof -
  show "timer_moves a b 0 \<Longrightarrow> \<exists>k \<le> 2. timer_moves a b k" by blast
  show "timer_moves a b (Suc 0) \<Longrightarrow> \<exists>k \<le> 2. timer_moves a b k" by (rule exI [of _ "Suc 0"]) simp
  show "\<exists>k \<le> 1. timer_moves a b k \<Longrightarrow> \<exists>k \<le> 2. timer_moves a b k" using le_trans one_le_numeral by blast
qed

lemmas timer_moves_parts = timer_moves_arm [simplified] timer_moves_stopTimer [simplified] timer_moves_claim
  timer_moves_headers [simplified] timer_moves_0

lemma timer_moves_exec: "\<exists>k \<le> 2. timer_moves a (exec et render op a) k"
proof (cases op)
  case (OpTimer e now)
  then show ?thesis using moves_le(3) [OF timer_moves_stopLocked] moves_le(1) [OF timer_moves_0] by (simp add: timerFired_def)
next
  case (OpStop reason message client)
  then show ?thesis using moves_le(3) [OF timer_moves_stopLocked] moves_le(1) [OF timer_moves_0] by (simp add: stop_def)
next
  case (OpReadFinal c)
  let ?b = "a\<lparr>ua_detached := False, ua_background := False\<rparr>"
  have "\<exists>k \<le> 2. timer_moves ?b (exec et render op a) k"
    using OpReadFinal moves_le(3) [OF timer_moves_stopLocked] moves_le(1) [OF timer_moves_0]
    by (simp add: readFinal_def stop_def Let_def)
  then show ?thesis using timer_moves_frame [of ?b a] by simp
next
  case (OpReadBackground now)
  let ?b = "a\<lparr>ua_detached := True, ua_background := True\<rparr>"
  have "timer_moves ?b (exec et render op a) (Suc 0)"
    using OpReadBackground timer_moves_parts(1) by (simp add: readBackground_def Let_def)
  then have "timer_moves a (exec et render op a) (Suc 0)" using timer_moves_frame [of ?b a] by simp
  then show ?thesis by (rule moves_le)
next
  case (OpReadBegin now)
  then show ?thesis using moves_le(2) [OF timer_moves_parts(1)] moves_le(1) [OF timer_moves_0] by (simp add: read_begin_def)
next
  case (OpReadEnd p err)
  then show ?thesis using timer_moves_read_end by simp
next
  case (OpHeaders response err now)
  then show ?thesis using moves_le(2) [OF timer_moves_parts(4)] by simp
next
  case OpClose
  then have "timer_moves a (exec et render op a) (Suc 0)"
    by (simp add: upstreamAttempt_close_def timer_moves_def stopTimerLocked_def cancel_def Let_def)
  then show ?thesis by (rule moves_le)
next
  case OpBodyClose
  then show ?thesis using moves_le(2) [OF timer_moves_parts(2)] by (simp add: body_close_def)
next
  case (OpClaim v)
  then show ?thesis using moves_le(1) [OF timer_moves_claim] by (simp add: claim_def Let_def)
next
  case (OpObserve status sse media encoding)
  then have "timer_moves a (exec et render op a) 0" by (simp add: observe_def timer_moves_def Let_def)
  then show ?thesis by (rule moves_le)
qed

lemma timer_moves_run: "\<exists>k \<le> 2 * length ops. timer_moves a (run et render ops a) k"
proof (induction ops arbitrary: a)
  case (Cons op ops)
  obtain j where j: "j \<le> 2" "timer_moves a (exec et render op a) j" using timer_moves_exec by blast
  obtain k where k: "k \<le> 2 * length ops" "timer_moves (exec et render op a) (run et render ops (exec et render op a)) k"
    using Cons by blast
  from timer_moves_trans [OF j(2) k(2)] j k show ?case by (intro exI [of _ "j + k"]) simp
qed (auto intro: exI [of _ 0])

text \<open>
  A timeout is genuine. A timer callback that loaded its epoch in state \<open>a\<close> and gets the
  lock only after any other critical sections have run, fewer than \<open>2^63\<close>, can stop the
  attempt only if the timer that was armed in state \<open>a\<close> is still the armed one, neither
  disarmed nor armed again in between, and its deadline has passed; otherwise it has no effect.
\<close>

theorem timeout_genuine:
  assumes "b = run et render ops a" and "length ops < 2 ^ 63" and "timerFired render (ua_epoch a) now b \<noteq> b"
  shows "ua_timerArmed a \<and> ua_timerArmed b \<and> ua_timerDeadline b = ua_timerDeadline a \<and> ua_timerReason b = ua_timerReason a \<and>
    ua_timerDeadline a \<le> now \<and> ua_stopped b = None \<and> \<not> ua_finished b \<and>
    upstreamAttempt_reason (timerFired render (ua_epoch a) now b) = ua_timerReason a"
proof -
  obtain k where k: "k \<le> 2 * length ops" "timer_moves a b k" using timer_moves_run assms(1) by blast
  from assms(3) have f: "ua_epoch b = ua_epoch a" "ua_timerArmed b" "\<not> ua_finished b" "ua_stopped b = None" "ua_timerDeadline b \<le> now"
    by (auto simp: timerFired_def split: if_splits)
  then have "(of_nat k :: u64) = 0" using k(2) by (simp add: timer_moves_def)
  moreover have "k < 2 ^ 64" using k(1) assms(2) by simp
  ultimately have "k = 0" by (auto simp: word_of_nat_eq_0_iff dest: dvd_imp_le)
  with k(2) f show ?thesis
    by (auto simp: timer_moves_def timerFired_def stopLocked_def upstreamAttempt_reason_def cancel_def stopTimerLocked_def Let_def)
qed

theorem timeout_genuine_witness:
  "let a = newUpstreamAttempt \<lparr> ul_ResponseHeader = 200, ul_ResponseIdle = 1, ul_ErrorBody = 1, ul_ErrorTextBytes = 1 \<rparr> True 5;
       b = run (\<lambda>_. None) (\<lambda>_ _ _. []) [OpObserve 200 False None []] a
   in timerFired (\<lambda>_ _ _. []) (ua_epoch a) 205 b \<noteq> b \<and> ua_timerDeadline a \<le> 205"
proof -
  let ?a = "newUpstreamAttempt \<lparr> ul_ResponseHeader = 200, ul_ResponseIdle = 1, ul_ErrorBody = 1, ul_ErrorTextBytes = 1 \<rparr> True 5"
  let ?b = "run (\<lambda>_. None) (\<lambda>_ _ _. []) [OpObserve 200 False None []] ?a"
  have "ua_stopped (timerFired (\<lambda>_ _ _. []) (ua_epoch ?a) 205 ?b) \<noteq> ua_stopped ?b"
    by (simp add: newUpstreamAttempt_def timerFired_def stopLocked_def armLocked_def stopTimerLocked_def claimLocked_def
        cancel_def observe_def Let_def)
  then have n: "timerFired (\<lambda>_ _ _. []) (ua_epoch ?a) 205 ?b \<noteq> ?b" by metis
  with timeout_genuine [OF refl _ n] show ?thesis by (simp add: Let_def)
qed

section \<open>The verdict of a stream\<close>

fun reading :: "attempt_op \<Rightarrow> bool" where
  "reading (OpReadEnd p err) = (err = None)"
| "reading (OpReadBegin now) = True"
| "reading (OpTimer epoch now) = True"
| "reading (OpStop reason message client) = True"
| "reading OpBodyClose = True"
| "reading _ = False"

fun op_bytes :: "attempt_op \<Rightarrow> string" where
  "op_bytes (OpReadEnd p err) = p"
| "op_bytes _ = []"

text \<open>While nothing has stopped the attempt, the observer has seen exactly the bytes read.\<close>

definition observed :: "(string \<Rightarrow> string option) \<Rightarrow> string \<Rightarrow> upstreamAttempt \<Rightarrow> bool" where
  "observed et bytes a \<longleftrightarrow>
     ua_streaming a \<and> (\<exists>ob. ua_observer a = Some ob \<and> ob = feed et bytes (newObserver (ul_ErrorTextBytes (ua_limits a))) \<and>
       ua_result a = so_result ob)"

lemma observed_timer: "observed et bytes (stopTimerLocked a) = observed et bytes a"
  "observed et bytes (armLocked wait reason now a) = observed et bytes a"
  by (simp_all add: observed_def armLocked_def stopTimerLocked_def)

lemma observed_received:
  assumes "observed et bytes a"
  shows "observed et (bytes @ p) (received et p a)"
proof -
  let ?ob = "feed et bytes (newObserver (ul_ErrorTextBytes (ua_limits a)))"
  have a: "ua_streaming a" "ua_observer a = Some ?ob" "ua_result a = so_result ?ob" using assms by (auto simp: observed_def)
  show ?thesis
  proof (cases "so_result ?ob")
    case None
    then show ?thesis using a
      by (auto simp: observed_def received_def observe_bytes_def claimLocked_def feed_append Let_def split: option.split)
  next
    case (Some v)
    then have "feed et p ?ob = ?ob" by (intro feed_done) simp
    then show ?thesis using a Some
      by (simp add: observed_def received_def observe_bytes_def claimLocked_def feed_append Let_def)
  qed
qed

lemma stopped_mono: "ua_stopped (exec et render op a) = None \<Longrightarrow> ua_stopped a = None"
  using settles_exec [of a et render op] by (auto simp: settles_def)

lemma observed_exec:
  assumes "observed et bytes a" and "reading op" and "ua_stopped (exec et render op a) = None"
  shows "observed et (bytes @ op_bytes op) (exec et render op a)"
proof -
  have n: "ua_stopped a = None" by (rule stopped_mono [OF assms(3)])
  have stop: "ua_stopped (stopLocked r m a) = None \<Longrightarrow> stopLocked r m a = a" for r m
    using n by (simp add: stopLocked_def cancel_def stopTimerLocked_def Let_def split: if_splits)
  show ?thesis
  proof (cases op)
    case (OpReadEnd p err)
    let ?b = "if \<not> ua_background a then stopTimerLocked a else a"
    have "exec et render op a = received et p ?b"
      using OpReadEnd assms(2) n by (simp add: read_end_def stopTimerLocked_def Let_def)
    moreover have "observed et bytes ?b" using assms(1) by (simp add: observed_timer)
    ultimately show ?thesis using observed_received OpReadEnd by simp
  next
    case (OpReadBegin now)
    then show ?thesis using assms by (simp add: read_begin_def observed_timer)
  next
    case (OpTimer e now)
    then have "exec et render op a = a" using assms(3) by (metis exec.simps(1) timerFired_def stop)
    then show ?thesis using assms OpTimer by simp
  next
    case (OpStop r m c)
    then have "exec et render op a = a" using assms(3) by (metis exec.simps(2) stop_def stop)
    then show ?thesis using assms OpStop by simp
  qed (use assms in \<open>simp_all add: body_close_def observed_timer\<close>)
qed

lemma observed_run:
  assumes "observed et bytes a" and "list_all reading ops" and "ua_stopped (run et render ops a) = None"
  shows "observed et (bytes @ concat (map op_bytes ops)) (run et render ops a)"
  using assms
proof (induction ops arbitrary: a bytes)
  case (Cons op ops)
  have "ua_stopped (exec et render op a) = None"
    using Cons.prems(3) settles_run [of "exec et render op a" et render ops] by (auto simp: settles_def)
  with observed_exec [OF Cons.prems(1)] Cons.prems(2) have "observed et (bytes @ op_bytes op) (exec et render op a)" by simp
  from Cons.IH [OF this] Cons.prems show ?case by simp
qed simp

lemma limits_parts:
  "ua_limits (stopTimerLocked a) = ua_limits a" "ua_limits (claimLocked v a) = ua_limits a" "ua_limits (cancel c a) = ua_limits a"
  "ua_limits (armLocked wait reason now a) = ua_limits a" "ua_limits (stopLocked reason message a) = ua_limits a"
  "ua_limits (received et p a) = ua_limits a"
  by (simp_all add: stopTimerLocked_def claimLocked_def cancel_def armLocked_def stopLocked_def received_def observe_bytes_def
      Let_def split: option.split)

lemma limits_read_failed: "ua_limits (read_failed e a) = ua_limits a"
  by (cases e) (simp_all add: read_failed_def limits_parts Let_def)

lemma limits_exec: "ua_limits (exec et render op a) = ua_limits a"
  by (cases op) (simp_all add: limits_parts limits_read_failed timerFired_def stop_def read_begin_def body_close_def claim_def observe_def
      readBackground_def readFinal_def read_end_def receiveHeaders_def headers_arrived_def upstreamAttempt_close_def
      Let_def split: option.split)

lemma limits_run: "ua_limits (run et render ops a) = ua_limits a"
  by (induction ops arbitrary: a) (simp_all add: limits_exec)

text \<open>
  C19. A streamed response of server-sent events is judged by its bytes. However the reads, timer
  callbacks and cancellations interleave, if nothing stopped the attempt before the body ended,
  its verdict is that of the first \<open>message_stop\<close> or \<open>error\<close> event of the bytes read, and a
  stream that ends without one counts as truncated, not as complete.
\<close>

theorem stream_verdict:
  assumes "ua_result a = None" and "0 < ul_ErrorTextBytes (ua_limits a)" and "observeSSE status media encoding"
    and "list_all reading ops" and "b = run et render ops (observe status True media encoding a)" and "ua_stopped b = None"
  shows "ua_result (snd (read_end et p (Some EOF) b)) =
    Some (case sse_verdict et (nat (ul_ErrorTextBytes (ua_limits a))) [] [] (sse_lines [] False (concat (map op_bytes ops) @ p)) of
            Some v \<Rightarrow> v
          | None \<Rightarrow> \<lparr> rv_reason = endStreamTruncated, rv_class = FailureChannelStream,
                      rv_raw = ''stream ended before message_stop'', rv_incomplete = [] \<rparr>)"
proof -
  let ?bytes = "concat (map op_bytes ops) @ p"
  let ?c = "received et p (if \<not> ua_background b then stopTimerLocked b else b)"
  have start: "observed et [] (observe status True media encoding a)"
    using assms(1,3) by (simp add: observe_def observed_def newObserver_def Let_def)
  have "observed et (concat (map op_bytes ops)) b" using observed_run [OF start assms(4)] assms(5,6) by simp
  then have c: "observed et ?bytes ?c" by (intro observed_received) (simp add: observed_timer)
  have lim: "ua_limits ?c = ua_limits a"
    using assms(5) limits_run [of et render ops] by (simp add: observe_def limits_parts Let_def)
  have v: "so_result (feed et ?bytes (newObserver (ul_ErrorTextBytes (ua_limits a)))) =
      sse_verdict et (nat (ul_ErrorTextBytes (ua_limits a))) [] [] (sse_lines [] False ?bytes)"
    using feed_observing [of "nat (ul_ErrorTextBytes (ua_limits a))"] observing_start [of "nat (ul_ErrorTextBytes (ua_limits a))"] assms(2)
    by simp
  have "snd (read_end et p (Some EOF) b) = read_failed EOF ?c"
    using assms(6) by (simp add: read_end_def stopTimerLocked_def Let_def)
  moreover have "ua_streaming ?c" "ua_observer ?c \<noteq> None"
      "ua_result ?c = sse_verdict et (nat (ul_ErrorTextBytes (ua_limits a))) [] [] (sse_lines [] False ?bytes)"
    using c v unfolding observed_def lim by auto
  ultimately show ?thesis
    by (simp add: read_failed_def stream_end_def claimLocked_def stopTimerLocked_def Let_def split: option.split)
qed

theorem stream_verdict_witness:
  "let a = newUpstreamAttempt \<lparr> ul_ResponseHeader = 2, ul_ResponseIdle = 2, ul_ErrorBody = 1, ul_ErrorTextBytes = 9 \<rparr> False 0;
       b = run (\<lambda>_. None) (\<lambda>_ _ _. []) [OpReadBegin 1] (observe 200 True (Some ''text/event-stream'') [] a)
   in ua_stopped b = None \<and> map_option rv_reason (ua_result (snd (read_end (\<lambda>_. None) ''ev'' (Some EOF) b))) = Some endStreamTruncated"
proof -
  let ?a = "newUpstreamAttempt \<lparr> ul_ResponseHeader = 2, ul_ResponseIdle = 2, ul_ErrorBody = 1, ul_ErrorTextBytes = 9 \<rparr> False 0"
  let ?b = "run (\<lambda>_. None) (\<lambda>_ _ _. []) [OpReadBegin 1] (observe 200 True (Some ''text/event-stream'') [] ?a)"
  have a: "ua_result ?a = None" "0 < ul_ErrorTextBytes (ua_limits ?a)" by (simp_all add: newUpstreamAttempt_def)
  have "TrimSpace [] = []" by code_simp
  then have o: "observeSSE 200 (Some ''text/event-stream'') []" by (simp add: observeSSE_def)
  have b: "ua_stopped ?b = None"
    by (simp add: newUpstreamAttempt_def observe_def read_begin_def armLocked_def stopTimerLocked_def Let_def)
  from stream_verdict [OF a o _ refl b, of "''ev''"] b show ?thesis unfolding Let_def by (simp add: newline_def carriage_def)
qed

end
