(* ===== verification/Affinity.thy ===== *)
theory Affinity
  imports Scheduler_Contracts
begin

text \<open>
  Session affinity (\<open>internal/scheduler/selector.go\<close>): the fields of \<open>Scheduler\<close> that hold
  sticky assignments and the functions that maintain them. An \<open>*assignmentEntry\<close> is shared
  by the map \<open>assignments\<close>, the list \<open>lru\<close> and the index \<open>byProvider\<close>, so entries live in a heap
  and the three structures hold addresses; the list element of an entry is named by the
  entry's address, because every entry is pushed on the list exactly once.

  Theory \<open>Affinity_Cache\<close> relates the three structures to one list of entries in order of
  use: the cache the code implements, with expiry from the front and eviction of the least
  recently used entry.
\<close>

section \<open>State\<close>

record Assignment =
  as_Key :: StickyKey
  as_ProviderID :: string
  as_Generation :: ProviderGeneration
  as_CreatedAt :: gotime
  as_LastUsedAt :: gotime

record assignmentEntry =
  ae_assignment :: Assignment
  ae_version :: u64

record pendingMigration =
  pm_ProviderID :: string
  pm_Generation :: ProviderGeneration
  pm_CreatedAt :: gotime
  pm_LastUsedAt :: gotime
  pm_Version :: u64

record affinity =
  af_heap :: "nat \<Rightarrow> assignmentEntry"
  af_nextAddr :: nat
  af_assignments :: "(StickyKey, nat) gomap"
  af_lru :: "nat list"
  af_byProvider :: "(string, (StickyKey, nat) gomap) gomap"
  af_pending :: "(StickyKey, pendingMigration) gomap"
  af_nextVersion :: u64

definition zeroEntry :: assignmentEntry where
  "zeroEntry = \<lparr> ae_assignment = \<lparr> as_Key = \<lparr>sk_SessionID = '''', sk_Model = '''', sk_RequestType = ''''\<rparr>,
     as_ProviderID = '''', as_Generation = '''', as_CreatedAt = 0, as_LastUsedAt = 0 \<rparr>, ae_version = 0 \<rparr>"

definition emptyAffinity :: affinity where
  "emptyAffinity = \<lparr> af_heap = (\<lambda>_. zeroEntry), af_nextAddr = 0, af_assignments = [], af_lru = [],
     af_byProvider = [], af_pending = [], af_nextVersion = 0 \<rparr>"

abbreviation asg_at :: "affinity \<Rightarrow> nat \<Rightarrow> Assignment" where
  "asg_at s a \<equiv> ae_assignment (af_heap s a)"

abbreviation key_at :: "affinity \<Rightarrow> nat \<Rightarrow> StickyKey" where
  "key_at s a \<equiv> as_Key (asg_at s a)"

section \<open>The index by provider\<close>

definition index_of :: "(string, (StickyKey, nat) gomap) gomap \<Rightarrow> string \<Rightarrow> (StickyKey, nat) gomap" where
  "index_of byProvider p = (case map_of byProvider p of None \<Rightarrow> [] | Some index \<Rightarrow> index)"

definition index_add ::
  "string \<Rightarrow> StickyKey \<Rightarrow> nat \<Rightarrow> (string, (StickyKey, nat) gomap) gomap \<Rightarrow> (string, (StickyKey, nat) gomap) gomap" where
  "index_add p k a byProvider = AList.update p (AList.update k a (index_of byProvider p)) byProvider"

definition index_remove ::
  "string \<Rightarrow> StickyKey \<Rightarrow> (string, (StickyKey, nat) gomap) gomap \<Rightarrow> (string, (StickyKey, nat) gomap) gomap" where
  "index_remove p k byProvider =
     (let index = AList.delete k (index_of byProvider p) in
      if index = [] then AList.delete p byProvider else AList.update p index byProvider)"

section \<open>Operations\<close>

text \<open>The loop skips zero, so it runs at most twice.\<close>

definition allocateAssignmentVersionLocked :: "affinity \<Rightarrow> u64 \<times> affinity" where
  "allocateAssignmentVersionLocked s =
     (let v = af_nextVersion s + 1; v = (if v \<noteq> 0 then v else v + 1) in (v, s\<lparr>af_nextVersion := v\<rparr>))"

text \<open>\<open>list.MoveToBack\<close> ignores an element that is not on the list.\<close>

definition move_to_back :: "nat \<Rightarrow> nat list \<Rightarrow> nat list" where
  "move_to_back a lru = (if a \<in> set lru then remove1 a lru @ [a] else lru)"

definition touchAssignmentLocked :: "nat \<Rightarrow> gotime \<Rightarrow> affinity \<Rightarrow> affinity" where
  "touchAssignmentLocked a now s =
     s\<lparr>af_heap := (af_heap s)(a := (af_heap s a)\<lparr>ae_assignment := (asg_at s a)\<lparr>as_LastUsedAt := now\<rparr>\<rparr>),
       af_lru := move_to_back a (af_lru s)\<rparr>"

definition removeAssignmentLocked :: "nat \<Rightarrow> affinity \<Rightarrow> affinity" where
  "removeAssignmentLocked a s =
     (let key = key_at s a in
      if map_of (af_assignments s) key \<noteq> Some a then s
      else s\<lparr>af_assignments := AList.delete key (af_assignments s),
             af_lru := remove1 a (af_lru s),
             af_byProvider := index_remove (as_ProviderID (asg_at s a)) key (af_byProvider s)\<rparr>)"

text \<open>
  The eviction loop \<open>for len(assignments) >= capacity\<close>. \<open>None\<close> is a loop that does not end or
  that dereferences the front of an empty list: a round that removes nothing repeats
  forever, and a round that removes an entry shrinks the map, so one round more than the
  map has entries is enough.
\<close>

fun evict_loop :: "nat \<Rightarrow> int \<Rightarrow> affinity \<Rightarrow> affinity option" where
  "evict_loop 0 capacity s = None"
| "evict_loop (Suc fuel) capacity s =
     (if \<not> int (length (af_assignments s)) \<ge> capacity then Some s
      else case af_lru s of
             [] \<Rightarrow> None
           | oldest # _ \<Rightarrow> evict_loop fuel capacity (removeAssignmentLocked oldest s))"

definition evict :: "int \<Rightarrow> affinity \<Rightarrow> affinity option" where
  "evict capacity s = evict_loop (Suc (length (af_assignments s))) capacity s"

text \<open>Pushing a new entry: heap, list, map and index.\<close>

definition push_entry :: "assignmentEntry \<Rightarrow> affinity \<Rightarrow> affinity" where
  "push_entry e s =
     (let a = af_nextAddr s; key = as_Key (ae_assignment e) in
      s\<lparr>af_heap := (af_heap s)(a := e), af_nextAddr := Suc a, af_lru := af_lru s @ [a],
        af_assignments := AList.update key a (af_assignments s),
        af_byProvider := index_add (as_ProviderID (ae_assignment e)) key a (af_byProvider s)\<rparr>)"

definition putAssignmentLocked :: "int \<Rightarrow> StickyKey \<Rightarrow> CompiledProvider \<Rightarrow> gotime \<Rightarrow> affinity \<Rightarrow> affinity option" where
  "putAssignmentLocked capacity key item now s =
     (let s = (case map_of (af_assignments s) key of
                 None \<Rightarrow> s | Some existing \<Rightarrow> removeAssignmentLocked existing s)
      in case evict capacity s of
           None \<Rightarrow> None
         | Some s \<Rightarrow>
             let (v, s) = allocateAssignmentVersionLocked s;
                 entry = \<lparr> ae_assignment = \<lparr> as_Key = key, as_ProviderID = cp_ID item,
                             as_Generation = cp_Generation item, as_CreatedAt = now, as_LastUsedAt = now \<rparr>,
                           ae_version = v \<rparr>
             in Some (push_entry entry (s\<lparr>af_pending := AList.delete key (af_pending s)\<rparr>)))"

text \<open>The expiry loop over the front of the list; \<open>None\<close> as for \<open>evict_loop\<close>.\<close>

fun expire_loop :: "nat \<Rightarrow> duration \<Rightarrow> gotime \<Rightarrow> affinity \<Rightarrow> affinity option" where
  "expire_loop 0 ttl now s = None"
| "expire_loop (Suc fuel) ttl now s =
     (case af_lru s of
        [] \<Rightarrow> Some s
      | a # _ \<Rightarrow> if now < as_LastUsedAt (asg_at s a) + ttl then Some s
                else expire_loop fuel ttl now (removeAssignmentLocked a s))"

definition pending_kept :: "duration \<Rightarrow> gotime \<Rightarrow> pendingMigration \<Rightarrow> bool" where
  "pending_kept ttl now p =
     (let lastUsed = (if pm_LastUsedAt p = 0 then pm_CreatedAt p else pm_LastUsedAt p)
      in \<not> (lastUsed = 0 \<or> \<not> now < lastUsed + ttl))"

definition expireLocked :: "duration \<Rightarrow> gotime \<Rightarrow> affinity \<Rightarrow> affinity option" where
  "expireLocked ttl now s =
     (case expire_loop (Suc (length (af_lru s))) ttl now s of
        None \<Rightarrow> None
      | Some s \<Rightarrow> Some (s\<lparr>af_pending := gfilter (\<lambda>_ p. pending_kept ttl now p) (af_pending s)\<rparr>))"

definition markPendingEntryLocked :: "nat \<Rightarrow> affinity \<Rightarrow> affinity" where
  "markPendingEntryLocked a s =
     (if sk_SessionID (key_at s a) = [] then s
      else s\<lparr>af_pending := AList.update (key_at s a)
               \<lparr> pm_ProviderID = as_ProviderID (asg_at s a), pm_Generation = as_Generation (asg_at s a),
                 pm_CreatedAt = as_CreatedAt (asg_at s a), pm_LastUsedAt = as_LastUsedAt (asg_at s a),
                 pm_Version = ae_version (af_heap s a) \<rparr> (af_pending s)\<rparr>)"

definition appendProviderEntries :: "(StickyKey, nat) gomap \<Rightarrow> nat list" where
  "appendProviderEntries entries = map snd entries"

definition park :: "nat \<Rightarrow> affinity \<Rightarrow> affinity" where
  "park a s = removeAssignmentLocked a (markPendingEntryLocked a s)"

definition removeProviderAssignmentsLocked :: "string \<Rightarrow> ProviderGeneration \<Rightarrow> affinity \<Rightarrow> affinity" where
  "removeProviderAssignmentsLocked providerID generation s =
     foldl (\<lambda>s a. if as_Generation (asg_at s a) = generation then park a s else s)
       s (appendProviderEntries (index_of (af_byProvider s) providerID))"

definition removeChannelAssignmentsLocked ::
  "string \<Rightarrow> ProviderGeneration \<Rightarrow> string \<Rightarrow> RequestType \<Rightarrow> affinity \<Rightarrow> affinity" where
  "removeChannelAssignmentsLocked providerID generation model requestType s =
     foldl (\<lambda>s a. if as_Generation (asg_at s a) = generation \<and> sk_Model (key_at s a) = model \<and>
                     sk_RequestType (key_at s a) = requestType then park a s else s)
       s (appendProviderEntries (index_of (af_byProvider s) providerID))"

text \<open>
  The part of \<open>migrateAssignmentLocked\<close> behind its guards. The lease contributes its sticky
  key and its provider; \<open>nows\<close> are the clock readings of the call in order.
\<close>

definition createReplacement ::
  "int \<Rightarrow> StickyKey \<Rightarrow> CompiledProvider \<Rightarrow> gotime \<Rightarrow> gotime \<Rightarrow> affinity \<Rightarrow> affinity option" where
  "createReplacement capacity key item createdAt now s =
     (let (v, s) = allocateAssignmentVersionLocked s;
          entry = \<lparr> ae_assignment = \<lparr> as_Key = key, as_ProviderID = cp_ID item,
                      as_Generation = cp_Generation item, as_CreatedAt = createdAt, as_LastUsedAt = now \<rparr>,
                    ae_version = v \<rparr>
      in case evict capacity s of
           None \<Rightarrow> None
         | Some s \<Rightarrow>
             (let s = push_entry entry s in Some (s\<lparr>af_pending := AList.delete key (af_pending s)\<rparr>)))"

definition moveAssignment :: "nat \<Rightarrow> StickyKey \<Rightarrow> CompiledProvider \<Rightarrow> gotime \<Rightarrow> affinity \<Rightarrow> affinity" where
  "moveAssignment a key item now s =
     (let s = s\<lparr>af_byProvider := index_remove (as_ProviderID (asg_at s a)) key (af_byProvider s)\<rparr>;
          (v, s) = allocateAssignmentVersionLocked s;
          s = s\<lparr>af_heap := (af_heap s)(a := \<lparr> ae_assignment =
                  (asg_at s a)\<lparr>as_ProviderID := cp_ID item, as_Generation := cp_Generation item\<rparr>,
                  ae_version = v \<rparr>)\<rparr>;
          s = touchAssignmentLocked a now s
      in s\<lparr>af_byProvider := index_add (cp_ID item) key a (af_byProvider s),
           af_pending := AList.delete key (af_pending s)\<rparr>)"

end
