(* ===== verification/Affinity_Cache.thy ===== *)
theory Affinity_Cache
  imports Affinity
begin

text \<open>
  The sticky assignments as a bounded cache. The invariant \<open>aff_inv\<close> says that the map, the
  LRU list and the index by provider describe the same set of entries; under it every
  operation of \<open>Affinity\<close> acts on \<open>aff_abs\<close>, the list of entries in order of use, like a
  short list function.
\<close>

section \<open>The index by provider\<close>

definition index_get :: "(string, (StickyKey, nat) gomap) gomap \<Rightarrow> string \<Rightarrow> StickyKey \<Rightarrow> nat option" where
  "index_get byProvider p k = map_of (index_of byProvider p) k"

definition index_wf :: "(string, (StickyKey, nat) gomap) gomap \<Rightarrow> bool" where
  "index_wf byProvider \<longleftrightarrow> gdistinct byProvider \<and>
     (\<forall>p index. map_of byProvider p = Some index \<longrightarrow> index \<noteq> [] \<and> gdistinct index)"

lemma index_get_add [gomap_simps]:
  "index_get (index_add p k a b) p' k' = (if p' = p \<and> k' = k then Some a else index_get b p' k')"
  by (auto simp: index_get_def index_add_def index_of_def gomap_simps)

lemma index_get_remove [gomap_simps]:
  "index_get (index_remove p k b) p' k' = (if p' = p \<and> k' = k then None else index_get b p' k')"
proof (cases "AList.delete k (index_of b p) = []")
  case True
  then have del: "map_of (AList.delete k (index_of b p)) k' = None" for k' by simp
  then have "map_of (index_of b p) k' = None" if "k' \<noteq> k" for k' using that del [of k'] by (simp add: gomap_simps)
  with True show ?thesis
    by (auto simp: index_get_def index_remove_def index_of_def gomap_simps)
next
  case False
  then show ?thesis
    by (auto simp: index_get_def index_remove_def index_of_def gomap_simps)
qed

lemma index_of_distinct: "index_wf b \<Longrightarrow> gdistinct (index_of b p)"
  by (auto simp: index_wf_def index_of_def split: option.split)

lemma index_add_wf [inv_intros]: "index_wf b \<Longrightarrow> index_wf (index_add p k a b)"
  using index_of_distinct [of b p]
  by (auto simp: index_wf_def index_add_def gomap_simps update_nonempty split: if_splits)

lemma index_remove_wf [inv_intros]: "index_wf b \<Longrightarrow> index_wf (index_remove p k b)"
  using index_of_distinct [of b p]
  by (auto simp: index_wf_def index_remove_def gomap_simps Let_def split: if_splits)

section \<open>The invariant\<close>

definition aff_inv :: "affinity \<Rightarrow> bool" where
  "aff_inv s \<longleftrightarrow> gdistinct (af_assignments s) \<and> distinct (af_lru s) \<and> index_wf (af_byProvider s) \<and>
     (\<forall>k a. map_of (af_assignments s) k = Some a \<longrightarrow> a < af_nextAddr s \<and> key_at s a = k) \<and>
     (\<forall>a. a \<in> set (af_lru s) \<longleftrightarrow> map_of (af_assignments s) (key_at s a) = Some a) \<and>
     (\<forall>p k a. index_get (af_byProvider s) p k = Some a \<longleftrightarrow>
        map_of (af_assignments s) k = Some a \<and> as_ProviderID (asg_at s a) = p) \<and>
     gdistinct (af_pending s) \<and> (\<forall>k. map_of (af_pending s) k \<noteq> None \<longrightarrow> map_of (af_assignments s) k = None)"

lemma aff_invI:
  assumes "gdistinct (af_assignments s)" and "distinct (af_lru s)" and "index_wf (af_byProvider s)"
    and "\<And>k a. map_of (af_assignments s) k = Some a \<Longrightarrow> a < af_nextAddr s \<and> key_at s a = k"
    and "\<And>a. a \<in> set (af_lru s) \<longleftrightarrow> map_of (af_assignments s) (key_at s a) = Some a"
    and "\<And>p k a. index_get (af_byProvider s) p k = Some a \<longleftrightarrow>
        map_of (af_assignments s) k = Some a \<and> as_ProviderID (asg_at s a) = p"
    and "gdistinct (af_pending s)"
    and "\<And>k. map_of (af_pending s) k \<noteq> None \<Longrightarrow> map_of (af_assignments s) k = None"
  shows "aff_inv s"
  using assms unfolding aff_inv_def by blast

lemma aff_invD:
  assumes "aff_inv s"
  shows "gdistinct (af_assignments s)" and "distinct (af_lru s)" and "index_wf (af_byProvider s)"
    and "map_of (af_assignments s) k = Some a \<Longrightarrow> a < af_nextAddr s \<and> key_at s a = k"
    and "a \<in> set (af_lru s) \<longleftrightarrow> map_of (af_assignments s) (key_at s a) = Some a"
    and "index_get (af_byProvider s) p k = Some a \<longleftrightarrow>
        map_of (af_assignments s) k = Some a \<and> as_ProviderID (asg_at s a) = p"
    and "gdistinct (af_pending s)"
    and "map_of (af_pending s) k \<noteq> None \<Longrightarrow> map_of (af_assignments s) k = None"
  using assms unfolding aff_inv_def by blast+

lemma emptyAffinity_inv [inv_intros]: "aff_inv emptyAffinity"
  by (simp add: aff_inv_def emptyAffinity_def index_wf_def index_get_def index_of_def)

text \<open>Every entry on the list is the map's entry for its key, and the other way round.\<close>

lemma lru_iff_assigned:
  assumes "aff_inv s"
  shows "map_of (af_assignments s) k = Some a \<longleftrightarrow> a \<in> set (af_lru s) \<and> key_at s a = k"
  using aff_invD(4,5) [OF assms] by metis

lemma lru_key_inj: "aff_inv s \<Longrightarrow> inj_on (key_at s) (set (af_lru s))"
  by (rule inj_onI) (metis lru_iff_assigned option.inject)

lemma lru_length:
  assumes "aff_inv s"
  shows "length (af_assignments s) = length (af_lru s)"
proof -
  have "k \<in> fst ` set (af_assignments s) \<longleftrightarrow> k \<in> key_at s ` set (af_lru s)" for k
    using lru_iff_assigned [OF assms, of k] map_of_eq_None_iff [of "af_assignments s" k]
    by (metis (no_types, lifting) image_iff not_None_eq)
  then have "fst ` set (af_assignments s) = key_at s ` set (af_lru s)" by blast
  then have "card (set (gkeys (af_assignments s))) = card (set (af_lru s))"
    using card_image [OF lru_key_inj [OF assms]] by simp
  then show ?thesis
    using distinct_card [OF aff_invD(1) [OF assms]] distinct_card [OF aff_invD(2) [OF assms]] by simp
qed

section \<open>The cache as a list\<close>

definition aff_abs :: "affinity \<Rightarrow> assignmentEntry list" where
  "aff_abs s = map (af_heap s) (af_lru s)"

abbreviation ekey :: "assignmentEntry \<Rightarrow> StickyKey" where
  "ekey e \<equiv> as_Key (ae_assignment e)"

definition cache_lookup :: "StickyKey \<Rightarrow> assignmentEntry list \<Rightarrow> assignmentEntry option" where
  "cache_lookup k es = List.find (\<lambda>e. ekey e = k) es"

definition cache_remove :: "StickyKey \<Rightarrow> assignmentEntry list \<Rightarrow> assignmentEntry list" where
  "cache_remove k es = filter (\<lambda>e. ekey e \<noteq> k) es"

definition cache_evict :: "int \<Rightarrow> assignmentEntry list \<Rightarrow> assignmentEntry list" where
  "cache_evict capacity es = drop (nat (int (length es) + 1 - capacity)) es"

definition cache_expire :: "duration \<Rightarrow> gotime \<Rightarrow> assignmentEntry list \<Rightarrow> assignmentEntry list" where
  "cache_expire ttl now es = dropWhile (\<lambda>e. \<not> now < as_LastUsedAt (ae_assignment e) + ttl) es"

lemma length_aff_abs: "aff_inv s \<Longrightarrow> length (aff_abs s) = length (af_assignments s)"
  by (simp add: aff_abs_def lru_length)

lemma aff_abs_keys: "aff_inv s \<Longrightarrow> distinct (map ekey (aff_abs s))"
  using lru_key_inj [of s] aff_invD(2) [of s]
  by (simp add: aff_abs_def distinct_map comp_def inj_on_def)

lemma find_distinct_key:
  "distinct (map f xs) \<Longrightarrow> x \<in> set xs \<Longrightarrow> List.find (\<lambda>y. f y = f x) xs = Some x"
  by (induction xs) auto

lemma aff_lookup:
  assumes "aff_inv s"
  shows "map_option (af_heap s) (map_of (af_assignments s) k) = cache_lookup k (aff_abs s)"
proof (cases "map_of (af_assignments s) k")
  case None
  then have "\<nexists>a. a \<in> set (af_lru s) \<and> key_at s a = k"
    using lru_iff_assigned [OF assms, of k] by simp
  then have "cache_lookup k (aff_abs s) = None"
    by (auto simp: cache_lookup_def aff_abs_def find_None_iff)
  with None show ?thesis by simp
next
  case (Some a)
  then have a: "a \<in> set (af_lru s)" "key_at s a = k" using lru_iff_assigned [OF assms] by blast+
  then have "af_heap s a \<in> set (aff_abs s)" by (simp add: aff_abs_def)
  from find_distinct_key [OF aff_abs_keys [OF assms] this] a(2) Some show ?thesis
    by (simp add: cache_lookup_def)
qed

section \<open>Removing\<close>

lemma remove_frame [frame_simps]:
  "af_heap (removeAssignmentLocked a s) = af_heap s" "af_pending (removeAssignmentLocked a s) = af_pending s"
  "af_nextAddr (removeAssignmentLocked a s) = af_nextAddr s"
  "af_nextVersion (removeAssignmentLocked a s) = af_nextVersion s"
  by (simp_all add: removeAssignmentLocked_def Let_def)

lemma remove_assignments [gomap_simps]:
  "map_of (af_assignments s) (key_at s a) = Some a \<Longrightarrow>
     map_of (af_assignments (removeAssignmentLocked a s)) k =
       (if k = key_at s a then None else map_of (af_assignments s) k)"
  by (simp add: removeAssignmentLocked_def gomap_simps Let_def)

lemma remove_stale: "map_of (af_assignments s) (key_at s a) \<noteq> Some a \<Longrightarrow> removeAssignmentLocked a s = s"
  by (simp add: removeAssignmentLocked_def Let_def)

lemma removeAssignmentLocked_inv [inv_intros]:
  assumes "aff_inv s"
  shows "aff_inv (removeAssignmentLocked a s)"
proof (cases "map_of (af_assignments s) (key_at s a) = Some a")
  case True
  note inv = aff_invD [OF assms]
  let ?t = "removeAssignmentLocked a s"
  have t: "af_assignments ?t = AList.delete (key_at s a) (af_assignments s)" "af_lru ?t = remove1 a (af_lru s)"
    "af_byProvider ?t = index_remove (as_ProviderID (asg_at s a)) (key_at s a) (af_byProvider s)"
    using True by (simp_all add: removeAssignmentLocked_def Let_def)
  show ?thesis
  proof (rule aff_invI)
    show "gdistinct (af_assignments ?t)" "distinct (af_lru ?t)" "index_wf (af_byProvider ?t)"
      "gdistinct (af_pending ?t)"
      using inv(1,2,3,7) by (simp_all add: t frame_simps inv_intros)
    show "b < af_nextAddr ?t \<and> key_at ?t b = k" if "map_of (af_assignments ?t) k = Some b" for k b
      using that inv(4) [of k b] True by (simp add: frame_simps gomap_simps split: if_splits)
    show "b \<in> set (af_lru ?t) \<longleftrightarrow> map_of (af_assignments ?t) (key_at ?t b) = Some b" for b
      unfolding t(2) frame_simps set_remove1_eq [OF inv(2)] remove_assignments [OF True]
      using inv(5) [of b] True by (metis Diff_iff option.inject option.distinct(1) singleton_iff)
    show "index_get (af_byProvider ?t) p k = Some b \<longleftrightarrow>
        map_of (af_assignments ?t) k = Some b \<and> as_ProviderID (asg_at ?t b) = p" for p k b
      using inv(6) [of p k b] True by (auto simp: t(3) frame_simps gomap_simps split: if_splits)
    show "map_of (af_assignments ?t) k = None" if "map_of (af_pending ?t) k \<noteq> None" for k
      using inv(8) [of k] that True by (simp add: frame_simps gomap_simps)
  qed
qed (use assms in \<open>simp add: remove_stale\<close>)

lemma removeAssignmentLocked_abs:
  assumes "aff_inv s" and "a \<in> set (af_lru s)"
  shows "aff_abs (removeAssignmentLocked a s) = cache_remove (key_at s a) (aff_abs s)"
    and "af_lru (removeAssignmentLocked a s) = remove1 a (af_lru s)"
proof -
  have a: "map_of (af_assignments s) (key_at s a) = Some a" using assms aff_invD(5) by blast
  then show lru: "af_lru (removeAssignmentLocked a s) = remove1 a (af_lru s)"
    by (simp add: removeAssignmentLocked_def Let_def)
  have "remove1 a (af_lru s) = filter (\<lambda>b. key_at s b \<noteq> key_at s a) (af_lru s)"
    using lru_key_inj [OF assms(1)] assms(2) aff_invD(2) [OF assms(1)]
    by (auto simp: distinct_remove1_removeAll removeAll_filter_not_eq inj_on_def intro!: filter_cong)
  then show "aff_abs (removeAssignmentLocked a s) = cache_remove (key_at s a) (aff_abs s)"
    by (simp add: aff_abs_def cache_remove_def lru frame_simps filter_map comp_def)
qed

lemma remove_front:
  assumes "aff_inv s" and "af_lru s = a # rest"
  shows "aff_abs (removeAssignmentLocked a s) = tl (aff_abs s)"
    and "length (af_assignments (removeAssignmentLocked a s)) = length (af_assignments s) - 1"
    and "af_lru (removeAssignmentLocked a s) = rest"
proof -
  have lru: "af_lru (removeAssignmentLocked a s) = rest"
    using removeAssignmentLocked_abs(2) [OF assms(1)] assms(2) by simp
  then show "af_lru (removeAssignmentLocked a s) = rest" .
  show "aff_abs (removeAssignmentLocked a s) = tl (aff_abs s)"
    by (simp add: aff_abs_def lru assms(2) frame_simps)
  show "length (af_assignments (removeAssignmentLocked a s)) = length (af_assignments s) - 1"
    using lru lru_length [OF removeAssignmentLocked_inv [OF assms(1)], of a] lru_length [OF assms(1)] assms(2) by simp
qed

section \<open>Eviction and expiry end\<close>

lemma evict_loop_spec:
  assumes "aff_inv s" and "0 < capacity" and "length (af_assignments s) < fuel"
  shows "\<exists>s'. evict_loop fuel capacity s = Some s' \<and> aff_inv s' \<and> aff_abs s' = cache_evict capacity (aff_abs s) \<and>
    af_pending s' = af_pending s \<and> af_nextVersion s' = af_nextVersion s \<and> af_heap s' = af_heap s \<and>
    af_nextAddr s' = af_nextAddr s"
  using assms
proof (induction fuel arbitrary: s)
  case (Suc fuel)
  show ?case
  proof (cases "int (length (af_assignments s)) \<ge> capacity")
    case False
    with Suc.prems show ?thesis by (simp add: cache_evict_def length_aff_abs)
  next
    case True
    then obtain a rest where lru: "af_lru s = a # rest"
      using Suc.prems(1,2) lru_length by (cases "af_lru s") fastforce+
    let ?t = "removeAssignmentLocked a s"
    note front = remove_front [OF Suc.prems(1) lru]
    have "length (af_assignments ?t) < fuel" using front(2) Suc.prems(3) True Suc.prems(2) by linarith
    from Suc.IH [OF removeAssignmentLocked_inv [OF Suc.prems(1)] Suc.prems(2) this]
    obtain s' where s': "evict_loop fuel capacity ?t = Some s'" "aff_inv s'"
      "aff_abs s' = cache_evict capacity (aff_abs ?t)" "af_pending s' = af_pending s"
      "af_nextVersion s' = af_nextVersion s" "af_heap s' = af_heap s" "af_nextAddr s' = af_nextAddr s"
      by (auto simp: frame_simps)
    have "cache_evict capacity (tl (aff_abs s)) = cache_evict capacity (aff_abs s)"
      using True length_aff_abs [OF Suc.prems(1)] Suc.prems(2)
      by (cases "aff_abs s") (auto simp: cache_evict_def Suc_nat_eq_nat_zadd1 nat_add_distrib add.commute
          drop_Cons' intro!: arg_cong2 [where f = drop])
    with s' True lru front(1) show ?thesis by simp
  qed
qed simp

lemma evict_spec:
  assumes "aff_inv s" and "0 < capacity"
  obtains s' where "evict capacity s = Some s'" and "aff_inv s'" and "aff_abs s' = cache_evict capacity (aff_abs s)"
    and "af_pending s' = af_pending s" and "af_nextVersion s' = af_nextVersion s" and "af_heap s' = af_heap s"
    and "af_nextAddr s' = af_nextAddr s" and "int (length (af_assignments s')) < capacity"
proof -
  obtain s' where s': "evict capacity s = Some s'" "aff_inv s'" "aff_abs s' = cache_evict capacity (aff_abs s)"
    "af_pending s' = af_pending s" "af_nextVersion s' = af_nextVersion s" "af_heap s' = af_heap s"
    "af_nextAddr s' = af_nextAddr s"
    using evict_loop_spec [OF assms, of "Suc (length (af_assignments s))"] by (auto simp: evict_def)
  have "int (length (af_assignments s')) < capacity"
    using length_aff_abs [OF s'(2)] assms(2) by (simp add: s'(3) cache_evict_def)
  with s' that show thesis by blast
qed

lemma expire_loop_spec:
  assumes "aff_inv s" and "length (af_lru s) < fuel"
  shows "\<exists>s'. expire_loop fuel ttl now s = Some s' \<and> aff_inv s' \<and> aff_abs s' = cache_expire ttl now (aff_abs s) \<and>
    af_pending s' = af_pending s \<and> af_nextVersion s' = af_nextVersion s \<and> af_heap s' = af_heap s \<and>
    af_nextAddr s' = af_nextAddr s"
  using assms
proof (induction fuel arbitrary: s)
  case (Suc fuel)
  show ?case
  proof (cases "af_lru s")
    case Nil
    with Suc.prems show ?thesis by (simp add: aff_abs_def cache_expire_def)
  next
    case (Cons a rest)
    let ?t = "removeAssignmentLocked a s"
    note front = remove_front [OF Suc.prems(1) Cons]
    have "length (af_lru ?t) < fuel" using front(3) Suc.prems(2) Cons by simp
    from Suc.IH [OF removeAssignmentLocked_inv [OF Suc.prems(1)] this] front Suc.prems Cons
    show ?thesis by (auto simp: aff_abs_def cache_expire_def frame_simps)
  qed
qed simp

lemma pending_filter_inv:
  assumes "aff_inv s" and "gdistinct P" and "\<And>k. map_of P k \<noteq> None \<Longrightarrow> map_of (af_pending s) k \<noteq> None"
  shows "aff_inv (s\<lparr>af_pending := P\<rparr>)"
  by (rule aff_invI) (use aff_invD [OF assms(1)] assms(2,3) in simp_all)

lemma pending_delete_inv [inv_intros]:
  "aff_inv s \<Longrightarrow> aff_inv (s\<lparr>af_pending := AList.delete key (af_pending s)\<rparr>)"
  by (rule pending_filter_inv) (auto simp: gomap_simps aff_invD(7) split: if_splits)

lemma expireLocked_spec:
  assumes "aff_inv s"
  obtains s' where "expireLocked ttl now s = Some s'" and "aff_inv s'"
    and "aff_abs s' = cache_expire ttl now (aff_abs s)" and "af_nextVersion s' = af_nextVersion s"
    and "af_heap s' = af_heap s" and "af_nextAddr s' = af_nextAddr s"
    and "af_pending s' = gfilter (\<lambda>_ p. pending_kept ttl now p) (af_pending s)"
proof -
  obtain t where t: "expire_loop (Suc (length (af_lru s))) ttl now s = Some t" "aff_inv t"
    "aff_abs t = cache_expire ttl now (aff_abs s)" "af_pending t = af_pending s"
    "af_nextVersion t = af_nextVersion s" "af_heap t = af_heap s" "af_nextAddr t = af_nextAddr s"
    using expire_loop_spec [OF assms, of "Suc (length (af_lru s))" ttl now] by auto
  let ?P = "gfilter (\<lambda>_ p. pending_kept ttl now p) (af_pending s)"
  have "gdistinct (af_pending s)" by (rule aff_invD(7) [OF assms])
  then have "aff_inv (t\<lparr>af_pending := ?P\<rparr>)"
    using t(2,4) by (intro pending_filter_inv) (auto simp: gomap_simps split: option.splits)
  with t show thesis by (intro that [of "t\<lparr>af_pending := ?P\<rparr>"]) (simp_all add: expireLocked_def aff_abs_def)
qed

section \<open>Adding and moving entries\<close>

lemma push_entry_inv:
  assumes "aff_inv s" and "map_of (af_assignments s) (ekey e) = None" and "map_of (af_pending s) (ekey e) = None"
  shows "aff_inv (push_entry e s)"
proof -
  note inv = aff_invD [OF assms(1)]
  let ?a = "af_nextAddr s" and ?t = "push_entry e s"
  have t: "af_assignments ?t = AList.update (ekey e) ?a (af_assignments s)" "af_lru ?t = af_lru s @ [?a]"
    "af_byProvider ?t = index_add (as_ProviderID (ae_assignment e)) (ekey e) ?a (af_byProvider s)"
    "af_heap ?t = (af_heap s)(?a := e)" "af_nextAddr ?t = Suc ?a" "af_pending ?t = af_pending s"
    by (simp_all add: push_entry_def Let_def)
  have old: "b < ?a" if "map_of (af_assignments s) k = Some b" for k b using inv(4) that by blast
  have new: "?a \<notin> set (af_lru s)" using inv(5) [of ?a] old by blast
  show ?thesis
  proof (rule aff_invI)
    show "gdistinct (af_assignments ?t)" "distinct (af_lru ?t)" "index_wf (af_byProvider ?t)"
      "gdistinct (af_pending ?t)"
      using inv(1,2,3,7) new by (simp_all add: t inv_intros)
    show "b < af_nextAddr ?t \<and> key_at ?t b = k" if "map_of (af_assignments ?t) k = Some b" for k b
      using that inv(4) [of k b] by (auto simp: t gomap_simps split: if_splits)
    show "b \<in> set (af_lru ?t) \<longleftrightarrow> map_of (af_assignments ?t) (key_at ?t b) = Some b" for b
    proof (cases "b = ?a")
      case False
      then have "key_at ?t b = key_at s b" by (simp add: t)
      with False inv(5) [of b] assms(2) show ?thesis by (auto simp: t gomap_simps)
    qed (simp add: t gomap_simps)
    show "index_get (af_byProvider ?t) p k = Some b \<longleftrightarrow>
        map_of (af_assignments ?t) k = Some b \<and> as_ProviderID (asg_at ?t b) = p" for p k b
      using inv(6) [of p k b] assms(2) old [of k b] by (auto simp: t gomap_simps split: if_splits)
    show "map_of (af_assignments ?t) k = None" if "map_of (af_pending ?t) k \<noteq> None" for k
      using inv(8) [of k] that assms(3) by (auto simp: t gomap_simps)
  qed
qed

lemma push_entry_abs:
  assumes "aff_inv s"
  shows "aff_abs (push_entry e s) = aff_abs s @ [e]"
proof -
  have "af_nextAddr s \<notin> set (af_lru s)"
    using aff_invD(4,5) [OF assms] by blast
  then show ?thesis by (simp add: aff_abs_def push_entry_def Let_def)
qed

lemma index_get_assigned:
  assumes "aff_inv s" and "map_of (af_assignments s) k = Some a"
  shows "index_get (af_byProvider s) p k = (if p = as_ProviderID (asg_at s a) then Some a else None)"
proof (cases "p = as_ProviderID (asg_at s a)")
  case True
  then show ?thesis using aff_invD(6) [OF assms(1), of p k a] assms(2) by simp
next
  case False
  have "index_get (af_byProvider s) p k \<noteq> Some b" for b
    using aff_invD(6) [OF assms(1), of p k b] assms(2) False by auto
  then have "index_get (af_byProvider s) p k = None" by (metis option.exhaust)
  with False show ?thesis by simp
qed

text \<open>An entry that stays under its key, changes its contents and moves to the back.\<close>

lemma rewrite_entry:
  assumes "aff_inv s" and "a \<in> set (af_lru s)" and "ekey e = key_at s a"
    and "af_heap t = (af_heap s)(a := e)" and "af_nextAddr t = af_nextAddr s"
    and "af_assignments t = af_assignments s" and "af_lru t = remove1 a (af_lru s) @ [a]"
    and "index_wf (af_byProvider t)"
    and "\<And>p k. index_get (af_byProvider t) p k =
      (if k = ekey e then if p = as_ProviderID (ae_assignment e) then Some a else None
       else index_get (af_byProvider s) p k)"
    and "gdistinct (af_pending t)" and "\<And>k. map_of (af_pending t) k \<noteq> None \<Longrightarrow> map_of (af_pending s) k \<noteq> None"
  shows "aff_inv t" and "aff_abs t = cache_remove (ekey e) (aff_abs s) @ [e]"
proof -
  note inv = aff_invD [OF assms(1)]
  have a: "map_of (af_assignments s) (ekey e) = Some a" using assms(2,3) inv(5) by metis
  have key: "key_at t b = key_at s b" for b using assms(3,4) by simp
  show "aff_inv t"
  proof (rule aff_invI)
    show "gdistinct (af_assignments t)" "distinct (af_lru t)" "index_wf (af_byProvider t)" "gdistinct (af_pending t)"
      using inv(1,2) assms(6-8,10) by simp_all
    show "b < af_nextAddr t \<and> key_at t b = k" if "map_of (af_assignments t) k = Some b" for k b
      using that inv(4) [of k b] assms(5,6) unfolding key by simp
    show "b \<in> set (af_lru t) \<longleftrightarrow> map_of (af_assignments t) (key_at t b) = Some b" for b
      unfolding key assms(6) using inv(5) [of b] assms(2,7) inv(2) by auto
    show "index_get (af_byProvider t) p k = Some b \<longleftrightarrow>
        map_of (af_assignments t) k = Some b \<and> as_ProviderID (asg_at t b) = p" for p k b
    proof (cases "k = ekey e")
      case True
      with a show ?thesis by (auto simp: assms(4,6,9))
    next
      case False
      then have "map_of (af_assignments s) k = Some b \<Longrightarrow> b \<noteq> a" using inv(4) [of k b] assms(3) by auto
      with False inv(6) [of p k b] show ?thesis by (auto simp: assms(4,6,9))
    qed
    show "map_of (af_assignments t) k = None" if "map_of (af_pending t) k \<noteq> None" for k
      using inv(8) assms(6,11) that by metis
  qed
  have "map (af_heap t) (remove1 a (af_lru s)) = map (af_heap s) (remove1 a (af_lru s))"
    using inv(2) assms(4) by (auto intro!: map_cong)
  moreover have "map (af_heap s) (remove1 a (af_lru s)) = cache_remove (ekey e) (aff_abs s)"
    using removeAssignmentLocked_abs [OF assms(1,2)] assms(3) by (simp add: aff_abs_def frame_simps)
  ultimately show "aff_abs t = cache_remove (ekey e) (aff_abs s) @ [e]"
    by (simp add: aff_abs_def assms(4,7))
qed

lemma touchAssignmentLocked_spec:
  fixes now :: gotime
  assumes "aff_inv s" and "a \<in> set (af_lru s)"
  defines "e \<equiv> (af_heap s a)\<lparr>ae_assignment := (asg_at s a)\<lparr>as_LastUsedAt := now\<rparr>\<rparr>"
  shows "aff_inv (touchAssignmentLocked a now s)"
    and "aff_abs (touchAssignmentLocked a now s) = cache_remove (key_at s a) (aff_abs s) @ [e]"
proof -
  note inv = aff_invD [OF assms(1)]
  have a: "map_of (af_assignments s) (key_at s a) = Some a" using assms(2) inv(5) by blast
  have ix: "index_get (af_byProvider s) p (key_at s a) = (if p = as_ProviderID (asg_at s a) then Some a else None)" for p
    by (rule index_get_assigned [OF assms(1) a])
  let ?t = "touchAssignmentLocked a now s"
  have e: "ekey e = key_at s a" "as_ProviderID (ae_assignment e) = as_ProviderID (asg_at s a)"
    by (simp_all add: e_def)
  have f: "af_heap ?t = (af_heap s)(a := e)" "af_nextAddr ?t = af_nextAddr s" "af_assignments ?t = af_assignments s"
    "af_lru ?t = remove1 a (af_lru s) @ [a]" "af_pending ?t = af_pending s" "af_byProvider ?t = af_byProvider s"
    using assms(2) by (simp_all add: touchAssignmentLocked_def move_to_back_def e_def)
  have get: "index_get (af_byProvider ?t) p k = (if k = ekey e then if p = as_ProviderID (ae_assignment e)
      then Some a else None else index_get (af_byProvider s) p k)" for p k
    unfolding e f using ix by auto
  have t: "aff_inv ?t \<and> aff_abs ?t = cache_remove (ekey e) (aff_abs s) @ [e]"
    by (intro conjI rewrite_entry [OF assms(1,2) e(1) f(1-4) _ get]) (use inv(3,7) in \<open>simp_all add: f\<close>)
  then show "aff_inv (touchAssignmentLocked a now s)"
    "aff_abs (touchAssignmentLocked a now s) = cache_remove (key_at s a) (aff_abs s) @ [e]"
    by (simp_all add: e_def)
qed

lemma allocate_version:
  "allocateAssignmentVersionLocked s = (v, t) \<Longrightarrow> v \<noteq> 0 \<and> t = s\<lparr>af_nextVersion := v\<rparr>"
  by (auto simp: allocateAssignmentVersionLocked_def Let_def split: if_splits)

lemma version_inv [inv_intros]: "aff_inv s \<Longrightarrow> aff_inv (s\<lparr>af_nextVersion := v\<rparr>)"
  by (simp add: aff_inv_def)

lemma version_abs [simp]: "aff_abs (s\<lparr>af_nextVersion := v\<rparr>) = aff_abs s"
  by (simp add: aff_abs_def)

lemma pending_abs [simp]: "aff_abs (s\<lparr>af_pending := P\<rparr>) = aff_abs s"
  by (simp add: aff_abs_def)

lemma moveAssignment_spec:
  fixes now :: gotime and item :: CompiledProvider
  assumes "aff_inv s" and "map_of (af_assignments s) key = Some a"
  defines "v \<equiv> fst (allocateAssignmentVersionLocked s)"
  defines "e \<equiv> \<lparr> ae_assignment = (asg_at s a)\<lparr>as_ProviderID := cp_ID item, as_Generation := cp_Generation item,
                   as_LastUsedAt := now\<rparr>, ae_version = v \<rparr>"
  shows "aff_inv (moveAssignment a key item now s)"
    and "aff_abs (moveAssignment a key item now s) = cache_remove key (aff_abs s) @ [e]"
proof -
  note inv = aff_invD [OF assms(1)]
  have a: "a \<in> set (af_lru s)" "key_at s a = key" using lru_iff_assigned [OF assms(1)] assms(2) by blast+
  have ix: "index_get (af_byProvider s) p key = (if p = as_ProviderID (asg_at s a) then Some a else None)" for p
    by (rule index_get_assigned [OF assms(1,2)])
  have "snd (allocateAssignmentVersionLocked t) = t\<lparr>af_nextVersion := fst (allocateAssignmentVersionLocked t)\<rparr>"
    "fst (allocateAssignmentVersionLocked (t\<lparr>af_byProvider := b\<rparr>)) = fst (allocateAssignmentVersionLocked t)" for t b
    by (simp_all add: allocateAssignmentVersionLocked_def Let_def)
  note alloc = this
  let ?t = "moveAssignment a key item now s"
  have e: "ekey e = key" "as_ProviderID (ae_assignment e) = cp_ID item" using a(2) by (simp_all add: e_def)
  have f: "af_heap ?t = (af_heap s)(a := e)" "af_nextAddr ?t = af_nextAddr s" "af_assignments ?t = af_assignments s"
    "af_lru ?t = remove1 a (af_lru s) @ [a]" "af_pending ?t = AList.delete key (af_pending s)"
    "af_byProvider ?t = index_add (cp_ID item) key a (index_remove (as_ProviderID (asg_at s a)) key (af_byProvider s))"
    using a(1) by (simp_all add: moveAssignment_def touchAssignmentLocked_def move_to_back_def e_def v_def
        Let_def split_beta alloc)
  have get: "index_get (af_byProvider ?t) p k = (if k = ekey e then if p = as_ProviderID (ae_assignment e)
      then Some a else None else index_get (af_byProvider s) p k)" for p k
    unfolding e f gomap_simps using ix by auto
  have t: "aff_inv ?t \<and> aff_abs ?t = cache_remove (ekey e) (aff_abs s) @ [e]"
    by (intro conjI rewrite_entry [OF assms(1) a(1) _ f(1-4) _ get])
       (use a(2) inv(3,7) in \<open>auto simp: e f gomap_simps inv_intros split: if_splits\<close>)
  then show "aff_inv (moveAssignment a key item now s)"
    "aff_abs (moveAssignment a key item now s) = cache_remove key (aff_abs s) @ [e]"
    using a(2) by (simp_all add: e_def)
qed

lemma cache_remove_id: "cache_lookup k es = None \<Longrightarrow> cache_remove k es = es"
  by (auto simp: cache_lookup_def cache_remove_def find_None_iff filter_id_conv)

lemma cache_evict_subset: "set (cache_evict c es) \<subseteq> set es"
  by (simp add: cache_evict_def set_drop_subset)

lemma cache_lookup_None: "cache_lookup k es = None \<longleftrightarrow> (\<forall>e \<in> set es. ekey e \<noteq> k)"
  by (auto simp: cache_lookup_def find_None_iff)

lemma unassigned_iff: "aff_inv s \<Longrightarrow> map_of (af_assignments s) k = None \<longleftrightarrow> (\<forall>e \<in> set (aff_abs s). ekey e \<noteq> k)"
  unfolding cache_lookup_None [symmetric] using aff_lookup [of s k] map_option_is_None by metis

lemma drop_existing:
  fixes key :: StickyKey
  assumes "aff_inv s"
  defines "t \<equiv> (case map_of (af_assignments s) key of None \<Rightarrow> s | Some a \<Rightarrow> removeAssignmentLocked a s)"
  shows "aff_inv t" and "aff_abs t = cache_remove key (aff_abs s)" and "af_pending t = af_pending s"
    and "af_nextVersion t = af_nextVersion s"
proof -
  show "aff_inv t" "af_pending t = af_pending s" "af_nextVersion t = af_nextVersion s"
    using assms(1) by (auto simp: t_def inv_intros frame_simps split: option.split)
  show "aff_abs t = cache_remove key (aff_abs s)"
  proof (cases "map_of (af_assignments s) key")
    case None
    then have "cache_lookup key (aff_abs s) = None" using aff_lookup [OF assms(1), of key] by simp
    with None show ?thesis by (simp add: t_def cache_remove_id)
  next
    case (Some a)
    then have "a \<in> set (af_lru s)" "key_at s a = key" using lru_iff_assigned [OF assms(1)] by blast+
    with Some removeAssignmentLocked_abs(1) [OF assms(1)] show ?thesis by (simp add: t_def)
  qed
qed

text \<open>The tail of both ways to create an assignment.\<close>

lemma push_fresh:
  assumes "aff_inv s" and "\<forall>e' \<in> set (aff_abs s). ekey e' \<noteq> ekey e" and "map_of (af_pending s) (ekey e) = None"
    and "int (length (af_assignments s)) < capacity"
  shows "aff_inv (push_entry e s)" and "aff_abs (push_entry e s) = aff_abs s @ [e]"
    and "int (length (af_assignments (push_entry e s))) \<le> capacity"
proof -
  have none: "map_of (af_assignments s) (ekey e) = None" using assms(1,2) by (simp add: unassigned_iff)
  show inv: "aff_inv (push_entry e s)" by (rule push_entry_inv [OF assms(1) none assms(3)])
  show "aff_abs (push_entry e s) = aff_abs s @ [e]" by (rule push_entry_abs [OF assms(1)])
  show "int (length (af_assignments (push_entry e s))) \<le> capacity"
    using assms(4) none by (simp add: push_entry_def Let_def length_update_fresh)
qed

lemma putAssignmentLocked_spec:
  assumes "aff_inv s" and "0 < capacity"
  obtains s' where "putAssignmentLocked capacity key item now s = Some s'" and "aff_inv s'"
    and "aff_abs s' = cache_evict capacity (cache_remove key (aff_abs s)) @
      [\<lparr> ae_assignment = \<lparr> as_Key = key, as_ProviderID = cp_ID item, as_Generation = cp_Generation item,
           as_CreatedAt = now, as_LastUsedAt = now \<rparr>,
         ae_version = fst (allocateAssignmentVersionLocked s) \<rparr>]"
    and "int (length (af_assignments s')) \<le> capacity" and "af_pending s' = AList.delete key (af_pending s)"
proof -
  let ?t = "case map_of (af_assignments s) key of None \<Rightarrow> s | Some a \<Rightarrow> removeAssignmentLocked a s"
  note t = drop_existing [OF assms(1), of key]
  obtain u where u: "evict capacity ?t = Some u" "aff_inv u"
    "aff_abs u = cache_evict capacity (cache_remove key (aff_abs s))" "af_pending u = af_pending s"
    "af_nextVersion u = af_nextVersion s" "int (length (af_assignments u)) < capacity"
    using evict_spec [OF t(1) assms(2)] t(2-4) by metis
  let ?v = "fst (allocateAssignmentVersionLocked s)"
  let ?e = "\<lparr> ae_assignment = \<lparr> as_Key = key, as_ProviderID = cp_ID item, as_Generation = cp_Generation item,
      as_CreatedAt = now, as_LastUsedAt = now \<rparr>, ae_version = ?v \<rparr>"
  have alloc: "allocateAssignmentVersionLocked u = (?v, u\<lparr>af_nextVersion := ?v\<rparr>)"
    using u(5) by (simp add: allocateAssignmentVersionLocked_def Let_def)
  let ?w = "u\<lparr>af_nextVersion := ?v, af_pending := AList.delete key (af_pending u)\<rparr>"
  have w: "aff_inv ?w" "aff_abs ?w = aff_abs u" "map_of (af_pending ?w) key = None"
    "af_assignments ?w = af_assignments u"
    using pending_delete_inv [OF version_inv [OF u(2)], of key ?v] by (simp_all add: gomap_simps aff_abs_def)
  have "\<forall>e' \<in> set (aff_abs ?w). ekey e' \<noteq> key"
    using cache_evict_subset [of capacity "cache_remove key (aff_abs s)"] by (auto simp: w(2) u(3) cache_remove_def)
  with w push_fresh [of ?w ?e capacity] u(6)
  have p: "aff_inv (push_entry ?e ?w)" "aff_abs (push_entry ?e ?w) = aff_abs u @ [?e]"
    "int (length (af_assignments (push_entry ?e ?w))) \<le> capacity" by simp_all
  show thesis
  proof (rule that [OF _ p(1)])
    show "putAssignmentLocked capacity key item now s = Some (push_entry ?e ?w)"
      by (simp add: putAssignmentLocked_def u(1) alloc Let_def)
    show "af_pending (push_entry ?e ?w) = AList.delete key (af_pending s)"
      by (simp add: push_entry_def Let_def u(4))
  qed (use p u(3) in simp_all)
qed

lemma createReplacement_spec:
  assumes "aff_inv s" and "0 < capacity" and "map_of (af_assignments s) key = None"
  obtains s' where "createReplacement capacity key item createdAt now s = Some s'" and "aff_inv s'"
    and "aff_abs s' = cache_evict capacity (aff_abs s) @
      [\<lparr> ae_assignment = \<lparr> as_Key = key, as_ProviderID = cp_ID item, as_Generation = cp_Generation item,
           as_CreatedAt = createdAt, as_LastUsedAt = now \<rparr>,
         ae_version = fst (allocateAssignmentVersionLocked s) \<rparr>]"
    and "int (length (af_assignments s')) \<le> capacity" and "af_pending s' = AList.delete key (af_pending s)"
proof -
  define v where "v = fst (allocateAssignmentVersionLocked s)"
  let ?e = "\<lparr> ae_assignment = \<lparr> as_Key = key, as_ProviderID = cp_ID item, as_Generation = cp_Generation item,
      as_CreatedAt = createdAt, as_LastUsedAt = now \<rparr>, ae_version = v \<rparr>"
  have alloc: "allocateAssignmentVersionLocked s = (v, s\<lparr>af_nextVersion := v\<rparr>)"
    by (simp add: v_def allocateAssignmentVersionLocked_def Let_def)
  obtain u where u: "evict capacity (s\<lparr>af_nextVersion := v\<rparr>) = Some u" "aff_inv u"
    "aff_abs u = cache_evict capacity (aff_abs s)" "af_pending u = af_pending s"
    "int (length (af_assignments u)) < capacity"
    using evict_spec [OF version_inv [OF assms(1)] assms(2), of v] by auto
  let ?w = "u\<lparr>af_pending := AList.delete key (af_pending u)\<rparr>"
  have w: "aff_inv ?w" "aff_abs ?w = aff_abs u" "map_of (af_pending ?w) key = None"
    "af_assignments ?w = af_assignments u"
    using pending_delete_inv [OF u(2), of key] by (simp_all add: gomap_simps aff_abs_def)
  have "\<forall>e' \<in> set (aff_abs ?w). ekey e' \<noteq> key"
    using cache_evict_subset [of capacity "aff_abs s"] assms(1,3) unassigned_iff by (auto simp: w(2) u(3))
  with w push_fresh [of ?w ?e capacity] u(5)
  have p: "aff_inv (push_entry ?e ?w)" "aff_abs (push_entry ?e ?w) = aff_abs u @ [?e]"
    "int (length (af_assignments (push_entry ?e ?w))) \<le> capacity" by simp_all
  have swap: "(push_entry ?e u)\<lparr>af_pending := AList.delete key (af_pending (push_entry ?e u))\<rparr> = push_entry ?e ?w"
    by (simp add: push_entry_def Let_def)
  show thesis
  proof (rule that [OF _ p(1)])
    show "createReplacement capacity key item createdAt now s = Some (push_entry ?e ?w)"
      unfolding createReplacement_def alloc by (simp add: u(1) swap [symmetric] Let_def)
    show "af_pending (push_entry ?e ?w) = AList.delete key (af_pending s)"
      by (simp add: push_entry_def Let_def u(4))
  qed (use p u(3) in \<open>simp_all add: v_def\<close>)
qed

section \<open>Parking the assignments of a provider\<close>

definition tombstone :: "assignmentEntry \<Rightarrow> pendingMigration" where
  "tombstone e =
     \<lparr> pm_ProviderID = as_ProviderID (ae_assignment e), pm_Generation = as_Generation (ae_assignment e),
       pm_CreatedAt = as_CreatedAt (ae_assignment e), pm_LastUsedAt = as_LastUsedAt (ae_assignment e),
       pm_Version = ae_version e \<rparr>"

lemma park_spec:
  assumes "aff_inv s" and "a \<in> set (af_lru s)"
  shows "aff_inv (park a s)" and "af_heap (park a s) = af_heap s" and "af_lru (park a s) = remove1 a (af_lru s)"
    and "map_of (af_pending (park a s)) =
      (map_of (af_pending s))(key_at s a := (if sk_SessionID (key_at s a) = [] then map_of (af_pending s) (key_at s a)
                                             else Some (tombstone (af_heap s a))))"
proof -
  have a: "map_of (af_assignments s) (key_at s a) = Some a" using assms aff_invD(5) by blast
  let ?r = "removeAssignmentLocked a s"
  have P: "af_pending (park a s) = (if sk_SessionID (key_at s a) = [] then af_pending s
      else AList.update (key_at s a) (tombstone (af_heap s a)) (af_pending s))"
    by (simp add: park_def markPendingEntryLocked_def frame_simps tombstone_def)
  have eq: "af_heap (park a s) = af_heap ?r" "af_lru (park a s) = af_lru ?r" "af_assignments (park a s) = af_assignments ?r"
    "af_byProvider (park a s) = af_byProvider ?r" "af_nextAddr (park a s) = af_nextAddr ?r"
    by (simp_all add: park_def markPendingEntryLocked_def removeAssignmentLocked_def Let_def)
  show "af_heap (park a s) = af_heap s" by (simp add: eq frame_simps)
  show "af_lru (park a s) = remove1 a (af_lru s)"
    using removeAssignmentLocked_abs(2) [OF assms] by (simp add: eq)
  show "map_of (af_pending (park a s)) =
      (map_of (af_pending s))(key_at s a := (if sk_SessionID (key_at s a) = [] then map_of (af_pending s) (key_at s a)
                                             else Some (tombstone (af_heap s a))))"
    unfolding P by (simp add: gomap_simps)
  note r = aff_invD [OF removeAssignmentLocked_inv [OF assms(1), of a]]
  show "aff_inv (park a s)"
  proof (rule aff_invI)
    show "gdistinct (af_pending (park a s))" using r(7) unfolding P by (simp add: frame_simps)
    show "map_of (af_assignments (park a s)) k = None" if "map_of (af_pending (park a s)) k \<noteq> None" for k
      using r(8) [of k] that a unfolding P eq by (auto simp: frame_simps gomap_simps split: if_splits)
    show "gdistinct (af_assignments (park a s))" "distinct (af_lru (park a s))" "index_wf (af_byProvider (park a s))"
      unfolding eq by (fact r(1-3))+
    show "b < af_nextAddr (park a s) \<and> key_at (park a s) b = k" if "map_of (af_assignments (park a s)) k = Some b" for k b
      using that unfolding eq by (rule r(4))
    show "b \<in> set (af_lru (park a s)) \<longleftrightarrow> map_of (af_assignments (park a s)) (key_at (park a s) b) = Some b" for b
      unfolding eq by (rule r(5))
    show "index_get (af_byProvider (park a s)) p k = Some b \<longleftrightarrow>
        map_of (af_assignments (park a s)) k = Some b \<and> as_ProviderID (asg_at (park a s) b) = p" for p k b
      unfolding eq by (rule r(6))
  qed
qed

definition park_all :: "(assignmentEntry \<Rightarrow> bool) \<Rightarrow> nat list \<Rightarrow> affinity \<Rightarrow> affinity" where
  "park_all P as s = foldl (\<lambda>s a. if P (af_heap s a) then park a s else s) s as"

lemma park_all_spec:
  assumes "aff_inv s" and "distinct as" and "set as \<subseteq> set (af_lru s)"
  shows "aff_inv (park_all P as s) \<and> af_heap (park_all P as s) = af_heap s \<and>
    af_lru (park_all P as s) = filter (\<lambda>b. \<not> (b \<in> set as \<and> P (af_heap s b))) (af_lru s) \<and>
    (\<forall>k. map_of (af_pending (park_all P as s)) k =
       (case List.find (\<lambda>a. key_at s a = k \<and> P (af_heap s a) \<and> sk_SessionID k \<noteq> []) as of
          Some a \<Rightarrow> Some (tombstone (af_heap s a)) | None \<Rightarrow> map_of (af_pending s) k))"
  using assms
proof (induction as arbitrary: s)
  case Nil
  then show ?case by (simp add: park_all_def)
next
  case (Cons a as)
  show ?case
  proof (cases "P (af_heap s a)")
    case False
    have "park_all P (a # as) s = park_all P as s" using False by (simp add: park_all_def)
    moreover have "filter (\<lambda>b. \<not> (b \<in> set (a # as) \<and> P (af_heap s b))) (af_lru s) =
        filter (\<lambda>b. \<not> (b \<in> set as \<and> P (af_heap s b))) (af_lru s)"
      using False by (auto intro: filter_cong)
    ultimately show ?thesis using Cons.IH [of s] Cons.prems False by simp
  next
    case True
    have a: "a \<in> set (af_lru s)" using Cons.prems(3) by simp
    note p = park_spec [OF Cons.prems(1) a]
    have d: "distinct (af_lru s)" by (rule aff_invD(2) [OF Cons.prems(1)])
    have sub: "set as \<subseteq> set (af_lru (park a s))" using Cons.prems(2,3) p(3) d by auto
    have key: "key_at s b \<noteq> key_at s a" if "b \<in> set as" for b
      using lru_key_inj [OF Cons.prems(1)] that Cons.prems(2,3) a by (auto simp: inj_on_def)
    have step: "park_all P (a # as) s = park_all P as (park a s)" using True by (simp add: park_all_def)
    have lru: "filter (\<lambda>b. \<not> (b \<in> set as \<and> P (af_heap s b))) (remove1 a (af_lru s)) =
        filter (\<lambda>b. \<not> (b \<in> set (a # as) \<and> P (af_heap s b))) (af_lru s)"
      using True Cons.prems(2) d
      by (auto simp: distinct_remove1_removeAll removeAll_filter_not_eq intro: filter_cong)
    have find: "List.find (\<lambda>b. key_at s b = key_at s a \<and> Q b) as = None" for Q
      using key by (auto simp: find_None_iff)
    show ?thesis
      using Cons.IH [OF p(1) _ sub] Cons.prems(2) True
      unfolding step p(2,3) lru p(4)
      by (auto simp: find split: option.split)
  qed
qed

lemma index_entries:
  assumes "aff_inv s"
  shows "distinct (appendProviderEntries (index_of (af_byProvider s) p))"
    and "set (appendProviderEntries (index_of (af_byProvider s) p)) = {a \<in> set (af_lru s). as_ProviderID (asg_at s a) = p}"
proof -
  let ?ix = "index_of (af_byProvider s) p"
  have d: "gdistinct ?ix" by (rule index_of_distinct [OF aff_invD(3) [OF assms]])
  have mem: "(k, a) \<in> set ?ix \<longleftrightarrow> a \<in> set (af_lru s) \<and> key_at s a = k \<and> as_ProviderID (asg_at s a) = p" for k a
    using aff_invD(6) [OF assms, of p k a] lru_iff_assigned [OF assms, of k a]
    by (auto simp: index_get_def map_of_eq_Some_iff [OF d])
  have "inj_on snd (set ?ix)" using mem by (auto intro!: inj_onI)
  then show "distinct (appendProviderEntries ?ix)"
    using d by (simp add: appendProviderEntries_def distinct_map)
  show "set (appendProviderEntries ?ix) = {a \<in> set (af_lru s). as_ProviderID (asg_at s a) = p}"
    using mem by (force simp: appendProviderEntries_def)
qed

lemma park_provider:
  fixes p :: string and P :: "assignmentEntry \<Rightarrow> bool"
  assumes "aff_inv s"
  defines "t \<equiv> park_all P (appendProviderEntries (index_of (af_byProvider s) p)) s"
  shows "aff_inv t" and "aff_abs t = filter (\<lambda>e. \<not> (as_ProviderID (ae_assignment e) = p \<and> P e)) (aff_abs s)"
    and "e \<in> set (aff_abs s) \<Longrightarrow> as_ProviderID (ae_assignment e) = p \<Longrightarrow> P e \<Longrightarrow> sk_SessionID (ekey e) \<noteq> [] \<Longrightarrow>
      map_of (af_pending t) (ekey e) = Some (tombstone e)"
proof -
  let ?as = "appendProviderEntries (index_of (af_byProvider s) p)"
  note ix = index_entries [OF assms(1), of p]
  have sub: "set ?as \<subseteq> set (af_lru s)" using ix(2) by auto
  note spec = park_all_spec [OF assms(1) ix(1) sub, of P, folded t_def]
  show "aff_inv t" using spec by blast
  show "aff_abs t = filter (\<lambda>e. \<not> (as_ProviderID (ae_assignment e) = p \<and> P e)) (aff_abs s)"
    using spec ix(2) by (auto simp: aff_abs_def filter_map comp_def intro!: arg_cong [where f = "map (af_heap s)"] filter_cong)
  assume e: "e \<in> set (aff_abs s)" "as_ProviderID (ae_assignment e) = p" "P e" "sk_SessionID (ekey e) \<noteq> []"
  then obtain a where a: "a \<in> set ?as" "e = af_heap s a" using ix(2) by (auto simp: aff_abs_def)
  have "distinct (map (key_at s) ?as)"
    using lru_key_inj [OF assms(1)] sub ix(1) by (auto simp: distinct_map intro: inj_on_subset)
  from find_distinct_key [OF this a(1)]
  have "List.find (\<lambda>b. key_at s b = ekey e \<and> P (af_heap s b) \<and> sk_SessionID (ekey e) \<noteq> []) ?as = Some a"
    using a e(3,4) by (auto simp: find_Some_iff)
  then show "map_of (af_pending t) (ekey e) = Some (tombstone e)" using spec a(2) by simp
qed

lemma removeProvider_park:
  "removeProviderAssignmentsLocked p g s =
     park_all (\<lambda>e. as_Generation (ae_assignment e) = g) (appendProviderEntries (index_of (af_byProvider s) p)) s"
  by (simp add: removeProviderAssignmentsLocked_def park_all_def)

lemma removeChannel_park:
  "removeChannelAssignmentsLocked p g m rt s =
     park_all (\<lambda>e. as_Generation (ae_assignment e) = g \<and> sk_Model (ekey e) = m \<and> sk_RequestType (ekey e) = rt)
       (appendProviderEntries (index_of (af_byProvider s) p)) s"
  by (simp add: removeChannelAssignmentsLocked_def park_all_def)

end
