(* ===== verification/Selector_Order.thy ===== *)
theory Selector_Order
  imports Scheduler_Contracts "HOL-Library.Multiset"
begin

text \<open>
  The order in which the selector tries providers (\<open>internal/scheduler/selector.go\<close>):
  static eligibility, priority tiers, the round-robin rotation inside a tier and the
  sticky provider at the head of its tier. A \<open>*provider.CompiledProvider\<close> that may be nil is
  an option; the lists behind \<open>eligibleCandidates\<close> hold no nil.
\<close>

section \<open>Eligibility\<close>

definition StaticAvailabilityOf :: "CompiledProvider option \<Rightarrow> StaticAvailability" where
  "StaticAvailabilityOf item =
     (case item of
        None \<Rightarrow> StaticDisabledProvider
      | Some p \<Rightarrow>
          if \<not> cp_Enabled p then StaticDisabledProvider
          else if cp_Models p = [] then StaticNoModels
          else if cp_APIKey p = [] then StaticDisabledProvider
          else StaticActive)"

text \<open>The loop of \<open>eligibleCandidates\<close>, with the set of IDs seen so far.\<close>

fun eligible_loop :: "string \<Rightarrow> string set \<Rightarrow> CompiledProvider option list \<Rightarrow> CompiledProvider list" where
  "eligible_loop model seen [] = []"
| "eligible_loop model seen (None # items) = eligible_loop model seen items"
| "eligible_loop model seen (Some p # items) =
     (if StaticAvailabilityOf (Some p) \<noteq> StaticActive \<or> \<not> SupportsModel p model then eligible_loop model seen items
      else if cp_ID p \<in> seen then eligible_loop model seen items
      else p # eligible_loop model (insert (cp_ID p) seen) items)"

definition eligibleCandidates :: "CompiledProvider option list \<Rightarrow> string \<Rightarrow> CompiledProvider list" where
  "eligibleCandidates items model = stable_sort_desc cp_Priority (eligible_loop model {} items)"

definition findCandidate :: "CompiledProvider list \<Rightarrow> string \<Rightarrow> ProviderGeneration \<Rightarrow> CompiledProvider option" where
  "findCandidate items ident generation =
     List.find (\<lambda>item. cp_ID item = ident \<and> cp_Generation item = generation) items"

section \<open>Order\<close>

record roundRobinKey =
  rr_Model :: string
  rr_RequestType :: RequestType
  rr_Priority :: int

record cursorState =
  cs_ProviderID :: string
  cs_Version :: u64

definition cursor_at :: "(roundRobinKey, cursorState) gomap \<Rightarrow> roundRobinKey \<Rightarrow> cursorState" where
  "cursor_at cursors k =
     (case map_of cursors k of None \<Rightarrow> \<lparr>cs_ProviderID = '''', cs_Version = 0\<rparr> | Some c \<Rightarrow> c)"

fun first_index :: "('a \<Rightarrow> bool) \<Rightarrow> 'a list \<Rightarrow> nat option" where
  "first_index P [] = None"
| "first_index P (x # xs) = (if P x then Some 0 else map_option Suc (first_index P xs))"

definition rotateAfter :: "CompiledProvider list \<Rightarrow> string \<Rightarrow> CompiledProvider list" where
  "rotateAfter items providerID =
     (if providerID = [] then items
      else case first_index (\<lambda>item. cp_ID item = providerID) items of
             None \<Rightarrow> items
           | Some i \<Rightarrow> drop (Suc i) items @ take (Suc i) items)"

text \<open>The loop that cuts the sorted candidates into runs of equal priority.\<close>

definition add_to_groups :: "CompiledProvider list list \<Rightarrow> CompiledProvider \<Rightarrow> CompiledProvider list list" where
  "add_to_groups groups item =
     (if groups = [] \<or> cp_Priority (hd (last groups)) \<noteq> cp_Priority item then groups @ [[item]]
      else butlast groups @ [last groups @ [item]])"

definition groups_of :: "CompiledProvider list \<Rightarrow> CompiledProvider list list" where
  "groups_of items = foldl add_to_groups [] items"

text \<open>The inner loop \<open>for groupStart > 0 && ...\<close>.\<close>

fun group_start :: "CompiledProvider list \<Rightarrow> int \<Rightarrow> nat \<Rightarrow> nat" where
  "group_start ordered p 0 = 0"
| "group_start ordered p (Suc n) = (if cp_Priority (ordered ! n) = p then group_start ordered p n else Suc n)"

definition lead_group :: "CompiledProvider list \<Rightarrow> CompiledProvider \<Rightarrow> CompiledProvider list" where
  "lead_group ordered assigned =
     (case first_index (\<lambda>item. cp_ID item = cp_ID assigned \<and> cp_Generation item = cp_Generation assigned) ordered of
        None \<Rightarrow> ordered
      | Some i \<Rightarrow>
          let groupStart = group_start ordered (cp_Priority assigned) i in
          if groupStart = i then ordered
          else take groupStart ordered @ [ordered ! i] @ drop groupStart (take i ordered) @ drop (Suc i) ordered)"

definition orderCandidatesLocked ::
  "(roundRobinKey, cursorState) gomap \<Rightarrow> CompiledProvider list \<Rightarrow> StickyKey \<Rightarrow> CompiledProvider option \<Rightarrow>
   CompiledProvider list" where
  "orderCandidatesLocked cursors items key assigned =
     (let turn = (\<lambda>group.
            let priority = cp_Priority (hd group) in
            case assigned of
              Some p \<Rightarrow>
                if priority = cp_Priority p then rotateAfter group (cp_ID p)
                else rotateAfter group (cs_ProviderID (cursor_at cursors
                       \<lparr>rr_Model = sk_Model key, rr_RequestType = sk_RequestType key, rr_Priority = priority\<rparr>))
            | None \<Rightarrow> rotateAfter group (cs_ProviderID (cursor_at cursors
                       \<lparr>rr_Model = sk_Model key, rr_RequestType = sk_RequestType key, rr_Priority = priority\<rparr>)));
          ordered = concat (map turn (groups_of items))
      in case assigned of None \<Rightarrow> ordered | Some p \<Rightarrow> lead_group ordered p)"

section \<open>Lemmas\<close>

abbreviation by_priority :: "CompiledProvider list \<Rightarrow> bool" where
  "by_priority xs \<equiv> sorted_wrt (\<lambda>x y. cp_Priority x \<ge> cp_Priority y) xs"

abbreviation tier :: "int \<Rightarrow> CompiledProvider list \<Rightarrow> CompiledProvider list" where
  "tier p xs \<equiv> filter (\<lambda>x. cp_Priority x = p) xs"

lemma by_priority_map: "by_priority xs \<longleftrightarrow> sorted_wrt (\<ge>) (map cp_Priority xs)"
  by (simp add: sorted_wrt_map)

lemma eligible_loop_mem:
  "p \<in> set (eligible_loop m seen items) \<Longrightarrow>
     Some p \<in> set items \<and> StaticAvailabilityOf (Some p) = StaticActive \<and> SupportsModel p m \<and> cp_ID p \<notin> seen"
  by (induction m seen items rule: eligible_loop.induct) (auto split: if_splits)

lemma eligible_loop_distinct: "distinct (map cp_ID (eligible_loop m seen items))"
  by (induction m seen items rule: eligible_loop.induct) (auto dest: eligible_loop_mem)

lemma eligible_loop_complete:
  "Some p \<in> set items \<Longrightarrow> StaticAvailabilityOf (Some p) = StaticActive \<Longrightarrow> SupportsModel p m \<Longrightarrow>
     cp_ID p \<in> seen \<union> cp_ID ` set (eligible_loop m seen items)"
  by (induction m seen items rule: eligible_loop.induct) auto

lemma stable_sort_desc_mset: "mset (stable_sort_desc f xs) = mset xs"
  by (simp add: stable_sort_desc_def)

lemma eligibleCandidates_by_priority: "by_priority (eligibleCandidates items m)"
  by (simp add: eligibleCandidates_def stable_sort_desc_sorted)

lemma eligibleCandidates_distinct: "distinct (map cp_ID (eligibleCandidates items m))"
proof -
  have "mset (map cp_ID (eligibleCandidates items m)) = mset (map cp_ID (eligible_loop m {} items))"
    by (simp add: eligibleCandidates_def stable_sort_desc_mset)
  then show ?thesis using eligible_loop_distinct mset_eq_imp_distinct_iff by blast
qed

lemma eligibleCandidates_mem:
  "p \<in> set (eligibleCandidates items m) \<Longrightarrow>
     Some p \<in> set items \<and> StaticAvailabilityOf (Some p) = StaticActive \<and> SupportsModel p m"
  by (auto simp: eligibleCandidates_def dest: eligible_loop_mem)

lemma first_index_Some:
  "first_index P xs = Some i \<Longrightarrow> i < length xs \<and> P (xs ! i) \<and> (\<forall>j < i. \<not> P (xs ! j))"
  by (induction xs arbitrary: i) (auto split: if_splits simp: nth_Cons' less_Suc_eq_0_disj)

lemma first_index_None: "first_index P xs = None \<longleftrightarrow> (\<forall>x \<in> set xs. \<not> P x)"
  by (induction xs) auto

lemma mset_rotateAfter [simp]: "mset (rotateAfter xs c) = mset xs"
proof -
  have "mset (drop n xs) + mset (take n xs) = mset xs" for n
    by (metis append_take_drop_id mset_append union_commute)
  then show ?thesis by (simp add: rotateAfter_def split: option.split)
qed

lemma set_rotateAfter [simp]: "set (rotateAfter xs c) = set xs"
  by (metis mset_rotateAfter set_mset_mset)

lemma find_Some_match: "List.find P xs = Some x \<Longrightarrow> P x"
  by (auto simp: find_Some_iff)

text \<open>The runs of a sorted candidate list.\<close>

definition uniform :: "int \<Rightarrow> CompiledProvider list \<Rightarrow> bool" where
  "uniform p g \<longleftrightarrow> (\<forall>x \<in> set g. cp_Priority x = p)"

lemma uniform_append [simp]: "uniform p (g @ h) \<longleftrightarrow> uniform p g \<and> uniform p h"
  by (auto simp: uniform_def)

lemma uniform_Cons [simp]: "uniform p (x # h) \<longleftrightarrow> cp_Priority x = p \<and> uniform p h"
  by (auto simp: uniform_def)

lemma uniform_Nil [simp]: "uniform p []"
  by (simp add: uniform_def)

definition groups_ok :: "CompiledProvider list list \<Rightarrow> bool" where
  "groups_ok gs \<longleftrightarrow> (\<forall>g \<in> set gs. g \<noteq> [] \<and> uniform (cp_Priority (hd g)) g) \<and>
     sorted_wrt (\<lambda>g h. cp_Priority (hd g) > cp_Priority (hd h)) gs"

lemma add_to_groups_concat: "concat (add_to_groups gs x) = concat gs @ [x]"
proof (cases "gs = []")
  case False
  then have "concat gs = concat (butlast gs) @ last gs" by (metis append_butlast_last_id concat_append concat.simps append_Nil2)
  with False show ?thesis by (simp add: add_to_groups_def)
qed (simp add: add_to_groups_def)

lemma add_to_groups_ok:
  assumes "groups_ok gs" and "\<forall>y \<in> set (concat gs). cp_Priority y \<ge> cp_Priority x"
  shows "groups_ok (add_to_groups gs x)"
proof (cases "gs = []")
  case False
  then obtain hs g where gs: "gs = hs @ [g]" by (metis append_butlast_last_id)
  have g: "g \<noteq> []" "uniform (cp_Priority (hd g)) g" using assms(1) gs by (auto simp: groups_ok_def)
  have hd: "hd h \<in> set (concat gs)" if "h \<in> set gs" for h
    using that assms(1) by (auto simp: groups_ok_def intro!: bexI [of _ h] hd_in_set)
  have ge: "cp_Priority (hd h) \<ge> cp_Priority x" if "h \<in> set gs" for h using hd [OF that] assms(2) by blast
  show ?thesis
  proof (cases "cp_Priority (hd g) = cp_Priority x")
    case True
    with assms(1) g gs show ?thesis by (auto simp: add_to_groups_def groups_ok_def sorted_wrt_append)
  next
    case diff: False
    then have lt: "cp_Priority x < cp_Priority (hd g)" using ge [of g] gs by simp
    have "cp_Priority x < cp_Priority (hd h)" if "h \<in> set gs" for h
      using that assms(1) lt gs by (force simp: groups_ok_def sorted_wrt_append)
    with diff assms(1) gs show ?thesis by (auto simp: add_to_groups_def groups_ok_def sorted_wrt_append)
  qed
qed (simp add: add_to_groups_def groups_ok_def)

lemma groups_loop:
  assumes "groups_ok gs" and "by_priority (concat gs @ xs)"
  shows "groups_ok (foldl add_to_groups gs xs) \<and> concat (foldl add_to_groups gs xs) = concat gs @ xs"
  using assms
proof (induction xs arbitrary: gs)
  case (Cons x xs)
  have "groups_ok (add_to_groups gs x)"
    using Cons.prems by (intro add_to_groups_ok) (auto simp: sorted_wrt_append)
  with Cons.IH [OF this] Cons.prems show ?case by (simp add: add_to_groups_concat)
qed simp

lemma groups_of_spec: "by_priority xs \<Longrightarrow> groups_ok (groups_of xs) \<and> concat (groups_of xs) = xs"
  using groups_loop [of "[]" xs] by (simp add: groups_of_def groups_ok_def)

lemma tier_concat_groups:
  assumes "groups_ok gs" and "\<And>g. set (f g) = set g"
  shows "tier p (concat (map f gs)) = (case List.find (\<lambda>g. cp_Priority (hd g) = p) gs of None \<Rightarrow> [] | Some g \<Rightarrow> f g)"
    and "tier p (concat gs) = (case List.find (\<lambda>g. cp_Priority (hd g) = p) gs of None \<Rightarrow> [] | Some g \<Rightarrow> g)"
proof -
  have main: "tier p (concat (map f gs)) = (case List.find (\<lambda>g. cp_Priority (hd g) = p) gs of None \<Rightarrow> [] | Some g \<Rightarrow> f g)"
    if f: "\<And>g. set (f g) = set g" for f using assms(1)
  proof (induction gs)
    case (Cons g gs)
    have g: "uniform (cp_Priority (hd g)) g" "groups_ok gs"
      and rest: "\<forall>h \<in> set gs. cp_Priority (hd h) < cp_Priority (hd g)"
      using Cons.prems by (auto simp: groups_ok_def)
    have none: "List.find (\<lambda>h. cp_Priority (hd h) = p) gs = None" if "cp_Priority (hd g) = p"
      using rest that by (auto simp: find_None_iff)
    have "tier p (f g) = (if cp_Priority (hd g) = p then f g else [])"
      using g(1) f unfolding uniform_def by (metis (mono_tags, lifting) filter_False filter_True)
    with Cons.IH [OF g(2)] none show ?case by simp
  qed simp
  show "tier p (concat (map f gs)) = (case List.find (\<lambda>g. cp_Priority (hd g) = p) gs of None \<Rightarrow> [] | Some g \<Rightarrow> f g)"
    by (rule main [OF assms(2)])
  show "tier p (concat gs) = (case List.find (\<lambda>g. cp_Priority (hd g) = p) gs of None \<Rightarrow> [] | Some g \<Rightarrow> g)"
    using main [of "\<lambda>g. g"] by simp
qed

lemma mset_concat_map:
  "(\<And>g. mset (f g) = mset g) \<Longrightarrow> mset (concat (map f gs)) = mset (concat gs)"
  by (induction gs) simp_all

lemma concat_groups_priorities:
  assumes "groups_ok gs" and "\<And>g. mset (f g) = mset g"
  shows "map cp_Priority (concat (map f gs)) = map cp_Priority (concat gs)"
  using assms(1)
proof (induction gs)
  case (Cons g gs)
  have u: "uniform (cp_Priority (hd g)) g" "groups_ok gs" using Cons.prems by (auto simp: groups_ok_def)
  have "map cp_Priority h = replicate (length h) p" if "uniform p h" for p h
    using that by (induction h) (auto simp: uniform_def)
  moreover have "uniform (cp_Priority (hd g)) (f g)"
    using u(1) assms(2) [of g] unfolding uniform_def by (metis set_mset_mset)
  ultimately have "map cp_Priority (f g) = map cp_Priority g"
    using u(1) assms(2) [of g] by (metis size_mset)
  with Cons.IH [OF u(2)] show ?case by simp
qed simp

text \<open>The sticky provider moves to the front of its run and nothing else moves.\<close>

lemma group_start_spec:
  assumes "i < length xs" and "by_priority xs" and "cp_Priority (xs ! i) = p"
  shows "group_start xs p i \<le> i" and "uniform p (drop (group_start xs p i) (take i xs))"
    and "\<forall>x \<in> set (take (group_start xs p i) xs). p < cp_Priority x"
proof -
  have main: "j \<le> i \<Longrightarrow> group_start xs p j \<le> j \<and> uniform p (drop (group_start xs p j) (take j xs)) \<and>
      (\<forall>x \<in> set (take (group_start xs p j) xs). p < cp_Priority x)" for j
  proof (induction j)
    case (Suc j)
    then have j: "j < i" "j < length xs" and IH: "group_start xs p j \<le> j"
      "uniform p (drop (group_start xs p j) (take j xs))" "\<forall>x \<in> set (take (group_start xs p j) xs). p < cp_Priority x"
      using assms(1) by auto
    show ?case
    proof (cases "cp_Priority (xs ! j) = p")
      case True
      with IH j show ?thesis by (simp add: take_Suc_conv_app_nth)
    next
      case False
      have ge: "cp_Priority (xs ! k) \<ge> cp_Priority (xs ! j)" "cp_Priority (xs ! j) \<ge> p" if "k \<le> j" for k
        using assms(1,2,3) j that sorted_wrt_nth_less [OF assms(2), of k j] sorted_wrt_nth_less [OF assms(2), of j i]
        by (cases "k = j"; simp)+
      have "p < cp_Priority x" if "x \<in> set (take (Suc j) xs)" for x
      proof -
        from that obtain k where "k \<le> j" "x = xs ! k" using j(2) by (force simp: in_set_conv_nth less_Suc_eq_le)
        with ge [of k] False show ?thesis by auto
      qed
      with False show ?thesis by simp
    qed
  qed simp
  from main [of i] show "group_start xs p i \<le> i" "uniform p (drop (group_start xs p i) (take i xs))"
    "\<forall>x \<in> set (take (group_start xs p i) xs). p < cp_Priority x" by auto
qed

lemma uniform_tier: "uniform p xs \<Longrightarrow> tier p xs = xs"
  by (simp add: uniform_def filter_id_conv)

lemma uniform_priorities: "uniform p h \<Longrightarrow> map cp_Priority h = replicate (length h) p"
  by (induction h) (auto simp: uniform_def)

lemma lead_group_spec:
  assumes "by_priority xs" and "distinct (map cp_ID xs)" and "a \<in> set xs"
  shows "mset (lead_group xs a) = mset xs" and "map cp_Priority (lead_group xs a) = map cp_Priority xs"
    and "tier (cp_Priority a) (lead_group xs a) = a # remove1 a (tier (cp_Priority a) xs)"
    and "q \<noteq> cp_Priority a \<Longrightarrow> tier q (lead_group xs a) = tier q xs"
proof -
  let ?p = "cp_Priority a"
  obtain i where fi: "first_index (\<lambda>x. cp_ID x = cp_ID a \<and> cp_Generation x = cp_Generation a) xs = Some i"
    using first_index_None [of "\<lambda>x. cp_ID x = cp_ID a \<and> cp_Generation x = cp_Generation a" xs] assms(3) by blast
  note ix = first_index_Some [OF fi]
  have a: "xs ! i = a"
    using ix assms(2,3) by (metis (no_types, lifting) distinct_map inj_onD nth_mem)
  let ?g = "group_start xs ?p i"
  note gs = group_start_spec [of i xs ?p, OF conjunct1 [OF ix] assms(1)]
  have g: "?g \<le> i" "uniform ?p (drop ?g (take i xs))" "\<forall>x \<in> set (take ?g xs). ?p < cp_Priority x"
    using gs a by simp_all
  have xs: "xs = take ?g xs @ drop ?g (take i xs) @ [a] @ drop (Suc i) xs"
  proof -
    have "xs = take i xs @ [a] @ drop (Suc i) xs" using id_take_nth_drop [of i xs] ix a by simp
    moreover have "take i xs = take ?g xs @ drop ?g (take i xs)"
      using append_take_drop_id [of ?g "take i xs"] g(1) by (simp add: min_def)
    ultimately show ?thesis by (metis append.assoc)
  qed
  have lead: "lead_group xs a = take ?g xs @ [a] @ drop ?g (take i xs) @ drop (Suc i) xs"
  proof (cases "?g = i")
    case True
    with xs show ?thesis by (simp add: lead_group_def fi Let_def)
  qed (simp add: lead_group_def fi a Let_def)
  define A B C where "A = take ?g xs" and "B = drop ?g (take i xs)" and "C = drop (Suc i) xs"
  note abc = A_def [symmetric] B_def [symmetric] C_def [symmetric]
  have xs: "xs = A @ B @ [a] @ C" and lead: "lead_group xs a = A @ [a] @ B @ C"
    using xs lead unfolding abc by simp_all
  have B: "uniform ?p B" and A: "\<forall>x \<in> set A. ?p < cp_Priority x" using g(2,3) unfolding abc by simp_all
  have notin: "a \<notin> set B" "a \<notin> set A" using assms(2) unfolding xs by auto
  have tA: "tier ?p A = []" using A by (auto simp: filter_empty_conv)
  show "mset (lead_group xs a) = mset xs" unfolding lead by (subst xs) simp
  have "map cp_Priority B @ [?p] = ?p # map cp_Priority B"
    using uniform_priorities [OF B] by (simp add: replicate_append_same)
  then show "map cp_Priority (lead_group xs a) = map cp_Priority xs" unfolding lead by (subst xs) simp
  show "tier ?p (lead_group xs a) = a # remove1 a (tier ?p xs)"
    unfolding lead by (subst xs) (simp add: tA uniform_tier [OF B] remove1_append notin)
  show "tier q (lead_group xs a) = tier q xs" if "q \<noteq> ?p"
    unfolding lead using that B by (subst xs) simp
qed

text \<open>The member of a tier that its cursor points at.\<close>

definition tier_cursor :: "(roundRobinKey, cursorState) gomap \<Rightarrow> StickyKey \<Rightarrow> int \<Rightarrow> string" where
  "tier_cursor cursors key p = cs_ProviderID (cursor_at cursors
     \<lparr>rr_Model = sk_Model key, rr_RequestType = sk_RequestType key, rr_Priority = p\<rparr>)"

definition tier_turn ::
  "(roundRobinKey, cursorState) gomap \<Rightarrow> StickyKey \<Rightarrow> CompiledProvider option \<Rightarrow> int \<Rightarrow> string" where
  "tier_turn cursors key assigned p =
     (case assigned of Some a \<Rightarrow> if p = cp_Priority a then cp_ID a else tier_cursor cursors key p
      | None \<Rightarrow> tier_cursor cursors key p)"

lemma orderCandidates_turns:
  "orderCandidatesLocked cursors items key assigned =
     (let ordered = concat (map (\<lambda>g. rotateAfter g (tier_turn cursors key assigned (cp_Priority (hd g)))) (groups_of items))
      in case assigned of None \<Rightarrow> ordered | Some p \<Rightarrow> lead_group ordered p)"
  by (cases assigned) (auto simp: orderCandidatesLocked_def tier_turn_def tier_cursor_def Let_def if_distrib
      intro!: arg_cong [where f = concat] arg_cong2 [where f = lead_group] map_cong)

lemma turns_spec:
  assumes "by_priority items"
    and ordered_def: "ordered = concat (map (\<lambda>g. rotateAfter g (t (cp_Priority (hd g)))) (groups_of items))"
  shows "mset ordered = mset items" and "map cp_Priority ordered = map cp_Priority items"
    and "tier p ordered = rotateAfter (tier p items) (t p)"
proof -
  note gs = groups_of_spec [OF assms(1)]
  show "mset ordered = mset items"
    unfolding ordered_def using mset_concat_map [of "\<lambda>g. rotateAfter g (t (cp_Priority (hd g)))" "groups_of items"] gs by simp
  show "map cp_Priority ordered = map cp_Priority items"
    unfolding ordered_def
    using concat_groups_priorities [of "groups_of items" "\<lambda>g. rotateAfter g (t (cp_Priority (hd g)))"] gs by simp
  have "rotateAfter [] c = []" for c by (simp add: rotateAfter_def)
  then show "tier p ordered = rotateAfter (tier p items) (t p)"
    unfolding ordered_def
    using tier_concat_groups [of "groups_of items" "\<lambda>g. rotateAfter g (t (cp_Priority (hd g)))" p] gs
    by (cases "List.find (\<lambda>g. cp_Priority (hd g) = p) (groups_of items)") (auto dest: find_Some_match)
qed

lemma orderCandidates_spec:
  assumes "by_priority items" and "distinct (map cp_ID items)" and "set_option assigned \<subseteq> set items"
    and "ordered = orderCandidatesLocked cursors items key assigned"
  shows "mset ordered = mset items \<and> by_priority ordered \<and>
    tier p ordered =
      (case assigned of
         Some a \<Rightarrow> if p = cp_Priority a then a # remove1 a (rotateAfter (tier p items) (cp_ID a))
                  else rotateAfter (tier p items) (tier_cursor cursors key p)
       | None \<Rightarrow> rotateAfter (tier p items) (tier_cursor cursors key p))"
proof -
  let ?o = "concat (map (\<lambda>g. rotateAfter g (tier_turn cursors key assigned (cp_Priority (hd g)))) (groups_of items))"
  note t = turns_spec [OF assms(1) refl, where t = "tier_turn cursors key assigned"]
  have o: "by_priority ?o" using t(2) assms(1) unfolding by_priority_map by simp
  have d: "distinct (map cp_ID ?o)"
    using t(1) assms(2) by (metis mset_map mset_eq_imp_distinct_iff)
  have s: "set ?o = set items" using t(1) by (metis set_mset_mset)
  have ord: "ordered = (case assigned of None \<Rightarrow> ?o | Some p \<Rightarrow> lead_group ?o p)"
    by (simp add: assms(4) orderCandidates_turns Let_def)
  show ?thesis
  proof (cases assigned)
    case None
    with t o show ?thesis by (simp add: ord tier_turn_def)
  next
    case (Some a)
    then have a: "a \<in> set ?o" using assms(3) s by simp
    note l = lead_group_spec [OF o d a]
    have "by_priority (lead_group ?o a)" using l(2) o unfolding by_priority_map by simp
    with Some t l show ?thesis by (simp add: ord tier_turn_def)
  qed
qed

section \<open>Properties\<close>

text \<open>Declaratively: the place of the snapshot's list at which a usable provider is listed first.\<close>

definition usable :: "string \<Rightarrow> CompiledProvider \<Rightarrow> bool" where
  "usable m p \<longleftrightarrow> cp_Enabled p \<and> cp_APIKey p \<noteq> [] \<and> cp_Models p \<noteq> [] \<and> m \<in> cp_modelSet p"

definition listed_at :: "CompiledProvider option list \<Rightarrow> string \<Rightarrow> nat \<Rightarrow> CompiledProvider \<Rightarrow> bool" where
  "listed_at items m i p \<longleftrightarrow> i < length items \<and> items ! i = Some p \<and> usable m p \<and>
     (\<forall>j < i. \<forall>q. items ! j = Some q \<and> usable m q \<longrightarrow> cp_ID q \<noteq> cp_ID p)"

lemma usable_iff: "usable m p \<longleftrightarrow> StaticAvailabilityOf (Some p) = StaticActive \<and> SupportsModel p m"
  by (simp add: usable_def StaticAvailabilityOf_def SupportsModel_def)

lemma listed_at_Cons:
  "listed_at (x # items) m i p \<longleftrightarrow>
     (case i of 0 \<Rightarrow> x = Some p \<and> usable m p
      | Suc j \<Rightarrow> listed_at items m j p \<and> (\<forall>q. x = Some q \<and> usable m q \<longrightarrow> cp_ID q \<noteq> cp_ID p))"
  by (cases i) (auto simp: listed_at_def All_less_Suc2)

lemma ex_place: "(\<exists>i. P i) \<longleftrightarrow> P 0 \<or> (\<exists>i. P (Suc i))"
  by (metis nat.exhaust)

lemma listed_Nil: "\<not> listed_at [] m i p"
  by (simp add: listed_at_def)

lemma listed_Cons:
  "(\<exists>i. listed_at (x # items) m i p) \<longleftrightarrow>
     (x = Some p \<and> usable m p) \<or> (\<exists>i. listed_at items m i p) \<and> (\<forall>q. x = Some q \<and> usable m q \<longrightarrow> cp_ID q \<noteq> cp_ID p)"
  by (subst ex_place) (auto simp: listed_at_Cons)

text \<open>The loop collects the first places in order.\<close>

lemma eligible_loop_listed:
  "p \<in> set (eligible_loop m seen items) \<longleftrightarrow> cp_ID p \<notin> seen \<and> (\<exists>i. listed_at items m i p)"
proof (induction m seen items rule: eligible_loop.induct)
  case (3 m seen q items)
  then show ?case unfolding listed_Cons by (auto simp: usable_iff)
qed (simp_all add: listed_Nil listed_Cons)

definition listed_before :: "CompiledProvider option list \<Rightarrow> string \<Rightarrow> CompiledProvider \<Rightarrow> CompiledProvider \<Rightarrow> bool" where
  "listed_before items m p q \<longleftrightarrow> (\<exists>i j. i < j \<and> listed_at items m i p \<and> listed_at items m j q)"

lemma eligible_loop_before: "sorted_wrt (listed_before items m) (eligible_loop m seen items)"
proof (induction m seen items rule: eligible_loop.induct)
  case (2 m seen items)
  have "listed_before (None # items) m p q" if "listed_before items m p q" for p q
  proof -
    from that obtain i j where "i < j" "listed_at items m i p" "listed_at items m j q" by (auto simp: listed_before_def)
    then have "Suc i < Suc j" "listed_at (None # items) m (Suc i) p" "listed_at (None # items) m (Suc j) q"
      by (simp_all add: listed_at_Cons)
    then show ?thesis unfolding listed_before_def by blast
  qed
  with 2 show ?case by (auto intro: sorted_wrt_mono_rel)
next
  case (3 m seen x items)
  have up: "listed_at (Some x # items) m (Suc j) q" if "listed_at items m j q" "usable m x \<longrightarrow> cp_ID x \<noteq> cp_ID q" for j q
    using that by (simp add: listed_at_Cons)
  have shift: "listed_before (Some x # items) m p q"
    if b: "listed_before items m p q" and n: "usable m x \<longrightarrow> cp_ID x \<noteq> cp_ID p" "usable m x \<longrightarrow> cp_ID x \<noteq> cp_ID q" for p q
  proof -
    from b obtain i j where "i < j" "listed_at items m i p" "listed_at items m j q" by (auto simp: listed_before_def)
    then have "Suc i < Suc j" "listed_at (Some x # items) m (Suc i) p" "listed_at (Some x # items) m (Suc j) q"
      using up n by auto
    then show ?thesis unfolding listed_before_def by blast
  qed
  let ?skip = "eligible_loop m seen items" and ?take = "eligible_loop m (insert (cp_ID x) seen) items"
  show ?case
  proof (cases "usable m x \<and> cp_ID x \<notin> seen")
    case True
    have t: "sorted_wrt (listed_before items m) ?take" using 3 True by (auto simp: usable_iff)
    have "sorted_wrt (listed_before (Some x # items) m) ?take"
      by (rule sorted_wrt_mono_rel [OF _ t]) (auto intro!: shift simp: eligible_loop_listed)
    moreover have "listed_before (Some x # items) m x q" if "q \<in> set ?take" for q
    proof -
      from that obtain j where "listed_at items m j q" "cp_ID x \<noteq> cp_ID q" by (auto simp: eligible_loop_listed)
      then have "listed_at (Some x # items) m (Suc j) q" by (intro up) simp_all
      moreover have "listed_at (Some x # items) m 0 x" using True by (simp add: listed_at_Cons)
      ultimately show ?thesis unfolding listed_before_def by blast
    qed
    ultimately show ?thesis using True by (simp add: usable_iff)
  next
    case False
    have t: "sorted_wrt (listed_before items m) ?skip" using 3 False by (auto simp: usable_iff)
    have "sorted_wrt (listed_before (Some x # items) m) ?skip"
      by (rule sorted_wrt_mono_rel [OF _ t]) (use False in \<open>auto intro!: shift simp: eligible_loop_listed\<close>)
    then show ?thesis using False by (auto simp: usable_iff)
  qed
qed simp

lemma sorted_by_tiers:
  assumes "by_priority xs" and "\<And>q. sorted_wrt R (tier q xs)"
  shows "sorted_wrt (\<lambda>x y. cp_Priority x > cp_Priority y \<or> cp_Priority x = cp_Priority y \<and> R x y) xs"
  using assms
proof (induction xs)
  case (Cons x xs)
  have "sorted_wrt R (tier q xs)" for q using Cons.prems(2) [of q] by (auto split: if_splits)
  moreover have "R x y" if "y \<in> set xs" "cp_Priority x = cp_Priority y" for y
    using Cons.prems(2) [of "cp_Priority x"] that by auto
  ultimately show ?case using Cons by (auto simp: order.order_iff_strict)
qed simp

text \<open>
  C26. The candidates of a request are exactly the enabled, keyed providers that serve the model;
  of several under one ID only the first the snapshot lists; they are ordered by descending
  priority and, within a priority, by their places in the snapshot.
\<close>

theorem eligibleCandidates_correct:
  "(\<forall>p. p \<in> set (eligibleCandidates items m) \<longleftrightarrow> (\<exists>i. listed_at items m i p)) \<and>
   distinct (map cp_ID (eligibleCandidates items m)) \<and>
   sorted_wrt (\<lambda>p q. cp_Priority p > cp_Priority q \<or>
       cp_Priority p = cp_Priority q \<and> (\<exists>i j. i < j \<and> listed_at items m i p \<and> listed_at items m j q))
     (eligibleCandidates items m)"
proof (intro conjI)
  have "set (eligibleCandidates items m) = set (eligible_loop m {} items)"
    unfolding eligibleCandidates_def by (metis stable_sort_desc_mset set_mset_mset)
  then show "\<forall>p. p \<in> set (eligibleCandidates items m) \<longleftrightarrow> (\<exists>i. listed_at items m i p)"
    by (simp add: eligible_loop_listed)
  have "tier q (eligibleCandidates items m) = tier q (eligible_loop m {} items)" for q
    by (simp add: eligibleCandidates_def stable_sort_desc_stable)
  then have "sorted_wrt (listed_before items m) (tier q (eligibleCandidates items m))" for q
    by (simp add: sorted_wrt_filter eligible_loop_before)
  from sorted_by_tiers [OF eligibleCandidates_by_priority this, unfolded listed_before_def]
  show "sorted_wrt (\<lambda>p q. cp_Priority p > cp_Priority q \<or>
       cp_Priority p = cp_Priority q \<and> (\<exists>i j. i < j \<and> listed_at items m i p \<and> listed_at items m j q))
     (eligibleCandidates items m)" .
qed (rule eligibleCandidates_distinct)

text \<open>A later provider under the same ID and one without a key are passed over.\<close>

theorem eligibleCandidates_correct_witness:
  "set (eligibleCandidates [Some (example_provider ''b'' 1), Some ((example_provider ''c'' 2)\<lparr>cp_APIKey := []\<rparr>),
       Some (example_provider ''a'' 1), Some (example_provider ''b'' 5)] ''m'') = {example_provider ''b'' 1, example_provider ''a'' 1}"
proof -
  let ?items = "[Some (example_provider ''b'' 1), Some ((example_provider ''c'' 2)\<lparr>cp_APIKey := []\<rparr>),
       Some (example_provider ''a'' 1), Some (example_provider ''b'' 5)]"
  let ?b = "example_provider ''b'' 1" and ?c = "(example_provider ''c'' 2)\<lparr>cp_APIKey := []\<rparr>"
    and ?a = "example_provider ''a'' 1" and ?d = "example_provider ''b'' 5"
  have u: "usable ''m'' ?b" "\<not> usable ''m'' ?c" "usable ''m'' ?a" "usable ''m'' ?d" by (simp_all add: usable_def)
  have n: "cp_ID ?b = ''b''" "cp_ID ?a = ''a''" "cp_ID ?d = ''b''" by simp_all
  have "(\<exists>i. listed_at [Some b, Some c, Some a, Some d] ''m'' i p) \<longleftrightarrow> p = b \<or> p = a"
    if "usable ''m'' b" "\<not> usable ''m'' c" "usable ''m'' a" "cp_ID b = ''b''" "cp_ID a = ''a''" "cp_ID d = ''b''" for a b c d p
    unfolding listed_Cons using that by (auto simp: listed_Nil)
  from this [OF u(1,2,3) n] have "(\<exists>i. listed_at ?items ''m'' i p) \<longleftrightarrow> p = example_provider ''b'' 1 \<or> p = example_provider ''a'' 1" for p
    by blast
  with eligibleCandidates_correct [of ?items "''m''"] show ?thesis by blast
qed

text \<open>
  The order in which a request tries its candidates: a permutation of them, tiers of
  higher priority strictly first; inside a tier the provider after the round-robin cursor
  leads, and the session's sticky provider leads its own tier, followed by its successors.
\<close>

theorem orderCandidates_order:
  assumes "items = eligibleCandidates candidates m" and "set_option assigned \<subseteq> set items"
    and "ordered = orderCandidatesLocked cursors items key assigned"
  shows "mset ordered = mset items \<and> by_priority ordered \<and>
    tier p ordered =
      (case assigned of
         Some a \<Rightarrow> if p = cp_Priority a then a # remove1 a (rotateAfter (tier p items) (cp_ID a))
                  else rotateAfter (tier p items) (tier_cursor cursors key p)
       | None \<Rightarrow> rotateAfter (tier p items) (tier_cursor cursors key p))"
  using orderCandidates_spec [of items assigned ordered cursors key p] assms
    eligibleCandidates_by_priority [of candidates m] eligibleCandidates_distinct [of candidates m] by blast

theorem orderCandidates_order_witness:
  "tier 1 (orderCandidatesLocked [] (eligibleCandidates [Some (example_provider ''a'' 1)] ''m'')
       \<lparr>sk_SessionID = ''s'', sk_Model = ''m'', sk_RequestType = ''normal''\<rparr> (Some (example_provider ''a'' 1)))
     = [example_provider ''a'' 1]"
proof -
  have e: "eligibleCandidates [Some (example_provider ''a'' 1)] ''m'' = [example_provider ''a'' 1]"
    by (simp add: eligibleCandidates_def stable_sort_desc_def StaticAvailabilityOf_def SupportsModel_def)
  show ?thesis
    using orderCandidates_order [OF refl _ refl, of "Some (example_provider ''a'' 1)" "[Some (example_provider ''a'' 1)]" "''m''"
        "[]" "\<lparr>sk_SessionID = ''s'', sk_Model = ''m'', sk_RequestType = ''normal''\<rparr>" 1]
    unfolding e by (simp add: rotateAfter_def)
qed

lemma rotateAfter_nth:
  assumes "i < length g" and "distinct (map cp_ID g)" and "cp_ID (g ! i) \<noteq> []"
  shows "rotateAfter g (cp_ID (g ! i)) = rotate (Suc i) g"
proof -
  have "first_index (\<lambda>x. cp_ID x = cp_ID (g ! i)) g = Some i"
  proof (cases "first_index (\<lambda>x. cp_ID x = cp_ID (g ! i)) g")
    case None
    with assms(1) show ?thesis unfolding first_index_None by (metis nth_mem)
  next
    case (Some j)
    with first_index_Some [OF Some] assms(1,2) show ?thesis by (auto simp: distinct_conv_nth)
  qed
  moreover have "drop (Suc i) g @ take (Suc i) g = rotate (Suc i) g"
    using assms(1) by (cases "Suc i = length g") (auto simp: rotate_drop_take)
  ultimately show ?thesis using assms(3) by (simp add: rotateAfter_def)
qed

text \<open>A tier is asked from some place on, round about; after its \<open>k\<close>-th member the next one leads.\<close>

lemma rotateAfter_rotate: "\<exists>k. rotateAfter g c = rotate k g"
proof (cases "c = [] \<or> first_index (\<lambda>x. cp_ID x = c) g = None")
  case True
  then have "rotateAfter g c = rotate 0 g" by (auto simp: rotateAfter_def)
  then show ?thesis by blast
next
  case False
  then obtain i where i: "first_index (\<lambda>x. cp_ID x = c) g = Some i" by auto
  from first_index_Some [OF i] have "Suc i \<le> length g" by simp
  then have "drop (Suc i) g @ take (Suc i) g = rotate (Suc i) g"
    by (cases "Suc i = length g") (auto simp: rotate_drop_take)
  with i False show ?thesis by (auto simp: rotateAfter_def intro: exI [of _ "Suc i"])
qed

lemma rotateAfter_mod:
  assumes "g \<noteq> []" and "distinct (map cp_ID g)" and "\<forall>x \<in> set g. cp_ID x \<noteq> []"
  shows "rotateAfter g (cp_ID (g ! (k mod length g))) = rotate (Suc k) g"
proof -
  have k: "k mod length g < length g" using assms(1) by simp
  from rotateAfter_nth [OF k assms(2)] assms(3) k have "rotateAfter g (cp_ID (g ! (k mod length g))) = rotate (Suc (k mod length g)) g"
    by simp
  also have "\<dots> = rotate (Suc k) g" by (metis mod_Suc_eq rotate_conv_mod)
  finally show ?thesis .
qed

end
