(* ===== verification/Selector.thy ===== *)
theory Selector
  imports Affinity_Cache Selector_Order "HOL-Library.Product_Lexorder"
begin

text \<open>
  The selector (\<open>internal/scheduler/selector.go\<close> and the request state of
  \<open>internal/scheduler/contracts.go\<close>): provider selection, session affinity and the report
  path. The health controller is an interface of the source: its operations are the
  record \<open>HealthController\<close>, an argument of the definitions, over a controller state \<open>'h\<close>
  that the scheduler owns. The scheduler holds its mutex during every call, so a call is
  one step; its clock is a stream of readings.

  An operation whose result is an option returns \<open>None\<close> when a loop of the source would not
  end: the health controller's token loop, or an eviction or expiry loop on inconsistent
  affinity data. \<open>Selector_Properties\<close> shows that this never happens.
\<close>

section \<open>Interfaces\<close>

record Snapshot =
  sn_Revision :: u64
  sn_GatewayKey :: string
  sn_AttemptPolicy :: AttemptPolicy
  sn_Candidates :: "string \<Rightarrow> CompiledProvider option list"
  sn_Providers :: "CompiledProvider option list"

record 'h HealthController =
  hc_Reconcile :: "CompiledProvider option list \<Rightarrow> 'h \<Rightarrow> 'h"
  hc_Acquire :: "HealthKey \<Rightarrow> bool \<Rightarrow> 'h \<Rightarrow> (HealthDecision \<times> 'h) option"
  hc_Report :: "HealthLease \<Rightarrow> Outcome \<Rightarrow> 'h \<Rightarrow> HealthUpdate \<times> u64 \<times> 'h"
  hc_EarliestRetry :: "HealthKey list \<Rightarrow> 'h \<Rightarrow> gotime \<times> bool \<times> 'h"
  hc_UpdateError :: "(HealthLease \<Rightarrow> u64 \<Rightarrow> string \<Rightarrow> bool \<Rightarrow> bool \<Rightarrow> 'h \<Rightarrow> 'h) option"

section \<open>Request state\<close>

record affinitySource =
  src_ProviderID :: string
  src_Generation :: ProviderGeneration
  src_Version :: u64

definition zeroSource :: affinitySource where
  "zeroSource = \<lparr> src_ProviderID = '''', src_Generation = '''', src_Version = 0 \<rparr>"

datatype stickyRetryPhase = stickyRetryPending | stickyRetryActive | stickyRetryEnded

record RequestSelection =
  rs_policy :: AttemptPolicy
  rs_attemptsUsed :: int
  rs_initialized :: bool
  rs_ordered :: "CompiledProvider list"
  rs_visited :: "(string, bool) gomap"
  rs_source :: affinitySource
  rs_stickyPhase :: stickyRetryPhase
  rs_stickyAttemptsUsed :: int

definition NewRequestSelection :: "AttemptPolicy \<Rightarrow> RequestSelection" where
  "NewRequestSelection policy =
     \<lparr> rs_policy = policy, rs_attemptsUsed = 0, rs_initialized = False, rs_ordered = [], rs_visited = [],
       rs_source = zeroSource, rs_stickyPhase = stickyRetryPending, rs_stickyAttemptsUsed = 0 \<rparr>"

definition StartAttempt :: "RequestSelection \<Rightarrow> int \<times> RequestSelection" where
  "StartAttempt r =
     (let r = r\<lparr>rs_attemptsUsed := rs_attemptsUsed r + 1\<rparr>;
          r = (if rs_stickyPhase r = stickyRetryActive
               then let r = r\<lparr>rs_stickyAttemptsUsed := rs_stickyAttemptsUsed r + 1\<rparr> in
                    if rs_stickyAttemptsUsed r \<ge> ap_StickyNoCooldownAttempts (rs_policy r)
                    then r\<lparr>rs_stickyPhase := stickyRetryEnded\<rparr> else r
               else r)
      in (rs_attemptsUsed r, r))"

definition HasBudget :: "RequestSelection \<Rightarrow> bool" where
  "HasBudget r = (rs_attemptsUsed r < ap_MaxAttempts (rs_policy r))"

definition source_matches :: "affinitySource \<Rightarrow> CompiledProvider \<Rightarrow> bool" where
  "source_matches source item =
     (src_ProviderID source \<noteq> [] \<and> cp_ID item = src_ProviderID source \<and> cp_Generation item = src_Generation source)"

definition migrationSource :: "assignmentEntry \<Rightarrow> affinitySource" where
  "migrationSource entry =
     \<lparr> src_ProviderID = as_ProviderID (ae_assignment entry), src_Generation = as_Generation (ae_assignment entry),
       src_Version = ae_version entry \<rparr>"

section \<open>Scheduler state and leases\<close>

record providerState =
  ps_Provider :: CompiledProvider
  ps_Static :: StaticAvailability

record 'h Scheduler =
  sch_health :: 'h
  sch_policy :: Policy
  sch_clock :: "nat \<Rightarrow> gotime"
  sch_reads :: nat
  sch_revision :: u64
  sch_providers :: "(string, providerState) gomap"
  sch_cursors :: "(roundRobinKey, cursorState) gomap"
  sch_affinity :: affinity

datatype SelectionReason = SelectionRegular | SelectionStickyRetry

record AttemptLease =
  al_SnapshotRevision :: u64
  al_Provider :: "CompiledProvider option"
  al_Model :: string
  al_RequestType :: RequestType
  al_Generation :: ProviderGeneration
  al_FromSticky :: bool
  al_SelectionReason :: SelectionReason
  al_HalfOpenProbe :: bool
  al_HealthLease :: HealthLease
  al_stickyKey :: StickyKey
  al_stickyMigration :: bool
  al_stickySourceProviderID :: string
  al_stickySourceGeneration :: ProviderGeneration
  al_stickySourceVersion :: u64
  al_cursorKey :: roundRobinKey
  al_cursorVersion :: u64
  al_advanceCursorOnSuccess :: bool

datatype SchedulerError =
  ErrInvalidSchedulingKey string
| ErrAttemptBudgetExhausted
| UnavailableError gotime \<comment> \<open>the field RetryAt; zero when no deadline is known\<close>

definition RetryAtTime :: "SchedulerError \<Rightarrow> gotime \<times> bool" where
  "RetryAtTime e = (case e of UnavailableError t \<Rightarrow> if t = 0 then (0, False) else (t, True) | _ \<Rightarrow> (0, False))"

definition Scheduler_New :: "Policy \<Rightarrow> (nat \<Rightarrow> gotime) \<Rightarrow> 'h \<Rightarrow> string + 'h Scheduler" where
  "Scheduler_New policy now health =
     (let policy = (if policy = zeroPolicy then DefaultPolicy else policy) in
      case Policy_Validate policy of
        Some err \<Rightarrow> Inl err
      | None \<Rightarrow> Inr \<lparr> sch_health = health, sch_policy = policy, sch_clock = now, sch_reads = 0,
          sch_revision = 0, sch_providers = [], sch_cursors = [], sch_affinity = emptyAffinity \<rparr>)"

definition sched_now :: "'h Scheduler \<Rightarrow> gotime \<times> 'h Scheduler" where
  "sched_now s = (sch_clock s (sch_reads s), s\<lparr>sch_reads := Suc (sch_reads s)\<rparr>)"

definition expire_now :: "gotime \<Rightarrow> 'h Scheduler \<Rightarrow> 'h Scheduler option" where
  "expire_now now s =
     (case expireLocked (po_StickyTTL (sch_policy s)) now (sch_affinity s) of
        None \<Rightarrow> None | Some af \<Rightarrow> Some (s\<lparr>sch_affinity := af\<rparr>))"

section \<open>Cursors\<close>

definition setCursorLocked ::
  "roundRobinKey \<Rightarrow> string \<Rightarrow> (roundRobinKey, cursorState) gomap \<Rightarrow> (roundRobinKey, cursorState) gomap" where
  "setCursorLocked key providerID cursors =
     AList.update key \<lparr>cs_ProviderID = providerID, cs_Version = cs_Version (cursor_at cursors key) + 1\<rparr> cursors"

text \<open>\<open>clearCursorLocked\<close> stores the empty provider ID and counts the version up.\<close>

definition cleared :: "cursorState \<Rightarrow> cursorState" where
  "cleared c = \<lparr>cs_ProviderID = '''', cs_Version = cs_Version c + 1\<rparr>"

definition clearProviderCursorsLocked ::
  "string \<Rightarrow> (roundRobinKey, cursorState) gomap \<Rightarrow> (roundRobinKey, cursorState) gomap" where
  "clearProviderCursorsLocked providerID cursors =
     gmapvals (\<lambda>_ c. if cs_ProviderID c = providerID then cleared c else c) cursors"

definition clearChannelCursorLocked ::
  "string \<Rightarrow> string \<Rightarrow> RequestType \<Rightarrow> (roundRobinKey, cursorState) gomap \<Rightarrow> (roundRobinKey, cursorState) gomap" where
  "clearChannelCursorLocked providerID model requestType cursors =
     gmapvals (\<lambda>k c. if cs_ProviderID c = providerID \<and> rr_Model k = model \<and> rr_RequestType k = requestType
                     then cleared c else c) cursors"

section \<open>Selection\<close>

datatype candidateReason = candidateFirst | candidateStickyRetry | candidateRoundRobin

record candidateSelection =
  sel_provider :: CompiledProvider
  sel_healthLease :: HealthLease
  sel_reason :: candidateReason
  sel_newRound :: bool

text \<open>What a selection pass has seen: the earliest retry, whether a probe blocks, the controller.\<close>

record 'h scan =
  scan_earliest :: gotime
  scan_blocked :: bool
  scan_health :: 'h

definition health_key :: "StickyKey \<Rightarrow> CompiledProvider \<Rightarrow> HealthKey" where
  "health_key key item =
     \<lparr> hk_ProviderID = cp_ID item, hk_Generation = cp_Generation item, hk_Epoch = cp_HealthEpoch item,
       hk_Model = sk_Model key, hk_RequestType = sk_RequestType key \<rparr>"

text \<open>The closure \<open>acquire\<close> of \<open>selectInTierLocked\<close>.\<close>

definition try_acquire ::
  "'h HealthController \<Rightarrow> StickyKey \<Rightarrow> CompiledProvider \<Rightarrow> 'h scan \<Rightarrow> (HealthLease option \<times> 'h scan) option" where
  "try_acquire hc key item sc =
     (case hc_Acquire hc (health_key key item) (cp_DisableHealth item) (scan_health sc) of
        None \<Rightarrow> None
      | Some (decision, h) \<Rightarrow>
          if hd_Available decision then Some (Some (hd_Lease decision), sc\<lparr>scan_health := h\<rparr>)
          else
            let earliest = (case hd_RetryAt decision of
                  Some t \<Rightarrow> if scan_earliest sc = 0 \<or> t < scan_earliest sc then t else scan_earliest sc
                | None \<Rightarrow> scan_earliest sc);
                cooling = (hd_GlobalState decision = GlobalCooldown \<or> hd_ChannelState decision = ChannelCooldown)
            in Some (None, \<lparr> scan_earliest = earliest, scan_blocked = (scan_blocked sc \<or> \<not> cooling), scan_health = h \<rparr>))"

definition visited_at :: "RequestSelection \<Rightarrow> string \<Rightarrow> bool" where
  "visited_at request ident = (map_of (rs_visited request) ident = Some True)"

text \<open>One pass over a tier: \<open>again\<close> is \<open>pass == 1\<close>.\<close>

fun tier_pass ::
  "'h HealthController \<Rightarrow> StickyKey \<Rightarrow> RequestSelection \<Rightarrow> candidateReason \<Rightarrow> bool \<Rightarrow> CompiledProvider list \<Rightarrow>
   'h scan \<Rightarrow> (candidateSelection option \<times> 'h scan) option" where
  "tier_pass hc key request reason again [] sc = Some (None, sc)"
| "tier_pass hc key request reason again (item # items) sc =
     (if visited_at request (cp_ID item) \<noteq> again then tier_pass hc key request reason again items sc
      else case try_acquire hc key item sc of
             None \<Rightarrow> None
           | Some (Some lease, sc) \<Rightarrow>
               Some (Some \<lparr> sel_provider = item, sel_healthLease = lease, sel_reason = reason, sel_newRound = again \<rparr>, sc)
           | Some (None, sc) \<Rightarrow> tier_pass hc key request reason again items sc)"

text \<open>The preference for the sticky source that health control does not guard.\<close>

definition sticky_pass ::
  "'h HealthController \<Rightarrow> StickyKey \<Rightarrow> RequestSelection \<Rightarrow> CompiledProvider list \<Rightarrow>
   'h scan \<Rightarrow> (candidateSelection option \<times> 'h scan) option" where
  "sticky_pass hc key request members sc =
     (if rs_stickyPhase request \<noteq> stickyRetryActive then Some (None, sc)
      else case findCandidate members (src_ProviderID (rs_source request)) (src_Generation (rs_source request)) of
             None \<Rightarrow> Some (None, sc)
           | Some item \<Rightarrow>
               if \<not> cp_DisableHealth item then Some (None, sc)
               else case try_acquire hc key item sc of
                      None \<Rightarrow> None
                    | Some (Some lease, sc) \<Rightarrow>
                        Some (Some \<lparr> sel_provider = item, sel_healthLease = lease,
                                     sel_reason = candidateStickyRetry, sel_newRound = False \<rparr>, sc)
                    | Some (None, sc) \<Rightarrow> Some (None, sc))"

definition selectInTierLocked ::
  "'h HealthController \<Rightarrow> StickyKey \<Rightarrow> RequestSelection \<Rightarrow> CompiledProvider list \<Rightarrow> candidateReason \<Rightarrow>
   gotime \<Rightarrow> 'h \<Rightarrow> (candidateSelection option \<times> 'h scan) option" where
  "selectInTierLocked hc key request members reason earliestRetry h =
     (case sticky_pass hc key request members \<lparr> scan_earliest = earliestRetry, scan_blocked = False, scan_health = h \<rparr> of
        None \<Rightarrow> None
      | Some (Some selected, sc) \<Rightarrow> Some (Some selected, sc)
      | Some (None, sc) \<Rightarrow>
          (case tier_pass hc key request reason False members sc of
             None \<Rightarrow> None
           | Some (Some selected, sc) \<Rightarrow> Some (Some selected, sc)
           | Some (None, sc) \<Rightarrow> tier_pass hc key request reason True members sc))"

text \<open>
  The loop over the tiers. The result is the selection with its group, or \<open>None\<close> when no
  tier gave one, and in both cases the earliest retry time and the controller state.
\<close>

function tier_loop ::
  "'h HealthController \<Rightarrow> StickyKey \<Rightarrow> RequestSelection \<Rightarrow> candidateReason \<Rightarrow> CompiledProvider list \<Rightarrow> gotime \<Rightarrow> 'h \<Rightarrow>
   ((candidateSelection \<times> CompiledProvider list) option \<times> gotime \<times> 'h) option" where
  "tier_loop hc key request reason [] earliestRetry h = Some (None, earliestRetry, h)"
| "tier_loop hc key request reason (x # xs) earliestRetry h =
     (let members = x # takeWhile (\<lambda>y. cp_Priority y = cp_Priority x) xs;
          rest = dropWhile (\<lambda>y. cp_Priority y = cp_Priority x) xs
      in case selectInTierLocked hc key request members reason earliestRetry h of
           None \<Rightarrow> None
         | Some (Some selected, sc) \<Rightarrow> Some (Some (selected, members), scan_earliest sc, scan_health sc)
         | Some (None, sc) \<Rightarrow>
             if scan_blocked sc then Some (None, scan_earliest sc, scan_health sc)
             else tier_loop hc key request reason rest (scan_earliest sc) (scan_health sc))"
  by pat_completeness auto
termination
  by (relation "measure (\<lambda>(hc, key, request, reason, xs, earliest, h). length xs)")
     (auto simp: length_dropWhile_le le_imp_less_Suc)

definition recordSelection ::
  "RequestSelection \<Rightarrow> candidateSelection \<Rightarrow> CompiledProvider list \<Rightarrow> RequestType \<Rightarrow> RequestSelection" where
  "recordSelection r selected members requestType =
     (let r = (if sel_newRound selected
               then r\<lparr>rs_visited := foldl (\<lambda>v member. AList.delete (cp_ID member) v) (rs_visited r) members\<rparr> else r);
          r = (if sel_reason selected \<noteq> candidateStickyRetry
               then r\<lparr>rs_visited := AList.update (cp_ID (sel_provider selected)) True (rs_visited r)\<rparr> else r)
      in case sel_reason selected of
           candidateFirst \<Rightarrow>
             if requestType = RequestTypeNormal \<and> source_matches (rs_source r) (sel_provider selected) \<and>
                cp_DisableHealth (sel_provider selected) \<and> ap_StickyNoCooldownAttempts (rs_policy r) > 1
             then r\<lparr>rs_stickyPhase := stickyRetryActive\<rparr>
             else r\<lparr>rs_stickyPhase := stickyRetryEnded\<rparr>
         | candidateRoundRobin \<Rightarrow> r\<lparr>rs_stickyPhase := stickyRetryEnded\<rparr>
         | candidateStickyRetry \<Rightarrow> r)"

definition makeAttemptLeaseLocked ::
  "Snapshot \<Rightarrow> StickyKey \<Rightarrow> candidateSelection \<Rightarrow> affinitySource \<Rightarrow> bool \<Rightarrow> gotime \<Rightarrow> 'h Scheduler \<Rightarrow>
   (AttemptLease \<times> affinitySource \<times> 'h Scheduler) option" where
  "makeAttemptLeaseLocked snapshot key selected source currentSnapshot now s =
     (let item = sel_provider selected;
          fromSticky = source_matches source item;
          first = (sel_reason selected = candidateFirst);
          bound = (if first \<and> src_ProviderID source = [] \<and> currentSnapshot \<and> sk_SessionID key \<noteq> []
                   then case putAssignmentLocked (po_StickyCapacity (sch_policy s)) key item now (sch_affinity s) of
                          None \<Rightarrow> None
                        | Some af \<Rightarrow>
                            (case map_of (af_assignments af) key of
                               None \<Rightarrow> None
                             | Some a \<Rightarrow> Some (migrationSource (af_heap af a), s\<lparr>sch_affinity := af\<rparr>))
                   else Some (source, s))
      in case bound of
           None \<Rightarrow> None
         | Some (source, s) \<Rightarrow>
             let s = (if fromSticky \<and> currentSnapshot
                      then case map_of (af_assignments (sch_affinity s)) key of
                             Some a \<Rightarrow>
                               if ae_version (af_heap (sch_affinity s) a) = src_Version source
                               then s\<lparr>sch_affinity := touchAssignmentLocked a now (sch_affinity s)\<rparr> else s
                           | None \<Rightarrow> s
                      else s);
                 migration = (src_ProviderID source \<noteq> [] \<and> \<not> source_matches source item);
                 cursorKey = \<lparr>rr_Model = sk_Model key, rr_RequestType = sk_RequestType key, rr_Priority = cp_Priority item\<rparr>;
                 cursor = cursor_at (sch_cursors s) cursorKey;
                 halfOpen = (hl_GlobalProbe (sel_healthLease selected) \<or> hl_ChannelProbe (sel_healthLease selected));
                 advanceCursor = (first \<and> \<not> fromSticky \<and> currentSnapshot);
                 s = (if advanceCursor \<and> \<not> halfOpen
                      then s\<lparr>sch_cursors := setCursorLocked cursorKey (cp_ID item) (sch_cursors s)\<rparr> else s);
                 reason = (if sel_reason selected = candidateStickyRetry then SelectionStickyRetry else SelectionRegular)
             in Some (\<lparr> al_SnapshotRevision = sn_Revision snapshot, al_Provider = Some item, al_Model = sk_Model key,
                  al_RequestType = sk_RequestType key, al_Generation = cp_Generation item, al_FromSticky = fromSticky,
                  al_SelectionReason = reason, al_HalfOpenProbe = halfOpen,
                  al_HealthLease = sel_healthLease selected, al_stickyKey = key, al_stickyMigration = migration,
                  al_stickySourceProviderID = src_ProviderID source,
                  al_stickySourceGeneration = src_Generation source, al_stickySourceVersion = src_Version source,
                  al_cursorKey = cursorKey, al_cursorVersion = cs_Version cursor,
                  al_advanceCursorOnSuccess = (advanceCursor \<and> halfOpen) \<rparr>, source, s))"

section \<open>Acquire\<close>

text \<open>The block of the first call of a request: sticky lookup, candidates and their order.\<close>

definition initRequest ::
  "Snapshot \<Rightarrow> StickyKey \<Rightarrow> bool \<Rightarrow> RequestSelection \<Rightarrow> 'h Scheduler \<Rightarrow> RequestSelection \<times> 'h Scheduler" where
  "initRequest snapshot key currentSnapshot request s =
     (let items = eligibleCandidates (sn_Candidates snapshot (sk_Model key)) (sk_Model key);
          af = sch_affinity s;
          assigned = (if currentSnapshot \<and> sk_SessionID key \<noteq> [] then map_of (af_assignments af) key else None);
          (assigned, assignedProvider, af) =
            (if currentSnapshot
             then let af = af\<lparr>af_pending := AList.delete key (af_pending af)\<rparr> in
                  case assigned of
                    None \<Rightarrow> (None, None, af)
                  | Some a \<Rightarrow>
                      (case findCandidate items (as_ProviderID (asg_at af a)) (as_Generation (asg_at af a)) of
                         None \<Rightarrow> (None, None, removeAssignmentLocked a af)
                       | Some p \<Rightarrow> (Some a, Some p, af))
             else (assigned, None, af));
          request = (case assigned of None \<Rightarrow> request
                     | Some a \<Rightarrow> request\<lparr>rs_source := migrationSource (af_heap af a)\<rparr>)
      in (request\<lparr>rs_ordered := orderCandidatesLocked (sch_cursors s) items key assignedProvider,
                  rs_visited := [], rs_initialized := True\<rparr>,
          s\<lparr>sch_affinity := af\<rparr>))"

text \<open>The locked part of \<open>Acquire\<close>.\<close>

definition acquireLocked ::
  "'h HealthController \<Rightarrow> Snapshot \<Rightarrow> StickyKey \<Rightarrow> RequestSelection \<Rightarrow> 'h Scheduler \<Rightarrow>
   ((SchedulerError + AttemptLease) \<times> RequestSelection \<times> 'h Scheduler) option" where
  "acquireLocked hc snapshot key request s =
     (let (now, s) = sched_now s in
      case expire_now now s of
        None \<Rightarrow> None
      | Some s \<Rightarrow>
          let currentSnapshot = (sch_revision s = 0 \<or> sn_Revision snapshot = sch_revision s);
              first = (\<not> rs_initialized request);
              (request, s) = (if first then initRequest snapshot key currentSnapshot request s else (request, s));
              reason = (if first then candidateFirst else candidateRoundRobin)
          in case tier_loop hc key request reason (rs_ordered request) 0 (sch_health s) of
               None \<Rightarrow> None
             | Some (None, earliestRetry, h) \<Rightarrow>
                 Some (Inl (UnavailableError earliestRetry), request\<lparr>rs_stickyPhase := stickyRetryEnded\<rparr>,
                       s\<lparr>sch_health := h\<rparr>)
             | Some (Some (selected, members), earliestRetry, h) \<Rightarrow>
                 let request = recordSelection request selected members (sk_RequestType key) in
                 (case makeAttemptLeaseLocked snapshot key selected (rs_source request) currentSnapshot now
                         (s\<lparr>sch_health := h\<rparr>) of
                    None \<Rightarrow> None
                  | Some (lease, source, s) \<Rightarrow> Some (Inr lease, request\<lparr>rs_source := source\<rparr>, s)))"

text \<open>\<open>Acquire\<close> with its checks; \<open>None\<close> as snapshot or request is nil.\<close>

definition Scheduler_Acquire ::
  "'h HealthController \<Rightarrow> Snapshot option \<Rightarrow> StickyKey \<Rightarrow> RequestSelection option \<Rightarrow> 'h Scheduler \<Rightarrow>
   ((SchedulerError + AttemptLease) \<times> RequestSelection option \<times> 'h Scheduler) option" where
  "Scheduler_Acquire hc snapshot key request s =
     (case (snapshot, request) of
        (Some snap, Some req) \<Rightarrow>
          (let key = key\<lparr>sk_SessionID := TrimSpace (sk_SessionID key)\<rparr> in
           if sk_Model key = [] \<or>
              (sk_RequestType key \<noteq> RequestTypeNormal \<and> sk_RequestType key \<noteq> RequestTypeClassifier)
           then Some (Inl (ErrInvalidSchedulingKey ''''), request, s)
           else case AttemptPolicy_Validate (rs_policy req) of
                  Some err \<Rightarrow> Some (Inl (ErrInvalidSchedulingKey err), request, s)
                | None \<Rightarrow>
                    if \<not> HasBudget req then Some (Inl ErrAttemptBudgetExhausted, request, s)
                    else map_option (\<lambda>(res, req, s). (res, Some req, s)) (acquireLocked hc snap key req s))
      | _ \<Rightarrow> Some (Inl (ErrInvalidSchedulingKey ''snapshot and request selection are required''), request, s))"

section \<open>Report\<close>

definition migrateAssignmentLocked :: "AttemptLease \<Rightarrow> 'h Scheduler \<Rightarrow> 'h Scheduler option" where
  "migrateAssignmentLocked lease s =
     (case al_Provider lease of
        None \<Rightarrow> Some s
      | Some item \<Rightarrow>
          let key = al_stickyKey lease; af = sch_affinity s in
          if sk_SessionID key = [] \<or> al_stickySourceProviderID lease = [] then Some s
          else
            let pending = map_of (af_pending af) key in
            if (case pending of None \<Rightarrow> False
                | Some p \<Rightarrow> pm_ProviderID p \<noteq> al_stickySourceProviderID lease \<or>
                           pm_Generation p \<noteq> al_stickySourceGeneration lease \<or>
                           pm_Version p \<noteq> al_stickySourceVersion lease)
            then Some s
            else case map_of (af_assignments af) key of
                   Some a \<Rightarrow>
                     if as_ProviderID (asg_at af a) \<noteq> al_stickySourceProviderID lease \<or>
                        as_Generation (asg_at af a) \<noteq> al_stickySourceGeneration lease \<or>
                        ae_version (af_heap af a) \<noteq> al_stickySourceVersion lease
                     then Some s
                     else (let (now, s) = sched_now s in Some (s\<lparr>sch_affinity := moveAssignment a key item now af\<rparr>))
                 | None \<Rightarrow>
                     (case pending of
                        None \<Rightarrow> Some s
                      | Some p \<Rightarrow>
                          let (createdAt, s) = (if pm_CreatedAt p = 0 then sched_now s else (pm_CreatedAt p, s));
                              (now, s) = sched_now s
                          in (case createReplacement (po_StickyCapacity (sch_policy s)) key item createdAt now af of
                                None \<Rightarrow> None | Some af \<Rightarrow> Some (s\<lparr>sch_affinity := af\<rparr>))))"

text \<open>The test at the head of \<open>Report\<close> that a lease with a provider no longer belongs to the current view.\<close>

definition lease_outdated :: "AttemptLease \<Rightarrow> CompiledProvider \<Rightarrow> 'h Scheduler \<Rightarrow> bool" where
  "lease_outdated lease item s =
     (case map_of (sch_providers s) (cp_ID item) of
        None \<Rightarrow> True
      | Some current \<Rightarrow>
          ps_Static current \<noteq> StaticActive \<or> cp_Generation (ps_Provider current) \<noteq> al_Generation lease \<or>
          \<not> SupportsModel (ps_Provider current) (al_Model lease) \<or>
          (al_SnapshotRevision lease \<noteq> 0 \<and> sch_revision s \<noteq> 0 \<and> al_SnapshotRevision lease \<noteq> sch_revision s))"

definition report_health ::
  "'h HealthController \<Rightarrow> HealthLease \<Rightarrow> Outcome \<Rightarrow> 'h Scheduler \<Rightarrow> HealthUpdate \<times> u64 \<times> 'h Scheduler" where
  "report_health hc lease out s =
     (let (update, observation, h) = hc_Report hc lease out (sch_health s) in (update, observation, s\<lparr>sch_health := h\<rparr>))"

definition dropCooled :: "AttemptLease \<Rightarrow> CompiledProvider \<Rightarrow> HealthUpdate \<Rightarrow> 'h Scheduler \<Rightarrow> 'h Scheduler" where
  "dropCooled lease item update s =
     (if \<not> cp_DisableHealth item \<and> hu_GlobalEnteredCooldown update
      then s\<lparr>sch_affinity := removeProviderAssignmentsLocked (cp_ID item) (al_Generation lease) (sch_affinity s),
             sch_cursors := clearProviderCursorsLocked (cp_ID item) (sch_cursors s)\<rparr>
      else if \<not> cp_DisableHealth item \<and> hu_ChannelEnteredCooldown update
      then s\<lparr>sch_affinity := removeChannelAssignmentsLocked (cp_ID item) (al_Generation lease) (al_Model lease)
                               (al_RequestType lease) (sch_affinity s),
             sch_cursors := clearChannelCursorLocked (cp_ID item) (al_Model lease) (al_RequestType lease) (sch_cursors s)\<rparr>
      else s)"

definition Scheduler_Report ::
  "'h HealthController \<Rightarrow> AttemptLease \<Rightarrow> Outcome \<Rightarrow> 'h Scheduler \<Rightarrow> (HealthUpdate \<times> u64 \<times> 'h Scheduler) option" where
  "Scheduler_Report hc lease out s =
     (let (now, s) = sched_now s in
      case expire_now now s of
        None \<Rightarrow> None
      | Some s \<Rightarrow>
          (case al_Provider lease of
             None \<Rightarrow> Some (report_health hc (al_HealthLease lease) out s)
           | Some item \<Rightarrow>
               if lease_outdated lease item s
               then Some (report_health hc (al_HealthLease lease) (zeroOutcome\<lparr>o_Class := FailureClientCanceled\<rparr>) s)
               else
                 let (update, observation, s) = report_health hc (al_HealthLease lease) out s;
                     s = (if al_advanceCursorOnSuccess lease \<and> o_Class out = FailureNone \<and>
                             cs_Version (cursor_at (sch_cursors s) (al_cursorKey lease)) = al_cursorVersion lease
                          then s\<lparr>sch_cursors := setCursorLocked (al_cursorKey lease) (cp_ID item) (sch_cursors s)\<rparr>
                          else s)
                 in case (if o_Class out = FailureNone \<and> al_stickyMigration lease
                          then migrateAssignmentLocked lease s else Some s) of
                      None \<Rightarrow> None
                    | Some s \<Rightarrow> Some (update, observation, dropCooled lease item update s)))"

section \<open>Reconcile\<close>

definition next_providers :: "CompiledProvider list \<Rightarrow> (string, providerState) gomap" where
  "next_providers items =
     foldl (\<lambda>m item. AList.update (cp_ID item) \<lparr>ps_Provider = item, ps_Static = StaticAvailabilityOf (Some item)\<rparr> m) [] items"

definition reset_ids :: "(string, providerState) gomap \<Rightarrow> CompiledProvider list \<Rightarrow> string set" where
  "reset_ids old items =
     set (map cp_ID (filter (\<lambda>item. case map_of old (cp_ID item) of
        None \<Rightarrow> False | Some st \<Rightarrow> cp_HealthEpoch (ps_Provider st) \<noteq> cp_HealthEpoch item) items))"

text \<open>The condition shared by the loops over assignments and tombstones.\<close>

definition binding_current ::
  "(string, providerState) gomap \<Rightarrow> string set \<Rightarrow> string \<Rightarrow> ProviderGeneration \<Rightarrow> string \<Rightarrow> bool" where
  "binding_current providers reset ident generation model =
     (case map_of providers ident of
        None \<Rightarrow> False
      | Some st \<Rightarrow> ident \<notin> reset \<and> ps_Static st = StaticActive \<and>
          cp_Generation (ps_Provider st) = generation \<and> SupportsModel (ps_Provider st) model)"

definition cursor_current :: "(string, providerState) gomap \<Rightarrow> string set \<Rightarrow> roundRobinKey \<Rightarrow> string \<Rightarrow> bool" where
  "cursor_current providers reset key ident =
     (case map_of providers ident of
        None \<Rightarrow> False
      | Some st \<Rightarrow> ident \<notin> reset \<and> ps_Static st = StaticActive \<and>
          cp_Priority (ps_Provider st) = rr_Priority key \<and> SupportsModel (ps_Provider st) (rr_Model key))"

definition appendAssignmentEntries :: "(StickyKey, nat) gomap \<Rightarrow> nat list" where
  "appendAssignmentEntries entries = map snd entries"

definition Scheduler_Reconcile :: "'h HealthController \<Rightarrow> Snapshot option \<Rightarrow> 'h Scheduler \<Rightarrow> 'h Scheduler" where
  "Scheduler_Reconcile hc snapshot s =
     (case snapshot of
        None \<Rightarrow> s
      | Some snap \<Rightarrow>
          if sch_revision s \<noteq> 0 \<and> sn_Revision snap < sch_revision s then s
          else
            let providers = sn_Providers snap;
                items = List.map_filter id providers;
                next_p = next_providers items;
                reset = reset_ids (sch_providers s) items;
                af = sch_affinity s;
                af = foldl (\<lambda>af a. if binding_current next_p reset (as_ProviderID (asg_at af a))
                                        (as_Generation (asg_at af a)) (sk_Model (key_at af a))
                                   then af else removeAssignmentLocked a af)
                       af (appendAssignmentEntries (af_assignments af));
                af = af\<lparr>af_pending := gfilter (\<lambda>key p. binding_current next_p reset (pm_ProviderID p)
                          (pm_Generation p) (sk_Model key)) (af_pending af)\<rparr>;
                cursors = gmapvals (\<lambda>key c. if cs_ProviderID c = [] \<or> cursor_current next_p reset key (cs_ProviderID c)
                                            then c else cleared c) (sch_cursors s)
            in s\<lparr>sch_health := hc_Reconcile hc providers (sch_health s), sch_revision := sn_Revision snap,
                 sch_providers := next_p, sch_affinity := af, sch_cursors := cursors\<rparr>)"

section \<open>Reading assignments, diagnostics\<close>

text \<open>\<open>sort.Slice\<close> with the order of \<open>Assignments\<close>: creation time, then the sticky key's fields.\<close>

definition assignment_order :: "Assignment \<Rightarrow> gotime \<times> string \<times> string \<times> string" where
  "assignment_order a =
     (as_CreatedAt a, sk_SessionID (as_Key a), sk_Model (as_Key a), sk_RequestType (as_Key a))"

definition Assignments :: "string \<Rightarrow> 'h Scheduler \<Rightarrow> (Assignment list \<times> 'h Scheduler) option" where
  "Assignments providerID s =
     (let (now, s) = sched_now s in
      case expire_now now s of
        None \<Rightarrow> None
      | Some s \<Rightarrow>
          let af = sch_affinity s;
              entries = (if providerID = [] then map snd (af_assignments af)
                         else map snd (index_of (af_byProvider af) providerID))
          in Some (sort_key assignment_order (map (asg_at af) entries), s))"

definition ActiveAssignmentCount :: "'h Scheduler \<Rightarrow> (nat \<times> 'h Scheduler) option" where
  "ActiveAssignmentCount s =
     (let (now, s) = sched_now s in
      case expire_now now s of
        None \<Rightarrow> None
      | Some s \<Rightarrow> Some (length (af_assignments (sch_affinity s)), s))"

definition Scheduler_UpdateError ::
  "'h HealthController \<Rightarrow> AttemptLease \<Rightarrow> u64 \<Rightarrow> string \<Rightarrow> bool \<Rightarrow> bool \<Rightarrow> 'h Scheduler \<Rightarrow> 'h Scheduler" where
  "Scheduler_UpdateError hc lease observation raw incomplete truncated s =
     (if al_SnapshotRevision lease \<noteq> 0 \<and> sch_revision s \<noteq> al_SnapshotRevision lease then s
      else case hc_UpdateError hc of
             None \<Rightarrow> s
           | Some update \<Rightarrow>
               s\<lparr>sch_health := update (al_HealthLease lease) observation raw incomplete truncated (sch_health s)\<rparr>)"

end
