(* ===== verification/Gateway_World.thy ===== *)
theory Gateway_World
  imports Gateway_Attempt Selector "HOL-Library.State_Monad"
begin

text \<open>
  Package gateway, what a request acts on: the selector interface of package scheduler, the
  response writer, the event recorder, the replayable request body and the transport leases,
  and the events and failures themselves (\<open>internal/gateway/handler.go\<close>,
  \<open>internal/gateway/events.go\<close>, \<open>internal/gateway/cancellation.go\<close>).

  A request runs in the state monad over \<open>gateway\<close>. Everything outside answers from a script,
  as in \<open>Runtime_Manager\<close>: the reply to the \<open>n\<close>-th question is read at \<open>n\<close>. In particular
  \<open>ge_canceled\<close> tells whether the client is seen as gone at each single check, \<open>ge_fail\<close> gives
  the error of each fallible local call, and \<open>ge_between\<close> the critical sections other
  goroutines run on the attempt's control.
\<close>

section \<open>Errors and replies\<close>

text \<open>
  An error by what the gateway asks of it: its text, whether it is \<open>bodyfile.ErrLocalIO\<close> or a
  read error of the captured body, the attempt stop and the patch hook error it wraps.
\<close>

record go_error =
  er_text :: string
  er_local :: bool
  er_read :: bool
  er_stop :: "attemptStop option"
  er_hook :: "(string \<times> string) option"

definition new_error :: "string \<Rightarrow> go_error" where
  "new_error t = \<lparr> er_text = t, er_local = False, er_read = False, er_stop = None, er_hook = None \<rparr>"

definition first_some :: "'a option list \<Rightarrow> 'a option" where
  "first_some xs = (case filter (\<lambda>x. x \<noteq> None) xs of [] \<Rightarrow> None | x # _ \<Rightarrow> x)"

text \<open>\<open>errors.Join\<close>\<close>

definition join_errors :: "go_error option list \<Rightarrow> go_error option" where
  "join_errors es =
     (case List.map_filter (\<lambda>e. e) es of
        [] \<Rightarrow> None
      | xs \<Rightarrow> Some \<lparr> er_text = join_lines (map er_text xs), er_local = list_ex er_local xs, er_read = list_ex er_read xs,
                    er_stop = first_some (map er_stop xs), er_hook = first_some (map er_hook xs) \<rparr>)"

definition is_local :: "go_error option \<Rightarrow> bool" where
  "is_local e = (case e of None \<Rightarrow> False | Some e \<Rightarrow> er_local e)"

definition is_read :: "go_error option \<Rightarrow> bool" where
  "is_read e = (case e of None \<Rightarrow> False | Some e \<Rightarrow> er_read e)"

definition safeBodyfileError :: "go_error option \<Rightarrow> string" where
  "safeBodyfileError e =
     (case e of None \<Rightarrow> [] | Some e \<Rightarrow> if er_local e then ''bodyfile: local I/O failed'' else er_text e)"

definition patchErrorDetails :: "go_error \<Rightarrow> string \<Rightarrow> string \<times> string" where
  "patchErrorDetails e fallback = (case er_hook e of Some d \<Rightarrow> d | None \<Rightarrow> ([], fallback))"

definition StageRequest :: string where "StageRequest = ''request''"
definition StageResponse :: string where "StageResponse = ''response''"

type_synonym body_read = "attempt_op list \<times> string \<times> read_error option"
type_synonym http_header = "(string, string list) gomap"

record upstreamResponse =
  rp_status :: int
  rp_header :: http_header
  rp_media :: "string option" \<comment> \<open>what \<open>mime.ParseMediaType\<close> makes of \<open>Content-Type\<close>\<close>
  rp_encoding :: string
  rp_body :: "body_read list option" \<comment> \<open>the reads the body delivers before it ends\<close>

record gate_env =
  ge_limits :: UpstreamLimits
  ge_errorType :: "string \<Rightarrow> string option"
  ge_render :: render
  ge_parseTime :: "string \<Rightarrow> gotime option"
  ge_statusText :: "int \<Rightarrow> string"
  ge_url :: "CompiledProvider \<Rightarrow> go_error + string"
  ge_rewrites :: "CompiledProvider \<Rightarrow> bool" \<comment> \<open>the patch plan has a response hook for the request type\<close>
  ge_canceled :: "nat \<Rightarrow> bool"
  ge_fail :: "nat \<Rightarrow> go_error option"
  ge_do :: "nat \<Rightarrow> attempt_op list \<times> (go_error + upstreamResponse option)"
  ge_between :: "nat \<Rightarrow> attempt_op list"
  ge_size :: "nat \<Rightarrow> int \<times> string" \<comment> \<open>status and bytes of a patched response\<close>
  ge_write :: "nat \<Rightarrow> string option"
  ge_now :: "nat \<Rightarrow> gotime"

section \<open>Requests, leases, events\<close>

record 's Selector =
  sel_Acquire :: "Snapshot \<Rightarrow> StickyKey \<Rightarrow> RequestSelection \<Rightarrow> 's \<Rightarrow> (SchedulerError + AttemptLease) \<times> RequestSelection \<times> 's"
  sel_Report :: "AttemptLease \<Rightarrow> Outcome \<Rightarrow> 's \<Rightarrow> HealthUpdate \<times> u64 \<times> 's"
  sel_UpdateError :: "AttemptLease \<Rightarrow> u64 \<Rightarrow> string \<Rightarrow> bool \<Rightarrow> bool \<Rightarrow> 's \<Rightarrow> 's"

record RequestPlan =
  rq_OriginalModel :: string
  rq_EffectiveModel :: string
  rq_OriginalSessionID :: string
  rq_Stream :: bool
  rq_TraceID :: string
  rq_RequestType :: RequestType

datatype EventKind = EventForward | EventFailover | EventRetry | EventSuccess | EventFailure | EventCanceled

record Event =
  ev_Kind :: EventKind
  ev_ProviderID :: string
  ev_ProviderName :: string
  ev_SessionID :: string
  ev_Model :: string
  ev_RequestType :: RequestType
  ev_Stream :: bool
  ev_TraceID :: string
  ev_ResponseStarted :: bool
  ev_CancelReason :: string
  ev_CancelPhase :: string
  ev_EndReason :: endReason
  ev_RawErrorIncomplete :: incompleteMark
  ev_PostCompletion :: string
  ev_Attempt :: int
  ev_UpstreamURL :: string
  ev_HTTPStatus :: int
  ev_ErrorCode :: string
  ev_RawError :: string
  ev_PatchID :: string
  ev_PatchStage :: string
  ev_NextProviderID :: string
  ev_NextProviderName :: string
  ev_NextAttempt :: int
  ev_NextUpstreamURL :: string
  ev_GlobalHealth :: GlobalHealthState
  ev_ChannelHealth :: ChannelHealthState
  ev_GlobalEnteredCooldown :: bool
  ev_ChannelEnteredCooldown :: bool
  ev_CooldownUntil :: "gotime option"

definition zeroEvent :: Event where
  "zeroEvent =
     \<lparr> ev_Kind = EventForward, ev_ProviderID = [], ev_ProviderName = [], ev_SessionID = [], ev_Model = [], ev_RequestType = [],
       ev_Stream = False, ev_TraceID = [], ev_ResponseStarted = False, ev_CancelReason = [], ev_CancelPhase = [],
       ev_EndReason = [], ev_RawErrorIncomplete = [], ev_PostCompletion = [], ev_Attempt = 0, ev_UpstreamURL = [],
       ev_HTTPStatus = 0, ev_ErrorCode = [], ev_RawError = [], ev_PatchID = [], ev_PatchStage = [], ev_NextProviderID = [],
       ev_NextProviderName = [], ev_NextAttempt = 0, ev_NextUpstreamURL = [], ev_GlobalHealth = GlobalEmpty,
       ev_ChannelHealth = ChannelEmpty, ev_GlobalEnteredCooldown = False, ev_ChannelEnteredCooldown = False,
       ev_CooldownUntil = None \<rparr>"

definition canceledByClient :: string where "canceledByClient = ''client_canceled''"
definition canceledByDisconnect :: string where "canceledByDisconnect = ''client_disconnected''"
definition cancelBeforeUpstream :: string where "cancelBeforeUpstream = ''before_upstream''"
definition cancelAwaitingResponse :: string where "cancelAwaitingResponse = ''awaiting_response''"
definition cancelReceivingResponse :: string where "cancelReceivingResponse = ''receiving_response''"
definition incompleteTimeout :: incompleteMark where "incompleteTimeout = ''timeout''"
definition incompleteInterrupted :: incompleteMark where "incompleteInterrupted = ''interrupted''"
definition incompleteCanceled :: incompleteMark where "incompleteCanceled = ''canceled''"
definition postConnectionError :: string where "postConnectionError = ''connection_error''"
definition postIdleTimeout :: string where "postIdleTimeout = ''idle_timeout''"

record requestAttemptLease =
  rl_lease :: AttemptLease
  rl_stream :: bool
  rl_traceID :: string
  rl_started :: bool
  rl_control :: "upstreamAttempt option"

record capturedFailure =
  cf_response :: "upstreamResponse option"
  cf_observation :: u64
  cf_lease :: requestAttemptLease
  cf_outcome :: Outcome
  cf_update :: HealthUpdate
  cf_attempt :: int
  cf_transport :: bool
  cf_errorCode :: string
  cf_errorMessage :: string

text \<open>What reaches the client: an error document, a status line, body bytes.\<close>

datatype client_write = WError int string string | WHeader int | WBytes string

text \<open>
  The state of one request: \<open>gx_sent\<close> counts the requests handed to a provider's client,
  \<open>gx_clients\<close> the transport leases it holds, \<open>gx_background\<close> are the goroutines that still
  read an error body. \<open>gx_aborted\<close> records the deliberate \<open>panic(http.ErrAbortHandler)\<close> that cuts
  a broken response short: what the code does after it are deferred releases, which the model
  runs on its ordinary return. \<open>gx_panicked\<close> records the panic of \<open>outcomeEvent\<close>.
\<close>

record 's gateway =
  gx_calls :: nat
  gx_sel :: 's
  gx_request :: RequestSelection
  gx_writes :: "client_write list"
  gx_retryAfter :: "int option"
  gx_events :: "Event list"
  gx_sent :: nat
  gx_background :: "(capturedFailure \<times> Event) list"
  gx_once :: "int set" \<comment> \<open>attempts whose captured failure has been finished\<close>
  gx_baseClosed :: bool
  gx_clients :: int
  gx_aborted :: bool
  gx_panicked :: bool

section \<open>Effects\<close>

definition modify :: "('s gateway \<Rightarrow> 's gateway) \<Rightarrow> ('s gateway, unit) state" where
  "modify f = State (\<lambda>m. ((), f m))"

definition read_state :: "('s gateway \<Rightarrow> 'a) \<Rightarrow> ('s gateway, 'a) state" where
  "read_state f = State (\<lambda>m. (f m, m))"

definition ask :: "(nat \<Rightarrow> 'a) \<Rightarrow> ('s gateway, 'a) state" where
  "ask f = State (\<lambda>m. (f (gx_calls m), m\<lparr>gx_calls := Suc (gx_calls m)\<rparr>))"

abbreviation requestCanceled :: "gate_env \<Rightarrow> ('s gateway, bool) state" where
  "requestCanceled env \<equiv> ask (ge_canceled env)"

abbreviation failing :: "gate_env \<Rightarrow> ('s gateway, go_error option) state" where
  "failing env \<equiv> ask (ge_fail env)"

text \<open>Other goroutines act on the control of the attempt.\<close>

definition touch :: "gate_env \<Rightarrow> upstreamAttempt \<Rightarrow> ('s gateway, upstreamAttempt) state" where
  "touch env c = do { ops \<leftarrow> ask (ge_between env); State_Monad.return (run (ge_errorType env) (ge_render env) ops c) }"

text \<open>Closing the replayable request body; only the first close does anything.\<close>

definition close_base :: "gate_env \<Rightarrow> ('s gateway, go_error option) state" where
  "close_base env =
     do { closed \<leftarrow> read_state gx_baseClosed;
          if closed then State_Monad.return None
          else do { modify (\<lambda>m. m\<lparr>gx_baseClosed := True\<rparr>); failing env } }"

definition writeError :: "int \<Rightarrow> string \<Rightarrow> string \<Rightarrow> ('s gateway, unit) state" where
  "writeError status code message = modify (\<lambda>m. m\<lparr>gx_writes := gx_writes m @ [WError status code message]\<rparr>)"

definition report :: "'s Selector \<Rightarrow> AttemptLease \<Rightarrow> Outcome \<Rightarrow> ('s gateway, HealthUpdate \<times> u64) state" where
  "report sel lease outcome =
     State (\<lambda>m. let (u, ob, s) = sel_Report sel lease outcome (gx_sel m) in ((u, ob), m\<lparr>gx_sel := s\<rparr>))"

definition acquire :: "'s Selector \<Rightarrow> Snapshot \<Rightarrow> StickyKey \<Rightarrow> ('s gateway, SchedulerError + AttemptLease) state" where
  "acquire sel snapshot key =
     State (\<lambda>m. let (r, q, s) = sel_Acquire sel snapshot key (gx_request m) (gx_sel m)
               in (r, m\<lparr>gx_request := q, gx_sel := s\<rparr>))"

definition startAttempt :: "('s gateway, int) state" where
  "startAttempt = State (\<lambda>m. let (n, q) = StartAttempt (gx_request m) in (n, m\<lparr>gx_request := q\<rparr>))"

text \<open>\<open>client.Do\<close>: the request goes out to the provider.\<close>

definition call_do :: "gate_env \<Rightarrow> ('s gateway, attempt_op list \<times> (go_error + upstreamResponse option)) state" where
  "call_do env = do { modify (\<lambda>m. m\<lparr>gx_sent := Suc (gx_sent m)\<rparr>); ask (ge_do env) }"

definition hold_client :: "('s gateway, unit) state" where
  "hold_client = modify (\<lambda>m. m\<lparr>gx_clients := gx_clients m + 1\<rparr>)"

definition release_client :: "('s gateway, unit) state" where
  "release_client = modify (\<lambda>m. m\<lparr>gx_clients := gx_clients m - 1\<rparr>)"

definition abort :: "('s gateway, unit) state" where
  "abort = modify (\<lambda>m. m\<lparr>gx_aborted := True\<rparr>)"

declare hold_client_def [code_unfold] release_client_def [code_unfold] abort_def [code_unfold] startAttempt_def [code_unfold] call_do_def [code_unfold]

text \<open>\<open>record\<close>: a raw error beyond the limit is cut and marked.\<close>

definition record_event :: "gate_env \<Rightarrow> Event \<Rightarrow> ('s gateway, unit) state" where
  "record_event env event =
     (let (raw, truncated) = Prefix (ev_RawError event) (nat (ul_ErrorTextBytes (ge_limits env)));
          event = (if truncated then event\<lparr>ev_RawError := raw, ev_RawErrorIncomplete := incompleteTruncated\<rparr> else event)
      in modify (\<lambda>m. m\<lparr>gx_events := gx_events m @ [event]\<rparr>))"

section \<open>Outcome events\<close>

definition control_verdict :: "requestAttemptLease \<Rightarrow> responseVerdict" where
  "control_verdict lease = (case rl_control lease of None \<Rightarrow> zeroVerdict | Some c \<Rightarrow> verdict c)"

definition control_reason :: "requestAttemptLease \<Rightarrow> stopReason" where
  "control_reason lease = (case rl_control lease of None \<Rightarrow> [] | Some c \<Rightarrow> upstreamAttempt_reason c)"

definition outcomeEndReason :: "requestAttemptLease \<Rightarrow> Outcome \<Rightarrow> endReason" where
  "outcomeEndReason lease outcome =
     (let v = rv_reason (control_verdict lease) in
      if v \<noteq> [] \<and> v \<noteq> endCompleted \<and> v \<noteq> endClientCanceled then v
      else if o_Class outcome \<in> {FailureNone, FailureClientCanceled, FailureDownstream} then []
      else if control_reason lease = stopResponseHeaderTimeout \<or> control_reason lease = stopResponseIdleTimeout then control_reason lease
      else if o_Class outcome = FailureChannelStream then endStreamInterrupted
      else if o_HTTPStatus outcome \<noteq> 0 \<and> (o_HTTPStatus outcome < 200 \<or> o_HTTPStatus outcome \<ge> 300) then endHTTPError
      else if o_Class outcome = FailureGlobalTransient then endTransportError
      else endLocalError)"

definition cancelPhase :: "bool \<Rightarrow> int \<Rightarrow> string" where
  "cancelPhase started status =
     (if status \<noteq> 0 then cancelReceivingResponse else if started then cancelAwaitingResponse else cancelBeforeUpstream)"

definition outcome_event :: "EventKind \<Rightarrow> requestAttemptLease \<Rightarrow> Outcome \<Rightarrow> int \<Rightarrow> HealthUpdate \<Rightarrow> Event" where
  "outcome_event kind lease outcome attempt update =
     (let event = zeroEvent\<lparr> ev_EndReason := outcomeEndReason lease outcome, ev_Kind := kind, ev_Stream := rl_stream lease,
            ev_TraceID := rl_traceID lease, ev_SessionID := o_SessionID outcome, ev_Model := al_Model (rl_lease lease),
            ev_RequestType := al_RequestType (rl_lease lease), ev_Attempt := attempt, ev_UpstreamURL := o_UpstreamURL outcome,
            ev_HTTPStatus := o_HTTPStatus outcome, ev_RawError := o_RawError outcome, ev_GlobalHealth := hu_GlobalState update,
            ev_ChannelHealth := hu_ChannelState update, ev_GlobalEnteredCooldown := hu_GlobalEnteredCooldown update,
            ev_ChannelEnteredCooldown := hu_ChannelEnteredCooldown update, ev_CooldownUntil := hu_CooldownUntil update \<rparr>;
          event = (if kind = EventCanceled then
            event\<lparr> ev_EndReason := [], ev_ResponseStarted := o_ResponseStarted outcome,
                   ev_CancelReason := (if o_Class outcome = FailureDownstream then canceledByDisconnect else canceledByClient),
                   ev_RawError := (if o_Class outcome = FailureDownstream then o_RawError outcome else []),
                   ev_CancelPhase := cancelPhase (rl_started lease) (o_HTTPStatus outcome),
                   ev_UpstreamURL := (if rl_started lease then ev_UpstreamURL event else []),
                   ev_GlobalEnteredCooldown := False, ev_ChannelEnteredCooldown := False, ev_CooldownUntil := None \<rparr>
            else event)
      in case al_Provider (rl_lease lease) of
           None \<Rightarrow> event
         | Some item \<Rightarrow> event\<lparr>ev_ProviderID := cp_ID item, ev_ProviderName := cp_Name item\<rparr>)"

text \<open>\<open>outcomeEvent\<close> panics when a cancellation would be recorded as anything else.\<close>

definition outcomeEvent ::
  "EventKind \<Rightarrow> requestAttemptLease \<Rightarrow> Outcome \<Rightarrow> int \<Rightarrow> HealthUpdate \<Rightarrow> ('s gateway, Event) state" where
  "outcomeEvent kind lease outcome attempt update =
     do { (if kind \<noteq> EventCanceled \<and> o_Class outcome \<in> {FailureClientCanceled, FailureDownstream}
           then modify (\<lambda>m. m\<lparr>gx_panicked := True\<rparr>) else State_Monad.return ());
          State_Monad.return (outcome_event kind lease outcome attempt update) }"

definition recordOutcome ::
  "gate_env \<Rightarrow> EventKind \<Rightarrow> requestAttemptLease \<Rightarrow> Outcome \<Rightarrow> int \<Rightarrow> HealthUpdate \<Rightarrow> ('s gateway, unit) state" where
  "recordOutcome env kind lease outcome attempt update =
     do { event \<leftarrow> outcomeEvent kind lease outcome attempt update; record_event env event }"

definition recordOutcomeWithPatch ::
  "gate_env \<Rightarrow> EventKind \<Rightarrow> requestAttemptLease \<Rightarrow> Outcome \<Rightarrow> int \<Rightarrow> HealthUpdate \<Rightarrow> string \<Rightarrow> string \<Rightarrow> ('s gateway, unit) state" where
  "recordOutcomeWithPatch env kind lease outcome attempt update patchID stage =
     do { event \<leftarrow> outcomeEvent kind lease outcome attempt update;
          record_event env (event\<lparr>ev_PatchID := patchID, ev_PatchStage := stage\<rparr>) }"

definition recordBetweenAttemptCanceled :: "gate_env \<Rightarrow> RequestPlan \<Rightarrow> int \<Rightarrow> ('s gateway, unit) state" where
  "recordBetweenAttemptCanceled env plan attempt =
     record_event env (zeroEvent\<lparr> ev_Kind := EventCanceled, ev_SessionID := rq_OriginalSessionID plan, ev_Model := rq_EffectiveModel plan,
       ev_RequestType := rq_RequestType plan, ev_Stream := rq_Stream plan, ev_TraceID := rq_TraceID plan, ev_Attempt := attempt,
       ev_CancelReason := canceledByClient, ev_CancelPhase := cancelBeforeUpstream \<rparr>)"

record copyCancellation =
  cc_reason :: string
  cc_raw :: string

definition recordCopyCancellation ::
  "gate_env \<Rightarrow> Event \<Rightarrow> copyCancellation option \<Rightarrow> bool \<Rightarrow> ('s gateway, unit) state" where
  "recordCopyCancellation env base gone started =
     (case gone of
        None \<Rightarrow> State_Monad.return ()
      | Some c \<Rightarrow>
          if ev_Kind base = EventCanceled then State_Monad.return ()
          else record_event env (base\<lparr> ev_Kind := EventCanceled, ev_EndReason := [], ev_RawErrorIncomplete := [], ev_PostCompletion := [],
                 ev_CancelReason := cc_reason c, ev_CancelPhase := cancelReceivingResponse, ev_ResponseStarted := started,
                 ev_RawError := cc_raw c, ev_ErrorCode := [], ev_PatchID := [], ev_PatchStage := [], ev_NextProviderID := [],
                 ev_NextProviderName := [], ev_NextAttempt := 0, ev_NextUpstreamURL := [], ev_GlobalEnteredCooldown := False,
                 ev_ChannelEnteredCooldown := False, ev_CooldownUntil := None \<rparr>))"

text \<open>\<open>reportClientCanceledWithAttempt\<close>: the response has not started.\<close>

definition reportClientCanceled ::
  "gate_env \<Rightarrow> 's Selector \<Rightarrow> requestAttemptLease \<Rightarrow> string \<Rightarrow> string \<Rightarrow> int \<Rightarrow> int \<Rightarrow> ('s gateway, unit) state" where
  "reportClientCanceled env sel lease sessionID upstream status attempt =
     (let outcome = zeroOutcome\<lparr> o_Class := FailureClientCanceled, o_HTTPStatus := status, o_UpstreamURL := upstream,
            o_RawError := [], o_SessionID := sessionID, o_ResponseStarted := False, o_ClientCanceled := True \<rparr>
      in do { (update, ob) \<leftarrow> report sel (rl_lease lease) outcome;
              if rl_started lease \<or> attempt > 1 then recordOutcome env EventCanceled lease outcome attempt update
              else State_Monad.return () })"

section \<open>Terminal failures\<close>

text \<open>
  The three ways a local failure ends the request: the body is closed if \<open>base\<close>, the lease is
  reported as neutral, and the client gets an error document.
\<close>

definition terminal_failure ::
  "gate_env \<Rightarrow> 's Selector \<Rightarrow> bool \<Rightarrow> requestAttemptLease \<Rightarrow> string \<Rightarrow> int \<Rightarrow> string \<Rightarrow> go_error option \<Rightarrow> string \<Rightarrow> string \<Rightarrow>
     int \<Rightarrow> string \<Rightarrow> string \<Rightarrow> ('s gateway, unit) state" where
  "terminal_failure env sel base lease sessionID attempt upstream err patchID stage status code message =
     do { closeErr \<leftarrow> (if base then close_base env else State_Monad.return None);
          let outcome = zeroOutcome\<lparr> o_Class := FailureNeutral, o_SessionID := sessionID, o_UpstreamURL := upstream,
                          o_RawError := safeBodyfileError (join_errors [err, closeErr]) \<rparr>;
          (update, ob) \<leftarrow> report sel (rl_lease lease) outcome;
          recordOutcomeWithPatch env EventFailure lease outcome attempt update patchID stage;
          writeError status code message }"

definition terminalReplayFailure where
  "terminalReplayFailure env sel base lease sessionID attempt upstream err patchID stage =
     terminal_failure env sel base lease sessionID attempt upstream err patchID stage
       500 ''replay_unavailable'' ''request could not be replayed''"

definition terminalLocalAttempt where
  "terminalLocalAttempt env sel base lease sessionID attempt upstream status code message err patchID stage =
     terminal_failure env sel base lease sessionID attempt upstream err patchID stage status code message"

definition terminalPatchFailure where
  "terminalPatchFailure env sel base lease sessionID attempt upstream err patchID stage =
     terminal_failure env sel base lease sessionID attempt upstream err patchID stage
       502 ''patch_failed'' ''provider patch failed''"

end
