(* ===== verification/Gateway_Stream.thy ===== *)
theory Gateway_Stream
  imports Gateway_World
begin

text \<open>
  Package gateway, responses on their way to the client: copying an upstream response
  (\<open>internal/gateway/stream_copy.go\<close>), the bodies of error responses and the failures that
  are kept until the gateway knows whether another provider is asked
  (\<open>internal/gateway/error_response.go\<close>, \<open>internal/gateway/handler.go\<close>).

  A body is the list of reads it delivers; \<open>Read\<close> returns at most as many bytes as it was given
  room for, and after the last read the body has ended.
\<close>

section \<open>Reading a body\<close>

type_synonym read_result = "string \<times> (attemptStop + read_error) option"

definition read_body :: "gate_env \<Rightarrow> nat \<Rightarrow> body_read \<Rightarrow> upstreamAttempt \<Rightarrow> ('s gateway, read_result \<times> upstreamAttempt) state" where
  "read_body env room rd c =
     (let (ops, chunk, err) = rd in
      do { now \<leftarrow> ask (ge_now env);
           let (stopped, c) = read_begin now c;
           case stopped of
             Some s \<Rightarrow> State_Monad.return (([], Some (Inl s)), c)
           | None \<Rightarrow> State_Monad.return (read_end (ge_errorType env) (take room chunk) err
                       (run (ge_errorType env) (ge_render env) ops c)) })"

definition at_end :: body_read where
  "at_end = ([], [], Some EOF)"

section \<open>Copying a response\<close>

record streamCopyResult =
  sc_cancel :: "copyCancellation option"
  sc_verdict :: responseVerdict
  sc_started :: bool
  sc_abort :: bool
  sc_post :: string

definition copy_result :: "bool \<Rightarrow> streamCopyResult" where
  "copy_result started =
     \<lparr> sc_cancel = None, sc_verdict = zeroVerdict, sc_started = started, sc_abort = False, sc_post = [] \<rparr>"

definition simple_verdict :: "endReason \<Rightarrow> FailureClass \<Rightarrow> string \<Rightarrow> responseVerdict" where
  "simple_verdict reason class raw = \<lparr> rv_reason = reason, rv_class = class, rv_raw = raw, rv_incomplete = [] \<rparr>"

text \<open>The closure \<open>finish\<close>: the verdict claimed first wins; an HTTP error gets the text read so far.\<close>

definition finish_copy :: "responseVerdict \<Rightarrow> boundedText \<Rightarrow> upstreamAttempt \<Rightarrow> responseVerdict \<times> upstreamAttempt" where
  "finish_copy v raw c =
     (let (r, c) = claim v c;
          r = (if rv_reason r = endHTTPError then
                 r\<lparr>rv_raw := boundedText_text raw,
                   rv_incomplete :=
                     (if bt_truncated raw then incompleteTruncated
                      else if rv_reason v = endResponseIdleTimeout then incompleteTimeout
                      else if rv_reason v = endStreamInterrupted then incompleteInterrupted
                      else if rv_reason v = endClientCanceled then incompleteCanceled
                      else rv_incomplete r)\<rparr>
               else r)
      in (r, c))"

text \<open>The closure \<open>canceled\<close>.\<close>

definition copy_canceled :: "bool \<Rightarrow> boundedText \<Rightarrow> upstreamAttempt \<Rightarrow> streamCopyResult \<times> upstreamAttempt" where
  "copy_canceled started raw c =
     (let (r, c) = finish_copy (simple_verdict endClientCanceled FailureClientCanceled []) raw c
      in ((copy_result started)\<lparr>sc_cancel := Some \<lparr> cc_reason = canceledByClient, cc_raw = [] \<rparr>, sc_verdict := r\<rparr>, c))"

definition stop_of :: "attemptStop + read_error \<Rightarrow> attemptStop option" where
  "stop_of e = (case e of Inl s \<Rightarrow> Some s | Inr _ \<Rightarrow> None)"

definition text_of :: "attemptStop + read_error \<Rightarrow> string" where
  "text_of e = (case e of Inl s \<Rightarrow> as_message s | Inr EOF \<Rightarrow> ''EOF'' | Inr (ReadError t) \<Rightarrow> t)"

text \<open>The end of the loop, after a read that returned an error.\<close>

definition copy_failed ::
  "gate_env \<Rightarrow> boundedText \<Rightarrow> (attemptStop + read_error) \<Rightarrow> upstreamAttempt \<Rightarrow> ('s gateway, streamCopyResult \<times> upstreamAttempt) state" where
  "copy_failed env raw e c =
     (if e = Inr EOF then
        let (r, c) = finish_copy (simple_verdict endCompleted FailureNone []) raw c
        in State_Monad.return ((copy_result True)\<lparr>sc_verdict := r\<rparr>, c)
      else do {
        c \<leftarrow> touch env c;
        let reason = upstreamAttempt_reason c;
        gone \<leftarrow> (if reason = [] then requestCanceled env else State_Monad.return (reason = stopClientCanceled));
        if gone then State_Monad.return (copy_canceled True raw c)
        else do {
          let (v, late) = (case timeoutResponse (stop_of e) of
                 Some (code, message) \<Rightarrow> (simple_verdict endResponseIdleTimeout FailureChannelImmediate message, postIdleTimeout)
               | None \<Rightarrow> (simple_verdict endStreamInterrupted FailureChannelStream (text_of e), postConnectionError));
          let (r, c) = finish_copy v raw c;
          gone \<leftarrow> requestCanceled env;
          State_Monad.return ((copy_result True)\<lparr>sc_verdict := r, sc_post := (if rv_reason r = endCompleted then late else []),
            sc_abort := \<not> gone\<rparr>, c) } })"

text \<open>One round of the loop: \<open>Inl\<close> goes on with the text collected so far, \<open>Inr\<close> returns.\<close>

definition copy_step ::
  "gate_env \<Rightarrow> int \<Rightarrow> boundedText \<Rightarrow> body_read \<Rightarrow> upstreamAttempt \<Rightarrow>
     ('s gateway, boundedText \<times> upstreamAttempt + streamCopyResult \<times> upstreamAttempt) state" where
  "copy_step env status raw rd c =
     do { gone \<leftarrow> requestCanceled env;
          if gone then State_Monad.return (Inr (copy_canceled True raw c))
          else do {
            ((p, e), c) \<leftarrow> read_body env (32 * 1024) rd c;
            let raw = (if p \<noteq> [] \<and> (status < 200 \<or> status \<ge> 300) then boundedText_add p raw else raw);
            gone \<leftarrow> (if p \<noteq> [] then requestCanceled env else State_Monad.return False);
            if gone then State_Monad.return (Inr (copy_canceled True raw c))
            else do {
              writeErr \<leftarrow> (if p \<noteq> [] then ask (ge_write env) else State_Monad.return None);
              case writeErr of
                Some t \<Rightarrow>
                  let (r, c) = finish_copy (simple_verdict endClientCanceled FailureDownstream t) raw c
                  in State_Monad.return (Inr ((copy_result True)\<lparr>sc_cancel := Some \<lparr> cc_reason = canceledByDisconnect, cc_raw = t \<rparr>,
                       sc_verdict := r\<rparr>, c))
              | None \<Rightarrow> do {
                  (if p \<noteq> [] then modify (\<lambda>m. m\<lparr>gx_writes := gx_writes m @ [WBytes p]\<rparr>) else State_Monad.return ());
                  case e of
                    None \<Rightarrow> State_Monad.return (Inl (raw, c))
                  | Some e \<Rightarrow> do { r \<leftarrow> copy_failed env raw e c; State_Monad.return (Inr r) } } } } }"

fun copy_loop ::
  "gate_env \<Rightarrow> int \<Rightarrow> boundedText \<Rightarrow> body_read list \<Rightarrow> upstreamAttempt \<Rightarrow> ('s gateway, streamCopyResult \<times> upstreamAttempt) state" where
  "copy_loop env status raw [] c =
     do { r \<leftarrow> copy_step env status raw at_end c;
          State_Monad.return (case r of Inr r \<Rightarrow> r | Inl (raw, c) \<Rightarrow> (copy_result True, c)) }"
| "copy_loop env status raw (rd # reads) c =
     do { r \<leftarrow> copy_step env status raw rd c;
          case r of Inr r \<Rightarrow> State_Monad.return r | Inl (raw, c) \<Rightarrow> copy_loop env status raw reads c }"

definition copy_body ::
  "gate_env \<Rightarrow> int \<Rightarrow> body_read list \<Rightarrow> upstreamAttempt \<Rightarrow> ('s gateway, streamCopyResult \<times> upstreamAttempt) state" where
  "copy_body env status reads c =
     (let raw = \<lparr> bt_data = [], bt_limit = ul_ErrorTextBytes (ge_limits env), bt_truncated = False \<rparr> in
      do { gone \<leftarrow> requestCanceled env;
           if gone then State_Monad.return (copy_canceled False raw c)
           else do {
             gone \<leftarrow> requestCanceled env;
             if gone then State_Monad.return (copy_canceled False raw c)
             else do {
               modify (\<lambda>m. m\<lparr>gx_writes := gx_writes m @ [WHeader status]\<rparr>);
               gone \<leftarrow> requestCanceled env;
               if gone then State_Monad.return (copy_canceled True raw c)
               else copy_loop env status raw reads c } } })"

definition copyUpstream ::
  "gate_env \<Rightarrow> upstreamResponse \<Rightarrow> bool \<Rightarrow> upstreamAttempt \<Rightarrow> ('s gateway, streamCopyResult \<times> upstreamAttempt) state" where
  "copyUpstream env response sse c =
     (case rp_body response of
        None \<Rightarrow>
          let (r, c) = claim (simple_verdict endLocalError FailureNeutral ''provider returned no response body'') c
          in State_Monad.return ((copy_result False)\<lparr>sc_verdict := r\<rparr>, c)
      | Some reads \<Rightarrow> do {
          (result, c) \<leftarrow> copy_body env (rp_status response) reads
             (observe (rp_status response) sse (rp_media response) (rp_encoding response) c);
          gone \<leftarrow> (if sc_cancel result = None then requestCanceled env else State_Monad.return False);
          State_Monad.return (if gone then result\<lparr>sc_cancel := Some \<lparr> cc_reason = canceledByClient, cc_raw = [] \<rparr>\<rparr> else result,
            body_close c) })"

definition streamResponse ::
  "gate_env \<Rightarrow> 's Selector \<Rightarrow> upstreamResponse \<Rightarrow> requestAttemptLease \<Rightarrow> upstreamAttempt \<Rightarrow> Outcome \<Rightarrow> int \<Rightarrow> ('s gateway, unit) state" where
  "streamResponse env sel response lease c outcome attempt =
     do { (result, c) \<leftarrow> copyUpstream env response True c;
          let lease = lease\<lparr>rl_control := Some c\<rparr>;
          let class = rv_class (sc_verdict result);
          let outcome = outcome\<lparr> o_Class := class, o_RawError := rv_raw (sc_verdict result), o_ResponseStarted := sc_started result,
                          o_ClientCanceled := (class = FailureClientCanceled) \<rparr>;
          (update, ob) \<leftarrow> report sel (rl_lease lease) outcome;
          let kind = (if class = FailureNone then EventSuccess
                      else if class = FailureClientCanceled \<or> class = FailureDownstream then EventCanceled else EventFailure);
          event \<leftarrow> outcomeEvent kind lease outcome attempt update;
          let event = event\<lparr>ev_EndReason := (if kind = EventSuccess \<or> kind = EventCanceled then [] else rv_reason (sc_verdict result))\<rparr>;
          let event = (case sc_cancel result of
                 Some g \<Rightarrow> if kind = EventCanceled then event\<lparr>ev_CancelReason := cc_reason g, ev_RawError := cc_raw g\<rparr> else event
               | None \<Rightarrow> event);
          let event = event\<lparr>ev_RawErrorIncomplete := rv_incomplete (sc_verdict result), ev_PostCompletion := sc_post result\<rparr>;
          record_event env event;
          recordCopyCancellation env event (sc_cancel result) (sc_started result);
          if sc_abort result then abort else State_Monad.return () }"

section \<open>Captured failures\<close>

definition mappedHTTPError :: "int \<Rightarrow> bool" where
  "mappedHTTPError status \<longleftrightarrow> status = 401 \<or> status = 403 \<or> status = 405 \<or> (status \<ge> 300 \<and> status < 400)"

definition fillFailure ::
  "gate_env \<Rightarrow> 's Selector \<Rightarrow> capturedFailure \<Rightarrow> Event \<Rightarrow> string \<Rightarrow> incompleteMark \<Rightarrow> ('s gateway, unit) state" where
  "fillFailure env sel f event raw incomplete =
     do { modify (\<lambda>m. m\<lparr>gx_sel := sel_UpdateError sel (rl_lease (cf_lease f)) (cf_observation f) raw
              (incomplete = incompleteTimeout \<or> incomplete = incompleteInterrupted \<or> incomplete = incompleteCanceled)
              (incomplete = incompleteTruncated) (gx_sel m)\<rparr>);
          record_event env (event\<lparr>ev_RawError := raw, ev_RawErrorIncomplete := incomplete, ev_EndReason := endHTTPError\<rparr>) }"

text \<open>\<open>finishOnce\<close>: the failure of an attempt is finished once.\<close>

definition once :: "capturedFailure \<Rightarrow> ('s gateway, unit) state \<Rightarrow> ('s gateway, unit) state" where
  "once f act =
     do { finished \<leftarrow> read_state gx_once;
          if cf_attempt f \<in> finished then State_Monad.return ()
          else do { modify (\<lambda>m. m\<lparr>gx_once := insert (cf_attempt f) (gx_once m)\<rparr>); act } }"

text \<open>\<open>backgroundFailure\<close> hands the error body to a goroutine, which keeps the transport lease.\<close>

definition backgroundFailure :: "gate_env \<Rightarrow> capturedFailure \<Rightarrow> Event \<Rightarrow> ('s gateway, unit) state" where
  "backgroundFailure env f event =
     once f (do {
       now \<leftarrow> ask (ge_now env);
       let lease = cf_lease f;
       let f = f\<lparr>cf_lease := lease\<lparr>rl_control := map_option (readBackground now) (rl_control lease)\<rparr>\<rparr>;
       modify (\<lambda>m. m\<lparr>gx_background := gx_background m @ [(f, event)]\<rparr>) })"

text \<open>\<open>readErrorBody\<close> reads until the limit, the end or an error.\<close>

fun readErrorBody ::
  "gate_env \<Rightarrow> boundedText \<Rightarrow> body_read list \<Rightarrow> upstreamAttempt \<Rightarrow> ('s gateway, (string \<times> incompleteMark) \<times> upstreamAttempt) state" where
  "readErrorBody env raw reads c =
     (let remaining = bt_limit raw - int (length (bt_data raw)) in
      if remaining \<le> 0 then State_Monad.return ((boundedText_text (raw\<lparr>bt_truncated := True\<rparr>), incompleteTruncated), c)
      else
        do { ((p, e), c) \<leftarrow> read_body env (min (32 * 1024) (nat remaining)) (case reads of [] \<Rightarrow> at_end | rd # _ \<Rightarrow> rd) c;
             let raw = (if p \<noteq> [] then boundedText_add p raw else raw);
             case e of
               None \<Rightarrow> (case reads of [] \<Rightarrow> State_Monad.return ((boundedText_text raw, []), c) | _ # reads \<Rightarrow> readErrorBody env raw reads c)
             | Some (Inr EOF) \<Rightarrow> State_Monad.return ((boundedText_text raw, []), c)
             | Some _ \<Rightarrow> do {
                 c \<leftarrow> touch env c;
                 State_Monad.return ((boundedText_text raw,
                   if upstreamAttempt_reason c = stopErrorBodyTimeout then incompleteTimeout else incompleteInterrupted), c) } })"

definition failure_reads :: "capturedFailure \<Rightarrow> body_read list" where
  "failure_reads f = (case cf_response f of Some r \<Rightarrow> (case rp_body r of Some reads \<Rightarrow> reads | None \<Rightarrow> []) | None \<Rightarrow> [])"

text \<open>The goroutine of \<open>backgroundFailure\<close>.\<close>

definition background_goroutine :: "gate_env \<Rightarrow> 's Selector \<Rightarrow> capturedFailure \<Rightarrow> Event \<Rightarrow> ('s gateway, unit) state" where
  "background_goroutine env sel f event =
     (case rl_control (cf_lease f) of
        None \<Rightarrow> State_Monad.return ()
      | Some c \<Rightarrow> do {
          ((raw, incomplete), c) \<leftarrow> readErrorBody env
             \<lparr> bt_data = [], bt_limit = ul_ErrorTextBytes (ge_limits env), bt_truncated = False \<rparr> (failure_reads f) c;
          fillFailure env sel f event raw incomplete;
          release_client })"

definition finish_background :: "gate_env \<Rightarrow> 's Selector \<Rightarrow> ('s gateway, unit) state" where
  "finish_background env sel =
     do { tasks \<leftarrow> read_state gx_background;
          modify (\<lambda>m. m\<lparr>gx_background := []\<rparr>);
          foldr (\<lambda>(f, event) rest. do { background_goroutine env sel f event; rest }) tasks (State_Monad.return ()) }"

definition recordCapturedFailure :: "gate_env \<Rightarrow> capturedFailure \<Rightarrow> ('s gateway, unit) state" where
  "recordCapturedFailure env f =
     do { event \<leftarrow> outcomeEvent EventFailure (cf_lease f) (cf_outcome f) (cf_attempt f) (cf_update f);
          if cf_response f \<noteq> None then backgroundFailure env f event else record_event env event }"

definition recordContinuation ::
  "gate_env \<Rightarrow> capturedFailure \<Rightarrow> requestAttemptLease \<Rightarrow> int \<Rightarrow> ('s gateway, unit) state" where
  "recordContinuation env f following nextAttempt =
     (case al_Provider (rl_lease following) of
        None \<Rightarrow> State_Monad.return ()
      | Some item \<Rightarrow> do {
          let kind = (if al_SelectionReason (rl_lease following) = SelectionStickyRetry then EventRetry else EventFailover);
          event \<leftarrow> outcomeEvent kind (cf_lease f) (cf_outcome f) (cf_attempt f) (cf_update f);
          let event = event\<lparr>ev_NextProviderID := cp_ID item, ev_NextProviderName := cp_Name item, ev_NextAttempt := nextAttempt,
                        ev_NextUpstreamURL := (case ge_url env item of Inr url \<Rightarrow> url | Inl _ \<Rightarrow> [])\<rparr>;
          if cf_response f \<noteq> None then backgroundFailure env f event else record_event env event })"

definition finishHTTPFailure ::
  "gate_env \<Rightarrow> 's Selector \<Rightarrow> capturedFailure \<Rightarrow> upstreamResponse \<Rightarrow> ('s gateway, unit) state" where
  "finishHTTPFailure env sel f response =
     do { event \<leftarrow> outcomeEvent EventFailure (cf_lease f) (cf_outcome f) (cf_attempt f) (cf_update f);
          gone \<leftarrow> requestCanceled env;
          if gone then do {
            backgroundFailure env f event;
            recordCopyCancellation env event (Some \<lparr> cc_reason = canceledByClient, cc_raw = [] \<rparr>) False }
          else if mappedHTTPError (rp_status response) then do {
            backgroundFailure env f event;
            gone \<leftarrow> requestCanceled env;
            if gone then State_Monad.return () else writeError 502 ''bad_gateway'' ''provider rejected the gateway request'' }
          else case rl_control (cf_lease f) of
            None \<Rightarrow> State_Monad.return ()
          | Some c \<Rightarrow> once f (do {
              gone \<leftarrow> requestCanceled env;
              (result, c) \<leftarrow> copyUpstream env response False (readFinal gone c);
              fillFailure env sel f event (rv_raw (sc_verdict result)) (rv_incomplete (sc_verdict result));
              recordCopyCancellation env event (sc_cancel result) (sc_started result);
              release_client;
              if sc_abort result then abort else State_Monad.return () }) }"

definition writeCapturedFailure :: "capturedFailure \<Rightarrow> ('s gateway, unit) state" where
  "writeCapturedFailure f =
     (if cf_errorCode f \<noteq> [] then writeError 504 (cf_errorCode f) (cf_errorMessage f)
      else if cf_transport f then writeError 502 ''bad_gateway'' ''provider request failed''
      else if mappedHTTPError (o_HTTPStatus (cf_outcome f))
        then writeError 502 ''bad_gateway'' ''provider rejected the gateway request''
      else writeError 502 ''bad_gateway'' ''provider request failed'')"

text \<open>
  \<open>writeUnavailable\<close>: the header \<open>Retry-After\<close> in whole seconds, rounded up, at least one. The
  sum of durations is an \<open>int64\<close> and wraps; Go's division truncates, which differs from \<open>div\<close> only
  below zero, where the result is raised to one anyway.
\<close>

definition wrap64 :: "int \<Rightarrow> int" where
  "wrap64 x = (x + 2 ^ 63) mod 2 ^ 64 - 2 ^ 63"

definition retry_seconds :: "gotime \<Rightarrow> gotime \<Rightarrow> int" where
  "retry_seconds retryAt now =
     (let seconds = wrap64 (time_sub retryAt now + Second - 1) div Second in if seconds < 1 then 1 else seconds)"

definition writeUnavailable :: "gate_env \<Rightarrow> SchedulerError \<Rightarrow> ('s gateway, unit) state" where
  "writeUnavailable env err =
     do { (case RetryAtTime err of
             (retryAt, True) \<Rightarrow> do { now \<leftarrow> ask (ge_now env); modify (\<lambda>m. m\<lparr>gx_retryAfter := Some (retry_seconds retryAt now)\<rparr>) }
           | _ \<Rightarrow> State_Monad.return ());
          writeError 503 ''provider_unavailable'' ''no provider is available'' }"

definition finishCapturedFailure ::
  "gate_env \<Rightarrow> 's Selector \<Rightarrow> capturedFailure option \<Rightarrow> SchedulerError option \<Rightarrow> ('s gateway, unit) state" where
  "finishCapturedFailure env sel prior unavailable =
     (case prior of
        Some f \<Rightarrow>
          (case cf_response f of
             Some response \<Rightarrow> do { close_base env; finishHTTPFailure env sel f response }
           | None \<Rightarrow> do {
               recordCapturedFailure env f;
               err \<leftarrow> close_base env;
               if err \<noteq> None then writeError 500 ''replay_unavailable'' ''request replay cleanup failed''
               else writeCapturedFailure f })
      | None \<Rightarrow> do {
          err \<leftarrow> close_base env;
          if err \<noteq> None then writeError 500 ''replay_unavailable'' ''request replay cleanup failed''
          else case unavailable of
            Some e \<Rightarrow> writeUnavailable env e
          | None \<Rightarrow> writeError 503 ''provider_unavailable'' ''no provider is available'' })"

definition finishLocalSelectionFailure ::
  "gate_env \<Rightarrow> capturedFailure option \<Rightarrow> string \<Rightarrow> ('s gateway, unit) state" where
  "finishLocalSelectionFailure env prior message =
     do { (case prior of Some f \<Rightarrow> recordCapturedFailure env f | None \<Rightarrow> State_Monad.return ());
          err \<leftarrow> close_base env;
          if err \<noteq> None then writeError 500 ''replay_unavailable'' ''request replay cleanup failed''
          else writeError 502 ''bad_gateway'' message }"

end
