(* ===== verification/Gateway_Executor.thy ===== *)
theory Gateway_Executor
  imports Gateway_Stream Go_Text
begin

text \<open>
  Package gateway, the executor of a request against the provider pool
  (\<open>internal/gateway/plan_executor.go\<close>): the loop over providers, one attempt with every early
  return, and the buffered response of a target whose response is rewritten. \<open>Retry-After\<close> is
  read as in \<open>internal/gateway/handler.go\<close>.
\<close>

section \<open>Retry-After\<close>

definition EqualFold :: "string \<Rightarrow> string \<Rightarrow> bool" where
  "EqualFold s t \<longleftrightarrow> map lower s = map lower t"

definition headerValuesFold :: "http_header \<Rightarrow> string \<Rightarrow> string list" where
  "headerValuesFold headers target = concat (map (\<lambda>(name, entries). if EqualFold name target then entries else []) headers)"

definition retryAfterValue :: "http_header \<Rightarrow> string option" where
  "retryAfterValue headers =
     (case headerValuesFold headers ''Retry-After'' of
        [v] \<Rightarrow> (let value = TrimSpace v in if value = [] then None else Some value)
      | _ \<Rightarrow> None)"

text \<open>A number of seconds that does not fit a duration counts as the longest duration.\<close>

definition parseRetryAfterSeconds :: "string \<Rightarrow> duration option" where
  "parseRetryAfterSeconds value =
     (if value = [] \<or> \<not> list_all is_digit value then None
      else
        let seconds = int (digits_value value) in
        if seconds > maxInt \<or> seconds > maxInt div Second then Some maxDuration else Some (seconds * Second))"

definition parseRetryAfter :: "gate_env \<Rightarrow> http_header \<Rightarrow> gotime \<Rightarrow> duration" where
  "parseRetryAfter env headers now =
     (case retryAfterValue headers of
        None \<Rightarrow> 0
      | Some value \<Rightarrow>
        case parseRetryAfterSeconds value of
          Some d \<Rightarrow> d
        | None \<Rightarrow> (case ge_parseTime env value of None \<Rightarrow> 0 | Some t \<Rightarrow> time_sub t now))"

definition hasValidRetryAfter :: "gate_env \<Rightarrow> http_header \<Rightarrow> bool" where
  "hasValidRetryAfter env headers =
     (case retryAfterValue headers of
        None \<Rightarrow> False
      | Some value \<Rightarrow> parseRetryAfterSeconds value \<noteq> None \<or> ge_parseTime env value \<noteq> None)"

section \<open>Ends of an attempt\<close>

type_synonym attempt_end = "capturedFailure option \<times> bool"

abbreviation ended :: "('s gateway, attempt_end) state" where
  "ended \<equiv> State_Monad.return (None, True)"

text \<open>\<open>closeRequestAttempt\<close>: the attempt's own body, the base body on request, the patch execution.\<close>

definition closeRequestAttempt :: "gate_env \<Rightarrow> bool \<Rightarrow> ('s gateway, go_error option) state" where
  "closeRequestAttempt env closeBase =
     do { e1 \<leftarrow> failing env;
          e2 \<leftarrow> (if closeBase then close_base env else State_Monad.return None);
          e3 \<leftarrow> failing env;
          State_Monad.return (join_errors [e1, e2, e3]) }"

definition cancelAttempt ::
  "gate_env \<Rightarrow> 's Selector \<Rightarrow> requestAttemptLease \<Rightarrow> string \<Rightarrow> string \<Rightarrow> int \<Rightarrow> bool \<Rightarrow> ('s gateway, attempt_end) state" where
  "cancelAttempt env sel lease sessionID url attempt reader =
     do { (if reader then do { failing env; State_Monad.return () } else State_Monad.return ());
          closeRequestAttempt env True;
          reportClientCanceled env sel lease sessionID url 0 attempt;
          ended }"

definition requestPatchFailure ::
  "gate_env \<Rightarrow> 's Selector \<Rightarrow> requestAttemptLease \<Rightarrow> string \<Rightarrow> int \<Rightarrow> string \<Rightarrow> bool \<Rightarrow> go_error \<Rightarrow> ('s gateway, attempt_end) state" where
  "requestPatchFailure env sel lease sessionID attempt upstream execution err =
     (let (patchID, stage) = patchErrorDetails err StageRequest in
      do { cleanupErr \<leftarrow> (if execution then closeRequestAttempt env False else State_Monad.return None);
           let combined = join_errors [Some err, cleanupErr];
           (if is_local combined
            then terminalReplayFailure env sel True lease sessionID attempt upstream combined patchID stage
            else terminalPatchFailure env sel True lease sessionID attempt upstream combined patchID stage);
           ended })"

definition failure_of ::
  "requestAttemptLease \<Rightarrow> Outcome \<Rightarrow> HealthUpdate \<Rightarrow> int \<Rightarrow> capturedFailure" where
  "failure_of lease outcome update attempt =
     \<lparr> cf_response = None, cf_observation = 0, cf_lease = lease, cf_outcome = outcome, cf_update = update, cf_attempt = attempt,
       cf_transport = False, cf_errorCode = [], cf_errorMessage = [] \<rparr>"

definition handlePlanTransportError ::
  "gate_env \<Rightarrow> 's Selector \<Rightarrow> requestAttemptLease \<Rightarrow> string \<Rightarrow> int \<Rightarrow> string \<Rightarrow> go_error \<Rightarrow> ('s gateway, attempt_end) state" where
  "handlePlanTransportError env sel lease sessionID attempt upstream err =
     (case timeoutResponse (er_stop err) of
        Some (code, message) \<Rightarrow> do {
          let outcome = zeroOutcome\<lparr> o_Class := FailureChannelImmediate, o_UpstreamURL := upstream, o_RawError := message, o_SessionID := sessionID \<rparr>;
          (update, ob) \<leftarrow> report sel (rl_lease lease) outcome;
          State_Monad.return (Some ((failure_of lease outcome update attempt)\<lparr>cf_errorCode := code, cf_errorMessage := message\<rparr>), False) }
      | None \<Rightarrow> do {
          let outcome = zeroOutcome\<lparr> o_Class := FailureGlobalTransient, o_UpstreamURL := upstream, o_RawError := er_text err, o_SessionID := sessionID \<rparr>;
          gone \<leftarrow> requestCanceled env;
          if gone \<and> rv_reason (control_verdict lease) \<noteq> endTransportError then do {
            let outcome = outcome\<lparr> o_Class := FailureClientCanceled, o_ClientCanceled := True \<rparr>;
            (update, ob) \<leftarrow> report sel (rl_lease lease) outcome;
            recordOutcome env EventCanceled lease outcome attempt update;
            close_base env;
            ended }
          else do {
            (update, ob) \<leftarrow> report sel (rl_lease lease) outcome;
            State_Monad.return (Some ((failure_of lease outcome update attempt)\<lparr>cf_transport := True\<rparr>), False) } })"

section \<open>The buffered response\<close>

definition error_text :: "go_error option \<Rightarrow> string" where
  "error_text e = (case e of None \<Rightarrow> [] | Some e \<Rightarrow> er_text e)"

text \<open>
  The closures \<open>report\<close> and \<open>cancel\<close> of \<open>executeBufferedResponse\<close>; the context of a cancelled
  request answers \<open>context canceled\<close>, whatever the cause given.
\<close>

definition buffered_report ::
  "gate_env \<Rightarrow> 's Selector \<Rightarrow> requestAttemptLease \<Rightarrow> int \<Rightarrow> EventKind \<Rightarrow> Outcome \<Rightarrow> ('s gateway, unit) state" where
  "buffered_report env sel lease attempt kind value =
     do { (update, ob) \<leftarrow> report sel (rl_lease lease) value;
          event \<leftarrow> outcomeEvent kind lease value attempt update;
          record_event env event;
          gone \<leftarrow> (if kind \<noteq> EventCanceled then requestCanceled env else State_Monad.return False);
          if gone then recordCopyCancellation env event (Some \<lparr> cc_reason = canceledByClient, cc_raw = [] \<rparr>) (o_ResponseStarted value)
          else State_Monad.return () }"

definition buffered_cancel ::
  "gate_env \<Rightarrow> 's Selector \<Rightarrow> requestAttemptLease \<Rightarrow> string \<Rightarrow> int \<Rightarrow> string \<Rightarrow> int \<Rightarrow> bool \<Rightarrow>
     ('s gateway, attempt_end) state" where
  "buffered_cancel env sel lease sessionID attempt upstream status started =
     do { e1 \<leftarrow> failing env;
          e2 \<leftarrow> failing env;
          buffered_report env sel lease attempt EventCanceled (zeroOutcome\<lparr> o_Class := FailureClientCanceled, o_HTTPStatus := status,
            o_UpstreamURL := upstream, o_SessionID := sessionID, o_ResponseStarted := started, o_ClientCanceled := True,
            o_RawError := error_text (join_errors [Some (new_error ''context canceled''), e1, e2]) \<rparr>);
          ended }"

text \<open>The last part: the patched response is written to the client.\<close>

definition buffered_deliver ::
  "gate_env \<Rightarrow> 's Selector \<Rightarrow> requestAttemptLease \<Rightarrow> string \<Rightarrow> int \<Rightarrow> string \<Rightarrow> int \<Rightarrow> ('s gateway, attempt_end) state" where
  "buffered_deliver env sel lease sessionID attempt upstream status =
     do { gone \<leftarrow> requestCanceled env;
          if gone then buffered_cancel env sel lease sessionID attempt upstream status False
          else do {
          gone \<leftarrow> requestCanceled env;
          if gone then buffered_cancel env sel lease sessionID attempt upstream status False
          else do {
          (patched, bytes) \<leftarrow> ask (ge_size env);
          modify (\<lambda>m. m\<lparr>gx_writes := gx_writes m @ [WHeader patched]\<rparr>);
          gone \<leftarrow> requestCanceled env;
          if gone then buffered_cancel env sel lease sessionID attempt upstream status True
          else do {
          writeErr \<leftarrow> ask (ge_write env);
          copyErr \<leftarrow> failing env;
          closeErr \<leftarrow> failing env;
          let base = zeroOutcome\<lparr> o_HTTPStatus := status, o_UpstreamURL := upstream, o_SessionID := sessionID, o_ResponseStarted := True \<rparr>;
          case writeErr of
            Some t \<Rightarrow> do {
              buffered_report env sel lease attempt EventCanceled (base\<lparr> o_Class := FailureDownstream, o_RawError := t \<rparr>);
              ended }
          | None \<Rightarrow> do {
              modify (\<lambda>m. m\<lparr>gx_writes := gx_writes m @ [WBytes bytes]\<rparr>);
              gone \<leftarrow> requestCanceled env;
              if gone then buffered_cancel env sel lease sessionID attempt upstream status True
              else do {
                (case (copyErr, closeErr) of
                   (Some e, _) \<Rightarrow> buffered_report env sel lease attempt EventCanceled
                      (base\<lparr> o_HTTPStatus := patched, o_Class := FailureDownstream, o_RawError := er_text e \<rparr>)
                 | (None, Some e) \<Rightarrow> buffered_report env sel lease attempt EventFailure
                      (base\<lparr> o_HTTPStatus := patched, o_Class := FailureNeutral, o_RawError := safeBodyfileError (Some e) \<rparr>)
                 | (None, None) \<Rightarrow> buffered_report env sel lease attempt EventSuccess
                      (base\<lparr> o_HTTPStatus := patched, o_Class := FailureNone \<rparr>));
                ended } } } } } }"

text \<open>
  A step of the response patch that fails. \<open>hook\<close>: the error may name a patch; \<open>replay\<close>: a
  local I/O error is told apart; \<open>cleanup\<close>, \<open>execution\<close>: the errors of closing the bodies and
  the patch execution are joined in.
\<close>

definition buffered_failed ::
  "gate_env \<Rightarrow> 's Selector \<Rightarrow> requestAttemptLease \<Rightarrow> string \<Rightarrow> int \<Rightarrow> string \<Rightarrow> int \<Rightarrow> bool \<Rightarrow> bool \<Rightarrow> bool \<Rightarrow> bool \<Rightarrow> go_error \<Rightarrow>
     ('s gateway, attempt_end) state" where
  "buffered_failed env sel lease sessionID attempt upstream status hook replay cleanup execution err =
     do { gone \<leftarrow> requestCanceled env;
          if gone then buffered_cancel env sel lease sessionID attempt upstream status False
          else do {
            let (patchID, stage) = (if hook then patchErrorDetails err StageResponse else ([], StageResponse));
            cleanupErr \<leftarrow> failing env;
            executionErr \<leftarrow> (if execution then failing env else State_Monad.return None);
            let combined = join_errors [Some err, if cleanup then cleanupErr else None, executionErr];
            (if replay \<and> is_local combined
             then terminalReplayFailure env sel False lease sessionID attempt upstream combined patchID stage
             else terminalPatchFailure env sel False lease sessionID attempt upstream combined patchID stage);
            ended } }"

definition executeBufferedResponse ::
  "gate_env \<Rightarrow> 's Selector \<Rightarrow> requestAttemptLease \<Rightarrow> upstreamAttempt \<Rightarrow> string \<Rightarrow> int \<Rightarrow> int \<Rightarrow> string \<Rightarrow> ('s gateway, attempt_end) state" where
  "executeBufferedResponse env sel lease c sessionID attempt status upstream =
     do { gone \<leftarrow> requestCanceled env;
          if gone then buffered_cancel env sel lease sessionID attempt upstream status False
          else do {
          captureErr \<leftarrow> failing env;
          c \<leftarrow> touch env c;
          let lease = lease\<lparr>rl_control := Some c\<rparr>;
          closeErr \<leftarrow> failing env;
          let base = zeroOutcome\<lparr> o_HTTPStatus := status, o_UpstreamURL := upstream, o_SessionID := sessionID \<rparr>;
          case timeoutResponse (case captureErr of None \<Rightarrow> None | Some e \<Rightarrow> er_stop e) of
            Some (code, message) \<Rightarrow> do {
              buffered_report env sel lease attempt EventFailure (base\<lparr> o_Class := FailureChannelImmediate, o_RawError := message \<rparr>);
              gone \<leftarrow> requestCanceled env;
              (if gone then State_Monad.return () else writeError 504 code message);
              ended }
          | None \<Rightarrow> do {
          gone \<leftarrow> requestCanceled env;
          if gone \<and> rv_reason (control_verdict lease) \<noteq> endStreamInterrupted
          then buffered_cancel env sel lease sessionID attempt upstream status False
          else if captureErr \<noteq> None \<or> closeErr \<noteq> None then do {
            executionErr \<leftarrow> failing env;
            cleanupErr \<leftarrow> failing env;
            let combined = join_errors [captureErr, closeErr, cleanupErr, executionErr];
            if is_local combined then do {
              terminalReplayFailure env sel False lease sessionID attempt upstream combined [] StageResponse;
              ended }
            else do {
              let class = (if closeErr \<noteq> None \<or> (is_read captureErr \<and> \<not> is_local captureErr) then FailureChannelStream else FailureNeutral);
              buffered_report env sel lease attempt EventFailure (base\<lparr> o_Class := class, o_RawError := safeBodyfileError combined \<rparr>);
              (if is_read captureErr \<or> closeErr \<noteq> None
               then writeError 502 ''bad_gateway'' ''provider response ended unexpectedly''
               else writeError 502 ''patch_failed'' ''response patch failed'');
              ended } }
          else do {
          applied \<leftarrow> failing env;
          case applied of Some err \<Rightarrow> buffered_failed env sel lease sessionID attempt upstream status True True True True err
          | None \<Rightarrow> do {
          headers \<leftarrow> failing env;
          case headers of Some err \<Rightarrow> buffered_failed env sel lease sessionID attempt upstream status False False True True err
          | None \<Rightarrow> do {
          noBody \<leftarrow> failing env;
          case noBody of Some err \<Rightarrow> buffered_failed env sel lease sessionID attempt upstream status False False False True err
          | None \<Rightarrow> do {
          closed \<leftarrow> failing env;
          case closed of Some err \<Rightarrow> buffered_failed env sel lease sessionID attempt upstream status False False True False err
          | None \<Rightarrow> do {
          opened \<leftarrow> failing env;
          case opened of Some err \<Rightarrow> buffered_failed env sel lease sessionID attempt upstream status False True True False err
          | None \<Rightarrow> buffered_deliver env sel lease sessionID attempt upstream status } } } } } } } }"

section \<open>One attempt\<close>

text \<open>
  The answer of a provider that ends the request or is kept for a failover. The flag tells
  whether the transport lease went with the captured failure.
\<close>

definition answered ::
  "gate_env \<Rightarrow> 's Selector \<Rightarrow> CompiledProvider \<Rightarrow> requestAttemptLease \<Rightarrow> upstreamAttempt \<Rightarrow> string \<Rightarrow> int \<Rightarrow> string \<Rightarrow> upstreamResponse \<Rightarrow>
     ('s gateway, attempt_end \<times> bool) state" where
  "answered env sel item lease c sessionID attempt url response =
     do { now \<leftarrow> ask (ge_now env);
          let outcome = zeroOutcome\<lparr> o_Class := ClassifyHTTPStatus (rp_status response), o_HTTPStatus := rp_status response, o_UpstreamURL := url,
                o_SessionID := sessionID, o_RetryAfter := parseRetryAfter env (rp_header response) now,
                o_HasRetryAfter := hasValidRetryAfter env (rp_header response) \<rparr>;
          if ShouldFailover outcome then do {
            let outcome = outcome\<lparr> o_RawError := ''HTTP '' @ Itoa (rp_status response) @ '' '' @ ge_statusText env (rp_status response), o_ErrorPending := True \<rparr>;
            (update, ob) \<leftarrow> report sel (rl_lease lease) outcome;
            bodyErr \<leftarrow> failing env;
            patchErr \<leftarrow> failing env;
            let failure = (failure_of lease outcome update attempt)\<lparr>cf_observation := ob, cf_response := Some response\<rparr>;
            if bodyErr \<noteq> None \<or> patchErr \<noteq> None then do {
              event \<leftarrow> outcomeEvent EventFailure lease outcome attempt update;
              backgroundFailure env failure (if patchErr \<noteq> None then event\<lparr>ev_PatchStage := StageRequest\<rparr> else event);
              close_base env;
              gone \<leftarrow> requestCanceled env;
              (if gone then State_Monad.return ()
               else if bodyErr \<noteq> None then writeError 500 ''replay_unavailable'' ''request replay cleanup failed''
               else writeError 502 ''patch_failed'' ''provider request patch failed'');
              State_Monad.return ((None, True), True) }
            else State_Monad.return ((Some failure, False), True) }
          else do {
          e1 \<leftarrow> failing env;
          e2 \<leftarrow> close_base env;
          let bodyErr = join_errors [e1, e2];
          gone \<leftarrow> requestCanceled env;
          if bodyErr \<noteq> None then
            (if gone then do {
               reportClientCanceled env sel lease sessionID url (rp_status response) attempt;
               State_Monad.return ((None, True), False) }
             else do {
               executionErr \<leftarrow> failing env;
               terminalReplayFailure env sel False lease sessionID attempt url (join_errors [bodyErr, executionErr]) [] [];
               State_Monad.return ((None, True), False) })
          else if gone then do {
            reportClientCanceled env sel lease sessionID url (rp_status response) attempt;
            State_Monad.return ((None, True), False) }
          else if ge_rewrites env item \<and> rp_status response \<ge> 200 \<and> rp_status response < 300 then do {
            r \<leftarrow> executeBufferedResponse env sel lease c sessionID attempt (rp_status response) url;
            State_Monad.return (r, False) }
          else do {
            closed \<leftarrow> failing env;
            case closed of
              Some err \<Rightarrow> do {
                terminalPatchFailure env sel False lease sessionID attempt url (Some err) [] StageRequest;
                State_Monad.return ((None, True), False) }
            | None \<Rightarrow> do {
                streamResponse env sel response lease c outcome attempt;
                State_Monad.return ((None, True), False) } } } }"

text \<open>From the call of the provider on; the transport lease is held.\<close>

definition call_upstream ::
  "gate_env \<Rightarrow> 's Selector \<Rightarrow> RequestPlan \<Rightarrow> CompiledProvider \<Rightarrow> requestAttemptLease \<Rightarrow> string \<Rightarrow> string \<Rightarrow>
     ('s gateway, attempt_end \<times> bool) state" where
  "call_upstream env sel plan item lease sessionID url =
     do { now \<leftarrow> ask (ge_now env);
          let c = newUpstreamAttempt (ge_limits env) (rq_Stream plan) now;
          attempt \<leftarrow> startAttempt;
          let lease = lease\<lparr>rl_started := True\<rparr>;
          record_event env (zeroEvent\<lparr> ev_Kind := EventForward, ev_Stream := rq_Stream plan, ev_TraceID := rq_TraceID plan, ev_ProviderID := cp_ID item,
            ev_ProviderName := cp_Name item, ev_SessionID := sessionID, ev_Model := al_Model (rl_lease lease),
            ev_RequestType := al_RequestType (rl_lease lease), ev_Attempt := attempt, ev_UpstreamURL := url \<rparr>);
          (ops, reply) \<leftarrow> call_do env;
          now \<leftarrow> ask (ge_now env);
          let (hdr, c) = receiveHeaders (case reply of Inr (Some r) \<Rightarrow> Some (rp_status r) | _ \<Rightarrow> None)
                (case reply of Inl e \<Rightarrow> Some (er_text e) | Inr _ \<Rightarrow> None) now (run (ge_errorType env) (ge_render env) ops c);
          closeErr \<leftarrow> failing env;
          c \<leftarrow> touch env c;
          let lease = lease\<lparr>rl_control := Some c\<rparr>;
          let requestErr = (case hdr of
                Stopped s \<Rightarrow> Some \<lparr> er_text = as_message s, er_local = False, er_read = False, er_stop = Some s, er_hook = None \<rparr>
              | TransportError _ \<Rightarrow> (case reply of Inl e \<Rightarrow> Some e | Inr _ \<Rightarrow> None)
              | Response _ \<Rightarrow> None);
          case requestErr of
            Some err \<Rightarrow> do {
              cleanupErr \<leftarrow> closeRequestAttempt env False;
              let combined = join_errors [Some err, closeErr, cleanupErr];
              if is_local combined then do {
                terminalReplayFailure env sel True lease sessionID attempt url combined [] [];
                State_Monad.return ((None, True), False) }
              else do {
                r \<leftarrow> handlePlanTransportError env sel lease sessionID attempt url (the combined);
                State_Monad.return (r, False) } }
          | None \<Rightarrow> do {
          gone \<leftarrow> requestCanceled env;
          let response = (case reply of Inr r \<Rightarrow> r | Inl _ \<Rightarrow> None);
          if gone \<and> rv_reason (control_verdict lease) \<noteq> endHTTPError then do {
            closeRequestAttempt env True;
            reportClientCanceled env sel lease sessionID url (case response of None \<Rightarrow> 0 | Some r \<Rightarrow> rp_status r) attempt;
            State_Monad.return ((None, True), False) }
          else if closeErr \<noteq> None then do {
            cleanupErr \<leftarrow> closeRequestAttempt env False;
            terminalReplayFailure env sel True lease sessionID attempt url (join_errors [closeErr, cleanupErr]) [] [];
            State_Monad.return ((None, True), False) }
          else
          case response of
            None \<Rightarrow> do {
              terminalLocalAttempt env sel True lease sessionID attempt url 502 ''bad_gateway'' ''provider returned no response''
                (Some (new_error ''nil upstream response'')) [] [];
              State_Monad.return ((None, True), False) }
          | Some r \<Rightarrow>
              if rp_body r = None then do {
                terminalLocalAttempt env sel True lease sessionID attempt url 502 ''bad_gateway'' ''provider returned no response body''
                  (Some (new_error ''nil upstream response body'')) [] [];
                State_Monad.return ((None, True), False) }
              else answered env sel item lease c sessionID attempt url r } }"

text \<open>The transport lease is released unless a captured failure took it along.\<close>

definition call_provider ::
  "gate_env \<Rightarrow> 's Selector \<Rightarrow> RequestPlan \<Rightarrow> CompiledProvider \<Rightarrow> requestAttemptLease \<Rightarrow> string \<Rightarrow> string \<Rightarrow> ('s gateway, attempt_end) state" where
  "call_provider env sel plan item lease sessionID url =
     do { hold_client;
          gone \<leftarrow> requestCanceled env;
          request \<leftarrow> read_state gx_request;
          (r, transferred) \<leftarrow>
            (if gone then do {
               r \<leftarrow> cancelAttempt env sel lease sessionID url (rs_attemptsUsed request + 1) True;
               State_Monad.return (r, False) }
             else call_upstream env sel plan item lease sessionID url);
          (if transferred then State_Monad.return () else release_client);
          State_Monad.return r }"

text \<open>Preparation: every failure here ends the request, and no attempt has been counted.\<close>

definition executeAttempt ::
  "gate_env \<Rightarrow> 's Selector \<Rightarrow> RequestPlan \<Rightarrow> requestAttemptLease \<Rightarrow> string \<Rightarrow> ('s gateway, attempt_end) state" where
  "executeAttempt env sel plan lease sessionID =
     do { request \<leftarrow> read_state gx_request;
          let attempt = rs_attemptsUsed request + 1;
          case al_Provider (rl_lease lease) of
            None \<Rightarrow> ended
          | Some item \<Rightarrow> do {
          gone \<leftarrow> requestCanceled env;
          if gone then do { close_base env; reportClientCanceled env sel lease sessionID [] 0 attempt; ended }
          else case ge_url env item of
            Inl err \<Rightarrow> do {
              terminalLocalAttempt env sel True lease sessionID attempt [] 502 ''bad_gateway'' ''provider request could not be built'' (Some err) [] [];
              ended }
          | Inr url \<Rightarrow> do {
          instance_err \<leftarrow> failing env;
          case instance_err of Some err \<Rightarrow> requestPatchFailure env sel lease sessionID attempt url False err
          | None \<Rightarrow> do {
          gone \<leftarrow> requestCanceled env;
          if gone then cancelAttempt env sel lease sessionID url attempt False
          else do {
          patched \<leftarrow> failing env;
          case patched of Some err \<Rightarrow> requestPatchFailure env sel lease sessionID attempt url True err
          | None \<Rightarrow> do {
          gone \<leftarrow> requestCanceled env;
          if gone then cancelAttempt env sel lease sessionID url attempt False
          else do {
          unusable \<leftarrow> failing env;
          case unusable of Some err \<Rightarrow> requestPatchFailure env sel lease sessionID attempt url True err
          | None \<Rightarrow> do {
          authErr \<leftarrow> failing env;
          case authErr of Some err \<Rightarrow> do {
            cleanupErr \<leftarrow> closeRequestAttempt env False;
            terminalLocalAttempt env sel True lease sessionID attempt url 502 ''bad_gateway'' ''provider request could not be authenticated''
              (join_errors [Some err, cleanupErr]) [] [];
            ended }
          | None \<Rightarrow> do {
          openErr \<leftarrow> failing env;
          case openErr of Some err \<Rightarrow> do {
            cleanupErr \<leftarrow> closeRequestAttempt env False;
            terminalReplayFailure env sel True lease sessionID attempt url (join_errors [Some err, cleanupErr]) [] [];
            ended }
          | None \<Rightarrow> do {
          gone \<leftarrow> requestCanceled env;
          if gone then cancelAttempt env sel lease sessionID url attempt True
          else do {
          requestErr \<leftarrow> failing env;
          case requestErr of Some err \<Rightarrow> do {
            closeErr \<leftarrow> failing env;
            cleanupErr \<leftarrow> closeRequestAttempt env False;
            terminalLocalAttempt env sel True lease sessionID attempt url 502 ''bad_gateway'' ''provider request could not be built''
              (join_errors [Some err, closeErr, cleanupErr]) [] [];
            ended }
          | None \<Rightarrow> do {
          gone \<leftarrow> requestCanceled env;
          if gone then cancelAttempt env sel lease sessionID url attempt True
          else do {
          clientErr \<leftarrow> failing env;
          case clientErr of Some err \<Rightarrow> do {
            closeErr \<leftarrow> failing env;
            cleanupErr \<leftarrow> closeRequestAttempt env False;
            terminalLocalAttempt env sel True lease sessionID attempt url 500 ''gateway_unavailable'' ''provider client is unavailable''
              (join_errors [Some err, closeErr, cleanupErr]) [] [];
            ended }
          | None \<Rightarrow> call_provider env sel plan item lease sessionID url } } } } } } } } } } } } }"

section \<open>The loop over providers\<close>

definition give_up :: "gate_env \<Rightarrow> RequestPlan \<Rightarrow> capturedFailure option \<Rightarrow> int \<Rightarrow> ('s gateway, unit) state" where
  "give_up env plan prior attempt =
     (case prior of
        None \<Rightarrow> State_Monad.return ()
      | Some f \<Rightarrow> do { recordCapturedFailure env f; recordBetweenAttemptCanceled env plan attempt })"

text \<open>
  The loop \<open>for selection.HasBudget()\<close> with fuel; \<open>None\<close> says that the fuel ran out. Every
  round that goes on has used an attempt, so one more than the budget is enough.
\<close>

fun pool_loop ::
  "gate_env \<Rightarrow> 's Selector \<Rightarrow> Snapshot \<Rightarrow> RequestPlan \<Rightarrow> StickyKey \<Rightarrow> nat \<Rightarrow> capturedFailure option \<Rightarrow> ('s gateway, unit option) state" where
  "pool_loop env sel snapshot plan sticky 0 prior = State_Monad.return None"
| "pool_loop env sel snapshot plan sticky (Suc fuel) prior =
     do { request \<leftarrow> read_state gx_request;
          if \<not> HasBudget request then do { finishCapturedFailure env sel prior None; State_Monad.return (Some ()) }
          else do {
          let attempt = rs_attemptsUsed request + 1;
          gone \<leftarrow> requestCanceled env;
          if gone then do { give_up env plan prior attempt; State_Monad.return (Some ()) }
          else do {
          selected \<leftarrow> acquire sel snapshot sticky;
          case selected of
            Inl err \<Rightarrow> do {
              gone \<leftarrow> requestCanceled env;
              (if gone then give_up env plan prior attempt else finishCapturedFailure env sel prior (Some err));
              State_Monad.return (Some ()) }
          | Inr l \<Rightarrow> do {
          let lease = \<lparr> rl_lease = l, rl_stream = rq_Stream plan, rl_traceID = rq_TraceID plan, rl_started = False, rl_control = None \<rparr>;
          gone \<leftarrow> requestCanceled env;
          if al_Provider l = None then do {
            (if gone then (case prior of Some f \<Rightarrow> recordCapturedFailure env f | None \<Rightarrow> State_Monad.return ())
             else do {
               report sel l (zeroOutcome\<lparr> o_Class := FailureNeutral, o_SessionID := sk_SessionID sticky \<rparr>);
               finishLocalSelectionFailure env prior ''selected provider is unavailable'' });
            State_Monad.return (Some ()) }
          else if gone then do {
            (case prior of Some f \<Rightarrow> recordCapturedFailure env f | None \<Rightarrow> State_Monad.return ());
            reportClientCanceled env sel lease (sk_SessionID sticky) [] 0 attempt;
            State_Monad.return (Some ()) }
          else do {
          (case prior of Some f \<Rightarrow> recordContinuation env f lease attempt | None \<Rightarrow> State_Monad.return ());
          (failure, done) \<leftarrow> executeAttempt env sel plan lease (sk_SessionID sticky);
          if done then State_Monad.return (Some ())
          else pool_loop env sel snapshot plan sticky fuel failure } } } } }"

text \<open>
  \<open>forwardExecution\<close> for a valid plan against the provider pool, from the deferred close of the
  request body on.
\<close>

definition forwardPool ::
  "gate_env \<Rightarrow> 's Selector \<Rightarrow> Snapshot option \<Rightarrow> RequestPlan \<Rightarrow> AttemptPolicy \<Rightarrow> ('s gateway, unit option) state" where
  "forwardPool env sel snapshot plan policy =
     do { gone \<leftarrow> requestCanceled env;
          r \<leftarrow> (if gone then State_Monad.return (Some ())
                else case snapshot of
                  None \<Rightarrow> do { writeError 503 ''gateway_unavailable'' ''gateway is unavailable''; State_Monad.return (Some ()) }
                | Some snap \<Rightarrow>
                  if sn_Candidates snap (rq_EffectiveModel plan) = [] then do {
                    record_event env (zeroEvent\<lparr> ev_Kind := EventFailure, ev_SessionID := rq_OriginalSessionID plan, ev_Model := rq_EffectiveModel plan,
                      ev_RequestType := rq_RequestType plan, ev_Stream := rq_Stream plan, ev_TraceID := rq_TraceID plan, ev_HTTPStatus := 404,
                      ev_ErrorCode := ''model_not_configured'',
                      ev_RawError := ''Requested model is not configured in any enabled provider.'' \<rparr>);
                    writeError 404 ''model_not_configured'' ''model is not configured'';
                    State_Monad.return (Some ()) }
                  else if AttemptPolicy_Validate policy \<noteq> None then do {
                    close_base env;
                    writeError 503 ''gateway_unavailable'' ''invalid request attempt policy'';
                    State_Monad.return (Some ()) }
                  else do {
                    modify (\<lambda>m. m\<lparr>gx_request := NewRequestSelection policy\<rparr>);
                    pool_loop env sel snap plan
                      \<lparr> sk_SessionID = rq_OriginalSessionID plan, sk_Model = rq_EffectiveModel plan, sk_RequestType = rq_RequestType plan \<rparr>
                      (Suc (nat (ap_MaxAttempts policy))) None });
          close_base env;
          State_Monad.return r }"

end
