(* ===== verification/Gateway_Logic.thy ===== *)
theory Gateway_Logic
  imports Gateway_Executor
begin

text \<open>
  Hoare triples for the request monad and the assertion the proofs about the executor carry
  along. \<open>keeps\<close> says that a computation leaves everything the assertion mentions alone; the
  rules for it discharge the many calls that only ask, close or record.
\<close>

named_theorems keeps_rules \<open>computations that change nothing the assertion mentions\<close>

section \<open>Triples\<close>

definition hoare :: "('s \<Rightarrow> bool) \<Rightarrow> ('s, 'a) state \<Rightarrow> ('a \<Rightarrow> 's \<Rightarrow> bool) \<Rightarrow> bool" where
  "hoare P f Q \<longleftrightarrow> (\<forall>m. P m \<longrightarrow> (case run_state f m of (r, m') \<Rightarrow> Q r m'))"

lemma hoareI: "(\<And>m r m'. P m \<Longrightarrow> run_state f m = (r, m') \<Longrightarrow> Q r m') \<Longrightarrow> hoare P f Q"
  by (auto simp: hoare_def)

lemma hoareD: "hoare P f Q \<Longrightarrow> P m \<Longrightarrow> run_state f m = (r, m') \<Longrightarrow> Q r m'"
  by (force simp: hoare_def)

lemma hoare_return: "(\<And>m. P m \<Longrightarrow> Q x m) \<Longrightarrow> hoare P (State_Monad.return x) Q"
  by (simp add: hoare_def)

lemma hoare_bind: "hoare P f R \<Longrightarrow> (\<And>x. hoare (R x) (g x) Q) \<Longrightarrow> hoare P (State_Monad.bind f g) Q"
  by (fastforce simp: hoare_def split: prod.splits)

lemma hoare_pre: "hoare P f Q \<Longrightarrow> (\<And>m. P' m \<Longrightarrow> P m) \<Longrightarrow> hoare P' f Q"
  by (auto simp: hoare_def)

lemma hoare_post: "hoare P f R \<Longrightarrow> (\<And>r m. R r m \<Longrightarrow> Q r m) \<Longrightarrow> hoare P f Q"
  by (fastforce simp: hoare_def split: prod.splits)

lemma hoare_if: "(c \<Longrightarrow> hoare P f Q) \<Longrightarrow> (\<not> c \<Longrightarrow> hoare P g Q) \<Longrightarrow> hoare P (if c then f else g) Q"
  by simp

lemma hoare_option:
  "(x = None \<Longrightarrow> hoare P f Q) \<Longrightarrow> (\<And>y. x = Some y \<Longrightarrow> hoare P (g y) Q) \<Longrightarrow> hoare P (case x of None \<Rightarrow> f | Some y \<Rightarrow> g y) Q"
  by (cases x) simp_all

lemma hoare_sum:
  "(\<And>y. x = Inl y \<Longrightarrow> hoare P (f y) Q) \<Longrightarrow> (\<And>y. x = Inr y \<Longrightarrow> hoare P (g y) Q) \<Longrightarrow>
   hoare P (case x of Inl y \<Rightarrow> f y | Inr y \<Rightarrow> g y) Q"
  by (cases x) simp_all

lemma hoare_prod: "(\<And>a b. x = (a, b) \<Longrightarrow> hoare P (f a b) Q) \<Longrightarrow> hoare P (case x of (a, b) \<Rightarrow> f a b) Q"
  by (cases x) simp

lemma hoare_prod_app: "(\<And>a b. x = (a, b) \<Longrightarrow> hoare P (f a b c) Q) \<Longrightarrow> hoare P ((case x of (a, b) \<Rightarrow> f a b) c) Q"
  by (cases x) simp

lemma hoare_let: "(\<And>x. x = e \<Longrightarrow> hoare P (f x) Q) \<Longrightarrow> hoare P (let x = e in f x) Q"
  by simp

lemma hoare_read_state: "(\<And>x. hoare (\<lambda>m. P m \<and> x = f m) (g x) Q) \<Longrightarrow> hoare P (State_Monad.bind (read_state f) g) Q"
  by (simp add: hoare_def read_state_def)

lemma hoare_pure: "(C \<Longrightarrow> hoare P f Q) \<Longrightarrow> hoare (\<lambda>m. P m \<and> C) f Q"
  by (auto simp: hoare_def)

section \<open>What the assertion mentions\<close>

text \<open>How many responses have been started: error documents and status lines.\<close>

fun starts :: "client_write \<Rightarrow> bool" where
  "starts (WBytes _) = False"
| "starts _ = True"

definition answers :: "'s gateway \<Rightarrow> nat" where
  "answers m = length (filter starts (gx_writes m))"

text \<open>How many calls of a provider have been announced.\<close>

definition forwards :: "'s gateway \<Rightarrow> nat" where
  "forwards m = length (filter (\<lambda>e. ev_Kind e = EventForward) (gx_events m))"

definition same :: "'s gateway \<Rightarrow> 's gateway \<Rightarrow> bool" where
  "same m m' \<longleftrightarrow>
     gx_sel m' = gx_sel m \<and> gx_request m' = gx_request m \<and> answers m' = answers m \<and> forwards m' = forwards m \<and>
     gx_sent m' = gx_sent m \<and> gx_aborted m' = gx_aborted m \<and> gx_background m' = gx_background m \<and> gx_once m' = gx_once m \<and> gx_clients m' = gx_clients m \<and>
     gx_panicked m' = gx_panicked m \<and> (gx_baseClosed m \<longrightarrow> gx_baseClosed m')"

definition keeps :: "('s gateway, 'a) state \<Rightarrow> bool" where
  "keeps f \<longleftrightarrow> (\<forall>m. same m (snd (run_state f m)))"

lemma same_refl [simp]: "same m m"
  by (simp add: same_def)

lemma same_trans: "same m m1 \<Longrightarrow> same m1 m2 \<Longrightarrow> same m m2"
  by (simp add: same_def)

lemma keeps_return [keeps_rules]: "keeps (State_Monad.return x)"
  by (simp add: keeps_def)

lemma keeps_bind [keeps_rules]: "keeps f \<Longrightarrow> (\<And>x. keeps (g x)) \<Longrightarrow> keeps (State_Monad.bind f g)"
  by (auto simp: keeps_def split: prod.split) (metis same_trans snd_conv)

lemma keeps_if [keeps_rules]: "(c \<Longrightarrow> keeps f) \<Longrightarrow> (\<not> c \<Longrightarrow> keeps g) \<Longrightarrow> keeps (if c then f else g)"
  by simp

lemma keeps_option [keeps_rules]: "keeps f \<Longrightarrow> (\<And>y. keeps (g y)) \<Longrightarrow> keeps (case x of None \<Rightarrow> f | Some y \<Rightarrow> g y)"
  by (cases x) simp_all

lemma keeps_sum [keeps_rules]: "(\<And>y. keeps (f y)) \<Longrightarrow> (\<And>y. keeps (g y)) \<Longrightarrow> keeps (case x of Inl y \<Rightarrow> f y | Inr y \<Rightarrow> g y)"
  by (cases x) simp_all

lemma keeps_prod [keeps_rules]: "(\<And>a b. keeps (f a b)) \<Longrightarrow> keeps (case x of (a, b) \<Rightarrow> f a b)"
  by (cases x) simp

lemma keeps_prod_app [keeps_rules]: "(\<And>a b. keeps (f a b c)) \<Longrightarrow> keeps ((case x of (a, b) \<Rightarrow> f a b) c)"
  by (cases x) simp

lemma keeps_list [keeps_rules]: "keeps f \<Longrightarrow> (\<And>y ys. x = y # ys \<Longrightarrow> keeps (g y ys)) \<Longrightarrow> keeps (case x of [] \<Rightarrow> f | y # ys \<Rightarrow> g y ys)"
  by (cases x) simp_all

lemma keeps_read_error [keeps_rules]: "keeps f \<Longrightarrow> (\<And>y. keeps (g y)) \<Longrightarrow> keeps (case x of EOF \<Rightarrow> f | ReadError y \<Rightarrow> g y)"
  by (cases x) simp_all

lemma keeps_let [keeps_rules]: "(\<And>x. keeps (f x)) \<Longrightarrow> keeps (let x = e in f x)"
  by simp

lemma keeps_ask [keeps_rules]: "keeps (ask f)"
  by (simp add: keeps_def ask_def same_def answers_def forwards_def)

lemma keeps_read_state [keeps_rules]: "keeps (read_state f)"
  by (simp add: keeps_def read_state_def)

lemma keeps_touch [keeps_rules]: "keeps (touch env c)"
  unfolding touch_def by (intro keeps_rules)

lemma keeps_close_base [keeps_rules]: "keeps (close_base env)"
  unfolding close_base_def
  by (intro keeps_rules) (simp add: keeps_def modify_def same_def answers_def forwards_def)

lemma keeps_record_event: "ev_Kind e \<noteq> EventForward \<Longrightarrow> keeps (record_event env e)"
  by (simp add: keeps_def record_event_def modify_def same_def answers_def forwards_def split: prod.split)

lemma keeps_bytes [keeps_rules]: "keeps (modify (\<lambda>m. m\<lparr>gx_writes := gx_writes m @ [WBytes p]\<rparr>))"
  by (simp add: keeps_def modify_def same_def answers_def forwards_def)

lemma keeps_retryAfter [keeps_rules]: "keeps (modify (\<lambda>m. m\<lparr>gx_retryAfter := r\<rparr>))"
  by (simp add: keeps_def modify_def same_def answers_def forwards_def)

lemma outcome_event_kind [simp]: "ev_Kind (outcome_event kind lease outcome attempt update) = kind"
  by (simp add: outcome_event_def Let_def split: option.split)

text \<open>An outcome event is recorded without panicking when its kind fits the class.\<close>

definition fits :: "EventKind \<Rightarrow> Outcome \<Rightarrow> bool" where
  "fits kind outcome \<longleftrightarrow> kind = EventCanceled \<or> o_Class outcome \<notin> {FailureClientCanceled, FailureDownstream}"

lemma outcomeEvent_fits:
  "fits kind outcome \<Longrightarrow> outcomeEvent kind lease outcome attempt update = State_Monad.return (outcome_event kind lease outcome attempt update)"
  by (auto simp: outcomeEvent_def fits_def)

lemma keeps_recordOutcome: "fits kind outcome \<Longrightarrow> kind \<noteq> EventForward \<Longrightarrow> keeps (recordOutcome env kind lease outcome attempt update)"
  by (simp add: recordOutcome_def outcomeEvent_fits keeps_record_event)

lemma keeps_recordOutcomeWithPatch:
  "fits kind outcome \<Longrightarrow> kind \<noteq> EventForward \<Longrightarrow> keeps (recordOutcomeWithPatch env kind lease outcome attempt update pid stage)"
  by (simp add: recordOutcomeWithPatch_def outcomeEvent_fits keeps_record_event)

lemma keeps_recordBetween [keeps_rules]: "keeps (recordBetweenAttemptCanceled env plan attempt)"
  by (simp add: recordBetweenAttemptCanceled_def keeps_record_event)

lemma keeps_recordCopyCancellation [keeps_rules]: "keeps (recordCopyCancellation env base g started)"
  unfolding recordCopyCancellation_def by (intro keeps_rules keeps_record_event) simp

lemma keeps_closeRequestAttempt [keeps_rules]: "keeps (closeRequestAttempt env closeBase)"
  unfolding closeRequestAttempt_def by (intro keeps_rules)

lemma keeps_read_body [keeps_rules]: "keeps (read_body env room rd c)"
  unfolding read_body_def by (intro keeps_rules)

lemma keeps_copy_failed [keeps_rules]: "keeps (copy_failed env raw e c)"
  unfolding copy_failed_def by (intro keeps_rules)

lemma keeps_copy_step [keeps_rules]: "keeps (copy_step env status raw rd c)"
  unfolding copy_step_def by (intro keeps_rules)

lemma keeps_copy_loop [keeps_rules]: "keeps (copy_loop env status raw reads c)"
  by (induction reads arbitrary: raw c) (simp_all only: copy_loop.simps, (intro keeps_rules | assumption)+)

declare readErrorBody.simps [simp del]

lemma keeps_readErrorBody [keeps_rules]: "keeps (readErrorBody env raw reads c)"
  by (induction reads arbitrary: raw c) (subst readErrorBody.simps, (intro keeps_rules | simp)+)+

end
