(* ===== verification/Selector_Interface.thy ===== *)
theory Selector_Interface
  imports Selector
begin

text \<open>
  The contract between the selector and a health controller, as locales, and what the
  selector guarantees on top of any controller that keeps it: every call returns, keeps
  both invariants, and accounts for exactly the leases it hands out.
\<close>

section \<open>Lease accounting\<close>

text \<open>How a call changes the set of outstanding tokens: not at all, or by the lease it returns.\<close>

fun accounted :: "u64 set \<Rightarrow> HealthLease option \<Rightarrow> u64 set \<Rightarrow> bool" where
  "accounted before None after \<longleftrightarrow> after = before"
| "accounted before (Some lease) after \<longleftrightarrow>
     hl_Token lease \<notin> before \<and> after = insert (hl_Token lease) before"

definition token_room :: "u64 set \<Rightarrow> bool" where
  "token_room tokens \<longleftrightarrow> card tokens + 2 < 2 ^ 64"

text \<open>The selector's own state: a valid policy and a consistent, bounded affinity cache.\<close>

definition sched_ok :: "'h Scheduler \<Rightarrow> bool" where
  "sched_ok s \<longleftrightarrow> policy_ok (sch_policy s) \<and> aff_inv (sch_affinity s) \<and>
     int (length (af_assignments (sch_affinity s))) \<le> po_StickyCapacity (sch_policy s)"

lemma sched_okD:
  assumes "sched_ok s"
  shows "policy_ok (sch_policy s)" and "aff_inv (sch_affinity s)"
    and "int (length (af_assignments (sch_affinity s))) \<le> po_StickyCapacity (sch_policy s)"
    and "0 < po_StickyCapacity (sch_policy s)"
  using assms policy_okD(4) by (auto simp: sched_ok_def)

lemma sched_ok_frame [simp]:
  "sched_ok (s\<lparr>sch_health := h\<rparr>) = sched_ok s" "sched_ok (s\<lparr>sch_reads := n\<rparr>) = sched_ok s"
  "sched_ok (s\<lparr>sch_cursors := c\<rparr>) = sched_ok s" "sched_ok (s\<lparr>sch_providers := p\<rparr>) = sched_ok s"
  "sched_ok (s\<lparr>sch_revision := r\<rparr>) = sched_ok s"
  by (simp_all add: sched_ok_def)

lemma sched_ok_affinity:
  assumes "sched_ok s" and "aff_inv af" and "int (length (af_assignments af)) \<le> po_StickyCapacity (sch_policy s)"
  shows "sched_ok (s\<lparr>sch_affinity := af\<rparr>)"
  using assms by (simp add: sched_ok_def)

text \<open>A cache that lost entries or kept its length still fits.\<close>

lemma sched_ok_shrink:
  assumes "sched_ok s" and "aff_inv af" and "length (aff_abs af) \<le> length (aff_abs (sch_affinity s))"
  shows "sched_ok (s\<lparr>sch_affinity := af\<rparr>)"
  using assms sched_okD(2,3) [OF assms(1)]
  by (intro sched_ok_affinity) (auto simp: length_aff_abs)

lemma expire_now_spec:
  assumes "sched_ok s"
  obtains af where "expire_now now s = Some (s\<lparr>sch_affinity := af\<rparr>)" and "sched_ok (s\<lparr>sch_affinity := af\<rparr>)"
    and "aff_abs af = cache_expire (po_StickyTTL (sch_policy s)) now (aff_abs (sch_affinity s))"
    and "af_pending af = gfilter (\<lambda>_ p. pending_kept (po_StickyTTL (sch_policy s)) now p) (af_pending (sch_affinity s))"
proof -
  obtain af where af: "expireLocked (po_StickyTTL (sch_policy s)) now (sch_affinity s) = Some af" "aff_inv af"
    "aff_abs af = cache_expire (po_StickyTTL (sch_policy s)) now (aff_abs (sch_affinity s))"
    "af_pending af = gfilter (\<lambda>_ p. pending_kept (po_StickyTTL (sch_policy s)) now p) (af_pending (sch_affinity s))"
    using expireLocked_spec [OF sched_okD(2) [OF assms]] by metis
  have "sched_ok (s\<lparr>sch_affinity := af\<rparr>)"
    using assms af(2) by (rule sched_ok_shrink) (simp add: af(3) cache_expire_def length_dropWhile_le)
  with af that show thesis by (simp add: expire_now_def)
qed

lemma touch_sched_ok:
  assumes "sched_ok s" and "map_of (af_assignments (sch_affinity s)) key = Some a"
  shows "sched_ok (s\<lparr>sch_affinity := touchAssignmentLocked a now (sch_affinity s)\<rparr>)"
proof -
  note inv = sched_okD(2) [OF assms(1)]
  have a: "a \<in> set (af_lru (sch_affinity s))" using lru_iff_assigned [OF inv] assms(2) by blast
  note t = touchAssignmentLocked_spec [OF inv a]
  have "af_assignments (touchAssignmentLocked a now (sch_affinity s)) = af_assignments (sch_affinity s)"
    by (simp add: touchAssignmentLocked_def)
  with t(1) assms(1) sched_okD(3) [OF assms(1)] show ?thesis by (intro sched_ok_affinity) simp_all
qed

lemma put_sched_ok:
  assumes "sched_ok s"
  obtains af a where "putAssignmentLocked (po_StickyCapacity (sch_policy s)) key item now (sch_affinity s) = Some af"
    and "sched_ok (s\<lparr>sch_affinity := af\<rparr>)" and "map_of (af_assignments af) key = Some a"
    and "asg_at af a = \<lparr> as_Key = key, as_ProviderID = cp_ID item, as_Generation = cp_Generation item,
           as_CreatedAt = now, as_LastUsedAt = now \<rparr>"
proof -
  let ?cap = "po_StickyCapacity (sch_policy s)"
  let ?e = "\<lparr> ae_assignment = \<lparr> as_Key = key, as_ProviderID = cp_ID item, as_Generation = cp_Generation item,
      as_CreatedAt = now, as_LastUsedAt = now \<rparr>,
    ae_version = fst (allocateAssignmentVersionLocked (sch_affinity s)) \<rparr>"
  obtain af where af: "putAssignmentLocked ?cap key item now (sch_affinity s) = Some af" "aff_inv af"
    "aff_abs af = cache_evict ?cap (cache_remove key (aff_abs (sch_affinity s))) @ [?e]"
    "int (length (af_assignments af)) \<le> ?cap"
    using putAssignmentLocked_spec [OF sched_okD(2,4) [OF assms]] by metis
  have "?e \<in> set (aff_abs af)" using af(3) by simp
  from find_distinct_key [OF aff_abs_keys [OF af(2)] this]
  have "cache_lookup key (aff_abs af) = Some ?e" by (simp add: cache_lookup_def)
  then obtain a where a: "map_of (af_assignments af) key = Some a" "af_heap af a = ?e"
    using aff_lookup [OF af(2), of key] by auto
  show thesis
    by (rule that [OF af(1) sched_ok_affinity [OF assms af(2,4)] a(1)]) (simp add: a(2))
qed

lemma makeAttemptLease_spec:
  assumes "sched_ok s"
  obtains lease source' s' where "makeAttemptLeaseLocked snap key selected source current now s = Some (lease, source', s')"
    and "sched_ok s'" and "sch_health s' = sch_health s" and "al_HealthLease lease = sel_healthLease selected"
    and "al_Provider lease = Some (sel_provider selected)" and "al_Model lease = sk_Model key"
    and "al_RequestType lease = sk_RequestType key" and "al_Generation lease = cp_Generation (sel_provider selected)"
    and "al_SnapshotRevision lease = sn_Revision snap"
proof -
  let ?new = "sel_reason selected = candidateFirst \<and> src_ProviderID source = [] \<and> current \<and> sk_SessionID key \<noteq> []"
  let ?ok = "\<lambda>r. \<exists>lease source' s'. r = Some (lease, source', s') \<and> sched_ok s' \<and> sch_health s' = sch_health s \<and>
    al_HealthLease lease = sel_healthLease selected \<and> al_Provider lease = Some (sel_provider selected) \<and>
    al_Model lease = sk_Model key \<and> al_RequestType lease = sk_RequestType key \<and>
    al_Generation lease = cp_Generation (sel_provider selected) \<and> al_SnapshotRevision lease = sn_Revision snap"
  have touch: "sched_ok (s\<lparr>sch_affinity := touchAssignmentLocked a now (sch_affinity s)\<rparr>)"
    if "map_of (af_assignments (sch_affinity s)) key = Some a" for a
    by (rule touch_sched_ok [OF assms that])
  have "?ok (makeAttemptLeaseLocked snap key selected source current now s)"
  proof (cases ?new)
    case False
    show ?thesis
      using assms touch unfolding makeAttemptLeaseLocked_def Let_def if_not_P [OF False] by (auto split: option.splits)
  next
    case True
    then have ns: "\<not> source_matches source (sel_provider selected)" by (simp add: source_matches_def)
    obtain af a where put: "putAssignmentLocked (po_StickyCapacity (sch_policy s)) key (sel_provider selected) now
        (sch_affinity s) = Some af" "sched_ok (s\<lparr>sch_affinity := af\<rparr>)" "map_of (af_assignments af) key = Some a"
      using put_sched_ok [OF assms] by metis
    show ?thesis
      using put ns unfolding makeAttemptLeaseLocked_def Let_def if_P [OF True] by simp
  qed
  with that show thesis by blast
qed

text \<open>The provider the session is assigned to, when it is still a candidate.\<close>

definition sticky_candidate :: "CompiledProvider list \<Rightarrow> bool \<Rightarrow> StickyKey \<Rightarrow> affinity \<Rightarrow> CompiledProvider option" where
  "sticky_candidate items current key af =
     Option.bind (if current \<and> sk_SessionID key \<noteq> [] then map_of (af_assignments af) key else None)
       (\<lambda>a. findCandidate items (as_ProviderID (asg_at af a)) (as_Generation (asg_at af a)))"

lemma findCandidate_mem: "findCandidate items i g = Some p \<Longrightarrow> p \<in> set items \<and> cp_ID p = i \<and> cp_Generation p = g"
  by (auto simp: findCandidate_def find_Some_iff)

lemma initRequest_order:
  assumes "initRequest snap key current request s = (req, s')"
  defines "items \<equiv> eligibleCandidates (sn_Candidates snap (sk_Model key)) (sk_Model key)"
  shows "rs_ordered req = orderCandidatesLocked (sch_cursors s) items key (sticky_candidate items current key (sch_affinity s))"
    and "set_option (sticky_candidate items current key (sch_affinity s)) \<subseteq> set items"
proof -
  show "rs_ordered req = orderCandidatesLocked (sch_cursors s) items key (sticky_candidate items current key (sch_affinity s))"
    using assms(1) by (auto simp: initRequest_def sticky_candidate_def items_def Let_def split: if_splits option.splits)
  show "set_option (sticky_candidate items current key (sch_affinity s)) \<subseteq> set items"
    by (auto simp: sticky_candidate_def bind_eq_Some_conv dest: findCandidate_mem split: if_splits)
qed

lemma initRequest_spec:
  assumes "sched_ok s" and "initRequest snap key current request s = (request', s')"
  shows "sched_ok s'" and "sch_health s' = sch_health s"
    and "rs_policy request' = rs_policy request" and "rs_attemptsUsed request' = rs_attemptsUsed request"
    and "set (rs_ordered request') \<subseteq> set (eligibleCandidates (sn_Candidates snap (sk_Model key)) (sk_Model key))"
    and "sch_policy s' = sch_policy s"
proof -
  let ?items = "eligibleCandidates (sn_Candidates snap (sk_Model key)) (sk_Model key)"
  let ?af = "(sch_affinity s)\<lparr>af_pending := AList.delete key (af_pending (sch_affinity s))\<rparr>"
  have af: "aff_inv ?af" by (rule pending_delete_inv [OF sched_okD(2) [OF assms(1)]])
  have ok: "sched_ok (s\<lparr>sch_affinity := ?af\<rparr>)" "sched_ok (s\<lparr>sch_affinity := sch_affinity s\<rparr>)"
    using assms(1) af by (auto simp: sched_ok_def)
  have rm: "sched_ok (s\<lparr>sch_affinity := removeAssignmentLocked a ?af\<rparr>)" for a
  proof (rule sched_ok_shrink [OF assms(1) removeAssignmentLocked_inv [OF af]])
    have "length (af_lru (removeAssignmentLocked a ?af)) \<le> length (af_lru (sch_affinity s))"
      by (simp add: removeAssignmentLocked_def Let_def length_remove1)
    then show "length (aff_abs (removeAssignmentLocked a ?af)) \<le> length (aff_abs (sch_affinity s))"
      by (simp add: aff_abs_def)
  qed
  show "sched_ok s'" "sch_health s' = sch_health s" "rs_policy request' = rs_policy request"
    "rs_attemptsUsed request' = rs_attemptsUsed request" "sch_policy s' = sch_policy s"
    using assms(2) ok rm by (auto simp: initRequest_def Let_def split: if_splits option.splits)
  note ord = initRequest_order [OF assms(2)]
  have "mset (rs_ordered request') = mset ?items"
    using orderCandidates_spec [OF eligibleCandidates_by_priority eligibleCandidates_distinct ord(2,1)] by blast
  then show "set (rs_ordered request') \<subseteq> set ?items" by (metis set_mset_mset subset_refl)
qed

lemma park_sched_ok:
  assumes "sched_ok s"
  shows "sched_ok (s\<lparr>sch_affinity := removeProviderAssignmentsLocked p g (sch_affinity s)\<rparr>)"
    and "sched_ok (s\<lparr>sch_affinity := removeChannelAssignmentsLocked p g m rt (sch_affinity s)\<rparr>)"
  unfolding removeProvider_park removeChannel_park
  using park_provider(1,2) [OF sched_okD(2) [OF assms]]
  by (auto intro!: sched_ok_shrink [OF assms])

lemma dropCooled_sched_ok:
  assumes "sched_ok s"
  shows "sched_ok (dropCooled lease item u s)" and "sch_health (dropCooled lease item u s) = sch_health s"
  using park_sched_ok [OF assms] assms by (auto simp: dropCooled_def sched_ok_def)

lemma migrate_sched_ok:
  assumes "sched_ok s"
  obtains s' where "migrateAssignmentLocked lease s = Some s'" and "sched_ok s'" and "sch_health s' = sch_health s"
proof -
  note inv = sched_okD [OF assms]
  let ?af = "sch_affinity s" and ?k = "al_stickyKey lease" and ?cap = "po_StickyCapacity (sch_policy s)"
  have move: "aff_inv (moveAssignment a ?k item now ?af) \<and>
      int (length (af_assignments (moveAssignment a ?k item now ?af))) \<le> ?cap"
    if "map_of (af_assignments ?af) ?k = Some a" for a item now
  proof -
    have "af_assignments (moveAssignment a ?k item now ?af) = af_assignments ?af"
      by (simp add: moveAssignment_def touchAssignmentLocked_def allocateAssignmentVersionLocked_def Let_def)
    with moveAssignment_spec(1) [OF inv(2) that, of item now] inv(3) show ?thesis by simp
  qed
  have create: "\<exists>af. createReplacement ?cap ?k item c now ?af = Some af \<and> aff_inv af \<and>
      int (length (af_assignments af)) \<le> ?cap"
    if "map_of (af_assignments ?af) ?k = None" for item c now
    using createReplacement_spec [OF inv(2,4) that, of item c now] by metis
  have "\<exists>s'. migrateAssignmentLocked lease s = Some s' \<and> sched_ok s' \<and> sch_health s' = sch_health s"
  proof (cases "map_of (af_assignments ?af) ?k")
    case (Some a)
    with move [OF Some] assms show ?thesis
      by (auto simp: migrateAssignmentLocked_def sched_now_def sched_ok_def Let_def split: option.splits)
  next
    case None
    show ?thesis
    proof (cases "map_of (af_pending ?af) ?k")
      case pending: (Some p)
      let ?ts = "if pm_CreatedAt p = 0 then (sch_clock s (sch_reads s), sch_clock s (Suc (sch_reads s)))
        else (pm_CreatedAt p, sch_clock s (sch_reads s))"
      from create [OF None, of "the (al_Provider lease)" "fst ?ts" "snd ?ts"] obtain af where
        "createReplacement ?cap ?k (the (al_Provider lease)) (fst ?ts) (snd ?ts) ?af = Some af" "aff_inv af"
        "int (length (af_assignments af)) \<le> ?cap" by blast
      with None pending assms show ?thesis
        by (cases "al_Provider lease")
           (auto simp: migrateAssignmentLocked_def sched_now_def sched_ok_def Let_def split: if_splits)
    qed (use None assms in \<open>auto simp: migrateAssignmentLocked_def Let_def split: option.splits\<close>)
  qed
  with that show thesis by blast
qed

text \<open>\<open>Acquire\<close> up to the loop over the tiers, and what it makes of the loop's result.\<close>

definition finishAcquire ::
  "Snapshot \<Rightarrow> StickyKey \<Rightarrow> bool \<Rightarrow> gotime \<Rightarrow> RequestSelection \<Rightarrow> 'h Scheduler \<Rightarrow>
   (candidateSelection \<times> CompiledProvider list) option \<times> gotime \<times> 'h \<Rightarrow>
   ((SchedulerError + AttemptLease) \<times> RequestSelection \<times> 'h Scheduler) option" where
  "finishAcquire snap key current now req s r =
     (case r of
        (None, t, h) \<Rightarrow>
          Some (Inl (UnavailableError t), req\<lparr>rs_stickyPhase := stickyRetryEnded\<rparr>, s\<lparr>sch_health := h\<rparr>)
      | (Some (selected, members), t, h) \<Rightarrow>
          (let request = recordSelection req selected members (sk_RequestType key) in
           case makeAttemptLeaseLocked snap key selected (rs_source request) current now (s\<lparr>sch_health := h\<rparr>) of
             None \<Rightarrow> None | Some (lease, source, s) \<Rightarrow> Some (Inr lease, request\<lparr>rs_source := source\<rparr>, s)))"

definition current_for :: "Snapshot \<Rightarrow> 'h Scheduler \<Rightarrow> bool" where
  "current_for snap s \<longleftrightarrow> sch_revision s = 0 \<or> sn_Revision snap = sch_revision s"

lemma acquireLocked_start:
  assumes "sched_ok s"
  obtains af req s3 where "sched_ok (s\<lparr>sch_reads := Suc (sch_reads s), sch_affinity := af\<rparr>)"
    and "aff_abs af = cache_expire (po_StickyTTL (sch_policy s)) (sch_clock s (sch_reads s)) (aff_abs (sch_affinity s))"
    and "(req, s3) = (if rs_initialized request then (request, s\<lparr>sch_reads := Suc (sch_reads s), sch_affinity := af\<rparr>)
       else initRequest snap key (current_for snap s) request (s\<lparr>sch_reads := Suc (sch_reads s), sch_affinity := af\<rparr>))"
    and "sched_ok s3" and "sch_health s3 = sch_health s"
    and "acquireLocked hc snap key request s =
      Option.bind (tier_loop hc key req (if rs_initialized request then candidateRoundRobin else candidateFirst)
          (rs_ordered req) 0 (sch_health s))
        (finishAcquire snap key (current_for snap s) (sch_clock s (sch_reads s)) req s3)"
proof -
  let ?now = "sch_clock s (sch_reads s)" and ?s1 = "s\<lparr>sch_reads := Suc (sch_reads s)\<rparr>"
  have "sched_ok ?s1" using assms by simp
  then obtain af where ex: "expire_now ?now ?s1 = Some (?s1\<lparr>sch_affinity := af\<rparr>)" "sched_ok (?s1\<lparr>sch_affinity := af\<rparr>)"
    "aff_abs af = cache_expire (po_StickyTTL (sch_policy s)) ?now (aff_abs (sch_affinity s))"
    by (rule expire_now_spec) simp
  let ?s2 = "?s1\<lparr>sch_affinity := af\<rparr>"
  obtain req s3 where init: "(req, s3) = (if rs_initialized request then (request, ?s2)
      else initRequest snap key (current_for snap s) request ?s2)" by (metis surj_pair)
  have s3: "sched_ok s3" "sch_health s3 = sch_health s"
    using init ex(2) initRequest_spec(1,2) [OF ex(2), of snap key "current_for snap s" request req s3]
    by (auto split: if_splits)
  have cur: "(sch_revision ?s2 = 0 \<or> sn_Revision snap = sch_revision ?s2) = current_for snap s"
    by (simp add: current_for_def)
  have init': "(if \<not> rs_initialized request then initRequest snap key (current_for snap s) request ?s2 else (request, ?s2)) = (req, s3)"
    using init by auto
  have reason: "(if \<not> rs_initialized request then candidateFirst else candidateRoundRobin) =
      (if rs_initialized request then candidateRoundRobin else candidateFirst)" by simp
  have "acquireLocked hc snap key request s =
      Option.bind (tier_loop hc key req (if rs_initialized request then candidateRoundRobin else candidateFirst)
          (rs_ordered req) 0 (sch_health s))
        (finishAcquire snap key (current_for snap s) ?now req s3)"
    unfolding acquireLocked_def sched_now_def Let_def prod.case ex(1) option.case cur init' s3(2) reason
    by (auto simp: finishAcquire_def Let_def split: option.splits bind_splits)
  with ex(2,3) init s3 that show thesis by simp
qed

section \<open>The contract\<close>

locale lease_ledger =
  fixes hc :: "'h HealthController" and inv :: "'h \<Rightarrow> bool" and tokens :: "'h \<Rightarrow> u64 set"
  assumes acquire_inv: "inv h \<Longrightarrow> hc_Acquire hc k d h = Some (dec, h') \<Longrightarrow> inv h'"
    and acquire_accounted: "inv h \<Longrightarrow> hc_Acquire hc k d h = Some (dec, h') \<Longrightarrow>
      accounted (tokens h) (if hd_Available dec then Some (hd_Lease dec) else None) (tokens h')"
    and acquire_returns: "inv h \<Longrightarrow> token_room (tokens h) \<Longrightarrow> hc_Acquire hc k d h \<noteq> None"
    and report_inv: "inv h \<Longrightarrow> hc_Report hc l out h = (u, ob, h') \<Longrightarrow> inv h'"
    and report_tokens: "inv h \<Longrightarrow> hc_Report hc l out h = (u, ob, h') \<Longrightarrow> tokens h' = tokens h - {hl_Token l}"
begin

text \<open>A pass that returned, kept the controller's invariant and accounted for its lease.\<close>

definition settled :: "'h scan \<Rightarrow> (candidateSelection option \<times> 'h scan) option \<Rightarrow> bool" where
  "settled sc r \<longleftrightarrow> (\<exists>sel sc'. r = Some (sel, sc') \<and> inv (scan_health sc') \<and>
     accounted (tokens (scan_health sc)) (map_option sel_healthLease sel) (tokens (scan_health sc')))"

lemma try_acquire_settled:
  assumes "inv (scan_health sc)" and "token_room (tokens (scan_health sc))"
  obtains lo sc' where "try_acquire hc key item sc = Some (lo, sc')" and "inv (scan_health sc')"
    and "accounted (tokens (scan_health sc)) lo (tokens (scan_health sc'))"
proof -
  obtain dec h' where a: "hc_Acquire hc (health_key key item) (cp_DisableHealth item) (scan_health sc) = Some (dec, h')"
    using acquire_returns [OF assms] by (metis not_None_eq surj_pair)
  with that acquire_inv [OF assms(1) a] acquire_accounted [OF assms(1) a] show thesis
    by (cases "hd_Available dec") (auto simp: try_acquire_def Let_def)
qed

lemma tier_pass_settled:
  "inv (scan_health sc) \<Longrightarrow> token_room (tokens (scan_health sc)) \<Longrightarrow>
     settled sc (tier_pass hc key request reason again items sc)"
proof (induction items arbitrary: sc)
  case (Cons item items)
  show ?case
  proof (cases "visited_at request (cp_ID item) = again")
    case True
    obtain lo sc' where t: "try_acquire hc key item sc = Some (lo, sc')" "inv (scan_health sc')"
      "accounted (tokens (scan_health sc)) lo (tokens (scan_health sc'))"
      using try_acquire_settled [OF Cons.prems] by metis
    show ?thesis
    proof (cases lo)
      case None
      with t(3) Cons.IH [OF t(2)] Cons.prems have "settled sc' (tier_pass hc key request reason again items sc')" by simp
      with None t True show ?thesis by (simp add: settled_def)
    next
      case (Some l)
      with t True show ?thesis by (simp add: settled_def)
    qed
  qed (use Cons in simp)
qed (simp add: settled_def)

lemma sticky_pass_settled:
  assumes "inv (scan_health sc)" and "token_room (tokens (scan_health sc))"
  shows "settled sc (sticky_pass hc key request members sc)"
proof -
  have "settled sc (case try_acquire hc key item sc of None \<Rightarrow> None
      | Some (Some lease, sc) \<Rightarrow> Some (Some \<lparr> sel_provider = item, sel_healthLease = lease,
          sel_reason = candidateStickyRetry, sel_newRound = False \<rparr>, sc)
      | Some (None, sc) \<Rightarrow> Some (None, sc))" for item
  proof -
    obtain lo sc' where "try_acquire hc key item sc = Some (lo, sc')" "inv (scan_health sc')"
      "accounted (tokens (scan_health sc)) lo (tokens (scan_health sc'))"
      using try_acquire_settled [OF assms] by metis
    then show ?thesis by (cases lo) (simp_all add: settled_def)
  qed
  moreover have "settled sc (Some (None, sc))" using assms(1) by (simp add: settled_def)
  ultimately show ?thesis unfolding sticky_pass_def by (simp split: option.split)
qed

lemma settled_bind:
  assumes "settled sc r" and "\<And>sc'. r = Some (None, sc') \<Longrightarrow> inv (scan_health sc') \<Longrightarrow>
      tokens (scan_health sc') = tokens (scan_health sc) \<Longrightarrow> settled sc' (f sc')"
  shows "settled sc (case r of None \<Rightarrow> None | Some (Some sel, sc') \<Rightarrow> Some (Some sel, sc') | Some (None, sc') \<Rightarrow> f sc')"
  using assms by (auto simp: settled_def split: option.splits)

lemma selectInTier_settled:
  assumes "inv h" and "token_room (tokens h)"
  shows "settled \<lparr> scan_earliest = t, scan_blocked = False, scan_health = h \<rparr>
    (selectInTierLocked hc key request members reason t h)"
  unfolding selectInTierLocked_def
  by (intro settled_bind sticky_pass_settled tier_pass_settled) (use assms in simp_all)

lemma tier_loop_settled:
  assumes "inv h" and "token_room (tokens h)"
  shows "\<exists>sel t' h'. tier_loop hc key request reason xs t h = Some (sel, t', h') \<and> inv h' \<and>
    accounted (tokens h) (map_option (\<lambda>(s, g). sel_healthLease s) sel) (tokens h')"
  using assms
proof (induction "length xs" arbitrary: xs t h rule: less_induct)
  case less
  show ?case
  proof (cases xs)
    case (Cons x ys)
    let ?g = "x # takeWhile (\<lambda>y. cp_Priority y = cp_Priority x) ys"
    let ?rest = "dropWhile (\<lambda>y. cp_Priority y = cp_Priority x) ys"
    obtain sel sc where sel: "selectInTierLocked hc key request ?g reason t h = Some (sel, sc)" "inv (scan_health sc)"
      "accounted (tokens h) (map_option sel_healthLease sel) (tokens (scan_health sc))"
      using selectInTier_settled [OF less.prems, of t key request ?g reason] by (auto simp: settled_def)
    show ?thesis
    proof (cases sel)
      case None
      have "length ?rest < length xs" by (simp add: Cons length_dropWhile_le le_imp_less_Suc)
      moreover have "tokens (scan_health sc) = tokens h" using None sel(3) by simp
      ultimately show ?thesis
        using None sel Cons less.hyps [of ?rest "scan_health sc"] less.prems(2) by (simp add: Let_def)
    next
      case (Some s)
      with sel Cons show ?thesis by (simp add: Let_def)
    qed
  qed (use less in simp)
qed

text \<open>One call of \<open>Acquire\<close>.\<close>

lemma acquireLocked_settled:
  assumes "sched_ok s" and "inv (sch_health s)" and "token_room (tokens (sch_health s))"
  obtains res request' s' where "acquireLocked hc snap key request s = Some (res, request', s')"
    and "sched_ok s'" and "inv (sch_health s')"
    and "accounted (tokens (sch_health s)) (case res of Inl _ \<Rightarrow> None | Inr lease \<Rightarrow> Some (al_HealthLease lease))
      (tokens (sch_health s'))"
proof -
  obtain req s3 where s3: "sched_ok s3" "sch_health s3 = sch_health s"
    and call: "acquireLocked hc snap key request s =
      Option.bind (tier_loop hc key req (if rs_initialized request then candidateRoundRobin else candidateFirst)
          (rs_ordered req) 0 (sch_health s))
        (finishAcquire snap key (current_for snap s) (sch_clock s (sch_reads s)) req s3)"
    by (rule acquireLocked_start [OF assms(1), of request snap key hc])
  obtain sel t h where tl: "tier_loop hc key req (if rs_initialized request then candidateRoundRobin else candidateFirst)
      (rs_ordered req) 0 (sch_health s) = Some (sel, t, h)" "inv h"
    "accounted (tokens (sch_health s)) (map_option (\<lambda>(s, g). sel_healthLease s) sel) (tokens h)"
    using tier_loop_settled [OF assms(2,3)] by metis
  note unfold = call [unfolded tl(1)]
  show thesis
  proof (cases sel)
    case None
    show ?thesis
      using that [of "Inl (UnavailableError t)" "req\<lparr>rs_stickyPhase := stickyRetryEnded\<rparr>" "s3\<lparr>sch_health := h\<rparr>"]
        None unfold s3 tl by (simp add: finishAcquire_def)
  next
    case (Some p)
    obtain selected members where p: "p = (selected, members)" by force
    have "sched_ok (s3\<lparr>sch_health := h\<rparr>)" using s3(1) by simp
    then obtain lease source' s' where mk: "makeAttemptLeaseLocked snap key selected
        (rs_source (recordSelection req selected members (sk_RequestType key))) (current_for snap s)
        (sch_clock s (sch_reads s)) (s3\<lparr>sch_health := h\<rparr>)
        = Some (lease, source', s')" "sched_ok s'" "sch_health s' = h" "al_HealthLease lease = sel_healthLease selected"
      by (rule makeAttemptLease_spec) auto
    show ?thesis
      using that [of "Inr lease" _ s'] Some p unfold mk tl by (simp add: finishAcquire_def Let_def)
  qed
qed

lemma Scheduler_Acquire_settled:
  assumes "sched_ok s" and "inv (sch_health s)" and "token_room (tokens (sch_health s))"
  obtains res request' s' where "Scheduler_Acquire hc snap key request s = Some (res, request', s')"
    and "sched_ok s'" and "inv (sch_health s')"
    and "accounted (tokens (sch_health s)) (case res of Inl _ \<Rightarrow> None | Inr lease \<Rightarrow> Some (al_HealthLease lease))
      (tokens (sch_health s'))"
proof -
  have "\<exists>res request' s'. Scheduler_Acquire hc snap key request s = Some (res, request', s') \<and> sched_ok s' \<and>
      inv (sch_health s') \<and> accounted (tokens (sch_health s))
        (case res of Inl _ \<Rightarrow> None | Inr lease \<Rightarrow> Some (al_HealthLease lease)) (tokens (sch_health s'))"
  proof (cases "snap = None \<or> request = None")
    case True
    then show ?thesis using assms(1,2) by (auto simp: Scheduler_Acquire_def split: option.splits)
  next
    case False
    then obtain sn rq where sr: "snap = Some sn" "request = Some rq" by auto
    let ?key = "key\<lparr>sk_SessionID := TrimSpace (sk_SessionID key)\<rparr>"
    obtain res request' s' where a: "acquireLocked hc sn ?key rq s = Some (res, request', s')" "sched_ok s'"
      "inv (sch_health s')" "accounted (tokens (sch_health s))
        (case res of Inl _ \<Rightarrow> None | Inr lease \<Rightarrow> Some (al_HealthLease lease)) (tokens (sch_health s'))"
      using acquireLocked_settled [OF assms] by metis
    show ?thesis
      using a assms(1,2) sr
      by (cases "AttemptPolicy_Validate (rs_policy rq)") (auto simp: Scheduler_Acquire_def Let_def)
  qed
  with that show thesis by blast
qed

text \<open>One call of \<open>Report\<close>: the lease is consumed on every path.\<close>

lemma Scheduler_Report_settled:
  assumes "sched_ok s" and "inv (sch_health s)"
  obtains u ob s' where "Scheduler_Report hc lease out s = Some (u, ob, s')" and "sched_ok s'"
    and "inv (sch_health s')" and "tokens (sch_health s') = tokens (sch_health s) - {hl_Token (al_HealthLease lease)}"
proof -
  let ?now = "sch_clock s (sch_reads s)" and ?s1 = "s\<lparr>sch_reads := Suc (sch_reads s)\<rparr>"
  let ?l = "al_HealthLease lease"
  have "sched_ok ?s1" using assms(1) by simp
  then obtain af where ex: "expire_now ?now ?s1 = Some (?s1\<lparr>sch_affinity := af\<rparr>)" "sched_ok (?s1\<lparr>sch_affinity := af\<rparr>)"
    using expire_now_spec by blast
  let ?s2 = "?s1\<lparr>sch_affinity := af\<rparr>"
  have rep: "\<exists>u ob s'. report_health hc ?l o' ?s2 = (u, ob, s') \<and> sched_ok s' \<and> inv (sch_health s') \<and>
      tokens (sch_health s') = tokens (sch_health s) - {hl_Token ?l} \<and> sch_cursors s' = sch_cursors s" for o'
  proof -
    obtain u ob h where h: "hc_Report hc ?l o' (sch_health s) = (u, ob, h)" by (metis prod_cases3)
    with report_inv [OF assms(2) h] report_tokens [OF assms(2) h] ex(2) show ?thesis by (simp add: report_health_def)
  qed
  obtain u ob s3 where r: "report_health hc ?l out ?s2 = (u, ob, s3)" "sched_ok s3" "inv (sch_health s3)"
    "tokens (sch_health s3) = tokens (sch_health s) - {hl_Token ?l}" using rep by metis
  have "\<exists>u ob s'. Scheduler_Report hc lease out s = Some (u, ob, s') \<and> sched_ok s' \<and> inv (sch_health s') \<and>
      tokens (sch_health s') = tokens (sch_health s) - {hl_Token ?l}"
  proof (cases "\<exists>item. al_Provider lease = Some item \<and> \<not> lease_outdated lease item ?s2")
    case False
    with rep [of out] rep [of "zeroOutcome\<lparr>o_Class := FailureClientCanceled\<rparr>"] show ?thesis
      unfolding Scheduler_Report_def sched_now_def Let_def prod.case ex(1) option.case
      by (auto split: option.split)
  next
    case True
    then obtain item where item: "al_Provider lease = Some item" "\<not> lease_outdated lease item ?s2" by blast
    let ?s4 = "if al_advanceCursorOnSuccess lease \<and> o_Class out = FailureNone \<and>
        cs_Version (cursor_at (sch_cursors s3) (al_cursorKey lease)) = al_cursorVersion lease
      then s3\<lparr>sch_cursors := setCursorLocked (al_cursorKey lease) (cp_ID item) (sch_cursors s3)\<rparr> else s3"
    have s4: "sched_ok ?s4" "sch_health ?s4 = sch_health s3" using r(2) by simp_all
    obtain s5 where s5: "(if o_Class out = FailureNone \<and> al_stickyMigration lease then migrateAssignmentLocked lease ?s4
        else Some ?s4) = Some s5" "sched_ok s5" "sch_health s5 = sch_health s3"
      using migrate_sched_ok [OF s4(1), of lease] s4 by metis
    have "Scheduler_Report hc lease out s = Some (u, ob, dropCooled lease item u s5)"
      unfolding Scheduler_Report_def sched_now_def Let_def prod.case ex(1) option.case item(1) r(1) s5(1)
      using item(2) by simp
    with dropCooled_sched_ok [OF s5(2), of lease item u] r(3,4) s5(3) show ?thesis by simp
  qed
  with that show thesis by blast
qed

end

section \<open>Reconcile\<close>

lemma removeAssignmentLocked_lru:
  assumes "aff_inv s"
  shows "af_lru (removeAssignmentLocked a s) = filter (\<lambda>b. b \<noteq> a) (af_lru s)"
proof (cases "a \<in> set (af_lru s)")
  case True
  with removeAssignmentLocked_abs(2) [OF assms] aff_invD(2) [OF assms] show ?thesis
    by (auto simp: distinct_remove1_removeAll removeAll_filter_not_eq intro: filter_cong)
next
  case False
  then have "removeAssignmentLocked a s = s" using aff_invD(5) [OF assms] by (intro remove_stale) blast
  with False show ?thesis by (auto simp: filter_id_conv intro!: filter_True [symmetric])
qed

lemma remove_loop_spec:
  fixes Q :: "assignmentEntry \<Rightarrow> bool"
  assumes "aff_inv s"
  defines "f \<equiv> \<lambda>s a. if Q (af_heap s a) then s else removeAssignmentLocked a s"
  shows "aff_inv (foldl f s as) \<and> af_heap (foldl f s as) = af_heap s \<and> af_pending (foldl f s as) = af_pending s \<and>
    af_lru (foldl f s as) = filter (\<lambda>b. \<not> (b \<in> set as \<and> \<not> Q (af_heap s b))) (af_lru s)"
  using assms(1)
proof (induction as arbitrary: s)
  case (Cons a as)
  have step: "aff_inv (f s a)" "af_heap (f s a) = af_heap s" "af_pending (f s a) = af_pending s"
    using Cons.prems by (simp_all add: f_def inv_intros frame_simps)
  have lru: "af_lru (f s a) = filter (\<lambda>b. \<not> (b = a \<and> \<not> Q (af_heap s b))) (af_lru s)"
    using removeAssignmentLocked_lru [OF Cons.prems, of a] by (auto simp: f_def filter_id_conv intro: filter_cong)
  show ?case using Cons.IH [OF step(1)] unfolding step lru by (auto intro!: filter_cong)
qed simp

lemma assigned_addresses:
  assumes "aff_inv s"
  shows "set (appendAssignmentEntries (af_assignments s)) = set (af_lru s)"
proof -
  have "(k, a) \<in> set (af_assignments s) \<longleftrightarrow> a \<in> set (af_lru s) \<and> key_at s a = k" for k a
    using lru_iff_assigned [OF assms, of k a] map_of_eq_Some_iff [OF aff_invD(1) [OF assms]] by auto
  then show ?thesis by (force simp: appendAssignmentEntries_def)
qed

text \<open>The state an accepted snapshot leaves behind.\<close>

lemma Reconcile_accepted:
  fixes snap :: Snapshot
  assumes "sched_ok s" and "\<not> (sch_revision s \<noteq> 0 \<and> sn_Revision snap < sch_revision s)"
    and "s' = Scheduler_Reconcile hc (Some snap) s"
  defines "items \<equiv> List.map_filter id (sn_Providers snap)"
  defines "cur \<equiv> binding_current (next_providers items) (reset_ids (sch_providers s) items)"
  shows "sched_ok s'" and "sch_health s' = hc_Reconcile hc (sn_Providers snap) (sch_health s)"
    and "aff_abs (sch_affinity s') = filter (\<lambda>e. cur (as_ProviderID (ae_assignment e))
           (as_Generation (ae_assignment e)) (sk_Model (ekey e))) (aff_abs (sch_affinity s))"
    and "af_pending (sch_affinity s') = gfilter (\<lambda>key p. cur (pm_ProviderID p) (pm_Generation p) (sk_Model key))
           (af_pending (sch_affinity s))"
    and "sch_providers s' = next_providers items" and "sch_revision s' = sn_Revision snap"
    and "sch_cursors s' = gmapvals (\<lambda>key c. if cs_ProviderID c = [] \<or>
           cursor_current (next_providers items) (reset_ids (sch_providers s) items) key (cs_ProviderID c)
           then c else cleared c) (sch_cursors s)"
proof -
  note inv = sched_okD [OF assms(1)]
  let ?Q = "\<lambda>e. cur (as_ProviderID (ae_assignment e)) (as_Generation (ae_assignment e)) (sk_Model (ekey e))"
  let ?as = "appendAssignmentEntries (af_assignments (sch_affinity s))"
  let ?af = "foldl (\<lambda>af a. if ?Q (af_heap af a) then af else removeAssignmentLocked a af) (sch_affinity s) ?as"
  let ?P = "gfilter (\<lambda>key p. cur (pm_ProviderID p) (pm_Generation p) (sk_Model key)) (af_pending (sch_affinity s))"
  note loop = remove_loop_spec [OF inv(2), of ?Q ?as]
  have "af_pending ?af = af_pending (sch_affinity s)" using loop by blast
  then have aff: "sch_affinity s' = ?af\<lparr>af_pending := ?P\<rparr>"
    unfolding assms(3) Scheduler_Reconcile_def option.case if_not_P [OF assms(2)] Let_def cur_def items_def by simp
  have lru: "af_lru ?af = filter (\<lambda>b. ?Q (af_heap (sch_affinity s) b)) (af_lru (sch_affinity s))"
    using loop assigned_addresses [OF inv(2)] by (auto intro!: filter_cong)
  show abs: "aff_abs (sch_affinity s') = filter ?Q (aff_abs (sch_affinity s))"
    unfolding aff pending_abs using loop by (simp add: aff_abs_def lru filter_map comp_def)
  have inv': "aff_inv (sch_affinity s')"
    unfolding aff using loop inv(2) by (intro pending_filter_inv) (auto simp: aff_invD(7) gomap_simps split: option.splits)
  have "sch_policy s' = sch_policy s" by (simp add: assms(3) Scheduler_Reconcile_def Let_def)
  moreover have "length (af_assignments (sch_affinity s')) \<le> length (af_assignments (sch_affinity s))"
    using length_aff_abs [OF inv'] length_aff_abs [OF inv(2)] length_filter_le [of ?Q "aff_abs (sch_affinity s)"]
    by (simp add: abs)
  ultimately show "sched_ok s'" using inv inv' by (simp add: sched_ok_def)
  show "af_pending (sch_affinity s') = ?P" unfolding aff by simp
  show "sch_health s' = hc_Reconcile hc (sn_Providers snap) (sch_health s)" "sch_providers s' = next_providers items"
    "sch_revision s' = sn_Revision snap" "sch_cursors s' = gmapvals (\<lambda>key c. if cs_ProviderID c = [] \<or>
           cursor_current (next_providers items) (reset_ids (sch_providers s) items) key (cs_ProviderID c)
           then c else cleared c) (sch_cursors s)"
    unfolding assms(3) Scheduler_Reconcile_def option.case if_not_P [OF assms(2)] Let_def items_def by simp_all
qed

lemma Reconcile_ignored:
  "snap = None \<or> (\<exists>sn. snap = Some sn \<and> sch_revision s \<noteq> 0 \<and> sn_Revision sn < sch_revision s) \<Longrightarrow>
     Scheduler_Reconcile hc snap s = s"
  by (auto simp: Scheduler_Reconcile_def)

text \<open>The rest of the contract: configuration changes and diagnostics leave the leases alone.\<close>

locale health_controller = lease_ledger +
  assumes reconcile_inv: "inv h \<Longrightarrow> inv (hc_Reconcile hc ps h)"
    and reconcile_tokens: "inv h \<Longrightarrow> tokens (hc_Reconcile hc ps h) = tokens h"
    and update_error_inv: "hc_UpdateError hc = Some f \<Longrightarrow> inv h \<Longrightarrow> inv (f l ob raw i t h)"
    and update_error_tokens: "hc_UpdateError hc = Some f \<Longrightarrow> inv h \<Longrightarrow> tokens (f l ob raw i t h) = tokens h"
begin

lemma Scheduler_Reconcile_settled:
  assumes "sched_ok s" and "inv (sch_health s)"
  shows "sched_ok (Scheduler_Reconcile hc snap s)" and "inv (sch_health (Scheduler_Reconcile hc snap s))"
    and "tokens (sch_health (Scheduler_Reconcile hc snap s)) = tokens (sch_health s)"
proof -
  let ?s = "Scheduler_Reconcile hc snap s"
  have "sched_ok ?s \<and> inv (sch_health ?s) \<and> tokens (sch_health ?s) = tokens (sch_health s)"
  proof (cases "snap = None \<or> (\<exists>sn. snap = Some sn \<and> sch_revision s \<noteq> 0 \<and> sn_Revision sn < sch_revision s)")
    case True
    from Reconcile_ignored [OF this] assms show ?thesis by simp
  next
    case False
    then obtain sn where sn: "snap = Some sn" "\<not> (sch_revision s \<noteq> 0 \<and> sn_Revision sn < sch_revision s)" by auto
    from Reconcile_accepted(1,2) [OF assms(1) sn(2) refl, of hc] assms(2) reconcile_inv reconcile_tokens
    show ?thesis by (simp add: sn(1))
  qed
  then show "sched_ok ?s" "inv (sch_health ?s)" "tokens (sch_health ?s) = tokens (sch_health s)" by blast+
qed

lemma Scheduler_UpdateError_settled:
  assumes "sched_ok s" and "inv (sch_health s)"
  shows "sched_ok (Scheduler_UpdateError hc lease ob raw i t s)"
    and "inv (sch_health (Scheduler_UpdateError hc lease ob raw i t s))"
    and "tokens (sch_health (Scheduler_UpdateError hc lease ob raw i t s)) = tokens (sch_health s)"
  using assms update_error_inv update_error_tokens
  by (auto simp: Scheduler_UpdateError_def split: option.splits)

end

end
