(* ===== verification/Gateway_Accounting.thy ===== *)
theory Gateway_Accounting
  imports Gateway_Logic Selector_Interface
begin

text \<open>
  What the executor relies on of its selector, and what it guarantees in return: every lease it
  acquires is reported once, transport leases are released or handed to a background reader,
  at most one response is started and no cancellation is recorded as a failure.
\<close>

section \<open>The assertion\<close>

abbreviation lease_token :: "AttemptLease \<Rightarrow> u64" where
  "lease_token l \<equiv> hl_Token (al_HealthLease l)"

text \<open>
  \<open>b\<close>: the outstanding health leases; \<open>n\<close>: the attempts used, each announced by one forward
  event and sent to a provider once; \<open>w\<close>: the responses started, without which none is aborted; \<open>h\<close>: the transport leases held beside those of background
  readers; \<open>k\<close>: the last attempt whose failure may have been finished.
\<close>

definition tracked ::
  "('s \<Rightarrow> bool) \<Rightarrow> ('s \<Rightarrow> u64 set) \<Rightarrow> AttemptPolicy \<Rightarrow> u64 set \<Rightarrow> int \<Rightarrow> nat \<Rightarrow> int \<Rightarrow> int \<Rightarrow> 's gateway \<Rightarrow> bool" where
  "tracked sinv out policy b n w h k m \<longleftrightarrow>
     sinv (gx_sel m) \<and> out (gx_sel m) = b \<and> rs_attemptsUsed (gx_request m) = n \<and> rs_policy (gx_request m) = policy \<and>
     answers m = w \<and> int (forwards m) = n \<and> int (gx_sent m) = n \<and> (gx_aborted m \<longrightarrow> 0 < w) \<and> gx_clients m = int (length (gx_background m)) + h \<and> (\<forall>i \<in> gx_once m. i \<le> k) \<and>
     (\<forall>(f, e) \<in> set (gx_background m). rl_control (cf_lease f) \<noteq> None \<and> ev_Kind e \<noteq> EventForward) \<and> \<not> gx_panicked m"

lemma tracked_same: "tracked sinv out policy b n w h k m \<Longrightarrow> same m m' \<Longrightarrow> tracked sinv out policy b n w h k m'"
  by (simp add: tracked_def same_def)

lemma hoare_keeps: "keeps f \<Longrightarrow> hoare (tracked sinv out policy b n w h k) f (\<lambda>_. tracked sinv out policy b n w h k)"
  by (rule hoareI) (metis keeps_def snd_conv tracked_same)

lemma bind_keeps:
  assumes "keeps f" and "\<And>x. hoare (tracked sinv out policy b n w h k) (g x) Q"
  shows "hoare (tracked sinv out policy b n w h k) (State_Monad.bind f g) Q"
  by (rule hoare_bind [OF hoare_keeps [OF assms(1)] assms(2)])

definition quiet :: "gate_env \<Rightarrow> bool" where
  "quiet env \<longleftrightarrow> (\<forall>k. \<not> ge_canceled env k)"

lemma bind_canceled:
  assumes "\<And>x. (quiet env \<Longrightarrow> \<not> x) \<Longrightarrow> hoare (tracked sinv out policy b n w h k) (g x) Q"
  shows "hoare (tracked sinv out policy b n w h k) (State_Monad.bind (requestCanceled env) g) Q"
proof (rule hoareI)
  fix m r m' assume t: "tracked sinv out policy b n w h k m" and r: "run_state (State_Monad.bind (requestCanceled env) g) m = (r, m')"
  let ?x = "ge_canceled env (gx_calls m)"
  let ?m = "m\<lparr>gx_calls := Suc (gx_calls m)\<rparr>"
  have "tracked sinv out policy b n w h k ?m" using t by (simp add: tracked_def answers_def forwards_def)
  moreover have "run_state (g ?x) ?m = (r, m')" using r by (simp add: ask_def)
  moreover have "quiet env \<Longrightarrow> \<not> ?x" by (simp add: quiet_def)
  ultimately show "Q r m'" using hoareD [OF assms] by blast
qed

lemma bind_canceled_if:
  assumes "\<And>x. hoare (tracked sinv out policy b n w h k) (g x) Q"
  shows "hoare (tracked sinv out policy b n w h k) (State_Monad.bind (if c then requestCanceled env else State_Monad.return y) g) Q"
  by (rule bind_keeps [OF _ assms]) (intro keeps_rules)

lemma bind_failing_if:
  assumes "\<And>x. hoare (tracked sinv out policy b n w h k) (g x) Q"
  shows "hoare (tracked sinv out policy b n w h k) (State_Monad.bind (if c then failing env else State_Monad.return y) g) Q"
  by (rule bind_keeps [OF _ assms]) (intro keeps_rules)

text \<open>The computations that keep the assertion, as the first step of a sequence.\<close>

lemmas bind_quiet_steps = bind_keeps [OF keeps_ask] bind_keeps [OF keeps_touch] bind_keeps [OF keeps_close_base]
  bind_keeps [OF keeps_closeRequestAttempt] bind_keeps [OF keeps_recordBetween] bind_keeps [OF keeps_recordCopyCancellation]
  bind_keeps [OF keeps_bytes] bind_keeps [OF keeps_readErrorBody] bind_canceled_if bind_failing_if

lemmas hoare_splits = hoare_if hoare_option hoare_sum hoare_prod_app hoare_prod

lemma bind_writeError:
  assumes "\<And>x. hoare (tracked sinv out policy b n (Suc w) h k) (g x) Q"
  shows "hoare (tracked sinv out policy b n w h k) (State_Monad.bind (writeError status code message) g) Q"
proof -
  have "hoare (tracked sinv out policy b n w h k) (writeError status code message) (\<lambda>_. tracked sinv out policy b n (Suc w) h k)"
    by (simp add: hoare_def writeError_def modify_def tracked_def answers_def forwards_def)
  then show ?thesis by (rule hoare_bind) (rule assms)
qed

lemma hoare_writeError:
  assumes "\<And>m. tracked sinv out policy b n (Suc w) h k m \<Longrightarrow> Q () m"
  shows "hoare (tracked sinv out policy b n w h k) (writeError status code message) Q"
  using bind_writeError [of sinv out policy b n w h k State_Monad.return Q, OF hoare_return] assms by auto

lemma bind_header:
  assumes "\<And>x. hoare (tracked sinv out policy b n (Suc w) h k) (g x) Q"
  shows "hoare (tracked sinv out policy b n w h k)
    (State_Monad.bind (modify (\<lambda>m. m\<lparr>gx_writes := gx_writes m @ [WHeader status]\<rparr>)) g) Q"
proof -
  have "hoare (tracked sinv out policy b n w h k) (modify (\<lambda>m. m\<lparr>gx_writes := gx_writes m @ [WHeader status]\<rparr>))
      (\<lambda>_. tracked sinv out policy b n (Suc w) h k)"
    by (simp add: hoare_def modify_def tracked_def answers_def forwards_def)
  then show ?thesis by (rule hoare_bind) (rule assms)
qed

lemma bind_hold_client:
  assumes "\<And>x. hoare (tracked sinv out policy b n w (h + 1) k) (g x) Q"
  shows "hoare (tracked sinv out policy b n w h k) (State_Monad.bind hold_client g) Q"
proof -
  have "hoare (tracked sinv out policy b n w h k) hold_client (\<lambda>_. tracked sinv out policy b n w (h + 1) k)"
    by (simp add: hoare_def hold_client_def modify_def tracked_def answers_def forwards_def)
  then show ?thesis by (rule hoare_bind) (rule assms)
qed

lemma hoare_release_client:
  "hoare (tracked sinv out policy b n w h k) release_client (\<lambda>_. tracked sinv out policy b n w (h - 1) k)"
  by (simp add: hoare_def release_client_def modify_def tracked_def answers_def forwards_def)

lemma bind_release_client:
  assumes "\<And>x. hoare (tracked sinv out policy b n w (h - 1) k) (g x) Q"
  shows "hoare (tracked sinv out policy b n w h k) (State_Monad.bind release_client g) Q"
  by (rule hoare_bind [OF hoare_release_client assms])

text \<open>Starting an attempt, announcing it and sending its request go together.\<close>

lemma startAttempt_used: "StartAttempt q = (a, q') \<Longrightarrow> a = rs_attemptsUsed q + 1 \<and> rs_attemptsUsed q' = a \<and> rs_policy q' = rs_policy q"
  by (auto simp: StartAttempt_def Let_def split: if_splits)

lemma bind_startAttempt:
  assumes "\<And>e. ev_Kind (event e) = EventForward"
    and "\<And>x. hoare (tracked sinv out policy b (n + 1) w h k) (g (n + 1) x) Q"
  shows "hoare (tracked sinv out policy b n w h k)
    (State_Monad.bind startAttempt (\<lambda>a. State_Monad.bind (record_event env (event a)) (\<lambda>_. State_Monad.bind (call_do env) (g a)))) Q"
proof (rule hoareI)
  fix m r m'
  assume t: "tracked sinv out policy b n w h k m"
    and r: "run_state (State_Monad.bind startAttempt (\<lambda>a. State_Monad.bind (record_event env (event a))
      (\<lambda>_. State_Monad.bind (call_do env) (g a)))) m = (r, m')"
  obtain a q where sa: "StartAttempt (gx_request m) = (a, q)" by force
  have a: "a = n + 1" "rs_attemptsUsed q = n + 1" "rs_policy q = policy"
    using startAttempt_used [OF sa] t by (simp_all add: tracked_def)
  define reached where "reached ev = m\<lparr>gx_request := q, gx_events := gx_events m @ [ev], gx_sent := Suc (gx_sent m),
    gx_calls := Suc (gx_calls m)\<rparr>" for ev
  obtain ev where ev: "ev_Kind ev = EventForward" and run: "run_state (g a (ge_do env (gx_calls m))) (reached ev) = (r, m')"
  proof -
    obtain raw tr where p: "Prefix (ev_RawError (event a)) (nat (ul_ErrorTextBytes (ge_limits env))) = (raw, tr)" by force
    let ?ev = "if tr then (event a)\<lparr>ev_RawError := raw, ev_RawErrorIncomplete := incompleteTruncated\<rparr> else event a"
    have "ev_Kind ?ev = EventForward" using assms(1) by simp
    moreover have "run_state (g a (ge_do env (gx_calls m))) (reached ?ev) = (r, m')"
      using r by (simp add: startAttempt_def record_event_def call_do_def ask_def modify_def sa p reached_def)
    ultimately show thesis by (rule that)
  qed
  have "tracked sinv out policy b (n + 1) w h k (reached ev)"
    using t a ev by (simp add: tracked_def answers_def forwards_def reached_def)
  from hoareD [OF assms(2) this] run a show "Q r m'" by simp
qed

section \<open>The selector interface\<close>

locale gateway_selector =
  fixes sel :: "'s Selector" and sinv :: "'s \<Rightarrow> bool" and out :: "'s \<Rightarrow> u64 set"
  assumes acquire_ok: "sinv s \<Longrightarrow> token_room (out s) \<Longrightarrow> sel_Acquire sel snap key req s = (res, req', s') \<Longrightarrow>
      sinv s' \<and> rs_attemptsUsed req' = rs_attemptsUsed req \<and> rs_policy req' = rs_policy req \<and>
      (case res of
         Inl _ \<Rightarrow> out s' = out s
       | Inr l \<Rightarrow> al_Provider l \<noteq> None \<and> lease_token l \<notin> out s \<and> out s' = insert (lease_token l) (out s))"
    and report_ok: "sinv s \<Longrightarrow> sel_Report sel l outcome s = (u, ob, s') \<Longrightarrow> sinv s' \<and> out s' = out s - {lease_token l}"
    and update_ok: "sinv s \<Longrightarrow> sinv (sel_UpdateError sel l ob raw i t s) \<and> out (sel_UpdateError sel l ob raw i t s) = out s"
begin

text \<open>Reporting a lease takes it off the outstanding ones.\<close>

lemma bind_report:
  assumes "lease_token l = t" and "t \<notin> b" and "\<And>x. hoare (tracked sinv out policy b n w h k) (g x) Q"
  shows "hoare (tracked sinv out policy (insert t b) n w h k) (State_Monad.bind (report sel l outcome) g) Q"
proof -
  have "hoare (tracked sinv out policy (insert t b) n w h k) (report sel l outcome) (\<lambda>_. tracked sinv out policy b n w h k)"
  proof (rule hoareI)
    fix m r m' assume m: "tracked sinv out policy (insert t b) n w h k m" and r: "run_state (report sel l outcome) m = (r, m')"
    obtain u ob s where p: "sel_Report sel l outcome (gx_sel m) = (u, ob, s)" by (metis prod_cases3)
    from r p have "m' = m\<lparr>gx_sel := s\<rparr>" by (simp add: report_def)
    moreover have "sinv s" "out s = b" using report_ok [OF _ p] m assms(1,2) by (auto simp: tracked_def)
    ultimately show "tracked sinv out policy b n w h k m'" using m by (simp add: tracked_def answers_def forwards_def)
  qed
  then show ?thesis by (rule hoare_bind) (rule assms)
qed

lemma bind_reportClientCanceled:
  assumes "lease_token (rl_lease lease) = t" and "t \<notin> b" and "\<And>x. hoare (tracked sinv out policy b n w h k) (g x) Q"
  shows "hoare (tracked sinv out policy (insert t b) n w h k)
    (State_Monad.bind (reportClientCanceled env sel lease sid url status attempt) g) Q"
  unfolding reportClientCanceled_def Let_def State_Monad.bind_assoc case_prod_beta'
  apply (rule bind_report [OF assms(1,2)])
  apply (rule bind_keeps [OF _ assms(3)])
  apply (intro keeps_rules keeps_recordOutcome)
  apply (simp_all add: fits_def)
  done

lemma bind_terminal_failure:
  assumes "lease_token (rl_lease lease) = t" and "t \<notin> b" and "\<And>x. hoare (tracked sinv out policy b n (Suc w) h k) (g x) Q"
  shows "hoare (tracked sinv out policy (insert t b) n w h k)
    (State_Monad.bind (terminal_failure env sel base lease sid attempt url err pid stage status code message) g) Q"
  unfolding terminal_failure_def Let_def State_Monad.bind_assoc case_prod_beta'
  apply (rule bind_keeps)
   apply (intro keeps_rules)
  apply (rule bind_report [OF assms(1,2)])
  apply (rule bind_keeps)
   apply (rule keeps_recordOutcomeWithPatch)
    apply (simp_all add: fits_def)
  apply (rule bind_writeError [OF assms(3)])
  done

lemmas bind_terminals = bind_terminal_failure [folded terminalLocalAttempt_def]
  bind_terminal_failure [of _ _ _ policy n w h k g Q env base sid attempt url err pid stage 500
    "''replay_unavailable''" "''request could not be replayed''", folded terminalReplayFailure_def]
  bind_terminal_failure [of _ _ _ policy n w h k g Q env base sid attempt url err pid stage 502
    "''patch_failed''" "''provider patch failed''", folded terminalPatchFailure_def] for policy n w h k g Q env base sid attempt url err pid stage

end

end
