(* ===== verification/Gateway_Failures.thy ===== *)
theory Gateway_Failures
  imports Gateway_Accounting
begin

text \<open>
  The accounting of responses and captured failures: what copying a response, recording a
  failure and finishing the request with one do to the tracked state.
\<close>

section \<open>Answered requests\<close>

lemma tracked_mono: "tracked sinv out policy b n w h k m \<Longrightarrow> k \<le> k' \<Longrightarrow> tracked sinv out policy b n w h k' m"
  by (force simp: tracked_def)

text \<open>At most one more response was started, and exactly one unless the client was seen to go.\<close>

definition settled ::
  "gate_env \<Rightarrow> ('s \<Rightarrow> bool) \<Rightarrow> ('s \<Rightarrow> u64 set) \<Rightarrow> AttemptPolicy \<Rightarrow> u64 set \<Rightarrow> int \<Rightarrow> nat \<Rightarrow> int \<Rightarrow> int \<Rightarrow> 's gateway \<Rightarrow> bool" where
  "settled env sinv out policy b n w h k m \<longleftrightarrow>
     (\<exists>w'. (w' = w \<or> w' = Suc w) \<and> (quiet env \<longrightarrow> w' = Suc w) \<and> tracked sinv out policy b n w' h k m)"

lemma settled_answer: "tracked sinv out policy b n (Suc w) h k m \<Longrightarrow> settled env sinv out policy b n w h k m"
  unfolding settled_def by blast

lemma settled_gone: "\<not> quiet env \<Longrightarrow> tracked sinv out policy b n w h k m \<Longrightarrow> settled env sinv out policy b n w h k m"
  unfolding settled_def by blast

lemma settled_mono: "settled env sinv out policy b n w h k m \<Longrightarrow> k \<le> k' \<Longrightarrow> settled env sinv out policy b n w h k' m"
  by (metis settled_def tracked_mono)

lemma hoare_settled:
  assumes "\<And>w'. hoare (tracked sinv out policy b n w' h k) f (\<lambda>_. tracked sinv' out' policy' b' n' w' h' k')"
  shows "hoare (settled env sinv out policy b n w h k) f (\<lambda>_. settled env sinv' out' policy' b' n' w h' k')"
proof (rule hoareI)
  fix m r m' assume "settled env sinv out policy b n w h k m" and r: "run_state f m = (r, m')"
  then obtain w' where "w' = w \<or> w' = Suc w" "quiet env \<longrightarrow> w' = Suc w" "tracked sinv out policy b n w' h k m"
    by (auto simp: settled_def)
  moreover from hoareD [OF assms this(3) r] have "tracked sinv' out' policy' b' n' w' h' k' m'" .
  ultimately show "settled env sinv' out' policy' b' n' w h' k' m'" by (auto simp: settled_def)
qed

lemma settled_keeps: "keeps f \<Longrightarrow> hoare (settled env sinv out policy b n w h k) f (\<lambda>_. settled env sinv out policy b n w h k)"
  by (rule hoare_settled [OF hoare_keeps])

lemma bind_settled_keeps:
  assumes "keeps f" and "\<And>x. hoare (settled env sinv out policy b n w h k) (g x) Q"
  shows "hoare (settled env sinv out policy b n w h k) (State_Monad.bind f g) Q"
  by (rule hoare_bind [OF settled_keeps [OF assms(1)] assms(2)])

lemma hoare_answer:
  assumes "hoare P f (\<lambda>_. tracked sinv out policy b n (Suc w) h k)"
  shows "hoare P f (\<lambda>_. settled env sinv out policy b n w h k)"
  by (rule hoare_post [OF assms settled_answer])

lemma hoare_gone:
  assumes "\<not> quiet env" and "hoare P f (\<lambda>_. tracked sinv out policy b n w h k)"
  shows "hoare P f (\<lambda>_. settled env sinv out policy b n w h k)"
  by (rule hoare_post [OF assms(2) settled_gone [OF assms(1)]])

section \<open>Copying a response\<close>

text \<open>A response is cut short only after it was started.\<close>

definition copied ::
  "gate_env \<Rightarrow> ('s \<Rightarrow> bool) \<Rightarrow> ('s \<Rightarrow> u64 set) \<Rightarrow> AttemptPolicy \<Rightarrow> u64 set \<Rightarrow> int \<Rightarrow> nat \<Rightarrow> int \<Rightarrow> int \<Rightarrow> streamCopyResult \<Rightarrow>
     's gateway \<Rightarrow> bool" where
  "copied env sinv out policy b n w h k result m \<longleftrightarrow>
     (\<exists>w'. (w' = w \<or> w' = Suc w) \<and> (quiet env \<or> sc_abort result \<longrightarrow> w' = Suc w) \<and> tracked sinv out policy b n w' h k m)"

lemma copied_answer: "tracked sinv out policy b n (Suc w) h k m \<Longrightarrow> copied env sinv out policy b n w h k result m"
  unfolding copied_def by blast

lemma copied_gone:
  "\<not> quiet env \<Longrightarrow> \<not> sc_abort result \<Longrightarrow> tracked sinv out policy b n w h k m \<Longrightarrow> copied env sinv out policy b n w h k result m"
  unfolding copied_def by blast

lemma hoare_copied:
  assumes "\<And>w'. hoare (tracked sinv out policy b n w' h k) f (\<lambda>_. tracked sinv' out' policy' b' n' w' h' k')"
  shows "hoare (copied env sinv out policy b n w h k result) f (\<lambda>_. copied env sinv' out' policy' b' n' w h' k' result)"
proof (rule hoareI)
  fix m r m' assume "copied env sinv out policy b n w h k result m" and r: "run_state f m = (r, m')"
  then obtain w' where "w' = w \<or> w' = Suc w" "quiet env \<or> sc_abort result \<longrightarrow> w' = Suc w" "tracked sinv out policy b n w' h k m"
    by (auto simp: copied_def)
  moreover from hoareD [OF assms this(3) r] have "tracked sinv' out' policy' b' n' w' h' k' m'" .
  ultimately show "copied env sinv' out' policy' b' n' w h' k' result m'" by (auto simp: copied_def)
qed

lemma bind_copied_keeps:
  assumes "keeps f" and "\<And>x. hoare (copied env sinv out policy b n w h k result) (g x) Q"
  shows "hoare (copied env sinv out policy b n w h k result) (State_Monad.bind f g) Q"
  by (rule hoare_bind [OF hoare_copied [OF hoare_keeps [OF assms(1)]] assms(2)])

lemma abort_tracked: "hoare (tracked sinv out policy b n (Suc w) h k) abort (\<lambda>_. tracked sinv out policy b n (Suc w) h k)"
  by (simp add: hoare_def abort_def modify_def tracked_def answers_def forwards_def)

lemma abort_if_copied:
  "hoare (copied env sinv out policy b n w h k result) (if sc_abort result then abort else State_Monad.return ())
     (\<lambda>_. settled env sinv out policy b n w h k)"
proof (cases "sc_abort result")
  case True
  show ?thesis
    by (simp only: True if_True) (rule hoare_pre [OF hoare_answer [OF abort_tracked]], auto simp: copied_def True)
next
  case False
  then show ?thesis by (auto simp: hoare_def copied_def settled_def)
qed

lemma copied_canceled:
  "\<not> quiet env \<Longrightarrow> tracked sinv out policy b n w h k m \<Longrightarrow>
     (case copy_canceled started raw c of (result, c) \<Rightarrow> copied env sinv out policy b n w h k result) m"
  by (auto simp: copy_canceled_def copy_result_def intro: copied_gone split: prod.splits)

lemma copy_body_settles:
  "hoare (tracked sinv out policy b n w h k) (copy_body env status reads c)
     (\<lambda>(result, c). copied env sinv out policy b n w h k result)"
  unfolding copy_body_def Let_def
  apply (rule bind_canceled)
  apply (rule hoare_if)
   apply (rule hoare_return, rule copied_canceled, blast, assumption)
  apply (rule bind_canceled)
  apply (rule hoare_if)
   apply (rule hoare_return, rule copied_canceled, blast, assumption)
  apply (rule bind_header)
  apply (rule bind_canceled)
  apply (rule hoare_post [where R = "\<lambda>_. tracked sinv out policy b n (Suc w) h k"])
   apply (rule hoare_keeps)
   apply (intro keeps_rules)
  apply (simp add: copied_answer split: prod.split)
  done

lemma copyUpstream_settles:
  assumes "rp_body response \<noteq> None"
  shows "hoare (tracked sinv out policy b n w h k) (copyUpstream env response sse c)
     (\<lambda>(result, c). copied env sinv out policy b n w h k result)"
proof -
  from assms obtain reads where reads: "rp_body response = Some reads" by blast
  show ?thesis
    unfolding copyUpstream_def reads option.case
    apply (rule hoare_bind [OF copy_body_settles])
    apply (rule hoare_prod)
    apply (simp only: prod.case)
    apply (rule bind_copied_keeps)
     apply (intro keeps_rules)
    apply (rule hoare_return)
    apply (auto simp: copied_def)
    done
qed

section \<open>Captured failures\<close>

text \<open>
  A failure waiting for the decision about another attempt: it may be recorded as a failure,
  and it holds a transport lease (\<open>h = 1\<close>) just when it holds a response.
\<close>

definition pending :: "capturedFailure \<Rightarrow> int \<Rightarrow> int \<Rightarrow> bool" where
  "pending f n h \<longleftrightarrow>
     cf_attempt f = n \<and> o_Class (cf_outcome f) \<notin> {FailureClientCanceled, FailureDownstream} \<and>
     (case cf_response f of
        None \<Rightarrow> h = 0
      | Some r \<Rightarrow> rp_body r \<noteq> None \<and> rl_control (cf_lease f) \<noteq> None \<and> h = 1)"

lemma hoare_once:
  assumes "k < cf_attempt f" and "hoare (tracked sinv out policy b n w h (cf_attempt f)) act Q"
  shows "hoare (tracked sinv out policy b n w h k) (once f act) Q"
proof (rule hoareI)
  fix m r m' assume t: "tracked sinv out policy b n w h k m" and r: "run_state (once f act) m = (r, m')"
  let ?m = "m\<lparr>gx_once := insert (cf_attempt f) (gx_once m)\<rparr>"
  have new: "cf_attempt f \<notin> gx_once m" using t assms(1) by (auto simp: tracked_def)
  have "tracked sinv out policy b n w h (cf_attempt f) ?m"
    using tracked_mono [OF t less_imp_le [OF assms(1)]] by (simp add: tracked_def answers_def forwards_def)
  moreover have "run_state act ?m = (r, m')" using r new by (simp add: once_def read_state_def modify_def)
  ultimately show "Q r m'" using hoareD [OF assms(2)] by blast
qed

lemma backgroundFailure_tracked:
  assumes "k < cf_attempt f" and "rl_control (cf_lease f) \<noteq> None" and "ev_Kind event \<noteq> EventForward"
  shows "hoare (tracked sinv out policy b n w 1 k) (backgroundFailure env f event) (\<lambda>_. tracked sinv out policy b n w 0 (cf_attempt f))"
  unfolding backgroundFailure_def
  apply (rule hoare_once [OF assms(1)])
  apply (rule bind_quiet_steps)
  using assms(2,3) apply (auto simp: hoare_def modify_def tracked_def answers_def forwards_def Let_def)
  done

lemma capture_tracked:
  assumes "pending f n' h" and "k < n'" and "kind \<noteq> EventForward" and "\<And>e. ev_Kind (change e) = ev_Kind e"
  shows "hoare (tracked sinv out policy b n w h k)
     (State_Monad.bind (outcomeEvent kind (cf_lease f) (cf_outcome f) (cf_attempt f) (cf_update f)) (\<lambda>event.
        if cf_response f \<noteq> None then backgroundFailure env f (change event) else record_event env (change event)))
     (\<lambda>_. tracked sinv out policy b n w 0 n')"
proof -
  let ?e = "outcome_event kind (cf_lease f) (cf_outcome f) (cf_attempt f) (cf_update f)"
  have e: "ev_Kind (change ?e) \<noteq> EventForward" using assms(3,4) by simp
  have fits: "fits kind (cf_outcome f)" using assms(1) by (simp add: pending_def fits_def)
  show ?thesis
  proof (cases "cf_response f")
    case None
    with assms(1) have "h = 0" "cf_attempt f = n'" by (simp_all add: pending_def)
    moreover have "hoare (tracked sinv out policy b n w 0 k) (record_event env (change ?e)) (\<lambda>_. tracked sinv out policy b n w 0 n')"
      by (rule hoare_post [OF hoare_keeps [OF keeps_record_event [OF e]]]) (erule tracked_mono, use assms(2) in simp)
    ultimately show ?thesis using None by (simp add: outcomeEvent_fits [OF fits])
  next
    case (Some r)
    with assms(1) have "h = 1" "cf_attempt f = n'" "rl_control (cf_lease f) \<noteq> None" by (simp_all add: pending_def)
    with Some backgroundFailure_tracked [OF _ this(3) e] assms(2) show ?thesis
      by (simp add: outcomeEvent_fits [OF fits])
  qed
qed

lemma recordCapturedFailure_tracked:
  assumes "pending f n' h" and "k < n'"
  shows "hoare (tracked sinv out policy b n w h k) (recordCapturedFailure env f) (\<lambda>_. tracked sinv out policy b n w 0 n')"
  unfolding recordCapturedFailure_def by (rule capture_tracked [OF assms]) simp_all

lemma recordContinuation_tracked:
  assumes "pending f n' h" and "k < n'" and "al_Provider (rl_lease following) \<noteq> None"
  shows "hoare (tracked sinv out policy b n w h k) (recordContinuation env f following a) (\<lambda>_. tracked sinv out policy b n w 0 n')"
proof -
  from assms(3) obtain item where "al_Provider (rl_lease following) = Some item" by blast
  then show ?thesis
    unfolding recordContinuation_def Let_def by (simp only: option.case) (rule capture_tracked [OF assms(1,2)], simp_all)
qed

lemma keeps_bool [keeps_rules]: "keeps f \<Longrightarrow> keeps g \<Longrightarrow> keeps (case x of True \<Rightarrow> f | False \<Rightarrow> g)"
  by (cases x) simp_all

section \<open>Finishing a request with a failure\<close>

lemma hoare_writeUnavailable:
  "hoare (tracked sinv out policy b n w h k) (writeUnavailable env e) (\<lambda>_. tracked sinv out policy b n (Suc w) h k)"
  unfolding writeUnavailable_def
  apply (rule bind_keeps)
   apply (intro keeps_rules keeps_bool)
  apply (rule hoare_writeError, assumption)
  done

context gateway_selector
begin

lemma fillFailure_tracked:
  assumes "ev_Kind event \<noteq> EventForward"
  shows "hoare (tracked sinv out policy b n w h k) (fillFailure env sel f event raw incomplete) (\<lambda>_. tracked sinv out policy b n w h k)"
  unfolding fillFailure_def
  apply (rule hoare_bind [where R = "\<lambda>_. tracked sinv out policy b n w h k"])
  subgoal using update_ok by (simp add: hoare_def modify_def tracked_def answers_def forwards_def)
  subgoal by (rule hoare_keeps, rule keeps_record_event) (simp add: assms)
  done

lemma finish_copied:
  assumes "rp_body response \<noteq> None" and "ev_Kind event \<noteq> EventForward"
  shows "hoare (tracked sinv out policy b n w h k)
    (State_Monad.bind (requestCanceled env) (\<lambda>gone. State_Monad.bind (copyUpstream env response False (readFinal gone c)) (\<lambda>(result, c).
       State_Monad.bind (fillFailure env sel f event (rv_raw (sc_verdict result)) (rv_incomplete (sc_verdict result))) (\<lambda>_.
       State_Monad.bind (recordCopyCancellation env event (sc_cancel result) (sc_started result)) (\<lambda>_.
       State_Monad.bind release_client (\<lambda>_. if sc_abort result then abort else State_Monad.return ()))))))
    (\<lambda>_. settled env sinv out policy b n w (h - 1) k)"
  apply (rule bind_quiet_steps)
  apply (rule hoare_bind [OF copyUpstream_settles [OF assms(1)]])
  apply (rule hoare_prod)
  apply (simp only: prod.case)
  apply (rule hoare_bind [OF hoare_copied [OF fillFailure_tracked [OF assms(2)]]])
  apply (rule bind_copied_keeps [OF keeps_recordCopyCancellation])
  apply (rule hoare_bind [OF hoare_copied [OF hoare_release_client]])
  apply (rule abort_if_copied)
  done

lemma finishHTTPFailure_settles:
  assumes "pending f n' 1" and "k < n'" and "cf_response f = Some response"
  shows "hoare (tracked sinv out policy b n w 1 k) (finishHTTPFailure env sel f response) (\<lambda>_. settled env sinv out policy b n w 0 n')"
proof -
  let ?e = "outcome_event EventFailure (cf_lease f) (cf_outcome f) (cf_attempt f) (cf_update f)"
  from assms(1,3) obtain c where f: "cf_attempt f = n'" "rl_control (cf_lease f) = Some c" "rp_body response \<noteq> None"
    "fits EventFailure (cf_outcome f)" by (auto simp: pending_def fits_def)
  have bg: "hoare (tracked sinv out policy b n w 1 k) (backgroundFailure env f ?e) (\<lambda>_. tracked sinv out policy b n w 0 n')" for w
    using backgroundFailure_tracked [of k f ?e] assms(2) f by simp
  show ?thesis
    unfolding finishHTTPFailure_def outcomeEvent_fits [OF f(4)] State_Monad.bind_left_identity f(2) option.case
    apply (rule bind_canceled)
    apply (rule hoare_if)
     apply (rule hoare_gone, blast)
     apply (rule hoare_bind [OF bg])
     apply (rule hoare_keeps, rule keeps_recordCopyCancellation)
    apply (rule hoare_if)
     apply (rule hoare_bind [OF bg])
     apply (rule bind_canceled)
     apply (rule hoare_if)
      apply (rule hoare_return, rule settled_gone, blast, assumption)
     apply (rule hoare_writeError, erule settled_answer)
    apply (rule hoare_once)
     apply (simp add: f assms(2))
    apply (simp only: f(1))
    apply (rule hoare_post [OF finish_copied [OF f(3)]])
     apply simp
    apply simp
    done
qed

lemma finishCapturedFailure_settles:
  assumes "case prior of None \<Rightarrow> h = 0 \<and> k \<le> n' | Some f \<Rightarrow> pending f n' h \<and> k < n'"
  shows "hoare (tracked sinv out policy b n w h k) (finishCapturedFailure env sel prior unavailable)
     (\<lambda>_. settled env sinv out policy b n w 0 n')"
proof (cases prior)
  case None
  show ?thesis
    unfolding finishCapturedFailure_def None option.case
    apply (rule hoare_post [where R = "\<lambda>_. tracked sinv out policy b n (Suc w) h k"])
     apply (rule bind_quiet_steps)
     apply (intro hoare_if hoare_option hoare_writeError hoare_writeUnavailable, assumption+)
    using assms None apply (auto intro: settled_answer settled_mono)
    done
next
  case (Some f)
  with assms have p: "pending f n' h" "k < n'" by simp_all
  show ?thesis
  proof (cases "cf_response f")
    case None
    show ?thesis
      unfolding finishCapturedFailure_def Some None option.case
      apply (rule hoare_bind [OF recordCapturedFailure_tracked [OF p]])
      apply (rule bind_quiet_steps)
      unfolding writeCapturedFailure_def
      apply (intro hoare_if; rule hoare_writeError, erule settled_answer)
      done
  next
    case (Some r)
    with p have "pending f n' 1" "h = 1" by (simp_all add: pending_def)
    then show ?thesis
      unfolding finishCapturedFailure_def \<open>prior = Some f\<close> Some option.case
      by (simp only:) (rule bind_quiet_steps, rule finishHTTPFailure_settles [OF _ p(2) Some])
  qed
qed

end

end
