(* ===== verification/Gateway_Pool.thy ===== *)
theory Gateway_Pool
  imports Gateway_Failures
begin

text \<open>
  The accounting of one attempt and of the loop over providers: every early return of the
  executor reports the lease it holds, and every round that goes on has used an attempt.
\<close>

section \<open>Streamed and buffered responses\<close>

text \<open>The attempt has ended the request.\<close>

abbreviation over where
  "over env sinv out policy b n w h k \<equiv> \<lambda>r m. r = (None, True) \<and> settled env sinv out policy b n w h k m"

lemma ended_answered: "hoare (tracked sinv out policy b n (Suc w) h k) ended (over env sinv out policy b n w h k)"
  by (simp add: hoare_return settled_answer)

lemma ended_gone: "\<not> quiet env \<Longrightarrow> hoare (tracked sinv out policy b n w h k) ended (over env sinv out policy b n w h k)"
  by (simp add: hoare_return settled_gone)

context gateway_selector
begin

lemma report_tracked:
  assumes "lease_token l = t" and "t \<notin> b"
  shows "hoare (tracked sinv out policy (insert t b) n w h k) (report sel l outcome) (\<lambda>_. tracked sinv out policy b n w h k)"
  using bind_report [OF assms, of policy n w h k State_Monad.return "\<lambda>_. tracked sinv out policy b n w h k" outcome]
  by (simp add: hoare_return)

lemmas hoare_terminals =
  bind_terminals [where g = State_Monad.return, unfolded State_Monad.bind_right_identity, OF _ _ hoare_return]

lemma streamResponse_settles:
  assumes "lease_token (rl_lease lease) = t" and "t \<notin> b" and "rp_body response \<noteq> None"
  shows "hoare (tracked sinv out policy (insert t b) n w h k) (streamResponse env sel response lease c outcome attempt)
     (\<lambda>_. settled env sinv out policy b n w h k)"
  unfolding streamResponse_def
  apply (rule hoare_bind [OF copyUpstream_settles [OF assms(3)]])
  apply (rule hoare_prod)
  apply (rule hoare_let)+
  apply (simp only: prod.case)
  apply (rule hoare_bind [OF hoare_copied [OF report_tracked]])
    apply (simp add: assms(1))
   apply (rule assms(2))
  apply (rule hoare_prod)
  apply (rule hoare_let)
  apply (subst outcomeEvent_fits)
   apply (simp add: fits_def)
  apply (simp only: State_Monad.bind_left_identity Let_def)
  apply (rule bind_copied_keeps)
   apply (rule keeps_record_event)
   apply (simp split: option.split)
  apply (rule bind_copied_keeps [OF keeps_recordCopyCancellation])
  apply (rule abort_if_copied)
  done

lemma buffered_report_tracked:
  assumes "lease_token (rl_lease lease) = t" and "t \<notin> b" and "fits kind outcome" and "kind \<noteq> EventForward"
  shows "hoare (tracked sinv out policy (insert t b) n w h k) (buffered_report env sel lease attempt kind outcome)
     (\<lambda>_. tracked sinv out policy b n w h k)"
  unfolding buffered_report_def
  apply (rule bind_report [OF assms(1,2)])
  apply (rule hoare_prod)
  apply (simp only: outcomeEvent_fits [OF assms(3)] State_Monad.bind_left_identity)
  apply (rule hoare_keeps)
  apply (intro keeps_rules keeps_record_event)
  apply (simp add: assms(4))
  done

lemma buffered_cancel_tracked:
  assumes "lease_token (rl_lease lease) = t" and "t \<notin> b"
  shows "hoare (tracked sinv out policy (insert t b) n w h k) (buffered_cancel env sel lease sid attempt url status started)
     (\<lambda>r m. r = (None, True) \<and> tracked sinv out policy b n w h k m)"
  unfolding buffered_cancel_def
  apply (rule bind_quiet_steps)+
  apply (rule hoare_bind [OF buffered_report_tracked [OF assms]])
    apply (simp_all add: fits_def hoare_return)
  done

lemma buffered_cancel_gone:
  assumes "\<not> quiet env" and "lease_token (rl_lease lease) = t" and "t \<notin> b"
  shows "hoare (tracked sinv out policy (insert t b) n w h k) (buffered_cancel env sel lease sid attempt url status started)
     (over env sinv out policy b n w h k)"
  by (rule hoare_post [OF buffered_cancel_tracked [OF assms(2,3)]]) (simp add: settled_gone assms(1))

lemma buffered_cancel_answered:
  assumes "lease_token (rl_lease lease) = t" and "t \<notin> b"
  shows "hoare (tracked sinv out policy (insert t b) n (Suc w) h k) (buffered_cancel env sel lease sid attempt url status started)
     (over env sinv out policy b n w h k)"
  by (rule hoare_post [OF buffered_cancel_tracked [OF assms]]) (simp add: settled_answer)

lemma buffered_report_ends:
  assumes "lease_token (rl_lease lease) = t" and "t \<notin> b" and "fits kind outcome" and "kind \<noteq> EventForward"
  shows "hoare (tracked sinv out policy (insert t b) n (Suc w) h k)
    (State_Monad.bind (buffered_report env sel lease attempt kind outcome) (\<lambda>_. ended)) (over env sinv out policy b n w h k)"
  by (rule hoare_bind [OF buffered_report_tracked [OF assms] ended_answered])

lemma buffered_deliver_over:
  assumes lease: "lease_token (rl_lease lease) = t" "t \<notin> b"
  shows "hoare (tracked sinv out policy (insert t b) n w h k) (buffered_deliver env sel lease sid attempt url status)
     (over env sinv out policy b n w h k)"
  unfolding buffered_deliver_def
  apply (rule bind_canceled)
  apply (rule hoare_if)
   apply (rule buffered_cancel_gone [OF _ lease], blast)
  apply (rule bind_canceled)
  apply (rule hoare_if)
   apply (rule buffered_cancel_gone [OF _ lease], blast)
  apply (rule bind_quiet_steps)
  apply (rule hoare_prod)
  apply (rule bind_header)
  apply (rule bind_canceled)
  apply (rule hoare_if)
   apply (rule buffered_cancel_answered [OF lease])
  apply (rule bind_quiet_steps)+
  apply (rule hoare_let)
  apply (rule hoare_option)
  subgoal
    apply (rule bind_quiet_steps)
    apply (rule bind_canceled)
    apply (rule hoare_if)
     apply (rule buffered_cancel_answered [OF lease])
    apply (rule hoare_bind [OF _ ended_answered])
    apply (rule hoare_splits)+
      apply (rule buffered_report_tracked [OF lease]; simp add: fits_def)+
    done
  subgoal by (rule buffered_report_ends [OF lease]; simp add: fits_def)
  done

lemma buffered_failed_over:
  assumes lease: "lease_token (rl_lease lease) = t" "t \<notin> b"
  shows "hoare (tracked sinv out policy (insert t b) n w h k)
     (buffered_failed env sel lease sid attempt url status hook replay cleanup execution err) (over env sinv out policy b n w h k)"
  unfolding buffered_failed_def
  apply (rule bind_canceled)
  apply (rule hoare_if)
   apply (rule buffered_cancel_gone [OF _ lease], blast)
  apply (rule hoare_let)
  apply (rule hoare_prod)
  apply (rule bind_quiet_steps)+
  apply (rule hoare_let)
  apply (rule hoare_bind [OF _ ended_answered])
  apply (rule hoare_if; rule hoare_terminals [OF lease], assumption)
  done

lemma executeBufferedResponse_over:
  assumes lease: "lease_token (rl_lease lease) = t" "t \<notin> b"
  shows "hoare (tracked sinv out policy (insert t b) n w h k) (executeBufferedResponse env sel lease c sid attempt status url)
     (over env sinv out policy b n w h k)"
  unfolding executeBufferedResponse_def
  apply (rule bind_canceled)
  apply (rule hoare_if)
   apply (rule buffered_cancel_gone [OF _ lease], blast)
  apply (rule bind_quiet_steps)+
  apply (rule hoare_let)
  apply (rule bind_quiet_steps)
  apply (rule hoare_let)
  apply (rule hoare_option)
  subgoal for _ _ c' lease'
    apply (rule bind_canceled)
    apply (rule hoare_if)
     apply (rule buffered_cancel_gone [OF _ _ lease(2)], blast, simp add: lease(1))
    apply (rule hoare_if)
    subgoal
      apply (rule bind_quiet_steps)+
      apply (rule hoare_let)
      apply (rule hoare_if)
       apply (rule bind_terminals [OF _ lease(2) ended_answered], simp add: lease(1))
      apply (rule hoare_let)
      apply (rule hoare_bind [OF buffered_report_tracked [OF _ lease(2)]])
         apply (simp_all add: lease(1) fits_def)
      apply (intro conjI impI; rule bind_writeError [OF ended_answered])
      done
    apply (rule bind_quiet_steps, rule hoare_option [rotated], rule buffered_failed_over [OF _ lease(2)], simp add: lease(1))+
    apply (rule buffered_deliver_over [OF _ lease(2)], simp add: lease(1))
    done
  apply (rule hoare_prod)
  apply (rule hoare_bind [OF buffered_report_tracked [OF _ lease(2)]])
     apply (simp_all add: lease(1) fits_def)
  apply (rule bind_canceled)
  apply simp
  apply (intro conjI impI)
   apply (rule ended_gone, blast)
  apply (rule bind_writeError [OF ended_answered])
  done

text \<open>
  An attempt that has started and ended, with the transport lease still held beside those of
  background readers unless it was handed over.
\<close>

definition after_call where
  "after_call env policy b n \<equiv> \<lambda>((r, done), transferred) m.
     if done then settled env sinv out policy b n 0 (if transferred then 0 else 1) n m
     else \<exists>f. r = Some f \<and> pending f n (if transferred then 1 else 0) \<and> tracked sinv out policy b n 0 1 (n - 1) m"

lemma after_return: "hoare (after_call env policy b n r) (State_Monad.return r) (after_call env policy b n)"
  by (rule hoare_return)

lemma over_after: "over env sinv out policy b n 0 1 (n - 1) r m \<Longrightarrow> after_call env policy b n (r, False) m"
  by (auto simp: after_call_def intro: settled_mono)

lemma after_over:
  assumes "hoare P f (over env sinv out policy b n 0 1 (n - 1))"
  shows "hoare P f (\<lambda>r. after_call env policy b n (r, False))"
  by (rule hoare_post [OF assms over_after])

lemma after_answered: "hoare (tracked sinv out policy b n (Suc 0) 1 (n - 1)) (State_Monad.return ((None, True), False)) (after_call env policy b n)"
  by (rule hoare_return) (auto simp: after_call_def intro: settled_mono settled_answer)

lemma after_gone: "\<not> quiet env \<Longrightarrow> hoare (tracked sinv out policy b n 0 1 (n - 1)) (State_Monad.return ((None, True), False)) (after_call env policy b n)"
  by (rule hoare_return) (auto simp: after_call_def intro: settled_mono settled_gone)

lemma after_settled: "hoare (settled env sinv out policy b n 0 1 (n - 1)) (State_Monad.return ((None, True), False)) (after_call env policy b n)"
  by (rule hoare_return) (auto simp: after_call_def intro: settled_mono)

lemma after_captured:
  assumes "pending f n (if tr then 1 else 0)"
  shows "hoare (tracked sinv out policy b n 0 1 (n - 1)) (State_Monad.return ((Some f, False), tr)) (after_call env policy b n)"
  using assms by (simp add: hoare_return after_call_def)

lemma handlePlanTransportError_after:
  assumes lease: "lease_token (rl_lease lease) = t" "t \<notin> b"
  shows "hoare (tracked sinv out policy (insert t b) n 0 1 (n - 1)) (handlePlanTransportError env sel lease sid n url err)
    (\<lambda>r. after_call env policy b n (r, False))"
  unfolding handlePlanTransportError_def
  apply (rule hoare_option)
   apply (rule hoare_let)
   apply (rule bind_canceled)
   apply (rule hoare_if)
    apply (rule after_over)
    apply (rule hoare_let)
    apply (rule bind_report [OF lease])
    apply (rule hoare_prod)
    apply (rule bind_keeps)
     apply (rule keeps_recordOutcome; simp add: fits_def)
    apply (rule bind_quiet_steps)
    apply (rule ended_gone, blast)
   apply (rule bind_report [OF lease])
   apply (rule hoare_prod)
   apply (rule hoare_return)
   apply (simp add: after_call_def pending_def failure_of_def)
  apply (rule hoare_prod)
  apply (rule hoare_let)
  apply (rule bind_report [OF lease])
  apply (rule hoare_prod)
  apply (rule hoare_return)
  apply (simp add: after_call_def pending_def failure_of_def)
  done

lemma handed_over: "\<not> quiet env \<Longrightarrow> hoare (tracked sinv out policy b n 0 0 n) (State_Monad.return ((None, True), True)) (after_call env policy b n)"
  by (simp add: hoare_return after_call_def settled_gone)

lemma handed_over_answered: "hoare (tracked sinv out policy b n (Suc 0) 0 n) (State_Monad.return ((None, True), True)) (after_call env policy b n)"
  by (simp add: hoare_return after_call_def settled_answer)

lemma abandoned_after:
  assumes "cf_attempt f = n" and "rl_control (cf_lease f) \<noteq> None" and "ev_Kind event \<noteq> EventForward"
  shows "hoare (tracked sinv out policy b n 0 1 (n - 1))
    (State_Monad.bind (backgroundFailure env f event) (\<lambda>_. State_Monad.bind (close_base env) (\<lambda>_. State_Monad.bind (requestCanceled env) (\<lambda>gone.
       State_Monad.bind (if gone then State_Monad.return ()
         else if replay then writeError status code message else writeError status' code' message')
       (\<lambda>_. State_Monad.return ((None, True), True)))))) (after_call env policy b n)"
  apply (rule hoare_bind [OF backgroundFailure_tracked [OF _ assms(2,3)]])
   apply (simp add: assms(1))
  unfolding assms(1)
  apply (rule bind_quiet_steps)
  apply (rule bind_canceled)
  apply (simp only: if_distrib [where f = "\<lambda>x. State_Monad.bind x g" for g] State_Monad.bind_left_identity)
  apply (intro hoare_if handed_over bind_writeError [OF handed_over_answered], blast)
  done

lemma ClassifyHTTPStatus_failure: "ClassifyHTTPStatus status \<notin> {FailureClientCanceled, FailureDownstream}"
  by (simp add: ClassifyHTTPStatus_def)

lemma answered_after:
  assumes lease: "lease_token (rl_lease lease) = t" "t \<notin> b" and body: "rp_body response \<noteq> None" and control: "rl_control lease \<noteq> None"
  shows "hoare (tracked sinv out policy (insert t b) n 0 1 (n - 1)) (answered env sel item lease c sid n url response)
    (after_call env policy b n)"
  unfolding answered_def
  apply (rule bind_quiet_steps)
  apply (rule hoare_let)
  apply (rule hoare_if)
  subgoal
    apply (rule hoare_let)
    apply (rule bind_report [OF lease])
    apply (rule hoare_prod)
    apply (rule bind_quiet_steps)+
    apply (rule hoare_let)
    apply (rule hoare_if)
     apply (subst outcomeEvent_fits)
      apply (simp add: fits_def ClassifyHTTPStatus_failure [simplified])
     apply (simp only: State_Monad.bind_left_identity)
     apply (rule abandoned_after)
       apply (simp add: failure_of_def)
      apply (simp add: failure_of_def control)
     apply simp
    apply (rule after_captured)
    using body control apply (simp add: pending_def failure_of_def ClassifyHTTPStatus_failure [simplified])
    done
  apply (rule bind_quiet_steps)+
  apply (rule hoare_let)
  apply (rule bind_canceled)
  apply (rule hoare_if)
   apply (rule hoare_if)
    apply (rule bind_reportClientCanceled [OF lease after_gone], blast)
   apply (rule bind_quiet_steps)
   apply (rule bind_terminals [OF lease after_answered])
  apply (rule hoare_if)
   apply (rule bind_reportClientCanceled [OF lease after_gone], blast)
  apply (rule hoare_if)
   apply (rule hoare_bind [OF after_over [OF executeBufferedResponse_over [OF lease]] after_return])
  apply (rule bind_quiet_steps)
  apply (rule hoare_option)
   apply (rule hoare_bind [OF streamResponse_settles [OF lease body] after_settled])
  apply (rule bind_terminals [OF lease after_answered])
  done

lemma call_upstream_after:
  assumes lease: "lease_token (rl_lease lease) = t" "t \<notin> b"
  shows "hoare (tracked sinv out policy (insert t b) (n - 1) 0 1 (n - 1)) (call_upstream env sel plan item lease sid url)
    (after_call env policy b n)"
  unfolding call_upstream_def Let_def
  apply (rule bind_quiet_steps)
  apply (rule bind_startAttempt)
   apply simp
  apply (simp only: diff_add_cancel)
  apply (rule hoare_prod)
  apply (rule bind_quiet_steps)
  apply (rule hoare_prod)
  apply (rule bind_quiet_steps)+
  apply (rule hoare_option)
  subgoal
    apply (rule bind_canceled)
    apply (rule hoare_if)
     apply (rule bind_quiet_steps)
     apply (rule bind_reportClientCanceled [OF _ lease(2) after_gone], simp add: lease(1), blast)
    apply (rule hoare_if)
     apply (rule bind_quiet_steps)
     apply (rule bind_terminals [OF _ lease(2) after_answered], simp add: lease(1))
    apply (rule hoare_option)
     apply (rule bind_terminals [OF _ lease(2) after_answered], simp add: lease(1))
    apply (rule hoare_if)
     apply (rule bind_terminals [OF _ lease(2) after_answered], simp add: lease(1))
    apply (rule answered_after [OF _ lease(2)]; simp add: lease(1))
    done
  apply (rule bind_quiet_steps)
  apply (rule hoare_if)
   apply (rule bind_terminals [OF _ lease(2) after_answered], simp add: lease(1))
  apply (rule hoare_bind [OF handlePlanTransportError_after [OF _ lease(2)] after_return], simp add: lease(1))
  done

text \<open>An attempt is over, or it has been used and left a failure behind.\<close>

definition attempted where
  "attempted env policy b n \<equiv> \<lambda>(r, done) m.
     if done then \<exists>n'. n \<le> n' \<and> n' \<le> n + 1 \<and> settled env sinv out policy b n' 0 0 n' m
     else \<exists>f h. r = Some f \<and> pending f (n + 1) h \<and> tracked sinv out policy b (n + 1) 0 h n m"

lemma attempted_answered: "hoare (tracked sinv out policy b n (Suc 0) 0 n) ended (attempted env policy b n)"
  by (rule hoare_return) (auto simp: attempted_def intro!: exI [of _ n] settled_answer)

lemma attempted_gone: "\<not> quiet env \<Longrightarrow> hoare (tracked sinv out policy b n 0 0 n) ended (attempted env policy b n)"
  by (rule hoare_return) (auto simp: attempted_def intro!: exI [of _ n] settled_gone)

lemma cancelAttempt_tracked:
  assumes lease: "lease_token (rl_lease lease) = t" "t \<notin> b"
  shows "hoare (tracked sinv out policy (insert t b) n w h k) (cancelAttempt env sel lease sid url attempt reader)
    (\<lambda>r m. r = (None, True) \<and> tracked sinv out policy b n w h k m)"
  unfolding cancelAttempt_def
  apply (rule bind_keeps, intro keeps_rules)
  apply (rule bind_quiet_steps)
  apply (rule bind_reportClientCanceled [OF lease])
  apply (simp add: hoare_return)
  done

lemma cancelAttempt_attempted:
  assumes "\<not> quiet env" and lease: "lease_token (rl_lease lease) = t" "t \<notin> b"
  shows "hoare (tracked sinv out policy (insert t b) n 0 0 n) (cancelAttempt env sel lease sid url attempt reader) (attempted env policy b n)"
  by (rule hoare_post [OF cancelAttempt_tracked [OF lease]]) (use attempted_gone [OF assms(1)] in \<open>auto simp: hoare_def\<close>)

lemma requestPatchFailure_attempted:
  assumes lease: "lease_token (rl_lease lease) = t" "t \<notin> b"
  shows "hoare (tracked sinv out policy (insert t b) n 0 0 n) (requestPatchFailure env sel lease sid attempt url execution err)
    (attempted env policy b n)"
  unfolding requestPatchFailure_def Let_def
  apply (rule hoare_prod)
  apply (rule bind_keeps, intro keeps_rules)
  apply (rule hoare_bind [OF _ attempted_answered])
  apply (rule hoare_if; rule hoare_terminals [OF lease], assumption)
  done

lemma bind_request:
  assumes "\<And>q. rs_attemptsUsed q = n \<Longrightarrow> rs_policy q = policy \<Longrightarrow> hoare (tracked sinv out policy b n w h k) (g q) Q"
  shows "hoare (tracked sinv out policy b n w h k) (State_Monad.bind (read_state gx_request) g) Q"
proof (rule hoareI)
  fix m r m' assume t: "tracked sinv out policy b n w h k m" and "run_state (State_Monad.bind (read_state gx_request) g) m = (r, m')"
  then have "run_state (g (gx_request m)) m = (r, m')" by (simp add: read_state_def)
  with assms t show "Q r m'" unfolding tracked_def by (metis (lifting) assms hoareD t)
qed

lemma release_attempted:
  "hoare (after_call env policy b (n + 1) (r, transferred))
     (State_Monad.bind (if transferred then State_Monad.return () else release_client) (\<lambda>_. State_Monad.return r)) (attempted env policy b n)"
proof (rule hoareI)
  fix m r' m'
  assume a: "after_call env policy b (n + 1) (r, transferred) m"
    and run: "run_state (State_Monad.bind (if transferred then State_Monad.return () else release_client) (\<lambda>_. State_Monad.return r)) m = (r', m')"
  obtain x fin where r: "r = (x, fin)" by force
  have rel: "tracked sinv out policy b n' w (h - 1) k m'" if "tracked sinv out policy b n' w h k m" "\<not> transferred" for n' w h k
    using run that(2) hoareD [OF hoare_release_client that(1)] by (cases "run_state release_client m") auto
  have m: "m' = m" if transferred using run that by simp
  have r': "r' = r" using run by (auto split: prod.splits)
  show "attempted env policy b n r' m'"
  proof (cases fin)
    case True
    with a r have "settled env sinv out policy b (n + 1) 0 (if transferred then 0 else 1) (n + 1) m" by (simp add: after_call_def)
    then have "settled env sinv out policy b (n + 1) 0 0 (n + 1) m'"
      using m rel [where h = 1] by (cases transferred) (auto simp: settled_def)
    with True r r' show ?thesis by (auto simp: attempted_def intro!: exI [of _ "n + 1"])
  next
    case False
    with a r obtain f where f: "x = Some f" "pending f (n + 1) (if transferred then 1 else 0)" "tracked sinv out policy b (n + 1) 0 1 n m"
      by (auto simp: after_call_def)
    then have "tracked sinv out policy b (n + 1) 0 (if transferred then 1 else 0) n m'"
      using m rel [where h = 1] by (cases transferred) auto
    with f False r r' show ?thesis by (auto simp: attempted_def)
  qed
qed

lemma hoare_fact: "(C \<Longrightarrow> hoare P f Q) \<Longrightarrow> hoare (\<lambda>m. C \<and> P m) f Q"
  by (auto simp: hoare_def)

lemma call_provider_attempted:
  assumes lease: "lease_token (rl_lease lease) = t" "t \<notin> b"
  shows "hoare (tracked sinv out policy (insert t b) n 0 0 n) (call_provider env sel plan item lease sid url) (attempted env policy b n)"
  unfolding call_provider_def
  apply (rule bind_hold_client)
  apply (rule bind_canceled)
  apply (rule bind_request)
  apply (simp only: if_distrib [where f = "\<lambda>x. State_Monad.bind x g" for g] State_Monad.bind_left_identity State_Monad.bind_assoc prod.case)
  apply (rule hoare_if)
   apply (rule hoare_bind [OF cancelAttempt_tracked [OF lease]])
   apply (rule hoare_fact)
   apply (simp only: if_False)
   apply (rule bind_release_client)
   apply simp
   apply (rule attempted_gone, blast)
  apply (rule hoare_bind)
   apply (rule hoare_pre [OF call_upstream_after [where n = "n + 1", OF lease]], simp)
  apply (rule hoare_prod)
  apply (simp only:)
  apply (rule release_attempted [unfolded if_distrib [where f = "\<lambda>x. State_Monad.bind x g" for g] State_Monad.bind_left_identity])
  done

text \<open>A step that fails with a request patch error, and a check for cancellation, leave the attempt accounted for.\<close>

lemma executeAttempt_attempted:
  assumes lease: "lease_token (rl_lease lease) = t" "t \<notin> b" and provider: "al_Provider (rl_lease lease) = Some item"
  shows "hoare (tracked sinv out policy (insert t b) n 0 0 n) (executeAttempt env sel plan lease sid) (attempted env policy b n)"
proof -
  note patch = bind_quiet_steps hoare_option [rotated, OF requestPatchFailure_attempted [OF lease]]
  note gone = cancelAttempt_attempted [OF _ lease]
  note local = bind_terminals [OF lease attempted_answered]
  show ?thesis
    unfolding executeAttempt_def provider option.case Let_def
    apply (rule bind_request)
    apply (rule bind_canceled)
    apply (rule hoare_if)
     apply (rule bind_quiet_steps)
     apply (rule bind_reportClientCanceled [OF lease attempted_gone], blast)
    apply (rule hoare_sum)
     apply (rule local)
    apply (rule bind_quiet_steps, rule hoare_option [rotated], rule requestPatchFailure_attempted [OF lease])
    apply (rule bind_canceled, rule hoare_if, rule gone, blast)
    apply (rule bind_quiet_steps, rule hoare_option [rotated], rule requestPatchFailure_attempted [OF lease])
    apply (rule bind_canceled, rule hoare_if, rule gone, blast)
    apply (rule bind_quiet_steps, rule hoare_option [rotated], rule requestPatchFailure_attempted [OF lease])
    apply (rule bind_quiet_steps, rule hoare_option [rotated], rule bind_quiet_steps, rule local)
    apply (rule bind_quiet_steps, rule hoare_option [rotated], rule bind_quiet_steps, rule local)
    apply (rule bind_canceled, rule hoare_if, rule gone, blast)
    apply (rule bind_quiet_steps, rule hoare_option [rotated], rule bind_quiet_steps, rule bind_quiet_steps, rule local)
    apply (rule bind_canceled, rule hoare_if, rule gone, blast)
    apply (rule bind_quiet_steps, rule hoare_option [rotated], rule bind_quiet_steps, rule bind_quiet_steps, rule local)
    apply (rule call_provider_attempted [OF lease])
    done
qed

section \<open>The loop\<close>

lemma bind_acquire:
  assumes "token_room b"
    and "\<And>err. hoare (tracked sinv out policy b n w h k) (g (Inl err)) Q"
    and "\<And>l. al_Provider l \<noteq> None \<Longrightarrow> lease_token l \<notin> b \<Longrightarrow> hoare (tracked sinv out policy (insert (lease_token l) b) n w h k) (g (Inr l)) Q"
  shows "hoare (tracked sinv out policy b n w h k) (State_Monad.bind (acquire sel snap key) g) Q"
proof (rule hoareI)
  fix m r m' assume t: "tracked sinv out policy b n w h k m" and run: "run_state (State_Monad.bind (acquire sel snap key) g) m = (r, m')"
  obtain res q s where p: "sel_Acquire sel snap key (gx_request m) (gx_sel m) = (res, q, s)" by (metis prod_cases3)
  let ?m = "m\<lparr>gx_request := q, gx_sel := s\<rparr>"
  have run': "run_state (g res) ?m = (r, m')" using run p by (simp add: acquire_def)
  have ok: "sinv s \<and> rs_attemptsUsed q = rs_attemptsUsed (gx_request m) \<and> rs_policy q = rs_policy (gx_request m) \<and>
      (case res of Inl _ \<Rightarrow> out s = out (gx_sel m)
       | Inr l \<Rightarrow> al_Provider l \<noteq> None \<and> lease_token l \<notin> out (gx_sel m) \<and> out s = insert (lease_token l) (out (gx_sel m)))"
    by (rule acquire_ok [OF _ _ p]) (use t assms(1) in \<open>simp_all add: tracked_def\<close>)
  show "Q r m'"
  proof (cases res)
    case (Inl err)
    with ok t have "tracked sinv out policy b n w h k ?m" by (simp add: tracked_def answers_def forwards_def)
    with run' Inl show ?thesis using hoareD [OF assms(2)] by blast
  next
    case (Inr l)
    with ok t have "al_Provider l \<noteq> None" "lease_token l \<notin> b" "tracked sinv out policy (insert (lease_token l) b) n w h k ?m"
      by (simp_all add: tracked_def answers_def forwards_def)
    with run' Inr show ?thesis using hoareD [OF assms(3)] by blast
  qed
qed

text \<open>What holds between two rounds: nothing has been answered, and the last failure is pending.\<close>

definition between where
  "between policy b n prior m \<longleftrightarrow>
     (case prior of
        None \<Rightarrow> tracked sinv out policy b n 0 0 n m
      | Some f \<Rightarrow> \<exists>h. pending f n h \<and> tracked sinv out policy b n 0 h (n - 1) m)"

lemma hoare_between:
  assumes "\<And>h k. (case prior of None \<Rightarrow> h = 0 \<and> k \<le> n | Some f \<Rightarrow> pending f n h \<and> k < n) \<Longrightarrow> hoare (tracked sinv out policy b n 0 h k) g Q"
  shows "hoare (between policy b n prior) g Q"
proof (rule hoareI)
  fix m r m' assume m: "between policy b n prior m" and run: "run_state g m = (r, m')"
  show "Q r m'"
  proof (cases prior)
    case None
    with m have "tracked sinv out policy b n 0 0 n m" by (simp add: between_def)
    then show ?thesis by (intro hoareD [OF assms _ run, of 0 n]) (simp_all add: None)
  next
    case (Some f)
    with m obtain h where "pending f n h" "tracked sinv out policy b n 0 h (n - 1) m" by (auto simp: between_def)
    then show ?thesis by (intro hoareD [OF assms _ run, of h "n - 1"]) (simp_all add: Some)
  qed
qed

definition pooled where
  "pooled env policy b n r m \<longleftrightarrow>
     r = Some () \<and> (\<exists>n'. n \<le> n' \<and> n' \<le> max n (ap_MaxAttempts policy) \<and> settled env sinv out policy b n' 0 0 n' m)"

lemma settled_pooled: "hoare (settled env sinv out policy b n 0 0 n) (State_Monad.return (Some ())) (pooled env policy b n)"
  by (rule hoare_return) (auto simp: pooled_def)

lemma prior_recorded:
  assumes "case prior of None \<Rightarrow> h = 0 \<and> k \<le> n | Some f \<Rightarrow> pending f n h \<and> k < n" and "\<And>f. prior = Some f \<Longrightarrow> hoare (tracked sinv out policy b' n w h k) (act f) (\<lambda>_. tracked sinv out policy b' n w 0 n)"
  shows "hoare (tracked sinv out policy b' n w h k) (case prior of None \<Rightarrow> State_Monad.return () | Some f \<Rightarrow> act f)
     (\<lambda>_. tracked sinv out policy b' n w 0 n)"
  using assms by (cases prior) (auto intro!: hoare_return intro: tracked_mono)

lemma give_up_settles:
  assumes "\<not> quiet env" and prior: "case prior of None \<Rightarrow> h = 0 \<and> k \<le> n | Some f \<Rightarrow> pending f n h \<and> k < n"
  shows "hoare (tracked sinv out policy b n 0 h k) (give_up env plan prior a) (\<lambda>_. settled env sinv out policy b n 0 0 n)"
  unfolding give_up_def
  apply (rule hoare_gone [OF assms(1)])
  apply (rule prior_recorded [OF prior])
  subgoal for f
    using prior hoare_bind [OF recordCapturedFailure_tracked hoare_keeps [OF keeps_recordBetween], of f n h k] by simp
  done

lemma next_round:
  assumes "n < ap_MaxAttempts policy"
    and IH: "\<And>f. hoare (between policy b (n + 1) (Some f)) (loop (Some f)) (pooled env policy b (n + 1))"
  shows "hoare (attempted env policy b n r) (case r of (failure, fin) \<Rightarrow> if fin then State_Monad.return (Some ()) else loop failure)
    (pooled env policy b n)"
proof (rule hoareI)
  fix m x m'
  assume a: "attempted env policy b n r m"
    and run: "run_state (case r of (failure, fin) \<Rightarrow> if fin then State_Monad.return (Some ()) else loop failure) m = (x, m')"
  obtain failure fin where r: "r = (failure, fin)" by force
  show "pooled env policy b n x m'"
  proof (cases fin)
    case True
    with a run r obtain n' where "x = Some ()" "m' = m" "n \<le> n'" "n' \<le> n + 1" "settled env sinv out policy b n' 0 0 n' m"
      by (auto simp: attempted_def)
    with assms(1) show ?thesis by (auto simp: pooled_def intro!: exI [of _ n'])
  next
    case False
    with a r obtain f h where f: "failure = Some f" "pending f (n + 1) h" "tracked sinv out policy b (n + 1) 0 h n m"
      by (auto simp: attempted_def)
    then have "between policy b (n + 1) (Some f) m" by (auto simp: between_def)
    moreover have "run_state (loop (Some f)) m = (x, m')" using run r False f by simp
    ultimately have "pooled env policy b (n + 1) x m'" using hoareD [OF IH] by blast
    then obtain n' where "x = Some ()" "n + 1 \<le> n'" "n' \<le> max (n + 1) (ap_MaxAttempts policy)" "settled env sinv out policy b n' 0 0 n' m'"
      by (auto simp: pooled_def)
    with assms(1) show ?thesis by (auto simp: pooled_def intro!: exI [of _ n'])
  qed
qed

lemma selected_canceled:
  assumes "\<not> quiet env" and prior: "case prior of None \<Rightarrow> h = 0 \<and> k \<le> n | Some f \<Rightarrow> pending f n h \<and> k < n"
    and lease: "lease_token (rl_lease lease) = t" "t \<notin> b"
  shows "hoare (tracked sinv out policy (insert t b) n 0 h k)
    (State_Monad.bind (case prior of Some f \<Rightarrow> recordCapturedFailure env f | None \<Rightarrow> State_Monad.return ()) (\<lambda>_.
       State_Monad.bind (reportClientCanceled env sel lease sid [] 0 a) (\<lambda>_. State_Monad.return (Some ())))) (pooled env policy b n)"
  apply (rule hoare_bind [OF prior_recorded [OF prior]])
   apply (rule recordCapturedFailure_tracked)
  using prior apply simp_all
  apply (rule bind_reportClientCanceled [OF lease])
  apply (rule hoare_pre [OF settled_pooled])
  apply (erule settled_gone [OF assms(1)])
  done

lemma selected_attempted:
  assumes prior: "case prior of None \<Rightarrow> h = 0 \<and> k \<le> n | Some f \<Rightarrow> pending f n h \<and> k < n"
    and lease: "lease_token (rl_lease lease) = t" "t \<notin> b" and provider: "al_Provider (rl_lease lease) \<noteq> None"
  shows "hoare (tracked sinv out policy (insert t b) n 0 h k)
    (State_Monad.bind (case prior of Some f \<Rightarrow> recordContinuation env f lease a | None \<Rightarrow> State_Monad.return ()) (\<lambda>_.
       executeAttempt env sel plan lease sid)) (attempted env policy b n)"
proof -
  from provider obtain item where item: "al_Provider (rl_lease lease) = Some item" by blast
  show ?thesis
    apply (rule hoare_bind [OF prior_recorded [OF prior]])
     apply (rule recordContinuation_tracked [OF _ _ provider])
    using prior apply simp_all
    apply (rule executeAttempt_attempted [OF lease item])
    done
qed

lemma pool_loop_pooled:
  assumes "token_room b" and "nat (ap_MaxAttempts policy - n) < fuel"
  shows "hoare (between policy b n prior) (pool_loop env sel snap plan sticky fuel prior) (pooled env policy b n)"
  using assms(2)
proof (induction fuel arbitrary: n prior)
  case 0
  then show ?case by simp
next
  case (Suc fuel)
  show ?case
    unfolding pool_loop.simps Let_def
    apply (rule hoare_between)
    apply (rule bind_request)
    apply (rule hoare_if)
     apply (rule hoare_bind [OF finishCapturedFailure_settles settled_pooled], assumption)
    apply (rule bind_canceled)
    apply (rule hoare_if)
     apply (rule hoare_bind [OF give_up_settles settled_pooled], blast, assumption)
    apply (rule bind_acquire [OF assms(1)])
     apply (simp only: sum.case)
     apply (rule bind_canceled)
     apply (rule hoare_bind [OF _ settled_pooled])
     apply (rule hoare_if)
      apply (rule give_up_settles, blast, assumption)
     apply (rule finishCapturedFailure_settles, assumption)
    apply (simp only: sum.case)
    apply (rule bind_canceled)
    apply (simp only: simp_thms if_False)
    apply (rule hoare_if)
     apply (rule selected_canceled, blast, assumption, simp, assumption)
    apply (subst State_Monad.bind_assoc [symmetric])
    apply (rule hoare_bind [OF selected_attempted], assumption, simp, assumption, simp)
    apply (rule next_round)
     apply (simp add: HasBudget_def)
    apply (rule Suc.IH)
    using Suc.prems apply (simp add: HasBudget_def)
    done
qed

lemma NewRequestSelection_tracked:
  "tracked sinv out policy' b 0 w h k m \<Longrightarrow> tracked sinv out policy b 0 w h k (m\<lparr>gx_request := NewRequestSelection policy\<rparr>)"
  by (simp add: tracked_def answers_def forwards_def NewRequestSelection_def)

lemma forwardPool_pooled:
  assumes "token_room b"
  shows "hoare (tracked sinv out policy b 0 0 0 0) (forwardPool env sel snapshot plan policy) (pooled env policy b 0)"
proof -
  have pooled: "hoare (pooled env policy b 0 r) (State_Monad.bind (close_base env) (\<lambda>_. State_Monad.return r)) (pooled env policy b 0)" for r
  proof (rule hoareI)
    fix m x m' assume p: "pooled env policy b 0 r m" and run: "run_state (State_Monad.bind (close_base env) (\<lambda>_. State_Monad.return r)) m = (x, m')"
    obtain e m1 where c: "run_state (close_base env) m = (e, m1)" by force
    have "same m m1" using keeps_close_base [of env] c unfolding keeps_def by (metis snd_conv)
    with run c have "same m m'" "x = r" by simp_all
    with p tracked_same show "pooled env policy b 0 x m'" unfolding pooled_def settled_def by metis
  qed
  have answer: "hoare (tracked sinv out policy b 0 (Suc 0) 0 0) (State_Monad.return (Some ())) (pooled env policy b 0)"
    by (rule hoare_pre [OF settled_pooled settled_answer])
  show ?thesis
    unfolding forwardPool_def
    apply (rule bind_canceled)
    apply (rule hoare_bind [OF _ pooled])
    apply (rule hoare_if)
     apply (rule hoare_pre [OF settled_pooled], erule settled_gone [rotated], blast)
    apply (rule hoare_option)
     apply (rule bind_writeError [OF answer])
    apply (rule hoare_if)
     apply (rule bind_keeps [OF keeps_record_event], simp)
     apply (rule bind_writeError [OF answer])
    apply (rule hoare_if)
     apply (rule bind_quiet_steps)
     apply (rule bind_writeError [OF answer])
    apply (rule hoare_bind [where R = "\<lambda>_. between policy b 0 None"])
     apply (simp add: hoare_def modify_def between_def NewRequestSelection_tracked)
    apply (rule pool_loop_pooled [OF assms], simp)
    done
qed

section \<open>Background readers\<close>

lemma background_goroutine_tracked:
  assumes "rl_control (cf_lease f) \<noteq> None" and "ev_Kind e \<noteq> EventForward"
  shows "hoare (tracked sinv out policy b n w h k) (background_goroutine env sel f e) (\<lambda>_. tracked sinv out policy b n w (h - 1) k)"
  using assms(1)
  unfolding background_goroutine_def
  apply (cases "rl_control (cf_lease f)")
   apply simp
  apply (simp only: option.case)
  apply (rule bind_quiet_steps)
  apply (rule hoare_prod)
  apply (rule hoare_prod_app)
  apply (rule hoare_bind [OF fillFailure_tracked [OF assms(2)] hoare_release_client])
  done

lemma finish_tasks_tracked:
  assumes "\<forall>(f, e) \<in> set tasks. rl_control (cf_lease f) \<noteq> None \<and> ev_Kind e \<noteq> EventForward"
  shows "hoare (tracked sinv out policy b n w (int (length tasks) + h) k)
    (foldr (\<lambda>(f, event) rest. do { background_goroutine env sel f event; rest }) tasks (State_Monad.return ()))
    (\<lambda>_. tracked sinv out policy b n w h k)"
  using assms
proof (induction tasks)
  case Nil
  then show ?case by (simp add: hoare_return)
next
  case (Cons task tasks)
  obtain f e where task: "task = (f, e)" by force
  have "hoare (tracked sinv out policy b n w (int (length (task # tasks)) + h) k) (background_goroutine env sel f e)
      (\<lambda>_. tracked sinv out policy b n w (int (length tasks) + h) k)"
    using background_goroutine_tracked [of f e policy b n w "int (length (task # tasks)) + h" k env] Cons.prems task by simp
  from hoare_bind [OF this Cons.IH] Cons.prems task show ?case by simp
qed

lemma finish_background_tracked:
  assumes "tracked sinv out policy b n w h k m" and "run_state (finish_background env sel) m = (r, m')"
  shows "tracked sinv out policy b n w h k m'"
proof -
  let ?m = "m\<lparr>gx_background := []\<rparr>"
  have "tracked sinv out policy b n w (int (length (gx_background m)) + h) k ?m"
    using assms(1) by (simp add: tracked_def answers_def forwards_def)
  moreover have "\<forall>(f, e) \<in> set (gx_background m). rl_control (cf_lease f) \<noteq> None \<and> ev_Kind e \<noteq> EventForward"
    using assms(1) by (simp add: tracked_def)
  moreover have "run_state (foldr (\<lambda>(f, event) rest. do { background_goroutine env sel f event; rest }) (gx_background m)
      (State_Monad.return ())) ?m = (r, m')"
    using assms(2) by (simp add: finish_background_def read_state_def modify_def)
  ultimately show ?thesis using hoareD [OF finish_tasks_tracked] by blast
qed

end

end
