(* ===== verification/Selector_Trace.thy ===== *)
theory Selector_Trace
  imports Selector_Interface
begin

text \<open>
  The questions one selection puts to the health controller, as a list of providers and
  decisions: which providers a pass, a tier and the loop over all tiers ask, in which
  order, and what their answers were when the selection ends.
\<close>

section \<open>The calls of one selection\<close>

fun calls ::
  "'h HealthController \<Rightarrow> StickyKey \<Rightarrow> 'h \<Rightarrow> (CompiledProvider \<times> HealthDecision) list \<Rightarrow> 'h \<Rightarrow> bool" where
  "calls hc key h [] h' \<longleftrightarrow> h' = h"
| "calls hc key h ((item, dec) # log) h' \<longleftrightarrow>
     (\<exists>h1. hc_Acquire hc (health_key key item) (cp_DisableHealth item) h = Some (dec, h1) \<and> calls hc key h1 log h')"

lemma calls_append: "calls hc key h (l1 @ l2) h'' \<longleftrightarrow> (\<exists>h'. calls hc key h l1 h' \<and> calls hc key h' l2 h'')"
  by (induction hc key h l1 h'' rule: calls.induct) auto

definition cooling_down :: "HealthDecision \<Rightarrow> bool" where
  "cooling_down d \<longleftrightarrow> hd_GlobalState d = GlobalCooldown \<or> hd_ChannelState d = ChannelCooldown"

definition refused :: "(CompiledProvider \<times> HealthDecision) list \<Rightarrow> bool" where
  "refused log \<longleftrightarrow> (\<forall>(i, d) \<in> set log. \<not> hd_Available d)"

lemma refused_simps [simp]:
  "refused []" "refused ((i, d) # log) \<longleftrightarrow> \<not> hd_Available d \<and> refused log"
  "refused (l1 @ l2) \<longleftrightarrow> refused l1 \<and> refused l2"
  by (auto simp: refused_def)

definition note_retry :: "gotime \<Rightarrow> HealthDecision \<Rightarrow> gotime" where
  "note_retry earliest d =
     (case hd_RetryAt d of Some t \<Rightarrow> if earliest = 0 \<or> t < earliest then t else earliest | None \<Rightarrow> earliest)"

definition retries :: "gotime \<Rightarrow> (CompiledProvider \<times> HealthDecision) list \<Rightarrow> gotime" where
  "retries earliest log = foldl note_retry earliest (map snd log)"

lemma retries_simps [simp]:
  "retries t [] = t" "retries t ((i, d) # log) = retries (note_retry t d) log"
  "retries t (l1 @ l2) = retries (retries t l1) l2"
  by (simp_all add: retries_def)

text \<open>
  A log that ends without a selection (the flag tells whether some provider was refused
  for another reason than a cooldown), or with the provider that was selected.
\<close>

definition gave_up :: "'h HealthController \<Rightarrow> StickyKey \<Rightarrow> 'h scan \<Rightarrow> (CompiledProvider \<times> HealthDecision) list \<Rightarrow> 'h scan \<Rightarrow> bool" where
  "gave_up hc key sc log sc' \<longleftrightarrow> calls hc key (scan_health sc) log (scan_health sc') \<and> refused log \<and>
     scan_blocked sc' = (scan_blocked sc \<or> (\<exists>(i, d) \<in> set log. \<not> cooling_down d)) \<and>
     scan_earliest sc' = retries (scan_earliest sc) log"

definition chose ::
  "'h HealthController \<Rightarrow> StickyKey \<Rightarrow> 'h \<Rightarrow> (CompiledProvider \<times> HealthDecision) list \<Rightarrow> candidateSelection \<Rightarrow> 'h \<Rightarrow> bool" where
  "chose hc key h log sel h' \<longleftrightarrow> (\<exists>d. calls hc key h (log @ [(sel_provider sel, d)]) h' \<and> refused log \<and>
     hd_Available d \<and> hd_Lease d = sel_healthLease sel)"

lemma gave_up_refl: "gave_up hc key sc [] sc"
  by (simp add: gave_up_def)

lemma gave_up_trans: "gave_up hc key sc l1 sc1 \<Longrightarrow> gave_up hc key sc1 l2 sc2 \<Longrightarrow> gave_up hc key sc (l1 @ l2) sc2"
  by (auto simp: gave_up_def calls_append)

lemma gave_up_chose: "gave_up hc key sc l1 sc1 \<Longrightarrow> chose hc key (scan_health sc1) l2 sel h' \<Longrightarrow>
    chose hc key (scan_health sc) (l1 @ l2) sel h'"
  by (auto simp: gave_up_def chose_def calls_append)

lemma try_acquire_refused:
  "try_acquire hc key item sc = Some (None, sc') \<Longrightarrow> \<exists>d. gave_up hc key sc [(item, d)] sc'"
  by (auto simp: try_acquire_def gave_up_def cooling_down_def note_retry_def Let_def split: option.splits if_splits prod.splits)

lemma try_acquire_granted:
  "try_acquire hc key item sc = Some (Some l, sc') \<Longrightarrow> sel_provider sel = item \<Longrightarrow> sel_healthLease sel = l \<Longrightarrow>
     chose hc key (scan_health sc) [] sel (scan_health sc')"
  by (auto simp: try_acquire_def chose_def Let_def split: option.splits if_splits prod.splits)

abbreviation due :: "RequestSelection \<Rightarrow> bool \<Rightarrow> CompiledProvider list \<Rightarrow> CompiledProvider list" where
  "due request again items \<equiv> filter (\<lambda>i. visited_at request (cp_ID i) = again) items"

text \<open>The first provider of a pass that is due and refuses is followed by the rest of the pass.\<close>

lemma tier_pass_step:
  assumes "tier_pass hc key request reason again (item # items) sc = Some r" and "visited_at request (cp_ID item) = again"
  obtains (granted) l sc1 where "try_acquire hc key item sc = Some (Some l, sc1)"
      and "r = (Some \<lparr> sel_provider = item, sel_healthLease = l, sel_reason = reason, sel_newRound = again \<rparr>, sc1)"
  | (refused) d sc1 where "gave_up hc key sc [(item, d)] sc1" and "tier_pass hc key request reason again items sc1 = Some r"
proof (cases "try_acquire hc key item sc")
  case (Some t)
  obtain lo sc1 where t: "t = (lo, sc1)" by force
  show thesis
  proof (cases lo)
    case None
    with Some t assms try_acquire_refused [of hc key item sc sc1] refused show thesis by auto
  next
    case (Some l)
    with \<open>try_acquire hc key item sc = Some t\<close> t assms granted show thesis by simp
  qed
qed (use assms in simp)

lemma tier_pass_gave_up:
  "tier_pass hc key request reason again items sc = Some (None, sc') \<Longrightarrow>
     \<exists>log. gave_up hc key sc log sc' \<and> map fst log = due request again items"
proof (induction items arbitrary: sc)
  case (Cons item items)
  show ?case
  proof (cases "visited_at request (cp_ID item) = again")
    case True
    with Cons.prems show ?thesis
    proof (cases rule: tier_pass_step)
      case (refused d sc1)
      from Cons.IH [OF refused(2)] obtain log where
        "gave_up hc key sc1 log sc'" "map fst log = due request again items" by blast
      with gave_up_trans [OF refused(1), of log sc'] True show ?thesis by (auto intro!: exI [of _ "(item, d) # log"])
    qed simp
  qed (use Cons in simp)
qed (auto intro!: gave_up_refl)

lemma tier_pass_chose:
  "tier_pass hc key request reason again items sc = Some (Some sel, sc') \<Longrightarrow>
     \<exists>log rest. chose hc key (scan_health sc) log sel (scan_health sc') \<and>
       map fst log @ sel_provider sel # rest = due request again items \<and> sel_reason sel = reason \<and> sel_newRound sel = again"
proof (induction items arbitrary: sc)
  case (Cons item items)
  show ?case
  proof (cases "visited_at request (cp_ID item) = again")
    case True
    with Cons.prems show ?thesis
    proof (cases rule: tier_pass_step)
      case (granted l sc1)
      then have "chose hc key (scan_health sc) [] sel (scan_health sc')"
        by (intro try_acquire_granted [where item = item and l = l]) simp_all
      with granted(2) True show ?thesis by (intro exI [of _ "[]"] exI [of _ "due request again items"]) simp
    next
      case (refused d sc1)
      from Cons.IH [OF refused(2)] obtain log rest where
        "chose hc key (scan_health sc1) log sel (scan_health sc')"
        "map fst log @ sel_provider sel # rest = due request again items" "sel_reason sel = reason" "sel_newRound sel = again"
        by blast
      with gave_up_chose [OF refused(1), of log sel "scan_health sc'"] True show ?thesis
        by (auto intro!: exI [of _ "(item, d) # log"])
    qed
  qed (use Cons in simp)
qed simp

lemma sticky_pass_cases:
  assumes "sticky_pass hc key request members sc = Some (sel, sc')"
  obtains (skipped) "sel = None" and "sc' = sc"
  | (refused) item d where "sel = None" and "gave_up hc key sc [(item, d)] sc'" and "item \<in> set members"
      and "rs_stickyPhase request = stickyRetryActive"
  | (granted) s where "sel = Some s" and "chose hc key (scan_health sc) [] s (scan_health sc')" and "sel_provider s \<in> set members"
      and "sel_reason s = candidateStickyRetry" and "\<not> sel_newRound s" and "rs_stickyPhase request = stickyRetryActive"
      and "cp_DisableHealth (sel_provider s)" and "cp_ID (sel_provider s) = src_ProviderID (rs_source request)"
proof (cases "rs_stickyPhase request = stickyRetryActive \<and>
    (\<exists>item. findCandidate members (src_ProviderID (rs_source request)) (src_Generation (rs_source request)) = Some item \<and>
       cp_DisableHealth item)")
  case False
  then have "sel = None" "sc' = sc" using assms by (auto simp: sticky_pass_def split: option.splits if_splits)
  then show thesis by (rule skipped)
next
  case True
  then obtain item where item: "findCandidate members (src_ProviderID (rs_source request)) (src_Generation (rs_source request)) = Some item"
    "cp_DisableHealth item" "rs_stickyPhase request = stickyRetryActive" by blast
  have m: "item \<in> set members" "cp_ID item = src_ProviderID (rs_source request)"
    using item(1) by (auto simp: findCandidate_def find_Some_iff)
  obtain lo sc1 where t: "try_acquire hc key item sc = Some (lo, sc1)"
    using assms item by (auto simp: sticky_pass_def split: option.splits)
  show thesis
  proof (cases lo)
    case None
    with assms item t have "sel = None" "sc' = sc1" by (auto simp: sticky_pass_def)
    with None t m item(3) try_acquire_refused [of hc key item sc sc1] refused show thesis by auto
  next
    case (Some l)
    let ?s = "\<lparr> sel_provider = item, sel_healthLease = l, sel_reason = candidateStickyRetry, sel_newRound = False \<rparr>"
    have s: "sel = Some ?s" "sc' = sc1" using assms item t Some by (auto simp: sticky_pass_def)
    have "chose hc key (scan_health sc) [] ?s (scan_health sc1)"
      using t Some by (intro try_acquire_granted [where item = item and l = l]) simp_all
    with s m item granted [of ?s] show thesis by simp
  qed
qed

section \<open>One tier\<close>

lemma tier_gave_up:
  assumes "selectInTierLocked hc key request members reason t h = Some (None, sc)"
  shows "\<exists>log. gave_up hc key \<lparr> scan_earliest = t, scan_blocked = False, scan_health = h \<rparr> log sc \<and>
    fst ` set log = set members \<and> (rs_stickyPhase request \<noteq> stickyRetryActive \<and> rs_visited request = [] \<longrightarrow> map fst log = members)"
proof -
  let ?sc0 = "\<lparr> scan_earliest = t, scan_blocked = False, scan_health = h \<rparr>"
  obtain sc1 sc2 where p0: "sticky_pass hc key request members ?sc0 = Some (None, sc1)"
    and p1: "tier_pass hc key request reason False members sc1 = Some (None, sc2)"
    and p2: "tier_pass hc key request reason True members sc2 = Some (None, sc)"
    using assms by (auto simp: selectInTierLocked_def split: option.splits)
  obtain l0 where l0: "gave_up hc key ?sc0 l0 sc1" "fst ` set l0 \<subseteq> set members"
    "rs_stickyPhase request \<noteq> stickyRetryActive \<Longrightarrow> l0 = []"
    using p0
  proof (cases rule: sticky_pass_cases)
    case skipped
    then show thesis by (intro that [of "[]"]) (simp_all add: gave_up_refl)
  next
    case (refused item d)
    then show thesis by (intro that [of "[(item, d)]"]) simp_all
  qed simp
  obtain l1 where l1: "gave_up hc key sc1 l1 sc2" "map fst l1 = due request False members"
    using tier_pass_gave_up [OF p1] by blast
  obtain l2 where l2: "gave_up hc key sc2 l2 sc" "map fst l2 = due request True members"
    using tier_pass_gave_up [OF p2] by blast
  have set: "fst ` set l1 = set (due request False members)" "fst ` set l2 = set (due request True members)"
    using l1(2) l2(2) by (metis set_map)+
  have fresh: "due request False members = members \<and> due request True members = []" if "rs_visited request = []"
    using that by (auto simp: visited_at_def filter_id_conv filter_empty_conv)
  show ?thesis
    using gave_up_trans [OF gave_up_trans [OF l0(1) l1(1)] l2(1)] l0(2,3) l1(2) l2(2) fresh set
    by (intro exI [of _ "(l0 @ l1) @ l2"]) (auto simp: image_Un)
qed

lemma tier_chose:
  assumes "selectInTierLocked hc key request members reason t h = Some (Some sel, sc)"
  shows "\<exists>log. chose hc key h log sel (scan_health sc) \<and> sel_provider sel \<in> set members \<and> fst ` set log \<subseteq> set members \<and>
    (rs_stickyPhase request \<noteq> stickyRetryActive \<and> rs_visited request = [] \<longrightarrow>
       (\<exists>rest. map fst log @ sel_provider sel # rest = members)) \<and>
    (rs_stickyPhase request \<noteq> stickyRetryActive \<longrightarrow> sel_reason sel = reason)"
proof -
  let ?sc0 = "\<lparr> scan_earliest = t, scan_blocked = False, scan_health = h \<rparr>"
  have fresh: "due request False members = members \<and> due request True members = []" if "rs_visited request = []"
    using that by (auto simp: visited_at_def filter_id_conv filter_empty_conv)
  obtain s0 sc1 where p0: "sticky_pass hc key request members ?sc0 = Some (s0, sc1)"
    using assms by (auto simp: selectInTierLocked_def split: option.splits)
  have main: ?thesis if g0: "gave_up hc key ?sc0 l0 sc1" "fst ` set l0 \<subseteq> set members"
      "rs_stickyPhase request \<noteq> stickyRetryActive \<Longrightarrow> l0 = []" "s0 = None" for l0
  proof -
    obtain s1 sc2 where p1: "tier_pass hc key request reason False members sc1 = Some (s1, sc2)"
      using assms p0 g0(4) by (auto simp: selectInTierLocked_def split: option.splits)
    show ?thesis
    proof (cases s1)
      case (Some s)
      then have "tier_pass hc key request reason False members sc1 = Some (Some sel, sc)"
        using assms p0 p1 g0(4) by (simp add: selectInTierLocked_def)
      from tier_pass_chose [OF this] obtain l1 rest where l1: "chose hc key (scan_health sc1) l1 sel (scan_health sc)"
        "map fst l1 @ sel_provider sel # rest = due request False members" "sel_reason sel = reason" by blast
      have "set (map fst l1 @ sel_provider sel # rest) \<subseteq> set members" unfolding l1(2) by auto
      then have "sel_provider sel \<in> set members" "fst ` set l1 \<subseteq> set members" by simp_all
      with gave_up_chose [OF g0(1) l1(1)] l1(2,3) g0(2,3) fresh show ?thesis
        by (intro exI [of _ "l0 @ l1"]) (auto intro!: exI [of _ rest])
    next
      case None
      then have p2: "tier_pass hc key request reason True members sc2 = Some (Some sel, sc)"
        using assms p0 p1 g0(4) by (simp add: selectInTierLocked_def)
      obtain l1 where l1: "gave_up hc key sc1 l1 sc2" "map fst l1 = due request False members"
        using tier_pass_gave_up p1 None by blast
      from tier_pass_chose [OF p2] obtain l2 rest where l2: "chose hc key (scan_health sc2) l2 sel (scan_health sc)"
        "map fst l2 @ sel_provider sel # rest = due request True members" "sel_reason sel = reason" by blast
      have "set (map fst l2 @ sel_provider sel # rest) \<subseteq> set members" unfolding l2(2) by auto
      then have sub: "sel_provider sel \<in> set members" "fst ` set l2 \<subseteq> set members" by simp_all
      have "fst ` set l1 \<subseteq> set members" using arg_cong [OF l1(2), of set] by auto
      with sub gave_up_chose [OF gave_up_trans [OF g0(1) l1(1)] l2(1)] l2(2,3) g0(2) fresh show ?thesis
        by (intro exI [of _ "(l0 @ l1) @ l2"]) auto
    qed
  qed
  from p0 show ?thesis
  proof (cases rule: sticky_pass_cases)
    case skipped
    then show ?thesis by (intro main [of "[]"]) (simp_all add: gave_up_refl)
  next
    case (refused item d)
    then show ?thesis by (intro main [of "[(item, d)]"]) simp_all
  next
    case (granted s)
    with assms p0 show ?thesis
      by (intro exI [of _ "[]"]) (auto simp: selectInTierLocked_def)
  qed
qed

section \<open>All tiers\<close>

lemma by_priority_split:
  assumes "by_priority (x # ys)"
  shows "x # ys = (x # takeWhile (\<lambda>y. cp_Priority y = cp_Priority x) ys) @ dropWhile (\<lambda>y. cp_Priority y = cp_Priority x) ys"
    and "by_priority (dropWhile (\<lambda>y. cp_Priority y = cp_Priority x) ys)"
    and "\<forall>z \<in> set (dropWhile (\<lambda>y. cp_Priority y = cp_Priority x) ys). cp_Priority z < cp_Priority x"
proof -
  let ?d = "dropWhile (\<lambda>y. cp_Priority y = cp_Priority x) ys"
  show eq: "x # ys = (x # takeWhile (\<lambda>y. cp_Priority y = cp_Priority x) ys) @ ?d" by simp
  have s: "by_priority ys" using assms by simp
  then show d: "by_priority ?d" by (metis sorted_wrt_append takeWhile_dropWhile_id)
  show "\<forall>z \<in> set ?d. cp_Priority z < cp_Priority x"
  proof (cases ?d)
    case (Cons z zs)
    have "cp_Priority z \<noteq> cp_Priority x" using Cons by (metis (mono_tags) dropWhile_eq_Cons_conv)
    moreover have "z \<in> set ys" using Cons by (metis list.set_intros(1) set_dropWhileD)
    then have "cp_Priority z \<le> cp_Priority x" using assms by simp
    ultimately have "cp_Priority z < cp_Priority x" by simp
    with d Cons show ?thesis by auto
  next
    case Nil
    show ?thesis unfolding Nil by simp
  qed
qed

abbreviation fresh_request :: "RequestSelection \<Rightarrow> bool" where
  "fresh_request r \<equiv> rs_stickyPhase r \<noteq> stickyRetryActive \<and> rs_visited r = []"

text \<open>One round of the loop over the tiers.\<close>

lemma tier_loop_step:
  assumes "tier_loop hc key request reason (x # ys) t h = Some (sel, t', h')"
  defines "g \<equiv> x # takeWhile (\<lambda>y. cp_Priority y = cp_Priority x) ys"
  obtains (chosen) s sc where "sel = Some (s, g)" and "h' = scan_health sc"
      and "selectInTierLocked hc key request g reason t h = Some (Some s, sc)"
  | (blocked) sc where "sel = None" and "selectInTierLocked hc key request g reason t h = Some (None, sc)"
      and "scan_blocked sc" and "h' = scan_health sc" and "t' = scan_earliest sc"
  | (onward) sc where "selectInTierLocked hc key request g reason t h = Some (None, sc)" and "\<not> scan_blocked sc"
      and "tier_loop hc key request reason (dropWhile (\<lambda>y. cp_Priority y = cp_Priority x) ys) (scan_earliest sc)
             (scan_health sc) = Some (sel, t', h')"
proof -
  have "\<exists>so sc. selectInTierLocked hc key request g reason t h = Some (so, sc)"
    using assms by (auto simp: Let_def split: option.splits)
  then obtain so sc where s: "selectInTierLocked hc key request g reason t h = Some (so, sc)" by blast
  show thesis
  proof (cases so)
    case None
    with assms s blocked onward show thesis by (auto simp: Let_def split: if_splits)
  next
    case (Some s')
    with assms s chosen show thesis by (auto simp: Let_def)
  qed
qed

lemma gave_up_unblocked:
  "gave_up hc key \<lparr>scan_earliest = t, scan_blocked = False, scan_health = h\<rparr> log sc \<Longrightarrow> \<not> scan_blocked sc \<Longrightarrow>
     (i, d) \<in> set log \<Longrightarrow> cooling_down d"
  by (auto simp: gave_up_def)

text \<open>
  Without a selection everything that was asked refused, and unless a busy probe stopped
  the search every candidate was asked.
\<close>

lemma tier_loop_gave_up:
  "tier_loop hc key request reason xs t h = Some (None, t', h') \<Longrightarrow>
    \<exists>log. calls hc key h log h' \<and> refused log \<and> t' = retries t log \<and> fst ` set log \<subseteq> set xs \<and>
      (fst ` set log = set xs \<or> (\<exists>(i, d) \<in> set log. \<not> cooling_down d)) \<and>
      (fresh_request request \<longrightarrow> (\<exists>rest. map fst log @ rest = xs))"
proof (induction "length xs" arbitrary: xs t h rule: less_induct)
  case less
  show ?case
  proof (cases xs)
    case Nil
    with less.prems show ?thesis by (intro exI [of _ "[]"]) auto
  next
    case (Cons x ys)
    let ?g = "x # takeWhile (\<lambda>y. cp_Priority y = cp_Priority x) ys"
    let ?rest = "dropWhile (\<lambda>y. cp_Priority y = cp_Priority x) ys"
    have xs: "xs = ?g @ ?rest" by (simp add: Cons)
    from less.prems [unfolded Cons] show ?thesis
    proof (cases rule: tier_loop_step)
      case (blocked sc)
      from tier_gave_up [OF blocked(2)] obtain log where log:
        "gave_up hc key \<lparr>scan_earliest = t, scan_blocked = False, scan_health = h\<rparr> log sc" "fst ` set log = set ?g"
        "fresh_request request \<longrightarrow> map fst log = ?g" by (elim exE conjE) (rule that)
      with blocked show ?thesis
        by (intro exI [of _ log]) (auto simp: gave_up_def xs simp del: takeWhile_dropWhile_id)
    next
      case (onward sc)
      from tier_gave_up [OF onward(1)] obtain l1 where l1:
        "gave_up hc key \<lparr>scan_earliest = t, scan_blocked = False, scan_health = h\<rparr> l1 sc" "fst ` set l1 = set ?g"
        "fresh_request request \<longrightarrow> map fst l1 = ?g" by (elim exE conjE) (rule that)
      have "length ?rest < length xs" by (simp add: Cons length_dropWhile_le le_imp_less_Suc)
      from less.hyps [OF this onward(3)] obtain l2 where l2: "calls hc key (scan_health sc) l2 h'" "refused l2"
        "t' = retries (scan_earliest sc) l2" "fst ` set l2 \<subseteq> set ?rest"
        "fst ` set l2 = set ?rest \<or> (\<exists>(i, d) \<in> set l2. \<not> cooling_down d)"
        "fresh_request request \<longrightarrow> (\<exists>rest. map fst l2 @ rest = ?rest)" by blast
      have set: "set xs = set ?g \<union> set ?rest" by (subst xs) (simp only: set_append)
      have asked: "fst ` set (l1 @ l2) = set ?g \<union> fst ` set l2" by (simp only: set_append image_Un l1(2))
      have "calls hc key h (l1 @ l2) h'" "refused (l1 @ l2)" "t' = retries t (l1 @ l2)"
        using l1(1) l2(1-3) by (auto simp: gave_up_def calls_append)
      moreover have "fst ` set (l1 @ l2) \<subseteq> set xs" unfolding asked set using l2(4) by blast
      moreover have "fst ` set (l1 @ l2) = set xs \<or> (\<exists>(i, d) \<in> set (l1 @ l2). \<not> cooling_down d)"
        unfolding asked set using l2(5) by (metis (no_types, lifting) UnCI set_append)
      moreover have "\<exists>rest. map fst (l1 @ l2) @ rest = xs" if "fresh_request request"
        using l1(3) l2(6) that xs by (metis append.assoc map_append)
      ultimately show ?thesis by (intro exI [of _ "l1 @ l2"] conjI impI)
    qed simp
  qed
qed

text \<open>With a selection every candidate of a higher priority was asked and is cooling down.\<close>

lemma tier_loop_chose:
  assumes "by_priority xs" and "tier_loop hc key request reason xs t h = Some (Some (s, g), t', h')"
  shows "\<exists>log. chose hc key h log s h' \<and> fst ` set log \<subseteq> set xs \<and> sel_provider s \<in> set xs \<and> set g \<subseteq> set xs \<and>
    (\<forall>y \<in> set xs. cp_Priority y > cp_Priority (sel_provider s) \<longrightarrow> (\<exists>d. (y, d) \<in> set log \<and> cooling_down d)) \<and>
    (fresh_request request \<longrightarrow> (\<exists>rest. map fst log @ sel_provider s # rest = xs)) \<and>
    (rs_stickyPhase request \<noteq> stickyRetryActive \<longrightarrow> sel_reason s = reason)"
  using assms
proof (induction "length xs" arbitrary: xs t h rule: less_induct)
  case less
  show ?case
  proof (cases xs)
    case (Cons x ys)
    let ?g = "x # takeWhile (\<lambda>y. cp_Priority y = cp_Priority x) ys"
    let ?rest = "dropWhile (\<lambda>y. cp_Priority y = cp_Priority x) ys"
    have xs: "xs = ?g @ ?rest" by (simp add: Cons)
    have set: "set xs = set ?g \<union> set ?rest" by (subst xs) (simp only: set_append)
    note split = by_priority_split [OF less.prems(1) [unfolded Cons]]
    have prio: "cp_Priority y = cp_Priority x" if "y \<in> set ?g" for y using that by (auto dest: set_takeWhileD)
    from less.prems(2) [unfolded Cons] show ?thesis
    proof (cases rule: tier_loop_step)
      case (chosen s' sc)
      then have g: "g = ?g" "s' = s" by simp_all
      from tier_chose [OF chosen(3)] obtain log where log: "chose hc key h log s (scan_health sc)"
        "sel_provider s \<in> set ?g" "fst ` set log \<subseteq> set ?g"
        "fresh_request request \<longrightarrow> (\<exists>rest. map fst log @ sel_provider s # rest = ?g)"
        "rs_stickyPhase request \<noteq> stickyRetryActive \<longrightarrow> sel_reason s = reason" unfolding g by blast
      have top: "\<not> cp_Priority y > cp_Priority (sel_provider s)" if "y \<in> set xs" for y
        using that split(3) prio [OF log(2)] prio [of y] unfolding set by fastforce
      have pre: "\<exists>rest. map fst log @ sel_provider s # rest = xs" if "fresh_request request"
        using log(4) that xs by (metis append.assoc append_Cons)
      show ?thesis
        using log top pre g(1) set chosen(2) by (intro exI [of _ log]) blast
    next
      case (onward sc)
      from tier_gave_up [OF onward(1)] obtain l1 where l1:
        "gave_up hc key \<lparr>scan_earliest = t, scan_blocked = False, scan_health = h\<rparr> l1 sc" "fst ` set l1 = set ?g"
        "fresh_request request \<longrightarrow> map fst l1 = ?g" by (elim exE conjE) (rule that)
      have "length ?rest < length xs" by (simp add: Cons length_dropWhile_le le_imp_less_Suc)
      from less.hyps [OF this split(2) onward(3)] obtain l2 where l2: "chose hc key (scan_health sc) l2 s h'"
        "fst ` set l2 \<subseteq> set ?rest" "sel_provider s \<in> set ?rest" "set g \<subseteq> set ?rest"
        "\<forall>y \<in> set ?rest. cp_Priority y > cp_Priority (sel_provider s) \<longrightarrow> (\<exists>d. (y, d) \<in> set l2 \<and> cooling_down d)"
        "fresh_request request \<longrightarrow> (\<exists>rest. map fst l2 @ sel_provider s # rest = ?rest)"
        "rs_stickyPhase request \<noteq> stickyRetryActive \<longrightarrow> sel_reason s = reason" by blast
      have asked: "\<exists>d. (y, d) \<in> set l1 \<and> cooling_down d" if "y \<in> set ?g" for y
        using l1(2) that gave_up_unblocked [OF l1(1) onward(2)] by (metis (no_types, lifting) image_iff prod.collapse)
      have pre: "\<exists>rest. map fst (l1 @ l2) @ sel_provider s # rest = xs" if "fresh_request request"
        using l1(3) l2(6) that xs by (metis append.assoc map_append)
      have "chose hc key h (l1 @ l2) s h'" using gave_up_chose [OF l1(1), of l2 s h'] l2(1) by simp
      moreover have "fst ` set (l1 @ l2) \<subseteq> set xs" unfolding set set_append image_Un l1(2) using l2(2) by blast
      moreover have "\<forall>y \<in> set xs. cp_Priority y > cp_Priority (sel_provider s) \<longrightarrow>
          (\<exists>d. (y, d) \<in> set (l1 @ l2) \<and> cooling_down d)"
        unfolding set using l2(5) asked by (metis UnCI UnE set_append)
      moreover have "sel_provider s \<in> set xs" "set g \<subseteq> set xs" using l2(3,4) unfolding set by blast+
      ultimately show ?thesis using pre l2(7) by (intro exI [of _ "l1 @ l2"] conjI impI) blast+
    qed simp
  qed (use less in simp)
qed

end
