(* ===== verification/Health_Entry.thy ===== *)
theory Health_Entry
  imports Scheduler_Contracts Text_Limit
begin

text \<open>
  The circuit breaker of one health record (\<open>internal/health/store.go\<close>, type \<open>stateEntry\<close> and
  the functions that work on one entry). A provider scope owns one global entry and one
  entry per model and request type. A method on \<open>*stateEntry\<close> is a function from the entry
  to the entry; the clock reading \<open>now\<close> and the store's policy are arguments.
\<close>

section \<open>The entry\<close>

datatype machineState =
  stateUnknown | stateHealthy | stateDegraded | stateCooldown | stateHalfOpen | stateDisabled

record stateEntry =
  se_observation :: u64
  se_lastErrorPending :: bool
  se_lastErrorIncomplete :: bool
  se_lastErrorTruncated :: bool
  se_state :: machineState
  se_backoffLevel :: int
  se_consecutiveFailures :: int
  se_observedFailures :: u64
  se_lastHealthFailure :: gotime
  se_cooldownUntil :: gotime
  se_lastSuccessAt :: gotime
  se_lastFailureAt :: gotime
  se_probeToken :: u64
  se_lastUpstreamURL :: string
  se_lastError :: string
  se_lastSessionID :: string
  se_activeLeases :: int

definition initialState :: "bool \<Rightarrow> machineState" where
  "initialState disabled = (if disabled then stateDisabled else stateUnknown)"

text \<open>The struct literal \<open>&stateEntry{state: ...}\<close>: every other field is zero.\<close>

definition newEntry :: "machineState \<Rightarrow> stateEntry" where
  "newEntry st =
     \<lparr> se_observation = 0, se_lastErrorPending = False, se_lastErrorIncomplete = False,
       se_lastErrorTruncated = False, se_state = st, se_backoffLevel = 0, se_consecutiveFailures = 0,
       se_observedFailures = 0, se_lastHealthFailure = 0, se_cooldownUntil = 0, se_lastSuccessAt = 0,
       se_lastFailureAt = 0, se_probeToken = 0, se_lastUpstreamURL = '''', se_lastError = '''',
       se_lastSessionID = '''', se_activeLeases = 0 \<rparr>"

section \<open>Reading an entry\<close>

definition advanceCooldown :: "stateEntry \<Rightarrow> gotime \<Rightarrow> stateEntry" where
  "advanceCooldown e now =
     (if se_state e \<noteq> stateCooldown \<or> now < se_cooldownUntil e then e
      else e\<lparr>se_state := stateHalfOpen, se_cooldownUntil := 0, se_probeToken := 0\<rparr>)"

definition available :: "stateEntry \<Rightarrow> bool \<times> bool" where
  "available e =
     (case se_state e of
        stateCooldown \<Rightarrow> (False, False)
      | stateHalfOpen \<Rightarrow> (se_probeToken e = 0, se_probeToken e = 0)
      | _ \<Rightarrow> (True, False))"

text \<open>The loop shared by \<open>blockingRetryAt\<close> and \<open>composedRetryAt\<close>: the latest deadline seen.\<close>

definition later_deadline :: "gotime \<Rightarrow> gotime \<Rightarrow> stateEntry \<Rightarrow> gotime" where
  "later_deadline now latest e =
     (if se_state e \<noteq> stateCooldown \<or> \<not> se_cooldownUntil e > now then latest
      else if latest = 0 \<or> se_cooldownUntil e > latest then se_cooldownUntil e
      else latest)"

definition blockingRetryAt :: "gotime \<Rightarrow> stateEntry list \<Rightarrow> gotime option" where
  "blockingRetryAt now entries = timePointer (foldl (later_deadline now) 0 entries)"

definition composedRetryAt :: "gotime \<Rightarrow> stateEntry \<Rightarrow> stateEntry option \<Rightarrow> gotime" where
  "composedRetryAt now global channel =
     (let r = later_deadline now 0 global in
      case channel of None \<Rightarrow> r | Some c \<Rightarrow> later_deadline now r c)"

section \<open>Applying an outcome\<close>

definition bumpObserved :: "stateEntry \<Rightarrow> stateEntry" where
  "bumpObserved e =
     (if se_observedFailures e \<noteq> -1 then e\<lparr>se_observedFailures := se_observedFailures e + 1\<rparr> else e)"

definition observeLatest :: "stateEntry \<Rightarrow> Outcome \<Rightarrow> u64 \<Rightarrow> stateEntry" where
  "observeLatest e out observation =
     (let (text, truncated) = Prefix (o_RawError out) DiagnosticBytes in
      e\<lparr>se_lastUpstreamURL := o_UpstreamURL out, se_lastSessionID := o_SessionID out,
        se_lastError := text, se_lastErrorTruncated := truncated,
        se_lastErrorPending := o_ErrorPending out, se_lastErrorIncomplete := False,
        se_observation := observation\<rparr>)"

definition recordNeutralFailure :: "stateEntry \<Rightarrow> gotime \<Rightarrow> stateEntry" where
  "recordNeutralFailure e now = (bumpObserved e)\<lparr>se_lastFailureAt := now\<rparr>"

definition observeNeutralFailure :: "stateEntry \<Rightarrow> Outcome \<Rightarrow> gotime \<Rightarrow> u64 \<Rightarrow> stateEntry" where
  "observeNeutralFailure e out now observation =
     (let (text, truncated) = Prefix (o_RawError out) DiagnosticBytes in
      recordNeutralFailure
        (e\<lparr>se_lastUpstreamURL := o_UpstreamURL out, se_lastSessionID := o_SessionID out,
           se_lastError := text, se_lastErrorTruncated := truncated,
           se_lastErrorPending := o_ErrorPending out, se_lastErrorIncomplete := False,
           se_observation := observation\<rparr>) now)"

definition applySuccess :: "stateEntry \<Rightarrow> gotime \<Rightarrow> stateEntry" where
  "applySuccess e now =
     (if se_state e = stateDisabled then e\<lparr>se_lastSuccessAt := now\<rparr>
      else e\<lparr>se_state := stateHealthy, se_backoffLevel := 0, se_consecutiveFailures := 0,
             se_lastHealthFailure := 0, se_cooldownUntil := 0, se_lastSuccessAt := now,
             se_probeToken := 0\<rparr>)"

definition recordConsecutiveFailure :: "stateEntry \<Rightarrow> gotime \<Rightarrow> duration \<Rightarrow> stateEntry" where
  "recordConsecutiveFailure e now window =
     (let gap = time_sub now (se_lastHealthFailure e);
          e = (if se_lastHealthFailure e = 0 \<or> gap < 0 \<or> gap > window
               then e\<lparr>se_consecutiveFailures := 1\<rparr>
               else if se_consecutiveFailures e < maxInt
               then e\<lparr>se_consecutiveFailures := se_consecutiveFailures e + 1\<rparr>
               else e)
      in e\<lparr>se_lastHealthFailure := now\<rparr>)"

definition enterCooldownLocked :: "Policy \<Rightarrow> stateEntry \<Rightarrow> gotime \<Rightarrow> Outcome \<Rightarrow> stateEntry" where
  "enterCooldownLocked p e now out =
     e\<lparr>se_state := stateCooldown,
       se_cooldownUntil := now + EffectiveCooldown p (se_backoffLevel e) (o_RetryAfter out) (o_HasRetryAfter out),
       se_probeToken := 0\<rparr>"

definition raiseBackoff :: "Policy \<Rightarrow> stateEntry \<Rightarrow> stateEntry" where
  "raiseBackoff p e =
     (if se_backoffLevel e < int (length (po_Cooldowns p)) - 1
      then e\<lparr>se_backoffLevel := se_backoffLevel e + 1\<rparr> else e)"

text \<open>The result tells whether the entry entered cooldown.\<close>

definition applyFailureLocked ::
  "Policy \<Rightarrow> stateEntry \<Rightarrow> u64 \<Rightarrow> gotime \<Rightarrow> Outcome \<Rightarrow> bool \<Rightarrow> bool \<times> stateEntry" where
  "applyFailureLocked p e token now out immediate =
     (let e = (bumpObserved e)\<lparr>se_lastFailureAt := now\<rparr> in
      if se_state e = stateDisabled then (False, e)
      else if se_state e = stateCooldown then (False, e)
      else if se_state e = stateHalfOpen then
        (if se_probeToken e \<noteq> token then (False, e)
         else
           let e = e\<lparr>se_probeToken := 0\<rparr>;
               e = recordConsecutiveFailure e now (po_FailureWindow p);
               e = raiseBackoff p e
           in (True, enterCooldownLocked p e now out))
      else
        let e = recordConsecutiveFailure e now (po_FailureWindow p) in
        if immediate \<or> se_consecutiveFailures e \<ge> po_FailureThreshold p
        then (True, enterCooldownLocked p e now out)
        else (False, e\<lparr>se_state := stateDegraded\<rparr>))"

definition releaseProbe :: "stateEntry \<Rightarrow> u64 \<Rightarrow> stateEntry" where
  "releaseProbe e token =
     (if se_state e = stateHalfOpen \<and> se_probeToken e = token then e\<lparr>se_probeToken := 0\<rparr> else e)"

section \<open>Crossing a generation\<close>

definition copyDiagnostics :: "stateEntry \<Rightarrow> stateEntry \<Rightarrow> stateEntry" where
  "copyDiagnostics target source =
     target\<lparr>se_observedFailures := se_observedFailures source, se_lastSuccessAt := se_lastSuccessAt source,
            se_lastFailureAt := se_lastFailureAt source, se_lastUpstreamURL := se_lastUpstreamURL source,
            se_lastError := se_lastError source, se_lastErrorPending := se_lastErrorPending source,
            se_lastErrorIncomplete := se_lastErrorIncomplete source,
            se_lastErrorTruncated := se_lastErrorTruncated source,
            se_lastSessionID := se_lastSessionID source\<rparr>"

definition inheritState :: "stateEntry \<Rightarrow> stateEntry \<Rightarrow> bool \<Rightarrow> stateEntry" where
  "inheritState target source preserveBreaker =
     (let t = copyDiagnostics target source;
          t = (if preserveBreaker
               then t\<lparr>se_state := se_state source, se_backoffLevel := se_backoffLevel source,
                      se_consecutiveFailures := se_consecutiveFailures source,
                      se_lastHealthFailure := se_lastHealthFailure source,
                      se_cooldownUntil := se_cooldownUntil source\<rparr>
               else t)
      in if se_lastErrorPending t
         then t\<lparr>se_lastErrorPending := False, se_lastErrorIncomplete := True\<rparr> else t)"

text \<open>The body of the loop of \<open>UpdateError\<close> on one entry.\<close>

definition updateEntryError :: "stateEntry \<Rightarrow> u64 \<Rightarrow> string \<Rightarrow> bool \<Rightarrow> bool \<Rightarrow> stateEntry" where
  "updateEntryError e observation raw incomplete truncated =
     (if se_observation e \<noteq> observation then e
      else
        let e = (if raw \<noteq> [] \<or> (\<not> incomplete \<and> \<not> truncated)
                 then (let (text, cut) = Prefix raw DiagnosticBytes in
                       e\<lparr>se_lastError := text, se_lastErrorTruncated := cut\<rparr>)
                 else e)
        in e\<lparr>se_lastErrorPending := False, se_lastErrorIncomplete := incomplete,
             se_lastErrorTruncated := se_lastErrorTruncated e \<or> truncated\<rparr>)"

section \<open>Well-formed entries\<close>

text \<open>
  A deadline exists only while cooling down, a probe only while half open, the backoff
  level indexes the schedule, the failure count fits a Go int, and an entry is disabled
  exactly when its scope has health control switched off.
\<close>

definition entry_inv :: "bool \<Rightarrow> stateEntry \<Rightarrow> bool" where
  "entry_inv disabled e \<longleftrightarrow>
     (se_state e = stateDisabled \<longleftrightarrow> disabled) \<and>
     (se_state e \<noteq> stateCooldown \<longrightarrow> se_cooldownUntil e = 0) \<and>
     (se_probeToken e \<noteq> 0 \<longrightarrow> se_state e = stateHalfOpen) \<and>
     0 \<le> se_backoffLevel e \<and> se_backoffLevel e \<le> 4 \<and>
     0 \<le> se_consecutiveFailures e \<and> se_consecutiveFailures e \<le> maxInt"

lemmas entry_defs =
  advanceCooldown_def bumpObserved_def observeLatest_def recordNeutralFailure_def
  observeNeutralFailure_def applySuccess_def recordConsecutiveFailure_def enterCooldownLocked_def
  raiseBackoff_def applyFailureLocked_def releaseProbe_def copyDiagnostics_def inheritState_def
  updateEntryError_def Let_def

lemma maxInt_pos: "1 \<le> maxInt"
  by (simp add: maxInt_def)

lemma newEntry_inv [inv_intros]: "entry_inv d (newEntry (initialState d))"
  by (simp add: entry_inv_def newEntry_def initialState_def maxInt_def)

lemma advanceCooldown_inv [inv_intros]: "entry_inv d e \<Longrightarrow> entry_inv d (advanceCooldown e now)"
  by (auto simp: entry_inv_def advanceCooldown_def)

lemma observeLatest_inv [inv_intros]: "entry_inv d e \<Longrightarrow> entry_inv d (observeLatest e out ob)"
  by (simp add: entry_inv_def observeLatest_def split_beta Let_def)

lemma observeNeutralFailure_inv [inv_intros]:
  "entry_inv d e \<Longrightarrow> entry_inv d (observeNeutralFailure e out now ob)"
  by (simp add: entry_inv_def observeNeutralFailure_def recordNeutralFailure_def bumpObserved_def
      split_beta Let_def)

lemma applySuccess_inv [inv_intros]: "entry_inv d e \<Longrightarrow> entry_inv d (applySuccess e now)"
  using maxInt_pos by (auto simp: entry_inv_def applySuccess_def)

lemma recordConsecutiveFailure_frame [frame_simps]:
  "se_state (recordConsecutiveFailure e now w) = se_state e"
  "se_cooldownUntil (recordConsecutiveFailure e now w) = se_cooldownUntil e"
  "se_probeToken (recordConsecutiveFailure e now w) = se_probeToken e"
  "se_backoffLevel (recordConsecutiveFailure e now w) = se_backoffLevel e"
  "se_activeLeases (recordConsecutiveFailure e now w) = se_activeLeases e"
  "se_lastHealthFailure (recordConsecutiveFailure e now w) = now"
  by (auto simp: recordConsecutiveFailure_def Let_def)

lemma recordConsecutiveFailure_count:
  "0 \<le> se_consecutiveFailures e \<Longrightarrow> se_consecutiveFailures e \<le> maxInt \<Longrightarrow>
   1 \<le> se_consecutiveFailures (recordConsecutiveFailure e now w) \<and>
   se_consecutiveFailures (recordConsecutiveFailure e now w) \<le> maxInt"
  using maxInt_pos by (auto simp: recordConsecutiveFailure_def Let_def)

lemma applyFailureLocked_inv [inv_intros]:
  assumes "entry_inv d e" and "policy_ok p"
  shows "entry_inv d (snd (applyFailureLocked p e token now out immediate))"
proof -
  let ?e = "(bumpObserved e)\<lparr>se_lastFailureAt := now\<rparr>"
  have e: "entry_inv d ?e" using assms(1) by (auto simp: entry_inv_def bumpObserved_def)
  have cnt: "1 \<le> se_consecutiveFailures (recordConsecutiveFailure f now w) \<and>
      se_consecutiveFailures (recordConsecutiveFailure f now w) \<le> maxInt"
    if "se_consecutiveFailures f = se_consecutiveFailures ?e" for f w
    using e that by (intro recordConsecutiveFailure_count) (auto simp: entry_inv_def)
  show ?thesis
    using e cnt [of ?e "po_FailureWindow p"] cnt [of "?e\<lparr>se_probeToken := 0\<rparr>" "po_FailureWindow p"]
      policy_okD(8) [OF assms(2)]
    unfolding applyFailureLocked_def Let_def
    by (auto simp: entry_inv_def enterCooldownLocked_def raiseBackoff_def frame_simps)
qed

lemma releaseProbe_inv [inv_intros]: "entry_inv d e \<Longrightarrow> entry_inv d (releaseProbe e token)"
  by (auto simp: entry_inv_def releaseProbe_def)

lemma inheritState_inv [inv_intros]:
  "entry_inv d source \<Longrightarrow> se_probeToken target = 0 \<Longrightarrow> (\<not> preserve \<longrightarrow> entry_inv d' target) \<Longrightarrow>
   (preserve \<longrightarrow> d' = d) \<Longrightarrow> entry_inv d' (inheritState target source preserve)"
  by (auto simp: entry_inv_def inheritState_def copyDiagnostics_def Let_def)

lemma updateEntryError_inv [inv_intros]:
  "entry_inv d e \<Longrightarrow> entry_inv d (updateEntryError e ob raw inc tr)"
  by (simp add: entry_inv_def updateEntryError_def split_beta Let_def)

text \<open>No entry operation touches the lease counter, and only three can move the probe token.\<close>

lemma entry_leases_frame [frame_simps]:
  "se_activeLeases (advanceCooldown e now) = se_activeLeases e"
  "se_activeLeases (observeLatest e out ob) = se_activeLeases e"
  "se_activeLeases (observeNeutralFailure e out now ob) = se_activeLeases e"
  "se_activeLeases (applySuccess e now) = se_activeLeases e"
  "se_activeLeases (snd (applyFailureLocked p e token now out im)) = se_activeLeases e"
  "se_activeLeases (releaseProbe e token) = se_activeLeases e"
  "se_activeLeases (inheritState e src b) = se_activeLeases e"
  "se_activeLeases (updateEntryError e ob raw inc tr) = se_activeLeases e"
  by (simp_all add: advanceCooldown_def observeLatest_def observeNeutralFailure_def
      recordNeutralFailure_def bumpObserved_def applySuccess_def applyFailureLocked_def
      recordConsecutiveFailure_def raiseBackoff_def enterCooldownLocked_def releaseProbe_def
      inheritState_def copyDiagnostics_def updateEntryError_def split_beta Let_def)

lemma entry_probe_frame [frame_simps]:
  "se_probeToken (observeLatest e out ob) = se_probeToken e"
  "se_probeToken (observeNeutralFailure e out now ob) = se_probeToken e"
  "se_probeToken (inheritState e src b) = se_probeToken e"
  "se_probeToken (updateEntryError e ob raw inc tr) = se_probeToken e"
  by (simp_all add: observeLatest_def observeNeutralFailure_def recordNeutralFailure_def
      bumpObserved_def inheritState_def copyDiagnostics_def updateEntryError_def split_beta Let_def)

text \<open>
  An operation on behalf of \<open>token\<close> leaves the probe token alone or clears it, and never
  leaves \<open>token\<close> itself in place.
\<close>

lemma advanceCooldown_probe:
  "entry_inv d e \<Longrightarrow> se_probeToken (advanceCooldown e now) = se_probeToken e"
  by (auto simp: advanceCooldown_def entry_inv_def)

lemma applySuccess_probe:
  "entry_inv d e \<Longrightarrow> se_probeToken (applySuccess e now) = 0"
  by (auto simp: applySuccess_def entry_inv_def)

lemma applyFailureLocked_probe:
  "entry_inv d e \<Longrightarrow> token \<noteq> 0 \<Longrightarrow> se_probeToken (snd (applyFailureLocked p e token now out im)) =
     (if se_probeToken e = token then 0 else se_probeToken e)"
  unfolding applyFailureLocked_def Let_def
  by (auto simp: entry_inv_def bumpObserved_def enterCooldownLocked_def raiseBackoff_def frame_simps)

lemma releaseProbe_probe:
  "entry_inv d e \<Longrightarrow> token \<noteq> 0 \<Longrightarrow>
   se_probeToken (releaseProbe e token) = (if se_probeToken e = token then 0 else se_probeToken e)"
  by (auto simp: releaseProbe_def entry_inv_def)

text \<open>The breaker fields: what a diagnostic-only operation must not change.\<close>

definition breaker :: "stateEntry \<Rightarrow> machineState \<times> int \<times> int \<times> gotime \<times> gotime" where
  "breaker e =
     (se_state e, se_backoffLevel e, se_consecutiveFailures e, se_lastHealthFailure e, se_cooldownUntil e)"

lemma breaker_frame [frame_simps]:
  "breaker (observeLatest e out ob) = breaker e"
  "breaker (observeNeutralFailure e out now ob) = breaker e"
  "breaker (releaseProbe e token) = breaker e"
  "breaker (updateEntryError e ob raw inc tr) = breaker e"
  by (simp_all add: breaker_def observeLatest_def observeNeutralFailure_def recordNeutralFailure_def
      bumpObserved_def releaseProbe_def updateEntryError_def split_beta Let_def)

section \<open>Properties of the breaker\<close>












text \<open>
  A failed half-open probe reopens the breaker one backoff level higher (at most the
  last level) until a deadline strictly in the future, and a failure reported by any other
  lease leaves a half-open entry's breaker and probe alone.
\<close>

theorem half_open_failure:
  assumes "policy_ok p" and "entry_inv d e" and "se_state e = stateHalfOpen" and "se_probeToken e \<noteq> 0"
  shows "applyFailureLocked p e token now out im = (entered, e') \<longrightarrow>
    (if token = se_probeToken e
     then entered \<and> se_state e' = stateCooldown \<and> se_backoffLevel e' = min 4 (se_backoffLevel e + 1) \<and>
          se_cooldownUntil e' = now + EffectiveCooldown p (se_backoffLevel e') (o_RetryAfter out) (o_HasRetryAfter out) \<and>
          now < se_cooldownUntil e' \<and> se_probeToken e' = 0
     else \<not> entered \<and> breaker e' = breaker e \<and> se_probeToken e' = se_probeToken e)"
  using assms EffectiveCooldown_pos [OF assms(1)] policy_okD(8) [OF assms(1)]
  by (auto simp: applyFailureLocked_def bumpObserved_def enterCooldownLocked_def raiseBackoff_def
      breaker_def entry_inv_def frame_simps Let_def)

theorem half_open_failure_witness:
  "se_state (snd (applyFailureLocked DefaultPolicy ((newEntry stateHalfOpen)\<lparr>se_probeToken := 7\<rparr>) 7 100 zeroOutcome False)) = stateCooldown"
proof -
  let ?e = "(newEntry stateHalfOpen)\<lparr>se_probeToken := 7\<rparr>"
  have h: "entry_inv False ?e" "se_state ?e = stateHalfOpen" "se_probeToken ?e \<noteq> 0"
    by (simp_all add: entry_inv_def newEntry_def maxInt_def)
  obtain b e' where r: "applyFailureLocked DefaultPolicy ?e 7 100 zeroOutcome False = (b, e')" by force
  show ?thesis using half_open_failure [OF DefaultPolicy_ok h, of 7 100 zeroOutcome False b e'] r
    by (simp add: newEntry_def)
qed

end
