(* ===== verification/Health_Store.thy ===== *)
theory Health_Store
  imports Health_Entry
begin

text \<open>
  The health store (\<open>internal/health/store.go\<close>): provider scopes, leases and the operations
  of the \<open>HealthController\<close> boundary. Scopes are shared by pointer between the map of
  active scopes, the map of retired scopes and the lease records, so they live in an
  explicit heap: \<open>st_heap\<close> maps an address to its scope and addresses from \<open>st_nextAddr\<close> on
  are not allocated. A scope owns its entries, which therefore are values inside it.

  Every operation of the source holds the store's mutex from its first to its last
  statement: an operation is one atomic step on the state. The clock is a stream of
  readings \<open>st_clock\<close>, of which \<open>st_reads\<close> have been consumed, so the time between two
  operations is arbitrary.
\<close>

section \<open>State\<close>

record channelKey =
  ck_model :: string
  ck_requestType :: RequestType

record scopeKey =
  sk_providerID :: string
  sk_generation :: ProviderGeneration
  sk_epoch :: u64

record retiredKey =
  rk_scopeKey :: scopeKey
  rk_disableHealth :: bool

record providerScope =
  sc_key :: scopeKey
  sc_disableHealth :: bool
  sc_active :: bool
  sc_models :: "string list"
  sc_modelSet :: "string set"
  sc_global :: stateEntry
  sc_channels :: "(channelKey, stateEntry) gomap"
  sc_activeLeases :: int

record leaseRecord =
  lr_scope :: nat
  lr_key :: HealthKey
  lr_globalProbe :: bool
  lr_channelProbe :: bool
  lr_disabled :: bool

record store =
  st_policy :: Policy
  st_clock :: "nat \<Rightarrow> gotime"
  st_reads :: nat
  st_heap :: "nat \<Rightarrow> providerScope"
  st_nextAddr :: nat
  st_active :: "(string, nat) gomap"
  st_retired :: "(retiredKey, nat list) gomap"
  st_leases :: "(u64, leaseRecord) gomap"
  st_nextToken :: u64
  st_nextObservation :: u64

definition emptyScope :: providerScope where
  "emptyScope =
     \<lparr> sc_key = \<lparr>sk_providerID = '''', sk_generation = '''', sk_epoch = 0\<rparr>, sc_disableHealth = False,
       sc_active = False, sc_models = [], sc_modelSet = {}, sc_global = newEntry stateUnknown,
       sc_channels = [], sc_activeLeases = 0 \<rparr>"

definition New :: "Policy \<Rightarrow> (nat \<Rightarrow> gotime) \<Rightarrow> string + store" where
  "New policy clock =
     (let policy = (if policy = zeroPolicy then DefaultPolicy else policy) in
      case Policy_Validate policy of
        Some err \<Rightarrow> Inl err
      | None \<Rightarrow> Inr \<lparr> st_policy = policy, st_clock = clock, st_reads = 0, st_heap = (\<lambda>_. emptyScope),
          st_nextAddr = 0, st_active = [], st_retired = [], st_leases = [], st_nextToken = 0,
          st_nextObservation = 0 \<rparr>)"

definition clock_now :: "store \<Rightarrow> gotime \<times> store" where
  "clock_now s = (st_clock s (st_reads s), s\<lparr>st_reads := Suc (st_reads s)\<rparr>)"

section \<open>Scopes\<close>

definition channel_of :: "HealthKey \<Rightarrow> channelKey" where
  "channel_of key = \<lparr>ck_model = hk_Model key, ck_requestType = hk_RequestType key\<rparr>"

definition scopeKey_of :: "HealthKey \<Rightarrow> scopeKey" where
  "scopeKey_of key =
     \<lparr>sk_providerID = hk_ProviderID key, sk_generation = hk_Generation key, sk_epoch = hk_Epoch key\<rparr>"

definition retiredKey_of :: "providerScope \<Rightarrow> retiredKey" where
  "retiredKey_of sc = \<lparr>rk_scopeKey = sc_key sc, rk_disableHealth = sc_disableHealth sc\<rparr>"

definition normal_channel :: "string \<Rightarrow> channelKey" where
  "normal_channel model = \<lparr>ck_model = model, ck_requestType = RequestTypeNormal\<rparr>"

definition newScope :: "CompiledProvider \<Rightarrow> providerScope" where
  "newScope p =
     (let disabled = cp_DisableHealth p in
      \<lparr> sc_key = \<lparr>sk_providerID = cp_ID p, sk_generation = cp_Generation p, sk_epoch = cp_HealthEpoch p\<rparr>,
        sc_disableHealth = disabled, sc_active = True, sc_models = cp_Models p,
        sc_modelSet = set (cp_Models p), sc_global = newEntry (initialState disabled),
        sc_channels = foldl (\<lambda>m model. AList.update (normal_channel model) (newEntry (initialState disabled)) m)
                        [] (cp_Models p),
        sc_activeLeases = 0 \<rparr>)"

definition newRetiredScope :: "HealthKey \<Rightarrow> bool \<Rightarrow> providerScope" where
  "newRetiredScope key disableHealth =
     \<lparr> sc_key = scopeKey_of key, sc_disableHealth = disableHealth, sc_active = False,
       sc_models = [hk_Model key], sc_modelSet = {hk_Model key},
       sc_global = newEntry (initialState disableHealth),
       sc_channels = [(channel_of key, newEntry (initialState disableHealth))], sc_activeLeases = 0 \<rparr>"

definition inheritChannel ::
  "bool \<Rightarrow> providerScope \<Rightarrow> channelKey \<times> stateEntry \<Rightarrow> providerScope" where
  "inheritChannel preserveBreaker target ke =
     (case ke of (key, sourceEntry) \<Rightarrow>
        if ck_model key \<notin> sc_modelSet target then target
        else
          let targetEntry = (case map_of (sc_channels target) key of
                Some e \<Rightarrow> e | None \<Rightarrow> newEntry (initialState (sc_disableHealth target)))
          in target\<lparr>sc_channels := AList.update key (inheritState targetEntry sourceEntry preserveBreaker)
                                    (sc_channels target)\<rparr>)"

definition inheritScopeState :: "providerScope \<Rightarrow> providerScope \<Rightarrow> providerScope" where
  "inheritScopeState target source =
     (let preserveBreaker = (sc_disableHealth target = sc_disableHealth source);
          target = target\<lparr>sc_global := inheritState (sc_global target) (sc_global source) preserveBreaker\<rparr>
      in foldl (inheritChannel preserveBreaker) target (sc_channels source))"

definition addNormalChannel :: "bool \<Rightarrow> (channelKey, stateEntry) gomap \<Rightarrow> string \<Rightarrow> (channelKey, stateEntry) gomap" where
  "addNormalChannel disabled channels model =
     (case map_of channels (normal_channel model) of
        Some _ \<Rightarrow> channels
      | None \<Rightarrow> AList.update (normal_channel model) (newEntry (initialState disabled)) channels)"

definition reconcileModelsLocked :: "providerScope \<Rightarrow> string list \<Rightarrow> providerScope" where
  "reconcileModelsLocked scope models =
     (let channels = foldl (addNormalChannel (sc_disableHealth scope)) (sc_channels scope) models;
          channels = gfilter (\<lambda>key entry. \<not> (ck_model key \<notin> set models \<and> se_activeLeases entry = 0)) channels
      in scope\<lparr>sc_channels := channels, sc_models := models, sc_modelSet := set models\<rparr>)"

section \<open>Reconcile\<close>

abbreviation put_scope :: "nat \<Rightarrow> providerScope \<Rightarrow> store \<Rightarrow> store" where
  "put_scope a sc s \<equiv> s\<lparr>st_heap := (st_heap s)(a := sc)\<rparr>"

definition retired_at :: "store \<Rightarrow> retiredKey \<Rightarrow> nat list" where
  "retired_at s k = (case map_of (st_retired s) k of None \<Rightarrow> [] | Some xs \<Rightarrow> xs)"

definition retireLocked :: "nat \<Rightarrow> store \<Rightarrow> store" where
  "retireLocked a s =
     (let scope = (st_heap s a)\<lparr>sc_active := False\<rparr>; s = put_scope a scope s in
      if sc_activeLeases scope = 0 then s
      else
        let key = retiredKey_of scope in
        if a \<in> set (retired_at s key) then s
        else s\<lparr>st_retired := AList.update key (retired_at s key @ [a]) (st_retired s)\<rparr>)"

definition installScope :: "string \<Rightarrow> providerScope \<Rightarrow> store \<Rightarrow> store" where
  "installScope ident fresh s =
     s\<lparr>st_heap := (st_heap s)(st_nextAddr s := fresh), st_nextAddr := Suc (st_nextAddr s),
       st_active := AList.update ident (st_nextAddr s) (st_active s)\<rparr>"

definition reconcileProvider :: "store \<Rightarrow> CompiledProvider \<Rightarrow> store" where
  "reconcileProvider s item =
     (case map_of (st_active s) (cp_ID item) of
        None \<Rightarrow> installScope (cp_ID item) (newScope item) s
      | Some a \<Rightarrow>
          let current = st_heap s a;
              sameEpoch = (sk_epoch (sc_key current) = cp_HealthEpoch item)
          in if sameEpoch \<and> sk_generation (sc_key current) = cp_Generation item \<and>
                sc_disableHealth current = cp_DisableHealth item
             then put_scope a (reconcileModelsLocked current (cp_Models item)) s
             else
               let s = retireLocked a s;
                   fresh = (if sameEpoch then inheritScopeState (newScope item) current else newScope item)
               in installScope (cp_ID item) fresh s)"

fun retireUnseen :: "string set \<Rightarrow> (string \<times> nat) list \<Rightarrow> store \<Rightarrow> store" where
  "retireUnseen seen [] s = s"
| "retireUnseen seen ((ident, a) # rest) s =
     (if ident \<in> seen then retireUnseen seen rest s
      else retireUnseen seen rest (retireLocked a (s\<lparr>st_active := AList.delete ident (st_active s)\<rparr>)))"

definition Reconcile :: "CompiledProvider option list \<Rightarrow> store \<Rightarrow> store" where
  "Reconcile providers s =
     (let items = List.map_filter id providers;
          s = foldl reconcileProvider s items
      in retireUnseen (cp_ID ` set items) (st_active s) s)"

section \<open>Acquire\<close>

fun globalState :: "machineState \<Rightarrow> GlobalHealthState" where
  "globalState stateHealthy = GlobalHealthy"
| "globalState stateDegraded = GlobalDegraded"
| "globalState stateCooldown = GlobalCooldown"
| "globalState stateHalfOpen = GlobalHalfOpen"
| "globalState stateDisabled = GlobalDisabled"
| "globalState stateUnknown = GlobalUnknown"

fun channelState :: "machineState \<Rightarrow> ChannelHealthState" where
  "channelState stateHealthy = ChannelHealthy"
| "channelState stateDegraded = ChannelDegraded"
| "channelState stateCooldown = ChannelCooldown"
| "channelState stateHalfOpen = ChannelHalfOpen"
| "channelState stateDisabled = ChannelDisabled"
| "channelState stateUnknown = ChannelUnknown"

definition scopeForAcquireLocked :: "HealthKey \<Rightarrow> bool \<Rightarrow> store \<Rightarrow> nat \<times> store" where
  "scopeForAcquireLocked key disableHealth s =
     (let lookup = \<lparr>rk_scopeKey = scopeKey_of key, rk_disableHealth = disableHealth\<rparr>;
          retired = (let scopes = retired_at s lookup in
             if scopes \<noteq> [] then (last scopes, s)
             else
               (st_nextAddr s,
                s\<lparr>st_heap := (st_heap s)(st_nextAddr s := newRetiredScope key disableHealth),
                  st_nextAddr := Suc (st_nextAddr s),
                  st_retired := AList.update lookup (scopes @ [st_nextAddr s]) (st_retired s)\<rparr>))
      in case map_of (st_active s) (hk_ProviderID key) of
           Some a \<Rightarrow>
             (if sk_generation (sc_key (st_heap s a)) = hk_Generation key \<and>
                 sk_epoch (sc_key (st_heap s a)) = hk_Epoch key \<and>
                 sc_disableHealth (st_heap s a) = disableHealth
              then (a, s) else retired)
         | None \<Rightarrow> retired)"

text \<open>
  The token loop: increment, skip zero, skip a token in use. It looks at one token after
  another, so with \<open>n\<close> leases it ends within \<open>n + 2\<close> rounds unless every nonzero token is
  taken; \<open>None\<close> is the loop that never ends.
\<close>

fun token_loop :: "nat \<Rightarrow> (u64, leaseRecord) gomap \<Rightarrow> u64 \<Rightarrow> u64 option" where
  "token_loop 0 leases tok = None"
| "token_loop (Suc fuel) leases tok =
     (let tok = tok + 1 in
      if tok = 0 then token_loop fuel leases tok
      else if map_of leases tok = None then Some tok
      else token_loop fuel leases tok)"

definition allocateTokenLocked :: "store \<Rightarrow> u64 option" where
  "allocateTokenLocked s = token_loop (length (st_leases s) + 2) (st_leases s) (st_nextToken s)"

text \<open>The channel of a scope; it is created on first use.\<close>

definition channelAt :: "providerScope \<Rightarrow> channelKey \<Rightarrow> stateEntry" where
  "channelAt scope key =
     (case map_of (sc_channels scope) key of
        Some e \<Rightarrow> e | None \<Rightarrow> newEntry (initialState (sc_disableHealth scope)))"

text \<open>The statements of \<open>Acquire\<close> up to the two \<open>advanceCooldown\<close> calls, on the scope.\<close>

definition advanceScope :: "providerScope \<Rightarrow> channelKey \<Rightarrow> gotime \<Rightarrow> providerScope" where
  "advanceScope scope key now =
     scope\<lparr>sc_global := advanceCooldown (sc_global scope) now,
           sc_channels := AList.update key (advanceCooldown (channelAt scope key) now) (sc_channels scope)\<rparr>"

text \<open>The statements that reserve the probes and count the lease, on the scope.\<close>

definition issueLease :: "providerScope \<Rightarrow> channelKey \<Rightarrow> u64 \<Rightarrow> bool \<Rightarrow> bool \<Rightarrow> providerScope" where
  "issueLease scope key token globalProbe channelProbe =
     (let global = (if globalProbe then (sc_global scope)\<lparr>se_probeToken := token\<rparr> else sc_global scope);
          c = channelAt scope key;
          channel = (if channelProbe then c\<lparr>se_probeToken := token\<rparr> else c)\<lparr>se_activeLeases := se_activeLeases c + 1\<rparr>
      in scope\<lparr>sc_global := global, sc_channels := AList.update key channel (sc_channels scope),
               sc_activeLeases := sc_activeLeases scope + 1\<rparr>)"

text \<open>\<open>None\<close> as the result of \<open>Acquire\<close> is the call that never returns from the token loop.\<close>

definition Acquire :: "HealthKey \<Rightarrow> bool \<Rightarrow> store \<Rightarrow> (HealthDecision \<times> store) option" where
  "Acquire key disableHealth s =
     (if hk_ProviderID key = [] \<or> hk_Generation key = [] \<or> hk_Model key = [] \<or> hk_RequestType key = []
      then Some (\<lparr> hd_Available = False, hd_Lease = zeroHealthLease, hd_GlobalState = GlobalUnknown,
                   hd_ChannelState = ChannelUnknown, hd_RetryAt = None \<rparr>, s)
      else
        let (a, s) = scopeForAcquireLocked key disableHealth s;
            (now, s) = clock_now s;
            scope = advanceScope (st_heap s a) (channel_of key) now;
            global = sc_global scope;
            channel = channelAt scope (channel_of key);
            (globalAvailable, globalProbe) = available global;
            (channelAvailable, channelProbe) = available channel;
            s = put_scope a scope s;
            decision = \<lparr> hd_Available = (globalAvailable \<and> channelAvailable), hd_Lease = zeroHealthLease,
               hd_GlobalState = globalState (se_state global), hd_ChannelState = channelState (se_state channel),
               hd_RetryAt = blockingRetryAt now [global, channel] \<rparr>
        in if \<not> hd_Available decision then Some (decision, s)
           else case allocateTokenLocked s of
             None \<Rightarrow> None
           | Some token \<Rightarrow>
               let record = \<lparr> lr_scope = a, lr_key = key, lr_globalProbe = globalProbe,
                              lr_channelProbe = channelProbe, lr_disabled = sc_disableHealth scope \<rparr>;
                   lease = \<lparr> hl_Key = key, hl_GlobalProbe = globalProbe, hl_ChannelProbe = channelProbe,
                             hl_Disabled = sc_disableHealth scope, hl_Token = token \<rparr>
               in Some (decision\<lparr>hd_Lease := lease, hd_RetryAt := None\<rparr>,
                    (put_scope a (issueLease scope (channel_of key) token globalProbe channelProbe) s)
                      \<lparr>st_nextToken := token, st_leases := AList.update token record (st_leases s)\<rparr>))"

section \<open>Report\<close>

text \<open>The part of \<open>releaseLeaseLocked\<close> that works on the scope itself.\<close>

definition releaseScope :: "providerScope \<Rightarrow> channelKey \<Rightarrow> providerScope" where
  "releaseScope scope key =
     (let scope = (if sc_activeLeases scope > 0 then scope\<lparr>sc_activeLeases := sc_activeLeases scope - 1\<rparr> else scope)
      in case map_of (sc_channels scope) key of
           None \<Rightarrow> scope
         | Some channel \<Rightarrow>
             let channel = (if se_activeLeases channel > 0
                            then channel\<lparr>se_activeLeases := se_activeLeases channel - 1\<rparr> else channel)
             in if ck_model key \<notin> sc_modelSet scope \<and> se_activeLeases channel = 0
                then scope\<lparr>sc_channels := AList.delete key (sc_channels scope)\<rparr>
                else scope\<lparr>sc_channels := AList.update key channel (sc_channels scope)\<rparr>)"

definition removeLast :: "'a \<Rightarrow> 'a list \<Rightarrow> 'a list" where
  "removeLast x xs = rev (remove1 x (rev xs))"

definition releaseLeaseLocked :: "nat \<Rightarrow> channelKey \<Rightarrow> store \<Rightarrow> store" where
  "releaseLeaseLocked a key s =
     (let scope = releaseScope (st_heap s a) key; s = put_scope a scope s in
      if sc_active scope \<or> sc_activeLeases scope \<noteq> 0 then s
      else
        let lookup = retiredKey_of scope; scopes = retired_at s lookup in
        if a \<notin> set scopes then s
        else if removeLast a scopes = [] then s\<lparr>st_retired := AList.delete lookup (st_retired s)\<rparr>
        else s\<lparr>st_retired := AList.update lookup (removeLast a scopes) (st_retired s)\<rparr>)"

text \<open>The switch over the outcome's class, on the global entry and the channel entry.\<close>

definition applyOutcome ::
  "Policy \<Rightarrow> u64 \<Rightarrow> gotime \<Rightarrow> Outcome \<Rightarrow> u64 \<Rightarrow> stateEntry \<Rightarrow> stateEntry \<Rightarrow> bool \<times> bool \<times> stateEntry \<times> stateEntry" where
  "applyOutcome p token now out observation global channel =
     (case o_Class out of
        FailureNone \<Rightarrow>
          (False, False, applySuccess (observeLatest global out observation) now,
           applySuccess (observeLatest channel out observation) now)
      | FailureGlobalImmediate \<Rightarrow>
          (let (entered, g) = applyFailureLocked p (observeLatest global out observation) token now out True
           in (entered, False, g, releaseProbe channel token))
      | FailureGlobalTransient \<Rightarrow>
          (let (entered, g) = applyFailureLocked p (observeLatest global out observation) token now out False
           in (entered, False, g, releaseProbe channel token))
      | FailureChannelImmediate \<Rightarrow>
          (let (entered, c) = applyFailureLocked p (observeLatest channel out observation) token now out True
           in (False, entered, releaseProbe global token, c))
      | FailureChannelTransient \<Rightarrow>
          (let (entered, c) = applyFailureLocked p (observeLatest channel out observation) token now out False
           in (False, entered, releaseProbe global token, c))
      | FailureChannelStream \<Rightarrow>
          (let (entered, c) = applyFailureLocked p (observeLatest channel out observation) token now out False
           in (False, entered, releaseProbe global token, c))
      | FailureNeutral \<Rightarrow>
          (False, False, releaseProbe global token,
           releaseProbe (if o_HTTPStatus out > 0 then observeNeutralFailure channel out now observation else channel) token)
      | _ \<Rightarrow> (False, False, releaseProbe global token, releaseProbe channel token))"

definition releaseProbes :: "providerScope \<Rightarrow> channelKey \<Rightarrow> u64 \<Rightarrow> providerScope" where
  "releaseProbes scope key token =
     (let scope = scope\<lparr>sc_global := releaseProbe (sc_global scope) token\<rparr> in
      case map_of (sc_channels scope) key of
        None \<Rightarrow> scope
      | Some c \<Rightarrow> scope\<lparr>sc_channels := AList.update key (releaseProbe c token) (sc_channels scope)\<rparr>)"

definition Report :: "HealthLease \<Rightarrow> Outcome \<Rightarrow> store \<Rightarrow> HealthUpdate \<times> u64 \<times> store" where
  "Report lease out s =
     (case map_of (st_leases s) (hl_Token lease) of
        None \<Rightarrow> (zeroHealthUpdate, 0, s)
      | Some record \<Rightarrow>
          let s = s\<lparr>st_leases := AList.delete (hl_Token lease) (st_leases s)\<rparr>;
              token = hl_Token lease;
              a = lr_scope record;
              scope = st_heap s a;
              entryKey = channel_of (lr_key record)
          in case map_of (sc_channels scope) entryKey of
               None \<Rightarrow> (zeroHealthUpdate, 0, releaseLeaseLocked a entryKey (put_scope a (releaseProbes scope entryKey token) s))
             | Some channel \<Rightarrow>
                 if hl_Key lease \<noteq> lr_key record \<or> hl_GlobalProbe lease \<noteq> lr_globalProbe record \<or>
                    hl_ChannelProbe lease \<noteq> lr_channelProbe record \<or> hl_Disabled lease \<noteq> lr_disabled record
                 then (zeroHealthUpdate, 0,
                       releaseLeaseLocked a entryKey (put_scope a (releaseProbes scope entryKey token) s))
                 else if \<not> sc_active scope
                 then (zeroHealthUpdate\<lparr>hu_GlobalState := globalState (se_state (sc_global scope)),
                                        hu_ChannelState := channelState (se_state channel)\<rparr>, 0,
                       releaseLeaseLocked a entryKey (put_scope a (releaseProbes scope entryKey token) s))
                 else
                   let observation = st_nextObservation s + 1;
                       s = s\<lparr>st_nextObservation := observation\<rparr>;
                       (now, s) = clock_now s;
                       out = (if o_ClientCanceled out then out\<lparr>o_Class := FailureClientCanceled\<rparr> else out);
                       (globalEntered, channelEntered, global, channel) =
                         applyOutcome (st_policy s) token now out observation (sc_global scope) channel;
                       update = \<lparr> hu_GlobalState = globalState (se_state global),
                         hu_ChannelState = channelState (se_state channel),
                         hu_GlobalEnteredCooldown = globalEntered, hu_ChannelEnteredCooldown = channelEntered,
                         hu_CooldownUntil =
                           (if globalEntered then timePointer (se_cooldownUntil global)
                            else if channelEntered then timePointer (se_cooldownUntil channel) else None) \<rparr>;
                       scope = scope\<lparr>sc_global := global, sc_channels := AList.update entryKey channel (sc_channels scope)\<rparr>
                   in (update, observation, releaseLeaseLocked a entryKey (put_scope a scope s)))"

section \<open>EarliestRetry and UpdateError\<close>

definition scopesForKeyLocked :: "HealthKey \<Rightarrow> store \<Rightarrow> providerScope list" where
  "scopesForKeyLocked key s =
     (case map_of (st_active s) (hk_ProviderID key) of
        Some a \<Rightarrow>
          (if sk_generation (sc_key (st_heap s a)) = hk_Generation key \<and> sk_epoch (sc_key (st_heap s a)) = hk_Epoch key
           then [st_heap s a] else [])
      | None \<Rightarrow> []) @
     concat (map (\<lambda>(rk, addrs). if rk_scopeKey rk \<noteq> scopeKey_of key then [] else map (st_heap s) addrs) (st_retired s))"

definition earlier :: "gotime \<Rightarrow> gotime \<Rightarrow> gotime" where
  "earlier earliest readyAt =
     (if readyAt \<noteq> 0 \<and> (earliest = 0 \<or> readyAt < earliest) then readyAt else earliest)"

definition EarliestRetry :: "HealthKey list \<Rightarrow> store \<Rightarrow> gotime \<times> bool \<times> store" where
  "EarliestRetry keys s =
     (let (now, s) = clock_now s;
          times = concat (map (\<lambda>key. map (\<lambda>scope. composedRetryAt now (sc_global scope)
                     (map_of (sc_channels scope) (channel_of key))) (scopesForKeyLocked key s)) keys);
          earliest = foldl earlier 0 times
      in (earliest, earliest \<noteq> 0, s))"

definition UpdateError :: "HealthLease \<Rightarrow> u64 \<Rightarrow> string \<Rightarrow> bool \<Rightarrow> bool \<Rightarrow> store \<Rightarrow> store" where
  "UpdateError lease observation raw incomplete truncated s =
     (case map_of (st_active s) (hk_ProviderID (hl_Key lease)) of
        None \<Rightarrow> s
      | Some a \<Rightarrow>
          let scope = st_heap s a; key = hl_Key lease in
          if observation = 0 \<or> sk_generation (sc_key scope) \<noteq> hk_Generation key \<or>
             sk_epoch (sc_key scope) \<noteq> hk_Epoch key \<or> sc_disableHealth scope \<noteq> hl_Disabled lease
          then s
          else
            let scope = scope\<lparr>sc_global := updateEntryError (sc_global scope) observation raw incomplete truncated\<rparr>
            in case map_of (sc_channels scope) (channel_of key) of
                 None \<Rightarrow> put_scope a scope s
               | Some c \<Rightarrow>
                   put_scope a (scope\<lparr>sc_channels := AList.update (channel_of key)
                     (updateEntryError c observation raw incomplete truncated) (sc_channels scope)\<rparr>) s)"

end
