(* ===== verification/Health_Invariant.thy ===== *)
theory Health_Invariant
  imports Health_Store
begin

text \<open>
  The invariant of the health store and its preservation by every operation. It says how
  the three views of the scopes agree: the map of active scopes, the map of retired scopes
  and the outstanding leases, with the lease counters of scopes and channels equal to the
  number of leases they serve and every half-open probe owned by one outstanding lease.
\<close>

section \<open>The invariant\<close>

abbreviation chan :: "leaseRecord \<Rightarrow> channelKey" where
  "chan r \<equiv> channel_of (lr_key r)"

definition scope_wf :: "providerScope \<Rightarrow> bool" where
  "scope_wf sc \<longleftrightarrow>
     entry_inv (sc_disableHealth sc) (sc_global sc) \<and> gdistinct (sc_channels sc) \<and>
     (\<forall>k e. map_of (sc_channels sc) k = Some e \<longrightarrow> entry_inv (sc_disableHealth sc) e) \<and>
     sc_modelSet sc = set (sc_models sc)"

text \<open>The counters and probes of the scope at address \<open>a\<close> agree with the lease table \<open>L\<close>.\<close>

definition scope_leases :: "(u64, leaseRecord) gomap \<Rightarrow> nat \<Rightarrow> providerScope \<Rightarrow> bool" where
  "scope_leases L a sc \<longleftrightarrow>
     sc_activeLeases sc = int (gcount (\<lambda>r. lr_scope r = a) L) \<and>
     (\<forall>k e. map_of (sc_channels sc) k = Some e \<longrightarrow>
        se_activeLeases e = int (gcount (\<lambda>r. lr_scope r = a \<and> chan r = k) L)) \<and>
     (\<forall>t r. map_of L t = Some r \<longrightarrow> lr_scope r = a \<longrightarrow>
        map_of (sc_channels sc) (chan r) \<noteq> None \<and> sc_key sc = scopeKey_of (lr_key r) \<and>
        sc_disableHealth sc = lr_disabled r)"

definition scope_probes :: "(u64, leaseRecord) gomap \<Rightarrow> nat \<Rightarrow> providerScope \<Rightarrow> bool" where
  "scope_probes L a sc \<longleftrightarrow>
     (se_probeToken (sc_global sc) \<noteq> 0 \<longrightarrow>
        (\<exists>r. map_of L (se_probeToken (sc_global sc)) = Some r \<and> lr_scope r = a \<and> lr_globalProbe r)) \<and>
     (\<forall>k e. map_of (sc_channels sc) k = Some e \<longrightarrow> se_probeToken e \<noteq> 0 \<longrightarrow>
        (\<exists>r. map_of L (se_probeToken e) = Some r \<and> lr_scope r = a \<and> chan r = k \<and> lr_channelProbe r))"

definition scope_ok :: "(u64, leaseRecord) gomap \<Rightarrow> nat \<Rightarrow> providerScope \<Rightarrow> bool" where
  "scope_ok L a sc \<longleftrightarrow> scope_wf sc \<and> scope_leases L a sc \<and> scope_probes L a sc"

text \<open>
  The two scope maps list exactly the active scopes and the retired scopes in use. While
  \<open>Acquire\<close> runs, a scope it just created (an address in \<open>E\<close>) is listed before its first
  lease exists.
\<close>

definition live_at :: "store \<Rightarrow> string \<Rightarrow> nat \<Rightarrow> bool" where
  "live_at s i a \<longleftrightarrow> a < st_nextAddr s \<and> sc_active (st_heap s a) \<and> sk_providerID (sc_key (st_heap s a)) = i"

definition active_ok :: "store \<Rightarrow> bool" where
  "active_ok s \<longleftrightarrow> gdistinct (st_active s) \<and> (\<forall>i a. map_of (st_active s) i = Some a \<longleftrightarrow> live_at s i a)"

definition retired_ok :: "nat set \<Rightarrow> store \<Rightarrow> bool" where
  "retired_ok E s \<longleftrightarrow>
     gdistinct (st_retired s) \<and>
     (\<forall>k a. a \<in> set (retired_at s k) \<longleftrightarrow>
        a < st_nextAddr s \<and> \<not> sc_active (st_heap s a) \<and> retiredKey_of (st_heap s a) = k \<and>
        (sc_activeLeases (st_heap s a) \<noteq> 0 \<or> a \<in> E)) \<and>
     (\<forall>k xs. map_of (st_retired s) k = Some xs \<longrightarrow> xs \<noteq> [] \<and> distinct xs)"

definition leases_ok :: "store \<Rightarrow> bool" where
  "leases_ok s \<longleftrightarrow> gdistinct (st_leases s) \<and>
     (\<forall>t r. map_of (st_leases s) t = Some r \<longrightarrow> t \<noteq> 0 \<and> lr_scope r < st_nextAddr s)"

definition scopes_ok :: "store \<Rightarrow> bool" where
  "scopes_ok s \<longleftrightarrow> (\<forall>a < st_nextAddr s. scope_ok (st_leases s) a (st_heap s a))"

definition store_inv :: "store \<Rightarrow> bool" where
  "store_inv s \<longleftrightarrow> policy_ok (st_policy s) \<and> leases_ok s \<and> active_ok s \<and> retired_ok {} s \<and> scopes_ok s"

lemma store_invI:
  assumes "policy_ok (st_policy s)" and "leases_ok s" and "active_ok s" and "retired_ok {} s" and "scopes_ok s"
  shows "store_inv s"
  using assms by (simp add: store_inv_def)

lemma store_invD:
  assumes "store_inv s"
  shows "policy_ok (st_policy s)" and "leases_ok s" and "active_ok s" and "retired_ok {} s" and "scopes_ok s"
  using assms by (simp_all add: store_inv_def)

lemma scopes_okD: "scopes_ok s \<Longrightarrow> a < st_nextAddr s \<Longrightarrow> scope_ok (st_leases s) a (st_heap s a)"
  by (simp add: scopes_ok_def)

lemma scope_okI:
  "scope_wf sc \<Longrightarrow> scope_leases L a sc \<Longrightarrow> scope_probes L a sc \<Longrightarrow> scope_ok L a sc"
  by (simp add: scope_ok_def)

lemma scope_okD:
  assumes "scope_ok L a sc"
  shows "scope_wf sc" "scope_leases L a sc" "scope_probes L a sc"
  using assms by (simp_all add: scope_ok_def)

lemma scope_leasesD:
  assumes "scope_leases L a sc"
  shows "sc_activeLeases sc = int (gcount (\<lambda>r. lr_scope r = a) L)"
    and "map_of (sc_channels sc) k = Some e \<Longrightarrow>
      se_activeLeases e = int (gcount (\<lambda>r. lr_scope r = a \<and> chan r = k) L)"
    and "map_of L t = Some r \<Longrightarrow> lr_scope r = a \<Longrightarrow> map_of (sc_channels sc) (chan r) \<noteq> None"
    and "map_of L t = Some r \<Longrightarrow> lr_scope r = a \<Longrightarrow> sc_key sc = scopeKey_of (lr_key r)"
    and "map_of L t = Some r \<Longrightarrow> lr_scope r = a \<Longrightarrow> sc_disableHealth sc = lr_disabled r"
  using assms unfolding scope_leases_def by metis+

lemma scope_probesD:
  assumes "scope_probes L a sc"
  shows "se_probeToken (sc_global sc) \<noteq> 0 \<Longrightarrow>
      \<exists>r. map_of L (se_probeToken (sc_global sc)) = Some r \<and> lr_scope r = a \<and> lr_globalProbe r"
    and "map_of (sc_channels sc) k = Some e \<Longrightarrow> se_probeToken e \<noteq> 0 \<Longrightarrow>
      \<exists>r. map_of L (se_probeToken e) = Some r \<and> lr_scope r = a \<and> chan r = k \<and> lr_channelProbe r"
  using assms unfolding scope_probes_def by metis+

lemma scope_ok_cong:
  assumes "scope_ok L a sc" and "sc_key sc' = sc_key sc" and "sc_disableHealth sc' = sc_disableHealth sc"
    and "sc_models sc' = sc_models sc" and "sc_modelSet sc' = sc_modelSet sc"
    and "sc_global sc' = sc_global sc" and "sc_channels sc' = sc_channels sc"
    and "sc_activeLeases sc' = sc_activeLeases sc"
  shows "scope_ok L a sc'"
  using assms by (simp add: scope_ok_def scope_wf_def scope_leases_def scope_probes_def)

section \<open>Scopes and the lease table\<close>

lemma scope_ok_insert_other:
  assumes "scope_ok L a sc" and "map_of L t = None" and "lr_scope r \<noteq> a"
  shows "scope_ok (AList.update t r L) a sc"
proof (rule scope_okI)
  note ok = scope_okD [OF assms(1)]
  show "scope_wf sc" by (rule ok(1))
  show "scope_leases (AList.update t r L) a sc"
    using ok(2) assms(2,3) by (auto simp: scope_leases_def gcount_update_fresh gomap_simps)
  show "scope_probes (AList.update t r L) a sc"
    unfolding scope_probes_def
    using scope_probesD [OF ok(3)] assms(2) by (fastforce simp: gomap_simps)
qed

lemma gcount_delete_other:
  "gdistinct L \<Longrightarrow> map_of L t = Some r \<Longrightarrow> \<not> P r \<Longrightarrow> gcount P (AList.delete t L) = gcount P L"
  using gcount_delete [of L t r P] by simp

lemma scope_ok_delete_other:
  assumes "scope_ok L a sc" and "gdistinct L" and "map_of L t = Some r" and "lr_scope r \<noteq> a"
  shows "scope_ok (AList.delete t L) a sc"
proof (rule scope_okI)
  note ok = scope_okD [OF assms(1)]
  show "scope_wf sc" by (rule ok(1))
  show "scope_leases (AList.delete t L) a sc"
    using ok(2) assms(2-4) by (auto simp: scope_leases_def gcount_delete_other gomap_simps)
  show "scope_probes (AList.delete t L) a sc"
    unfolding scope_probes_def
    using scope_probesD [OF ok(3)] assms(3,4) by (fastforce simp: gomap_simps)
qed

text \<open>A scope no lease refers to.\<close>

lemma scope_ok_unused:
  assumes "scope_wf sc" and "sc_activeLeases sc = 0" and "se_probeToken (sc_global sc) = 0"
    and "\<And>k e. map_of (sc_channels sc) k = Some e \<Longrightarrow> se_activeLeases e = 0 \<and> se_probeToken e = 0"
    and "\<And>t r. map_of L t = Some r \<Longrightarrow> lr_scope r \<noteq> a" and "gdistinct L"
  shows "scope_ok L a sc"
proof -
  have zero: "gcount (\<lambda>r. lr_scope r = a \<and> Q r) L = 0" for Q
    using assms(5,6) by (metis (mono_tags, lifting) gcount_posE neq0_conv)
  show ?thesis
    using assms zero [of "\<lambda>_. True"] zero
    by (auto simp: scope_ok_def scope_leases_def scope_probes_def)
qed

text \<open>A channel that is missing serves no lease, so a fresh entry can be added for it.\<close>

lemma missing_channel_unused:
  assumes "scope_leases L a sc" and "gdistinct L" and "map_of (sc_channels sc) k = None"
  shows "gcount (\<lambda>r. lr_scope r = a \<and> chan r = k) L = 0"
proof (rule ccontr)
  assume "gcount (\<lambda>r. lr_scope r = a \<and> chan r = k) L \<noteq> 0"
  then obtain t r where "map_of L t = Some r" "lr_scope r = a" "chan r = k"
    using assms(2) by (metis (mono_tags, lifting) gcount_posE neq0_conv)
  with scope_leasesD(3) [OF assms(1)] assms(3) show False by blast
qed

lemma scope_ok_add_channel:
  assumes "scope_ok L a sc" and "gdistinct L" and "map_of (sc_channels sc) k = None"
    and "entry_inv (sc_disableHealth sc) e" and "se_activeLeases e = 0" and "se_probeToken e = 0"
  shows "scope_ok L a (sc\<lparr>sc_channels := AList.update k e (sc_channels sc)\<rparr>)"
  using assms missing_channel_unused [OF scope_okD(2) [OF assms(1)] assms(2,3)]
  by (auto simp: scope_ok_def scope_wf_def scope_leases_def scope_probes_def gomap_simps)

text \<open>
  Rewriting the global entry and one channel entry, when lease counters stay and probe
  tokens stay or are cleared.
\<close>

lemma scope_ok_entries:
  assumes "scope_ok L a sc" and "map_of (sc_channels sc) k = Some c"
    and "entry_inv (sc_disableHealth sc) g'" and "entry_inv (sc_disableHealth sc) c'"
    and "se_activeLeases c' = se_activeLeases c"
    and "se_probeToken g' \<in> {0, se_probeToken (sc_global sc)}"
    and "se_probeToken c' \<in> {0, se_probeToken c}"
  shows "scope_ok L a (sc\<lparr>sc_global := g', sc_channels := AList.update k c' (sc_channels sc)\<rparr>)"
proof (rule scope_okI)
  let ?sc = "sc\<lparr>sc_global := g', sc_channels := AList.update k c' (sc_channels sc)\<rparr>"
  note ok = scope_okD [OF assms(1)]
  show "scope_wf ?sc" using ok(1) assms(3,4) by (auto simp: scope_wf_def gomap_simps)
  show "scope_leases L a ?sc" using ok(2) assms(2,5) by (auto simp: scope_leases_def gomap_simps)
  show "scope_probes L a ?sc" using ok(3) assms(2,6,7) by (auto simp: scope_probes_def gomap_simps)
qed

text \<open>Issuing a lease on the scope at \<open>a\<close>.\<close>

lemma scope_ok_issue:
  assumes "scope_ok L a sc" and "map_of (sc_channels sc) k = Some c" and "map_of L t = None" and "t \<noteq> 0"
    and "lr_scope r = a" and "chan r = k" and "sc_key sc = scopeKey_of (lr_key r)"
    and "sc_disableHealth sc = lr_disabled r"
    and "lr_globalProbe r \<Longrightarrow> se_state (sc_global sc) = stateHalfOpen"
    and "lr_channelProbe r \<Longrightarrow> se_state c = stateHalfOpen"
  shows "scope_ok (AList.update t r L) a
    (sc\<lparr>sc_global := (if lr_globalProbe r then (sc_global sc)\<lparr>se_probeToken := t\<rparr> else sc_global sc),
        sc_channels := AList.update k ((if lr_channelProbe r then c\<lparr>se_probeToken := t\<rparr> else c)
           \<lparr>se_activeLeases := se_activeLeases c + 1\<rparr>) (sc_channels sc),
        sc_activeLeases := sc_activeLeases sc + 1\<rparr>)" (is "scope_ok ?L a ?sc")
proof (rule scope_okI)
  note ok = scope_okD [OF assms(1)]
  show "scope_wf ?sc"
    using ok(1) assms(2,9,10) by (auto simp: scope_wf_def gomap_simps entry_inv_def)
  show "scope_leases ?L a ?sc"
    using ok(2) assms(2-8) by (auto simp: scope_leases_def gomap_simps gcount_update_fresh)
  show "scope_probes ?L a ?sc"
  proof -
    have old: "\<exists>r'. map_of ?L u = Some r' \<and> Q r'" if "\<exists>r'. map_of L u = Some r' \<and> Q r'" for u Q
      using that assms(3) by (auto simp: gomap_simps)
    have new: "map_of ?L t = Some r" by (simp add: gomap_simps)
    show ?thesis
      unfolding scope_probes_def
    proof (intro conjI allI impI)
      show "\<exists>r'. map_of ?L (se_probeToken (sc_global ?sc)) = Some r' \<and> lr_scope r' = a \<and> lr_globalProbe r'"
        if "se_probeToken (sc_global ?sc) \<noteq> 0"
        using old [OF scope_probesD(1) [OF ok(3)]] new assms(5) that by (cases "lr_globalProbe r") auto
      fix k' e assume e: "map_of (sc_channels ?sc) k' = Some e" "se_probeToken e \<noteq> 0"
      show "\<exists>r'. map_of ?L (se_probeToken e) = Some r' \<and> lr_scope r' = a \<and> chan r' = k' \<and> lr_channelProbe r'"
      proof (cases "k' = k")
        case True
        with e(1) have "e = (if lr_channelProbe r then c\<lparr>se_probeToken := t\<rparr> else c)
           \<lparr>se_activeLeases := se_activeLeases c + 1\<rparr>" by (simp add: gomap_simps)
        with old [OF scope_probesD(2) [OF ok(3) assms(2)]] new assms(5,6) e(2) True show ?thesis
          by (cases "lr_channelProbe r") auto
      next
        case False
        with e have "map_of (sc_channels sc) k' = Some e" by (simp add: gomap_simps)
        from old [OF scope_probesD(2) [OF ok(3) this e(2)]] show ?thesis .
      qed
    qed
  qed
qed

text \<open>
  Consuming the lease \<open>t\<close>: its counters are taken down and its channel is dropped when
  nobody configures or uses it any more.
\<close>

lemma releaseScope_frame [frame_simps]:
  "sc_key (releaseScope sc k) = sc_key sc" "sc_disableHealth (releaseScope sc k) = sc_disableHealth sc"
  "sc_active (releaseScope sc k) = sc_active sc" "sc_global (releaseScope sc k) = sc_global sc"
  "sc_models (releaseScope sc k) = sc_models sc" "sc_modelSet (releaseScope sc k) = sc_modelSet sc"
  "retiredKey_of (releaseScope sc k) = retiredKey_of sc"
  by (auto simp: releaseScope_def retiredKey_of_def Let_def split: option.splits)

lemma releaseScope_counts:
  assumes "0 < sc_activeLeases sc" and "map_of (sc_channels sc) k = Some c" and "0 < se_activeLeases c"
  shows "sc_activeLeases (releaseScope sc k) = sc_activeLeases sc - 1"
    and "map_of (sc_channels (releaseScope sc k)) k' =
      (if k' = k
       then (if ck_model k \<notin> sc_modelSet sc \<and> se_activeLeases c = 1 then None
             else Some (c\<lparr>se_activeLeases := se_activeLeases c - 1\<rparr>))
       else map_of (sc_channels sc) k')"
    and "gdistinct (sc_channels sc) \<Longrightarrow> gdistinct (sc_channels (releaseScope sc k))"
  using assms by (auto simp: releaseScope_def gomap_simps Let_def)

lemma scope_ok_release:
  assumes "scope_ok L a sc" and "gdistinct L" and "map_of L t = Some r" and "lr_scope r = a"
    and "chan r = k" and "se_probeToken (sc_global sc) \<noteq> t"
    and "\<And>c. map_of (sc_channels sc) k = Some c \<Longrightarrow> se_probeToken c \<noteq> t"
  shows "scope_ok (AList.delete t L) a (releaseScope sc k)" (is "scope_ok ?L a ?sc")
    and "sc_activeLeases (releaseScope sc k) = sc_activeLeases sc - 1"
proof -
  note ok = scope_okD [OF assms(1)]
  obtain c where c: "map_of (sc_channels sc) k = Some c"
    using scope_leasesD(3) [OF ok(2) assms(3,4)] assms(5) by auto
  have cnt: "gcount P L = gcount P ?L + (if P r then 1 else 0)" for P
    by (rule gcount_delete [OF assms(2,3)])
  have pos: "0 < sc_activeLeases sc" "0 < se_activeLeases c"
    using ok(2) c cnt [of "\<lambda>r. lr_scope r = a"] cnt [of "\<lambda>r. lr_scope r = a \<and> chan r = k"] assms(4,5)
    by (auto simp: scope_leases_def)
  note rel = releaseScope_counts [OF pos(1) c pos(2)]
  show "sc_activeLeases (releaseScope sc k) = sc_activeLeases sc - 1" by (rule rel(1))
  show "scope_ok ?L a ?sc"
  proof (rule scope_okI)
    show "scope_wf ?sc"
      using ok(1) c by (auto simp: scope_wf_def frame_simps rel entry_inv_def split: if_splits)
    show "scope_leases ?L a ?sc"
      unfolding scope_leases_def
    proof (intro conjI allI impI)
      show "sc_activeLeases ?sc = int (gcount (\<lambda>r. lr_scope r = a) ?L)"
        using ok(2) cnt [of "\<lambda>r. lr_scope r = a"] assms(4) by (simp add: rel scope_leases_def)
      show "se_activeLeases e = int (gcount (\<lambda>r. lr_scope r = a \<and> chan r = k') ?L)"
        if "map_of (sc_channels ?sc) k' = Some e" for k' e
        using ok(2) c that cnt [of "\<lambda>r. lr_scope r = a \<and> chan r = k'"] assms(4,5)
        by (auto simp: rel scope_leases_def split: if_splits)
      fix t' r' assume r': "map_of ?L t' = Some r'" "lr_scope r' = a"
      then have L: "map_of L t' = Some r'" "t' \<noteq> t" by (auto simp: gomap_simps split: if_splits)
      show "sc_key ?sc = scopeKey_of (lr_key r')" "sc_disableHealth ?sc = lr_disabled r'"
        using ok(2) L(1) r'(2) by (auto simp: scope_leases_def frame_simps)
      have old: "map_of (sc_channels sc) (chan r') \<noteq> None"
        using ok(2) L(1) r'(2) by (auto simp: scope_leases_def)
      show "map_of (sc_channels ?sc) (chan r') \<noteq> None"
      proof (cases "chan r' = k")
        case True
        have "0 < gcount (\<lambda>r. lr_scope r = a \<and> chan r = k) ?L"
          using r' True by (auto intro: gcount_pos)
        moreover have "se_activeLeases c = int (gcount (\<lambda>r. lr_scope r = a \<and> chan r = k) L)"
          using ok(2) c by (auto simp: scope_leases_def)
        ultimately show ?thesis
          using True cnt [of "\<lambda>r. lr_scope r = a \<and> chan r = k"] assms(4,5) by (auto simp: rel)
      qed (use old in \<open>simp add: rel\<close>)
    qed
    show "scope_probes ?L a ?sc"
    proof -
      have "se_probeToken e \<noteq> t" if "map_of (sc_channels sc) k' = Some e" "se_probeToken e \<noteq> 0" for k' e
        using scope_probesD(2) [OF ok(3) that] that assms(3,5,7) by (cases "k' = k") auto
      with ok(3) c assms(6,7) show ?thesis
        unfolding scope_probes_def by (auto simp: rel frame_simps gomap_simps split: if_splits)
    qed
  qed
qed

end
