(* ===== verification/Health_Operations.thy ===== *)
theory Health_Operations
  imports Health_Invariant
begin

text \<open>
  Every operation of the health store keeps the store invariant. The proofs follow the
  operations: what each does to one scope is a lemma of \<open>Health_Invariant\<close>, what it does to
  the two scope maps is shown here.
\<close>

section \<open>Fields the invariant does not read\<close>

lemma store_inv_reads [simp]:
  "store_inv (s\<lparr>st_reads := n\<rparr>) = store_inv s" "store_inv (s\<lparr>st_nextObservation := ob\<rparr>) = store_inv s"
  by (simp_all add: store_inv_def leases_ok_def active_ok_def retired_ok_def scopes_ok_def live_at_def
      retired_at_def)

lemma retired_at_update:
  "retired_at (s\<lparr>st_retired := AList.update k xs (st_retired s)\<rparr>) k' = (if k' = k then xs else retired_at s k')"
  by (simp add: retired_at_def gomap_simps)

lemma retired_at_delete:
  "retired_at (s\<lparr>st_retired := AList.delete k (st_retired s)\<rparr>) k' = (if k' = k then [] else retired_at s k')"
  by (simp add: retired_at_def gomap_simps)

lemma retired_at_frame [simp]:
  "retired_at (s\<lparr>st_heap := h\<rparr>) k = retired_at s k" "retired_at (s\<lparr>st_active := m\<rparr>) k = retired_at s k"
  "retired_at (s\<lparr>st_leases := l\<rparr>) k = retired_at s k" "retired_at (s\<lparr>st_nextAddr := n\<rparr>) k = retired_at s k"
  "retired_at (s\<lparr>st_nextToken := t\<rparr>) k = retired_at s k" "retired_at (s\<lparr>st_reads := n\<rparr>) k = retired_at s k"
  "retired_at (s\<lparr>st_nextObservation := t\<rparr>) k = retired_at s k"
  by (simp_all add: retired_at_def)

lemma New_inv:
  assumes "New p clk = Inr s" and "length (po_Cooldowns p) = 5"
  shows "store_inv s"
proof -
  have "policy_ok (st_policy s)"
    using assms DefaultPolicy_ok by (auto simp: New_def Let_def policy_ok_def split: option.splits if_splits)
  with assms(1) show ?thesis
    by (auto simp: New_def Let_def store_inv_def leases_ok_def active_ok_def retired_ok_def scopes_ok_def
        live_at_def retired_at_def split: option.splits)
qed

section \<open>Writing one scope\<close>

lemma put_scope_active_ok:
  assumes "active_ok s" and "sc_active sc = sc_active (st_heap s a)" and "sc_key sc = sc_key (st_heap s a)"
  shows "active_ok (put_scope a sc s)"
  using assms by (auto simp: active_ok_def live_at_def)

lemma put_scope_retired_ok:
  assumes "retired_ok E s" and "sc_active sc = sc_active (st_heap s a)" and "sc_key sc = sc_key (st_heap s a)"
    and "sc_disableHealth sc = sc_disableHealth (st_heap s a)"
    and "\<not> sc_active sc \<Longrightarrow> (sc_activeLeases sc \<noteq> 0 \<or> a \<in> E') = (sc_activeLeases (st_heap s a) \<noteq> 0 \<or> a \<in> E)"
    and "E' - {a} = E - {a}"
  shows "retired_ok E' (put_scope a sc s)"
proof -
  have "b \<in> E' \<longleftrightarrow> b \<in> E" if "b \<noteq> a" for b using assms(6) that by blast
  with assms(1-5) show ?thesis unfolding retired_ok_def by (auto simp: retiredKey_of_def)
qed

lemma put_scope_scopes_ok:
  assumes "scopes_ok s" and "scope_ok (st_leases s) a sc"
  shows "scopes_ok (put_scope a sc s)"
  using assms by (simp add: scopes_ok_def)

lemma put_scope_inv:
  assumes "store_inv s" and "sc_active sc = sc_active (st_heap s a)" and "sc_key sc = sc_key (st_heap s a)"
    and "sc_disableHealth sc = sc_disableHealth (st_heap s a)"
    and "sc_activeLeases sc = sc_activeLeases (st_heap s a)"
    and "a < st_nextAddr s \<Longrightarrow> scope_ok (st_leases s) a sc"
  shows "store_inv (put_scope a sc s)"
proof (rule store_invI)
  note inv = store_invD [OF assms(1)]
  show "policy_ok (st_policy (put_scope a sc s))" "leases_ok (put_scope a sc s)"
    using inv(1,2) by (simp_all add: leases_ok_def)
  show "active_ok (put_scope a sc s)" using inv(3) assms(2,3) by (rule put_scope_active_ok)
  show "retired_ok {} (put_scope a sc s)"
    using inv(4) assms(2-5) by (intro put_scope_retired_ok [where E = "{}"]) auto
  show "scopes_ok (put_scope a sc s)" using inv(5) assms(6) by (simp add: scopes_ok_def)
qed

section \<open>Reconcile\<close>

text \<open>
  The state between retiring the scope of provider \<open>i\<close> and installing its successor: no
  scope of \<open>i\<close> is active, and what the map says about \<open>i\<close> is stale.
\<close>

definition orphaned :: "string \<Rightarrow> store \<Rightarrow> bool" where
  "orphaned i s \<longleftrightarrow> policy_ok (st_policy s) \<and> leases_ok s \<and> retired_ok {} s \<and> scopes_ok s \<and>
     gdistinct (st_active s) \<and> (\<forall>a. \<not> live_at s i a) \<and>
     (\<forall>j a. j \<noteq> i \<longrightarrow> (map_of (st_active s) j = Some a \<longleftrightarrow> live_at s j a))"

lemma retireLocked_frame [frame_simps]:
  "st_leases (retireLocked a s) = st_leases s" "st_policy (retireLocked a s) = st_policy s"
  "st_nextAddr (retireLocked a s) = st_nextAddr s" "st_active (retireLocked a s) = st_active s"
  "st_heap (retireLocked a s) = (st_heap s)(a := (st_heap s a)\<lparr>sc_active := False\<rparr>)"
  by (simp_all add: retireLocked_def Let_def)

lemma retireLocked_active_commute:
  "retireLocked a (s\<lparr>st_active := m\<rparr>) = (retireLocked a s)\<lparr>st_active := m\<rparr>"
  by (simp add: retireLocked_def Let_def)

lemma retireLocked_retired_ok:
  assumes "retired_ok {} s" and "a < st_nextAddr s" and "sc_active (st_heap s a)"
  shows "retired_ok {} (retireLocked a s)"
proof -
  let ?sc = "(st_heap s a)\<lparr>sc_active := False\<rparr>"
  let ?k = "retiredKey_of ?sc"
  have not_in: "a \<notin> set (retired_at s k)" for k using assms by (auto simp: retired_ok_def)
  have key: "retiredKey_of ?sc = retiredKey_of (st_heap s a)" by (simp add: retiredKey_of_def)
  have ne: "map_of (st_retired s) ?k = Some xs \<Longrightarrow> distinct xs" for xs
    using assms(1) by (auto simp: retired_ok_def)
  have dist: "distinct (retired_at s ?k @ [a])"
    using ne not_in [of ?k] by (auto simp: retired_at_def split: option.splits)
  show ?thesis
  proof (cases "sc_activeLeases (st_heap s a) = 0")
    case True
    with assms not_in show ?thesis
      unfolding retired_ok_def by (auto simp: retireLocked_def Let_def retiredKey_of_def)
  next
    case False
    then have r: "retireLocked a s =
        (put_scope a ?sc s)\<lparr>st_retired := AList.update ?k (retired_at s ?k @ [a]) (st_retired s)\<rparr>"
      using not_in by (simp add: retireLocked_def Let_def)
    have at: "retired_at (retireLocked a s) k = (if k = ?k then retired_at s ?k @ [a] else retired_at s k)" for k
      by (simp add: r retired_at_def gomap_simps)
    show ?thesis
      unfolding retired_ok_def
    proof (intro conjI allI)
      show "gdistinct (st_retired (retireLocked a s))"
        using assms(1) by (simp add: r retired_ok_def)
      show "(b \<in> set (retired_at (retireLocked a s) k)) =
          (b < st_nextAddr (retireLocked a s) \<and> \<not> sc_active (st_heap (retireLocked a s) b) \<and>
           retiredKey_of (st_heap (retireLocked a s) b) = k \<and>
           (sc_activeLeases (st_heap (retireLocked a s) b) \<noteq> 0 \<or> b \<in> {}))" for k b
        using assms not_in [of k] False
        unfolding at retired_ok_def frame_simps by (cases "b = a") (auto simp: retiredKey_of_def)
      show "map_of (st_retired (retireLocked a s)) k = Some xs \<longrightarrow> xs \<noteq> [] \<and> distinct xs" for k xs
        using assms(1) dist by (auto simp: r gomap_simps retired_ok_def)
    qed
  qed
qed

lemma retireLocked_orphaned:
  assumes "store_inv s" and "map_of (st_active s) i = Some a"
  shows "orphaned i (retireLocked a s)"
proof -
  note inv = store_invD [OF assms(1)]
  have live: "live_at s i a" and uniq: "\<And>b. live_at s i b \<Longrightarrow> b = a"
    using inv(3) assms(2) unfolding active_ok_def by (metis option.inject)+
  from live have a: "a < st_nextAddr s" "sc_active (st_heap s a)" "sk_providerID (sc_key (st_heap s a)) = i"
    by (simp_all add: live_at_def)
  have scopes: "scopes_ok (retireLocked a s)"
    unfolding scopes_ok_def frame_simps
  proof (intro allI impI)
    fix b assume "b < st_nextAddr s"
    then have "scope_ok (st_leases s) b (st_heap s b)" using inv(5) by (rule scopes_okD [rotated])
    then show "scope_ok (st_leases s) b (((st_heap s)(a := (st_heap s a)\<lparr>sc_active := False\<rparr>)) b)"
      by (cases "b = a") (auto intro: scope_ok_cong)
  qed
  have live': "live_at (retireLocked a s) j b \<longleftrightarrow> b \<noteq> a \<and> live_at s j b" for j b
    by (auto simp: live_at_def frame_simps)
  have other: "live_at s j b \<Longrightarrow> j \<noteq> i \<Longrightarrow> b \<noteq> a" for j b using a(3) by (auto simp: live_at_def)
  show ?thesis
    unfolding orphaned_def
  proof (intro conjI allI impI)
    show "policy_ok (st_policy (retireLocked a s))" "leases_ok (retireLocked a s)"
      "gdistinct (st_active (retireLocked a s))"
      using inv(1,2,3) by (simp_all add: leases_ok_def active_ok_def frame_simps)
    show "retired_ok {} (retireLocked a s)" by (rule retireLocked_retired_ok [OF inv(4) a(1,2)])
    show "\<not> live_at (retireLocked a s) i b" for b using uniq live' by blast
    show "(map_of (st_active (retireLocked a s)) j = Some b) = live_at (retireLocked a s) j b" if "j \<noteq> i" for j b
      using inv(3) other that unfolding active_ok_def live' frame_simps by blast
  qed (rule scopes)
qed

lemma missing_orphaned:
  assumes "store_inv s" and "map_of (st_active s) i = None"
  shows "orphaned i s"
  using assms unfolding orphaned_def store_inv_def active_ok_def by (metis option.distinct(1))

lemma orphaned_delete_inv:
  assumes "orphaned i s"
  shows "store_inv (s\<lparr>st_active := AList.delete i (st_active s)\<rparr>)"
  using assms
  by (auto simp: orphaned_def store_inv_def leases_ok_def active_ok_def retired_ok_def scopes_ok_def
      live_at_def gomap_simps)

lemma orphaned_install_inv:
  assumes "orphaned i s" and "scope_ok (st_leases s) (st_nextAddr s) fresh" and "sc_active fresh"
    and "sk_providerID (sc_key fresh) = i"
  shows "store_inv (installScope i fresh s)" (is "store_inv ?s")
proof (rule store_invI)
  note o = assms(1) [unfolded orphaned_def]
  have live: "live_at ?s j b \<longleftrightarrow> (j = i \<and> b = st_nextAddr s) \<or> (b < st_nextAddr s \<and> live_at s j b)" for j b
    using assms(3,4) by (auto simp: live_at_def installScope_def less_Suc_eq)
  show "policy_ok (st_policy ?s)" "leases_ok ?s"
    using o by (auto simp: installScope_def leases_ok_def less_Suc_eq)
  have at: "map_of (st_active ?s) j = (if j = i then Some (st_nextAddr s) else map_of (st_active s) j)" for j
    by (simp add: installScope_def gomap_simps)
  have bound: "live_at s j b \<Longrightarrow> b < st_nextAddr s" for j b by (simp add: live_at_def)
  have "(map_of (st_active ?s) j = Some b) = live_at ?s j b" for j b
    using o bound by (cases "j = i") (auto simp: at live)
  moreover have "gdistinct (st_active ?s)" using o by (simp add: installScope_def)
  ultimately show "active_ok ?s" by (simp add: active_ok_def)
  show "retired_ok {} ?s"
    using o assms(3) unfolding retired_ok_def
    by (auto simp: installScope_def less_Suc_eq split: if_splits)
  show "scopes_ok ?s"
    using o assms(2) by (auto simp: scopes_ok_def installScope_def less_Suc_eq)
qed

text \<open>Fresh scopes.\<close>

lemma new_channels:
  "map_of (foldl (\<lambda>m x. AList.update (f x) v m) m xs) k =
     (if k \<in> f ` set xs then Some v else map_of m k)"
  "gdistinct m \<Longrightarrow> gdistinct (foldl (\<lambda>m x. AList.update (f x) v m) m xs)"
  by (induction xs arbitrary: m) (auto simp: gomap_simps)

text \<open>A scope that serves nothing yet: what a new scope is, inherited from or not.\<close>

definition pristine :: "providerScope \<Rightarrow> bool" where
  "pristine sc \<longleftrightarrow> scope_wf sc \<and> sc_activeLeases sc = 0 \<and> se_probeToken (sc_global sc) = 0 \<and>
     (\<forall>k e. map_of (sc_channels sc) k = Some e \<longrightarrow> se_activeLeases e = 0 \<and> se_probeToken e = 0)"

lemma newEntry_fields [simp]:
  "se_activeLeases (newEntry st) = 0" "se_probeToken (newEntry st) = 0" "se_state (newEntry st) = st"
  by (simp_all add: newEntry_def)

lemma newScope_pristine: "pristine (newScope p)"
  by (auto simp: pristine_def scope_wf_def newScope_def Let_def new_channels newEntry_inv split: if_splits)

lemma newRetiredScope_pristine: "pristine (newRetiredScope key d)"
  by (auto simp: pristine_def scope_wf_def newRetiredScope_def newEntry_inv split: if_splits)

lemma inheritChannel_pristine:
  assumes "pristine t" and "entry_inv d e" and "preserve \<longrightarrow> d = sc_disableHealth t"
  shows "pristine (inheritChannel preserve t (k, e))"
proof (cases "ck_model k \<in> sc_modelSet t")
  case True
  let ?old = "case map_of (sc_channels t) k of Some e \<Rightarrow> e | None \<Rightarrow> newEntry (initialState (sc_disableHealth t))"
  have old: "entry_inv (sc_disableHealth t) ?old" "se_probeToken ?old = 0" "se_activeLeases ?old = 0"
    using assms(1) by (auto simp: pristine_def scope_wf_def newEntry_inv split: option.splits)
  have "entry_inv (sc_disableHealth t) (inheritState ?old e preserve)"
    using old assms(2,3) by (intro inheritState_inv) auto
  with True old assms(1) show ?thesis
    by (auto simp: inheritChannel_def Let_def pristine_def scope_wf_def gomap_simps frame_simps)
qed (use assms(1) in \<open>simp add: inheritChannel_def\<close>)

lemma inheritChannel_frame [frame_simps]:
  "sc_key (inheritChannel b t ke) = sc_key t" "sc_active (inheritChannel b t ke) = sc_active t"
  "sc_disableHealth (inheritChannel b t ke) = sc_disableHealth t"
  by (auto simp: inheritChannel_def Let_def split: prod.splits)

lemma inheritScopeState_spec:
  assumes "pristine t" and "scope_wf src"
  shows "pristine (inheritScopeState t src)" and "sc_key (inheritScopeState t src) = sc_key t"
    and "sc_active (inheritScopeState t src) = sc_active t"
    and "sc_disableHealth (inheritScopeState t src) = sc_disableHealth t"
proof -
  let ?b = "sc_disableHealth t = sc_disableHealth src"
  have step: "pristine (foldl (inheritChannel ?b) u cs) \<and> sc_key (foldl (inheritChannel ?b) u cs) = sc_key u \<and>
      sc_active (foldl (inheritChannel ?b) u cs) = sc_active u \<and>
      sc_disableHealth (foldl (inheritChannel ?b) u cs) = sc_disableHealth u"
    if "pristine u" "sc_disableHealth u = sc_disableHealth t"
      "\<And>k e. (k, e) \<in> set cs \<Longrightarrow> entry_inv (sc_disableHealth src) e" for u cs
    using that
  proof (induction cs arbitrary: u)
    case (Cons ke cs)
    obtain k e where [simp]: "ke = (k, e)" by force
    have "pristine (inheritChannel ?b u (k, e))"
      using Cons.prems by (intro inheritChannel_pristine [of _ "sc_disableHealth src"]) auto
    moreover have "sc_disableHealth (inheritChannel ?b u (k, e)) = sc_disableHealth t"
      using Cons.prems(2) by (simp add: frame_simps)
    moreover have "\<And>k e. (k, e) \<in> set cs \<Longrightarrow> entry_inv (sc_disableHealth src) e" using Cons.prems(3) by auto
    ultimately show ?case using Cons.IH [of "inheritChannel ?b u (k, e)"] by (simp add: frame_simps)
  qed simp
  let ?u = "t\<lparr>sc_global := inheritState (sc_global t) (sc_global src) ?b\<rparr>"
  have "entry_inv (sc_disableHealth t) (inheritState (sc_global t) (sc_global src) ?b)"
    using assms by (intro inheritState_inv [of "sc_disableHealth src"]) (auto simp: pristine_def scope_wf_def)
  then have "pristine ?u" using assms(1) by (auto simp: pristine_def scope_wf_def frame_simps)
  moreover have "entry_inv (sc_disableHealth src) e" if "(k, e) \<in> set (sc_channels src)" for k e
    using assms(2) that by (auto simp: scope_wf_def map_of_eq_Some_iff)
  ultimately show "pristine (inheritScopeState t src)" "sc_key (inheritScopeState t src) = sc_key t"
    "sc_active (inheritScopeState t src) = sc_active t"
    "sc_disableHealth (inheritScopeState t src) = sc_disableHealth t"
    using step [of ?u "sc_channels src"] by (auto simp: inheritScopeState_def Let_def)
qed

lemma pristine_scope_ok:
  assumes "pristine sc" and "leases_ok s"
  shows "scope_ok (st_leases s) (st_nextAddr s) sc"
  using assms by (intro scope_ok_unused) (fastforce simp: pristine_def leases_ok_def)+

lemma scope_ok_drop_channels:
  assumes "scope_ok L a sc" and "gdistinct L"
    and "\<And>k e. map_of (sc_channels sc) k = Some e \<Longrightarrow> \<not> keep k e \<Longrightarrow> se_activeLeases e = 0"
  shows "scope_ok L a (sc\<lparr>sc_channels := gfilter keep (sc_channels sc)\<rparr>)" (is "scope_ok L a ?sc")
proof (rule scope_okI)
  note ok = scope_okD [OF assms(1)]
  have d: "gdistinct (sc_channels sc)" using ok(1) by (simp add: scope_wf_def)
  have sub: "map_of (gfilter keep (sc_channels sc)) k = Some e \<longleftrightarrow> map_of (sc_channels sc) k = Some e \<and> keep k e" for k e
    using d by (auto simp: gomap_simps split: option.splits)
  show "scope_wf ?sc" using ok(1) by (auto simp: scope_wf_def sub)
  show "scope_leases L a ?sc"
    unfolding scope_leases_def
  proof (intro conjI allI impI)
    fix t r assume r: "map_of L t = Some r" "lr_scope r = a"
    then obtain e where e: "map_of (sc_channels sc) (chan r) = Some e"
      using scope_leasesD(3) [OF ok(2)] by blast
    have "se_activeLeases e \<noteq> 0"
      using scope_leasesD(2) [OF ok(2) e] gcount_pos [OF r(1), of "\<lambda>r'. lr_scope r' = a \<and> chan r' = chan r"] r(2)
      by simp
    with e assms(3) sub show "map_of (sc_channels ?sc) (chan r) \<noteq> None" by fastforce
  qed (use scope_leasesD [OF ok(2)] sub in auto)
  show "scope_probes L a ?sc"
    unfolding scope_probes_def using scope_probesD [OF ok(3)] by (auto simp: sub)
qed

lemma add_normal_channels_ok:
  assumes "scope_ok L a sc" and "gdistinct L"
  shows "scope_ok L a (sc\<lparr>sc_channels := foldl (addNormalChannel (sc_disableHealth sc)) (sc_channels sc) models\<rparr>)"
  using assms(1)
proof (induction models arbitrary: sc)
  case (Cons m ms)
  let ?c = "addNormalChannel (sc_disableHealth sc) (sc_channels sc) m"
  have "scope_ok L a (sc\<lparr>sc_channels := ?c\<rparr>)"
  proof (cases "map_of (sc_channels sc) (normal_channel m)")
    case None
    with Cons.prems assms(2) show ?thesis
      by (simp add: addNormalChannel_def scope_ok_add_channel newEntry_inv)
  qed (use Cons.prems in \<open>simp add: addNormalChannel_def\<close>)
  from Cons.IH [OF this] show ?case by simp
qed (auto intro: scope_ok_cong)

lemma scope_ok_models:
  assumes "scope_ok L a sc"
  shows "scope_ok L a (sc\<lparr>sc_models := ms, sc_modelSet := set ms\<rparr>)"
  using scope_okD [OF assms]
  by (intro scope_okI) (simp_all add: scope_wf_def scope_leases_def scope_probes_def)

lemma reconcileModelsLocked_ok:
  assumes "scope_ok L a sc" and "gdistinct L"
  shows "scope_ok L a (reconcileModelsLocked sc models)"
proof -
  let ?c = "foldl (addNormalChannel (sc_disableHealth sc)) (sc_channels sc) models"
  let ?keep = "\<lambda>key entry. \<not> (ck_model key \<notin> set models \<and> se_activeLeases entry = 0)"
  have "scope_ok L a ((sc\<lparr>sc_channels := ?c\<rparr>)\<lparr>sc_channels := gfilter ?keep (sc_channels (sc\<lparr>sc_channels := ?c\<rparr>))\<rparr>)"
    by (rule scope_ok_drop_channels [OF add_normal_channels_ok [OF assms] assms(2)]) simp
  from scope_ok_models [OF this, of models] show ?thesis
    by (simp add: reconcileModelsLocked_def Let_def)
qed

lemma reconcileProvider_inv:
  assumes "store_inv s"
  shows "store_inv (reconcileProvider s item)"
proof (cases "map_of (st_active s) (cp_ID item)")
  case None
  have "scope_ok (st_leases s) (st_nextAddr s) (newScope item)"
    using store_invD(2) [OF assms] newScope_pristine by (rule pristine_scope_ok [rotated])
  with orphaned_install_inv [OF missing_orphaned [OF assms None], of "newScope item"] None show ?thesis
    by (simp add: reconcileProvider_def) (simp add: newScope_def Let_def)
next
  case (Some a)
  note inv = store_invD [OF assms]
  have a: "a < st_nextAddr s" using inv(3) Some by (auto simp: active_ok_def live_at_def)
  note ok = scopes_okD [OF inv(5) a]
  let ?cur = "st_heap s a"
  let ?same = "sk_epoch (sc_key ?cur) = cp_HealthEpoch item"
  let ?fresh = "if ?same then inheritScopeState (newScope item) ?cur else newScope item"
  show ?thesis
  proof (cases "?same \<and> sk_generation (sc_key ?cur) = cp_Generation item \<and> sc_disableHealth ?cur = cp_DisableHealth item")
    case True
    have "scope_ok (st_leases s) a (reconcileModelsLocked ?cur (cp_Models item))"
      using ok inv(2) by (auto intro: reconcileModelsLocked_ok simp: leases_ok_def)
    then have "store_inv (put_scope a (reconcileModelsLocked ?cur (cp_Models item)) s)"
      using assms by (intro put_scope_inv) (auto simp: reconcileModelsLocked_def Let_def)
    with True Some show ?thesis by (simp add: reconcileProvider_def Let_def)
  next
    case False
    have new: "sc_active (newScope item)" "sk_providerID (sc_key (newScope item)) = cp_ID item"
      by (simp_all add: newScope_def Let_def)
    note inh = inheritScopeState_spec [OF newScope_pristine scope_okD(1) [OF ok], of item]
    have "pristine ?fresh" "sc_active ?fresh" "sk_providerID (sc_key ?fresh) = cp_ID item"
      using inh new newScope_pristine by auto
    moreover have "leases_ok (retireLocked a s)"
      using retireLocked_orphaned [OF assms Some] by (simp add: orphaned_def)
    ultimately have "store_inv (installScope (cp_ID item) ?fresh (retireLocked a s))"
      using retireLocked_orphaned [OF assms Some]
      by (intro orphaned_install_inv pristine_scope_ok) auto
    with False Some show ?thesis by (auto simp: reconcileProvider_def Let_def)
  qed
qed

lemma retireUnseen_inv:
  assumes "store_inv s" and "\<And>i a. (i, a) \<in> set rest \<Longrightarrow> i \<notin> seen \<Longrightarrow> map_of (st_active s) i = Some a"
    and "distinct (map fst rest)"
  shows "store_inv (retireUnseen seen rest s)"
  using assms
proof (induction seen rest s rule: retireUnseen.induct)
  case (2 seen i a rest s)
  show ?case
  proof (cases "i \<in> seen")
    case True
    with "2" show ?thesis by auto
  next
    case False
    with "2.prems" have "map_of (st_active s) i = Some a" by auto
    from orphaned_delete_inv [OF retireLocked_orphaned [OF "2.prems"(1) this]]
    have "store_inv (retireLocked a (s\<lparr>st_active := AList.delete i (st_active s)\<rparr>))"
      by (simp add: retireLocked_active_commute frame_simps)
    moreover have "map_of (st_active (retireLocked a (s\<lparr>st_active := AList.delete i (st_active s)\<rparr>))) j = Some b"
      if "(j, b) \<in> set rest" "j \<notin> seen" for j b
      using "2.prems"(2,3) that by (force simp: frame_simps gomap_simps)
    ultimately show ?thesis using "2.IH"(2) [OF False] "2.prems"(3) False by auto
  qed
qed simp

lemma Reconcile_inv [inv_intros]:
  assumes "store_inv s"
  shows "store_inv (Reconcile providers s)"
proof -
  have "store_inv (foldl reconcileProvider s items)" for items
    using assms by (induction items arbitrary: s) (auto intro: reconcileProvider_inv)
  then show ?thesis
    unfolding Reconcile_def Let_def
    by (intro retireUnseen_inv) (auto simp: store_inv_def active_ok_def map_of_eq_Some_iff)
qed

end
