(* ===== verification/Health_Leases.thy ===== *)
theory Health_Leases
  imports Health_Operations
begin

text \<open>
  Leases: the token loop ends, \<open>Acquire\<close> and \<open>Report\<close> keep the store invariant, and the facts
  about one call that the properties of the store rest on.
\<close>

section \<open>Tokens\<close>

text \<open>Fewer leases than tokens: the only condition under which the token loop must end.\<close>

definition lease_room :: "store \<Rightarrow> bool" where
  "lease_room s \<longleftrightarrow> length (st_leases s) + 2 < 2 ^ 64"

lemma token_loop_Some:
  "token_loop fuel L tok = Some t \<Longrightarrow> t \<noteq> 0 \<and> map_of L t = None"
  by (induction fuel L tok rule: token_loop.induct) (auto simp: Let_def split: if_splits)

lemma token_loop_None:
  "token_loop fuel L tok = None \<Longrightarrow> 0 < i \<Longrightarrow> i \<le> fuel \<Longrightarrow>
     tok + of_nat i = 0 \<or> map_of L (tok + of_nat i) \<noteq> None"
proof (induction fuel arbitrary: tok i)
  case (Suc fuel)
  show ?case
  proof (cases "i = 1")
    case True
    with Suc.prems show ?thesis by (auto simp: Let_def split: if_splits)
  next
    case False
    then obtain j where j: "i = Suc j" "0 < j" "j \<le> fuel" using Suc.prems by (cases i) auto
    have "token_loop fuel L (tok + 1) = None" using Suc.prems(1) by (auto simp: Let_def split: if_splits)
    from Suc.IH [OF this j(2,3)] show ?thesis by (simp add: j add.assoc)
  qed
qed simp

declare token_loop.simps [simp del]

lemma token_loop_ends:
  assumes "length L + 2 < 2 ^ 64"
  shows "\<exists>t. token_loop (length L + 2) L tok = Some t"
proof (rule ccontr)
  assume "\<nexists>t. token_loop (length L + 2) L tok = Some t"
  then have none: "token_loop (length L + 2) L tok = None" by auto
  let ?f = "\<lambda>i. tok + of_nat i :: u64"
  have "inj_on ?f {1..length L + 2}"
  proof (rule inj_onI)
    fix i j assume ij: "i \<in> {1..length L + 2}" "j \<in> {1..length L + 2}" "?f i = ?f j"
    then have "unat (of_nat i :: u64) = unat (of_nat j :: u64)" by simp
    then have eq: "i mod 2 ^ 64 = j mod 2 ^ 64" unfolding unat_of_nat by simp
    have "i < 2 ^ 64" "j < 2 ^ 64" using ij(1,2) assms unfolding atLeastAtMost_iff by linarith+
    from eq show "i = j" unfolding mod_less [OF \<open>i < 2 ^ 64\<close>] mod_less [OF \<open>j < 2 ^ 64\<close>] .
  qed
  then have "length L + 2 = card (?f ` {1..length L + 2})" by (simp add: card_image)
  also have "\<dots> \<le> card (insert 0 (fst ` set L))"
  proof (rule card_mono)
    show "?f ` {1..length L + 2} \<subseteq> insert 0 (fst ` set L)"
    proof (rule image_subsetI)
      fix i assume "i \<in> {1..length L + 2}"
      then have "?f i = 0 \<or> map_of L (?f i) \<noteq> None"
        by (intro token_loop_None [OF none]) simp_all
      then show "?f i \<in> insert 0 (fst ` set L)" unfolding map_of_eq_None_iff by blast
    qed
  qed simp
  also have "\<dots> \<le> Suc (length L)"
    using card_image_le [of "set L" fst] card_length [of L] card_insert_le_m1 [of "Suc (length L)" "fst ` set L" 0]
    by simp
  finally show False by simp
qed

section \<open>Finding the scope\<close>

lemma retired_scope_in:
  assumes "retired_ok {} s" and "retired_at s k \<noteq> []"
  shows "last (retired_at s k) < st_nextAddr s" and "\<not> sc_active (st_heap s (last (retired_at s k)))"
    and "retiredKey_of (st_heap s (last (retired_at s k))) = k"
    and "sc_activeLeases (st_heap s (last (retired_at s k))) \<noteq> 0"
  using assms last_in_set [OF assms(2)] unfolding retired_ok_def by blast+

text \<open>
  Either a scope that is already tracked is found and the store is unchanged, or a fresh
  retired scope is created, which is the only scope listed without a lease.
\<close>

lemma scopeForAcquire_found:
  assumes "store_inv s" and "scopeForAcquireLocked key d s = (a, s1)"
  obtains (tracked) "s1 = s" and "a < st_nextAddr s" and "sc_key (st_heap s a) = scopeKey_of key"
      and "sc_disableHealth (st_heap s a) = d"
      and "sc_active (st_heap s a) \<or> sc_activeLeases (st_heap s a) \<noteq> 0"
  | (created) "a = st_nextAddr s" and "retired_at s \<lparr>rk_scopeKey = scopeKey_of key, rk_disableHealth = d\<rparr> = []"
      and "s1 = s\<lparr>st_heap := (st_heap s)(a := newRetiredScope key d), st_nextAddr := Suc a,
           st_retired := AList.update \<lparr>rk_scopeKey = scopeKey_of key, rk_disableHealth = d\<rparr> [a] (st_retired s)\<rparr>"
proof -
  note inv = store_invD [OF assms(1)]
  let ?k = "\<lparr>rk_scopeKey = scopeKey_of key, rk_disableHealth = d\<rparr>"
  have key: "sc_key sc = scopeKey_of key \<and> sc_disableHealth sc = d" if "retiredKey_of sc = ?k" for sc
    using that by (simp add: retiredKey_of_def)
  have retired: thesis if "(a, s1) = (if retired_at s ?k \<noteq> [] then (last (retired_at s ?k), s)
      else (st_nextAddr s, s\<lparr>st_heap := (st_heap s)(st_nextAddr s := newRetiredScope key d),
              st_nextAddr := Suc (st_nextAddr s),
              st_retired := AList.update ?k [st_nextAddr s] (st_retired s)\<rparr>))"
  proof (cases "retired_at s ?k = []")
    case True
    with that created show ?thesis by auto
  next
    case False
    with that retired_scope_in [OF inv(4) False] key tracked show ?thesis by auto
  qed
  show thesis
  proof (cases "map_of (st_active s) (hk_ProviderID key)")
    case None
    with assms(2) retired show ?thesis by (auto simp: scopeForAcquireLocked_def Let_def split: if_splits)
  next
    case (Some b)
    let ?cond = "sk_generation (sc_key (st_heap s b)) = hk_Generation key \<and>
                 sk_epoch (sc_key (st_heap s b)) = hk_Epoch key \<and> sc_disableHealth (st_heap s b) = d"
    show ?thesis
    proof (cases ?cond)
      case True
      have "live_at s (hk_ProviderID key) b" using inv(3) Some by (simp add: active_ok_def)
      moreover have "a = b" "s1 = s"
        using assms(2) Some True by (auto simp: scopeForAcquireLocked_def Let_def)
      ultimately show ?thesis using tracked True by (auto simp: live_at_def scopeKey_of_def)
    next
      case False
      with assms(2) Some retired show ?thesis
        by (auto simp: scopeForAcquireLocked_def Let_def split: if_splits)
    qed
  qed
qed

text \<open>What holds after the scope was found, with the fresh scope exempted in \<open>E\<close>.\<close>

lemma scopeForAcquire_spec:
  assumes "store_inv s" and "scopeForAcquireLocked key d s = (a, s1)"
  obtains E where "E \<subseteq> {a}" and "a < st_nextAddr s1" and "leases_ok s1" and "active_ok s1"
    and "retired_ok E s1" and "scopes_ok s1" and "st_leases s1 = st_leases s" and "st_policy s1 = st_policy s"
    and "sc_key (st_heap s1 a) = scopeKey_of key" and "sc_disableHealth (st_heap s1 a) = d"
    and "sc_active (st_heap s1 a) \<or> sc_activeLeases (st_heap s1 a) \<noteq> 0 \<or> a \<in> E"
    and "E \<noteq> {} \<Longrightarrow> st_heap s1 a = newRetiredScope key d"
    and "st_active s1 = st_active s" and "\<And>b. b < st_nextAddr s \<Longrightarrow> st_heap s1 b = st_heap s b"
  using assms
proof (cases rule: scopeForAcquire_found)
  case tracked
  show ?thesis
    by (rule that [of "{}"]) (use tracked store_invD [OF assms(1)] in auto)
next
  case created
  note inv = store_invD [OF assms(1)]
  let ?k = "\<lparr>rk_scopeKey = scopeKey_of key, rk_disableHealth = d\<rparr>"
  let ?sc = "newRetiredScope key d"
  have sc: "sc_key ?sc = scopeKey_of key" "sc_disableHealth ?sc = d" "\<not> sc_active ?sc" "retiredKey_of ?sc = ?k"
    by (simp_all add: newRetiredScope_def retiredKey_of_def)
  have at: "retired_at s1 k = (if k = ?k then [a] else retired_at s k)" for k
    unfolding created(3) by (simp add: retired_at_def gomap_simps)
  have none: "a \<notin> set (retired_at s k)" for k
    using inv(4) unfolding retired_ok_def created(1) by blast
  show ?thesis
  proof (rule that [of "{a}"])
    show "leases_ok s1" using inv(2) by (auto simp: leases_ok_def created less_Suc_eq)
    have "live_at s1 i b \<longleftrightarrow> live_at s i b" for i b
      using sc(3) by (auto simp: live_at_def created less_Suc_eq)
    then show "active_ok s1" using inv(3) by (simp add: active_ok_def created)
    show "scopes_ok s1"
      using inv(5) pristine_scope_ok [OF newRetiredScope_pristine inv(2)]
      by (auto simp: scopes_ok_def created less_Suc_eq)
    show "retired_ok {a} s1"
      unfolding retired_ok_def at
    proof (intro conjI allI)
      show "gdistinct (st_retired s1)" using inv(4) by (simp add: created retired_ok_def)
      fix k b
      show "(b \<in> set (if k = ?k then [a] else retired_at s k)) =
          (b < st_nextAddr s1 \<and> \<not> sc_active (st_heap s1 b) \<and> retiredKey_of (st_heap s1 b) = k \<and>
           (sc_activeLeases (st_heap s1 b) \<noteq> 0 \<or> b \<in> {a}))"
      proof (cases "b = a")
        case True
        with sc none [of k] show ?thesis by (auto simp: created)
      next
        case False
        then have "b \<in> set (retired_at s k) \<longleftrightarrow>
            b < st_nextAddr s1 \<and> \<not> sc_active (st_heap s1 b) \<and> retiredKey_of (st_heap s1 b) = k \<and>
            (sc_activeLeases (st_heap s1 b) \<noteq> 0 \<or> b \<in> {a})"
          using inv(4) unfolding retired_ok_def by (auto simp: created less_Suc_eq)
        with False created(2) show ?thesis by auto
      qed
    qed (use inv(4) in \<open>auto simp: created retired_ok_def gomap_simps\<close>)
  qed (use sc in \<open>auto simp: created\<close>)
qed

section \<open>Acquire\<close>

lemma channelAt_inv: "scope_wf sc \<Longrightarrow> entry_inv (sc_disableHealth sc) (channelAt sc k)"
  by (auto simp: channelAt_def scope_wf_def newEntry_inv split: option.splits)

lemma advanceScope_frame [frame_simps]:
  "sc_key (advanceScope sc k now) = sc_key sc" "sc_disableHealth (advanceScope sc k now) = sc_disableHealth sc"
  "sc_active (advanceScope sc k now) = sc_active sc" "sc_activeLeases (advanceScope sc k now) = sc_activeLeases sc"
  "channelAt (advanceScope sc k now) k = advanceCooldown (channelAt sc k) now"
  "sc_global (advanceScope sc k now) = advanceCooldown (sc_global sc) now"
  by (simp_all add: advanceScope_def channelAt_def gomap_simps)

lemma advanceScope_channel:
  "map_of (sc_channels (advanceScope sc k now)) k = Some (advanceCooldown (channelAt sc k) now)"
  by (simp add: advanceScope_def gomap_simps)

lemma advanceScope_ok:
  assumes "scope_ok L a sc" and "gdistinct L"
  shows "scope_ok L a (advanceScope sc k now)"
proof -
  note wf = scope_okD(1) [OF assms(1)]
  let ?c = "channelAt sc k"
  let ?sc = "sc\<lparr>sc_channels := AList.update k ?c (sc_channels sc)\<rparr>"
  have c: "entry_inv (sc_disableHealth sc) ?c" by (rule channelAt_inv [OF wf])
  have g: "entry_inv (sc_disableHealth sc) (sc_global sc)" using wf by (simp add: scope_wf_def)
  have sc: "scope_ok L a ?sc"
  proof (cases "map_of (sc_channels sc) k")
    case None
    then show ?thesis using assms c by (intro scope_ok_add_channel) (auto simp: channelAt_def)
  next
    case (Some e)
    then have "?sc = sc" by (simp add: channelAt_def update_triv)
    with assms(1) show ?thesis by simp
  qed
  have "scope_ok L a (?sc\<lparr>sc_global := advanceCooldown (sc_global sc) now,
      sc_channels := AList.update k (advanceCooldown ?c now) (sc_channels ?sc)\<rparr>)"
    by (rule scope_ok_entries [OF sc, where c = ?c])
       (use c g in \<open>auto simp: gomap_simps frame_simps inv_intros advanceCooldown_probe\<close>)
  then show ?thesis by (simp add: advanceScope_def)
qed

lemma available_probe: "available e = (b, True) \<Longrightarrow> se_state e = stateHalfOpen"
  by (auto simp: available_def split: machineState.splits)

lemma issueLease_ok:
  assumes "scope_ok L a sc" and "map_of (sc_channels sc) (chan r) \<noteq> None" and "map_of L t = None" and "t \<noteq> 0"
    and "lr_scope r = a" and "sc_key sc = scopeKey_of (lr_key r)" and "sc_disableHealth sc = lr_disabled r"
    and "available (sc_global sc) = (True, lr_globalProbe r)"
    and "available (channelAt sc (chan r)) = (True, lr_channelProbe r)"
  shows "scope_ok (AList.update t r L) a (issueLease sc (chan r) t (lr_globalProbe r) (lr_channelProbe r))"
proof -
  from assms(2) obtain c where c: "map_of (sc_channels sc) (chan r) = Some c" by auto
  then have at: "channelAt sc (chan r) = c" by (simp add: channelAt_def)
  have "lr_globalProbe r \<Longrightarrow> se_state (sc_global sc) = stateHalfOpen"
    "lr_channelProbe r \<Longrightarrow> se_state c = stateHalfOpen"
    using assms(8,9) at available_probe by simp_all
  from scope_ok_issue [OF assms(1) c assms(3-5) refl assms(6,7) this] show ?thesis
    by (simp add: issueLease_def Let_def at)
qed

lemma issueLease_frame [frame_simps]:
  "sc_key (issueLease sc k t g c) = sc_key sc" "sc_disableHealth (issueLease sc k t g c) = sc_disableHealth sc"
  "sc_active (issueLease sc k t g c) = sc_active sc"
  "sc_activeLeases (issueLease sc k t g c) = sc_activeLeases sc + 1"
  by (simp_all add: issueLease_def Let_def)

text \<open>One call of \<open>Acquire\<close>: refused for an incomplete key, blocked, or granted.\<close>

definition key_complete :: "HealthKey \<Rightarrow> bool" where
  "key_complete key \<longleftrightarrow>
     hk_ProviderID key \<noteq> [] \<and> hk_Generation key \<noteq> [] \<and> hk_Model key \<noteq> [] \<and> hk_RequestType key \<noteq> []"

lemma Acquire_cases:
  assumes "Acquire key d s = Some (dec, s')"
  obtains (incomplete) "\<not> key_complete key" and "s' = s" and "\<not> hd_Available dec" and "hd_RetryAt dec = None"
  | (blocked) a s1 now sc where "key_complete key" and "scopeForAcquireLocked key d s = (a, s1)"
      and "now = st_clock s1 (st_reads s1)" and "sc = advanceScope (st_heap s1 a) (channel_of key) now"
      and "\<not> (fst (available (sc_global sc)) \<and> fst (available (channelAt sc (channel_of key))))"
      and "\<not> hd_Available dec" and "hd_RetryAt dec = blockingRetryAt now [sc_global sc, channelAt sc (channel_of key)]"
      and "hd_GlobalState dec = globalState (se_state (sc_global sc))"
      and "hd_ChannelState dec = channelState (se_state (channelAt sc (channel_of key)))"
      and "s' = put_scope a sc (s1\<lparr>st_reads := Suc (st_reads s1)\<rparr>)"
  | (granted) a s1 now sc gp cp t r where "key_complete key" and "scopeForAcquireLocked key d s = (a, s1)"
      and "now = st_clock s1 (st_reads s1)" and "sc = advanceScope (st_heap s1 a) (channel_of key) now"
      and "available (sc_global sc) = (True, gp)" and "available (channelAt sc (channel_of key)) = (True, cp)"
      and "token_loop (length (st_leases s1) + 2) (st_leases s1) (st_nextToken s1) = Some t"
      and "r = \<lparr> lr_scope = a, lr_key = key, lr_globalProbe = gp, lr_channelProbe = cp,
                 lr_disabled = sc_disableHealth sc \<rparr>"
      and "hd_Available dec" and "hd_RetryAt dec = None"
      and "hd_Lease dec = \<lparr> hl_Key = key, hl_GlobalProbe = gp, hl_ChannelProbe = cp,
             hl_Disabled = sc_disableHealth sc, hl_Token = t \<rparr>"
      and "s' = (put_scope a (issueLease sc (channel_of key) t gp cp) (s1\<lparr>st_reads := Suc (st_reads s1)\<rparr>))
             \<lparr>st_nextToken := t, st_leases := AList.update t r (st_leases s1)\<rparr>"
proof (cases "key_complete key")
  case False
  with assms incomplete show ?thesis by (auto simp: Acquire_def key_complete_def)
next
  case True
  obtain a s1 where f: "scopeForAcquireLocked key d s = (a, s1)" by force
  define now where "now = st_clock s1 (st_reads s1)"
  define sc where "sc = advanceScope (st_heap s1 a) (channel_of key) now"
  obtain ga gp where g: "available (sc_global sc) = (ga, gp)" by force
  obtain ca cp where c: "available (channelAt sc (channel_of key)) = (ca, cp)" by force
  have eq: "Acquire key d s =
     (let s2 = put_scope a sc (s1\<lparr>st_reads := Suc (st_reads s1)\<rparr>);
          decision = \<lparr> hd_Available = (ga \<and> ca), hd_Lease = zeroHealthLease,
             hd_GlobalState = globalState (se_state (sc_global sc)),
             hd_ChannelState = channelState (se_state (channelAt sc (channel_of key))),
             hd_RetryAt = blockingRetryAt now [sc_global sc, channelAt sc (channel_of key)] \<rparr>
      in if \<not> hd_Available decision then Some (decision, s2)
         else case allocateTokenLocked s2 of
           None \<Rightarrow> None
         | Some token \<Rightarrow>
             let record = \<lparr> lr_scope = a, lr_key = key, lr_globalProbe = gp, lr_channelProbe = cp,
                            lr_disabled = sc_disableHealth sc \<rparr>;
                 lease = \<lparr> hl_Key = key, hl_GlobalProbe = gp, hl_ChannelProbe = cp,
                           hl_Disabled = sc_disableHealth sc, hl_Token = token \<rparr>
             in Some (decision\<lparr>hd_Lease := lease, hd_RetryAt := None\<rparr>,
                  (put_scope a (issueLease sc (channel_of key) token gp cp) s2)
                    \<lparr>st_nextToken := token, st_leases := AList.update token record (st_leases s2)\<rparr>))"
    using True unfolding Acquire_def key_complete_def
    by (simp add: f clock_now_def g c Let_def flip: now_def sc_def cong del: option.case_cong_weak)
  show ?thesis
  proof (cases "ga \<and> ca")
    case False
    then have "dec = \<lparr> hd_Available = (ga \<and> ca), hd_Lease = zeroHealthLease,
             hd_GlobalState = globalState (se_state (sc_global sc)),
             hd_ChannelState = channelState (se_state (channelAt sc (channel_of key))),
             hd_RetryAt = blockingRetryAt now [sc_global sc, channelAt sc (channel_of key)] \<rparr>"
      and "s' = put_scope a sc (s1\<lparr>st_reads := Suc (st_reads s1)\<rparr>)"
      using assms [unfolded eq] by (auto simp: Let_def)
    with False g c show ?thesis by (intro blocked [OF True f now_def sc_def]) auto
  next
    case yes: True
    let ?s2 = "put_scope a sc (s1\<lparr>st_reads := Suc (st_reads s1)\<rparr>)"
    from assms [unfolded eq] yes obtain t where t: "allocateTokenLocked ?s2 = Some t"
      by (auto simp: Let_def split: option.splits)
    then have t': "token_loop (length (st_leases s1) + 2) (st_leases s1) (st_nextToken s1) = Some t"
      by (simp add: allocateTokenLocked_def)
    show ?thesis
      by (rule granted [OF True f now_def sc_def _ _ t' refl])
         (use assms [unfolded eq] yes t g c in \<open>auto simp: Let_def\<close>)
  qed
qed

lemma Acquire_inv [inv_intros]:
  assumes "store_inv s" and "Acquire key d s = Some (dec, s')"
  shows "store_inv s'"
  using assms(2)
proof (cases rule: Acquire_cases)
  case incomplete
  with assms(1) show ?thesis by simp
next
  case (blocked a s1 now sc)
  obtain E where E: "E \<subseteq> {a}" "a < st_nextAddr s1" "leases_ok s1" "active_ok s1" "retired_ok E s1" "scopes_ok s1"
    "st_policy s1 = st_policy s" "E \<noteq> {} \<Longrightarrow> st_heap s1 a = newRetiredScope key d"
    using scopeForAcquire_spec [OF assms(1) blocked(2)] by metis
  have "E = {}"
  proof (rule ccontr)
    assume "E \<noteq> {}"
    then have sc: "sc = advanceScope (newRetiredScope key d) (channel_of key) now" using E(8) blocked(4) by simp
    have "fst (available (sc_global sc)) \<and> fst (available (channelAt sc (channel_of key)))"
      unfolding sc frame_simps
      by (cases d) (simp_all add: newRetiredScope_def channelAt_def advanceCooldown_def available_def initialState_def)
    with blocked(5) show False by blast
  qed
  with E store_invD(1) [OF assms(1)] have "store_inv s1" by (intro store_invI) auto
  moreover have "scope_ok (st_leases s1) a sc"
    using scopes_okD [OF E(6,2)] E(3) by (simp add: blocked(4) advanceScope_ok leases_ok_def)
  ultimately show ?thesis
    unfolding blocked(10) by (intro put_scope_inv) (auto simp: blocked(4) frame_simps)
next
  case (granted a s1 now sc gp cp t r)
  obtain E where E: "E \<subseteq> {a}" "a < st_nextAddr s1" "leases_ok s1" "active_ok s1" "retired_ok E s1" "scopes_ok s1"
    "st_policy s1 = st_policy s" "sc_key (st_heap s1 a) = scopeKey_of key"
    "sc_active (st_heap s1 a) \<or> sc_activeLeases (st_heap s1 a) \<noteq> 0 \<or> a \<in> E"
    using scopeForAcquire_spec [OF assms(1) granted(2)] by metis
  let ?sc = "issueLease sc (channel_of key) t gp cp"
  let ?L = "AList.update t r (st_leases s1)"
  have t: "t \<noteq> 0" "map_of (st_leases s1) t = None" using token_loop_Some [OF granted(7)] by auto
  have d: "gdistinct (st_leases s1)" using E(3) by (simp add: leases_ok_def)
  have "scope_ok (st_leases s1) a sc"
    using scopes_okD [OF E(6,2)] d by (simp add: granted(4) advanceScope_ok)
  then have ok: "scope_ok ?L a ?sc"
    using issueLease_ok [of "st_leases s1" a sc r t] t granted(5,6) E(8)
    by (simp add: granted(4,8) frame_simps advanceScope_channel)
  have nonneg: "0 \<le> sc_activeLeases (st_heap s1 a)"
    using scope_leasesD(1) [OF scope_okD(2) [OF scopes_okD [OF E(6,2)]]] by simp
  have flds: "sc_active ?sc = sc_active (st_heap s1 a)" "sc_key ?sc = sc_key (st_heap s1 a)"
    "sc_disableHealth ?sc = sc_disableHealth (st_heap s1 a)"
    "sc_activeLeases ?sc = sc_activeLeases (st_heap s1 a) + 1"
    by (simp_all add: granted(4) frame_simps)
  have "active_ok (put_scope a ?sc s1)" using E(4) flds by (intro put_scope_active_ok) auto
  moreover have "retired_ok {} (put_scope a ?sc s1)"
    using E(1,5,9) flds nonneg by (intro put_scope_retired_ok [OF E(5)]) auto
  ultimately show ?thesis
    using store_invD(1) [OF assms(1)] E(2,3,6,7) t ok d
    by (auto simp: granted(12) store_inv_def active_ok_def retired_ok_def live_at_def leases_ok_def
        scopes_ok_def granted(8) gomap_simps intro: scope_ok_insert_other)
qed

theorem Acquire_returns:
  assumes "lease_room s" and "store_inv s"
  shows "\<exists>r. Acquire key d s = Some r"
proof -
  obtain a s1 where f: "scopeForAcquireLocked key d s = (a, s1)" by force
  have l: "st_leases s1 = st_leases s"
    using scopeForAcquire_spec [OF assms(2) f] by metis
  have "allocateTokenLocked (s1\<lparr>st_reads := n, st_heap := h\<rparr>) = None \<Longrightarrow> False" for n h
    using token_loop_ends [of "st_leases s1" "st_nextToken s1"] assms(1)
    by (auto simp: allocateTokenLocked_def lease_room_def l)
  note no_loop = this
  show ?thesis by (auto dest!: no_loop simp: Acquire_def f clock_now_def Let_def split_beta split: option.split)
qed

section \<open>Report\<close>

lemma applyOutcome_entries:
  assumes "applyOutcome p token now out ob g c = (ge, ce, g', c')" and "entry_inv d g" and "entry_inv d c"
    and "policy_ok p" and "token \<noteq> 0"
  shows "entry_inv d g' \<and> entry_inv d c' \<and> se_activeLeases c' = se_activeLeases c \<and>
    se_probeToken g' \<in> {0, se_probeToken g} - {token} \<and> se_probeToken c' \<in> {0, se_probeToken c} - {token}"
proof -
  have fail: "applyFailureLocked p e token now out im = (b, e') \<Longrightarrow> entry_inv d e \<Longrightarrow>
      entry_inv d e' \<and> se_activeLeases e' = se_activeLeases e \<and> se_probeToken e' \<in> {0, se_probeToken e} - {token}"
    for e e' im b
    using applyFailureLocked_inv [of d e p token now out im] applyFailureLocked_probe [of d e token p now out im]
      entry_leases_frame(5) [of p e token now out im] assms(4,5) by (auto split: if_splits)
  have rel: "entry_inv d e \<Longrightarrow> entry_inv d (releaseProbe e token) \<and> se_probeToken (releaseProbe e token) \<in> {0, se_probeToken e} - {token}"
    for e using releaseProbe_inv releaseProbe_probe [of d e token] assms(5) by auto
  show ?thesis
  proof (cases "o_Class out")
    case FailureNone
    with assms show ?thesis
      by (auto simp: applyOutcome_def frame_simps inv_intros applySuccess_probe [OF observeLatest_inv])
  next
    case FailureNeutral
    let ?c = "if o_HTTPStatus out > 0 then observeNeutralFailure c out now ob else c"
    have "entry_inv d ?c" "se_probeToken ?c = se_probeToken c" "se_activeLeases ?c = se_activeLeases c"
      using assms(3) by (auto simp: frame_simps inv_intros)
    moreover have "g' = releaseProbe g token" "c' = releaseProbe ?c token"
      using assms(1) FailureNeutral by (simp_all add: applyOutcome_def)
    ultimately show ?thesis using rel [OF assms(2)] rel [of ?c] by (simp add: frame_simps)
  qed (use assms rel [of g] rel [of c] fail [OF _ observeLatest_inv [OF assms(2)]]
      fail [OF _ observeLatest_inv [OF assms(3)]] in \<open>auto simp: applyOutcome_def frame_simps split: prod.splits\<close>)
qed

lemma releaseProbes_ok:
  assumes "scope_ok L a sc" and "map_of (sc_channels sc) k = Some c" and "token \<noteq> 0"
  shows "scope_ok L a (releaseProbes sc k token)"
    and "se_probeToken (sc_global (releaseProbes sc k token)) \<noteq> token"
    and "map_of (sc_channels (releaseProbes sc k token)) k = Some e \<Longrightarrow> se_probeToken e \<noteq> token"
proof -
  have inv: "entry_inv (sc_disableHealth sc) (sc_global sc)" "entry_inv (sc_disableHealth sc) c"
    using scope_okD(1) [OF assms(1)] assms(2) by (auto simp: scope_wf_def)
  have eq: "releaseProbes sc k token = sc\<lparr>sc_global := releaseProbe (sc_global sc) token,
      sc_channels := AList.update k (releaseProbe c token) (sc_channels sc)\<rparr>"
    using assms(2) by (simp add: releaseProbes_def Let_def)
  show "scope_ok L a (releaseProbes sc k token)"
    unfolding eq using inv assms(3)
    by (intro scope_ok_entries [OF assms(1,2)]) (auto simp: inv_intros frame_simps releaseProbe_probe)
  show "se_probeToken (sc_global (releaseProbes sc k token)) \<noteq> token"
    using assms(3) by (simp add: eq releaseProbe_probe [OF inv(1)])
  show "map_of (sc_channels (releaseProbes sc k token)) k = Some e \<Longrightarrow> se_probeToken e \<noteq> token"
    using assms(3) by (auto simp: eq gomap_simps releaseProbe_probe [OF inv(2)] split: if_splits)
qed

lemma releaseProbes_frame [frame_simps]:
  "sc_key (releaseProbes sc k t) = sc_key sc" "sc_active (releaseProbes sc k t) = sc_active sc"
  "sc_disableHealth (releaseProbes sc k t) = sc_disableHealth sc"
  "sc_activeLeases (releaseProbes sc k t) = sc_activeLeases sc"
  by (auto simp: releaseProbes_def Let_def split: option.splits)

text \<open>The store around a lease that is being consumed.\<close>

lemma removeLast_set: "distinct xs \<Longrightarrow> set (removeLast x xs) = set xs - {x} \<and> distinct (removeLast x xs)"
  by (simp add: removeLast_def)

lemma releaseLeaseLocked_retired_ok:
  assumes "retired_ok {} s" and "sc = releaseScope (st_heap s a) k" and "a < st_nextAddr s"
    and "sc_activeLeases (st_heap s a) \<noteq> 0"
  shows "retired_ok {} (releaseLeaseLocked a k s)"
proof (cases "sc_active sc \<or> sc_activeLeases sc \<noteq> 0")
  case True
  then have "releaseLeaseLocked a k s = put_scope a sc s"
    using assms(2) by (simp add: releaseLeaseLocked_def Let_def)
  moreover have "retired_ok {} (put_scope a sc s)"
    using assms True by (intro put_scope_retired_ok [OF assms(1)]) (auto simp: frame_simps)
  ultimately show ?thesis by simp
next
  case False
  let ?k = "retiredKey_of sc"
  let ?xs = "retired_at s ?k"
  have key: "?k = retiredKey_of (st_heap s a)" and act: "\<not> sc_active (st_heap s a)"
    using assms(2) False by (auto simp: frame_simps)
  have mem: "a \<in> set ?xs" using assms(1,3,4) act key unfolding retired_ok_def by auto
  have dist: "distinct ?xs"
    using assms(1) by (auto simp: retired_ok_def retired_at_def split: option.splits)
  note rem = removeLast_set [OF dist, of a]
  have other: "a \<notin> set (retired_at s k')" if "k' \<noteq> ?k" for k'
    using assms(1) key that unfolding retired_ok_def by auto
  let ?m = "if removeLast a ?xs = [] then AList.delete ?k (st_retired s)
            else AList.update ?k (removeLast a ?xs) (st_retired s)"
  have s': "releaseLeaseLocked a k s = (put_scope a sc s)\<lparr>st_retired := ?m\<rparr>"
    using assms(2) False mem by (auto simp: releaseLeaseLocked_def Let_def)
  have at: "retired_at (releaseLeaseLocked a k s) k' = (if k' = ?k then removeLast a ?xs else retired_at s k')" for k'
    unfolding s' by (auto simp: retired_at_def gomap_simps)
  have flds: "st_nextAddr (releaseLeaseLocked a k s) = st_nextAddr s"
    "st_heap (releaseLeaseLocked a k s) = (st_heap s)(a := sc)" by (simp_all add: s')
  show ?thesis
    unfolding retired_ok_def flds
  proof (intro conjI allI)
    show "gdistinct (st_retired (releaseLeaseLocked a k s))"
      using assms(1) by (auto simp: s' retired_ok_def)
    fix k' b
    show "(b \<in> set (retired_at (releaseLeaseLocked a k s) k')) =
        (b < st_nextAddr s \<and> \<not> sc_active (((st_heap s)(a := sc)) b) \<and> retiredKey_of (((st_heap s)(a := sc)) b) = k' \<and>
         (sc_activeLeases (((st_heap s)(a := sc)) b) \<noteq> 0 \<or> b \<in> {}))"
    proof (cases "b = a")
      case True
      with False other rem show ?thesis by (auto simp: at)
    next
      case ne: False
      with rem have "(b \<in> set (retired_at (releaseLeaseLocked a k s) k')) = (b \<in> set (retired_at s k'))"
        by (auto simp: at)
      with ne assms(1) show ?thesis unfolding retired_ok_def by auto
    qed
  next
    show "map_of (st_retired (releaseLeaseLocked a k s)) k' = Some xs \<longrightarrow> xs \<noteq> [] \<and> distinct xs" for k' xs
      using assms(1) rem by (auto simp: s' gomap_simps retired_ok_def split: if_splits)
  qed
qed

lemma releaseLeaseLocked_frame [frame_simps]:
  "st_heap (releaseLeaseLocked a k s) = (st_heap s)(a := releaseScope (st_heap s a) k)"
  "st_leases (releaseLeaseLocked a k s) = st_leases s" "st_nextAddr (releaseLeaseLocked a k s) = st_nextAddr s"
  "st_active (releaseLeaseLocked a k s) = st_active s" "st_policy (releaseLeaseLocked a k s) = st_policy s"
  "st_nextObservation (releaseLeaseLocked a k s) = st_nextObservation s"
  by (simp_all add: releaseLeaseLocked_def Let_def)

lemma consume_inv:
  assumes "store_inv s" and "map_of (st_leases s) t = Some r" and "a = lr_scope r" and "k = chan r"
    and "st_leases s2 = AList.delete t (st_leases s)" and "st_heap s2 = (st_heap s)(a := sc)"
    and "st_nextAddr s2 = st_nextAddr s" and "st_active s2 = st_active s" and "st_retired s2 = st_retired s"
    and "st_policy s2 = st_policy s"
    and "scope_ok (st_leases s) a sc" and "sc_key sc = sc_key (st_heap s a)"
    and "sc_disableHealth sc = sc_disableHealth (st_heap s a)" and "sc_active sc = sc_active (st_heap s a)"
    and "sc_activeLeases sc = sc_activeLeases (st_heap s a)"
    and "se_probeToken (sc_global sc) \<noteq> t"
    and "\<And>c. map_of (sc_channels sc) k = Some c \<Longrightarrow> se_probeToken c \<noteq> t"
  shows "store_inv (releaseLeaseLocked a k s2)"
proof (rule store_invI)
  note inv = store_invD [OF assms(1)]
  have a: "a < st_nextAddr s" and d: "gdistinct (st_leases s)"
    using inv(2) assms(2,3) by (auto simp: leases_ok_def)
  note rel = scope_ok_release [OF assms(11) d assms(2) assms(3) [symmetric] assms(4) [symmetric] assms(16,17)]
  have live: "live_at (releaseLeaseLocked a k s2) i b = live_at s i b" for i b
    using assms(12,14) by (auto simp: live_at_def frame_simps assms(6,7))
  show "policy_ok (st_policy (releaseLeaseLocked a k s2))" using inv(1) by (simp add: frame_simps assms(10))
  show "leases_ok (releaseLeaseLocked a k s2)"
    using inv(2) by (auto simp: leases_ok_def frame_simps assms(5,7) gomap_simps split: if_splits)
  show "active_ok (releaseLeaseLocked a k s2)"
    using inv(3) by (simp add: active_ok_def live) (simp add: frame_simps assms(8))
  have "retired_ok {} (put_scope a sc s)"
    using assms(12-15) by (intro put_scope_retired_ok [OF inv(4)]) auto
  then have "retired_ok {} s2"
    unfolding retired_ok_def retired_at_def by (simp add: assms(6,7,9))
  moreover have "sc_activeLeases (st_heap s2 a) \<noteq> 0"
    using scope_leasesD(1) [OF scope_okD(2) [OF assms(11)]] gcount_pos [OF assms(2), of "\<lambda>r. lr_scope r = a"] assms(3)
    by (simp add: assms(6))
  ultimately show "retired_ok {} (releaseLeaseLocked a k s2)"
    using a by (intro releaseLeaseLocked_retired_ok [OF _ refl]) (auto simp: assms(7))
  show "scopes_ok (releaseLeaseLocked a k s2)"
    unfolding scopes_ok_def frame_simps assms(5,6,7)
  proof (intro allI impI)
    fix b assume "b < st_nextAddr s"
    then have "scope_ok (st_leases s) b (st_heap s b)" by (rule scopes_okD [OF inv(5)])
    then show "scope_ok (AList.delete t (st_leases s)) b
        (((st_heap s)(a := sc, a := releaseScope (((st_heap s)(a := sc)) a) k)) b)"
      using rel(1) scope_ok_delete_other [OF _ d assms(2)] assms(3) by (cases "b = a") auto
  qed
qed

lemma lease_channel:
  assumes "store_inv s" and "map_of (st_leases s) t = Some r"
  shows "t \<noteq> 0" and "scope_ok (st_leases s) (lr_scope r) (st_heap s (lr_scope r))"
    and "\<exists>c. map_of (sc_channels (st_heap s (lr_scope r))) (chan r) = Some c"
proof -
  note inv = store_invD [OF assms(1)]
  show "t \<noteq> 0" using inv(2) assms(2) by (auto simp: leases_ok_def)
  have "lr_scope r < st_nextAddr s" using inv(2) assms(2) by (auto simp: leases_ok_def)
  then show ok: "scope_ok (st_leases s) (lr_scope r) (st_heap s (lr_scope r))" by (rule scopes_okD [OF inv(5)])
  show "\<exists>c. map_of (sc_channels (st_heap s (lr_scope r))) (chan r) = Some c"
    using scope_leasesD(3) [OF scope_okD(2) [OF ok] assms(2) refl] by auto
qed

text \<open>One call of \<open>Report\<close>: an unknown token, a lease that is only released, or an outcome applied.\<close>

definition lease_matches :: "HealthLease \<Rightarrow> leaseRecord \<Rightarrow> bool" where
  "lease_matches l r \<longleftrightarrow> hl_Key l = lr_key r \<and> hl_GlobalProbe l = lr_globalProbe r \<and>
     hl_ChannelProbe l = lr_channelProbe r \<and> hl_Disabled l = lr_disabled r"

lemma Report_cases:
  assumes "Report lease out s = (u, ob, s')" and "store_inv s"
  obtains (unknown) "map_of (st_leases s) (hl_Token lease) = None" and "u = zeroHealthUpdate" and "ob = 0" and "s' = s"
  | (released) r where "map_of (st_leases s) (hl_Token lease) = Some r" and "ob = 0"
      and "\<not> lease_matches lease r \<or> \<not> sc_active (st_heap s (lr_scope r))"
      and "\<not> hu_GlobalEnteredCooldown u" and "\<not> hu_ChannelEnteredCooldown u"
      and "s' = releaseLeaseLocked (lr_scope r) (chan r) (put_scope (lr_scope r)
             (releaseProbes (st_heap s (lr_scope r)) (chan r) (hl_Token lease))
             (s\<lparr>st_leases := AList.delete (hl_Token lease) (st_leases s)\<rparr>))"
  | (applied) r c o' ge ce g' c' now where "map_of (st_leases s) (hl_Token lease) = Some r"
      and "lease_matches lease r" and "sc_active (st_heap s (lr_scope r))"
      and "map_of (sc_channels (st_heap s (lr_scope r))) (chan r) = Some c"
      and "o' = (if o_ClientCanceled out then out\<lparr>o_Class := FailureClientCanceled\<rparr> else out)"
      and "now = st_clock s (st_reads s)" and "ob = st_nextObservation s + 1"
      and "applyOutcome (st_policy s) (hl_Token lease) now o' ob (sc_global (st_heap s (lr_scope r))) c = (ge, ce, g', c')"
      and "u = \<lparr> hu_GlobalState = globalState (se_state g'), hu_ChannelState = channelState (se_state c'),
                 hu_GlobalEnteredCooldown = ge, hu_ChannelEnteredCooldown = ce,
                 hu_CooldownUntil = (if ge then timePointer (se_cooldownUntil g')
                   else if ce then timePointer (se_cooldownUntil c') else None) \<rparr>"
      and "s' = releaseLeaseLocked (lr_scope r) (chan r) (put_scope (lr_scope r)
             ((st_heap s (lr_scope r))\<lparr>sc_global := g',
                sc_channels := AList.update (chan r) c' (sc_channels (st_heap s (lr_scope r)))\<rparr>)
             (s\<lparr>st_leases := AList.delete (hl_Token lease) (st_leases s), st_nextObservation := ob,
                st_reads := Suc (st_reads s)\<rparr>))"
proof (cases "map_of (st_leases s) (hl_Token lease)")
  case None
  then have "Report lease out s = (zeroHealthUpdate, 0, s)" by (simp add: Report_def)
  with assms(1) show ?thesis by (intro unknown [OF None]) simp_all
next
  case (Some r)
  from lease_channel(3) [OF assms(2) Some] obtain c where
    c: "map_of (sc_channels (st_heap s (lr_scope r))) (chan r) = Some c" ..
  have m: "(hl_Key lease \<noteq> lr_key r \<or> hl_GlobalProbe lease \<noteq> lr_globalProbe r \<or>
      hl_ChannelProbe lease \<noteq> lr_channelProbe r \<or> hl_Disabled lease \<noteq> lr_disabled r) = (\<not> lease_matches lease r)"
    by (auto simp: lease_matches_def)
  show ?thesis
  proof (cases "lease_matches lease r \<and> sc_active (st_heap s (lr_scope r))")
    case False
    let ?s' = "releaseLeaseLocked (lr_scope r) (chan r) (put_scope (lr_scope r)
       (releaseProbes (st_heap s (lr_scope r)) (chan r) (hl_Token lease))
       (s\<lparr>st_leases := AList.delete (hl_Token lease) (st_leases s)\<rparr>))"
    let ?u = "if lease_matches lease r then zeroHealthUpdate\<lparr>hu_GlobalState := globalState (se_state (sc_global (st_heap s (lr_scope r)))),
       hu_ChannelState := channelState (se_state c)\<rparr> else zeroHealthUpdate"
    have "Report lease out s = (?u, 0, ?s')"
      using False unfolding Report_def Some option.case Let_def c m by (cases "lease_matches lease r") (simp_all add: c)
    then have "u = ?u" "ob = 0" "s' = ?s'" using assms(1) by simp_all
    then show ?thesis using False by (intro released [OF Some]) (simp_all add: zeroHealthUpdate_def)
  next
    case True
    define o' where "o' = (if o_ClientCanceled out then out\<lparr>o_Class := FailureClientCanceled\<rparr> else out)"
    obtain ge ce g' c' where ap: "applyOutcome (st_policy s) (hl_Token lease) (st_clock s (st_reads s)) o'
        (st_nextObservation s + 1) (sc_global (st_heap s (lr_scope r))) c = (ge, ce, g', c')"
      by (metis prod_cases4)
    have "Report lease out s =
      (\<lparr> hu_GlobalState = globalState (se_state g'), hu_ChannelState = channelState (se_state c'),
         hu_GlobalEnteredCooldown = ge, hu_ChannelEnteredCooldown = ce,
         hu_CooldownUntil = (if ge then timePointer (se_cooldownUntil g')
           else if ce then timePointer (se_cooldownUntil c') else None) \<rparr>, st_nextObservation s + 1,
       releaseLeaseLocked (lr_scope r) (chan r) (put_scope (lr_scope r)
             ((st_heap s (lr_scope r))\<lparr>sc_global := g',
                sc_channels := AList.update (chan r) c' (sc_channels (st_heap s (lr_scope r)))\<rparr>)
             (s\<lparr>st_leases := AList.delete (hl_Token lease) (st_leases s), st_nextObservation := st_nextObservation s + 1,
                st_reads := Suc (st_reads s)\<rparr>)))"
      using True ap unfolding Report_def Some option.case Let_def c m by (simp add: Let_def clock_now_def c flip: o'_def)
    then show ?thesis
      using assms(1) True ap by (intro applied [OF Some _ _ c o'_def refl]) simp_all
  qed
qed

lemma Report_inv [inv_intros]:
  assumes "store_inv s" and "Report lease out s = (u, ob, s')"
  shows "store_inv s'"
  using assms(2,1)
proof (cases rule: Report_cases)
  case unknown
  with assms(1) show ?thesis by simp
next
  case (released r)
  from lease_channel [OF assms(1) released(1)] obtain c where l: "hl_Token lease \<noteq> 0"
    "scope_ok (st_leases s) (lr_scope r) (st_heap s (lr_scope r))"
    "map_of (sc_channels (st_heap s (lr_scope r))) (chan r) = Some c" by blast
  show ?thesis
    unfolding released(6)
    by (rule consume_inv [OF assms(1) released(1) refl refl])
       (use releaseProbes_ok [OF l(2,3,1)] in \<open>auto simp: frame_simps\<close>)
next
  case (applied r c o' ge ce g' c' now)
  note l = lease_channel [OF assms(1) applied(1)]
  let ?sc = "st_heap s (lr_scope r)"
  have inv: "entry_inv (sc_disableHealth ?sc) (sc_global ?sc)" "entry_inv (sc_disableHealth ?sc) c"
    using scope_okD(1) [OF l(2)] applied(4) by (auto simp: scope_wf_def)
  note ap = applyOutcome_entries [OF applied(8) inv store_invD(1) [OF assms(1)] l(1)]
  have "scope_ok (st_leases s) (lr_scope r)
      (?sc\<lparr>sc_global := g', sc_channels := AList.update (chan r) c' (sc_channels ?sc)\<rparr>)"
    using ap by (intro scope_ok_entries [OF l(2) applied(4)]) auto
  then show ?thesis
    unfolding applied(10) using ap
    by (intro consume_inv [OF assms(1) applied(1) refl refl, where sc =
        "?sc\<lparr>sc_global := g', sc_channels := AList.update (chan r) c' (sc_channels ?sc)\<rparr>"])
       (auto simp: gomap_simps)
qed

lemma UpdateError_inv [inv_intros]:
  assumes "store_inv s"
  shows "store_inv (UpdateError lease ob raw inc tr s)"
proof (cases "map_of (st_active s) (hk_ProviderID (hl_Key lease))")
  case None
  with assms show ?thesis by (simp add: UpdateError_def)
next
  case (Some a)
  note inv = store_invD [OF assms]
  let ?sc = "st_heap s a"
  let ?k = "channel_of (hl_Key lease)"
  let ?f = "\<lambda>e. updateEntryError e ob raw inc tr"
  have a: "a < st_nextAddr s" using inv(3) Some by (auto simp: active_ok_def live_at_def)
  note ok = scopes_okD [OF inv(5) a]
  have g: "entry_inv (sc_disableHealth ?sc) (?f (sc_global ?sc))"
    using scope_okD(1) [OF ok] by (auto simp: scope_wf_def intro: updateEntryError_inv)
  show ?thesis
  proof (cases "map_of (sc_channels ?sc) ?k")
    case None
    have "scope_ok (st_leases s) a (?sc\<lparr>sc_global := ?f (sc_global ?sc)\<rparr>)"
      using scope_okD [OF ok] g
      by (intro scope_okI) (simp_all add: scope_wf_def scope_leases_def scope_probes_def frame_simps)
    then have "store_inv (put_scope a (?sc\<lparr>sc_global := ?f (sc_global ?sc)\<rparr>) s)"
      using assms by (intro put_scope_inv) auto
    with assms Some None show ?thesis by (simp add: UpdateError_def Let_def)
  next
    case (Some c)
    have "entry_inv (sc_disableHealth ?sc) (?f c)"
      using scope_okD(1) [OF ok] Some by (auto simp: scope_wf_def intro: updateEntryError_inv)
    then have "scope_ok (st_leases s) a (?sc\<lparr>sc_global := ?f (sc_global ?sc),
        sc_channels := AList.update ?k (?f c) (sc_channels ?sc)\<rparr>)"
      using g by (intro scope_ok_entries [OF ok Some]) (auto simp: frame_simps)
    then have "store_inv (put_scope a (?sc\<lparr>sc_global := ?f (sc_global ?sc),
        sc_channels := AList.update ?k (?f c) (sc_channels ?sc)\<rparr>) s)"
      using assms by (intro put_scope_inv) auto
    with assms \<open>map_of (st_active s) _ = Some a\<close> Some show ?thesis by (simp add: UpdateError_def Let_def)
  qed
qed

end
