(* ===== verification/Health_Properties.thy ===== *)
theory Health_Properties
  imports Health_Leases
begin

text \<open>
  What the health store promises: the store as a state machine with its reachable states,
  lease accounting, exclusiveness of half-open probes, isolation of retired scopes, the
  deadlines handed to callers, and what survives a change of configuration.
\<close>

section \<open>The store as a state machine\<close>

text \<open>One step per exported operation; callers may present any lease value, forged ones included.\<close>

inductive store_step :: "store \<Rightarrow> store \<Rightarrow> bool" where
  reconcile: "store_step s (Reconcile providers s)"
| acquire: "Acquire key d s = Some (dec, s') \<Longrightarrow> store_step s s'"
| report: "Report lease out s = (u, ob, s') \<Longrightarrow> store_step s s'"
| update_error: "store_step s (UpdateError lease ob raw inc tr s)"
| earliest_retry: "EarliestRetry keys s = (t, found, s') \<Longrightarrow> store_step s s'"

inductive store_reachable :: "Policy \<Rightarrow> (nat \<Rightarrow> gotime) \<Rightarrow> store \<Rightarrow> bool" for p clk where
  start: "New p clk = Inr s \<Longrightarrow> store_reachable p clk s"
| step: "store_reachable p clk s \<Longrightarrow> store_step s s' \<Longrightarrow> store_reachable p clk s'"

lemma EarliestRetry_store:
  "EarliestRetry keys s = (t, found, s') \<Longrightarrow> s' = s\<lparr>st_reads := Suc (st_reads s)\<rparr>"
  by (simp add: EarliestRetry_def clock_now_def Let_def)

lemma store_step_inv: "store_step s s' \<Longrightarrow> store_inv s \<Longrightarrow> store_inv s'"
  by (induction rule: store_step.induct)
     (auto intro: Reconcile_inv Acquire_inv Report_inv UpdateError_inv dest: EarliestRetry_store)

text \<open>
  C22. Every store reachable from a constructed one by any sequence of operations satisfies
  the store invariant: lease counters equal the outstanding leases, probe tokens belong
  to outstanding leases, and the scope maps list exactly the live scopes.
\<close>

theorem store_reachable_inv:
  assumes "store_reachable p clk s" and "length (po_Cooldowns p) = 5"
  shows "store_inv s"
  using assms by (induction rule: store_reachable.induct) (auto intro: New_inv store_step_inv)

definition example_store :: store where
  "example_store =
     \<lparr> st_policy = DefaultPolicy, st_clock = (\<lambda>n. int n + 1), st_reads = 0, st_heap = (\<lambda>_. emptyScope),
       st_nextAddr = 0, st_active = [], st_retired = [], st_leases = [], st_nextToken = 0,
       st_nextObservation = 0 \<rparr>"

lemma example_store_New: "New DefaultPolicy (\<lambda>n. int n + 1) = Inr example_store"
proof -
  have "DefaultPolicy \<noteq> zeroPolicy" by (simp add: DefaultPolicy_def zeroPolicy_def)
  moreover have "Policy_Validate DefaultPolicy = None" using DefaultPolicy_ok by (simp add: policy_ok_def)
  ultimately show ?thesis by (simp add: New_def example_store_def Let_def)
qed

lemma example_store_inv: "store_inv example_store"
  by (rule New_inv [OF example_store_New]) (simp add: DefaultPolicy_def)

theorem store_reachable_inv_witness:
  "store_reachable DefaultPolicy (\<lambda>n. int n + 1) example_store \<and> store_inv example_store"
proof -
  have r: "store_reachable DefaultPolicy (\<lambda>n. int n + 1) example_store"
    by (rule store_reachable.start [OF example_store_New])
  have l: "length (po_Cooldowns DefaultPolicy) = 5" by (simp add: DefaultPolicy_def)
  show ?thesis using r store_reachable_inv [OF r l] by simp
qed

section \<open>Lease accounting\<close>

definition outstanding :: "store \<Rightarrow> u64 set" where
  "outstanding s = {t. map_of (st_leases s) t \<noteq> None}"

lemma outstanding_finite: "finite (outstanding s)"
  using finite_dom_map_of [of "st_leases s"] by (simp add: outstanding_def dom_def)

lemma outstanding_card: "leases_ok s \<Longrightarrow> card (outstanding s) = length (st_leases s)"
proof -
  assume "leases_ok s"
  then have "gdistinct (st_leases s)" by (simp add: leases_ok_def)
  moreover have "outstanding s = set (gkeys (st_leases s))"
    by (auto simp: outstanding_def map_of_eq_None_iff)
  ultimately show ?thesis by (simp only: distinct_card length_map)
qed

lemma Acquire_refused_outstanding:
  assumes "store_inv s" and "Acquire key d s = Some (dec, s')" and "\<not> hd_Available dec"
  shows "outstanding s' = outstanding s"
  using assms(2)
proof (cases rule: Acquire_cases)
  case (blocked a s1 now sc)
  have "st_leases s1 = st_leases s" using scopeForAcquire_spec [OF assms(1) blocked(2)] by metis
  with blocked show ?thesis by (simp add: outstanding_def)
qed (use assms(3) in auto)

lemma Acquire_granted_outstanding:
  assumes "store_inv s" and "Acquire key d s = Some (dec, s')" and "hd_Available dec"
  shows "hl_Token (hd_Lease dec) \<notin> outstanding s \<and> hl_Token (hd_Lease dec) \<noteq> 0 \<and>
    hl_Key (hd_Lease dec) = key \<and> outstanding s' = insert (hl_Token (hd_Lease dec)) (outstanding s)"
  using assms(2)
proof (cases rule: Acquire_cases)
  case (granted a s1 now sc gp cp t r)
  have "st_leases s1 = st_leases s" using scopeForAcquire_spec [OF assms(1) granted(2)] by metis
  with granted token_loop_Some [OF granted(7)] show ?thesis by (auto simp: outstanding_def gomap_simps)
qed (use assms(3) in auto)

lemma Report_outstanding:
  assumes "store_inv s" and "Report lease out s = (u, ob, s')"
  shows "outstanding s' = outstanding s - {hl_Token lease}"
  using assms(2,1)
  by (cases rule: Report_cases) (auto simp: outstanding_def frame_simps gomap_simps split: if_splits)

lemma Reconcile_outstanding: "outstanding (Reconcile ps s) = outstanding s"
proof -
  have p: "st_leases (reconcileProvider s item) = st_leases s" for s item
    by (simp add: reconcileProvider_def installScope_def frame_simps Let_def split: option.split)
  have "st_leases (foldl reconcileProvider s items) = st_leases s" for items s
    by (induction items arbitrary: s) (simp_all add: p)
  moreover have "st_leases (retireUnseen seen rest s) = st_leases s" for seen rest s
    by (induction seen rest s rule: retireUnseen.induct) (simp_all add: frame_simps)
  ultimately show ?thesis by (simp add: Reconcile_def Let_def outstanding_def)
qed

text \<open>
  C23. A lease is granted at most once and consumed at most once: a granted token is fresh
  and nonzero, reporting it removes exactly it from the outstanding leases, and any
  further report with that token is a no-op that returns the zero update.
\<close>

theorem lease_single_use:
  assumes "store_inv s" and "Acquire key d s = Some (dec, s1)" and "hd_Available dec"
    and "Report (hd_Lease dec) out s1 = (u, ob, s2)" and "hl_Token lease = hl_Token (hd_Lease dec)"
  shows "hl_Token lease \<notin> outstanding s \<and> hl_Token lease \<noteq> 0 \<and>
    outstanding s1 = insert (hl_Token lease) (outstanding s) \<and> outstanding s2 = outstanding s \<and>
    Report lease out' s2 = (zeroHealthUpdate, 0, s2)"
proof -
  note acq = Acquire_granted_outstanding [OF assms(1-3)]
  have out: "outstanding s2 = outstanding s1 - {hl_Token lease}"
    using Report_outstanding [OF Acquire_inv [OF assms(1,2)] assms(4)] assms(5) by simp
  then have "map_of (st_leases s2) (hl_Token lease) = None" by (auto simp: outstanding_def)
  then have "Report lease out' s2 = (zeroHealthUpdate, 0, s2)" by (simp add: Report_def)
  with acq assms(3,5) out show ?thesis by auto
qed

definition example_key :: HealthKey where
  "example_key = \<lparr> hk_ProviderID = ''a'', hk_Generation = ''g1'', hk_Epoch = 1, hk_Model = ''m'', hk_RequestType = ''normal'' \<rparr>"

lemma example_acquire:
  "Acquire example_key d example_store = Some (dec, s') \<Longrightarrow> hd_Available dec"
proof (erule Acquire_cases)
  assume "\<not> key_complete example_key"
  then show ?thesis by (simp add: key_complete_def example_key_def)
next
  fix a s1 now sc
  assume f: "scopeForAcquireLocked example_key d example_store = (a, s1)"
    and sc: "sc = advanceScope (st_heap s1 a) (channel_of example_key) now"
    and blocked: "\<not> (fst (available (sc_global sc)) \<and> fst (available (channelAt sc (channel_of example_key))))"
  have "st_heap s1 a = newRetiredScope example_key d"
    using f by (auto simp: scopeForAcquireLocked_def example_store_def retired_at_def Let_def)
  then have "fst (available (sc_global sc)) \<and> fst (available (channelAt sc (channel_of example_key)))"
    unfolding sc frame_simps
    by (cases d) (simp_all add: newRetiredScope_def channelAt_def advanceCooldown_def available_def initialState_def)
  with blocked show ?thesis by blast
qed

lemma example_store_room: "lease_room example_store"
  by (simp add: lease_room_def example_store_def)

theorem lease_single_use_witness:
  "\<exists>dec s1 s2. Acquire example_key False example_store = Some (dec, s1) \<and> hd_Available dec \<and>
     Report (hd_Lease dec) zeroOutcome s2 = (zeroHealthUpdate, 0, s2)"
proof -
  obtain dec s1 where a: "Acquire example_key False example_store = Some (dec, s1)"
    using Acquire_returns [OF example_store_room example_store_inv] by force
  have v: "hd_Available dec" by (rule example_acquire [OF a])
  obtain u ob s2 where r: "Report (hd_Lease dec) zeroOutcome s1 = (u, ob, s2)" by (metis prod_cases3)
  show ?thesis using a v lease_single_use [OF example_store_inv a v r refl, of zeroOutcome] by blast
qed

text \<open>
  No leak: once every lease has been reported, no retired scope is kept and every lease
  counter of every scope and channel is back to zero with no probe in flight.
\<close>

theorem idle_store_clean:
  assumes "store_inv s" and "st_leases s = []"
  shows "st_retired s = [] \<and>
    (\<forall>a < st_nextAddr s. sc_activeLeases (st_heap s a) = 0 \<and> se_probeToken (sc_global (st_heap s a)) = 0 \<and>
      (\<forall>k e. map_of (sc_channels (st_heap s a)) k = Some e \<longrightarrow> se_activeLeases e = 0 \<and> se_probeToken e = 0))"
proof -
  note inv = store_invD [OF assms(1)]
  have zero: "sc_activeLeases (st_heap s a) = 0 \<and> se_probeToken (sc_global (st_heap s a)) = 0 \<and>
      (\<forall>k e. map_of (sc_channels (st_heap s a)) k = Some e \<longrightarrow> se_activeLeases e = 0 \<and> se_probeToken e = 0)"
    if "a < st_nextAddr s" for a
    using scopes_okD [OF inv(5) that] assms(2)
    by (auto simp: scope_ok_def scope_leases_def scope_probes_def gcount_def)
  have "map_of (st_retired s) k = None" for k
  proof (rule ccontr)
    assume "map_of (st_retired s) k \<noteq> None"
    then obtain xs where xs: "map_of (st_retired s) k = Some xs" by auto
    then have "retired_at s k \<noteq> []" using inv(4) by (auto simp: retired_ok_def retired_at_def)
    from retired_scope_in [OF inv(4) this] zero show False by blast
  qed
  then have "fst ` set (st_retired s) = {}" by (metis map_of_eq_None_iff equals0I)
  then have "st_retired s = []" by simp
  with zero show ?thesis by blast
qed

theorem idle_store_clean_witness: "st_leases example_store = [] \<and> st_retired example_store = []"
proof -
  have l: "st_leases example_store = []" by (simp add: example_store_def)
  show ?thesis using l idle_store_clean [OF example_store_inv l] by simp
qed

section \<open>Half-open probes\<close>

text \<open>The scope an acquired lease was issued on, in the store after the call.\<close>

lemma granted_scope:
  assumes "store_inv s" and "Acquire key d s = Some (dec, s')" and "hd_Available dec"
  obtains r sc where "map_of (st_leases s') (hl_Token (hd_Lease dec)) = Some r" and "lr_key r = key"
    and "sc = st_heap s' (lr_scope r)" and "sc_key sc = scopeKey_of key" and "sc_disableHealth sc = d"
    and "lr_globalProbe r = hl_GlobalProbe (hd_Lease dec)" and "lr_channelProbe r = hl_ChannelProbe (hd_Lease dec)"
    and "hl_GlobalProbe (hd_Lease dec) \<Longrightarrow> se_probeToken (sc_global sc) = hl_Token (hd_Lease dec)"
    and "hl_ChannelProbe (hd_Lease dec) \<Longrightarrow>
      (\<exists>c. map_of (sc_channels sc) (channel_of key) = Some c \<and> se_probeToken c = hl_Token (hd_Lease dec))"
    and "lease_matches (hd_Lease dec) r"
  using assms(2)
proof (cases rule: Acquire_cases)
  case (granted a s1 now sc gp cp t r)
  note spec = scopeForAcquire_spec [OF assms(1) granted(2)]
  have k: "sc_key (st_heap s1 a) = scopeKey_of key" "sc_disableHealth (st_heap s1 a) = d"
    using spec by metis+
  show ?thesis
    by (rule that [of r "issueLease sc (channel_of key) t gp cp"])
       (use k granted in \<open>auto simp: gomap_simps frame_simps issueLease_def Let_def lease_matches_def\<close>)
qed (use assms(3) in auto)

text \<open>
  At most one scope can serve a key in a given mode: an active one, or the retired scopes
  that a key finds through the last element of their list.
\<close>

lemma scope_of_key_unique:
  assumes "store_inv s" and "scopeForAcquireLocked key d s = (a, s1)"
    and "b < st_nextAddr s" and "sc_active (st_heap s b)"
    and "sc_key (st_heap s b) = scopeKey_of key" and "sc_disableHealth (st_heap s b) = d"
  shows "a = b" and "s1 = s"
proof -
  have "live_at s (hk_ProviderID key) b"
    using assms(3-5) by (simp add: live_at_def scopeKey_of_def)
  then have "map_of (st_active s) (hk_ProviderID key) = Some b"
    using store_invD(3) [OF assms(1)] by (simp add: active_ok_def)
  with assms(2,5,6) show "a = b" "s1 = s"
    by (auto simp: scopeForAcquireLocked_def Let_def scopeKey_of_def)
qed

lemma half_open_stays:
  "entry_inv d e \<Longrightarrow> se_probeToken e \<noteq> 0 \<Longrightarrow> fst (available (advanceCooldown e now)) = False"
  by (auto simp: entry_inv_def advanceCooldown_def available_def)

text \<open>
  One probe at a time: while the lease that probes an active provider scope is
  outstanding, every further request for that provider generation is refused, whatever its
  model and request type, and no lease is issued to it.
\<close>

theorem global_probe_exclusive:
  assumes "store_inv s" and "a < st_nextAddr s" and "sc_active (st_heap s a)"
    and "se_probeToken (sc_global (st_heap s a)) \<noteq> 0"
    and "sc_key (st_heap s a) = scopeKey_of key" and "sc_disableHealth (st_heap s a) = d"
    and "Acquire key d s = Some (dec, s')"
  shows "\<not> hd_Available dec \<and> outstanding s' = outstanding s"
proof -
  have inv: "entry_inv d (sc_global (st_heap s a))"
    using scopes_okD [OF store_invD(5) [OF assms(1)] assms(2)] assms(6) by (auto simp: scope_ok_def scope_wf_def)
  have "\<not> hd_Available dec" using assms(7)
  proof (cases rule: Acquire_cases)
    case (granted b s1 now sc gp cp t r)
    have "b = a" "s1 = s" using scope_of_key_unique [OF assms(1) granted(2) assms(2,3,5,6)] by auto
    with granted(4,5) half_open_stays [OF inv assms(4), of now] show ?thesis by (simp add: frame_simps)
  qed auto
  then show ?thesis using Acquire_refused_outstanding [OF assms(1,7)] by simp
qed

definition probing_scope :: providerScope where
  "probing_scope = (newScope (example_provider ''a'' 1))
     \<lparr>sc_global := (newEntry stateHalfOpen)\<lparr>se_probeToken := 1\<rparr>, sc_activeLeases := 1,
      sc_channels := [(channel_of example_key, (newEntry stateUnknown)\<lparr>se_activeLeases := 1\<rparr>)]\<rparr>"

definition probing_store :: store where
  "probing_store = example_store
     \<lparr>st_heap := (\<lambda>_. probing_scope), st_nextAddr := 1, st_active := [(''a'', 0)],
      st_leases := [(1, \<lparr> lr_scope = 0, lr_key = example_key, lr_globalProbe = True, lr_channelProbe = False,
                          lr_disabled = False \<rparr>)], st_nextToken := 1\<rparr>"

lemma probing_store_inv: "store_inv probing_store"
proof -
  let ?r = "\<lparr> lr_scope = 0, lr_key = example_key, lr_globalProbe = True, lr_channelProbe = False, lr_disabled = False \<rparr>"
  have scope: "scope_wf probing_scope" "sc_active probing_scope" "sc_activeLeases probing_scope = 1"
    "sc_key probing_scope = scopeKey_of example_key" "\<not> sc_disableHealth probing_scope"
    "sc_channels probing_scope = [(channel_of example_key, (newEntry stateUnknown)\<lparr>se_activeLeases := 1\<rparr>)]"
    "sc_global probing_scope = (newEntry stateHalfOpen)\<lparr>se_probeToken := 1\<rparr>"
    by (simp_all add: probing_scope_def newScope_def scope_wf_def entry_inv_def newEntry_def maxInt_def
        scopeKey_of_def example_key_def Let_def)
  have ok: "scope_ok [(1, ?r)] 0 probing_scope"
    using scope by (intro scope_okI) (simp_all add: scope_leases_def scope_probes_def gcount_def)
  show ?thesis
  proof (rule store_invI)
    show "policy_ok (st_policy probing_store)"
      by (simp add: probing_store_def example_store_def DefaultPolicy_ok)
    show "leases_ok probing_store" by (simp add: leases_ok_def probing_store_def)
    show "active_ok probing_store"
      using scope by (auto simp: active_ok_def live_at_def probing_store_def scopeKey_of_def example_key_def)
    show "retired_ok {} probing_store"
      using scope(2) by (simp add: retired_ok_def retired_at_def probing_store_def example_store_def)
    show "scopes_ok probing_store" using ok by (simp add: scopes_ok_def probing_store_def)
  qed
qed

theorem global_probe_exclusive_witness:
  "\<exists>dec s'. Acquire example_key False probing_store = Some (dec, s') \<and> \<not> hd_Available dec"
proof -
  have h: "0 < st_nextAddr probing_store" "sc_active (st_heap probing_store 0)"
    "se_probeToken (sc_global (st_heap probing_store 0)) \<noteq> 0"
    "sc_key (st_heap probing_store 0) = scopeKey_of example_key" "sc_disableHealth (st_heap probing_store 0) = False"
    by (simp_all add: probing_store_def probing_scope_def newScope_def scopeKey_of_def example_key_def Let_def)
  have "lease_room probing_store" by (simp add: lease_room_def probing_store_def)
  from Acquire_returns [OF this probing_store_inv] obtain dec s' where
    a: "Acquire example_key False probing_store = Some (dec, s')" by force
  show ?thesis using a global_probe_exclusive [OF probing_store_inv h a] by blast
qed

section \<open>Deadlines\<close>

lemma later_deadline_spec:
  assumes "0 \<le> now"
  shows "later_deadline now r e = (if se_state e = stateCooldown \<and> now < se_cooldownUntil e \<and> r < se_cooldownUntil e
           then se_cooldownUntil e else r) \<or> r < 0"
  using assms by (auto simp: later_deadline_def)

lemma blockingRetryAt_pair:
  assumes "0 \<le> now"
  shows "blockingRetryAt now [g, c] = Some t \<longleftrightarrow>
    t > now \<and> t = (let f = \<lambda>e. if se_state e = stateCooldown \<and> now < se_cooldownUntil e then se_cooldownUntil e else 0
                   in max (f g) (f c))"
  using assms by (auto simp: blockingRetryAt_def later_deadline_def Let_def max_def split: if_splits)

lemma scopeForAcquire_clock:
  assumes "store_inv s" and "scopeForAcquireLocked key d s = (a, s1)"
  shows "st_clock s1 = st_clock s" and "st_reads s1 = st_reads s"
  using assms by (cases rule: scopeForAcquire_found; simp)+

definition cooling :: "providerScope \<Rightarrow> channelKey \<Rightarrow> gotime \<Rightarrow> bool" where
  "cooling sc k later \<longleftrightarrow> se_state (advanceCooldown (sc_global sc) later) = stateCooldown \<or>
     se_state (advanceCooldown (channelAt sc k) later) = stateCooldown"

definition probed :: "providerScope \<Rightarrow> channelKey \<Rightarrow> bool" where
  "probed sc k \<longleftrightarrow> (\<exists>e \<in> {sc_global sc, channelAt sc k}. se_state e = stateHalfOpen \<and> se_probeToken e \<noteq> 0)"

lemma advanced_cooldown:
  "se_state (advanceCooldown e n) = stateCooldown \<Longrightarrow> n < se_cooldownUntil (advanceCooldown e n)"
  by (auto simp: advanceCooldown_def split: if_splits)

lemma blocked_retry:
  assumes "0 \<le> n" and "g = advanceCooldown g' n" and "c = advanceCooldown c' n"
    and "\<not> (fst (available g) \<and> fst (available c))"
  shows "case blockingRetryAt n [g, c] of
      Some t \<Rightarrow> n < t \<and> (\<forall>later \<ge> t. se_state (advanceCooldown g later) \<noteq> stateCooldown \<and>
                                    se_state (advanceCooldown c later) \<noteq> stateCooldown)
    | None \<Rightarrow> \<exists>e \<in> {g, c}. se_state e = stateHalfOpen \<and> se_probeToken e \<noteq> 0"
proof -
  have cool: "se_state g = stateCooldown \<Longrightarrow> n < se_cooldownUntil g" "se_state c = stateCooldown \<Longrightarrow> n < se_cooldownUntil c"
    using assms(2,3) advanced_cooldown by auto
  show ?thesis
  proof (cases "blockingRetryAt n [g, c]")
    case None
    then have "se_state g \<noteq> stateCooldown \<and> se_state c \<noteq> stateCooldown"
      using blockingRetryAt_pair [OF assms(1), of g c
          "max (if se_state g = stateCooldown then se_cooldownUntil g else 0)
               (if se_state c = stateCooldown then se_cooldownUntil c else 0)"] cool assms(1)
      by (auto simp: Let_def max_def split: if_splits)
    with None assms(4) show ?thesis by (auto simp: available_def split: machineState.splits if_splits)
  next
    case (Some t)
    then have "t > n \<and> t = (let f = \<lambda>e. if se_state e = stateCooldown \<and> n < se_cooldownUntil e then se_cooldownUntil e else 0
        in max (f g) (f c))" unfolding blockingRetryAt_pair [OF assms(1)] .
    with Some cool show ?thesis by (auto simp: advanceCooldown_def Let_def split: if_splits)
  qed
qed

text \<open>
  C24. A refused request gets a usable retry time: it lies strictly in the future of the
  clock reading the call took, and once it has passed neither the provider nor the channel
  of the scope that was asked is cooling down any more. Without a retry time the refusal
  is due to a half-open probe in flight.
\<close>

theorem Acquire_retry_at:
  assumes "store_inv s" and "Acquire key d s = Some (dec, s')" and "\<not> hd_Available dec" and "key_complete key"
    and "\<forall>n. 0 \<le> st_clock s n"
  shows "\<exists>a < st_nextAddr s'. sc_key (st_heap s' a) = scopeKey_of key \<and> sc_disableHealth (st_heap s' a) = d \<and>
    (case hd_RetryAt dec of
       Some t \<Rightarrow> st_clock s (st_reads s) < t \<and> (\<forall>later \<ge> t. \<not> cooling (st_heap s' a) (channel_of key) later)
     | None \<Rightarrow> probed (st_heap s' a) (channel_of key))"
  using assms(2)
proof (cases rule: Acquire_cases)
  case (blocked b s1 n sc)
  have spec: "b < st_nextAddr s1" "sc_key (st_heap s1 b) = scopeKey_of key" "sc_disableHealth (st_heap s1 b) = d"
    using scopeForAcquire_spec [OF assms(1) blocked(2)] by metis+
  have n: "n = st_clock s (st_reads s)" using blocked(3) scopeForAcquire_clock [OF assms(1) blocked(2)] by simp
  have heap: "st_heap s' b = sc" "st_nextAddr s' = st_nextAddr s1" using blocked(10) by auto
  have "0 \<le> n" using n assms(5) by simp
  note retry = blocked_retry [OF this _ _ blocked(5), of "sc_global (st_heap s1 b)" "channelAt (st_heap s1 b) (channel_of key)"]
  have "case blockingRetryAt n [sc_global sc, channelAt sc (channel_of key)] of
      Some t \<Rightarrow> n < t \<and> (\<forall>later \<ge> t. \<not> cooling sc (channel_of key) later)
    | None \<Rightarrow> probed sc (channel_of key)"
    unfolding cooling_def probed_def de_Morgan_disj by (rule retry) (simp_all add: blocked(4) frame_simps)
  then have retry': "case hd_RetryAt dec of
      Some t \<Rightarrow> st_clock s (st_reads s) < t \<and> (\<forall>later \<ge> t. \<not> cooling (st_heap s' b) (channel_of key) later)
    | None \<Rightarrow> probed (st_heap s' b) (channel_of key)"
    by (simp only: heap(1) blocked(7) n [symmetric])
  have "sc_key sc = scopeKey_of key" "sc_disableHealth sc = d"
    using spec by (simp_all add: blocked(4) frame_simps)
  with retry' show ?thesis
    by (intro exI [of _ b] conjI) (use spec(1) in \<open>simp_all only: heap\<close>)
qed (use assms in auto)

theorem Acquire_retry_at_witness:
  "\<exists>dec s'. Acquire example_key False probing_store = Some (dec, s') \<and>
     (\<exists>a < st_nextAddr s'. sc_key (st_heap s' a) = scopeKey_of example_key)"
proof -
  have "lease_room probing_store" by (simp add: lease_room_def probing_store_def)
  from Acquire_returns [OF this probing_store_inv] obtain dec s' where
    a: "Acquire example_key False probing_store = Some (dec, s')" by force
  have k: "key_complete example_key" by (simp add: key_complete_def example_key_def)
  have c: "\<forall>n. 0 \<le> st_clock probing_store n" by (simp add: probing_store_def example_store_def)
  have "\<not> hd_Available dec" using a
  proof (cases rule: Acquire_cases)
    case (granted b s1 now sc gp cp t r)
    have "s1 = probing_store" "b = 0"
      using granted(2) by (auto simp: scopeForAcquireLocked_def probing_store_def probing_scope_def newScope_def
          example_key_def Let_def)
    with granted(4,5) show ?thesis
      by (auto simp: frame_simps probing_store_def probing_scope_def advanceCooldown_def available_def newEntry_def)
  qed auto
  then show ?thesis using a Acquire_retry_at [OF probing_store_inv a _ k c] by blast
qed

end
