(* ===== verification/Selector_Store.thy ===== *)
theory Selector_Store
  imports Selector_Interface Health_Properties
begin

text \<open>
  The scheduler on the health store: the store's operations keep the health controller's
  contract, so everything the selector guarantees over that contract holds for the pair
  the program runs. The pair is a state machine whose steps are the calls of the gateway
  and of the configuration manager, in any order.
\<close>

section \<open>The store is a health controller\<close>

definition store_controller :: "store HealthController" where
  "store_controller = \<lparr> hc_Reconcile = Reconcile, hc_Acquire = Acquire, hc_Report = Report,
     hc_EarliestRetry = EarliestRetry, hc_UpdateError = Some UpdateError \<rparr>"

lemma token_room_iff: "store_inv s \<Longrightarrow> token_room (outstanding s) \<longleftrightarrow> lease_room s"
  using outstanding_card [OF store_invD(2)] by (simp add: token_room_def lease_room_def)

lemma UpdateError_outstanding: "outstanding (UpdateError l ob raw i t s) = outstanding s"
  by (simp add: UpdateError_def outstanding_def Let_def split: option.split)

interpretation store: health_controller store_controller store_inv outstanding
proof unfold_locales
  fix h k d dec h'
  assume inv: "store_inv h" and a: "hc_Acquire store_controller k d h = Some (dec, h')"
  then have acq: "Acquire k d h = Some (dec, h')" by (simp add: store_controller_def)
  show "store_inv h'" by (rule Acquire_inv [OF inv acq])
  show "accounted (outstanding h) (if hd_Available dec then Some (hd_Lease dec) else None) (outstanding h')"
    using Acquire_refused_outstanding [OF inv acq] Acquire_granted_outstanding [OF inv acq] by simp
next
  fix h k d assume "store_inv h" and "token_room (outstanding h)"
  then show "hc_Acquire store_controller k d h \<noteq> None"
    using Acquire_returns [of h k d] token_room_iff [of h] by (auto simp: store_controller_def)
next
  fix h l out u ob h' assume inv: "store_inv h" and "hc_Report store_controller l out h = (u, ob, h')"
  then have r: "Report l out h = (u, ob, h')" by (simp add: store_controller_def)
  show "store_inv h'" by (rule Report_inv [OF inv r])
  show "outstanding h' = outstanding h - {hl_Token l}" by (rule Report_outstanding [OF inv r])
qed (auto simp: store_controller_def Reconcile_inv Reconcile_outstanding UpdateError_inv UpdateError_outstanding)

section \<open>The running system\<close>

type_synonym system = "store Scheduler"

definition system_ok :: "system \<Rightarrow> bool" where
  "system_ok s \<longleftrightarrow> sched_ok s \<and> store_inv (sch_health s)"

abbreviation leases_out :: "system \<Rightarrow> u64 set" where
  "leases_out s \<equiv> outstanding (sch_health s)"

lemma system_okD: "system_ok s \<Longrightarrow> sched_ok s" "system_ok s \<Longrightarrow> store_inv (sch_health s)"
  by (simp_all add: system_ok_def)

inductive system_step :: "system \<Rightarrow> system \<Rightarrow> bool" where
  acquire: "Scheduler_Acquire store_controller snap key request s = Some (res, request', s') \<Longrightarrow>
     token_room (leases_out s) \<Longrightarrow> system_step s s'"
| report: "Scheduler_Report store_controller lease out s = Some (u, ob, s') \<Longrightarrow> system_step s s'"
| reconcile: "system_step s (Scheduler_Reconcile store_controller snap s)"
| update_error: "system_step s (Scheduler_UpdateError store_controller lease ob raw i t s)"
| assignments: "Assignments p s = Some (as, s') \<Longrightarrow> system_step s s'"

inductive system_reachable :: "Policy \<Rightarrow> (nat \<Rightarrow> gotime) \<Rightarrow> (nat \<Rightarrow> gotime) \<Rightarrow> system \<Rightarrow> bool" for p clk hclk where
  start: "New p hclk = Inr h \<Longrightarrow> Scheduler_New p clk h = Inr s \<Longrightarrow> system_reachable p clk hclk s"
| step: "system_reachable p clk hclk s \<Longrightarrow> system_step s s' \<Longrightarrow> system_reachable p clk hclk s'"

lemma Scheduler_New_ok:
  assumes "Scheduler_New p clk h = Inr s" and "length (po_Cooldowns p) = 5"
  shows "sched_ok s" and "sch_health s = h"
proof -
  define q where "q = (if p = zeroPolicy then DefaultPolicy else p)"
  have v: "Policy_Validate q = None" and s: "s = \<lparr> sch_health = h, sch_policy = q, sch_clock = clk, sch_reads = 0,
      sch_revision = 0, sch_providers = [], sch_cursors = [], sch_affinity = emptyAffinity \<rparr>"
    using assms(1) by (auto simp: Scheduler_New_def q_def [symmetric] Let_def split: option.splits)
  have "length (po_Cooldowns q) = 5" using assms(2) by (simp add: q_def DefaultPolicy_def)
  with v have ok: "policy_ok q" unfolding policy_ok_def by blast
  show "sch_health s = h" by (simp add: s)
  have "af_assignments emptyAffinity = []" by (simp add: emptyAffinity_def)
  with ok policy_okD(4) [OF ok] show "sched_ok s" by (simp add: s sched_ok_def emptyAffinity_inv)
qed

lemma Assignments_ok:
  assumes "sched_ok s" and "Assignments p s = Some (as, s')"
  shows "sched_ok s'" and "sch_health s' = sch_health s"
proof -
  let ?s1 = "s\<lparr>sch_reads := Suc (sch_reads s)\<rparr>"
  have "sched_ok ?s1" using assms(1) by simp
  then obtain af where "expire_now (sch_clock s (sch_reads s)) ?s1 = Some (?s1\<lparr>sch_affinity := af\<rparr>)"
    "sched_ok (?s1\<lparr>sch_affinity := af\<rparr>)" by (rule expire_now_spec)
  with assms(2) show "sched_ok s'" "sch_health s' = sch_health s"
    by (auto simp: Assignments_def sched_now_def Let_def)
qed

lemma system_step_ok:
  assumes "system_step s s'" and "system_ok s"
  shows "system_ok s'"
  using assms(1)
proof (cases rule: system_step.cases)
  case (acquire snap key request res request')
  with store.Scheduler_Acquire_settled [OF system_okD [OF assms(2)] acquire(2), of snap key request]
  show ?thesis by (auto simp: system_ok_def)
next
  case (report lease out u ob)
  with store.Scheduler_Report_settled [OF system_okD [OF assms(2)], of lease out] show ?thesis
    by (auto simp: system_ok_def)
next
  case (reconcile snap)
  with store.Scheduler_Reconcile_settled [OF system_okD [OF assms(2)], of snap] show ?thesis
    by (auto simp: system_ok_def)
next
  case (update_error lease ob raw i t)
  with store.Scheduler_UpdateError_settled [OF system_okD [OF assms(2)], of lease ob raw i t] show ?thesis
    by (auto simp: system_ok_def)
next
  case (assignments p as)
  with Assignments_ok [OF system_okD(1) [OF assms(2)] assignments] assms(2) show ?thesis by (simp add: system_ok_def)
qed

section \<open>Properties\<close>

text \<open>
  C3. In every state the scheduler and its health store reach, by any sequence of acquire,
  report, reconcile and diagnostic calls, the affinity map, its LRU list and its provider
  index describe the same assignments, no more than the capacity, and the health store's
  lease accounting is exact.
\<close>

theorem system_reachable_ok:
  assumes "system_reachable p clk hclk s" and "length (po_Cooldowns p) = 5"
  shows "system_ok s"
  using assms(1)
proof (induction rule: system_reachable.induct)
  case (start h s)
  then show ?case
    using Scheduler_New_ok [OF start(2) assms(2)] New_inv [OF start(1) assms(2)] by (simp add: system_ok_def)
qed (rule system_step_ok)

definition example_system :: system where
  "example_system = \<lparr> sch_health = example_store, sch_policy = DefaultPolicy, sch_clock = (\<lambda>n. int n + 1), sch_reads = 0,
     sch_revision = 0, sch_providers = [], sch_cursors = [], sch_affinity = emptyAffinity \<rparr>"

lemma example_system_New: "Scheduler_New DefaultPolicy (\<lambda>n. int n + 1) example_store = Inr example_system"
proof -
  have "DefaultPolicy \<noteq> zeroPolicy" by (simp add: DefaultPolicy_def zeroPolicy_def)
  moreover have "Policy_Validate DefaultPolicy = None" using DefaultPolicy_ok by (simp add: policy_ok_def)
  ultimately show ?thesis by (simp add: Scheduler_New_def example_system_def Let_def)
qed

lemma example_system_ok: "system_ok example_system"
  using Scheduler_New_ok [OF example_system_New] example_store_inv
  by (simp add: system_ok_def DefaultPolicy_def)

theorem system_reachable_ok_witness:
  "system_reachable DefaultPolicy (\<lambda>n. int n + 1) (\<lambda>n. int n + 1) example_system \<and> system_ok example_system"
proof -
  have r: "system_reachable DefaultPolicy (\<lambda>n. int n + 1) (\<lambda>n. int n + 1) example_system"
    by (rule system_reachable.start [OF example_store_New example_system_New])
  have l: "length (po_Cooldowns DefaultPolicy) = 5" by (simp add: DefaultPolicy_def)
  show ?thesis using r system_reachable_ok [OF r l] by simp
qed

text \<open>
  C4. \<open>Acquire\<close> of the scheduler always returns and never leaks: an error leaves the health
  store with exactly the leases it had, although several providers may have been asked;
  a success adds exactly the one lease that is returned, under a fresh token.
\<close>

theorem Scheduler_Acquire_accounts:
  assumes "system_ok s" and "token_room (leases_out s)"
  shows "\<exists>res request' s'. Scheduler_Acquire store_controller snap key request s = Some (res, request', s') \<and>
    system_ok s' \<and>
    (case res of
       Inl err \<Rightarrow> leases_out s' = leases_out s
     | Inr lease \<Rightarrow> hl_Token (al_HealthLease lease) \<notin> leases_out s \<and>
         leases_out s' = insert (hl_Token (al_HealthLease lease)) (leases_out s))"
proof -
  obtain res request' s' where "Scheduler_Acquire store_controller snap key request s = Some (res, request', s')"
    "sched_ok s'" "store_inv (sch_health s')" "accounted (leases_out s)
       (case res of Inl _ \<Rightarrow> None | Inr lease \<Rightarrow> Some (al_HealthLease lease)) (leases_out s')"
    using store.Scheduler_Acquire_settled [OF system_okD [OF assms(1)] assms(2)] by metis
  then show ?thesis by (cases res) (simp_all add: system_ok_def)
qed

lemma example_system_room: "token_room (leases_out example_system)"
  using token_room_iff [OF example_store_inv] example_store_room by (simp add: example_system_def)

definition example_sticky :: StickyKey where
  "example_sticky = \<lparr>sk_SessionID = ''s'', sk_Model = ''m'', sk_RequestType = ''normal''\<rparr>"

definition example_snapshot :: Snapshot where
  "example_snapshot = \<lparr> sn_Revision = 1, sn_GatewayKey = ''g'', sn_AttemptPolicy = DefaultAttemptPolicy,
     sn_Candidates = (\<lambda>m. if m = ''m'' then [Some (example_provider ''a'' 1)] else []),
     sn_Providers = [Some (example_provider ''a'' 1)] \<rparr>"

theorem Scheduler_Acquire_accounts_witness:
  "\<exists>res request' s'. Scheduler_Acquire store_controller (Some example_snapshot) example_sticky
     (Some (NewRequestSelection DefaultAttemptPolicy)) example_system = Some (res, request', s') \<and> system_ok s'"
  using Scheduler_Acquire_accounts [OF example_system_ok example_system_room, of "Some example_snapshot" example_sticky
      "Some (NewRequestSelection DefaultAttemptPolicy)"] by blast

text \<open>
  C5. An attempt is balanced: acquiring a lease, any further calls of other requests left
  aside, and reporting it with whatever outcome returns the health store to exactly the
  outstanding leases it had before, also when the configuration changed in between.
\<close>

theorem attempt_round_trip:
  assumes "system_ok s" and "token_room (leases_out s)"
    and "Scheduler_Acquire store_controller snap key request s = Some (Inr lease, request', s1)"
    and "s2 = Scheduler_Reconcile store_controller snap' s1"
  shows "\<exists>u ob s3. Scheduler_Report store_controller lease out s2 = Some (u, ob, s3) \<and> system_ok s3 \<and>
    leases_out s3 = leases_out s"
proof -
  have s1: "sched_ok s1" "store_inv (sch_health s1)" "hl_Token (al_HealthLease lease) \<notin> leases_out s"
    "leases_out s1 = insert (hl_Token (al_HealthLease lease)) (leases_out s)"
    using store.Scheduler_Acquire_settled [OF system_okD [OF assms(1)] assms(2), of snap key request] assms(3) by auto
  note s2 = store.Scheduler_Reconcile_settled [OF s1(1,2), of snap', folded assms(4)]
  obtain u ob s3 where "Scheduler_Report store_controller lease out s2 = Some (u, ob, s3)" "sched_ok s3"
    "store_inv (sch_health s3)" "leases_out s3 = leases_out s2 - {hl_Token (al_HealthLease lease)}"
    using store.Scheduler_Report_settled [OF s2(1,2)] by metis
  with s1(3,4) s2(3) show ?thesis by (auto simp: system_ok_def)
qed

text \<open>The example request is served; the definitions are evaluated.\<close>

definition example_call :: "((SchedulerError + AttemptLease) \<times> RequestSelection option \<times> system) option" where
  "example_call = Scheduler_Acquire store_controller (Some example_snapshot) example_sticky
     (Some (NewRequestSelection DefaultAttemptPolicy)) example_system"

lemma example_call_served: "case example_call of Some (Inr lease, _, _) \<Rightarrow> True | _ \<Rightarrow> False"
  by code_simp

lemma example_callE:
  obtains lease request' s1 where "example_call = Some (Inr lease, request', s1)"
proof (cases example_call)
  case (Some r)
  obtain res request' s1 where r: "r = (res, request', s1)" by (metis prod_cases3)
  have "case r of (Inr lease, _, _) \<Rightarrow> True | _ \<Rightarrow> False" using example_call_served unfolding Some by simp
  then obtain lease where "res = Inr lease" by (cases res) (auto simp: r)
  with Some r that show thesis by blast
qed (use example_call_served in simp)

theorem attempt_round_trip_witness:
  "\<exists>lease request' s1 u ob s3. example_call = Some (Inr lease, request', s1) \<and>
     Scheduler_Report store_controller lease zeroOutcome (Scheduler_Reconcile store_controller (Some example_snapshot) s1)
       = Some (u, ob, s3) \<and> leases_out s3 = leases_out example_system"
proof -
  obtain lease request' s1 where c: "example_call = Some (Inr lease, request', s1)" by (rule example_callE)
  show ?thesis
    using c attempt_round_trip [OF example_system_ok example_system_room c [unfolded example_call_def] refl,
        of zeroOutcome "Some example_snapshot"] by blast
qed

end
