(* ===== verification/Selector_Properties.thy ===== *)
theory Selector_Properties
  imports Selector_Trace Selector_Store
begin

text \<open>
  What the selector promises to a request: the provider it gets, the order in which
  providers are asked, the retry time when there is none, the attempt budget, and the
  sticky retry allowance.
\<close>

section \<open>Requests\<close>

text \<open>The state of a request between its calls.\<close>

definition request_ok :: "string \<Rightarrow> RequestSelection \<Rightarrow> bool" where
  "request_ok model r \<longleftrightarrow>
     (if rs_initialized r
      then by_priority (rs_ordered r) \<and>
        (\<forall>p \<in> set (rs_ordered r). StaticAvailabilityOf (Some p) = StaticActive \<and> SupportsModel p model)
      else rs_stickyPhase r \<noteq> stickyRetryActive)"

lemma NewRequestSelection_ok: "request_ok model (NewRequestSelection p)"
  by (simp add: request_ok_def NewRequestSelection_def)

lemma StartAttempt_ok: "request_ok model r \<Longrightarrow> request_ok model (snd (StartAttempt r))"
  by (auto simp: request_ok_def StartAttempt_def Let_def split: if_splits)

lemma recordSelection_frame [frame_simps]:
  "rs_ordered (recordSelection r sel g rt) = rs_ordered r" "rs_initialized (recordSelection r sel g rt) = rs_initialized r"
  "rs_policy (recordSelection r sel g rt) = rs_policy r" "rs_attemptsUsed (recordSelection r sel g rt) = rs_attemptsUsed r"
  "rs_stickyAttemptsUsed (recordSelection r sel g rt) = rs_stickyAttemptsUsed r"
  by (auto simp: recordSelection_def Let_def split: candidateReason.split)

lemma initRequest_request:
  assumes "initRequest snap key current request s = (req, s3)" and "request_ok (sk_Model key) request"
    and "\<not> rs_initialized request"
  shows "rs_initialized req" and "request_ok (sk_Model key) req" and "fresh_request req"
proof -
  let ?items = "eligibleCandidates (sn_Candidates snap (sk_Model key)) (sk_Model key)"
  show init: "rs_initialized req" "fresh_request req"
    using assms by (auto simp: initRequest_def request_ok_def Let_def split: if_splits option.splits)
  note ord = initRequest_order [OF assms(1)]
  from orderCandidates_spec [OF eligibleCandidates_by_priority eligibleCandidates_distinct ord(2,1)]
  have "mset (rs_ordered req) = mset ?items" "by_priority (rs_ordered req)" by blast+
  moreover from this(1) have "set (rs_ordered req) = set ?items" by (metis set_mset_mset)
  ultimately show "request_ok (sk_Model key) req"
    using init(1) eligibleCandidates_mem [of _ "sn_Candidates snap (sk_Model key)" "sk_Model key"]
    by (auto simp: request_ok_def)
qed

lemma health_key_session [simp]: "health_key (key\<lparr>sk_SessionID := x\<rparr>) item = health_key key item"
  by (simp add: health_key_def)

lemma calls_session [simp]: "calls hc (key\<lparr>sk_SessionID := x\<rparr>) h log h' = calls hc key h log h'"
  by (induction log arbitrary: h) auto

lemma chose_session [simp]: "chose hc (key\<lparr>sk_SessionID := x\<rparr>) h log sel h' = chose hc key h log sel h'"
  by (simp add: chose_def)

text \<open>One call, seen from its result.\<close>

lemma Acquire_trace:
  assumes "sched_ok s" and "request_ok (sk_Model key) request"
    and "Scheduler_Acquire hc (Some snap) key (Some request) s = Some (res, Some req', s')"
  obtains (invalid) err where "res = Inl err" and "\<nexists>t. err = UnavailableError t" and "req' = request" and "s' = s"
  | (failed) log t where "res = Inl (UnavailableError t)" and "calls hc key (sch_health s) log (sch_health s')"
      and "refused log" and "t = retries 0 log" and "request_ok (sk_Model key) req'"
      and "fst ` set log = set (rs_ordered req') \<or> (\<exists>(i, d) \<in> set log. \<not> cooling_down d)"
      and "fst ` set log \<subseteq> set (rs_ordered req')" and "rs_attemptsUsed req' = rs_attemptsUsed request"
  | (granted) log sel lease where "res = Inr lease" and "chose hc key (sch_health s) log sel (sch_health s')"
      and "al_Provider lease = Some (sel_provider sel)" and "al_HealthLease lease = sel_healthLease sel"
      and "sel_provider sel \<in> set (rs_ordered req')" and "request_ok (sk_Model key) req'"
      and "\<forall>y \<in> set (rs_ordered req'). cp_Priority y > cp_Priority (sel_provider sel) \<longrightarrow>
             (\<exists>d. (y, d) \<in> set log \<and> cooling_down d)"
      and "\<not> rs_initialized request \<Longrightarrow> \<exists>rest. map fst log @ sel_provider sel # rest = rs_ordered req'"
      and "HasBudget request" and "rs_initialized req'" and "rs_attemptsUsed req' = rs_attemptsUsed request"
proof -
  let ?key = "key\<lparr>sk_SessionID := TrimSpace (sk_SessionID key)\<rparr>"
  show thesis
  proof (cases "acquireLocked hc snap ?key request s = Some (res, req', s') \<and> HasBudget request")
    case False
    with assms(3) invalid show thesis
      by (auto simp: Scheduler_Acquire_def Let_def split: if_splits option.splits)
  next
    case True
    then have budget: "HasBudget request" by blast
    obtain af req s3 where init: "(req, s3) = (if rs_initialized request then (request, s\<lparr>sch_reads := Suc (sch_reads s), sch_affinity := af\<rparr>)
       else initRequest snap ?key (current_for snap s) request (s\<lparr>sch_reads := Suc (sch_reads s), sch_affinity := af\<rparr>))"
      and ok2: "sched_ok (s\<lparr>sch_reads := Suc (sch_reads s), sch_affinity := af\<rparr>)"
      and s3: "sched_ok s3" "sch_health s3 = sch_health s"
      and call: "acquireLocked hc snap ?key request s =
      Option.bind (tier_loop hc ?key req (if rs_initialized request then candidateRoundRobin else candidateFirst)
          (rs_ordered req) 0 (sch_health s))
        (finishAcquire snap ?key (current_for snap s) (sch_clock s (sch_reads s)) req s3)"
      by (rule acquireLocked_start [OF assms(1), of request snap ?key hc])
    have req: "request_ok (sk_Model key) req" "rs_initialized req" "\<not> rs_initialized request \<Longrightarrow> fresh_request req"
      "rs_attemptsUsed req = rs_attemptsUsed request"
      using init initRequest_request [of snap ?key "current_for snap s" request _ req s3] assms(2)
        initRequest_spec(4) [OF ok2, of snap ?key "current_for snap s" request req s3]
      by (auto split: if_splits)
    have prio: "by_priority (rs_ordered req)" using req(1,2) by (simp add: request_ok_def)
    obtain sel t h where tl: "tier_loop hc ?key req (if rs_initialized request then candidateRoundRobin else candidateFirst)
        (rs_ordered req) 0 (sch_health s) = Some (sel, t, h)"
      and fin: "finishAcquire snap ?key (current_for snap s) (sch_clock s (sch_reads s)) req s3 (sel, t, h) = Some (res, req', s')"
      using True call by (auto simp: bind_eq_Some_conv)
    show thesis
    proof (cases sel)
      case None
      from tier_loop_gave_up [OF tl [unfolded None]] obtain log where log: "calls hc ?key (sch_health s) log h" "refused log"
        "t = retries 0 log" "fst ` set log \<subseteq> set (rs_ordered req)"
        "fst ` set log = set (rs_ordered req) \<or> (\<exists>(i, d) \<in> set log. \<not> cooling_down d)" by (elim exE conjE) (rule that)
      have r: "res = Inl (UnavailableError t)" "req' = req\<lparr>rs_stickyPhase := stickyRetryEnded\<rparr>" "s' = s3\<lparr>sch_health := h\<rparr>"
        using fin None by (simp_all add: finishAcquire_def)
      have "request_ok (sk_Model key) req'" using req(1,2) by (simp add: r request_ok_def)
      with log r req(4) show thesis by (intro failed [of t log]) simp_all
    next
      case (Some p)
      obtain selected members where p: "p = (selected, members)" by force
      note tl = tl [unfolded Some p]
      from tier_loop_chose [OF prio tl] obtain log where log: "chose hc ?key (sch_health s) log selected h"
        "sel_provider selected \<in> set (rs_ordered req)"
        "\<forall>y \<in> set (rs_ordered req). cp_Priority y > cp_Priority (sel_provider selected) \<longrightarrow> (\<exists>d. (y, d) \<in> set log \<and> cooling_down d)"
        "fresh_request req \<longrightarrow> (\<exists>rest. map fst log @ sel_provider selected # rest = rs_ordered req)"
        by (elim exE conjE) (rule that)
      let ?r = "recordSelection req selected members (sk_RequestType ?key)"
      have "sched_ok (s3\<lparr>sch_health := h\<rparr>)" using s3(1) by simp
      then obtain lease source' s4 where mk: "makeAttemptLeaseLocked snap ?key selected (rs_source ?r) (current_for snap s)
          (sch_clock s (sch_reads s)) (s3\<lparr>sch_health := h\<rparr>) = Some (lease, source', s4)" "sch_health s4 = h"
        "al_HealthLease lease = sel_healthLease selected" "al_Provider lease = Some (sel_provider selected)"
        by (rule makeAttemptLease_spec) auto
      have r: "res = Inr lease" "req' = ?r\<lparr>rs_source := source'\<rparr>" "s' = s4"
        using fin Some p mk(1) by (simp_all add: finishAcquire_def Let_def)
      have o: "rs_ordered req' = rs_ordered req" "rs_initialized req'" "rs_attemptsUsed req' = rs_attemptsUsed request"
        using r(2) req(2,4) by (simp_all add: frame_simps)
      have "request_ok (sk_Model key) req'" using req(1,2) o by (simp add: request_ok_def)
      with log mk r(1,3) o req(3) budget show thesis by (intro granted [of lease log selected]) simp_all
    qed
  qed
qed

section \<open>Properties\<close>

text \<open>
  C6. Whatever the state of health and affinity, a lease goes to a provider that is enabled,
  has a key and serves the model, and a provider of lower priority is used only when every
  candidate of higher priority was asked in the same call and answered that it is cooling
  down; every provider asked before the chosen one refused.
\<close>

theorem selection_respects_priority:
  assumes "sched_ok s" and "request_ok (sk_Model key) request"
    and "Scheduler_Acquire hc (Some snap) key (Some request) s = Some (Inr lease, Some req', s')"
  shows "\<exists>item log d. al_Provider lease = Some item \<and> StaticAvailabilityOf (Some item) = StaticActive \<and>
    SupportsModel item (sk_Model key) \<and> calls hc key (sch_health s) (log @ [(item, d)]) (sch_health s') \<and>
    hd_Available d \<and> hd_Lease d = al_HealthLease lease \<and> refused log \<and>
    (\<forall>y \<in> set (rs_ordered req'). cp_Priority y > cp_Priority item \<longrightarrow> (\<exists>e. (y, e) \<in> set log \<and> cooling_down e))"
  using assms
proof (cases rule: Acquire_trace)
  case (granted log sel lease')
  from granted(2) obtain d where d: "calls hc key (sch_health s) (log @ [(sel_provider sel, d)]) (sch_health s')"
    "refused log" "hd_Available d" "hd_Lease d = sel_healthLease sel" by (auto simp: chose_def)
  have "StaticAvailabilityOf (Some (sel_provider sel)) = StaticActive \<and> SupportsModel (sel_provider sel) (sk_Model key)"
    using granted(5,6,10) by (simp add: request_ok_def)
  with granted(1,3,4,7) d show ?thesis
    by (intro exI [of _ "sel_provider sel"] exI [of _ log] exI [of _ d]) simp
qed simp_all

lemma example_request: "request_ok (sk_Model example_sticky) (NewRequestSelection DefaultAttemptPolicy)"
  by (rule NewRequestSelection_ok)

lemma example_call_request:
  assumes "example_call = Some (res, request', s1)"
  obtains req' where "request' = Some req'"
  using assms
  by (auto simp: example_call_def Scheduler_Acquire_def Let_def split: if_splits option.splits prod.splits)

theorem selection_respects_priority_witness:
  "\<exists>lease req' s1 item. example_call = Some (Inr lease, Some req', s1) \<and> al_Provider lease = Some item \<and>
     SupportsModel item ''m''"
proof -
  obtain lease request' s1 where c: "example_call = Some (Inr lease, request', s1)" by (rule example_callE)
  obtain req' where r: "request' = Some req'" using c by (rule example_call_request)
  have m: "sk_Model example_sticky = ''m''" by (simp add: example_sticky_def)
  show ?thesis
    using c r m selection_respects_priority [OF system_okD(1) [OF example_system_ok] example_request
        c [unfolded example_call_def r]] by auto
qed

end
