(* ===== verification/Gateway_Properties.thy ===== *)
theory Gateway_Properties
  imports Gateway_Pool Selector_Properties
begin

text \<open>
  The executor on the real scheduler: \<open>store_selector\<close> is the selector the gateway is given, the
  scheduler over the health store, and it keeps the contract the accounting rests on. The
  properties of \<open>forwardPool\<close> follow.
\<close>

section \<open>The scheduler is a selector\<close>

lemma Acquire_request:
  assumes "sched_ok s" and "Scheduler_Acquire hc (Some snap) key (Some request) s = Some (res, r, s')"
  shows "\<exists>request'. r = Some request' \<and> rs_attemptsUsed request' = rs_attemptsUsed request \<and> rs_policy request' = rs_policy request \<and>
    (\<forall>lease. res = Inr lease \<longrightarrow> al_Provider lease \<noteq> None)"
proof -
  let ?key = "key\<lparr>sk_SessionID := TrimSpace (sk_SessionID key)\<rparr>"
  have locked: "rs_attemptsUsed req' = rs_attemptsUsed request \<and> rs_policy req' = rs_policy request \<and>
      (\<forall>lease. res' = Inr lease \<longrightarrow> al_Provider lease \<noteq> None)"
    if call: "acquireLocked hc snap ?key request s = Some (res', req', s'')" for res' req' s''
  proof -
    obtain af req s3 where ok: "sched_ok (s\<lparr>sch_reads := Suc (sch_reads s), sch_affinity := af\<rparr>)" "sched_ok s3"
      and init: "(req, s3) = (if rs_initialized request then (request, s\<lparr>sch_reads := Suc (sch_reads s), sch_affinity := af\<rparr>)
        else initRequest snap ?key (current_for snap s) request (s\<lparr>sch_reads := Suc (sch_reads s), sch_affinity := af\<rparr>))"
      and run: "acquireLocked hc snap ?key request s =
        Option.bind (tier_loop hc ?key req (if rs_initialized request then candidateRoundRobin else candidateFirst) (rs_ordered req) 0 (sch_health s))
          (finishAcquire snap ?key (current_for snap s) (sch_clock s (sch_reads s)) req s3)"
      by (rule acquireLocked_start [OF assms(1), of request snap ?key hc])
    have req: "rs_attemptsUsed req = rs_attemptsUsed request" "rs_policy req = rs_policy request"
      using init initRequest_spec(3,4) [OF ok(1), of snap ?key "current_for snap s" request req s3] by (auto split: if_splits)
    obtain sel t h where fin: "finishAcquire snap ?key (current_for snap s) (sch_clock s (sch_reads s)) req s3 (sel, t, h) = Some (res', req', s'')"
      using call run by (auto simp: bind_eq_Some_conv)
    show ?thesis
    proof (cases sel)
      case None
      with fin req show ?thesis by (auto simp: finishAcquire_def)
    next
      case (Some p)
      obtain selected members where p: "p = (selected, members)" by force
      let ?r = "recordSelection req selected members (sk_RequestType ?key)"
      have "sched_ok (s3\<lparr>sch_health := h\<rparr>)" using ok(2) by simp
      then obtain lease source' s4 where "makeAttemptLeaseLocked snap ?key selected (rs_source ?r) (current_for snap s)
          (sch_clock s (sch_reads s)) (s3\<lparr>sch_health := h\<rparr>) = Some (lease, source', s4)"
        "al_Provider lease = Some (sel_provider selected)"
        by (rule makeAttemptLease_spec) auto
      with fin Some p req show ?thesis by (auto simp: finishAcquire_def Let_def frame_simps)
    qed
  qed
  show ?thesis
    using assms(2) locked by (auto simp: Scheduler_Acquire_def Let_def split: if_splits option.splits)
qed

text \<open>
  \<open>the\<close> is applied only where the call returns: \<open>Acquire\<close> does while a token is free, \<open>Report\<close>
  always.
\<close>

definition store_selector :: "system Selector" where
  "store_selector =
     \<lparr> sel_Acquire = (\<lambda>snapshot key request s.
         let (res, request', s') = the (Scheduler_Acquire store_controller (Some snapshot) key (Some request) s) in (res, the request', s')),
       sel_Report = (\<lambda>lease outcome s. the (Scheduler_Report store_controller lease outcome s)),
       sel_UpdateError = Scheduler_UpdateError store_controller \<rparr>"

interpretation gate: gateway_selector store_selector system_ok leases_out
proof unfold_locales
  fix s snap key req res req' s'
  assume ok: "system_ok s" and room: "token_room (leases_out s)" and call: "sel_Acquire store_selector snap key req s = (res, req', s')"
  obtain res1 r1 s1 where a: "Scheduler_Acquire store_controller (Some snap) key (Some req) s = Some (res1, r1, s1)" "sched_ok s1"
    "store_inv (sch_health s1)" "accounted (leases_out s) (case res1 of Inl _ \<Rightarrow> None | Inr lease \<Rightarrow> Some (al_HealthLease lease)) (leases_out s1)"
    using store.Scheduler_Acquire_settled [OF system_okD [OF ok] room] by metis
  have eq: "res = res1" "req' = the r1" "s' = s1" using call a(1) by (simp_all add: store_selector_def)
  show "system_ok s' \<and> rs_attemptsUsed req' = rs_attemptsUsed req \<and> rs_policy req' = rs_policy req \<and>
      (case res of
         Inl _ \<Rightarrow> leases_out s' = leases_out s
       | Inr l \<Rightarrow> al_Provider l \<noteq> None \<and> lease_token l \<notin> leases_out s \<and> leases_out s' = insert (lease_token l) (leases_out s))"
    using a(2-4) eq Acquire_request [OF system_okD(1) [OF ok] a(1)] by (cases res1) (auto simp: system_ok_def)
next
  fix s l outcome u ob s'
  assume ok: "system_ok s" and call: "sel_Report store_selector l outcome s = (u, ob, s')"
  obtain u1 ob1 s1 where r: "Scheduler_Report store_controller l outcome s = Some (u1, ob1, s1)" "sched_ok s1"
    "store_inv (sch_health s1)" "leases_out s1 = leases_out s - {lease_token l}"
    using store.Scheduler_Report_settled [OF system_okD [OF ok]] by metis
  with call show "system_ok s' \<and> leases_out s' = leases_out s - {lease_token l}"
    by (simp add: store_selector_def system_ok_def)
next
  fix s l ob raw i t assume ok: "system_ok s"
  show "system_ok (sel_UpdateError store_selector l ob raw i t s) \<and> leases_out (sel_UpdateError store_selector l ob raw i t s) = leases_out s"
    using store.Scheduler_UpdateError_settled [OF system_okD [OF ok]] by (simp add: store_selector_def system_ok_def)
qed

section \<open>Requests\<close>

text \<open>The state a request starts in.\<close>

definition gateway_start :: "'s \<Rightarrow> AttemptPolicy \<Rightarrow> 's gateway" where
  "gateway_start s policy =
     \<lparr> gx_calls = 0, gx_sel = s, gx_request = NewRequestSelection policy, gx_writes = [], gx_retryAfter = None, gx_events = [],
       gx_sent = 0, gx_background = [], gx_once = {}, gx_baseClosed = False, gx_clients = 0, gx_aborted = False, gx_panicked = False \<rparr>"

lemma gateway_start_tracked:
  "system_ok s \<Longrightarrow> tracked system_ok leases_out policy (leases_out s) 0 0 0 0 (gateway_start s policy)"
  by (simp add: tracked_def gateway_start_def NewRequestSelection_def answers_def forwards_def)

lemma forwardPool_run:
  assumes "system_ok s" and "token_room (leases_out s)"
    and "run_state (forwardPool env store_selector snapshot plan policy) (gateway_start s policy) = (r, m)"
  obtains n w where "r = Some ()" and "0 \<le> n" and "n \<le> max 0 (ap_MaxAttempts policy)" and "w \<le> 1" and "quiet env \<Longrightarrow> w = 1"
    and "tracked system_ok leases_out policy (leases_out s) n w 0 n m"
proof -
  have "gate.pooled env policy (leases_out s) 0 r m"
    using hoareD [OF gate.forwardPool_pooled [OF assms(2)] gateway_start_tracked [OF assms(1)] assms(3)] .
  then show thesis by (auto simp: gate.pooled_def settled_def intro: that)
qed

lemma close_base_closes: "gx_baseClosed (snd (run_state (close_base env) m))"
  by (simp add: close_base_def read_state_def modify_def ask_def)

lemma hoare_any: "hoare P f (\<lambda>_ _. True)"
  by (simp add: hoare_def split_beta)

lemma forwardPool_closed: "hoare P (forwardPool env sel snapshot plan policy) (\<lambda>_ m. gx_baseClosed m)"
  unfolding forwardPool_def
  apply (rule hoare_bind [OF hoare_any])
  apply (rule hoare_bind [OF hoare_any])
  apply (rule hoareI)
  apply (auto split: prod.splits)
  apply (metis close_base_closes snd_conv)
  done

lemma forwardPool_returns_closed:
  "run_state (forwardPool env sel snapshot plan policy) m = (r, m') \<Longrightarrow> gx_baseClosed m'"
  using hoareD [OF forwardPool_closed [of "\<lambda>_. True"]] by blast

text \<open>Background readers start no others.\<close>

abbreviation (input) no_readers :: "'s gateway \<Rightarrow> bool" where
  "no_readers m \<equiv> gx_background m = []"

lemma keeps_no_readers: "keeps f \<Longrightarrow> hoare no_readers f (\<lambda>_. no_readers)"
  by (rule hoareI) (metis keeps_def same_def snd_conv)

lemma background_goroutine_empty: "hoare no_readers (background_goroutine env sel f e) (\<lambda>_. no_readers)"
  unfolding background_goroutine_def
  apply (rule hoare_option)
   apply (rule hoare_return, assumption)
  apply (rule hoare_bind [OF keeps_no_readers [OF keeps_readErrorBody]])
  apply (rule hoare_prod)
  apply (rule hoare_prod_app)
  apply (simp add: hoare_def fillFailure_def release_client_def record_event_def modify_def split: prod.splits)
  done

lemma finish_background_empty:
  assumes "run_state (finish_background env sel) m = (u, m')"
  shows "no_readers m'"
proof -
  have "hoare no_readers (foldr (\<lambda>(f, event) rest. do { background_goroutine env sel f event; rest }) tasks (State_Monad.return ())) (\<lambda>_. no_readers)"
    for tasks :: "(capturedFailure \<times> Event) list"
    by (induction tasks) (auto intro: hoare_return hoare_bind [OF background_goroutine_empty])
  from hoareD [OF this, of "m\<lparr>gx_background := []\<rparr>"] assms show ?thesis
    by (simp add: finish_background_def read_state_def modify_def)
qed

text \<open>
  An example: the only provider answers with status 200 and two bytes, the client stays.
\<close>

definition example_response :: upstreamResponse where
  "example_response =
     \<lparr> rp_status = 200, rp_header = [], rp_media = None, rp_encoding = [], rp_body = Some [([], ''ok'', None), ([], [], Some EOF)] \<rparr>"

definition example_gate :: gate_env where
  "example_gate =
     \<lparr> ge_limits = UpstreamLimits_defaults \<lparr> ul_ResponseHeader = 0, ul_ResponseIdle = 0, ul_ErrorBody = 0, ul_ErrorTextBytes = 0 \<rparr>,
       ge_errorType = (\<lambda>_. None), ge_render = (\<lambda>_ _ _. []), ge_parseTime = (\<lambda>_. None), ge_statusText = (\<lambda>_. []),
       ge_url = (\<lambda>p. Inr (cp_BaseURL p)), ge_rewrites = (\<lambda>_. False), ge_canceled = (\<lambda>_. False), ge_fail = (\<lambda>_. None),
       ge_do = (\<lambda>_. ([], Inr (Some example_response))), ge_between = (\<lambda>_. []), ge_size = (\<lambda>_. (200, [])),
       ge_write = (\<lambda>_. None), ge_now = int \<rparr>"

definition example_plan :: RequestPlan where
  "example_plan = \<lparr> rq_OriginalModel = ''m'', rq_EffectiveModel = ''m'', rq_OriginalSessionID = ''s'', rq_Stream = False,
     rq_TraceID = ''t'', rq_RequestType = ''normal'' \<rparr>"

definition example_forward :: "unit option \<times> system gateway" where
  "example_forward = run_state (forwardPool example_gate store_selector (Some example_snapshot) example_plan DefaultAttemptPolicy)
     (gateway_start example_system DefaultAttemptPolicy)"

lemma example_gate_quiet: "quiet example_gate"
  by (simp add: quiet_def example_gate_def)

text \<open>
  C7. A request against the provider pool always comes to an end, whatever the providers, the
  client and the local file system do: the loop over providers does not outlast its budget and
  the request body is closed. No cancellation is ever recorded as a failure, which would make
  \<open>outcomeEvent\<close> panic; the deliberate panic with \<open>http.ErrAbortHandler\<close> is raised only to cut
  short the one response that was started. The scheduler and the health store stay consistent,
  and exactly the health leases that were outstanding before are outstanding again: every lease
  the executor acquired was reported on whichever of its many early returns the request took.
\<close>

theorem forward_balances_leases:
  assumes "system_ok s" and "token_room (leases_out s)"
  shows "case run_state (forwardPool env store_selector snapshot plan policy) (gateway_start s policy) of (r, m) \<Rightarrow>
    r = Some () \<and> gx_baseClosed m \<and> \<not> gx_panicked m \<and> (gx_aborted m \<longrightarrow> answers m = 1) \<and>
    system_ok (gx_sel m) \<and> leases_out (gx_sel m) = leases_out s"
proof -
  obtain r m where run: "run_state (forwardPool env store_selector snapshot plan policy) (gateway_start s policy) = (r, m)" by force
  obtain n w where "r = Some ()" "w \<le> 1" "tracked system_ok leases_out policy (leases_out s) n w 0 n m"
    by (rule forwardPool_run [OF assms run])
  with forwardPool_returns_closed [OF run] show ?thesis by (auto simp: run tracked_def)
qed

text \<open>
  C8. The client gets at most one response, and exactly one unless it was seen to cancel: no
  early return forgets to answer, and no failure after the first byte of a response starts a
  second one, on all paths of streaming, buffering, failover and local failure.
\<close>

theorem forward_answers_once:
  assumes "system_ok s" and "token_room (leases_out s)"
  shows "case run_state (forwardPool env store_selector snapshot plan policy) (gateway_start s policy) of (r, m) \<Rightarrow>
    answers m \<le> 1 \<and> (quiet env \<longrightarrow> answers m = 1)"
proof -
  obtain r m where run: "run_state (forwardPool env store_selector snapshot plan policy) (gateway_start s policy) = (r, m)" by force
  obtain n w where "w \<le> 1" "quiet env \<Longrightarrow> w = 1" "tracked system_ok leases_out policy (leases_out s) n w 0 n m"
    by (rule forwardPool_run [OF assms run]) simp
  then show ?thesis by (simp add: run tracked_def)
qed

text \<open>
  C9. The attempt budget holds. The request comes to an end, and until then it has been sent to
  providers at most as often as its policy allows; every time it is sent counts as one attempt
  and is announced by one forward event, and no attempt is counted or announced that is not sent.
\<close>

theorem forward_within_budget:
  assumes "system_ok s" and "token_room (leases_out s)"
  shows "case run_state (forwardPool env store_selector snapshot plan policy) (gateway_start s policy) of (r, m) \<Rightarrow>
    r = Some () \<and> gx_sent m = forwards m \<and> int (gx_sent m) = rs_attemptsUsed (gx_request m) \<and>
    int (gx_sent m) \<le> max 0 (ap_MaxAttempts policy)"
proof -
  obtain r m where run: "run_state (forwardPool env store_selector snapshot plan policy) (gateway_start s policy) = (r, m)" by force
  obtain n w where "r = Some ()" "n \<le> max 0 (ap_MaxAttempts policy)" "tracked system_ok leases_out policy (leases_out s) n w 0 n m"
    by (rule forwardPool_run [OF assms run])
  then show ?thesis by (simp add: run tracked_def)
qed

text \<open>
  C10. Transport leases do not leak: when a request has ended, the transport leases still held are
  exactly those of the goroutines that read error bodies in the background, and when these have
  finished none is held, with the health leases as they were before the request.
\<close>

theorem forward_releases_clients:
  assumes "system_ok s" and "token_room (leases_out s)"
  shows "case run_state (forwardPool env store_selector snapshot plan policy) (gateway_start s policy) of (r, m) \<Rightarrow>
    gx_clients m = int (length (gx_background m)) \<and>
    (case run_state (finish_background env store_selector) m of (u, m') \<Rightarrow>
       gx_clients m' = 0 \<and> leases_out (gx_sel m') = leases_out s)"
proof -
  obtain r m where run: "run_state (forwardPool env store_selector snapshot plan policy) (gateway_start s policy) = (r, m)" by force
  obtain u m' where fin: "run_state (finish_background env store_selector) m = (u, m')" by (metis surj_pair)
  obtain n w where t: "tracked system_ok leases_out policy (leases_out s) n w 0 n m"
    by (rule forwardPool_run [OF assms run])
  with gate.finish_background_tracked [OF t fin] finish_background_empty [OF fin] show ?thesis by (simp add: run fin tracked_def)
qed

theorem forward_balances_leases_witness:
  "fst example_forward = Some () \<and> gx_baseClosed (snd example_forward) \<and> leases_out (gx_sel (snd example_forward)) = leases_out example_system"
  using forward_balances_leases [OF example_system_ok example_system_room, of example_gate "Some example_snapshot" example_plan DefaultAttemptPolicy]
  unfolding example_forward_def [symmetric] by (simp add: split_beta)

theorem forward_answers_once_witness:
  "quiet example_gate \<and> answers (snd example_forward) = 1"
  using forward_answers_once [OF example_system_ok example_system_room, of example_gate "Some example_snapshot" example_plan DefaultAttemptPolicy]
  unfolding example_forward_def [symmetric] by (simp add: split_beta example_gate_quiet)

theorem forward_within_budget_witness:
  "gx_sent (snd example_forward) = forwards (snd example_forward) \<and>
   int (gx_sent (snd example_forward)) = rs_attemptsUsed (gx_request (snd example_forward)) \<and> gx_sent (snd example_forward) \<le> 5"
  using forward_within_budget [OF example_system_ok example_system_room, of DefaultAttemptPolicy example_gate "Some example_snapshot" example_plan]
  unfolding example_forward_def [symmetric] by (simp add: split_beta DefaultAttemptPolicy_def DefaultNormalMaxAttempts_def)

theorem forward_releases_clients_witness:
  "gx_clients (snd (run_state (finish_background example_gate store_selector) (snd example_forward))) = 0"
  using forward_releases_clients [OF example_system_ok example_system_room, of example_gate "Some example_snapshot" example_plan DefaultAttemptPolicy]
  unfolding example_forward_def [symmetric] by (simp add: split_beta)

end
