(* ===== verification/Health_Snapshot.thy ===== *)
theory Health_Snapshot
  imports Health_Properties "HOL-Library.Product_Lexorder"
begin

text \<open>
  The read side of the health store (\<open>internal/health/snapshot.go\<close>): the detached view of one
  scope, the view of all active scopes and the counts of the status endpoint. A snapshot is
  deterministic: the range loops over Go maps are followed by sorts whose order is strict on
  the items they sort.
\<close>

section \<open>Data\<close>

record Diagnostic =
  dg_BackoffLevel :: int
  dg_ConsecutiveFailures :: int
  dg_ObservedFailures :: u64
  dg_CooldownUntil :: "gotime option"
  dg_LastSuccessAt :: "gotime option"
  dg_LastFailureAt :: "gotime option"
  dg_ProbeInFlight :: bool
  dg_LastUpstreamURL :: string
  dg_LastError :: string
  dg_LastErrorPending :: bool
  dg_LastErrorIncomplete :: bool
  dg_LastErrorTruncated :: bool
  dg_LastSessionID :: string

record GlobalSnapshot =
  gs_State :: GlobalHealthState
  gs_Diagnostic :: Diagnostic

record ChannelSnapshot =
  cs_Model :: string
  cs_RequestType :: RequestType
  cs_State :: ChannelHealthState
  cs_Diagnostic :: Diagnostic

record ProviderSnapshot =
  ps_ProviderID :: string
  ps_Generation :: ProviderGeneration
  ps_DisableHealth :: bool
  ps_Global :: GlobalSnapshot
  ps_Channels :: "ChannelSnapshot list"

record HealthSnapshot =
  hs_GeneratedAt :: gotime
  hs_Providers :: "ProviderSnapshot list"

record StateCounts =
  ct_Unknown :: int
  ct_Healthy :: int
  ct_Degraded :: int
  ct_Cooldown :: int
  ct_HalfOpen :: int
  ct_Disabled :: int

record Aggregate =
  ag_Global :: StateCounts
  ag_Channels :: StateCounts
  ag_HealthDisabledProviderCount :: int

section \<open>One scope\<close>

definition snapshotDiagnostic :: "stateEntry \<Rightarrow> Diagnostic" where
  "snapshotDiagnostic e =
     \<lparr> dg_BackoffLevel = se_backoffLevel e, dg_ConsecutiveFailures = se_consecutiveFailures e,
       dg_ObservedFailures = se_observedFailures e, dg_CooldownUntil = timePointer (se_cooldownUntil e),
       dg_LastSuccessAt = timePointer (se_lastSuccessAt e), dg_LastFailureAt = timePointer (se_lastFailureAt e),
       dg_ProbeInFlight = (se_probeToken e \<noteq> 0), dg_LastUpstreamURL = se_lastUpstreamURL e,
       dg_LastError = se_lastError e, dg_LastErrorPending = se_lastErrorPending e,
       dg_LastErrorIncomplete = se_lastErrorIncomplete e, dg_LastErrorTruncated = se_lastErrorTruncated e,
       dg_LastSessionID = se_lastSessionID e \<rparr>"

text \<open>The loop that fills \<open>modelOrder\<close>, from index \<open>i\<close> on; a missing key reads as 0.\<close>

fun model_order_from :: "nat \<Rightarrow> string list \<Rightarrow> (string, nat) gomap \<Rightarrow> (string, nat) gomap" where
  "model_order_from i [] m = m"
| "model_order_from i (model # models) m = model_order_from (Suc i) models (AList.update model i m)"

definition order_of :: "(string, nat) gomap \<Rightarrow> string \<Rightarrow> nat" where
  "order_of modelOrder model = (case map_of modelOrder model of None \<Rightarrow> 0 | Some i \<Rightarrow> i)"

definition channelSnapshot :: "channelKey \<times> stateEntry \<Rightarrow> ChannelSnapshot" where
  "channelSnapshot ke =
     (case ke of (key, entry) \<Rightarrow>
        \<lparr> cs_Model = ck_model key, cs_RequestType = ck_requestType key, cs_State = channelState (se_state entry),
          cs_Diagnostic = snapshotDiagnostic entry \<rparr>)"

definition snapshotScope :: "providerScope \<Rightarrow> ProviderSnapshot" where
  "snapshotScope scope =
     (let modelOrder = model_order_from 0 (sc_models scope) [];
          channels = map channelSnapshot (filter (\<lambda>(key, entry). ck_model key \<in> sc_modelSet scope) (sc_channels scope))
      in \<lparr> ps_ProviderID = sk_providerID (sc_key scope), ps_Generation = sk_generation (sc_key scope),
           ps_DisableHealth = sc_disableHealth scope,
           ps_Global = \<lparr> gs_State = globalState (se_state (sc_global scope)),
                         gs_Diagnostic = snapshotDiagnostic (sc_global scope) \<rparr>,
           ps_Channels = sort_key (\<lambda>c. (order_of modelOrder (cs_Model c), cs_RequestType c)) channels \<rparr>)"

section \<open>The store\<close>

definition Store_Snapshot :: "store \<Rightarrow> HealthSnapshot \<times> store" where
  "Store_Snapshot s =
     (let (now, s) = clock_now s;
          ids = sort (gkeys (st_active s))
      in (\<lparr> hs_GeneratedAt = now,
            hs_Providers = map (\<lambda>id. snapshotScope (st_heap s (the (map_of (st_active s) id)))) ids \<rparr>, s))"

definition Store_ProviderSnapshot :: "string \<Rightarrow> ProviderGeneration \<Rightarrow> store \<Rightarrow> ProviderSnapshot option" where
  "Store_ProviderSnapshot providerID generation s =
     (case map_of (st_active s) providerID of
        None \<Rightarrow> None
      | Some a \<Rightarrow>
          if sk_generation (sc_key (st_heap s a)) \<noteq> generation then None
          else Some (snapshotScope (st_heap s a)))"

section \<open>Counts\<close>

text \<open>The texts of the string-typed states, which the counters switch on.\<close>

fun global_text :: "GlobalHealthState \<Rightarrow> string" where
  "global_text GlobalEmpty = ''''"
| "global_text GlobalUnknown = ''unknown''"
| "global_text GlobalHealthy = ''healthy''"
| "global_text GlobalDegraded = ''degraded''"
| "global_text GlobalCooldown = ''cooldown''"
| "global_text GlobalHalfOpen = ''half_open''"
| "global_text GlobalDisabled = ''disabled''"

fun channel_text :: "ChannelHealthState \<Rightarrow> string" where
  "channel_text ChannelEmpty = ''''"
| "channel_text ChannelUnknown = ''unknown''"
| "channel_text ChannelHealthy = ''healthy''"
| "channel_text ChannelDegraded = ''degraded''"
| "channel_text ChannelCooldown = ''cooldown''"
| "channel_text ChannelHalfOpen = ''half_open''"
| "channel_text ChannelDisabled = ''disabled''"

definition zeroCounts :: StateCounts where
  "zeroCounts =
     \<lparr> ct_Unknown = 0, ct_Healthy = 0, ct_Degraded = 0, ct_Cooldown = 0, ct_HalfOpen = 0, ct_Disabled = 0 \<rparr>"

definition addCount :: "StateCounts \<Rightarrow> string \<Rightarrow> StateCounts" where
  "addCount counts state =
     (if state = ''unknown'' then counts\<lparr>ct_Unknown := ct_Unknown counts + 1\<rparr>
      else if state = ''healthy'' then counts\<lparr>ct_Healthy := ct_Healthy counts + 1\<rparr>
      else if state = ''degraded'' then counts\<lparr>ct_Degraded := ct_Degraded counts + 1\<rparr>
      else if state = ''cooldown'' then counts\<lparr>ct_Cooldown := ct_Cooldown counts + 1\<rparr>
      else if state = ''half_open'' then counts\<lparr>ct_HalfOpen := ct_HalfOpen counts + 1\<rparr>
      else if state = ''disabled'' then counts\<lparr>ct_Disabled := ct_Disabled counts + 1\<rparr>
      else counts)"

definition addGlobalCount :: "StateCounts \<Rightarrow> GlobalHealthState \<Rightarrow> StateCounts" where
  "addGlobalCount counts state = addCount counts (global_text state)"

definition addChannelCount :: "StateCounts \<Rightarrow> ChannelHealthState \<Rightarrow> StateCounts" where
  "addChannelCount counts state = addCount counts (channel_text state)"

definition addProviderCounts :: "Aggregate \<Rightarrow> ProviderSnapshot \<Rightarrow> Aggregate" where
  "addProviderCounts result item =
     \<lparr> ag_Global = addGlobalCount (ag_Global result) (gs_State (ps_Global item)),
       ag_Channels = foldl (\<lambda>c ch. addChannelCount c (cs_State ch)) (ag_Channels result) (ps_Channels item),
       ag_HealthDisabledProviderCount =
         (if ps_DisableHealth item then ag_HealthDisabledProviderCount result + 1
          else ag_HealthDisabledProviderCount result) \<rparr>"

definition Store_Aggregate :: "store \<Rightarrow> Aggregate \<times> store" where
  "Store_Aggregate s =
     (let (snapshot, s) = Store_Snapshot s
      in (foldl addProviderCounts
            \<lparr> ag_Global = zeroCounts, ag_Channels = zeroCounts, ag_HealthDisabledProviderCount = 0 \<rparr>
            (hs_Providers snapshot), s))"

section \<open>The order of the channels\<close>

lemma model_order_from_other:
  "m \<notin> set models \<Longrightarrow> map_of (model_order_from i models acc) m = map_of acc m"
  by (induction i models acc rule: model_order_from.induct) (auto simp: gomap_simps)

lemma model_order_from_bounds:
  "m \<in> set models \<Longrightarrow> \<exists>j. map_of (model_order_from i models acc) m = Some j \<and> i \<le> j \<and>
     j < i + length models \<and> models ! (j - i) = m"
proof (induction i models acc rule: model_order_from.induct)
  case (2 i model models acc)
  show ?case
  proof (cases "m \<in> set models")
    case True
    from 2(1) [OF this] obtain j where j: "map_of (model_order_from (Suc i) models (AList.update model i acc)) m = Some j"
      "Suc i \<le> j" "j < Suc i + length models" "models ! (j - Suc i) = m" by blast
    then have "(model # models) ! (j - i) = m" by (auto simp: nth_Cons split: nat.split) (metis Suc_diff_Suc Suc_le_lessD nat.inject)
    with j show ?thesis by auto
  next
    case False
    with 2(2) show ?thesis by (simp add: model_order_from_other gomap_simps)
  qed
qed simp

lemma order_of_inj:
  assumes "a \<in> set models" and "b \<in> set models"
    and "order_of (model_order_from 0 models []) a = order_of (model_order_from 0 models []) b"
  shows "a = b"
  using model_order_from_bounds [OF assms(1), of 0 "[]"] model_order_from_bounds [OF assms(2), of 0 "[]"] assms(3)
  by (auto simp: order_of_def)

lemma order_of_distinct:
  assumes "distinct models" and "i < length models"
  shows "order_of (model_order_from 0 models []) (models ! i) = i"
  using model_order_from_bounds [OF nth_mem [OF assms(2)], of 0 "[]"] assms
  by (auto simp: order_of_def nth_eq_iff_index_eq)

lemma sort_key_strict:
  assumes "inj_on f (set xs)" and "distinct xs"
  shows "sorted_wrt (\<lambda>x y. f x < f y) (sort_key f xs)"
proof -
  have "sorted (map f (sort_key f xs))" by simp
  moreover have "distinct (map f (sort_key f xs))" using assms by (simp add: distinct_map)
  ultimately have "sorted_wrt (<) (map f (sort_key f xs))" by (simp add: strict_sorted_iff)
  then show ?thesis by (simp add: sorted_wrt_map)
qed

section \<open>What a snapshot shows\<close>

abbreviation channel_rank :: "providerScope \<Rightarrow> ChannelSnapshot \<Rightarrow> nat \<times> RequestType" where
  "channel_rank sc c \<equiv> (order_of (model_order_from 0 (sc_models sc) []) (cs_Model c), cs_RequestType c)"

definition shown_channels :: "providerScope \<Rightarrow> ChannelSnapshot list" where
  "shown_channels sc =
     map channelSnapshot (filter (\<lambda>(key, entry). ck_model key \<in> sc_modelSet sc) (sc_channels sc))"

lemma ps_Channels_eq: "ps_Channels (snapshotScope sc) = sort_key (channel_rank sc) (shown_channels sc)"
  by (simp add: snapshotScope_def shown_channels_def Let_def)

lemma channelKey_eqI: "ck_model k = ck_model k' \<Longrightarrow> ck_requestType k = ck_requestType k' \<Longrightarrow> k = (k' :: channelKey)"
  by simp

lemma channelKey_eta: "\<lparr>ck_model = ck_model k, ck_requestType = ck_requestType k\<rparr> = (k :: channelKey)"
  by simp

lemma shown_channels_rank_inj:
  assumes "scope_wf sc"
  shows "inj_on (channel_rank sc) (set (shown_channels sc))" and "distinct (shown_channels sc)"
proof -
  have wf: "sc_modelSet sc = set (sc_models sc)" "gdistinct (sc_channels sc)"
    using assms by (simp_all add: scope_wf_def)
  have same: "x = y" if "x \<in> set (sc_channels sc)" "y \<in> set (sc_channels sc)" "fst x = fst y" for x y
    using that wf(2) by (metis eq_key_imp_eq_value prod.collapse)
  have inj: "x = y" if x: "x \<in> set (sc_channels sc)" "ck_model (fst x) \<in> sc_modelSet sc"
    and y: "y \<in> set (sc_channels sc)" "ck_model (fst y) \<in> sc_modelSet sc"
    and r: "channel_rank sc (channelSnapshot x) = channel_rank sc (channelSnapshot y)" for x y
    using r x y wf(1) by (intro same channelKey_eqI) (auto simp: channelSnapshot_def split_beta intro: order_of_inj)
  have shown: "set (shown_channels sc) = channelSnapshot ` {x \<in> set (sc_channels sc). ck_model (fst x) \<in> sc_modelSet sc}"
    by (simp add: shown_channels_def split_beta)
  show "inj_on (channel_rank sc) (set (shown_channels sc))"
    unfolding shown by (rule inj_onI, elim imageE, hypsubst, rule arg_cong [where f = channelSnapshot], rule inj) simp_all
  have "distinct (sc_channels sc)" using wf(2) by (simp add: distinct_map)
  moreover have "inj_on channelSnapshot {x \<in> set (sc_channels sc). ck_model (fst x) \<in> sc_modelSet sc}"
    using inj by (auto simp: inj_on_def split_beta)
  ultimately show "distinct (shown_channels sc)"
    by (auto simp: shown_channels_def distinct_map split_beta elim!: inj_on_subset)
qed

lemma shown_channels_iff:
  assumes "scope_wf sc"
  shows "c \<in> set (shown_channels sc) \<longleftrightarrow>
    cs_Model c \<in> set (sc_models sc) \<and>
    (\<exists>e. map_of (sc_channels sc) \<lparr>ck_model = cs_Model c, ck_requestType = cs_RequestType c\<rparr> = Some e \<and>
       cs_State c = channelState (se_state e) \<and> cs_Diagnostic c = snapshotDiagnostic e)"
proof -
  have wf: "sc_modelSet sc = set (sc_models sc)" "gdistinct (sc_channels sc)"
    using assms by (simp_all add: scope_wf_def)
  have "c \<in> set (shown_channels sc) \<longleftrightarrow>
      (\<exists>k e. map_of (sc_channels sc) k = Some e \<and> ck_model k \<in> set (sc_models sc) \<and> c = channelSnapshot (k, e))"
    using wf by (auto simp: shown_channels_def map_of_eq_Some_iff image_iff split_beta)
  also have "\<dots> \<longleftrightarrow> (\<exists>e. map_of (sc_channels sc) \<lparr>ck_model = cs_Model c, ck_requestType = cs_RequestType c\<rparr> = Some e \<and>
       cs_Model c \<in> set (sc_models sc) \<and> cs_State c = channelState (se_state e) \<and>
       cs_Diagnostic c = snapshotDiagnostic e)"
    (is "?L \<longleftrightarrow> ?R")
  proof
    assume ?L
    then show ?R by (auto simp: channelSnapshot_def channelKey_eta)
  next
    assume ?R
    then obtain e where e: "map_of (sc_channels sc) \<lparr>ck_model = cs_Model c, ck_requestType = cs_RequestType c\<rparr> = Some e"
      "cs_Model c \<in> set (sc_models sc)" "cs_State c = channelState (se_state e)"
      "cs_Diagnostic c = snapshotDiagnostic e" by blast
    then have "c = channelSnapshot (\<lparr>ck_model = cs_Model c, ck_requestType = cs_RequestType c\<rparr>, e)"
      by (cases c) (simp add: channelSnapshot_def)
    with e show ?L by (intro exI [of _ "\<lparr>ck_model = cs_Model c, ck_requestType = cs_RequestType c\<rparr>"] exI [of _ e]) simp
  qed
  finally show ?thesis by auto
qed

text \<open>
  The view of one provider lists exactly the channels of its configured models, each
  once, with the state and diagnostics of its entry, strictly ordered by the position of the
  model in the configuration and then by request type; the order in which the channel map is
  ranged over cannot be observed.
\<close>

theorem snapshotScope_channels:
  assumes "scope_wf sc" and "distinct (sc_models sc)"
  shows "sorted_wrt (\<lambda>c c'. channel_rank sc c < channel_rank sc c') (ps_Channels (snapshotScope sc)) \<and>
    (\<forall>i < length (sc_models sc). order_of (model_order_from 0 (sc_models sc) []) (sc_models sc ! i) = i) \<and>
    (\<forall>c. c \<in> set (ps_Channels (snapshotScope sc)) \<longleftrightarrow>
       cs_Model c \<in> set (sc_models sc) \<and>
       (\<exists>e. map_of (sc_channels sc) \<lparr>ck_model = cs_Model c, ck_requestType = cs_RequestType c\<rparr> = Some e \<and>
          cs_State c = channelState (se_state e) \<and> cs_Diagnostic c = snapshotDiagnostic e)) \<and>
    (\<forall>other. set (sc_channels other) = set (sc_channels sc) \<and> gdistinct (sc_channels other) \<and>
       other = sc\<lparr>sc_channels := sc_channels other\<rparr> \<longrightarrow> snapshotScope other = snapshotScope sc)"
proof -
  have strict: "sorted_wrt (\<lambda>c c'. channel_rank sc c < channel_rank sc c') (ps_Channels (snapshotScope sc))"
    if "scope_wf sc" for sc
    using shown_channels_rank_inj [OF that] unfolding ps_Channels_eq by (rule sort_key_strict)
  have wf: "sc_modelSet sc = set (sc_models sc)" "gdistinct (sc_channels sc)"
    using assms by (simp_all add: scope_wf_def)
  have listed: "c \<in> set (ps_Channels (snapshotScope sc)) \<longleftrightarrow>
       cs_Model c \<in> set (sc_models sc) \<and>
       (\<exists>e. map_of (sc_channels sc) \<lparr>ck_model = cs_Model c, ck_requestType = cs_RequestType c\<rparr> = Some e \<and>
          cs_State c = channelState (se_state e) \<and> cs_Diagnostic c = snapshotDiagnostic e)" for c
    using shown_channels_iff [OF assms(1), of c] by (simp add: ps_Channels_eq)
  have same: "snapshotScope other = snapshotScope sc"
    if o: "set (sc_channels other) = set (sc_channels sc)" "gdistinct (sc_channels other)"
      "other = sc\<lparr>sc_channels := sc_channels other\<rparr>" for other
  proof -
    have fields: "sc_models other = sc_models sc" "sc_modelSet other = sc_modelSet sc"
      "sc_key other = sc_key sc" "sc_disableHealth other = sc_disableHealth sc" "sc_global other = sc_global sc"
      using o(3) by (metis providerScope.select_convs(1-7) providerScope.surjective providerScope.update_convs(7))+
    have wfo: "scope_wf other" using assms(1) o(1,2) wf(2) fields
      by (auto simp: scope_wf_def map_of_eq_Some_iff)
    have "set (ps_Channels (snapshotScope other)) = set (ps_Channels (snapshotScope sc))"
      using o(1) fields by (simp add: ps_Channels_eq shown_channels_def)
    moreover have "sorted (map (channel_rank sc) (ps_Channels (snapshotScope other)))"
      "sorted (map (channel_rank sc) (ps_Channels (snapshotScope sc)))"
      using fields by (simp_all add: ps_Channels_eq)
    ultimately have "ps_Channels (snapshotScope other) = ps_Channels (snapshotScope sc)"
      using shown_channels_rank_inj [OF assms(1)] shown_channels_rank_inj [OF wfo] fields
      by (intro map_sorted_distinct_set_unique [where f = "channel_rank sc"])
        (simp_all add: ps_Channels_eq distinct_map)
    then show ?thesis using fields by (simp add: snapshotScope_def Let_def)
  qed
  show ?thesis using strict [OF assms(1)] order_of_distinct [OF assms(2)] listed same by blast
qed

lemma active_scope:
  assumes "store_inv s" and "map_of (st_active s) i = Some a"
  shows "a < st_nextAddr s" and "sk_providerID (sc_key (st_heap s a)) = i" and "scope_wf (st_heap s a)"
proof -
  have l: "live_at s i a" using store_invD(3) [OF assms(1)] assms(2) by (simp add: active_ok_def)
  then show a: "a < st_nextAddr s" and "sk_providerID (sc_key (st_heap s a)) = i" by (simp_all add: live_at_def)
  show "scope_wf (st_heap s a)" using scopes_okD [OF store_invD(5) [OF assms(1)] a] by (simp add: scope_ok_def)
qed

lemma snapshotScope_frame [simp]:
  "ps_ProviderID (snapshotScope sc) = sk_providerID (sc_key sc)"
  "ps_Generation (snapshotScope sc) = sk_generation (sc_key sc)"
  "ps_DisableHealth (snapshotScope sc) = sc_disableHealth sc"
  "gs_State (ps_Global (snapshotScope sc)) = globalState (se_state (sc_global sc))"
  by (simp_all add: snapshotScope_def Let_def)

lemma Store_Snapshot_providers:
  "Store_Snapshot s = (snap, s') \<Longrightarrow>
     hs_Providers snap = map (\<lambda>id. snapshotScope (st_heap s (the (map_of (st_active s) id)))) (sort (gkeys (st_active s))) \<and>
     hs_GeneratedAt snap = st_clock s (st_reads s) \<and> s' = s\<lparr>st_reads := Suc (st_reads s)\<rparr>"
  by (auto simp: Store_Snapshot_def clock_now_def Let_def)

lemma active_keys: "i \<in> set (gkeys (st_active s)) \<longleftrightarrow> (\<exists>a. map_of (st_active s) i = Some a)"
  by (metis map_of_eq_None_iff option.exhaust option.simps(3) set_map)

lemma active_keyE:
  assumes "i \<in> set (gkeys (st_active s))"
  obtains a where "map_of (st_active s) i = Some a"
  using assms unfolding active_keys by blast

lemma shown_provider:
  assumes "store_inv s" and "Store_Snapshot s = (snap, s')"
  shows "p \<in> set (hs_Providers snap) \<longleftrightarrow>
    (\<exists>a. map_of (st_active s) (ps_ProviderID p) = Some a \<and> p = snapshotScope (st_heap s a))"
proof -
  have "p \<in> set (hs_Providers snap) \<longleftrightarrow>
      (\<exists>i \<in> set (gkeys (st_active s)). p = snapshotScope (st_heap s (the (map_of (st_active s) i))))"
    using Store_Snapshot_providers [OF assms(2)] by (simp add: image_iff)
  also have "\<dots> \<longleftrightarrow> (\<exists>i a. map_of (st_active s) i = Some a \<and> p = snapshotScope (st_heap s a))"
    unfolding Bex_def active_keys by (metis option.sel)
  finally have listed: "p \<in> set (hs_Providers snap) \<longleftrightarrow>
    (\<exists>i a. map_of (st_active s) i = Some a \<and> p = snapshotScope (st_heap s a))" .
  show ?thesis
    unfolding listed using active_scope(2) [OF assms(1)] by (metis snapshotScope_frame(1))
qed

text \<open>
  The snapshot lists every active provider exactly once, ordered by ID, and agrees with
  the lookup of a single provider: \<open>ProviderSnapshot\<close> finds a view exactly when the snapshot
  shows it under that ID and generation. Taking it changes nothing but the clock.
\<close>

theorem Store_Snapshot_exact:
  assumes "store_inv s" and "Store_Snapshot s = (snap, s')"
  shows "sorted_wrt (<) (map ps_ProviderID (hs_Providers snap)) \<and>
    set (map ps_ProviderID (hs_Providers snap)) = {i. \<exists>a. live_at s i a} \<and>
    (\<forall>i gen p. Store_ProviderSnapshot i gen s = Some p \<longleftrightarrow>
       p \<in> set (hs_Providers snap) \<and> ps_ProviderID p = i \<and> ps_Generation p = gen) \<and>
    s' = s\<lparr>st_reads := Suc (st_reads s)\<rparr>"
proof -
  note snap = Store_Snapshot_providers [OF assms(2)]
  have act: "gdistinct (st_active s)" "\<And>i a. map_of (st_active s) i = Some a \<longleftrightarrow> live_at s i a"
    using store_invD(3) [OF assms(1)] by (simp_all add: active_ok_def)
  have ids: "map ps_ProviderID (hs_Providers snap) = sort (gkeys (st_active s))"
  proof -
    have "ps_ProviderID (snapshotScope (st_heap s (the (map_of (st_active s) i)))) = i"
      if "i \<in> set (gkeys (st_active s))" for i
      using that by (elim active_keyE) (simp add: active_scope(2) [OF assms(1)])
    then show ?thesis using snap by (auto simp: comp_def intro!: map_idI)
  qed
  have srt: "sorted_wrt (<) (sort (gkeys (st_active s)))" using act(1) by (simp add: strict_sorted_iff)
  have keys: "set (sort (gkeys (st_active s))) = {i. \<exists>a. live_at s i a}"
    using active_keys [of _ s] act(2) by auto
  have look: "Store_ProviderSnapshot i gen s = Some p \<longleftrightarrow>
       p \<in> set (hs_Providers snap) \<and> ps_ProviderID p = i \<and> ps_Generation p = gen" for i gen p
  proof -
    have found: "Store_ProviderSnapshot i gen s = Some p \<longleftrightarrow>
        (\<exists>a. map_of (st_active s) i = Some a \<and> sk_generation (sc_key (st_heap s a)) = gen \<and> p = snapshotScope (st_heap s a))"
      by (cases "map_of (st_active s) i") (auto simp: Store_ProviderSnapshot_def)
    show ?thesis
      unfolding found shown_provider [OF assms]
    proof (rule iffI; elim exE conjE)
      fix a assume a: "map_of (st_active s) i = Some a" "sk_generation (sc_key (st_heap s a)) = gen"
        "p = snapshotScope (st_heap s a)"
      then have "ps_ProviderID p = i" "ps_Generation p = gen" using active_scope(2) [OF assms(1) a(1)] by simp_all
      with a show "(\<exists>a. map_of (st_active s) (ps_ProviderID p) = Some a \<and> p = snapshotScope (st_heap s a)) \<and>
        ps_ProviderID p = i \<and> ps_Generation p = gen" by blast
    next
      fix a assume "ps_ProviderID p = i" "ps_Generation p = gen" "map_of (st_active s) (ps_ProviderID p) = Some a"
        and p: "p = snapshotScope (st_heap s a)"
      moreover have "sk_generation (sc_key (st_heap s a)) = ps_Generation p" using p by simp
      ultimately show "\<exists>a. map_of (st_active s) i = Some a \<and> sk_generation (sc_key (st_heap s a)) = gen \<and>
        p = snapshotScope (st_heap s a)" by blast
    qed
  qed
  show ?thesis
    unfolding ids using srt keys look snap by blast
qed

section \<open>What the counts show\<close>

definition total :: "StateCounts \<Rightarrow> int" where
  "total c = ct_Unknown c + ct_Healthy c + ct_Degraded c + ct_Cooldown c + ct_HalfOpen c + ct_Disabled c"

lemma addGlobalCount_state:
  "total (addGlobalCount c (globalState st)) = total c + 1"
  "ct_Disabled (addGlobalCount c (globalState st)) = ct_Disabled c + (if st = stateDisabled then 1 else 0)"
  "ct_Cooldown (addGlobalCount c (globalState st)) = ct_Cooldown c + (if st = stateCooldown then 1 else 0)"
  by (cases st; simp add: addGlobalCount_def addCount_def total_def)+

lemma addChannelCount_state:
  "total (addChannelCount c (channelState st)) = total c + 1"
  "ct_Cooldown (addChannelCount c (channelState st)) = ct_Cooldown c + (if st = stateCooldown then 1 else 0)"
  by (cases st; simp add: addChannelCount_def addCount_def total_def)+

lemma channel_counts:
  assumes "\<forall>c \<in> set cs. \<exists>st. cs_State c = channelState st"
  shows "total (foldl (\<lambda>c ch. addChannelCount c (cs_State ch)) c0 cs) = total c0 + int (length cs)"
  using assms by (induction cs arbitrary: c0) (auto simp: addChannelCount_state)

lemma shown_channel_states: "\<forall>c \<in> set (ps_Channels (snapshotScope sc)). \<exists>st. cs_State c = channelState st"
  by (auto simp: ps_Channels_eq shown_channels_def channelSnapshot_def)

lemma addProviderCounts_scope:
  assumes "scope_wf sc"
  shows "total (ag_Global (addProviderCounts r (snapshotScope sc))) = total (ag_Global r) + 1"
    and "ct_Disabled (ag_Global (addProviderCounts r (snapshotScope sc)))
       = ct_Disabled (ag_Global r) + (if sc_disableHealth sc then 1 else 0)"
    and "ag_HealthDisabledProviderCount (addProviderCounts r (snapshotScope sc))
       = ag_HealthDisabledProviderCount r + (if sc_disableHealth sc then 1 else 0)"
    and "total (ag_Channels (addProviderCounts r (snapshotScope sc)))
       = total (ag_Channels r) + int (length (ps_Channels (snapshotScope sc)))"
proof -
  have "se_state (sc_global sc) = stateDisabled \<longleftrightarrow> sc_disableHealth sc"
    using assms by (simp add: scope_wf_def entry_inv_def)
  then show "ct_Disabled (ag_Global (addProviderCounts r (snapshotScope sc)))
       = ct_Disabled (ag_Global r) + (if sc_disableHealth sc then 1 else 0)"
    by (simp add: addProviderCounts_def addGlobalCount_state)
qed (simp_all add: addProviderCounts_def addGlobalCount_state channel_counts [OF shown_channel_states])

lemma provider_counts:
  "\<forall>sc \<in> set scs. scope_wf sc \<Longrightarrow>
     total (ag_Global (foldl addProviderCounts r (map snapshotScope scs))) = total (ag_Global r) + int (length scs) \<and>
     ct_Disabled (ag_Global (foldl addProviderCounts r (map snapshotScope scs)))
       = ct_Disabled (ag_Global r) + int (length (filter sc_disableHealth scs)) \<and>
     ag_HealthDisabledProviderCount (foldl addProviderCounts r (map snapshotScope scs))
       = ag_HealthDisabledProviderCount r + int (length (filter sc_disableHealth scs)) \<and>
     total (ag_Channels (foldl addProviderCounts r (map snapshotScope scs)))
       = total (ag_Channels r) + int (sum_list (map (\<lambda>sc. length (ps_Channels (snapshotScope sc))) scs))"
proof (induction scs arbitrary: r)
  case (Cons sc scs)
  then have "scope_wf sc" and ih: "\<forall>sc \<in> set scs. scope_wf sc" by simp_all
  show ?case
    using Cons.IH [OF ih, of "addProviderCounts r (snapshotScope sc)"] addProviderCounts_scope [OF \<open>scope_wf sc\<close>, of r]
    by simp
qed simp

text \<open>
  The status counts partition the providers and the channels: the provider counts add up
  to the number of active providers, the channel counts to the number of channels the
  snapshot shows, and the providers counted as disabled are exactly those whose health
  tracking is switched off.
\<close>

theorem Store_Aggregate_counts:
  assumes "store_inv s" and "Store_Snapshot s = (snap, s')" and "Store_Aggregate s = (agg, s'')"
  shows "total (ag_Global agg) = int (length (st_active s)) \<and>
    total (ag_Channels agg) = int (sum_list (map (length \<circ> ps_Channels) (hs_Providers snap))) \<and>
    ct_Disabled (ag_Global agg) = ag_HealthDisabledProviderCount agg \<and>
    ag_HealthDisabledProviderCount agg = int (length (filter ps_DisableHealth (hs_Providers snap))) \<and> s'' = s'"
proof -
  let ?r = "\<lparr> ag_Global = zeroCounts, ag_Channels = zeroCounts, ag_HealthDisabledProviderCount = 0 \<rparr>"
  have agg: "agg = foldl addProviderCounts ?r (hs_Providers snap)" "s'' = s'"
    using assms(2,3) by (auto simp: Store_Aggregate_def)
  define scs where "scs = map (\<lambda>id. st_heap s (the (map_of (st_active s) id))) (sort (gkeys (st_active s)))"
  have snap: "hs_Providers snap = map snapshotScope scs"
    using Store_Snapshot_providers [OF assms(2)] by (simp add: scs_def)
  have "scope_wf (st_heap s (the (map_of (st_active s) i)))" if "i \<in> set (gkeys (st_active s))" for i
    using that by (elim active_keyE) (simp add: active_scope(3) [OF assms(1)])
  then have wf: "\<forall>sc \<in> set scs. scope_wf sc" by (simp add: scs_def)
  have len: "length scs = length (st_active s)" by (simp add: scs_def)
  have flt: "length (filter ps_DisableHealth (map snapshotScope scs)) = length (filter sc_disableHealth scs)"
    by (simp add: filter_map comp_def)
  have z: "total zeroCounts = 0" "ct_Disabled zeroCounts = 0" by (simp_all add: total_def zeroCounts_def)
  show ?thesis
    using provider_counts [OF wf, of ?r] z len flt by (simp add: agg snap comp_def)
qed

text \<open>A store with one active provider, whose global probe is in flight.\<close>

lemma probing_store_scope:
  "scope_wf (st_heap probing_store 0)" "distinct (sc_models (st_heap probing_store 0))"
  "sc_models (st_heap probing_store 0) \<noteq> []"
proof -
  have "map_of (st_active probing_store) ''a'' = Some 0" by (simp add: probing_store_def)
  from active_scope(3) [OF probing_store_inv this] show "scope_wf (st_heap probing_store 0)" .
qed (simp_all add: probing_store_def probing_scope_def newScope_def example_provider_def Let_def)

theorem snapshotScope_channels_witness:
  "scope_wf (st_heap probing_store 0) \<and> sc_models (st_heap probing_store 0) \<noteq> [] \<and>
   order_of (model_order_from 0 (sc_models (st_heap probing_store 0)) []) (sc_models (st_heap probing_store 0) ! 0) = 0"
  using snapshotScope_channels [OF probing_store_scope(1,2)] probing_store_scope by blast

theorem Store_Snapshot_exact_witness:
  "store_inv probing_store \<and>
   set (map ps_ProviderID (hs_Providers (fst (Store_Snapshot probing_store)))) = {i. \<exists>a. live_at probing_store i a}"
  using probing_store_inv Store_Snapshot_exact [OF probing_store_inv prod.collapse [symmetric]] by blast

theorem Store_Aggregate_counts_witness:
  "store_inv probing_store \<and> total (ag_Global (fst (Store_Aggregate probing_store))) = 1"
  using probing_store_inv
    Store_Aggregate_counts [OF probing_store_inv prod.collapse [symmetric] prod.collapse [symmetric]]
  by (simp add: probing_store_def)

end
