(* ===== verification/Patch_Aliases.thy ===== *)
theory Patch_Aliases
  imports Provider_Model
begin

text \<open>
  Session aliases (\<open>internal/patch/alias_store.go\<close>): a bounded map from the session of a request and
  the generation of its target to a random UUID, with a sliding time to live and eviction of the
  least recently used alias. Every operation runs under one lock, so it is a function of the store.

  Map and recency list share pointers to the entries, so entries live in a heap and both hold
  addresses; the list has the most recently used first. The clock reading and the bytes that the
  random reader can still deliver are arguments. The operations are proved to act on the list of
  entries like short list functions, and an alias to stay the same while it is in use.
\<close>

unbundle bit_operations_syntax

section \<open>State\<close>

record AliasKey =
  ak_TargetID :: string
  ak_TargetGeneration :: string
  ak_OriginalSessionID :: string

record aliasEntry =
  en_key :: AliasKey
  en_alias :: string
  en_lastUsed :: gotime

datatype alias_error = ErrInvalidAliasKey | ErrAliasRandom

record AliasStore =
  als_capacity :: int
  als_ttl :: duration
  als_heap :: "nat \<Rightarrow> aliasEntry"
  als_next :: nat
  als_entries :: "(AliasKey, nat) gomap"
  als_lru :: "nat list"

definition DefaultAliasStoreTTL :: duration where
  "DefaultAliasStoreTTL = 3600 * 1000000000"

definition DefaultAliasStoreCapacity :: int where
  "DefaultAliasStoreCapacity = 8192"

text \<open>The arguments and options that set a number; the clock and the reader are arguments of the operations.\<close>

datatype alias_argument = WithCapacity int | WithTTL duration

fun alias_option :: "alias_argument \<Rightarrow> int \<times> duration \<Rightarrow> int \<times> duration" where
  "alias_option (WithCapacity n) (capacity, ttl) = (if n > 0 then n else capacity, ttl)"
| "alias_option (WithTTL d) (capacity, ttl) = (capacity, if d > 0 then d else ttl)"

definition zeroAliasEntry :: aliasEntry where
  "zeroAliasEntry = \<lparr> en_key = \<lparr> ak_TargetID = [], ak_TargetGeneration = [], ak_OriginalSessionID = [] \<rparr>, en_alias = [], en_lastUsed = 0 \<rparr>"

definition NewAliasStore :: "alias_argument list \<Rightarrow> AliasStore" where
  "NewAliasStore arguments =
     (case fold alias_option arguments (DefaultAliasStoreCapacity, DefaultAliasStoreTTL) of
        (capacity, ttl) \<Rightarrow>
          \<lparr> als_capacity = capacity, als_ttl = ttl, als_heap = (\<lambda>_. zeroAliasEntry), als_next = 0, als_entries = [], als_lru = [] \<rparr>)"

section \<open>Identifiers\<close>

definition hex_char :: "nat \<Rightarrow> char" where
  "hex_char n = ''0123456789abcdef'' ! n"

definition hex_Encode :: "8 word list \<Rightarrow> string" where
  "hex_Encode bs = concat (map (\<lambda>b. [hex_char (unat b div 16), hex_char (unat b mod 16)]) bs)"

text \<open>\<open>io.ReadFull\<close> fails when the reader delivers fewer than 16 bytes.\<close>

definition uuid_bytes :: "8 word list \<Rightarrow> 8 word list" where
  "uuid_bytes random =
     (let bs = take 16 random; bs = bs[6 := (bs ! 6 AND 0x0F) OR 0x40] in bs[8 := (bs ! 8 AND 0x3F) OR 0x80])"

definition newUUIDLocked :: "8 word list \<Rightarrow> alias_error + string" where
  "newUUIDLocked random =
     (if length random < 16 then Inl ErrAliasRandom
      else
        let bs = uuid_bytes random in
        Inr (hex_Encode (take 4 bs) @ ''-'' @ hex_Encode (take 2 (drop 4 bs)) @ ''-'' @ hex_Encode (take 2 (drop 6 bs)) @ ''-'' @
             hex_Encode (take 2 (drop 8 bs)) @ ''-'' @ hex_Encode (take 6 (drop 10 bs))))"

section \<open>Operations\<close>

definition validateKey :: "AliasKey \<Rightarrow> alias_error option" where
  "validateKey key =
     (if TrimSpace (ak_TargetID key) = [] \<or> TrimSpace (ak_TargetGeneration key) = [] then Some ErrInvalidAliasKey else None)"

definition blank_session :: "AliasKey \<Rightarrow> bool" where
  "blank_session key \<longleftrightarrow> ak_OriginalSessionID key = [] \<or> TrimSpace (ak_OriginalSessionID key) = []"

definition removeElementLocked :: "nat \<Rightarrow> AliasStore \<Rightarrow> AliasStore" where
  "removeElementLocked a s =
     s\<lparr>als_entries := AList.delete (en_key (als_heap s a)) (als_entries s), als_lru := remove1 a (als_lru s)\<rparr>"

text \<open>The loop runs from the back of the list; the element before is taken before one is removed.\<close>

fun purge_loop :: "gotime \<Rightarrow> nat list \<Rightarrow> int \<Rightarrow> AliasStore \<Rightarrow> int \<times> AliasStore" where
  "purge_loop now [] removed s = (removed, s)"
| "purge_loop now (a # as) removed s =
     (if \<not> now < en_lastUsed (als_heap s a) + als_ttl s then purge_loop now as (removed + 1) (removeElementLocked a s)
      else purge_loop now as removed s)"

definition purgeExpiredLocked :: "gotime \<Rightarrow> AliasStore \<Rightarrow> int \<times> AliasStore" where
  "purgeExpiredLocked now s = purge_loop now (rev (als_lru s)) 0 s"

definition touch_alias :: "nat \<Rightarrow> gotime \<Rightarrow> AliasStore \<Rightarrow> AliasStore" where
  "touch_alias a now s =
     s\<lparr>als_heap := (als_heap s)(a := (als_heap s a)\<lparr>en_lastUsed := now\<rparr>), als_lru := a # remove1 a (als_lru s)\<rparr>"

function evict_aliases :: "AliasStore \<Rightarrow> AliasStore" where
  "evict_aliases s =
     (if int (length (als_entries s)) > als_capacity s \<and> als_lru s \<noteq> [] then evict_aliases (removeElementLocked (last (als_lru s)) s)
      else s)"
  by pat_completeness auto
termination
  by (relation "measure (\<lambda>s. length (als_lru s))") (auto simp: removeElementLocked_def length_remove1)

declare evict_aliases.simps [simp del]

definition push_alias :: "AliasKey \<Rightarrow> string \<Rightarrow> gotime \<Rightarrow> AliasStore \<Rightarrow> AliasStore" where
  "push_alias key uuid now s =
     (let a = als_next s in
      s\<lparr> als_heap := (als_heap s)(a := \<lparr> en_key = key, en_alias = uuid, en_lastUsed = now \<rparr>), als_next := a + 1,
         als_lru := a # als_lru s, als_entries := AList.update key a (als_entries s) \<rparr>)"

definition Resolve :: "AliasKey \<Rightarrow> gotime \<Rightarrow> 8 word list \<Rightarrow> AliasStore \<Rightarrow> (alias_error + string) \<times> AliasStore" where
  "Resolve key now random s =
     (case validateKey key of
        Some e \<Rightarrow> (Inl e, s)
      | None \<Rightarrow>
          if blank_session key then (newUUIDLocked random, s)
          else
            let s = snd (purgeExpiredLocked now s) in
            case map_of (als_entries s) key of
              Some a \<Rightarrow> (Inr (en_alias (als_heap s a)), touch_alias a now s)
            | None \<Rightarrow>
                case newUUIDLocked random of
                  Inl e \<Rightarrow> (Inl e, s)
                | Inr uuid \<Rightarrow> (Inr uuid, evict_aliases (push_alias key uuid now s)))"

definition GetOrCreate ::
  "string \<Rightarrow> string \<Rightarrow> string \<Rightarrow> gotime \<Rightarrow> 8 word list \<Rightarrow> AliasStore \<Rightarrow> (alias_error + string) \<times> AliasStore" where
  "GetOrCreate targetID generation originalSessionID =
     Resolve \<lparr> ak_TargetID = targetID, ak_TargetGeneration = generation, ak_OriginalSessionID = originalSessionID \<rparr>"

definition AliasStore_Get :: "AliasKey \<Rightarrow> gotime \<Rightarrow> AliasStore \<Rightarrow> string option \<times> AliasStore" where
  "AliasStore_Get key now s =
     (if validateKey key \<noteq> None \<or> blank_session key then (None, s)
      else
        let s = snd (purgeExpiredLocked now s) in
        case map_of (als_entries s) key of
          None \<Rightarrow> (None, s)
        | Some a \<Rightarrow> (Some (en_alias (als_heap s a)), touch_alias a now s))"

definition AliasStore_Len :: "gotime \<Rightarrow> AliasStore \<Rightarrow> int \<times> AliasStore" where
  "AliasStore_Len now s = (let s = snd (purgeExpiredLocked now s) in (int (length (als_entries s)), s))"

definition PurgeExpired :: "gotime \<Rightarrow> AliasStore \<Rightarrow> int \<times> AliasStore" where
  "PurgeExpired now s = purgeExpiredLocked now s"

text \<open>The operations as steps; a request-scoped alias leaves the store alone.\<close>

datatype alias_op = OpResolve AliasKey gotime "8 word list" | OpGet AliasKey gotime | OpLen gotime | OpPurge gotime

fun alias_step :: "alias_op \<Rightarrow> AliasStore \<Rightarrow> AliasStore" where
  "alias_step (OpResolve key now random) s = snd (Resolve key now random s)"
| "alias_step (OpGet key now) s = snd (AliasStore_Get key now s)"
| "alias_step (OpLen now) s = snd (AliasStore_Len now s)"
| "alias_step (OpPurge now) s = snd (PurgeExpired now s)"

definition alias_run :: "alias_op list \<Rightarrow> AliasStore \<Rightarrow> AliasStore" where
  "alias_run ops s = fold alias_step ops s"

section \<open>The store as a list\<close>

definition als_inv :: "AliasStore \<Rightarrow> bool" where
  "als_inv s \<longleftrightarrow> gdistinct (als_entries s) \<and> distinct (als_lru s) \<and> (\<forall>a \<in> set (als_lru s). a < als_next s) \<and>
     (\<forall>k a. map_of (als_entries s) k = Some a \<longleftrightarrow> a \<in> set (als_lru s) \<and> en_key (als_heap s a) = k) \<and> 0 < als_capacity s"

lemma als_invD:
  assumes "als_inv s"
  shows "gdistinct (als_entries s)" "distinct (als_lru s)" "a \<in> set (als_lru s) \<Longrightarrow> a < als_next s" "0 < als_capacity s"
    "map_of (als_entries s) k = Some a \<longleftrightarrow> a \<in> set (als_lru s) \<and> en_key (als_heap s a) = k"
  using assms unfolding als_inv_def by blast+

definition als_abs :: "AliasStore \<Rightarrow> aliasEntry list" where
  "als_abs s = map (als_heap s) (als_lru s)"

lemma als_key_inj: "als_inv s \<Longrightarrow> inj_on (\<lambda>a. en_key (als_heap s a)) (set (als_lru s))"
  by (rule inj_onI) (metis als_invD(5) option.inject)

lemma als_abs_keys: "als_inv s \<Longrightarrow> distinct (map en_key (als_abs s))"
  using als_key_inj [of s] als_invD(2) [of s] by (simp add: als_abs_def distinct_map comp_def inj_on_def)

lemma als_length: "als_inv s \<Longrightarrow> length (als_entries s) = length (als_lru s)"
proof -
  assume inv: "als_inv s"
  have "k \<in> fst ` set (als_entries s) \<longleftrightarrow> k \<in> (\<lambda>a. en_key (als_heap s a)) ` set (als_lru s)" for k
    using als_invD(5) [OF inv, of k] map_of_eq_None_iff [of "als_entries s" k]
    by (metis (no_types, lifting) image_iff not_None_eq)
  then have "fst ` set (als_entries s) = (\<lambda>a. en_key (als_heap s a)) ` set (als_lru s)" by blast
  then have "card (set (gkeys (als_entries s))) = card (set (als_lru s))"
    using card_image [OF als_key_inj [OF inv]] by simp
  then show ?thesis
    using distinct_card [OF als_invD(1) [OF inv]] distinct_card [OF als_invD(2) [OF inv]] by simp
qed

lemma NewAliasStore_inv: "als_inv (NewAliasStore arguments) \<and> als_abs (NewAliasStore arguments) = []"
proof -
  have "0 < fst (fold alias_option arguments (c, d))" if "0 < c" for c d
    using that
  proof (induction arguments arbitrary: c d)
    case (Cons x arguments)
    then show ?case by (cases x) auto
  qed simp
  from this [of DefaultAliasStoreCapacity DefaultAliasStoreTTL] show ?thesis
    by (auto simp: NewAliasStore_def als_inv_def als_abs_def DefaultAliasStoreCapacity_def split: prod.split)
qed

section \<open>The operations on the list\<close>

lemma remove_static [simp]:
  "als_heap (removeElementLocked a s) = als_heap s" "als_ttl (removeElementLocked a s) = als_ttl s"
  "als_capacity (removeElementLocked a s) = als_capacity s" "als_next (removeElementLocked a s) = als_next s"
  "als_lru (removeElementLocked a s) = remove1 a (als_lru s)"
  by (simp_all add: removeElementLocked_def)

lemma removeElement_inv:
  assumes "als_inv s" "a \<in> set (als_lru s)"
  shows "als_inv (removeElementLocked a s)"
proof -
  note inv = als_invD [OF assms(1)]
  have "map_of (als_entries (removeElementLocked a s)) k = Some b \<longleftrightarrow>
      b \<in> set (remove1 a (als_lru s)) \<and> en_key (als_heap s b) = k" for k b
    using inv(2) inv(5) [of k b] inv(5) [of "en_key (als_heap s a)" a] inv(5) [of "en_key (als_heap s a)" b] assms(2)
    by (auto simp: removeElementLocked_def gomap_simps)
  moreover have "gdistinct (als_entries (removeElementLocked a s))" using inv(1) by (simp add: removeElementLocked_def gdistinct_delete)
  ultimately show ?thesis using inv(2,3,4) by (auto simp: als_inv_def)
qed

definition fresh :: "gotime \<Rightarrow> duration \<Rightarrow> aliasEntry \<Rightarrow> bool" where
  "fresh now ttl e \<longleftrightarrow> now < en_lastUsed e + ttl"

lemma purge_loop_spec:
  assumes "als_inv s" "distinct as" "set as \<subseteq> set (als_lru s)"
  shows "\<exists>n s'. purge_loop now as removed s = (n, s') \<and> als_inv s' \<and> als_heap s' = als_heap s \<and> als_ttl s' = als_ttl s \<and>
    als_capacity s' = als_capacity s \<and> als_next s' = als_next s \<and>
    als_lru s' = filter (\<lambda>a. a \<notin> set as \<or> fresh now (als_ttl s) (als_heap s a)) (als_lru s) \<and>
    n = removed + int (length (als_lru s) - length (als_lru s'))"
  using assms
proof (induction as arbitrary: removed s)
  case Nil
  then show ?case by simp
next
  case (Cons a as)
  note inv = als_invD [OF Cons.prems(1)]
  show ?case
  proof (cases "fresh now (als_ttl s) (als_heap s a)")
    case True
    have "filter (\<lambda>b. b \<notin> set as \<or> fresh now (als_ttl s) (als_heap s b)) (als_lru s) =
        filter (\<lambda>b. b \<notin> set (a # as) \<or> fresh now (als_ttl s) (als_heap s b)) (als_lru s)"
      using True by (intro filter_cong) auto
    with Cons.IH [OF Cons.prems(1), of removed] Cons.prems(2,3) True show ?thesis by (simp add: fresh_def)
  next
    case False
    have a: "a \<in> set (als_lru s)" using Cons.prems(3) by simp
    let ?s = "removeElementLocked a s"
    have sub: "distinct as" "set as \<subseteq> set (als_lru ?s)" using Cons.prems(2,3) inv(2) by auto
    from Cons.IH [OF removeElement_inv [OF Cons.prems(1) a] sub, of "removed + 1", unfolded remove_static]
    obtain n s' where ih: "purge_loop now as (removed + 1) ?s = (n, s')" "als_inv s'" "als_heap s' = als_heap s" "als_ttl s' = als_ttl s"
      "als_capacity s' = als_capacity s" "als_next s' = als_next s"
      "als_lru s' = filter (\<lambda>b. b \<notin> set as \<or> fresh now (als_ttl s) (als_heap s b)) (remove1 a (als_lru s))"
      "n = removed + 1 + int (length (remove1 a (als_lru s)) - length (als_lru s'))" by blast
    have l: "als_lru s' = filter (\<lambda>b. b \<notin> set (a # as) \<or> fresh now (als_ttl s) (als_heap s b)) (als_lru s)"
      unfolding ih(7) distinct_remove1_removeAll [OF inv(2)] removeAll_filter_not_eq filter_filter
      by (rule filter_cong) (use Cons.prems(2) False in auto)
    have "length (als_lru s') \<le> length (remove1 a (als_lru s))" unfolding ih(7) by simp
    then have "n = removed + int (length (als_lru s) - length (als_lru s'))" using ih(8) a length_pos_if_in_set [OF a] by (auto simp: length_remove1)
    with ih l False show ?thesis by (simp add: fresh_def)
  qed
qed

lemma purge_spec:
  assumes "als_inv s"
  shows "als_inv (snd (purgeExpiredLocked now s)) \<and>
    als_abs (snd (purgeExpiredLocked now s)) = filter (fresh now (als_ttl s)) (als_abs s) \<and>
    fst (purgeExpiredLocked now s) = int (length (als_abs s) - length (filter (fresh now (als_ttl s)) (als_abs s))) \<and>
    als_capacity (snd (purgeExpiredLocked now s)) = als_capacity s \<and> als_ttl (snd (purgeExpiredLocked now s)) = als_ttl s"
proof -
  from purge_loop_spec [OF assms, of "rev (als_lru s)" now 0] als_invD(2) [OF assms] obtain n s' where
    s': "purge_loop now (rev (als_lru s)) 0 s = (n, s')" "als_inv s'" "als_heap s' = als_heap s" "als_ttl s' = als_ttl s"
    "als_capacity s' = als_capacity s" "als_lru s' = filter (\<lambda>a. a \<notin> set (rev (als_lru s)) \<or> fresh now (als_ttl s) (als_heap s a)) (als_lru s)"
    "n = 0 + int (length (als_lru s) - length (als_lru s'))" by auto
  have "als_lru s' = filter (\<lambda>a. fresh now (als_ttl s) (als_heap s a)) (als_lru s)" unfolding s'(6) by (rule filter_cong) auto
  with s' show ?thesis by (simp add: purgeExpiredLocked_def als_abs_def filter_map comp_def)
qed

definition unkeyed :: "AliasKey \<Rightarrow> aliasEntry list \<Rightarrow> aliasEntry list" where
  "unkeyed key es = filter (\<lambda>e. en_key e \<noteq> key) es"

lemma touch_spec:
  assumes "als_inv s" "map_of (als_entries s) key = Some a"
  shows "als_inv (touch_alias a now s) \<and>
    als_abs (touch_alias a now s) = (als_heap s a)\<lparr>en_lastUsed := now\<rparr> # unkeyed key (als_abs s) \<and>
    als_capacity (touch_alias a now s) = als_capacity s \<and> als_ttl (touch_alias a now s) = als_ttl s"
proof -
  note inv = als_invD [OF assms(1)]
  have a: "a \<in> set (als_lru s)" "en_key (als_heap s a) = key" using inv(5) assms(2) by blast+
  have "en_key (als_heap s b) \<noteq> key \<longleftrightarrow> b \<noteq> a" if "b \<in> set (als_lru s)" for b
    using inj_onD [OF als_key_inj [OF assms(1)], of b a] a that by auto
  then have "remove1 a (als_lru s) = filter (\<lambda>b. en_key (als_heap s b) \<noteq> key) (als_lru s)"
    unfolding distinct_remove1_removeAll [OF inv(2)] removeAll_filter_not_eq by (intro filter_cong) auto
  moreover have "als_inv (touch_alias a now s)"
    using inv a by (auto simp: als_inv_def touch_alias_def)
  moreover have "map (als_heap (touch_alias a now s)) (remove1 a (als_lru s)) = map (als_heap s) (remove1 a (als_lru s))"
    using inv(2) by (intro map_cong) (auto simp: touch_alias_def)
  ultimately show ?thesis by (simp add: als_abs_def unkeyed_def filter_map comp_def touch_alias_def)
qed

lemma push_spec:
  assumes "als_inv s" "map_of (als_entries s) key = None"
  shows "als_inv (push_alias key uuid now s) \<and>
    als_abs (push_alias key uuid now s) = \<lparr> en_key = key, en_alias = uuid, en_lastUsed = now \<rparr> # als_abs s \<and>
    als_capacity (push_alias key uuid now s) = als_capacity s \<and> als_ttl (push_alias key uuid now s) = als_ttl s"
proof -
  note inv = als_invD [OF assms(1)]
  have new: "als_next s \<notin> set (als_lru s)" using inv(3) by blast
  have heap: "b \<in> set (als_lru s) \<Longrightarrow> als_heap (push_alias key uuid now s) b = als_heap s b" for b
    using new by (auto simp: push_alias_def Let_def)
  have none: "en_key (als_heap s b) \<noteq> key" if "b \<in> set (als_lru s)" for b using inv(5) [of key b] that assms(2) by auto
  have "als_inv (push_alias key uuid now s)"
    using inv none new by (auto simp: als_inv_def push_alias_def Let_def gomap_simps gdistinct_update less_SucI split: if_splits)
  moreover have "map (als_heap (push_alias key uuid now s)) (als_lru s) = map (als_heap s) (als_lru s)"
    by (rule map_cong) (simp_all add: heap)
  ultimately show ?thesis by (simp add: als_abs_def push_alias_def Let_def)
qed

lemma evict_aliases_spec:
  assumes "als_inv s"
  shows "als_inv (evict_aliases s) \<and> als_abs (evict_aliases s) = take (nat (als_capacity s)) (als_abs s) \<and>
    als_capacity (evict_aliases s) = als_capacity s \<and> als_ttl (evict_aliases s) = als_ttl s"
  using assms
proof (induction s rule: evict_aliases.induct)
  case (1 s)
  note inv = als_invD [OF 1(2)] and len = als_length [OF 1(2)]
  show ?case
  proof (cases "int (length (als_entries s)) > als_capacity s \<and> als_lru s \<noteq> []")
    case True
    then obtain as a where lru: "als_lru s = as @ [a]" by (metis rev_exhaust)
    then have as: "remove1 a (als_lru s) = as" using inv(2) by (simp add: remove1_append)
    have "als_inv (removeElementLocked (last (als_lru s)) s)" using removeElement_inv [OF 1(2)] True by simp
    moreover have "evict_aliases s = evict_aliases (removeElementLocked (last (als_lru s)) s)"
      using True by (subst evict_aliases.simps) (rule if_P)
    ultimately show ?thesis using 1(1) [OF True] lru as True len by (simp add: als_abs_def)
  next
    case False
    then have "length (als_abs s) \<le> nat (als_capacity s)" using len inv(4) by (auto simp: als_abs_def)
    moreover have "evict_aliases s = s" using False by (subst evict_aliases.simps) (rule if_not_P)
    ultimately show ?thesis using 1(2) by simp
  qed
qed

text \<open>What resolving a key does to the list of entries.\<close>

definition resolve_list ::
  "int \<Rightarrow> duration \<Rightarrow> AliasKey \<Rightarrow> gotime \<Rightarrow> 8 word list \<Rightarrow> aliasEntry list \<Rightarrow> (alias_error + string) \<times> aliasEntry list" where
  "resolve_list capacity ttl key now random es =
     (let es = filter (fresh now ttl) es in
      case find (\<lambda>e. en_key e = key) es of
        Some e \<Rightarrow> (Inr (en_alias e), e\<lparr>en_lastUsed := now\<rparr> # unkeyed key es)
      | None \<Rightarrow>
          case newUUIDLocked random of
            Inl x \<Rightarrow> (Inl x, es)
          | Inr uuid \<Rightarrow> (Inr uuid, take (nat capacity) (\<lparr> en_key = key, en_alias = uuid, en_lastUsed = now \<rparr> # es)))"

lemma find_entry:
  assumes "als_inv s"
  shows "find (\<lambda>e. en_key e = key) (als_abs s) = map_option (als_heap s) (map_of (als_entries s) key)"
proof (cases "map_of (als_entries s) key")
  case None
  then have "en_key (als_heap s a) \<noteq> key" if "a \<in> set (als_lru s)" for a using als_invD(5) [OF assms, of key a] that by auto
  then show ?thesis using None by (auto simp: find_None_iff als_abs_def)
next
  case (Some a)
  then have a: "a \<in> set (als_lru s)" "en_key (als_heap s a) = key" using als_invD(5) [OF assms] by blast+
  have "find (\<lambda>e. en_key e = en_key x) es = Some x" if "distinct (map en_key es)" "x \<in> set es" for x es
    using that by (induction es) auto
  from this [OF als_abs_keys [OF assms], of "als_heap s a"] a Some show ?thesis by (simp add: als_abs_def)
qed

definition stored_key :: "AliasKey \<Rightarrow> bool" where
  "stored_key key \<longleftrightarrow> validateKey key = None \<and> \<not> blank_session key"

lemma Resolve_spec:
  assumes "als_inv s"
  shows "als_inv (snd (Resolve key now random s)) \<and>
    als_capacity (snd (Resolve key now random s)) = als_capacity s \<and> als_ttl (snd (Resolve key now random s)) = als_ttl s \<and>
    (stored_key key \<longrightarrow> (fst (Resolve key now random s), als_abs (snd (Resolve key now random s))) =
       resolve_list (als_capacity s) (als_ttl s) key now random (als_abs s)) \<and>
    (\<not> stored_key key \<longrightarrow> snd (Resolve key now random s) = s)"
proof (cases "stored_key key")
  case True
  define t where "t = snd (purgeExpiredLocked now s)"
  have t: "als_inv t" "als_abs t = filter (fresh now (als_ttl s)) (als_abs s)" "als_capacity t = als_capacity s" "als_ttl t = als_ttl s"
    using purge_spec [OF assms, of now] by (simp_all add: t_def)
  note found = find_entry [OF t(1), of key]
  have R: "Resolve key now random s = (case map_of (als_entries t) key of
      Some a \<Rightarrow> (Inr (en_alias (als_heap t a)), touch_alias a now t)
    | None \<Rightarrow> case newUUIDLocked random of Inl e \<Rightarrow> (Inl e, t) | Inr uuid \<Rightarrow> (Inr uuid, evict_aliases (push_alias key uuid now t)))"
    using True unfolding t_def by (simp add: Resolve_def stored_key_def Let_def)
  show ?thesis
  proof (cases "map_of (als_entries t) key")
    case None
    show ?thesis
    proof (cases "newUUIDLocked random")
      case (Inr uuid)
      with push_spec [OF t(1) None, of uuid now] evict_aliases_spec [of "push_alias key uuid now t"] None found t True
      show ?thesis by (simp add: R resolve_list_def Let_def)
    qed (use None found t True in \<open>simp add: R resolve_list_def Let_def\<close>)
  next
    case (Some a)
    with touch_spec [OF t(1) Some, of now] found t True show ?thesis by (simp add: R resolve_list_def Let_def)
  qed
next
  case False
  then show ?thesis using assms by (auto simp: Resolve_def stored_key_def split: option.split)
qed

definition get_list :: "duration \<Rightarrow> AliasKey \<Rightarrow> gotime \<Rightarrow> aliasEntry list \<Rightarrow> string option \<times> aliasEntry list" where
  "get_list ttl key now es =
     (let es = filter (fresh now ttl) es in
      case find (\<lambda>e. en_key e = key) es of
        Some e \<Rightarrow> (Some (en_alias e), e\<lparr>en_lastUsed := now\<rparr> # unkeyed key es)
      | None \<Rightarrow> (None, es))"

lemma Get_spec:
  assumes "als_inv s"
  shows "als_inv (snd (AliasStore_Get key now s)) \<and>
    als_capacity (snd (AliasStore_Get key now s)) = als_capacity s \<and> als_ttl (snd (AliasStore_Get key now s)) = als_ttl s \<and>
    (stored_key key \<longrightarrow> (fst (AliasStore_Get key now s), als_abs (snd (AliasStore_Get key now s))) = get_list (als_ttl s) key now (als_abs s)) \<and>
    (\<not> stored_key key \<longrightarrow> AliasStore_Get key now s = (None, s))"
proof (cases "stored_key key")
  case True
  define t where "t = snd (purgeExpiredLocked now s)"
  have t: "als_inv t" "als_abs t = filter (fresh now (als_ttl s)) (als_abs s)" "als_capacity t = als_capacity s" "als_ttl t = als_ttl s"
    using purge_spec [OF assms, of now] by (simp_all add: t_def)
  note found = find_entry [OF t(1), of key]
  have R: "AliasStore_Get key now s = (case map_of (als_entries t) key of
      Some a \<Rightarrow> (Some (en_alias (als_heap t a)), touch_alias a now t) | None \<Rightarrow> (None, t))"
    using True unfolding t_def by (auto simp: AliasStore_Get_def stored_key_def Let_def split: option.split)
  show ?thesis
  proof (cases "map_of (als_entries t) key")
    case (Some a)
    with touch_spec [OF t(1) Some, of now] found t True show ?thesis by (simp add: R get_list_def Let_def)
  qed (use found t True in \<open>simp add: R get_list_def Let_def\<close>)
next
  case False
  then show ?thesis using assms by (auto simp: AliasStore_Get_def stored_key_def)
qed

section \<open>Reachable stores\<close>

definition alias_ok :: "AliasStore \<Rightarrow> bool" where
  "alias_ok s \<longleftrightarrow> als_inv s \<and> length (als_abs s) \<le> nat (als_capacity s)"

lemma unkeyed_shorter: "find (\<lambda>e. en_key e = key) es = Some e \<Longrightarrow> length (unkeyed key es) < length es"
  unfolding unkeyed_def by (rule length_filter_less [of e]) (auto simp: find_Some_iff)

lemma resolve_list_length:
  assumes "length es \<le> nat capacity" "0 < capacity" "distinct (map en_key es)"
  shows "length (snd (resolve_list capacity ttl key now random es)) \<le> nat capacity"
proof -
  let ?fs = "filter (fresh now ttl) es"
  have le: "length ?fs \<le> nat capacity" using assms(1) le_trans length_filter_le by blast
  with unkeyed_shorter [of key ?fs] show ?thesis by (auto simp: resolve_list_def Let_def split: option.split sum.split intro: Suc_leI le_trans)
qed

lemma get_list_length:
  assumes "length es \<le> n"
  shows "length (snd (get_list ttl key now es)) \<le> n"
proof -
  let ?fs = "filter (fresh now ttl) es"
  have le: "length ?fs \<le> n" using assms le_trans length_filter_le by blast
  with unkeyed_shorter [of key ?fs] show ?thesis by (auto simp: get_list_def Let_def split: option.split intro: Suc_leI le_trans)
qed

lemma alias_step_ok:
  assumes "alias_ok s"
  shows "alias_ok (alias_step x s) \<and> als_capacity (alias_step x s) = als_capacity s \<and> als_ttl (alias_step x s) = als_ttl s"
proof -
  from assms have inv: "als_inv s" and len: "length (als_abs s) \<le> nat (als_capacity s)" by (simp_all add: alias_ok_def)
  have purge: "length (als_abs (snd (purgeExpiredLocked now s))) \<le> nat (als_capacity s)" for now
    using purge_spec [OF inv, of now] len by (simp add: order_trans [OF length_filter_le])
  show ?thesis
  proof (cases x)
    case (OpResolve key now random)
    with Resolve_spec [OF inv, of key now random] resolve_list_length [OF len als_invD(4) [OF inv] als_abs_keys [OF inv], of "als_ttl s" key now random] len
    show ?thesis by (cases "stored_key key") (auto simp: alias_ok_def dest: arg_cong [where f = snd])
  next
    case (OpGet key now)
    with Get_spec [OF inv, of key now] get_list_length [OF len, of "als_ttl s" key now] len
    show ?thesis by (cases "stored_key key") (auto simp: alias_ok_def dest: arg_cong [where f = snd])
  qed (use purge_spec [OF inv] purge in \<open>simp_all add: alias_ok_def AliasStore_Len_def PurgeExpired_def Let_def\<close>)
qed

lemma alias_run_ok:
  assumes "alias_ok s"
  shows "alias_ok (alias_run ops s) \<and> als_capacity (alias_run ops s) = als_capacity s \<and> als_ttl (alias_run ops s) = als_ttl s"
  using assms
proof (induction ops arbitrary: s)
  case (Cons x ops)
  with alias_step_ok [OF Cons.prems, of x] show ?case by (simp add: alias_run_def)
qed (simp add: alias_run_def)

lemma alias_reachable: "alias_ok (alias_run ops (NewAliasStore arguments))"
  using NewAliasStore_inv [of arguments] by (intro conjunct1 [OF alias_run_ok]) (simp add: alias_ok_def)

section \<open>An alias in use\<close>

fun op_time :: "alias_op \<Rightarrow> gotime" where
  "op_time (OpResolve key now random) = now"
| "op_time (OpGet key now) = now"
| "op_time (OpLen now) = now"
| "op_time (OpPurge now) = now"

fun op_keys :: "alias_op \<Rightarrow> AliasKey set" where
  "op_keys (OpResolve key now random) = {key}"
| "op_keys (OpGet key now) = {key}"
| "op_keys _ = {}"

text \<open>The entry is on the list, used at \<open>t\<close> or later, with only keys of \<open>K\<close> used after it.\<close>

definition held :: "AliasKey \<Rightarrow> string \<Rightarrow> gotime \<Rightarrow> AliasKey set \<Rightarrow> aliasEntry list \<Rightarrow> bool" where
  "held key uuid t K es \<longleftrightarrow>
     (\<exists>pre e post. es = pre @ e # post \<and> en_key e = key \<and> en_alias e = uuid \<and> t \<le> en_lastUsed e \<and> en_key ` set pre \<subseteq> K)"

lemma heldI: "es = pre @ e # post \<Longrightarrow> en_key e = key \<Longrightarrow> en_alias e = uuid \<Longrightarrow> t \<le> en_lastUsed e \<Longrightarrow> en_key ` set pre \<subseteq> K \<Longrightarrow> held key uuid t K es"
  unfolding held_def by blast

lemma held_unexpired:
  assumes "held key uuid t K es" "now < t + ttl"
  shows "held key uuid t K (filter (fresh now ttl) es)"
proof -
  from assms(1) obtain pre e post where
    e: "es = pre @ e # post" "en_key e = key" "en_alias e = uuid" "t \<le> en_lastUsed e" "en_key ` set pre \<subseteq> K"
    unfolding held_def by blast
  have "filter (fresh now ttl) es = filter (fresh now ttl) pre @ e # filter (fresh now ttl) post"
    using e assms(2) by (simp add: fresh_def)
  from heldI [OF this e(2-4)] e(5) show ?thesis by auto
qed

lemma held_find:
  assumes "held key uuid t K es" "distinct (map en_key es)"
  shows "\<exists>e. find (\<lambda>e. en_key e = key) es = Some e \<and> en_alias e = uuid \<and> en_key e = key"
proof -
  from assms(1) obtain pre e post where e: "es = pre @ e # post" "en_key e = key" "en_alias e = uuid" unfolding held_def by blast
  have "find (\<lambda>x. en_key x = en_key e) (pre @ e # post) = Some e" if "distinct (map en_key (pre @ e # post))"
    using that by (induction pre) auto
  with e assms(2) show ?thesis by auto
qed

lemma held_front:
  assumes "held key uuid t K es" "en_key x \<in> K" "en_key x \<noteq> key"
  shows "held key uuid t K (x # unkeyed (en_key x) es)"
proof -
  from assms(1) obtain pre e post where
    e: "es = pre @ e # post" "en_key e = key" "en_alias e = uuid" "t \<le> en_lastUsed e" "en_key ` set pre \<subseteq> K"
    unfolding held_def by blast
  have "x # unkeyed (en_key x) es = (x # unkeyed (en_key x) pre) @ e # unkeyed (en_key x) post" using e(1,2) assms(3) by (simp add: unkeyed_def)
  from heldI [OF this e(2-4)] e(5) assms(2) show ?thesis by (auto simp: unkeyed_def)
qed

lemma held_push:
  assumes "held key uuid t K es" "distinct (map en_key es)" "en_key x \<notin> en_key ` set es" "en_key x \<in> K" "finite K" "key \<notin> K" "card K < n"
  shows "held key uuid t K (take n (x # es))"
proof -
  from assms(1) obtain pre e post where
    e: "es = pre @ e # post" "en_key e = key" "en_alias e = uuid" "t \<le> en_lastUsed e" "en_key ` set pre \<subseteq> K"
    unfolding held_def by blast
  have "distinct (map en_key (x # pre))" using assms(2,3) e(1) by auto
  then have "length (x # pre) = card (en_key ` set (x # pre))" by (metis distinct_card length_map list.set_map)
  also have "\<dots> \<le> card K" using e(5) assms(4,5) by (intro card_mono) auto
  finally have "length (x # pre) < n" using assms(7) by simp
  then have "take n (x # es) = (x # pre) @ e # take (n - length (x # pre) - 1) post"
    by (cases n) (auto simp: e(1) take_Cons' split: nat.split)
  from heldI [OF this e(2-4)] e(5) assms(4) show ?thesis by auto
qed

lemma held_use:
  assumes "en_key x = key" "en_alias x = uuid" "t \<le> en_lastUsed x"
  shows "held key uuid t K (x # es)"
  using assms by (intro heldI [of _ "[]" x es]) auto

lemma held_step:
  assumes ok: "alias_ok s" and h: "held key uuid t K (als_abs s)"
    and K: "finite K" "key \<notin> K" "op_keys x - {key} \<subseteq> K" "card K < nat (als_capacity s)"
    and now: "t \<le> op_time x" "op_time x < t + als_ttl s"
  shows "held key uuid t K (als_abs (alias_step x s))"
proof -
  from ok have inv: "als_inv s" by (simp add: alias_ok_def)
  define es where "es = filter (fresh (op_time x) (als_ttl s)) (als_abs s)"
  have es: "held key uuid t K es" unfolding es_def by (rule held_unexpired [OF h now(2)])
  have keys: "distinct (map en_key es)" unfolding es_def by (rule distinct_map_filter [OF als_abs_keys [OF inv]])
  from held_find [OF es keys] obtain e where e: "find (\<lambda>e. en_key e = key) es = Some e" "en_alias e = uuid" "en_key e = key" by blast
  have hit: "held key uuid t K (f\<lparr>en_lastUsed := op_time x\<rparr> # unkeyed k es)"
    if f: "find (\<lambda>e. en_key e = k) es = Some f" and k: "k \<in> op_keys x" for k f
  proof (cases "k = key")
    case True
    with f e show ?thesis using now(1) by (intro held_use) auto
  next
    case False
    have "en_key f = k" using f by (auto simp: find_Some_iff)
    with held_front [OF es, of "f\<lparr>en_lastUsed := op_time x\<rparr>"] K(3) k False show ?thesis by auto
  qed
  show ?thesis
  proof (cases x)
    case (OpResolve k n r)
    show ?thesis
    proof (cases "stored_key k")
      case True
      from Resolve_spec [OF inv, of k n r] True
      have "als_abs (alias_step x s) = snd (resolve_list (als_capacity s) (als_ttl s) k n r (als_abs s))"
        by (auto simp: OpResolve dest: arg_cong [where f = snd])
      moreover have "filter (fresh n (als_ttl s)) (als_abs s) = es" by (simp add: es_def OpResolve)
      ultimately have step: "als_abs (alias_step x s) = (case find (\<lambda>e. en_key e = k) es of
          Some e \<Rightarrow> e\<lparr>en_lastUsed := n\<rparr> # unkeyed k es
        | None \<Rightarrow> (case newUUIDLocked r of Inl e \<Rightarrow> es
          | Inr u \<Rightarrow> take (nat (als_capacity s)) (\<lparr> en_key = k, en_alias = u, en_lastUsed = n \<rparr> # es)))"
        by (auto simp: resolve_list_def Let_def split: option.split sum.split)
      show ?thesis
      proof (cases "find (\<lambda>e. en_key e = k) es")
        case None
        then have new: "k \<notin> en_key ` set es" by (auto simp: find_None_iff)
        moreover have "k \<noteq> key" using None e(1) by auto
        ultimately have "held key uuid t K (take (nat (als_capacity s)) (\<lparr> en_key = k, en_alias = u, en_lastUsed = n \<rparr> # es))" for u
          using K OpResolve by (intro held_push [OF es keys]) auto
        then show ?thesis using step None es by (simp split: sum.split)
      next
        case (Some f)
        with hit [OF Some] step OpResolve show ?thesis by simp
      qed
    next
      case False
      with Resolve_spec [OF inv, of k n r] h show ?thesis by (simp add: OpResolve)
    qed
  next
    case (OpGet k n)
    show ?thesis
    proof (cases "stored_key k")
      case True
      from Get_spec [OF inv, of k n] True
      have "als_abs (alias_step x s) = snd (get_list (als_ttl s) k n (als_abs s))"
        by (auto simp: OpGet dest: arg_cong [where f = snd])
      moreover have "filter (fresh n (als_ttl s)) (als_abs s) = es" by (simp add: es_def OpGet)
      ultimately show ?thesis using hit [of k] es OpGet by (auto simp: get_list_def Let_def split: option.split)
    next
      case False
      with Get_spec [OF inv, of k n] h show ?thesis by (simp add: OpGet)
    qed
  qed (use purge_spec [OF inv] es in \<open>simp_all add: es_def AliasStore_Len_def PurgeExpired_def Let_def\<close>)
qed

lemma held_run:
  assumes "alias_ok s" "held key uuid t K (als_abs s)" "finite K" "key \<notin> K" "card K < nat (als_capacity s)"
    and "\<And>x. x \<in> set ops \<Longrightarrow> op_keys x - {key} \<subseteq> K \<and> t \<le> op_time x \<and> op_time x < t + als_ttl s"
  shows "held key uuid t K (als_abs (alias_run ops s))"
  using assms
proof (induction ops arbitrary: s)
  case (Cons x ops)
  from alias_step_ok [OF Cons.prems(1), of x] have st: "alias_ok (alias_step x s)"
    "als_capacity (alias_step x s) = als_capacity s" "als_ttl (alias_step x s) = als_ttl s" by blast+
  have "held key uuid t K (als_abs (alias_step x s))"
    using Cons.prems(6) [of x] by (intro held_step [OF Cons.prems(1-4)] Cons.prems(5)) auto
  from Cons.IH [OF st(1) this Cons.prems(3,4)] Cons.prems(5,6) st(2,3) show ?case by (simp add: alias_run_def)
qed (simp add: alias_run_def)

lemma resolved_held:
  assumes "alias_ok s" "stored_key key" "fst (Resolve key t random s) = Inr uuid"
  shows "held key uuid t K (als_abs (snd (Resolve key t random s)))"
proof -
  from assms(1) have inv: "als_inv s" by (simp add: alias_ok_def)
  from Resolve_spec [OF inv, of key t random] assms(2,3)
  have r: "(Inr uuid, als_abs (snd (Resolve key t random s))) = resolve_list (als_capacity s) (als_ttl s) key t random (als_abs s)" by simp
  have cap: "0 < nat (als_capacity s)" using als_invD(4) [OF inv] by simp
  have new: "held key uuid t K (take (nat (als_capacity s)) (\<lparr> en_key = key, en_alias = uuid, en_lastUsed = t \<rparr> # es))" for es
    using cap by (cases "nat (als_capacity s)") (auto intro: held_use)
  show ?thesis using r new
    by (auto simp: resolve_list_def Let_def find_Some_iff intro!: held_use split: option.splits sum.splits)
qed

section \<open>The text of an alias\<close>

lemma hex_Encode_simps [simp]: "hex_Encode [] = []"
    "hex_Encode (b # bs) = hex_char (unat b div 16) # hex_char (unat b mod 16) # hex_Encode bs"
  by (simp_all add: hex_Encode_def)

lemma length_hex [simp]: "length (hex_Encode bs) = 2 * length bs"
  by (induction bs) auto

lemma hex_digits: "distinct ''0123456789abcdef'' \<and> length ''0123456789abcdef'' = 16"
  by simp

lemma hex_char_inj: "m < 16 \<Longrightarrow> n < 16 \<Longrightarrow> hex_char m = hex_char n \<longleftrightarrow> m = n"
  unfolding hex_char_def using nth_eq_iff_index_eq [of "''0123456789abcdef''" m n] hex_digits by metis

lemma u8_less: "unat (b :: 8 word) < 256"
  using unsigned_less [of b, where 'a = nat] by simp

lemma hex_chars: "set (hex_Encode bs) \<subseteq> set ''0123456789abcdef''"
proof (induction bs)
  case (Cons b bs)
  have "unat b div 16 < 16" "unat b mod 16 < 16" using u8_less [of b] by auto
  then have "hex_char (unat b div 16) \<in> set ''0123456789abcdef''" "hex_char (unat b mod 16) \<in> set ''0123456789abcdef''"
    unfolding hex_char_def using hex_digits by (metis nth_mem)+
  with Cons show ?case by simp
qed simp

lemma hex_Encode_inj: "hex_Encode as = hex_Encode bs \<Longrightarrow> as = bs"
proof (induction as arbitrary: bs)
  case (Cons a as)
  then obtain b bs' where bs: "bs = b # bs'" by (cases bs) auto
  have "unat a div 16 < 16" "unat b div 16 < 16" using u8_less [of a] u8_less [of b] by auto
  with Cons.prems bs have "unat a div 16 = unat b div 16" "unat a mod 16 = unat b mod 16" by (simp_all add: hex_char_inj)
  then have "unat a = unat b" by (metis div_mult_mod_eq)
  then have "a = b" by (simp add: word_unat_eq_iff)
  with Cons bs show ?case by simp
next
  case Nil
  then show ?case by (cases bs) auto
qed

lemma high_nibble: "unat (drop_bit 4 (b :: 8 word)) = unat b div 16"
  unfolding unat_drop_bit_eq by (simp add: drop_bit_eq_div)

lemma version_byte: "unat ((b AND 0x0F) OR (0x40 :: 8 word)) div 16 = 4"
proof -
  have "drop_bit 4 ((b AND 0x0F) OR (0x40 :: 8 word)) = 4" by (simp add: drop_bit_or drop_bit_and)
  then have "unat (drop_bit 4 ((b AND 0x0F) OR (0x40 :: 8 word))) = 4" by simp
  then show ?thesis by (simp only: high_nibble)
qed

lemma variant_byte: "unat ((b AND 0x3F) OR (0x80 :: 8 word)) div 16 \<in> {8, 9, 10, 11}"
proof -
  define x where "x = drop_bit 4 b AND 3"
  have "x = take_bit 2 (drop_bit 4 b)" by (simp add: x_def take_bit_eq_mask mask_eq_exp_minus_1)
  then have "unat x < 4" using take_bit_nat_less_exp [of 2] by (simp add: unsigned_take_bit_eq)
  then have "unat x \<in> {0, 1, 2, 3}" by auto
  then have "x \<in> {0, 1, 2, 3}" by (auto simp: word_unat_eq_iff)
  moreover have "drop_bit 4 ((b AND 0x3F) OR (0x80 :: 8 word)) = x OR 8" by (simp add: drop_bit_or drop_bit_and x_def)
  ultimately have "unat (drop_bit 4 ((b AND 0x3F) OR (0x80 :: 8 word))) \<in> {8, 9, 10, 11}" by auto
  then show ?thesis by (simp only: high_nibble)
qed

definition uuid_text :: "8 word list \<Rightarrow> string" where
  "uuid_text bs = hex_Encode (take 4 bs) @ ''-'' @ hex_Encode (take 2 (drop 4 bs)) @ ''-'' @ hex_Encode (take 2 (drop 6 bs)) @ ''-'' @
     hex_Encode (take 2 (drop 8 bs)) @ ''-'' @ hex_Encode (take 6 (drop 10 bs))"

lemma newUUID_text: "newUUIDLocked random = Inr uuid \<longleftrightarrow> 16 \<le> length random \<and> uuid = uuid_text (uuid_bytes random)"
  by (auto simp: newUUIDLocked_def uuid_text_def Let_def)

lemma uuid_text_inj:
  assumes "length as = 16" "length bs = 16" "uuid_text as = uuid_text bs"
  shows "as = bs"
proof -
  have pieces: "cs = take 4 cs @ take 2 (drop 4 cs) @ take 2 (drop 6 cs) @ take 2 (drop 8 cs) @ take 6 (drop 10 cs)" if "length cs = 16" for cs :: "8 word list"
    using that by (simp add: numeral_eq_Suc length_Suc_conv) auto
  have "hex_Encode (take 4 as) = hex_Encode (take 4 bs) \<and> hex_Encode (take 2 (drop 4 as)) = hex_Encode (take 2 (drop 4 bs)) \<and>
      hex_Encode (take 2 (drop 6 as)) = hex_Encode (take 2 (drop 6 bs)) \<and> hex_Encode (take 2 (drop 8 as)) = hex_Encode (take 2 (drop 8 bs)) \<and>
      hex_Encode (take 6 (drop 10 as)) = hex_Encode (take 6 (drop 10 bs))"
    using assms by (simp add: uuid_text_def)
  then have "take 4 as = take 4 bs" "take 2 (drop 4 as) = take 2 (drop 4 bs)" "take 2 (drop 6 as) = take 2 (drop 6 bs)"
    "take 2 (drop 8 as) = take 2 (drop 8 bs)" "take 6 (drop 10 as) = take 6 (drop 10 bs)" by (blast dest: hex_Encode_inj)+
  then show ?thesis using pieces [OF assms(1)] pieces [OF assms(2)] by metis
qed

lemma uuid_text_shape:
  assumes "length bs = 16"
  shows "length (uuid_text bs) = 36 \<and> uuid_text bs ! 14 = hex_char (unat (bs ! 6) div 16) \<and> uuid_text bs ! 19 = hex_char (unat (bs ! 8) div 16) \<and>
    (\<forall>i < 36. if i \<in> {8, 13, 18, 23} then uuid_text bs ! i = CHR ''-'' else uuid_text bs ! i \<in> set ''0123456789abcdef'')"
proof -
  have hex: "hex_char (unat b div 16) \<in> set ''0123456789abcdef''" "hex_char (unat b mod 16) \<in> set ''0123456789abcdef''" for b :: "8 word"
    using hex_chars [of "[b]"] by simp_all
  from assms obtain b0 b1 b2 b3 b4 b5 b6 b7 b8 b9 b10 b11 b12 b13 b14 b15 where
    bs: "bs = [b0, b1, b2, b3, b4, b5, b6, b7, b8, b9, b10, b11, b12, b13, b14, b15]"
    by (auto simp: numeral_eq_Suc length_Suc_conv)
  have all: "(\<forall>i < n. P i) \<longleftrightarrow> list_all P [0..<n]" for n and P :: "nat \<Rightarrow> bool" by (auto simp: list_all_iff)
  show ?thesis unfolding bs uuid_text_def all using hex by (simp add: upt_rec del: list.set)
qed

section \<open>Properties\<close>

text \<open>
  C31. A session keeps its alias while it is in use: when a key was resolved at \<open>t\<close>, it resolves to
  the same alias at any time before \<open>t\<close> plus the time to live, whatever random bytes are at hand and
  whatever operations ran in between, as long as these used fewer other keys than the capacity.
\<close>

theorem alias_stable:
  fixes ops0 arguments
  defines "s \<equiv> alias_run ops0 (NewAliasStore arguments)"
  assumes "stored_key key" "fst (Resolve key t random s) = Inr uuid"
    and "\<And>x. x \<in> set ops \<Longrightarrow> t \<le> op_time x \<and> op_time x < t + als_ttl s"
    and "card (\<Union> (op_keys ` set ops) - {key}) < nat (als_capacity s)" "t \<le> now" "now < t + als_ttl s"
  shows "fst (Resolve key now random' (alias_run ops (snd (Resolve key t random s)))) = Inr uuid"
proof -
  define K where "K = \<Union> (op_keys ` set ops) - {key}"
  let ?s1 = "snd (Resolve key t random s)"
  have ok: "alias_ok s" unfolding s_def by (rule alias_reachable)
  from alias_step_ok [OF ok, of "OpResolve key t random"] have ok1: "alias_ok ?s1"
    "als_capacity ?s1 = als_capacity s" "als_ttl ?s1 = als_ttl s" by simp_all
  have "finite (op_keys x)" for x by (cases x) auto
  then have K: "finite K" "key \<notin> K" "card K < nat (als_capacity ?s1)" using assms(5) ok1(2) by (auto simp: K_def)
  have "op_keys x - {key} \<subseteq> K \<and> t \<le> op_time x \<and> op_time x < t + als_ttl ?s1" if "x \<in> set ops" for x
    using assms(4) [OF that] that ok1(3) by (auto simp: K_def)
  from held_run [OF ok1(1) resolved_held [OF ok assms(2,3)] K this]
  have h: "held key uuid t K (als_abs (alias_run ops ?s1))" by simp
  from alias_run_ok [OF ok1(1), of ops] ok1(3) have inv: "als_inv (alias_run ops ?s1)" "als_ttl (alias_run ops ?s1) = als_ttl s"
    by (simp_all add: alias_ok_def)
  from held_find [OF held_unexpired [OF h assms(7)] distinct_map_filter [OF als_abs_keys [OF inv(1)]]]
    Resolve_spec [OF inv(1), of key now random'] assms(2) inv(2)
  show ?thesis by (auto simp: resolve_list_def Let_def dest: arg_cong [where f = fst])
qed

text \<open>
  C32. The map and the recency list of every reachable store hold the same entries, one for each key
  and never more than the capacity, and resolving or looking up a key does exactly what it does to a
  plain list: expired entries go, a known key moves to the front and keeps its alias, a new key is
  put in front and the least recently used entries beyond the capacity go.
\<close>

theorem alias_store_refines:
  fixes ops arguments
  defines "s \<equiv> alias_run ops (NewAliasStore arguments)"
  assumes "stored_key key"
  shows "(fst (Resolve key now random s), als_abs (snd (Resolve key now random s))) =
      resolve_list (als_capacity s) (als_ttl s) key now random (als_abs s) \<and>
    (fst (AliasStore_Get key now s), als_abs (snd (AliasStore_Get key now s))) = get_list (als_ttl s) key now (als_abs s) \<and>
    fst (AliasStore_Len now s) = int (length (filter (fresh now (als_ttl s)) (als_abs s))) \<and>
    distinct (map en_key (als_abs s)) \<and> length (als_abs s) \<le> nat (als_capacity s)"
proof -
  have ok: "alias_ok s" unfolding s_def by (rule alias_reachable)
  then have inv: "als_inv s" by (simp add: alias_ok_def)
  define t where "t = snd (purgeExpiredLocked now s)"
  have t: "als_inv t" "als_abs t = filter (fresh now (als_ttl s)) (als_abs s)" using purge_spec [OF inv, of now] by (simp_all add: t_def)
  have "length (als_entries t) = length (als_abs t)" using als_length [OF t(1)] by (simp add: als_abs_def)
  then have "fst (AliasStore_Len now s) = int (length (filter (fresh now (als_ttl s)) (als_abs s)))"
    using t(2) by (simp add: AliasStore_Len_def t_def Let_def)
  with ok Resolve_spec [OF inv, of key now random] Get_spec [OF inv, of key now] als_abs_keys [OF inv] assms(2)
  show ?thesis by (simp add: alias_ok_def)
qed

text \<open>
  A generated alias is a version 4 UUID: 36 characters, lower-case hexadecimal digits in groups of
  8, 4, 4, 4 and 12, with the version digit 4 and a variant digit 8 to b; and no random bit is lost,
  so two aliases are equal only if all 122 random bits are.
\<close>

theorem uuid_exact:
  assumes "newUUIDLocked random = Inr uuid"
  shows "length uuid = 36 \<and> uuid ! 14 = CHR ''4'' \<and> uuid ! 19 \<in> set ''89ab'' \<and>
    (\<forall>i < 36. if i \<in> {8, 13, 18, 23} then uuid ! i = CHR ''-'' else uuid ! i \<in> set ''0123456789abcdef'') \<and>
    (newUUIDLocked random' = Inr uuid \<longrightarrow> uuid_bytes random' = uuid_bytes random)"
proof -
  from assms have u: "16 \<le> length random" "uuid = uuid_text (uuid_bytes random)" by (simp_all add: newUUID_text)
  then have len: "length (uuid_bytes random) = 16" by (simp add: uuid_bytes_def Let_def)
  have b: "uuid_bytes random ! 6 = (random ! 6 AND 0x0F) OR 0x40" "uuid_bytes random ! 8 = (random ! 8 AND 0x3F) OR 0x80"
    using u(1) by (simp_all add: uuid_bytes_def Let_def)
  have "hex_char 4 = CHR ''4''" "hex_char ` {8, 9, 10, 11} = set ''89ab''" by (simp_all add: hex_char_def)
  with uuid_text_shape [OF len] version_byte [of "random ! 6"] variant_byte [of "random ! 8"]
  have "length uuid = 36 \<and> uuid ! 14 = CHR ''4'' \<and> uuid ! 19 \<in> set ''89ab'' \<and>
      (\<forall>i < 36. if i \<in> {8, 13, 18, 23} then uuid ! i = CHR ''-'' else uuid ! i \<in> set ''0123456789abcdef'')"
    unfolding u(2) b by (metis image_eqI)
  moreover have "uuid_bytes random' = uuid_bytes random" if "newUUIDLocked random' = Inr uuid"
    using that u(2) len by (intro uuid_text_inj) (auto simp: newUUID_text uuid_bytes_def Let_def)
  ultimately show ?thesis by blast
qed

section \<open>Witnesses\<close>

definition sample_key :: AliasKey where
  "sample_key = \<lparr> ak_TargetID = ''t'', ak_TargetGeneration = ''g'', ak_OriginalSessionID = ''s'' \<rparr>"

definition other_key :: AliasKey where
  "other_key = sample_key\<lparr>ak_TargetGeneration := ''h''\<rparr>"

lemma sample_keys_stored: "stored_key sample_key" "stored_key other_key"
  by code_simp+

lemma sample_uuid: "newUUIDLocked (replicate 16 0) = Inr ''00000000-0000-4000-8000-000000000000''"
  by code_simp

lemma sample_resolves: "fst (Resolve sample_key 0 (replicate 16 0) (alias_run [] (NewAliasStore [WithCapacity 2]))) =
    Inr ''00000000-0000-4000-8000-000000000000''"
  using Resolve_spec [of "NewAliasStore [WithCapacity 2]" sample_key 0 "replicate 16 0"] NewAliasStore_inv [of "[WithCapacity 2]"]
    sample_keys_stored(1) sample_uuid
  by (auto simp: alias_run_def resolve_list_def dest: arg_cong [where f = fst])

theorem alias_stable_witness:
  "fst (Resolve sample_key 5 [] (alias_run [OpResolve other_key 1 (replicate 16 1), OpGet other_key 4]
     (snd (Resolve sample_key 0 (replicate 16 0) (alias_run [] (NewAliasStore [WithCapacity 2])))))) = Inr ''00000000-0000-4000-8000-000000000000''"
proof -
  let ?s = "alias_run [] (NewAliasStore [WithCapacity 2])" and ?ops = "[OpResolve other_key 1 (replicate 16 1), OpGet other_key 4]"
  have st: "als_ttl ?s = DefaultAliasStoreTTL" "als_capacity ?s = 2" by (simp_all add: alias_run_def NewAliasStore_def)
  have "\<Union> (op_keys ` set ?ops) - {sample_key} = {other_key}" by (auto simp: other_key_def sample_key_def)
  then have "card (\<Union> (op_keys ` set ?ops) - {sample_key}) < nat (als_capacity ?s)" by (simp only: st) simp
  moreover have "0 \<le> op_time x \<and> op_time x < 0 + als_ttl ?s" if "x \<in> set ?ops" for x
    using that unfolding st by (auto simp: DefaultAliasStoreTTL_def)
  moreover have "(5 :: int) < 0 + als_ttl ?s" unfolding st by (simp add: DefaultAliasStoreTTL_def)
  ultimately show ?thesis using alias_stable [OF sample_keys_stored(1) sample_resolves, of ?ops 5 "[]"] by simp
qed

theorem alias_store_refines_witness:
  "fst (Resolve sample_key 0 (replicate 16 0) (alias_run [] (NewAliasStore []))) = Inr ''00000000-0000-4000-8000-000000000000''"
  using alias_store_refines [OF sample_keys_stored(1), of 0 "replicate 16 0" "[]" "[]"] NewAliasStore_inv [of "[]"] sample_uuid
  by (auto simp: alias_run_def resolve_list_def dest: arg_cong [where f = fst])

theorem uuid_exact_witness: "length ''00000000-0000-4000-8000-000000000000'' = 36"
  using uuid_exact [OF sample_uuid] by blast

end
