(* ===== verification/Runtime_Snapshot.thy ===== *)
theory Runtime_Snapshot
  imports Provider_Compile
begin

text \<open>
  Package runtime, the immutable snapshots (\<open>internal/runtime/snapshot.go\<close>) and the request
  scan compiled with each of them (\<open>internal/runtime/scan_cache.go\<close>). The paths a patch plan
  requires and the scanner of package bodyfile are parameters of the environment.
\<close>

section \<open>Data\<close>

datatype AttemptPolicySource = AttemptPolicyDefault | AttemptPolicyProfile

record NormalAttemptPolicy =
  na_Policy :: AttemptPolicy
  na_Source :: AttemptPolicySource

definition defaultNormalAttemptPolicy :: NormalAttemptPolicy where
  "defaultNormalAttemptPolicy = \<lparr> na_Policy = DefaultAttemptPolicy, na_Source = AttemptPolicyDefault \<rparr>"

record CompiledAutoMode =
  ca_Mode :: string
  ca_configuredModel :: string
  ca_FixedTarget :: "CompiledFixedTarget option"

record ScanRequirements =
  sr_detectorPaths :: "string list"
  sr_rawMarkers :: "string list"

record RuntimeSnapshot =
  rs_revision :: u64
  rs_config :: Config
  rs_catalog :: Catalog
  rs_autoMode :: CompiledAutoMode
  rs_normalAttempts :: NormalAttemptPolicy
  rs_classifierAttempts :: AttemptPolicy
  rs_requestScan :: "string list" \<comment> \<open>the paths the compiled scan observes\<close>
  rs_created :: gotime

record scan_env =
  se_compile :: compile_env
  se_requiredPaths :: "string list \<Rightarrow> RequestType \<Rightarrow> string + string list" \<comment> \<open>\<open>Plan.RequiredPaths\<close> at the request stage\<close>
  se_scanSpec :: "string list \<Rightarrow> string list \<Rightarrow> string option" \<comment> \<open>error of building and compiling the scan\<close>
  se_requirements :: ScanRequirements

section \<open>Auto mode\<close>

definition compileAutoMode :: "compile_env \<Rightarrow> AutoModeConfig \<Rightarrow> compile_error + CompiledAutoMode" where
  "compileAutoMode env auto =
     (let auto = AutoMode_Normalize auto in
      case AutoMode_Validate (ce_go env) auto of
        Some err \<Rightarrow> Inl (SchemaError err)
      | None \<Rightarrow>
        case CompileAutoModeTarget env auto of
          Inl err \<Rightarrow> Inl (WrapError ''compile auto_mode.fixed_provider'' err)
        | Inr target \<Rightarrow>
            Inr \<lparr> ca_Mode = am_Mode auto, ca_configuredModel = am_Model auto, ca_FixedTarget = target \<rparr>)"

definition EffectiveClassifierModel :: "CompiledAutoMode \<Rightarrow> string" where
  "EffectiveClassifierModel a =
     (if ca_Mode a = AutoModeProviderPool \<or> ca_Mode a = AutoModeFixedProvider then ca_configuredModel a else '''')"

section \<open>The request scan\<close>

fun appendUniqueScanPaths :: "string list \<Rightarrow> string list \<Rightarrow> string list" where
  "appendUniqueScanPaths paths [] = paths"
| "appendUniqueScanPaths paths (path # additions) =
     appendUniqueScanPaths (if path \<in> set paths then paths else paths @ [path]) additions"

definition appendPlanRequestPaths ::
  "scan_env \<Rightarrow> string list \<Rightarrow> string list \<Rightarrow> RequestType \<Rightarrow> string + string list" where
  "appendPlanRequestPaths env paths plan requestType =
     map_sum (\<lambda>e. e) (appendUniqueScanPaths paths) (se_requiredPaths env plan requestType)"

fun scan_providers ::
  "scan_env \<Rightarrow> CompiledAutoMode \<Rightarrow> string list \<Rightarrow> CompiledProvider list \<Rightarrow> compile_error + string list" where
  "scan_providers env auto paths [] = Inr paths"
| "scan_providers env auto paths (item # items) =
     (if \<not> cp_Enabled item \<or> cp_Models item = [] then scan_providers env auto paths items
      else
        case appendPlanRequestPaths env paths (cp_Patches item) RequestTypeNormal of
          Inl err \<Rightarrow> Inl (WrapError (''compile provider '' @ strconv_Quote (ce_go (se_compile env)) (cp_ID item) @ '' normal request scan'') (CompileError err))
        | Inr paths \<Rightarrow>
            if ca_Mode auto \<noteq> AutoModeProviderPool \<or> \<not> SupportsModel item (EffectiveClassifierModel auto)
            then scan_providers env auto paths items
            else
              case appendPlanRequestPaths env paths (cp_Patches item) RequestTypeClassifier of
                Inl err \<Rightarrow> Inl (WrapError (''compile provider '' @ strconv_Quote (ce_go (se_compile env)) (cp_ID item) @ '' classifier request scan'') (CompileError err))
              | Inr paths \<Rightarrow> scan_providers env auto paths items)"

definition compileRequestScan :: "scan_env \<Rightarrow> Catalog \<Rightarrow> CompiledAutoMode \<Rightarrow> compile_error + string list" where
  "compileRequestScan env catalog auto =
     (let paths = appendUniqueScanPaths (sr_detectorPaths (se_requirements env)) [''/stream''] in
      case scan_providers env auto paths (cat_providers catalog) of
        Inl err \<Rightarrow> Inl err
      | Inr paths \<Rightarrow>
        case (case ca_FixedTarget auto of
                Some target \<Rightarrow>
                  if ca_Mode auto = AutoModeFixedProvider then
                    map_sum (\<lambda>err. WrapError ''compile fixed target classifier request scan'' (CompileError err)) (\<lambda>p. p)
                      (appendPlanRequestPaths env paths (ft_Patches target) RequestTypeClassifier)
                  else Inr paths
              | None \<Rightarrow> Inr paths) of
          Inl err \<Rightarrow> Inl err
        | Inr paths \<Rightarrow>
          case se_scanSpec env paths (sr_rawMarkers (se_requirements env)) of
            Some err \<Rightarrow> Inl (CompileError err)
          | None \<Rightarrow> Inr paths)"

section \<open>Snapshots\<close>

definition newSnapshotWithAuto ::
  "scan_env \<Rightarrow> RuntimeSnapshot option \<Rightarrow> u64 \<Rightarrow> Config \<Rightarrow> Catalog \<Rightarrow> CompiledAutoMode \<Rightarrow> NormalAttemptPolicy \<Rightarrow>
     AttemptPolicy \<Rightarrow> gotime \<Rightarrow> compile_error + RuntimeSnapshot" where
  "newSnapshotWithAuto env previous revision cfg catalog autoMode normal classifierAttempts now =
     (case AttemptPolicy_Validate (na_Policy normal) of
        Some err \<Rightarrow> Inl (CompileError err)
      | None \<Rightarrow>
        case compileRequestScan env catalog autoMode of
          Inl err \<Rightarrow> Inl err
        | Inr requestScan \<Rightarrow>
            Inr \<lparr> rs_revision = revision, rs_config = cfg,
                  rs_catalog = WithHealthEpochs catalog (map_option rs_catalog previous) revision,
                  rs_autoMode = autoMode, rs_normalAttempts = normal, rs_classifierAttempts = classifierAttempts,
                  rs_requestScan = requestScan, rs_created = now \<rparr>)"

section \<open>Lemmas\<close>

lemma appendUniqueScanPaths_set [simp]: "set (appendUniqueScanPaths paths additions) = set paths \<union> set additions"
  by (induction paths additions rule: appendUniqueScanPaths.induct) auto

lemma appendUniqueScanPaths_distinct: "distinct paths \<Longrightarrow> distinct (appendUniqueScanPaths paths additions)"
  by (induction paths additions rule: appendUniqueScanPaths.induct) auto

lemma appendUniqueScanPaths_prefix: "\<exists>new. appendUniqueScanPaths paths additions = paths @ new"
proof (induction paths additions rule: appendUniqueScanPaths.induct)
  case (2 paths path additions)
  then show ?case by (cases "path \<in> set paths") auto
qed simp

lemma newSnapshot_fields:
  assumes "newSnapshotWithAuto env previous revision cfg catalog autoMode normal classifierAttempts now = Inr s"
  shows "rs_revision s = revision" "rs_config s = cfg" "rs_normalAttempts s = normal"
    "rs_classifierAttempts s = classifierAttempts" "rs_autoMode s = autoMode" "rs_created s = now"
    "rs_catalog s = WithHealthEpochs catalog (map_option rs_catalog previous) revision"
    "compileRequestScan env catalog autoMode = Inr (rs_requestScan s)"
    "AttemptPolicy_Validate (na_Policy normal) = None"
  using assms by (auto simp: newSnapshotWithAuto_def split: option.splits sum.splits)

end
