(* ===== verification/Runtime_Manager.thy ===== *)
theory Runtime_Manager
  imports Runtime_Snapshot
begin

text \<open>
  Package runtime, the manager that owns the configuration (\<open>internal/runtime/manager.go\<close>,
  \<open>internal/runtime/provider_order.go\<close>) over the configuration files of
  \<open>internal/config/store.go\<close>. The mutex makes every public method one step; the state is
  passed through explicitly.

  A configuration file is modelled by the configuration it decodes to: a write is atomic
  (temporary file and rename), so it either fails and leaves the file as it was or replaces
  it. Everything outside the process answers from a script: \<open>w_calls\<close> counts the calls made so
  far and the reply to call \<open>n\<close> is read at \<open>n\<close>, so that a theorem for every script covers every
  sequence of failures of the file system, the harness file and the clock.
\<close>

section \<open>Data\<close>

record HarnessValidation =
  hv_State :: string
  hv_Reason :: string
  hv_ResolvedPath :: string

definition zeroValidation :: HarnessValidation where
  "zeroValidation = \<lparr> hv_State = '''', hv_Reason = '''', hv_ResolvedPath = '''' \<rparr>"

record runtime_env =
  re_scan :: scan_env
  re_etag :: "Config \<Rightarrow> string" \<comment> \<open>SHA-256 of the JSON encoding, quoted\<close>
  re_save :: "nat \<Rightarrow> string option" \<comment> \<open>error of writing a configuration file\<close>
  re_load :: "nat \<Rightarrow> string option" \<comment> \<open>error of reading the pending file\<close>
  re_promote :: "nat \<Rightarrow> string option" \<comment> \<open>error of renaming the pending file\<close>
  re_remove :: "nat \<Rightarrow> string option" \<comment> \<open>error of removing the pending file\<close>
  re_check :: "nat \<Rightarrow> Config \<Rightarrow> HarnessValidation \<times> string option" \<comment> \<open>\<open>HarnessValidator.Check\<close>\<close>
  re_prepare :: "nat \<Rightarrow> Config \<Rightarrow> Config \<Rightarrow> bool \<times> HarnessValidation \<times> string option"
    \<comment> \<open>\<open>PrepareTelemetry\<close>; the flag tells whether a file update was returned\<close>
  re_commit :: "nat \<Rightarrow> string option"
  re_rollback :: "nat \<Rightarrow> string option"
  re_preflight :: "nat \<Rightarrow> Config \<Rightarrow> Config \<Rightarrow> string option"
  re_now :: "nat \<Rightarrow> gotime"

text \<open>
  The files, and as a history of the disk what they contained after each change, the latest first:
  a process that is stopped leaves one of these contents behind.
\<close>

record files =
  w_calls :: nat
  w_active :: Config
  w_pending :: "Config option"
  w_history :: "(Config \<times> Config option) list"

definition written :: "files \<Rightarrow> files" where
  "written f = f\<lparr>w_history := (w_active f, w_pending f) # w_history f\<rparr>"

record ApplyResult =
  ar_Revision :: u64
  ar_Applied :: bool
  ar_RestartRequired :: bool
  ar_Restarting :: bool
  ar_ListenAddr :: string

record RestartStatus =
  rt_State :: string
  rt_InProgress :: bool
  rt_Pending :: bool
  rt_RequestedAt :: "gotime option"
  rt_LastError :: string

definition idleStatus :: RestartStatus where
  "idleStatus = \<lparr> rt_State = ''idle'', rt_InProgress = False, rt_Pending = False, rt_RequestedAt = None, rt_LastError = '''' \<rparr>"

datatype runtime_error =
  ErrRestartInProgress | ErrRestartUnavailable | ErrRestartNotPending | ErrConfigChanged | ErrPreconditionRequired
| ConfigFailed config_error | CompileFailed compile_error | HarnessFailed string
| PersistFailed string | PendingFailed string | ActiveProfileStateFailed string | PreflightFailed string
| MutatorFailed string | Joined "runtime_error list"

record Manager =
  mg_revision :: u64
  mg_current :: RuntimeSnapshot
  mg_hasHarness :: bool \<comment> \<open>the validator and the updater, supplied together\<close>
  mg_hasRestart :: bool
  mg_invalidationReason :: string
  mg_activeProfileInvalid :: bool
  mg_classifierAttempts :: AttemptPolicy
  mg_restartStatus :: RestartStatus
  mg_restartTriggered :: bool
  mg_files :: files

section \<open>Calls to the outside\<close>

definition tick :: "Manager \<Rightarrow> nat \<times> Manager" where
  "tick m = (w_calls (mg_files m), m\<lparr>mg_files := (mg_files m)\<lparr>w_calls := Suc (w_calls (mg_files m))\<rparr>\<rparr>)"

definition now :: "runtime_env \<Rightarrow> Manager \<Rightarrow> gotime \<times> Manager" where
  "now env m = (let (n, m) = tick m in (re_now env n, m))"

text \<open>\<open>Store.Save\<close> and \<open>Store.SavePending\<close>: \<open>Marshal\<close> validates before anything is written.\<close>

definition Store_Save :: "runtime_env \<Rightarrow> Config \<Rightarrow> Manager \<Rightarrow> string option \<times> Manager" where
  "Store_Save env cfg m =
     (let (n, m) = tick m in
      case Config_Validate (ce_go (se_compile (re_scan env))) cfg of
        Some err \<Rightarrow> (Some (Error_text err), m)
      | None \<Rightarrow>
        case re_save env n of
          Some err \<Rightarrow> (Some err, m)
        | None \<Rightarrow> (None, m\<lparr>mg_files := written ((mg_files m)\<lparr>w_active := Config_Normalize cfg\<rparr>)\<rparr>))"

definition Store_SavePending :: "runtime_env \<Rightarrow> Config \<Rightarrow> Manager \<Rightarrow> string option \<times> Manager" where
  "Store_SavePending env cfg m =
     (let (n, m) = tick m in
      case Config_Validate (ce_go (se_compile (re_scan env))) cfg of
        Some err \<Rightarrow> (Some (Error_text err), m)
      | None \<Rightarrow>
        case re_save env n of
          Some err \<Rightarrow> (Some err, m)
        | None \<Rightarrow> (None, m\<lparr>mg_files := written ((mg_files m)\<lparr>w_pending := Some (Config_Normalize cfg)\<rparr>)\<rparr>))"

definition Store_LoadPending :: "runtime_env \<Rightarrow> Manager \<Rightarrow> (string + Config) \<times> Manager" where
  "Store_LoadPending env m =
     (let (n, m) = tick m in
      case w_pending (mg_files m) of
        None \<Rightarrow> (Inl ''file does not exist'', m)
      | Some cfg \<Rightarrow> (case re_load env n of Some err \<Rightarrow> (Inl err, m) | None \<Rightarrow> (Inr cfg, m)))"

definition Store_PromotePending :: "runtime_env \<Rightarrow> Manager \<Rightarrow> string option \<times> Manager" where
  "Store_PromotePending env m =
     (let (loaded, m) = Store_LoadPending env m in
      case loaded of
        Inl err \<Rightarrow> (Some err, m)
      | Inr cfg \<Rightarrow>
        let (n, m) = tick m in
        case re_promote env n of
          Some err \<Rightarrow> (Some err, m)
        | None \<Rightarrow> (None, m\<lparr>mg_files := written ((mg_files m)\<lparr>w_active := cfg, w_pending := None\<rparr>)\<rparr>))"

definition Store_RemovePending :: "runtime_env \<Rightarrow> Manager \<Rightarrow> string option \<times> Manager" where
  "Store_RemovePending env m =
     (let (n, m) = tick m in
      case w_pending (mg_files m) of
        None \<Rightarrow> (None, m)
      | Some _ \<Rightarrow>
        (case re_remove env n of
           Some err \<Rightarrow> (Some err, m)
         | None \<Rightarrow> (None, m\<lparr>mg_files := written ((mg_files m)\<lparr>w_pending := None\<rparr>)\<rparr>)))"

definition checkHarness :: "runtime_env \<Rightarrow> Config \<Rightarrow> Manager \<Rightarrow> (HarnessValidation \<times> runtime_error option) \<times> Manager" where
  "checkHarness env cfg m =
     (if mg_hasHarness m then
        let (n, m) = tick m; (check, err) = re_check env n cfg in ((check, map_option HarnessFailed err), m)
      else if active_id cfg \<noteq> '''' then
        ((zeroValidation, Some (ActiveProfileStateFailed ''validator is required'')), m)
      else ((zeroValidation\<lparr>hv_State := ''inactive''\<rparr>, None), m))"

section \<open>The attempt budget\<close>

text \<open>\<open>normalAttempts\<close>: the profile's budget is trusted only while the activation guard is off.\<close>

definition normalAttempts :: "Config \<Rightarrow> bool \<Rightarrow> NormalAttemptPolicy" where
  "normalAttempts cfg invalid =
     (if \<not> invalid \<and> active_id cfg \<noteq> '''' then
        (case findProfile (cc_Profiles (ha_ClaudeCode (cfg_Harnesses cfg))) (active_id cfg) of
           Some p \<Rightarrow>
             let p = Profile_Normalize p in
             \<lparr> na_Policy = \<lparr> ap_MaxAttempts = pr_MaxAttempts p, ap_StickyNoCooldownAttempts = pr_StickyNoCooldownAttempts p \<rparr>,
               na_Source = AttemptPolicyProfile \<rparr>
         | None \<Rightarrow> defaultNormalAttemptPolicy)
      else defaultNormalAttemptPolicy)"

definition invalidatePolicyLocked :: "runtime_env \<Rightarrow> Manager \<Rightarrow> Manager" where
  "invalidatePolicyLocked env m =
     (let m = m\<lparr>mg_activeProfileInvalid := True\<rparr>;
          current = mg_current m
      in if rs_normalAttempts current \<noteq> defaultNormalAttemptPolicy then
           let m = m\<lparr>mg_revision := mg_revision m + 1\<rparr>;
               (created, m) = now env m
           in m\<lparr>mg_current := current\<lparr>rs_revision := mg_revision m, rs_created := created,
                                   rs_normalAttempts := defaultNormalAttemptPolicy\<rparr>\<rparr>
         else m)"

definition HarnessReasonGatewayMissing :: string where "HarnessReasonGatewayMissing = ''gateway_not_configured''"
definition HarnessReasonRecoveryFailed :: string where "HarnessReasonRecoveryFailed = ''telemetry_recovery_failed''"

definition rememberHarnessInvalidation :: "Config \<Rightarrow> Config \<Rightarrow> Manager \<Rightarrow> Manager" where
  "rememberHarnessInvalidation previous next m =
     (if active_id next \<noteq> '''' then m\<lparr>mg_invalidationReason := ''''\<rparr>
      else if active_id previous \<noteq> '''' \<and> au_GatewayKey (cfg_Auth previous) \<noteq> '''' \<and> au_GatewayKey (cfg_Auth next) = ''''
        then m\<lparr>mg_invalidationReason := HarnessReasonGatewayMissing\<rparr>
      else m)"

definition serviceRestartRequired :: "ServiceConfig \<Rightarrow> ServiceConfig \<Rightarrow> bool" where
  "serviceRestartRequired current next \<longleftrightarrow>
     sv_ListenAddr current \<noteq> sv_ListenAddr next \<or> sv_LogMaxBytes current \<noteq> sv_LogMaxBytes next"

section \<open>Recovery of a failed harness update\<close>

text \<open>The part that revokes an activation that could not be restored.\<close>

definition revokeActivation ::
  "runtime_env \<Rightarrow> runtime_error \<Rightarrow> runtime_error option \<Rightarrow> HarnessValidation \<Rightarrow> runtime_error option \<Rightarrow> Manager \<Rightarrow>
     runtime_error \<times> Manager" where
  "revokeActivation env cause restoreErr verdict checkErr m =
     (let m = m\<lparr>mg_activeProfileInvalid := True,
                mg_invalidationReason := (if checkErr \<noteq> None \<or> hv_Reason verdict = [] then HarnessReasonRecoveryFailed
                                          else hv_Reason verdict)\<rparr>;
          current = mg_current m;
          cfg = set_active_id [] (rs_config current);
          (saved, m) = Store_Save env cfg m;
          others = case_option [] (\<lambda>e. [e]) restoreErr @ case_option [] (\<lambda>e. [e]) checkErr
      in case saved of
           Some err \<Rightarrow> (Joined (cause # others @ [ActiveProfileStateFailed err]), invalidatePolicyLocked env m)
         | None \<Rightarrow>
             let m = m\<lparr>mg_revision := mg_revision m + 1\<rparr>;
                 (created, m) = now env m
             in (Joined (cause # others @ [ActiveProfileStateFailed []]),
                 m\<lparr>mg_current := current\<lparr>rs_revision := mg_revision m, rs_created := created, rs_config := cfg,
                                       rs_normalAttempts := defaultNormalAttemptPolicy\<rparr>\<rparr>))"

definition recoverHarnessUpdateLocked :: "runtime_env \<Rightarrow> runtime_error \<Rightarrow> Manager \<Rightarrow> runtime_error \<times> Manager" where
  "recoverHarnessUpdateLocked env cause m =
     (let (n, m) = tick m;
          restoreErr = map_option HarnessFailed (re_rollback env n);
          ((check, checkErr), m) = checkHarness env (rs_config (mg_current m)) m
      in if restoreErr = None \<and> checkErr = None \<and> hv_State check = ''in_sync'' then (cause, m)
         else revokeActivation env cause restoreErr check checkErr m)"

section \<open>Applying a configuration\<close>

abbreviation compile_of :: "runtime_env \<Rightarrow> compile_env" where
  "compile_of env \<equiv> se_compile (re_scan env)"

abbreviation go_of :: "runtime_env \<Rightarrow> go_env" where
  "go_of env \<equiv> ce_go (compile_of env)"

text \<open>
  The harness check of \<open>applyValidatedLocked\<close>, run when it is forced or the harness settings
  change: whether a file update was prepared, the verdict, an error, and what it makes of the
  candidate and of the activation guard.
\<close>

definition harness_phase ::
  "runtime_env \<Rightarrow> bool \<Rightarrow> bool \<Rightarrow> Config \<Rightarrow> Config \<Rightarrow> Manager \<Rightarrow>
     (bool \<times> HarnessValidation \<times> runtime_error option) \<times> Manager" where
  "harness_phase env checked telemetry current next m =
     (if \<not> checked then ((False, zeroValidation, None), m)
      else if telemetry then
        let (n, m) = tick m; (fileUpdate, check, err) = re_prepare env n current next
        in ((fileUpdate, check, map_option HarnessFailed err), m)
      else let ((check, err), m) = checkHarness env next m in ((False, check, err), m))"

text \<open>
  The branch that publishes without a restart: the candidate snapshot is compiled, the harness
  file committed, and \<open>persist\<close> saves the configuration and makes the snapshot current.
\<close>

definition persist ::
  "runtime_env \<Rightarrow> Config \<Rightarrow> RuntimeSnapshot \<Rightarrow> bool \<Rightarrow> bool \<Rightarrow> bool \<Rightarrow> Manager \<Rightarrow>
     (runtime_error + ApplyResult) \<times> Manager" where
  "persist env next nextSnapshot guard invalidated fileUpdate m =
     (let currentConfig = rs_config (mg_current m);
          (saveErr, m) = (if currentConfig \<noteq> next then Store_Save env next m else (None, m)) in
      case saveErr of
        Some err \<Rightarrow>
          if fileUpdate then let (e, m) = recoverHarnessUpdateLocked env (PersistFailed err) m in (Inl e, m)
          else if invalidated then (Inl (ActiveProfileStateFailed err), invalidatePolicyLocked env m)
          else (Inl (PersistFailed err), m)
      | None \<Rightarrow>
        let m = m\<lparr>mg_revision := mg_revision m + 1\<rparr>;
            m = rememberHarnessInvalidation currentConfig next m;
            m = m\<lparr>mg_current := nextSnapshot, mg_activeProfileInvalid := guard, mg_restartStatus := idleStatus\<rparr>
        in (Inr \<lparr> ar_Revision = mg_revision m, ar_Applied = True, ar_RestartRequired = False, ar_Restarting = False,
                  ar_ListenAddr = sv_ListenAddr (cfg_Service next) \<rparr>, m))"

definition publish ::
  "runtime_env \<Rightarrow> Config \<Rightarrow> Catalog \<Rightarrow> CompiledAutoMode \<Rightarrow> NormalAttemptPolicy \<Rightarrow> bool \<Rightarrow> bool \<Rightarrow> bool \<Rightarrow> Manager \<Rightarrow>
     (runtime_error + ApplyResult) \<times> Manager" where
  "publish env next catalog autoMode normal guard invalidated fileUpdate m =
     (let (created, m) = now env m
      in case newSnapshotWithAuto (re_scan env) (Some (mg_current m)) (mg_revision m + 1) next catalog autoMode normal
                (mg_classifierAttempts m) created of
           Inl err \<Rightarrow> (Inl (CompileFailed err), m)
         | Inr nextSnapshot \<Rightarrow>
           let (commitErr, m) = (if fileUpdate then let (n, m) = tick m in (re_commit env n, m) else (None, m)) in
           case commitErr of
             Some err \<Rightarrow> let (e, m) = recoverHarnessUpdateLocked env (HarnessFailed err) m in (Inl e, m)
           | None \<Rightarrow> persist env next nextSnapshot guard invalidated fileUpdate m)"

text \<open>The branch that writes the pending file and waits for a restart.\<close>

definition schedule_restart :: "runtime_env \<Rightarrow> Config \<Rightarrow> Manager \<Rightarrow> (runtime_error + ApplyResult) \<times> Manager" where
  "schedule_restart env next m =
     (let (n, m) = tick m in
      case re_preflight env n (rs_config (mg_current m)) next of
        Some err \<Rightarrow> (Inl (PreflightFailed err), m)
      | None \<Rightarrow>
        let (saved, m) = Store_SavePending env next m in
        case saved of
          Some err \<Rightarrow> (Inl (PendingFailed err), m)
        | None \<Rightarrow>
          let m = m\<lparr>mg_restartTriggered := False\<rparr>;
              (requestedAt, m) = now env m;
              m = m\<lparr>mg_restartStatus := \<lparr> rt_State = ''pending'', rt_InProgress = True, rt_Pending = True,
                                          rt_RequestedAt = Some requestedAt, rt_LastError = '''' \<rparr>\<rparr>
          in (Inr \<lparr> ar_Revision = rs_revision (mg_current m), ar_Applied = False, ar_RestartRequired = True,
                    ar_Restarting = True, ar_ListenAddr = sv_ListenAddr (cfg_Service next) \<rparr>, m))"

text \<open>
  The decision after the harness check: an active profile that is not in sync is dropped from
  the candidate, and the guard that will be in force with it is determined.
\<close>

definition finishApply ::
  "runtime_env \<Rightarrow> bool \<Rightarrow> bool \<Rightarrow> bool \<Rightarrow> HarnessValidation \<Rightarrow> Config \<Rightarrow> Catalog \<Rightarrow> CompiledAutoMode \<Rightarrow> Manager \<Rightarrow>
     (runtime_error + ApplyResult) \<times> Manager" where
  "finishApply env checked restartRequired fileUpdate verdict next catalog autoMode m =
     (let current = mg_current m;
          active = (checked \<and> active_id next \<noteq> []);
          invalidated = (active \<and> hv_State verdict \<noteq> ''in_sync'');
          next = (if invalidated then set_active_id [] next else next);
          guard = (if active then invalidated else mg_activeProfileInvalid m);
          normal = normalAttempts next guard
      in if rs_config current = next \<and> rs_normalAttempts current = normal then
           (Inr \<lparr> ar_Revision = rs_revision current, ar_Applied = False, ar_RestartRequired = False,
                  ar_Restarting = False, ar_ListenAddr = sv_ListenAddr (cfg_Service (rs_config current)) \<rparr>,
            m\<lparr>mg_activeProfileInvalid := guard\<rparr>)
         else if \<not> restartRequired then publish env next catalog autoMode normal guard invalidated fileUpdate m
         else schedule_restart env next m)"

definition applyValidatedLocked ::
  "runtime_env \<Rightarrow> Config \<Rightarrow> bool \<Rightarrow> Manager \<Rightarrow> (runtime_error + ApplyResult) \<times> HarnessValidation \<times> Manager" where
  "applyValidatedLocked env next forceCheck m =
     (if rt_InProgress (mg_restartStatus m) then (Inl ErrRestartInProgress, zeroValidation, m)
      else
      let next = Config_Normalize next in
      case Config_Validate (go_of env) next of
        Some err \<Rightarrow> (Inl (ConfigFailed err), zeroValidation, m)
      | None \<Rightarrow>
      case CompileCatalog (compile_of env) (cfg_Providers next) of
        Inl err \<Rightarrow> (Inl (CompileFailed err), zeroValidation, m)
      | Inr catalog \<Rightarrow>
      case compileAutoMode (compile_of env) (cfg_AutoMode next) of
        Inl err \<Rightarrow> (Inl (CompileFailed err), zeroValidation, m)
      | Inr autoMode \<Rightarrow>
      let currentConfig = rs_config (mg_current m);
          restartRequired = serviceRestartRequired (cfg_Service currentConfig) (cfg_Service next);
          telemetry = (\<not> restartRequired \<and> ActiveProfileChange currentConfig next = ActiveTelemetryChanged);
          checked = (forceCheck \<or> cfg_Harnesses currentConfig \<noteq> cfg_Harnesses next);
          ((fileUpdate, verdict, err), m) = harness_phase env checked telemetry currentConfig next m
      in case err of
           Some err \<Rightarrow> (Inl err, verdict, m)
         | None \<Rightarrow>
             let (r, m) = finishApply env checked restartRequired fileUpdate verdict next catalog autoMode m
             in (r, verdict, m))"

definition applyLocked :: "runtime_env \<Rightarrow> Config \<Rightarrow> Manager \<Rightarrow> (runtime_error + ApplyResult) \<times> Manager" where
  "applyLocked env next m = (let (r, _, m) = applyValidatedLocked env next False m in (r, m))"

section \<open>Public configuration operations\<close>

definition matchesConfigETag :: "string \<Rightarrow> string \<Rightarrow> bool" where
  "matchesConfigETag condition tag =
     (if TrimSpace condition = ''*'' then True
      else list_ex (\<lambda>candidate. TrimSpace candidate = tag) (split_on CHR '','' condition))"

definition ConfigETag :: "runtime_env \<Rightarrow> RuntimeSnapshot \<Rightarrow> string" where
  "ConfigETag env s = re_etag env (rs_config s)"

definition applyClientLocked :: "runtime_env \<Rightarrow> Config \<Rightarrow> Manager \<Rightarrow> (runtime_error + ApplyResult) \<times> Manager" where
  "applyClientLocked env next m =
     (case Config_Update.ApplyClientUpdate (go_of env) (rs_config (mg_current m)) next of
        Inl err \<Rightarrow> (Inl (ConfigFailed err), m)
      | Inr prepared \<Rightarrow> applyLocked env prepared m)"

definition ApplyClientUpdateIfMatch ::
  "runtime_env \<Rightarrow> ClientConfigUpdate \<Rightarrow> string \<Rightarrow> Manager \<Rightarrow> (runtime_error + ApplyResult) \<times> Manager" where
  "ApplyClientUpdateIfMatch env update condition m =
     (if rt_InProgress (mg_restartStatus m) then (Inl ErrRestartInProgress, m)
      else if condition \<noteq> '''' \<and> \<not> matchesConfigETag condition (ConfigETag env (mg_current m)) then (Inl ErrConfigChanged, m)
      else
        case ApplyClientRequest (go_of env) (rs_config (mg_current m)) update of
          Inl err \<Rightarrow> (Inl (ConfigFailed err), m)
        | Inr prepared \<Rightarrow> applyLocked env prepared m)"

text \<open>The mutator is the caller's function: a new configuration or the text of its error.\<close>

definition UpdateIfMatch ::
  "runtime_env \<Rightarrow> string \<Rightarrow> (Config \<Rightarrow> string + Config) \<Rightarrow> Manager \<Rightarrow> (runtime_error + ApplyResult) \<times> Manager" where
  "UpdateIfMatch env condition mutator m =
     (if rt_InProgress (mg_restartStatus m) then (Inl ErrRestartInProgress, m)
      else if condition \<noteq> '''' \<and> \<not> matchesConfigETag condition (ConfigETag env (mg_current m)) then (Inl ErrConfigChanged, m)
      else
        let current = rs_config (mg_current m) in
        case mutator current of
          Inl err \<Rightarrow> (Inl (MutatorFailed err), m)
        | Inr next \<Rightarrow>
          case ApplyServerUpdate (go_of env) current next of
            Inl err \<Rightarrow> (Inl (ConfigFailed err), m)
          | Inr prepared \<Rightarrow> applyLocked env prepared m)"

definition Manager_ReorderProviders ::
  "runtime_env \<Rightarrow> string list \<Rightarrow> string \<Rightarrow> Manager \<Rightarrow> (runtime_error + ApplyResult) \<times> Manager" where
  "Manager_ReorderProviders env ids condition m =
     (if rt_InProgress (mg_restartStatus m) then (Inl ErrRestartInProgress, m)
      else if condition = '''' then (Inl ErrPreconditionRequired, m)
      else if condition \<noteq> ConfigETag env (mg_current m) then (Inl ErrConfigChanged, m)
      else
        let next = rs_config (mg_current m) in
        case ReorderProviders (cfg_Providers next) ids of
          Inl err \<Rightarrow> (Inl (ConfigFailed err), m)
        | Inr providers \<Rightarrow> applyLocked env (next\<lparr>cfg_Providers := providers\<rparr>) m)"

section \<open>Harness transactions\<close>

record HarnessMutation =
  hm_validation :: "HarnessValidation option"
  hm_checkedRevision :: u64

definition setActiveProfileID ::
  "runtime_env \<Rightarrow> string \<Rightarrow> HarnessMutation \<Rightarrow> Manager \<Rightarrow> runtime_error option \<times> HarnessMutation \<times> Manager" where
  "setActiveProfileID env i t m =
     (if rt_InProgress (mg_restartStatus m) then (Some ErrRestartInProgress, t, m)
      else
        case WithActiveProfileID (go_of env) (rs_config (mg_current m)) i of
          Inl err \<Rightarrow> (Some (ConfigFailed err), t, m)
        | Inr next \<Rightarrow>
          let (r, check, m) = applyValidatedLocked env next True m in
          case r of
            Inl err \<Rightarrow> (Some err, t, m)
          | Inr _ \<Rightarrow>
            let t = \<lparr> hm_validation = Some check, hm_checkedRevision = mg_revision m \<rparr> in
            if i \<noteq> '''' \<and> hv_State check \<noteq> ''in_sync'' then (Some (ActiveProfileStateFailed (hv_Reason check)), t, m)
            else (None, t, m))"

definition UpdateHarness ::
  "runtime_env \<Rightarrow> (HarnessesConfig \<Rightarrow> string + HarnessesConfig) \<Rightarrow> HarnessMutation \<Rightarrow> Manager \<Rightarrow>
     runtime_error option \<times> HarnessMutation \<times> Manager" where
  "UpdateHarness env mutator t m =
     (if rt_InProgress (mg_restartStatus m) then (Some ErrRestartInProgress, t, m)
      else
        let current = rs_config (mg_current m) in
        case mutator (cfg_Harnesses current) of
          Inl err \<Rightarrow> (Some (MutatorFailed err), t, m)
        | Inr harnesses \<Rightarrow>
          case ApplyServerUpdate (go_of env) current (current\<lparr>cfg_Harnesses := harnesses\<rparr>) of
            Inl err \<Rightarrow> (Some (ConfigFailed err), t, m)
          | Inr prepared \<Rightarrow>
            let (r, check, m) = applyValidatedLocked env prepared True m in
            case r of
              Inl err \<Rightarrow> (Some err, t, m)
            | Inr _ \<Rightarrow> (None, \<lparr> hm_validation = Some check, hm_checkedRevision = mg_revision m \<rparr>, m))"

definition InvalidateActiveProfile ::
  "runtime_env \<Rightarrow> HarnessMutation \<Rightarrow> Manager \<Rightarrow> runtime_error option \<times> HarnessMutation \<times> Manager" where
  "InvalidateActiveProfile env t m = setActiveProfileID env '''' t (invalidatePolicyLocked env m)"

definition ReconcileActiveProfile ::
  "runtime_env \<Rightarrow> HarnessMutation \<Rightarrow> Manager \<Rightarrow> (runtime_error + HarnessValidation) \<times> HarnessMutation \<times> Manager" where
  "ReconcileActiveProfile env t m =
     (let (err, t, m) =
            (if hm_validation t = None \<or> hm_checkedRevision t \<noteq> mg_revision m then
               let (r, check, m) = applyValidatedLocked env (rs_config (mg_current m)) True m in
               case r of
                 Inl err \<Rightarrow> (Some err, t, m)
               | Inr _ \<Rightarrow> (None, \<lparr> hm_validation = Some check, hm_checkedRevision = mg_revision m \<rparr>, m)
             else (None, t, m))
      in case err of
           Some err \<Rightarrow> (Inl err, t, m)
         | None \<Rightarrow>
           let check = the (hm_validation t) in
           (Inr (if hv_State check = ''inactive'' \<and> hv_Reason check = '''' then check\<lparr>hv_Reason := mg_invalidationReason m\<rparr> else check),
            t, m))"

section \<open>Restart\<close>

definition restartFailedLocked :: "runtime_env \<Rightarrow> string option \<Rightarrow> Manager \<Rightarrow> string option \<times> Manager" where
  "restartFailedLocked env cause m =
     (let (removeErr, m) = Store_RemovePending env m;
          message = (case cause of None \<Rightarrow> ''restart failed'' | Some c \<Rightarrow> c);
          message = (case removeErr of None \<Rightarrow> message | Some e \<Rightarrow> message @ ''; remove pending: '' @ e)
      in (removeErr,
          m\<lparr>mg_restartTriggered := False,
            mg_restartStatus := \<lparr> rt_State = ''failed'', rt_InProgress = (removeErr \<noteq> None), rt_Pending = (removeErr \<noteq> None),
                                  rt_RequestedAt = None, rt_LastError = message \<rparr>\<rparr>))"

text \<open>
  \<open>PrepareRestart\<close> reserves the transaction; the starter it returns runs the restart function
  later, whose outcome is the call of \<open>RestartFailed\<close> or \<open>RestartSucceeded\<close>.
\<close>

datatype starter = NoStart | StartRestart

definition PrepareRestart :: "runtime_env \<Rightarrow> Manager \<Rightarrow> (runtime_error + starter) \<times> Manager" where
  "PrepareRestart env m =
     (if \<not> rt_InProgress (mg_restartStatus m) \<or> \<not> rt_Pending (mg_restartStatus m) then (Inl ErrRestartNotPending, m)
      else if mg_restartTriggered m then (Inr NoStart, m)
      else if \<not> mg_hasRestart m then
        (Inl ErrRestartUnavailable, snd (restartFailedLocked env (Some ''restart is not configured'') m))
      else (Inr StartRestart,
            m\<lparr>mg_restartTriggered := True, mg_restartStatus := (mg_restartStatus m)\<lparr>rt_State := ''restarting''\<rparr>\<rparr>))"

definition RestartSucceeded :: "runtime_env \<Rightarrow> Manager \<Rightarrow> runtime_error option \<times> Manager" where
  "RestartSucceeded env m =
     (if \<not> rt_InProgress (mg_restartStatus m) \<or> \<not> rt_Pending (mg_restartStatus m) then (Some ErrRestartNotPending, m)
      else
      let (loaded, m) = Store_LoadPending env m in
      case loaded of
        Inl err \<Rightarrow> (Some (PendingFailed err), snd (restartFailedLocked env (Some err) m))
      | Inr pending \<Rightarrow>
      case CompileCatalog (compile_of env) (cfg_Providers pending) of
        Inl err \<Rightarrow> (Some (CompileFailed err), snd (restartFailedLocked env (Some (compile_error_text err)) m))
      | Inr catalog \<Rightarrow>
      case compileAutoMode (compile_of env) (cfg_AutoMode pending) of
        Inl err \<Rightarrow> (Some (CompileFailed err), snd (restartFailedLocked env (Some (compile_error_text err)) m))
      | Inr autoMode \<Rightarrow>
      let normal = normalAttempts pending (mg_activeProfileInvalid m);
          (created, m) = now env m
      in case newSnapshotWithAuto (re_scan env) (Some (mg_current m)) (mg_revision m + 1) pending catalog autoMode normal
                (mg_classifierAttempts m) created of
           Inl err \<Rightarrow> (Some (CompileFailed err), snd (restartFailedLocked env (Some (compile_error_text err)) m))
         | Inr nextSnapshot \<Rightarrow>
           let (promoted, m) = Store_PromotePending env m in
           case promoted of
             Some err \<Rightarrow> (Some (PendingFailed err), snd (restartFailedLocked env (Some err) m))
           | None \<Rightarrow>
             let m = m\<lparr>mg_revision := mg_revision m + 1\<rparr>;
                 m = rememberHarnessInvalidation (rs_config (mg_current m)) pending m
             in (None, m\<lparr>mg_current := nextSnapshot, mg_restartTriggered := False, mg_restartStatus := idleStatus\<rparr>))"

section \<open>Start\<close>

text \<open>
  \<open>NewManager\<close> on the initial configuration, with the options that matter: whether a
  validator, an updater and a restart function are supplied, the classifier budget (\<open>None\<close> is
  the zero value), the error of an earlier restart and whether a pending file survived.
\<close>

definition NewManager ::
  "runtime_env \<Rightarrow> Config \<Rightarrow> bool \<Rightarrow> bool \<Rightarrow> bool \<Rightarrow> AttemptPolicy option \<Rightarrow> string option \<Rightarrow> bool \<Rightarrow> files \<Rightarrow>
     runtime_error + Manager" where
  "NewManager env initial hasValidator hasUpdater hasRestart classifier initialError initialPending disk =
     (let initial = Config_Normalize initial in
      case Config_Validate (go_of env) initial of
        Some err \<Rightarrow> Inl (ConfigFailed err)
      | None \<Rightarrow>
      case ce_contextError (compile_of env) of
        Some err \<Rightarrow> Inl (CompileFailed (WrapError ''runtime context'' (CompileError err)))
      | None \<Rightarrow>
      if hasValidator \<noteq> hasUpdater
        then Inl (HarnessFailed ''harness validator and updater must be supplied together'')
      else if active_id initial \<noteq> [] \<and> \<not> hasValidator
        then Inl (HarnessFailed ''active harness profile requires a validator and updater'')
      else
      case CompileCatalog (compile_of env) (cfg_Providers initial) of
        Inl err \<Rightarrow> Inl (CompileFailed err)
      | Inr catalog \<Rightarrow>
      case compileAutoMode (compile_of env) (cfg_AutoMode initial) of
        Inl err \<Rightarrow> Inl (CompileFailed err)
      | Inr autoMode \<Rightarrow>
      let classifierAttempts = (case classifier of None \<Rightarrow> DefaultClassifierAttemptPolicy | Some p \<Rightarrow> p) in
      case AttemptPolicy_Validate classifierAttempts of
        Some err \<Rightarrow> Inl (CompileFailed (WrapError ''classifier attempt policy'' (CompileError err)))
      | None \<Rightarrow>
      if ap_MaxAttempts classifierAttempts \<noteq> 1
        then Inl (CompileFailed (CompileError ''classifier attempt policy must allow exactly one attempt''))
      else
      let startedAt = re_now env (w_calls disk);
          disk = disk\<lparr>w_calls := Suc (w_calls disk)\<rparr>;
          status = idleStatus;
          status = (case initialError of None \<Rightarrow> status | Some e \<Rightarrow> status\<lparr>rt_State := ''failed'', rt_LastError := e\<rparr>);
          status = (if initialPending then
                      status\<lparr>rt_Pending := True, rt_InProgress := True, rt_State := ''failed'',
                        rt_LastError := (if rt_LastError status = [] then ''pending configuration requires cleanup''
                                         else rt_LastError status)\<rparr>
                    else status)
      in case newSnapshotWithAuto (re_scan env) None 1 initial catalog autoMode defaultNormalAttemptPolicy
                classifierAttempts startedAt of
           Inl err \<Rightarrow> Inl (CompileFailed err)
         | Inr initialSnapshot \<Rightarrow>
             Inr \<lparr> mg_revision = 1, mg_current = initialSnapshot, mg_hasHarness = hasValidator, mg_hasRestart = hasRestart,
                   mg_invalidationReason = [], mg_activeProfileInvalid = (active_id initial \<noteq> []),
                   mg_classifierAttempts = classifierAttempts, mg_restartStatus = status, mg_restartTriggered = False,
                   mg_files = disk \<rparr>)"

end
