(* ===== verification/Runtime_Invariant.thy ===== *)
theory Runtime_Invariant
  imports Runtime_Manager
begin

text \<open>
  The invariant of the runtime manager and its preservation: what is published is valid and
  is what the configuration file says, the attempt budget follows from the published
  configuration and the activation guard, and the restart status tells whether a pending
  file exists.
\<close>

section \<open>Frame of the calls to the outside\<close>

definition with_calls :: "nat \<Rightarrow> Manager \<Rightarrow> Manager" where
  "with_calls k m = m\<lparr>mg_files := (mg_files m)\<lparr>w_calls := k\<rparr>\<rparr>"

lemma tick_eq: "tick m = (w_calls (mg_files m), with_calls (Suc (w_calls (mg_files m))) m)"
  by (simp add: tick_def with_calls_def)

lemma with_calls_frame [simp]:
  "mg_revision (with_calls k m) = mg_revision m" "mg_current (with_calls k m) = mg_current m"
  "mg_hasHarness (with_calls k m) = mg_hasHarness m" "mg_hasRestart (with_calls k m) = mg_hasRestart m"
  "mg_invalidationReason (with_calls k m) = mg_invalidationReason m"
  "mg_activeProfileInvalid (with_calls k m) = mg_activeProfileInvalid m"
  "mg_classifierAttempts (with_calls k m) = mg_classifierAttempts m"
  "mg_restartStatus (with_calls k m) = mg_restartStatus m"
  "mg_restartTriggered (with_calls k m) = mg_restartTriggered m"
  "w_calls (mg_files (with_calls k m)) = k"
  "w_active (mg_files (with_calls k m)) = w_active (mg_files m)"
  "w_pending (mg_files (with_calls k m)) = w_pending (mg_files m)"
  "w_history (mg_files (with_calls k m)) = w_history (mg_files m)"
  by (simp_all add: with_calls_def)

lemma with_calls_twice [simp]: "with_calls k (with_calls j m) = with_calls k m"
  by (simp add: with_calls_def)

lemma now_eq: "now env m = (re_now env (w_calls (mg_files m)), with_calls (Suc (w_calls (mg_files m))) m)"
  by (simp add: now_def tick_eq)

definition with_files :: "Config \<Rightarrow> Config option \<Rightarrow> Manager \<Rightarrow> Manager" where
  "with_files active pending m = m\<lparr>mg_files := written ((mg_files m)\<lparr>w_active := active, w_pending := pending\<rparr>)\<rparr>"

lemma with_files_frame [simp]:
  "mg_revision (with_files a p m) = mg_revision m" "mg_current (with_files a p m) = mg_current m"
  "mg_hasHarness (with_files a p m) = mg_hasHarness m" "mg_hasRestart (with_files a p m) = mg_hasRestart m"
  "mg_invalidationReason (with_files a p m) = mg_invalidationReason m"
  "mg_activeProfileInvalid (with_files a p m) = mg_activeProfileInvalid m"
  "mg_classifierAttempts (with_files a p m) = mg_classifierAttempts m"
  "mg_restartStatus (with_files a p m) = mg_restartStatus m"
  "mg_restartTriggered (with_files a p m) = mg_restartTriggered m"
  "w_calls (mg_files (with_files a p m)) = w_calls (mg_files m)"
  "w_active (mg_files (with_files a p m)) = a" "w_pending (mg_files (with_files a p m)) = p"
  "w_history (mg_files (with_files a p m)) = (a, p) # w_history (mg_files m)"
  by (simp_all add: with_files_def written_def)

text \<open>Every store operation either fails and keeps the files or takes full effect.\<close>

abbreviation called :: "Manager \<Rightarrow> Manager" where
  "called m \<equiv> with_calls (Suc (w_calls (mg_files m))) m"

lemma guarded_write:
  assumes "(case v of Some e \<Rightarrow> (Some (f e), a) | None \<Rightarrow> (case w of Some e \<Rightarrow> (Some e, a) | None \<Rightarrow> (None, b))) = (err, m')"
  shows "(err \<noteq> None \<and> m' = a) \<or> (v = None \<and> err = None \<and> m' = b)"
  using assms by (cases v; cases w) auto

lemma Store_Save_eq:
  "Store_Save env cfg m =
     (case Config_Validate (go_of env) cfg of
        Some err \<Rightarrow> (Some (Error_text err), called m)
      | None \<Rightarrow> (case re_save env (w_calls (mg_files m)) of
          Some err \<Rightarrow> (Some err, called m)
        | None \<Rightarrow> (None, with_files (Config_Normalize cfg) (w_pending (mg_files m)) (called m))))"
  by (simp add: Store_Save_def tick_eq with_calls_def with_files_def written_def split: option.split)

lemma Store_Save_cases:
  assumes "Store_Save env cfg m = (err, m')"
  obtains (failed) "err \<noteq> None" and "m' = called m"
  | (saved) "err = None" and "config_ok (go_of env) (Config_Normalize cfg)"
      and "m' = with_files (Config_Normalize cfg) (w_pending (mg_files m)) (called m)"
  using guarded_write [OF assms [unfolded Store_Save_eq]] that unfolding Config_Validate_None by blast

lemma Store_SavePending_cases:
  assumes "Store_SavePending env cfg m = (err, m')"
  obtains (failed) "err \<noteq> None" and "m' = called m"
  | (saved) "err = None" and "config_ok (go_of env) (Config_Normalize cfg)"
      and "m' = with_files (w_active (mg_files m)) (Some (Config_Normalize cfg)) (called m)"
proof -
  have "Store_SavePending env cfg m =
     (case Config_Validate (go_of env) cfg of
        Some err \<Rightarrow> (Some (Error_text err), called m)
      | None \<Rightarrow> (case re_save env (w_calls (mg_files m)) of
          Some err \<Rightarrow> (Some err, called m)
        | None \<Rightarrow> (None, with_files (w_active (mg_files m)) (Some (Config_Normalize cfg)) (called m))))"
    by (simp add: Store_SavePending_def tick_eq with_calls_def with_files_def written_def split: option.split)
  from guarded_write [OF this [symmetric, THEN trans, OF assms]] that show thesis
    unfolding Config_Validate_None by blast
qed

lemma Store_LoadPending_cases:
  assumes "Store_LoadPending env m = (r, m')"
  shows "m' = called m" and "r = Inr cfg \<Longrightarrow> w_pending (mg_files m) = Some cfg"
  using assms by (auto simp: Store_LoadPending_def tick_eq split: option.splits)

lemma Store_PromotePending_cases:
  assumes "Store_PromotePending env m = (err, m')"
  obtains (failed) k where "err \<noteq> None" and "m' = with_calls k m"
  | (promoted) k cfg where "err = None" and "w_pending (mg_files m) = Some cfg" and "m' = with_files cfg None (with_calls k m)"
proof -
  obtain r m1 where l: "Store_LoadPending env m = (r, m1)" by force
  note load = Store_LoadPending_cases [OF l]
  show thesis
  proof (cases r)
    case (Inl e)
    then show thesis using assms l load(1) by (intro failed) (auto simp: Store_PromotePending_def)
  next
    case (Inr cfg)
    have p: "w_pending (mg_files m) = Some cfg" by (rule load(2)) (rule Inr)
    show thesis
    proof (cases "re_promote env (w_calls (mg_files m1))")
      case None
      then have "err = None \<and> m' = with_files cfg None (with_calls (Suc (w_calls (mg_files m1))) m)"
        using assms l load(1) Inr by (simp add: Store_PromotePending_def tick_eq with_calls_def with_files_def written_def)
      with p show thesis by (intro promoted) auto
    next
      case (Some e)
      then show thesis using assms l load(1) Inr
        by (intro failed [of "Suc (w_calls (mg_files m1))"]) (simp_all add: Store_PromotePending_def tick_eq, metis option.distinct(1))
    qed
  qed
qed

lemma Store_RemovePending_cases:
  assumes "Store_RemovePending env m = (err, m')"
  obtains (failed) "err \<noteq> None" and "w_pending (mg_files m) \<noteq> None" and "m' = called m"
  | (absent) "err = None" and "w_pending (mg_files m) = None" and "m' = called m"
  | (removed) "err = None" and "m' = with_files (w_active (mg_files m)) None (called m)"
proof (cases "w_pending (mg_files m)")
  case None
  with assms show thesis by (intro absent) (simp_all add: Store_RemovePending_def tick_eq)
next
  case (Some cfg)
  show thesis
  proof (cases "re_remove env (w_calls (mg_files m))")
    case None
    then show thesis using assms Some
      by (intro removed) (simp_all add: Store_RemovePending_def tick_eq with_calls_def with_files_def written_def)
  next
    case (Some e)
    then show thesis using assms \<open>w_pending (mg_files m) = Some cfg\<close>
      by (intro failed) (simp_all add: Store_RemovePending_def tick_eq, metis option.distinct(1))
  qed
qed

lemma with_calls_same: "with_calls (w_calls (mg_files m)) m = m"
  by (simp add: with_calls_def)

lemma checkHarness_frame: "\<exists>k. snd (checkHarness env cfg m) = with_calls k m"
proof (cases "mg_hasHarness m")
  case True
  then show ?thesis by (auto simp: checkHarness_def tick_eq split_beta Let_def)
next
  case False
  then have "snd (checkHarness env cfg m) = m" by (simp add: checkHarness_def)
  then show ?thesis using with_calls_same [of m] by metis
qed

section \<open>The invariant\<close>

definition budget_ok :: "Manager \<Rightarrow> bool" where
  "budget_ok m \<longleftrightarrow> rs_normalAttempts (mg_current m) = normalAttempts (rs_config (mg_current m)) (mg_activeProfileInvalid m)"

definition config_published :: "runtime_env \<Rightarrow> Manager \<Rightarrow> bool" where
  "config_published env m \<longleftrightarrow>
     config_ok (go_of env) (rs_config (mg_current m)) \<and>
     Config_Normalize (rs_config (mg_current m)) = rs_config (mg_current m) \<and>
     w_active (mg_files m) = rs_config (mg_current m) \<and> rs_revision (mg_current m) = mg_revision m \<and>
     rs_classifierAttempts (mg_current m) = mg_classifierAttempts m"

definition restart_ok :: "runtime_env \<Rightarrow> Manager \<Rightarrow> bool" where
  "restart_ok env m \<longleftrightarrow>
     (rt_InProgress (mg_restartStatus m) \<longleftrightarrow> w_pending (mg_files m) \<noteq> None) \<and>
     (rt_Pending (mg_restartStatus m) \<longleftrightarrow> w_pending (mg_files m) \<noteq> None) \<and>
     (mg_restartTriggered m \<longrightarrow> rt_InProgress (mg_restartStatus m)) \<and>
     (\<forall>p. w_pending (mg_files m) = Some p \<longrightarrow> config_ok (go_of env) p \<and> Config_Normalize p = p)"

definition manager_inv :: "runtime_env \<Rightarrow> Manager \<Rightarrow> bool" where
  "manager_inv env m \<longleftrightarrow> config_published env m \<and> budget_ok m \<and> restart_ok env m"

lemma manager_inv_with_calls [simp]: "manager_inv env (with_calls k m) = manager_inv env m"
  by (simp add: manager_inv_def config_published_def budget_ok_def restart_ok_def)

lemma config_published_cong:
  "mg_current m' = mg_current m \<Longrightarrow> w_active (mg_files m') = w_active (mg_files m) \<Longrightarrow> mg_revision m' = mg_revision m \<Longrightarrow>
     mg_classifierAttempts m' = mg_classifierAttempts m \<Longrightarrow> config_published env m' = config_published env m"
  by (simp add: config_published_def)

lemma restart_ok_cong:
  "mg_restartStatus m' = mg_restartStatus m \<Longrightarrow> mg_restartTriggered m' = mg_restartTriggered m \<Longrightarrow>
     w_pending (mg_files m') = w_pending (mg_files m) \<Longrightarrow> restart_ok env m' = restart_ok env m"
  by (simp add: restart_ok_def)

lemmas manager_inv_defs = manager_inv_def config_published_def budget_ok_def restart_ok_def

lemma normalAttempts_invalid [simp]: "normalAttempts cfg True = defaultNormalAttemptPolicy"
  by (simp add: normalAttempts_def)

lemma normalAttempts_inactive: "active_id cfg = [] \<Longrightarrow> normalAttempts cfg invalid = defaultNormalAttemptPolicy"
  by (simp add: normalAttempts_def)

section \<open>Revoking a budget\<close>

lemma invalidatePolicyLocked_inv:
  assumes "config_published env m" and "restart_ok env m"
  shows "manager_inv env (invalidatePolicyLocked env m)"
  using assms by (auto simp: invalidatePolicyLocked_def now_eq Let_def manager_inv_defs)

lemma invalidatePolicyLocked_frame:
  "mg_activeProfileInvalid (invalidatePolicyLocked env m)"
  "rs_normalAttempts (mg_current (invalidatePolicyLocked env m)) = defaultNormalAttemptPolicy"
  "rs_config (mg_current (invalidatePolicyLocked env m)) = rs_config (mg_current m)"
  "rs_catalog (mg_current (invalidatePolicyLocked env m)) = rs_catalog (mg_current m)"
  "mg_restartStatus (invalidatePolicyLocked env m) = mg_restartStatus m"
  "w_active (mg_files (invalidatePolicyLocked env m)) = w_active (mg_files m)"
  "w_pending (mg_files (invalidatePolicyLocked env m)) = w_pending (mg_files m)"
  by (auto simp: invalidatePolicyLocked_def now_eq Let_def)

lemma active_cleared_ok:
  "config_ok g c \<and> Config_Normalize c = c \<Longrightarrow>
     config_ok g (set_active_id [] c) \<and> Config_Normalize (set_active_id [] c) = set_active_id [] c"
  by (simp add: config_ok_clear Normalize_set_active_id)

text \<open>
  What a failed step may do: nothing but call counting, or the revocation of the profile
  budget, with the active profile cleared when that could be persisted.
\<close>

definition revoked :: "Manager \<Rightarrow> Manager \<Rightarrow> bool" where
  "revoked m m' \<longleftrightarrow>
     mg_activeProfileInvalid m' \<and> rs_normalAttempts (mg_current m') = defaultNormalAttemptPolicy \<and>
     rs_config (mg_current m') \<in> {rs_config (mg_current m), set_active_id [] (rs_config (mg_current m))} \<and>
     rs_catalog (mg_current m') = rs_catalog (mg_current m) \<and> mg_restartStatus m' = mg_restartStatus m \<and>
     w_pending (mg_files m') = w_pending (mg_files m)"

definition unchanged :: "Manager \<Rightarrow> Manager \<Rightarrow> bool" where
  "unchanged m m' \<longleftrightarrow> (\<exists>k. m' = with_calls k m)"

lemma unchangedI: "unchanged m (with_calls k m)"
  by (auto simp: unchanged_def)

lemma unchanged_refl [simp]: "unchanged m m"
  using with_calls_same [of m] by (metis unchanged_def)

lemma unchanged_trans: "unchanged m m1 \<Longrightarrow> unchanged m1 m2 \<Longrightarrow> unchanged m m2"
  by (auto simp: unchanged_def)

lemma unchanged_revoked: "unchanged m m1 \<Longrightarrow> revoked m1 m2 \<Longrightarrow> revoked m m2"
  by (auto simp: unchanged_def revoked_def)

lemma unchanged_inv: "unchanged m m' \<Longrightarrow> manager_inv env m' \<longleftrightarrow> manager_inv env m"
  by (auto simp: unchanged_def)

lemma invalidate_revoked: "revoked m (invalidatePolicyLocked env m)"
  by (simp add: revoked_def invalidatePolicyLocked_frame)

lemma checkHarness_unchanged: "checkHarness env cfg m = (r, m') \<Longrightarrow> unchanged m m'"
  using checkHarness_frame [of env cfg m] by (auto simp: unchanged_def)

lemma revokeActivation_inv:
  assumes "manager_inv env m" and "revokeActivation env cause restoreErr verdict checkErr m = (e, m')"
  shows "manager_inv env m' \<and> revoked m m'"
proof -
  define m1 where "m1 = m\<lparr>mg_activeProfileInvalid := True,
    mg_invalidationReason := (if checkErr \<noteq> None \<or> hv_Reason verdict = [] then HarnessReasonRecoveryFailed else hv_Reason verdict)\<rparr>"
  have m1: "mg_current m1 = mg_current m" "mg_restartStatus m1 = mg_restartStatus m" "mg_files m1 = mg_files m"
    "mg_revision m1 = mg_revision m" "mg_classifierAttempts m1 = mg_classifierAttempts m"
    "mg_restartTriggered m1 = mg_restartTriggered m" "mg_activeProfileInvalid m1"
    by (simp_all add: m1_def)
  define cfg where "cfg = set_active_id [] (rs_config (mg_current m1))"
  obtain saved m2 where sv: "Store_Save env cfg m1 = (saved, m2)" by force
  have pub: "config_published env m1" "restart_ok env m1"
    using assms(1) config_published_cong [of m1 m env] restart_ok_cong [of m1 m env] m1 by (simp_all add: manager_inv_def)
  have m': "m' = (case saved of Some err \<Rightarrow> invalidatePolicyLocked env m2
      | None \<Rightarrow> (with_calls (Suc (w_calls (mg_files m2))) (m2\<lparr>mg_revision := mg_revision m2 + 1\<rparr>))
          \<lparr>mg_current := (mg_current m1)\<lparr>rs_revision := mg_revision m2 + 1,
             rs_created := re_now env (w_calls (mg_files m2)), rs_config := cfg, rs_normalAttempts := defaultNormalAttemptPolicy\<rparr>\<rparr>)"
    using assms(2) sv unfolding revokeActivation_def m1_def [symmetric] cfg_def
    by (auto simp: now_eq Let_def split: option.splits)
  from sv show ?thesis
  proof (cases rule: Store_Save_cases)
    case failed
    then have "m' = invalidatePolicyLocked env (called m1)" using m' by auto
    moreover have "manager_inv env (invalidatePolicyLocked env (called m1))"
      using pub config_published_cong [of "called m1" m1 env] restart_ok_cong [of "called m1" m1 env]
      by (intro invalidatePolicyLocked_inv) simp_all
    moreover have "revoked m (invalidatePolicyLocked env (called m1))"
      using invalidate_revoked [of "called m1" env] m1 by (simp add: revoked_def)
    ultimately show ?thesis by simp
  next
    case saved
    have norm: "Config_Normalize cfg = cfg" "config_ok (go_of env) cfg"
      using pub(1) active_cleared_ok [of "go_of env" "rs_config (mg_current m1)"] by (simp_all add: config_published_def cfg_def)
    have "config_published env m'" using m' saved norm m1 assms(1) by (simp add: manager_inv_defs)
    moreover have "budget_ok m'" using m' saved m1 by (simp add: budget_ok_def)
    moreover have "restart_ok env m'" using restart_ok_cong [of m' m1 env] pub(2) m' saved by simp
    moreover have "revoked m m'" using m' saved m1 by (simp add: revoked_def cfg_def)
    ultimately show ?thesis by (simp add: manager_inv_def)
  qed
qed

lemma recover_inv:
  assumes "manager_inv env m" and "recoverHarnessUpdateLocked env cause m = (e, m')"
  shows "manager_inv env m' \<and> (unchanged m m' \<or> revoked m m')"
proof -
  define m1 where "m1 = called m"
  obtain verdict cerr m2 where ch: "checkHarness env (rs_config (mg_current m1)) m1 = ((verdict, cerr), m2)" by (metis prod.exhaust)
  have u2: "unchanged m m2"
    using unchanged_trans [OF unchangedI checkHarness_unchanged [OF ch [unfolded m1_def]]] .
  then have i2: "manager_inv env m2" using assms(1) unchanged_inv by blast
  show ?thesis
  proof (cases "re_rollback env (w_calls (mg_files m)) = None \<and> cerr = None \<and> hv_State verdict = ''in_sync''")
    case True
    then have "m' = m2" using assms(2) ch
      by (simp add: recoverHarnessUpdateLocked_def tick_eq m1_def Let_def)
    with u2 i2 show ?thesis by simp
  next
    case False
    then have "revokeActivation env cause (map_option HarnessFailed (re_rollback env (w_calls (mg_files m)))) verdict cerr m2 = (e, m')"
      using assms(2) ch by (auto simp: recoverHarnessUpdateLocked_def tick_eq m1_def Let_def)
    from revokeActivation_inv [OF i2 this] unchanged_revoked [OF u2] show ?thesis by blast
  qed
qed

section \<open>Publishing\<close>

definition applied :: "Config \<Rightarrow> bool \<Rightarrow> ApplyResult \<Rightarrow> Manager \<Rightarrow> Manager \<Rightarrow> bool" where
  "applied next guard r m m' \<longleftrightarrow>
     rs_config (mg_current m') = next \<and> w_active (mg_files m') = next \<and> w_pending (mg_files m') = w_pending (mg_files m) \<and>
     mg_revision m' = mg_revision m + 1 \<and> ar_Revision r = mg_revision m' \<and> ar_Applied r \<and> \<not> ar_RestartRequired r \<and>
     mg_activeProfileInvalid m' = guard \<and> rs_normalAttempts (mg_current m') = normalAttempts next guard \<and>
     mg_restartStatus m' = idleStatus"

lemma rememberHarnessInvalidation_frame [simp]:
  "mg_revision (rememberHarnessInvalidation p n m) = mg_revision m"
  "mg_current (rememberHarnessInvalidation p n m) = mg_current m"
  "mg_files (rememberHarnessInvalidation p n m) = mg_files m"
  "mg_restartStatus (rememberHarnessInvalidation p n m) = mg_restartStatus m"
  "mg_restartTriggered (rememberHarnessInvalidation p n m) = mg_restartTriggered m"
  "mg_classifierAttempts (rememberHarnessInvalidation p n m) = mg_classifierAttempts m"
  "mg_activeProfileInvalid (rememberHarnessInvalidation p n m) = mg_activeProfileInvalid m"
  "mg_hasHarness (rememberHarnessInvalidation p n m) = mg_hasHarness m"
  by (simp_all add: rememberHarnessInvalidation_def)

lemma persist_inv:
  assumes "manager_inv env m" and "\<not> rt_InProgress (mg_restartStatus m)"
    and "config_ok (go_of env) next" and "Config_Normalize next = next" and "rs_config s = next"
    and "rs_normalAttempts s = normalAttempts next guard" and "rs_revision s = mg_revision m + 1"
    and "rs_classifierAttempts s = mg_classifierAttempts m"
    and res: "persist env next s guard invalidated fileUpdate m = (r, m')"
  shows "manager_inv env m' \<and> (case r of Inl _ \<Rightarrow> unchanged m m' \<or> revoked m m' | Inr a \<Rightarrow> applied next guard a m m')"
proof -
  obtain saveErr m3 where s3: "(if rs_config (mg_current m) \<noteq> next then Store_Save env next m else (None, m)) = (saveErr, m3)"
    by force
  have m: "w_active (mg_files m) = rs_config (mg_current m)" "w_pending (mg_files m) = None" "\<not> mg_restartTriggered m"
    using assms(1,2) by (auto simp: manager_inv_defs)
  show ?thesis
  proof (cases saveErr)
    case (Some err)
    then have sv: "Store_Save env next m = (Some err, m3)" using s3 by (auto split: if_splits)
    then have u: "unchanged m m3" by (cases rule: Store_Save_cases) (use unchangedI in auto)
    then have i3: "manager_inv env m3" using assms(1) unchanged_inv by blast
    obtain e m4 where rec: "recoverHarnessUpdateLocked env (PersistFailed err) m3 = (e, m4)" by force
    have "(\<exists>e. r = Inl e) \<and> (m' = m4 \<or> m' = invalidatePolicyLocked env m3 \<or> m' = m3)"
      using res Some s3 rec by (auto simp: persist_def split: if_splits)
    moreover have "manager_inv env (invalidatePolicyLocked env m3)"
      by (rule invalidatePolicyLocked_inv) (use i3 in \<open>simp_all add: manager_inv_def\<close>)
    ultimately show ?thesis
      using recover_inv [OF i3 rec] i3 u unchanged_trans [OF u] unchanged_revoked [OF u] invalidate_revoked [of m3 env] by auto
  next
    case None
    have a: "w_active (mg_files m3) = next \<and> w_pending (mg_files m3) = None \<and> mg_revision m3 = mg_revision m \<and>
        \<not> mg_restartTriggered m3 \<and> mg_classifierAttempts m3 = mg_classifierAttempts m"
    proof (cases "rs_config (mg_current m) = next")
      case True
      with s3 m show ?thesis by simp
    next
      case False
      with s3 have "Store_Save env next m = (None, m3)" using None by simp
      then show ?thesis by (cases rule: Store_Save_cases) (use m assms(4) in auto)
    qed
    have m': "m' = (rememberHarnessInvalidation (rs_config (mg_current m)) next (m3\<lparr>mg_revision := mg_revision m3 + 1\<rparr>))
        \<lparr>mg_current := s, mg_activeProfileInvalid := guard, mg_restartStatus := idleStatus\<rparr>"
      and r: "r = Inr \<lparr> ar_Revision = mg_revision m3 + 1, ar_Applied = True, ar_RestartRequired = False, ar_Restarting = False,
                   ar_ListenAddr = sv_ListenAddr (cfg_Service next) \<rparr>"
      using res s3 None by (auto simp: persist_def Let_def)
    have "manager_inv env m'"
      using a assms(3-8) by (simp add: m' manager_inv_defs idleStatus_def)
    moreover have "applied next guard \<lparr> ar_Revision = mg_revision m3 + 1, ar_Applied = True, ar_RestartRequired = False, ar_Restarting = False,
                   ar_ListenAddr = sv_ListenAddr (cfg_Service next) \<rparr> m m'"
      using a assms(3-8) m by (simp add: m' applied_def)
    ultimately show ?thesis by (simp add: r)
  qed
qed

lemma applied_unchanged: "unchanged m m2 \<Longrightarrow> applied next guard a m2 m' \<Longrightarrow> applied next guard a m m'"
  by (auto simp: unchanged_def applied_def)

lemma publish_inv:
  assumes "manager_inv env m" and "\<not> rt_InProgress (mg_restartStatus m)" and "config_ok (go_of env) next"
    and "Config_Normalize next = next" and "normal = normalAttempts next guard"
    and "publish env next catalog autoMode normal guard invalidated fileUpdate m = (r, m')"
  shows "manager_inv env m' \<and> (case r of Inl _ \<Rightarrow> unchanged m m' \<or> revoked m m' | Inr a \<Rightarrow> applied next guard a m m')"
proof -
  let ?new = "newSnapshotWithAuto (re_scan env) (Some (mg_current m)) (mg_revision m + 1) next catalog autoMode normal
      (mg_classifierAttempts m) (re_now env (w_calls (mg_files m)))"
  show ?thesis
  proof (cases ?new)
    case (Inl e)
    then have "m' = called m" "r = Inl (CompileFailed e)" using assms(6) by (simp_all add: publish_def now_eq Let_def)
    then show ?thesis using assms(1) unchangedI by auto
  next
    case (Inr s)
    note fields = newSnapshot_fields [OF Inr]
    define m1 where "m1 = called m"
    obtain commitErr m2 where c: "(if fileUpdate then let (n, m) = tick m1 in (re_commit env n, m) else (None, m1)) = (commitErr, m2)"
      by force
    have u2: "unchanged m m2"
      using c unchanged_trans [OF unchangedI unchangedI] unchangedI by (auto simp: m1_def tick_eq split: if_splits)
    then have i2: "manager_inv env m2" using assms(1) unchanged_inv by blast
    show ?thesis
    proof (cases commitErr)
      case (Some err)
      obtain e m4 where rec: "recoverHarnessUpdateLocked env (HarnessFailed err) m2 = (e, m4)" by force
      have "r = Inl e" "m' = m4" using assms(6) Inr c Some rec
        by (cases fileUpdate; simp add: publish_def now_eq Let_def m1_def tick_eq)+
      then show ?thesis using recover_inv [OF i2 rec] unchanged_trans [OF u2] unchanged_revoked [OF u2] by auto
    next
      case None
      then have p: "persist env next s guard invalidated fileUpdate m2 = (r, m')"
        using assms(6) Inr c by (cases fileUpdate) (simp_all add: publish_def now_eq Let_def m1_def tick_eq)
      have "manager_inv env m' \<and> (case r of Inl _ \<Rightarrow> unchanged m2 m' \<or> revoked m2 m' | Inr a \<Rightarrow> applied next guard a m2 m')"
        by (rule persist_inv [OF i2 _ assms(3,4) _ _ _ _ p]) (use u2 fields assms(2,5) in \<open>auto simp: unchanged_def\<close>)
      then show ?thesis
        using unchanged_trans [OF u2] unchanged_revoked [OF u2] applied_unchanged [OF u2] by (cases r) auto
    qed
  qed
qed

definition scheduled :: "Config \<Rightarrow> ApplyResult \<Rightarrow> Manager \<Rightarrow> Manager \<Rightarrow> bool" where
  "scheduled next r m m' \<longleftrightarrow>
     mg_current m' = mg_current m \<and> w_active (mg_files m') = w_active (mg_files m) \<and> w_pending (mg_files m') = Some next \<and>
     mg_activeProfileInvalid m' = mg_activeProfileInvalid m \<and> mg_revision m' = mg_revision m \<and>
     rt_InProgress (mg_restartStatus m') \<and> \<not> mg_restartTriggered m' \<and> ar_RestartRequired r \<and> \<not> ar_Applied r"

lemma schedule_restart_inv:
  assumes "manager_inv env m" and "config_ok (go_of env) next" and "Config_Normalize next = next"
    and "schedule_restart env next m = (r, m')"
  shows "manager_inv env m' \<and> (case r of Inl _ \<Rightarrow> unchanged m m' | Inr a \<Rightarrow> scheduled next a m m')"
proof (cases "re_preflight env (w_calls (mg_files m)) (rs_config (mg_current m)) next")
  case (Some e)
  then have "m' = called m" "r = Inl (PreflightFailed e)" using assms(4) by (simp_all add: schedule_restart_def tick_eq)
  then show ?thesis using assms(1) unchangedI by auto
next
  case None
  obtain saved m2 where sv: "Store_SavePending env next (called m) = (saved, m2)" by force
  from sv show ?thesis
  proof (cases rule: Store_SavePending_cases)
    case failed
    then obtain e where "saved = Some e" by auto
    then have "m' = m2" "r = Inl (PendingFailed e)" using assms(4) None sv by (simp_all add: schedule_restart_def tick_eq)
    then show ?thesis using assms(1) unchangedI failed(2) by auto
  next
    case saved
    define m3 where "m3 = (called (m2\<lparr>mg_restartTriggered := False\<rparr>))\<lparr>mg_restartStatus := \<lparr> rt_State = ''pending'', rt_InProgress = True,
        rt_Pending = True, rt_RequestedAt = Some (re_now env (w_calls (mg_files m2))), rt_LastError = [] \<rparr>\<rparr>"
    define a0 where "a0 = \<lparr> ar_Revision = rs_revision (mg_current m2), ar_Applied = False, ar_RestartRequired = True,
        ar_Restarting = True, ar_ListenAddr = sv_ListenAddr (cfg_Service next) \<rparr>"
    have "schedule_restart env next m = (Inr a0, m3)"
      using None sv saved(1) by (simp add: schedule_restart_def tick_eq now_eq Let_def m3_def a0_def)
    with assms(4) have m': "m' = m3" and r: "r = Inr a0" by simp_all
    have m3: "mg_current m3 = mg_current m" "w_active (mg_files m3) = w_active (mg_files m)" "mg_revision m3 = mg_revision m"
      "mg_classifierAttempts m3 = mg_classifierAttempts m" "mg_activeProfileInvalid m3 = mg_activeProfileInvalid m"
      "w_pending (mg_files m3) = Some next" "\<not> mg_restartTriggered m3" "rt_InProgress (mg_restartStatus m3)"
      "rt_Pending (mg_restartStatus m3)"
      using assms(3) by (simp_all add: m3_def saved(3))
    have "config_published env m3"
      using assms(1) config_published_cong [OF m3(1-4), of env] by (simp add: manager_inv_def)
    moreover have "budget_ok m3" using assms(1) m3 by (simp add: manager_inv_def budget_ok_def)
    moreover have "restart_ok env m3" using assms(2,3) m3 by (simp add: restart_ok_def)
    ultimately have "manager_inv env m3" by (simp add: manager_inv_def)
    moreover have "scheduled next a0 m m3" using m3 by (simp add: scheduled_def a0_def)
    ultimately show ?thesis by (simp add: m' r)
  qed
qed

lemma harness_phase_unchanged: "harness_phase env checked telemetry c n m = (r, m') \<Longrightarrow> unchanged m m'"
proof -
  assume h: "harness_phase env checked telemetry c n m = (r, m')"
  show ?thesis
  proof (cases "checked \<and> \<not> telemetry")
    case True
    obtain v e m1 where ch: "checkHarness env n m = ((v, e), m1)" by (metis prod.exhaust)
    with h True have "m' = m1" by (simp add: harness_phase_def)
    with checkHarness_unchanged [OF ch] show ?thesis by simp
  next
    case False
    with h show ?thesis using unchangedI by (auto simp: harness_phase_def tick_eq split_beta Let_def split: if_splits)
  qed
qed

section \<open>Applying a configuration\<close>

definition kept_noop :: "Config \<Rightarrow> ApplyResult \<Rightarrow> Manager \<Rightarrow> Manager \<Rightarrow> bool" where
  "kept_noop next r m m' \<longleftrightarrow>
     next = rs_config (mg_current m) \<and> mg_current m' = mg_current m \<and> w_active (mg_files m') = w_active (mg_files m) \<and>
     w_pending (mg_files m') = w_pending (mg_files m) \<and> mg_revision m' = mg_revision m \<and>
     \<not> ar_Applied r \<and> \<not> ar_RestartRequired r"

text \<open>How an accepted update ends: nothing to do, published, or waiting for a restart.\<close>

definition accepted :: "Config \<Rightarrow> ApplyResult \<Rightarrow> Manager \<Rightarrow> Manager \<Rightarrow> bool" where
  "accepted next r m m' \<longleftrightarrow> kept_noop next r m m' \<or> (\<exists>guard. applied next guard r m m') \<or> scheduled next r m m'"

lemma accepted_unchanged: "unchanged m m1 \<Longrightarrow> accepted next r m1 m' \<Longrightarrow> accepted next r m m'"
  unfolding unchanged_def
  by (elim exE, hypsubst) (simp add: accepted_def kept_noop_def applied_def scheduled_def)

lemma finishApply_inv:
  assumes i: "manager_inv env m" and ip: "\<not> rt_InProgress (mg_restartStatus m)"
    and ok: "config_ok (go_of env) next" "Config_Normalize next = next"
    and res: "finishApply env checked restartRequired fileUpdate verdict next catalog autoMode m = (r, m')"
  shows "manager_inv env m' \<and>
    (case r of Inl _ \<Rightarrow> unchanged m m' \<or> revoked m m'
     | Inr a \<Rightarrow> \<exists>n \<in> {next, set_active_id [] next}. accepted n a m m')"
proof -
  define active where "active = (checked \<and> active_id next \<noteq> [])"
  define invalidated where "invalidated = (active \<and> hv_State verdict \<noteq> ''in_sync'')"
  define nx where "nx = (if invalidated then set_active_id [] next else next)"
  define guard where "guard = (if active then invalidated else mg_activeProfileInvalid m)"
  have okx: "config_ok (go_of env) nx" "Config_Normalize nx = nx"
    using ok config_ok_clear by (auto simp: nx_def Normalize_set_active_id)
  have nx: "nx \<in> {next, set_active_id [] next}" by (simp add: nx_def)
  have eq: "finishApply env checked restartRequired fileUpdate verdict next catalog autoMode m =
      (if rs_config (mg_current m) = nx \<and> rs_normalAttempts (mg_current m) = normalAttempts nx guard then
         (Inr \<lparr> ar_Revision = rs_revision (mg_current m), ar_Applied = False, ar_RestartRequired = False,
                ar_Restarting = False, ar_ListenAddr = sv_ListenAddr (cfg_Service (rs_config (mg_current m))) \<rparr>,
          m\<lparr>mg_activeProfileInvalid := guard\<rparr>)
       else if \<not> restartRequired then publish env nx catalog autoMode (normalAttempts nx guard) guard invalidated fileUpdate m
       else schedule_restart env nx m)"
    unfolding finishApply_def Let_def guard_def nx_def invalidated_def active_def ..
  have core: "manager_inv env m' \<and> (case r of Inl _ \<Rightarrow> unchanged m m' \<or> revoked m m' | Inr a \<Rightarrow> accepted nx a m m')"
  proof (cases "rs_config (mg_current m) = nx \<and> rs_normalAttempts (mg_current m) = normalAttempts nx guard")
    case True
    define a0 where "a0 = \<lparr> ar_Revision = rs_revision (mg_current m), ar_Applied = False, ar_RestartRequired = False,
        ar_Restarting = False, ar_ListenAddr = sv_ListenAddr (cfg_Service (rs_config (mg_current m))) \<rparr>"
    have "(r, m') = (Inr a0, m\<lparr>mg_activeProfileInvalid := guard\<rparr>)"
      unfolding res [symmetric] eq if_P [OF True] a0_def ..
    then have m': "m' = m\<lparr>mg_activeProfileInvalid := guard\<rparr>" and r: "r = Inr a0" unfolding prod.inject by blast+
    have "config_published env m'" "restart_ok env m'"
      using i config_published_cong [of m' m env] restart_ok_cong [of m' m env] by (simp_all add: manager_inv_def m')
    moreover have "budget_ok m'" using conjunct2 [OF True] conjunct1 [OF True] unfolding budget_ok_def m' by simp
    moreover have "kept_noop nx a0 m m'"
      using conjunct1 [OF True, symmetric] unfolding kept_noop_def m' a0_def by simp
    ultimately show ?thesis by (simp add: r manager_inv_def accepted_def)
  next
    case False
    show ?thesis
    proof (cases restartRequired)
      case True
      then have "schedule_restart env nx m = (r, m')"
        using res unfolding eq if_not_P [OF False] by simp
      from schedule_restart_inv [OF i okx this] show ?thesis by (cases r) (auto simp: accepted_def)
    next
      case False': False
      then have "publish env nx catalog autoMode (normalAttempts nx guard) guard invalidated fileUpdate m = (r, m')"
        using res unfolding eq if_not_P [OF False] by simp
      from publish_inv [OF i ip okx refl this] show ?thesis by (cases r) (auto simp: accepted_def)
    qed
  qed
  with nx show ?thesis by (cases r) auto
qed

lemma applyValidatedLocked_cases:
  assumes "applyValidatedLocked env next forceCheck m = (r, verdict, m')"
  obtains (early) e where "r = Inl e" and "unchanged m m'"
  | (finished) checked restartRequired telemetry fu catalog autoMode m1
      where "\<not> rt_InProgress (mg_restartStatus m)" and "Config_Validate (go_of env) (Config_Normalize next) = None"
        and "CompileCatalog (compile_of env) (cfg_Providers (Config_Normalize next)) = Inr catalog"
        and "checked \<longleftrightarrow> forceCheck \<or> cfg_Harnesses (rs_config (mg_current m)) \<noteq> cfg_Harnesses (Config_Normalize next)"
        and "harness_phase env checked telemetry (rs_config (mg_current m)) (Config_Normalize next) m = ((fu, verdict, None), m1)"
        and "restartRequired \<longleftrightarrow> serviceRestartRequired (cfg_Service (rs_config (mg_current m))) (cfg_Service (Config_Normalize next))"
        and "finishApply env checked restartRequired fu verdict (Config_Normalize next) catalog autoMode m1 = (r, m')"
proof -
  let ?n = "Config_Normalize next"
  define restartRequired where "restartRequired = serviceRestartRequired (cfg_Service (rs_config (mg_current m))) (cfg_Service ?n)"
  define telemetry where "telemetry = (\<not> restartRequired \<and> ActiveProfileChange (rs_config (mg_current m)) ?n = ActiveTelemetryChanged)"
  define checked where "checked = (forceCheck \<or> cfg_Harnesses (rs_config (mg_current m)) \<noteq> cfg_Harnesses ?n)"
  obtain fu v err m1 where h: "harness_phase env checked telemetry (rs_config (mg_current m)) ?n m = ((fu, v, err), m1)"
    by (metis prod.exhaust)
  have u: "unchanged m m1" by (rule harness_phase_unchanged [OF h])
  show thesis
  proof (cases "rt_InProgress (mg_restartStatus m)")
    case True
    with assms show thesis by (intro early) (auto simp: applyValidatedLocked_def)
  next
    case ip: False
    show thesis
    proof (cases "Config_Validate (go_of env) ?n")
      case (Some e)
      with assms ip show thesis by (intro early) (auto simp: applyValidatedLocked_def)
    next
      case v: None
      show thesis
      proof (cases "CompileCatalog (compile_of env) (cfg_Providers ?n)")
        case (Inl e)
        with assms ip v show thesis by (intro early) (auto simp: applyValidatedLocked_def)
      next
        case cat: (Inr catalog)
        show thesis
        proof (cases "compileAutoMode (compile_of env) (cfg_AutoMode ?n)")
          case (Inl e)
          with assms ip v cat show thesis by (intro early) (auto simp: applyValidatedLocked_def)
        next
          case auto: (Inr autoMode)
          have eq: "applyValidatedLocked env next forceCheck m =
              (case err of Some err \<Rightarrow> (Inl err, v, m1)
               | None \<Rightarrow> let (r, m) = finishApply env checked restartRequired fu v ?n catalog autoMode m1 in (r, v, m))"
            using ip v cat auto h unfolding applyValidatedLocked_def Let_def checked_def telemetry_def restartRequired_def
            by simp
          show thesis
          proof (cases err)
            case (Some e)
            with assms eq u show thesis by (intro early) auto
          next
            case None
            then have "v = verdict" "finishApply env checked restartRequired fu v ?n catalog autoMode m1 = (r, m')"
              using assms eq by (auto split: prod.splits)
            with None h ip v cat checked_def restartRequired_def show thesis by (intro finished) auto
          qed
        qed
      qed
    qed
  qed
qed

lemma applyValidatedLocked_inv:
  assumes i: "manager_inv env m" and a: "applyValidatedLocked env next forceCheck m = (r, verdict, m')"
  shows "manager_inv env m' \<and>
    (case r of Inl _ \<Rightarrow> unchanged m m' \<or> revoked m m'
     | Inr res \<Rightarrow> \<exists>n \<in> {Config_Normalize next, set_active_id [] (Config_Normalize next)}. accepted n res m m')"
  using a
proof (cases rule: applyValidatedLocked_cases)
  case (early e)
  with i show ?thesis by (simp add: unchanged_inv)
next
  case (finished checked restartRequired telemetry fu catalog autoMode m1)
  have u: "unchanged m m1" by (rule harness_phase_unchanged [OF finished(5)])
  have i1: "manager_inv env m1" using i u by (simp add: unchanged_inv)
  have ip: "\<not> rt_InProgress (mg_restartStatus m1)" using finished(1) u by (auto simp: unchanged_def)
  have "config_ok (go_of env) (Config_Normalize next)" using finished(2) by (simp add: Config_Validate_None)
  from finishApply_inv [OF i1 ip this _ finished(7)] show ?thesis
    using unchanged_trans [OF u] unchanged_revoked [OF u] accepted_unchanged [OF u] by (cases r) auto
qed

end
