(* ===== verification/Runtime_Startup.thy ===== *)
theory Runtime_Startup
  imports Runtime_Invariant
begin

text \<open>
  Package runtime, the start of the process (\<open>internal/runtime/startup.go\<close>) as \<open>internal/app/app.go\<close>
  runs it: the active configuration is loaded, a pending one left by a restart is tried first,
  the resources of the candidate are acquired and the manager is built, and only then the
  pending configuration is promoted; every failure on the way rolls back to the active one.

  The disk is the one the manager works on. \<open>be_inspect\<close> answers the check for a pending file,
  \<open>be_resources\<close> the four places where logs and the listener are acquired.
\<close>

record boot_env =
  be_inspect :: "string option"
  be_resources :: "nat \<Rightarrow> string option"
  be_text :: "runtime_error \<Rightarrow> string"

section \<open>The store before there is a manager\<close>

definition disk_call :: "files \<Rightarrow> nat \<times> files" where
  "disk_call d = (w_calls d, d\<lparr>w_calls := Suc (w_calls d)\<rparr>)"

definition Disk_Load :: "runtime_env \<Rightarrow> files \<Rightarrow> (string + Config) \<times> files" where
  "Disk_Load env d = (let (n, d) = disk_call d in (case re_load env n of Some err \<Rightarrow> Inl err | None \<Rightarrow> Inr (w_active d), d))"

definition Disk_LoadPending :: "runtime_env \<Rightarrow> files \<Rightarrow> (string + Config) \<times> files" where
  "Disk_LoadPending env d =
     (let (n, d) = disk_call d in
      case w_pending d of
        None \<Rightarrow> (Inl ''file does not exist'', d)
      | Some cfg \<Rightarrow> (case re_load env n of Some err \<Rightarrow> (Inl err, d) | None \<Rightarrow> (Inr cfg, d)))"

definition Disk_RemovePending :: "runtime_env \<Rightarrow> files \<Rightarrow> string option \<times> files" where
  "Disk_RemovePending env d =
     (let (n, d) = disk_call d in
      case w_pending d of
        None \<Rightarrow> (None, d)
      | Some _ \<Rightarrow> (case re_remove env n of Some err \<Rightarrow> (Some err, d) | None \<Rightarrow> (None, written (d\<lparr>w_pending := None\<rparr>))))"

definition Disk_PromotePending :: "runtime_env \<Rightarrow> files \<Rightarrow> string option \<times> files" where
  "Disk_PromotePending env d =
     (let (loaded, d) = Disk_LoadPending env d in
      case loaded of
        Inl err \<Rightarrow> (Some err, d)
      | Inr cfg \<Rightarrow>
        let (n, d) = disk_call d in
        case re_promote env n of Some err \<Rightarrow> (Some err, d) | None \<Rightarrow> (None, written (d\<lparr>w_active := cfg, w_pending := None\<rparr>)))"

section \<open>The startup candidate\<close>

record StartupCandidate =
  su_store :: files
  su_activeConfig :: Config
  su_activeCatalog :: Catalog
  su_activeAutoMode :: CompiledAutoMode
  su_config :: Config
  su_catalog :: Catalog
  su_autoMode :: CompiledAutoMode
  su_fromPending :: bool
  su_pendingBlocked :: bool
  su_warning :: "string option"

text \<open>The three places where an unusable pending configuration is discarded.\<close>

definition discard_pending :: "runtime_env \<Rightarrow> string \<Rightarrow> StartupCandidate \<Rightarrow> StartupCandidate" where
  "discard_pending env warning c =
     (let (removeErr, d) = Disk_RemovePending env (su_store c) in
      case removeErr of
        None \<Rightarrow> c\<lparr>su_store := d, su_warning := Some warning\<rparr>
      | Some e \<Rightarrow> c\<lparr>su_store := d, su_warning := Some (warning @ ''; remove pending: '' @ e), su_pendingBlocked := True\<rparr>)"

definition try_pending :: "runtime_env \<Rightarrow> StartupCandidate \<Rightarrow> StartupCandidate" where
  "try_pending env c =
     (let (loaded, d) = Disk_LoadPending env (su_store c); c = c\<lparr>su_store := d\<rparr> in
      case loaded of
        Inl err \<Rightarrow> discard_pending env (''discard invalid pending configuration: '' @ err) c
      | Inr pending \<Rightarrow>
      case CompileCatalog (compile_of env) (cfg_Providers pending) of
        Inl err \<Rightarrow> discard_pending env (''discard uncompilable pending configuration: '' @ compile_error_text err) c
      | Inr catalog \<Rightarrow>
      case compileAutoMode (compile_of env) (cfg_AutoMode pending) of
        Inl err \<Rightarrow> discard_pending env (''discard uncompilable pending Auto Mode: '' @ compile_error_text err) c
      | Inr autoMode \<Rightarrow>
          c\<lparr>su_config := pending, su_catalog := catalog, su_autoMode := autoMode, su_fromPending := True\<rparr>)"

definition LoadStartup :: "runtime_env \<Rightarrow> boot_env \<Rightarrow> files \<Rightarrow> string + StartupCandidate" where
  "LoadStartup env be d =
     (case ce_contextError (compile_of env) of
        Some err \<Rightarrow> Inl (''runtime context: '' @ err)
      | None \<Rightarrow>
      let (loaded, d) = Disk_Load env d in
      case loaded of
        Inl err \<Rightarrow> Inl (''load active configuration: '' @ err)
      | Inr active \<Rightarrow>
      case CompileCatalog (compile_of env) (cfg_Providers active) of
        Inl err \<Rightarrow> Inl (''compile active configuration: '' @ compile_error_text err)
      | Inr catalog \<Rightarrow>
      case compileAutoMode (compile_of env) (cfg_AutoMode active) of
        Inl err \<Rightarrow> Inl (''compile active Auto Mode: '' @ compile_error_text err)
      | Inr autoMode \<Rightarrow>
      let candidate = \<lparr> su_store = d, su_activeConfig = active, su_activeCatalog = catalog, su_activeAutoMode = autoMode,
            su_config = active, su_catalog = catalog, su_autoMode = autoMode, su_fromPending = False, su_pendingBlocked = False,
            su_warning = None \<rparr>
      in case be_inspect be of
           Some err \<Rightarrow> Inl (''inspect pending configuration: '' @ err)
         | None \<Rightarrow> if w_pending d = None then Inr candidate else Inr (try_pending env candidate))"

definition Promote :: "runtime_env \<Rightarrow> StartupCandidate \<Rightarrow> string option \<times> StartupCandidate" where
  "Promote env c =
     (if \<not> su_fromPending c then (None, c)
      else
        let (err, d) = Disk_PromotePending env (su_store c); c = c\<lparr>su_store := d\<rparr> in
        case err of
          Some e \<Rightarrow> (Some (''promote pending configuration: '' @ e), c)
        | None \<Rightarrow> (None, c\<lparr>su_activeConfig := su_config c, su_activeCatalog := su_catalog c, su_activeAutoMode := su_autoMode c,
                          su_fromPending := False, su_pendingBlocked := False\<rparr>))"

definition Rollback :: "runtime_env \<Rightarrow> string option \<Rightarrow> StartupCandidate \<Rightarrow> string option \<times> StartupCandidate" where
  "Rollback env cause c =
     (if \<not> su_fromPending c then (None, c)
      else
        let (removeErr, d) = Disk_RemovePending env (su_store c);
            c = c\<lparr>su_store := d, su_config := su_activeConfig c, su_catalog := su_activeCatalog c, su_autoMode := su_activeAutoMode c,
                  su_fromPending := False, su_warning := cause\<rparr>
        in (removeErr,
            case removeErr of
              None \<Rightarrow> c
            | Some e \<Rightarrow> c\<lparr>su_pendingBlocked := True,
                          su_warning := Some (case cause of Some w \<Rightarrow> w @ ''; remove pending: '' @ e | None \<Rightarrow> ''remove pending: '' @ e)\<rparr>))"

section \<open>The start\<close>

text \<open>\<open>buildManager\<close> of \<open>app.go\<close>; the validator, the updater and the restart function are supplied.\<close>

definition buildManager :: "runtime_env \<Rightarrow> StartupCandidate \<Rightarrow> runtime_error + Manager" where
  "buildManager env c =
     NewManager env (su_config c) True True True (Some DefaultClassifierAttemptPolicy) (su_warning c) (su_pendingBlocked c) (su_store c)"

text \<open>The candidate is rolled back, resources are acquired again, and the manager is built again.\<close>

definition fall_back :: "runtime_env \<Rightarrow> boot_env \<Rightarrow> nat \<Rightarrow> string \<Rightarrow> StartupCandidate \<Rightarrow> string + Manager" where
  "fall_back env be site cause c =
     (let c = snd (Rollback env (Some cause) c) in
      case be_resources be site of
        Some e \<Rightarrow> Inl e
      | None \<Rightarrow> (case buildManager env c of Inl e \<Rightarrow> Inl (be_text be e) | Inr m \<Rightarrow> Inr m))"

definition commit_candidate :: "runtime_env \<Rightarrow> boot_env \<Rightarrow> StartupCandidate \<Rightarrow> Manager \<Rightarrow> string + Manager" where
  "commit_candidate env be c m =
     (let c = c\<lparr>su_store := mg_files m\<rparr> in
      if \<not> su_fromPending c then Inr m
      else case Promote env c of
        (None, c) \<Rightarrow> Inr (m\<lparr>mg_files := su_store c\<rparr>)
      | (Some e, c) \<Rightarrow> fall_back env be 3 e c)"

definition start_manager :: "runtime_env \<Rightarrow> boot_env \<Rightarrow> StartupCandidate \<Rightarrow> string + Manager" where
  "start_manager env be c =
     (case buildManager env c of
        Inr m \<Rightarrow> commit_candidate env be c m
      | Inl e \<Rightarrow> if su_fromPending c then fall_back env be 2 (be_text be e) c else Inl (be_text be e))"

definition boot :: "runtime_env \<Rightarrow> boot_env \<Rightarrow> files \<Rightarrow> string + Manager" where
  "boot env be d =
     (case LoadStartup env be d of
        Inl e \<Rightarrow> Inl e
      | Inr c \<Rightarrow>
        case be_resources be 0 of
          None \<Rightarrow> start_manager env be c
        | Some e \<Rightarrow>
            if \<not> su_fromPending c then Inl e
            else
              let c = snd (Rollback env (Some e) c) in
              case be_resources be 1 of Some e \<Rightarrow> Inl e | None \<Rightarrow> start_manager env be c)"

section \<open>A new manager\<close>

lemma NewManager_inv:
  assumes "NewManager env initial hv hu hr classifier initialError initialPending disk = Inr m"
    and "w_active disk = Config_Normalize initial" and "initialPending \<longleftrightarrow> w_pending disk \<noteq> None"
    and "\<forall>p. w_pending disk = Some p \<longrightarrow> config_ok (go_of env) p \<and> Config_Normalize p = p"
  shows "manager_inv env m"
proof -
  let ?n = "Config_Normalize initial"
  obtain s cl cat am t where v: "Config_Validate (go_of env) ?n = None"
    and s: "newSnapshotWithAuto (re_scan env) None 1 ?n cat am defaultNormalAttemptPolicy cl t = Inr s"
    and m: "mg_current m = s" "mg_revision m = 1" "mg_classifierAttempts m = cl" "mg_activeProfileInvalid m \<longleftrightarrow> active_id ?n \<noteq> []"
      "w_active (mg_files m) = w_active disk" "w_pending (mg_files m) = w_pending disk" "\<not> mg_restartTriggered m"
      "rt_InProgress (mg_restartStatus m) \<longleftrightarrow> initialPending" "rt_Pending (mg_restartStatus m) \<longleftrightarrow> initialPending"
    using assms(1) unfolding NewManager_def Let_def
    by (cases initialError; cases initialPending) (auto simp: idleStatus_def split: option.splits sum.splits if_splits)
  note fields = newSnapshot_fields [OF s]
  have "config_published env m"
    using v fields m assms(2) by (simp add: config_published_def Config_Validate_None)
  moreover have "budget_ok m" using fields m by (simp add: budget_ok_def normalAttempts_def)
  moreover have "restart_ok env m" using m assms(3,4) by (simp add: restart_ok_def)
  ultimately show ?thesis by (simp add: manager_inv_def)
qed

text \<open>Whether a manager can be built does not depend on the disk or on what happened before.\<close>

lemma NewManager_disk:
  assumes "NewManager env cfg hv hu hr cl err pend d = Inr m" and "w_calls d' = w_calls d"
  shows "NewManager env cfg hv hu hr cl err pend d' = Inr (m\<lparr>mg_files := d'\<lparr>w_calls := Suc (w_calls d')\<rparr>\<rparr>)"
  using assms unfolding NewManager_def Let_def by (auto split: option.splits sum.splits if_splits)

lemma NewManager_again:
  assumes "NewManager env cfg hv hu hr cl err pend d = Inr m"
  shows "\<exists>m'. NewManager env cfg hv hu hr cl err' pend' d' = Inr m'"
  using assms unfolding NewManager_def newSnapshotWithAuto_def Let_def by (auto split: option.splits sum.splits if_splits)

lemma NewManager_files:
  "NewManager env cfg hv hu hr cl err pend d = Inr m \<Longrightarrow>
     mg_files m = d\<lparr>w_calls := Suc (w_calls d)\<rparr> \<and> rs_config (mg_current m) = Config_Normalize cfg"
  unfolding NewManager_def newSnapshotWithAuto_def Let_def by (auto split: option.splits sum.splits if_splits)

section \<open>Recovery\<close>

text \<open>What every disk a manager works on satisfies.\<close>

definition disk_ok :: "runtime_env \<Rightarrow> files \<Rightarrow> bool" where
  "disk_ok env d \<longleftrightarrow>
     config_ok (go_of env) (w_active d) \<and> Config_Normalize (w_active d) = w_active d \<and>
     (\<forall>p. w_pending d = Some p \<longrightarrow> config_ok (go_of env) p \<and> Config_Normalize p = p)"

definition candidate_ok :: "runtime_env \<Rightarrow> files \<Rightarrow> StartupCandidate \<Rightarrow> bool" where
  "candidate_ok env d c \<longleftrightarrow>
     disk_ok env (su_store c) \<and> w_active (su_store c) = w_active d \<and> su_activeConfig c = w_active d \<and>
     (if su_fromPending c then w_pending (su_store c) = Some (su_config c) \<and> w_pending d = Some (su_config c) \<and> \<not> su_pendingBlocked c
      else su_config c = w_active d \<and> (su_pendingBlocked c \<longleftrightarrow> w_pending (su_store c) \<noteq> None))"

lemma Disk_RemovePending_cases:
  assumes "Disk_RemovePending env d = (err, d')"
  obtains (removed) "err = None" and "w_active d' = w_active d" and "w_pending d' = None"
  | (failed) e where "err = Some e" and "w_active d' = w_active d" and "w_pending d' = w_pending d" and "w_pending d \<noteq> None"
proof (cases "w_pending d = None \<or> re_remove env (w_calls d) = None")
  case True
  with assms show ?thesis by (intro removed) (auto simp: Disk_RemovePending_def disk_call_def written_def split: option.splits)
next
  case False
  then obtain p e where "w_pending d = Some p" "re_remove env (w_calls d) = Some e" by auto
  with assms show ?thesis by (intro failed [of e]) (auto simp: Disk_RemovePending_def disk_call_def written_def)
qed

lemma Disk_LoadPending_cases:
  assumes "Disk_LoadPending env d = (r, d')"
  shows "w_active d' = w_active d" and "w_pending d' = w_pending d" and "r = Inr cfg \<Longrightarrow> w_pending d = Some cfg"
  using assms by (auto simp: Disk_LoadPending_def disk_call_def split: option.splits)

lemma Disk_PromotePending_cases:
  assumes "Disk_PromotePending env d = (err, d')"
  obtains (failed) e where "err = Some e" and "w_active d' = w_active d" and "w_pending d' = w_pending d"
  | (promoted) cfg where "err = None" and "w_pending d = Some cfg" and "w_active d' = cfg" and "w_pending d' = None"
proof -
  obtain r d1 where l: "Disk_LoadPending env d = (r, d1)" by force
  note ld = Disk_LoadPending_cases [OF l]
  show thesis
  proof (cases r)
    case (Inl e)
    with assms l ld(1,2) show ?thesis by (intro failed) (auto simp: Disk_PromotePending_def)
  next
    case (Inr cfg)
    show ?thesis
    proof (cases "re_promote env (w_calls d1)")
      case None
      with assms l ld Inr show ?thesis by (intro promoted [of cfg]) (auto simp: Disk_PromotePending_def disk_call_def written_def)
    next
      case (Some e)
      with assms l ld Inr show ?thesis by (intro failed [of e]) (auto simp: Disk_PromotePending_def disk_call_def written_def)
    qed
  qed
qed

lemma discard_pending_ok:
  assumes "disk_ok env (su_store c)" and "w_active (su_store c) = w_active d" and "su_activeConfig c = w_active d"
    and "su_config c = w_active d" and "\<not> su_fromPending c" and "\<not> su_pendingBlocked c"
  shows "candidate_ok env d (discard_pending env w c)"
proof -
  obtain err d' where r: "Disk_RemovePending env (su_store c) = (err, d')" by force
  from r show ?thesis
    by (cases rule: Disk_RemovePending_cases) (use assms in \<open>auto simp: discard_pending_def candidate_ok_def disk_ok_def r\<close>)
qed

lemma LoadStartup_ok:
  assumes "disk_ok env d" and "LoadStartup env be d = Inr c"
  shows "candidate_ok env d c"
proof -
  obtain catalog autoMode where c: "c = (let c0 = \<lparr> su_store = d\<lparr>w_calls := Suc (w_calls d)\<rparr>, su_activeConfig = w_active d, su_activeCatalog = catalog,
      su_activeAutoMode = autoMode, su_config = w_active d, su_catalog = catalog, su_autoMode = autoMode, su_fromPending = False,
      su_pendingBlocked = False, su_warning = None \<rparr> in if w_pending d = None then c0 else try_pending env c0)" (is "c = (let c0 = ?c0 in _)")
    using assms(2) unfolding Let_def
    by (auto simp: LoadStartup_def Disk_Load_def disk_call_def Let_def split: option.splits sum.splits if_splits)
  show ?thesis
  proof (cases "w_pending d")
    case None
    with c assms(1) show ?thesis by (simp add: candidate_ok_def disk_ok_def)
  next
    case (Some p)
    obtain r d1 where l: "Disk_LoadPending env (su_store ?c0) = (r, d1)" by force
    note ld = Disk_LoadPending_cases [OF l]
    let ?c1 = "?c0\<lparr>su_store := d1\<rparr>"
    have d1: "disk_ok env d1" "w_active d1 = w_active d" "w_pending d1 = Some p" using assms(1) ld(1,2) Some by (simp_all add: disk_ok_def)
    have discard: "candidate_ok env d (discard_pending env w ?c1)" for w by (rule discard_pending_ok) (use d1 in simp_all)
    have "r = Inr q \<Longrightarrow> q = p" for q using ld(3) [of q] Some by simp
    then have "candidate_ok env d (try_pending env ?c0)"
      unfolding try_pending_def l Let_def prod.case
      using discard d1 Some by (auto simp: candidate_ok_def split: sum.split)
    with c Some show ?thesis by simp
  qed
qed

lemma Rollback_ok:
  assumes "candidate_ok env d c"
  shows "candidate_ok env d (snd (Rollback env cause c))" and "\<not> su_fromPending (snd (Rollback env cause c))"
proof -
  obtain err d' where r: "Disk_RemovePending env (su_store c) = (err, d')" by force
  show "candidate_ok env d (snd (Rollback env cause c))"
    using r by (cases rule: Disk_RemovePending_cases) (use assms in \<open>auto simp: Rollback_def candidate_ok_def disk_ok_def r\<close>)
  show "\<not> su_fromPending (snd (Rollback env cause c))"
    by (auto simp: Rollback_def r Let_def split: option.split)
qed

text \<open>The active configuration, when nothing is left to promote.\<close>

lemma buildManager_active:
  assumes "candidate_ok env d c" and "\<not> su_fromPending c" and "buildManager env c = Inr m"
  shows "manager_inv env m \<and> rs_config (mg_current m) = w_active d"
proof -
  have c: "su_config c = w_active d" "Config_Normalize (w_active d) = w_active d" "w_active (su_store c) = w_active d"
    "su_pendingBlocked c \<longleftrightarrow> w_pending (su_store c) \<noteq> None" "disk_ok env (su_store c)"
    using assms(1,2) by (auto simp: candidate_ok_def disk_ok_def)
  from NewManager_inv [OF assms(3) [unfolded buildManager_def]] NewManager_files [OF assms(3) [unfolded buildManager_def]] c
  show ?thesis by (simp add: disk_ok_def)
qed

lemma fall_back_ok:
  assumes "candidate_ok env d c" and "fall_back env be site cause c = Inr m"
  shows "manager_inv env m \<and> rs_config (mg_current m) = w_active d"
  using buildManager_active [OF Rollback_ok [OF assms(1), of "Some cause"]] assms(2)
  by (auto simp: fall_back_def Let_def split: option.splits sum.splits)

lemma promoted_inv:
  assumes "candidate_ok env d c" and "su_fromPending c" and "buildManager env c = Inr m"
    and "w_active f = su_config c" and "w_pending f = None"
  shows "manager_inv env (m\<lparr>mg_files := f\<rparr>) \<and> rs_config (mg_current m) = su_config c"
proof -
  let ?d = "f\<lparr>w_calls := w_calls (su_store c)\<rparr>"
  have c: "Config_Normalize (su_config c) = su_config c" "\<not> su_pendingBlocked c"
    using assms(1,2) by (auto simp: candidate_ok_def disk_ok_def)
  let ?m = "m\<lparr>mg_files := ?d\<lparr>w_calls := Suc (w_calls ?d)\<rparr>\<rparr>"
  have "manager_inv env ?m"
    by (rule NewManager_inv [OF NewManager_disk [OF assms(3) [unfolded buildManager_def]]]) (use assms(4,5) c in simp_all)
  then have "manager_inv env (m\<lparr>mg_files := f\<rparr>)" using assms(5) by (auto simp: manager_inv_defs)
  with NewManager_files [OF assms(3) [unfolded buildManager_def]] c show ?thesis by simp
qed

lemma start_manager_ok:
  assumes c: "candidate_ok env d c" and "start_manager env be c = Inr m"
  shows "manager_inv env m \<and> (rs_config (mg_current m) = w_active d \<or> w_pending d = Some (rs_config (mg_current m)))"
proof (cases "su_fromPending c")
  case False
  with assms show ?thesis
    using buildManager_active [OF c False] by (auto simp: start_manager_def commit_candidate_def Let_def split: sum.splits)
next
  case True
  then have cp: "w_pending (su_store c) = Some (su_config c)" "w_pending d = Some (su_config c)" using c by (simp_all add: candidate_ok_def)
  show ?thesis
  proof (cases "buildManager env c")
    case (Inl e)
    with assms(2) True fall_back_ok [OF c] show ?thesis by (auto simp: start_manager_def)
  next
    case (Inr m0)
    let ?c = "c\<lparr>su_store := mg_files m0\<rparr>"
    have f0: "w_active (mg_files m0) = w_active (su_store c)" "w_pending (mg_files m0) = w_pending (su_store c)"
      using NewManager_files [OF Inr [unfolded buildManager_def]] by simp_all
    have c0: "candidate_ok env d ?c" using c f0 by (auto simp: candidate_ok_def disk_ok_def)
    obtain err f where p: "Disk_PromotePending env (mg_files m0) = (err, f)" by force
    from p show ?thesis
    proof (cases rule: Disk_PromotePending_cases)
      case (failed e)
      have "candidate_ok env d (?c\<lparr>su_store := f\<rparr>)" using c0 failed by (auto simp: candidate_ok_def disk_ok_def)
      from fall_back_ok [OF this] assms(2) True Inr p failed show ?thesis
        by (auto simp: start_manager_def commit_candidate_def Promote_def Let_def)
    next
      case (promoted cfg)
      with cp f0 have "cfg = su_config c" by simp
      with promoted_inv [OF c True Inr, of f] assms(2) True Inr p promoted cp show ?thesis
        by (auto simp: start_manager_def commit_candidate_def Promote_def Let_def)
    qed
  qed
qed

lemma boot_ok:
  assumes "disk_ok env d" and "boot env be d = Inr m"
  shows "manager_inv env m \<and> (rs_config (mg_current m) = w_active d \<or> w_pending d = Some (rs_config (mg_current m)))"
proof -
  from assms(2) obtain c where l: "LoadStartup env be d = Inr c" by (auto simp: boot_def split: sum.splits)
  note c = LoadStartup_ok [OF assms(1) l]
  show ?thesis
    using assms(2) start_manager_ok [OF c] start_manager_ok [OF Rollback_ok(1) [OF c]]
    by (auto simp: boot_def l Let_def split: option.splits if_splits)
qed

text \<open>
  Nothing about a pending configuration keeps the process from starting on the active one:
  \<open>bootable\<close> says that the active configuration can be read, compiled and built.
\<close>

definition bootable :: "runtime_env \<Rightarrow> boot_env \<Rightarrow> files \<Rightarrow> bool" where
  "bootable env be d \<longleftrightarrow>
     be_inspect be = None \<and> re_load env (w_calls d) = None \<and>
     (\<exists>m. NewManager env (w_active d) True True True (Some DefaultClassifierAttemptPolicy) None False d = Inr m)"

lemma bootable_load:
  assumes "disk_ok env d" and "bootable env be d"
  shows "\<exists>c. LoadStartup env be d = Inr c"
proof -
  from assms(2) obtain m where m: "NewManager env (w_active d) True True True (Some DefaultClassifierAttemptPolicy) None False d = Inr m"
    by (auto simp: bootable_def)
  have n: "Config_Normalize (w_active d) = w_active d" using assms(1) by (simp add: disk_ok_def)
  from m have "ce_contextError (compile_of env) = None" "\<exists>cat. CompileCatalog (compile_of env) (cfg_Providers (w_active d)) = Inr cat"
    "\<exists>am. compileAutoMode (compile_of env) (cfg_AutoMode (w_active d)) = Inr am"
    unfolding NewManager_def Let_def n by (auto split: option.splits sum.splits if_splits)
  with assms(2) show ?thesis
    by (auto simp: LoadStartup_def bootable_def Disk_Load_def disk_call_def Let_def)
qed

lemma bootable_build:
  assumes "bootable env be d" and "su_config c = w_active d"
  shows "\<exists>m. buildManager env c = Inr m"
  using assms NewManager_again unfolding buildManager_def bootable_def by metis

lemma fall_back_returns:
  assumes "bootable env be d" and "candidate_ok env d c" and "be_resources be site = None"
  shows "\<exists>m. fall_back env be site cause c = Inr m"
proof -
  have "su_config (snd (Rollback env (Some cause) c)) = w_active d"
    using Rollback_ok [OF assms(2), of "Some cause"] by (simp add: candidate_ok_def)
  from bootable_build [OF assms(1) this] assms(3) show ?thesis by (auto simp: fall_back_def Let_def)
qed

lemma start_manager_returns:
  assumes "bootable env be d" and "candidate_ok env d c" and "\<forall>n \<ge> 1. be_resources be n = None"
  shows "\<exists>m. start_manager env be c = Inr m"
proof (cases "su_fromPending c")
  case False
  then have "su_config c = w_active d" using assms(2) by (simp add: candidate_ok_def)
  from bootable_build [OF assms(1) this] False show ?thesis
    by (auto simp: start_manager_def commit_candidate_def Let_def)
next
  case True
  note fb = fall_back_returns [OF assms(1)]
  show ?thesis
  proof (cases "buildManager env c")
    case (Inl e)
    with fb [OF assms(2), of 2] assms(3) True show ?thesis by (simp add: start_manager_def)
  next
    case (Inr m)
    let ?c = "c\<lparr>su_store := mg_files m\<rparr>"
    have c0: "candidate_ok env d ?c"
      using assms(2) NewManager_files [OF Inr [unfolded buildManager_def]] by (auto simp: candidate_ok_def disk_ok_def)
    obtain err f where p: "Disk_PromotePending env (mg_files m) = (err, f)" by force
    show ?thesis
    proof (cases err)
      case None
      with True Inr p show ?thesis by (auto simp: start_manager_def commit_candidate_def Promote_def Let_def)
    next
      case (Some e)
      with p have "w_active f = w_active (mg_files m)" "w_pending f = w_pending (mg_files m)"
        by (auto elim: Disk_PromotePending_cases)
      with c0 have "candidate_ok env d (?c\<lparr>su_store := f\<rparr>)" by (auto simp: candidate_ok_def disk_ok_def)
      from fb [OF this, of 3] assms(3) True Inr p Some show ?thesis
        by (auto simp: start_manager_def commit_candidate_def Promote_def Let_def)
    qed
  qed
qed

lemma boot_returns:
  assumes "disk_ok env d" and "bootable env be d" and "\<forall>n \<ge> 1. be_resources be n = None"
    and "\<And>c. LoadStartup env be d = Inr c \<Longrightarrow> \<not> su_fromPending c \<Longrightarrow> be_resources be 0 = None"
  shows "\<exists>m. boot env be d = Inr m"
proof -
  from bootable_load [OF assms(1,2)] obtain c where l: "LoadStartup env be d = Inr c" by blast
  note c = LoadStartup_ok [OF assms(1) l]
  show ?thesis
    using start_manager_returns [OF assms(2) c assms(3)] start_manager_returns [OF assms(2) Rollback_ok(1) [OF c] assms(3)] assms(3) assms(4) [OF l]
    by (cases "be_resources be 0") (auto simp: boot_def l Let_def)
qed

end
