(* ===== verification/Runtime_Properties.thy ===== *)
theory Runtime_Properties
  imports Runtime_Startup
begin

text \<open>
  Properties of the runtime manager over any sequence of its public operations: the published
  state is valid and equals the file, a failure never publishes anything, a profile budget is
  served only after a check that found the harness in sync, and a stale precondition changes
  nothing.
\<close>

section \<open>The remaining operations keep the invariant\<close>

lemma restartFailedLocked_inv:
  assumes "manager_inv env m" and "restartFailedLocked env cause m = (e, m')"
  shows "manager_inv env m' \<and> mg_current m' = mg_current m \<and> w_active (mg_files m') = w_active (mg_files m) \<and>
    mg_activeProfileInvalid m' = mg_activeProfileInvalid m \<and> mg_revision m' = mg_revision m \<and>
    \<not> mg_restartTriggered m' \<and> (rt_InProgress (mg_restartStatus m') \<longleftrightarrow> e \<noteq> None) \<and>
    w_pending (mg_files m') = (if e = None then None else w_pending (mg_files m)) \<and>
    (e \<noteq> None \<longrightarrow> w_pending (mg_files m) \<noteq> None)"
proof -
  obtain rerr m1 where rm: "Store_RemovePending env m = (rerr, m1)" by force
  define msg where "msg = (let t = (case cause of None \<Rightarrow> ''restart failed'' | Some c \<Rightarrow> c) in
    case rerr of None \<Rightarrow> t | Some x \<Rightarrow> t @ ''; remove pending: '' @ x)"
  have m': "m' = m1\<lparr>mg_restartTriggered := False, mg_restartStatus := \<lparr> rt_State = ''failed'', rt_InProgress = (rerr \<noteq> None),
      rt_Pending = (rerr \<noteq> None), rt_RequestedAt = None, rt_LastError = msg \<rparr>\<rparr>" and e: "e = rerr"
    using assms(2) rm by (auto simp: restartFailedLocked_def Let_def msg_def)
  have m1: "mg_current m1 = mg_current m \<and> w_active (mg_files m1) = w_active (mg_files m) \<and> mg_revision m1 = mg_revision m \<and>
      mg_classifierAttempts m1 = mg_classifierAttempts m \<and> mg_activeProfileInvalid m1 = mg_activeProfileInvalid m \<and>
      w_pending (mg_files m1) = (if rerr = None then None else w_pending (mg_files m)) \<and>
      (rerr \<noteq> None \<longrightarrow> w_pending (mg_files m) \<noteq> None)"
    using rm by (cases rule: Store_RemovePending_cases) auto
  then have f: "mg_current m' = mg_current m" "w_active (mg_files m') = w_active (mg_files m)" "mg_revision m' = mg_revision m"
    "mg_classifierAttempts m' = mg_classifierAttempts m" "mg_activeProfileInvalid m' = mg_activeProfileInvalid m"
    and p: "w_pending (mg_files m') = (if rerr = None then None else w_pending (mg_files m))"
      "rerr \<noteq> None \<Longrightarrow> w_pending (mg_files m) \<noteq> None"
    unfolding m' by simp_all
  have "config_published env m'" using assms(1) config_published_cong [OF f(1-4), of env] by (simp add: manager_inv_def)
  moreover have "budget_ok m'" using assms(1) f by (simp add: manager_inv_def budget_ok_def)
  moreover have "restart_ok env m'"
    using assms(1) p unfolding manager_inv_def restart_ok_def by (cases "rerr = None") (auto simp: m')
  ultimately show ?thesis using f p by (simp add: manager_inv_def m' e)
qed

lemma PrepareRestart_inv:
  assumes "manager_inv env m" and "PrepareRestart env m = (r, m')"
  shows "manager_inv env m' \<and> mg_current m' = mg_current m"
proof (cases "rt_InProgress (mg_restartStatus m) \<and> rt_Pending (mg_restartStatus m) \<and> \<not> mg_restartTriggered m")
  case False
  then have "m' = m" using assms(2) by (auto simp: PrepareRestart_def split: if_splits)
  with assms(1) show ?thesis by simp
next
  case True
  show ?thesis
  proof (cases "mg_hasRestart m")
    case False
    obtain e m1 where f: "restartFailedLocked env (Some ''restart is not configured'') m = (e, m1)" by force
    with True False assms(2) have "m' = m1" by (simp add: PrepareRestart_def)
    with restartFailedLocked_inv [OF assms(1) f] show ?thesis by simp
  next
    case hr: True
    define m1 where "m1 = m\<lparr>mg_restartTriggered := True, mg_restartStatus := (mg_restartStatus m)\<lparr>rt_State := ''restarting''\<rparr>\<rparr>"
    have "m' = m1" using True hr assms(2) by (simp add: PrepareRestart_def m1_def)
    moreover have "config_published env m1" "budget_ok m1"
      using assms(1) config_published_cong [of m1 m env] by (simp_all add: manager_inv_def budget_ok_def m1_def)
    moreover have "restart_ok env m1" using assms(1) True unfolding manager_inv_def restart_ok_def m1_def by auto
    ultimately show ?thesis by (simp add: manager_inv_def) (simp add: m1_def)
  qed
qed

definition promoted :: "Config \<Rightarrow> Manager \<Rightarrow> Manager \<Rightarrow> bool" where
  "promoted pending m m' \<longleftrightarrow>
     rs_config (mg_current m') = pending \<and> w_active (mg_files m') = pending \<and> w_pending (mg_files m') = None \<and>
     mg_revision m' = mg_revision m + 1 \<and> mg_activeProfileInvalid m' = mg_activeProfileInvalid m \<and>
     mg_restartStatus m' = idleStatus \<and>
     rs_normalAttempts (mg_current m') = normalAttempts pending (mg_activeProfileInvalid m)"

definition kept_waiting :: "Manager \<Rightarrow> Manager \<Rightarrow> bool" where
  "kept_waiting m m' \<longleftrightarrow>
     mg_current m' = mg_current m \<and> w_active (mg_files m') = w_active (mg_files m) \<and>
     w_pending (mg_files m') \<in> {None, w_pending (mg_files m)} \<and>
     (rt_InProgress (mg_restartStatus m') \<longleftrightarrow> w_pending (mg_files m') \<noteq> None)"

lemma kept_waiting_unchanged: "unchanged m m1 \<Longrightarrow> kept_waiting m1 m' \<Longrightarrow> kept_waiting m m'"
  by (auto simp: unchanged_def kept_waiting_def)

lemma restartFailedLocked_waiting:
  assumes "manager_inv env m" and "restartFailedLocked env cause m = (e, m')"
  shows "kept_waiting m m'"
  using restartFailedLocked_inv [OF assms] by (auto simp: kept_waiting_def)

lemma RestartSucceeded_inv:
  assumes i: "manager_inv env m" and r: "RestartSucceeded env m = (e, m')"
  shows "manager_inv env m' \<and>
    (if e = None then \<exists>p. w_pending (mg_files m) = Some p \<and> promoted p m m' else kept_waiting m m')"
proof -
  have failed: "manager_inv env (snd (restartFailedLocked env c m1)) \<and>
      kept_waiting m (snd (restartFailedLocked env c m1))" if "unchanged m m1" for c m1
  proof -
    have "manager_inv env m1" using i that by (auto simp: unchanged_def)
    with restartFailedLocked_inv [of env m1 c] restartFailedLocked_waiting [of env m1 c] kept_waiting_unchanged [OF that]
    show ?thesis by (cases "restartFailedLocked env c m1") auto
  qed
  obtain l m1 where ld: "Store_LoadPending env m = (l, m1)" by force
  note load = Store_LoadPending_cases [OF ld]
  have u1: "unchanged m m1" using load(1) unchangedI by simp
  show ?thesis
  proof (cases "rt_InProgress (mg_restartStatus m) \<and> rt_Pending (mg_restartStatus m)")
    case False
    then have "m' = m" "e \<noteq> None" using r by (auto simp: RestartSucceeded_def split: if_splits)
    moreover have "kept_waiting m m" using i by (auto simp: kept_waiting_def manager_inv_def restart_ok_def)
    ultimately show ?thesis using i by auto
  next
    case True
    note r1 = r [unfolded RestartSucceeded_def ld, simplified True, simplified]
    show ?thesis
    proof (cases l)
      case (Inl err)
      with r1 have "e \<noteq> None \<and> m' = snd (restartFailedLocked env (Some err) m1)" by auto
      with failed [OF u1] show ?thesis by auto
    next
      case l: (Inr p)
      have p: "w_pending (mg_files m) = Some p" by (rule load(2)) (rule l)
      then have pok: "config_ok (go_of env) p" "Config_Normalize p = p" using i by (auto simp: manager_inv_def restart_ok_def)
      show ?thesis
      proof (cases "CompileCatalog (compile_of env) (cfg_Providers p)")
        case (Inl err)
        with r1 l have "e \<noteq> None \<and> m' = snd (restartFailedLocked env (Some (compile_error_text err)) m1)" by auto
        with failed [OF u1] show ?thesis by auto
      next
        case cat: (Inr catalog)
        show ?thesis
        proof (cases "compileAutoMode (compile_of env) (cfg_AutoMode p)")
          case (Inl err)
          with r1 l cat have "e \<noteq> None \<and> m' = snd (restartFailedLocked env (Some (compile_error_text err)) m1)" by auto
          with failed [OF u1] show ?thesis by auto
        next
          case auto: (Inr autoMode)
          define m2 where "m2 = called m1"
          have u2: "unchanged m m2" using unchanged_trans [OF u1 unchangedI] by (simp add: m2_def)
          let ?new = "newSnapshotWithAuto (re_scan env) (Some (mg_current m2)) (mg_revision m2 + 1) p catalog autoMode
              (normalAttempts p (mg_activeProfileInvalid m1)) (mg_classifierAttempts m2) (re_now env (w_calls (mg_files m1)))"
          have same: "mg_activeProfileInvalid m1 = mg_activeProfileInvalid m" "mg_revision m2 = mg_revision m"
            "mg_classifierAttempts m2 = mg_classifierAttempts m" "mg_activeProfileInvalid m2 = mg_activeProfileInvalid m"
            using u1 u2 by (auto simp: unchanged_def)
          show ?thesis
          proof (cases ?new)
            case (Inl err)
            with r1 l cat auto have "e \<noteq> None \<and> m' = snd (restartFailedLocked env (Some (compile_error_text err)) m2)"
              by (auto simp: now_eq m2_def Let_def)
            with failed [OF u2] show ?thesis by auto
          next
            case new: (Inr s)
            note fields = newSnapshot_fields [OF new]
            obtain perr m3 where pr: "Store_PromotePending env m2 = (perr, m3)" by force
            from pr show ?thesis
            proof (cases rule: Store_PromotePending_cases)
              case (failed k)
              then obtain x where "perr = Some x" by auto
              with r1 l cat auto new pr have "e \<noteq> None \<and> m' = snd (restartFailedLocked env (Some x) m3)"
                by (auto simp: now_eq m2_def Let_def)
              moreover have "unchanged m m3" using unchanged_trans [OF u2 unchangedI] failed(2) by simp
              ultimately show ?thesis using \<open>\<And>m1 c. unchanged m m1 \<Longrightarrow> manager_inv env (snd (restartFailedLocked env c m1)) \<and>
                  kept_waiting m (snd (restartFailedLocked env c m1))\<close> by auto
            next
              case (promoted k c)
              have c: "c = p" using promoted(2) u2 p by (auto simp: unchanged_def)
              define m4 where "m4 = (rememberHarnessInvalidation (rs_config (mg_current m3)) p (m3\<lparr>mg_revision := mg_revision m3 + 1\<rparr>))
                  \<lparr>mg_current := s, mg_restartTriggered := False, mg_restartStatus := idleStatus\<rparr>"
              have em: "e = None \<and> m' = m4"
                using r1 l cat auto new pr promoted(1) by (auto simp: now_eq m2_def Let_def m4_def)
              have m4: "mg_current m4 = s" "w_active (mg_files m4) = p" "w_pending (mg_files m4) = None"
                "mg_revision m4 = mg_revision m + 1" "mg_activeProfileInvalid m4 = mg_activeProfileInvalid m"
                "mg_restartStatus m4 = idleStatus" "\<not> mg_restartTriggered m4" "mg_classifierAttempts m4 = mg_classifierAttempts m"
                using promoted(3) same c by (simp_all add: m4_def)
              have "manager_inv env m4" using m4 fields same pok by (simp add: manager_inv_defs idleStatus_def)
              moreover have "Runtime_Properties.promoted p m m4" using m4 fields same by (simp add: promoted_def)
              ultimately show ?thesis using em p by simp
            qed
          qed
        qed
      qed
    qed
  qed
qed

section \<open>Steps\<close>

text \<open>
  One public operation of the manager. The harness operations run inside
  \<open>WithHarnessMutation\<close>, which refuses while a restart is in progress; \<open>t\<close> is the transaction
  value. \<open>RestartFailed\<close> and \<open>RestartSucceeded\<close> are called when the restart function returns.
\<close>

inductive manager_step :: "runtime_env \<Rightarrow> Manager \<Rightarrow> Manager \<Rightarrow> bool" for env where
  Apply: "applyClientLocked env next m = (r, m') \<Longrightarrow> manager_step env m m'"
| ClientUpdate: "ApplyClientUpdateIfMatch env update condition m = (r, m') \<Longrightarrow> manager_step env m m'"
| Update: "UpdateIfMatch env condition mutator m = (r, m') \<Longrightarrow> manager_step env m m'"
| Reorder: "Manager_ReorderProviders env ids condition m = (r, m') \<Longrightarrow> manager_step env m m'"
| Activate: "\<not> rt_InProgress (mg_restartStatus m) \<Longrightarrow> setActiveProfileID env i t m = (e, t', m') \<Longrightarrow> manager_step env m m'"
| Harness: "\<not> rt_InProgress (mg_restartStatus m) \<Longrightarrow> UpdateHarness env hmut t m = (e, t', m') \<Longrightarrow> manager_step env m m'"
| Invalidate: "\<not> rt_InProgress (mg_restartStatus m) \<Longrightarrow> InvalidateActiveProfile env t m = (e, t', m') \<Longrightarrow> manager_step env m m'"
| ReconcileProfile: "\<not> rt_InProgress (mg_restartStatus m) \<Longrightarrow> ReconcileActiveProfile env t m = (v, t', m') \<Longrightarrow> manager_step env m m'"
| Prepare: "PrepareRestart env m = (s, m') \<Longrightarrow> manager_step env m m'"
| Failed: "restartFailedLocked env cause m = (ef, m') \<Longrightarrow> manager_step env m m'"
| Succeeded: "RestartSucceeded env m = (es, m') \<Longrightarrow> manager_step env m m'"

text \<open>
  How a step that runs \<open>applyValidatedLocked\<close> relates to it: it was not reached, or its result
  is the result of the step.
\<close>

definition via_apply :: "runtime_env \<Rightarrow> Manager \<Rightarrow> (runtime_error + ApplyResult) \<Rightarrow> Manager \<Rightarrow> bool" where
  "via_apply env m r m' \<longleftrightarrow>
     (\<exists>e. r = Inl e \<and> m' = m) \<or> (\<exists>next force verdict. applyValidatedLocked env next force m = (r, verdict, m'))"

lemma via_applyI: "applyValidatedLocked env next force m = (r, verdict, m') \<Longrightarrow> via_apply env m r m'"
  by (auto simp: via_apply_def)

lemma via_skip: "via_apply env m (Inl e) m"
  by (simp add: via_apply_def)

lemma applyLocked_via: "applyLocked env next m = (r, m') \<Longrightarrow> via_apply env m r m'"
  by (auto simp: applyLocked_def intro: via_applyI split: prod.splits)

lemma via_apply_inv:
  assumes "manager_inv env m" and "via_apply env m r m'"
  shows "manager_inv env m' \<and> (case r of Inl _ \<Rightarrow> unchanged m m' \<or> revoked m m' | Inr res \<Rightarrow> \<exists>n. accepted n res m m')"
  using assms(2) unfolding via_apply_def
proof (elim disjE exE conjE)
  fix e assume "r = Inl e" "m' = m"
  with assms(1) show ?thesis by simp
next
  fix nx force verdict assume "applyValidatedLocked env nx force m = (r, verdict, m')"
  from applyValidatedLocked_inv [OF assms(1) this] show ?thesis by (cases r) auto
qed

lemmas via_intros = via_applyI via_skip applyLocked_via

lemma applyClientLocked_via: "applyClientLocked env next m = (r, m') \<Longrightarrow> via_apply env m r m'"
  by (auto simp: applyClientLocked_def intro: via_intros split: sum.splits)

lemma ApplyClientUpdateIfMatch_via: "ApplyClientUpdateIfMatch env update condition m = (r, m') \<Longrightarrow> via_apply env m r m'"
  by (auto simp: ApplyClientUpdateIfMatch_def intro: via_intros split: if_splits sum.splits)

lemma UpdateIfMatch_via: "UpdateIfMatch env condition mutator m = (r, m') \<Longrightarrow> via_apply env m r m'"
  by (auto simp: UpdateIfMatch_def Let_def intro: via_intros split: if_splits sum.splits)

lemma ReorderProviders_via: "Manager_ReorderProviders env ids condition m = (r, m') \<Longrightarrow> via_apply env m r m'"
  by (auto simp: Manager_ReorderProviders_def Let_def intro: via_intros split: if_splits sum.splits)

lemma setActiveProfileID_via: "setActiveProfileID env i t m = (e, t', m') \<Longrightarrow> \<exists>r. via_apply env m r m'"
  by (auto simp: setActiveProfileID_def Let_def intro: via_intros split: if_splits sum.splits prod.splits)

lemma UpdateHarness_via: "UpdateHarness env hmut t m = (e, t', m') \<Longrightarrow> \<exists>r. via_apply env m r m'"
  by (auto simp: UpdateHarness_def Let_def intro: via_intros split: if_splits sum.splits prod.splits)

lemma ReconcileActiveProfile_via: "ReconcileActiveProfile env t m = (v, t', m') \<Longrightarrow> \<exists>r. via_apply env m r m'"
  by (auto simp: ReconcileActiveProfile_def Let_def intro: via_intros split: if_splits sum.splits prod.splits option.splits)

lemma manager_step_inv: "manager_step env m m' \<Longrightarrow> manager_inv env m \<Longrightarrow> manager_inv env m'"
proof (induction rule: manager_step.induct)
  case (Apply nx m r m')
  from via_apply_inv [OF this(2) applyClientLocked_via [OF this(1)]] show ?case by blast
next
  case (ClientUpdate update condition m r m')
  from via_apply_inv [OF this(2) ApplyClientUpdateIfMatch_via [OF this(1)]] show ?case by blast
next
  case (Update condition mutator m r m')
  from via_apply_inv [OF this(2) UpdateIfMatch_via [OF this(1)]] show ?case by blast
next
  case (Reorder ids condition m r m')
  from via_apply_inv [OF this(2) ReorderProviders_via [OF this(1)]] show ?case by blast
next
  case (Activate m i t e t' m')
  from setActiveProfileID_via [OF this(2)] via_apply_inv [OF this(3)] show ?case by blast
next
  case (Harness m hmut t e t' m')
  from UpdateHarness_via [OF this(2)] via_apply_inv [OF this(3)] show ?case by blast
next
  case (Invalidate m t e t' m')
  then have "manager_inv env (invalidatePolicyLocked env m)"
    by (intro invalidatePolicyLocked_inv) (simp_all add: manager_inv_def)
  from setActiveProfileID_via [OF Invalidate(2) [unfolded InvalidateActiveProfile_def]] via_apply_inv [OF this]
  show ?case by blast
next
  case (ReconcileProfile m t v t' m')
  from ReconcileActiveProfile_via [OF this(2)] via_apply_inv [OF this(3)] show ?case by blast
next
  case (Prepare m s m')
  from PrepareRestart_inv [OF this(2,1)] show ?case by blast
next
  case (Failed cause m ef m')
  from restartFailedLocked_inv [OF this(2,1)] show ?case by blast
next
  case (Succeeded m es m')
  from RestartSucceeded_inv [OF this(2,1)] show ?case by blast
qed

section \<open>Reachable states\<close>

text \<open>
  The manager starts on the active file it was loaded from; a pending file that survived the
  start is announced by \<open>initialPending\<close>.
\<close>

inductive manager_reachable :: "runtime_env \<Rightarrow> Manager \<Rightarrow> bool" for env where
  start: "NewManager env initial hv hu hr classifier initialError initialPending disk = Inr m \<Longrightarrow>
     w_active disk = Config_Normalize initial \<Longrightarrow> (initialPending \<longleftrightarrow> w_pending disk \<noteq> None) \<Longrightarrow>
     (\<forall>p. w_pending disk = Some p \<longrightarrow> config_ok (go_of env) p \<and> Config_Normalize p = p) \<Longrightarrow> manager_reachable env m"
| boot: "disk_ok env disk \<Longrightarrow> boot env be disk = Inr m \<Longrightarrow> manager_reachable env m"
| step: "manager_reachable env m \<Longrightarrow> manager_step env m m' \<Longrightarrow> manager_reachable env m'"

lemma reachable_inv: "manager_reachable env m \<Longrightarrow> manager_inv env m"
  by (induction rule: manager_reachable.induct) (auto intro: NewManager_inv manager_step_inv dest: boot_ok)

lemma reachable_disk_ok: "manager_reachable env m \<Longrightarrow> disk_ok env (mg_files m)"
  using reachable_inv by (auto simp: manager_inv_defs disk_ok_def)

text \<open>
  C1. Whatever operations the manager performs and however the file system, the harness and
  the restart fail in between, the published configuration is valid and normalized and equals
  the configuration file; the attempt budget is the one of the published configuration under
  the activation guard; and the manager refuses updates exactly while a pending file exists.
\<close>

theorem manager_reachable_ok:
  assumes "manager_reachable env m"
  shows "Config_Validate (go_of env) (rs_config (mg_current m)) = None \<and>
    w_active (mg_files m) = rs_config (mg_current m) \<and> rs_revision (mg_current m) = mg_revision m \<and>
    rs_normalAttempts (mg_current m) = normalAttempts (rs_config (mg_current m)) (mg_activeProfileInvalid m) \<and>
    (rt_InProgress (mg_restartStatus m) \<longleftrightarrow> w_pending (mg_files m) \<noteq> None)"
  using reachable_inv [OF assms] by (simp add: manager_inv_defs Config_Validate_None)

lemma ApplyClientUpdateIfMatch_applies:
  assumes "ApplyClientUpdateIfMatch env update condition m = (Inr res, m')"
  obtains prepared verdict where "ApplyClientRequest (go_of env) (rs_config (mg_current m)) update = Inr prepared"
    and "applyValidatedLocked env prepared False m = (Inr res, verdict, m')"
  using assms by (auto simp: ApplyClientUpdateIfMatch_def applyLocked_def split: if_splits sum.splits prod.splits)

text \<open>
  C2. An update is all or nothing. If it is refused or fails at any point, the published
  snapshot, the configuration file and the pending file are as before, except that a profile
  budget that could no longer be trusted may have been revoked. If it is accepted, the
  configuration the request asks for, possibly with the activation dropped because the harness
  is out of sync, is either already in force, or published and saved under the next revision,
  or saved as pending while the old one stays in force.
\<close>

theorem client_update_all_or_nothing:
  assumes "manager_reachable env m" and "ApplyClientUpdateIfMatch env update condition m = (r, m')"
  shows "manager_inv env m' \<and>
    (case r of
       Inl _ \<Rightarrow> unchanged m m' \<or> revoked m m'
     | Inr res \<Rightarrow> \<exists>prepared. ApplyClientRequest (go_of env) (rs_config (mg_current m)) update = Inr prepared \<and>
         (\<exists>n \<in> {Config_Normalize prepared, set_active_id [] (Config_Normalize prepared)}. accepted n res m m'))"
proof (cases r)
  case (Inl e)
  with via_apply_inv [OF reachable_inv [OF assms(1)] ApplyClientUpdateIfMatch_via [OF assms(2)]] show ?thesis by simp
next
  case (Inr res)
  with assms(2) have "ApplyClientUpdateIfMatch env update condition m = (Inr res, m')" by simp
  then obtain p v where p: "ApplyClientRequest (go_of env) (rs_config (mg_current m)) update = Inr p"
    and a: "applyValidatedLocked env p False m = (Inr res, v, m')" by (rule ApplyClientUpdateIfMatch_applies)
  from applyValidatedLocked_inv [OF reachable_inv [OF assms(1)] a] p Inr show ?thesis by simp
qed

section \<open>Activation\<close>

lemma normalAttempts_source:
  "na_Source (normalAttempts c invalid) = AttemptPolicyProfile \<Longrightarrow> \<not> invalid \<and> active_id c \<noteq> []"
  by (auto simp: normalAttempts_def defaultNormalAttemptPolicy_def split: if_splits)

lemma normalAttempts_cong: "cfg_Harnesses c = cfg_Harnesses d \<Longrightarrow> normalAttempts c invalid = normalAttempts d invalid"
  by (simp add: normalAttempts_def active_id_def)

lemma finishApply_source:
  assumes i: "manager_inv env m" and ip: "\<not> rt_InProgress (mg_restartStatus m)"
    and ok: "config_ok (go_of env) next" "Config_Normalize next = next"
    and ch: "\<not> checked \<Longrightarrow> cfg_Harnesses (rs_config (mg_current m)) = cfg_Harnesses next"
    and res: "finishApply env checked restartRequired fileUpdate verdict next catalog autoMode m = (r, m')"
    and before: "na_Source (rs_normalAttempts (mg_current m)) = AttemptPolicyDefault"
    and after: "na_Source (rs_normalAttempts (mg_current m')) = AttemptPolicyProfile"
  shows "checked \<and> hv_State verdict = ''in_sync'' \<and> rs_config (mg_current m') = next"
proof -
  define active where "active = (checked \<and> active_id next \<noteq> [])"
  define invalidated where "invalidated = (active \<and> hv_State verdict \<noteq> ''in_sync'')"
  define nx where "nx = (if invalidated then set_active_id [] next else next)"
  define guard where "guard = (if active then invalidated else mg_activeProfileInvalid m)"
  have okx: "config_ok (go_of env) nx" "Config_Normalize nx = nx"
    using ok config_ok_clear by (auto simp: nx_def Normalize_set_active_id)
  have eq: "finishApply env checked restartRequired fileUpdate verdict next catalog autoMode m =
      (if rs_config (mg_current m) = nx \<and> rs_normalAttempts (mg_current m) = normalAttempts nx guard then
         (Inr \<lparr> ar_Revision = rs_revision (mg_current m), ar_Applied = False, ar_RestartRequired = False,
                ar_Restarting = False, ar_ListenAddr = sv_ListenAddr (cfg_Service (rs_config (mg_current m))) \<rparr>,
          m\<lparr>mg_activeProfileInvalid := guard\<rparr>)
       else if \<not> restartRequired then publish env nx catalog autoMode (normalAttempts nx guard) guard invalidated fileUpdate m
       else schedule_restart env nx m)"
    unfolding finishApply_def Let_def guard_def nx_def invalidated_def active_def ..
  have cur: "mg_current m' \<noteq> mg_current m" using before after by auto
  have nr: "\<not> revoked m m'" using after by (auto simp: revoked_def defaultNormalAttemptPolicy_def)
  have nu: "\<not> unchanged m m'" using cur by (auto simp: unchanged_def)
  have noop: "\<not> (rs_config (mg_current m) = nx \<and> rs_normalAttempts (mg_current m) = normalAttempts nx guard)"
  proof
    assume t: "rs_config (mg_current m) = nx \<and> rs_normalAttempts (mg_current m) = normalAttempts nx guard"
    have "m' = m\<lparr>mg_activeProfileInvalid := guard\<rparr>" using res unfolding eq if_P [OF t] prod.inject by blast
    then show False using cur by simp
  qed
  have "\<not> restartRequired"
  proof
    assume restartRequired
    then have "schedule_restart env nx m = (r, m')" using res unfolding eq if_not_P [OF noop] by simp
    from schedule_restart_inv [OF i okx this] nu cur show False by (cases r) (auto simp: scheduled_def)
  qed
  then have "publish env nx catalog autoMode (normalAttempts nx guard) guard invalidated fileUpdate m = (r, m')"
    using res unfolding eq if_not_P [OF noop] by simp
  from publish_inv [OF i ip okx refl this] nu nr obtain a where a: "applied nx guard a m m'" by (cases r) auto
  then have src: "\<not> guard" "active_id nx \<noteq> []" and cfg: "rs_config (mg_current m') = nx"
    using after normalAttempts_source [of nx guard] by (auto simp: applied_def)
  then have ninv: "\<not> invalidated" by (auto simp: nx_def)
  have "active"
  proof (rule ccontr)
    assume "\<not> active"
    then have "\<not> checked" using src ninv by (auto simp: active_def nx_def)
    have "normalAttempts next (mg_activeProfileInvalid m) = rs_normalAttempts (mg_current m)"
      using normalAttempts_cong [OF ch [OF \<open>\<not> checked\<close>]] i by (simp add: manager_inv_def budget_ok_def)
    moreover have "rs_normalAttempts (mg_current m') = normalAttempts next (mg_activeProfileInvalid m)"
      using a ninv \<open>\<not> active\<close> by (simp add: applied_def guard_def nx_def)
    ultimately show False using before after by simp
  qed
  then show ?thesis using ninv cfg by (auto simp: active_def invalidated_def nx_def)
qed

text \<open>
  C15. A profile budget is put in force only on evidence: when an update moves from the default
  budget to the budget of a profile, the manager has asked the harness during that update, the
  question was about exactly the configuration that is then published, and the answer was that
  the harness is in sync.
\<close>

theorem activation_verified:
  assumes "manager_inv env m" and "applyValidatedLocked env next force m = (r, verdict, m')"
    and "na_Source (rs_normalAttempts (mg_current m)) = AttemptPolicyDefault"
    and "na_Source (rs_normalAttempts (mg_current m')) = AttemptPolicyProfile"
  shows "hv_State verdict = ''in_sync'' \<and> rs_config (mg_current m') = Config_Normalize next \<and>
    (verdict = fst (re_check env (w_calls (mg_files m)) (Config_Normalize next)) \<or>
     verdict = fst (snd (re_prepare env (w_calls (mg_files m)) (rs_config (mg_current m)) (Config_Normalize next))))"
  using assms(2)
proof (cases rule: applyValidatedLocked_cases)
  case (early e)
  then show ?thesis using assms(3,4) by (auto simp: unchanged_def)
next
  case (finished checked restartRequired telemetry fu catalog autoMode m1)
  have u: "unchanged m m1" by (rule harness_phase_unchanged [OF finished(5)])
  have i1: "manager_inv env m1" using assms(1) u by (simp add: unchanged_inv)
  have c1: "mg_current m1 = mg_current m" "mg_restartStatus m1 = mg_restartStatus m" using u by (auto simp: unchanged_def)
  have "config_ok (go_of env) (Config_Normalize next)" using finished(2) by (simp add: Config_Validate_None)
  from finishApply_source [OF i1 _ this _ _ finished(7)] finished(1,4) assms(3,4) c1
  have v: "checked" "hv_State verdict = ''in_sync''" "rs_config (mg_current m') = Config_Normalize next" by auto
  have "verdict = fst (re_check env (w_calls (mg_files m)) (Config_Normalize next)) \<or>
     verdict = fst (snd (re_prepare env (w_calls (mg_files m)) (rs_config (mg_current m)) (Config_Normalize next)))"
  proof (cases telemetry)
    case True
    then show ?thesis using finished(5) v(1) by (auto simp: harness_phase_def tick_eq split: prod.splits)
  next
    case False
    then have "\<exists>e. checkHarness env (Config_Normalize next) m = ((verdict, e), m1)"
      using finished(5) v(1) by (auto simp: harness_phase_def split: prod.splits)
    then show ?thesis
      using v(2) by (auto simp: checkHarness_def tick_eq zeroValidation_def split: if_splits prod.splits)
  qed
  with v show ?thesis by simp
qed

section \<open>Preconditions\<close>

text \<open>A strong entity tag: plain text without a comma and not the wildcard.\<close>

definition strong_tag :: "string \<Rightarrow> bool" where
  "strong_tag t \<longleftrightarrow> plain t \<and> CHR '','' \<notin> set t \<and> t \<noteq> ''*''"

lemma split_on_absent: "c \<notin> set s \<Longrightarrow> split_on c s = [s]"
  by (induction s) auto

lemma matches_strong: "strong_tag t \<Longrightarrow> matchesConfigETag t tag \<longleftrightarrow> t = tag"
  by (simp add: strong_tag_def matchesConfigETag_def split_on_absent TrimSpace_plain)

text \<open>
  C16. No lost update. Once the configuration has changed from the one whose tag a client
  read, so that the tags differ, any update, replacement or reordering the client sends under
  the old tag is refused and changes nothing.
\<close>

theorem no_lost_update:
  assumes "strong_tag tag" and "tag \<noteq> ConfigETag env (mg_current m)"
  shows "(\<exists>e \<in> {ErrConfigChanged, ErrRestartInProgress}. ApplyClientUpdateIfMatch env update tag m = (Inl e, m)) \<and>
    (\<exists>e \<in> {ErrConfigChanged, ErrRestartInProgress}. UpdateIfMatch env tag mutator m = (Inl e, m)) \<and>
    (\<exists>e \<in> {ErrConfigChanged, ErrRestartInProgress}. Manager_ReorderProviders env ids tag m = (Inl e, m))"
proof -
  have "tag \<noteq> []" using assms(1) by (auto simp: strong_tag_def plain_def)
  with assms show ?thesis
    by (simp add: ApplyClientUpdateIfMatch_def UpdateIfMatch_def Manager_ReorderProviders_def matches_strong)
qed

section \<open>Restart\<close>

text \<open>
  C17. The outcome of a restart. A failed restart keeps the configuration in force and its file.
  It reports an error exactly when the pending file could not be removed; then that file is still
  there as it was, and the manager goes on refusing updates; otherwise the pending file is gone
  and updates are accepted again. A restart that succeeds publishes exactly the pending
  configuration under the next revision, makes it the active file, leaves no pending file, and
  leaves the activation guard alone; if it cannot, the old one stays in force, and updates stay
  refused exactly while a pending file remains.
\<close>

theorem restart_outcome:
  assumes "manager_reachable env m"
  shows "(\<forall>cause e m'. restartFailedLocked env cause m = (e, m') \<longrightarrow>
       mg_current m' = mg_current m \<and> w_active (mg_files m') = w_active (mg_files m) \<and>
       (e = None \<longleftrightarrow> w_pending (mg_files m') = None) \<and> w_pending (mg_files m') \<in> {None, w_pending (mg_files m)} \<and>
       (rt_InProgress (mg_restartStatus m') \<longleftrightarrow> w_pending (mg_files m') \<noteq> None)) \<and>
    (\<forall>e m'. RestartSucceeded env m = (e, m') \<longrightarrow>
       (if e = None then \<exists>p. w_pending (mg_files m) = Some p \<and> promoted p m m' else kept_waiting m m'))"
proof (intro conjI allI impI)
  fix cause e m' assume "restartFailedLocked env cause m = (e, m')"
  note f = restartFailedLocked_inv [OF reachable_inv [OF assms] this]
  show "mg_current m' = mg_current m" "w_active (mg_files m') = w_active (mg_files m)"
    "e = None \<longleftrightarrow> w_pending (mg_files m') = None" "w_pending (mg_files m') \<in> {None, w_pending (mg_files m)}"
    "rt_InProgress (mg_restartStatus m') \<longleftrightarrow> w_pending (mg_files m') \<noteq> None"
    using f by auto
qed (use RestartSucceeded_inv [OF reachable_inv [OF assms]] in blast)

section \<open>A concrete manager\<close>

definition example_scan_env :: scan_env where
  "example_scan_env =
     \<lparr> se_compile = example_compile_env, se_requiredPaths = (\<lambda>_ _. Inr []), se_scanSpec = (\<lambda>_ _. None),
       se_requirements = \<lparr> sr_detectorPaths = [], sr_rawMarkers = [] \<rparr> \<rparr>"

definition in_sync :: HarnessValidation where
  "in_sync = \<lparr> hv_State = ''in_sync'', hv_Reason = [], hv_ResolvedPath = [] \<rparr>"

definition example_runtime_env :: runtime_env where
  "example_runtime_env =
     \<lparr> re_scan = example_scan_env, re_etag = (\<lambda>c. if cfg_Providers c = [] then ''e'' else ''p''), re_save = (\<lambda>_. None),
       re_load = (\<lambda>_. None), re_promote = (\<lambda>_. None), re_remove = (\<lambda>_. None), re_check = (\<lambda>_ _. (in_sync, None)),
       re_prepare = (\<lambda>_ _ _. (True, in_sync, None)), re_commit = (\<lambda>_. None), re_rollback = (\<lambda>_. None),
       re_preflight = (\<lambda>_ _ _. None), re_now = int \<rparr>"

lemma example_go: "go_of example_runtime_env = example_env" "compile_of example_runtime_env = example_compile_env"
  by (simp_all add: example_runtime_env_def example_scan_env_def example_compile_env_def)

lemma example_config_normal: "Config_Normalize example_config = example_config"
  by (simp add: example_config_def Config_Default_def Config_Normalize_def AutoMode_Normalize_def Harnesses_Normalize_def
      ClaudeCode_Normalize_def Profile_Normalize_def DefaultClaudeCodeConfig_def example_profile_def mode_defs Let_def)

lemma example_compiles:
  "CompileCatalog example_compile_env [] = Inr (buildCatalog [])"
  "compileAutoMode example_compile_env (cfg_AutoMode example_config) =
     Inr \<lparr> ca_Mode = AutoModeDisabled, ca_configuredModel = [], ca_FixedTarget = None \<rparr>"
proof -
  have k: "plain ''provider-catalog-validation-key''" by (simp add: plain_def byte_def)
  have "Config_Validate example_env (wrapped ''provider-catalog-validation-key'' []) = None"
    by (rule wrapped_example [OF k]) simp_all
  then show "CompileCatalog example_compile_env [] = Inr (buildCatalog [])"
    by (simp add: CompileCatalog_def) (simp add: example_compile_env_def)
  have auto: "AutoMode_Normalize (cfg_AutoMode example_config) = cfg_AutoMode example_config"
    by (simp add: example_config_def Config_Default_def AutoMode_Normalize_def mode_defs)
  have "validateAutoMode example_env (cfg_AutoMode example_config) = None"
    unfolding validateAutoMode_None auto by (simp add: auto_mode_ok_def example_config_def Config_Default_def mode_defs)
  then have v: "AutoMode_Validate (ce_go example_compile_env) (cfg_AutoMode example_config) = None"
    by (simp add: AutoMode_Validate_def auto example_compile_env_def)
  have mode: "cfg_AutoMode example_config = \<lparr> am_Mode = AutoModeDisabled, am_Model = [], am_FixedProvider = None \<rparr>"
    by (simp add: example_config_def Config_Default_def)
  from v show "compileAutoMode example_compile_env (cfg_AutoMode example_config) =
     Inr \<lparr> ca_Mode = AutoModeDisabled, ca_configuredModel = [], ca_FixedTarget = None \<rparr>"
    by (simp add: compileAutoMode_def CompileAutoModeTarget_def auto) (simp add: mode mode_defs)
qed

lemma example_newSnapshot:
  "AttemptPolicy_Validate (na_Policy normal) = None \<Longrightarrow>
   newSnapshotWithAuto example_scan_env prev r example_config (buildCatalog [])
     \<lparr> ca_Mode = AutoModeDisabled, ca_configuredModel = [], ca_FixedTarget = None \<rparr> normal c t =
   Inr \<lparr> rs_revision = r, rs_config = example_config, rs_catalog = buildCatalog [],
         rs_autoMode = \<lparr> ca_Mode = AutoModeDisabled, ca_configuredModel = [], ca_FixedTarget = None \<rparr>,
         rs_normalAttempts = normal, rs_classifierAttempts = c, rs_requestScan = [''/stream''], rs_created = t \<rparr>"
  by (simp add: newSnapshotWithAuto_def compileRequestScan_def example_scan_env_def buildCatalog_def Let_def
      WithHealthEpochs_def gmapvals_def)

definition example_disk :: files where
  "example_disk = \<lparr> w_calls = 0, w_active = example_config, w_pending = None, w_history = [] \<rparr>"

lemma default_attempts_valid [simp]:
  "AttemptPolicy_Validate (na_Policy defaultNormalAttemptPolicy) = None"
  "AttemptPolicy_Validate DefaultClassifierAttemptPolicy = None"
  by (simp_all add: AttemptPolicy_Validate_def defaultNormalAttemptPolicy_def DefaultAttemptPolicy_def
      DefaultClassifierAttemptPolicy_def DefaultNormalMaxAttempts_def DefaultStickyNoCooldownAttempts_def)

definition example_manager :: Manager where
  "example_manager =
     \<lparr> mg_revision = 1,
       mg_current = \<lparr> rs_revision = 1, rs_config = example_config, rs_catalog = buildCatalog [],
         rs_autoMode = \<lparr> ca_Mode = AutoModeDisabled, ca_configuredModel = [], ca_FixedTarget = None \<rparr>,
         rs_normalAttempts = defaultNormalAttemptPolicy, rs_classifierAttempts = DefaultClassifierAttemptPolicy,
         rs_requestScan = [''/stream''], rs_created = 0 \<rparr>,
       mg_hasHarness = True, mg_hasRestart = True, mg_invalidationReason = [], mg_activeProfileInvalid = True,
       mg_classifierAttempts = DefaultClassifierAttemptPolicy, mg_restartStatus = idleStatus,
       mg_restartTriggered = False, mg_files = example_disk\<lparr>w_calls := 1\<rparr> \<rparr>"

lemma example_NewManager:
  "NewManager example_runtime_env example_config True True True None None False example_disk = Inr example_manager"
proof -
  have "cfg_Providers example_config = []" by (simp add: example_config_def Config_Default_def)
  moreover have "Config_Validate (ce_go example_compile_env) example_config = None"
    using example_config_valid by (simp add: example_compile_env_def)
  moreover have "ce_contextError example_compile_env = None" by (simp add: example_compile_env_def)
  moreover have "re_scan example_runtime_env = example_scan_env" "re_now example_runtime_env = int"
    by (simp_all add: example_runtime_env_def)
  moreover have "ap_MaxAttempts DefaultClassifierAttemptPolicy = 1" by (simp add: DefaultClassifierAttemptPolicy_def)
  moreover have "active_id example_config \<noteq> []" by (simp add: active_id_def example_config_def example_profile_def example_uuid_def)
  ultimately show ?thesis
    unfolding NewManager_def example_go example_config_normal Let_def
    by (simp add: example_compiles example_newSnapshot example_manager_def example_disk_def)
qed

lemma example_reachable: "manager_reachable example_runtime_env example_manager"
  by (rule manager_reachable.start [OF example_NewManager]) (simp_all add: example_disk_def example_config_normal)

theorem manager_reachable_ok_witness:
  "Config_Validate (go_of example_runtime_env) (rs_config (mg_current example_manager)) = None \<and>
   w_active (mg_files example_manager) = rs_config (mg_current example_manager) \<and>
   rs_normalAttempts (mg_current example_manager) = normalAttempts example_config True"
  using manager_reachable_ok [OF example_reachable] by (simp add: example_manager_def)

lemma example_apply_parts:
  "rs_config (mg_current example_manager) = example_config" "mg_activeProfileInvalid example_manager"
  "\<not> rt_InProgress (mg_restartStatus example_manager)" "mg_hasHarness example_manager"
  "rs_normalAttempts (mg_current example_manager) = defaultNormalAttemptPolicy"
  "rs_revision (mg_current example_manager) = 1"
  by (simp_all add: example_manager_def idleStatus_def)

lemma restart_self: "serviceRestartRequired c c \<longleftrightarrow> False"
  by (simp add: serviceRestartRequired_def)

lemma example_apply_head:
  "applyValidatedLocked example_runtime_env example_config force example_manager =
     (let ((fileUpdate, verdict, err), m) = harness_phase example_runtime_env force False example_config example_config example_manager
      in case err of
           Some err \<Rightarrow> (Inl err, verdict, m)
         | None \<Rightarrow>
             let (r, m) = finishApply example_runtime_env force False fileUpdate verdict example_config (buildCatalog [])
                   \<lparr> ca_Mode = AutoModeDisabled, ca_configuredModel = [], ca_FixedTarget = None \<rparr> m
             in (r, verdict, m))"
proof -
  have "cfg_Providers example_config = []" by (simp add: example_config_def Config_Default_def)
  moreover have "Config_Validate (ce_go example_compile_env) example_config = None"
    using example_config_valid by (simp add: example_compile_env_def)
  moreover have "ActiveProfileChange example_config example_config \<noteq> ActiveTelemetryChanged"
    by (simp add: ActiveProfileChange_def Let_def split: option.split)
  ultimately show ?thesis
    unfolding applyValidatedLocked_def example_go example_config_normal
    by (simp add: example_compiles example_apply_parts restart_self)
qed

text \<open>A forced check that finds the harness in sync turns the profile budget on.\<close>

lemma example_activation:
  obtains r m' where "applyValidatedLocked example_runtime_env example_config True example_manager = (r, in_sync, m')"
    and "na_Source (rs_normalAttempts (mg_current m')) = AttemptPolicyProfile"
proof -
  define m1 where "m1 = snd (tick example_manager)"
  have m1: "mg_current m1 = mg_current example_manager" "mg_classifierAttempts m1 = DefaultClassifierAttemptPolicy"
    by (simp_all add: m1_def tick_def example_manager_def)
  have env: "re_scan example_runtime_env = example_scan_env" "re_check example_runtime_env k c = (in_sync, None)" for k c
    by (simp_all add: example_runtime_env_def)
  have h: "harness_phase example_runtime_env True False example_config example_config example_manager = ((False, in_sync, None), m1)"
    by (simp add: harness_phase_def checkHarness_def example_apply_parts env m1_def split: prod.split)
  have na: "normalAttempts example_config False =
      \<lparr> na_Policy = \<lparr> ap_MaxAttempts = 3, ap_StickyNoCooldownAttempts = 1 \<rparr>, na_Source = AttemptPolicyProfile \<rparr>"
    by (simp add: normalAttempts_def active_id_def example_config_def example_profile_def example_uuid_def Profile_Normalize_def)
  have v: "AttemptPolicy_Validate (na_Policy (normalAttempts example_config False)) = None"
    by (simp add: na AttemptPolicy_Validate_def)
  have act: "active_id example_config \<noteq> []" "hv_State in_sync = ''in_sync''"
    by (simp_all add: active_id_def example_config_def example_profile_def example_uuid_def in_sync_def)
  obtain s m2 where p: "publish example_runtime_env example_config (buildCatalog [])
      \<lparr> ca_Mode = AutoModeDisabled, ca_configuredModel = [], ca_FixedTarget = None \<rparr> (normalAttempts example_config False)
      False False False m1 = (s, m2)" and s: "rs_normalAttempts (mg_current m2) = normalAttempts example_config False"
    unfolding publish_def env now_eq prod.case Let_def
    by (simp add: example_newSnapshot [OF v] persist_def m1 example_apply_parts Let_def)
  have "applyValidatedLocked example_runtime_env example_config True example_manager = (s, in_sync, m2)"
    unfolding example_apply_head h
    using p by (simp add: finishApply_def act m1 example_apply_parts na defaultNormalAttemptPolicy_def)
  with s na that show thesis by simp
qed

theorem activation_verified_witness:
  "\<exists>r m'. applyValidatedLocked example_runtime_env example_config True example_manager = (r, in_sync, m') \<and>
     na_Source (rs_normalAttempts (mg_current m')) = AttemptPolicyProfile \<and> rs_config (mg_current m') = example_config"
proof -
  obtain r m' where a: "applyValidatedLocked example_runtime_env example_config True example_manager = (r, in_sync, m')"
    and p: "na_Source (rs_normalAttempts (mg_current m')) = AttemptPolicyProfile" by (rule example_activation)
  have "na_Source (rs_normalAttempts (mg_current example_manager)) = AttemptPolicyDefault"
    by (simp add: example_manager_def defaultNormalAttemptPolicy_def)
  from activation_verified [OF reachable_inv [OF example_reachable] a this p] a p show ?thesis
    by (auto simp: example_config_normal)
qed

text \<open>A client that sends back what it read: accepted, and nothing changes.\<close>

theorem client_update_all_or_nothing_witness:
  "\<exists>res m'. ApplyClientUpdateIfMatch example_runtime_env (clientUpdateFromConfig example_config) [] example_manager = (Inr res, m') \<and>
     manager_inv example_runtime_env m' \<and>
     (\<exists>n \<in> {example_config, set_active_id [] example_config}. accepted n res example_manager m')"
proof -
  have "Config_Validate (ce_go example_compile_env) example_config = None"
    using example_config_valid by (simp add: example_compile_env_def)
  then have req: "ApplyClientRequest (ce_go example_compile_env) example_config (clientUpdateFromConfig example_config) = Inr example_config"
    using ApplyClientRequest_round_trip example_config_normal by simp
  have na: "normalAttempts example_config True = defaultNormalAttemptPolicy" by (simp add: normalAttempts_def)
  obtain res m' where a: "ApplyClientUpdateIfMatch example_runtime_env (clientUpdateFromConfig example_config) [] example_manager = (Inr res, m')"
    unfolding ApplyClientUpdateIfMatch_def example_go applyLocked_def
    by (simp add: example_apply_parts req example_apply_head harness_phase_def finishApply_def na)
  from client_update_all_or_nothing [OF example_reachable a] a req show ?thesis
    by (simp add: example_go example_apply_parts example_config_normal)
qed

theorem no_lost_update_witness:
  "strong_tag ''p'' \<and> ''p'' \<noteq> ConfigETag example_runtime_env (mg_current example_manager) \<and>
   (\<exists>e \<in> {ErrConfigChanged, ErrRestartInProgress}.
      Manager_ReorderProviders example_runtime_env [] ''p'' example_manager = (Inl e, example_manager))"
proof -
  have t: "strong_tag ''p''" by (simp add: strong_tag_def plain_def byte_def)
  have n: "''p'' \<noteq> ConfigETag example_runtime_env (mg_current example_manager)"
    by (simp add: ConfigETag_def example_apply_parts example_runtime_env_def example_config_def Config_Default_def)
  from no_lost_update [OF t n, of "clientUpdateFromConfig example_config" Inr "[]"] t n show ?thesis by blast
qed

theorem restart_outcome_witness:
  "mg_current (snd (restartFailedLocked example_runtime_env None example_manager)) = mg_current example_manager \<and>
   fst (RestartSucceeded example_runtime_env example_manager) = Some ErrRestartNotPending"
  using restart_outcome [OF example_reachable]
  by (cases "restartFailedLocked example_runtime_env None example_manager")
    (auto simp: RestartSucceeded_def example_apply_parts)

end
