(* ===== verification/Runtime_Crash.thy ===== *)
theory Runtime_Crash
  imports Runtime_Properties
begin

text \<open>
  The process stopped while the manager works. Every public operation changes the
  configuration files at most once, so what a process that is stopped anywhere inside an
  operation leaves on the disk is what was there before the operation or what it leaves
  when it is complete; started again on either, the process recovers.
\<close>

section \<open>An operation writes at most once\<close>

definition untouched :: "Manager \<Rightarrow> Manager \<Rightarrow> bool" where
  "untouched m m' \<longleftrightarrow>
     w_active (mg_files m') = w_active (mg_files m) \<and> w_pending (mg_files m') = w_pending (mg_files m) \<and>
     w_history (mg_files m') = w_history (mg_files m)"

definition single_write :: "Manager \<Rightarrow> Manager \<Rightarrow> bool" where
  "single_write m m' \<longleftrightarrow> untouched m m' \<or>
     w_history (mg_files m') = (w_active (mg_files m'), w_pending (mg_files m')) # w_history (mg_files m)"

lemma untouched_refl [simp]: "untouched m m"
  by (simp add: untouched_def)







lemma with_files_single [simp]: "single_write m (with_files a p (with_calls k m))"
  by (simp add: single_write_def)



















section \<open>What a stopped process leaves behind\<close>




section \<open>A concrete restart\<close>





end
