(* ===== verification/Selector_Fairness.thy ===== *)
theory Selector_Fairness
  imports Selector_Properties
begin

text \<open>
  Fairness of the round robin over the calls of the scheduler itself: \<open>Acquire\<close> orders the tier by
  its cursor, hands out a lease and moves the cursor, so that while the members of the highest tier
  are available the requests of new sessions go round.
\<close>

section \<open>One request\<close>

definition top_tier :: "Snapshot \<Rightarrow> string \<Rightarrow> CompiledProvider list" where
  "top_tier snap m =
     (let items = eligibleCandidates (sn_Candidates snap m) m in tier (cp_Priority (hd items)) items)"

definition top_cursor :: "Snapshot \<Rightarrow> string \<Rightarrow> RequestType \<Rightarrow> 'h Scheduler \<Rightarrow> string" where
  "top_cursor snap m rt s = cs_ProviderID (cursor_at (sch_cursors s)
     \<lparr>rr_Model = m, rr_RequestType = rt, rr_Priority = cp_Priority (hd (eligibleCandidates (sn_Candidates snap m) m))\<rparr>)"

text \<open>The health store would grant a lease of the provider now, without a probe.\<close>

definition member_available :: "string \<Rightarrow> RequestType \<Rightarrow> system \<Rightarrow> CompiledProvider \<Rightarrow> bool" where
  "member_available m rt s p \<longleftrightarrow>
     (case Acquire (health_key \<lparr>sk_SessionID = [], sk_Model = m, sk_RequestType = rt\<rparr> p) (cp_DisableHealth p) (sch_health s) of
        None \<Rightarrow> False
      | Some (d, h) \<Rightarrow> hd_Available d \<and> \<not> hl_GlobalProbe (hd_Lease d) \<and> \<not> hl_ChannelProbe (hd_Lease d))"

definition new_session :: "StickyKey \<Rightarrow> 'h Scheduler \<Rightarrow> bool" where
  "new_session key s \<longleftrightarrow> map_of (af_assignments (sch_affinity s)) (key\<lparr>sk_SessionID := TrimSpace (sk_SessionID key)\<rparr>) = None"

definition leased :: "SchedulerError + AttemptLease \<Rightarrow> CompiledProvider option" where
  "leased res = (case res of Inl _ \<Rightarrow> None | Inr lease \<Rightarrow> al_Provider lease)"

lemma cursor_at_set: "cs_ProviderID (cursor_at (setCursorLocked k i cursors) k) = i"
  by (simp add: cursor_at_def setCursorLocked_def update_conv')

lemma initRequest_new:
  assumes "initRequest snap key True (NewRequestSelection policy) s = (req, s')"
    and "map_of (af_assignments (sch_affinity s)) key = None"
  shows "rs_ordered req = orderCandidatesLocked (sch_cursors s) (eligibleCandidates (sn_Candidates snap (sk_Model key)) (sk_Model key)) key None"
    and "rs_visited req = []" and "rs_stickyPhase req \<noteq> stickyRetryActive" and "rs_source req = zeroSource"
    and "sch_cursors s' = sch_cursors s"
  using assms by (auto simp: initRequest_def NewRequestSelection_def Let_def split: if_splits)

lemma makeAttemptLease_first:
  assumes "makeAttemptLeaseLocked snap key selected source True now s = Some (lease, source', s')"
    and "sel_reason selected = candidateFirst" and "source = zeroSource"
    and "\<not> hl_GlobalProbe (sel_healthLease selected)" and "\<not> hl_ChannelProbe (sel_healthLease selected)"
  shows "al_Provider lease = Some (sel_provider selected)"
    and "sch_cursors s' = setCursorLocked \<lparr>rr_Model = sk_Model key, rr_RequestType = sk_RequestType key, rr_Priority = cp_Priority (sel_provider selected)\<rparr>
      (cp_ID (sel_provider selected)) (sch_cursors s)"
  using assms unfolding makeAttemptLeaseLocked_def Let_def
  by (auto simp: zeroSource_def source_matches_def split: if_splits option.splits)

lemma recordSelection_source [simp]: "rs_source (recordSelection r sel g rt) = rs_source r"
  by (auto simp: recordSelection_def Let_def split: candidateReason.split)

text \<open>The first choice is the tier's next in turn.\<close>

lemma first_choice:
  assumes "items = eligibleCandidates candidates m" and "items \<noteq> []"
  shows "\<exists>rest. orderCandidatesLocked cursors items key None =
    hd (rotateAfter (tier (cp_Priority (hd items)) items) (tier_cursor cursors key (cp_Priority (hd items)))) # rest"
proof -
  let ?p = "cp_Priority (hd items)" and ?o = "orderCandidatesLocked cursors items key None"
  have sorted: "by_priority items" "distinct (map cp_ID items)"
    using assms(1) eligibleCandidates_by_priority eligibleCandidates_distinct by blast+
  have o: "mset ?o = mset items" "by_priority ?o" "tier ?p ?o = rotateAfter (tier ?p items) (tier_cursor cursors key ?p)"
    using orderCandidates_spec [OF sorted _ refl, of None cursors key ?p] by simp_all
  have s: "set ?o = set items" using o(1) by (metis set_mset_mset)
  then obtain x rest where x: "?o = x # rest" using assms(2) by (cases ?o) auto
  have top: "cp_Priority y \<le> ?p" if "y \<in> set items" for y
    using that sorted(1) assms(2) by (cases items) auto
  have "hd items \<in> set ?o" "x \<in> set items" using s x assms(2) by auto
  then have "cp_Priority x = ?p" using o(2) x top [of x] by fastforce
  with o(3) x have "rotateAfter (tier ?p items) (tier_cursor cursors key ?p) = x # tier ?p rest" by simp
  with x show ?thesis by simp
qed

lemma Acquire_next:
  assumes ok: "system_ok s" and cur: "current_for snap s" and key: "sk_Model key = m" "sk_RequestType key = rt" and new: "new_session key s"
    and avail: "\<forall>p \<in> set (top_tier snap m). member_available m rt s p" and items: "eligibleCandidates (sn_Candidates snap m) m \<noteq> []"
    and valid: "m \<noteq> []" "rt = RequestTypeNormal \<or> rt = RequestTypeClassifier" "AttemptPolicy_Validate policy = None"
    and call: "Scheduler_Acquire store_controller (Some snap) key (Some (NewRequestSelection policy)) s = Some (res, request', s')"
  shows "leased res = Some (hd (rotateAfter (top_tier snap m) (top_cursor snap m rt s)))"
    and "top_cursor snap m rt s' = cp_ID (hd (rotateAfter (top_tier snap m) (top_cursor snap m rt s)))"
proof -
  let ?items = "eligibleCandidates (sn_Candidates snap m) m" and ?key = "key\<lparr>sk_SessionID := TrimSpace (sk_SessionID key)\<rparr>"
  define x where "x = hd (rotateAfter (top_tier snap m) (top_cursor snap m rt s))"
  have budget: "HasBudget (NewRequestSelection policy)"
    using valid(3) by (auto simp: HasBudget_def NewRequestSelection_def AttemptPolicy_Validate_def split: if_splits)
  obtain req' where locked: "acquireLocked store_controller snap ?key (NewRequestSelection policy) s = Some (res, req', s')"
    using call budget valid key by (auto simp: Scheduler_Acquire_def Let_def NewRequestSelection_def split: if_splits)
  have ni: "rs_initialized (NewRequestSelection policy) = False" and cu: "current_for snap s = True"
    using cur by (simp_all add: NewRequestSelection_def)
  obtain af req s3 where af: "sched_ok (s\<lparr>sch_reads := Suc (sch_reads s), sch_affinity := af\<rparr>)"
      "aff_abs af = cache_expire (po_StickyTTL (sch_policy s)) (sch_clock s (sch_reads s)) (aff_abs (sch_affinity s))"
    and init: "(req, s3) = initRequest snap ?key True (NewRequestSelection policy) (s\<lparr>sch_reads := Suc (sch_reads s), sch_affinity := af\<rparr>)"
    and s3: "sch_health s3 = sch_health s"
    and run: "acquireLocked store_controller snap ?key (NewRequestSelection policy) s =
      Option.bind (tier_loop store_controller ?key req candidateFirst (rs_ordered req) 0 (sch_health s))
        (finishAcquire snap ?key True (sch_clock s (sch_reads s)) req s3)"
    by (rule acquireLocked_start [OF system_okD(1) [OF ok], of "NewRequestSelection policy" snap ?key store_controller,
          unfolded ni cu if_False]) (rule that, assumption+)
  have "map_of (af_assignments af) ?key = None"
  proof -
    have "aff_inv af" "aff_inv (sch_affinity s)" using sched_okD(2) [OF af(1)] sched_okD(2) [OF system_okD(1) [OF ok]] by simp_all
    with new af(2) show ?thesis
      unfolding new_session_def by (auto simp: unassigned_iff cache_expire_def dest: set_dropWhileD)
  qed
  with initRequest_new [OF init [symmetric]] have r: "rs_ordered req = orderCandidatesLocked (sch_cursors s) ?items ?key None"
    "rs_visited req = []" "rs_stickyPhase req \<noteq> stickyRetryActive" "rs_source req = zeroSource" "sch_cursors s3 = sch_cursors s"
    using key by simp_all
  have c: "tier_cursor (sch_cursors s) ?key (cp_Priority (hd ?items)) = top_cursor snap m rt s"
    using key by (simp add: tier_cursor_def top_cursor_def)
  obtain rest where order: "rs_ordered req = x # rest"
    using first_choice [OF refl items, of "sch_cursors s" ?key] unfolding r(1) c x_def top_tier_def Let_def by blast
  have "top_tier snap m \<noteq> []" using items by (cases ?items) (auto simp: top_tier_def Let_def)
  then have x: "x \<in> set (top_tier snap m)"
    unfolding x_def by (metis hd_in_set set_rotateAfter set_empty)
  then have prio: "cp_Priority x = cp_Priority (hd ?items)" by (simp add: top_tier_def Let_def)
  obtain d h where d: "hc_Acquire store_controller (health_key ?key x) (cp_DisableHealth x) (sch_health s) = Some (d, h)"
    "hd_Available d" "\<not> hl_GlobalProbe (hd_Lease d)" "\<not> hl_ChannelProbe (hd_Lease d)"
    using bspec [OF avail x] key by (auto simp: member_available_def store_controller_def health_key_def split: option.splits)
  define sel where "sel = \<lparr> sel_provider = x, sel_healthLease = hd_Lease d, sel_reason = candidateFirst, sel_newRound = False \<rparr>"
  obtain members t where tl: "tier_loop store_controller ?key req candidateFirst (rs_ordered req) 0 (sch_health s) = Some (Some (sel, members), t, h)"
    using d(1,2) r(2,3) unfolding order
    by (simp add: selectInTierLocked_def sticky_pass_def try_acquire_def visited_at_def sel_def)
  then obtain lease source' where mk: "makeAttemptLeaseLocked snap ?key sel (rs_source req) True (sch_clock s (sch_reads s)) (s3\<lparr>sch_health := h\<rparr>) =
      Some (lease, source', s')" and res: "res = Inr lease"
    using locked unfolding run by (auto simp: finishAcquire_def Let_def split: option.splits prod.splits)
  note first = makeAttemptLease_first [OF mk]
  show "leased res = Some (hd (rotateAfter (top_tier snap m) (top_cursor snap m rt s)))"
    using first(1) d(3,4) r(4) by (simp add: sel_def res leased_def x_def)
  have "sch_cursors s' = setCursorLocked \<lparr>rr_Model = m, rr_RequestType = rt, rr_Priority = cp_Priority x\<rparr> (cp_ID x) (sch_cursors s)"
    using first(2) d(3,4) r(4,5) key by (simp add: sel_def)
  then have "top_cursor snap m rt s' = cp_ID x" unfolding top_cursor_def [of snap m rt s'] prio by (simp add: cursor_at_set)
  then show "top_cursor snap m rt s' = cp_ID (hd (rotateAfter (top_tier snap m) (top_cursor snap m rt s)))" by (simp only: x_def)
qed

section \<open>Going round\<close>

text \<open>
  The system while requests of new sessions come in: each acquires a lease for its first attempt
  while every member of the highest tier is available. In between, any other calls that leave the
  tier's cursor alone, such as reports that put no provider into cooldown.
\<close>

inductive tier_run :: "Snapshot \<Rightarrow> AttemptPolicy \<Rightarrow> string \<Rightarrow> RequestType \<Rightarrow> system \<Rightarrow> CompiledProvider option list \<Rightarrow> system \<Rightarrow> bool"
  for snap policy m rt where
  stop: "tier_run snap policy m rt s [] s"
| request: "Scheduler_Acquire store_controller (Some snap) key (Some (NewRequestSelection policy)) s = Some (res, request', s1) \<Longrightarrow>
     token_room (leases_out s) \<Longrightarrow> current_for snap s \<Longrightarrow> sk_Model key = m \<Longrightarrow> sk_RequestType key = rt \<Longrightarrow> new_session key s \<Longrightarrow>
     \<forall>p \<in> set (top_tier snap m). member_available m rt s p \<Longrightarrow> tier_run snap policy m rt s1 ps s' \<Longrightarrow>
     tier_run snap policy m rt s (leased res # ps) s'"
| other: "system_step s s1 \<Longrightarrow> top_cursor snap m rt s1 = top_cursor snap m rt s \<Longrightarrow> tier_run snap policy m rt s1 ps s' \<Longrightarrow>
     tier_run snap policy m rt s ps s'"

text \<open>Such a report: of a lease without a probe, whose outcome starts no cooldown.\<close>

lemma expire_now_cursors: "expire_now now s = Some s' \<Longrightarrow> sch_cursors s' = sch_cursors s"
  by (auto simp: expire_now_def split: option.splits)

lemma migrate_cursors: "migrateAssignmentLocked lease s = Some s' \<Longrightarrow> sch_cursors s' = sch_cursors s"
  by (auto simp: migrateAssignmentLocked_def sched_now_def Let_def split: option.splits if_splits)

lemma Report_cursors:
  assumes "Scheduler_Report hc lease out s = Some (u, ob, s')" and "\<not> al_advanceCursorOnSuccess lease"
    and "\<not> hu_GlobalEnteredCooldown u" and "\<not> hu_ChannelEnteredCooldown u"
  shows "sch_cursors s' = sch_cursors s"
  using assms
  by (auto simp: Scheduler_Report_def sched_now_def report_health_def dropCooled_def Let_def split_beta
      dest!: expire_now_cursors migrate_cursors split: option.splits if_splits)

lemma report_keeps_turn:
  assumes "Scheduler_Report store_controller lease out s = Some (u, ob, s1)" and "\<not> al_advanceCursorOnSuccess lease"
    and "\<not> hu_GlobalEnteredCooldown u" and "\<not> hu_ChannelEnteredCooldown u" and "tier_run snap policy m rt s1 ps s'"
  shows "tier_run snap policy m rt s ps s'"
  using assms(5) tier_run.other [OF system_step.report [OF assms(1)]] Report_cursors [OF assms(1-4)] by (simp add: top_cursor_def)

lemma tier_run_rotates:
  assumes "tier_run snap policy m rt s ps s'" and "system_ok s" and "g = top_tier snap m" and "g \<noteq> []"
    and "\<forall>x \<in> set g. cp_ID x \<noteq> []" and "m \<noteq> []" and "rt = RequestTypeNormal \<or> rt = RequestTypeClassifier"
    and "AttemptPolicy_Validate policy = None" and "rotateAfter g (top_cursor snap m rt s) = rotate k g"
  shows "ps = map (\<lambda>j. Some (g ! ((k + j) mod length g))) [0..<length ps]"
  using assms(1,2,9)
proof (induction arbitrary: k rule: tier_run.induct)
  case (request key s res request' s1 ps s')
  let ?x = "g ! (k mod length g)"
  have items: "eligibleCandidates (sn_Candidates snap m) m \<noteq> []" using assms(3,4) by (auto simp: top_tier_def)
  have d: "distinct (map cp_ID g)"
    unfolding assms(3) top_tier_def Let_def by (rule distinct_map_filter [OF eligibleCandidates_distinct])
  note next_one = Acquire_next [OF request.prems(1) request(3,4,5,6,7) items assms(6,7,8) request(1), folded assms(3)]
  have x: "hd (rotateAfter g (top_cursor snap m rt s)) = ?x"
    unfolding request.prems(2) by (simp add: hd_rotate_conv_nth [OF assms(4)])
  have "rotateAfter g (top_cursor snap m rt s1) = rotate (Suc k) g"
    using next_one(2) rotateAfter_mod [OF assms(4) d assms(5)] x by simp
  moreover have "system_ok s1" by (rule system_step_ok [OF system_step.acquire [OF request(1,2)] request.prems(1)])
  ultimately have "ps = map (\<lambda>j. Some (g ! ((Suc k + j) mod length g))) [0..<length ps]" by (rule request.IH [rotated])
  then have "leased res # ps = Some (g ! ((k + 0) mod length g)) # map (\<lambda>j. Some (g ! ((k + Suc j) mod length g))) [0..<length ps]"
    using next_one(1) x by simp
  also have "\<dots> = map (\<lambda>j. Some (g ! ((k + j) mod length g))) [0..<length (leased res # ps)]"
    by (simp add: map_upt_Suc del: upt_Suc)
  finally show ?case .
next
  case (other s s1 ps s')
  show ?case using other.IH [OF system_step_ok [OF other(1) other.prems(1)]] other(2) other.prems(2) by simp
qed simp

text \<open>
  C27. Round robin is fair, for the calls of the scheduler that order a tier, lease a provider and
  move the cursor: while every member of the highest tier is available, the requests of new
  sessions get its members one after the other, round about from behind the cursor, so that as
  many requests as the tier has members reach each of them exactly once.
\<close>

theorem round_robin_fair:
  assumes "system_ok s" and "tier_run snap policy m rt s ps s'" and "g = top_tier snap m" and "g \<noteq> []"
    and "\<forall>x \<in> set g. cp_ID x \<noteq> []" and "m \<noteq> []" and "rt = RequestTypeNormal \<or> rt = RequestTypeClassifier"
    and "AttemptPolicy_Validate policy = None"
  shows "ps = map (\<lambda>j. Some (rotateAfter g (top_cursor snap m rt s) ! (j mod length g))) [0..<length ps] \<and>
    (length ps = length g \<longrightarrow> mset ps = mset (map Some g))"
proof -
  obtain k where k: "rotateAfter g (top_cursor snap m rt s) = rotate k g" using rotateAfter_rotate by blast
  have ps: "ps = map (\<lambda>j. Some (g ! ((k + j) mod length g))) [0..<length ps]"
    by (rule tier_run_rotates [OF assms(2,1,3-8) k])
  have nth: "rotate k g ! (j mod length g) = g ! ((k + j) mod length g)" for j
    using assms(4) by (simp add: nth_rotate mod_add_right_eq)
  have "map (\<lambda>j. Some (g ! ((k + j) mod length g))) [0..<length g] = map Some (rotate k g)"
    by (rule nth_equalityI) (simp_all add: nth_rotate)
  then have "length ps = length g \<longrightarrow> mset ps = mset (map Some g)"
    using ps k mset_rotateAfter [of g "top_cursor snap m rt s"] by (metis mset_map)
  with ps show ?thesis unfolding k nth by blast
qed

text \<open>Two providers, two sessions: the second session gets the other provider.\<close>

definition pair_snapshot :: Snapshot where
  "pair_snapshot = example_snapshot\<lparr>sn_Candidates := (\<lambda>m. [Some (example_provider ''a'' 1), Some (example_provider ''b'' 1)])\<rparr>"

definition first_request :: "((SchedulerError + AttemptLease) \<times> RequestSelection option \<times> system) option" where
  "first_request = Scheduler_Acquire store_controller (Some pair_snapshot) example_sticky (Some (NewRequestSelection DefaultAttemptPolicy)) example_system"

definition second_key :: StickyKey where
  "second_key = example_sticky\<lparr>sk_SessionID := ''t''\<rparr>"

lemma pair_tier: "top_tier pair_snapshot ''m'' = [example_provider ''a'' 1, example_provider ''b'' 1]"
  by (simp add: top_tier_def pair_snapshot_def eligibleCandidates_def stable_sort_desc_def StaticAvailabilityOf_def SupportsModel_def)

lemma first_request_ready:
  "new_session example_sticky example_system \<and> current_for pair_snapshot example_system \<and>
   list_all (member_available ''m'' ''normal'' example_system) [example_provider ''a'' 1, example_provider ''b'' 1]"
  by code_simp

lemma second_request_ready:
  "case first_request of None \<Rightarrow> False
   | Some (_, _, s) \<Rightarrow> new_session second_key s \<and> current_for pair_snapshot s \<and>
       list_all (member_available ''m'' ''normal'' s) [example_provider ''a'' 1, example_provider ''b'' 1] \<and>
       length (st_leases (sch_health s)) = 1"
  by code_simp

theorem round_robin_fair_witness:
  "\<exists>ps s'. tier_run pair_snapshot DefaultAttemptPolicy ''m'' ''normal'' example_system ps s' \<and>
     ps = [Some (example_provider ''a'' 1), Some (example_provider ''b'' 1)]"
proof -
  let ?g = "[example_provider ''a'' 1, example_provider ''b'' 1]"
  have key: "sk_Model example_sticky = ''m''" "sk_RequestType example_sticky = ''normal''"
    "sk_Model second_key = ''m''" "sk_RequestType second_key = ''normal''" by (simp_all add: example_sticky_def second_key_def)
  obtain res1 req1 s1 where c1: "first_request = Some (res1, req1, s1)"
    using second_request_ready by (cases first_request) (auto split: prod.splits)
  note call1 = c1 [unfolded first_request_def]
  have room: "token_room (leases_out example_system)" by (rule example_system_room)
  have s1: "system_ok s1" by (rule system_step_ok [OF system_step.acquire [OF call1 room] example_system_ok])
  have "length (st_leases (sch_health s1)) = 1" using second_request_ready by (simp add: c1)
  then have room1: "token_room (leases_out s1)"
    using token_room_iff [OF system_okD(2) [OF s1]] by (simp add: lease_room_def)
  obtain res2 req2 s2 where call2: "Scheduler_Acquire store_controller (Some pair_snapshot) second_key (Some (NewRequestSelection DefaultAttemptPolicy)) s1 =
      Some (res2, req2, s2)"
    using store.Scheduler_Acquire_settled [OF system_okD [OF s1] room1] by metis
  have ready: "new_session second_key s1" "current_for pair_snapshot s1" "\<forall>p \<in> set ?g. member_available ''m'' ''normal'' s1 p"
    using second_request_ready by (simp_all add: c1)
  have run: "tier_run pair_snapshot DefaultAttemptPolicy ''m'' ''normal'' example_system [leased res1, leased res2] s2"
    using first_request_ready ready
    by (intro tier_run.request [OF call1 room] tier_run.request [OF call2 room1] tier_run.stop) (simp_all add: key pair_tier)
  have cursor: "top_cursor pair_snapshot ''m'' ''normal'' example_system = []"
    by (simp add: top_cursor_def example_system_def cursor_at_def)
  have "AttemptPolicy_Validate DefaultAttemptPolicy = None" by code_simp
  from round_robin_fair [OF example_system_ok run refl _ _ _ _ this] have
    "[leased res1, leased res2] = [Some (example_provider ''a'' 1), Some (example_provider ''b'' 1)]"
    by (simp add: pair_tier cursor rotateAfter_def RequestTypeNormal_def)
  with run show ?thesis by auto
qed

end
