(* ===== verification/Version.thy ===== *)
theory Version
  imports Go_Text "HOL-Library.Product_Lexorder"
begin

text \<open>
  Package version (\<open>internal/version/compare.go\<close>): the comparison of semantic versions. The
  regular expression is a deterministic parser, since its separators occur in no part it
  separates. The comparison is proved to be the order of the precedence keys, a linear order.
\<close>

section \<open>The code\<close>

definition ident_char :: "char \<Rightarrow> bool" where
  "ident_char c \<longleftrightarrow> is_digit c \<or> (65 \<le> byte c \<and> byte c \<le> 90) \<or> (97 \<le> byte c \<and> byte c \<le> 122) \<or> c = CHR ''-''"

text \<open>\<open>0|[1-9][0-9]*\<close>\<close>

definition canonical :: "string \<Rightarrow> bool" where
  "canonical s \<longleftrightarrow> s \<noteq> [] \<and> list_all is_digit s \<and> (hd s = CHR ''0'' \<longrightarrow> length s = 1)"

text \<open>\<open>[0-9A-Za-z-]+(?:\.[0-9A-Za-z-]+)*\<close>\<close>

definition dotted :: "string \<Rightarrow> bool" where
  "dotted s \<longleftrightarrow> list_all (\<lambda>part. part \<noteq> [] \<and> list_all ident_char part) (split_on CHR ''.'' s)"

definition version_number :: "string \<Rightarrow> (string \<times> string) option" where
  "version_number s =
     (let digits = takeWhile is_digit s in if canonical digits then Some (digits, dropWhile is_digit s) else None)"

definition dot_number :: "string \<Rightarrow> (string \<times> string) option" where
  "dot_number s = (case s of [] \<Rightarrow> None | c # rest \<Rightarrow> if c = CHR ''.'' then version_number rest else None)"

text \<open>The optional parts: the prerelease without its dash, and build metadata.\<close>

definition version_tail :: "string \<Rightarrow> string option" where
  "version_tail s =
     (let dash = (s \<noteq> [] \<and> hd s = CHR ''-'');
          prerelease = (if dash then takeWhile (\<lambda>c. c \<noteq> CHR ''+'') (tl s) else []);
          rest = (if dash then dropWhile (\<lambda>c. c \<noteq> CHR ''+'') (tl s) else s)
      in if dash \<and> \<not> dotted prerelease then None
         else if rest = [] then Some prerelease
         else if hd rest = CHR ''+'' \<and> dotted (tl rest) then Some prerelease else None)"

text \<open>\<open>semanticVersion.FindStringSubmatch\<close>: the four groups.\<close>

definition semanticVersion :: "string \<Rightarrow> (string \<times> string \<times> string \<times> string) option" where
  "semanticVersion s =
     (if s = [] \<or> hd s \<noteq> CHR ''v'' then None
      else case version_number (tl s) of
        None \<Rightarrow> None
      | Some (major, s) \<Rightarrow>
      case dot_number s of
        None \<Rightarrow> None
      | Some (minor, s) \<Rightarrow>
      case dot_number s of
        None \<Rightarrow> None
      | Some (patch, s) \<Rightarrow> map_option (\<lambda>prerelease. (major, minor, patch, prerelease)) (version_tail s))"

definition numeric :: "string \<Rightarrow> bool" where
  "numeric s \<longleftrightarrow> s \<noteq> [] \<and> list_all is_digit s"

definition strings_Compare :: "string \<Rightarrow> string \<Rightarrow> int" where
  "strings_Compare a b = (if a < b then -1 else if a = b then 0 else 1)"

definition compareNumber :: "string \<Rightarrow> string \<Rightarrow> int" where
  "compareNumber a b = (if length a < length b then -1 else if length a > length b then 1 else strings_Compare a b)"

definition bad_prerelease :: "string \<Rightarrow> bool" where
  "bad_prerelease part \<longleftrightarrow> numeric part \<and> length part > 1 \<and> hd part = CHR ''0''"

definition checked_version :: "string \<Rightarrow> string + (string \<times> string \<times> string \<times> string)" where
  "checked_version s =
     (case semanticVersion s of
        None \<Rightarrow> Inl ''unrecognized version''
      | Some (major, minor, patch, prerelease) \<Rightarrow>
          if list_ex bad_prerelease (split_on CHR ''.'' prerelease) then Inl ''invalid numeric prerelease''
          else Inr (major, minor, patch, prerelease))"

text \<open>The loop over the identifiers of two different prereleases.\<close>

fun compare_identifiers :: "string list \<Rightarrow> string list \<Rightarrow> int" where
  "compare_identifiers (x # xs) (y # ys) =
     (if x = y then compare_identifiers xs ys
      else if numeric x \<and> numeric y then compareNumber x y
      else if numeric x then -1
      else if numeric y then 1
      else strings_Compare x y)"
| "compare_identifiers [] ys = (if 0 < length ys then -1 else 1)"
| "compare_identifiers (x # xs) [] = 1"

definition Version_Compare :: "string \<Rightarrow> string \<Rightarrow> string + int" where
  "Version_Compare a b =
     (case checked_version a of
        Inl e \<Rightarrow> Inl e
      | Inr (major, minor, patch, pre) \<Rightarrow>
      case checked_version b of
        Inl e \<Rightarrow> Inl e
      | Inr (major', minor', patch', pre') \<Rightarrow>
          Inr (if compareNumber major major' \<noteq> 0 then compareNumber major major'
               else if compareNumber minor minor' \<noteq> 0 then compareNumber minor minor'
               else if compareNumber patch patch' \<noteq> 0 then compareNumber patch patch'
               else if pre = pre' then 0
               else if pre = [] then 1
               else if pre' = [] then -1
               else compare_identifiers (split_on CHR ''.'' pre) (split_on CHR ''.'' pre')))"

section \<open>Precedence\<close>

text \<open>An identifier of a prerelease; numbers come before names.\<close>

datatype ident = Num nat | Name string

instantiation ident :: linorder
begin

fun less_eq_ident :: "ident \<Rightarrow> ident \<Rightarrow> bool" where
  "less_eq_ident (Num m) (Num n) = (m \<le> n)"
| "less_eq_ident (Num _) (Name _) = True"
| "less_eq_ident (Name _) (Num _) = False"
| "less_eq_ident (Name s) (Name t) = (s \<le> t)"

definition less_ident :: "ident \<Rightarrow> ident \<Rightarrow> bool" where
  "less_ident x y \<longleftrightarrow> x \<le> y \<and> \<not> y \<le> x"

instance
proof
  fix x y z :: ident
  show "(x < y) = (x \<le> y \<and> \<not> y \<le> x)" by (simp add: less_ident_def)
  show "x \<le> x" by (cases x) auto
  show "x \<le> y \<Longrightarrow> y \<le> z \<Longrightarrow> x \<le> z" by (cases x; cases y; cases z) auto
  show "x \<le> y \<Longrightarrow> y \<le> x \<Longrightarrow> x = y" by (cases x; cases y) auto
  show "x \<le> y \<or> y \<le> x" by (cases x; cases y) auto
qed

end

definition ident_of :: "string \<Rightarrow> ident" where
  "ident_of s = (if numeric s then Num (digits_value s) else Name s)"

text \<open>A release comes after its prereleases; build metadata does not count.\<close>

type_synonym precedence = "nat \<times> nat \<times> nat \<times> bool \<times> ident list"

definition precedence :: "string \<Rightarrow> precedence option" where
  "precedence s =
     (case checked_version s of
        Inl _ \<Rightarrow> None
      | Inr (major, minor, patch, pre) \<Rightarrow>
          Some (digits_value major, digits_value minor, digits_value patch, pre = [],
                if pre = [] then [] else map ident_of (split_on CHR ''.'' pre)))"

definition order_of :: "'a::linorder \<Rightarrow> 'a \<Rightarrow> int" where
  "order_of x y = (if x < y then -1 else if x = y then 0 else 1)"

section \<open>Numbers\<close>

lemma digits_value_Cons: "digits_value (c # s) = digit_value c * 10 ^ length s + digits_value s"
proof (induction s rule: rev_induct)
  case Nil
  then show ?case by (simp add: digits_value_def)
next
  case (snoc d s)
  have "digits_value (c # s @ [d]) = digits_value (c # s) * 10 + digit_value d" using digits_value_snoc [of "c # s" d] by simp
  with snoc show ?case by (simp add: digits_value_snoc algebra_simps)
qed

lemma digit_value_bound: "is_digit c \<Longrightarrow> digit_value c < 10"
  by (auto simp: is_digit_def digit_value_def)

lemma digits_value_bound: "list_all is_digit s \<Longrightarrow> digits_value s < 10 ^ length s"
proof (induction s)
  case (Cons c s)
  then have "digit_value c \<le> 9" "digits_value s < 10 ^ length s" using digit_value_bound by fastforce+
  then have "digit_value c * 10 ^ length s + digits_value s < 9 * 10 ^ length s + 10 ^ length s"
    by (intro add_le_less_mono mult_le_mono1) simp_all
  then show ?case by (simp add: digits_value_Cons)
qed (simp add: digits_value_def)

lemma byte_order: "(c::char) < d \<longleftrightarrow> byte c < byte d"
  by (simp add: less_char_def byte_def)

lemma byte_eq_iff: "byte c = byte d \<longleftrightarrow> c = d"
  by (simp add: byte_def)

lemma digits_value_less:
  assumes "length a = length b" "list_all is_digit a" "list_all is_digit b"
  shows "(a < b) = (digits_value a < digits_value b)"
  using assms
proof (induction a b rule: list_induct2)
  case Nil
  then show ?case by simp
next
  case (Cons c a d b)
  have bounds: "digits_value a < 10 ^ length b" "digits_value b < 10 ^ length b"
    using Cons.prems Cons.hyps digits_value_bound [of a] digits_value_bound [of b] by simp_all
  have gap: "m * p + x < n * p + y" if "m < n" "x < p" for m n p x y :: nat
  proof -
    have "m * p + x < (m + 1) * p" using that(2) by simp
    also have "\<dots> \<le> n * p" using that(1) by (intro mult_le_mono1) simp
    finally show ?thesis by simp
  qed
  consider "byte c < byte d" | "c = d" | "byte d < byte c"
    using byte_order [of c d] byte_order [of d c] by fastforce
  then show ?case
  proof cases
    case 1
    then have "digit_value c < digit_value d" using Cons.prems by (auto simp: digit_value_def is_digit_def)
    from gap [OF this bounds(1), of "digits_value b"] 1 Cons.hyps show ?thesis
      by (simp add: digits_value_Cons byte_order)
  next
    case 2
    with Cons show ?thesis by (simp add: digits_value_Cons)
  next
    case 3
    then have "digit_value d < digit_value c" using Cons.prems by (auto simp: digit_value_def is_digit_def)
    from gap [OF this bounds(2), of "digits_value a"] 3 Cons.hyps show ?thesis
      by (auto simp: digits_value_Cons byte_order)
  qed
qed

lemma digits_value_leading:
  assumes "canonical b" "length b > 1"
  shows "10 ^ (length b - 1) \<le> digits_value b"
proof -
  from assms obtain d s where b: "b = d # s" "is_digit d" "d \<noteq> CHR ''0''"
    by (cases b) (auto simp: canonical_def)
  then have "1 \<le> digit_value d"
    using byte_eq_iff [of d "CHR ''0''"] by (auto simp: digit_value_def is_digit_def byte_def)
  then have "1 * 10 ^ length s \<le> digit_value d * 10 ^ length s" by (rule mult_le_mono1)
  then have "10 ^ length s \<le> digit_value d * 10 ^ length s + digits_value s" unfolding mult_1 by (rule trans_le_add1)
  with b show ?thesis by (simp add: digits_value_Cons)
qed

lemma digits_value_shorter:
  assumes "canonical a" "canonical b" "length a < length b"
  shows "digits_value a < digits_value b"
proof -
  have "a \<noteq> []" using assms by (simp add: canonical_def)
  have "digits_value a < 10 ^ length a" using assms by (simp add: canonical_def digits_value_bound)
  also have "\<dots> \<le> 10 ^ (length b - 1)" using assms by (intro power_increasing) simp_all
  also have "\<dots> \<le> digits_value b"
    using assms \<open>a \<noteq> []\<close> by (intro digits_value_leading) (cases a; simp)+
  finally show ?thesis .
qed

text \<open>Comparing lengths first and then bytes is comparing the numbers, of any size.\<close>

lemma compareNumber_order:
  assumes "canonical a" "canonical b"
  shows "compareNumber a b = order_of (digits_value a) (digits_value b) \<and> (digits_value a = digits_value b \<longleftrightarrow> a = b)"
proof (cases "length a = length b")
  case True
  have less: "(a < b) = (digits_value a < digits_value b)" "(b < a) = (digits_value b < digits_value a)"
    using digits_value_less [of a b] digits_value_less [of b a] True assms by (simp_all add: canonical_def)
  then have "digits_value a = digits_value b \<longleftrightarrow> a = b" by (metis linorder_less_linear less_irrefl)
  with less True show ?thesis by (auto simp: compareNumber_def strings_Compare_def order_of_def)
next
  case False
  then show ?thesis
    using digits_value_shorter [of a b] digits_value_shorter [of b a] assms
    by (cases "length a < length b") (auto simp: compareNumber_def order_of_def)
qed

section \<open>Identifiers\<close>

fun join_on :: "char \<Rightarrow> string list \<Rightarrow> string" where
  "join_on c [] = []"
| "join_on c [w] = w"
| "join_on c (w # ws) = w @ c # join_on c ws"

lemma split_on_not_Nil [simp]: "split_on c s \<noteq> []"
  by (cases s) (auto split: list.splits)

lemma join_split: "join_on c (split_on c s) = s"
proof (induction s)
  case (Cons x s)
  obtain w ws where "split_on c s = w # ws" by (cases "split_on c s") auto
  with Cons show ?case by (cases ws) auto
qed simp

lemma split_on_inj: "split_on c s = split_on c t \<longleftrightarrow> s = t"
  by (metis join_split)

definition good_identifier :: "string \<Rightarrow> bool" where
  "good_identifier s \<longleftrightarrow> s \<noteq> [] \<and> \<not> bad_prerelease s"

lemma good_identifier_number: "good_identifier s \<Longrightarrow> numeric s \<Longrightarrow> canonical s"
  by (cases s; cases "tl s") (auto simp: good_identifier_def bad_prerelease_def numeric_def canonical_def)

lemma ident_of_inj:
  assumes "good_identifier x" "good_identifier y"
  shows "ident_of x = ident_of y \<longleftrightarrow> x = y"
  using assms compareNumber_order [OF good_identifier_number good_identifier_number, of x y]
  by (auto simp: ident_of_def)

lemma compare_identifier:
  assumes "good_identifier x" "good_identifier y" "x \<noteq> y"
  shows "(if numeric x \<and> numeric y then compareNumber x y
          else if numeric x then -1 else if numeric y then 1
          else strings_Compare x y) = order_of (ident_of x) (ident_of y)"
  using assms compareNumber_order [OF good_identifier_number good_identifier_number, of x y]
  by (auto simp: ident_of_def order_of_def less_ident_def strings_Compare_def)

lemma compare_identifiers_order:
  assumes "list_all good_identifier xs" "list_all good_identifier ys" "xs \<noteq> ys"
  shows "compare_identifiers xs ys = order_of (map ident_of xs) (map ident_of ys)"
  using assms
proof (induction xs ys rule: compare_identifiers.induct)
  case (1 x xs y ys)
  show ?case
  proof (cases "x = y")
    case True
    with 1 show ?thesis by (simp add: order_of_def)
  next
    case False
    have "compare_identifiers (x # xs) (y # ys) = order_of (ident_of x) (ident_of y)"
      using compare_identifier [of x y] 1 False by simp
    also have "\<dots> = order_of (map ident_of (x # xs)) (map ident_of (y # ys))"
      using ident_of_inj [of x y] 1 False by (auto simp: order_of_def)
    finally show ?thesis .
  qed
next
  case (2 ys)
  then show ?case by (cases ys) (auto simp: order_of_def)
next
  case (3 x xs)
  then show ?case by (simp add: order_of_def)
qed

section \<open>Versions\<close>

lemma version_number_canonical: "version_number s = Some (digits, rest) \<Longrightarrow> canonical digits"
  by (auto simp: version_number_def Let_def split: if_splits)

lemma dot_number_canonical: "dot_number s = Some (digits, rest) \<Longrightarrow> canonical digits"
  by (auto simp: dot_number_def version_number_canonical split: list.splits if_splits)

lemma version_tail_dotted: "version_tail s = Some pre \<Longrightarrow> pre = [] \<or> dotted pre"
  by (auto simp: version_tail_def Let_def split: if_splits)

lemma checked_version_parts:
  assumes "checked_version s = Inr (major, minor, patch, pre)"
  shows "canonical major \<and> canonical minor \<and> canonical patch
    \<and> (pre \<noteq> [] \<longrightarrow> list_all good_identifier (split_on CHR ''.'' pre))"
proof -
  from assms have match: "semanticVersion s = Some (major, minor, patch, pre)"
    and good: "\<not> list_ex bad_prerelease (split_on CHR ''.'' pre)"
    by (auto simp: checked_version_def split: option.splits if_splits)
  from match have "canonical major" "canonical minor" "canonical patch" "pre = [] \<or> dotted pre"
    by (auto simp: semanticVersion_def dest: version_number_canonical dot_number_canonical version_tail_dotted
        split: if_splits option.splits prod.splits)
  with good show ?thesis by (auto simp: dotted_def good_identifier_def list_all_iff list_ex_iff)
qed

text \<open>
  C35. \<open>Compare\<close> orders versions by semantic-version precedence: when both strings are versions its
  result is the comparison of their precedence keys (the three numbers, a release after its
  prereleases, then the identifiers with numbers before names, numbers compared as numbers of any
  size), and otherwise it is an error. Since the keys are linearly ordered the comparison is total,
  antisymmetric and transitive, and build metadata has no influence.
\<close>

theorem Compare_precedence:
  "case (precedence a, precedence b) of
     (Some x, Some y) \<Rightarrow> Version_Compare a b = Inr (order_of x y)
   | _ \<Rightarrow> \<exists>e. Version_Compare a b = Inl e"
proof (cases "checked_version a")
  case (Inl e)
  then show ?thesis by (simp add: precedence_def Version_Compare_def)
next
  case (Inr left)
  then obtain major minor patch pre where a: "checked_version a = Inr (major, minor, patch, pre)"
    by (cases left) auto
  show ?thesis
  proof (cases "checked_version b")
    case (Inl e)
    with a show ?thesis by (simp add: precedence_def Version_Compare_def)
  next
    case (Inr right)
    then obtain major' minor' patch' pre' where b: "checked_version b = Inr (major', minor', patch', pre')"
      by (cases right) auto
    have parts: "canonical major" "canonical minor" "canonical patch" "canonical major'" "canonical minor'" "canonical patch'"
      and ids: "pre \<noteq> [] \<Longrightarrow> list_all good_identifier (split_on CHR ''.'' pre)"
        "pre' \<noteq> [] \<Longrightarrow> list_all good_identifier (split_on CHR ''.'' pre')"
      using checked_version_parts [OF a] checked_version_parts [OF b] by simp_all
    have last: "(if pre = pre' then 0 else if pre = [] then 1 else if pre' = [] then -1
        else compare_identifiers (split_on CHR ''.'' pre) (split_on CHR ''.'' pre'))
      = order_of (pre = [], if pre = [] then [] else map ident_of (split_on CHR ''.'' pre))
          (pre' = [], if pre' = [] then [] else map ident_of (split_on CHR ''.'' pre'))"
      using compare_identifiers_order [OF ids] by (auto simp: order_of_def split_on_inj)
    show ?thesis
      using compareNumber_order [OF parts(1,4)] compareNumber_order [OF parts(2,5)] compareNumber_order [OF parts(3,6)] last
      by (simp add: precedence_def Version_Compare_def a b)
        (auto simp: order_of_def)
  qed
qed

end
