(* ===== verification/Spec2Isabelle.thy ===== *)
theory Spec2Isabelle
  imports Body_Prefix Body_Properties Gateway_Clients Gateway_Properties Health_Snapshot Patch_Aliases Runtime_Crash Selector_Fairness Version
begin

text \<open>
  Verification of cc-automux, a local gateway that forwards the requests of a coding assistant
  to one of several upstream providers (sources under \<open>src/internal\<close>).

  \<^bold>\<open>The program.\<close> The runtime manager owns the configuration: it validates updates, talks to the
  harness that is configured to use the gateway, saves the file and publishes an immutable
  snapshot with the compiled provider catalog. The gateway runs every request against the
  snapshot current at its start. It asks the scheduler for a provider, calls it under the
  control of timers, and either streams the answer to the client, rewrites and sends it, or
  keeps the failure and asks for another provider, until the attempt budget is used up. The
  scheduler orders the candidates by priority, session affinity and round-robin cursors and
  asks the health store for a lease on each; the outcome of the attempt is reported with the
  lease and drives the circuit breakers of the provider and of its model channels.

  \<^bold>\<open>Theories and sources.\<close>
  \<^item> \<open>Prelude\<close>, \<open>Go_Text\<close>, \<open>Text_Limit\<close>: Go's base types, maps, time, sorting, text functions and
    \<open>textlimit/text.go\<close>.
  \<^item> \<open>Scheduler_Contracts\<close>, \<open>Provider_Model\<close>, \<open>Provider_Compile\<close>: \<open>scheduler/contracts.go\<close>,
    \<open>scheduler/policy.go\<close>, \<open>traffic/type.go\<close>, and the catalog of \<open>provider/compile.go\<close>,
    \<open>catalog.go\<close>, \<open>generation.go\<close>.
  \<^item> \<open>Health_Entry\<close>, \<open>Health_Store\<close>, \<open>Health_Snapshot\<close>: \<open>health/store.go\<close> and \<open>health/snapshot.go\<close>, every
    operation; \<open>Health_Invariant\<close>, \<open>Health_Operations\<close>, \<open>Health_Leases\<close>, \<open>Health_Properties\<close> prove the
    store invariant, the lease accounting and what callers may rely on.
  \<^item> \<open>Affinity\<close>, \<open>Affinity_Cache\<close>, \<open>Selector_Order\<close>, \<open>Selector\<close>: \<open>scheduler/selector.go\<close>, every operation.
    \<open>Affinity_Cache\<close> refines the map, list and index to one bounded recency list;
    \<open>Selector_Interface\<close> states the contract of a health controller as locales and what the
    selector guarantees over it; \<open>Selector_Store\<close> interprets them on the health store and gives
    the pair as a state machine; \<open>Selector_Trace\<close>, \<open>Selector_Properties\<close> say whom a selection asks, \<open>Selector_Fairness\<close>
    follows the round-robin cursor through a sequence of selections.
  \<^item> \<open>Config_Model\<close>, \<open>Config_Validate\<close>, \<open>Config_Update\<close>: \<open>config/model.go\<close>, \<open>tls.go\<close>,
    \<open>provider_order.go\<close> and the validation parts of \<open>codec.go\<close>; validation is characterised by a
    declarative contract.
  \<^item> \<open>Runtime_Snapshot\<close>, \<open>Runtime_Manager\<close>: \<open>runtime/manager.go\<close>, \<open>snapshot.go\<close>, \<open>scan_cache.go\<close>,
    \<open>provider_order.go\<close> and the file operations of \<open>config/store.go\<close>; \<open>Runtime_Invariant\<close>,
    \<open>Runtime_Properties\<close> prove the invariant over any sequence of operations and failures.
    \<open>Runtime_Startup\<close>: \<open>runtime/startup.go\<close> and the start of the process in \<open>app/app.go\<close>.
    \<open>Runtime_Crash\<close>: the process stopped inside an operation. The files keep the history of their
    contents (\<open>w_history\<close>), every operation is proved to change them at most once, and the process
    is restarted on what any moment of it leaves; a stop during the start itself is not covered.
    Removing a pending file that does not exist is taken to report no error.
  \<^item> \<open>Gateway_SSE\<close>, \<open>Gateway_Attempt\<close>: \<open>gateway/sse_observer.go\<close>, \<open>error_text.go\<close>, \<open>reasons.go\<close>,
    \<open>upstream_attempt.go\<close>. The control of an attempt is shared by goroutines; its critical
    sections are the steps (\<open>attempt_op\<close>) and the properties hold for every interleaving.
  \<^item> \<open>Gateway_World\<close>, \<open>Gateway_Stream\<close>, \<open>Gateway_Executor\<close>: \<open>gateway/handler.go\<close>, \<open>events.go\<close>,
    \<open>cancellation.go\<close>, \<open>stream_copy.go\<close>, \<open>error_response.go\<close>, \<open>plan_executor.go\<close>, a request against
    the provider pool in the state monad. \<open>Gateway_Logic\<close> gives Hoare triples, \<open>Gateway_Accounting\<close>
    the tracked state and the selector contract as the locale \<open>gateway_selector\<close>,
    \<open>Gateway_Failures\<close> and \<open>Gateway_Pool\<close> the triples of every function, \<open>Gateway_Properties\<close> the
    interpretation on the scheduler over the health store and the properties.
  \<^item> \<open>Gateway_Clients\<close>: \<open>gateway/client_pool.go\<close>, transports shared by leases across changes of
    configuration.
  \<^item> \<open>Body_Text\<close>, \<open>Body_Markers\<close>, \<open>Body_Scanner\<close>: \<open>bodyfile/stream.go\<close>, the streaming scanner of
    request bodies, byte by byte with its frames, tokens, selector trie and marker automata.
    \<open>Body_Grammar\<close> is the specification: the JSON grammar as a syntax tree with all its white
    space, and the index as functions of the tree. \<open>Body_Tokens\<close>, \<open>Body_Strings\<close>, \<open>Body_Model\<close>
    treat numbers, literals and strings; \<open>Body_Accept\<close>, \<open>Body_Sound\<close> prove with an invariant that
    what is accepted is a document, \<open>Body_Complete\<close>, \<open>Body_Index\<close>, \<open>Body_Documents\<close> by induction
    on the tree that every document is accepted with its index. \<open>Body_Lookup\<close>: \<open>bodyfile/index.go\<close>;
    \<open>Body_Edit\<close>: \<open>bodyfile/edit.go\<close>; \<open>Body_Properties\<close> holds the properties; \<open>Body_Prefix\<close>:
    \<open>bodyfile/prefix.go\<close>, the bounded reading of a string.
  \<^item> \<open>Patch_Aliases\<close>: \<open>patch/alias_store.go\<close>, the bounded store of session aliases.
  \<^item> \<open>Version\<close>: \<open>version/compare.go\<close>.

  \<^bold>\<open>State.\<close> Structs are records with the fields of the source, enumerations are datatypes or the
  strings the source compares, Go maps are association lists in an arbitrary order, pointers
  that are shared and mutated (health scopes, assignments) are addresses in an explicit heap,
  revisions, tokens and epochs are 64-bit words that wrap. Times and durations are integers
  within the range the source keeps them in; \<open>wrap64\<close> and the saturating \<open>time_sub\<close> are written
  out where they matter. Errors are values of sum and option types, a Go panic is a flag of the
  state or the absence of a result: \<open>gx_panicked\<close> for the panic of \<open>outcomeEvent\<close>, \<open>gx_aborted\<close> for
  the deliberate panic with \<open>http.ErrAbortHandler\<close>, after which the code only runs deferred
  releases, as the model does. \<open>gx_sent\<close> counts the requests handed to an upstream client.

  \<^bold>\<open>The outside.\<close> Files, clocks, the harness, providers, the client and patches are parameters:
  scripts that give the reply to the \<open>n\<close>-th question (\<open>runtime_env\<close>, \<open>gate_env\<close>, the clock of a
  store). A property that quantifies over the script holds for all behaviours of the outside,
  failures at any point and cancellations seen or missed at any check included.

  \<^bold>\<open>Fuel and termination.\<close> The search for a free lease token runs with two rounds more than there
  are leases, which is proved to be enough while fewer than \<open>2^64 - 1\<close> leases are out (\<open>token_room\<close>). The eviction and expiry loops of
  the affinity list return on every list that keeps the invariant. The loop over providers runs
  with one round more than the attempt budget, which is proved to be enough. All other loops
  are structural or have a measure.

  \<^bold>\<open>Not modelled.\<close> HTTP handlers and JSON of the management API, the command line, process
  lifecycle, static files and log storage are input and output around the modelled state.
  \<open>gateway/fixed_executor.go\<close> and \<open>ServeHTTP\<close>, the patches, the harness file edits, request
  classification and log queries are not modelled. Of \<open>bodyfile\<close>, temporary files, digests and the
  identity of bodies and the cancellation of a scan are left out: a body is the list of its bytes. Other requests that use the scheduler between two steps of one request are not
  interleaved in \<open>Gateway_Properties\<close>; \<open>Selector_Store\<close> covers every interleaving at the level of
  scheduler calls.
\<close>

end
